(* ===== verification/Prelude.thy ===== *)
theory Prelude
  imports Main "HOL-Library.Word" "HOL-Library.Multiset"
begin

text \<open>
  Shared ground of the development: the result type of fallible C code, byte buffers,
  C conversions, and the ordered insertion into singly linked lists that the PDCP SDU list,
  the RLC PDU list and the RLC SDU segment list all use.

  A C function that may call \<open>exit(1)\<close> or that may run into undefined behaviour returns
  \<open>'a res\<close>: \<open>Inl\<close> is the fault, \<open>Inr\<close> the value.  A buffer with its length is a
  list of bytes.  A linked list is a HOL list; where the code compares or stores node pointers,
  nodes carry an explicit address.
\<close>

unbundle bit_operations_syntax

subsection \<open>Bytes, machine words, faults\<close>

type_synonym byte = "8 word"
type_synonym bytes = "byte list"
type_synonym u16 = "16 word"
type_synonym u32 = "32 word"
type_synonym u64 = "64 word"

text \<open>
  The ways a C function of the modelled files does not return normally: a call to
  \<open>exit(1)\<close>/\<open>abort()\<close>, a dereference of \<open>NULL\<close>, the use of a pointer to a freed or
  foreign object, an access outside a buffer, a loop that never ends, the RLC AM decoder's own
  \<open>entity in inconsistent state\<close>, the overflow of a signed multiplication, and a division by zero.
\<close>

datatype fault = Exit | NullDeref | Dangling | OutOfBounds | Diverge | Inconsistent | Overflow | DivByZero

type_synonym 'a res = "fault + 'a"

definition bnd :: "'a res \<Rightarrow> ('a \<Rightarrow> 'b res) \<Rightarrow> 'b res" where
  "bnd m f = (case m of Inl e \<Rightarrow> Inl e | Inr x \<Rightarrow> f x)"

definition fault_of :: "'a res \<Rightarrow> fault option" where
  "fault_of m = (case m of Inl e \<Rightarrow> Some e | Inr _ \<Rightarrow> None)"

definition guard :: "bool \<Rightarrow> fault \<Rightarrow> unit res" where
  "guard b e = (if b then Inr () else Inl e)"

definition deref :: "'a option \<Rightarrow> fault \<Rightarrow> 'a res" where
  "deref p e = (case p of None \<Rightarrow> Inl e | Some x \<Rightarrow> Inr x)"

text \<open>\<open>memcpy(dst + off, src, n)\<close> with \<open>n\<close> the length of \<open>src\<close>: a copy that does not
  fit the destination is a fault.\<close>

definition memcpy_at :: "bytes \<Rightarrow> nat \<Rightarrow> bytes \<Rightarrow> bytes res" where
  "memcpy_at dst off src =
     (if off + length src \<le> length dst
      then Inr (take off dst @ src @ drop (off + length src) dst)
      else Inl OutOfBounds)"

text \<open>Reading \<open>n\<close> bytes at an offset of a buffer.\<close>

definition read_at :: "bytes \<Rightarrow> int \<Rightarrow> int \<Rightarrow> bytes res" where
  "read_at src off n =
     (if 0 \<le> off \<and> 0 \<le> n \<and> off + n \<le> int (length src)
      then Inr (take (nat n) (drop (nat off) src))
      else Inl OutOfBounds)"

text \<open>The conversion of an unsigned 64-bit value to a C \<open>int\<close>.\<close>

definition int_of_u64 :: "u64 \<Rightarrow> int" where
  "int_of_u64 t = sint (ucast t :: u32)"

text \<open>The conversion of a C \<open>int\<close> to an unsigned 64-bit value.\<close>

definition u64_of_int :: "int \<Rightarrow> u64" where
  "u64_of_int i = word_of_int i"

text \<open>The sum of two C \<open>int\<close> values, on a machine where it wraps around at 32 bits.\<close>

definition int_add :: "int \<Rightarrow> int \<Rightarrow> int" where
  "int_add a b = sint (word_of_int (a + b) :: u32)"

text \<open>The conversion of a C \<open>int\<close> to \<open>unsigned char\<close>.\<close>

definition byte_of_int :: "int \<Rightarrow> byte" where
  "byte_of_int i = word_of_int i"

text \<open>The remainder operator of C, which takes the sign of its first argument.\<close>

definition c_rem :: "int \<Rightarrow> int \<Rightarrow> int" where
  "c_rem a b = (if a < 0 then - ((- a) mod \<bar>b\<bar>) else a mod \<bar>b\<bar>)"

named_theorems res_simps \<open>unfolding rules of the result type\<close>
named_theorems conf \<open>fields an operation leaves alone\<close>

lemma c_rem_nonneg: "0 \<le> a \<Longrightarrow> 0 < b \<Longrightarrow> c_rem a b = a mod b"
  by (simp add: c_rem_def)

lemma bnd_Inl [simp, res_simps]: "bnd (Inl e) f = Inl e"
  by (simp add: bnd_def)

lemma bnd_Inr [simp, res_simps]: "bnd (Inr x) f = f x"
  by (simp add: bnd_def)

lemma bnd_eq_Inr [res_simps]: "bnd m f = Inr y \<longleftrightarrow> (\<exists>x. m = Inr x \<and> f x = Inr y)"
  by (cases m) auto

lemma bnd_eq_Inl [res_simps]:
  "bnd m f = Inl e \<longleftrightarrow> m = Inl e \<or> (\<exists>x. m = Inr x \<and> f x = Inl e)"
  by (cases m) auto

lemma bnd_cong [fundef_cong]:
  "m = m' \<Longrightarrow> (\<And>x. m' = Inr x \<Longrightarrow> f x = g x) \<Longrightarrow> bnd m f = bnd m' g"
  by (cases m') auto

lemma bnd_assoc: "bnd (bnd m f) g = bnd m (\<lambda>x. bnd (f x) g)"
  by (cases m) auto

lemma guard_True [simp]: "guard True e = Inr ()"
  by (simp add: guard_def)

lemma guard_False [simp]: "guard False e = Inl e"
  by (simp add: guard_def)

lemma guard_eq_Inr [simp, res_simps]: "guard b e = Inr u \<longleftrightarrow> b"
  by (simp add: guard_def)

lemma deref_Some [simp]: "deref (Some x) e = Inr x"
  by (simp add: deref_def)

lemma deref_None [simp]: "deref None e = Inl e"
  by (simp add: deref_def)

lemma deref_eq_Inr [simp, res_simps]: "deref p e = Inr x \<longleftrightarrow> p = Some x"
  by (cases p) auto

lemma memcpy_at_fits:
  "off + length src \<le> length dst \<Longrightarrow>
   memcpy_at dst off src = Inr (take off dst @ src @ drop (off + length src) dst)"
  by (simp add: memcpy_at_def)

lemma memcpy_at_length: "memcpy_at dst off src = Inr d \<Longrightarrow> length d = length dst"
  by (auto simp: memcpy_at_def split: if_splits)

lemma memcpy_at_take:
  "memcpy_at dst off src = Inr d \<Longrightarrow>
   take (off + length src) d = take off dst @ src"
  by (auto simp: memcpy_at_def split: if_splits)

lemma read_at_fits:
  "0 \<le> off \<Longrightarrow> 0 \<le> n \<Longrightarrow> off + n \<le> int (length src) \<Longrightarrow>
   read_at src off n = Inr (take (nat n) (drop (nat off) src))"
  by (simp add: read_at_def)

lemma read_at_length: "read_at src off n = Inr d \<Longrightarrow> int (length d) = n"
  by (auto simp: read_at_def split: if_splits)

subsection \<open>Ordered insertion into a linked list\<close>

text \<open>
  The three list-insertion routines walk the list until the new element is strictly before the
  current one and link it there.  The locale states what such a routine does on the two shapes
  of a list; \<open>rank\<close> is the sort key.  Its lemmas give order, contents and uniqueness.
\<close>

locale ordered_insertion =
  fixes add :: "'a list \<Rightarrow> 'a \<Rightarrow> 'a list"
    and rank :: "'a \<Rightarrow> 'k::linorder"
    and dom_ok :: "'a \<Rightarrow> bool"
  assumes add_Nil: "add [] x = [x]"
    and add_Cons: "dom_ok x \<Longrightarrow> dom_ok y \<Longrightarrow>
          add (y # ys) x = (if rank x < rank y then x # y # ys else y # add ys x)"
begin

lemma mset_add:
  "dom_ok x \<Longrightarrow> \<forall>y\<in>set xs. dom_ok y \<Longrightarrow> mset (add xs x) = add_mset x (mset xs)"
  by (induction xs) (auto simp: add_Nil add_Cons)

lemma set_add:
  "dom_ok x \<Longrightarrow> \<forall>y\<in>set xs. dom_ok y \<Longrightarrow> set (add xs x) = insert x (set xs)"
  by (metis mset_add set_mset_add_mset_insert set_mset_mset)

lemma length_add:
  "dom_ok x \<Longrightarrow> \<forall>y\<in>set xs. dom_ok y \<Longrightarrow> length (add xs x) = Suc (length xs)"
  by (metis mset_add size_add_mset size_mset)

lemma sorted_add:
  "dom_ok x \<Longrightarrow> \<forall>y\<in>set xs. dom_ok y \<Longrightarrow> sorted (map rank xs) \<Longrightarrow> sorted (map rank (add xs x))"
proof (induction xs)
  case Nil
  then show ?case by (simp add: add_Nil)
next
  case (Cons y ys)
  then show ?case by (auto simp: add_Cons set_add)
qed

lemma strict_sorted_add:
  assumes "dom_ok x" "\<forall>y\<in>set xs. dom_ok y"
    and "sorted_wrt (<) (map rank xs)" "\<forall>y\<in>set xs. rank y \<noteq> rank x"
  shows "sorted_wrt (<) (map rank (add xs x))"
  using assms
proof (induction xs)
  case Nil
  then show ?case by (simp add: add_Nil)
next
  case (Cons y ys)
  then show ?case by (auto simp: add_Cons set_add)
qed

end

subsection \<open>Entities driven by operations\<close>

text \<open>
  A protocol entity is driven by calls of its operations.  \<open>run_ops\<close> performs a sequence of
  them and collects the outputs; a fault ends it.  The locale is the contract an entity gives its
  user: permitted calls return, and keep the invariant.
\<close>

fun run_ops :: "('e \<Rightarrow> 'op \<Rightarrow> ('e \<times> 'out list) res) \<Rightarrow> 'e \<Rightarrow> 'op list \<Rightarrow> ('e \<times> 'out list) res" where
  "run_ops step e [] = Inr (e, [])"
| "run_ops step e (x # xs) =
     bnd (step e x) (\<lambda>(e1, o1). bnd (run_ops step e1 xs) (\<lambda>(e2, o2). Inr (e2, o1 @ o2)))"

lemma run_ops_append:
  "run_ops step e (xs @ ys) =
   bnd (run_ops step e xs) (\<lambda>(e1, o1). bnd (run_ops step e1 ys) (\<lambda>(e2, o2). Inr (e2, o1 @ o2)))"
proof (induction xs arbitrary: e)
  case Nil
  then show ?case by (cases "run_ops step e ys") auto
next
  case (Cons x xs)
  then show ?case
    by (cases "step e x") (auto simp: bnd_def split: sum.splits)
qed

locale entity_contract =
  fixes step :: "'e \<Rightarrow> 'op \<Rightarrow> ('e \<times> 'out list) res"
    and ok :: "'e \<Rightarrow> bool"
    and allowed :: "'op \<Rightarrow> bool"
  assumes step_ok: "ok e \<Longrightarrow> allowed x \<Longrightarrow> \<exists>e' os. step e x = Inr (e', os) \<and> ok e'"
begin

lemma run_safe:
  "ok e \<Longrightarrow> \<forall>x\<in>set xs. allowed x \<Longrightarrow> \<exists>e' os. run_ops step e xs = Inr (e', os) \<and> ok e'"
proof (induction xs arbitrary: e)
  case Nil
  then show ?case by simp
next
  case (Cons x xs)
  obtain e1 o1 where 1: "step e x = Inr (e1, o1)" "ok e1"
    using step_ok [of e x] Cons.prems by auto
  obtain e2 o2 where "run_ops step e1 xs = Inr (e2, o2)" "ok e2"
    using Cons.IH [OF 1(2)] Cons.prems by auto
  then show ?case using 1 by simp
qed

end

subsection \<open>Generic list facts\<close>

lemma sorted_wrt_less_append:
  "sorted_wrt (<) (xs @ ys) \<longleftrightarrow>
   sorted_wrt (<) xs \<and> sorted_wrt (<) ys \<and> (\<forall>x\<in>set xs. \<forall>y\<in>set ys. x < (y::'a::linorder))"
  by (simp add: sorted_wrt_append)

lemma word_less_plus_one:
  fixes a b :: "'a::len word"
  assumes "a < b"
  shows "a < a + 1" and "a + 1 \<le> b"
proof -
  have "uint a < uint b" using assms by (simp add: word_less_def)
  then have "uint a + 1 < 2 ^ LENGTH('a)"
    using uint_lt2p [of b] by linarith
  then have "uint (a + 1) = uint a + 1"
    by (simp add: uint_plus_if')
  then show "a < a + 1" "a + 1 \<le> b"
    using \<open>uint a < uint b\<close> by (simp_all add: word_less_def word_le_def)
qed

subsection \<open>Sequences of steps\<close>

text \<open>A property that every step keeps holds after a sequence of steps.\<close>

lemma run_ops_inv:
  assumes "\<And>s x s' ms. I s \<Longrightarrow> x \<in> set xs \<Longrightarrow> f s x = Inr (s', ms) \<Longrightarrow> I s'"
    and "I s" "run_ops f s xs = Inr (s', ms)"
  shows "I s'"
  using assms
proof (induction xs arbitrary: s s' ms)
  case (Cons x xs)
  obtain s1 o1 o2 where st: "f s x = Inr (s1, o1)" "run_ops f s1 xs = Inr (s', o2)"
    using Cons.prems(3) by (auto simp: bnd_eq_Inr)
  have "I s1" by (rule Cons.prems(1) [OF Cons.prems(2) _ st(1)]) simp
  moreover have "I s' " if "I s1" by (rule Cons.IH [OF _ that st(2)]) (rule Cons.prems(1); simp)
  ultimately show ?case by blast
qed simp

lemma run_ops_snoc:
  "run_ops h s xs = Inr (s1, o1) \<Longrightarrow> h s1 x = Inr (s2, o2) \<Longrightarrow> run_ops h s (xs @ [x]) = Inr (s2, o1 @ o2)"
  by (induction xs arbitrary: s o1) (auto simp: bnd_eq_Inr)

text \<open>The same without messages.\<close>

fun fold_res :: "('s \<Rightarrow> 'x \<Rightarrow> 's res) \<Rightarrow> 's \<Rightarrow> 'x list \<Rightarrow> 's res" where
  "fold_res f s [] = Inr s"
| "fold_res f s (x # xs) = bnd (f s x) (\<lambda>s1. fold_res f s1 xs)"

lemma fold_res_inv:
  assumes "\<And>s x s'. x \<in> set xs \<Longrightarrow> I s \<Longrightarrow> f s x = Inr s' \<Longrightarrow> I s'"
    and "I s" "fold_res f s xs = Inr s'"
  shows "I s'"
  using assms
proof (induction xs arbitrary: s)
  case (Cons x xs)
  obtain s1 where s1: "f s x = Inr s1" "fold_res f s1 xs = Inr s'"
    using Cons.prems(3) by (auto simp: res_simps)
  have "I s1" using Cons.prems(1) [of x s s1] Cons.prems(2) s1(1) by simp
  then show ?case using Cons.IH [of s1] Cons.prems(1) s1(2) by (meson list.set_intros(2))
qed simp

subsection \<open>Limits of the platform\<close>

text \<open>\<open>platform_constants.h\<close>, without \<open>LARGE_SCALE\<close> and \<open>UE_EXPANSION\<close>.\<close>

definition MAX_MOBILES_PER_ENB :: nat where
  "MAX_MOBILES_PER_ENB = 40"

definition MAX_MOBILES_PER_GNB :: nat where
  "MAX_MOBILES_PER_GNB = 16"

end
