(* ===== verification/Rlc_Sdu.thy ===== *)
theory Rlc_Sdu
  imports Prelude "HOL-Library.Product_Lexorder"
begin

text \<open>
  SDUs to transmit and their segments: \<open>nr_rlc_sdu.c\<close>.  An SDU is shared by all its segments and
  counted: \<open>ref_count\<close> is the number of segments ever made of it, \<open>free_count\<close> the number freed.
  SDUs live in an explicit heap; a segment carries its own address, because the entities keep
  pointers to the end of their lists.  A list of segments is a HOL list.  Addresses are never
  reused, so an access to a freed SDU is a \<open>Dangling\<close> fault.
\<close>

subsection \<open>Data\<close>

record nr_rlc_sdu =
  sdu_sn :: int
  sdu_upper_layer_id :: int
  sdu_data :: bytes
  sdu_size :: int
  sdu_retx_count :: int
  sdu_ref_count :: int
  sdu_free_count :: int

record nr_rlc_sdu_segment =
  seg_addr :: nat
  seg_sdu :: nat
  seg_size :: int
  seg_so :: int
  seg_is_first :: bool
  seg_is_last :: bool

record sdu_heap =
  hp_sdus :: "nat \<rightharpoonup> nr_rlc_sdu"
  hp_next :: nat

definition empty_heap :: sdu_heap where
  "empty_heap = \<lparr>hp_sdus = Map.empty, hp_next = 0\<rparr>"

definition get_sdu :: "sdu_heap \<Rightarrow> nr_rlc_sdu_segment \<Rightarrow> nr_rlc_sdu res" where
  "get_sdu h s = deref (hp_sdus h (seg_sdu s)) Dangling"

definition set_sdu :: "sdu_heap \<Rightarrow> nat \<Rightarrow> nr_rlc_sdu \<Rightarrow> sdu_heap" where
  "set_sdu h a u = h\<lparr>hp_sdus := (hp_sdus h)(a \<mapsto> u)\<rparr>"

subsection \<open>Operations\<close>

definition nr_rlc_new_sdu :: "sdu_heap \<Rightarrow> bytes \<Rightarrow> int \<Rightarrow> sdu_heap \<times> nr_rlc_sdu_segment" where
  "nr_rlc_new_sdu h buffer upper_layer_id =
     (let sdu = \<lparr>sdu_sn = -1, sdu_upper_layer_id = upper_layer_id, sdu_data = buffer,
                 sdu_size = int (length buffer), sdu_retx_count = -1,
                 sdu_ref_count = 1, sdu_free_count = 0\<rparr>;
          a = hp_next h
      in (h\<lparr>hp_sdus := (hp_sdus h)(a \<mapsto> sdu), hp_next := a + 2\<rparr>,
          \<lparr>seg_addr = a + 1, seg_sdu = a, seg_size = int (length buffer), seg_so = 0,
           seg_is_first = True, seg_is_last = True\<rparr>))"

definition nr_rlc_free_sdu_segment :: "sdu_heap \<Rightarrow> nr_rlc_sdu_segment \<Rightarrow> (sdu_heap \<times> bool) res" where
  "nr_rlc_free_sdu_segment h s =
     bnd (get_sdu h s) (\<lambda>u.
       let u1 = u\<lparr>sdu_free_count := sdu_free_count u + 1\<rparr>
       in if sdu_free_count u1 = sdu_ref_count u1
          then Inr (h\<lparr>hp_sdus := (hp_sdus h)(seg_sdu s := None)\<rparr>, True)
          else Inr (set_sdu h (seg_sdu s) u1, False))"

definition nr_rlc_sdu_segment_list_append ::
    "nr_rlc_sdu_segment list \<Rightarrow> nat option \<Rightarrow> nr_rlc_sdu_segment \<Rightarrow>
     (nr_rlc_sdu_segment list \<times> nat option) res" where
  "nr_rlc_sdu_segment_list_append list end_ptr sdu =
     (if list = [] then Inr ([sdu], Some (seg_addr sdu))
      else bnd (deref end_ptr NullDeref) (\<lambda>a.
        if a \<in> set (map seg_addr list)
        then Inr (takeWhile (\<lambda>s. seg_addr s \<noteq> a) list @
                  take 1 (dropWhile (\<lambda>s. seg_addr s \<noteq> a) list) @ [sdu], Some (seg_addr sdu))
        else Inl Dangling))"

fun nr_rlc_sdu_segment_list_add ::
    "(int \<Rightarrow> int \<Rightarrow> int) \<Rightarrow> sdu_heap \<Rightarrow> nr_rlc_sdu_segment list \<Rightarrow> nr_rlc_sdu_segment \<Rightarrow>
     nr_rlc_sdu_segment list res" where
  "nr_rlc_sdu_segment_list_add sn_compare h [] seg = Inr [seg]"
| "nr_rlc_sdu_segment_list_add sn_compare h (cur # rest) seg =
     bnd (get_sdu h cur) (\<lambda>c. bnd (get_sdu h seg) (\<lambda>u.
       if sn_compare (sdu_sn c) (sdu_sn u) > 0 \<or>
          (sdu_sn c = sdu_sn u \<and> seg_so cur > seg_so seg)
       then Inr (seg # cur # rest)
       else bnd (nr_rlc_sdu_segment_list_add sn_compare h rest seg) (\<lambda>l. Inr (cur # l))))"

fun nr_rlc_free_sdu_segment_list :: "sdu_heap \<Rightarrow> nr_rlc_sdu_segment list \<Rightarrow> sdu_heap res" where
  "nr_rlc_free_sdu_segment_list h [] = Inr h"
| "nr_rlc_free_sdu_segment_list h (cur # l) =
     bnd (nr_rlc_free_sdu_segment h cur) (\<lambda>(h1, _). nr_rlc_free_sdu_segment_list h1 l)"

subsection \<open>The reference-counting invariant\<close>

text \<open>
  \<open>heap_ok h M\<close>: the live segments are exactly \<open>M\<close>.  Every SDU of the heap is owned by at least one
  of them, its counters differ by the number of its segments, every segment is a slice of its
  SDU, and addresses are below the allocation mark.
\<close>

definition seg_of :: "nat \<Rightarrow> nr_rlc_sdu_segment multiset \<Rightarrow> nr_rlc_sdu_segment multiset" where
  "seg_of a M = filter_mset (\<lambda>s. seg_sdu s = a) M"

definition seg_slice :: "sdu_heap \<Rightarrow> nr_rlc_sdu_segment \<Rightarrow> bool" where
  "seg_slice h s \<longleftrightarrow> (case hp_sdus h (seg_sdu s) of None \<Rightarrow> False | Some u \<Rightarrow>
     sdu_size u = int (length (sdu_data u)) \<and> 0 \<le> seg_so s \<and> 0 \<le> seg_size s \<and>
     seg_so s + seg_size s \<le> sdu_size u \<and> (seg_is_first s \<longleftrightarrow> seg_so s = 0) \<and>
     (seg_is_last s \<longleftrightarrow> seg_so s + seg_size s = sdu_size u))"

definition heap_ok :: "sdu_heap \<Rightarrow> nr_rlc_sdu_segment multiset \<Rightarrow> bool" where
  "heap_ok h M \<longleftrightarrow>
     (\<forall>s\<in>#M. hp_sdus h (seg_sdu s) \<noteq> None \<and> seg_addr s < hp_next h) \<and>
     (\<forall>a u. hp_sdus h a = Some u \<longrightarrow>
        a < hp_next h \<and> sdu_ref_count u - sdu_free_count u = int (size (seg_of a M)) \<and>
        seg_of a M \<noteq> {#})"

lemma seg_of_add [simp]:
  "seg_of a (add_mset s M) = (if seg_sdu s = a then add_mset s (seg_of a M) else seg_of a M)"
  by (simp add: seg_of_def)

lemma seg_of_empty [simp]: "seg_of a {#} = {#}"
  by (simp add: seg_of_def)

lemma seg_of_empty_iff: "seg_of a M = {#} \<longleftrightarrow> (\<forall>s\<in>#M. seg_sdu s \<noteq> a)"
  by (induction M) (auto simp: seg_of_def)

lemma seg_of_union [simp]: "seg_of a (M + N) = seg_of a M + seg_of a N"
  by (simp add: seg_of_def)

lemma heap_ok_empty [simp]: "heap_ok h {#} \<longleftrightarrow> hp_sdus h = Map.empty"
  by (auto simp: heap_ok_def seg_of_def)

lemma heap_ok_live: "heap_ok h (add_mset s M) \<Longrightarrow> \<exists>u. hp_sdus h (seg_sdu s) = Some u"
  by (auto simp: heap_ok_def)

lemma seg_of_fresh: "heap_ok h M \<Longrightarrow> hp_sdus h a = None \<Longrightarrow> seg_of a M = {#}"
  by (auto simp: heap_ok_def seg_of_empty_iff)

lemma heap_ok_fresh: "heap_ok h M \<Longrightarrow> hp_next h \<le> a \<Longrightarrow> hp_sdus h a = None"
  by (cases "hp_sdus h a") (fastforce simp: heap_ok_def)+

lemma new_sdu_heap_ok:
  assumes "heap_ok h M" "nr_rlc_new_sdu h b i = (h', s)"
  shows "heap_ok h' (add_mset s M)"
proof -
  have "hp_sdus h (hp_next h) = None" using assms(1) by (simp add: heap_ok_fresh)
  then have "seg_of (hp_next h) M = {#}" using assms(1) by (simp add: seg_of_fresh)
  moreover have "\<forall>s\<in>#M. hp_sdus h (seg_sdu s) \<noteq> None \<and> seg_addr s < Suc (Suc (hp_next h))"
    using assms(1) by (auto simp: heap_ok_def less_SucI)
  moreover have "\<forall>a u. hp_sdus h a = Some u \<longrightarrow> a < Suc (Suc (hp_next h)) \<and>
      sdu_ref_count u - sdu_free_count u = int (size (seg_of a M)) \<and> seg_of a M \<noteq> {#}"
    using assms(1) by (auto simp: heap_ok_def less_SucI)
  ultimately show ?thesis
    using assms(2) by (auto simp: heap_ok_def nr_rlc_new_sdu_def Let_def)
qed

lemma free_segment_cases:
  assumes "heap_ok h (add_mset s M)"
  obtains h' where "nr_rlc_free_sdu_segment h s = Inr (h', seg_of (seg_sdu s) M = {#})"
    "heap_ok h' M" "hp_next h' = hp_next h"
    "\<And>a. a \<noteq> seg_sdu s \<Longrightarrow> hp_sdus h' a = hp_sdus h a"
    "seg_of (seg_sdu s) M = {#} \<Longrightarrow> hp_sdus h' (seg_sdu s) = None"
    "\<And>u. seg_of (seg_sdu s) M \<noteq> {#} \<Longrightarrow> hp_sdus h (seg_sdu s) = Some u \<Longrightarrow>
        hp_sdus h' (seg_sdu s) = Some (u\<lparr>sdu_free_count := sdu_free_count u + 1\<rparr>)"
proof -
  obtain u where u: "hp_sdus h (seg_sdu s) = Some u"
    using heap_ok_live [OF assms] by blast
  have diff: "sdu_ref_count u - sdu_free_count u = 1 + int (size (seg_of (seg_sdu s) M))"
    using assms u by (auto simp: heap_ok_def dest!: spec)
  have live: "\<forall>t\<in>#M. hp_sdus h (seg_sdu t) \<noteq> None \<and> seg_addr t < hp_next h"
    using assms by (auto simp: heap_ok_def)
  have others: "hp_sdus h a = Some v \<Longrightarrow> a \<noteq> seg_sdu s \<Longrightarrow> a < hp_next h \<and>
      sdu_ref_count v - sdu_free_count v = int (size (seg_of a M)) \<and> seg_of a M \<noteq> {#}" for a v
    using assms by (fastforce simp: heap_ok_def)
  have here: "seg_sdu s < hp_next h" using assms u by (auto simp: heap_ok_def)
  show ?thesis
  proof (cases "seg_of (seg_sdu s) M = {#}")
    case True
    then have "\<forall>t\<in>#M. seg_sdu t \<noteq> seg_sdu s"
      by (simp add: seg_of_empty_iff)
    then have "heap_ok (h\<lparr>hp_sdus := (hp_sdus h)(seg_sdu s := None)\<rparr>) M"
      using live others by (auto simp: heap_ok_def)
    moreover have "sdu_free_count u + 1 = sdu_ref_count u" using True diff by simp
    ultimately show ?thesis
      using True u
      by (intro that [of "h\<lparr>hp_sdus := (hp_sdus h)(seg_sdu s := None)\<rparr>"]) (auto simp: nr_rlc_free_sdu_segment_def get_sdu_def Let_def)
  next
    case False
    then have "size (seg_of (seg_sdu s) M) \<noteq> 0" by simp
    then have ne: "sdu_free_count u + 1 \<noteq> sdu_ref_count u" using diff by linarith
    let ?h = "set_sdu h (seg_sdu s) (u\<lparr>sdu_free_count := sdu_free_count u + 1\<rparr>)"
    have "heap_ok ?h M"
      using False live others here diff u by (auto simp: heap_ok_def set_sdu_def)
    then show ?thesis
      using False u ne
      by (intro that [of ?h]) (auto simp: nr_rlc_free_sdu_segment_def get_sdu_def Let_def set_sdu_def)
  qed
qed

lemma free_segment_list_ok:
  assumes "heap_ok h (mset l + M)"
  obtains h' where "nr_rlc_free_sdu_segment_list h l = Inr h'" "heap_ok h' M"
    "hp_next h' = hp_next h"
  using assms
proof (induction l arbitrary: h thesis)
  case Nil
  then show ?case by simp
next
  case (Cons s l)
  have "heap_ok h (add_mset s (mset l + M))" using Cons.prems(2) by simp
  then obtain h1 b where 1: "nr_rlc_free_sdu_segment h s = Inr (h1, b)" "heap_ok h1 (mset l + M)"
      "hp_next h1 = hp_next h"
    by (metis free_segment_cases)
  obtain h' where "nr_rlc_free_sdu_segment_list h1 l = Inr h'" "heap_ok h' M" "hp_next h' = hp_next h1"
    using Cons.IH [OF _ 1(2)] by blast
  then show ?case using Cons.prems(1) [of h'] 1 by simp
qed

text \<open>Changing fields of an SDU other than the counters.\<close>

lemma heap_ok_set_sdu:
  assumes "heap_ok h M" "hp_sdus h a = Some u" "sdu_ref_count v = sdu_ref_count u"
    "sdu_free_count v = sdu_free_count u"
  shows "heap_ok (set_sdu h a v) M"
  using assms by (auto simp: heap_ok_def set_sdu_def)

lemma heap_ok_cong: "heap_ok h M \<Longrightarrow> M = N \<Longrightarrow> heap_ok h N"
  by simp

text \<open>Replacing a segment by another one of the same SDU and address.\<close>

lemma heap_ok_replace:
  assumes "heap_ok h (add_mset s M)" "seg_sdu t = seg_sdu s" "seg_addr t = seg_addr s"
  shows "heap_ok h (add_mset t M)"
  using assms by (auto simp: heap_ok_def split: if_splits)

text \<open>A new segment of an SDU.\<close>

lemma heap_ok_split:
  assumes "heap_ok h (add_mset s M)" "hp_sdus h (seg_sdu s) = Some u"
    "seg_sdu t = seg_sdu s" "seg_addr t = hp_next h"
  shows "heap_ok ((set_sdu h (seg_sdu s) (u\<lparr>sdu_ref_count := sdu_ref_count u + 1\<rparr>))
      \<lparr>hp_next := hp_next h + 1\<rparr>) (add_mset t (add_mset s M))"
  using assms by (auto simp: heap_ok_def set_sdu_def less_SucI split: if_splits)

subsection \<open>Lists with an end pointer\<close>

definition list_end :: "nr_rlc_sdu_segment list \<Rightarrow> nat option" where
  "list_end l = (if l = [] then None else Some (seg_addr (last l)))"

definition list_ok :: "nr_rlc_sdu_segment list \<Rightarrow> nat option \<Rightarrow> bool" where
  "list_ok l p \<longleftrightarrow> distinct (map seg_addr l) \<and> p = list_end l"

lemma takeWhile_last:
  assumes "distinct (map f l)" "l \<noteq> []"
  shows "takeWhile (\<lambda>s. f s \<noteq> f (last l)) l = butlast l"
    and "dropWhile (\<lambda>s. f s \<noteq> f (last l)) l = [last l]"
proof -
  have l: "l = butlast l @ [last l]" using assms(2) by simp
  have "distinct (map f (butlast l @ [last l]))" using assms by simp
  then have "f (last l) \<notin> f ` set (butlast l)"
    unfolding map_append distinct_append by simp
  then have b: "\<forall>s\<in>set (butlast l). f s \<noteq> f (last l)"
    by (metis imageI)
  have "takeWhile (\<lambda>s. f s \<noteq> f (last l)) (butlast l @ [last l]) = butlast l"
    "dropWhile (\<lambda>s. f s \<noteq> f (last l)) (butlast l @ [last l]) = [last l]"
    using b by (simp_all add: takeWhile_append dropWhile_append3)
  then show "takeWhile (\<lambda>s. f s \<noteq> f (last l)) l = butlast l"
    "dropWhile (\<lambda>s. f s \<noteq> f (last l)) l = [last l]"
    using l by simp_all
qed

lemma list_append_ok:
  assumes "list_ok l p" "seg_addr s \<notin> set (map seg_addr l)"
  shows "nr_rlc_sdu_segment_list_append l p s = Inr (l @ [s], Some (seg_addr s))"
    and "list_ok (l @ [s]) (Some (seg_addr s))"
  using assms takeWhile_last [of seg_addr l]
  by (auto simp: nr_rlc_sdu_segment_list_append_def list_ok_def list_end_def)

lemma list_ok_Nil [simp]: "list_ok [] p \<longleftrightarrow> p = None"
  by (simp add: list_ok_def list_end_def)

lemma list_ok_Cons:
  "list_ok (s # l) p \<Longrightarrow> list_ok l (if l = [] then None else p)"
  by (auto simp: list_ok_def list_end_def)

subsection \<open>Sorted segment lists\<close>

text \<open>The insertion without the pointer checks, for lists whose SDUs are all live.\<close>

fun segment_insert ::
    "(int \<Rightarrow> int \<Rightarrow> int) \<Rightarrow> (nr_rlc_sdu_segment \<Rightarrow> int) \<Rightarrow> nr_rlc_sdu_segment list \<Rightarrow>
     nr_rlc_sdu_segment \<Rightarrow> nr_rlc_sdu_segment list" where
  "segment_insert sn_compare sn [] seg = [seg]"
| "segment_insert sn_compare sn (cur # rest) seg =
     (if sn_compare (sn cur) (sn seg) > 0 \<or> (sn cur = sn seg \<and> seg_so cur > seg_so seg)
      then seg # cur # rest else cur # segment_insert sn_compare sn rest seg)"

definition seg_sn :: "sdu_heap \<Rightarrow> nr_rlc_sdu_segment \<Rightarrow> int" where
  "seg_sn h s = (case hp_sdus h (seg_sdu s) of None \<Rightarrow> -1 | Some u \<Rightarrow> sdu_sn u)"

lemma segment_list_add_eq:
  assumes "hp_sdus h (seg_sdu s) \<noteq> None" "\<forall>t\<in>set l. hp_sdus h (seg_sdu t) \<noteq> None"
  shows "nr_rlc_sdu_segment_list_add cmp h l s = Inr (segment_insert cmp (seg_sn h) l s)"
  using assms by (induction l) (auto simp: get_sdu_def seg_sn_def)

lemma segment_insert_mset [simp]:
  "mset (segment_insert cmp sn l s) = add_mset s (mset l)"
  by (induction l) auto

lemma segment_insert_set [simp]:
  "set (segment_insert cmp sn l s) = insert s (set l)"
  by (metis segment_insert_mset set_mset_add_mset_insert set_mset_mset)

subsection \<open>The bytes of a segment\<close>

definition seg_bytes :: "sdu_heap \<Rightarrow> nr_rlc_sdu_segment \<Rightarrow> bytes" where
  "seg_bytes h s = (case hp_sdus h (seg_sdu s) of None \<Rightarrow> []
     | Some u \<Rightarrow> take (nat (seg_size s)) (drop (nat (seg_so s)) (sdu_data u)))"

lemma seg_bytes_length: "seg_slice h s \<Longrightarrow> int (length (seg_bytes h s)) = seg_size s"
  by (auto simp: seg_slice_def seg_bytes_def split: option.splits)

lemma seg_bytes_cong: "hp_sdus h' (seg_sdu s) = hp_sdus h (seg_sdu s) \<Longrightarrow> seg_bytes h' s = seg_bytes h s"
  by (simp add: seg_bytes_def)

lemma seg_slice_cong: "hp_sdus h' (seg_sdu s) = hp_sdus h (seg_sdu s) \<Longrightarrow> seg_slice h' s = seg_slice h s"
  by (simp add: seg_slice_def)

text \<open>What of an SDU does not change when its counters and its sequence number do.\<close>

definition sdu_view :: "sdu_heap \<Rightarrow> nat \<Rightarrow> (bytes \<times> int) option" where
  "sdu_view h a = map_option (\<lambda>u. (sdu_data u, sdu_size u)) (hp_sdus h a)"

lemma seg_slice_view: "sdu_view h' (seg_sdu s) = sdu_view h (seg_sdu s) \<Longrightarrow> seg_slice h' s = seg_slice h s"
  by (auto simp: sdu_view_def seg_slice_def split: option.splits)

lemma seg_bytes_view: "sdu_view h' (seg_sdu s) = sdu_view h (seg_sdu s) \<Longrightarrow> seg_bytes h' s = seg_bytes h s"
  by (auto simp: sdu_view_def seg_bytes_def split: option.splits)

lemma sdu_view_set_sdu:
  "hp_sdus h a = Some u \<Longrightarrow> sdu_data v = sdu_data u \<Longrightarrow> sdu_size v = sdu_size u \<Longrightarrow>
   sdu_view (set_sdu h a v) b = sdu_view h b"
  by (simp add: sdu_view_def set_sdu_def)

lemma sdu_view_hp_next [simp]: "sdu_view (h\<lparr>hp_next := n\<rparr>) = sdu_view h"
  by (simp add: sdu_view_def fun_eq_iff)

lemma hp_sdus_set_sdu [simp]: "hp_sdus (set_sdu h a v) b = (if b = a then Some v else hp_sdus h b)"
  by (simp add: set_sdu_def)

lemma hp_next_set_sdu [simp]: "hp_next (set_sdu h a v) = hp_next h"
  by (simp add: set_sdu_def)

lemma free_segment_ok:
  assumes "heap_ok h (add_mset s M)"
  obtains h' where "nr_rlc_free_sdu_segment h s = Inr (h', seg_of (seg_sdu s) M = {#})"
    "heap_ok h' M" "hp_next h' = hp_next h"
    "\<forall>t\<in>#M. sdu_view h' (seg_sdu t) = sdu_view h (seg_sdu t)"
    "\<forall>t\<in>#M. seg_sn h' t = seg_sn h t"
proof -
  obtain h' where h': "nr_rlc_free_sdu_segment h s = Inr (h', seg_of (seg_sdu s) M = {#})"
      "heap_ok h' M" "hp_next h' = hp_next h"
      "\<And>a. a \<noteq> seg_sdu s \<Longrightarrow> hp_sdus h' a = hp_sdus h a"
      "\<And>u. seg_of (seg_sdu s) M \<noteq> {#} \<Longrightarrow> hp_sdus h (seg_sdu s) = Some u \<Longrightarrow>
        hp_sdus h' (seg_sdu s) = Some (u\<lparr>sdu_free_count := sdu_free_count u + 1\<rparr>)"
    by (rule free_segment_cases [OF assms]) blast
  obtain u where u: "hp_sdus h (seg_sdu s) = Some u" using heap_ok_live [OF assms] by blast
  have "sdu_view h' (seg_sdu t) = sdu_view h (seg_sdu t) \<and> seg_sn h' t = seg_sn h t" if "t \<in># M" for t
  proof (cases "seg_sdu t = seg_sdu s")
    case True
    then have "seg_of (seg_sdu s) M \<noteq> {#}" using that by (auto simp: seg_of_empty_iff)
    then show ?thesis using h'(5) [OF _ u] u True by (simp add: sdu_view_def seg_sn_def)
  next
    case False
    then show ?thesis using h'(4) by (simp add: sdu_view_def seg_sn_def)
  qed
  then show ?thesis using that h'(1-3) by blast
qed

end
