(* ===== verification/Rlc_Pdu.thy ===== *)
theory Rlc_Pdu
  imports Prelude "HOL-Library.Product_Lexorder"
begin

text \<open>
  Received PDUs, the PDU decoder and the PDU encoder of RLC: \<open>nr_rlc_pdu.c\<close>.  A received PDU
  keeps its SDU bytes until the SDU is delivered; then \<open>data\<close> is freed and set to \<open>NULL\<close>
  (\<open>None\<close>).  The decoder and the encoder work bit by bit on a buffer; they are refined to
  operations on lists of bits, which gives the round trip of every field.
\<close>

unbundle bit_operations_syntax

subsection \<open>RX PDU management\<close>

record nr_rlc_pdu =
  pdu_sn :: int
  pdu_data :: "bytes option"
  pdu_size :: int
  pdu_so :: int
  pdu_is_first :: bool
  pdu_is_last :: bool

definition nr_rlc_new_pdu :: "int \<Rightarrow> int \<Rightarrow> bool \<Rightarrow> bool \<Rightarrow> bytes \<Rightarrow> nr_rlc_pdu" where
  "nr_rlc_new_pdu sn so is_first is_last data =
     \<lparr>pdu_sn = sn, pdu_data = Some data, pdu_size = int (length data), pdu_so = so,
      pdu_is_first = is_first, pdu_is_last = is_last\<rparr>"

fun nr_rlc_pdu_list_add :: "(int \<Rightarrow> int \<Rightarrow> int) \<Rightarrow> nr_rlc_pdu list \<Rightarrow> nr_rlc_pdu \<Rightarrow> nr_rlc_pdu list" where
  "nr_rlc_pdu_list_add sn_compare [] pdu = [pdu]"
| "nr_rlc_pdu_list_add sn_compare (cur # rest) pdu =
     (if sn_compare (pdu_sn cur) (pdu_sn pdu) > 0 \<or>
         (pdu_sn cur = pdu_sn pdu \<and> pdu_so cur > pdu_so pdu)
      then pdu # cur # rest
      else cur # nr_rlc_pdu_list_add sn_compare rest pdu)"

subsection \<open>PDU decoder\<close>

record nr_rlc_pdu_decoder =
  dec_error :: bool
  dec_byte :: nat
  dec_bit :: nat
  dec_buffer :: bytes
  dec_size :: nat

definition nr_rlc_pdu_decoder_init :: "bytes \<Rightarrow> nr_rlc_pdu_decoder" where
  "nr_rlc_pdu_decoder_init buffer =
     \<lparr>dec_error = False, dec_byte = 0, dec_bit = 0, dec_buffer = buffer, dec_size = length buffer\<rparr>"

definition get_bit :: "nr_rlc_pdu_decoder \<Rightarrow> nr_rlc_pdu_decoder \<times> int" where
  "get_bit d =
     (if dec_byte d \<ge> dec_size d then (d\<lparr>dec_error := True\<rparr>, 0)
      else
        let ret = uint (drop_bit (7 - dec_bit d) (dec_buffer d ! dec_byte d) AND 1);
            d1 = d\<lparr>dec_bit := dec_bit d + 1\<rparr>
        in (if dec_bit d1 = 8 then d1\<lparr>dec_bit := 0, dec_byte := dec_byte d1 + 1\<rparr> else d1, ret))"

fun get_bits_loop :: "nat \<Rightarrow> nr_rlc_pdu_decoder \<Rightarrow> int \<Rightarrow> nr_rlc_pdu_decoder \<times> int" where
  "get_bits_loop 0 d ret = (d, ret)"
| "get_bits_loop (Suc n) d ret =
     (case get_bit d of (d1, b) \<Rightarrow>
        if dec_error d1 then (d1, -1) else get_bits_loop n d1 (push_bit 1 ret OR b))"

definition nr_rlc_pdu_decoder_get_bits ::
    "nr_rlc_pdu_decoder \<Rightarrow> nat \<Rightarrow> (nr_rlc_pdu_decoder \<times> int) res" where
  "nr_rlc_pdu_decoder_get_bits d cnt =
     (if cnt > 31 then Inl Exit else Inr (get_bits_loop cnt d 0))"

text \<open>
  The pattern \<open>v = nr_rlc_pdu_decoder_get_bits(&decoder, n); R(decoder);\<close> of the entities: a
  decoder error leaves for the label \<open>err\<close>, whose code is the third argument.
\<close>

definition decode_field ::
    "nr_rlc_pdu_decoder \<Rightarrow> nat \<Rightarrow> 'a res \<Rightarrow> (nr_rlc_pdu_decoder \<Rightarrow> int \<Rightarrow> 'a res) \<Rightarrow> 'a res" where
  "decode_field d n err k =
     bnd (nr_rlc_pdu_decoder_get_bits d n) (\<lambda>(d1, v). if dec_error d1 then err else k d1 v)"

subsection \<open>PDU encoder\<close>

record nr_rlc_pdu_encoder =
  enc_byte :: nat
  enc_bit :: nat
  enc_buffer :: bytes
  enc_size :: nat

definition nr_rlc_pdu_encoder_init :: "bytes \<Rightarrow> nr_rlc_pdu_encoder" where
  "nr_rlc_pdu_encoder_init buffer =
     \<lparr>enc_byte = 0, enc_bit = 0, enc_buffer = buffer, enc_size = length buffer\<rparr>"

definition put_bit :: "nr_rlc_pdu_encoder \<Rightarrow> bool \<Rightarrow> nr_rlc_pdu_encoder res" where
  "put_bit e b =
     (if enc_byte e = enc_size e then Inl Exit
      else
        let w0 = push_bit 1 (enc_buffer e ! enc_byte e);
            w = (if b then w0 OR 1 else w0);
            e1 = e\<lparr>enc_buffer := (enc_buffer e)[enc_byte e := w], enc_bit := enc_bit e + 1\<rparr>
        in Inr (if enc_bit e1 = 8 then e1\<lparr>enc_bit := 0, enc_byte := enc_byte e1 + 1\<rparr> else e1))"

fun put_bits_loop :: "nat \<Rightarrow> nr_rlc_pdu_encoder \<Rightarrow> int \<Rightarrow> int \<Rightarrow> nr_rlc_pdu_encoder res" where
  "put_bits_loop 0 e v x = Inr e"
| "put_bits_loop (Suc n) e v x =
     bnd (put_bit e (v AND x \<noteq> 0)) (\<lambda>e1. put_bits_loop n e1 v (drop_bit 1 x))"

definition nr_rlc_pdu_encoder_put_bits :: "nr_rlc_pdu_encoder \<Rightarrow> int \<Rightarrow> nat \<Rightarrow> nr_rlc_pdu_encoder res" where
  "nr_rlc_pdu_encoder_put_bits e v cnt =
     (if cnt > 31 then Inl Exit else put_bits_loop cnt e v (push_bit (cnt - 1) 1))"

subsection \<open>Bits of numbers and buffers\<close>

text \<open>The specification level: the most significant bit first.\<close>

definition int_bits :: "nat \<Rightarrow> int \<Rightarrow> bool list" where
  "int_bits n v = map (\<lambda>i. bit v (n - 1 - i)) [0..<n]"

definition int_of_bits :: "bool list \<Rightarrow> int" where
  "int_of_bits bs = foldl (\<lambda>a b. 2 * a + of_bool b) 0 bs"

definition byte_bits :: "byte \<Rightarrow> bool list" where
  "byte_bits w = map (\<lambda>i. bit w (7 - i)) [0..<8]"

definition bits_of :: "bytes \<Rightarrow> bool list" where
  "bits_of bs = concat (map byte_bits bs)"

definition enc_wf :: "nr_rlc_pdu_encoder \<Rightarrow> bool" where
  "enc_wf e \<longleftrightarrow> enc_size e = length (enc_buffer e) \<and> enc_bit e < 8 \<and> enc_byte e \<le> enc_size e \<and>
     (enc_byte e = enc_size e \<longrightarrow> enc_bit e = 0)"

definition enc_bits :: "nr_rlc_pdu_encoder \<Rightarrow> bool list" where
  "enc_bits e = bits_of (take (enc_byte e) (enc_buffer e)) @
     map (\<lambda>i. bit (enc_buffer e ! enc_byte e) (enc_bit e - 1 - i)) [0..<enc_bit e]"

definition dec_wf :: "nr_rlc_pdu_decoder \<Rightarrow> bool" where
  "dec_wf d \<longleftrightarrow> dec_size d = length (dec_buffer d) \<and> dec_bit d < 8 \<and> dec_byte d \<le> dec_size d \<and>
     (dec_byte d = dec_size d \<longrightarrow> dec_bit d = 0) \<and> \<not> dec_error d"

definition dec_pos :: "nr_rlc_pdu_decoder \<Rightarrow> nat" where
  "dec_pos d = 8 * dec_byte d + dec_bit d"

definition dec_rest :: "nr_rlc_pdu_decoder \<Rightarrow> bool list" where
  "dec_rest d = drop (dec_pos d) (bits_of (dec_buffer d))"

lemma length_byte_bits [simp]: "length (byte_bits w) = 8"
  by (simp add: byte_bits_def)

lemma bits_of_simps [simp]:
  "bits_of [] = []" "bits_of (w # ws) = byte_bits w @ bits_of ws"
  "bits_of (xs @ ys) = bits_of xs @ bits_of ys"
  by (simp_all add: bits_of_def)

lemma length_bits_of [simp]: "length (bits_of bs) = 8 * length bs"
  by (induction bs) auto

lemma length_int_bits [simp]: "length (int_bits n v) = n"
  by (simp add: int_bits_def)

lemma bits_of_nth: "j < 8 \<Longrightarrow> i < length bs \<Longrightarrow> bits_of bs ! (8 * i + j) = bit (bs ! i) (7 - j)"
proof (induction bs arbitrary: i)
  case (Cons w ws)
  then show ?case
    by (cases i) (auto simp: nth_append byte_bits_def)
qed simp

lemma int_bits_Suc: "int_bits (Suc n) v = bit v n # int_bits n v"
  by (simp add: int_bits_def upt_conv_Cons flip: map_Suc_upt del: upt_Suc)

lemma int_of_bits_foldl: "foldl (\<lambda>a b. 2 * a + of_bool b) a bs = a * 2 ^ length bs + int_of_bits bs"
proof (induction bs arbitrary: a)
  case (Cons b bs)
  show ?case
    using Cons [of "2 * a + of_bool b"] Cons [of "of_bool b"]
    by (simp add: int_of_bits_def algebra_simps)
qed (simp add: int_of_bits_def)

lemma int_of_bits_simps [simp]:
  "int_of_bits [] = 0" "int_of_bits (b # bs) = of_bool b * 2 ^ length bs + int_of_bits bs"
  using int_of_bits_foldl [of "of_bool b" bs] by (simp_all add: int_of_bits_def)

lemma int_of_bits_int_bits: "int_of_bits (int_bits n v) = v mod 2 ^ n"
proof (induction n)
  case (Suc n)
  have "v mod 2 ^ Suc n = of_bool (bit v n) * 2 ^ n + v mod 2 ^ n"
    using take_bit_Suc_from_most [of n v] by (simp add: take_bit_eq_mod mult.commute)
  then show ?case using Suc by (simp add: int_bits_Suc)
qed (simp add: int_bits_def)

lemma int_of_bits_int_bits_id: "0 \<le> v \<Longrightarrow> v < 2 ^ n \<Longrightarrow> int_of_bits (int_bits n v) = v"
  by (simp add: int_of_bits_int_bits)

lemma int_of_bits_bounds: "0 \<le> int_of_bits bs" "int_of_bits bs < 2 ^ length bs"
  by (induction bs) auto


subsection \<open>The decoder reads bits off the front\<close>

definition dec_adv :: "nat \<Rightarrow> nr_rlc_pdu_decoder \<Rightarrow> nr_rlc_pdu_decoder" where
  "dec_adv n d = d\<lparr>dec_byte := (dec_pos d + n) div 8, dec_bit := (dec_pos d + n) mod 8\<rparr>"

lemma dec_init_wf [simp]: "dec_wf (nr_rlc_pdu_decoder_init buffer)"
  by (simp add: dec_wf_def nr_rlc_pdu_decoder_init_def)

lemma dec_init_rest [simp]: "dec_rest (nr_rlc_pdu_decoder_init buffer) = bits_of buffer"
  by (simp add: dec_rest_def dec_pos_def nr_rlc_pdu_decoder_init_def)

lemma dec_init_pos [simp]: "dec_pos (nr_rlc_pdu_decoder_init buffer) = 0"
  by (simp add: dec_pos_def nr_rlc_pdu_decoder_init_def)

lemma dec_adv_pos [simp]: "dec_pos (dec_adv n d) = dec_pos d + n"
  by (simp add: dec_pos_def dec_adv_def)

lemma dec_adv_buffer [simp]: "dec_buffer (dec_adv n d) = dec_buffer d"
  by (simp add: dec_adv_def)

lemma dec_adv_error [simp]: "dec_error (dec_adv n d) = dec_error d"
  by (simp add: dec_adv_def)

lemma dec_adv_byte: "dec_byte (dec_adv n d) = (dec_pos d + n) div 8"
  by (simp add: dec_adv_def)

lemma dec_adv_rest [simp]: "dec_rest (dec_adv n d) = drop n (dec_rest d)"
  by (simp add: dec_rest_def add.commute)

lemma dec_adv_adv [simp]: "dec_adv m (dec_adv n d) = dec_adv (n + m) d"
  by (simp add: dec_adv_def dec_pos_def add.assoc)

lemma length_dec_rest: "dec_wf d \<Longrightarrow> length (dec_rest d) = 8 * dec_size d - dec_pos d"
  by (simp add: dec_wf_def dec_rest_def)

lemma dec_adv_0 [simp]: "dec_wf d \<Longrightarrow> dec_adv 0 d = d"
  by (simp add: dec_adv_def dec_wf_def dec_pos_def)

lemma dec_adv_wf [simp]:
  assumes "dec_wf d" "n \<le> length (dec_rest d)"
  shows "dec_wf (dec_adv n d)"
proof -
  have "dec_pos d + n \<le> 8 * dec_size d"
    using assms by (auto simp: length_dec_rest dec_wf_def dec_pos_def)
  then have "(dec_pos d + n) div 8 \<le> dec_size d"
    and "(dec_pos d + n) div 8 = dec_size d \<longrightarrow> (dec_pos d + n) mod 8 = 0"
    using div_mult_mod_eq [of "dec_pos d + n" 8] by linarith+
  then show ?thesis
    using assms(1) by (simp add: dec_wf_def dec_adv_def)
qed

lemma get_bit_rest:
  assumes "dec_wf d" "dec_rest d = b # bs"
  shows "get_bit d = (dec_adv 1 d, of_bool b)"
proof -
  have lt: "dec_byte d < dec_size d" "dec_bit d < 8" "dec_size d = length (dec_buffer d)"
  proof -
    have "length (dec_rest d) \<noteq> 0" using assms(2) by simp
    then have "0 < 8 * dec_size d - (8 * dec_byte d + dec_bit d)"
      using length_dec_rest [OF assms(1)] by (simp only: dec_pos_def)
    then show "dec_byte d < dec_size d" "dec_bit d < 8" "dec_size d = length (dec_buffer d)"
      using assms(1) by (auto simp: dec_wf_def)
  qed
  have "b = bits_of (dec_buffer d) ! dec_pos d"
    using assms(2) by (metis dec_rest_def drop_eq_Nil hd_drop_conv_nth leI list.distinct(1) list.sel(1))
  then have b: "b = bit (dec_buffer d ! dec_byte d) (7 - dec_bit d)"
    using lt bits_of_nth [of "dec_bit d" "dec_byte d" "dec_buffer d"] by (simp add: dec_pos_def)
  have "drop_bit k w AND 1 = (of_bool (bit w k) :: byte)" for k and w :: byte
    by (simp add: and_one_eq mod_2_eq_odd bit_iff_odd_drop_bit)
  then show ?thesis
    using lt by (auto simp: get_bit_def b Let_def dec_adv_def dec_pos_def)
qed

lemma get_bit_end: "dec_wf d \<Longrightarrow> dec_rest d = [] \<Longrightarrow> dec_error (fst (get_bit d))"
  by (auto simp: get_bit_def dec_wf_def dec_rest_def dec_pos_def)

lemma get_bits_loop_rest:
  assumes "dec_wf d" "n \<le> length (dec_rest d)" "0 \<le> ret"
  shows "get_bits_loop n d ret = (dec_adv n d, ret * 2 ^ n + int_of_bits (take n (dec_rest d)))"
  using assms
proof (induction n arbitrary: d ret)
  case 0
  then show ?case by simp
next
  case (Suc n)
  then obtain b bs where r: "dec_rest d = b # bs" by (cases "dec_rest d") auto
  have g: "get_bit d = (dec_adv 1 d, of_bool b)"
    by (rule get_bit_rest [OF Suc.prems(1) r])
  have e: "\<not> dec_error d" using Suc.prems by (simp add: dec_wf_def)
  have sh: "push_bit 1 ret OR of_bool b = ret * 2 + of_bool b"
    by (cases b) (simp_all add: push_bit_eq_mult or_one_eq)
  have "get_bits_loop n (dec_adv 1 d) (ret * 2 + of_bool b) =
      (dec_adv n (dec_adv 1 d), (ret * 2 + of_bool b) * 2 ^ n + int_of_bits (take n bs))"
    using Suc.IH [of "dec_adv 1 d" "ret * 2 + of_bool b"] Suc.prems r by simp
  then show ?case
    using g e r sh Suc.prems(2) by (simp add: algebra_simps)
qed

lemma get_bits_loop_short:
  assumes "dec_wf d" "length (dec_rest d) < n" "0 \<le> ret"
  shows "dec_error (fst (get_bits_loop n d ret))"
  using assms
proof (induction n arbitrary: d ret)
  case 0
  then show ?case by simp
next
  case (Suc n)
  show ?case
  proof (cases "dec_rest d")
    case Nil
    then show ?thesis
      using get_bit_end [of d] Suc.prems by (cases "get_bit d") simp
  next
    case (Cons b bs)
    then have g: "get_bit d = (dec_adv 1 d, of_bool b)"
      using get_bit_rest Suc.prems by blast
    have "0 \<le> push_bit 1 ret OR of_bool b"
      using Suc.prems by (simp add: push_bit_eq_mult)
    then have "dec_error (fst (get_bits_loop n (dec_adv 1 d) (push_bit 1 ret OR of_bool b)))"
      using Suc.IH [of "dec_adv 1 d" "push_bit 1 ret OR of_bool b"] Suc.prems Cons by simp
    then show ?thesis using g by simp
  qed
qed

text \<open>What a field decode does: it advances and continues with the field, or leaves for the
  error label when the buffer is too short.\<close>

lemma decode_field_eq:
  assumes "dec_wf d" "n \<le> 31"
  shows "decode_field d n err k =
    (if n \<le> length (dec_rest d) then k (dec_adv n d) (int_of_bits (take n (dec_rest d))) else err)"
proof (cases "n \<le> length (dec_rest d)")
  case True
  then show ?thesis
    using assms get_bits_loop_rest [of d n 0]
    by (auto simp: decode_field_def nr_rlc_pdu_decoder_get_bits_def dec_wf_def)
next
  case False
  then show ?thesis
    using assms get_bits_loop_short [of d n 0]
    by (cases "get_bits_loop n d 0") (simp add: decode_field_def nr_rlc_pdu_decoder_get_bits_def)
qed

text \<open>Reading a field that was written as \<open>int_bits\<close>.\<close>

lemma decode_field_int_bits:
  assumes "dec_wf d" "n \<le> 31" "dec_rest d = int_bits n v @ bs" "0 \<le> v" "v < 2 ^ n"
  shows "decode_field d n err k = k (dec_adv n d) v"
    and "dec_wf (dec_adv n d)" and "dec_rest (dec_adv n d) = bs"
  using assms by (simp_all add: decode_field_eq int_of_bits_int_bits_id)

subsection \<open>The encoder appends bits\<close>

lemma enc_init_wf [simp]: "enc_wf (nr_rlc_pdu_encoder_init buffer)"
  by (auto simp: enc_wf_def nr_rlc_pdu_encoder_init_def)

lemma enc_init_bits [simp]: "enc_bits (nr_rlc_pdu_encoder_init buffer) = []"
  by (simp add: enc_bits_def nr_rlc_pdu_encoder_init_def)

lemma enc_init_size [simp]: "enc_size (nr_rlc_pdu_encoder_init buffer) = length buffer"
  by (simp add: nr_rlc_pdu_encoder_init_def)

lemma length_enc_bits: "enc_wf e \<Longrightarrow> length (enc_bits e) = 8 * enc_byte e + enc_bit e"
  by (simp add: enc_bits_def enc_wf_def)

lemma put_bit_bits:
  assumes wf: "enc_wf e" and room: "enc_byte e < enc_size e" and p: "put_bit e b = Inr e'"
  shows "enc_bits e' = enc_bits e @ [b]"
proof -
  let ?w = "enc_buffer e ! enc_byte e"
  define w where "w = (if b then push_bit 1 ?w OR 1 else push_bit 1 ?w)"
  have lt: "enc_byte e < length (enc_buffer e)" "enc_bit e < 8"
    using wf room by (auto simp: enc_wf_def)
  have bw: "bit w i \<longleftrightarrow> (if i = 0 then b else i < 8 \<and> bit ?w (i - 1))" for i
  proof -
    have pb: "bit (push_bit 1 ?w) i \<longleftrightarrow> 1 \<le> i \<and> i < 8 \<and> bit ?w (i - 1)" for i
      by (simp only: bit_push_bit_iff) simp
    show ?thesis
      by (cases b; cases i) (simp_all only: w_def if_True if_False bit_or_iff pb bit_1_iff, auto)
  qed
  have app: "map (\<lambda>i. bit w (enc_bit e - i)) [0..<Suc (enc_bit e)] =
        map (\<lambda>i. bit ?w (enc_bit e - 1 - i)) [0..<enc_bit e] @ [b]"
    using lt by (auto simp: bw intro!: nth_equalityI)
  show ?thesis
  proof (cases "enc_bit e = 7")
    case True
    then have e': "e' = e\<lparr>enc_buffer := (enc_buffer e)[enc_byte e := w], enc_bit := 0,
        enc_byte := enc_byte e + 1\<rparr>"
      using p room by (auto simp: put_bit_def w_def Let_def)
    have "byte_bits w = map (\<lambda>i. bit w (enc_bit e - i)) [0..<Suc (enc_bit e)]"
      using True by (simp add: byte_bits_def)
    then show ?thesis
      using lt app by (simp add: e' enc_bits_def take_Suc_conv_app_nth)
  next
    case False
    then have e': "e' = e\<lparr>enc_buffer := (enc_buffer e)[enc_byte e := w], enc_bit := enc_bit e + 1\<rparr>"
      using p room by (auto simp: put_bit_def w_def Let_def)
    show ?thesis
      using lt app by (simp add: e' enc_bits_def)
  qed
qed

lemma put_bit_ok:
  assumes "enc_wf e" "enc_byte e < enc_size e"
  obtains e' where "put_bit e b = Inr e'" "enc_wf e'" "enc_bits e' = enc_bits e @ [b]"
    "enc_size e' = enc_size e"
proof -
  obtain e' where e': "put_bit e b = Inr e'"
    using assms by (auto simp: put_bit_def Let_def)
  moreover have "enc_wf e'" "enc_size e' = enc_size e"
    using e' assms by (auto simp: put_bit_def Let_def enc_wf_def split: if_splits)
  ultimately show ?thesis
    using that put_bit_bits [OF assms e'] by blast
qed

lemma put_bits_loop_ok:
  assumes "enc_wf e" "length (enc_bits e) + n \<le> 8 * enc_size e"
  shows "\<exists>e'. put_bits_loop n e v (push_bit (n - 1) 1) = Inr e' \<and> enc_wf e' \<and>
     enc_bits e' = enc_bits e @ int_bits n v \<and> enc_size e' = enc_size e"
  using assms
proof (induction n arbitrary: e)
  case 0
  then show ?case by (simp add: int_bits_def)
next
  case (Suc n)
  have tst: "(v AND push_bit n 1 \<noteq> 0) = bit v n"
    by (simp add: bit_iff_and_push_bit_not_eq_0)
  have room: "enc_byte e < enc_size e"
    using Suc.prems by (auto simp: length_enc_bits)
  obtain e1 where e1: "put_bit e (bit v n) = Inr e1" "enc_wf e1" "enc_bits e1 = enc_bits e @ [bit v n]"
      "enc_size e1 = enc_size e"
    by (rule put_bit_ok [OF Suc.prems(1) room])
  have x: "n = 0 \<or> drop_bit 1 (push_bit n 1) = (push_bit (n - 1) 1 :: int)"
    by (cases n) (simp_all add: drop_bit_eq_div)
  have "length (enc_bits e1) + n \<le> 8 * enc_size e1"
    using e1 Suc.prems by simp
  then obtain e2 where "put_bits_loop n e1 v (push_bit (n - 1) 1) = Inr e2" "enc_wf e2"
      "enc_bits e2 = enc_bits e1 @ int_bits n v" "enc_size e2 = enc_size e1"
    using Suc.IH [of e1] e1(2) by blast
  then show ?case
    using e1(1,3,4) tst x by (cases "n = 0") (auto simp: int_bits_Suc simp del: push_bit_of_1)
qed

lemma put_bits_ok:
  assumes "enc_wf e" "n \<le> 31" "length (enc_bits e) + n \<le> 8 * enc_size e"
  obtains e' where "nr_rlc_pdu_encoder_put_bits e v n = Inr e'" "enc_wf e'"
    "enc_bits e' = enc_bits e @ int_bits n v" "enc_size e' = enc_size e"
  using put_bits_loop_ok [OF assms(1,3), of v] assms(2)
  by (auto simp: nr_rlc_pdu_encoder_put_bits_def)

lemma put_bits_loop_full:
  assumes "enc_wf e" "8 * enc_size e < length (enc_bits e) + n"
  shows "put_bits_loop n e v x = Inl Exit"
  using assms
proof (induction n arbitrary: e x)
  case 0
  then show ?case by (auto simp: length_enc_bits enc_wf_def)
next
  case (Suc n)
  show ?case
  proof (cases "enc_byte e < enc_size e")
    case True
    obtain e1 where "put_bit e (v AND x \<noteq> 0) = Inr e1" "enc_wf e1"
        "enc_bits e1 = enc_bits e @ [v AND x \<noteq> 0]" "enc_size e1 = enc_size e"
      by (rule put_bit_ok [OF Suc.prems(1) True])
    then show ?thesis
      using Suc.IH [of e1 "drop_bit 1 x"] Suc.prems by simp
  next
    case False
    then have "enc_byte e = enc_size e" using Suc.prems(1) by (simp add: enc_wf_def)
    then show ?thesis by (simp add: put_bit_def)
  qed
qed

lemma put_bits_exit:
  assumes "enc_wf e" "n > 31 \<or> 8 * enc_size e < length (enc_bits e) + n"
  shows "nr_rlc_pdu_encoder_put_bits e v n = Inl Exit"
  using assms put_bits_loop_full by (auto simp: nr_rlc_pdu_encoder_put_bits_def)

lemma put_bits_iff:
  assumes "enc_wf e"
  shows "(\<exists>e'. nr_rlc_pdu_encoder_put_bits e v n = Inr e') \<longleftrightarrow>
     n \<le> 31 \<and> length (enc_bits e) + n \<le> 8 * enc_size e"
proof (cases "n \<le> 31 \<and> length (enc_bits e) + n \<le> 8 * enc_size e")
  case True
  then show ?thesis by (metis assms put_bits_ok)
next
  case False
  then show ?thesis using put_bits_exit [OF assms] by auto
qed

text \<open>At a byte boundary the bits written are exactly the bytes before the write position.\<close>

lemma enc_bits_aligned: "enc_bit e = 0 \<Longrightarrow> enc_bits e = bits_of (take (enc_byte e) (enc_buffer e))"
  by (simp add: enc_bits_def)

lemma enc_aligned:
  assumes "enc_wf e" "length (enc_bits e) = 8 * n"
  shows "enc_bit e = 0" "enc_byte e = n"
proof -
  have "8 * enc_byte e + enc_bit e = 8 * n" "enc_bit e < 8"
    using assms length_enc_bits [OF assms(1)] by (simp_all add: enc_wf_def)
  then show "enc_bit e = 0" "enc_byte e = n" by presburger+
qed

text \<open>A sequence of fields, as the entities write their headers.\<close>

fun put_fields :: "nr_rlc_pdu_encoder \<Rightarrow> (int \<times> nat) list \<Rightarrow> nr_rlc_pdu_encoder res" where
  "put_fields e [] = Inr e"
| "put_fields e ((v, n) # fs) =
     bnd (nr_rlc_pdu_encoder_put_bits e v n) (\<lambda>e1. put_fields e1 fs)"

definition field_bits :: "(int \<times> nat) list \<Rightarrow> bool list" where
  "field_bits fs = concat (map (\<lambda>(v, n). int_bits n v) fs)"

lemma field_bits_simps [simp]:
  "field_bits [] = []" "field_bits ((v, n) # fs) = int_bits n v @ field_bits fs"
  "field_bits (fs @ gs) = field_bits fs @ field_bits gs"
  by (simp_all add: field_bits_def)

lemma length_field_bits: "length (field_bits fs) = sum_list (map snd fs)"
  by (induction fs) auto

lemma put_fields_ok:
  assumes "enc_wf e" "\<forall>(v, n) \<in> set fs. n \<le> 31"
    "length (enc_bits e) + length (field_bits fs) \<le> 8 * enc_size e"
  shows "\<exists>e'. put_fields e fs = Inr e' \<and> enc_wf e' \<and> enc_bits e' = enc_bits e @ field_bits fs \<and>
     enc_size e' = enc_size e"
  using assms
proof (induction fs arbitrary: e)
  case Nil
  then show ?case by simp
next
  case (Cons f fs)
  obtain v n where f: "f = (v, n)" by (cases f)
  obtain e1 where e1: "nr_rlc_pdu_encoder_put_bits e v n = Inr e1" "enc_wf e1"
      "enc_bits e1 = enc_bits e @ int_bits n v" "enc_size e1 = enc_size e"
    by (rule put_bits_ok [of e n v]) (use Cons.prems f in auto)
  obtain e2 where "put_fields e1 fs = Inr e2" "enc_wf e2"
      "enc_bits e2 = enc_bits e1 @ field_bits fs" "enc_size e2 = enc_size e1"
    using Cons.IH [of e1] Cons.prems e1 f by auto
  then show ?case using e1 f by simp
qed

lemma put_header_ok:
  assumes "\<forall>(v, n) \<in> set fs. n \<le> 31" "length (field_bits fs) = 8 * k" "k \<le> length buffer"
  obtains enc where "put_fields (nr_rlc_pdu_encoder_init buffer) fs = Inr enc" "enc_byte enc = k"
    "length (enc_buffer enc) = length buffer" "bits_of (take k (enc_buffer enc)) = field_bits fs"
proof -
  obtain enc where enc: "put_fields (nr_rlc_pdu_encoder_init buffer) fs = Inr enc" "enc_wf enc"
      "enc_bits enc = field_bits fs" "enc_size enc = length buffer"
    using put_fields_ok [of "nr_rlc_pdu_encoder_init buffer" fs] assms by auto
  have "enc_bit enc = 0" "enc_byte enc = k"
    using enc_aligned [OF enc(2), of k] enc(3) assms(2) by simp_all
  then show ?thesis
    using that enc enc_bits_aligned [of enc] by (simp add: enc_wf_def)
qed

lemma put_header_payload:
  assumes "\<forall>(v, n) \<in> set fs. n \<le> 31" "length (field_bits fs) = 8 * k" "k + length d \<le> length buffer"
  obtains enc hdr rest where "put_fields (nr_rlc_pdu_encoder_init buffer) fs = Inr enc" "enc_byte enc = k"
    "memcpy_at (enc_buffer enc) k d = Inr (hdr @ d @ rest)" "length hdr = k"
    "bits_of hdr = field_bits fs" "length rest = length buffer - k - length d"
proof -
  obtain enc where enc: "put_fields (nr_rlc_pdu_encoder_init buffer) fs = Inr enc" "enc_byte enc = k"
      "length (enc_buffer enc) = length buffer" "bits_of (take k (enc_buffer enc)) = field_bits fs"
    by (rule put_header_ok [OF assms(1,2), of buffer]) (use assms(3) in auto)
  show ?thesis
    by (rule that [OF enc(1,2), of "take k (enc_buffer enc)" "drop (k + length d) (enc_buffer enc)"])
      (use enc assms(3) in \<open>auto simp: memcpy_at_def\<close>)
qed

text \<open>Two one-bit fields read as one.\<close>

lemma int_bits_1_1:
  "int_bits 1 (1 - of_bool a) @ int_bits 1 (1 - of_bool b) =
   int_bits 2 (2 * (1 - of_bool a) + (1 - of_bool b))"
  by (cases a; cases b) (simp_all add: int_bits_def numeral_2_eq_2)

text \<open>The reading counterpart of \<open>put_fields\<close>.\<close>

fun get_fields :: "nr_rlc_pdu_decoder \<Rightarrow> nat list \<Rightarrow> (nr_rlc_pdu_decoder \<times> int list) option res" where
  "get_fields d [] = Inr (Some (d, []))"
| "get_fields d (n # ns) =
     decode_field d n (Inr None) (\<lambda>d1 v.
       bnd (get_fields d1 ns) (\<lambda>r. Inr (map_option (\<lambda>(d2, vs). (d2, v # vs)) r)))"

lemma get_fields_rest:
  assumes "dec_wf d" "dec_rest d = field_bits fs @ bs" "\<forall>(v, n) \<in> set fs. n \<le> 31 \<and> 0 \<le> v \<and> v < 2 ^ n"
  shows "get_fields d (map snd fs) = Inr (Some (dec_adv (length (field_bits fs)) d, map fst fs))"
  using assms
proof (induction fs arbitrary: d)
  case Nil
  then show ?case by simp
next
  case (Cons f fs)
  obtain v n where f: "f = (v, n)" by (cases f)
  have r: "dec_rest d = int_bits n v @ (field_bits fs @ bs)" "n \<le> 31" "0 \<le> v" "v < 2 ^ n"
    using Cons.prems f by auto
  note step = decode_field_int_bits [OF Cons.prems(1) r(2,1,3,4)]
  show ?case
    using Cons.IH [OF step(2,3)] Cons.prems(3) f by (simp add: step(1))
qed

lemma put_bits_error_Exit: "nr_rlc_pdu_encoder_put_bits e v n = Inl f \<Longrightarrow> f = Exit"
proof -
  have "put_bits_loop n e v x = Inl f \<Longrightarrow> f = Exit" for x
    by (induction n arbitrary: e x) (auto simp: bnd_eq_Inl put_bit_def Let_def split: if_splits)
  then show "nr_rlc_pdu_encoder_put_bits e v n = Inl f \<Longrightarrow> f = Exit"
    by (auto simp: nr_rlc_pdu_encoder_put_bits_def split: if_splits)
qed

subsection \<open>Sequence numbers relative to a window\<close>

text \<open>
  Every RLC entity compares sequence numbers after shifting them by the base of its window and
  reducing them modulo \<open>2 ^ sn_field_length\<close>.  \<open>window_offset\<close> is that computation as the
  code writes it; \<open>sn_window\<close> is what the ordered lists need of it.
\<close>

definition window_offset :: "int \<Rightarrow> int \<Rightarrow> int \<Rightarrow> int" where
  "window_offset modulus base a =
     (let r = a - base; r1 = (if r < 0 then r + modulus else r) in c_rem r1 modulus)"

lemma window_offset_mod:
  assumes "0 < m" "- m \<le> a - base"
  shows "window_offset m base a = (a - base) mod m"
  using assms by (auto simp: window_offset_def Let_def c_rem_nonneg)

lemma window_offset_inj:
  assumes "0 < m" "- m \<le> a - base" "- m \<le> b - base" "0 \<le> a" "a < m" "0 \<le> b" "b < m"
  shows "window_offset m base a = window_offset m base b \<longleftrightarrow> a = b"
proof
  assume "window_offset m base a = window_offset m base b"
  then have "(a - base) mod m = (b - base) mod m"
    using assms by (simp add: window_offset_mod)
  then have "m dvd a - b" by (simp add: mod_eq_dvd_iff)
  moreover have "- m < a - b" "a - b < m" using assms by auto
  ultimately have "a - b = 0" using dvd_imp_le_int [of "a - b" m] by linarith
  then show "a = b" by simp
qed simp

locale sn_window =
  fixes cmp :: "int \<Rightarrow> int \<Rightarrow> int"
    and md :: "int \<Rightarrow> int"
    and ok :: "int \<Rightarrow> bool"
  assumes cmp_md: "ok a \<Longrightarrow> ok b \<Longrightarrow> cmp a b = md a - md b"
    and md_inj: "ok a \<Longrightarrow> ok b \<Longrightarrow> md a = md b \<longleftrightarrow> a = b"
begin

definition pdu_rank :: "nr_rlc_pdu \<Rightarrow> int \<times> int" where
  "pdu_rank p = (md (pdu_sn p), pdu_so p)"

definition pdu_ok :: "nr_rlc_pdu \<Rightarrow> bool" where
  "pdu_ok p \<longleftrightarrow> ok (pdu_sn p)"

end

sublocale sn_window \<subseteq> pdus: ordered_insertion "nr_rlc_pdu_list_add cmp" pdu_rank pdu_ok
proof
  show "nr_rlc_pdu_list_add cmp [] x = [x]" for x by simp
next
  fix x y ys
  assume "pdu_ok x" "pdu_ok y"
  then show "nr_rlc_pdu_list_add cmp (y # ys) x =
       (if pdu_rank x < pdu_rank y then x # y # ys else y # nr_rlc_pdu_list_add cmp ys x)"
    using md_inj [of "pdu_sn x" "pdu_sn y"]
    by (auto simp: pdu_ok_def pdu_rank_def cmp_md)
qed


text \<open>
  Whatever fields the encoder writes into a buffer that has room for them, the decoder reads
  back, and stops right behind them.
\<close>

theorem pdu_fields_roundtrip:
  assumes "\<forall>(v, n) \<in> set fs. n \<le> 31 \<and> 0 \<le> v \<and> v < 2 ^ n"
    and "sum_list (map snd fs) = 8 * k" "k \<le> length buffer"
  shows "\<exists>enc d. put_fields (nr_rlc_pdu_encoder_init buffer) fs = Inr enc \<and>
     get_fields (nr_rlc_pdu_decoder_init (enc_buffer enc)) (map snd fs) = Inr (Some (d, map fst fs)) \<and>
     dec_byte d = k \<and> dec_bit d = 0"
proof -
  have "\<forall>(v, n) \<in> set fs. n \<le> 31" using assms(1) by auto
  then obtain enc where enc: "put_fields (nr_rlc_pdu_encoder_init buffer) fs = Inr enc" "enc_byte enc = k"
      "length (enc_buffer enc) = length buffer" "bits_of (take k (enc_buffer enc)) = field_bits fs"
    by (rule put_header_ok [of fs k buffer]) (use assms in \<open>auto simp: length_field_bits\<close>)
  let ?d = "nr_rlc_pdu_decoder_init (enc_buffer enc)"
  have "dec_rest ?d = field_bits fs @ bits_of (drop k (enc_buffer enc))"
    using enc(4) bits_of_simps(3) [of "take k (enc_buffer enc)" "drop k (enc_buffer enc)"] by simp
  then have "get_fields ?d (map snd fs) = Inr (Some (dec_adv (8 * k) ?d, map fst fs))"
    using get_fields_rest [of ?d fs] assms(1,2) by (simp add: length_field_bits)
  moreover have "dec_byte (dec_adv (8 * k) ?d) = k" "dec_bit (dec_adv (8 * k) ?d) = 0"
    by (simp_all add: dec_adv_def)
  ultimately show ?thesis using enc(1) by blast
qed

theorem pdu_fields_roundtrip_witness:
  "(\<exists>enc d. put_fields (nr_rlc_pdu_encoder_init [7, 7, 7]) [(1, 1), (0, 1), (2, 2), (300, 12)] = Inr enc \<and>
     get_fields (nr_rlc_pdu_decoder_init (enc_buffer enc)) [1, 1, 2, 12] = Inr (Some (d, [1, 0, 2, 300])) \<and>
     dec_byte d = 2 \<and> dec_bit d = 0)"
proof -
  have h: "\<forall>(v, n) \<in> set [(1, 1), (0, 1), (2, 2), (300, 12)]. n \<le> 31 \<and> 0 \<le> (v::int) \<and> v < 2 ^ n"
    by simp
  show ?thesis using pdu_fields_roundtrip [OF h, of 2 "[7, 7, 7]"] h by (simp del: get_fields.simps)
qed

text \<open>
  Writing a field succeeds exactly when it has at most 31 bits and fits the buffer, and then
  appends its bits; in every other case the process exits.
\<close>

theorem pdu_put_bits_outcome:
  assumes "enc_wf e"
  shows "if n \<le> 31 \<and> length (enc_bits e) + n \<le> 8 * enc_size e
    then \<exists>e'. nr_rlc_pdu_encoder_put_bits e v n = Inr e' \<and> enc_wf e' \<and>
           enc_bits e' = enc_bits e @ int_bits n v \<and> enc_size e' = enc_size e
    else nr_rlc_pdu_encoder_put_bits e v n = Inl Exit"
proof (cases "n \<le> 31 \<and> length (enc_bits e) + n \<le> 8 * enc_size e")
  case True
  then obtain e' where "nr_rlc_pdu_encoder_put_bits e v n = Inr e'" "enc_wf e'"
    "enc_bits e' = enc_bits e @ int_bits n v" "enc_size e' = enc_size e"
    by (metis assms put_bits_ok)
  then show ?thesis using True by simp
next
  case False
  then show ?thesis using put_bits_exit [OF assms] by auto
qed

theorem pdu_put_bits_outcome_witness:
  "enc_wf (nr_rlc_pdu_encoder_init [0]) \<and> nr_rlc_pdu_encoder_put_bits (nr_rlc_pdu_encoder_init [0]) 5 9 = Inl Exit"
  using pdu_put_bits_outcome [of "nr_rlc_pdu_encoder_init [0]" 9 5] by simp

end
