(* ===== verification/Rlc_Reassembly.thy ===== *)
theory Rlc_Reassembly
  imports Rlc_Pdu "HOL-Library.While_Combinator"
begin

text \<open>
  What the three RLC entities share: the buffer status, the callbacks (as emitted events), and the
  receive-side routines that \<open>nr_rlc_entity_um.c\<close> and \<open>nr_rlc_entity_am.c\<close> each define with the same
  text (\<open>sdu_full\<close>, \<open>sdu_delivered\<close>, \<open>sdu_has_missing_bytes\<close>, \<open>reassemble_and_deliver\<close>).  They work
  on the receive list alone.  The main result is that a full SDU is reassembled to the bytes it
  was cut from, whatever the overlap of its segments.
\<close>

definition NR_SDU_MAX :: int where
  "NR_SDU_MAX = 16000"

record nr_rlc_entity_buffer_status =
  bs_status_size :: int
  bs_tx_size :: int
  bs_retx_size :: int

datatype rlc_event =
    DeliverSdu bytes
  | SduSuccessfulDelivery int
  | MaxRetxReached

subsection \<open>Inspecting the receive list\<close>

definition go_to_sn :: "nr_rlc_pdu list \<Rightarrow> int \<Rightarrow> nr_rlc_pdu list" where
  "go_to_sn l sn = dropWhile (\<lambda>p. pdu_sn p \<noteq> sn) l"

fun sdu_full_loop :: "int \<Rightarrow> int \<Rightarrow> nr_rlc_pdu list \<Rightarrow> bool" where
  "sdu_full_loop sn last_byte [] = False"
| "sdu_full_loop sn last_byte (p # ps) =
     (if pdu_sn p \<noteq> sn then False
      else if pdu_so p > last_byte + 1 then False
      else if pdu_is_last p then True
      else sdu_full_loop sn (max last_byte (pdu_so p + pdu_size p - 1)) ps)"

definition sdu_full_list :: "nr_rlc_pdu list \<Rightarrow> int \<Rightarrow> bool" where
  "sdu_full_list rx_list sn =
     (let l = go_to_sn rx_list sn
      in if l \<noteq> [] \<and> pdu_data (hd l) = None then False else sdu_full_loop sn (-1) l)"

definition sdu_delivered_list :: "nr_rlc_pdu list \<Rightarrow> int \<Rightarrow> bool" where
  "sdu_delivered_list rx_list sn =
     (let l = go_to_sn rx_list sn in l \<noteq> [] \<and> pdu_data (hd l) = None)"

fun missing_bytes_loop :: "int \<Rightarrow> int \<Rightarrow> nr_rlc_pdu list \<Rightarrow> bool" where
  "missing_bytes_loop sn last_byte [] = False"
| "missing_bytes_loop sn last_byte (p # ps) =
     (if pdu_sn p \<noteq> sn then False
      else if pdu_so p > last_byte + 1 then True
      else missing_bytes_loop sn (max last_byte (pdu_so p + pdu_size p - 1)) ps)"

definition sdu_has_missing_bytes_list :: "nr_rlc_pdu list \<Rightarrow> int \<Rightarrow> bool" where
  "sdu_has_missing_bytes_list rx_list sn =
     (let l = go_to_sn rx_list sn
      in if l \<noteq> [] \<and> pdu_data (hd l) = None then False else missing_bytes_loop sn (-1) l)"

text \<open>\<open>while (sdu_delivered(entity, sn)) sn = (sn + 1) % entity->sn_modulus;\<close>\<close>

definition skip_delivered :: "nr_rlc_pdu list \<Rightarrow> int \<Rightarrow> int \<Rightarrow> int res" where
  "skip_delivered rx_list modulus sn =
     (case while_option (\<lambda>s. sdu_delivered_list rx_list s) (\<lambda>s. c_rem (s + 1) modulus) sn of
        None \<Rightarrow> Inl Diverge
      | Some s \<Rightarrow> Inr s)"

subsection \<open>Reassembly\<close>

text \<open>
  The loop of \<open>reassemble_and_deliver\<close>.  \<open>acc\<close> is the filled part of the local buffer \<open>sdu\<close>, so
  the variable \<open>so\<close> is its length; \<open>clear\<close> is what the file does to a processed segment.
\<close>

fun reassemble_loop ::
    "(nr_rlc_pdu \<Rightarrow> nr_rlc_pdu) \<Rightarrow> int \<Rightarrow> nr_rlc_pdu list \<Rightarrow> bytes \<Rightarrow> bool \<Rightarrow> int \<Rightarrow>
     (nr_rlc_pdu list \<times> bytes \<times> bool \<times> int) res" where
  "reassemble_loop clear sn [] acc bad_sdu rx_size = Inr ([], acc, bad_sdu, rx_size)"
| "reassemble_loop clear sn (p # ps) acc bad_sdu rx_size =
     (if pdu_sn p \<noteq> sn then Inr (p # ps, acc, bad_sdu, rx_size)
      else
        let so = int (length acc);
            len = pdu_size p - (so - pdu_so p);
            bad = (bad_sdu \<or> so + len > NR_SDU_MAX)
        in bnd (if \<not> bad \<and> len > 0
                then bnd (deref (pdu_data p) NullDeref) (\<lambda>d.
                     bnd (read_at d (so - pdu_so p) len) (\<lambda>x. Inr (acc @ x)))
                else Inr acc) (\<lambda>acc1.
           bnd (reassemble_loop clear sn ps acc1 bad (rx_size - pdu_size p))
             (\<lambda>(ps1, acc2, bad2, size2). Inr (clear p # ps1, acc2, bad2, size2))))"

definition reassemble_and_deliver_list ::
    "(nr_rlc_pdu \<Rightarrow> nr_rlc_pdu) \<Rightarrow> nr_rlc_pdu list \<Rightarrow> int \<Rightarrow> int \<Rightarrow>
     (nr_rlc_pdu list \<times> int \<times> rlc_event list) res" where
  "reassemble_and_deliver_list clear rx_list rx_size sn =
     (if go_to_sn rx_list sn = [] then Inl NullDeref
      else bnd (reassemble_loop clear sn (go_to_sn rx_list sn) [] False rx_size)
        (\<lambda>(l, sdu, bad_sdu, size1).
          Inr (takeWhile (\<lambda>p. pdu_sn p \<noteq> sn) rx_list @ l, size1,
               if bad_sdu then [] else [DeliverSdu sdu])))"

subsection \<open>Segments of one SDU\<close>

text \<open>\<open>piece_of s p\<close>: the PDU \<open>p\<close> carries a slice of the SDU \<open>s\<close>, with the flags of its place.\<close>

definition piece_of :: "bytes \<Rightarrow> nr_rlc_pdu \<Rightarrow> bool" where
  "piece_of s p \<longleftrightarrow> 0 \<le> pdu_so p \<and> 0 < pdu_size p \<and> pdu_so p + pdu_size p \<le> int (length s) \<and>
     (pdu_is_last p \<longleftrightarrow> pdu_so p + pdu_size p = int (length s)) \<and>
     pdu_data p = Some (take (nat (pdu_size p)) (drop (nat (pdu_so p)) s))"

definition run_of :: "nr_rlc_pdu list \<Rightarrow> int \<Rightarrow> nr_rlc_pdu list" where
  "run_of l sn = takeWhile (\<lambda>p. pdu_sn p = sn) (go_to_sn l sn)"

lemma go_to_sn_hd: "go_to_sn l sn \<noteq> [] \<Longrightarrow> pdu_sn (hd (go_to_sn l sn)) = sn"
  unfolding go_to_sn_def by (metis (mono_tags) hd_dropWhile)

lemma run_of_ne: "go_to_sn l sn \<noteq> [] \<Longrightarrow> run_of l sn \<noteq> []"
  using go_to_sn_hd [of l sn] by (cases "go_to_sn l sn") (auto simp: run_of_def)

lemma slice_extend:
  assumes "pso \<le> n" "n \<le> pso + k" "pso + k \<le> length s"
  shows "take n s @ take (pso + k - n) (drop (n - pso) (take k (drop pso s))) = take (pso + k) s"
proof -
  have "drop (n - pso) (take k (drop pso s)) = take (pso + k - n) (drop n s)"
    using assms by (simp add: drop_take add.commute)
  moreover have "take n s @ take (pso + k - n) (drop n s) = take (pso + k) s"
    using assms by (metis add_diff_inverse_nat not_less take_add)
  ultimately show ?thesis by simp
qed

lemma reassemble_loop_step:
  assumes "piece_of s p" "pdu_sn p = sn" "int (length s) \<le> NR_SDU_MAX"
    and "acc = take n s" "n \<le> length s" "pdu_so p \<le> int n"
  shows "reassemble_loop clear sn (p # ps) acc False z =
    bnd (reassemble_loop clear sn ps (take (max n (nat (pdu_so p + pdu_size p))) s) False (z - pdu_size p))
      (\<lambda>(ps1, acc2, bad2, size2). Inr (clear p # ps1, acc2, bad2, size2))"
proof -
  define o' k where ok: "o' = nat (pdu_so p)" "k = nat (pdu_size p)"
  have p: "pdu_so p = int o'" "pdu_size p = int k" "0 < k" "o' + k \<le> length s" "o' \<le> n"
    "pdu_data p = Some (take k (drop o' s))"
    using assms by (auto simp: piece_of_def ok)
  have len: "length acc = n" using assms by simp
  have bad: "\<not> int n + (int k - (int n - int o')) > NR_SDU_MAX"
    using p assms(3) by linarith
  show ?thesis
  proof (cases "n < o' + k")
    case True
    have r: "read_at (take k (drop o' s)) (int n - int o') (int k - (int n - int o')) =
        Inr (take (o' + k - n) (drop (n - o') (take k (drop o' s))))"
    proof -
      have "nat (int k - (int n - int o')) = o' + k - n" "nat (int n - int o') = n - o'"
        using True p by linarith+
      then show ?thesis
        using True p by (subst read_at_fits) (auto simp: min_def)
    qed
    have "acc @ take (o' + k - n) (drop (n - o') (take k (drop o' s))) = take (o' + k) s"
      using slice_extend [of o' n k s] True p assms(4) by simp
    moreover have "nat (int o' + int k) = o' + k" "max n (o' + k) = o' + k"
      using True by simp_all
    ultimately show ?thesis
      using True p bad len assms(2) r by (simp add: Let_def)
  next
    case False
    then have "max n (nat (int o' + int k)) = n" by linarith
    then show ?thesis
      using False p bad len assms(2,4) by (simp add: Let_def)
  qed
qed

lemma reassemble_loop_pieces:
  assumes "\<forall>p\<in>set (takeWhile (\<lambda>p. pdu_sn p = sn) l). piece_of s p"
    and "int (length s) \<le> NR_SDU_MAX" "n \<le> length s"
    and "n = length s \<or> sdu_full_loop sn (int n - 1) l"
  shows "reassemble_loop clear sn l (take n s) False z =
    Inr (map clear (takeWhile (\<lambda>p. pdu_sn p = sn) l) @ dropWhile (\<lambda>p. pdu_sn p = sn) l,
         s, False, z - sum_list (map pdu_size (takeWhile (\<lambda>p. pdu_sn p = sn) l)))"
  using assms
proof (induction l arbitrary: n z)
  case Nil
  then show ?case by auto
next
  case (Cons p ps)
  show ?case
  proof (cases "pdu_sn p = sn")
    case False
    then show ?thesis using Cons.prems by auto
  next
    case True
    then have pc: "piece_of s p" using Cons.prems(1) by simp
    then have so: "pdu_so p \<le> int n"
      using Cons.prems(4) True by (auto simp: piece_of_def split: if_splits)
    let ?n = "max n (nat (pdu_so p + pdu_size p))"
    have n1: "?n \<le> length s" using pc Cons.prems(3) by (auto simp: piece_of_def)
    have full: "?n = length s \<or> sdu_full_loop sn (int ?n - 1) ps"
    proof (cases "n = length s \<or> pdu_is_last p")
      case t: True
      then show ?thesis using pc Cons.prems(3) by (auto simp: piece_of_def)
    next
      case f: False
      have "int ?n - 1 = max (int n - 1) (pdu_so p + pdu_size p - 1)"
        using pc by (auto simp: piece_of_def)
      then show ?thesis using f Cons.prems(4) True by (auto split: if_splits)
    qed
    have step: "reassemble_loop clear sn (p # ps) (take n s) False z =
      bnd (reassemble_loop clear sn ps (take ?n s) False (z - pdu_size p))
        (\<lambda>(ps1, acc2, bad2, size2). Inr (clear p # ps1, acc2, bad2, size2))"
      by (rule reassemble_loop_step [OF pc True Cons.prems(2) refl Cons.prems(3) so])
    show ?thesis
      unfolding step using Cons.IH [OF _ Cons.prems(2) n1 full] Cons.prems(1) True
      by (simp add: algebra_simps)
  qed
qed

text \<open>A full SDU of which all received pieces are genuine is delivered exactly.\<close>

lemma reassemble_exact:
  assumes "sdu_full_list l sn" "\<forall>p\<in>set (run_of l sn). piece_of s p"
    and "int (length s) \<le> NR_SDU_MAX"
  shows "reassemble_and_deliver_list clear l z sn =
    Inr (takeWhile (\<lambda>p. pdu_sn p \<noteq> sn) l @ map clear (run_of l sn) @
           dropWhile (\<lambda>p. pdu_sn p = sn) (go_to_sn l sn),
         z - sum_list (map pdu_size (run_of l sn)), [DeliverSdu s])"
proof -
  have ne: "go_to_sn l sn \<noteq> []" and full: "sdu_full_loop sn (-1) (go_to_sn l sn)"
    using assms(1) by (auto simp: sdu_full_list_def Let_def split: if_splits)
  have "reassemble_loop clear sn (go_to_sn l sn) (take 0 s) False z =
    Inr (map clear (run_of l sn) @ dropWhile (\<lambda>p. pdu_sn p = sn) (go_to_sn l sn),
         s, False, z - sum_list (map pdu_size (run_of l sn)))"
    unfolding run_of_def
    by (rule reassemble_loop_pieces) (use assms full in \<open>auto simp: run_of_def\<close>)
  then show ?thesis using ne by (simp add: reassemble_and_deliver_list_def)
qed

text \<open>The test \<open>sdu_full\<close> is complete: once every byte and the last segment are there it holds.\<close>

lemma sdu_full_loop_complete:
  assumes "\<forall>p\<in>set (takeWhile (\<lambda>p. pdu_sn p = sn) l). piece_of s p"
    and "sorted (map pdu_so (takeWhile (\<lambda>p. pdu_sn p = sn) l))"
    and "s \<noteq> []" "n < length s"
    and "\<forall>i. int n \<le> i \<and> i < int (length s) \<longrightarrow>
       (\<exists>p\<in>set (takeWhile (\<lambda>p. pdu_sn p = sn) l). pdu_so p \<le> i \<and> i < pdu_so p + pdu_size p)"
  shows "sdu_full_loop sn (int n - 1) l"
  using assms
proof (induction l arbitrary: n)
  case Nil
  then show ?case by auto
next
  case (Cons p ps)
  obtain q where q: "q \<in> set (takeWhile (\<lambda>p. pdu_sn p = sn) (p # ps))" "pdu_so q \<le> int n"
    using Cons.prems(4,5) by force
  have psn: "pdu_sn p = sn" using q(1) by (auto split: if_splits)
  have so: "pdu_so p \<le> int n" using q Cons.prems(2) psn by auto
  have pc: "piece_of s p" using Cons.prems(1) psn by simp
  show ?case
  proof (cases "pdu_is_last p")
    case True
    then show ?thesis using psn so by simp
  next
    case False
    let ?n = "max n (nat (pdu_so p + pdu_size p))"
    have n1: "?n < length s" using pc False Cons.prems(4) by (auto simp: piece_of_def)
    have "int ?n - 1 = max (int n - 1) (pdu_so p + pdu_size p - 1)"
      using pc by (auto simp: piece_of_def)
    moreover have "sdu_full_loop sn (int ?n - 1) ps"
    proof (rule Cons.IH)
      show "\<forall>i. int ?n \<le> i \<and> i < int (length s) \<longrightarrow>
         (\<exists>p\<in>set (takeWhile (\<lambda>p. pdu_sn p = sn) ps). pdu_so p \<le> i \<and> i < pdu_so p + pdu_size p)"
      proof (intro allI impI)
        fix i assume i: "int ?n \<le> i \<and> i < int (length s)"
        then have "int n \<le> i \<and> i < int (length s)" and ni: "\<not> i < pdu_so p + pdu_size p"
          by linarith+
        then obtain r where r: "r \<in> set (takeWhile (\<lambda>p. pdu_sn p = sn) (p # ps))"
            "pdu_so r \<le> i" "i < pdu_so r + pdu_size r"
          using Cons.prems(5) by blast
        then have "r \<in> set (takeWhile (\<lambda>p. pdu_sn p = sn) ps)"
          using psn ni by auto
        then show "\<exists>p\<in>set (takeWhile (\<lambda>p. pdu_sn p = sn) ps). pdu_so p \<le> i \<and> i < pdu_so p + pdu_size p"
          using r by blast
      qed
    qed (use Cons.prems psn n1 in auto)
    ultimately show ?thesis using psn so False by simp
  qed
qed

text \<open>And sound: if it holds, every byte is there.\<close>

lemma sdu_full_loop_sound:
  assumes "\<forall>p\<in>set (takeWhile (\<lambda>p. pdu_sn p = sn) l). piece_of s p" "sdu_full_loop sn (int n - 1) l"
    and "int n \<le> i" "i < int (length s)"
  shows "\<exists>p\<in>set (takeWhile (\<lambda>p. pdu_sn p = sn) l). pdu_so p \<le> i \<and> i < pdu_so p + pdu_size p"
  using assms
proof (induction l arbitrary: n)
  case Nil
  then show ?case by simp
next
  case (Cons p ps)
  have p: "pdu_sn p = sn" "pdu_so p \<le> int n" "piece_of s p"
    using Cons.prems(1,2) by (auto split: if_splits)
  show ?case
  proof (cases "i < pdu_so p + pdu_size p")
    case True
    then show ?thesis using p Cons.prems(3) by auto
  next
    case False
    then have nl: "\<not> pdu_is_last p" using p(3) Cons.prems(4) by (auto simp: piece_of_def)
    let ?n = "max n (nat (pdu_so p + pdu_size p))"
    have "int ?n - 1 = max (int n - 1) (pdu_so p + pdu_size p - 1)"
      using p(3) by (auto simp: piece_of_def)
    then have "sdu_full_loop sn (int ?n - 1) ps" using Cons.prems(2) p nl by simp
    moreover have "int ?n \<le> i" using False Cons.prems(3) by simp
    ultimately show ?thesis using Cons.IH [of ?n] Cons.prems(1,4) p(1) by auto
  qed
qed

text \<open>For genuine pieces sorted by offset, \<open>sdu_full\<close> is exactly that every byte has arrived.\<close>

lemma sdu_full_iff:
  assumes "run_of l sn \<noteq> []" "\<forall>p\<in>set (run_of l sn). piece_of s p" "sorted (map pdu_so (run_of l sn))"
  shows "sdu_full_list l sn \<longleftrightarrow>
     (\<forall>i. 0 \<le> i \<and> i < int (length s) \<longrightarrow> (\<exists>p\<in>set (run_of l sn). pdu_so p \<le> i \<and> i < pdu_so p + pdu_size p))"
proof -
  let ?g = "go_to_sn l sn"
  have ne: "?g \<noteq> []" using assms(1) by (auto simp: run_of_def)
  have "hd ?g \<in> set (run_of l sn)"
    using ne go_to_sn_hd [OF ne] by (cases ?g) (auto simp: run_of_def)
  then have h: "piece_of s (hd ?g)" using assms(2) by blast
  then have "\<not> pdu_data (hd ?g) = None" and s: "s \<noteq> []" by (auto simp: piece_of_def)
  then have full: "sdu_full_list l sn \<longleftrightarrow> sdu_full_loop sn (int 0 - 1) ?g"
    unfolding sdu_full_list_def Let_def by (simp only: simp_thms if_False) simp
  show ?thesis
    unfolding full run_of_def
    using sdu_full_loop_sound [of sn ?g s 0] sdu_full_loop_complete [of sn ?g s 0] assms s
    by (auto simp: run_of_def)
qed

subsection \<open>Skipping delivered SDUs\<close>

lemma skip_delivered_run:
  assumes "0 < m" "0 \<le> sn" "sn < m" "skip_delivered l m sn = Inr t"
  obtains k where "t = (sn + int k) mod m" "\<not> sdu_delivered_list l t"
    "\<forall>j<k. sdu_delivered_list l ((sn + int j) mod m)"
proof -
  let ?c = "\<lambda>s. c_rem (s + 1) m"
  have w: "while_option (sdu_delivered_list l) ?c sn = Some t"
    using assms(4) by (simp add: skip_delivered_def split: option.splits)
  define P where "P s \<longleftrightarrow> (\<exists>k. s = (sn + int k) mod m \<and>
      (\<forall>j<k. sdu_delivered_list l ((sn + int j) mod m)))" for s
  have init: "P sn" using assms by (auto simp: P_def intro: exI [of _ 0])
  have step: "P (?c s)" if Ps: "P s" and ds: "sdu_delivered_list l s" for s
  proof -
    obtain k where k: "s = (sn + int k) mod m" "\<forall>j<k. sdu_delivered_list l ((sn + int j) mod m)"
      using Ps unfolding P_def by blast
    have "0 \<le> s" using k assms(1) by simp
    then have "?c s = (sn + int (Suc k)) mod m"
      using k assms(1) by (simp add: c_rem_nonneg mod_simps algebra_simps)
    moreover have "\<forall>j<Suc k. sdu_delivered_list l ((sn + int j) mod m)"
      using k ds by (auto simp: less_Suc_eq)
    ultimately show ?thesis unfolding P_def by blast
  qed
  have "P t" by (rule while_option_rule [where P = P, OF _ w init]) (rule step)
  moreover have "\<not> sdu_delivered_list l t" using while_option_stop [OF w] by simp
  ultimately show ?thesis using that by (auto simp: P_def)
qed

lemma skip_delivered_terminates:
  assumes "0 < m" "0 \<le> sn" "sn < m" "0 \<le> t" "t < m" "\<not> sdu_delivered_list l t"
  shows "\<exists>u. skip_delivered l m sn = Inr u"
proof -
  let ?c = "\<lambda>s. c_rem (s + 1) m"
  define P where "P s \<longleftrightarrow> 0 \<le> s \<and> s < m" for s :: int
  have "\<exists>u. while_option (sdu_delivered_list l) ?c sn = Some u"
  proof (rule measure_while_option_Some [where P = P and f = "\<lambda>s. nat ((t - s) mod m)"])
    show "P sn" using assms by (simp add: P_def)
  next
    fix s assume s: "P s" "sdu_delivered_list l s"
    then have ne: "s \<noteq> t" using assms by blast
    have r: "0 \<le> s" "s < m" using s by (simp_all add: P_def)
    then have c: "?c s = (s + 1) mod m" using assms(1) by (simp add: c_rem_nonneg)
    have pos: "0 < (t - s) mod m"
    proof -
      have "(t - s) mod m \<noteq> 0"
      proof
        assume "(t - s) mod m = 0"
        then have "m dvd t - s" by (simp add: dvd_eq_mod_eq_0)
        then show False using ne assms r dvd_imp_le_int [of "t - s" m] by linarith
      qed
      then show ?thesis using pos_mod_sign [OF assms(1), of "t - s"] by linarith
    qed
    have "(t - (s + 1) mod m) mod m = (t - s - 1) mod m" by (simp add: mod_simps algebra_simps)
    also have "\<dots> = ((t - s) mod m - 1) mod m" by (simp add: mod_simps)
    also have "\<dots> = (t - s) mod m - 1"
      using pos pos_mod_bound [OF assms(1), of "t - s"] by simp
    finally show "P (?c s) \<and> nat ((t - ?c s) mod m) < nat ((t - s) mod m)"
      using pos c assms(1) by (simp add: P_def)
  qed
  then show ?thesis by (auto simp: skip_delivered_def)
qed

lemma skip_delivered_range:
  assumes "0 < m" "0 \<le> sn" "sn < m" "skip_delivered l m sn = Inr t"
  shows "0 \<le> t" "t < m"
  using skip_delivered_run [OF assms] assms(1) by (metis pos_mod_sign, metis pos_mod_bound)

text \<open>A receive list shorter than the sequence-number space never blocks the search.\<close>

lemma sdu_delivered_in: "sdu_delivered_list l sn \<Longrightarrow> sn \<in> pdu_sn ` set l"
proof -
  assume d: "sdu_delivered_list l sn"
  then have ne: "go_to_sn l sn \<noteq> []" by (simp add: sdu_delivered_list_def Let_def)
  then have "hd (go_to_sn l sn) \<in> set l"
    unfolding go_to_sn_def by (metis hd_in_set set_dropWhileD)
  then show "sn \<in> pdu_sn ` set l" using go_to_sn_hd [OF ne] by (metis imageI)
qed

lemma skip_delivered_short:
  assumes "0 \<le> sn" "sn < m" "card (pdu_sn ` set l) < nat m"
  shows "\<exists>u. skip_delivered l m sn = Inr u"
proof -
  have "\<exists>t\<in>{0..<m}. t \<notin> pdu_sn ` set l"
  proof (rule ccontr)
    assume "\<not> ?thesis"
    then have "{0..<m} \<subseteq> pdu_sn ` set l" by blast
    then have "card {0..<m} \<le> card (pdu_sn ` set l)" by (intro card_mono) auto
    then show False using assms(3) by simp
  qed
  then obtain t where "0 \<le> t" "t < m" "\<not> sdu_delivered_list l t"
    using sdu_delivered_in by fastforce
  then show ?thesis using skip_delivered_terminates assms by force
qed

subsection \<open>Runs of a sorted receive list\<close>

context sn_window
begin

lemma takeWhile_sorted:
  assumes "sorted (map pdu_rank l)" "\<forall>p\<in>set l. pdu_ok p" "ok x" "\<forall>p\<in>set l. md x \<le> md (pdu_sn p)"
  shows "takeWhile (\<lambda>p. pdu_sn p = x) l = filter (\<lambda>p. pdu_sn p = x) l \<and>
    dropWhile (\<lambda>p. pdu_sn p = x) l = filter (\<lambda>p. pdu_sn p \<noteq> x) l"
  using assms
proof (induction l)
  case Nil
  then show ?case by simp
next
  case (Cons p ps)
  show ?case
  proof (cases "pdu_sn p = x")
    case True
    then show ?thesis using Cons by auto
  next
    case False
    then have lt: "md x < md (pdu_sn p)"
      using md_inj [of "pdu_sn p" x] Cons.prems(2,3,4) by (auto simp: pdu_ok_def order.order_iff_strict)
    have "\<forall>q\<in>set (p # ps). pdu_sn q \<noteq> x"
    proof (intro ballI notI)
      fix q assume q: "q \<in> set (p # ps)" "pdu_sn q = x"
      then have "pdu_rank p \<le> pdu_rank q" using Cons.prems(1) by auto
      then show False using lt q by (auto simp: pdu_rank_def)
    qed
    then show ?thesis using False by (auto simp: filter_empty_conv filter_id_conv)
  qed
qed

lemma run_of_filter:
  assumes "sorted (map pdu_rank l)" "\<forall>p\<in>set l. pdu_ok p" "ok x"
  shows "run_of l x = filter (\<lambda>p. pdu_sn p = x) l"
    and "dropWhile (\<lambda>p. pdu_sn p = x) (go_to_sn l x) = filter (\<lambda>p. pdu_sn p \<noteq> x) (go_to_sn l x)"
proof -
  have "takeWhile (\<lambda>p. pdu_sn p = x) (go_to_sn l x) = filter (\<lambda>p. pdu_sn p = x) l \<and>
      dropWhile (\<lambda>p. pdu_sn p = x) (go_to_sn l x) = filter (\<lambda>p. pdu_sn p \<noteq> x) (go_to_sn l x)"
    using assms
  proof (induction l)
    case Nil
    then show ?case by (simp add: go_to_sn_def)
  next
    case (Cons p ps)
    show ?case
    proof (cases "pdu_sn p = x")
      case True
      then have g: "go_to_sn (p # ps) x = p # ps" by (simp add: go_to_sn_def)
      have "pdu_rank p \<le> pdu_rank q" if "q \<in> set (p # ps)" for q using Cons.prems(1) that by auto
      then have "\<forall>q\<in>set (p # ps). md x \<le> md (pdu_sn q)"
        using True by (fastforce simp: pdu_rank_def)
      from takeWhile_sorted [OF Cons.prems this] show ?thesis unfolding g by blast
    next
      case False
      then have "go_to_sn (p # ps) x = go_to_sn ps x" by (simp add: go_to_sn_def)
      then show ?thesis using Cons False by simp
    qed
  qed
  then show "run_of l x = filter (\<lambda>p. pdu_sn p = x) l"
    "dropWhile (\<lambda>p. pdu_sn p = x) (go_to_sn l x) = filter (\<lambda>p. pdu_sn p \<noteq> x) (go_to_sn l x)"
    by (simp_all add: run_of_def)
qed

lemma update_run:
  assumes "sorted (map pdu_rank l)" "\<forall>p\<in>set l. pdu_ok p" "ok x"
  shows "takeWhile (\<lambda>p. pdu_sn p \<noteq> x) l @ map f (run_of l x) @ dropWhile (\<lambda>p. pdu_sn p = x) (go_to_sn l x) =
     map (\<lambda>p. if pdu_sn p = x then f p else p) l"
proof -
  let ?u = "\<lambda>p. if pdu_sn p = x then f p else p"
  have "map ?u l = map ?u (takeWhile (\<lambda>p. pdu_sn p \<noteq> x) l) @
      map ?u (takeWhile (\<lambda>p. pdu_sn p = x) (go_to_sn l x)) @ map ?u (dropWhile (\<lambda>p. pdu_sn p = x) (go_to_sn l x))"
    unfolding map_append [symmetric] takeWhile_dropWhile_id go_to_sn_def by simp
  also have "map ?u (takeWhile (\<lambda>p. pdu_sn p \<noteq> x) l) = takeWhile (\<lambda>p. pdu_sn p \<noteq> x) l"
    by (rule map_idI) (auto dest: set_takeWhileD)
  also have "map ?u (takeWhile (\<lambda>p. pdu_sn p = x) (go_to_sn l x)) = map f (run_of l x)"
    unfolding run_of_def by (rule map_cong [OF refl]) (auto dest: set_takeWhileD)
  also have "map ?u (dropWhile (\<lambda>p. pdu_sn p = x) (go_to_sn l x)) = dropWhile (\<lambda>p. pdu_sn p = x) (go_to_sn l x)"
    unfolding run_of_filter(2) [OF assms] by (rule map_idI) auto
  finally show ?thesis by simp
qed

lemma sorted_so_run:
  assumes "sorted (map pdu_rank l)"
  shows "sorted (map pdu_so (filter (\<lambda>p. pdu_sn p = x) l))"
  using assms by (induction l) (auto simp: pdu_rank_def)

end

text \<open>The bytes of SDU \<open>sn\<close> that have been received.\<close>

definition received :: "nr_rlc_pdu list \<Rightarrow> int \<Rightarrow> int \<Rightarrow> bool" where
  "received l sn i \<longleftrightarrow> (\<exists>p\<in>set l. pdu_sn p = sn \<and> pdu_so p \<le> i \<and> i < pdu_so p + pdu_size p)"

lemma sdu_delivered_iff:
  assumes "\<And>p q. p \<in> set l \<Longrightarrow> q \<in> set l \<Longrightarrow> pdu_sn p = pdu_sn q \<Longrightarrow> (pdu_data p = None) = (pdu_data q = None)"
  shows "sdu_delivered_list l x \<longleftrightarrow> (\<exists>p\<in>set l. pdu_sn p = x \<and> pdu_data p = None)"
proof
  assume d: "sdu_delivered_list l x"
  then have ne: "go_to_sn l x \<noteq> []" "pdu_data (hd (go_to_sn l x)) = None"
    by (auto simp: sdu_delivered_list_def Let_def)
  moreover have "hd (go_to_sn l x) \<in> set l"
    using ne(1) unfolding go_to_sn_def by (metis hd_in_set set_dropWhileD)
  ultimately show "\<exists>p\<in>set l. pdu_sn p = x \<and> pdu_data p = None" using go_to_sn_hd by blast
next
  assume "\<exists>p\<in>set l. pdu_sn p = x \<and> pdu_data p = None"
  then obtain p where p: "p \<in> set l" "pdu_sn p = x" "pdu_data p = None" by blast
  then have ne: "go_to_sn l x \<noteq> []" by (auto simp: go_to_sn_def dropWhile_eq_Nil_conv)
  moreover have "hd (go_to_sn l x) \<in> set l"
    using ne unfolding go_to_sn_def by (metis hd_in_set set_dropWhileD)
  ultimately have "pdu_data (hd (go_to_sn l x)) = None"
    using assms [OF p(1), of "hd (go_to_sn l x)"] go_to_sn_hd [OF ne] p by simp
  then show "sdu_delivered_list l x" using ne by (simp add: sdu_delivered_list_def Let_def)
qed

end
