(* ===== verification/Rlc_Tm.thy ===== *)
theory Rlc_Tm
  imports Rlc_Sdu Rlc_Reassembly
begin

text \<open>
  The RLC transparent-mode entity, \<open>nr_rlc_entity_tm.c\<close>: SDUs are queued and sent unchanged.  It
  refines a bounded first-in-first-out queue of byte strings.
\<close>

record nr_rlc_entity_tm =
  tm_bstatus :: nr_rlc_entity_buffer_status
  tm_t_current :: u64
  tm_tx_list :: "nr_rlc_sdu_segment list"
  tm_tx_end :: "nat option"
  tm_tx_size :: int
  tm_tx_maxsize :: int
  tm_heap :: sdu_heap

subsection \<open>Operations\<close>

definition nr_rlc_entity_tm_recv_pdu ::
    "nr_rlc_entity_tm \<Rightarrow> bytes \<Rightarrow> nr_rlc_entity_tm \<times> rlc_event list" where
  "nr_rlc_entity_tm_recv_pdu e buffer = (e, [DeliverSdu buffer])"

definition tm_generate_tx_pdu ::
    "nr_rlc_entity_tm \<Rightarrow> bytes \<Rightarrow> (nr_rlc_entity_tm \<times> int \<times> bytes) res" where
  "tm_generate_tx_pdu e buffer =
     (case tm_tx_list e of
        [] \<Rightarrow> Inr (e, 0, buffer)
      | sdu # rest \<Rightarrow>
          if seg_size sdu > int (length buffer) then Inr (e, 0, buffer)
          else
            bnd (get_sdu (tm_heap e) sdu) (\<lambda>u.
            bnd (read_at (sdu_data u) 0 (seg_size sdu)) (\<lambda>d.
            bnd (memcpy_at buffer 0 d) (\<lambda>buffer1.
            bnd (nr_rlc_free_sdu_segment (tm_heap e) sdu) (\<lambda>(h1, _).
              Inr (e\<lparr>tm_tx_list := rest,
                     tm_tx_end := (if rest = [] then None else tm_tx_end e),
                     tm_tx_size := tm_tx_size e - seg_size sdu,
                     tm_bstatus := (tm_bstatus e)\<lparr>bs_tx_size := bs_tx_size (tm_bstatus e) - seg_size sdu\<rparr>,
                     tm_heap := h1\<rparr>, seg_size sdu, buffer1))))))"

definition nr_rlc_entity_tm_buffer_status :: "nr_rlc_entity_tm \<Rightarrow> int \<Rightarrow> nr_rlc_entity_buffer_status" where
  "nr_rlc_entity_tm_buffer_status e maxsize =
     \<lparr>bs_status_size = 0, bs_tx_size = bs_tx_size (tm_bstatus e), bs_retx_size = 0\<rparr>"

definition nr_rlc_entity_tm_generate_pdu ::
    "nr_rlc_entity_tm \<Rightarrow> bytes \<Rightarrow> (nr_rlc_entity_tm \<times> int \<times> bytes) res" where
  "nr_rlc_entity_tm_generate_pdu e buffer = tm_generate_tx_pdu e buffer"

definition nr_rlc_entity_tm_recv_sdu :: "nr_rlc_entity_tm \<Rightarrow> bytes \<Rightarrow> int \<Rightarrow> nr_rlc_entity_tm res" where
  "nr_rlc_entity_tm_recv_sdu e buffer sdu_id =
     (let sz = int (length buffer) in
      if sz > NR_SDU_MAX then Inl Exit
      else if tm_tx_size e + sz > tm_tx_maxsize e then Inr e
      else
        let (h1, sdu) = nr_rlc_new_sdu (tm_heap e) buffer sdu_id
        in bnd (nr_rlc_sdu_segment_list_append (tm_tx_list e) (tm_tx_end e) sdu) (\<lambda>(l, p).
             Inr (e\<lparr>tm_tx_size := tm_tx_size e + sz, tm_heap := h1, tm_tx_list := l, tm_tx_end := p,
                    tm_bstatus := (tm_bstatus e)
                      \<lparr>bs_tx_size := bs_tx_size (tm_bstatus e) + seg_size sdu\<rparr>\<rparr>)))"

definition nr_rlc_entity_tm_set_time :: "nr_rlc_entity_tm \<Rightarrow> u64 \<Rightarrow> nr_rlc_entity_tm" where
  "nr_rlc_entity_tm_set_time e now = e\<lparr>tm_t_current := now\<rparr>"

definition nr_rlc_entity_tm_discard_sdu :: "nr_rlc_entity_tm \<Rightarrow> int \<Rightarrow> nr_rlc_entity_tm" where
  "nr_rlc_entity_tm_discard_sdu e sdu_id = e"

definition tm_clear_entity :: "nr_rlc_entity_tm \<Rightarrow> nr_rlc_entity_tm res" where
  "tm_clear_entity e =
     bnd (nr_rlc_free_sdu_segment_list (tm_heap e) (tm_tx_list e)) (\<lambda>h1.
       Inr (e\<lparr>tm_heap := h1, tm_tx_list := [], tm_tx_end := None, tm_tx_size := 0,
              tm_bstatus := (tm_bstatus e)\<lparr>bs_tx_size := 0\<rparr>\<rparr>))"

definition nr_rlc_entity_tm_reestablishment :: "nr_rlc_entity_tm \<Rightarrow> nr_rlc_entity_tm res" where
  "nr_rlc_entity_tm_reestablishment e = tm_clear_entity e"

definition nr_rlc_entity_tm_delete :: "nr_rlc_entity_tm \<Rightarrow> sdu_heap res" where
  "nr_rlc_entity_tm_delete e = bnd (tm_clear_entity e) (\<lambda>e1. Inr (tm_heap e1))"

definition new_nr_rlc_entity_tm :: "int \<Rightarrow> nr_rlc_entity_tm" where
  "new_nr_rlc_entity_tm tx_maxsize =
     \<lparr>tm_bstatus = \<lparr>bs_status_size = 0, bs_tx_size = 0, bs_retx_size = 0\<rparr>, tm_t_current = 0,
      tm_tx_list = [], tm_tx_end = None, tm_tx_size = 0, tm_tx_maxsize = tx_maxsize,
      tm_heap = empty_heap\<rparr>"

subsection \<open>The queue it implements\<close>

definition tm_queue :: "nr_rlc_entity_tm \<Rightarrow> bytes list" where
  "tm_queue e = map (seg_bytes (tm_heap e)) (tm_tx_list e)"

definition tm_ok :: "nr_rlc_entity_tm \<Rightarrow> bool" where
  "tm_ok e \<longleftrightarrow> heap_ok (tm_heap e) (mset (tm_tx_list e)) \<and> list_ok (tm_tx_list e) (tm_tx_end e) \<and>
     distinct (map seg_sdu (tm_tx_list e)) \<and>
     (\<forall>s\<in>set (tm_tx_list e). seg_slice (tm_heap e) s \<and> seg_is_first s \<and> seg_is_last s) \<and>
     tm_tx_size e = sum_list (map seg_size (tm_tx_list e)) \<and> bs_tx_size (tm_bstatus e) = tm_tx_size e"

lemma tm_new_ok [simp]: "tm_ok (new_nr_rlc_entity_tm n)"
  by (simp add: tm_ok_def new_nr_rlc_entity_tm_def empty_heap_def)

lemma tm_recv_sdu_ok:
  assumes ok: "tm_ok e" and fits: "int (length b) \<le> NR_SDU_MAX"
    "tm_tx_size e + int (length b) \<le> tm_tx_maxsize e"
  obtains e' where "nr_rlc_entity_tm_recv_sdu e b i = Inr e'" "tm_ok e'"
    "tm_queue e' = tm_queue e @ [b]" "tm_tx_maxsize e' = tm_tx_maxsize e"
proof -
  let ?h = "tm_heap e" and ?l = "tm_tx_list e"
  obtain h1 s where n: "nr_rlc_new_sdu ?h b i = (h1, s)" by fastforce
  have s: "seg_addr s = hp_next ?h + 1" "seg_sdu s = hp_next ?h" "seg_size s = int (length b)"
    "seg_is_first s" "seg_is_last s"
    "seg_bytes h1 s = b" "seg_slice h1 s" "\<And>a. a \<noteq> hp_next ?h \<Longrightarrow> hp_sdus h1 a = hp_sdus ?h a"
    using n by (auto simp: nr_rlc_new_sdu_def Let_def seg_bytes_def seg_slice_def)
  have hok: "heap_ok ?h (mset ?l)" using ok by (simp add: tm_ok_def)
  have fr: "seg_addr t < hp_next ?h" "seg_sdu t < hp_next ?h" if "t \<in> set ?l" for t
    using hok that by (fastforce simp: heap_ok_def)+
  have same: "hp_sdus h1 (seg_sdu t) = hp_sdus ?h (seg_sdu t)" if "t \<in> set ?l" for t
    using s(8) [of "seg_sdu t"] fr [OF that] by simp
  have app: "nr_rlc_sdu_segment_list_append ?l (tm_tx_end e) s = Inr (?l @ [s], Some (seg_addr s))"
    "list_ok (?l @ [s]) (Some (seg_addr s))"
    using list_append_ok [of ?l "tm_tx_end e" s] ok fr s(1) by (force simp: tm_ok_def)+
  define e' where "e' = e\<lparr>tm_tx_size := tm_tx_size e + int (length b), tm_heap := h1,
      tm_tx_list := ?l @ [s], tm_tx_end := Some (seg_addr s),
      tm_bstatus := (tm_bstatus e)\<lparr>bs_tx_size := bs_tx_size (tm_bstatus e) + seg_size s\<rparr>\<rparr>"
  have "nr_rlc_entity_tm_recv_sdu e b i = Inr e'"
    using fits n app by (simp add: nr_rlc_entity_tm_recv_sdu_def e'_def)
  moreover have "tm_ok e'"
  proof -
    have "heap_ok h1 (mset (?l @ [s]))"
      using new_sdu_heap_ok [OF hok n] by simp
    moreover have "distinct (map seg_sdu (?l @ [s]))"
      using ok fr s(2) by (force simp: tm_ok_def)
    ultimately show ?thesis
      using ok app s seg_slice_cong [OF same] by (simp add: tm_ok_def e'_def)
  qed
  moreover have "tm_queue e' = tm_queue e @ [b]"
    using s seg_bytes_cong [OF same] by (simp add: tm_queue_def e'_def)
  ultimately show ?thesis using that by (simp add: e'_def)
qed

lemma tm_generate_ok:
  assumes ok: "tm_ok e" and q: "tm_queue e = b # q" and fits: "length b \<le> length buffer"
  obtains e' where "nr_rlc_entity_tm_generate_pdu e buffer =
      Inr (e', int (length b), b @ drop (length b) buffer)"
    "tm_ok e'" "tm_queue e' = q" "tm_tx_maxsize e' = tm_tx_maxsize e"
proof -
  let ?h = "tm_heap e"
  obtain s l where l: "tm_tx_list e = s # l" and b: "b = seg_bytes ?h s" and ql: "q = map (seg_bytes ?h) l"
    using q by (auto simp: tm_queue_def)
  have sl: "seg_slice ?h s" "seg_is_first s" using ok l by (auto simp: tm_ok_def)
  then obtain u where u: "hp_sdus ?h (seg_sdu s) = Some u" "seg_so s = 0" "0 \<le> seg_size s"
      "seg_size s \<le> int (length (sdu_data u))"
    by (auto simp: seg_slice_def split: option.splits)
  have blen: "int (length b) = seg_size s" using seg_bytes_length sl b by simp
  have rd: "read_at (sdu_data u) 0 (seg_size s) = Inr b"
    using u b by (simp add: read_at_def seg_bytes_def)
  have hok: "heap_ok ?h (add_mset s (mset l))" using ok l by (simp add: tm_ok_def)
  obtain h1 where h1: "nr_rlc_free_sdu_segment ?h s = Inr (h1, seg_of (seg_sdu s) (mset l) = {#})"
      "heap_ok h1 (mset l)" "\<And>a. a \<noteq> seg_sdu s \<Longrightarrow> hp_sdus h1 a = hp_sdus ?h a"
    by (rule free_segment_cases [OF hok]) blast
  have same: "hp_sdus h1 (seg_sdu t) = hp_sdus ?h (seg_sdu t)" if "t \<in> set l" for t
  proof -
    have "seg_sdu s \<notin> seg_sdu ` set l" using ok l by (simp add: tm_ok_def)
    then have "seg_sdu t \<noteq> seg_sdu s" using that by (metis imageI)
    then show ?thesis by (rule h1(3))
  qed
  define e' where "e' = e\<lparr>tm_tx_list := l, tm_tx_end := (if l = [] then None else tm_tx_end e),
      tm_tx_size := tm_tx_size e - seg_size s,
      tm_bstatus := (tm_bstatus e)\<lparr>bs_tx_size := bs_tx_size (tm_bstatus e) - seg_size s\<rparr>, tm_heap := h1\<rparr>"
  have "nr_rlc_entity_tm_generate_pdu e buffer = Inr (e', int (length b), b @ drop (length b) buffer)"
    using l u rd blen fits h1(1)
    by (simp add: nr_rlc_entity_tm_generate_pdu_def tm_generate_tx_pdu_def get_sdu_def memcpy_at_def e'_def)
  moreover have "tm_ok e'"
    using ok l h1(2) list_ok_Cons [of s l "tm_tx_end e"] seg_slice_cong [OF same]
    by (simp add: tm_ok_def e'_def)
  moreover have "tm_queue e' = q"
    using ql seg_bytes_cong [OF same] by (simp add: tm_queue_def e'_def)
  ultimately show ?thesis using that by (simp add: e'_def)
qed

lemma tm_generate_idle:
  assumes "tm_ok e" "tm_queue e = [] \<or> length (hd (tm_queue e)) > length buffer"
  shows "nr_rlc_entity_tm_generate_pdu e buffer = Inr (e, 0, buffer)"
proof (cases "tm_tx_list e")
  case Nil
  then show ?thesis by (simp add: nr_rlc_entity_tm_generate_pdu_def tm_generate_tx_pdu_def)
next
  case (Cons s l)
  then have "int (length (hd (tm_queue e))) = seg_size s"
    using assms(1) by (simp add: tm_queue_def tm_ok_def seg_bytes_length)
  then show ?thesis
    using assms(2) Cons
    by (simp add: nr_rlc_entity_tm_generate_pdu_def tm_generate_tx_pdu_def tm_queue_def)
qed

lemma tm_clear_ok:
  assumes "tm_ok e"
  obtains e' where "tm_clear_entity e = Inr e'" "tm_ok e'" "tm_queue e' = []"
    "hp_sdus (tm_heap e') = Map.empty" "tm_tx_maxsize e' = tm_tx_maxsize e"
proof -
  have "heap_ok (tm_heap e) (mset (tm_tx_list e) + {#})" using assms by (simp add: tm_ok_def)
  then obtain h where h: "nr_rlc_free_sdu_segment_list (tm_heap e) (tm_tx_list e) = Inr h" "heap_ok h {#}"
    by (rule free_segment_list_ok)
  define e' where "e' = e\<lparr>tm_heap := h, tm_tx_list := [], tm_tx_end := None, tm_tx_size := 0,
      tm_bstatus := (tm_bstatus e)\<lparr>bs_tx_size := 0\<rparr>\<rparr>"
  show ?thesis
    by (rule that [of e']) (use h in \<open>auto simp: tm_clear_entity_def tm_ok_def tm_queue_def e'_def\<close>)
qed

subsection \<open>Histories of a TM entity\<close>

datatype tm_op = TmRecvSdu bytes int | TmGenerate bytes | TmTime u64 | TmReestablish

fun tm_step :: "nr_rlc_entity_tm \<Rightarrow> tm_op \<Rightarrow> (nr_rlc_entity_tm \<times> bytes list) res" where
  "tm_step e (TmRecvSdu b i) = bnd (nr_rlc_entity_tm_recv_sdu e b i) (\<lambda>e1. Inr (e1, []))"
| "tm_step e (TmGenerate buffer) =
     bnd (nr_rlc_entity_tm_generate_pdu e buffer) (\<lambda>(e1, n, out).
       Inr (e1, if n = 0 then [] else [take (nat n) out]))"
| "tm_step e (TmTime now) = Inr (nr_rlc_entity_tm_set_time e now, [])"
| "tm_step e TmReestablish = bnd (nr_rlc_entity_tm_reestablishment e) (\<lambda>e1. Inr (e1, []))"

fun tm_allowed :: "tm_op \<Rightarrow> bool" where
  "tm_allowed (TmRecvSdu b i) = (int (length b) \<le> NR_SDU_MAX)"
| "tm_allowed _ = True"

text \<open>The specification: a bounded queue.\<close>

fun fifo_step :: "int \<Rightarrow> bytes list \<Rightarrow> tm_op \<Rightarrow> bytes list \<times> bytes list" where
  "fifo_step maxsize q (TmRecvSdu b i) =
     (if int (sum_list (map length q) + length b) > maxsize then (q, []) else (q @ [b], []))"
| "fifo_step maxsize q (TmGenerate buffer) =
     (if q = [] \<or> length (hd q) > length buffer then (q, [])
      else (tl q, if hd q = [] then [] else [hd q]))"
| "fifo_step maxsize q (TmTime now) = (q, [])"
| "fifo_step maxsize q TmReestablish = ([], [])"

lemma tm_queue_size: "tm_ok e \<Longrightarrow> int (sum_list (map length (tm_queue e))) = tm_tx_size e"
proof -
  assume ok: "tm_ok e"
  have "int (sum_list (map length (map (seg_bytes h) l))) = sum_list (map seg_size l)"
    if "\<forall>s\<in>set l. seg_slice h s" for h l
    using that by (induction l) (auto simp: seg_bytes_length)
  then show ?thesis using ok by (simp add: tm_queue_def tm_ok_def)
qed

lemma tm_step_refines:
  assumes "tm_ok e" "tm_allowed x"
  shows "\<exists>e' os. tm_step e x = Inr (e', os) \<and> tm_ok e' \<and> tm_tx_maxsize e' = tm_tx_maxsize e \<and>
     fifo_step (tm_tx_maxsize e) (tm_queue e) x = (tm_queue e', os)"
proof (cases x)
  case (TmRecvSdu b i)
  show ?thesis
  proof (cases "tm_tx_size e + int (length b) \<le> tm_tx_maxsize e")
    case True
    then show ?thesis
      using tm_recv_sdu_ok [OF assms(1), of b i] assms TmRecvSdu tm_queue_size [OF assms(1)]
      by (force simp: bnd_def)
  next
    case False
    then show ?thesis
      using assms TmRecvSdu tm_queue_size [OF assms(1)]
      by (simp add: nr_rlc_entity_tm_recv_sdu_def Let_def)
  qed
next
  case (TmGenerate buffer)
  show ?thesis
  proof (cases "tm_queue e = [] \<or> length (hd (tm_queue e)) > length buffer")
    case True
    then show ?thesis
      using tm_generate_idle [OF assms(1) True] TmGenerate assms(1) by simp
  next
    case False
    then obtain b q where q: "tm_queue e = b # q" "length b \<le> length buffer"
      by (cases "tm_queue e") auto
    obtain e' where "nr_rlc_entity_tm_generate_pdu e buffer =
        Inr (e', int (length b), b @ drop (length b) buffer)"
      "tm_ok e'" "tm_queue e' = q" "tm_tx_maxsize e' = tm_tx_maxsize e"
      by (rule tm_generate_ok [OF assms(1) q])
    then show ?thesis using TmGenerate q by simp
  qed
next
  case (TmTime t)
  then show ?thesis
    using assms(1) by (simp add: nr_rlc_entity_tm_set_time_def tm_ok_def tm_queue_def)
next
  case TmReestablish
  obtain e' where "tm_clear_entity e = Inr e'" "tm_ok e'" "tm_queue e' = []"
    "tm_tx_maxsize e' = tm_tx_maxsize e"
    by (rule tm_clear_ok [OF assms(1)])
  then show ?thesis using TmReestablish by (simp add: nr_rlc_entity_tm_reestablishment_def)
qed

interpretation tm: entity_contract tm_step tm_ok tm_allowed
proof
  fix e x
  assume "tm_ok e" "tm_allowed x"
  then show "\<exists>e' os. tm_step e x = Inr (e', os) \<and> tm_ok e'"
    using tm_step_refines by blast
qed

fun fifo_run :: "int \<Rightarrow> bytes list \<Rightarrow> tm_op list \<Rightarrow> bytes list \<times> bytes list" where
  "fifo_run maxsize q [] = (q, [])"
| "fifo_run maxsize q (x # xs) =
     (case fifo_step maxsize q x of (q1, o1) \<Rightarrow>
      case fifo_run maxsize q1 xs of (q2, o2) \<Rightarrow> (q2, o1 @ o2))"

lemma tm_run_refines:
  assumes "tm_ok e" "\<forall>x\<in>set xs. tm_allowed x"
  shows "\<exists>e' os. run_ops tm_step e xs = Inr (e', os) \<and> tm_ok e' \<and>
     fifo_run (tm_tx_maxsize e) (tm_queue e) xs = (tm_queue e', os)"
  using assms
proof (induction xs arbitrary: e)
  case Nil
  then show ?case by simp
next
  case (Cons x xs)
  have "tm_allowed x" using Cons.prems(2) by simp
  from tm_step_refines [OF Cons.prems(1) this]
  obtain e1 o1 where 1: "tm_step e x = Inr (e1, o1)" "tm_ok e1" "tm_tx_maxsize e1 = tm_tx_maxsize e"
      "fifo_step (tm_tx_maxsize e) (tm_queue e) x = (tm_queue e1, o1)"
    by (elim exE conjE)
  obtain e2 o2 where "run_ops tm_step e1 xs = Inr (e2, o2)" "tm_ok e2"
      "fifo_run (tm_tx_maxsize e1) (tm_queue e1) xs = (tm_queue e2, o2)"
    using Cons.IH [OF 1(2)] Cons.prems(2) by auto
  then show ?case using 1 by simp
qed

text \<open>
  C29: over every sequence of calls with SDUs of at most NR_SDU_MAX bytes, the TM entity never
  faults and behaves as a bounded first-in-first-out queue: the PDUs it produces and the SDUs it
  still holds are those of the queue specification.
\<close>

theorem tm_fifo_refinement:
  assumes "\<forall>x\<in>set xs. tm_allowed x"
  shows "\<exists>e os. run_ops tm_step (new_nr_rlc_entity_tm n) xs = Inr (e, os) \<and> tm_ok e \<and>
     fifo_run n [] xs = (tm_queue e, os)"
proof -
  have "tm_tx_maxsize (new_nr_rlc_entity_tm n) = n" "tm_queue (new_nr_rlc_entity_tm n) = []"
    by (simp_all add: new_nr_rlc_entity_tm_def tm_queue_def)
  then show ?thesis
    using tm_run_refines [OF tm_new_ok [of n] assms] by simp
qed

theorem tm_fifo_refinement_witness:
  "(\<exists>e os. run_ops tm_step (new_nr_rlc_entity_tm 100)
       [TmRecvSdu [1, 2] 7, TmRecvSdu [3] 8, TmGenerate [0, 0, 0]] = Inr (e, os) \<and> tm_ok e \<and>
     fifo_run 100 [] [TmRecvSdu [1, 2] 7, TmRecvSdu [3] 8, TmGenerate [0, 0, 0]] = (tm_queue e, os) \<and>
     os = [[1, 2]] \<and> tm_queue e = [[3]])"
proof -
  have a: "\<forall>x\<in>set [TmRecvSdu [1, 2] 7, TmRecvSdu [3] 8, TmGenerate [0, 0, 0]]. tm_allowed x"
    by (simp add: NR_SDU_MAX_def)
  show ?thesis using tm_fifo_refinement [OF a, of 100] a by auto
qed

end
