(* ===== verification/Rlc_Um.thy ===== *)
theory Rlc_Um
  imports Rlc_Tm
begin

text \<open>
  The RLC unacknowledged-mode entity, \<open>nr_rlc_entity_um.c\<close>, and its constructor in
  \<open>nr_rlc_entity.c\<close>: segmentation and serialisation of SDUs, reception, reassembly, the window,
  \<open>t_reassembly\<close>, discard and re-establishment.  This theory holds the model; the theorems are in
  \<open>Rlc_Um_Props\<close>.
\<close>

record nr_rlc_entity_um =
  um_bstatus :: nr_rlc_entity_buffer_status
  um_t_reassembly :: int
  um_sn_field_length :: nat
  um_sn_modulus :: int
  um_window_size :: int
  um_rx_next_highest :: int
  um_rx_next_reassembly :: int
  um_rx_timer_trigger :: int
  um_tx_next :: int
  um_t_current :: u64
  um_t_reassembly_start :: u64
  um_rx_list :: "nr_rlc_pdu list"
  um_rx_size :: int
  um_rx_maxsize :: int
  um_tx_list :: "nr_rlc_sdu_segment list"
  um_tx_end :: "nat option"
  um_tx_size :: int
  um_tx_maxsize :: int
  um_heap :: sdu_heap

definition um_compute_pdu_header_size :: "nr_rlc_entity_um \<Rightarrow> nr_rlc_sdu_segment \<Rightarrow> int" where
  "um_compute_pdu_header_size e sdu =
     1 + (if \<not> (seg_is_first sdu \<and> seg_is_last sdu) \<and> um_sn_field_length e = 12 then 1 else 0)
       + (if \<not> seg_is_first sdu then 2 else 0)"

subsection \<open>PDU RX functions\<close>

definition um_modulus_rx :: "nr_rlc_entity_um \<Rightarrow> int \<Rightarrow> int" where
  "um_modulus_rx e a = window_offset (um_sn_modulus e) (um_rx_next_highest e - um_window_size e) a"

definition um_sn_compare_rx :: "nr_rlc_entity_um \<Rightarrow> int \<Rightarrow> int \<Rightarrow> int" where
  "um_sn_compare_rx e a b = um_modulus_rx e a - um_modulus_rx e b"

definition um_sdu_full :: "nr_rlc_entity_um \<Rightarrow> int \<Rightarrow> bool" where
  "um_sdu_full e sn = sdu_full_list (um_rx_list e) sn"

definition um_sdu_delivered :: "nr_rlc_entity_um \<Rightarrow> int \<Rightarrow> bool" where
  "um_sdu_delivered e sn = sdu_delivered_list (um_rx_list e) sn"

definition um_sdu_has_missing_bytes :: "nr_rlc_entity_um \<Rightarrow> int \<Rightarrow> bool" where
  "um_sdu_has_missing_bytes e sn = sdu_has_missing_bytes_list (um_rx_list e) sn"

definition um_clear_pdu :: "nr_rlc_pdu \<Rightarrow> nr_rlc_pdu" where
  "um_clear_pdu p = p\<lparr>pdu_data := None, pdu_size := 0\<rparr>"

definition um_reassemble_and_deliver ::
    "nr_rlc_entity_um \<Rightarrow> int \<Rightarrow> (nr_rlc_entity_um \<times> rlc_event list) res" where
  "um_reassemble_and_deliver e sn =
     bnd (reassemble_and_deliver_list um_clear_pdu (um_rx_list e) (um_rx_size e) sn)
       (\<lambda>(l, sz, evs). Inr (e\<lparr>um_rx_list := l, um_rx_size := sz\<rparr>, evs))"

text \<open>\<open>discard PDUs not in reassembly window\<close>\<close>

fun um_discard_out_of_window ::
    "nr_rlc_entity_um \<Rightarrow> nr_rlc_pdu list \<Rightarrow> int \<Rightarrow> nr_rlc_pdu list \<times> int" where
  "um_discard_out_of_window e [] rx_size = ([], rx_size)"
| "um_discard_out_of_window e (p # ps) rx_size =
     (if um_sn_compare_rx e (pdu_sn p) (um_rx_next_highest e) \<ge> 0
      then um_discard_out_of_window e ps (rx_size - pdu_size p)
      else (p # ps, rx_size))"

definition um_set_rx_next_reassembly :: "nr_rlc_entity_um \<Rightarrow> int \<Rightarrow> nr_rlc_entity_um res" where
  "um_set_rx_next_reassembly e sn =
     bnd (skip_delivered (um_rx_list e) (um_sn_modulus e) sn)
       (\<lambda>s. Inr (e\<lparr>um_rx_next_reassembly := s\<rparr>))"

text \<open>The part of \<open>reception_actions\<close> for an SDU that is not full.\<close>

definition um_advance_window :: "nr_rlc_entity_um \<Rightarrow> int \<Rightarrow> nr_rlc_entity_um res" where
  "um_advance_window e x =
     (if um_sn_compare_rx e x (um_rx_next_highest e) \<ge> 0
      then
        let e1 = e\<lparr>um_rx_next_highest := c_rem (x + 1) (um_sn_modulus e)\<rparr>;
            (l, sz) = um_discard_out_of_window e1 (um_rx_list e1) (um_rx_size e1);
            e2 = e1\<lparr>um_rx_list := l, um_rx_size := sz\<rparr>
        in if um_sn_compare_rx e2 (um_rx_next_reassembly e2) (um_rx_next_highest e2) \<ge> 0
           then um_set_rx_next_reassembly e2
                  (c_rem (um_rx_next_highest e2 - um_window_size e2 + um_sn_modulus e2) (um_sn_modulus e2))
           else Inr e2
      else Inr e)"

text \<open>The handling of \<open>t_reassembly\<close> at the end of \<open>reception_actions\<close>.\<close>

definition um_rx_next_reassembly_succ :: "nr_rlc_entity_um \<Rightarrow> int" where
  "um_rx_next_reassembly_succ e = c_rem (um_rx_next_reassembly e + 1) (um_sn_modulus e)"

definition um_stop_t_reassembly :: "nr_rlc_entity_um \<Rightarrow> nr_rlc_entity_um" where
  "um_stop_t_reassembly e =
     (if um_t_reassembly_start e \<noteq> 0 \<and>
         (um_sn_compare_rx e (um_rx_timer_trigger e) (um_rx_next_reassembly e) \<le> 0 \<or>
          um_sn_compare_rx e (um_rx_timer_trigger e) (um_rx_next_highest e) > 0 \<or>
          (um_rx_next_highest e = um_rx_next_reassembly_succ e \<and>
           \<not> um_sdu_has_missing_bytes e (um_rx_next_reassembly e)))
      then e\<lparr>um_t_reassembly_start := 0\<rparr> else e)"

definition um_start_t_reassembly :: "nr_rlc_entity_um \<Rightarrow> nr_rlc_entity_um" where
  "um_start_t_reassembly e =
     (if um_t_reassembly_start e = 0 \<and>
         (um_sn_compare_rx e (um_rx_next_highest e) (um_rx_next_reassembly_succ e) > 0 \<or>
          (um_rx_next_highest e = um_rx_next_reassembly_succ e \<and>
           um_sdu_has_missing_bytes e (um_rx_next_reassembly e)))
      then e\<lparr>um_t_reassembly_start := um_t_current e, um_rx_timer_trigger := um_rx_next_highest e\<rparr>
      else e)"

definition um_reception_actions ::
    "nr_rlc_entity_um \<Rightarrow> nr_rlc_pdu \<Rightarrow> (nr_rlc_entity_um \<times> rlc_event list) res" where
  "um_reception_actions e pdu =
     (let x = pdu_sn pdu in
      bnd (if um_sdu_full e x
           then bnd (um_reassemble_and_deliver e x) (\<lambda>(e1, evs).
                  if x = um_rx_next_reassembly e1
                  then bnd (um_set_rx_next_reassembly e1 (um_rx_next_reassembly e1)) (\<lambda>e2. Inr (e2, evs))
                  else Inr (e1, evs))
           else bnd (um_advance_window e x) (\<lambda>e1. Inr (e1, [])))
        (\<lambda>(e3, evs). Inr (um_start_t_reassembly (um_stop_t_reassembly e3), evs)))"

text \<open>
  The end of \<open>nr_rlc_entity_um_recv_pdu\<close>, once the header has been decoded.
\<close>

definition um_receive_segment ::
    "nr_rlc_entity_um \<Rightarrow> bytes \<Rightarrow> nr_rlc_pdu_decoder \<Rightarrow> int \<Rightarrow> int \<Rightarrow> bool \<Rightarrow> bool \<Rightarrow>
     (nr_rlc_entity_um \<times> rlc_event list) res" where
  "um_receive_segment e buffer decoder sn so is_first is_last =
     (let data_size = int (length buffer) - int (dec_byte decoder) in
      if data_size \<le> 0 then Inr (e, [])
      else if um_rx_size e + data_size > um_rx_maxsize e then Inr (e, [])
      else if um_sn_compare_rx e sn (um_rx_next_reassembly e) < 0 then Inr (e, [])
      else
        let e1 = e\<lparr>um_rx_size := um_rx_size e + data_size\<rparr>;
            pdu = nr_rlc_new_pdu sn so is_first is_last (drop (dec_byte decoder) buffer);
            e2 = e1\<lparr>um_rx_list := nr_rlc_pdu_list_add (um_sn_compare_rx e1) (um_rx_list e1) pdu\<rparr>
        in um_reception_actions e2 pdu)"

definition nr_rlc_entity_um_recv_pdu ::
    "nr_rlc_entity_um \<Rightarrow> bytes \<Rightarrow> (nr_rlc_entity_um \<times> rlc_event list) res" where
  "nr_rlc_entity_um_recv_pdu e buffer =
     (let err = Inr (e, []); decoder = nr_rlc_pdu_decoder_init buffer in
      decode_field decoder 2 err (\<lambda>decoder si.
        let is_first = (si AND 0x2 = 0); is_last = (si AND 0x1 = 0) in
        if is_first \<and> is_last
        then (if length buffer < 2 then Inr (e, []) else Inr (e, [DeliverSdu (drop 1 buffer)]))
        else
          (if um_sn_field_length e = 12 then decode_field decoder 2 err else (\<lambda>k. k decoder 0))
            (\<lambda>decoder r.
          decode_field decoder (um_sn_field_length e) err (\<lambda>decoder sn.
            if \<not> is_first
            then decode_field decoder 16 err (\<lambda>decoder so.
                   if so = 0 then Inr (e, [])
                   else um_receive_segment e buffer decoder sn so is_first is_last)
            else um_receive_segment e buffer decoder sn 0 is_first is_last))))"

subsection \<open>TX functions\<close>

text \<open>The fields \<open>serialize_sdu\<close> writes, in order.\<close>

definition um_header_fields :: "nr_rlc_entity_um \<Rightarrow> nr_rlc_sdu_segment \<Rightarrow> int \<Rightarrow> (int \<times> nat) list" where
  "um_header_fields e sdu sn =
     [(1 - of_bool (seg_is_first sdu), 1), (1 - of_bool (seg_is_last sdu), 1)] @
     (if seg_is_first sdu \<and> seg_is_last sdu then [(0, 6)]
      else (if um_sn_field_length e = 12 then [(0, 2)] else []) @ [(sn, um_sn_field_length e)]) @
     (if \<not> seg_is_first sdu then [(seg_so sdu, 16)] else [])"

definition um_serialize_sdu ::
    "nr_rlc_entity_um \<Rightarrow> nr_rlc_sdu_segment \<Rightarrow> bytes \<Rightarrow> (int \<times> bytes) res" where
  "um_serialize_sdu e sdu buffer =
     bnd (get_sdu (um_heap e) sdu) (\<lambda>u.
     bnd (put_fields (nr_rlc_pdu_encoder_init buffer) (um_header_fields e sdu (sdu_sn u))) (\<lambda>encoder.
     bnd (read_at (sdu_data u) (seg_so sdu) (seg_size sdu)) (\<lambda>d.
     bnd (memcpy_at (enc_buffer encoder) (enc_byte encoder) d) (\<lambda>buffer1.
       Inr (int (enc_byte encoder) + seg_size sdu, buffer1)))))"

text \<open>
  \<open>resegment\<close> returns the resized segment and the new one, or \<open>None\<close> for \<open>NULL\<close>; the reference
  count has been incremented in either case.
\<close>

definition um_resegment ::
    "sdu_heap \<Rightarrow> nr_rlc_sdu_segment \<Rightarrow> nr_rlc_entity_um \<Rightarrow> int \<Rightarrow>
     (sdu_heap \<times> (nr_rlc_sdu_segment \<times> nr_rlc_sdu_segment) option) res" where
  "um_resegment h sdu e psize =
     bnd (get_sdu h sdu) (\<lambda>u.
       let h1 = set_sdu h (seg_sdu sdu) (u\<lparr>sdu_ref_count := sdu_ref_count u + 1\<rparr>);
           pdu_header_size = um_compute_pdu_header_size e (sdu\<lparr>seg_is_last := False\<rparr>)
       in if pdu_header_size + 1 > psize then Inr (h1, None)
          else
            let over_size = pdu_header_size + seg_size sdu - psize;
                sdu1 = sdu\<lparr>seg_size := seg_size sdu - over_size, seg_is_last := False\<rparr>;
                next_sdu = sdu\<lparr>seg_addr := hp_next h1, seg_size := over_size,
                           seg_so := seg_so sdu1 + seg_size sdu1, seg_is_first := False\<rparr>
            in Inr (h1\<lparr>hp_next := hp_next h1 + 1\<rparr>, Some (sdu1, next_sdu)))"

definition um_bs_tx_add :: "int \<Rightarrow> nr_rlc_entity_um \<Rightarrow> nr_rlc_entity_um" where
  "um_bs_tx_add n e = e\<lparr>um_bstatus := (um_bstatus e)\<lparr>bs_tx_size := bs_tx_size (um_bstatus e) + n\<rparr>\<rparr>"

text \<open>The end of \<open>generate_tx_pdu\<close>: the segment is serialised and freed.\<close>

definition um_send_segment ::
    "nr_rlc_entity_um \<Rightarrow> nr_rlc_sdu_segment \<Rightarrow> bytes \<Rightarrow> (nr_rlc_entity_um \<times> int \<times> bytes) res" where
  "um_send_segment e sdu buffer =
     (let e1 = (if \<not> seg_is_first sdu \<and> seg_is_last sdu
                then e\<lparr>um_tx_next := c_rem (um_tx_next e + 1) (um_sn_modulus e)\<rparr> else e)
      in bnd (um_serialize_sdu e1 sdu buffer) (\<lambda>(ret, buffer1).
         bnd (nr_rlc_free_sdu_segment (um_heap e1) sdu) (\<lambda>(h2, _).
           Inr (e1\<lparr>um_tx_size := um_tx_size e1 - seg_size sdu, um_heap := h2\<rparr>, ret, buffer1))))"

definition um_generate_tx_pdu ::
    "nr_rlc_entity_um \<Rightarrow> bytes \<Rightarrow> (nr_rlc_entity_um \<times> int \<times> bytes) res" where
  "um_generate_tx_pdu e buffer =
     (case um_tx_list e of
        [] \<Rightarrow> Inr (e, 0, buffer)
      | sdu # rest \<Rightarrow>
          let sz = int (length buffer); pdu_header_size = um_compute_pdu_header_size e sdu in
          if pdu_header_size + 1 > sz then Inr (e, 0, buffer)
          else
            bnd (get_sdu (um_heap e) sdu) (\<lambda>u.
              let psize = pdu_header_size + seg_size sdu;
                  h1 = set_sdu (um_heap e) (seg_sdu sdu) (u\<lparr>sdu_sn := um_tx_next e\<rparr>);
                  e1 = um_bs_tx_add (- psize)
                    (e\<lparr>um_tx_list := rest, um_tx_end := (if rest = [] then None else um_tx_end e),
                       um_heap := h1\<rparr>)
              in if psize > sz
                 then bnd (um_resegment h1 sdu e1 sz) (\<lambda>(h2, r).
                   case r of
                     None \<Rightarrow> Inr (e1\<lparr>um_heap := h2\<rparr>, 0, buffer)
                   | Some (sdu1, next_sdu) \<Rightarrow>
                       let e2 = e1\<lparr>um_heap := h2, um_tx_list := next_sdu # rest,
                                   um_tx_end := (if um_tx_end e1 = None then Some (seg_addr next_sdu)
                                                 else um_tx_end e1)\<rparr>;
                           e3 = um_bs_tx_add (um_compute_pdu_header_size e2 next_sdu + seg_size next_sdu) e2
                       in um_send_segment e3 sdu1 buffer)
                 else um_send_segment e1 sdu buffer))"

definition nr_rlc_entity_um_buffer_status :: "nr_rlc_entity_um \<Rightarrow> int \<Rightarrow> nr_rlc_entity_buffer_status" where
  "nr_rlc_entity_um_buffer_status e maxsize =
     \<lparr>bs_status_size = 0, bs_tx_size = bs_tx_size (um_bstatus e), bs_retx_size = 0\<rparr>"

definition nr_rlc_entity_um_generate_pdu ::
    "nr_rlc_entity_um \<Rightarrow> bytes \<Rightarrow> (nr_rlc_entity_um \<times> int \<times> bytes) res" where
  "nr_rlc_entity_um_generate_pdu e buffer = um_generate_tx_pdu e buffer"

subsection \<open>SDU RX functions\<close>

definition nr_rlc_entity_um_recv_sdu :: "nr_rlc_entity_um \<Rightarrow> bytes \<Rightarrow> int \<Rightarrow> nr_rlc_entity_um res" where
  "nr_rlc_entity_um_recv_sdu e buffer sdu_id =
     (let sz = int (length buffer) in
      if sz > NR_SDU_MAX then Inl Exit
      else if um_tx_size e + sz > um_tx_maxsize e then Inr e
      else
        let (h1, sdu) = nr_rlc_new_sdu (um_heap e) buffer sdu_id
        in bnd (nr_rlc_sdu_segment_list_append (um_tx_list e) (um_tx_end e) sdu) (\<lambda>(l, p).
             Inr (um_bs_tx_add (um_compute_pdu_header_size e sdu + seg_size sdu)
                    (e\<lparr>um_tx_size := um_tx_size e + sz, um_heap := h1, um_tx_list := l, um_tx_end := p\<rparr>))))"

subsection \<open>Time and timers\<close>

text \<open>\<open>discard all segments < entity->rx_next_reassembly\<close>\<close>

definition um_drop_before_reassembly :: "nr_rlc_entity_um \<Rightarrow> nr_rlc_entity_um" where
  "um_drop_before_reassembly e =
     e\<lparr>um_rx_list := dropWhile (\<lambda>p. um_sn_compare_rx e (pdu_sn p) (um_rx_next_reassembly e) < 0)
                       (um_rx_list e)\<rparr>"

definition um_check_t_reassembly :: "nr_rlc_entity_um \<Rightarrow> nr_rlc_entity_um res" where
  "um_check_t_reassembly e =
     (if um_t_reassembly_start e = 0 \<or>
         um_t_current e \<le> um_t_reassembly_start e + u64_of_int (um_t_reassembly e)
      then Inr e
      else
        bnd (um_set_rx_next_reassembly (e\<lparr>um_t_reassembly_start := 0\<rparr>) (um_rx_timer_trigger e)) (\<lambda>e1.
          let e2 = um_drop_before_reassembly e1
          in if um_sn_compare_rx e2 (um_rx_next_highest e2) (um_rx_next_reassembly_succ e2) > 0 \<or>
                (um_rx_next_highest e2 = um_rx_next_reassembly e2 + 1 \<and>
                 um_sdu_has_missing_bytes e2 (um_rx_next_reassembly e2))
             then Inr (e2\<lparr>um_t_reassembly_start := um_t_current e2,
                          um_rx_timer_trigger := um_rx_next_highest e2\<rparr>)
             else Inr e2))"

definition nr_rlc_entity_um_set_time :: "nr_rlc_entity_um \<Rightarrow> u64 \<Rightarrow> nr_rlc_entity_um res" where
  "nr_rlc_entity_um_set_time e now = um_check_t_reassembly (e\<lparr>um_t_current := now\<rparr>)"

subsection \<open>Discard, re-establishment, delete\<close>

text \<open>
  The search of \<open>discard_sdu\<close>: the segments before the first one of the SDU \<open>sdu_id\<close>, and the rest.
\<close>

fun find_sdu_id ::
    "sdu_heap \<Rightarrow> nr_rlc_sdu_segment list \<Rightarrow> int \<Rightarrow>
     (nr_rlc_sdu_segment list \<times> nr_rlc_sdu_segment list) res" where
  "find_sdu_id h [] sdu_id = Inr ([], [])"
| "find_sdu_id h (s # l) sdu_id =
     bnd (get_sdu h s) (\<lambda>u.
       if sdu_upper_layer_id u \<noteq> sdu_id
       then bnd (find_sdu_id h l sdu_id) (\<lambda>(pre, post). Inr (s # pre, post))
       else Inr ([], s # l))"

definition nr_rlc_entity_um_discard_sdu :: "nr_rlc_entity_um \<Rightarrow> int \<Rightarrow> nr_rlc_entity_um res" where
  "nr_rlc_entity_um_discard_sdu e sdu_id =
     bnd (find_sdu_id (um_heap e) (um_tx_list e) sdu_id) (\<lambda>(pre, post).
       case post of
         [] \<Rightarrow> Inr e
       | cur # rest \<Rightarrow>
           if \<not> seg_is_first cur \<or> \<not> seg_is_last cur then Inr e
           else
             let e1 = e\<lparr>um_tx_list := pre @ rest,
                        um_tx_end := (if um_tx_end e = Some (seg_addr cur)
                          then (if pre \<noteq> [] then Some (seg_addr (last pre)) else None)
                          else um_tx_end e)\<rparr>;
                 e2 = um_bs_tx_add (- (um_compute_pdu_header_size e1 cur + seg_size cur)) e1
             in bnd (nr_rlc_free_sdu_segment (um_heap e2) cur) (\<lambda>(h1, _). Inr (e2\<lparr>um_heap := h1\<rparr>)))"

definition um_clear_entity :: "nr_rlc_entity_um \<Rightarrow> nr_rlc_entity_um res" where
  "um_clear_entity e =
     bnd (nr_rlc_free_sdu_segment_list (um_heap e) (um_tx_list e)) (\<lambda>h1.
       Inr (e\<lparr>um_rx_next_highest := 0, um_rx_next_reassembly := 0, um_rx_timer_trigger := 0,
              um_tx_next := 0, um_t_current := 0, um_t_reassembly_start := 0,
              um_rx_list := [], um_rx_size := 0,
              um_heap := h1, um_tx_list := [], um_tx_end := None, um_tx_size := 0,
              um_bstatus := (um_bstatus e)\<lparr>bs_tx_size := 0\<rparr>\<rparr>))"

definition nr_rlc_entity_um_reestablishment :: "nr_rlc_entity_um \<Rightarrow> nr_rlc_entity_um res" where
  "nr_rlc_entity_um_reestablishment e = um_clear_entity e"

definition nr_rlc_entity_um_delete :: "nr_rlc_entity_um \<Rightarrow> sdu_heap res" where
  "nr_rlc_entity_um_delete e = bnd (um_clear_entity e) (\<lambda>e1. Inr (um_heap e1))"

definition new_nr_rlc_entity_um :: "int \<Rightarrow> int \<Rightarrow> int \<Rightarrow> nat \<Rightarrow> nr_rlc_entity_um res" where
  "new_nr_rlc_entity_um rx_maxsize tx_maxsize t_reassembly sn_field_length =
     (if \<not> (sn_field_length = 6 \<or> sn_field_length = 12) then Inl Exit
      else Inr
        \<lparr>um_bstatus = \<lparr>bs_status_size = 0, bs_tx_size = 0, bs_retx_size = 0\<rparr>,
         um_t_reassembly = t_reassembly, um_sn_field_length = sn_field_length,
         um_sn_modulus = 2 ^ sn_field_length, um_window_size = 2 ^ sn_field_length div 2,
         um_rx_next_highest = 0, um_rx_next_reassembly = 0, um_rx_timer_trigger = 0,
         um_tx_next = 0, um_t_current = 0, um_t_reassembly_start = 0,
         um_rx_list = [], um_rx_size = 0, um_rx_maxsize = rx_maxsize,
         um_tx_list = [], um_tx_end = None, um_tx_size = 0, um_tx_maxsize = tx_maxsize,
         um_heap = empty_heap\<rparr>)"

end
