(* ===== verification/Rlc_Am.thy ===== *)
theory Rlc_Am
  imports Rlc_Um
begin

text \<open>
  The RLC acknowledged-mode entity, \<open>nr_rlc_entity_am.c\<close>, and its constructor in
  \<open>nr_rlc_entity.c\<close>: data and control PDU reception, status reporting, transmission and
  retransmission with polling, timers, discard.  This theory holds the model; the theorems are in
  \<open>Rlc_Am_Rx\<close>, \<open>Rlc_Am_Delivery\<close> and \<open>Rlc_Am_Status\<close>.
\<close>

unbundle bit_operations_syntax

record nr_rlc_entity_am =
  am_bstatus :: nr_rlc_entity_buffer_status
  am_cfg_t_poll_retransmit :: int
  am_cfg_t_reassembly :: int
  am_cfg_t_status_prohibit :: int
  am_poll_pdu :: int
  am_poll_byte :: int
  am_max_retx_threshold :: int
  am_sn_field_length :: nat
  am_sn_modulus :: int
  am_window_size :: int
  am_rx_next :: int
  am_rx_next_status_trigger :: int
  am_rx_highest_status :: int
  am_rx_next_highest :: int
  am_status_triggered :: bool
  am_tx_next :: int
  am_tx_next_ack :: int
  am_poll_sn :: int
  am_pdu_without_poll :: int
  am_byte_without_poll :: int
  am_force_poll :: bool
  am_t_current :: u64
  am_t_log_buffer_full :: u64
  am_sdu_rejected :: int
  am_t_poll_retransmit_start :: u64
  am_t_reassembly_start :: u64
  am_t_status_prohibit_start :: u64
  am_rx_list :: "nr_rlc_pdu list"
  am_rx_size :: int
  am_rx_maxsize :: int
  am_tx_list :: "nr_rlc_sdu_segment list"
  am_tx_end :: "nat option"
  am_tx_size :: int
  am_tx_maxsize :: int
  am_wait_list :: "nr_rlc_sdu_segment list"
  am_wait_end :: "nat option"
  am_retransmit_list :: "nr_rlc_sdu_segment list"
  am_heap :: sdu_heap

definition am_compute_pdu_header_size :: "nr_rlc_entity_am \<Rightarrow> nr_rlc_sdu_segment \<Rightarrow> int" where
  "am_compute_pdu_header_size e sdu =
     2 + (if am_sn_field_length e = 18 then 1 else 0) + (if \<not> seg_is_first sdu then 2 else 0)"

subsection \<open>Sequence numbers\<close>

definition am_modulus_rx :: "nr_rlc_entity_am \<Rightarrow> int \<Rightarrow> int" where
  "am_modulus_rx e a = (let r = a - am_rx_next e in if r < 0 then r + am_sn_modulus e else r)"

definition am_modulus_tx :: "nr_rlc_entity_am \<Rightarrow> int \<Rightarrow> int" where
  "am_modulus_tx e a = (let r = a - am_tx_next_ack e in if r < 0 then r + am_sn_modulus e else r)"

definition am_sn_in_recv_window :: "nr_rlc_entity_am \<Rightarrow> int \<Rightarrow> bool" where
  "am_sn_in_recv_window e sn \<longleftrightarrow> am_modulus_rx e sn < am_window_size e"

definition am_sn_compare_rx :: "nr_rlc_entity_am \<Rightarrow> int \<Rightarrow> int \<Rightarrow> int" where
  "am_sn_compare_rx e a b = am_modulus_rx e a - am_modulus_rx e b"

definition am_sn_compare_tx :: "nr_rlc_entity_am \<Rightarrow> int \<Rightarrow> int \<Rightarrow> int" where
  "am_sn_compare_tx e a b = am_modulus_tx e a - am_modulus_tx e b"

subsection \<open>Reception of data PDUs\<close>

fun already_received_loop :: "nr_rlc_pdu list \<Rightarrow> int \<Rightarrow> int \<Rightarrow> int \<Rightarrow> bool" where
  "already_received_loop [] sn so sz = (sz \<le> 0)"
| "already_received_loop (l # ls) sn so sz =
     (if \<not> sz > 0 then sz \<le> 0
      else if pdu_sn l = sn then
        (if pdu_so l \<le> so \<and> so < pdu_so l + pdu_size l
         then let covered = pdu_size l - (so - pdu_so l)
              in already_received_loop ls sn (so + covered) (sz - covered)
         else if pdu_so l \<le> so + sz - 1 \<and> so + sz - 1 < pdu_so l + pdu_size l
         then let covered = sz - (pdu_so l - so)
              in already_received_loop ls sn so (sz - covered)
         else already_received_loop ls sn so sz)
      else already_received_loop ls sn so sz)"

definition am_segment_already_received :: "nr_rlc_entity_am \<Rightarrow> int \<Rightarrow> int \<Rightarrow> int \<Rightarrow> bool" where
  "am_segment_already_received e sn so sz = already_received_loop (am_rx_list e) sn so sz"

definition am_sdu_full :: "nr_rlc_entity_am \<Rightarrow> int \<Rightarrow> bool" where
  "am_sdu_full e sn = sdu_full_list (am_rx_list e) sn"

definition am_sdu_delivered :: "nr_rlc_entity_am \<Rightarrow> int \<Rightarrow> bool" where
  "am_sdu_delivered e sn = sdu_delivered_list (am_rx_list e) sn"

definition am_sdu_has_missing_bytes :: "nr_rlc_entity_am \<Rightarrow> int \<Rightarrow> bool" where
  "am_sdu_has_missing_bytes e sn = sdu_has_missing_bytes_list (am_rx_list e) sn"

definition am_clear_pdu :: "nr_rlc_pdu \<Rightarrow> nr_rlc_pdu" where
  "am_clear_pdu p = p\<lparr>pdu_data := None\<rparr>"

definition am_reassemble_and_deliver ::
    "nr_rlc_entity_am \<Rightarrow> int \<Rightarrow> (nr_rlc_entity_am \<times> rlc_event list) res" where
  "am_reassemble_and_deliver e sn =
     bnd (reassemble_and_deliver_list am_clear_pdu (am_rx_list e) (am_rx_size e) sn)
       (\<lambda>(l, sz, evs). Inr (e\<lparr>am_rx_list := l, am_rx_size := sz\<rparr>, evs))"

text \<open>\<open>update rx_next and free all delivered SDUs at the head of the rx_list\<close>\<close>

function am_free_delivered :: "int \<Rightarrow> nr_rlc_pdu list \<Rightarrow> int \<Rightarrow> nr_rlc_pdu list \<times> int" where
  "am_free_delivered modulus [] rx_next = ([], rx_next)"
| "am_free_delivered modulus (p # ps) rx_next =
     (if pdu_data p = None \<and> pdu_sn p = rx_next
      then am_free_delivered modulus (dropWhile (\<lambda>q. pdu_sn q = rx_next) ps) (c_rem (rx_next + 1) modulus)
      else (p # ps, rx_next))"
  by pat_completeness auto

termination
  by (relation "measure (\<lambda>(m, l, n). length l)") (auto simp: le_imp_less_Suc length_dropWhile_le)

text \<open>The handling of a full SDU in \<open>reception_actions\<close>.\<close>

definition am_sdu_received :: "nr_rlc_entity_am \<Rightarrow> int \<Rightarrow> (nr_rlc_entity_am \<times> rlc_event list) res" where
  "am_sdu_received e x =
     bnd (am_reassemble_and_deliver e x) (\<lambda>(e1, evs).
     bnd (if x = am_rx_highest_status e1
          then bnd (skip_delivered (am_rx_list e1) (am_sn_modulus e1) (am_rx_highest_status e1))
                 (\<lambda>s. Inr (e1\<lparr>am_rx_highest_status := s\<rparr>))
          else Inr e1) (\<lambda>e2.
       Inr (if x = am_rx_next e2
            then let (l, n) = am_free_delivered (am_sn_modulus e2) (am_rx_list e2) (am_rx_next e2)
                 in e2\<lparr>am_rx_list := l, am_rx_next := n\<rparr>
            else e2, evs)))"

definition am_rx_next_succ :: "nr_rlc_entity_am \<Rightarrow> int" where
  "am_rx_next_succ e = c_rem (am_rx_next e + 1) (am_sn_modulus e)"

definition am_stop_t_reassembly :: "nr_rlc_entity_am \<Rightarrow> nr_rlc_entity_am" where
  "am_stop_t_reassembly e =
     (if am_t_reassembly_start e \<noteq> 0 \<and>
         (am_rx_next_status_trigger e = am_rx_next e \<or>
          (am_rx_next_status_trigger e = am_rx_next_succ e \<and>
           \<not> am_sdu_has_missing_bytes e (am_rx_next e)) \<or>
          (\<not> am_sn_in_recv_window e (am_rx_next_status_trigger e) \<and>
           am_rx_next_status_trigger e \<noteq> c_rem (am_rx_next e + am_window_size e) (am_sn_modulus e)))
      then e\<lparr>am_t_reassembly_start := 0\<rparr> else e)"

definition am_start_t_reassembly :: "nr_rlc_entity_am \<Rightarrow> nr_rlc_entity_am" where
  "am_start_t_reassembly e =
     (if am_t_reassembly_start e = 0 \<and>
         (am_sn_compare_rx e (am_rx_next_highest e) (am_rx_next_succ e) > 0 \<or>
          (am_rx_next_highest e = am_rx_next_succ e \<and> am_sdu_has_missing_bytes e (am_rx_next e)))
      then e\<lparr>am_t_reassembly_start := am_t_current e, am_rx_next_status_trigger := am_rx_next_highest e\<rparr>
      else e)"

definition am_reception_actions ::
    "nr_rlc_entity_am \<Rightarrow> nr_rlc_pdu \<Rightarrow> (nr_rlc_entity_am \<times> rlc_event list) res" where
  "am_reception_actions e pdu =
     (let x = pdu_sn pdu;
          e1 = (if am_sn_compare_rx e x (am_rx_next_highest e) \<ge> 0
                then e\<lparr>am_rx_next_highest := c_rem (x + 1) (am_sn_modulus e)\<rparr> else e)
      in bnd (if am_sdu_full e1 x then am_sdu_received e1 x else Inr (e1, [])) (\<lambda>(e2, evs).
           Inr (am_start_t_reassembly (am_stop_t_reassembly e2), evs)))"

subsection \<open>Reception of control PDUs\<close>

definition so_overlap :: "int \<Rightarrow> int \<Rightarrow> int \<Rightarrow> int \<Rightarrow> bool" where
  "so_overlap s1 e1 s2 e2 =
     (if s1 < s2 then e1 = -1 \<or> e1 \<ge> s2 else e2 = -1 \<or> s1 \<le> e2)"

text \<open>The fixed part of a STATUS PDU; \<open>None\<close> is the label \<open>err\<close>.\<close>

definition am_decode_status_header ::
    "nr_rlc_entity_am \<Rightarrow> bytes \<Rightarrow> (nr_rlc_pdu_decoder \<times> int \<times> int) option res" where
  "am_decode_status_header e buffer =
     decode_field (nr_rlc_pdu_decoder_init buffer) 1 (Inr None) (\<lambda>d dc.
     decode_field d 3 (Inr None) (\<lambda>d cpt.
       if cpt \<noteq> 0 then Inr None
       else
         decode_field d (am_sn_field_length e) (Inr None) (\<lambda>d ack_sn.
         decode_field d 1 (Inr None) (\<lambda>d e1.
         decode_field d (if am_sn_field_length e = 18 then 1 else 7) (Inr None) (\<lambda>d r.
           Inr (Some (d, ack_sn, e1)))))))"

text \<open>One NACK block.\<close>

record nack_block =
  nk_sn :: int
  nk_e1 :: int
  nk_so_start :: int
  nk_so_end :: int
  nk_range :: int

definition am_decode_nack ::
    "nr_rlc_entity_am \<Rightarrow> nr_rlc_pdu_decoder \<Rightarrow> (nr_rlc_pdu_decoder \<times> nack_block) option res" where
  "am_decode_nack e d =
     decode_field d (am_sn_field_length e) (Inr None) (\<lambda>d nack_sn.
     decode_field d 1 (Inr None) (\<lambda>d e1.
     decode_field d 1 (Inr None) (\<lambda>d e2.
     decode_field d 1 (Inr None) (\<lambda>d e3.
     decode_field d (if am_sn_field_length e = 18 then 3 else 1) (Inr None) (\<lambda>d r.
     (if e2 \<noteq> 0
      then (\<lambda>k. decode_field d 16 (Inr None) (\<lambda>d so_start.
                decode_field d 16 (Inr None) (\<lambda>d so_end. k d so_start so_end)))
      else (\<lambda>k. k d 0 0xffff)) (\<lambda>d so_start so_end.
     (if e3 \<noteq> 0 then decode_field d 8 (Inr None) else (\<lambda>k. k d 1)) (\<lambda>d range.
       Inr (Some (d, \<lparr>nk_sn = nack_sn, nk_e1 = e1, nk_so_start = so_start,
                      nk_so_end = (if so_end = 0xffff then -1 else so_end),
                      nk_range = range\<rparr>)))))))))"

text \<open>
  The state of \<open>process_control_pdu\<close>.  The wait list is \<open>pc_wl_pre @ pc_wl_cur @ pc_wl_rest\<close>: the
  nodes up to \<open>prev_wait_list\<close>, those from \<open>cur_wait_list\<close>, and, once \<open>cur_wait_list\<close> has been set to
  \<open>NULL\<close>, those left behind.  \<open>pc_rl_new\<close> ends at \<open>new_retransmit_list\<close>; \<open>pc_rl_cur\<close> starts at
  \<open>cur_retransmit_list\<close>.  \<open>pc_end\<close> is \<open>end_wait_list\<close> (\<open>NULL\<close>, the local head, or a node).
\<close>

datatype end_pointer = EndUnset | EndHead | EndNode nat

record pc_state =
  pc_ent :: nr_rlc_entity_am
  pc_wl_pre :: "nr_rlc_sdu_segment list"
  pc_wl_cur :: "nr_rlc_sdu_segment list"
  pc_wl_rest :: "nr_rlc_sdu_segment list"
  pc_rl_new :: "nr_rlc_sdu_segment list"
  pc_rl_cur :: "nr_rlc_sdu_segment list"
  pc_end :: end_pointer
  pc_prev :: "(int \<times> int \<times> int) option"
  pc_evs :: "rlc_event list"

datatype pc_outcome = NextPdu | DoneNack | ListsOver | NacksDone

definition pc_prev_node :: "pc_state \<Rightarrow> end_pointer" where
  "pc_prev_node st = (if pc_wl_pre st = [] then EndHead else EndNode (seg_addr (last (pc_wl_pre st))))"

definition is_node :: "nr_rlc_sdu_segment list \<Rightarrow> nat option \<Rightarrow> bool" where
  "is_node l p = (case l of [] \<Rightarrow> p = None | s # _ \<Rightarrow> p = Some (seg_addr s))"

definition am_bs_retx_add :: "int \<Rightarrow> nr_rlc_entity_am \<Rightarrow> nr_rlc_entity_am" where
  "am_bs_retx_add n e = e\<lparr>am_bstatus := (am_bstatus e)\<lparr>bs_retx_size := bs_retx_size (am_bstatus e) + n\<rparr>\<rparr>"

definition am_bs_tx_add :: "int \<Rightarrow> nr_rlc_entity_am \<Rightarrow> nr_rlc_entity_am" where
  "am_bs_tx_add n e = e\<lparr>am_bstatus := (am_bstatus e)\<lparr>bs_tx_size := bs_tx_size (am_bstatus e) + n\<rparr>\<rparr>"

text \<open>\<open>increase retx count\<close> and \<open>report max RETX reached\<close>, and the buffer status update that follows.\<close>

definition am_count_retx ::
    "nr_rlc_entity_am \<Rightarrow> nr_rlc_sdu_segment \<Rightarrow> (nr_rlc_entity_am \<times> rlc_event list) res" where
  "am_count_retx e s =
     bnd (get_sdu (am_heap e) s) (\<lambda>u.
       let u1 = u\<lparr>sdu_retx_count := sdu_retx_count u + 1\<rparr>;
           e1 = e\<lparr>am_heap := set_sdu (am_heap e) (seg_sdu s) u1\<rparr>
       in Inr (am_bs_retx_add (am_compute_pdu_header_size e1 s + seg_size s) e1,
               if sdu_retx_count u1 \<ge> am_max_retx_threshold e * sdu_ref_count u1
               then [MaxRetxReached] else []))"

text \<open>An acknowledged segment is freed; the SDU is reported when it was the last one.\<close>

definition am_free_acked ::
    "nr_rlc_entity_am \<Rightarrow> nr_rlc_sdu_segment \<Rightarrow> (nr_rlc_entity_am \<times> rlc_event list) res" where
  "am_free_acked e s =
     bnd (get_sdu (am_heap e) s) (\<lambda>u.
     bnd (nr_rlc_free_sdu_segment (am_heap e) s) (\<lambda>(h1, freed).
       let e1 = e\<lparr>am_heap := h1\<rparr>
       in if freed
          then Inr (e1\<lparr>am_tx_size := am_tx_size e1 - sdu_size u\<rparr>,
                    [SduSuccessfulDelivery (sdu_upper_layer_id u)])
          else Inr (e1, [])))"

text \<open>The code at \<open>process_wait_list_head\<close>, for a non-empty wait list.\<close>

definition pc_wait_list_head ::
    "int \<Rightarrow> int \<Rightarrow> int \<Rightarrow> int \<Rightarrow> pc_state \<Rightarrow> (pc_state \<times> pc_outcome) res" where
  "pc_wait_list_head ack_sn nack_sn so_start so_end st =
     (let e = pc_ent st in
      case pc_wl_cur st of
        [] \<Rightarrow> Inl NullDeref
      | cur # rest \<Rightarrow>
        bnd (get_sdu (am_heap e) cur) (\<lambda>u.
          let sn = sdu_sn u in
          if sn = nack_sn \<and> so_overlap so_start so_end (seg_so cur) (seg_so cur + seg_size cur - 1)
          then bnd (am_count_retx e cur) (\<lambda>(e1, evs).
                 Inr (st\<lparr>pc_ent := e1, pc_wl_cur := rest,
                         pc_end := (if is_node (cur # rest) (am_wait_end e) then pc_prev_node st
                                    else pc_end st),
                         pc_rl_new := pc_rl_new st @ [cur], pc_evs := pc_evs st @ evs\<rparr>, NextPdu))
          else if am_sn_compare_tx e sn nack_sn > 0 \<or> (sn = nack_sn \<and> seg_so cur > so_start)
          then Inr (st, DoneNack)
          else if am_sn_compare_tx e sn ack_sn < 0
          then bnd (am_free_acked e cur) (\<lambda>(e1, evs).
                 Inr (st\<lparr>pc_ent := e1, pc_wl_cur := rest,
                         pc_end := (if is_node rest (am_wait_end e) then pc_prev_node st else pc_end st),
                         pc_evs := pc_evs st @ evs\<rparr>, NextPdu))
          else if am_sn_compare_tx e sn ack_sn > 0
          then Inr (st\<lparr>pc_wl_cur := [], pc_wl_rest := cur # rest\<rparr>, NextPdu)
          else Inr (st\<lparr>pc_wl_pre := pc_wl_pre st @ [cur], pc_wl_cur := rest\<rparr>, NextPdu)))"

text \<open>
  The code at \<open>process_retransmit_list_head\<close>.  In the last-but-one case the remaining retransmit
  list is linked after \<open>new_retransmit_list\<close> but \<open>new_retransmit_list\<close> stays where it is, so the
  assignment \<open>new_retransmit_list->next = cur_retransmit_list\<close> at the end of the function, with
  \<open>cur_retransmit_list\<close> \<open>NULL\<close>, unlinks it again.
\<close>

definition pc_retransmit_list_head ::
    "int \<Rightarrow> int \<Rightarrow> int \<Rightarrow> int \<Rightarrow> pc_state \<Rightarrow> (pc_state \<times> pc_outcome) res" where
  "pc_retransmit_list_head ack_sn nack_sn so_start so_end st =
     (let e = pc_ent st in
      case pc_rl_cur st of
        [] \<Rightarrow> Inl NullDeref
      | cur # rest \<Rightarrow>
        bnd (get_sdu (am_heap e) cur) (\<lambda>u.
          let sn = sdu_sn u in
          if sn = nack_sn \<and> so_overlap so_start so_end (seg_so cur) (seg_so cur + seg_size cur - 1)
          then Inr (st\<lparr>pc_rl_new := pc_rl_new st @ [cur], pc_rl_cur := rest\<rparr>, NextPdu)
          else if am_sn_compare_tx e sn nack_sn > 0 \<or> (sn = nack_sn \<and> seg_so cur > so_start)
          then Inr (st, DoneNack)
          else if am_sn_compare_tx e sn ack_sn < 0
          then bnd (am_free_acked (am_bs_retx_add (- (am_compute_pdu_header_size e cur + seg_size cur)) e) cur)
                 (\<lambda>(e1, evs). Inr (st\<lparr>pc_ent := e1, pc_rl_cur := rest, pc_evs := pc_evs st @ evs\<rparr>, NextPdu))
          else if pc_wl_cur st = []
          then Inr (st\<lparr>pc_rl_cur := []\<rparr>, ListsOver)
          else Inr (st\<lparr>pc_rl_new := pc_rl_new st @ [cur], pc_rl_cur := rest\<rparr>, NextPdu)))"

text \<open>The code at \<open>process_next_pdu\<close>: the smallest sequence number first.\<close>

definition pc_next_pdu ::
    "int \<Rightarrow> int \<Rightarrow> int \<Rightarrow> int \<Rightarrow> pc_state \<Rightarrow> (pc_state \<times> pc_outcome) res" where
  "pc_next_pdu ack_sn nack_sn so_start so_end st =
     (case (pc_wl_cur st, pc_rl_cur st) of
        ([], []) \<Rightarrow> Inr (st, ListsOver)
      | ([], r # rs) \<Rightarrow> pc_retransmit_list_head ack_sn nack_sn so_start so_end st
      | (w # ws, []) \<Rightarrow> pc_wait_list_head ack_sn nack_sn so_start so_end st
      | (w # ws, r # rs) \<Rightarrow>
          bnd (get_sdu (am_heap (pc_ent st)) w) (\<lambda>uw. bnd (get_sdu (am_heap (pc_ent st)) r) (\<lambda>ur.
            if sdu_sn uw < sdu_sn ur \<or> (sdu_sn uw = sdu_sn ur \<and> seg_so w < seg_so r)
            then pc_wait_list_head ack_sn nack_sn so_start so_end st
            else pc_retransmit_list_head ack_sn nack_sn so_start so_end st)))"

definition pc_todo :: "pc_state \<Rightarrow> nat" where
  "pc_todo st = length (pc_wl_cur st) + length (pc_rl_cur st)"

lemma pc_wait_list_head_todo:
  assumes "pc_wait_list_head ack_sn nack_sn so_start so_end st = Inr (st', NextPdu)"
  shows "pc_todo st' < pc_todo st"
proof (cases "pc_wl_cur st")
  case Nil
  then show ?thesis using assms by (simp add: pc_wait_list_head_def Let_def)
next
  case (Cons cur rest)
  obtain u where u: "get_sdu (am_heap (pc_ent st)) cur = Inr u"
    using assms Cons by (auto simp: pc_wait_list_head_def Let_def bnd_eq_Inr)
  then show ?thesis
    using assms Cons unfolding pc_wait_list_head_def Let_def
    by (simp split: if_splits) (auto simp: bnd_eq_Inr pc_todo_def)
qed

lemma pc_retransmit_list_head_todo:
  assumes "pc_retransmit_list_head ack_sn nack_sn so_start so_end st = Inr (st', NextPdu)"
  shows "pc_todo st' < pc_todo st"
proof (cases "pc_rl_cur st")
  case Nil
  then show ?thesis using assms by (simp add: pc_retransmit_list_head_def Let_def)
next
  case (Cons cur rest)
  obtain u where u: "get_sdu (am_heap (pc_ent st)) cur = Inr u"
    using assms Cons by (auto simp: pc_retransmit_list_head_def Let_def bnd_eq_Inr)
  then show ?thesis
    using assms Cons unfolding pc_retransmit_list_head_def Let_def
    by (simp split: if_splits) (auto simp: bnd_eq_Inr pc_todo_def)
qed

lemma pc_next_pdu_cases:
  assumes "pc_next_pdu ack_sn nack_sn so_start so_end st = Inr (st', oc)"
  obtains "pc_wl_cur st = []" "pc_rl_cur st = []" "st' = st" "oc = ListsOver"
  | "pc_wl_cur st \<noteq> []" "pc_wait_list_head ack_sn nack_sn so_start so_end st = Inr (st', oc)"
  | "pc_rl_cur st \<noteq> []" "pc_retransmit_list_head ack_sn nack_sn so_start so_end st = Inr (st', oc)"
  using assms unfolding pc_next_pdu_def
  by (cases "pc_wl_cur st"; cases "pc_rl_cur st") (auto simp: bnd_eq_Inr split: if_splits)

lemma pc_next_pdu_todo:
  assumes "pc_next_pdu ack_sn nack_sn so_start so_end st = Inr (st', NextPdu)"
  shows "pc_todo st' < pc_todo st"
  using assms
  by (cases rule: pc_next_pdu_cases) (auto dest: pc_wait_list_head_todo pc_retransmit_list_head_todo)

function pc_process_nack ::
    "int \<Rightarrow> int \<Rightarrow> int \<Rightarrow> int \<Rightarrow> pc_state \<Rightarrow> (pc_state \<times> pc_outcome) res" where
  "pc_process_nack ack_sn nack_sn so_start so_end st =
     bnd (pc_next_pdu ack_sn nack_sn so_start so_end st) (\<lambda>(st1, oc).
       if oc = NextPdu then pc_process_nack ack_sn nack_sn so_start so_end st1
       else Inr (st1, oc))"
  by pat_completeness auto

termination
  by (relation "measure (\<lambda>(a, n, s, e, st). pc_todo st)") (auto simp: pc_next_pdu_todo)

declare pc_process_nack.simps [simp del]

text \<open>The checks before a NACK is processed: it must follow the previous one and not exceed the ACK.\<close>

definition pc_bad_nack :: "int \<Rightarrow> int \<Rightarrow> int \<Rightarrow> pc_state \<Rightarrow> bool" where
  "pc_bad_nack ack_sn nack_sn so_start st =
     (let e = pc_ent st in
      (case pc_prev st of
         None \<Rightarrow> False
       | Some (prev_sn, prev_so_start, prev_so_end) \<Rightarrow>
           let cmp = am_sn_compare_tx e nack_sn prev_sn
           in cmp < 0 \<or> (cmp = 0 \<and> (prev_so_end = -1 \<or> so_start \<le> prev_so_end))) \<or>
      am_sn_compare_tx e nack_sn ack_sn > 0)"

text \<open>\<open>for (i = 0; i < range; i++)\<close>; the first argument counts the iterations left.\<close>

fun pc_nack_range :: "nat \<Rightarrow> int \<Rightarrow> nack_block \<Rightarrow> int \<Rightarrow> pc_state \<Rightarrow> (pc_state \<times> pc_outcome) res" where
  "pc_nack_range 0 ack_sn nk i st = Inr (st, DoneNack)"
| "pc_nack_range (Suc n) ack_sn nk i st =
     (let cur_nack_sn = c_rem (nk_sn nk + i) (am_sn_modulus (pc_ent st));
          cur_so_start = (if i = 0 then nk_so_start nk else 0);
          cur_so_end = (if i = nk_range nk - 1 then nk_so_end nk else -1)
      in if pc_bad_nack ack_sn cur_nack_sn cur_so_start st then Inr (st, NacksDone)
         else bnd (pc_process_nack ack_sn cur_nack_sn cur_so_start cur_so_end st) (\<lambda>(st1, oc).
           if oc = ListsOver then Inr (st1, ListsOver)
           else pc_nack_range n ack_sn nk (i + 1)
                  (st1\<lparr>pc_prev := Some (cur_nack_sn, cur_so_start, cur_so_end)\<rparr>)))"

text \<open>The code at \<open>lists_over\<close>.\<close>

definition pc_lists_over :: "nack_block \<Rightarrow> pc_state \<Rightarrow> pc_state" where
  "pc_lists_over nk st =
     (let e = pc_ent st in
      if am_sn_compare_tx e (nk_sn nk) (am_poll_sn e) \<le> 0 \<and>
         am_sn_compare_tx e (am_poll_sn e) (c_rem (nk_sn nk + nk_range nk) (am_sn_modulus e)) < 0
      then st\<lparr>pc_ent := e\<lparr>am_t_poll_retransmit_start := 0\<rparr>\<rparr> else st)"

text \<open>\<open>while (e1)\<close>.  The second component of the result is true when the code leaves for \<open>err\<close>.
  Every NACK block is at least one byte long, so the fuel \<open>length buffer + 1\<close> is enough.\<close>

fun pc_nacks :: "nat \<Rightarrow> int \<Rightarrow> nr_rlc_pdu_decoder \<Rightarrow> pc_state \<Rightarrow> (pc_state \<times> bool) res" where
  "pc_nacks 0 ack_sn d st = Inl Diverge"
| "pc_nacks (Suc fuel) ack_sn d st =
     bnd (am_decode_nack (pc_ent st) d) (\<lambda>r.
       case r of
         None \<Rightarrow> Inr (st, True)
       | Some (d1, nk) \<Rightarrow>
           bnd (pc_nack_range (nat (nk_range nk)) ack_sn nk 0 st) (\<lambda>(st1, oc).
             if oc = NacksDone then Inr (st1, False)
             else
               let st2 = pc_lists_over nk st1
               in if nk_e1 nk \<noteq> 0 then pc_nacks fuel ack_sn d1 st2 else Inr (st2, False)))"

text \<open>The code at \<open>nacks_done\<close>: the two loops over acknowledged segments.\<close>

fun pc_ack_wait_list :: "int \<Rightarrow> nr_rlc_sdu_segment list \<Rightarrow> pc_state \<Rightarrow> pc_state res" where
  "pc_ack_wait_list ack_sn [] st = Inr (st\<lparr>pc_wl_cur := []\<rparr>)"
| "pc_ack_wait_list ack_sn (cur # rest) st =
     bnd (get_sdu (am_heap (pc_ent st)) cur) (\<lambda>u.
       if am_sn_compare_tx (pc_ent st) (sdu_sn u) ack_sn < 0
       then bnd (am_free_acked (pc_ent st) cur) (\<lambda>(e1, evs).
              pc_ack_wait_list ack_sn rest
                (st\<lparr>pc_ent := e1, pc_evs := pc_evs st @ evs,
                    pc_end := (if is_node (cur # rest) (am_wait_end (pc_ent st)) then pc_prev_node st
                               else pc_end st)\<rparr>))
       else Inr (st\<lparr>pc_wl_cur := cur # rest\<rparr>))"

fun pc_ack_retransmit_list :: "int \<Rightarrow> nr_rlc_sdu_segment list \<Rightarrow> pc_state \<Rightarrow> pc_state res" where
  "pc_ack_retransmit_list ack_sn [] st = Inr (st\<lparr>pc_rl_cur := []\<rparr>)"
| "pc_ack_retransmit_list ack_sn (cur # rest) st =
     bnd (get_sdu (am_heap (pc_ent st)) cur) (\<lambda>u.
       if am_sn_compare_tx (pc_ent st) (sdu_sn u) ack_sn < 0
       then bnd (am_free_acked
                   (am_bs_retx_add (- (am_compute_pdu_header_size (pc_ent st) cur + seg_size cur)) (pc_ent st))
                   cur) (\<lambda>(e1, evs).
              pc_ack_retransmit_list ack_sn rest (st\<lparr>pc_ent := e1, pc_evs := pc_evs st @ evs\<rparr>))
       else Inr (st\<lparr>pc_rl_cur := cur # rest\<rparr>))"

text \<open>\<open>let's start from highest possible value and go down as needed\<close>\<close>

definition am_head_sn_below :: "nr_rlc_entity_am \<Rightarrow> nr_rlc_sdu_segment list \<Rightarrow> int \<Rightarrow> int res" where
  "am_head_sn_below e l v =
     (case l of
        [] \<Rightarrow> Inr v
      | s # _ \<Rightarrow> bnd (get_sdu (am_heap e) s) (\<lambda>u.
          Inr (if am_sn_compare_tx e (sdu_sn u) v < 0 then sdu_sn u else v)))"

definition am_update_tx_next_ack :: "int \<Rightarrow> nr_rlc_entity_am \<Rightarrow> nr_rlc_entity_am res" where
  "am_update_tx_next_ack ack_sn e =
     bnd (am_head_sn_below e (am_wait_list e) (am_tx_next e)) (\<lambda>v1.
     bnd (am_head_sn_below e (am_retransmit_list e) v1) (\<lambda>v2.
       Inr (e\<lparr>am_tx_next_ack := (if am_sn_compare_tx e ack_sn v2 < 0 then ack_sn else v2)\<rparr>)))"

definition pc_store_lists :: "pc_state \<Rightarrow> nr_rlc_entity_am" where
  "pc_store_lists st =
     (pc_ent st)\<lparr>am_wait_list := pc_wl_pre st @ pc_wl_cur st @ pc_wl_rest st,
                 am_retransmit_list := pc_rl_new st @ pc_rl_cur st,
                 am_wait_end := (case pc_end st of EndUnset \<Rightarrow> am_wait_end (pc_ent st)
                                 | EndHead \<Rightarrow> None | EndNode a \<Rightarrow> Some a)\<rparr>"

definition pc_nacks_done :: "int \<Rightarrow> pc_state \<Rightarrow> (nr_rlc_entity_am \<times> rlc_event list) res" where
  "pc_nacks_done ack_sn st =
     bnd (pc_ack_wait_list ack_sn (pc_wl_cur st) st) (\<lambda>st1.
     bnd (pc_ack_retransmit_list ack_sn (pc_rl_cur st1) st1) (\<lambda>st2.
     bnd (am_update_tx_next_ack ack_sn (pc_store_lists st2)) (\<lambda>e1. Inr (e1, pc_evs st2))))"

definition pc_init :: "nr_rlc_entity_am \<Rightarrow> pc_state" where
  "pc_init e =
     \<lparr>pc_ent = e, pc_wl_pre = [], pc_wl_cur = am_wait_list e, pc_wl_rest = [],
      pc_rl_new = [], pc_rl_cur = am_retransmit_list e, pc_end = EndUnset, pc_prev = None, pc_evs = []\<rparr>"

text \<open>Whether the lists are still linked as they were; if not, leaving for \<open>err\<close> leaves
  \<open>wait_list\<close> and \<open>retransmit_list\<close> pointing into the half-rebuilt lists.\<close>

definition pc_untouched :: "pc_state \<Rightarrow> bool" where
  "pc_untouched st \<longleftrightarrow>
     pc_wl_pre st @ pc_wl_cur st @ pc_wl_rest st = am_wait_list (pc_ent st) \<and>
     pc_rl_new st = [] \<and> pc_rl_cur st = am_retransmit_list (pc_ent st)"

definition am_process_control_pdu ::
    "nr_rlc_entity_am \<Rightarrow> bytes \<Rightarrow> (nr_rlc_entity_am \<times> rlc_event list) res" where
  "am_process_control_pdu e buffer =
     bnd (am_decode_status_header e buffer) (\<lambda>r.
       case r of
         None \<Rightarrow> Inr (e, [])
       | Some (d, ack_sn, e1) \<Rightarrow>
           let e0 = (if am_sn_compare_tx e (am_poll_sn e) ack_sn < 0
                     then e\<lparr>am_t_poll_retransmit_start := 0\<rparr> else e)
           in bnd (if e1 \<noteq> 0 then pc_nacks (length buffer + 1) ack_sn d (pc_init e0)
                   else Inr (pc_init e0, False)) (\<lambda>(st, err).
                if err then (if pc_untouched st then Inr (pc_ent st, pc_evs st) else Inl Inconsistent)
                else pc_nacks_done ack_sn st))"

subsection \<open>Reception\<close>

text \<open>The code at \<open>discard\<close>.\<close>

definition am_discard :: "nr_rlc_entity_am \<Rightarrow> int \<Rightarrow> (nr_rlc_entity_am \<times> rlc_event list) res" where
  "am_discard e p = Inr (if p \<noteq> 0 then e\<lparr>am_status_triggered := True\<rparr> else e, [])"

definition am_receive_segment ::
    "nr_rlc_entity_am \<Rightarrow> bytes \<Rightarrow> nr_rlc_pdu_decoder \<Rightarrow> int \<Rightarrow> int \<Rightarrow> int \<Rightarrow> bool \<Rightarrow> bool \<Rightarrow>
     (nr_rlc_entity_am \<times> rlc_event list) res" where
  "am_receive_segment e buffer decoder p sn so is_first is_last =
     (let data_size = int (length buffer) - int (dec_byte decoder) in
      if data_size \<le> 0 then am_discard e p
      else if am_rx_size e + data_size > am_rx_maxsize e then am_discard e p
      else if \<not> am_sn_in_recv_window e sn then am_discard e p
      else if am_segment_already_received e sn so data_size then am_discard e p
      else
        let e1 = e\<lparr>am_rx_size := am_rx_size e + data_size\<rparr>;
            pdu = nr_rlc_new_pdu sn so is_first is_last (drop (dec_byte decoder) buffer);
            e2 = e1\<lparr>am_rx_list := nr_rlc_pdu_list_add (am_sn_compare_rx e1) (am_rx_list e1) pdu\<rparr>
        in bnd (am_reception_actions e2 pdu) (\<lambda>(e3, evs).
             Inr (if p \<noteq> 0 then e3\<lparr>am_status_triggered := True\<rparr> else e3, evs)))"

definition nr_rlc_entity_am_recv_pdu ::
    "nr_rlc_entity_am \<Rightarrow> bytes \<Rightarrow> (nr_rlc_entity_am \<times> rlc_event list) res" where
  "nr_rlc_entity_am_recv_pdu e buffer =
     decode_field (nr_rlc_pdu_decoder_init buffer) 1 (am_discard e 0) (\<lambda>d dc.
       if dc = 0 then am_process_control_pdu e buffer
       else
         decode_field d 1 (am_discard e (-1)) (\<lambda>d p.
         decode_field d 2 (am_discard e p) (\<lambda>d si.
           let is_first = (si AND 0x2 = 0); is_last = (si AND 0x1 = 0) in
           (if am_sn_field_length e = 18 then decode_field d 2 (am_discard e p) else (\<lambda>k. k d 0))
             (\<lambda>d r.
           decode_field d (am_sn_field_length e) (am_discard e p) (\<lambda>d sn.
             if \<not> is_first
             then decode_field d 16 (am_discard e p) (\<lambda>d so.
                    if so = 0 then am_discard e p
                    else am_receive_segment e buffer d p sn so is_first is_last)
             else am_receive_segment e buffer d p sn 0 is_first is_last)))))"

subsection \<open>TX functions\<close>

definition am_is_window_stalling :: "nr_rlc_entity_am \<Rightarrow> bool" where
  "am_is_window_stalling e \<longleftrightarrow>
     \<not> (am_sn_compare_tx e (am_tx_next_ack e) (am_tx_next e) \<le> 0 \<and>
        am_sn_compare_tx e (am_tx_next e)
          (c_rem (am_tx_next_ack e + am_window_size e) (am_sn_modulus e)) < 0)"

definition am_include_poll :: "nr_rlc_entity_am \<Rightarrow> bytes \<Rightarrow> (nr_rlc_entity_am \<times> bytes) res" where
  "am_include_poll e buffer =
     (if buffer = [] then Inl OutOfBounds
      else Inr (e\<lparr>am_pdu_without_poll := 0, am_byte_without_poll := 0,
                  am_poll_sn := c_rem (am_tx_next e - 1 + am_sn_modulus e) (am_sn_modulus e),
                  am_t_poll_retransmit_start := am_t_current e\<rparr>,
                buffer[0 := (buffer ! 0) OR 0x40]))"

definition am_check_poll_after_pdu_assembly :: "nr_rlc_entity_am \<Rightarrow> bool" where
  "am_check_poll_after_pdu_assembly e \<longleftrightarrow>
     (am_tx_list e = [] \<and> am_retransmit_list e = []) \<or> am_is_window_stalling e"

definition am_header_fields :: "nr_rlc_entity_am \<Rightarrow> nr_rlc_sdu_segment \<Rightarrow> int \<Rightarrow> (int \<times> nat) list" where
  "am_header_fields e sdu sn =
     [(1, 1), (0, 1), (1 - of_bool (seg_is_first sdu), 1), (1 - of_bool (seg_is_last sdu), 1)] @
     (if am_sn_field_length e = 18 then [(0, 2)] else []) @ [(sn, am_sn_field_length e)] @
     (if \<not> seg_is_first sdu then [(seg_so sdu, 16)] else [])"

definition am_serialize_sdu ::
    "nr_rlc_entity_am \<Rightarrow> nr_rlc_sdu_segment \<Rightarrow> bytes \<Rightarrow> bool \<Rightarrow> (nr_rlc_entity_am \<times> int \<times> bytes) res" where
  "am_serialize_sdu e sdu buffer p =
     bnd (get_sdu (am_heap e) sdu) (\<lambda>u.
     bnd (put_fields (nr_rlc_pdu_encoder_init buffer) (am_header_fields e sdu (sdu_sn u))) (\<lambda>encoder.
     bnd (read_at (sdu_data u) (seg_so sdu) (seg_size sdu)) (\<lambda>d.
     bnd (memcpy_at (enc_buffer encoder) (enc_byte encoder) d) (\<lambda>buffer1.
     bnd (if p then am_include_poll e buffer1 else Inr (e, buffer1)) (\<lambda>(e1, buffer2).
       Inr (e1, int (enc_byte encoder) + seg_size sdu, buffer2))))))"

definition am_resegment ::
    "sdu_heap \<Rightarrow> nr_rlc_sdu_segment \<Rightarrow> nr_rlc_entity_am \<Rightarrow> int \<Rightarrow>
     (sdu_heap \<times> nr_rlc_sdu_segment \<times> nr_rlc_sdu_segment) res" where
  "am_resegment h sdu e psize =
     bnd (get_sdu h sdu) (\<lambda>u.
       let h1 = set_sdu h (seg_sdu sdu) (u\<lparr>sdu_ref_count := sdu_ref_count u + 1\<rparr>);
           over_size = am_compute_pdu_header_size e sdu + seg_size sdu - psize;
           sdu1 = sdu\<lparr>seg_size := seg_size sdu - over_size, seg_is_last := False\<rparr>;
           next_sdu = sdu\<lparr>seg_addr := hp_next h1, seg_size := over_size,
                      seg_so := seg_so sdu1 + seg_size sdu1, seg_is_first := False\<rparr>
       in Inr (h1\<lparr>hp_next := hp_next h1 + 1\<rparr>, sdu1, next_sdu))"

subsection \<open>Status reporting\<close>

record missing_data =
  md_sn_start :: int
  md_so_start :: int
  md_sn_end :: int
  md_so_end :: int
  md_next :: "nr_rlc_pdu list"

definition am_pred :: "nr_rlc_entity_am \<Rightarrow> int \<Rightarrow> int" where
  "am_pred e sn = c_rem (sn - 1 + am_sn_modulus e) (am_sn_modulus e)"

definition am_succ :: "nr_rlc_entity_am \<Rightarrow> int \<Rightarrow> int" where
  "am_succ e sn = c_rem (sn + 1) (am_sn_modulus e)"

text \<open>\<open>don't report if out of reporting window\<close>\<close>

definition nm_out_of_window :: "nr_rlc_entity_am \<Rightarrow> int \<Rightarrow> bool" where
  "nm_out_of_window e sn \<longleftrightarrow> am_sn_compare_rx e (am_rx_highest_status e) sn \<le> 0"

text \<open>The code at \<open>set_end_different_sdu\<close>.\<close>

definition nm_set_end :: "nr_rlc_entity_am \<Rightarrow> int \<Rightarrow> int \<Rightarrow> nr_rlc_pdu \<Rightarrow> nr_rlc_pdu list \<Rightarrow> missing_data" where
  "nm_set_end e sn_start so_start cur nxt =
     (let (sn_end, so_end) = (if pdu_is_first cur then (am_pred e (pdu_sn cur), 0xffff)
                              else (pdu_sn cur, pdu_so cur - 1))
      in if nm_out_of_window e sn_end
         then \<lparr>md_sn_start = sn_start, md_so_start = so_start,
               md_sn_end = am_pred e (am_rx_highest_status e), md_so_end = 0xffff, md_next = []\<rparr>
         else \<lparr>md_sn_start = sn_start, md_so_start = so_start, md_sn_end = sn_end, md_so_end = so_end,
               md_next = nxt\<rparr>)"

text \<open>Where a missing part starts: in the next SDU if the last byte of this one is there.\<close>

definition nm_start :: "nr_rlc_entity_am \<Rightarrow> int \<Rightarrow> bool \<Rightarrow> int \<Rightarrow> int \<times> int" where
  "nm_start e sn last_reached max_so = (if last_reached then (am_succ e sn, 0) else (sn, max_so + 1))"

text \<open>The code from \<open>next_pdu\<close> on; \<open>None\<close> is \<open>sn_start == -1\<close>.\<close>

fun nm_loop :: "nr_rlc_entity_am \<Rightarrow> nr_rlc_pdu list \<Rightarrow> int \<Rightarrow> bool \<Rightarrow> missing_data option" where
  "nm_loop e [] max_so0 last_reached0 = None"
| "nm_loop e (cur # rest) max_so0 last_reached0 =
     (let sn = pdu_sn cur;
          max_so = max max_so0 (pdu_so cur + pdu_size cur - 1);
          last_reached = (last_reached0 \<or> pdu_is_last cur);
          start = nm_start e sn last_reached max_so
      in case rest of
           [] \<Rightarrow>
             let start1 = (if pdu_data cur = None then (am_succ e sn, 0) else start)
             in if nm_out_of_window e (fst start1) then None
                else Some \<lparr>md_sn_start = fst start1, md_so_start = snd start1,
                           md_sn_end = am_pred e (am_rx_highest_status e), md_so_end = 0xffff,
                           md_next = []\<rparr>
         | cur1 # _ \<Rightarrow>
             if pdu_sn cur1 = sn \<and> max_so \<ge> pdu_so cur1 - 1 then nm_loop e rest max_so last_reached
             else if pdu_sn cur1 = am_succ e sn \<and> last_reached \<and> pdu_is_first cur1
             then nm_loop e rest 0 False
             else if pdu_sn cur1 = sn
             then (if nm_out_of_window e sn then None
                   else Some \<lparr>md_sn_start = sn, md_so_start = max_so + 1, md_sn_end = sn,
                              md_so_end = pdu_so cur1 - 1, md_next = rest\<rparr>)
             else if nm_out_of_window e (fst start) then None
             else Some (nm_set_end e (fst start) (snd start) cur1 rest))"

definition next_missing :: "nr_rlc_entity_am \<Rightarrow> nr_rlc_pdu list \<Rightarrow> bool \<Rightarrow> missing_data option res" where
  "next_missing e l check_head =
     (case l of
        [] \<Rightarrow> Inl NullDeref
      | cur # rest \<Rightarrow>
          if check_head \<and> (pdu_sn cur \<noteq> am_rx_next e \<or> \<not> pdu_is_first cur)
          then (if nm_out_of_window e (am_rx_next e) then Inr None
                else Inr (Some (nm_set_end e (am_rx_next e) 0 cur (cur # rest))))
          else Inr (nm_loop e (cur # rest) 0 False))"

definition nack_size :: "nr_rlc_entity_am \<Rightarrow> int \<Rightarrow> int \<Rightarrow> int \<Rightarrow> int \<Rightarrow> int" where
  "nack_size e sn_start so_start sn_end so_end =
     (let nack_length = 2 + (if am_sn_field_length e = 18 then 1 else 0) in
      if sn_start = sn_end
      then (if so_start = 0 \<and> so_end = 0xffff then nack_length else nack_length + 4)
      else if so_start = 0 \<and> so_end = 0xffff then nack_length + 1
      else nack_length + 5)"

definition get_e1_position :: "nr_rlc_entity_am \<Rightarrow> nr_rlc_pdu_encoder \<Rightarrow> nat \<times> nat" where
  "get_e1_position e encoder =
     (if am_sn_field_length e = 18 then (enc_byte encoder + 2, 5) else (enc_byte encoder + 1, 3))"

text \<open>\<open>encoder->buffer[e1_byte] |= 1 << e1_bit\<close>\<close>

definition set_e1 :: "nr_rlc_pdu_encoder \<Rightarrow> nat \<Rightarrow> nat \<Rightarrow> nr_rlc_pdu_encoder res" where
  "set_e1 encoder e1_byte e1_bit =
     (if e1_byte < length (enc_buffer encoder)
      then Inr (encoder\<lparr>enc_buffer := (enc_buffer encoder)
             [e1_byte := (enc_buffer encoder ! e1_byte) OR push_bit e1_bit 1]\<rparr>)
      else Inl OutOfBounds)"

text \<open>One NACK of \<open>generate_missing\<close>: the put calls, and the address of \<open>so_end\<close> if it was put.\<close>

definition put_nack ::
    "nr_rlc_entity_am \<Rightarrow> nr_rlc_pdu_encoder \<Rightarrow> int \<Rightarrow> int \<Rightarrow> int \<Rightarrow> int \<Rightarrow> int \<Rightarrow>
     (nr_rlc_pdu_encoder \<times> nat option) res" where
  "put_nack e encoder sn_start so_start sn_end so_end cur_sn_count =
     (let r_bits = (if am_sn_field_length e = 18 then 3 else 1);
          e2 = (\<not> (so_start = 0 \<and> so_end = 0xffff));
          e3 = (sn_start \<noteq> sn_end)
      in bnd (put_fields encoder [(sn_start, am_sn_field_length e), (0, 1), (of_bool e2, 1),
                                  (of_bool e3, 1), (0, r_bits)]) (\<lambda>enc1.
         bnd (if e2
              then bnd (nr_rlc_pdu_encoder_put_bits enc1 so_start 16) (\<lambda>enc2.
                   bnd (nr_rlc_pdu_encoder_put_bits enc2 so_end 16) (\<lambda>enc3.
                     Inr (enc3, Some (enc_byte enc2))))
              else Inr (enc1, None)) (\<lambda>(enc4, so_end_address).
         bnd (if e3 then nr_rlc_pdu_encoder_put_bits enc4 cur_sn_count 8 else Inr enc4) (\<lambda>enc5.
           Inr (enc5, so_end_address)))))"

text \<open>The variables \<open>generate_missing\<close> works on.\<close>

record gm_state =
  gm_encoder :: nr_rlc_pdu_encoder
  gm_e1_byte :: nat
  gm_e1_bit :: nat
  gm_truncated :: bool
  gm_so_end_address :: "nat option"
  gm_last_nack :: int

text \<open>The bounds of the next NACK: the first range has the \<open>so_start\<close> of the missing data, the
  last one its \<open>sn_end\<close> and \<open>so_end\<close>.\<close>

definition nack_bounds :: "nr_rlc_entity_am \<Rightarrow> missing_data \<Rightarrow> nat \<Rightarrow> int \<Rightarrow> int \<times> int \<times> int" where
  "nack_bounds e m sn_count sn_start =
     (if sn_start = md_sn_start m then md_so_start m else 0,
      if sn_count \<le> 255 then md_sn_end m else c_rem (sn_start + 254) (am_sn_modulus e),
      if sn_count \<le> 255 then md_so_end m else 0xffff)"

function gm_loop ::
    "nr_rlc_entity_am \<Rightarrow> missing_data \<Rightarrow> nat \<Rightarrow> int \<Rightarrow> gm_state \<Rightarrow> gm_state res" where
  "gm_loop e m sn_count sn_start g =
     (if sn_count = 0 then Inr g
      else
        let cur_sn_count = min sn_count 255;
            (so_start, sn_end, so_end) = nack_bounds e m sn_count sn_start
        in if int (enc_byte (gm_encoder g)) + nack_size e sn_start so_start sn_end so_end
                > int (enc_size (gm_encoder g))
           then Inr (g\<lparr>gm_truncated := True\<rparr>)
           else
             bnd (set_e1 (gm_encoder g) (gm_e1_byte g) (gm_e1_bit g)) (\<lambda>enc0.
             bnd (put_nack e enc0 sn_start so_start sn_end so_end (int cur_sn_count)) (\<lambda>(enc1, addr).
               gm_loop e m (sn_count - cur_sn_count)
                 (c_rem (sn_start + int cur_sn_count) (am_sn_modulus e))
                 (g\<lparr>gm_encoder := enc1,
                    gm_e1_byte := fst (get_e1_position e enc0), gm_e1_bit := snd (get_e1_position e enc0),
                    gm_so_end_address := addr,
                    gm_last_nack := sn_start + (if sn_start \<noteq> sn_end then int cur_sn_count - 1 else 0)\<rparr>))))"
  by pat_completeness auto

termination
  by (relation "measure (\<lambda>(e, m, c, s, g). c)") auto

declare gm_loop.simps [simp del]

definition am_sn_count :: "nr_rlc_entity_am \<Rightarrow> missing_data \<Rightarrow> nat" where
  "am_sn_count e m =
     nat (c_rem (md_sn_end m - md_sn_start m + am_sn_modulus e) (am_sn_modulus e) + 1)"

definition generate_missing :: "nr_rlc_entity_am \<Rightarrow> missing_data \<Rightarrow> gm_state \<Rightarrow> (gm_state \<times> missing_data) res" where
  "generate_missing e m g =
     bnd (gm_loop e m (am_sn_count e m) (md_sn_start m) (g\<lparr>gm_last_nack := -1\<rparr>)) (\<lambda>g1.
       Inr (g1, if gm_truncated g1 then m\<lparr>md_next := []\<rparr> else m))"

text \<open>\<open>so_end_address[0] = 0xff; so_end_address[1] = 0xff;\<close>\<close>

definition force_so_end :: "gm_state \<Rightarrow> gm_state res" where
  "force_so_end g =
     (case gm_so_end_address g of
        None \<Rightarrow> Inr g
      | Some a \<Rightarrow>
          if gm_truncated g
          then bnd (memcpy_at (enc_buffer (gm_encoder g)) a [0xff, 0xff]) (\<lambda>b.
                 Inr (g\<lparr>gm_encoder := (gm_encoder g)\<lparr>enc_buffer := b\<rparr>\<rparr>))
          else Inr g)"

text \<open>The loop of \<open>generate_status\<close>.  A call of \<open>next_missing\<close> returns a later position of the
  receive list, or (once, with \<open>check_head\<close>) the same one, so \<open>2 * length rx_list + 2\<close> is
  enough fuel.\<close>

fun gs_loop :: "nat \<Rightarrow> nr_rlc_entity_am \<Rightarrow> nr_rlc_pdu list \<Rightarrow> bool \<Rightarrow> int \<Rightarrow> gm_state \<Rightarrow> (int \<times> gm_state) res" where
  "gs_loop 0 e cur check_head last_nack g = Inl Diverge"
| "gs_loop (Suc fuel) e cur check_head last_nack g =
     (if cur = [] then Inr (last_nack, g)
      else
        bnd (next_missing e cur check_head) (\<lambda>r.
          case r of
            None \<Rightarrow> Inr (last_nack, g)
          | Some m \<Rightarrow>
              bnd (generate_missing e m (g\<lparr>gm_truncated := False\<rparr>)) (\<lambda>(g1, m1).
              bnd (force_so_end g1) (\<lambda>g2.
                gs_loop fuel e (md_next m1) False
                  (if gm_last_nack g2 \<noteq> -1 then gm_last_nack g2 else last_nack) g2))))"

text \<open>\<open>put ack_sn, which is last_nack + 1\<close>; the buffer has at least three bytes.\<close>

definition put_ack_sn :: "nr_rlc_entity_am \<Rightarrow> int \<Rightarrow> bytes \<Rightarrow> bytes" where
  "put_ack_sn e ack_sn b =
     (if am_sn_field_length e = 12
      then b[0 := byte_of_int (drop_bit 8 ack_sn), 1 := byte_of_int (ack_sn AND 255)]
      else b[0 := byte_of_int (drop_bit 14 ack_sn), 1 := byte_of_int (drop_bit 6 ack_sn AND 255),
             2 := (b ! 2) OR byte_of_int (push_bit 2 (ack_sn AND 0x3f))])"

definition generate_status :: "nr_rlc_entity_am \<Rightarrow> bytes \<Rightarrow> (nr_rlc_entity_am \<times> int \<times> bytes) res" where
  "generate_status e buffer =
     (if length buffer < 3 then Inr (e, 0, buffer)
      else
        bnd (nr_rlc_pdu_encoder_put_bits (nr_rlc_pdu_encoder_init buffer) 0 24) (\<lambda>encoder.
        bnd (gs_loop (2 * length (am_rx_list e) + 2) e (am_rx_list e) True (am_pred e (am_rx_next e))
               \<lparr>gm_encoder = encoder, gm_e1_byte = 2,
                gm_e1_bit = (if am_sn_field_length e = 18 then 1 else 7), gm_truncated = False,
                gm_so_end_address = None, gm_last_nack = -1\<rparr>) (\<lambda>(last_nack, g).
          Inr (e\<lparr>am_status_triggered := False, am_t_status_prohibit_start := am_t_current e\<rparr>,
               int (enc_byte (gm_encoder g)),
               put_ack_sn e (am_succ e last_nack) (enc_buffer (gm_encoder g))))))"

definition status_to_report :: "nr_rlc_entity_am \<Rightarrow> bool" where
  "status_to_report e \<longleftrightarrow> am_status_triggered e \<and>
     (am_t_status_prohibit_start e = 0 \<or>
      am_t_current e - am_t_status_prohibit_start e > u64_of_int (am_cfg_t_status_prohibit e))"

text \<open>\<open>missing_size\<close> returns the number of ranges, the size and whether the room ran out.\<close>

definition nack_size_bits :: "nr_rlc_entity_am \<Rightarrow> int \<Rightarrow> int \<Rightarrow> int \<Rightarrow> int \<Rightarrow> int" where
  "nack_size_bits e sn_start so_start sn_end so_end =
     (let r_bits = (if am_sn_field_length e = 18 then 3 else 1);
          base = int (am_sn_field_length e) + 3 + r_bits in
      if sn_start = sn_end
      then (if so_start = 0 \<and> so_end = 0xffff then base div 8 else (base + 32) div 8)
      else if so_start = 0 \<and> so_end = 0xffff then (base + 8) div 8
      else (base + 32 + 8) div 8)"

function ms_loop ::
    "nr_rlc_entity_am \<Rightarrow> missing_data \<Rightarrow> nat \<Rightarrow> int \<Rightarrow> nat \<Rightarrow> int \<Rightarrow> int \<Rightarrow> nat \<times> int \<times> bool" where
  "ms_loop e m sn_count sn_start range_count sz maxsize =
     (if sn_count = 0 then (range_count, sz, False)
      else
        let cur_sn_count = min sn_count 255;
            (so_start, sn_end, so_end) = nack_bounds e m sn_count sn_start
        in if sz + nack_size e sn_start so_start sn_end so_end > maxsize
           then (range_count, sz, True)
           else ms_loop e m (sn_count - cur_sn_count)
                  (c_rem (sn_start + int cur_sn_count) (am_sn_modulus e)) (range_count + 1)
                  (sz + nack_size_bits e sn_start so_start sn_end so_end) maxsize)"
  by pat_completeness auto

termination
  by (relation "measure (\<lambda>(e, m, c, s, r, z, x). c)") auto

declare ms_loop.simps [simp del]

definition missing_size :: "nr_rlc_entity_am \<Rightarrow> missing_data \<Rightarrow> int \<Rightarrow> int \<Rightarrow> nat \<times> int \<times> missing_data" where
  "missing_size e m sz maxsize =
     (case ms_loop e m (am_sn_count e m) (md_sn_start m) 0 sz maxsize of
        (range_count, sz1, full) \<Rightarrow> (range_count, sz1, if full then m\<lparr>md_next := []\<rparr> else m))"

fun ss_loop :: "nat \<Rightarrow> nr_rlc_entity_am \<Rightarrow> nr_rlc_pdu list \<Rightarrow> nat \<Rightarrow> int \<Rightarrow> int \<Rightarrow> int res" where
  "ss_loop 0 e cur nack_count sz maxsize = Inl Diverge"
| "ss_loop (Suc fuel) e cur nack_count sz maxsize =
     (if cur = [] then Inr sz
      else
        bnd (next_missing e cur (nack_count = 0)) (\<lambda>r.
          case r of
            None \<Rightarrow> Inr sz
          | Some m \<Rightarrow>
              (case missing_size e m sz maxsize of
                 (n, sz1, m1) \<Rightarrow> ss_loop fuel e (md_next m1) (nack_count + n) sz1 maxsize)))"

definition status_size :: "nr_rlc_entity_am \<Rightarrow> int \<Rightarrow> int res" where
  "status_size e maxsize =
     (if maxsize < 3 then Inr 0
      else ss_loop (2 * length (am_rx_list e) + 2) e (am_rx_list e) 0 3 maxsize)"

subsection \<open>Transmission\<close>

text \<open>\<open>put SDU/SDU segment in the wait list\<close>, with its speedup by \<open>wait_end\<close>.\<close>

definition find_node :: "nr_rlc_sdu_segment list \<Rightarrow> nat \<Rightarrow> nr_rlc_sdu_segment res" where
  "find_node l a = deref (find (\<lambda>s. seg_addr s = a) l) Dangling"

definition am_comes_after_end :: "nr_rlc_entity_am \<Rightarrow> nr_rlc_sdu_segment \<Rightarrow> bool res" where
  "am_comes_after_end e sdu =
     (case am_wait_end e of
        None \<Rightarrow> Inr True
      | Some a \<Rightarrow>
          bnd (find_node (am_wait_list e) a) (\<lambda>w.
          bnd (get_sdu (am_heap e) w) (\<lambda>uw.
          bnd (get_sdu (am_heap e) sdu) (\<lambda>u.
            Inr (am_sn_compare_tx e (sdu_sn u) (sdu_sn uw) > 0 \<or>
                 (am_sn_compare_tx e (sdu_sn u) (sdu_sn uw) = 0 \<and> seg_so sdu > seg_so w))))))"

definition am_put_in_wait_list :: "nr_rlc_entity_am \<Rightarrow> nr_rlc_sdu_segment \<Rightarrow> nr_rlc_entity_am res" where
  "am_put_in_wait_list e sdu =
     bnd (am_comes_after_end e sdu) (\<lambda>after.
       if after
       then bnd (nr_rlc_sdu_segment_list_append (am_wait_list e) (am_wait_end e) sdu) (\<lambda>(l, p).
              Inr (e\<lparr>am_wait_list := l, am_wait_end := p\<rparr>))
       else bnd (nr_rlc_sdu_segment_list_add (am_sn_compare_tx e) (am_heap e) (am_wait_list e) sdu) (\<lambda>l.
              Inr (e\<lparr>am_wait_list := l,
                     am_wait_end := (case l of [s] \<Rightarrow> Some (seg_addr s) | _ \<Rightarrow> am_wait_end e)\<rparr>)))"

definition am_take_force_poll :: "nr_rlc_entity_am \<Rightarrow> bool \<Rightarrow> nr_rlc_entity_am \<times> bool" where
  "am_take_force_poll e p = (if am_force_poll e then (e\<lparr>am_force_poll := False\<rparr>, True) else (e, p))"

definition am_generate_retx_pdu :: "nr_rlc_entity_am \<Rightarrow> bytes \<Rightarrow> (nr_rlc_entity_am \<times> int \<times> bytes) res" where
  "am_generate_retx_pdu e buffer =
     (case am_retransmit_list e of
        [] \<Rightarrow> Inl NullDeref
      | sdu # rest \<Rightarrow>
          let sz = int (length buffer); pdu_header_size = am_compute_pdu_header_size e sdu in
          if pdu_header_size + 1 > sz then Inr (e, 0, buffer)
          else
            let psize = pdu_header_size + seg_size sdu;
                e1 = am_bs_retx_add (- psize) (e\<lparr>am_retransmit_list := rest\<rparr>)
            in bnd (if psize > sz
                    then bnd (am_resegment (am_heap e1) sdu e1 sz) (\<lambda>(h2, sdu1, next_sdu).
                      let e2 = e1\<lparr>am_heap := h2, am_retransmit_list := next_sdu # rest\<rparr>
                      in Inr (am_bs_retx_add (am_compute_pdu_header_size e2 next_sdu + seg_size next_sdu) e2,
                              sdu1))
                    else Inr (e1, sdu)) (\<lambda>(e3, sdu3).
               bnd (am_put_in_wait_list e3 sdu3) (\<lambda>e4.
                 let (e5, p) = am_take_force_poll e4 (am_check_poll_after_pdu_assembly e4)
                 in am_serialize_sdu e5 sdu3 buffer p)))"

definition am_poll_after_tx :: "nr_rlc_entity_am \<Rightarrow> nr_rlc_sdu_segment \<Rightarrow> nr_rlc_entity_am \<times> bool" where
  "am_poll_after_tx e sdu =
     (let e1 = e\<lparr>am_pdu_without_poll := am_pdu_without_poll e + 1,
                 am_byte_without_poll := am_byte_without_poll e + seg_size sdu\<rparr>;
          p = (if (am_poll_pdu e1 \<noteq> -1 \<and> am_pdu_without_poll e1 \<ge> am_poll_pdu e1) \<or>
                  (am_poll_byte e1 \<noteq> -1 \<and> am_byte_without_poll e1 \<ge> am_poll_byte e1)
               then True else am_check_poll_after_pdu_assembly e1)
      in am_take_force_poll e1 p)"

definition am_generate_tx_pdu :: "nr_rlc_entity_am \<Rightarrow> bytes \<Rightarrow> (nr_rlc_entity_am \<times> int \<times> bytes) res" where
  "am_generate_tx_pdu e buffer =
     (if am_is_window_stalling e then Inr (e, 0, buffer)
      else case am_tx_list e of
        [] \<Rightarrow> Inr (e, 0, buffer)
      | sdu # rest \<Rightarrow>
          let sz = int (length buffer); pdu_header_size = am_compute_pdu_header_size e sdu in
          if pdu_header_size + 1 > sz then Inr (e, 0, buffer)
          else
            bnd (get_sdu (am_heap e) sdu) (\<lambda>u.
              let psize = pdu_header_size + seg_size sdu;
                  e1 = am_bs_tx_add (- psize)
                    (e\<lparr>am_tx_list := rest, am_tx_end := (if rest = [] then None else am_tx_end e),
                       am_heap := set_sdu (am_heap e) (seg_sdu sdu) (u\<lparr>sdu_sn := am_tx_next e\<rparr>)\<rparr>)
              in bnd (if psize > sz
                      then bnd (am_resegment (am_heap e1) sdu e1 sz) (\<lambda>(h2, sdu1, next_sdu).
                        let e2 = e1\<lparr>am_heap := h2, am_tx_list := next_sdu # rest,
                                    am_tx_end := (if am_tx_end e1 = None then Some (seg_addr next_sdu)
                                                  else am_tx_end e1)\<rparr>
                        in Inr (am_bs_tx_add (am_compute_pdu_header_size e2 next_sdu + seg_size next_sdu) e2,
                                sdu1))
                      else Inr (e1, sdu)) (\<lambda>(e3, sdu3).
                 let e4 = (if seg_is_last sdu3
                           then e3\<lparr>am_tx_next := c_rem (am_tx_next e3 + 1) (am_sn_modulus e3)\<rparr> else e3)
                 in bnd (am_put_in_wait_list e4 sdu3) (\<lambda>e5.
                      let (e6, p) = am_poll_after_tx e5 sdu3 in am_serialize_sdu e6 sdu3 buffer p))))"

definition nr_rlc_entity_am_buffer_status ::
    "nr_rlc_entity_am \<Rightarrow> int \<Rightarrow> nr_rlc_entity_buffer_status res" where
  "nr_rlc_entity_am_buffer_status e maxsize =
     bnd (if status_to_report e then status_size e maxsize else Inr 0) (\<lambda>s.
       Inr \<lparr>bs_status_size = s, bs_tx_size = bs_tx_size (am_bstatus e),
            bs_retx_size = bs_retx_size (am_bstatus e)\<rparr>)"

definition am_generate_data_pdu :: "nr_rlc_entity_am \<Rightarrow> bytes \<Rightarrow> (nr_rlc_entity_am \<times> int \<times> bytes) res" where
  "am_generate_data_pdu e buffer =
     (if am_retransmit_list e \<noteq> []
      then bnd (am_generate_retx_pdu e buffer) (\<lambda>(e1, ret, buffer1).
             if ret \<noteq> 0 then Inr (e1, ret, buffer1) else am_generate_tx_pdu e1 buffer1)
      else am_generate_tx_pdu e buffer)"

definition nr_rlc_entity_am_generate_pdu ::
    "nr_rlc_entity_am \<Rightarrow> bytes \<Rightarrow> (nr_rlc_entity_am \<times> int \<times> bytes) res" where
  "nr_rlc_entity_am_generate_pdu e buffer =
     (if status_to_report e
      then bnd (generate_status e buffer) (\<lambda>(e1, ret, buffer1).
             if ret \<noteq> 0 then Inr (e1, ret, buffer1) else am_generate_data_pdu e1 buffer1)
      else am_generate_data_pdu e buffer)"

subsection \<open>SDU RX functions\<close>

definition am_log_rejected :: "nr_rlc_entity_am \<Rightarrow> nr_rlc_entity_am" where
  "am_log_rejected e =
     (if am_sdu_rejected e \<noteq> 0 \<and> am_t_current e > am_t_log_buffer_full e + 1000
      then e\<lparr>am_sdu_rejected := 0, am_t_log_buffer_full := am_t_current e\<rparr> else e)"

definition nr_rlc_entity_am_recv_sdu :: "nr_rlc_entity_am \<Rightarrow> bytes \<Rightarrow> int \<Rightarrow> nr_rlc_entity_am res" where
  "nr_rlc_entity_am_recv_sdu e0 buffer sdu_id =
     (let sz = int (length buffer) in
      if sz > NR_SDU_MAX then Inl Exit
      else
        let e = am_log_rejected e0 in
        if am_tx_size e + sz > am_tx_maxsize e then Inr (e\<lparr>am_sdu_rejected := am_sdu_rejected e + 1\<rparr>)
        else
          let (h1, sdu) = nr_rlc_new_sdu (am_heap e) buffer sdu_id
          in bnd (nr_rlc_sdu_segment_list_append (am_tx_list e) (am_tx_end e) sdu) (\<lambda>(l, p).
               Inr (am_bs_tx_add (am_compute_pdu_header_size e sdu + seg_size sdu)
                      (e\<lparr>am_tx_size := am_tx_size e + sz, am_heap := h1, am_tx_list := l, am_tx_end := p\<rparr>))))"

subsection \<open>Time and timers\<close>

definition am_check_t_poll_retransmit :: "nr_rlc_entity_am \<Rightarrow> (nr_rlc_entity_am \<times> rlc_event list) res" where
  "am_check_t_poll_retransmit e =
     (if am_t_poll_retransmit_start e = 0 \<or>
         am_t_current e \<le> am_t_poll_retransmit_start e + u64_of_int (am_cfg_t_poll_retransmit e)
      then Inr (e, [])
      else
        let e1 = e\<lparr>am_t_poll_retransmit_start := 0, am_force_poll := True\<rparr> in
        if \<not> am_check_poll_after_pdu_assembly e1 then Inr (e1, [])
        else
          (case am_wait_list e1 of
             [] \<Rightarrow> Inl NullDeref
           | cur # rest \<Rightarrow>
               bnd (am_count_retx
                      (e1\<lparr>am_wait_list := rest,
                          am_wait_end := (if rest = [] then None else am_wait_end e1)\<rparr>) cur) (\<lambda>(e2, evs).
               bnd (nr_rlc_sdu_segment_list_add (am_sn_compare_tx e2) (am_heap e2) (am_retransmit_list e2) cur)
                 (\<lambda>l. Inr (e2\<lparr>am_retransmit_list := l\<rparr>, evs)))))"

definition am_check_t_reassembly :: "nr_rlc_entity_am \<Rightarrow> nr_rlc_entity_am res" where
  "am_check_t_reassembly e =
     (if am_t_reassembly_start e = 0 \<or>
         am_t_current e \<le> am_t_reassembly_start e + u64_of_int (am_cfg_t_reassembly e)
      then Inr e
      else
        bnd (skip_delivered (am_rx_list e) (am_sn_modulus e) (am_rx_next_status_trigger e)) (\<lambda>sn.
          let e1 = e\<lparr>am_t_reassembly_start := 0, am_rx_highest_status := sn, am_status_triggered := True\<rparr>;
              nxt = am_succ e1 (am_rx_highest_status e1)
          in if am_sn_compare_rx e1 (am_rx_next_highest e1) nxt > 0 \<or>
                (am_rx_next_highest e1 = nxt \<and> am_sdu_has_missing_bytes e1 (am_rx_highest_status e1))
             then Inr (e1\<lparr>am_t_reassembly_start := am_t_current e1,
                          am_rx_next_status_trigger := am_rx_next_highest e1\<rparr>)
             else Inr e1))"

definition nr_rlc_entity_am_set_time ::
    "nr_rlc_entity_am \<Rightarrow> u64 \<Rightarrow> (nr_rlc_entity_am \<times> rlc_event list) res" where
  "nr_rlc_entity_am_set_time e now =
     bnd (am_check_t_poll_retransmit (e\<lparr>am_t_current := now\<rparr>)) (\<lambda>(e1, evs).
     bnd (am_check_t_reassembly e1) (\<lambda>e2. Inr (e2, evs)))"

subsection \<open>Discard, re-establishment, delete\<close>

definition nr_rlc_entity_am_discard_sdu :: "nr_rlc_entity_am \<Rightarrow> int \<Rightarrow> nr_rlc_entity_am res" where
  "nr_rlc_entity_am_discard_sdu e sdu_id =
     bnd (find_sdu_id (am_heap e) (am_tx_list e) sdu_id) (\<lambda>(pre, post).
       case post of
         [] \<Rightarrow> Inr e
       | cur # rest \<Rightarrow>
           if \<not> seg_is_first cur \<or> \<not> seg_is_last cur then Inr e
           else
             let e1 = e\<lparr>am_tx_list := pre @ rest,
                        am_tx_end := (if am_tx_end e = Some (seg_addr cur)
                          then (if pre \<noteq> [] then Some (seg_addr (last pre)) else None)
                          else am_tx_end e)\<rparr>;
                 e2 = am_bs_tx_add (- (am_compute_pdu_header_size e1 cur + seg_size cur)) e1
             in bnd (get_sdu (am_heap e2) cur) (\<lambda>u.
                bnd (nr_rlc_free_sdu_segment (am_heap e2) cur) (\<lambda>(h1, _).
                  Inr (e2\<lparr>am_tx_size := am_tx_size e2 - sdu_size u, am_heap := h1\<rparr>))))"

definition am_clear_entity :: "nr_rlc_entity_am \<Rightarrow> nr_rlc_entity_am res" where
  "am_clear_entity e =
     bnd (nr_rlc_free_sdu_segment_list (am_heap e) (am_tx_list e)) (\<lambda>h1.
     bnd (nr_rlc_free_sdu_segment_list h1 (am_wait_list e)) (\<lambda>h2.
     bnd (nr_rlc_free_sdu_segment_list h2 (am_retransmit_list e)) (\<lambda>h3.
       Inr (e\<lparr>am_rx_next := 0, am_rx_next_status_trigger := 0, am_rx_highest_status := 0,
              am_rx_next_highest := 0, am_status_triggered := False,
              am_tx_next := 0, am_tx_next_ack := 0, am_poll_sn := 0, am_pdu_without_poll := 0,
              am_byte_without_poll := 0, am_force_poll := False, am_t_current := 0,
              am_t_log_buffer_full := 0, am_sdu_rejected := 0, am_t_poll_retransmit_start := 0,
              am_t_reassembly_start := 0, am_t_status_prohibit_start := 0,
              am_rx_list := [], am_rx_size := 0, am_tx_list := [], am_tx_end := None, am_tx_size := 0,
              am_wait_list := [], am_wait_end := None, am_retransmit_list := [], am_heap := h3,
              am_bstatus := (am_bstatus e)\<lparr>bs_tx_size := 0, bs_retx_size := 0\<rparr>\<rparr>))))"

definition nr_rlc_entity_am_reestablishment :: "nr_rlc_entity_am \<Rightarrow> nr_rlc_entity_am res" where
  "nr_rlc_entity_am_reestablishment e = am_clear_entity e"

definition nr_rlc_entity_am_delete :: "nr_rlc_entity_am \<Rightarrow> sdu_heap res" where
  "nr_rlc_entity_am_delete e = bnd (am_clear_entity e) (\<lambda>e1. Inr (am_heap e1))"

definition new_nr_rlc_entity_am ::
    "int \<Rightarrow> int \<Rightarrow> int \<Rightarrow> int \<Rightarrow> int \<Rightarrow> int \<Rightarrow> int \<Rightarrow> int \<Rightarrow> nat \<Rightarrow> nr_rlc_entity_am res" where
  "new_nr_rlc_entity_am rx_maxsize tx_maxsize t_poll_retransmit t_reassembly t_status_prohibit
       poll_pdu poll_byte max_retx_threshold sn_field_length =
     (if \<not> (sn_field_length = 12 \<or> sn_field_length = 18) then Inl Exit
      else Inr
        \<lparr>am_bstatus = \<lparr>bs_status_size = 0, bs_tx_size = 0, bs_retx_size = 0\<rparr>,
         am_cfg_t_poll_retransmit = t_poll_retransmit, am_cfg_t_reassembly = t_reassembly,
         am_cfg_t_status_prohibit = t_status_prohibit, am_poll_pdu = poll_pdu,
         am_poll_byte = poll_byte, am_max_retx_threshold = max_retx_threshold,
         am_sn_field_length = sn_field_length, am_sn_modulus = 2 ^ sn_field_length,
         am_window_size = 2 ^ sn_field_length div 2,
         am_rx_next = 0, am_rx_next_status_trigger = 0, am_rx_highest_status = 0,
         am_rx_next_highest = 0, am_status_triggered = False,
         am_tx_next = 0, am_tx_next_ack = 0, am_poll_sn = 0, am_pdu_without_poll = 0,
         am_byte_without_poll = 0, am_force_poll = False, am_t_current = 0,
         am_t_log_buffer_full = 0, am_sdu_rejected = 0, am_t_poll_retransmit_start = 0,
         am_t_reassembly_start = 0, am_t_status_prohibit_start = 0,
         am_rx_list = [], am_rx_size = 0, am_rx_maxsize = rx_maxsize,
         am_tx_list = [], am_tx_end = None, am_tx_size = 0, am_tx_maxsize = tx_maxsize,
         am_wait_list = [], am_wait_end = None, am_retransmit_list = [],
         am_heap = empty_heap\<rparr>)"

end
