(* ===== verification/Rlc_Am_Rx.thy ===== *)
theory Rlc_Am_Rx
  imports Rlc_Am
begin

text \<open>
  Reception of data PDUs in RLC AM: whatever the order, duplication and overlap in which the
  segments of SDUs arrive, each SDU is delivered at most once, exactly, and as soon as all its bytes
  are there.
\<close>

subsection \<open>Configuration and windows\<close>

definition am_cfg :: "nr_rlc_entity_am \<Rightarrow> bool" where
  "am_cfg e \<longleftrightarrow> (am_sn_field_length e = 12 \<or> am_sn_field_length e = 18) \<and>
     am_sn_modulus e = 2 ^ am_sn_field_length e \<and> am_window_size e = 2 ^ am_sn_field_length e div 2 \<and>
     0 \<le> am_rx_next e \<and> am_rx_next e < am_sn_modulus e \<and>
     0 \<le> am_rx_next_status_trigger e \<and> am_rx_next_status_trigger e < am_sn_modulus e \<and>
     0 \<le> am_rx_highest_status e \<and> am_rx_highest_status e < am_sn_modulus e \<and>
     0 \<le> am_rx_next_highest e \<and> am_rx_next_highest e < am_sn_modulus e \<and>
     0 \<le> am_tx_next e \<and> am_tx_next e < am_sn_modulus e \<and>
     0 \<le> am_tx_next_ack e \<and> am_tx_next_ack e < am_sn_modulus e"

lemma am_cfg_modulus:
  assumes "am_cfg e"
  shows "0 < am_sn_modulus e" "am_sn_modulus e = 2 * am_window_size e" "1 < am_window_size e"
    "am_sn_field_length e = 12 \<or> am_sn_field_length e = 18" "am_sn_modulus e = 2 ^ am_sn_field_length e"
  using assms by (auto simp: am_cfg_def)

lemma am_cfg_range:
  assumes "am_cfg e"
  shows "0 \<le> am_rx_next e" "am_rx_next e < am_sn_modulus e"
    "0 \<le> am_rx_highest_status e" "am_rx_highest_status e < am_sn_modulus e"
    "0 \<le> am_tx_next_ack e" "am_tx_next_ack e < am_sn_modulus e"
    "0 \<le> am_tx_next e" "am_tx_next e < am_sn_modulus e"
  using assms by (simp_all add: am_cfg_def)

definition am_sn_ok :: "nr_rlc_entity_am \<Rightarrow> int \<Rightarrow> bool" where
  "am_sn_ok e sn \<longleftrightarrow> am_cfg e \<and> 0 \<le> sn \<and> sn < am_sn_modulus e"

lemma am_shift_mod:
  assumes "0 \<le> b" "b < m" "0 \<le> a" "a < (m :: int)"
  shows "(let r = a - b in if r < 0 then r + m else r) = (a - b) mod m"
proof (cases "a - b < 0")
  case True
  then have "(a - b) mod m = (a - b + m) mod m" by simp
  also have "\<dots> = a - b + m" using True assms by (intro mod_pos_pos_trivial) auto
  finally show ?thesis using True by (simp add: Let_def)
next
  case False
  then show ?thesis using assms by (simp add: Let_def)
qed

lemma am_modulus_rx_mod:
  "am_sn_ok e a \<Longrightarrow> am_modulus_rx e a = (a - am_rx_next e) mod am_sn_modulus e"
  unfolding am_modulus_rx_def by (rule am_shift_mod) (simp_all add: am_sn_ok_def am_cfg_def)

lemma am_modulus_tx_mod:
  "am_sn_ok e a \<Longrightarrow> am_modulus_tx e a = (a - am_tx_next_ack e) mod am_sn_modulus e"
  unfolding am_modulus_tx_def by (rule am_shift_mod) (simp_all add: am_sn_ok_def am_cfg_def)

lemma shift_mod_inj:
  assumes "0 < m" "0 \<le> a" "a < m" "0 \<le> b" "b < m"
  shows "(a - c) mod m = (b - c) mod m \<longleftrightarrow> a = (b :: int)"
proof
  assume "(a - c) mod m = (b - c) mod m"
  then have "m dvd a - b" by (simp add: mod_eq_dvd_iff)
  then have "a - b = 0" using assms dvd_imp_le_int [of "a - b" m] by linarith
  then show "a = b" by simp
qed simp

interpretation am_rx: sn_window "am_sn_compare_rx e" "am_modulus_rx e" "am_sn_ok e" for e
proof
  show "am_sn_compare_rx e a b = am_modulus_rx e a - am_modulus_rx e b" for a b
    by (simp add: am_sn_compare_rx_def)
next
  fix a b
  assume "am_sn_ok e a" "am_sn_ok e b"
  then show "am_modulus_rx e a = am_modulus_rx e b \<longleftrightarrow> a = b"
    using am_cfg_modulus(1) [of e] by (simp add: am_modulus_rx_mod shift_mod_inj am_sn_ok_def)
qed

interpretation am_tx: sn_window "am_sn_compare_tx e" "am_modulus_tx e" "am_sn_ok e" for e
proof
  show "am_sn_compare_tx e a b = am_modulus_tx e a - am_modulus_tx e b" for a b
    by (simp add: am_sn_compare_tx_def)
next
  fix a b
  assume "am_sn_ok e a" "am_sn_ok e b"
  then show "am_modulus_tx e a = am_modulus_tx e b \<longleftrightarrow> a = b"
    using am_cfg_modulus(1) [of e] by (simp add: am_modulus_tx_mod shift_mod_inj am_sn_ok_def)
qed

subsection \<open>Segments already received\<close>

lemma already_received_sound:
  assumes "already_received_loop l sn so sz" "so \<le> i" "i < so + sz"
  shows "received l sn i"
  using assms
proof (induction l sn so sz rule: already_received_loop.induct)
  case (1 sn so sz)
  then show ?case by simp
next
  case (2 p l sn so sz)
  have pos: "sz > 0" using 2(6,7) by simp
  have tl: "received l sn i \<Longrightarrow> received (p # l) sn i" by (auto simp: received_def)
  consider (a) "pdu_sn p = sn" "pdu_so p \<le> so \<and> so < pdu_so p + pdu_size p"
    | (b) "pdu_sn p = sn" "\<not> (pdu_so p \<le> so \<and> so < pdu_so p + pdu_size p)"
          "pdu_so p \<le> so + sz - 1 \<and> so + sz - 1 < pdu_so p + pdu_size p"
    | (c) "pdu_sn p = sn" "\<not> (pdu_so p \<le> so \<and> so < pdu_so p + pdu_size p)"
          "\<not> (pdu_so p \<le> so + sz - 1 \<and> so + sz - 1 < pdu_so p + pdu_size p)"
    | (d) "pdu_sn p \<noteq> sn" by blast
  then show ?case
  proof cases
    case a
    show ?thesis
    proof (cases "i < pdu_so p + pdu_size p")
      case True
      then show ?thesis using a 2(6) by (auto simp: received_def)
    next
      case False
      then show ?thesis using 2(1) [of "pdu_size p - (so - pdu_so p)"] a pos 2(5,7) tl by (simp add: Let_def)
    qed
  next
    case b
    show ?thesis
    proof (cases "pdu_so p \<le> i")
      case True
      then show ?thesis using b 2(7) by (auto simp: received_def)
    next
      case False
      then show ?thesis using 2(2) [of "sz - (pdu_so p - so)"] b pos 2(5,6) tl by (simp add: Let_def)
    qed
  next
    case c
    then show ?thesis using 2(3) pos 2(5-7) tl by auto
  next
    case d
    then show ?thesis using 2(4) pos 2(5-7) tl by auto
  qed
qed

text \<open>For a list sorted by offset the test is complete, too.\<close>

lemma already_received_complete:
  assumes "sorted (map pdu_so (filter (\<lambda>p. pdu_sn p = sn) l))"
    and "\<forall>i. so \<le> i \<and> i < so + sz \<longrightarrow> received l sn i"
  shows "already_received_loop l sn so sz"
  using assms
proof (induction l sn so sz rule: already_received_loop.induct)
  case (1 sn so sz)
  then show ?case by (force simp: received_def)
next
  case (2 p l sn so sz)
  show ?case
  proof (cases "sz > 0 \<and> pdu_sn p = sn")
    case False
    then show ?thesis
      using 2(4) 2(5,6) by (auto simp: received_def)
  next
    case True
    note t = True
    show ?thesis
    proof (cases "pdu_so p \<le> so \<and> so < pdu_so p + pdu_size p")
      case True
      define c where "c = pdu_size p - (so - pdu_so p)"
      have "\<forall>i. so + c \<le> i \<and> i < so + c + (sz - c) \<longrightarrow> received l sn i"
      proof (intro allI impI)
        fix i assume i: "so + c \<le> i \<and> i < so + c + (sz - c)"
        then have "received (p # l) sn i" using 2(6) True by (simp add: c_def)
        then show "received l sn i" using i by (auto simp: received_def c_def)
      qed
      then show ?thesis using 2(1) [of c] t True 2(5) by (simp add: c_def Let_def)
    next
      case False
      have r: "received (p # l) sn so" using 2(6) t by simp
      then obtain q where q: "q \<in> set l" "pdu_sn q = sn" "pdu_so q \<le> so"
        using False by (auto simp: received_def)
      then have "pdu_so p \<le> pdu_so q" using 2(5) t by auto
      then have gone: "pdu_so p + pdu_size p \<le> so" using False q by linarith
      then have nb: "\<not> (pdu_so p \<le> so + sz - 1 \<and> so + sz - 1 < pdu_so p + pdu_size p)"
        using t by linarith
      have "\<forall>i. so \<le> i \<and> i < so + sz \<longrightarrow> received l sn i"
        using 2(6) gone by (fastforce simp: received_def)
      then show ?thesis using 2(3) t False nb 2(5) by auto
    qed
  qed
qed

subsection \<open>Receive lists of genuine pieces\<close>

text \<open>
  Sequence numbers are those of SDUs \<open>n\<close> counted from the start of the connection, taken modulo \<open>m\<close>;
  \<open>N\<close> is the number of the SDU that \<open>rx_next\<close> stands for.  \<open>sn_num m N x\<close> is the number of the SDU
  that sequence number \<open>x\<close> then stands for.
\<close>

definition sn_num :: "int \<Rightarrow> int \<Rightarrow> int \<Rightarrow> int" where
  "sn_num m N x = N + (x - N) mod m"

definition shape :: "bytes \<Rightarrow> nr_rlc_pdu \<Rightarrow> bool" where
  "shape s p \<longleftrightarrow> 0 \<le> pdu_so p \<and> 0 < pdu_size p \<and> pdu_so p + pdu_size p \<le> int (length s) \<and>
     (pdu_is_last p \<longleftrightarrow> pdu_so p + pdu_size p = int (length s)) \<and>
     (case pdu_data p of None \<Rightarrow> True | Some d \<Rightarrow> d = take (nat (pdu_size p)) (drop (nat (pdu_so p)) s))"

definition rank_from :: "int \<Rightarrow> int \<Rightarrow> nr_rlc_pdu \<Rightarrow> int \<times> int" where
  "rank_from m N p = ((pdu_sn p - N) mod m, pdu_so p)"

definition rx_member :: "(int \<Rightarrow> bytes) \<Rightarrow> int \<Rightarrow> int \<Rightarrow> int \<Rightarrow> nr_rlc_pdu \<Rightarrow> bool" where
  "rx_member S m w N p \<longleftrightarrow> 0 \<le> pdu_sn p \<and> pdu_sn p < m \<and> (pdu_sn p - N) mod m < w \<and>
     shape (S (sn_num m N (pdu_sn p))) p"

definition covered :: "(int \<Rightarrow> bytes) \<Rightarrow> int \<Rightarrow> int \<Rightarrow> nr_rlc_pdu list \<Rightarrow> int \<Rightarrow> bool" where
  "covered S m N l x \<longleftrightarrow> (\<forall>i. 0 \<le> i \<and> i < int (length (S (sn_num m N x))) \<longrightarrow> received l x i)"

text \<open>The receive list: PDUs of the window, in order; the SDUs of which every byte is there, and only
  those, have been delivered.\<close>

definition rx_list_ok :: "(int \<Rightarrow> bytes) \<Rightarrow> int \<Rightarrow> int \<Rightarrow> int \<Rightarrow> nr_rlc_pdu list \<Rightarrow> bool" where
  "rx_list_ok S m w N l \<longleftrightarrow> (\<forall>p\<in>set l. rx_member S m w N p) \<and> sorted (map (rank_from m N) l) \<and>
     (\<forall>p\<in>set l. pdu_data p = None \<longleftrightarrow> covered S m N l (pdu_sn p))"

text \<open>What the entity has got so far, as a set of bytes.\<close>

definition am_bytes :: "(int \<Rightarrow> bytes) \<Rightarrow> int \<Rightarrow> int \<Rightarrow> nr_rlc_pdu list \<Rightarrow> (int \<times> int) set" where
  "am_bytes S m N l = {(n, i). 0 \<le> i \<and> i < int (length (S n)) \<and>
     (n < N \<or> N \<le> n \<and> n < N + m \<and> received l (n mod m) i)}"

definition all_bytes :: "(int \<Rightarrow> bytes) \<Rightarrow> (int \<times> int) set \<Rightarrow> int \<Rightarrow> bool" where
  "all_bytes S H n \<longleftrightarrow> (\<forall>i. 0 \<le> i \<and> i < int (length (S n)) \<longrightarrow> (n, i) \<in> H)"

definition num_ok :: "int \<Rightarrow> int \<Rightarrow> bool" where
  "num_ok m a \<longleftrightarrow> 0 < m \<and> 0 \<le> a \<and> a < m"

interpretation nums: sn_window "\<lambda>a b. (a - N) mod m - (b - N) mod m" "\<lambda>a. (a - N) mod m" "num_ok m" for N m :: int
  by unfold_locales (auto simp: shift_mod_inj num_ok_def)

lemma rank_from_nums: "nums.pdu_rank N m = rank_from m N"
  by (simp add: fun_eq_iff nums.pdu_rank_def rank_from_def)

lemma shape_piece: "shape s p \<and> pdu_data p \<noteq> None \<longleftrightarrow> piece_of s p"
  by (auto simp: shape_def piece_of_def)

lemma rx_list_ok_member: "rx_list_ok S m w N l \<Longrightarrow> p \<in> set l \<Longrightarrow> rx_member S m w N p"
  by (simp add: rx_list_ok_def)

lemma rx_list_ok_data:
  "rx_list_ok S m w N l \<Longrightarrow> p \<in> set l \<Longrightarrow> pdu_data p = None \<longleftrightarrow> covered S m N l (pdu_sn p)"
  by (simp add: rx_list_ok_def)

lemma sn_num_mod:
  assumes "N \<le> n" "n < N + m"
  shows "sn_num m N (n mod m) = n"
proof -
  have "(n mod m - N) mod m = (n - N) mod m" by (simp add: mod_simps)
  then show ?thesis using assms by (simp add: sn_num_def)
qed

lemma mod_window:
  assumes "N \<le> n" "n < N + (m :: int)"
  shows "(n mod m - N) mod m = n - N"
  using sn_num_mod [OF assms] by (simp add: sn_num_def)

lemma am_bytes_covered:
  assumes "N \<le> n" "n < N + m"
  shows "all_bytes S (am_bytes S m N l) n \<longleftrightarrow> covered S m N l (n mod m)"
  using assms by (auto simp: all_bytes_def am_bytes_def covered_def sn_num_mod)

lemma am_bytes_below: "n < N \<Longrightarrow> all_bytes S (am_bytes S m N l) n"
  by (simp add: all_bytes_def am_bytes_def)

lemma received_insert:
  "set l1 = insert q (set l) \<Longrightarrow> received l1 x i \<longleftrightarrow>
     received l x i \<or> (x = pdu_sn q \<and> pdu_so q \<le> i \<and> i < pdu_so q + pdu_size q)"
  by (auto simp: received_def)

lemma covered_insert:
  assumes "set l1 = insert q (set l)"
  shows "x \<noteq> pdu_sn q \<Longrightarrow> covered S m N l1 x = covered S m N l x"
    and "covered S m N l x \<Longrightarrow> covered S m N l1 x"
  using received_insert [OF assms] by (auto simp: covered_def)

subsection \<open>Accepting a segment\<close>

definition clear_one :: "int \<Rightarrow> nr_rlc_pdu \<Rightarrow> nr_rlc_pdu" where
  "clear_one x p = (if pdu_sn p = x then am_clear_pdu p else p)"

definition clear_sn :: "int \<Rightarrow> nr_rlc_pdu list \<Rightarrow> nr_rlc_pdu list" where
  "clear_sn x l = map (clear_one x) l"

lemma clear_one_fields [simp]:
  "pdu_sn (clear_one x p) = pdu_sn p" "pdu_so (clear_one x p) = pdu_so p"
  "pdu_size (clear_one x p) = pdu_size p"
  "shape s p \<Longrightarrow> shape s (clear_one x p)" "rank_from m N (clear_one x p) = rank_from m N p"
  "(pdu_data (clear_one x p) = None) = (pdu_sn p = x \<or> pdu_data p = None)"
  by (auto simp: clear_one_def am_clear_pdu_def shape_def rank_from_def)

lemma received_clear_sn [simp]: "received (clear_sn x l) y i = received l y i"
  by (simp add: received_def clear_sn_def)

lemma covered_clear_sn [simp]: "covered S m N (clear_sn x l) y = covered S m N l y"
  by (simp add: covered_def)

lemma am_bytes_clear_sn [simp]: "am_bytes S m N (clear_sn x l) = am_bytes S m N l"
  by (simp add: am_bytes_def)

definition accept_list :: "(int \<Rightarrow> bytes) \<Rightarrow> int \<Rightarrow> int \<Rightarrow> int \<Rightarrow> nr_rlc_pdu list \<Rightarrow> nr_rlc_pdu list" where
  "accept_list S m N x l1 = (if covered S m N l1 x then clear_sn x l1 else l1)"

lemma accept_list_set:
  assumes "p' \<in> set (accept_list S m N x l1)"
  obtains p where "p \<in> set l1" "p' = p \<or> p' = clear_one x p"
    "pdu_data p' = None \<longleftrightarrow> pdu_data p = None \<or> pdu_sn p = x \<and> covered S m N l1 x"
proof (cases "covered S m N l1 x")
  case True
  then obtain p where "p \<in> set l1" "p' = clear_one x p"
    using assms by (auto simp: accept_list_def clear_sn_def)
  then show ?thesis using True by (intro that [of p]) auto
next
  case False
  then show ?thesis using that [of p'] assms by (simp add: accept_list_def)
qed

lemma rx_list_ok_accept:
  assumes ok: "rx_list_ok S m w N l" and l1: "set l1 = insert q (set l)" "sorted (map (rank_from m N) l1)"
    and q: "rx_member S m w N q" "pdu_data q \<noteq> None" and new: "\<not> covered S m N l (pdu_sn q)"
  shows "rx_list_ok S m w N (accept_list S m N (pdu_sn q) l1)" (is "rx_list_ok _ _ _ _ ?l2")
proof -
  let ?x = "pdu_sn q"
  have cov: "covered S m N ?l2 y = covered S m N l1 y" for y by (simp add: accept_list_def)
  have mem: "rx_member S m w N p" if "p \<in> set l1" for p
    using that l1(1) q(1) rx_list_ok_member [OF ok] by auto
  have none: "pdu_data p = None \<longleftrightarrow> pdu_sn p \<noteq> ?x \<and> covered S m N l1 (pdu_sn p)" if "p \<in> set l1" for p
  proof (cases "p \<in> set l")
    case True
    then show ?thesis
      using rx_list_ok_data [OF ok True] covered_insert(1) [OF l1(1), of "pdu_sn p"] new by (cases "pdu_sn p = ?x") auto
  next
    case False
    then show ?thesis using that l1(1) q(2) by simp
  qed
  have "sorted (map (rank_from m N) ?l2)"
    using l1(2) by (simp add: accept_list_def clear_sn_def comp_def)
  moreover have "rx_member S m w N p' \<and> (pdu_data p' = None \<longleftrightarrow> covered S m N ?l2 (pdu_sn p'))"
    if p': "p' \<in> set ?l2" for p'
  proof -
    obtain p where p: "p \<in> set l1" "p' = p \<or> p' = clear_one ?x p"
        "pdu_data p' = None \<longleftrightarrow> pdu_data p = None \<or> pdu_sn p = ?x \<and> covered S m N l1 ?x"
      using p' by (rule accept_list_set)
    have "rx_member S m w N p'" using p(2) mem [OF p(1)] by (auto simp: rx_member_def)
    moreover have "pdu_sn p' = pdu_sn p" using p(2) by auto
    moreover have "(pdu_data p = None \<or> pdu_sn p = ?x \<and> covered S m N l1 ?x) \<longleftrightarrow> covered S m N l1 (pdu_sn p)"
      using none [OF p(1)] by metis
    ultimately show ?thesis using p(3) cov by simp
  qed
  ultimately show ?thesis by (simp add: rx_list_ok_def)
qed

lemma am_bytes_accept:
  assumes "set l1 = insert q (set l)" "N \<le> n" "n < N + m" "pdu_sn q = n mod m" "shape (S n) q"
  shows "am_bytes S m N (accept_list S m N x l1) =
     am_bytes S m N l \<union> {n} \<times> {pdu_so q ..< pdu_so q + pdu_size q}"
proof -
  have "k mod m = n mod m \<longleftrightarrow> k = n" if "N \<le> k" "k < N + m" for k
    using sn_num_mod [OF that] sn_num_mod [OF assms(2,3)] by metis
  then have "am_bytes S m N l1 = am_bytes S m N l \<union> {n} \<times> {pdu_so q ..< pdu_so q + pdu_size q}"
    using assms received_insert [OF assms(1)] by (auto simp: am_bytes_def shape_def)
  then show ?thesis by (simp add: accept_list_def)
qed

subsection \<open>Moving \<open>rx_next\<close>\<close>

lemma covered_filter: "y \<noteq> x \<Longrightarrow> covered S m N (filter (\<lambda>p. pdu_sn p \<noteq> x) l) y = covered S m N l y"
  by (auto simp: covered_def received_def)

lemma rx_list_ok_filter:
  assumes "rx_list_ok S m w N l"
  shows "rx_list_ok S m w N (filter (\<lambda>p. pdu_sn p \<noteq> x) l)"
  using assms by (simp add: rx_list_ok_def covered_filter sorted_filter)

lemma mod_pred:
  assumes "0 < m" "(a - N) mod m \<noteq> (0 :: int)"
  shows "(a - (N + 1)) mod m = (a - N) mod m - 1"
proof -
  have "(a - (N + 1)) mod m = ((a - N) mod m - 1) mod m" by (simp add: mod_simps algebra_simps)
  also have "\<dots> = (a - N) mod m - 1"
    using assms pos_mod_sign [OF assms(1), of "a - N"] pos_mod_bound [OF assms(1), of "a - N"]
    by (intro mod_pos_pos_trivial) linarith+
  finally show ?thesis .
qed

lemma shift_mod_0:
  assumes "0 \<le> a" "a < m" "(a - N) mod m = (0 :: int)"
  shows "a = N mod m"
proof -
  have "a mod m = N mod m" using assms(3) by (simp add: mod_eq_dvd_iff dvd_eq_mod_eq_0)
  then show ?thesis using assms by simp
qed

lemma rx_list_ok_next:
  assumes ok: "rx_list_ok S m w N l" and m: "0 < m" and none: "\<forall>p\<in>set l. pdu_sn p \<noteq> N mod m"
  shows "rx_list_ok S m w (N + 1) l"
proof -
  have nz: "(pdu_sn p - N) mod m \<noteq> 0" if "p \<in> set l" for p
    using shift_mod_0 [of "pdu_sn p" m N] rx_list_ok_member [OF ok that] none that by (auto simp: rx_member_def)
  note pred = mod_pred [OF m nz]
  have num: "sn_num m (N + 1) (pdu_sn p) = sn_num m N (pdu_sn p)" if "p \<in> set l" for p
    using pred [OF that] by (simp add: sn_num_def)
  have "sorted (map (rank_from m N) l)" using ok by (simp add: rx_list_ok_def)
  then have "sorted (map (rank_from m (N + 1)) l)"
    unfolding sorted_map
    by (rule sorted_wrt_mono_rel [rotated]) (use pred in \<open>auto simp: rank_from_def\<close>)
  moreover have "rx_member S m w (N + 1) p" if "p \<in> set l" for p
    using rx_list_ok_member [OF ok that] pred [OF that] num [OF that] by (simp add: rx_member_def)
  moreover have "pdu_data p = None \<longleftrightarrow> covered S m (N + 1) l (pdu_sn p)" if "p \<in> set l" for p
    using rx_list_ok_data [OF ok that] num [OF that] by (simp add: covered_def)
  ultimately show ?thesis by (simp add: rx_list_ok_def)
qed

lemma am_bytes_next:
  assumes m: "0 < m" and cov: "covered S m N l (N mod m)"
    and sh: "\<forall>p\<in>set l. pdu_sn p = N mod m \<longrightarrow> shape (S N) p"
    and l': "l' = filter (\<lambda>p. pdu_sn p \<noteq> N mod m) l"
  shows "am_bytes S m (N + 1) l' = am_bytes S m N l"
proof -
  have mod_eq: "k mod m = N mod m \<longleftrightarrow> k = N" if "N \<le> k" "k < N + m" for k
    using sn_num_mod [OF that] sn_num_mod [of N N m] m by (metis add_strict_increasing2 order.refl less_add_same_cancel1)
  have none: "\<not> received l' (N mod m) i" for i by (auto simp: received_def l')
  have other: "received l' y i = received l y i" if "y \<noteq> N mod m" for y i
    using that by (auto simp: received_def l')
  have at: "received l (N mod m) i" if "0 \<le> i" "i < int (length (S N))" for i
    using cov that sn_num_mod [of N N m] m by (simp add: covered_def)
  have "(n < N + 1 \<or> N + 1 \<le> n \<and> n < N + 1 + m \<and> received l' (n mod m) i) \<longleftrightarrow>
      (n < N \<or> N \<le> n \<and> n < N + m \<and> received l (n mod m) i)" if i: "0 \<le> i" "i < int (length (S n))" for n i
  proof -
    consider "n < N" | "n = N" | "N < n" "n < N + m" | "n = N + m" | "N + m < n" by linarith
    then show ?thesis
      by cases (use at i mod_eq [of n] none [of i] other [of "n mod m" i] m in auto)
  qed
  then show ?thesis unfolding am_bytes_def by blast
qed

lemma am_free_delivered_ok:
  assumes "rx_list_ok S m w N l" "0 < m"
  shows "\<exists>N' l'. am_free_delivered m l (N mod m) = (l', N' mod m) \<and> N \<le> N' \<and>
     rx_list_ok S m w N' l' \<and> am_bytes S m N' l' = am_bytes S m N l \<and>
     \<not> (\<exists>p\<in>set l'. pdu_sn p = N' mod m \<and> pdu_data p = None)"
proof -
  have "\<exists>N' l'. am_free_delivered m l x = (l', N' mod m) \<and> N \<le> N' \<and>
     rx_list_ok S m w N' l' \<and> am_bytes S m N' l' = am_bytes S m N l \<and>
     \<not> (\<exists>p\<in>set l'. pdu_sn p = N' mod m \<and> pdu_data p = None)" if "x = N mod m" for x
    using assms that
  proof (induction m l x arbitrary: N rule: am_free_delivered.induct)
    case (1 m x)
    then show ?case by (intro exI [of _ N] exI [of _ "[]"]) simp
  next
    case (2 m p ps x)
    have mem: "rx_member S m w N q" if "q \<in> set (p # ps)" for q using rx_list_ok_member [OF 2(2) that] .
    show ?case
    proof (cases "pdu_data p = None \<and> pdu_sn p = N mod m")
      case True
      let ?l = "filter (\<lambda>q. pdu_sn q \<noteq> N mod m) (p # ps)"
      have num: "num_ok m (N mod m)" using 2(3) by (simp add: num_ok_def)
      have srt: "sorted (map (nums.pdu_rank N m) (p # ps))"
        using 2(2) by (simp add: rank_from_nums rx_list_ok_def)
      have "nums.pdu_ok m q" if "q \<in> set (p # ps)" for q
        using 2(3) mem [OF that] by (simp add: nums.pdu_ok_def num_ok_def rx_member_def)
      then have oks: "\<forall>q\<in>set (p # ps). nums.pdu_ok m q" by blast
      from nums.takeWhile_sorted [OF srt oks num] have dw: "dropWhile (\<lambda>q. pdu_sn q = N mod m) (p # ps) = ?l"
        using 2(3) by (simp add: mod_simps)
      have l: "dropWhile (\<lambda>q. pdu_sn q = N mod m) ps = ?l" using dw True by simp
      have c: "c_rem (N mod m + 1) m = (N + 1) mod m" using 2(3) by (simp add: c_rem_nonneg mod_simps)
      have ok: "rx_list_ok S m w (N + 1) ?l"
        by (rule rx_list_ok_next [OF rx_list_ok_filter [OF 2(2)] 2(3)]) simp
      have bts: "am_bytes S m (N + 1) ?l = am_bytes S m N (p # ps)"
      proof (rule am_bytes_next [OF 2(3) _ _ refl])
        show "covered S m N (p # ps) (N mod m)" using rx_list_ok_data [OF 2(2), of p] True by simp
        show "\<forall>q\<in>set (p # ps). pdu_sn q = N mod m \<longrightarrow> shape (S N) q"
          using mem sn_num_mod [of N N m] 2(3) by (fastforce simp: rx_member_def)
      qed
      from 2(1) [of "N + 1"] True l c ok 2(3,4)
      obtain N' l' where "am_free_delivered m ?l ((N + 1) mod m) = (l', N' mod m)" "N + 1 \<le> N'"
          "rx_list_ok S m w N' l'" "am_bytes S m N' l' = am_bytes S m (N + 1) ?l"
          "\<not> (\<exists>q\<in>set l'. pdu_sn q = N' mod m \<and> pdu_data q = None)" by auto
      then show ?thesis
        using True l c bts 2(4) by (intro exI [of _ N'] exI [of _ l']) simp
    next
      case False
      have "\<not> (\<exists>q\<in>set (p # ps). pdu_sn q = N mod m \<and> pdu_data q = None)"
      proof
        assume "\<exists>q\<in>set (p # ps). pdu_sn q = N mod m \<and> pdu_data q = None"
        then obtain q where q: "q \<in> set (p # ps)" "pdu_sn q = N mod m" "pdu_data q = None" by blast
        have "rank_from m N p \<le> rank_from m N q" using 2(2) q(1) by (auto simp: rx_list_ok_def)
        then have "(pdu_sn p - N) mod m \<le> 0" using q(2) by (auto simp: rank_from_def mod_simps)
        then have "(pdu_sn p - N) mod m = 0" using pos_mod_sign [OF 2(3), of "pdu_sn p - N"] by linarith
        then have "pdu_sn p = pdu_sn q"
          using shift_mod_0 [of "pdu_sn p" m N] mem [of p] q(2) by (simp add: rx_member_def)
        then have "pdu_data p = None"
          using rx_list_ok_data [OF 2(2), of p] rx_list_ok_data [OF 2(2) q(1)] q(3) by simp
        then show False using False \<open>pdu_sn p = pdu_sn q\<close> q(2) by simp
      qed
      then show ?thesis using False 2(2,4) by (intro exI [of _ N] exI [of _ "p # ps"]) auto
    qed
  qed
  then show ?thesis by blast
qed

end
