(* ===== verification/Rlc_Am_Delivery.thy ===== *)
theory Rlc_Am_Delivery
  imports Rlc_Am_Rx
begin

text \<open>
  The receiving side of the RLC AM entity refines a set of bytes: a data PDU adds the bytes it
  carries, and an SDU is delivered at the moment its last missing byte arrives.
\<close>

subsection \<open>The invariant of the receiver\<close>

definition am_rx_inv :: "(int \<Rightarrow> bytes) \<Rightarrow> int \<Rightarrow> nr_rlc_entity_am \<Rightarrow> bool" where
  "am_rx_inv S N e \<longleftrightarrow> am_cfg e \<and> am_rx_next e = N mod am_sn_modulus e \<and>
     rx_list_ok S (am_sn_modulus e) (am_window_size e) N (am_rx_list e) \<and>
     \<not> covered S (am_sn_modulus e) N (am_rx_list e) (N mod am_sn_modulus e)"

definition am_rx_bytes :: "(int \<Rightarrow> bytes) \<Rightarrow> int \<Rightarrow> nr_rlc_entity_am \<Rightarrow> (int \<times> int) set" where
  "am_rx_bytes S N e = am_bytes S (am_sn_modulus e) N (am_rx_list e)"

text \<open>The bytes a receive list holds, and by how much \<open>rx_size\<close> differs from them.\<close>

definition held_bytes :: "nr_rlc_pdu list \<Rightarrow> int" where
  "held_bytes l = sum_list (map pdu_size (filter (\<lambda>p. pdu_data p \<noteq> None) l))"

definition am_slack :: "nr_rlc_entity_am \<Rightarrow> int" where
  "am_slack e = am_rx_size e - held_bytes (am_rx_list e)"

lemma held_bytes_simps [simp]:
  "held_bytes [] = 0"
  "held_bytes (p # l) = (if pdu_data p = None then 0 else pdu_size p) + held_bytes l"
  "held_bytes (l @ l') = held_bytes l + held_bytes l'"
  by (simp_all add: held_bytes_def)

lemma held_bytes_add [simp]: "held_bytes (nr_rlc_pdu_list_add cmp l q) = held_bytes (q # l)"
  by (induction cmp l q rule: nr_rlc_pdu_list_add.induct) auto

lemma held_bytes_clear:
  assumes "\<forall>p\<in>set l. pdu_sn p = x \<longrightarrow> pdu_data p \<noteq> None"
  shows "held_bytes (clear_sn x l) = held_bytes l - sum_list (map pdu_size (filter (\<lambda>p. pdu_sn p = x) l))"
  using assms by (induction l) (auto simp: clear_sn_def)

lemma held_bytes_dropWhile:
  "(\<forall>p\<in>set l. pdu_sn p = x \<longrightarrow> pdu_data p = None) \<Longrightarrow> held_bytes (dropWhile (\<lambda>p. pdu_sn p = x) l) = held_bytes l"
  by (induction l) auto

definition am_rx_same :: "nr_rlc_entity_am \<Rightarrow> nr_rlc_entity_am \<Rightarrow> bool" where
  "am_rx_same e' e \<longleftrightarrow> am_sn_modulus e' = am_sn_modulus e \<and> am_window_size e' = am_window_size e \<and>
     am_sn_field_length e' = am_sn_field_length e \<and> am_rx_maxsize e' = am_rx_maxsize e \<and> am_slack e' = am_slack e"

text \<open>The SDUs of a connection.\<close>

definition am_sdus_ok :: "(int \<Rightarrow> bytes) \<Rightarrow> bool" where
  "am_sdus_ok S \<longleftrightarrow> (\<forall>n. S n \<noteq> [] \<and> int (length (S n)) \<le> NR_SDU_MAX)"

text \<open>\<open>d\<close> is the part of the SDU that starts at offset \<open>so\<close>.\<close>

definition am_slice :: "bytes \<Rightarrow> int \<Rightarrow> bytes \<Rightarrow> bool \<Rightarrow> bool" where
  "am_slice s so d lst \<longleftrightarrow> 0 \<le> so \<and> d \<noteq> [] \<and> so + int (length d) \<le> int (length s) \<and>
     d = take (length d) (drop (nat so) s) \<and> (lst \<longleftrightarrow> so + int (length d) = int (length s))"

text \<open>The abstract receiver: the bytes after a segment and the SDU that it completes.\<close>

definition spec_bytes :: "bool \<Rightarrow> int \<Rightarrow> int \<Rightarrow> int \<Rightarrow> (int \<times> int) set \<Rightarrow> (int \<times> int) set" where
  "spec_bytes room n so len H = (if room then H \<union> {n} \<times> {so ..< so + len} else H)"

definition spec_events :: "(int \<Rightarrow> bytes) \<Rightarrow> int \<Rightarrow> (int \<times> int) set \<Rightarrow> (int \<times> int) set \<Rightarrow> rlc_event list" where
  "spec_events S n H H' = (if all_bytes S H' n \<and> \<not> all_bytes S H n then [DeliverSdu (S n)] else [])"

lemma am_cfg_fields [simp]:
  "am_cfg (e\<lparr>am_rx_list := l\<rparr>) = am_cfg e" "am_cfg (e\<lparr>am_rx_size := z\<rparr>) = am_cfg e"
  "am_cfg (e\<lparr>am_status_triggered := b\<rparr>) = am_cfg e" "am_cfg (e\<lparr>am_t_reassembly_start := t\<rparr>) = am_cfg e"
  by (simp_all add: am_cfg_def)

lemma am_rx_inv_status [simp]: "am_rx_inv S N (e\<lparr>am_status_triggered := b\<rparr>) = am_rx_inv S N e"
  by (simp add: am_rx_inv_def)

lemma am_rx_bytes_status [simp]: "am_rx_bytes S N (e\<lparr>am_status_triggered := b\<rparr>) = am_rx_bytes S N e"
  by (simp add: am_rx_bytes_def)

lemma am_rx_same_status [simp]: "am_rx_same (e\<lparr>am_status_triggered := b\<rparr>) e' = am_rx_same e e'"
  by (simp add: am_rx_same_def am_slack_def)

text \<open>Fields the timer handling of \<open>reception_actions\<close> may change.\<close>

lemma am_timers_rx:
  assumes "am_cfg e"
  defines "e' \<equiv> am_start_t_reassembly (am_stop_t_reassembly e)"
  shows "am_cfg e'" "am_rx_list e' = am_rx_list e" "am_rx_next e' = am_rx_next e" "am_rx_same e' e"
proof -
  show "am_rx_list e' = am_rx_list e" "am_rx_next e' = am_rx_next e" "am_rx_same e' e"
    by (simp_all add: e'_def am_start_t_reassembly_def am_stop_t_reassembly_def am_rx_same_def am_slack_def)
  have c1: "am_cfg (am_stop_t_reassembly e)" using assms by (simp add: am_stop_t_reassembly_def)
  show "am_cfg e'" unfolding e'_def using c1
    by (simp add: am_start_t_reassembly_def) (simp add: am_cfg_def)
qed

lemma am_rx_inv_timers:
  assumes "am_rx_inv S N e"
  defines "e' \<equiv> am_start_t_reassembly (am_stop_t_reassembly e)"
  shows "am_rx_inv S N e'" "am_rx_bytes S N e' = am_rx_bytes S N e" "am_rx_same e' e"
  using am_timers_rx [of e] assms by (simp_all add: am_rx_inv_def am_rx_bytes_def am_rx_same_def)

lemma am_discard_step:
  assumes "am_rx_inv S N e"
  shows "\<exists>e'. am_discard e p = Inr (e', []) \<and> am_rx_inv S N e' \<and> am_rx_bytes S N e' = am_rx_bytes S N e \<and> am_rx_same e' e"
  using assms by (simp add: am_discard_def am_rx_same_def am_slack_def)

lemma am_window_of:
  assumes "am_rx_inv S N e" "N - am_window_size e \<le> n" "n < N + am_window_size e"
  shows "am_sn_ok e (n mod am_sn_modulus e)"
    "am_sn_in_recv_window e (n mod am_sn_modulus e) \<longleftrightarrow> N \<le> n"
proof -
  have cfg: "am_cfg e" and nx: "am_rx_next e = N mod am_sn_modulus e" using assms(1) by (simp_all add: am_rx_inv_def)
  note m = am_cfg_modulus(1-3) [OF cfg]
  show ok: "am_sn_ok e (n mod am_sn_modulus e)" using cfg m by (simp add: am_sn_ok_def)
  have off: "am_modulus_rx e (n mod am_sn_modulus e) = (n - N) mod am_sn_modulus e"
    using am_modulus_rx_mod [OF ok] nx by (simp add: mod_simps)
  show "am_sn_in_recv_window e (n mod am_sn_modulus e) \<longleftrightarrow> N \<le> n"
  proof (cases "N \<le> n")
    case True
    then show ?thesis using off assms(3) m by (simp add: am_sn_in_recv_window_def)
  next
    case False
    have "(n - N) mod am_sn_modulus e = (n - N + am_sn_modulus e) mod am_sn_modulus e" by simp
    also have "\<dots> = n - N + am_sn_modulus e" using False assms(2) m by (intro mod_pos_pos_trivial) auto
    finally show ?thesis using off False assms(2) m by (simp add: am_sn_in_recv_window_def)
  qed
qed

lemma am_slice_shape:
  "am_slice s so d lst \<Longrightarrow> shape s (nr_rlc_new_pdu sn so fst_flag lst d)"
  by (simp add: am_slice_def shape_def nr_rlc_new_pdu_def)

text \<open>Insertion into the receive list.\<close>

lemma am_rx_insert:
  assumes inv: "am_rx_inv S N e" and n: "N \<le> n" "n < N + am_window_size e"
    and q: "pdu_sn q = n mod am_sn_modulus e" "shape (S n) q"
  defines "l1 \<equiv> nr_rlc_pdu_list_add (am_sn_compare_rx e) (am_rx_list e) q"
  shows "set l1 = insert q (set (am_rx_list e))" "sorted (map (rank_from (am_sn_modulus e) N) l1)"
    "rx_member S (am_sn_modulus e) (am_window_size e) N q"
proof -
  let ?m = "am_sn_modulus e"
  have cfg: "am_cfg e" and nx: "am_rx_next e = N mod ?m"
    and ok: "rx_list_ok S ?m (am_window_size e) N (am_rx_list e)" using inv by (simp_all add: am_rx_inv_def)
  note m = am_cfg_modulus(1-3) [OF cfg]
  have qok: "am_rx.pdu_ok e q" using q m cfg by (simp add: am_rx.pdu_ok_def am_sn_ok_def)
  have lok: "\<forall>p\<in>set (am_rx_list e). am_rx.pdu_ok e p"
    using rx_list_ok_member [OF ok] cfg by (auto simp: am_rx.pdu_ok_def am_sn_ok_def rx_member_def)
  have rk: "am_rx.pdu_rank e p = rank_from ?m N p" if "am_rx.pdu_ok e p" for p
    using that am_modulus_rx_mod [of e "pdu_sn p"] nx
    by (simp add: am_rx.pdu_ok_def am_rx.pdu_rank_def rank_from_def mod_simps)
  show st: "set l1 = insert q (set (am_rx_list e))"
    unfolding l1_def by (rule am_rx.pdus.set_add [OF qok lok])
  have eq: "map (am_rx.pdu_rank e) (am_rx_list e) = map (rank_from ?m N) (am_rx_list e)"
    using rk lok by (intro map_cong) auto
  have "sorted (map (am_rx.pdu_rank e) (am_rx_list e))" unfolding eq using ok by (simp add: rx_list_ok_def)
  from am_rx.pdus.sorted_add [OF qok lok this] have "sorted (map (am_rx.pdu_rank e) l1)" by (simp add: l1_def)
  moreover have "map (am_rx.pdu_rank e) l1 = map (rank_from ?m N) l1"
    using rk lok qok st by (intro map_cong) auto
  ultimately show "sorted (map (rank_from ?m N) l1)" by simp
  show "rx_member S ?m (am_window_size e) N q"
    using q n m mod_window [of N n ?m] sn_num_mod [of N n ?m] by (simp add: rx_member_def)
qed

text \<open>The check for a full SDU and its reassembly, on a list whose segments of this SDU are all there.\<close>

lemma am_full_new:
  assumes srt: "sorted (map (rank_from m N) l1)" and mem: "\<forall>p\<in>set l1. rx_member S m w N p" and m: "0 < m"
    and q: "q \<in> set l1" and fresh: "\<forall>p\<in>set l1. pdu_sn p = pdu_sn q \<longrightarrow> pdu_data p \<noteq> None"
    and len: "int (length (S (sn_num m N (pdu_sn q)))) \<le> NR_SDU_MAX"
  shows "sdu_full_list l1 (pdu_sn q) \<longleftrightarrow> covered S m N l1 (pdu_sn q)"
    and "covered S m N l1 (pdu_sn q) \<Longrightarrow>
      reassemble_and_deliver_list am_clear_pdu l1 z (pdu_sn q) =
        Inr (clear_sn (pdu_sn q) l1, z + held_bytes (clear_sn (pdu_sn q) l1) - held_bytes l1,
          [DeliverSdu (S (sn_num m N (pdu_sn q)))])"
proof -
  let ?x = "pdu_sn q" and ?s = "S (sn_num m N (pdu_sn q))"
  have srt': "sorted (map (nums.pdu_rank N m) l1)" using srt by (simp add: rank_from_nums)
  have ok: "\<forall>p\<in>set l1. nums.pdu_ok m p" and x: "num_ok m ?x"
    using mem q m by (simp_all add: nums.pdu_ok_def num_ok_def rx_member_def)
  note run = nums.run_of_filter(1) [OF srt' ok x]
  have ps: "\<forall>p\<in>set (run_of l1 ?x). piece_of ?s p"
    using mem fresh shape_piece [of ?s] by (fastforce simp: run rx_member_def)
  have ne: "run_of l1 ?x \<noteq> []" using q by (auto simp: run filter_empty_conv)
  have so: "sorted (map pdu_so (run_of l1 ?x))" using nums.sorted_so_run [OF srt'] by (simp add: run)
  show full: "sdu_full_list l1 ?x \<longleftrightarrow> covered S m N l1 ?x"
    using sdu_full_iff [OF ne ps so] by (auto simp: run covered_def received_def)
  assume "covered S m N l1 ?x"
  then have "sdu_full_list l1 ?x" using full by simp
  from reassemble_exact [OF this ps len, of am_clear_pdu z] nums.update_run [OF srt' ok x, of am_clear_pdu]
  show "reassemble_and_deliver_list am_clear_pdu l1 z ?x =
      Inr (clear_sn ?x l1, z + held_bytes (clear_sn ?x l1) - held_bytes l1, [DeliverSdu ?s])"
    using held_bytes_clear [OF fresh] by (simp add: run clear_sn_def clear_one_def [abs_def])
qed

text \<open>The rest of \<open>reception_actions\<close> when the SDU is full.\<close>

lemma am_skip_terminates:
  assumes "rx_list_ok S m w N l" "0 < w" "w < m" "0 \<le> x" "x < m"
  shows "\<exists>u. skip_delivered l m x = Inr u \<and> 0 \<le> u \<and> u < m"
proof -
  let ?t = "(N + w) mod m"
  have md: "(?t - N) mod m = w" using mod_window [of N "N + w" m] assms(2,3) by simp
  have "?t \<notin> pdu_sn ` set l" using rx_list_ok_member [OF assms(1)] md by (fastforce simp: rx_member_def)
  then have "\<not> sdu_delivered_list l ?t" using sdu_delivered_in by blast
  then show ?thesis
    using skip_delivered_terminates [of m x ?t l] skip_delivered_range [of m x l] assms(2-5)
    by (metis order.strict_trans pos_mod_bound pos_mod_sign)
qed

lemma uncovered_head:
  assumes "rx_list_ok S m w N l" "S N \<noteq> []" "0 < m"
    and "\<not> (\<exists>p\<in>set l. pdu_sn p = N mod m \<and> pdu_data p = None)"
  shows "\<not> covered S m N l (N mod m)"
proof
  assume c: "covered S m N l (N mod m)"
  then have "received l (N mod m) 0" using assms(2,3) sn_num_mod [of N N m] by (auto simp: covered_def)
  then obtain p where p: "p \<in> set l" "pdu_sn p = N mod m" by (auto simp: received_def)
  then show False using rx_list_ok_data [OF assms(1) p(1)] c assms(4) by auto
qed

lemma am_next_bound:
  assumes ok: "rx_list_ok S m w N l" and m: "0 < w" "w < m" and S: "S (N' - 1) \<noteq> []"
    and b: "am_bytes S m N' l' = am_bytes S m N l" and lt: "N < N'"
  shows "N' \<le> N + w"
proof -
  have "(N' - 1, 0) \<in> am_bytes S m N' l'" using S by (simp add: am_bytes_def)
  then have "N' - 1 < N + m" "received l ((N' - 1) mod m) 0" using lt unfolding b by (auto simp: am_bytes_def)
  then obtain p where p: "p \<in> set l" "pdu_sn p = (N' - 1) mod m" by (auto simp: received_def)
  then have "((N' - 1) mod m - N) mod m < w" using rx_list_ok_member [OF ok p(1)] by (simp add: rx_member_def)
  then show ?thesis using mod_window [of N "N' - 1" m] lt \<open>N' - 1 < N + m\<close> by simp
qed

text \<open>The part of the state the window and timer updates of an accepted segment leave alone.\<close>

definition am_list_at :: "(int \<Rightarrow> bytes) \<Rightarrow> int \<Rightarrow> nr_rlc_entity_am \<Rightarrow> nr_rlc_pdu list \<Rightarrow> bool" where
  "am_list_at S N e l \<longleftrightarrow> am_cfg e \<and> am_rx_next e = N mod am_sn_modulus e \<and>
     rx_list_ok S (am_sn_modulus e) (am_window_size e) N l"

lemma am_rx_inv_list_at:
  "am_rx_inv S N e \<longleftrightarrow> am_list_at S N e (am_rx_list e) \<and>
     \<not> covered S (am_sn_modulus e) N (am_rx_list e) (N mod am_sn_modulus e)"
  by (auto simp: am_rx_inv_def am_list_at_def)

lemma am_free_delivered_held:
  assumes "\<And>p q. p \<in> set l \<Longrightarrow> q \<in> set l \<Longrightarrow> pdu_sn p = pdu_sn q \<Longrightarrow> pdu_data p = None \<Longrightarrow> pdu_data q = None"
  shows "held_bytes (fst (am_free_delivered m l x)) = held_bytes l"
  using assms
proof (induction m l x rule: am_free_delivered.induct)
  case (2 m p ps x)
  have sub: "set (dropWhile (\<lambda>q. pdu_sn q = x) ps) \<subseteq> set ps" using set_dropWhileD by fast
  show ?case
  proof (cases "pdu_data p = None \<and> pdu_sn p = x")
    case True
    have "held_bytes (dropWhile (\<lambda>q. pdu_sn q = x) ps) = held_bytes ps"
    proof (rule held_bytes_dropWhile, intro ballI impI)
      show "pdu_data q = None" if "q \<in> set ps" "pdu_sn q = x" for q using 2(2) [of p q] True that by simp
    qed
    moreover have "held_bytes (fst (am_free_delivered m (dropWhile (\<lambda>q. pdu_sn q = x) ps) (c_rem (x + 1) m))) =
        held_bytes (dropWhile (\<lambda>q. pdu_sn q = x) ps)"
    proof (rule 2(1) [OF True])
      fix a b
      assume "a \<in> set (dropWhile (\<lambda>q. pdu_sn q = x) ps)" "b \<in> set (dropWhile (\<lambda>q. pdu_sn q = x) ps)"
      then have "a \<in> set (p # ps)" "b \<in> set (p # ps)" using sub by auto
      then show "pdu_sn a = pdu_sn b \<Longrightarrow> pdu_data a = None \<Longrightarrow> pdu_data b = None" by (rule 2(2))
    qed
    ultimately show ?thesis using True by simp
  next
    case False
    then show ?thesis by auto
  qed
qed simp

lemma am_move_rx_next:
  assumes at: "am_list_at S N e (am_rx_list e)" and S: "am_sdus_ok S"
    and x: "x \<noteq> am_rx_next e \<Longrightarrow> \<not> covered S (am_sn_modulus e) N (am_rx_list e) (N mod am_sn_modulus e)"
  defines "e' \<equiv> (if x = am_rx_next e
            then let (l, n) = am_free_delivered (am_sn_modulus e) (am_rx_list e) (am_rx_next e)
                 in e\<lparr>am_rx_list := l, am_rx_next := n\<rparr>
            else e)"
  shows "\<exists>N'. am_rx_inv S N' e' \<and> N \<le> N' \<and> N' \<le> N + am_window_size e \<and>
     am_rx_bytes S N' e' = am_rx_bytes S N e \<and> am_rx_same e' e"
proof -
  let ?m = "am_sn_modulus e" and ?w = "am_window_size e"
  have cfg: "am_cfg e" and nx: "am_rx_next e = N mod ?m" and ok: "rx_list_ok S ?m ?w N (am_rx_list e)"
    using at by (simp_all add: am_list_at_def)
  have m: "0 < ?m" "0 < ?w" "?w < ?m" using am_cfg_modulus(1-3) [OF cfg] by auto
  show ?thesis
  proof (cases "x = am_rx_next e")
    case False
    then have "e' = e" by (simp add: e'_def)
    then show ?thesis using False x at m(2) by (intro exI [of _ N]) (simp add: am_rx_inv_list_at am_rx_same_def)
  next
    case True
    obtain N' l' where f: "am_free_delivered ?m (am_rx_list e) (N mod ?m) = (l', N' mod ?m)" "N \<le> N'"
        "rx_list_ok S ?m ?w N' l'" "am_bytes S ?m N' l' = am_bytes S ?m N (am_rx_list e)"
        "\<not> (\<exists>p\<in>set l'. pdu_sn p = N' mod ?m \<and> pdu_data p = None)"
      using am_free_delivered_ok [OF ok m(1)] by blast
    have "held_bytes (fst (am_free_delivered ?m (am_rx_list e) (N mod ?m))) = held_bytes (am_rx_list e)"
    proof (rule am_free_delivered_held)
      show "pdu_data q = None" if "p \<in> set (am_rx_list e)" "q \<in> set (am_rx_list e)" "pdu_sn p = pdu_sn q" "pdu_data p = None" for p q
        using rx_list_ok_data [OF ok that(1)] rx_list_ok_data [OF ok that(2)] that(3,4) by simp
    qed
    then have held: "held_bytes l' = held_bytes (am_rx_list e)" by (simp add: f(1))
    have e': "e' = e\<lparr>am_rx_list := l', am_rx_next := N' mod ?m\<rparr>" using True f(1) nx by (simp add: e'_def)
    have ne: "S k \<noteq> []" for k using S by (simp add: am_sdus_ok_def)
    have "\<not> covered S ?m N' l' (N' mod ?m)" by (rule uncovered_head [OF f(3) ne m(1) f(5)])
    moreover have "am_cfg e'" using cfg m(1) unfolding e' by (simp add: am_cfg_def)
    ultimately have "am_rx_inv S N' e'" using f(3) by (simp add: am_rx_inv_def e')
    moreover have "N' \<le> N + ?w"
      using am_next_bound [OF ok m(2,3) ne f(4)] f(2) m(2) by (cases "N < N'") auto
    ultimately show ?thesis using f held by (intro exI [of _ N']) (simp add: am_rx_bytes_def e' am_rx_same_def am_slack_def)
  qed
qed

lemma am_sdu_received_step:
  assumes at: "am_list_at S N e (clear_sn x (am_rx_list e))" and S: "am_sdus_ok S"
    and x: "x \<noteq> am_rx_next e \<Longrightarrow> \<not> covered S (am_sn_modulus e) N (am_rx_list e) (N mod am_sn_modulus e)"
    and reas: "reassemble_and_deliver_list am_clear_pdu (am_rx_list e) (am_rx_size e) x =
        Inr (clear_sn x (am_rx_list e), am_slack e + held_bytes (clear_sn x (am_rx_list e)), evs)"
  shows "\<exists>N' e'. am_sdu_received e x = Inr (e', evs) \<and> am_rx_inv S N' e' \<and> N \<le> N' \<and> N' \<le> N + am_window_size e \<and>
     am_rx_bytes S N' e' = am_rx_bytes S N e \<and> am_rx_same e' e"
proof -
  let ?m = "am_sn_modulus e" and ?w = "am_window_size e" and ?l = "clear_sn x (am_rx_list e)"
  define e1 where "e1 = e\<lparr>am_rx_list := ?l, am_rx_size := am_slack e + held_bytes ?l\<rparr>"
  have cfg: "am_cfg e" and ok: "rx_list_ok S ?m ?w N ?l" using at by (simp_all add: am_list_at_def)
  have m: "0 < ?w" "?w < ?m" using am_cfg_modulus(1-3) [OF cfg] by auto
  obtain u where u: "skip_delivered ?l ?m (am_rx_highest_status e) = Inr u" "0 \<le> u" "u < ?m"
    using am_skip_terminates [OF ok m] am_cfg_range [OF cfg] by blast
  define e2 where "e2 = (if x = am_rx_highest_status e1 then e1\<lparr>am_rx_highest_status := u\<rparr> else e1)"
  have "am_cfg (e1\<lparr>am_rx_highest_status := u\<rparr>)" "am_cfg e1"
    using cfg u(2,3) by (simp_all add: e1_def am_cfg_def)
  then have at2: "am_list_at S N e2 (am_rx_list e2)"
    using at by (auto simp: am_list_at_def e2_def e1_def)
  have x2: "\<not> covered S (am_sn_modulus e2) N (am_rx_list e2) (N mod am_sn_modulus e2)" if "x \<noteq> am_rx_next e2"
    using that x by (simp add: e2_def e1_def split: if_splits)
  have same: "am_rx_same e2 e" "am_window_size e2 = ?w" "am_rx_bytes S N e2 = am_rx_bytes S N e"
    by (simp_all add: am_rx_same_def am_slack_def e2_def e1_def am_rx_bytes_def)
  have r1: "am_reassemble_and_deliver e x = Inr (e1, evs)"
    using reas by (simp add: am_reassemble_and_deliver_def e1_def)
  have r2: "(if x = am_rx_highest_status e1
      then bnd (skip_delivered (am_rx_list e1) (am_sn_modulus e1) (am_rx_highest_status e1))
             (\<lambda>s. Inr (e1\<lparr>am_rx_highest_status := s\<rparr>)) else Inr e1) = Inr e2"
    using u(1) by (auto simp: e2_def e1_def)
  have "am_sdu_received e x = Inr (if x = am_rx_next e2
            then let (l, n) = am_free_delivered (am_sn_modulus e2) (am_rx_list e2) (am_rx_next e2)
                 in e2\<lparr>am_rx_list := l, am_rx_next := n\<rparr> else e2, evs)"
    unfolding am_sdu_received_def r1 bnd_Inr prod.case r2 by simp
  then show ?thesis using am_move_rx_next [OF at2 S x2] same by (auto simp: am_rx_same_def)
qed

lemma am_accept_step:
  assumes inv: "am_rx_inv S N e" and S: "am_sdus_ok S" and n: "N \<le> n" "n < N + am_window_size e"
    and q: "pdu_sn q = n mod am_sn_modulus e" "shape (S n) q" "pdu_data q \<noteq> None"
    and new: "\<not> covered S (am_sn_modulus e) N (am_rx_list e) (n mod am_sn_modulus e)"
  defines "e2 \<equiv> e\<lparr>am_rx_size := am_rx_size e + pdu_size q, am_rx_list := nr_rlc_pdu_list_add (am_sn_compare_rx e) (am_rx_list e) q\<rparr>"
    and "H \<equiv> am_rx_bytes S N e"
    and "H' \<equiv> am_rx_bytes S N e \<union> {n} \<times> {pdu_so q ..< pdu_so q + pdu_size q}"
  shows "\<exists>N' e'. am_reception_actions e2 q = Inr (e', spec_events S n H H') \<and> am_rx_inv S N' e' \<and>
     N \<le> N' \<and> N' \<le> N + am_window_size e \<and> am_rx_bytes S N' e' = H' \<and> am_rx_same e' e"
proof -
  let ?m = "am_sn_modulus e" and ?w = "am_window_size e" and ?x = "n mod am_sn_modulus e"
  let ?l = "am_rx_list e" and ?l1 = "nr_rlc_pdu_list_add (am_sn_compare_rx e) (am_rx_list e) q"
  have cfg: "am_cfg e" and nx: "am_rx_next e = N mod ?m" and ok: "rx_list_ok S ?m ?w N ?l"
    and head: "\<not> covered S ?m N ?l (N mod ?m)" using inv by (simp_all add: am_rx_inv_def)
  note m = am_cfg_modulus(1-3) [OF cfg]
  have nm: "n < N + ?m" using n m by simp
  note ins = am_rx_insert [OF inv n q(1,2)]
  have ok2: "rx_list_ok S ?m ?w N (accept_list S ?m N ?x ?l1)"
    using rx_list_ok_accept [OF ok ins(1,2,3) q(3)] new q(1) by simp
  have H': "am_bytes S ?m N (accept_list S ?m N ?x ?l1) = H'"
    using am_bytes_accept [where S = S, OF ins(1) n(1) nm q(1,2)] by (simp add: H'_def am_rx_bytes_def)
  have H1: "am_bytes S ?m N ?l1 = H'" using H' by (simp add: accept_list_def split: if_splits)
  have evs: "spec_events S n H H' = (if covered S ?m N ?l1 ?x then [DeliverSdu (S n)] else [])"
    using am_bytes_covered [OF n(1) nm, of S] new
    by (simp add: spec_events_def H_def am_rx_bytes_def flip: H1)
  have mem: "\<forall>p\<in>set ?l1. rx_member S ?m ?w N p" using ins(1,3) rx_list_ok_member [OF ok] by simp
  have fresh: "\<forall>p\<in>set ?l1. pdu_sn p = pdu_sn q \<longrightarrow> pdu_data p \<noteq> None"
  proof -
    have "pdu_data p \<noteq> None" if "p \<in> set ?l" "pdu_sn p = ?x" for p
      using rx_list_ok_data [OF ok that(1)] that(2) new by simp
    then show ?thesis using ins(1) q(1,3) by simp
  qed
  have num: "sn_num ?m N ?x = n" by (rule sn_num_mod [OF n(1) nm])
  have len: "int (length (S (sn_num ?m N (pdu_sn q)))) \<le> NR_SDU_MAX" using S by (simp add: am_sdus_ok_def)
  have ql: "q \<in> set ?l1" using ins(1) by simp
  note full = am_full_new [OF ins(2) mem m(1) ql fresh len]
  define e3 where "e3 = (if am_sn_compare_rx e2 ?x (am_rx_next_highest e2) \<ge> 0
                then e2\<lparr>am_rx_next_highest := c_rem (?x + 1) (am_sn_modulus e2)\<rparr> else e2)"
  have cr: "c_rem (?x + 1) ?m = (?x + 1) mod ?m" using m by (simp add: c_rem_nonneg)
  have c2: "am_cfg e2" using cfg by (simp add: e2_def)
  have "am_cfg (e2\<lparr>am_rx_next_highest := (?x + 1) mod ?m\<rparr>)"
    using c2 m(1) by (simp add: am_cfg_def e2_def)
  then have c3: "am_cfg e3" using c2 cr by (auto simp: e3_def e2_def)
  have f3: "am_rx_list e3 = ?l1" "am_rx_next e3 = N mod ?m" "am_sn_modulus e3 = ?m" "am_window_size e3 = ?w"
      "am_rx_same e3 e"
    using nx q(3) by (auto simp: e3_def e2_def am_rx_same_def am_slack_def)
  have "\<exists>N' e4. (if am_sdu_full e3 ?x then am_sdu_received e3 ?x else Inr (e3, [])) =
      Inr (e4, spec_events S n H H') \<and> am_rx_inv S N' e4 \<and> N \<le> N' \<and> N' \<le> N + ?w \<and>
      am_rx_bytes S N' e4 = H' \<and> am_rx_same e4 e"
  proof (cases "covered S ?m N ?l1 ?x")
    case True
    have at: "am_list_at S N e3 (clear_sn ?x (am_rx_list e3))"
      using c3 f3 ok2 True by (simp add: am_list_at_def accept_list_def)
    have "\<not> covered S (am_sn_modulus e3) N (am_rx_list e3) (N mod am_sn_modulus e3)" if "?x \<noteq> am_rx_next e3"
      using that f3 covered_insert(1) [OF ins(1), of "N mod ?m"] q(1) head by simp
    moreover have "reassemble_and_deliver_list am_clear_pdu (am_rx_list e3) (am_rx_size e3) ?x =
        Inr (clear_sn ?x (am_rx_list e3), am_slack e3 + held_bytes (clear_sn ?x (am_rx_list e3)), [DeliverSdu (S n)])"
      using full(2) [of "am_rx_size e3"] True q(1) num f3(1) by (simp add: am_slack_def)
    ultimately obtain N' e4 where "am_sdu_received e3 ?x = Inr (e4, [DeliverSdu (S n)])" "am_rx_inv S N' e4"
        "N \<le> N'" "N' \<le> N + ?w" "am_rx_bytes S N' e4 = am_rx_bytes S N e3" "am_rx_same e4 e3"
      using am_sdu_received_step [OF at S] f3(4) by auto
    then show ?thesis
      using True evs full(1) q(1) f3 H1
      by (intro exI [of _ N'] exI [of _ e4]) (auto simp: am_sdu_full_def am_rx_bytes_def am_rx_same_def)
  next
    case False
    have "\<not> covered S ?m N ?l1 (N mod ?m)"
      using False head covered_insert(1) [OF ins(1), of "N mod ?m"] q(1) by (cases "N mod ?m = ?x") auto
    then have "am_rx_inv S N e3" using c3 f3 ok2 False by (simp add: am_rx_inv_def accept_list_def)
    then show ?thesis
      using False evs full(1) q(1) f3 H1 m
      by (intro exI [of _ N] exI [of _ e3]) (auto simp: am_sdu_full_def am_rx_bytes_def)
  qed
  then obtain N' e4 where e4: "(if am_sdu_full e3 ?x then am_sdu_received e3 ?x else Inr (e3, [])) =
      Inr (e4, spec_events S n H H')" "am_rx_inv S N' e4" "N \<le> N'" "N' \<le> N + ?w"
      "am_rx_bytes S N' e4 = H'" "am_rx_same e4 e" by blast
  have "am_reception_actions e2 q = Inr (am_start_t_reassembly (am_stop_t_reassembly e4), spec_events S n H H')"
    unfolding am_reception_actions_def Let_def q(1) e3_def [symmetric] e4(1) by simp
  then show ?thesis
    using am_rx_inv_timers [OF e4(2)] e4 by (intro exI [of _ N']) (auto simp: am_rx_same_def)
qed

lemma am_receive_segment_step:
  assumes inv: "am_rx_inv S N e" and S: "am_sdus_ok S"
    and n: "N - am_window_size e \<le> n" "n < N + am_window_size e"
    and sl: "am_slice (S n) so d lst" and dec: "dec_byte dec = length hdr"
  defines "H \<equiv> am_rx_bytes S N e"
    and "H' \<equiv> spec_bytes (am_rx_size e + int (length d) \<le> am_rx_maxsize e) n so (int (length d)) (am_rx_bytes S N e)"
  shows "\<exists>N' e'. am_receive_segment e (hdr @ d) dec p (n mod am_sn_modulus e) so fst_flag lst =
       Inr (e', spec_events S n H H') \<and> am_rx_inv S N' e' \<and> N \<le> N' \<and> N' \<le> N + am_window_size e \<and>
     am_rx_bytes S N' e' = H' \<and> am_rx_same e' e"
proof -
  let ?m = "am_sn_modulus e" and ?x = "n mod am_sn_modulus e" and ?len = "int (length d)"
  let ?recv = "am_receive_segment e (hdr @ d) dec p ?x so fst_flag lst"
  have cfg: "am_cfg e" and ok: "rx_list_ok S ?m (am_window_size e) N (am_rx_list e)"
    using inv by (simp_all add: am_rx_inv_def)
  note m = am_cfg_modulus(1-3) [OF cfg]
  have len: "0 < ?len" using sl by (simp add: am_slice_def)
  have b: "0 \<le> so" "so + ?len \<le> int (length (S n))" using sl by (auto simp: am_slice_def)
  have discarded: ?thesis if r: "?recv = am_discard e p" and h: "H' = H"
  proof -
    have "spec_events S n H H' = []" "am_rx_bytes S N e = H'" using h by (simp_all add: spec_events_def H_def)
    then show ?thesis using am_discard_step [OF inv, of p] r m by (intro exI [of _ N]) simp
  qed
  consider (full) "\<not> am_rx_size e + ?len \<le> am_rx_maxsize e"
    | (old) "am_rx_size e + ?len \<le> am_rx_maxsize e" "n < N"
    | (dup) "am_rx_size e + ?len \<le> am_rx_maxsize e" "N \<le> n" "am_segment_already_received e ?x so ?len"
    | (new) "am_rx_size e + ?len \<le> am_rx_maxsize e" "N \<le> n" "\<not> am_segment_already_received e ?x so ?len"
    by linarith
  then show ?thesis
  proof cases
    case full
    then have "?recv = am_discard e p" using len dec by (simp add: am_receive_segment_def)
    moreover have "H' = H" using full by (simp add: H'_def H_def spec_bytes_def)
    ultimately show ?thesis by (rule discarded)
  next
    case old
    have "?recv = am_discard e p"
      using am_window_of(2) [OF inv n] old len dec by (simp add: am_receive_segment_def)
    moreover have "{n} \<times> {so ..< so + ?len} \<subseteq> H" using old b by (auto simp: H_def am_rx_bytes_def am_bytes_def)
    then have "H' = H" using old(1) unfolding H'_def spec_bytes_def H_def by auto
    ultimately show ?thesis by (rule discarded)
  next
    case dup
    have "received (am_rx_list e) ?x i" if "so \<le> i" "i < so + ?len" for i
      using already_received_sound dup(3) that by (simp add: am_segment_already_received_def)
    then have "{n} \<times> {so ..< so + ?len} \<subseteq> H" using dup b n m by (auto simp: H_def am_rx_bytes_def am_bytes_def)
    then have "H' = H" using dup(1) unfolding H'_def spec_bytes_def H_def by auto
    moreover have "?recv = am_discard e p" using dup len dec by (simp add: am_receive_segment_def Let_def)
    ultimately show ?thesis by (intro discarded)
  next
    case new
    define q where "q = nr_rlc_new_pdu ?x so fst_flag lst d"
    have srt: "sorted (map pdu_so (filter (\<lambda>p. pdu_sn p = ?x) (am_rx_list e)))"
      using ok nums.sorted_so_run [of N ?m "am_rx_list e"] by (simp add: rank_from_nums rx_list_ok_def)
    have nr: "\<not> covered S ?m N (am_rx_list e) ?x"
      using already_received_complete [OF srt] new(3) b sn_num_mod [of N n ?m] new(2) n m
      by (force simp: covered_def am_segment_already_received_def)
    have sh: "shape (S n) q" using am_slice_shape [OF sl] by (simp add: q_def)
    have q: "pdu_sn q = ?x" "pdu_data q \<noteq> None" "pdu_so q = so" "pdu_size q = ?len"
      by (simp_all add: q_def nr_rlc_new_pdu_def)
    have cmp: "am_sn_compare_rx (e\<lparr>am_rx_size := z\<rparr>) = am_sn_compare_rx e" for z
      by (simp add: am_sn_compare_rx_def am_modulus_rx_def Let_def fun_eq_iff)
    define e2 where "e2 = e\<lparr>am_rx_size := am_rx_size e + ?len,
        am_rx_list := nr_rlc_pdu_list_add (am_sn_compare_rx e) (am_rx_list e) q\<rparr>"
    have recv: "?recv = bnd (am_reception_actions e2 q) (\<lambda>(e3, evs).
          Inr (if p \<noteq> 0 then e3\<lparr>am_status_triggered := True\<rparr> else e3, evs))"
      using new len dec am_window_of(2) [OF inv n] cmp
      by (simp add: am_receive_segment_def Let_def e2_def q_def)
    have H': "H' = am_rx_bytes S N e \<union> {n} \<times> {pdu_so q ..< pdu_so q + pdu_size q}"
      using new(1) q by (simp add: H'_def spec_bytes_def)
    obtain N' e' where "am_reception_actions e2 q = Inr (e', spec_events S n H H')" "am_rx_inv S N' e'"
        "N \<le> N'" "N' \<le> N + am_window_size e" "am_rx_bytes S N' e' = H'" "am_rx_same e' e"
      using am_accept_step [OF inv S new(2) n(2) q(1) sh q(2) nr] unfolding H' H_def e2_def q(4) by blast
    then show ?thesis unfolding recv by (intro exI [of _ N']) auto
  qed
qed

subsection \<open>The header of a data PDU\<close>

definition am_pdu_fields :: "nat \<Rightarrow> int \<Rightarrow> bool \<Rightarrow> bool \<Rightarrow> int \<Rightarrow> int \<Rightarrow> (int \<times> nat) list" where
  "am_pdu_fields len p is_first is_last sn so =
     [(1, 1), (p, 1), (1 - of_bool is_first, 1), (1 - of_bool is_last, 1)] @
     (if len = 18 then [(0, 2)] else []) @ [(sn, len)] @ (if \<not> is_first then [(so, 16)] else [])"

lemma decode_next:
  assumes "dec_wf D" "k \<le> length (dec_rest D)" "drop k (dec_rest D) = int_bits n v @ bs"
    and "n \<le> 31" "0 \<le> v" "v < 2 ^ n"
  shows "decode_field (dec_adv k D) n err K = K (dec_adv (k + n) D) v"
    "drop (k + n) (dec_rest D) = bs" "k + n \<le> length (dec_rest D)"
proof -
  show "decode_field (dec_adv k D) n err K = K (dec_adv (k + n) D) v"
    using decode_field_int_bits(1) [of "dec_adv k D" n v bs] assms by simp
  show "drop (k + n) (dec_rest D) = bs" using arg_cong [OF assms(3), of "drop n"] by (simp add: add.commute)
  show "k + n \<le> length (dec_rest D)" using arg_cong [OF assms(3), of length] assms(2) by simp
qed

lemma am_recv_data_pdu:
  assumes L: "am_sn_field_length e = 12 \<or> am_sn_field_length e = 18"
    and hdr: "bits_of hdr = field_bits (am_pdu_fields (am_sn_field_length e) p is_first is_last sn so)"
    and p: "0 \<le> p" "p < 2" and sn: "0 \<le> sn" "sn < 2 ^ am_sn_field_length e" and so: "0 \<le> so" "so < 65536"
    and first: "is_first \<longleftrightarrow> so = 0"
  shows "\<exists>dec. dec_byte dec = length hdr \<and> nr_rlc_entity_am_recv_pdu e (hdr @ d) =
      am_receive_segment e (hdr @ d) dec p sn so is_first is_last"
proof -
  define L where "L = am_sn_field_length e"
  define D where "D = nr_rlc_pdu_decoder_init (hdr @ d)"
  define si :: int where "si = 2 * (1 - of_bool is_first) + (1 - of_bool is_last)"
  have si: "0 \<le> si" "si < 2 ^ 2" "(si AND 2 = 0) = is_first" "(si AND 1 = 0) = is_last"
    by (cases is_first; cases is_last; simp add: si_def)+
  define t4 where "t4 = (if \<not> is_first then int_bits 16 so else []) @ bits_of d"
  define t2 where "t2 = (if L = 18 then int_bits 2 0 else []) @ (int_bits L sn @ t4)"
  have L31: "L \<le> 31" "L = 12 \<or> L = 18" using L by (auto simp: L_def)
  have sib: "int_bits 1 (1 - of_bool is_first) @ (int_bits 1 (1 - of_bool is_last) @ ys) = int_bits 2 si @ ys" for ys
    using int_bits_1_1 [of is_first is_last] unfolding si_def by (metis append_assoc)
  have rest: "dec_rest D = int_bits 1 1 @ (int_bits 1 p @ (int_bits 2 si @ t2))"
    unfolding D_def dec_init_rest bits_of_simps(3) hdr am_pdu_fields_def append_Cons append_Nil
      field_bits_simps append_assoc sib
    by (simp add: t2_def t4_def L_def)
  have w0: "dec_wf D" by (simp add: D_def)
  note s1 = decode_next [OF w0 _ _, of 0 1 1 "int_bits 1 p @ (int_bits 2 si @ t2)"]
  have d1: "decode_field D 1 err K = K (dec_adv 1 D) 1"
    and r1: "drop 1 (dec_rest D) = int_bits 1 p @ (int_bits 2 si @ t2)" "1 \<le> length (dec_rest D)"
    for err :: "(nr_rlc_entity_am \<times> rlc_event list) res" and K
    using s1 rest w0 by simp_all
  note s2 = decode_next [OF w0 r1(2,1), unfolded one_add_one]
  have d2: "decode_field (dec_adv 1 D) 1 err K = K (dec_adv 2 D) p"
    and r2: "drop 2 (dec_rest D) = int_bits 2 si @ t2" "2 \<le> length (dec_rest D)"
    for err :: "(nr_rlc_entity_am \<times> rlc_event list) res" and K
    by (rule s2; use p in simp)+
  note s3 = decode_next [OF w0 r2(2,1)]
  have d3: "decode_field (dec_adv 2 D) 2 err K = K (dec_adv 4 D) si"
    and r3: "drop 4 (dec_rest D) = t2" "4 \<le> length (dec_rest D)"
    for err :: "(nr_rlc_entity_am \<times> rlc_event list) res" and K
    using s3 si(1,2) by simp_all
  define r where "r = (if L = 18 then 2 else 0 :: nat)"
  have d4: "(if L = 18 then decode_field (dec_adv 4 D) 2 err else (\<lambda>k. k (dec_adv 4 D) 0)) K = K (dec_adv (4 + r) D) 0"
    and r4: "drop (4 + r) (dec_rest D) = int_bits L sn @ t4" "4 + r \<le> length (dec_rest D)"
    for err :: "(nr_rlc_entity_am \<times> rlc_event list) res" and K
  proof -
    have t: "t2 = (if L = 18 then int_bits 2 0 @ (int_bits L sn @ t4) else int_bits L sn @ t4)"
      by (simp add: t2_def)
    have "drop 4 (dec_rest D) = int_bits 2 0 @ (int_bits L sn @ t4)" if "L = 18"
      using r3(1) that unfolding t by simp
    note n = decode_next [OF w0 r3(2) this]
    show "(if L = 18 then decode_field (dec_adv 4 D) 2 err else (\<lambda>k. k (dec_adv 4 D) 0)) K = K (dec_adv (4 + r) D) 0"
      by (cases "L = 18") (simp_all add: r_def n(1))
    show "drop (4 + r) (dec_rest D) = int_bits L sn @ t4" "4 + r \<le> length (dec_rest D)"
      using n(2,3) r3 by (cases "L = 18"; simp add: r_def t)+
  qed
  have snL: "sn < 2 ^ L" using sn by (simp add: L_def)
  note s5 = decode_next [OF w0 r4(2,1) L31(1) sn(1) snL]
  have hl: "8 * length hdr = 4 + r + L + (if is_first then 0 else 16)"
    using arg_cong [OF hdr, of length] by (simp add: am_pdu_fields_def r_def L_def)
  have "nr_rlc_entity_am_recv_pdu e (hdr @ d) =
      am_receive_segment e (hdr @ d) (dec_adv (8 * length hdr) D) p sn so is_first is_last"
  proof (cases is_first)
    case True
    then show ?thesis
      using si first hl
      by (simp only: nr_rlc_entity_am_recv_pdu_def Let_def D_def [symmetric] L_def [symmetric] d1 d2 d3 d4 s5(1))
        simp
  next
    case False
    have t4: "drop (4 + r + L) (dec_rest D) = int_bits 16 so @ bits_of d" using s5(2) False by (simp add: t4_def)
    have d6: "decode_field (dec_adv (4 + r + L) D) 16 err K = K (dec_adv (4 + r + L + 16) D) so"
      for err :: "(nr_rlc_entity_am \<times> rlc_event list) res" and K
      using decode_next(1) [OF w0 s5(3) t4] so by simp
    show ?thesis
      using si first hl False
      by (simp only: nr_rlc_entity_am_recv_pdu_def Let_def D_def [symmetric] L_def [symmetric] d1 d2 d3 d4 s5(1) d6)
        simp
  qed
  moreover have "dec_byte (dec_adv (8 * length hdr) D) = length hdr" by (simp add: dec_adv_byte D_def)
  ultimately show ?thesis by blast
qed

subsection \<open>Histories of a receiver\<close>

text \<open>A new entity has received nothing.\<close>

lemma am_new_rx_inv:
  assumes "new_nr_rlc_entity_am rxs txs t_poll t_reas t_prohibit poll_pdu poll_byte retx fl = Inr e" "am_sdus_ok S"
  shows "am_rx_inv S 0 e" "am_rx_bytes S 0 e = {(n, i). n < 0 \<and> 0 \<le> i \<and> i < int (length (S n))}"
proof -
  have e: "am_cfg e" "am_rx_list e = []" "am_rx_next e = 0"
    using assms(1) by (auto simp: new_nr_rlc_entity_am_def am_cfg_def bnd_eq_Inr split: if_splits)
  have "S 0 \<noteq> []" using assms(2) by (simp add: am_sdus_ok_def)
  then show "am_rx_inv S 0 e"
    using e by (auto simp: am_rx_inv_def rx_list_ok_def covered_def received_def sn_num_def)
  show "am_rx_bytes S 0 e = {(n, i). n < 0 \<and> 0 \<le> i \<and> i < int (length (S n))}"
    using e(2) by (auto simp: am_rx_bytes_def am_bytes_def received_def)
qed

text \<open>What arrives: a data PDU with a slice of SDU \<open>n\<close>, where \<open>n\<close> lies in the window of a sender that
  never runs more than a window ahead.\<close>

definition am_arrival :: "(int \<Rightarrow> bytes) \<Rightarrow> int \<Rightarrow> nr_rlc_entity_am \<Rightarrow> int \<Rightarrow> int \<Rightarrow> bytes \<Rightarrow> bytes \<Rightarrow> bool" where
  "am_arrival S N e n so hdr d \<longleftrightarrow> 0 \<le> n \<and> N - am_window_size e \<le> n \<and> n < N + am_window_size e \<and>
     (\<exists>p lst. (p = 0 \<or> p = 1) \<and> am_slice (S n) so d lst \<and>
        bits_of hdr = field_bits (am_pdu_fields (am_sn_field_length e) p (so = 0) lst (n mod am_sn_modulus e) so))"

lemma am_arrival_decoded:
  assumes inv: "am_rx_inv S N e" and S: "am_sdus_ok S" and arr: "am_arrival S N e n so hdr d"
  shows "\<exists>dec p lst. dec_byte dec = length hdr \<and> am_slice (S n) so d lst \<and> nr_rlc_entity_am_recv_pdu e (hdr @ d) =
      am_receive_segment e (hdr @ d) dec p (n mod am_sn_modulus e) so (so = 0) lst"
proof -
  let ?m = "am_sn_modulus e"
  have cfg: "am_cfg e" using inv by (simp add: am_rx_inv_def)
  note m = am_cfg_modulus [OF cfg]
  obtain p lst where p: "p = 0 \<or> p = 1" and sl: "am_slice (S n) so d lst"
      and hdr: "bits_of hdr = field_bits (am_pdu_fields (am_sn_field_length e) p (so = 0) lst (n mod ?m) so)"
    using arr by (auto simp: am_arrival_def)
  have so: "0 \<le> so" "so < 65536"
  proof -
    have "int (length (S n)) \<le> NR_SDU_MAX" using S by (simp add: am_sdus_ok_def)
    then show "0 \<le> so" "so < 65536" using sl by (auto simp: am_slice_def NR_SDU_MAX_def)
  qed
  have x: "0 \<le> n mod ?m" "n mod ?m < 2 ^ am_sn_field_length e" using m(1,5) by simp_all
  have pp: "0 \<le> p" "p < 2" using p by auto
  show ?thesis using am_recv_data_pdu [OF m(4) hdr pp x so refl] sl by blast
qed

lemma am_arrival_step:
  assumes inv: "am_rx_inv S N e" and S: "am_sdus_ok S" and arr: "am_arrival S N e n so hdr d"
  defines "H \<equiv> am_rx_bytes S N e"
    and "H' \<equiv> spec_bytes (am_rx_size e + int (length d) \<le> am_rx_maxsize e) n so (int (length d)) (am_rx_bytes S N e)"
  shows "\<exists>e'. nr_rlc_entity_am_recv_pdu e (hdr @ d) = Inr (e', spec_events S n H H') \<and> am_rx_same e' e \<and>
     N \<le> sn_num (am_sn_modulus e) N (am_rx_next e') \<and>
     am_rx_inv S (sn_num (am_sn_modulus e) N (am_rx_next e')) e' \<and>
     am_rx_bytes S (sn_num (am_sn_modulus e) N (am_rx_next e')) e' = H'"
proof -
  let ?m = "am_sn_modulus e"
  have cfg: "am_cfg e" using inv by (simp add: am_rx_inv_def)
  note m = am_cfg_modulus [OF cfg]
  have n: "0 \<le> n" "N - am_window_size e \<le> n" "n < N + am_window_size e" using arr by (simp_all add: am_arrival_def)
  obtain dec p lst where dec: "dec_byte dec = length hdr" "am_slice (S n) so d lst" "nr_rlc_entity_am_recv_pdu e (hdr @ d) =
      am_receive_segment e (hdr @ d) dec p (n mod ?m) so (so = 0) lst"
    using am_arrival_decoded [OF inv S arr] by blast
  obtain N' e' where r: "am_receive_segment e (hdr @ d) dec p (n mod ?m) so (so = 0) lst = Inr (e', spec_events S n H H')"
      "am_rx_inv S N' e'" "N \<le> N'" "N' \<le> N + am_window_size e" "am_rx_bytes S N' e' = H'" "am_rx_same e' e"
    using am_receive_segment_step [OF inv S n(2,3) dec(2,1)] unfolding H_def H'_def by blast
  have "am_rx_next e' = N' mod ?m" using r(2,6) by (simp add: am_rx_inv_def am_rx_same_def)
  then have "sn_num ?m N (am_rx_next e') = N'" using sn_num_mod [of N N' ?m] r(3,4) m(1-3) by simp
  then show ?thesis using r dec(3) by auto
qed

lemma list_add_subset: "p \<in> set (nr_rlc_pdu_list_add cmp l q) \<Longrightarrow> p = q \<or> p \<in> set l"
  by (induction cmp l q rule: nr_rlc_pdu_list_add.induct) (auto split: if_splits)

text \<open>The receiver frees as much as it delivers, so \<open>rx_size\<close> never exceeds what has arrived.\<close>

lemma reassemble_loop_size:
  "reassemble_loop clear sn ps acc bad z = Inr (l, acc', bad', z') \<Longrightarrow> \<forall>p\<in>set ps. 0 \<le> pdu_size p \<Longrightarrow> z' \<le> z"
  by (induction clear sn ps acc bad z arbitrary: l rule: reassemble_loop.induct)
    (fastforce simp: Let_def bnd_eq_Inr split: if_splits)+

lemma am_sdu_received_size:
  assumes "am_sdu_received e x = Inr (e', evs)" "\<forall>p\<in>set (am_rx_list e). 0 \<le> pdu_size p"
  shows "am_rx_size e' \<le> am_rx_size e"
proof -
  have "set (go_to_sn (am_rx_list e) x) \<subseteq> set (am_rx_list e)" using set_dropWhileD by (fastforce simp: go_to_sn_def)
  then have "\<forall>p\<in>set (go_to_sn (am_rx_list e) x). 0 \<le> pdu_size p" using assms(2) by blast
  note le = reassemble_loop_size [OF _ this]
  obtain e1 evs1 e2 where r: "am_reassemble_and_deliver e x = Inr (e1, evs1)" "am_rx_size e2 = am_rx_size e1"
      "e' = (if x = am_rx_next e2
            then let (l, n) = am_free_delivered (am_sn_modulus e2) (am_rx_list e2) (am_rx_next e2)
                 in e2\<lparr>am_rx_list := l, am_rx_next := n\<rparr> else e2)"
  proof -
    obtain e1 evs1 where 1: "am_reassemble_and_deliver e x = Inr (e1, evs1)"
      using assms(1) by (auto simp: am_sdu_received_def bnd_eq_Inr)
    obtain e2 where 2: "(if x = am_rx_highest_status e1
          then bnd (skip_delivered (am_rx_list e1) (am_sn_modulus e1) (am_rx_highest_status e1))
                 (\<lambda>s. Inr (e1\<lparr>am_rx_highest_status := s\<rparr>)) else Inr e1) = Inr e2"
      and 3: "e' = (if x = am_rx_next e2
            then let (l, n) = am_free_delivered (am_sn_modulus e2) (am_rx_list e2) (am_rx_next e2)
                 in e2\<lparr>am_rx_list := l, am_rx_next := n\<rparr> else e2)"
      using assms(1) unfolding am_sdu_received_def 1 bnd_Inr prod.case by (auto simp only: bnd_eq_Inr sum.inject prod.inject)
    have "am_rx_size e2 = am_rx_size e1" using 2 by (auto simp: bnd_eq_Inr split: if_splits)
    with 1 3 show thesis by (intro that)
  qed
  have "am_rx_size e1 \<le> am_rx_size e"
    using r(1) le
    by (auto simp: am_reassemble_and_deliver_def reassemble_and_deliver_list_def bnd_eq_Inr split: if_splits)
  moreover have "am_rx_size e' = am_rx_size e2" by (simp add: r(3) split: prod.split)
  ultimately show ?thesis using r(2) by simp
qed

lemma am_timers_size: "am_rx_size (am_start_t_reassembly (am_stop_t_reassembly e)) = am_rx_size e"
  by (simp add: am_start_t_reassembly_def am_stop_t_reassembly_def)

lemma am_reception_size:
  assumes "am_reception_actions e q = Inr (e', evs)" "\<forall>p\<in>set (am_rx_list e). 0 \<le> pdu_size p"
  shows "am_rx_size e' \<le> am_rx_size e"
proof -
  define e1 where "e1 = (if am_sn_compare_rx e (pdu_sn q) (am_rx_next_highest e) \<ge> 0
      then e\<lparr>am_rx_next_highest := c_rem (pdu_sn q + 1) (am_sn_modulus e)\<rparr> else e)"
  have e1: "am_rx_size e1 = am_rx_size e" "am_rx_list e1 = am_rx_list e" by (simp_all add: e1_def)
  obtain e2 where e: "(if am_sdu_full e1 (pdu_sn q) then am_sdu_received e1 (pdu_sn q) else Inr (e1, [])) = Inr (e2, evs)"
      "e' = am_start_t_reassembly (am_stop_t_reassembly e2)"
    using assms(1) unfolding am_reception_actions_def Let_def e1_def [symmetric] by (auto simp: bnd_eq_Inr)
  have "am_rx_size e2 \<le> am_rx_size e1"
    using e(1) am_sdu_received_size [of e1 "pdu_sn q" e2 evs] assms(2) e1(2) by (auto split: if_splits)
  then show ?thesis using e1(1) e(2) by (simp add: am_timers_size)
qed

lemma am_segment_size:
  assumes inv: "am_rx_inv S N e" and dec: "dec_byte dec = length hdr"
    and recv: "am_receive_segment e (hdr @ d) dec p sn so fst_flag lst = Inr (e', evs)"
  shows "am_rx_size e' \<le> am_rx_size e + int (length d)"
proof -
  define q where "q = nr_rlc_new_pdu sn so fst_flag lst d"
  define e2 where "e2 = e\<lparr>am_rx_size := am_rx_size e + int (length d),
      am_rx_list := nr_rlc_pdu_list_add (am_sn_compare_rx (e\<lparr>am_rx_size := am_rx_size e + int (length d)\<rparr>)) (am_rx_list e) q\<rparr>"
  have "0 \<le> pdu_size p" if "p \<in> set (am_rx_list e)" for p
    using inv that by (auto simp: am_rx_inv_def rx_list_ok_def rx_member_def shape_def)
  then have pos: "\<forall>p\<in>set (am_rx_list e2). 0 \<le> pdu_size p"
    by (auto simp: e2_def q_def nr_rlc_new_pdu_def dest!: list_add_subset)
  define out where "out \<longleftrightarrow> int (length d) \<le> 0 \<or> am_rx_size e + int (length d) > am_rx_maxsize e \<or>
      \<not> am_sn_in_recv_window e sn \<or> am_segment_already_received e sn so (int (length d))"
  have eq: "am_receive_segment e (hdr @ d) dec p sn so fst_flag lst = (if out then am_discard e p
      else bnd (am_reception_actions e2 q) (\<lambda>(e3, evs).
             Inr (if p \<noteq> 0 then e3\<lparr>am_status_triggered := True\<rparr> else e3, evs)))"
    using dec by (simp add: am_receive_segment_def Let_def e2_def q_def out_def)
  show ?thesis
  proof (cases out)
    case True
    then show ?thesis using recv eq by (auto simp: am_discard_def)
  next
    case False
    then have "bnd (am_reception_actions e2 q) (\<lambda>(e3, evs).
        Inr (if p \<noteq> 0 then e3\<lparr>am_status_triggered := True\<rparr> else e3, evs)) = Inr (e', evs)"
      using recv eq by simp
    then obtain r where r: "am_reception_actions e2 q = Inr r"
        "Inr (if p \<noteq> 0 then (fst r)\<lparr>am_status_triggered := True\<rparr> else fst r, snd r) = (Inr (e', evs) :: (nr_rlc_entity_am \<times> rlc_event list) res)"
      unfolding bnd_eq_Inr case_prod_unfold by (elim exE conjE) (rule that)
    have "am_reception_actions e2 q = Inr (fst r, evs)" "am_rx_size e' = am_rx_size (fst r)"
      using r(1) arg_cong [OF r(2), of "\<lambda>x. snd (projr x)"] arg_cong [OF r(2), of "\<lambda>x. am_rx_size (fst (projr x))"]
      by (auto simp: prod_eq_iff split: if_splits)
    moreover have "am_rx_size e2 = am_rx_size e + int (length d)" by (simp add: e2_def)
    ultimately show ?thesis using am_reception_size [OF _ pos] by metis
  qed
qed

lemma am_arrival_size:
  assumes inv: "am_rx_inv S N e" and S: "am_sdus_ok S" and arr: "am_arrival S N e n so hdr d"
    and recv: "nr_rlc_entity_am_recv_pdu e (hdr @ d) = Inr (e', evs)"
  shows "am_rx_size e' \<le> am_rx_size e + int (length d)"
  using am_arrival_decoded [OF inv S arr] am_segment_size [OF inv] recv by metis

inductive am_rx_history ::
    "(int \<Rightarrow> bytes) \<Rightarrow> (int \<times> int \<times> bytes \<times> bool) list \<Rightarrow> int \<Rightarrow> nr_rlc_entity_am \<Rightarrow> rlc_event list \<Rightarrow> bool" for S where
  am_rx_start: "new_nr_rlc_entity_am rxs txs t_poll t_reas t_prohibit poll_pdu poll_byte retx fl = Inr e
     \<Longrightarrow> am_rx_history S [] 0 e []"
| am_rx_recv: "am_rx_history S A N e evs \<Longrightarrow> am_arrival S N e n so hdr d
     \<Longrightarrow> nr_rlc_entity_am_recv_pdu e (hdr @ d) = Inr (e', evs')
     \<Longrightarrow> am_rx_history S (A @ [(n, so, d, am_rx_size e + int (length d) \<le> am_rx_maxsize e)])
           (sn_num (am_sn_modulus e) N (am_rx_next e')) e' (evs @ evs')"

text \<open>The log of a history: every data PDU that arrived, with its SDU, its offset, its bytes and whether
  \<open>rx_size\<close> left room for it; and the bytes that the PDUs with room brought.\<close>

definition arrived_bytes :: "(int \<times> int \<times> bytes \<times> bool) list \<Rightarrow> (int \<times> int) set" where
  "arrived_bytes A = {(n, i). \<exists>so d. (n, so, d, True) \<in> set A \<and> so \<le> i \<and> i < so + int (length d)}"

definition log_size :: "(int \<times> int \<times> bytes \<times> bool) list \<Rightarrow> int" where
  "log_size A = sum_list (map (\<lambda>(n, so, d, room). int (length d)) A)"

lemma arrived_bytes_snoc:
  "arrived_bytes (A @ [(n, so, d, room)]) = spec_bytes room n so (int (length d)) (arrived_bytes A)"
  by (cases room) (fastforce simp: arrived_bytes_def spec_bytes_def)+

lemma am_rx_history_inv: "am_rx_history S A N e evs \<Longrightarrow> am_sdus_ok S \<Longrightarrow> am_rx_inv S N e"
proof (induction rule: am_rx_history.induct)
  case (am_rx_start rxs txs t_poll t_reas t_prohibit poll_pdu poll_byte retx fl e)
  then show ?case by (rule am_new_rx_inv(1))
next
  case (am_rx_recv A N e evs n so hdr d e' evs')
  then show ?case using am_arrival_step [of S N e n so hdr d] by auto
qed

text \<open>What the receiver has is what arrived, besides the numbers before the start of the connection.\<close>

lemma am_rx_history_bytes:
  "am_rx_history S A N e evs \<Longrightarrow> am_sdus_ok S \<Longrightarrow>
     am_rx_bytes S N e = arrived_bytes A \<union> {(n, i). n < 0 \<and> 0 \<le> i \<and> i < int (length (S n))}"
proof (induction rule: am_rx_history.induct)
  case (am_rx_start rxs txs t_poll t_reas t_prohibit poll_pdu poll_byte retx fl e)
  then show ?case using am_new_rx_inv(2) by (simp add: arrived_bytes_def)
next
  case (am_rx_recv A N e evs n so hdr d e' evs')
  then show ?case
    using am_arrival_step [OF am_rx_history_inv [OF am_rx_recv(1,5)] am_rx_recv(5,2)]
    by (auto simp: arrived_bytes_snoc spec_bytes_def split: if_splits)
qed

lemma am_rx_history_complete:
  assumes "am_rx_history S A N e evs" "am_sdus_ok S" "0 \<le> n"
  shows "all_bytes S (am_rx_bytes S N e) n \<longleftrightarrow> all_bytes S (arrived_bytes A) n"
  using assms(3) by (simp add: am_rx_history_bytes [OF assms(1,2)] all_bytes_def)

lemma am_rx_history_first:
  assumes "am_rx_history S A N e evs" "am_sdus_ok S"
  shows "0 \<le> N" "am_rx_next e = N mod am_sn_modulus e" "\<not> all_bytes S (arrived_bytes A) N"
    "\<And>n. 0 \<le> n \<Longrightarrow> n < N \<Longrightarrow> all_bytes S (arrived_bytes A) n"
proof -
  show z: "0 \<le> N"
    using assms
  proof (induction rule: am_rx_history.induct)
    case (am_rx_recv A N e evs n so hdr d e' evs')
    then show ?case using am_arrival_step [OF am_rx_history_inv [OF am_rx_recv(1,5)] am_rx_recv(5,2)] by auto
  qed simp
  have inv: "am_rx_inv S N e" by (rule am_rx_history_inv [OF assms])
  then show "am_rx_next e = N mod am_sn_modulus e" by (simp add: am_rx_inv_def)
  have "0 < am_sn_modulus e" using inv am_cfg_modulus(1) by (auto simp: am_rx_inv_def)
  then have "\<not> all_bytes S (am_rx_bytes S N e) N"
    using inv am_bytes_covered [of N N "am_sn_modulus e" S "am_rx_list e"] by (simp add: am_rx_bytes_def am_rx_inv_def)
  then show "\<not> all_bytes S (arrived_bytes A) N" using am_rx_history_complete [OF assms z] by simp
  show "all_bytes S (arrived_bytes A) n" if "0 \<le> n" "n < N" for n
    using am_bytes_below [OF that(2), of S "am_sn_modulus e" "am_rx_list e"] am_rx_history_complete [OF assms that(1)]
    by (simp add: am_rx_bytes_def)
qed

text \<open>The account of the receive buffer.\<close>

lemma am_rx_history_size:
  assumes "am_rx_history S A N e evs" "am_sdus_ok S"
  shows "am_slack e = 0 \<and> am_rx_size e \<le> log_size A \<and>
     (log_size A \<le> am_rx_maxsize e \<longrightarrow> list_all (\<lambda>(n, so, d, room). room) A)"
  using assms
proof (induction rule: am_rx_history.induct)
  case (am_rx_start rxs txs t_poll t_reas t_prohibit poll_pdu poll_byte retx fl e)
  then show ?case by (auto simp: new_nr_rlc_entity_am_def am_slack_def log_size_def bnd_eq_Inr split: if_splits)
next
  case (am_rx_recv A N e evs n so hdr d e' evs')
  have inv: "am_rx_inv S N e" by (rule am_rx_history_inv [OF am_rx_recv(1,5)])
  have "am_rx_same e' e" using am_arrival_step [OF inv am_rx_recv(5,2)] am_rx_recv(3) by auto
  moreover have "am_rx_size e' \<le> am_rx_size e + int (length d)" by (rule am_arrival_size [OF inv am_rx_recv(5,2,3)])
  moreover have "log_size (A @ [(n, so, d, room)]) = log_size A + int (length d)" for room by (simp add: log_size_def)
  ultimately show ?case using am_rx_recv(4) [OF am_rx_recv(5)] by (auto simp: am_rx_same_def)
qed

lemma spec_all_bytes:
  "all_bytes S (spec_bytes room n so len H) k \<longleftrightarrow>
     all_bytes S H k \<or> k = n \<and> all_bytes S (spec_bytes room n so len H) n"
  by (auto simp: all_bytes_def spec_bytes_def)

lemma am_rx_history_delivered:
  assumes "am_rx_history S A N e evs" "am_sdus_ok S"
  shows "\<exists>ns. evs = map (\<lambda>n. DeliverSdu (S n)) ns \<and> distinct ns \<and>
     set ns = {n. 0 \<le> n \<and> all_bytes S (arrived_bytes A) n}"
  using assms
proof (induction rule: am_rx_history.induct)
  case (am_rx_start rxs txs t_poll t_reas t_prohibit poll_pdu poll_byte retx fl e)
  have "\<not> all_bytes S (arrived_bytes []) n" for n
    using am_rx_start(2) by (auto simp: all_bytes_def am_sdus_ok_def arrived_bytes_def)
  then show ?case by (intro exI [of _ "[]"]) auto
next
  case (am_rx_recv A N e evs n so hdr d e' evs')
  let ?room = "am_rx_size e + int (length d) \<le> am_rx_maxsize e"
  let ?H = "arrived_bytes A" and ?H' = "arrived_bytes (A @ [(n, so, d, ?room)])"
  obtain ns where ns: "evs = map (\<lambda>n. DeliverSdu (S n)) ns" "distinct ns" "set ns = {n. 0 \<le> n \<and> all_bytes S ?H n}"
    using am_rx_recv by blast
  have inv: "am_rx_inv S N e" by (rule am_rx_history_inv [OF am_rx_recv(1,5)])
  have n: "0 \<le> n" using am_rx_recv(2) by (simp add: am_arrival_def)
  note step = am_arrival_step [OF inv am_rx_recv(5,2)]
  have ev: "evs' = spec_events S n (am_rx_bytes S N e) (am_rx_bytes S (sn_num (am_sn_modulus e) N (am_rx_next e')) e')"
    using step am_rx_recv(3) by auto
  define new where "new \<longleftrightarrow> all_bytes S ?H' n \<and> \<not> all_bytes S ?H n"
  have evs': "evs' = (if new then [DeliverSdu (S n)] else [])"
    using am_rx_history_complete [OF am_rx_recv(1,5) n]
      am_rx_history_complete [OF am_rx_history.am_rx_recv [OF am_rx_recv(1-3)] am_rx_recv(5) n]
    by (simp add: ev spec_events_def new_def)
  have iff: "all_bytes S ?H' k \<longleftrightarrow> all_bytes S ?H k \<or> (k = n \<and> new)" for k
    unfolding new_def arrived_bytes_snoc using spec_all_bytes [of S ?room n so "int (length d)" ?H k] by metis
  show ?case
  proof (cases new)
    case True
    have "set (ns @ [n]) = {k. 0 \<le> k \<and> all_bytes S ?H' k}" unfolding iff using ns(3) True n by auto
    moreover have "distinct (ns @ [n])" using ns(2,3) True by (simp add: new_def)
    moreover have "evs @ evs' = map (\<lambda>n. DeliverSdu (S n)) (ns @ [n])" using ns(1) evs' True by simp
    ultimately show ?thesis by blast
  next
    case False
    have "set ns = {k. 0 \<le> k \<and> all_bytes S ?H' k}" unfolding iff using ns(3) False by simp
    moreover have "evs @ evs' = map (\<lambda>n. DeliverSdu (S n)) ns" using ns(1) evs' False by simp
    ultimately show ?thesis using ns(2) by blast
  qed
qed

subsection \<open>Properties\<close>

text \<open>
  C6: reception in RLC AM refines a set of bytes.  A data PDU with a slice of an SDU of the peer,
  however segmented, repeated or reordered, is processed without a fault; if there is room in the
  buffer its bytes are added to the set, and SDU \<open>n\<close> is delivered, exactly, at the moment its last
  missing byte arrives.
\<close>

theorem am_rx_refines_bytes:
  assumes "am_rx_inv S N e" "am_sdus_ok S" "am_arrival S N e n so hdr d"
    and "H' = (if am_rx_size e + int (length d) \<le> am_rx_maxsize e
               then am_rx_bytes S N e \<union> {n} \<times> {so ..< so + int (length d)} else am_rx_bytes S N e)"
  shows "\<exists>e' N'. nr_rlc_entity_am_recv_pdu e (hdr @ d) =
       Inr (e', if all_bytes S H' n \<and> \<not> all_bytes S (am_rx_bytes S N e) n then [DeliverSdu (S n)] else []) \<and>
     N \<le> N' \<and> am_rx_inv S N' e' \<and> am_rx_bytes S N' e' = H'"
  using am_arrival_step [OF assms(1-3)] unfolding assms(4) spec_bytes_def spec_events_def by blast

definition am_example :: nr_rlc_entity_am where
  "am_example = projr (new_nr_rlc_entity_am 20000 20000 45 35 0 4 1000 8 12)"

lemma am_example_new: "new_nr_rlc_entity_am 20000 20000 45 35 0 4 1000 8 12 = Inr am_example"
  by (simp add: am_example_def new_nr_rlc_entity_am_def)

definition am_example_sdus :: "int \<Rightarrow> bytes" where
  "am_example_sdus n = [1, 2, 3]"

lemma am_example_sdus_ok: "am_sdus_ok am_example_sdus"
  by (simp add: am_sdus_ok_def am_example_sdus_def NR_SDU_MAX_def)

lemma am_example_arrival: "am_arrival am_example_sdus 0 am_example 0 1 [0xA0, 0, 0, 1] [2, 3]"
proof -
  have "am_slice (am_example_sdus 0) 1 [2, 3] True" by (simp add: am_slice_def am_example_sdus_def)
  moreover have "am_window_size am_example = 2048" "am_sn_field_length am_example = 12" "am_sn_modulus am_example = 4096"
    by (simp_all add: am_example_def new_nr_rlc_entity_am_def)
  moreover have "bits_of [0xA0, 0, 0, 1] = field_bits (am_pdu_fields 12 0 False True 0 1)" by code_simp
  ultimately show ?thesis by (auto simp: am_arrival_def intro: exI [of _ 0] exI [of _ True])
qed

lemma am_example_bytes: "am_rx_bytes am_example_sdus 0 am_example = {(n, i). n < 0 \<and> 0 \<le> i \<and> i < 3}"
  using am_new_rx_inv(2) [OF am_example_new am_example_sdus_ok] by (simp add: am_example_sdus_def)

theorem am_rx_refines_bytes_witness:
  "(\<exists>e' N'. nr_rlc_entity_am_recv_pdu am_example ([0xA0, 0, 0, 1] @ [2, 3]) = Inr (e', []) \<and> 0 \<le> N' \<and>
     am_rx_inv am_example_sdus N' e' \<and>
     am_rx_bytes am_example_sdus N' e' = {(n, i). n < 0 \<and> 0 \<le> i \<and> i < 3} \<union> {0} \<times> {1 ..< 3})"
proof -
  have z: "am_rx_size am_example = 0" "am_rx_maxsize am_example = 20000"
    by (simp_all add: am_example_def new_nr_rlc_entity_am_def)
  have nb: "\<not> all_bytes am_example_sdus ({(n, i). n < 0 \<and> 0 \<le> i \<and> i < 3} \<union> {0} \<times> {1 ..< 3}) 0"
    by (auto simp: all_bytes_def am_example_sdus_def)
  show ?thesis
    using am_rx_refines_bytes [OF am_new_rx_inv(1) [OF am_example_new am_example_sdus_ok] am_example_sdus_ok
        am_example_arrival refl] nb z
    by (simp add: am_example_bytes)
qed

text \<open>
  C4: RLC AM delivers exactly once.  Over every history of received data PDUs, with a log \<open>A\<close> of
  everything that arrived, the delivered SDUs are SDUs of the peer, pairwise distinct, and precisely
  those of which every byte has arrived in PDUs for which the receive buffer had room.  \<open>rx_next\<close>
  stands for the first SDU that is not complete yet, \<open>rx_size\<close> counts exactly the bytes held for
  incomplete SDUs, and as long as all that arrived fits into the buffer no PDU is left out.
\<close>

theorem am_delivers_exactly_once:
  assumes "am_rx_history S A N e evs" "am_sdus_ok S"
  shows "(\<exists>ns. evs = map (\<lambda>n. DeliverSdu (S n)) ns \<and> distinct ns \<and>
       set ns = {n. 0 \<le> n \<and> all_bytes S (arrived_bytes A) n}) \<and>
     am_rx_next e = N mod am_sn_modulus e \<and> 0 \<le> N \<and> \<not> all_bytes S (arrived_bytes A) N \<and>
     (\<forall>n. 0 \<le> n \<and> n < N \<longrightarrow> all_bytes S (arrived_bytes A) n) \<and>
     am_rx_size e = held_bytes (am_rx_list e) \<and>
     (log_size A \<le> am_rx_maxsize e \<longrightarrow> list_all (\<lambda>(n, so, d, room). room) A)"
  using am_rx_history_delivered [OF assms] am_rx_history_first [OF assms] am_rx_history_size [OF assms]
  by (simp add: am_slack_def)

lemma am_example_whole: "am_arrival am_example_sdus 0 am_example 0 0 [0x80, 0] [1, 2, 3]"
proof -
  have "am_slice (am_example_sdus 0) 0 [1, 2, 3] True" by (simp add: am_slice_def am_example_sdus_def)
  moreover have "am_window_size am_example = 2048" "am_sn_field_length am_example = 12" "am_sn_modulus am_example = 4096"
    by (simp_all add: am_example_def new_nr_rlc_entity_am_def)
  moreover have "bits_of [0x80, 0] = field_bits (am_pdu_fields 12 0 True True 0 0)" by code_simp
  ultimately show ?thesis by (auto simp: am_arrival_def intro: exI [of _ 0] exI [of _ True])
qed

lemma am_example_recv: "\<exists>e'. nr_rlc_entity_am_recv_pdu am_example ([0x80, 0] @ [1, 2, 3]) = Inr (e', [DeliverSdu [1, 2, 3]])"
proof -
  have z: "am_rx_size am_example = 0" "am_rx_maxsize am_example = 20000"
    by (simp_all add: am_example_def new_nr_rlc_entity_am_def)
  let ?H = "{(n, i). n < 0 \<and> 0 \<le> i \<and> i < 3} :: (int \<times> int) set"
  have "all_bytes am_example_sdus (?H \<union> {0} \<times> {0 ..< 3}) 0" "\<not> all_bytes am_example_sdus ?H 0"
    by (auto simp: all_bytes_def am_example_sdus_def)
  then have "spec_events am_example_sdus 0 ?H (?H \<union> {0} \<times> {0 ..< 3}) = [DeliverSdu [1, 2, 3]]"
    by (simp add: spec_events_def am_example_sdus_def)
  then show ?thesis
    using am_arrival_step [OF am_new_rx_inv(1) [OF am_example_new am_example_sdus_ok] am_example_sdus_ok
        am_example_whole] z
    by (auto simp: spec_bytes_def am_example_bytes)
qed

theorem am_delivers_exactly_once_witness:
  "(\<exists>N e ns. am_rx_history am_example_sdus [(0, 0, [1, 2, 3], True)] N e [DeliverSdu [1, 2, 3]] \<and> length ns = 1 \<and>
     set ns = {n. 0 \<le> n \<and> all_bytes am_example_sdus (arrived_bytes [(0, 0, [1, 2, 3], True)]) n} \<and>
     am_rx_next e = N mod am_sn_modulus e \<and> am_rx_size e = held_bytes (am_rx_list e))"
proof -
  obtain e' where r: "nr_rlc_entity_am_recv_pdu am_example ([0x80, 0] @ [1, 2, 3]) = Inr (e', [DeliverSdu [1, 2, 3]])"
    using am_example_recv by blast
  define N where "N = sn_num (am_sn_modulus am_example) 0 (am_rx_next e')"
  have "am_rx_size am_example = 0" "am_rx_maxsize am_example = 20000"
    by (simp_all add: am_example_def new_nr_rlc_entity_am_def)
  then have h: "am_rx_history am_example_sdus [(0, 0, [1, 2, 3], True)] N e' [DeliverSdu [1, 2, 3]]"
    using am_rx_recv [OF am_rx_start [OF am_example_new] am_example_whole r] by (simp add: N_def)
  note d = am_delivers_exactly_once [OF h am_example_sdus_ok]
  obtain ns where ns: "[DeliverSdu [1, 2, 3]] = map (\<lambda>n. DeliverSdu (am_example_sdus n)) ns"
      "set ns = {n. 0 \<le> n \<and> all_bytes am_example_sdus (arrived_bytes [(0, 0, [1, 2, 3], True)]) n}"
    using conjunct1 [OF d] by (elim exE conjE) (rule that)
  have "length ns = 1" using arg_cong [OF ns(1), of length] by simp
  then show ?thesis using h ns(2) conjunct2 [OF d] by blast
qed

text \<open>
  \<open>segment_already_received\<close> holds exactly when every byte of the segment is already there.
\<close>

theorem am_segment_already_received_iff:
  assumes "sorted (map pdu_so (filter (\<lambda>p. pdu_sn p = sn) (am_rx_list e)))"
  shows "am_segment_already_received e sn so sz \<longleftrightarrow>
     (\<forall>i. so \<le> i \<and> i < so + sz \<longrightarrow>
       (\<exists>p\<in>set (am_rx_list e). pdu_sn p = sn \<and> pdu_so p \<le> i \<and> i < pdu_so p + pdu_size p))"
  using already_received_sound [of "am_rx_list e" sn so sz] already_received_complete [OF assms, of so sz]
  by (auto simp: am_segment_already_received_def received_def)

definition am_example_rx :: nr_rlc_entity_am where
  "am_example_rx = am_example\<lparr>am_rx_list := [nr_rlc_new_pdu 5 0 True False [1, 2], nr_rlc_new_pdu 5 2 False False [3, 4],
     nr_rlc_new_pdu 6 1 False True [9]]\<rparr>"

theorem am_segment_already_received_iff_witness:
  "am_segment_already_received am_example_rx 5 1 3 \<and> \<not> am_segment_already_received am_example_rx 5 1 4"
proof -
  have srt: "sorted (map pdu_so (filter (\<lambda>p. pdu_sn p = 5) (am_rx_list am_example_rx)))"
    by (simp add: am_example_rx_def nr_rlc_new_pdu_def)
  note iff = am_segment_already_received_iff [OF srt]
  have "\<not> (\<exists>p\<in>set (am_rx_list am_example_rx). pdu_sn p = 5 \<and> pdu_so p \<le> 4 \<and> 4 < pdu_so p + pdu_size p)"
    by (simp add: am_example_rx_def nr_rlc_new_pdu_def)
  moreover have "\<exists>p\<in>set (am_rx_list am_example_rx). pdu_sn p = 5 \<and> pdu_so p \<le> i \<and> i < pdu_so p + pdu_size p"
    if "1 \<le> i \<and> i < 1 + 3" for i
    using that by (auto simp: am_example_rx_def nr_rlc_new_pdu_def)
  ultimately show ?thesis unfolding iff by fastforce
qed

text \<open>
  A data PDU that lies behind the last segment of its SDU makes the reassembly read in front of
  that PDU's buffer; three data PDUs of one sequence number, in this order, are enough.
\<close>

theorem am_segment_behind_last_out_of_bounds:
  "\<exists>e. new_nr_rlc_entity_am 20000 20000 45 35 0 4 1000 8 12 = Inr e \<and>
     fault_of (run_ops nr_rlc_entity_am_recv_pdu e
       [[0x90, 0, 1, 2, 3, 4], [0xB0, 0, 0, 100, 9], [0xA0, 0, 0, 4, 6]]) = Some OutOfBounds"
proof -
  have "fault_of (run_ops nr_rlc_entity_am_recv_pdu am_example
       [[0x90, 0, 1, 2, 3, 4], [0xB0, 0, 0, 100, 9], [0xA0, 0, 0, 4, 6]]) = Some OutOfBounds"
    by code_simp
  then show ?thesis using am_example_new by blast
qed

end
