(* ===== verification/Rlc_Am_Status.thy ===== *)
theory Rlc_Am_Status
  imports Rlc_Am_Rx
begin

text \<open>
  Status reporting of the RLC AM entity: the status PDU is always generated, fits the buffer, and has
  exactly the size that \<open>status_size\<close> announces to the scheduler.
\<close>

subsection \<open>The search for missing data goes forward\<close>

declare nm_loop.simps(2) [simp del]

lemma nm_set_end_next: "length (md_next (nm_set_end e a b c l)) \<le> length l"
  by (simp add: nm_set_end_def Let_def split: prod.splits)

text \<open>The three ways on from a PDU \<open>p\<close> that is followed by \<open>c\<close>.\<close>

definition nm_max :: "int \<Rightarrow> nr_rlc_pdu \<Rightarrow> int" where
  "nm_max max_so p = max max_so (pdu_so p + pdu_size p - 1)"

definition nm_same :: "int \<Rightarrow> nr_rlc_pdu \<Rightarrow> nr_rlc_pdu \<Rightarrow> bool" where
  "nm_same max_so p c \<longleftrightarrow> pdu_sn c = pdu_sn p \<and> pdu_so c - 1 \<le> nm_max max_so p"

definition nm_follows :: "nr_rlc_entity_am \<Rightarrow> bool \<Rightarrow> nr_rlc_pdu \<Rightarrow> nr_rlc_pdu \<Rightarrow> bool" where
  "nm_follows e lr p c \<longleftrightarrow> pdu_sn c = am_succ e (pdu_sn p) \<and> (lr \<or> pdu_is_last p) \<and> pdu_is_first c"

lemma nm_loop_step:
  "nm_same max_so p c \<Longrightarrow> nm_loop e (p # c # cs) max_so lr = nm_loop e (c # cs) (nm_max max_so p) (lr \<or> pdu_is_last p)"
  "\<not> nm_same max_so p c \<Longrightarrow> nm_follows e lr p c \<Longrightarrow> nm_loop e (p # c # cs) max_so lr = nm_loop e (c # cs) 0 False"
  "\<not> nm_same max_so p c \<Longrightarrow> \<not> nm_follows e lr p c \<Longrightarrow> nm_loop e (p # c # cs) max_so lr =
     (if pdu_sn c = pdu_sn p
      then if nm_out_of_window e (pdu_sn p) then None
           else Some \<lparr>md_sn_start = pdu_sn p, md_so_start = nm_max max_so p + 1, md_sn_end = pdu_sn p,
                      md_so_end = pdu_so c - 1, md_next = c # cs\<rparr>
      else let start = nm_start e (pdu_sn p) (lr \<or> pdu_is_last p) (nm_max max_so p) in
           if nm_out_of_window e (fst start) then None
           else Some (nm_set_end e (fst start) (snd start) c (c # cs)))"
proof -
  note eq = nm_loop.simps(2) [of e p "c # cs" max_so lr, unfolded Let_def list.case,
      folded nm_max_def, folded nm_same_def, folded nm_follows_def]
  show "nm_same max_so p c \<Longrightarrow>
      nm_loop e (p # c # cs) max_so lr = nm_loop e (c # cs) (nm_max max_so p) (lr \<or> pdu_is_last p)"
    unfolding eq by (rule if_P)
  assume n: "\<not> nm_same max_so p c"
  show "nm_follows e lr p c \<Longrightarrow> nm_loop e (p # c # cs) max_so lr = nm_loop e (c # cs) 0 False"
    unfolding eq if_not_P [OF n] by (rule if_P)
  assume "\<not> nm_follows e lr p c"
  note m = if_not_P [OF this]
  show "nm_loop e (p # c # cs) max_so lr =
     (if pdu_sn c = pdu_sn p
      then if nm_out_of_window e (pdu_sn p) then None
           else Some \<lparr>md_sn_start = pdu_sn p, md_so_start = nm_max max_so p + 1, md_sn_end = pdu_sn p,
                      md_so_end = pdu_so c - 1, md_next = c # cs\<rparr>
      else let start = nm_start e (pdu_sn p) (lr \<or> pdu_is_last p) (nm_max max_so p) in
           if nm_out_of_window e (fst start) then None
           else Some (nm_set_end e (fst start) (snd start) c (c # cs)))"
    unfolding eq if_not_P [OF n] m Let_def by (rule refl)
qed

lemma nm_loop_end:
  "nm_loop e [p] max_so lr =
     (let start = (if pdu_data p = None then (am_succ e (pdu_sn p), 0)
                   else nm_start e (pdu_sn p) (lr \<or> pdu_is_last p) (nm_max max_so p))
      in if nm_out_of_window e (fst start) then None
         else Some \<lparr>md_sn_start = fst start, md_so_start = snd start,
                    md_sn_end = am_pred e (am_rx_highest_status e), md_so_end = 0xffff, md_next = []\<rparr>)"
  unfolding nm_loop.simps(2) [of e p "[]"] nm_max_def Let_def list.case by simp

lemma nm_loop_next: "nm_loop e l max_so lr = Some m \<Longrightarrow> length (md_next m) < length l"
proof (induction l arbitrary: max_so lr)
  case (Cons p l)
  show ?case
  proof (cases l)
    case Nil
    then show ?thesis using Cons.prems by (auto simp: nm_loop_end Let_def split: if_splits)
  next
    case (Cons c cs)
    consider "nm_same max_so p c" | "\<not> nm_same max_so p c" "nm_follows e lr p c"
      | "\<not> nm_same max_so p c" "\<not> nm_follows e lr p c" by blast
    then show ?thesis
    proof cases
      case 3
      then show ?thesis
        using Cons.prems Cons nm_set_end_next [of e _ _ c "c # cs"]
        by (auto simp: nm_loop_step(3) Let_def le_imp_less_Suc split: if_splits)
    qed (use Cons.prems Cons.IH Cons nm_loop_step(1,2) less_Suc_eq in force)+
  qed
qed simp

lemma next_missing_some:
  assumes "l \<noteq> []"
  shows "\<exists>r. next_missing e l chk = Inr r \<and>
     (\<forall>m. r = Some m \<longrightarrow> length (md_next m) \<le> length l \<and> (\<not> chk \<longrightarrow> length (md_next m) < length l))"
proof -
  obtain c cs where l: "l = c # cs" using assms by (cases l) auto
  show ?thesis
    using nm_loop_next [of e l 0 False] nm_set_end_next [of e "am_rx_next e" 0 c l]
    by (auto simp: next_missing_def l intro: less_imp_le)
qed

subsection \<open>One NACK\<close>

definition enc_at :: "nat \<Rightarrow> nat \<Rightarrow> nr_rlc_pdu_encoder \<Rightarrow> bool" where
  "enc_at n k enc \<longleftrightarrow> enc_wf enc \<and> enc_bit enc = 0 \<and> enc_size enc = n \<and> enc_byte enc = k"

lemma enc_at_bits: "enc_at n k enc \<Longrightarrow> length (enc_bits enc) = 8 * k"
  by (simp add: enc_at_def length_enc_bits)

lemma enc_at_le: "enc_at n k enc \<Longrightarrow> k \<le> n"
  by (auto simp: enc_at_def enc_wf_def)

lemma enc_atI: "enc_wf enc \<Longrightarrow> length (enc_bits enc) = 8 * k \<Longrightarrow> enc_size enc = n \<Longrightarrow> enc_at n k enc"
  using enc_aligned [of enc k] by (simp add: enc_at_def)

lemma put_bits_at:
  assumes "enc_at n k enc" "cnt = 8 * b" "b \<le> 3" "k + b \<le> n"
  shows "\<exists>enc1. nr_rlc_pdu_encoder_put_bits enc v cnt = Inr enc1 \<and> enc_at n (k + b) enc1"
proof -
  have wf: "enc_wf enc" "enc_size enc = n" using assms(1) by (simp_all add: enc_at_def)
  obtain enc1 where "nr_rlc_pdu_encoder_put_bits enc v cnt = Inr enc1" "enc_wf enc1"
      "enc_bits enc1 = enc_bits enc @ int_bits cnt v" "enc_size enc1 = enc_size enc"
  proof (rule put_bits_ok [OF wf(1), of cnt v])
    show "cnt \<le> 31" "length (enc_bits enc) + cnt \<le> 8 * enc_size enc"
      using enc_at_bits [OF assms(1)] assms(2-4) wf(2) by simp_all
  qed
  then show ?thesis
    using enc_at_bits [OF assms(1)] wf(2) assms(2)
    by (intro exI [of _ enc1]) (auto intro!: enc_atI)
qed

lemma put_fields_at:
  assumes "enc_at n k enc" "\<forall>(v, c) \<in> set fs. c \<le> 31" "sum_list (map snd fs) = 8 * b" "k + b \<le> n"
  shows "\<exists>enc1. put_fields enc fs = Inr enc1 \<and> enc_at n (k + b) enc1"
proof -
  have "enc_wf enc" "enc_size enc = n" using assms(1) by (simp_all add: enc_at_def)
  then obtain enc1 where "put_fields enc fs = Inr enc1" "enc_wf enc1"
      "enc_bits enc1 = enc_bits enc @ field_bits fs" "enc_size enc1 = enc_size enc"
    using put_fields_ok [OF _ assms(2), of enc] enc_at_bits [OF assms(1)] assms(3,4) by (auto simp: length_field_bits)
  then show ?thesis
    using enc_at_bits [OF assms(1)] \<open>enc_size enc = n\<close> assms(3)
    by (intro exI [of _ enc1]) (auto intro!: enc_atI simp: length_field_bits)
qed

lemma set_e1_at:
  assumes "enc_at n k enc" "b < k"
  shows "\<exists>enc1. set_e1 enc b i = Inr enc1 \<and> enc_at n k enc1"
  using assms by (auto simp: set_e1_def enc_at_def enc_wf_def)

lemma put_nack_at:
  assumes L: "am_sn_field_length e = 12 \<or> am_sn_field_length e = 18" and enc: "enc_at n k enc"
    and room: "int k + nack_size e sn_start so_start sn_end so_end \<le> int n"
  shows "\<exists>enc1 addr. put_nack e enc sn_start so_start sn_end so_end c = Inr (enc1, addr) \<and>
     enc_at n (k + nat (nack_size e sn_start so_start sn_end so_end)) enc1 \<and>
     (\<forall>a. addr = Some a \<longrightarrow> a + 2 \<le> n)"
proof -
  define b :: nat where "b = (if am_sn_field_length e = 18 then 3 else 2)"
  define e2 where "e2 \<longleftrightarrow> \<not> (so_start = 0 \<and> so_end = 0xffff)"
  define e3 where "e3 \<longleftrightarrow> sn_start \<noteq> sn_end"
  have sz: "nack_size e sn_start so_start sn_end so_end = int (b + (if e2 then 4 else 0) + (if e3 then 1 else 0))"
    by (auto simp: nack_size_def b_def e2_def e3_def)
  let ?fs = "[(sn_start, am_sn_field_length e), (0, 1), (of_bool e2, 1), (of_bool e3, 1),
     (0, if am_sn_field_length e = 18 then 3 else 1)]"
  have r: "k + (b + (if e2 then 4 else 0) + (if e3 then 1 else 0)) \<le> n" using room sz by linarith
  obtain enc1 where f1: "put_fields enc ?fs = Inr enc1" "enc_at n (k + b) enc1"
    using put_fields_at [OF enc, of ?fs b] L r by (auto simp: b_def)
  obtain enc4 addr where f2: "(if e2 then bnd (nr_rlc_pdu_encoder_put_bits enc1 so_start 16) (\<lambda>enc2.
                   bnd (nr_rlc_pdu_encoder_put_bits enc2 so_end 16) (\<lambda>enc3.
                     Inr (enc3, Some (enc_byte enc2)))) else Inr (enc1, None)) = Inr (enc4, addr)"
      "enc_at n (k + b + (if e2 then 4 else 0)) enc4" "\<forall>a. addr = Some a \<longrightarrow> a + 2 \<le> n"
  proof (cases e2)
    case True
    obtain enc2 where 2: "nr_rlc_pdu_encoder_put_bits enc1 so_start 16 = Inr enc2" "enc_at n (k + b + 2) enc2"
      using put_bits_at [OF f1(2), of 16 2 so_start] r True by auto
    obtain enc3 where 3: "nr_rlc_pdu_encoder_put_bits enc2 so_end 16 = Inr enc3" "enc_at n (k + b + 2 + 2) enc3"
      using put_bits_at [OF 2(2), of 16 2 so_end] r True by auto
    show ?thesis
      by (rule that [of enc3 "Some (enc_byte enc2)"]) (use True 2 3 r in \<open>auto simp: enc_at_def\<close>)
  next
    case False
    then show ?thesis using that [of enc1 None] f1(2) by simp
  qed
  obtain enc5 where f3: "(if e3 then nr_rlc_pdu_encoder_put_bits enc4 c 8 else Inr enc4) = Inr enc5"
      "enc_at n (k + b + (if e2 then 4 else 0) + (if e3 then 1 else 0)) enc5"
    using put_bits_at [OF f2(2), of 8 1 c] f2(2) r by (cases e3) auto
  have "put_nack e enc sn_start so_start sn_end so_end c = Inr (enc5, addr)"
    unfolding put_nack_def Let_def e2_def [symmetric] e3_def [symmetric] f1(1) bnd_Inr f2(1) prod.case f3(1) by simp
  moreover have "nat (nack_size e sn_start so_start sn_end so_end) = b + (if e2 then 4 else 0) + (if e3 then 1 else 0)"
    unfolding sz by (rule nat_int)
  ultimately show ?thesis using f3(2) f2(3) by (simp add: add.assoc)
qed

subsection \<open>The generator and the size computation run in step\<close>

definition gm_at :: "nat \<Rightarrow> nat \<Rightarrow> gm_state \<Rightarrow> bool" where
  "gm_at n k g \<longleftrightarrow> enc_at n k (gm_encoder g) \<and> gm_e1_byte g < k \<and>
     (\<forall>a. gm_so_end_address g = Some a \<longrightarrow> a + 2 \<le> n)"

lemma nack_size_bits_eq:
  "am_sn_field_length e = 12 \<or> am_sn_field_length e = 18 \<Longrightarrow>
   nack_size_bits e sn_start so_start sn_end so_end = nack_size e sn_start so_start sn_end so_end"
  by (auto simp: nack_size_bits_def nack_size_def Let_def)

lemma nack_size_pos: "2 \<le> nack_size e sn_start so_start sn_end so_end"
  "am_sn_field_length e = 18 \<Longrightarrow> 3 \<le> nack_size e sn_start so_start sn_end so_end"
  by (auto simp: nack_size_def Let_def)

lemma gm_loop_ms_loop:
  assumes L: "am_sn_field_length e = 12 \<or> am_sn_field_length e = 18"
    and "gm_at n k g" "ms_loop e m c s r (int k) (int n) = (r', z, full)" "\<not> gm_truncated g"
  shows "\<exists>g'. gm_loop e m c s g = Inr g' \<and> gm_at n (nat z) g' \<and> int k \<le> z \<and> gm_truncated g' = full \<and>
     r \<le> r' \<and> (0 < c \<and> \<not> full \<longrightarrow> r < r')"
  using assms
proof (induction e m c s g arbitrary: k r rule: gm_loop.induct)
  case (1 e m c s g)
  note L = 1(2)
  show ?case
  proof (cases "c = 0")
    case True
    then show ?thesis using 1(3-) by (auto simp: gm_loop.simps [of e m 0] ms_loop.simps [of e m 0])
  next
    case False
    obtain so_start sn_end so_end where nb: "nack_bounds e m c s = (so_start, sn_end, so_end)" by (metis prod_cases3)
    let ?z = "nack_size e s so_start sn_end so_end"
    show ?thesis
    proof (cases "int k + ?z > int n")
      case True
      then show ?thesis
        using 1(3-) False nb
        by (auto simp: gm_loop.simps [of e m c] ms_loop.simps [of e m c] Let_def gm_at_def enc_at_def)
    next
      case fits: False
      have enc: "enc_at n k (gm_encoder g)" "gm_e1_byte g < k" using 1(3) by (simp_all add: gm_at_def)
      obtain enc0 where e0: "set_e1 (gm_encoder g) (gm_e1_byte g) (gm_e1_bit g) = Inr enc0" "enc_at n k enc0"
        using set_e1_at [OF enc] by blast
      obtain enc1 addr where e1: "put_nack e enc0 s so_start sn_end so_end (int (min c 255)) = Inr (enc1, addr)"
          "enc_at n (k + nat ?z) enc1" "\<forall>a. addr = Some a \<longrightarrow> a + 2 \<le> n"
        using put_nack_at [OF L e0(2), of s so_start sn_end so_end "int (min c 255)"] fits by force
      let ?g = "g\<lparr>gm_encoder := enc1, gm_e1_byte := fst (get_e1_position e enc0),
          gm_e1_bit := snd (get_e1_position e enc0), gm_so_end_address := addr,
          gm_last_nack := s + (if s \<noteq> sn_end then int (min c 255) - 1 else 0)\<rparr>"
      have at: "gm_at n (k + nat ?z) ?g"
        using e0(2) e1(2,3) nack_size_pos [of e s so_start sn_end so_end]
        by (auto simp: gm_at_def get_e1_position_def enc_at_def)
      have zk: "int (k + nat ?z) = int k + ?z" using nack_size_pos(1) [of e s so_start sn_end so_end] by simp
      have gl: "gm_loop e m c s g = gm_loop e m (c - min c 255) (c_rem (s + int (min c 255)) (am_sn_modulus e)) ?g"
        using False nb fits e0(1) e1(1) enc(1)
        by (subst gm_loop.simps) (simp add: Let_def enc_at_def)
      have ml: "ms_loop e m (c - min c 255) (c_rem (s + int (min c 255)) (am_sn_modulus e)) (r + 1)
          (int (k + nat ?z)) (int n) = (r', z, full)"
        unfolding zk
        using 1(4) False nb fits by (simp add: ms_loop.simps [of e m c] Let_def nack_size_bits_eq [OF L])
      have "\<exists>g'. gm_loop e m (c - min c 255) (c_rem (s + int (min c 255)) (am_sn_modulus e)) ?g = Inr g' \<and>
          gm_at n (nat z) g' \<and> int (k + nat ?z) \<le> z \<and> gm_truncated g' = full \<and> r + 1 \<le> r' \<and>
          (0 < c - min c 255 \<and> \<not> full \<longrightarrow> r + 1 < r')"
      proof (rule 1(1) [OF False refl nb [symmetric] refl refl _ e0(1) e1(1) refl L at ml])
        show "\<not> int (enc_byte (gm_encoder g)) + ?z > int (enc_size (gm_encoder g))"
          using fits enc(1) by (simp add: enc_at_def)
        show "\<not> gm_truncated ?g" using 1(5) by simp
      qed
      then show ?thesis unfolding gl zk using nack_size_pos(1) [of e s so_start sn_end so_end] by force
    qed
  qed
qed

lemma force_so_end_at:
  assumes "gm_at n k g"
  shows "\<exists>g'. force_so_end g = Inr g' \<and> gm_at n k g' \<and> gm_truncated g' = gm_truncated g"
proof (cases "gm_so_end_address g")
  case None
  then show ?thesis using assms by (simp add: force_so_end_def)
next
  case (Some a)
  let ?b = "enc_buffer (gm_encoder g)"
  have a: "a + 2 \<le> length ?b" using assms Some by (auto simp: gm_at_def enc_at_def enc_wf_def)
  show ?thesis
  proof (cases "gm_truncated g")
    case True
    obtain b where b: "memcpy_at ?b a [0xff, 0xff] = Inr b" "length b = length ?b"
      using a by (auto simp: memcpy_at_def)
    then show ?thesis
      using assms Some True by (simp add: force_so_end_def gm_at_def enc_at_def enc_wf_def)
  next
    case False
    then show ?thesis using assms Some by (simp add: force_so_end_def)
  qed
qed

lemma am_sn_count_pos: "0 < am_sn_modulus e \<Longrightarrow> am_sn_modulus e + md_sn_end m \<ge> md_sn_start m \<Longrightarrow> 0 < am_sn_count e m"
proof -
  assume "0 < am_sn_modulus e" "am_sn_modulus e + md_sn_end m \<ge> md_sn_start m"
  then have "0 \<le> c_rem (md_sn_end m - md_sn_start m + am_sn_modulus e) (am_sn_modulus e)"
    by (simp add: c_rem_nonneg)
  then show ?thesis by (simp add: am_sn_count_def)
qed

lemma generate_missing_size:
  assumes L: "am_sn_field_length e = 12 \<or> am_sn_field_length e = 18"
    and "gm_at n k g" "missing_size e m (int k) (int n) = (r, z, m1)"
  shows "\<exists>g1. generate_missing e m (g\<lparr>gm_truncated := False\<rparr>) = Inr (g1, m1) \<and> gm_at n (nat z) g1 \<and> int k \<le> z \<and>
     (m1 = m \<and> (0 < am_sn_count e m \<longrightarrow> 0 < r) \<or> md_next m1 = [])"
proof -
  obtain full where ms: "ms_loop e m (am_sn_count e m) (md_sn_start m) 0 (int k) (int n) = (r, z, full)"
      "m1 = (if full then m\<lparr>md_next := []\<rparr> else m)"
    using assms(3) by (auto simp: missing_size_def split: prod.splits)
  have "gm_at n k (g\<lparr>gm_truncated := False, gm_last_nack := -1\<rparr>)" using assms(2) by (simp add: gm_at_def)
  from gm_loop_ms_loop [OF L this ms(1)]
  obtain g1 where "gm_loop e m (am_sn_count e m) (md_sn_start m) (g\<lparr>gm_truncated := False, gm_last_nack := -1\<rparr>) = Inr g1"
      "gm_at n (nat z) g1" "int k \<le> z" "gm_truncated g1 = full" "0 < am_sn_count e m \<and> \<not> full \<longrightarrow> 0 < r" by auto
  then show ?thesis using ms(2) by (auto simp: generate_missing_def)
qed

text \<open>Sequence numbers stay in range, so a missing part has at least one SDU.\<close>

definition sns_ok :: "int \<Rightarrow> nr_rlc_pdu list \<Rightarrow> bool" where
  "sns_ok m l \<longleftrightarrow> (\<forall>p\<in>set l. 0 \<le> pdu_sn p \<and> pdu_sn p < m)"

definition md_ok :: "int \<Rightarrow> missing_data \<Rightarrow> bool" where
  "md_ok M m \<longleftrightarrow> md_sn_start m < M \<and> 0 \<le> md_sn_end m \<and> sns_ok M (md_next m)"

lemma am_succ_pred_range:
  assumes "am_cfg e" "0 \<le> sn" "sn < am_sn_modulus e"
  shows "am_succ e sn < am_sn_modulus e" "0 \<le> am_succ e sn" "0 \<le> am_pred e sn" "am_pred e sn < am_sn_modulus e"
  using am_cfg_modulus(1) [OF assms(1)] assms(2,3) by (simp_all add: am_succ_def am_pred_def c_rem_nonneg)

lemma nm_set_end_ok:
  assumes "am_cfg e" "a < am_sn_modulus e" "sns_ok (am_sn_modulus e) (c # l)"
  shows "md_ok (am_sn_modulus e) (nm_set_end e a b c (c # l))"
proof -
  have c: "0 \<le> pdu_sn c" "pdu_sn c < am_sn_modulus e" using assms(3) by (simp_all add: sns_ok_def)
  have h: "0 \<le> am_rx_highest_status e" "am_rx_highest_status e < am_sn_modulus e" using am_cfg_range [OF assms(1)] by blast+
  show ?thesis
    using assms(2,3) c am_succ_pred_range [OF assms(1) c] am_succ_pred_range [OF assms(1) h]
    by (simp add: nm_set_end_def md_ok_def Let_def) (simp add: sns_ok_def)
qed

lemma nm_start_range:
  assumes "am_cfg e" "0 \<le> sn" "sn < am_sn_modulus e"
  shows "fst (nm_start e sn lr mx) < am_sn_modulus e"
  using am_succ_pred_range [OF assms] assms(3) by (simp add: nm_start_def)

lemma nm_loop_ok:
  assumes "am_cfg e" "sns_ok (am_sn_modulus e) l" "nm_loop e l max_so lr = Some m"
  shows "md_ok (am_sn_modulus e) m"
  using assms(2,3)
proof (induction l arbitrary: max_so lr)
  case (Cons p l)
  have p: "0 \<le> pdu_sn p" "pdu_sn p < am_sn_modulus e" and l: "sns_ok (am_sn_modulus e) l"
    using Cons.prems(1) by (simp_all add: sns_ok_def)
  have h: "0 \<le> am_rx_highest_status e" "am_rx_highest_status e < am_sn_modulus e" using am_cfg_range [OF assms(1)] by blast+
  note st = nm_start_range [OF assms(1) p] and sp = am_succ_pred_range [OF assms(1) p] am_succ_pred_range [OF assms(1) h]
  show ?case
  proof (cases l)
    case Nil
    then show ?thesis
      using Cons.prems(2) st sp by (auto simp: nm_loop_end md_ok_def sns_ok_def Let_def split: if_splits)
  next
    case (Cons c cs)
    consider "nm_same max_so p c" | "\<not> nm_same max_so p c" "nm_follows e lr p c"
      | "\<not> nm_same max_so p c" "\<not> nm_follows e lr p c" by blast
    then show ?thesis
    proof cases
      case 3
      have "md_ok (am_sn_modulus e) (nm_set_end e (fst (nm_start e (pdu_sn p) x y)) b c (c # cs))" for x y b
        using nm_set_end_ok [OF assms(1) st] l Cons by simp
      then show ?thesis
        using Cons.prems(2) Cons 3 p l by (auto simp: nm_loop_step(3) md_ok_def Let_def split: if_splits)
    qed (use Cons.prems(2) Cons.IH [OF l] Cons nm_loop_step(1,2) in auto)
  qed
qed simp

lemma next_missing_ok:
  assumes "am_cfg e" "sns_ok (am_sn_modulus e) l" "next_missing e l chk = Inr (Some m)"
  shows "md_ok (am_sn_modulus e) m"
proof -
  have r: "am_rx_next e < am_sn_modulus e" using am_cfg_range [OF assms(1)] by blast
  show ?thesis
    using assms nm_loop_ok [OF assms(1,2)] nm_set_end_ok [OF assms(1) r]
    by (auto simp: next_missing_def split: list.splits if_splits)
qed

text \<open>Enough fuel: the position in the receive list advances after the first step.\<close>

lemma gs_loop_ss_loop:
  assumes cfg: "am_cfg e" and "sns_ok (am_sn_modulus e) l" "gm_at n k g" "chk \<longleftrightarrow> nacks = (0 :: nat)"
    and "length l + of_bool chk < fuel"
  shows "\<exists>ln g' z. gs_loop fuel e l chk ln0 g = Inr (ln, g') \<and> ss_loop fuel e l nacks (int k) (int n) = Inr (int z) \<and>
     gm_at n z g' \<and> k \<le> z"
  using assms(2-)
proof (induction fuel arbitrary: l chk nacks k g ln0)
  case (Suc fuel)
  note L = am_cfg_modulus(4) [OF cfg]
  show ?case
  proof (cases "l = []")
    case True
    then show ?thesis using Suc.prems(2) by auto
  next
    case False
    obtain r where r: "next_missing e l chk = Inr r"
        "\<forall>m. r = Some m \<longrightarrow> length (md_next m) \<le> length l \<and> (\<not> chk \<longrightarrow> length (md_next m) < length l)"
      using next_missing_some [OF False] by blast
    show ?thesis
    proof (cases r)
      case None
      then show ?thesis using r(1) False Suc.prems(2,3) by auto
    next
      case (Some m)
      have ok: "md_ok (am_sn_modulus e) m" using next_missing_ok [OF cfg Suc.prems(1)] r(1) Some by simp
      have cnt: "0 < am_sn_count e m"
        using ok am_cfg_modulus(1) [OF cfg] by (intro am_sn_count_pos) (auto simp: md_ok_def)
      obtain j z m1 where ms: "missing_size e m (int k) (int n) = (j, z, m1)" by (metis prod_cases3)
      obtain g1 where g1: "generate_missing e m (g\<lparr>gm_truncated := False\<rparr>) = Inr (g1, m1)" "gm_at n (nat z) g1"
          "int k \<le> z" "m1 = m \<and> 0 < j \<or> md_next m1 = []"
        using generate_missing_size [OF L Suc.prems(2) ms] cnt by auto
      obtain g2 where g2: "force_so_end g1 = Inr g2" "gm_at n (nat z) g2" using force_so_end_at [OF g1(2)] by blast
      have zz: "int (nat z) = z" using g1(3) by simp
      let ?ln = "if gm_last_nack g2 \<noteq> -1 then gm_last_nack g2 else ln0"
      have gs: "gs_loop (Suc fuel) e l chk ln0 g = gs_loop fuel e (md_next m1) False ?ln g2"
        using False r(1) Some g1(1) g2(1) by simp
      have ss: "ss_loop (Suc fuel) e l nacks (int k) (int n) = ss_loop fuel e (md_next m1) (nacks + j) z (int n)"
        using False r(1) Some ms Suc.prems(3) by simp
      have "0 < fuel" using Suc.prems(4) False by (cases l) auto
      show ?thesis
      proof (cases "md_next m1 = []")
        case True
        then have "gs_loop fuel e (md_next m1) False ?ln g2 = Inr (?ln, g2)"
          "ss_loop fuel e (md_next m1) (nacks + j) z (int n) = Inr z"
          using \<open>0 < fuel\<close> by (cases fuel; simp)+
        then show ?thesis unfolding gs ss using g2(2) g1(3) zz by (metis of_nat_le_iff)
      next
        case F: False
        then have m1: "m1 = m" "0 < j" using g1(4) by auto
        have fl: "length (md_next m1) + of_bool False < fuel"
          using r(2) Some m1 Suc.prems(4) by (cases chk) auto
        have "\<exists>ln g' z'. gs_loop fuel e (md_next m1) False ?ln g2 = Inr (ln, g') \<and>
            ss_loop fuel e (md_next m1) (nacks + j) (int (nat z)) (int n) = Inr (int z') \<and> gm_at n z' g' \<and> nat z \<le> z'"
          by (rule Suc.IH [OF _ g2(2) _ fl]) (use ok m1 in \<open>auto simp: md_ok_def\<close>)
        then show ?thesis unfolding gs ss zz using g1(3) by (metis nat_le_iff order.trans zz of_nat_le_iff)
      qed
    qed
  qed
qed simp

subsection \<open>Properties\<close>

lemma put_ack_sn_length: "length (put_ack_sn e a b) = length b"
  by (simp add: put_ack_sn_def)

text \<open>
  C11: the size announced for a status PDU is the size it has.  Whatever the receive list holds,
  \<open>generate_status\<close> returns (its loops end and no byte is written outside the buffer), the PDU fits,
  and \<open>status_size\<close> computes the same size for the same room.
\<close>

theorem am_status_size_exact:
  assumes "am_cfg e" "sns_ok (am_sn_modulus e) (am_rx_list e)"
  shows "\<exists>e' z out. generate_status e buffer = Inr (e', int z, out) \<and>
     status_size e (int (length buffer)) = Inr (int z) \<and> z \<le> length buffer \<and> length out = length buffer"
proof (cases "length buffer < 3")
  case True
  then show ?thesis by (intro exI [of _ e] exI [of _ 0] exI [of _ buffer]) (simp add: generate_status_def status_size_def)
next
  case False
  let ?n = "length buffer" and ?fuel = "2 * length (am_rx_list e) + 2"
  have "enc_at ?n 0 (nr_rlc_pdu_encoder_init buffer)"
    by (intro enc_atI) (simp_all add: nr_rlc_pdu_encoder_init_def enc_wf_def enc_bits_def)
  from put_bits_at [OF this, of 24 3 0] False
  obtain enc where enc: "nr_rlc_pdu_encoder_put_bits (nr_rlc_pdu_encoder_init buffer) 0 24 = Inr enc" "enc_at ?n 3 enc"
    by auto
  let ?g = "\<lparr>gm_encoder = enc, gm_e1_byte = 2, gm_e1_bit = (if am_sn_field_length e = 18 then 1 else 7),
     gm_truncated = False, gm_so_end_address = None, gm_last_nack = -1\<rparr>"
  have at: "gm_at ?n 3 ?g" using enc(2) by (simp add: gm_at_def)
  obtain ln g z where r: "gs_loop ?fuel e (am_rx_list e) True (am_pred e (am_rx_next e)) ?g = Inr (ln, g)"
      "ss_loop ?fuel e (am_rx_list e) 0 (int 3) (int ?n) = Inr (int z)" "gm_at ?n z g"
    using gs_loop_ss_loop [OF assms at, of True 0 ?fuel "am_pred e (am_rx_next e)"] by auto
  have z: "enc_byte (gm_encoder g) = z" "z \<le> ?n" "length (enc_buffer (gm_encoder g)) = ?n"
    using r(3) by (auto simp: gm_at_def enc_at_def enc_wf_def)
  have "generate_status e buffer = Inr (e\<lparr>am_status_triggered := False, am_t_status_prohibit_start := am_t_current e\<rparr>,
      int z, put_ack_sn e (am_succ e ln) (enc_buffer (gm_encoder g)))"
    using False enc(1) r(1) z(1) by (simp add: generate_status_def del: gs_loop.simps)
  moreover have "status_size e (int ?n) = Inr (int z)" using False r(2) by (simp add: status_size_def del: ss_loop.simps)
  ultimately show ?thesis using z(2,3) by (auto simp: put_ack_sn_length)
qed

definition am_status_example :: nr_rlc_entity_am where
  "am_status_example = (projr (new_nr_rlc_entity_am 20000 20000 45 35 0 4 1000 8 12))
     \<lparr>am_rx_list := [nr_rlc_new_pdu 1 0 True True [1, 2], nr_rlc_new_pdu 3 2 False False [3, 4]],
      am_rx_highest_status := 4, am_rx_next_highest := 4\<rparr>"

theorem am_status_size_exact_witness:
  "(\<exists>e' z out. generate_status am_status_example (replicate 12 0) = Inr (e', int z, out) \<and>
     status_size am_status_example 12 = Inr (int z) \<and> z \<le> 12 \<and> length out = 12)"
proof -
  have "am_cfg am_status_example" "sns_ok (am_sn_modulus am_status_example) (am_rx_list am_status_example)"
    by (simp_all add: am_status_example_def new_nr_rlc_entity_am_def am_cfg_def sns_ok_def nr_rlc_new_pdu_def)
  from am_status_size_exact [OF this, of "replicate 12 0"] show ?thesis by simp
qed

end
