(* ===== verification/Ue_Manager.thy ===== *)
theory Ue_Manager
  imports Prelude
begin

text \<open>
  The directories of UEs: \<open>nr_pdcp_ue_manager.c\<close> and \<open>nr_rlc_ue_manager.c\<close>.  The two files
  differ in the type of the entities only, so the operations are defined once, for entities of
  any type \<open>'e\<close>, and named for each of the two.  A UE pointer is the position of the UE in
  \<open>ue_list\<close>.  Every operation runs with the lock of its manager held, so calls do not interleave.
\<close>

subsection \<open>Data\<close>

record 'e ue =
  ue_rnti :: int
  ue_srb :: "'e option list"
  ue_drb :: "'e option list"

record 'e ue_manager =
  mg_ue_list :: "'e ue list"
  mg_enb_flag :: int

definition new_ue_manager :: "int \<Rightarrow> 'e ue_manager" where
  "new_ue_manager enb_flag = \<lparr>mg_ue_list = [], mg_enb_flag = enb_flag\<rparr>"

definition mg_get_enb_flag :: "'e ue_manager \<Rightarrow> int" where
  "mg_get_enb_flag m = mg_enb_flag m"

text \<open>\<open>calloc\<close> of a UE.\<close>

definition empty_ue :: "int \<Rightarrow> 'e ue" where
  "empty_ue rnti = \<lparr>ue_rnti = rnti, ue_srb = replicate 3 None, ue_drb = replicate 5 None\<rparr>"

text \<open>The loop that looks for the UE: the first position with this RNTI, or \<open>ue_count\<close>.\<close>

fun mg_find :: "'e ue list \<Rightarrow> int \<Rightarrow> nat" where
  "mg_find [] rnti = 0"
| "mg_find (u # us) rnti = (if ue_rnti u = rnti then 0 else Suc (mg_find us rnti))"

definition mg_get_ue :: "'e ue_manager \<Rightarrow> int \<Rightarrow> 'e ue_manager \<times> nat" where
  "mg_get_ue m rnti =
     (let i = mg_find (mg_ue_list m) rnti in
      if i < length (mg_ue_list m) then (m, i)
      else (m\<lparr>mg_ue_list := mg_ue_list m @ [empty_ue rnti]\<rparr>, length (mg_ue_list m)))"

text \<open>The entities that \<open>delete\<close> is called on: the first two SRBs and the five DRBs.\<close>

definition ue_entities :: "'e ue \<Rightarrow> 'e list" where
  "ue_entities u = List.map_filter id (take 2 (ue_srb u)) @ List.map_filter id (take 5 (ue_drb u))"

definition mg_remove_ue :: "'e ue_manager \<Rightarrow> int \<Rightarrow> 'e ue_manager \<times> 'e list" where
  "mg_remove_ue m rnti =
     (let i = mg_find (mg_ue_list m) rnti in
      if i = length (mg_ue_list m) then (m, [])
      else (m\<lparr>mg_ue_list := take i (mg_ue_list m) @ drop (Suc i) (mg_ue_list m)\<rparr>,
            ue_entities (mg_ue_list m ! i)))"

definition ue_add_srb :: "'e ue \<Rightarrow> int \<Rightarrow> 'e \<Rightarrow> 'e ue res" where
  "ue_add_srb u srb_id entity =
     (if srb_id < 1 \<or> srb_id > 2 then Inl Exit
      else if ue_srb u ! nat (srb_id - 1) \<noteq> None then Inl Exit
      else Inr (u\<lparr>ue_srb := (ue_srb u)[nat (srb_id - 1) := Some entity]\<rparr>))"

definition ue_add_drb :: "'e ue \<Rightarrow> int \<Rightarrow> 'e \<Rightarrow> 'e ue res" where
  "ue_add_drb u drb_id entity =
     (if drb_id < 1 \<or> drb_id > 5 then Inl Exit
      else if ue_drb u ! nat (drb_id - 1) \<noteq> None then Inl Exit
      else Inr (u\<lparr>ue_drb := (ue_drb u)[nat (drb_id - 1) := Some entity]\<rparr>))"

definition mg_get_ue_count :: "'e ue_manager \<Rightarrow> int" where
  "mg_get_ue_count m = int (length (mg_ue_list m))"

definition mg_get_first_rnti :: "'e ue_manager \<Rightarrow> int" where
  "mg_get_first_rnti m = (if mg_ue_list m = [] then -1 else ue_rnti (hd (mg_ue_list m)))"

text \<open>Writing through the pointer that \<open>get_ue\<close> returned.\<close>

definition mg_update_ue :: "'e ue_manager \<Rightarrow> nat \<Rightarrow> 'e ue \<Rightarrow> 'e ue_manager" where
  "mg_update_ue m i u = m\<lparr>mg_ue_list := (mg_ue_list m)[i := u]\<rparr>"

subsection \<open>The interface of a directory\<close>

text \<open>
  What the users of a manager rely on: a directory is a partial map from RNTIs; looking up an
  unknown RNTI creates a fresh UE, removal forgets the UE and nothing else.
\<close>

locale ue_directory =
  fixes view :: "'m \<Rightarrow> int \<Rightarrow> 'u option"
    and get :: "'m \<Rightarrow> int \<Rightarrow> 'm \<times> nat"
    and at :: "'m \<Rightarrow> nat \<Rightarrow> 'u"
    and remove :: "'m \<Rightarrow> int \<Rightarrow> 'm"
    and fresh :: "int \<Rightarrow> 'u"
    and inv :: "'m \<Rightarrow> bool"
  assumes inv_get: "inv m \<Longrightarrow> inv (fst (get m r))"
    and inv_remove: "inv m \<Longrightarrow> inv (remove m r)"
    and view_get: "inv m \<Longrightarrow> view (fst (get m r)) = (if view m r = None then (view m)(r \<mapsto> fresh r) else view m)"
    and at_get: "inv m \<Longrightarrow> view (fst (get m r)) r = Some (at (fst (get m r)) (snd (get m r)))"
    and view_remove: "inv m \<Longrightarrow> view (remove m r) = (view m)(r := None)"
begin

lemma get_known: "inv m \<Longrightarrow> view m r = Some u \<Longrightarrow> view (fst (get m r)) = view m \<and> at (fst (get m r)) (snd (get m r)) = u"
  using view_get [of m r] at_get [of m r] by simp

lemma get_unknown: "inv m \<Longrightarrow> view m r = None \<Longrightarrow> at (fst (get m r)) (snd (get m r)) = fresh r"
  using view_get [of m r] at_get [of m r] by simp

lemma get_idem:
  assumes "inv m"
  shows "view (fst (get (fst (get m r)) r)) = view (fst (get m r))"
  using view_get [OF inv_get [OF assms, of r], of r] view_get [OF assms, of r] by simp

lemma get_other: "inv m \<Longrightarrow> s \<noteq> r \<Longrightarrow> view (fst (get m r)) s = view m s"
  by (simp add: view_get)

lemma remove_get:
  assumes "inv m"
  shows "view (remove (fst (get m r)) r) = (view m)(r := None)"
  using view_remove [OF inv_get [OF assms, of r], of r] view_get [OF assms, of r] by auto

lemma get_after_remove:
  assumes "inv m"
  shows "at (fst (get (remove m r) r)) (snd (get (remove m r) r)) = fresh r"
  using get_unknown [OF inv_remove [OF assms, of r], of r] view_remove [OF assms, of r] by simp

end

subsection \<open>The managers are directories\<close>

definition mg_view :: "'e ue_manager \<Rightarrow> int \<Rightarrow> 'e ue option" where
  "mg_view m rnti = List.find (\<lambda>u. ue_rnti u = rnti) (mg_ue_list m)"

definition ue_ok :: "'e ue \<Rightarrow> bool" where
  "ue_ok u \<longleftrightarrow> length (ue_srb u) = 3 \<and> length (ue_drb u) = 5"

definition mg_inv :: "'e ue_manager \<Rightarrow> bool" where
  "mg_inv m \<longleftrightarrow> distinct (map ue_rnti (mg_ue_list m)) \<and> (\<forall>u\<in>set (mg_ue_list m). ue_ok u)"

definition mg_at :: "'e ue_manager \<Rightarrow> nat \<Rightarrow> 'e ue" where
  "mg_at m i = mg_ue_list m ! i"

lemma mg_find_le: "mg_find us r \<le> length us"
  by (induction us) auto

lemma mg_find_found: "mg_find us r < length us \<longleftrightarrow> r \<in> ue_rnti ` set us"
  by (induction us) auto

lemma mg_find_nth: "mg_find us r < length us \<Longrightarrow> List.find (\<lambda>u. ue_rnti u = r) us = Some (us ! mg_find us r)"
  by (induction us) auto

lemma find_rnti_None: "List.find (\<lambda>u. ue_rnti u = r) us = None \<longleftrightarrow> r \<notin> ue_rnti ` set us"
  by (induction us) auto

lemma find_append: "List.find P (xs @ ys) = (case List.find P xs of None \<Rightarrow> List.find P ys | Some x \<Rightarrow> Some x)"
  by (induction xs) auto

lemma mg_remove_split:
  assumes "distinct (map ue_rnti us)" "mg_find us r < length us"
  shows "take (mg_find us r) us @ drop (Suc (mg_find us r)) us = filter (\<lambda>u. ue_rnti u \<noteq> r) us"
  using assms
proof (induction us)
  case (Cons u us)
  show ?case
  proof (cases "ue_rnti u = r")
    case True
    then have "\<forall>v\<in>set us. ue_rnti v \<noteq> r" using Cons.prems(1) by (auto simp: image_iff)
    then show ?thesis using True by (simp add: filter_id_conv)
  next
    case False
    then show ?thesis using Cons by simp
  qed
qed simp

lemma mg_remove_filter:
  assumes "mg_inv m"
  shows "mg_ue_list (fst (mg_remove_ue m r)) = filter (\<lambda>u. ue_rnti u \<noteq> r) (mg_ue_list m)"
proof (cases "r \<in> ue_rnti ` set (mg_ue_list m)")
  case True
  then have "mg_find (mg_ue_list m) r < length (mg_ue_list m)" by (simp add: mg_find_found)
  then show ?thesis
    using mg_remove_split [of "mg_ue_list m" r] assms by (simp add: mg_remove_ue_def mg_inv_def Let_def)
next
  case False
  then have "mg_find (mg_ue_list m) r = length (mg_ue_list m)"
    using mg_find_le [of "mg_ue_list m" r] mg_find_found [of "mg_ue_list m" r] by simp
  moreover have "filter (\<lambda>u. ue_rnti u \<noteq> r) (mg_ue_list m) = mg_ue_list m"
    using False by (intro filter_True) auto
  ultimately show ?thesis by (simp add: mg_remove_ue_def Let_def)
qed

lemma find_filter:
  "List.find (\<lambda>u. ue_rnti u = s) (filter (\<lambda>u. ue_rnti u \<noteq> r) us) =
     (if s = r then None else List.find (\<lambda>u. ue_rnti u = s) us)"
  by (induction us) auto

interpretation mg: ue_directory mg_view mg_get_ue mg_at "\<lambda>m r. fst (mg_remove_ue m r)" empty_ue mg_inv
proof
  fix m :: "'e ue_manager" and r
  assume inv: "mg_inv m"
  let ?us = "mg_ue_list m"
  have known: "mg_find ?us r < length ?us \<longleftrightarrow> mg_view m r \<noteq> None"
    using mg_find_found [of ?us r] by (simp add: mg_view_def find_rnti_None)
  show "mg_inv (fst (mg_get_ue m r))"
    using inv mg_find_found [of ?us r] by (auto simp: mg_get_ue_def mg_inv_def Let_def empty_ue_def ue_ok_def)
  show "mg_view (fst (mg_get_ue m r)) = (if mg_view m r = None then (mg_view m)(r \<mapsto> empty_ue r) else mg_view m)"
    using known by (auto simp: mg_get_ue_def mg_view_def Let_def find_append empty_ue_def split: option.splits)
  show "mg_view (fst (mg_get_ue m r)) r = Some (mg_at (fst (mg_get_ue m r)) (snd (mg_get_ue m r)))"
    using known mg_find_nth [of ?us r]
    by (auto simp: mg_get_ue_def mg_view_def mg_at_def Let_def find_append empty_ue_def split: option.splits)
  have rm: "mg_ue_list (fst (mg_remove_ue m r)) = filter (\<lambda>u. ue_rnti u \<noteq> r) ?us" by (rule mg_remove_filter [OF inv])
  show "mg_inv (fst (mg_remove_ue m r))"
    using inv rm by (auto simp: mg_inv_def distinct_map intro: inj_on_subset)
  show "mg_view (fst (mg_remove_ue m r)) = (mg_view m)(r := None)"
    unfolding mg_view_def rm find_filter by auto
qed

subsection \<open>Bearers of a UE\<close>

text \<open>A pointer to an entity.\<close>

datatype rb_ptr = SrbAt nat | DrbAt nat

fun rb_slot :: "'e ue \<Rightarrow> rb_ptr \<Rightarrow> 'e option" where
  "rb_slot u (SrbAt i) = ue_srb u ! i"
| "rb_slot u (DrbAt i) = ue_drb u ! i"

fun rb_store :: "'e ue \<Rightarrow> rb_ptr \<Rightarrow> 'e \<Rightarrow> 'e ue" where
  "rb_store u (SrbAt i) e = u\<lparr>ue_srb := (ue_srb u)[i := Some e]\<rparr>"
| "rb_store u (DrbAt i) e = u\<lparr>ue_drb := (ue_drb u)[i := Some e]\<rparr>"

fun slot_valid :: "rb_ptr \<Rightarrow> bool" where
  "slot_valid (SrbAt i) \<longleftrightarrow> i < 3"
| "slot_valid (DrbAt i) \<longleftrightarrow> i < 5"

lemma rb_slot_store:
  assumes "ue_ok u" "slot_valid p" "slot_valid q"
  shows "rb_slot (rb_store u p e) q = (if q = p then Some e else rb_slot u q)"
  using assms by (cases p; cases q) (auto simp: ue_ok_def)

lemma rb_store_facts [simp]: "ue_rnti (rb_store u p e) = ue_rnti u" "ue_ok (rb_store u p e) = ue_ok u"
  by (cases p; simp add: ue_ok_def)+

lemma empty_ue_slot: "slot_valid p \<Longrightarrow> rb_slot (empty_ue r) p = None"
  by (cases p) (auto simp: empty_ue_def)

subsection \<open>Looking a UE up\<close>

lemma view_get_ue:
  assumes "mg_inv m" "mg_get_ue m r = (m', ui)"
  shows "mg_at m' ui = (case mg_view m r of None \<Rightarrow> empty_ue r | Some u \<Rightarrow> u)"
    "mg_view m r = Some u \<Longrightarrow> m' = m"
proof -
  show "mg_at m' ui = (case mg_view m r of None \<Rightarrow> empty_ue r | Some u \<Rightarrow> u)"
    using mg.get_known [OF assms(1), of r] mg.get_unknown [OF assms(1), of r] assms(2) by (simp split: option.splits)
  show "mg_view m r = Some u \<Longrightarrow> m' = m"
    using assms(2) mg_find_found [of "mg_ue_list m" r] find_rnti_None [of r "mg_ue_list m"]
    by (auto simp: mg_get_ue_def mg_view_def Let_def split: if_splits)
qed

lemma mg_view_rnti: "mg_view m r = Some u \<Longrightarrow> ue_rnti u = r"
  by (auto simp: mg_view_def find_Some_iff)

lemma get_ue_rnti:
  assumes "mg_inv m" "mg_get_ue m r = (m', ui)"
  shows "ue_rnti (mg_at m' ui) = r"
  using view_get_ue(1) [OF assms] mg_view_rnti [of m r] by (auto simp: empty_ue_def split: option.splits)

text \<open>After a write through the pointer that \<open>get_ue\<close> returned.\<close>

lemma view_update:
  assumes "mg_inv m" "mg_get_ue m r = (m', ui)" "ue_rnti u = r"
  shows "mg_view (mg_update_ue m' ui u) r = Some u"
proof -
  have ui: "ui = mg_find (mg_ue_list m') r" "ui < length (mg_ue_list m')"
  proof -
    have "mg_find (us @ [empty_ue r]) r = length us" if "mg_find us r = length us" for us :: "'a ue list"
      using that by (induction us) (auto simp: empty_ue_def split: if_splits)
    then show "ui = mg_find (mg_ue_list m') r" "ui < length (mg_ue_list m')"
      using assms(2) mg_find_le [of "mg_ue_list m" r] by (auto simp: mg_get_ue_def Let_def split: if_splits)
  qed
  have "List.find (\<lambda>v. ue_rnti v = r) (us[mg_find us r := u]) = Some u" if "mg_find us r < length us" for us
    using that assms(3) by (induction us) auto
  then show ?thesis using ui by (simp add: mg_view_def mg_update_ue_def)
qed

subsection \<open>The context of a call\<close>

record protocol_ctxt =
  cx_module_id :: int
  cx_enb_flag :: bool
  cx_instance :: int
  cx_rnti :: int
  cx_frame :: int
  cx_subframe :: int
  cx_eNB_index :: int
  cx_brOption :: bool

definition rlc_ctxt :: "int \<Rightarrow> protocol_ctxt" where
  "rlc_ctxt rnti =
     \<lparr>cx_module_id = 0, cx_enb_flag = True, cx_instance = 0, cx_rnti = rnti, cx_frame = 0,
      cx_subframe = 0, cx_eNB_index = 0, cx_brOption = False\<rparr>"

end
