(* ===== verification/Rlc_Api.thy ===== *)
theory Rlc_Api
  imports Rlc_Um Rlc_Am Rlc_Tm Ue_Manager
begin

text \<open>
  The RLC layer as MAC, PDCP and RRC see it: \<open>nr_rlc_oai_api.c\<close>, \<open>nr_rlc_ue_manager.c\<close> and
  \<open>asn1_utils.c\<close>.  The state is the directory of UEs with their entities and the clock.  Every
  call runs with the lock of the manager held.  The callbacks of an entity are run after its
  operation; they only send messages.
\<close>

subsection \<open>Entities behind one interface\<close>

text \<open>The function pointers of \<open>nr_rlc_entity_t\<close>, by the kind of the entity.\<close>

datatype nr_rlc_entity = TmEntity nr_rlc_entity_tm | UmEntity nr_rlc_entity_um | AmEntity nr_rlc_entity_am

fun rlc_recv_pdu :: "nr_rlc_entity \<Rightarrow> bytes \<Rightarrow> (nr_rlc_entity \<times> rlc_event list) res" where
  "rlc_recv_pdu (TmEntity e) b = (case nr_rlc_entity_tm_recv_pdu e b of (e', ev) \<Rightarrow> Inr (TmEntity e', ev))"
| "rlc_recv_pdu (UmEntity e) b = bnd (nr_rlc_entity_um_recv_pdu e b) (\<lambda>(e', ev). Inr (UmEntity e', ev))"
| "rlc_recv_pdu (AmEntity e) b = bnd (nr_rlc_entity_am_recv_pdu e b) (\<lambda>(e', ev). Inr (AmEntity e', ev))"

fun rlc_recv_sdu :: "nr_rlc_entity \<Rightarrow> bytes \<Rightarrow> int \<Rightarrow> nr_rlc_entity res" where
  "rlc_recv_sdu (TmEntity e) b i = bnd (nr_rlc_entity_tm_recv_sdu e b i) (\<lambda>e'. Inr (TmEntity e'))"
| "rlc_recv_sdu (UmEntity e) b i = bnd (nr_rlc_entity_um_recv_sdu e b i) (\<lambda>e'. Inr (UmEntity e'))"
| "rlc_recv_sdu (AmEntity e) b i = bnd (nr_rlc_entity_am_recv_sdu e b i) (\<lambda>e'. Inr (AmEntity e'))"

fun rlc_generate_pdu :: "nr_rlc_entity \<Rightarrow> bytes \<Rightarrow> (nr_rlc_entity \<times> int \<times> bytes) res" where
  "rlc_generate_pdu (TmEntity e) b = bnd (nr_rlc_entity_tm_generate_pdu e b) (\<lambda>(e', r). Inr (TmEntity e', r))"
| "rlc_generate_pdu (UmEntity e) b = bnd (nr_rlc_entity_um_generate_pdu e b) (\<lambda>(e', r). Inr (UmEntity e', r))"
| "rlc_generate_pdu (AmEntity e) b = bnd (nr_rlc_entity_am_generate_pdu e b) (\<lambda>(e', r). Inr (AmEntity e', r))"

fun rlc_set_time :: "nr_rlc_entity \<Rightarrow> u64 \<Rightarrow> (nr_rlc_entity \<times> rlc_event list) res" where
  "rlc_set_time (TmEntity e) t = Inr (TmEntity (nr_rlc_entity_tm_set_time e t), [])"
| "rlc_set_time (UmEntity e) t = bnd (nr_rlc_entity_um_set_time e t) (\<lambda>e'. Inr (UmEntity e', []))"
| "rlc_set_time (AmEntity e) t = bnd (nr_rlc_entity_am_set_time e t) (\<lambda>(e', ev). Inr (AmEntity e', ev))"

fun rlc_buffer_status :: "nr_rlc_entity \<Rightarrow> int \<Rightarrow> nr_rlc_entity_buffer_status res" where
  "rlc_buffer_status (TmEntity e) n = Inr (nr_rlc_entity_tm_buffer_status e n)"
| "rlc_buffer_status (UmEntity e) n = Inr (nr_rlc_entity_um_buffer_status e n)"
| "rlc_buffer_status (AmEntity e) n = nr_rlc_entity_am_buffer_status e n"

fun rlc_delete :: "nr_rlc_entity \<Rightarrow> sdu_heap res" where
  "rlc_delete (TmEntity e) = nr_rlc_entity_tm_delete e"
| "rlc_delete (UmEntity e) = nr_rlc_entity_um_delete e"
| "rlc_delete (AmEntity e) = nr_rlc_entity_am_delete e"

subsection \<open>The manager\<close>

definition new_nr_rlc_ue_manager :: "int \<Rightarrow> nr_rlc_entity ue_manager" where
  "new_nr_rlc_ue_manager = new_ue_manager"

definition nr_rlc_manager_get_enb_flag :: "nr_rlc_entity ue_manager \<Rightarrow> int" where
  "nr_rlc_manager_get_enb_flag = mg_get_enb_flag"

definition nr_rlc_manager_get_ue :: "nr_rlc_entity ue_manager \<Rightarrow> int \<Rightarrow> nr_rlc_entity ue_manager \<times> nat" where
  "nr_rlc_manager_get_ue = mg_get_ue"

text \<open>\<open>remove_ue\<close> deletes the entities of the UE; a fault of a deletion is one of the removal.\<close>

definition nr_rlc_manager_remove_ue :: "nr_rlc_entity ue_manager \<Rightarrow> int \<Rightarrow> nr_rlc_entity ue_manager res" where
  "nr_rlc_manager_remove_ue m rnti =
     (case mg_remove_ue m rnti of (m', es) \<Rightarrow>
        bnd (fold_res (\<lambda>_ e. bnd (rlc_delete e) (\<lambda>_. Inr ())) () es) (\<lambda>_. Inr m'))"

definition nr_rlc_ue_add_srb_rlc_entity :: "nr_rlc_entity ue \<Rightarrow> int \<Rightarrow> nr_rlc_entity \<Rightarrow> nr_rlc_entity ue res" where
  "nr_rlc_ue_add_srb_rlc_entity = ue_add_srb"

definition nr_rlc_ue_add_drb_rlc_entity :: "nr_rlc_entity ue \<Rightarrow> int \<Rightarrow> nr_rlc_entity \<Rightarrow> nr_rlc_entity ue res" where
  "nr_rlc_ue_add_drb_rlc_entity = ue_add_drb"

subsection \<open>State and messages\<close>

text \<open>\<open>RC.nrrrc[0]->node_type\<close>, and no RRC context at all.\<close>

datatype node_type = NodeCu | NodeDu | NodeOther

record rlc_layer =
  rl_manager :: "nr_rlc_entity ue_manager"
  rl_time :: u64
  rl_last_frame :: int
  rl_last_subframe :: int

datatype rlc_msg =
    PdcpDataInd protocol_ctxt bool int bytes
  | F1apUlRrcMessage int int bytes
  | GtpuToCu int int bytes

definition initial_rlc_layer :: "int \<Rightarrow> rlc_layer" where
  "initial_rlc_layer enb_flag =
     \<lparr>rl_manager = new_nr_rlc_ue_manager enb_flag, rl_time = 0, rl_last_frame = 0, rl_last_subframe = 0\<rparr>"

text \<open>A second initialisation for the same side ends the process.  The two flags are the static variables
  \<open>inited\<close> and \<open>inited_ue\<close>.\<close>

definition rlc_module_init :: "bool \<times> bool \<Rightarrow> rlc_layer \<Rightarrow> int \<Rightarrow> ((bool \<times> bool) \<times> rlc_layer) res" where
  "rlc_module_init = (\<lambda>(inited, inited_ue) L enb_flag.
     bnd (guard (\<not> (enb_flag = 1 \<and> inited)) Exit) (\<lambda>_.
     bnd (guard (\<not> (enb_flag = 0 \<and> inited_ue)) Exit) (\<lambda>_.
       Inr ((inited \<or> enb_flag = 1, inited_ue \<or> enb_flag = 0),
            L\<lparr>rl_manager := new_nr_rlc_ue_manager enb_flag\<rparr>))))"

definition rl_ue :: "rlc_layer \<Rightarrow> nat \<Rightarrow> nr_rlc_entity ue" where
  "rl_ue L ui = mg_at (rl_manager L) ui"

definition rl_store :: "rlc_layer \<Rightarrow> nat \<Rightarrow> rb_ptr \<Rightarrow> nr_rlc_entity \<Rightarrow> rlc_layer" where
  "rl_store L ui p e = L\<lparr>rl_manager := mg_update_ue (rl_manager L) ui (rb_store (rl_ue L ui) p e)\<rparr>"

subsection \<open>Callbacks\<close>

text \<open>The search for the entity among the first \<open>n\<close> signalling bearers and the data bearers.\<close>

definition rlc_find_rb :: "nat \<Rightarrow> nr_rlc_entity ue \<Rightarrow> rb_ptr \<Rightarrow> (bool \<times> int) res" where
  "rlc_find_rb n u p =
     (case p of
        SrbAt i \<Rightarrow> if i < n \<and> ue_srb u ! i \<noteq> None then Inr (True, int i + 1) else Inl Exit
      | DrbAt i \<Rightarrow> if i < 5 \<and> ue_drb u ! i \<noteq> None then Inr (False, int i + 1) else Inl Exit)"

definition rlc_deliver_sdu ::
    "node_type option \<Rightarrow> rlc_layer \<Rightarrow> nr_rlc_entity ue \<Rightarrow> rb_ptr \<Rightarrow> bytes \<Rightarrow> rlc_msg list res" where
  "rlc_deliver_sdu nt L u p buf =
     bnd (rlc_find_rb 3 u p) (\<lambda>(is_srb, rb_id).
       let is_enb = (nr_rlc_manager_get_enb_flag (rl_manager L) \<noteq> 0);
           ctx = (rlc_ctxt (ue_rnti u))\<lparr>cx_enb_flag := is_enb\<rparr>
       in if is_enb
          then bnd (deref nt NullDeref) (\<lambda>type.
               bnd (guard (type \<noteq> NodeCu) Exit) (\<lambda>_.
                 Inr (if type = NodeDu
                      then (if is_srb then [F1apUlRrcMessage (ue_rnti u) rb_id buf]
                            else [GtpuToCu (ue_rnti u) rb_id buf])
                      else [PdcpDataInd ctx is_srb rb_id buf])))
          else Inr [PdcpDataInd ctx is_srb rb_id buf])"

text \<open>These two look for the bearer, which ends the process if it is not found, and do nothing else.\<close>

definition successful_delivery :: "nr_rlc_entity ue \<Rightarrow> rb_ptr \<Rightarrow> rlc_msg list res" where
  "successful_delivery u p = bnd (rlc_find_rb 2 u p) (\<lambda>_. Inr [])"

definition max_retx_reached :: "nr_rlc_entity ue \<Rightarrow> rb_ptr \<Rightarrow> rlc_msg list res" where
  "max_retx_reached u p = bnd (rlc_find_rb 2 u p) (\<lambda>_. Inr [])"

fun rlc_callback ::
    "node_type option \<Rightarrow> nat \<Rightarrow> rb_ptr \<Rightarrow> rlc_layer \<Rightarrow> rlc_event \<Rightarrow> (rlc_layer \<times> rlc_msg list) res" where
  "rlc_callback nt ui p L (DeliverSdu b) = bnd (rlc_deliver_sdu nt L (rl_ue L ui) p b) (\<lambda>ms. Inr (L, ms))"
| "rlc_callback nt ui p L (SduSuccessfulDelivery i) = bnd (successful_delivery (rl_ue L ui) p) (\<lambda>ms. Inr (L, ms))"
| "rlc_callback nt ui p L MaxRetxReached = bnd (max_retx_reached (rl_ue L ui) p) (\<lambda>ms. Inr (L, ms))"

text \<open>An operation of an entity that may run callbacks, and \<open>rb->set_time(rb, nr_rlc_current_time)\<close>.\<close>

definition rb_operation ::
    "node_type option \<Rightarrow> nat \<Rightarrow> rb_ptr \<Rightarrow> (nr_rlc_entity \<Rightarrow> (nr_rlc_entity \<times> rlc_event list) res) \<Rightarrow>
     rlc_layer \<Rightarrow> (rlc_layer \<times> rlc_msg list) res" where
  "rb_operation nt ui p f L =
     bnd (deref (rb_slot (rl_ue L ui) p) NullDeref) (\<lambda>rb.
     bnd (f rb) (\<lambda>(rb', evs). run_ops (rlc_callback nt ui p) (rl_store L ui p rb') evs))"

definition rb_at_current_time ::
    "node_type option \<Rightarrow> nat \<Rightarrow> rb_ptr \<Rightarrow> rlc_layer \<Rightarrow> (rlc_layer \<times> rlc_msg list) res" where
  "rb_at_current_time nt ui p L = rb_operation nt ui p (\<lambda>e. rlc_set_time e (rl_time L)) L"

subsection \<open>The interface to MAC\<close>

text \<open>\<open>switch (channel_id)\<close>: the bearer of a logical channel.\<close>

definition rlc_channel :: "nr_rlc_entity ue \<Rightarrow> int \<Rightarrow> rb_ptr option" where
  "rlc_channel u channel_id =
     (let p = (if 1 \<le> channel_id \<and> channel_id \<le> 3 then Some (SrbAt (nat (channel_id - 1)))
               else if 4 \<le> channel_id \<and> channel_id \<le> 8 then Some (DrbAt (nat (channel_id - 4)))
               else None)
      in case p of None \<Rightarrow> None | Some p \<Rightarrow> if rb_slot u p = None then None else Some p)"

definition mac_rlc_data_ind ::
    "node_type option \<Rightarrow> rlc_layer \<Rightarrow> int \<Rightarrow> int \<Rightarrow> int \<Rightarrow> bool \<Rightarrow> int \<Rightarrow> bytes \<Rightarrow> (rlc_layer \<times> rlc_msg list) res" where
  "mac_rlc_data_ind nt L module_id rnti eNB_index MBMS_flag channel_id buffer =
     bnd (guard (module_id = 0 \<and> eNB_index = 0 \<and> \<not> MBMS_flag) Exit) (\<lambda>_.
       case nr_rlc_manager_get_ue (rl_manager L) rnti of (m, ui) \<Rightarrow>
         let L1 = L\<lparr>rl_manager := m\<rparr> in
         case rlc_channel (rl_ue L1 ui) channel_id of
           None \<Rightarrow> Inr (L1, [])
         | Some p \<Rightarrow>
             bnd (rb_at_current_time nt ui p L1) (\<lambda>(L2, ms2).
             bnd (rb_operation nt ui p (\<lambda>e. rlc_recv_pdu e buffer) L2) (\<lambda>(L3, ms3). Inr (L3, ms2 @ ms3))))"

definition mac_rlc_data_req ::
    "node_type option \<Rightarrow> rlc_layer \<Rightarrow> int \<Rightarrow> int \<Rightarrow> bytes \<Rightarrow> ((rlc_layer \<times> rlc_msg list) \<times> int \<times> bytes) res" where
  "mac_rlc_data_req nt L rnti channel_id buffer =
     (case nr_rlc_manager_get_ue (rl_manager L) rnti of (m, ui) \<Rightarrow>
        let L1 = L\<lparr>rl_manager := m\<rparr> in
        case rlc_channel (rl_ue L1 ui) channel_id of
          None \<Rightarrow> Inr ((L1, []), 0, buffer)
        | Some p \<Rightarrow>
            bnd (rb_at_current_time nt ui p L1) (\<lambda>(L2, ms).
            bnd (deref (rb_slot (rl_ue L2 ui) p) NullDeref) (\<lambda>rb.
            bnd (rlc_generate_pdu rb buffer) (\<lambda>(rb', ret). Inr ((rl_store L2 ui p rb', ms), ret)))))"

text \<open>The bytes a bearer has to send, as \<open>mac_rlc_status_ind\<close> reports them to the scheduler.\<close>

definition mac_rlc_status_ind ::
    "node_type option \<Rightarrow> rlc_layer \<Rightarrow> int \<Rightarrow> int \<Rightarrow> ((rlc_layer \<times> rlc_msg list) \<times> int) res" where
  "mac_rlc_status_ind nt L rnti channel_id =
     (case nr_rlc_manager_get_ue (rl_manager L) rnti of (m, ui) \<Rightarrow>
        let L1 = L\<lparr>rl_manager := m\<rparr> in
        case rlc_channel (rl_ue L1 ui) channel_id of
          None \<Rightarrow> Inr ((L1, []), 0)
        | Some p \<Rightarrow>
            bnd (rb_at_current_time nt ui p L1) (\<lambda>(L2, ms).
            bnd (deref (rb_slot (rl_ue L2 ui) p) NullDeref) (\<lambda>rb.
            bnd (rlc_buffer_status rb (1000 * 1000)) (\<lambda>b.
              Inr ((L2, ms), bs_status_size b + bs_retx_size b + bs_tx_size b)))))"

definition nr_rlc_tick :: "rlc_layer \<Rightarrow> int \<Rightarrow> int \<Rightarrow> rlc_layer" where
  "nr_rlc_tick L frame subframe =
     (if frame \<noteq> rl_last_frame L \<or> subframe \<noteq> rl_last_subframe L
      then L\<lparr>rl_last_frame := frame, rl_last_subframe := subframe, rl_time := rl_time L + 1\<rparr> else L)"

definition mac_rlc_get_buffer_occupancy_ind ::
    "node_type option \<Rightarrow> rlc_layer \<Rightarrow> int \<Rightarrow> int \<Rightarrow> int \<Rightarrow> bool \<Rightarrow> int \<Rightarrow> ((rlc_layer \<times> rlc_msg list) \<times> int) res" where
  "mac_rlc_get_buffer_occupancy_ind nt L rnti frame subframe enb_flag channel_id =
     bnd (guard (\<not> enb_flag) Exit) (\<lambda>_. mac_rlc_status_ind nt (nr_rlc_tick L frame subframe) rnti channel_id)"

subsection \<open>The interface to PDCP\<close>

definition rlc_data_req ::
    "node_type option \<Rightarrow> rlc_layer \<Rightarrow> protocol_ctxt \<Rightarrow> bool \<Rightarrow> int \<Rightarrow> int \<Rightarrow> bytes \<Rightarrow> (rlc_layer \<times> rlc_msg list) res" where
  "rlc_data_req nt L ctxt srb_flag rb_id mui sdu =
     (case nr_rlc_manager_get_ue (rl_manager L) (cx_rnti ctxt) of (m, ui) \<Rightarrow>
        let L1 = L\<lparr>rl_manager := m\<rparr>;
            p = (if srb_flag then SrbAt (nat (rb_id - 1)) else DrbAt (nat (rb_id - 1))) in
        if 1 \<le> rb_id \<and> rb_id \<le> (if srb_flag then 2 else 5) \<and> rb_slot (rl_ue L1 ui) p \<noteq> None
        then bnd (rb_at_current_time nt ui p L1) (\<lambda>(L2, ms2).
             bnd (rb_operation nt ui p (\<lambda>e. bnd (rlc_recv_sdu e sdu mui) (\<lambda>e'. Inr (e', []))) L2)
               (\<lambda>(L3, ms3). Inr (L3, ms2 @ ms3)))
        else Inr (L1, []))"

subsection \<open>Decoding of configuration values\<close>

text \<open>A table of \<open>asn1_utils.c\<close> at an index; an index outside the table ends the process.\<close>

definition decode_table :: "int list \<Rightarrow> int \<Rightarrow> int res" where
  "decode_table tab v = (if v < 0 \<or> v > int (length tab) - 1 then Inl Exit else Inr (tab ! nat v))"

definition decode_t_reassembly :: "int \<Rightarrow> int res" where
  "decode_t_reassembly = decode_table
     [0, 5, 10, 15, 20, 25, 30, 35, 40, 45, 50, 55, 60, 65, 70, 75, 80, 85, 90,
      95, 100, 110, 120, 130, 140, 150, 160, 170, 180, 190, 200]"

definition decode_t_status_prohibit :: "int \<Rightarrow> int res" where
  "decode_t_status_prohibit = decode_table
     [0, 5, 10, 15, 20, 25, 30, 35, 40, 45, 50, 55, 60, 65, 70, 75, 80, 85, 90,
      95, 100, 105, 110, 115, 120, 125, 130, 135, 140, 145, 150, 155, 160, 165,
      170, 175, 180, 185, 190, 195, 200, 205, 210, 215, 220, 225, 230, 235, 240,
      245, 250, 300, 350, 400, 450, 500, 800, 1000, 1200, 1600, 2000, 2400]"

definition decode_t_poll_retransmit :: "int \<Rightarrow> int res" where
  "decode_t_poll_retransmit = decode_table
     [5, 10, 15, 20, 25, 30, 35, 40, 45, 50, 55, 60, 65, 70, 75, 80, 85, 90, 95,
      100, 105, 110, 115, 120, 125, 130, 135, 140, 145, 150, 155, 160, 165, 170,
      175, 180, 185, 190, 195, 200, 205, 210, 215, 220, 225, 230, 235, 240, 245,
      250, 300, 350, 400, 450, 500, 800, 1000, 2000, 4000]"

text \<open>The initialiser of this table has no comma before its last number: it gives 23 values, the
  last one \<open>65536 - 1\<close>, and C fills the 24th with 0.\<close>

definition decode_poll_pdu :: "int \<Rightarrow> int res" where
  "decode_poll_pdu = decode_table
     [4, 8, 16, 32, 64, 128, 256, 512, 1024, 2048, 4096, 6144, 8192, 12288,
      16384, 20480, 24576, 28672, 32768, 40960, 49152, 57344, 65536
      - 1, 0]"

text \<open>The product of two C \<open>int\<close>s.\<close>

definition int_mul :: "int \<Rightarrow> int \<Rightarrow> int res" where
  "int_mul a b = (if - (2 ^ 31) \<le> a * b \<and> a * b < 2 ^ 31 then Inr (a * b) else Inl Overflow)"

definition decode_poll_byte :: "int \<Rightarrow> int res" where
  "decode_poll_byte v =
     bnd (decode_table
       [1024 * 1,    1024 * 2,    1024 * 5,    1024 * 8,    1024 * 10,
        1024 * 15,   1024 * 25,   1024 * 50,   1024 * 75,   1024 * 100,
        1024 * 125,  1024 * 250,  1024 * 375,  1024 * 500,  1024 * 750,
        1024 * 1000, 1024 * 1250, 1024 * 1500, 1024 * 2000, 1024 * 3000,
        1024 * 4000, 1024 * 4500, 1024 * 5000, 1024 * 5500, 1024 * 6000,
        1024 * 6500, 1024 * 7000, 1024 * 7500,
        1024 * 1024 * 8,  1024 * 1024 * 9,  1024 * 1024 * 10, 1024 * 1024 * 11,
        1024 * 1024 * 12, 1024 * 1024 * 13, 1024 * 1024 * 14, 1024 * 1024 * 15,
        1024 * 1024 * 16, 1024 * 1024 * 17, 1024 * 1024 * 18, 1024 * 1024 * 20,
        1024 * 1024 * 25, 1024 * 1024 * 30, 1024 * 1024 * 40, -1] v)
       (\<lambda>t. if t = -1 then Inr (-1) else int_mul t 1024)"

definition decode_max_retx_threshold :: "int \<Rightarrow> int res" where
  "decode_max_retx_threshold = decode_table [1, 2, 3, 4, 6, 8, 16, 32]"

definition decode_sn_field_length_um :: "int \<Rightarrow> int res" where
  "decode_sn_field_length_um = decode_table [6, 12]"

definition decode_sn_field_length_am :: "int \<Rightarrow> int res" where
  "decode_sn_field_length_am = decode_table [12, 18]"

subsection \<open>Configuration by RRC\<close>

text \<open>The parts of the ASN.1 types that this file reads; an optional field is an \<open>option\<close>.\<close>

record rlc_config_am =
  dl_am_sn_FieldLength :: "int option"
  dl_am_t_Reassembly :: int
  dl_am_t_StatusProhibit :: int
  ul_am_sn_FieldLength :: "int option"
  ul_am_t_PollRetransmit :: int
  ul_am_pollPDU :: int
  ul_am_pollByte :: int
  ul_am_maxRetxThreshold :: int

record rlc_config_um =
  dl_um_sn_FieldLength :: "int option"
  dl_um_t_Reassembly :: int
  ul_um_sn_FieldLength :: "int option"

datatype rlc_config = RlcConfigAm rlc_config_am | RlcConfigUmBi rlc_config_um | RlcConfigOther

datatype served_radio_bearer = ServedSrb int | ServedDrb int | ServedNothing

record ul_specific_parameters =
  us_logicalChannelGroup :: "int option"

record logical_channel_config =
  lc_ul_SpecificParameters :: "ul_specific_parameters option"

record rlc_bearer_config =
  bc_logicalChannelIdentity :: int
  bc_servedRadioBearer :: "served_radio_bearer option"
  bc_rlc_Config :: "rlc_config option"
  bc_mac_LogicalChannelConfig :: "logical_channel_config option"

definition bearer_lcg :: "rlc_bearer_config \<Rightarrow> int res" where
  "bearer_lcg c =
     bnd (deref (bc_mac_LogicalChannelConfig c) NullDeref) (\<lambda>l.
     bnd (deref (lc_ul_SpecificParameters l) NullDeref) (\<lambda>u. deref (us_logicalChannelGroup u) NullDeref))"

record am_parameters =
  ap_t_reassembly :: int
  ap_t_status_prohibit :: int
  ap_t_poll_retransmit :: int
  ap_poll_pdu :: int
  ap_poll_byte :: int
  ap_max_retx_threshold :: int
  ap_sn_field_length :: int

text \<open>The branch \<open>NR_RLC_Config_PR_am\<close>, the same in \<open>add_rlc_srb\<close> and \<open>add_drb_am\<close>.\<close>

definition decode_am :: "rlc_config_am \<Rightarrow> am_parameters res" where
  "decode_am am =
     bnd (decode_t_reassembly (dl_am_t_Reassembly am)) (\<lambda>t_reassembly.
     bnd (decode_t_status_prohibit (dl_am_t_StatusProhibit am)) (\<lambda>t_status_prohibit.
     bnd (decode_t_poll_retransmit (ul_am_t_PollRetransmit am)) (\<lambda>t_poll_retransmit.
     bnd (decode_poll_pdu (ul_am_pollPDU am)) (\<lambda>poll_pdu.
     bnd (decode_poll_byte (ul_am_pollByte am)) (\<lambda>poll_byte.
     bnd (decode_max_retx_threshold (ul_am_maxRetxThreshold am)) (\<lambda>max_retx_threshold.
     bnd (deref (dl_am_sn_FieldLength am) NullDeref) (\<lambda>dl.
     bnd (deref (ul_am_sn_FieldLength am) NullDeref) (\<lambda>ul.
     bnd (guard (dl = ul) Exit) (\<lambda>_.
     bnd (decode_sn_field_length_am dl) (\<lambda>sn_field_length.
       Inr \<lparr>ap_t_reassembly = t_reassembly, ap_t_status_prohibit = t_status_prohibit,
            ap_t_poll_retransmit = t_poll_retransmit, ap_poll_pdu = poll_pdu, ap_poll_byte = poll_byte,
            ap_max_retx_threshold = max_retx_threshold, ap_sn_field_length = sn_field_length\<rparr>))))))))))"

definition am_config :: "rlc_bearer_config \<Rightarrow> am_parameters res" where
  "am_config c =
     bnd (deref (bc_rlc_Config c) NullDeref) (\<lambda>r. case r of RlcConfigAm am \<Rightarrow> decode_am am | _ \<Rightarrow> Inl Exit)"

definition um_config :: "rlc_bearer_config \<Rightarrow> (int \<times> int) res" where
  "um_config c =
     bnd (deref (bc_rlc_Config c) NullDeref) (\<lambda>r. case r of
         RlcConfigUmBi um \<Rightarrow>
           bnd (decode_t_reassembly (dl_um_t_Reassembly um)) (\<lambda>t_reassembly.
           bnd (deref (dl_um_sn_FieldLength um) NullDeref) (\<lambda>dl.
           bnd (deref (ul_um_sn_FieldLength um) NullDeref) (\<lambda>ul.
           bnd (guard (dl = ul) Exit) (\<lambda>_.
           bnd (decode_sn_field_length_um dl) (\<lambda>sn_field_length. Inr (t_reassembly, sn_field_length))))))
       | _ \<Rightarrow> Inl Exit)"

text \<open>The end of the three functions that add a bearer: a bearer that exists is left alone.\<close>

definition rl_add ::
    "(nr_rlc_entity ue \<Rightarrow> int \<Rightarrow> nr_rlc_entity \<Rightarrow> nr_rlc_entity ue res) \<Rightarrow> (nat \<Rightarrow> rb_ptr) \<Rightarrow>
     rlc_layer \<Rightarrow> int \<Rightarrow> int \<Rightarrow> nr_rlc_entity res \<Rightarrow> rlc_layer res" where
  "rl_add add slot L rnti rb_id new_entity =
     (case nr_rlc_manager_get_ue (rl_manager L) rnti of (m, ui) \<Rightarrow>
        let L1 = L\<lparr>rl_manager := m\<rparr> in
        if rb_slot (rl_ue L1 ui) (slot (nat (rb_id - 1))) \<noteq> None then Inr L1
        else bnd new_entity (\<lambda>e.
             bnd (add (rl_ue L1 ui) rb_id e) (\<lambda>u. Inr (L1\<lparr>rl_manager := mg_update_ue m ui u\<rparr>))))"

text \<open>A signalling bearer: the configuration is decoded and then replaced by fixed values.\<close>

definition add_rlc_srb :: "int \<Rightarrow> int \<Rightarrow> rlc_bearer_config \<Rightarrow> rlc_layer \<Rightarrow> rlc_layer res" where
  "add_rlc_srb rnti srb_id c L =
     bnd (guard (srb_id = 1 \<or> srb_id = 2) Exit) (\<lambda>_.
     bnd (guard (bc_logicalChannelIdentity c = srb_id) Exit) (\<lambda>_.
     bnd (bearer_lcg c) (\<lambda>lcg.
     bnd (guard (lcg = 0) Exit) (\<lambda>_.
     bnd (am_config c) (\<lambda>_.
       rl_add nr_rlc_ue_add_srb_rlc_entity SrbAt L rnti srb_id
         (bnd (new_nr_rlc_entity_am 10000000 10000000 45 35 0 (-1) (-1) 8 12) (\<lambda>e. Inr (AmEntity e))))))))"

definition rlc_add_drb_am :: "int \<Rightarrow> int \<Rightarrow> rlc_bearer_config \<Rightarrow> rlc_layer \<Rightarrow> rlc_layer res" where
  "rlc_add_drb_am rnti drb_id c L =
     bnd (guard (drb_id \<ge> 1 \<and> drb_id \<le> 5) Exit) (\<lambda>_.
     bnd (guard (bc_logicalChannelIdentity c = drb_id + 3) Exit) (\<lambda>_.
     bnd (bearer_lcg c) (\<lambda>_.
     bnd (am_config c) (\<lambda>a.
       rl_add nr_rlc_ue_add_drb_rlc_entity DrbAt L rnti drb_id
         (bnd (new_nr_rlc_entity_am 10000000 10000000 (ap_t_poll_retransmit a) (ap_t_reassembly a)
                 (ap_t_status_prohibit a) (ap_poll_pdu a) (ap_poll_byte a) (ap_max_retx_threshold a)
                 (nat (ap_sn_field_length a))) (\<lambda>e. Inr (AmEntity e)))))))"

definition rlc_add_drb_um :: "int \<Rightarrow> int \<Rightarrow> rlc_bearer_config \<Rightarrow> rlc_layer \<Rightarrow> rlc_layer res" where
  "rlc_add_drb_um rnti drb_id c L =
     bnd (guard (drb_id \<ge> 1 \<and> drb_id \<le> 5) Exit) (\<lambda>_.
     bnd (guard (bc_logicalChannelIdentity c = drb_id + 3) Exit) (\<lambda>_.
     bnd (bearer_lcg c) (\<lambda>lcg.
     bnd (guard (lcg = 1) Exit) (\<lambda>_.
     bnd (um_config c) (\<lambda>(t_reassembly, sn_field_length).
       rl_add nr_rlc_ue_add_drb_rlc_entity DrbAt L rnti drb_id
         (bnd (new_nr_rlc_entity_um 100000000 100000000 t_reassembly (nat sn_field_length))
           (\<lambda>e. Inr (UmEntity e))))))))"

definition rlc_add_drb :: "int \<Rightarrow> int \<Rightarrow> rlc_bearer_config \<Rightarrow> rlc_layer \<Rightarrow> rlc_layer res" where
  "rlc_add_drb rnti drb_id c L =
     bnd (deref (bc_rlc_Config c) NullDeref) (\<lambda>r. case r of
         RlcConfigAm _ \<Rightarrow> rlc_add_drb_am rnti drb_id c L
       | RlcConfigUmBi _ \<Rightarrow> rlc_add_drb_um rnti drb_id c L
       | RlcConfigOther \<Rightarrow> Inl Exit)"

text \<open>The calls of a reconfiguration in their order: every bearer to add, with every RLC bearer that serves it.\<close>

definition srbs_served :: "int list \<Rightarrow> rlc_bearer_config list \<Rightarrow> (int \<times> rlc_bearer_config) list" where
  "srbs_served srbs cs =
     concat (map (\<lambda>i. map (Pair i) (filter (\<lambda>c. bc_servedRadioBearer c = Some (ServedSrb i)) cs)) srbs)"

definition drbs_served :: "int list \<Rightarrow> rlc_bearer_config list \<Rightarrow> (int \<times> rlc_bearer_config) list" where
  "drbs_served drbs cs =
     concat (map (\<lambda>i. map (Pair i) (filter (\<lambda>c. bc_servedRadioBearer c = Some (ServedDrb i)) cs)) drbs)"

definition nr_rrc_rlc_config_asn1_req ::
    "rlc_layer \<Rightarrow> protocol_ctxt \<Rightarrow> int list option \<Rightarrow> int list option \<Rightarrow> bool \<Rightarrow>
     rlc_bearer_config list option \<Rightarrow> rlc_layer res" where
  "nr_rrc_rlc_config_asn1_req L ctxt srb2add_list drb2add_list pmch_InfoList rlc_bearer2add_list =
     bnd (guard (cx_module_id ctxt = 0) Exit) (\<lambda>_.
     bnd (guard (\<not> pmch_InfoList) Exit) (\<lambda>_.
       case rlc_bearer2add_list of
         None \<Rightarrow> Inr L
       | Some cs \<Rightarrow>
           bnd (fold_res (\<lambda>L (i, c). add_rlc_srb (cx_rnti ctxt) i c L) L
             (case srb2add_list of None \<Rightarrow> [] | Some srbs \<Rightarrow> srbs_served srbs cs)) (\<lambda>L1.
           fold_res (\<lambda>L (i, c). rlc_add_drb (cx_rnti ctxt) i c L) L1
             (case drb2add_list of None \<Rightarrow> [] | Some drbs \<Rightarrow> drbs_served drbs cs))))"

datatype config_action = ConfigActionRemove | ConfigActionOther

fun rb_clear :: "'e ue \<Rightarrow> rb_ptr \<Rightarrow> 'e ue" where
  "rb_clear u (SrbAt i) = u\<lparr>ue_srb := (ue_srb u)[i := None]\<rparr>"
| "rb_clear u (DrbAt i) = u\<lparr>ue_drb := (ue_drb u)[i := None]\<rparr>"

definition rrc_rlc_config_req ::
    "rlc_layer \<Rightarrow> protocol_ctxt \<Rightarrow> bool \<Rightarrow> bool \<Rightarrow> config_action \<Rightarrow> int \<Rightarrow> rlc_layer res" where
  "rrc_rlc_config_req L ctxt srb_flag mbms_flag action rb_id =
     bnd (guard (\<not> mbms_flag) Exit) (\<lambda>_.
     bnd (guard (action = ConfigActionRemove) Exit) (\<lambda>_.
     bnd (guard (cx_module_id ctxt = 0) Exit) (\<lambda>_.
     bnd (guard (1 \<le> rb_id \<and> rb_id \<le> (if srb_flag then 2 else 5)) Exit) (\<lambda>_.
       case nr_rlc_manager_get_ue (rl_manager L) (cx_rnti ctxt) of (m, ui) \<Rightarrow>
         let p = (if srb_flag then SrbAt (nat (rb_id - 1)) else DrbAt (nat (rb_id - 1))); u = mg_at m ui in
         bnd (case rb_slot u p of None \<Rightarrow> Inr u | Some e \<Rightarrow> bnd (rlc_delete e) (\<lambda>_. Inr (rb_clear u p))) (\<lambda>u1.
           let m1 = mg_update_ue m ui u1 in
           bnd (if list_all (\<lambda>s. s = None) (take 2 (ue_srb u1)) \<and> list_all (\<lambda>s. s = None) (take 5 (ue_drb u1))
                then nr_rlc_manager_remove_ue m1 (cx_rnti ctxt) else Inr m1) (\<lambda>m2.
             Inr (L\<lparr>rl_manager := m2\<rparr>)))))))"

definition rrc_rlc_remove_ue :: "rlc_layer \<Rightarrow> protocol_ctxt \<Rightarrow> rlc_layer res" where
  "rrc_rlc_remove_ue L ctxt =
     bnd (nr_rlc_manager_remove_ue (rl_manager L) (cx_rnti ctxt)) (\<lambda>m. Inr (L\<lparr>rl_manager := m\<rparr>))"

subsection \<open>The bearer that is configured without RRC\<close>

definition nr_rlc_bearer_init :: "bool \<Rightarrow> rlc_bearer_config" where
  "nr_rlc_bearer_init is_drb =
     \<lparr>bc_logicalChannelIdentity = (if is_drb then 4 else 1),
      bc_servedRadioBearer = Some (if is_drb then ServedDrb 1 else ServedSrb 1),
      bc_rlc_Config = Some RlcConfigOther,
      bc_mac_LogicalChannelConfig = Some \<lparr>lc_ul_SpecificParameters = None\<rparr>\<rparr>"

definition nr_rlc_bearer_init_ul_spec :: "logical_channel_config \<Rightarrow> logical_channel_config" where
  "nr_rlc_bearer_init_ul_spec l = l\<lparr>lc_ul_SpecificParameters := Some \<lparr>us_logicalChannelGroup = Some 1\<rparr>\<rparr>"

text \<open>The enumerators as numbers: \<open>size12\<close>/\<open>size18\<close> are 1, \<open>ms15\<close> is 3, \<open>ms45\<close> is 8, \<open>p64\<close> is 4,
  \<open>kB500\<close> is 13 and \<open>t32\<close> is 7, the positions of their values in the tables above.\<close>

datatype rlc_config_pr = PrAm | PrUmBiDirectional | PrOther

fun nr_drb_config :: "rlc_config_pr \<Rightarrow> rlc_config" where
  "nr_drb_config PrUmBiDirectional =
     RlcConfigUmBi \<lparr>dl_um_sn_FieldLength = Some 1, dl_um_t_Reassembly = 3, ul_um_sn_FieldLength = Some 1\<rparr>"
| "nr_drb_config PrAm =
     RlcConfigAm \<lparr>dl_am_sn_FieldLength = Some 1, dl_am_t_Reassembly = 3, dl_am_t_StatusProhibit = 3,
       ul_am_sn_FieldLength = Some 1, ul_am_t_PollRetransmit = 8, ul_am_pollPDU = 4, ul_am_pollByte = 13,
       ul_am_maxRetxThreshold = 7\<rparr>"
| "nr_drb_config PrOther = RlcConfigOther"

text \<open>The configuration that \<open>nr_DRB_preconfiguration\<close> puts together from these three.\<close>

definition preconfigured_rlc_bearer :: rlc_bearer_config where
  "preconfigured_rlc_bearer =
     (nr_rlc_bearer_init True)
       \<lparr>bc_rlc_Config := Some (nr_drb_config PrUmBiDirectional),
        bc_mac_LogicalChannelConfig :=
          map_option nr_rlc_bearer_init_ul_spec (bc_mac_LogicalChannelConfig (nr_rlc_bearer_init True))\<rparr>"

end
