(* ===== verification/Rlc_Um_Tx.thy ===== *)
theory Rlc_Um_Tx
  imports Rlc_Um
begin

text \<open>
  The transmitting side of RLC UM: the invariant of the queue, what one grant produces, and the
  round trip of a PDU header through the receiver's decoder.
\<close>

subsection \<open>Configuration and queue invariant\<close>

definition um_cfg :: "nr_rlc_entity_um \<Rightarrow> bool" where
  "um_cfg e \<longleftrightarrow> (um_sn_field_length e = 6 \<or> um_sn_field_length e = 12) \<and>
     um_sn_modulus e = 2 ^ um_sn_field_length e \<and> um_window_size e = 2 ^ um_sn_field_length e div 2 \<and>
     0 \<le> um_tx_next e \<and> um_tx_next e < um_sn_modulus e \<and>
     0 \<le> um_rx_next_highest e \<and> um_rx_next_highest e < um_sn_modulus e \<and>
     0 \<le> um_rx_next_reassembly e \<and> um_rx_next_reassembly e < um_sn_modulus e \<and>
     0 \<le> um_rx_timer_trigger e \<and> um_rx_timer_trigger e < um_sn_modulus e"

definition um_tx_ok :: "nr_rlc_entity_um \<Rightarrow> bool" where
  "um_tx_ok e \<longleftrightarrow> um_cfg e \<and>
     heap_ok (um_heap e) (mset (um_tx_list e)) \<and> list_ok (um_tx_list e) (um_tx_end e) \<and>
     distinct (map seg_sdu (um_tx_list e)) \<and>
     (\<forall>s\<in>set (um_tx_list e). seg_slice (um_heap e) s \<and> seg_is_last s \<and> 0 < seg_size s) \<and>
     (\<forall>s\<in>set (tl (um_tx_list e)). seg_is_first s) \<and>
     um_tx_size e = sum_list (map seg_size (um_tx_list e)) \<and>
     bs_tx_size (um_bstatus e) =
       sum_list (map (\<lambda>s. um_compute_pdu_header_size e s + seg_size s) (um_tx_list e))"

lemma um_cfg_modulus:
  assumes "um_cfg e"
  shows "0 < um_sn_modulus e" "um_sn_modulus e = 2 * um_window_size e" "0 < um_window_size e"
    "1 < um_window_size e" "um_sn_modulus e = 64 \<or> um_sn_modulus e = 4096"
  using assms by (auto simp: um_cfg_def)

lemma um_header_size_pos: "0 < um_compute_pdu_header_size e s"
  by (simp add: um_compute_pdu_header_size_def)

lemma um_header_size_cong:
  "um_sn_field_length e' = um_sn_field_length e \<Longrightarrow> seg_is_first s' = seg_is_first s \<Longrightarrow>
   seg_is_last s' = seg_is_last s \<Longrightarrow>
   um_compute_pdu_header_size e' s' = um_compute_pdu_header_size e s"
  by (simp add: um_compute_pdu_header_size_def)

lemma um_header_fields_length:
  assumes "um_sn_field_length e = 6 \<or> um_sn_field_length e = 12"
  shows "length (field_bits (um_header_fields e s sn)) = 8 * nat (um_compute_pdu_header_size e s)"
    and "\<forall>(v, n) \<in> set (um_header_fields e s sn). n \<le> 31"
  using assms by (auto simp: um_header_fields_def um_compute_pdu_header_size_def)

subsection \<open>Serialisation\<close>

lemma um_serialize_ok:
  assumes "um_sn_field_length e = 6 \<or> um_sn_field_length e = 12"
    and u: "hp_sdus (um_heap e) (seg_sdu s) = Some u"
    and sl: "0 \<le> seg_so s" "0 \<le> seg_size s" "seg_so s + seg_size s \<le> int (length (sdu_data u))"
    and fit: "um_compute_pdu_header_size e s + seg_size s \<le> int (length buffer)"
  obtains hdr rest where
    "um_serialize_sdu e s buffer =
       Inr (um_compute_pdu_header_size e s + seg_size s, hdr @ seg_bytes (um_heap e) s @ rest)"
    "int (length hdr) = um_compute_pdu_header_size e s"
    "bits_of hdr = field_bits (um_header_fields e s (sdu_sn u))"
    "int (length (seg_bytes (um_heap e) s)) = seg_size s"
    "length (hdr @ seg_bytes (um_heap e) s @ rest) = length buffer"
proof -
  let ?k = "nat (um_compute_pdu_header_size e s)" and ?d = "seg_bytes (um_heap e) s"
  have k: "int ?k = um_compute_pdu_header_size e s"
    using um_header_size_pos [of e s] by simp
  have dl: "int (length ?d) = seg_size s"
    using u sl by (simp add: seg_bytes_def)
  have rd: "read_at (sdu_data u) (seg_so s) (seg_size s) = Inr ?d"
    using u sl by (simp add: read_at_def seg_bytes_def)
  obtain enc hdr rest where enc:
      "put_fields (nr_rlc_pdu_encoder_init buffer) (um_header_fields e s (sdu_sn u)) = Inr enc"
      "enc_byte enc = ?k" "memcpy_at (enc_buffer enc) ?k ?d = Inr (hdr @ ?d @ rest)" "length hdr = ?k"
      "bits_of hdr = field_bits (um_header_fields e s (sdu_sn u))"
      "length rest = length buffer - ?k - length ?d"
    by (rule put_header_payload [where d = ?d and buffer = buffer,
          OF um_header_fields_length(2,1) [OF assms(1), of s "sdu_sn u"]])
      (use fit k dl in linarith)
  have "um_serialize_sdu e s buffer =
      Inr (um_compute_pdu_header_size e s + seg_size s, hdr @ ?d @ rest)"
    using u rd enc k by (simp add: um_serialize_sdu_def get_sdu_def)
  then show ?thesis using that enc k dl fit by auto
qed

subsection \<open>Decoding what was serialised\<close>

lemma um_si_bits:
  "field_bits [(1 - of_bool a, 1), (1 - of_bool b, 1)] = int_bits 2 (2 * (1 - of_bool a) + (1 - of_bool b))"
  using int_bits_1_1 [of a b] by simp

text \<open>The receiver of a PDU with a segment's header finds the segment again.\<close>

lemma um_recv_serialized:
  assumes "um_sn_field_length e = 6 \<or> um_sn_field_length e = 12" "um_sn_field_length e' = um_sn_field_length e"
    and "bits_of hdr = field_bits (um_header_fields e s sn)"
    and "int (length hdr) = um_compute_pdu_header_size e s"
    and "0 \<le> sn" "sn < 2 ^ um_sn_field_length e" "0 \<le> seg_so s" "seg_so s < 65536"
    and "seg_is_first s \<longleftrightarrow> seg_so s = 0" and "d \<noteq> []"
  shows "nr_rlc_entity_um_recv_pdu e' (hdr @ d) =
     (if seg_is_first s \<and> seg_is_last s then Inr (e', [DeliverSdu d])
      else um_receive_segment e' (hdr @ d) (dec_adv (8 * length hdr) (nr_rlc_pdu_decoder_init (hdr @ d)))
             sn (seg_so s) (seg_is_first s) (seg_is_last s))"
proof -
  define D n where D: "D = nr_rlc_pdu_decoder_init (hdr @ d)" and n: "n = um_sn_field_length e"
  define si :: int where "si = 2 * (1 - of_bool (seg_is_first s)) + (1 - of_bool (seg_is_last s))"
  have si: "0 \<le> si" "si < 2 ^ 2" "(si AND 2 = 0) = seg_is_first s" "(si AND 1 = 0) = seg_is_last s"
    by (cases "seg_is_first s"; cases "seg_is_last s"; simp add: si_def)+
  define tail where "tail = (if seg_is_first s \<and> seg_is_last s then int_bits 6 0
      else (if n = 12 then int_bits 2 0 else []) @ int_bits n sn) @
      (if \<not> seg_is_first s then int_bits 16 (seg_so s) else [])"
  have wD: "dec_wf D" by (simp add: D)
  have r0: "dec_rest D = int_bits 2 si @ (tail @ bits_of d)"
    using assms(3) unfolding D dec_init_rest bits_of_simps um_header_fields_def field_bits_simps(3)
      um_si_bits by (simp add: si_def tail_def n)
  note s1 = decode_field_int_bits [OF wD _ r0 si(1,2), simplified]
  show ?thesis
  proof (cases "seg_is_first s \<and> seg_is_last s")
    case True
    have "length hdr = 1" using assms(4) True by (simp add: um_compute_pdu_header_size_def)
    moreover have "\<not> length (hdr @ d) < 2" using \<open>length hdr = 1\<close> assms(10) by (cases d) auto
    ultimately show ?thesis
      using True si by (simp add: nr_rlc_entity_um_recv_pdu_def s1(1) Let_def flip: D)
  next
    case nf: False
    define r where "r = (if n = 12 then 2 else 0 :: nat)"
    let ?t = "(if \<not> seg_is_first s then int_bits 16 (seg_so s) else []) @ bits_of d"
    have r1: "dec_rest (dec_adv 2 D) = (if n = 12 then int_bits 2 0 else []) @ (int_bits n sn @ ?t)"
      "dec_wf (dec_adv 2 D)"
      using s1(2,3) nf by (auto simp: tail_def)
    have w2: "dec_wf (dec_adv (2 + r) D)" "dec_rest (dec_adv (2 + r) D) = int_bits n sn @ ?t"
      and sk: "(if um_sn_field_length e' = 12 then decode_field (dec_adv 2 D) 2 err
                else (\<lambda>k. k (dec_adv 2 D) 0)) k = k (dec_adv (2 + r) D) 0"
      for err :: "(nr_rlc_entity_um \<times> rlc_event list) res" and k
    proof -
      have "n = 12 \<Longrightarrow> dec_rest (dec_adv 2 D) = int_bits 2 0 @ (int_bits n sn @ ?t)"
        using r1(1) by simp
      note t = decode_field_int_bits [OF r1(2) _ this, simplified]
      show "dec_wf (dec_adv (2 + r) D)" using t(2) r1(2) unfolding r_def by (cases "n = 12") simp_all
      show "dec_rest (dec_adv (2 + r) D) = int_bits n sn @ ?t"
        using t(3) r1(1) unfolding r_def by (cases "n = 12") simp_all
      show "(if um_sn_field_length e' = 12 then decode_field (dec_adv 2 D) 2 err
                else (\<lambda>k. k (dec_adv 2 D) 0)) k = k (dec_adv (2 + r) D) 0"
        using t(1) assms(2) by (cases "n = 12") (simp_all add: r_def n)
    qed
    have n31: "n \<le> 31" using assms(1) n by auto
    note s3 = decode_field_int_bits [OF w2(1) n31 w2(2) assms(5,6) [folded n]]
    let ?D3 = "dec_adv (2 + r + n) D"
    let ?err = "Inr (e', []) :: (nr_rlc_entity_um \<times> rlc_event list) res"
    let ?K = "\<lambda>d3 v. if \<not> seg_is_first s
         then decode_field d3 16 ?err (\<lambda>d4 so. if so = 0 then ?err
                else um_receive_segment e' (hdr @ d) d4 v so (seg_is_first s) (seg_is_last s))
         else um_receive_segment e' (hdr @ d) d3 v 0 (seg_is_first s) (seg_is_last s)"
    have "nr_rlc_entity_um_recv_pdu e' (hdr @ d) =
        (if um_sn_field_length e' = 12 then decode_field (dec_adv 2 D) 2 ?err
         else (\<lambda>k. k (dec_adv 2 D) 0)) (\<lambda>d2 v. decode_field d2 (um_sn_field_length e') ?err ?K)"
      unfolding nr_rlc_entity_um_recv_pdu_def Let_def D [symmetric]
      by (simp only: s1(1) si nf if_False not_False_eq_True)
    also have "\<dots> = decode_field (dec_adv (2 + r) D) n ?err ?K"
      unfolding sk by (simp only: assms(2) n)
    also have "\<dots> = ?K (dec_adv n (dec_adv (2 + r) D)) sn" by (rule s3(1))
    finally have base: "nr_rlc_entity_um_recv_pdu e' (hdr @ d) = ?K ?D3 sn" by simp
    show ?thesis
    proof (cases "seg_is_first s")
      case True
      then have "8 * length hdr = 2 + r + n"
        using assms(1,4) nf True by (auto simp: um_compute_pdu_header_size_def r_def n)
      then show ?thesis using base True nf assms(9) by (simp add: D)
    next
      case False
      have len: "8 * length hdr = 2 + r + n + 16"
        using assms(1,4) False by (auto simp: um_compute_pdu_header_size_def r_def n)
      have w3: "dec_wf ?D3" "dec_rest ?D3 = int_bits 16 (seg_so s) @ bits_of d"
        using s3(2,3) False by (simp_all add: add.assoc)
      have "decode_field ?D3 16 err k = k (dec_adv 16 ?D3) (seg_so s)" for err :: "(nr_rlc_entity_um \<times> rlc_event list) res" and k
        by (rule decode_field_int_bits(1) [OF w3(1) _ w3(2)]) (use assms in auto)
      then show ?thesis using base False len assms(7,9) by (simp add: add.assoc D)
    qed
  qed
qed

subsection \<open>What one grant produces\<close>

text \<open>The SDUs waiting, each with the number of bytes already sent.\<close>

definition seg_pending :: "sdu_heap \<Rightarrow> nr_rlc_sdu_segment \<Rightarrow> bytes \<times> nat" where
  "seg_pending h s = (case hp_sdus h (seg_sdu s) of None \<Rightarrow> [] | Some u \<Rightarrow> sdu_data u, nat (seg_so s))"

definition um_pending :: "nr_rlc_entity_um \<Rightarrow> (bytes \<times> nat) list" where
  "um_pending e = map (seg_pending (um_heap e)) (um_tx_list e)"

lemma seg_pending_view:
  "sdu_view h' (seg_sdu s) = sdu_view h (seg_sdu s) \<Longrightarrow> seg_pending h' s = seg_pending h s"
  by (auto simp: sdu_view_def seg_pending_def split: option.splits)

definition um_same_cfg :: "nr_rlc_entity_um \<Rightarrow> nr_rlc_entity_um \<Rightarrow> bool" where
  "um_same_cfg e' e \<longleftrightarrow> um_sn_field_length e' = um_sn_field_length e \<and> um_sn_modulus e' = um_sn_modulus e \<and>
     um_window_size e' = um_window_size e \<and> um_tx_maxsize e' = um_tx_maxsize e \<and>
     um_rx_maxsize e' = um_rx_maxsize e"

definition um_tx_next_after :: "nr_rlc_entity_um \<Rightarrow> nr_rlc_sdu_segment \<Rightarrow> int" where
  "um_tx_next_after e t = (if \<not> seg_is_first t \<and> seg_is_last t
     then (um_tx_next e + 1) mod um_sn_modulus e else um_tx_next e)"

lemma um_send_segment_ok:
  assumes "um_cfg e" "heap_ok (um_heap e) (add_mset t M)"
    and u: "hp_sdus (um_heap e) (seg_sdu t) = Some u"
    and sl: "0 \<le> seg_so t" "0 \<le> seg_size t" "seg_so t + seg_size t \<le> int (length (sdu_data u))"
    and fit: "um_compute_pdu_header_size e t + seg_size t \<le> int (length buffer)"
  obtains hdr rest h2 where
    "um_send_segment e t buffer =
       Inr (e\<lparr>um_tx_next := um_tx_next_after e t, um_tx_size := um_tx_size e - seg_size t, um_heap := h2\<rparr>,
            um_compute_pdu_header_size e t + seg_size t, hdr @ seg_bytes (um_heap e) t @ rest)"
    "int (length hdr) = um_compute_pdu_header_size e t"
    "bits_of hdr = field_bits (um_header_fields e t (sdu_sn u))"
    "int (length (seg_bytes (um_heap e) t)) = seg_size t"
    "heap_ok h2 M" "hp_next h2 = hp_next (um_heap e)"
    "\<forall>s\<in>#M. sdu_view h2 (seg_sdu s) = sdu_view (um_heap e) (seg_sdu s)"
proof -
  let ?e1 = "e\<lparr>um_tx_next := um_tx_next_after e t\<rparr>"
  have e1: "(if \<not> seg_is_first t \<and> seg_is_last t
      then e\<lparr>um_tx_next := c_rem (um_tx_next e + 1) (um_sn_modulus e)\<rparr> else e) = ?e1"
    using um_cfg_modulus [OF assms(1)] assms(1)
    by (auto simp: um_tx_next_after_def c_rem_nonneg um_cfg_def)
  have len: "um_sn_field_length ?e1 = 6 \<or> um_sn_field_length ?e1 = 12"
    using assms(1) by (simp add: um_cfg_def)
  have hs: "um_compute_pdu_header_size ?e1 t = um_compute_pdu_header_size e t"
    "um_header_fields ?e1 t n = um_header_fields e t n" for n
    by (simp_all add: um_compute_pdu_header_size_def um_header_fields_def)
  obtain hdr rest where ser:
      "um_serialize_sdu ?e1 t buffer =
         Inr (um_compute_pdu_header_size ?e1 t + seg_size t, hdr @ seg_bytes (um_heap ?e1) t @ rest)"
      "int (length hdr) = um_compute_pdu_header_size ?e1 t"
      "bits_of hdr = field_bits (um_header_fields ?e1 t (sdu_sn u))"
      "int (length (seg_bytes (um_heap ?e1) t)) = seg_size t"
    by (rule um_serialize_ok [OF len, of t u buffer]) (use u sl fit hs in auto)
  obtain h2 where h2: "nr_rlc_free_sdu_segment (um_heap e) t = Inr (h2, seg_of (seg_sdu t) M = {#})"
      "heap_ok h2 M" "hp_next h2 = hp_next (um_heap e)"
      "\<forall>s\<in>#M. sdu_view h2 (seg_sdu s) = sdu_view (um_heap e) (seg_sdu s)"
    by (rule free_segment_ok [OF assms(2)]) blast
  have "um_send_segment e t buffer =
      Inr (?e1\<lparr>um_tx_size := um_tx_size ?e1 - seg_size t, um_heap := h2\<rparr>,
           um_compute_pdu_header_size ?e1 t + seg_size t, hdr @ seg_bytes (um_heap ?e1) t @ rest)"
    using ser(1) h2(1) by (simp add: um_send_segment_def e1 Let_def)
  then show ?thesis
    by - (rule that [of h2 hdr rest]; use ser h2 hs in simp)
qed

lemma um_bs_tx_add_simps [simp]:
  "um_sn_field_length (um_bs_tx_add n e) = um_sn_field_length e" "um_heap (um_bs_tx_add n e) = um_heap e"
  "um_tx_list (um_bs_tx_add n e) = um_tx_list e" "um_tx_end (um_bs_tx_add n e) = um_tx_end e"
  "um_tx_size (um_bs_tx_add n e) = um_tx_size e" "um_tx_next (um_bs_tx_add n e) = um_tx_next e"
  "um_sn_modulus (um_bs_tx_add n e) = um_sn_modulus e" "um_window_size (um_bs_tx_add n e) = um_window_size e"
  "um_tx_maxsize (um_bs_tx_add n e) = um_tx_maxsize e" "um_rx_maxsize (um_bs_tx_add n e) = um_rx_maxsize e"
  "bs_tx_size (um_bstatus (um_bs_tx_add n e)) = bs_tx_size (um_bstatus e) + n"
  "um_cfg (um_bs_tx_add n e) = um_cfg e"
  "um_compute_pdu_header_size (um_bs_tx_add n e) = um_compute_pdu_header_size e"
  by (simp_all add: um_bs_tx_add_def um_cfg_def um_compute_pdu_header_size_def fun_eq_iff)

lemma um_header_size_fields [simp]:
  "um_compute_pdu_header_size (e\<lparr>um_tx_list := a\<rparr>) = um_compute_pdu_header_size e"
  "um_compute_pdu_header_size (e\<lparr>um_tx_end := b\<rparr>) = um_compute_pdu_header_size e"
  "um_compute_pdu_header_size (e\<lparr>um_heap := h\<rparr>) = um_compute_pdu_header_size e"
  "um_compute_pdu_header_size (e\<lparr>um_tx_next := n\<rparr>) = um_compute_pdu_header_size e"
  "um_compute_pdu_header_size (e\<lparr>um_tx_size := n\<rparr>) = um_compute_pdu_header_size e"
  by (simp_all add: um_compute_pdu_header_size_def fun_eq_iff)

lemma um_cfg_fields [simp]:
  "um_cfg (e\<lparr>um_tx_list := a\<rparr>) = um_cfg e" "um_cfg (e\<lparr>um_tx_end := b\<rparr>) = um_cfg e"
  "um_cfg (e\<lparr>um_heap := h\<rparr>) = um_cfg e" "um_cfg (e\<lparr>um_tx_size := n\<rparr>) = um_cfg e"
  by (simp_all add: um_cfg_def)

lemma um_cfg_tx_next_after: "um_cfg e \<Longrightarrow> um_cfg (e\<lparr>um_tx_next := um_tx_next_after e t\<rparr>)"
  by (auto simp: um_cfg_def um_tx_next_after_def)

text \<open>The head of the queue fits the grant.\<close>

lemma um_generate_whole:
  assumes ok: "um_tx_ok e" and l: "um_tx_list e = s # rest"
    and fit: "um_compute_pdu_header_size e s + seg_size s \<le> int (length buffer)"
  obtains e' hdr tail where
    "nr_rlc_entity_um_generate_pdu e buffer =
       Inr (e', um_compute_pdu_header_size e s + seg_size s, hdr @ seg_bytes (um_heap e) s @ tail)"
    "int (length hdr) = um_compute_pdu_header_size e s"
    "bits_of hdr = field_bits (um_header_fields e s (um_tx_next e))"
    "um_tx_ok e'" "um_pending e' = tl (um_pending e)" "um_same_cfg e' e"
    "um_tx_next e' = um_tx_next_after e s"
proof -
  let ?h = "um_heap e" and ?H = "um_compute_pdu_header_size e s"
  obtain u where u: "hp_sdus ?h (seg_sdu s) = Some u" "0 \<le> seg_so s" "0 < seg_size s"
      "seg_so s + seg_size s \<le> int (length (sdu_data u))"
    using ok l by (fastforce simp: um_tx_ok_def seg_slice_def split: option.splits)
  define h1 where "h1 = set_sdu ?h (seg_sdu s) (u\<lparr>sdu_sn := um_tx_next e\<rparr>)"
  have v1: "sdu_view h1 a = sdu_view ?h a" for a
    unfolding h1_def by (rule sdu_view_set_sdu [OF u(1)]) simp_all
  define e1 where "e1 = um_bs_tx_add (- (?H + seg_size s))
      (e\<lparr>um_tx_list := rest, um_tx_end := (if rest = [] then None else um_tx_end e), um_heap := h1\<rparr>)"
  have cfg: "um_cfg e1" using ok by (simp add: e1_def um_tx_ok_def)
  have hok: "heap_ok (um_heap e1) (add_mset s (mset rest))"
    using heap_ok_set_sdu [OF _ u(1), of "mset (s # rest)" "u\<lparr>sdu_sn := um_tx_next e\<rparr>"] ok l
    by (simp add: e1_def um_tx_ok_def h1_def)
  have hs1: "hp_sdus (um_heap e1) (seg_sdu s) = Some (u\<lparr>sdu_sn := um_tx_next e\<rparr>)"
    by (simp add: e1_def h1_def)
  have H1: "um_compute_pdu_header_size e1 = um_compute_pdu_header_size e" by (simp add: e1_def)
  have pre: "0 \<le> seg_so s" "0 \<le> seg_size s"
    "seg_so s + seg_size s \<le> int (length (sdu_data (u\<lparr>sdu_sn := um_tx_next e\<rparr>)))"
    "um_compute_pdu_header_size e1 s + seg_size s \<le> int (length buffer)"
    using u fit H1 by simp_all
  obtain hdr tail h2 where snd:
      "um_send_segment e1 s buffer =
         Inr (e1\<lparr>um_tx_next := um_tx_next_after e1 s, um_tx_size := um_tx_size e1 - seg_size s, um_heap := h2\<rparr>,
              um_compute_pdu_header_size e1 s + seg_size s, hdr @ seg_bytes (um_heap e1) s @ tail)"
      "int (length hdr) = um_compute_pdu_header_size e1 s"
      "bits_of hdr = field_bits (um_header_fields e1 s (sdu_sn (u\<lparr>sdu_sn := um_tx_next e\<rparr>)))"
      "heap_ok h2 (mset rest)"
      "\<forall>s\<in>#mset rest. sdu_view h2 (seg_sdu s) = sdu_view (um_heap e1) (seg_sdu s)"
    by (rule um_send_segment_ok [OF cfg hok hs1 pre]) (rule that)
  define e' where "e' = e1\<lparr>um_tx_next := um_tx_next_after e1 s,
      um_tx_size := um_tx_size e1 - seg_size s, um_heap := h2\<rparr>"
  have view: "sdu_view h2 (seg_sdu t) = sdu_view ?h (seg_sdu t)" if "t \<in> set rest" for t
    using snd(5) that v1 by (simp add: e1_def)
  have gen: "nr_rlc_entity_um_generate_pdu e buffer =
      Inr (e', ?H + seg_size s, hdr @ seg_bytes ?h s @ tail)"
  proof -
    have "seg_bytes (um_heap e1) s = seg_bytes ?h s"
      by (rule seg_bytes_view) (simp add: e1_def v1)
    moreover have "\<not> ?H + 1 > int (length buffer)" using fit u(3) by linarith
    moreover have "\<not> ?H + seg_size s > int (length buffer)" using fit by linarith
    ultimately have "nr_rlc_entity_um_generate_pdu e buffer = um_send_segment e1 s buffer"
      using l u(1) unfolding e1_def h1_def
      by (simp add: nr_rlc_entity_um_generate_pdu_def um_generate_tx_pdu_def get_sdu_def Let_def)
    then show ?thesis
      using snd(1) H1 \<open>seg_bytes (um_heap e1) s = seg_bytes ?h s\<close> by (simp add: e'_def)
  qed
  have "um_tx_ok e'"
  proof -
    have "um_cfg e'" using um_cfg_tx_next_after [OF cfg, of s] by (simp add: e'_def)
    moreover have "list_ok rest (if rest = [] then None else um_tx_end e)"
      using ok l list_ok_Cons [of s rest "um_tx_end e"] by (simp add: um_tx_ok_def)
    moreover have "\<forall>t\<in>set rest. seg_slice h2 t"
      using ok l seg_slice_view [OF view] by (simp add: um_tx_ok_def)
    moreover have "\<forall>t\<in>set (tl rest). seg_is_first t"
      using ok l by (cases rest) (auto simp: um_tx_ok_def)
    ultimately show ?thesis
      using ok l snd(4) by (simp add: um_tx_ok_def e'_def e1_def)
  qed
  moreover have "um_pending e' = tl (um_pending e)"
    using l seg_pending_view [OF view] by (simp add: um_pending_def e'_def e1_def)
  moreover have "um_same_cfg e' e" by (simp add: um_same_cfg_def e'_def e1_def)
  moreover have "um_tx_next e' = um_tx_next_after e s"
    by (simp add: e'_def e1_def um_tx_next_after_def)
  moreover have "bits_of hdr = field_bits (um_header_fields e s (um_tx_next e))"
    using snd(3) by (simp add: um_header_fields_def e1_def)
  ultimately show ?thesis using that gen snd(2) H1 by simp
qed

text \<open>The head of the queue is cut to the grant; the rest of it goes back to the head.\<close>

definition um_cut :: "nr_rlc_entity_um \<Rightarrow> nr_rlc_sdu_segment \<Rightarrow> int \<Rightarrow> nr_rlc_sdu_segment" where
  "um_cut e s g = s\<lparr>seg_size := g - um_compute_pdu_header_size e (s\<lparr>seg_is_last := False\<rparr>),
     seg_is_last := False\<rparr>"

lemma um_cut_header:
  "um_compute_pdu_header_size e (um_cut e s g) = um_compute_pdu_header_size e (s\<lparr>seg_is_last := False\<rparr>)"
  by (simp add: um_cut_def um_compute_pdu_header_size_def)

lemma um_generate_split:
  assumes ok: "um_tx_ok e" and l: "um_tx_list e = s # rest" and g: "g = int (length buffer)"
    and nofit: "um_compute_pdu_header_size e s + seg_size s > g"
    and room: "um_compute_pdu_header_size e (s\<lparr>seg_is_last := False\<rparr>) + 1 \<le> g"
  obtains e' hdr tail where
    "nr_rlc_entity_um_generate_pdu e buffer = Inr (e', g, hdr @ seg_bytes (um_heap e) (um_cut e s g) @ tail)"
    "int (length hdr) = um_compute_pdu_header_size e (um_cut e s g)"
    "bits_of hdr = field_bits (um_header_fields e (um_cut e s g) (um_tx_next e))"
    "um_tx_ok e'"
    "um_pending e' = (fst (hd (um_pending e)), nat (seg_so s + seg_size (um_cut e s g))) # tl (um_pending e)"
    "um_same_cfg e' e" "um_tx_next e' = um_tx_next e"
proof -
  let ?h = "um_heap e" and ?H = "um_compute_pdu_header_size e s"
  let ?H' = "um_compute_pdu_header_size e (s\<lparr>seg_is_last := False\<rparr>)" and ?c = "um_cut e s g"
  obtain u where u: "hp_sdus ?h (seg_sdu s) = Some u" "0 \<le> seg_so s" "0 < seg_size s" "seg_is_last s"
      "seg_so s + seg_size s = int (length (sdu_data u))" "sdu_size u = int (length (sdu_data u))"
      "seg_is_first s \<longleftrightarrow> seg_so s = 0"
    using ok l by (fastforce simp: um_tx_ok_def seg_slice_def split: option.splits)
  have HH: "?H \<le> ?H'" using u(4) by (simp add: um_compute_pdu_header_size_def)
  define over where "over = ?H' + seg_size s - g"
  have over: "0 < over" "over < seg_size s" "seg_size ?c = seg_size s - over" "0 < seg_size ?c"
    using nofit room HH by (auto simp: over_def um_cut_def)
  define h1 where "h1 = set_sdu ?h (seg_sdu s) (u\<lparr>sdu_sn := um_tx_next e\<rparr>)"
  define v where "v = (u\<lparr>sdu_sn := um_tx_next e\<rparr>)\<lparr>sdu_ref_count := sdu_ref_count u + 1\<rparr>"
  define h2 where "h2 = (set_sdu h1 (seg_sdu s) v)\<lparr>hp_next := hp_next h1 + 1\<rparr>"
  define nx where "nx = s\<lparr>seg_addr := hp_next ?h, seg_size := over,
      seg_so := seg_so s + seg_size ?c, seg_is_first := False\<rparr>"
  define e1 where "e1 = um_bs_tx_add (- (?H + seg_size s))
      (e\<lparr>um_tx_list := rest, um_tx_end := (if rest = [] then None else um_tx_end e), um_heap := h1\<rparr>)"
  define e2 where "e2 = um_bs_tx_add (um_compute_pdu_header_size e nx + over)
      (e1\<lparr>um_heap := h2, um_tx_list := nx # rest,
          um_tx_end := (if um_tx_end e1 = None then Some (seg_addr nx) else um_tx_end e1)\<rparr>)"
  have hs: "hp_sdus h1 (seg_sdu s) = Some (u\<lparr>sdu_sn := um_tx_next e\<rparr>)" by (simp add: h1_def)
  have hs2: "hp_sdus (um_heap e2) (seg_sdu ?c) = Some v" by (simp add: e2_def h2_def um_cut_def)
  have v2: "sdu_view (um_heap e2) a = sdu_view ?h a" for a
  proof -
    have "sdu_view h1 a = sdu_view ?h a"
      unfolding h1_def by (rule sdu_view_set_sdu [OF u(1)]) simp_all
    moreover have "sdu_view (set_sdu h1 (seg_sdu s) v) a = sdu_view h1 a"
      by (rule sdu_view_set_sdu [OF hs]) (simp_all add: v_def)
    ultimately show ?thesis by (simp add: e2_def h2_def)
  qed
  have H2: "um_compute_pdu_header_size e2 = um_compute_pdu_header_size e" by (simp add: e2_def e1_def)
  have cfg: "um_cfg e2" using ok by (simp add: e2_def e1_def um_tx_ok_def)
  have hok: "heap_ok (um_heap e2) (add_mset ?c (add_mset nx (mset rest)))"
  proof -
    have "heap_ok h1 (add_mset s (mset rest))"
      using heap_ok_set_sdu [OF _ u(1), of "mset (s # rest)" "u\<lparr>sdu_sn := um_tx_next e\<rparr>"] ok l
      by (simp add: um_tx_ok_def h1_def)
    from heap_ok_split [OF this hs, of nx]
    have "heap_ok h2 (add_mset nx (add_mset s (mset rest)))"
      by (simp add: h2_def v_def nx_def h1_def)
    then have "heap_ok h2 (add_mset s (add_mset nx (mset rest)))"
      by (simp add: add_mset_commute)
    then have "heap_ok h2 (add_mset ?c (add_mset nx (mset rest)))"
      by (rule heap_ok_replace) (simp_all add: um_cut_def)
    then show ?thesis by (simp add: e2_def)
  qed
  have sgc: "seg_so ?c = seg_so s" by (simp add: um_cut_def)
  have pre: "0 \<le> seg_so ?c" "0 \<le> seg_size ?c" "seg_so ?c + seg_size ?c \<le> int (length (sdu_data v))"
    "um_compute_pdu_header_size e2 ?c + seg_size ?c \<le> int (length buffer)"
    using u over H2 um_cut_header [of e s g] g unfolding sgc by (auto simp: v_def um_cut_def)
  obtain hdr tail h3 where snd:
      "um_send_segment e2 ?c buffer =
         Inr (e2\<lparr>um_tx_next := um_tx_next_after e2 ?c, um_tx_size := um_tx_size e2 - seg_size ?c, um_heap := h3\<rparr>,
              um_compute_pdu_header_size e2 ?c + seg_size ?c, hdr @ seg_bytes (um_heap e2) ?c @ tail)"
      "int (length hdr) = um_compute_pdu_header_size e2 ?c"
      "bits_of hdr = field_bits (um_header_fields e2 ?c (sdu_sn v))"
      "heap_ok h3 (add_mset nx (mset rest))"
      "\<forall>t\<in>#add_mset nx (mset rest). sdu_view h3 (seg_sdu t) = sdu_view (um_heap e2) (seg_sdu t)"
    by (rule um_send_segment_ok [OF cfg hok hs2 pre]) (rule that)
  define e' where "e' = e2\<lparr>um_tx_next := um_tx_next_after e2 ?c,
      um_tx_size := um_tx_size e2 - seg_size ?c, um_heap := h3\<rparr>"
  have tna: "um_tx_next_after e2 ?c = um_tx_next e"
    by (simp add: um_tx_next_after_def um_cut_def e2_def e1_def)
  have view: "sdu_view h3 (seg_sdu t) = sdu_view ?h (seg_sdu t)" if "t \<in> set (nx # rest)" for t
    using snd(5) that v2 by auto
  have rs: "um_resegment h1 s e1 g = Inr (h2, Some (?c, nx))"
  proof -
    have "\<not> ?H' + 1 > g" using room by linarith
    then show ?thesis
      using hs by (simp add: um_resegment_def get_sdu_def Let_def e1_def h2_def v_def nx_def um_cut_def
          over_def h1_def)
  qed
  have gen: "nr_rlc_entity_um_generate_pdu e buffer = Inr (e', g, hdr @ seg_bytes ?h ?c @ tail)"
  proof -
    have "\<not> ?H + 1 > g" using room HH by linarith
    moreover have "seg_size nx = over" "um_compute_pdu_header_size e1 nx = um_compute_pdu_header_size e nx"
      by (simp_all add: nx_def e1_def)
    ultimately have "nr_rlc_entity_um_generate_pdu e buffer = um_send_segment e2 ?c buffer"
      using nofit
      unfolding nr_rlc_entity_um_generate_pdu_def um_generate_tx_pdu_def l list.case Let_def get_sdu_def
        u(1) deref_Some bnd_Inr g [symmetric] h1_def [symmetric] e1_def [symmetric] rs prod.case option.case
      by (simp add: e2_def)
    moreover have "seg_bytes (um_heap e2) ?c = seg_bytes ?h ?c" by (rule seg_bytes_view) (rule v2)
    moreover have "um_compute_pdu_header_size e2 ?c + seg_size ?c = g"
      using H2 um_cut_header [of e s g] by (simp add: um_cut_def)
    ultimately show ?thesis using snd(1) by (simp add: e'_def)
  qed
  have "um_tx_ok e'"
  proof -
    have "um_cfg e'" using um_cfg_tx_next_after [OF cfg, of ?c] by (simp add: e'_def)
    moreover have "\<forall>t\<in>set rest. seg_addr t < hp_next ?h"
      using ok l by (auto simp: um_tx_ok_def heap_ok_def)
    then have "list_ok (nx # rest) (um_tx_end e2)"
      using ok l by (auto simp: um_tx_ok_def list_ok_def list_end_def e2_def e1_def nx_def)
    moreover have "\<forall>t\<in>set rest. seg_slice h3 t"
      using ok l seg_slice_view [OF view] by (simp add: um_tx_ok_def)
    moreover have "seg_slice h3 nx"
    proof -
      have "sdu_view h3 (seg_sdu nx) = Some (sdu_data u, sdu_size u)"
        using view [of nx] u(1) by (simp add: nx_def sdu_view_def)
      then show ?thesis
        using u over by (auto simp: seg_slice_def nx_def sdu_view_def split: option.splits)
    qed
    moreover have "\<forall>t\<in>set rest. seg_is_first t" using ok l by (simp add: um_tx_ok_def)
    ultimately show ?thesis
      using ok l snd(4) over u(4)
      by (simp add: um_tx_ok_def e'_def e2_def e1_def nx_def)
  qed
  moreover have "um_pending e' = (fst (hd (um_pending e)), nat (seg_so s + seg_size ?c)) # tl (um_pending e)"
  proof -
    have "seg_pending h3 nx = (sdu_data u, nat (seg_so s + seg_size ?c))"
      using view [of nx] u(1) by (auto simp: seg_pending_def nx_def sdu_view_def split: option.splits)
    then show ?thesis
      using l u(1) seg_pending_view [OF view] by (simp add: um_pending_def e'_def e2_def seg_pending_def)
  qed
  moreover have "um_same_cfg e' e" by (simp add: um_same_cfg_def e'_def e2_def e1_def)
  moreover have "um_tx_next e' = um_tx_next e" by (simp add: e'_def tna)
  moreover have "bits_of hdr = field_bits (um_header_fields e ?c (um_tx_next e))"
    using snd(3) by (simp add: um_header_fields_def e2_def e1_def v_def)
  ultimately show ?thesis using that gen snd(2) H2 by simp
qed

end
