(* ===== verification/Rlc_Um_Rx.thy ===== *)
theory Rlc_Um_Rx
  imports Rlc_Um_Tx
begin

text \<open>
  The receiving side of RLC UM: the order of the receive list, and the reception of the segments of
  an SDU in sequence, which ends in the delivery of exactly that SDU.
\<close>

subsection \<open>The window\<close>

definition um_sn_ok :: "nr_rlc_entity_um \<Rightarrow> int \<Rightarrow> bool" where
  "um_sn_ok e sn \<longleftrightarrow> um_cfg e \<and> 0 \<le> sn \<and> sn < um_sn_modulus e"

lemma um_sn_ok_base:
  assumes "um_sn_ok e a"
  shows "0 < um_sn_modulus e" "- um_sn_modulus e \<le> a - (um_rx_next_highest e - um_window_size e)"
    "0 \<le> a" "a < um_sn_modulus e"
proof -
  have cfg: "um_cfg e" and a: "0 \<le> a" "a < um_sn_modulus e" using assms by (auto simp: um_sn_ok_def)
  moreover have "0 \<le> um_rx_next_highest e" "um_rx_next_highest e < um_sn_modulus e"
    using cfg by (simp_all add: um_cfg_def)
  ultimately show "0 < um_sn_modulus e" "0 \<le> a" "a < um_sn_modulus e"
    "- um_sn_modulus e \<le> a - (um_rx_next_highest e - um_window_size e)"
    using um_cfg_modulus(1,3) [OF cfg] by linarith+
qed

lemma um_modulus_rx_mod:
  assumes "um_sn_ok e a"
  shows "um_modulus_rx e a = (a - (um_rx_next_highest e - um_window_size e)) mod um_sn_modulus e"
  unfolding um_modulus_rx_def by (rule window_offset_mod) (use um_sn_ok_base [OF assms] in auto)

interpretation um_rx: sn_window "um_sn_compare_rx e" "um_modulus_rx e" "um_sn_ok e" for e
proof
  show "um_sn_compare_rx e a b = um_modulus_rx e a - um_modulus_rx e b" for a b
    by (simp add: um_sn_compare_rx_def)
next
  fix a b
  assume a: "um_sn_ok e a" and b: "um_sn_ok e b"
  show "um_modulus_rx e a = um_modulus_rx e b \<longleftrightarrow> a = b"
    unfolding um_modulus_rx_def
    by (rule window_offset_inj [OF um_sn_ok_base(1,2) [OF a] um_sn_ok_base(2) [OF b]
          um_sn_ok_base(3,4) [OF a] um_sn_ok_base(3,4) [OF b]])
qed

text \<open>The receive list stays sorted by sequence number and offset, whatever arrives.\<close>

definition um_sorted :: "nr_rlc_entity_um \<Rightarrow> bool" where
  "um_sorted e \<longleftrightarrow> (\<forall>p\<in>set (um_rx_list e). um_sn_ok e (pdu_sn p)) \<and>
     sorted (map (\<lambda>p. (um_modulus_rx e (pdu_sn p), pdu_so p)) (um_rx_list e))"

lemma um_insert_sorted:
  assumes "um_sorted e" "um_sn_ok e (pdu_sn p)"
  shows "um_sorted (e\<lparr>um_rx_list := nr_rlc_pdu_list_add (um_sn_compare_rx e) (um_rx_list e) p\<rparr>)"
proof -
  have ok: "\<forall>q\<in>set (um_rx_list e). um_rx.pdu_ok e q" "um_rx.pdu_ok e p"
    using assms by (auto simp: um_sorted_def um_rx.pdu_ok_def)
  have "sorted (map (um_rx.pdu_rank e) (nr_rlc_pdu_list_add (um_sn_compare_rx e) (um_rx_list e) p))"
    by (rule um_rx.pdus.sorted_add [OF ok(2,1)])
      (use assms(1) in \<open>simp add: um_sorted_def um_rx.pdu_rank_def [abs_def]\<close>)
  then show ?thesis
    using assms um_rx.pdus.set_add [OF ok(2,1)]
    by (auto simp: um_sorted_def um_rx.pdu_rank_def [abs_def] um_sn_ok_def um_cfg_def um_modulus_rx_def)
qed

text \<open>Distances behind the expected sequence number \<open>x\<close>.\<close>

definition behind :: "int \<Rightarrow> int \<Rightarrow> nr_rlc_pdu \<Rightarrow> int" where
  "behind m x p = (x - pdu_sn p) mod m"

lemma um_rank_behind:
  assumes "um_cfg e" "um_sn_ok e (pdu_sn p)" "um_rx_next_highest e = (x + c) mod um_sn_modulus e"
    and "behind (um_sn_modulus e) x p + c \<le> um_window_size e" "0 \<le> c"
  shows "um_modulus_rx e (pdu_sn p) = um_window_size e - c - behind (um_sn_modulus e) x p"
proof -
  let ?m = "um_sn_modulus e" and ?w = "um_window_size e"
  have m: "0 < ?m" "?m = 2 * ?w" using um_cfg_modulus [OF assms(1)] by auto
  have "um_modulus_rx e (pdu_sn p) = (pdu_sn p - ((x + c) mod ?m - ?w)) mod ?m"
    using um_modulus_rx_mod [OF assms(2)] assms(3) by simp
  also have "\<dots> = (?w - c - (x - pdu_sn p)) mod ?m" by (simp add: mod_simps algebra_simps)
  also have "\<dots> = (?w - c - behind ?m x p) mod ?m" by (simp add: behind_def mod_simps)
  also have "\<dots> = ?w - c - behind ?m x p"
  proof (rule mod_pos_pos_trivial)
    have "0 \<le> behind ?m x p" using m(1) by (simp add: behind_def)
    then show "0 \<le> ?w - c - behind ?m x p" "?w - c - behind ?m x p < ?m"
      using assms(4,5) m by linarith+
  qed
  finally show ?thesis .
qed

lemma um_rank_x:
  assumes "um_cfg e" "um_sn_ok e x" "um_rx_next_highest e = (x + c) mod um_sn_modulus e" "c = 0 \<or> c = 1"
  shows "um_modulus_rx e x = um_window_size e - c"
    and "um_modulus_rx e (um_rx_next_highest e) = um_window_size e"
proof -
  let ?m = "um_sn_modulus e" and ?w = "um_window_size e"
  have m: "?m = 2 * ?w" "1 < ?w" using um_cfg_modulus [OF assms(1)] by auto
  have "um_modulus_rx e x = (x - ((x + c) mod ?m - ?w)) mod ?m"
    using um_modulus_rx_mod [OF assms(2)] assms(3) by simp
  also have "\<dots> = (?w - c) mod ?m" by (simp add: mod_simps algebra_simps)
  also have "\<dots> = ?w - c" using m assms(4) by auto
  finally show "um_modulus_rx e x = ?w - c" .
  have "um_sn_ok e (um_rx_next_highest e)" using assms(1) by (simp add: um_sn_ok_def um_cfg_def)
  from um_modulus_rx_mod [OF this] m
  show "um_modulus_rx e (um_rx_next_highest e) = ?w" by simp
qed

subsection \<open>The receiver in the middle of an SDU\<close>

text \<open>The pieces of an SDU received so far, in order and without gap.\<close>

fun chain :: "bytes \<Rightarrow> int \<Rightarrow> nat \<Rightarrow> nr_rlc_pdu list \<Rightarrow> nat \<Rightarrow> bool" where
  "chain s x o1 [] k \<longleftrightarrow> o1 = k"
| "chain s x o1 (p # ps) k \<longleftrightarrow> pdu_sn p = x \<and> piece_of s p \<and> \<not> pdu_is_last p \<and> pdu_so p = int o1 \<and>
     chain s x (o1 + nat (pdu_size p)) ps k"

lemma chain_append:
  "chain s x o1 (ps @ qs) k \<longleftrightarrow> (\<exists>j. chain s x o1 ps j \<and> chain s x j qs k)"
  by (induction ps arbitrary: o1) auto

lemma chain_le: "chain s x o1 ps k \<Longrightarrow> o1 \<le> k"
  by (induction ps arbitrary: o1) force+

lemma chain_sn: "chain s x o1 ps k \<Longrightarrow> p \<in> set ps \<Longrightarrow> pdu_sn p = x \<and> piece_of s p"
  by (induction ps arbitrary: o1) auto

lemma chain_so: "chain s x o1 ps k \<Longrightarrow> p \<in> set ps \<Longrightarrow> pdu_so p < int k"
proof (induction ps arbitrary: o1)
  case (Cons q qs)
  then have "o1 + nat (pdu_size q) \<le> k" "0 < pdu_size q"
    using chain_le by (auto simp: piece_of_def)
  then show ?case using Cons by auto
qed simp

lemma chain_size: "chain s x o1 ps k \<Longrightarrow> sum_list (map pdu_size ps) = int k - int o1"
  by (induction ps arbitrary: o1) (auto simp: piece_of_def)

lemma chain_not_full:
  "chain s x o1 ps k \<Longrightarrow> \<not> sdu_full_loop x (int o1 - 1) ps"
proof (induction ps arbitrary: o1)
  case (Cons p ps)
  then have "max (int o1 - 1) (pdu_so p + pdu_size p - 1) = int (o1 + nat (pdu_size p)) - 1"
    by (auto simp: piece_of_def)
  then show ?case
    using Cons.IH [of "o1 + nat (pdu_size p)"] Cons.prems by (simp del: of_nat_add)
qed simp

lemma chain_last_full:
  assumes "chain s x o1 ps k" "pdu_sn q = x" "pdu_so q = int k" "pdu_is_last q"
  shows "sdu_full_loop x (int o1 - 1) (ps @ [q])"
  using assms
proof (induction ps arbitrary: o1)
  case (Cons p ps)
  then have "max (int o1 - 1) (pdu_so p + pdu_size p - 1) = int (o1 + nat (pdu_size p)) - 1"
    by (auto simp: piece_of_def)
  then show ?case
    using Cons.IH [of "o1 + nat (pdu_size p)"] Cons.prems by (simp del: of_nat_add)
qed simp

definition um_delivered_before :: "int \<Rightarrow> int \<Rightarrow> int \<Rightarrow> nr_rlc_pdu list \<Rightarrow> bool" where
  "um_delivered_before m x w ds \<longleftrightarrow>
     (\<forall>p\<in>set ds. pdu_data p = None \<and> pdu_size p = 0 \<and> 0 \<le> pdu_sn p \<and> pdu_sn p < m \<and>
        1 \<le> behind m x p \<and> behind m x p \<le> w) \<and>
     sorted_wrt (\<lambda>p q. behind m x p \<ge> behind m x q) ds"

definition um_rx_at :: "nr_rlc_entity_um \<Rightarrow> int \<Rightarrow> bytes \<Rightarrow> nat \<Rightarrow> bool" where
  "um_rx_at e x s k \<longleftrightarrow> um_cfg e \<and> um_sn_ok e x \<and> um_rx_next_reassembly e = x \<and>
     um_rx_next_highest e = (x + of_bool (0 < k)) mod um_sn_modulus e \<and> um_rx_size e = int k \<and>
     um_t_reassembly_start e = 0 \<and>
     (\<exists>ds ps. um_rx_list e = ds @ ps \<and> chain s x 0 ps k \<and>
        um_delivered_before (um_sn_modulus e) x (um_window_size e - of_bool (0 < k)) ds)"

lemma um_rx_atI:
  assumes "um_cfg e" "um_sn_ok e x" "um_rx_next_reassembly e = x"
    "um_rx_next_highest e = (x + of_bool (0 < k)) mod um_sn_modulus e" "um_rx_size e = int k"
    "um_t_reassembly_start e = 0" "um_rx_list e = ds @ ps" "chain s x 0 ps k"
    "um_delivered_before (um_sn_modulus e) x (um_window_size e - of_bool (0 < k)) ds"
  shows "um_rx_at e x s k"
  unfolding um_rx_at_def by (intro conjI exI) (rule assms)+

lemma chain_0: "chain s x 0 ps 0 \<longleftrightarrow> ps = []"
  using chain_le by (cases ps) (force simp: piece_of_def)+

lemma um_rx_at_0: "um_rx_at e x s 0 \<Longrightarrow> um_rx_at e x s' 0"
  by (simp add: um_rx_at_def chain_0)

lemma go_to_sn_append:
  "\<forall>p\<in>set ds. pdu_sn p \<noteq> x \<Longrightarrow> go_to_sn (ds @ ps) x = go_to_sn ps x"
  by (simp add: go_to_sn_def dropWhile_append2)

lemma go_to_sn_same: "\<forall>p\<in>set ps. pdu_sn p = x \<Longrightarrow> go_to_sn ps x = ps"
  by (cases ps) (auto simp: go_to_sn_def)

lemma behind_self: "behind m x p = 0" if "pdu_sn p = x" "0 < m"
  using that by (simp add: behind_def)

lemma pdu_list_add_last:
  "\<forall>q\<in>set l. \<not> (cmp (pdu_sn q) (pdu_sn p) > 0 \<or> (pdu_sn q = pdu_sn p \<and> pdu_so q > pdu_so p)) \<Longrightarrow>
   nr_rlc_pdu_list_add cmp l p = l @ [p]"
  by (induction l) auto

lemma um_cfg_rx_fields [simp]:
  "um_cfg (e\<lparr>um_t_reassembly_start := t\<rparr>) = um_cfg e" "um_cfg (e\<lparr>um_rx_list := l\<rparr>) = um_cfg e"
  "um_cfg (e\<lparr>um_rx_size := z\<rparr>) = um_cfg e"
  by (simp_all add: um_cfg_def)

lemma um_cfg_trigger: "um_cfg e \<Longrightarrow> um_cfg (e\<lparr>um_rx_timer_trigger := um_rx_next_highest e\<rparr>)"
  by (simp add: um_cfg_def)

text \<open>The next piece goes to the end of the receive list.\<close>

lemma um_next_piece_last:
  assumes at: "um_rx_at e x s k" and q: "pdu_sn q = x" "pdu_so q = int k"
  shows "nr_rlc_pdu_list_add (um_sn_compare_rx e) (um_rx_list e) q = um_rx_list e @ [q]"
proof (rule pdu_list_add_last, rule ballI)
  fix p assume p: "p \<in> set (um_rx_list e)"
  obtain ds ps where l: "um_rx_list e = ds @ ps" "chain s x 0 ps k"
      "um_delivered_before (um_sn_modulus e) x (um_window_size e - of_bool (0 < k)) ds"
    using at by (auto simp: um_rx_at_def)
  have cfg: "um_cfg e" "um_sn_ok e x" and nh: "um_rx_next_highest e = (x + of_bool (0 < k)) mod um_sn_modulus e"
    using at by (auto simp: um_rx_at_def)
  consider "p \<in> set ds" | "p \<in> set ps" using p l by auto
  then show "\<not> (um_sn_compare_rx e (pdu_sn p) (pdu_sn q) > 0 \<or> pdu_sn p = pdu_sn q \<and> pdu_so p > pdu_so q)"
  proof cases
    case 1
    then have b: "1 \<le> behind (um_sn_modulus e) x p" "behind (um_sn_modulus e) x p \<le> um_window_size e - of_bool (0 < k)"
      and ok: "um_sn_ok e (pdu_sn p)"
      using l(3) cfg by (auto simp: um_delivered_before_def um_sn_ok_def)
    have "um_modulus_rx e (pdu_sn p) = um_window_size e - of_bool (0 < k) - behind (um_sn_modulus e) x p"
      by (rule um_rank_behind [OF cfg(1) ok nh]) (use b in auto)
    moreover have "um_modulus_rx e x = um_window_size e - of_bool (0 < k)"
      by (rule um_rank_x(1) [OF cfg nh]) auto
    ultimately have "um_sn_compare_rx e (pdu_sn p) (pdu_sn q) < 0"
      using b q by (simp add: um_sn_compare_rx_def)
    moreover have "pdu_sn p \<noteq> pdu_sn q"
      using b q behind_self [of p x "um_sn_modulus e"] um_cfg_modulus(1) [OF cfg(1)] by auto
    ultimately show ?thesis by simp
  next
    case 2
    then show ?thesis
      using chain_sn [OF l(2) 2] chain_so [OF l(2) 2] q by (simp add: um_sn_compare_rx_def)
  qed
qed

lemma um_discard_keeps:
  assumes "um_sn_compare_rx e (pdu_sn p) (um_rx_next_highest e) < 0"
  shows "um_discard_out_of_window e (p # ps) z = (p # ps, z)"
  using assms by simp

lemma um_discard_delivered:
  assumes "um_cfg e" "um_sn_ok e x" "um_rx_next_highest e = (x + 1) mod um_sn_modulus e"
    and "um_delivered_before (um_sn_modulus e) x (um_window_size e) ds"
    and "pdu_sn q = x"
  shows "\<exists>ds'. um_discard_out_of_window e (ds @ q # ps) z = (ds' @ q # ps, z) \<and>
     um_delivered_before (um_sn_modulus e) x (um_window_size e - 1) ds'"
  using assms(4)
proof (induction ds)
  case Nil
  have "um_sn_compare_rx e x (um_rx_next_highest e) < 0"
    using um_rank_x [OF assms(1-3)] by (simp add: um_sn_compare_rx_def)
  then have "um_discard_out_of_window e ([] @ q # ps) z = ([] @ q # ps, z)" using assms(5) by simp
  moreover have "um_delivered_before (um_sn_modulus e) x (um_window_size e - 1) []"
    by (simp add: um_delivered_before_def)
  ultimately show ?case by blast
next
  case (Cons p ds)
  let ?m = "um_sn_modulus e" and ?w = "um_window_size e"
  have p: "1 \<le> behind ?m x p" "behind ?m x p \<le> ?w" "pdu_size p = 0" and ok: "um_sn_ok e (pdu_sn p)"
    and ds: "um_delivered_before ?m x ?w ds" and le: "\<forall>t\<in>set ds. behind ?m x t \<le> behind ?m x p"
    using Cons.prems assms(1) by (auto simp: um_delivered_before_def um_sn_ok_def)
  show ?case
  proof (cases "behind ?m x p = ?w")
    case True
    have m: "?m = 2 * ?w" "1 < ?w" using um_cfg_modulus [OF assms(1)] by auto
    have "um_modulus_rx e (pdu_sn p) = (pdu_sn p - ((x + 1) mod ?m - ?w)) mod ?m"
      using um_modulus_rx_mod [OF ok] assms(3) by simp
    also have "\<dots> = (?w - 1 - (x - pdu_sn p)) mod ?m" by (simp add: mod_simps algebra_simps)
    also have "\<dots> = (?w - 1 - behind ?m x p) mod ?m" by (simp add: behind_def mod_simps)
    also have "\<dots> = (-1) mod ?m" using True by simp
    also have "\<dots> = ?m - 1" using m by (simp add: zmod_minus1)
    finally have "um_sn_compare_rx e (pdu_sn p) (um_rx_next_highest e) \<ge> 0"
      using um_rank_x(2) [OF assms(1-3)] m by (simp add: um_sn_compare_rx_def)
    then show ?thesis using Cons.IH [OF ds] p by simp
  next
    case False
    have "um_modulus_rx e (pdu_sn p) = ?w - 1 - behind ?m x p"
      by (rule um_rank_behind [OF assms(1) ok assms(3)]) (use p False in auto)
    then have "um_sn_compare_rx e (pdu_sn p) (um_rx_next_highest e) < 0"
      using um_rank_x(2) [OF assms(1-3)] p by (simp add: um_sn_compare_rx_def)
    then have "um_discard_out_of_window e ((p # ds) @ q # ps) z = ((p # ds) @ q # ps, z)" by simp
    moreover have "behind ?m x p \<le> ?w - 1" using p(2) False by linarith
    then have "um_delivered_before ?m x (?w - 1) (p # ds)"
      using Cons.prems le by (fastforce simp: um_delivered_before_def)
    ultimately show ?thesis by blast
  qed
qed

text \<open>The reception of the next piece of the current SDU.\<close>

lemma um_delivered_ne:
  "um_delivered_before m x w ds \<Longrightarrow> 0 < m \<Longrightarrow> \<forall>p\<in>set ds. pdu_sn p \<noteq> x"
  by (fastforce simp: um_delivered_before_def behind_self)

lemma um_rx_at_run:
  assumes "um_cfg e" "um_rx_list e = ds @ ps" "um_delivered_before (um_sn_modulus e) x w ds"
    and "\<forall>p\<in>set ps. pdu_sn p = x"
  shows "go_to_sn (um_rx_list e) x = ps" "run_of (um_rx_list e) x = ps"
    "takeWhile (\<lambda>p. pdu_sn p \<noteq> x) (um_rx_list e) = ds"
proof -
  have ne: "\<forall>p\<in>set ds. pdu_sn p \<noteq> x"
    using um_delivered_ne [OF assms(3)] um_cfg_modulus(1) [OF assms(1)] by simp
  show g: "go_to_sn (um_rx_list e) x = ps"
    using assms(2,4) go_to_sn_append [OF ne] go_to_sn_same [OF assms(4)] by simp
  have "takeWhile (\<lambda>p. pdu_sn p = x) ps = ps"
    using assms(4) by (simp add: takeWhile_eq_all_conv)
  then show "run_of (um_rx_list e) x = ps" using g by (simp add: run_of_def)
  show "takeWhile (\<lambda>p. pdu_sn p \<noteq> x) (um_rx_list e) = ds"
    using ne assms(2,4) by (cases ps) (auto simp: takeWhile_append2)
qed

text \<open>There is no gap, so the reassembly timer stays off.\<close>

lemma chain_no_missing: "chain s x o1 ps k \<Longrightarrow> \<not> missing_bytes_loop x (int o1 - 1) ps"
proof (induction ps arbitrary: o1)
  case (Cons p ps)
  then have "max (int o1 - 1) (pdu_so p + pdu_size p - 1) = int (o1 + nat (pdu_size p)) - 1"
    by (auto simp: piece_of_def)
  then show ?case
    using Cons.IH [of "o1 + nat (pdu_size p)"] Cons.prems by (simp del: of_nat_add)
qed simp

lemma um_rx_at_timers:
  assumes "um_rx_at e x s k"
  shows "um_start_t_reassembly (um_stop_t_reassembly e) = e"
proof -
  let ?m = "um_sn_modulus e" and ?w = "um_window_size e"
  obtain ds ps where l: "um_rx_list e = ds @ ps" "chain s x 0 ps k"
      "um_delivered_before ?m x (?w - of_bool (0 < k)) ds"
    and cfg: "um_cfg e" "um_sn_ok e x" and re: "um_rx_next_reassembly e = x"
    and nh: "um_rx_next_highest e = (x + of_bool (0 < k)) mod ?m" and t: "um_t_reassembly_start e = 0"
    using assms by (auto simp: um_rx_at_def)
  have m: "?m = 2 * ?w" "1 < ?w" using um_cfg_modulus [OF cfg(1)] by auto
  have x: "0 \<le> x" "x < ?m" using cfg(2) by (simp_all add: um_sn_ok_def)
  have succ: "um_rx_next_reassembly_succ e = (x + 1) mod ?m"
    using re x m by (simp add: um_rx_next_reassembly_succ_def c_rem_nonneg)
  have "um_sn_ok e ((x + 1) mod ?m)" using cfg(1) m by (simp add: um_sn_ok_def)
  then have "um_modulus_rx e ((x + 1) mod ?m) =
      ((x + 1) mod ?m - ((x + of_bool (0 < k)) mod ?m - ?w)) mod ?m"
    using um_modulus_rx_mod nh by simp
  also have "\<dots> = (1 - of_bool (0 < k) + ?w) mod ?m"
  proof -
    have "((x + 1) mod ?m - (b mod ?m - ?w)) mod ?m = (x + 1 - b + ?w) mod ?m" for b
      by (metis (no_types, opaque_lifting) diff_diff_eq2 diff_add_eq mod_add_left_eq mod_diff_eq)
    then show ?thesis by (simp add: algebra_simps)
  qed
  also have "\<dots> = 1 - of_bool (0 < k) + ?w" using m by (intro mod_pos_pos_trivial) auto
  finally have "um_sn_compare_rx e (um_rx_next_highest e) (um_rx_next_reassembly_succ e) \<le> 0"
    using um_rank_x(2) [OF cfg nh] succ by (simp add: um_sn_compare_rx_def)
  moreover have "\<not> um_sdu_has_missing_bytes e x"
    using um_rx_at_run(1) [OF cfg(1) l(1,3)] chain_sn [OF l(2)] chain_no_missing [OF l(2)]
    by (simp add: um_sdu_has_missing_bytes_def sdu_has_missing_bytes_list_def Let_def)
  ultimately show ?thesis
    using t re by (simp add: um_start_t_reassembly_def um_stop_t_reassembly_def)
qed

lemma um_middle_piece:
  assumes at: "um_rx_at e x s k" and pc: "piece_of s q" and q: "pdu_sn q = x" "pdu_so q = int k" "\<not> pdu_is_last q"
    and e2: "e2 = e\<lparr>um_rx_size := um_rx_size e + pdu_size q, um_rx_list := um_rx_list e @ [q]\<rparr>"
  shows "\<exists>e'. um_reception_actions e2 q = Inr (e', []) \<and> um_rx_at e' x s (k + nat (pdu_size q)) \<and> um_same_cfg e' e"
proof -
  let ?m = "um_sn_modulus e" and ?w = "um_window_size e"
  obtain ds ps where l: "um_rx_list e = ds @ ps" "chain s x 0 ps k"
      "um_delivered_before ?m x (?w - of_bool (0 < k)) ds"
    and cfg: "um_cfg e" "um_sn_ok e x" and re: "um_rx_next_reassembly e = x"
    and nh: "um_rx_next_highest e = (x + of_bool (0 < k)) mod ?m" and sz: "um_rx_size e = int k"
    and t0: "um_t_reassembly_start e = 0"
    using at by (auto simp: um_rx_at_def)
  have sp: "0 < pdu_size q" using pc by (simp add: piece_of_def)
  have cfg2: "um_cfg e2" using cfg by (simp add: e2)
  have ch: "chain s x 0 (ps @ [q]) (k + nat (pdu_size q))"
    using l(2) pc q by (auto simp: chain_append)
  have l2: "um_rx_list e2 = ds @ (ps @ [q])" using l(1) by (simp add: e2)
  have d2: "um_delivered_before (um_sn_modulus e2) x (?w - of_bool (0 < k)) ds" using l(3) by (simp add: e2)
  have g: "go_to_sn (um_rx_list e2) x = ps @ [q]"
    by (rule um_rx_at_run(1) [OF cfg2 l2 d2]) (use chain_sn [OF ch] in blast)
  have nf: "\<not> um_sdu_full e2 x"
    using chain_not_full [OF ch] g by (simp add: um_sdu_full_def sdu_full_list_def Let_def)
  have adv: "\<exists>e3. um_advance_window e2 x = Inr e3 \<and> um_rx_at e3 x s (k + nat (pdu_size q)) \<and> um_same_cfg e3 e"
  proof (cases "0 < k")
    case True
    have "um_sn_compare_rx e2 x (um_rx_next_highest e2) < 0"
    proof -
      have "um_sn_ok e2 x" "um_rx_next_highest e2 = (x + 1) mod um_sn_modulus e2"
        using cfg nh True by (simp_all add: e2 um_sn_ok_def)
      from um_rank_x [OF cfg2 this] show ?thesis by (simp add: um_sn_compare_rx_def)
    qed
    then have "um_advance_window e2 x = Inr e2" by (simp add: um_advance_window_def)
    moreover have "um_rx_at e2 x s (k + nat (pdu_size q))"
      unfolding um_rx_at_def
      using t0 cfg2 cfg re nh sz True sp l2 l(3) ch by (auto simp: e2 um_sn_ok_def)
    ultimately show ?thesis by (auto simp: um_same_cfg_def e2)
  next
    case False
    define e3 where "e3 = e2\<lparr>um_rx_next_highest := (x + 1) mod ?m\<rparr>"
    have m: "0 < ?m" using um_cfg_modulus [OF cfg(1)] by simp
    have cfg3: "um_cfg e3" using cfg2 m by (simp add: um_cfg_def e3_def e2)
    have ok3: "um_sn_ok e3 x" using cfg3 cfg(2) by (simp add: um_sn_ok_def e3_def e2)
    have nh3: "um_rx_next_highest e3 = (x + 1) mod um_sn_modulus e3" by (simp add: e3_def e2)
    have k0: "k = 0" "ps = []" using False l(2) by (auto simp: chain_0)
    have d3: "um_delivered_before (um_sn_modulus e3) x (um_window_size e3) ds"
      using l(3) k0 by (simp add: e3_def e2)
    obtain ds' where ds': "um_discard_out_of_window e3 (ds @ q # []) (um_rx_size e3) = (ds' @ q # [], um_rx_size e3)"
        "um_delivered_before (um_sn_modulus e3) x (um_window_size e3 - 1) ds'"
      using um_discard_delivered [OF cfg3 ok3 nh3 d3 q(1)] by blast
    define e4 where "e4 = e3\<lparr>um_rx_list := ds' @ [q], um_rx_size := um_rx_size e3\<rparr>"
    have l3: "um_rx_list e3 = ds @ [q]" using l(1) k0 by (simp add: e3_def e2)
    have c1: "c_rem (x + 1) ?m = (x + 1) mod ?m"
      using m cfg(2) by (simp add: c_rem_nonneg um_sn_ok_def)
    have cfg4: "um_cfg e4" using cfg3 by (simp add: e4_def)
    have ok4: "um_sn_ok e4 x" using cfg4 ok3 by (simp add: um_sn_ok_def e4_def)
    have "um_sn_compare_rx e4 (um_rx_next_reassembly e4) (um_rx_next_highest e4) < 0"
      using um_rank_x [OF cfg4 ok4, of 1] re by (simp add: um_sn_compare_rx_def e4_def e3_def e2)
    moreover have "um_sn_compare_rx e2 x (um_rx_next_highest e2) = 0"
      using nh k0 cfg(2) by (simp add: um_sn_compare_rx_def e2 um_sn_ok_def)
    ultimately have "um_advance_window e2 x = Inr e4"
      using ds'(1) l3 c1
      by (simp add: um_advance_window_def Let_def e4_def e3_def e2)
    moreover have "um_rx_at e4 x s (k + nat (pdu_size q))"
    proof -
      have "um_rx_list e4 = ds' @ [q] \<and> chain s x 0 [q] (k + nat (pdu_size q)) \<and>
          um_delivered_before (um_sn_modulus e4) x (um_window_size e4 - of_bool (0 < k + nat (pdu_size q))) ds'"
        using ds'(2) ch k0 sp by (simp add: e4_def e3_def e2)
      moreover have "um_rx_next_reassembly e4 = x" "um_rx_size e4 = int (k + nat (pdu_size q))"
        "um_rx_next_highest e4 = (x + of_bool (0 < k + nat (pdu_size q))) mod um_sn_modulus e4"
        using re sz sp k0 by (simp_all add: e4_def e3_def e2)
      moreover have "um_t_reassembly_start e4 = 0" using t0 by (simp add: e4_def e3_def e2)
      ultimately show ?thesis
        by (intro um_rx_atI [where ds = ds' and ps = "[q]"] cfg4 ok4) blast+
    qed
    ultimately show ?thesis by (auto simp: um_same_cfg_def e4_def e3_def e2)
  qed
  then obtain e3 where e3: "um_advance_window e2 x = Inr e3" "um_rx_at e3 x s (k + nat (pdu_size q))"
      "um_same_cfg e3 e" by blast
  have "um_same_cfg (um_start_t_reassembly (um_stop_t_reassembly e3)) e"
    using e3(3) by (simp add: um_same_cfg_def um_start_t_reassembly_def um_stop_t_reassembly_def)
  then show ?thesis
    using e3 nf q(1) um_rx_at_timers [OF e3(2)] by (auto simp: um_reception_actions_def Let_def)
qed

lemma behind_succ:
  assumes "0 < m" "behind m x p < m - 1"
  shows "behind m ((x + 1) mod m) p = behind m x p + 1"
proof -
  have "behind m ((x + 1) mod m) p = (behind m x p + 1) mod m"
    by (simp add: behind_def mod_simps algebra_simps)
  also have "\<dots> = behind m x p + 1"
    using assms pos_mod_sign [OF assms(1), of "x - pdu_sn p"] by (simp add: behind_def)
  finally show ?thesis .
qed

lemma um_delivered_succ:
  assumes m: "m = 2 * w" "1 < w" and ds: "um_delivered_before m x (w - 1) ds"
    and ps: "\<forall>p\<in>set ps. pdu_sn p = x" and x: "0 \<le> x" "x < m"
  shows "um_delivered_before m ((x + 1) mod m) w (ds @ map um_clear_pdu ps)"
proof -
  have b1: "behind m ((x + 1) mod m) p = behind m x p + 1" if "p \<in> set ds" for p
    by (rule behind_succ) (use that ds m in \<open>auto simp: um_delivered_before_def\<close>)
  have b2: "behind m ((x + 1) mod m) (um_clear_pdu p) = 1" if "p \<in> set ps" for p
  proof -
    have sn: "pdu_sn (um_clear_pdu p) = x" using ps that by (simp add: um_clear_pdu_def)
    have b0: "behind m x (um_clear_pdu p) = 0" by (rule behind_self [OF sn]) (use m in simp)
    then show ?thesis using behind_succ [of m x "um_clear_pdu p"] m by simp
  qed
  have "sorted_wrt (\<lambda>p q. behind m ((x + 1) mod m) p \<ge> behind m ((x + 1) mod m) q) ds"
    using ds b1 by (auto simp: um_delivered_before_def intro: sorted_wrt_mono_rel [rotated])
  moreover have "sorted_wrt (\<lambda>p q. behind m ((x + 1) mod m) p \<ge> behind m ((x + 1) mod m) q) (map um_clear_pdu ps)"
    using b2 by (induction ps) auto
  moreover have "\<forall>p\<in>set ds. 1 \<le> behind m x p" "\<forall>p\<in>set ds. behind m x p \<le> w - 1"
    using ds by (auto simp: um_delivered_before_def)
  ultimately show ?thesis
    using ds b1 b2 ps x m
    by (auto simp: um_delivered_before_def sorted_wrt_append um_clear_pdu_def)
qed

lemma skip_one_delivered:
  assumes "0 < m" "0 \<le> x" "sdu_delivered_list l x" "\<not> sdu_delivered_list l ((x + 1) mod m)"
  shows "skip_delivered l m x = Inr ((x + 1) mod m)"
proof -
  have c: "c_rem (x + 1) m = (x + 1) mod m" using assms by (simp add: c_rem_nonneg)
  have "while_option (sdu_delivered_list l) (\<lambda>s. c_rem (s + 1) m) x = Some ((x + 1) mod m)"
    using assms(3,4) c by (subst while_option_unfold, simp, subst while_option_unfold, simp)
  then show ?thesis by (simp add: skip_delivered_def)
qed

lemma um_last_piece:
  assumes at: "um_rx_at e x s k" and pc: "piece_of s q" and q: "pdu_sn q = x" "pdu_so q = int k" "pdu_is_last q"
    and k: "0 < k" and len: "int (length s) \<le> NR_SDU_MAX"
    and e2: "e2 = e\<lparr>um_rx_size := um_rx_size e + pdu_size q, um_rx_list := um_rx_list e @ [q]\<rparr>"
  shows "\<exists>e'. um_reception_actions e2 q = Inr (e', [DeliverSdu s]) \<and>
     um_rx_at e' ((x + 1) mod um_sn_modulus e) s' 0 \<and> um_same_cfg e' e"
proof -
  let ?m = "um_sn_modulus e" and ?w = "um_window_size e" and ?x = "(x + 1) mod um_sn_modulus e"
  obtain ds ps where l: "um_rx_list e = ds @ ps" "chain s x 0 ps k"
      "um_delivered_before ?m x (?w - 1) ds"
    and cfg: "um_cfg e" "um_sn_ok e x" and re: "um_rx_next_reassembly e = x"
    and nh: "um_rx_next_highest e = ?x" and sz: "um_rx_size e = int k"
    and t0: "um_t_reassembly_start e = 0"
    using at k by (auto simp: um_rx_at_def)
  have m: "0 < ?m" "?m = 2 * ?w" "1 < ?w" using um_cfg_modulus [OF cfg(1)] by auto
  have x: "0 \<le> x" "x < ?m" using cfg(2) by (simp_all add: um_sn_ok_def)
  have cfg2: "um_cfg e2" using cfg by (simp add: e2)
  have l2: "um_rx_list e2 = ds @ (ps @ [q])" using l(1) by (simp add: e2)
  have d2: "um_delivered_before (um_sn_modulus e2) x (?w - 1) ds" using l(3) by (simp add: e2)
  have psx: "\<forall>p\<in>set (ps @ [q]). pdu_sn p = x" "\<forall>p\<in>set (ps @ [q]). piece_of s p"
    using chain_sn [OF l(2)] q pc by auto
  note run = um_rx_at_run [OF cfg2 l2 d2 psx(1)]
  have hdd: "pdu_data (hd (ps @ [q])) \<noteq> None"
    using psx(2) by (cases ps) (auto simp: piece_of_def)
  have full: "sdu_full_list (um_rx_list e2) x"
    using chain_last_full [OF l(2) q] run(1) hdd by (simp add: sdu_full_list_def Let_def)
  have sum: "sum_list (map pdu_size (ps @ [q])) = int k + pdu_size q"
    using chain_size [OF l(2)] by simp
  have dw: "dropWhile (\<lambda>p. pdu_sn p = x) (go_to_sn (um_rx_list e2) x) = []"
    using psx(1) run(1) by simp
  define l3 where "l3 = ds @ map um_clear_pdu (ps @ [q])"
  define e3 where "e3 = e2\<lparr>um_rx_list := l3, um_rx_size := 0\<rparr>"
  have reas: "um_reassemble_and_deliver e2 x = Inr (e3, [DeliverSdu s])"
    using reassemble_exact [OF full _ len, of um_clear_pdu "um_rx_size e2"] run psx(2) sum dw sz
    by (simp add: um_reassemble_and_deliver_def e3_def l3_def e2)
  have del3: "um_delivered_before ?m ?x ?w l3"
    unfolding l3_def by (rule um_delivered_succ [OF m(2,3) l(3) psx(1) x])
  have skip: "skip_delivered l3 ?m x = Inr ?x"
  proof (rule skip_one_delivered [OF m(1) x(1)])
    have "go_to_sn l3 x = map um_clear_pdu (ps @ [q])"
      using go_to_sn_append [OF um_delivered_ne [OF l(3) m(1)], of "map um_clear_pdu (ps @ [q])"]
        go_to_sn_same [of "map um_clear_pdu (ps @ [q])" x] psx(1)
      by (simp add: l3_def um_clear_pdu_def)
    then show "sdu_delivered_list l3 x"
      by (cases ps) (auto simp: sdu_delivered_list_def Let_def um_clear_pdu_def)
    show "\<not> sdu_delivered_list l3 ?x"
      using um_delivered_ne [OF del3 m(1)] sdu_delivered_in [of l3 ?x] by (metis imageE)
  qed
  define e4 where "e4 = e3\<lparr>um_rx_next_reassembly := ?x\<rparr>"
  have cfg4: "um_cfg e4" using cfg2 m(1) by (simp add: um_cfg_def e4_def e3_def e2)
  have at4: "um_rx_at e4 ?x s' 0"
    by (rule um_rx_atI [where ds = l3 and ps = "[]", OF cfg4])
      (use t0 cfg4 nh m(1) del3 in \<open>simp_all add: um_sn_ok_def e4_def e3_def e2\<close>)
  have "um_same_cfg (um_start_t_reassembly (um_stop_t_reassembly e4)) e"
    by (simp add: um_same_cfg_def um_start_t_reassembly_def um_stop_t_reassembly_def e4_def e3_def e2)
  moreover have "um_reception_actions e2 q = Inr (um_start_t_reassembly (um_stop_t_reassembly e4), [DeliverSdu s])"
    using full reas re skip q(1)
    by (simp add: um_reception_actions_def um_sdu_full_def um_set_rx_next_reassembly_def Let_def e4_def e3_def e2)
  ultimately show ?thesis using um_rx_at_timers [OF at4] at4 by auto
qed

end
