(* ===== verification/Rlc_Um_Props.thy ===== *)
theory Rlc_Um_Props
  imports Rlc_Um_Rx
begin

text \<open>
  The properties of RLC UM: a transmitter and a receiver over a channel that keeps the order, the
  invariant of the transmit queue, reassembly, the window, and where the code loses data or
  accounts wrongly.
\<close>

subsection \<open>Receiving the piece that comes next\<close>

lemma um_receive_next:
  assumes at: "um_rx_at rx x s k" and room: "NR_SDU_MAX \<le> um_rx_maxsize rx" "int (length s) \<le> NR_SDU_MAX"
    and n: "0 < n" "k + n \<le> length s" and d: "d = take n (drop k s)"
    and dec: "dec_byte dec = length hdr"
    and fl: "fst_flag \<longleftrightarrow> k = 0" "lst_flag \<longleftrightarrow> k + n = length s" "\<not> (fst_flag \<and> lst_flag)"
  shows "\<exists>rx' evs. um_receive_segment rx (hdr @ d) dec x (int k) fst_flag lst_flag = Inr (rx', evs) \<and>
     um_same_cfg rx' rx \<and>
     (if k + n = length s
      then evs = [DeliverSdu s] \<and> um_rx_at rx' ((x + 1) mod um_sn_modulus rx) [] 0
      else evs = [] \<and> um_rx_at rx' x s (k + n))"
proof -
  define q where "q = nr_rlc_new_pdu x (int k) fst_flag lst_flag d"
  have dl: "length d = n" using d n by simp
  have "(k + n = length s) = (int k + int n = int (length s))" by linarith
  then have pc: "piece_of s q" using n d dl fl by (simp add: piece_of_def q_def nr_rlc_new_pdu_def)
  have q: "pdu_sn q = x" "pdu_so q = int k" "pdu_size q = int n" "pdu_is_last q = lst_flag"
    using dl by (simp_all add: q_def nr_rlc_new_pdu_def)
  define e2 where "e2 = rx\<lparr>um_rx_size := um_rx_size rx + pdu_size q, um_rx_list := um_rx_list rx @ [q]\<rparr>"
  have "um_rx_size rx = int k" "um_rx_next_reassembly rx = x" using at by (auto simp: um_rx_at_def)
  moreover have "um_sn_compare_rx (rx\<lparr>um_rx_size := z\<rparr>) = um_sn_compare_rx rx" for z
    by (simp add: um_sn_compare_rx_def um_modulus_rx_def fun_eq_iff)
  ultimately have recv: "um_receive_segment rx (hdr @ d) dec x (int k) fst_flag lst_flag = um_reception_actions e2 q"
    using n dl dec room um_next_piece_last [OF at q(1,2)]
    by (simp add: um_receive_segment_def Let_def um_sn_compare_rx_def e2_def q(3) flip: q_def)
  show ?thesis
  proof (cases "k + n = length s")
    case True
    then have "0 < k" "pdu_is_last q" using fl q by auto
    then show ?thesis
      using um_last_piece [OF at pc q(1,2) _ _ room(2) e2_def] recv True by auto
  next
    case False
    then have "\<not> pdu_is_last q" using fl q by simp
    from um_middle_piece [OF at pc q(1,2) this e2_def]
    show ?thesis using recv False q(3) by auto
  qed
qed

subsection \<open>A transmitter and a receiver\<close>

text \<open>One transmission opportunity: the transmitter fills the granted buffer, and the receiver is
  given the PDU, if there is one.\<close>

fun um_transfer :: "nr_rlc_entity_um \<times> nr_rlc_entity_um \<Rightarrow> bytes \<Rightarrow>
    ((nr_rlc_entity_um \<times> nr_rlc_entity_um) \<times> rlc_event list) res" where
  "um_transfer (tx, rx) buffer =
     bnd (nr_rlc_entity_um_generate_pdu tx buffer) (\<lambda>(tx1, n, out).
       if n = 0 then Inr ((tx1, rx), [])
       else bnd (nr_rlc_entity_um_recv_pdu rx (take (nat n) out)) (\<lambda>(rx1, evs). Inr ((tx1, rx1), evs)))"

definition um_link_ok :: "nr_rlc_entity_um \<Rightarrow> nr_rlc_entity_um \<Rightarrow> bool" where
  "um_link_ok tx rx \<longleftrightarrow> um_tx_ok tx \<and> um_sn_field_length rx = um_sn_field_length tx \<and>
     NR_SDU_MAX \<le> um_rx_maxsize rx \<and> (\<forall>(s, k) \<in> set (um_pending tx). int (length s) \<le> NR_SDU_MAX) \<and>
     (case um_pending tx of [] \<Rightarrow> um_rx_at rx (um_tx_next tx) [] 0
      | (s, k) # _ \<Rightarrow> um_rx_at rx (um_tx_next tx) s k)"

text \<open>The segment at the head of the queue: \<open>k\<close> bytes of the SDU \<open>S\<close> have been sent.\<close>

definition um_head :: "nr_rlc_entity_um \<Rightarrow> nr_rlc_sdu_segment \<Rightarrow> bytes \<Rightarrow> nat \<Rightarrow> (bytes \<times> nat) list \<Rightarrow> bool" where
  "um_head e s S k q \<longleftrightarrow> um_pending e = (S, k) # q \<and> seg_so s = int k \<and> k < length S \<and>
     int k + seg_size s = int (length S) \<and> (seg_is_first s \<longleftrightarrow> k = 0) \<and> seg_is_last s \<and> 0 < seg_size s \<and>
     (\<forall>n. seg_bytes (um_heap e) (s\<lparr>seg_size := n, seg_is_last := False\<rparr>) = take (nat n) (drop k S)) \<and>
     seg_bytes (um_heap e) s = drop k S \<and> (\<forall>(s', k') \<in> set q. k' = 0)"

lemma um_head_exists:
  assumes "um_tx_ok e" "um_tx_list e = s # rest"
  shows "\<exists>S k q. um_head e s S k q"
proof -
  obtain u where u: "hp_sdus (um_heap e) (seg_sdu s) = Some u" "0 \<le> seg_so s" "0 < seg_size s"
      "seg_is_last s" "seg_so s + seg_size s = int (length (sdu_data u))" "seg_is_first s \<longleftrightarrow> seg_so s = 0"
    using assms by (fastforce simp: um_tx_ok_def seg_slice_def split: option.splits)
  have rest: "\<forall>t\<in>set rest. seg_is_first t \<and> seg_slice (um_heap e) t"
    using assms by (auto simp: um_tx_ok_def)
  have "\<forall>(s', k') \<in> set (map (seg_pending (um_heap e)) rest). k' = 0"
    using rest by (auto simp: seg_pending_def seg_slice_def split: option.splits)
  then have "um_head e s (sdu_data u) (nat (seg_so s)) (map (seg_pending (um_heap e)) rest)"
    using u assms(2) by (auto simp: um_head_def um_pending_def seg_pending_def seg_bytes_def)
  then show ?thesis by blast
qed

text \<open>The number of bytes still to send.\<close>

definition um_left :: "nr_rlc_entity_um \<Rightarrow> nat" where
  "um_left e = sum_list (map (\<lambda>(s, k). length s - k) (um_pending e))"

text \<open>What a transmission opportunity keeps: SDUs are delivered or still pending, in order.\<close>

definition um_transfer_ok :: "nr_rlc_entity_um \<Rightarrow> nr_rlc_entity_um \<Rightarrow> bytes \<Rightarrow> bool" where
  "um_transfer_ok tx rx buffer \<longleftrightarrow>
     (\<exists>tx' rx' evs. um_transfer (tx, rx) buffer = Inr ((tx', rx'), evs) \<and> um_link_ok tx' rx' \<and>
        um_sn_field_length tx' = um_sn_field_length tx \<and>
        map (\<lambda>(s, k). DeliverSdu s) (um_pending tx) = evs @ map (\<lambda>(s, k). DeliverSdu s) (um_pending tx') \<and>
        um_tx_maxsize tx' = um_tx_maxsize tx \<and> um_left tx' \<le> um_left tx \<and>
        (um_pending tx \<noteq> [] \<and> 5 \<le> length buffer \<longrightarrow> um_left tx' < um_left tx))"

lemma um_link_next:
  assumes "um_tx_ok tx'" "um_sn_field_length rx' = um_sn_field_length tx'" "NR_SDU_MAX \<le> um_rx_maxsize rx'"
    and "\<forall>(s, k) \<in> set (um_pending tx'). int (length s) \<le> NR_SDU_MAX"
    and "\<forall>(s, k) \<in> set (um_pending tx'). k = 0" "um_rx_at rx' (um_tx_next tx') s0 0"
  shows "um_link_ok tx' rx'"
  using assms um_rx_at_0 [OF assms(6)]
  by (auto simp: um_link_ok_def split: list.splits)

text \<open>The parameters both peers agree on while the SDU at the head is being sent.\<close>

lemma um_link_head:
  assumes ok: "um_link_ok tx rx" and hd: "um_head tx s S k q"
  shows "um_tx_ok tx" "um_sn_field_length rx = um_sn_field_length tx" "NR_SDU_MAX \<le> um_rx_maxsize rx"
    "um_sn_field_length tx = 6 \<or> um_sn_field_length tx = 12"
    "0 \<le> um_tx_next tx" "um_tx_next tx < 2 ^ um_sn_field_length tx"
    "um_rx_at rx (um_tx_next tx) S k" "int (length S) \<le> NR_SDU_MAX" "int k < 65536"
    "\<forall>(s, k) \<in> set q. int (length s) \<le> NR_SDU_MAX" "um_sn_modulus rx = um_sn_modulus tx"
proof -
  have pend: "um_pending tx = (S, k) # q" and so: "k < length S" using hd by (auto simp: um_head_def)
  have cfg: "um_cfg tx" using ok by (simp add: um_link_ok_def um_tx_ok_def)
  show txok: "um_tx_ok tx" and len: "um_sn_field_length rx = um_sn_field_length tx"
    and "NR_SDU_MAX \<le> um_rx_maxsize rx" using ok by (auto simp: um_link_ok_def)
  show "um_sn_field_length tx = 6 \<or> um_sn_field_length tx = 12"
    "0 \<le> um_tx_next tx" "um_tx_next tx < 2 ^ um_sn_field_length tx"
    using cfg by (auto simp: um_cfg_def)
  show at: "um_rx_at rx (um_tx_next tx) S k" using ok pend by (simp add: um_link_ok_def)
  show S: "int (length S) \<le> NR_SDU_MAX" and "\<forall>(s, k) \<in> set q. int (length s) \<le> NR_SDU_MAX"
    using ok pend by (auto simp: um_link_ok_def)
  show "int k < 65536" using S so by (simp add: NR_SDU_MAX_def)
  show "um_sn_modulus rx = um_sn_modulus tx" using at len cfg by (auto simp: um_rx_at_def um_cfg_def)
qed

lemma um_transfer_whole:
  assumes ok: "um_link_ok tx rx" and hd: "um_head tx s S k q" and l: "um_tx_list tx = s # rest"
    and whole: "um_compute_pdu_header_size tx s + seg_size s \<le> int (length buffer)"
  shows "um_transfer_ok tx rx buffer"
proof -
  let ?H = "um_compute_pdu_header_size tx s" and ?x = "um_tx_next tx"
  note lh = um_link_head [OF ok hd]
  have pend: "um_pending tx = (S, k) # q" and so: "seg_so s = int k" "k < length S"
    and sz: "int k + seg_size s = int (length S)" and fl: "seg_is_first s \<longleftrightarrow> k = 0" "seg_is_last s" "0 < seg_size s"
    and bts: "seg_bytes (um_heap tx) s = drop k S" and zs: "\<forall>(s', k') \<in> set q. k' = 0"
    using hd by (auto simp: um_head_def)
  obtain tx' hdr tail where gen: "nr_rlc_entity_um_generate_pdu tx buffer =
        Inr (tx', ?H + seg_size s, hdr @ seg_bytes (um_heap tx) s @ tail)"
      "int (length hdr) = ?H" "bits_of hdr = field_bits (um_header_fields tx s ?x)"
      "um_tx_ok tx'" "um_pending tx' = tl (um_pending tx)" "um_same_cfg tx' tx"
      "um_tx_next tx' = um_tx_next_after tx s"
    by (rule um_generate_whole [OF lh(1) l whole]) (rule that)
  have pend': "um_pending tx' = q" using gen(5) pend by simp
  have eq: "nat (?H + seg_size s) = length hdr + length (drop k S)" using gen(2) sz so(2) by simp
  have tk: "take (nat (?H + seg_size s)) (hdr @ seg_bytes (um_heap tx) s @ tail) = hdr @ drop k S"
    unfolding bts eq by simp
  have ne: "drop k S \<noteq> []" using so(2) by simp
  have nz: "?H + seg_size s \<noteq> 0" using um_header_size_pos [of tx s] fl by linarith
  let ?D = "dec_adv (8 * length hdr) (nr_rlc_pdu_decoder_init (hdr @ drop k S))"
  have recv: "nr_rlc_entity_um_recv_pdu rx (hdr @ drop k S) =
     (if k = 0 then Inr (rx, [DeliverSdu S])
      else um_receive_segment rx (hdr @ drop k S) ?D ?x (int k) False True)"
    using um_recv_serialized [OF lh(4,2) gen(3,2) lh(5,6), of "drop k S"] so fl lh(9) ne by simp
  have "\<exists>rx'. nr_rlc_entity_um_recv_pdu rx (hdr @ drop k S) = Inr (rx', [DeliverSdu S]) \<and> um_link_ok tx' rx'"
  proof (cases "k = 0")
    case True
    have "um_tx_next tx' = ?x" using gen(7) fl True by (simp add: um_tx_next_after_def)
    then have "um_link_ok tx' rx"
      using um_link_next [OF gen(4), of rx S] lh zs gen(6) pend' True by (simp add: um_same_cfg_def)
    then show ?thesis using recv True by simp
  next
    case False
    have "\<exists>rx' evs. um_receive_segment rx (hdr @ drop k S) ?D ?x (int k) False True = Inr (rx', evs) \<and>
       um_same_cfg rx' rx \<and> (if k + (length S - k) = length S
         then evs = [DeliverSdu S] \<and> um_rx_at rx' ((?x + 1) mod um_sn_modulus rx) [] 0
         else evs = [] \<and> um_rx_at rx' ?x S (k + (length S - k)))"
      by (rule um_receive_next [OF lh(7,3,8)]) (use so False in \<open>auto simp: dec_adv_byte\<close>)
    then obtain rx' where rx': "um_receive_segment rx (hdr @ drop k S) ?D ?x (int k) False True =
          Inr (rx', [DeliverSdu S])"
        "um_same_cfg rx' rx" "um_rx_at rx' ((?x + 1) mod um_sn_modulus rx) [] 0"
      using so(2) by auto
    have "um_tx_next tx' = (?x + 1) mod um_sn_modulus rx"
      using gen(7) fl False lh(11) by (simp add: um_tx_next_after_def)
    then have "um_link_ok tx' rx'"
      using um_link_next [OF gen(4), of rx' "[]"] lh zs rx' gen(6) pend' by (simp add: um_same_cfg_def)
    then show ?thesis using recv rx'(1) False by simp
  qed
  then show ?thesis
    using gen(1,6) tk nz pend pend' so(2) by (auto simp: um_transfer_ok_def um_same_cfg_def um_left_def)
qed

lemma um_transfer_split:
  assumes ok: "um_link_ok tx rx" and hd: "um_head tx s S k q" and l: "um_tx_list tx = s # rest"
    and nofit: "um_compute_pdu_header_size tx s + seg_size s > int (length buffer)"
    and room: "um_compute_pdu_header_size tx (s\<lparr>seg_is_last := False\<rparr>) + 1 \<le> int (length buffer)"
  shows "um_transfer_ok tx rx buffer"
proof -
  let ?g = "int (length buffer)" and ?x = "um_tx_next tx"
  let ?c = "um_cut tx s ?g" and ?H' = "um_compute_pdu_header_size tx (s\<lparr>seg_is_last := False\<rparr>)"
  note lh = um_link_head [OF ok hd]
  have pend: "um_pending tx = (S, k) # q" and so: "seg_so s = int k"
    and sz: "int k + seg_size s = int (length S)" and fl: "seg_is_first s \<longleftrightarrow> k = 0" "seg_is_last s"
    and cut: "seg_bytes (um_heap tx) (s\<lparr>seg_size := n, seg_is_last := False\<rparr>) = take (nat n) (drop k S)" for n
    using hd by (auto simp: um_head_def)
  obtain tx' hdr tail where gen: "nr_rlc_entity_um_generate_pdu tx buffer =
        Inr (tx', ?g, hdr @ seg_bytes (um_heap tx) ?c @ tail)"
      "int (length hdr) = um_compute_pdu_header_size tx ?c"
      "bits_of hdr = field_bits (um_header_fields tx ?c ?x)" "um_tx_ok tx'"
      "um_pending tx' = (fst (hd (um_pending tx)), nat (seg_so s + seg_size ?c)) # tl (um_pending tx)"
      "um_same_cfg tx' tx" "um_tx_next tx' = ?x"
    by (rule um_generate_split [OF lh(1) l refl nofit room]) (rule that)
  define n where "n = nat (?g - ?H')"
  have "um_compute_pdu_header_size tx s \<le> ?H'" using fl(2) by (simp add: um_compute_pdu_header_size_def)
  then have n: "0 < n" "int n = ?g - ?H'" "int n < seg_size s" using room nofit by (auto simp: n_def)
  have c: "seg_is_first ?c = (k = 0)" "\<not> seg_is_last ?c" "seg_so ?c = int k" "seg_size ?c = int n"
    using fl so n by (simp_all add: um_cut_def)
  define d where "d = take n (drop k S)"
  have cb: "seg_bytes (um_heap tx) ?c = d"
    using cut [of "?g - ?H'"] by (simp add: um_cut_def d_def n_def)
  have kn: "k + n < length S" using n(3) sz by linarith
  have dl: "length d = n" "d \<noteq> []" using kn n(1) by (auto simp: d_def)
  have "int (length hdr) = ?H'" using gen(2) by (simp add: um_cut_header)
  then have eq: "nat ?g = length hdr + length d" using n(2) dl by simp
  have tk: "take (nat ?g) (hdr @ seg_bytes (um_heap tx) ?c @ tail) = hdr @ d"
    unfolding cb eq by simp
  let ?D = "dec_adv (8 * length hdr) (nr_rlc_pdu_decoder_init (hdr @ d))"
  have recv: "nr_rlc_entity_um_recv_pdu rx (hdr @ d) =
      um_receive_segment rx (hdr @ d) ?D ?x (int k) (k = 0) False"
    using um_recv_serialized [OF lh(4,2) gen(3,2) lh(5,6), of d] c lh(9) dl by simp
  have "\<exists>rx' evs. um_receive_segment rx (hdr @ d) ?D ?x (int k) (k = 0) False = Inr (rx', evs) \<and>
       um_same_cfg rx' rx \<and> (if k + n = length S
         then evs = [DeliverSdu S] \<and> um_rx_at rx' ((?x + 1) mod um_sn_modulus rx) [] 0
         else evs = [] \<and> um_rx_at rx' ?x S (k + n))"
    by (rule um_receive_next [OF lh(7,3,8) n(1) _ d_def]) (use kn in \<open>auto simp: dec_adv_byte\<close>)
  then obtain rx' where rx': "um_receive_segment rx (hdr @ d) ?D ?x (int k) (k = 0) False = Inr (rx', [])"
      "um_same_cfg rx' rx" "um_rx_at rx' ?x S (k + n)"
    using kn by auto
  have "nat (seg_so s + seg_size ?c) = k + n" using so c(4) by linarith
  then have pend': "um_pending tx' = (S, k + n) # q" using gen(5) pend by simp
  have "um_link_ok tx' rx'"
    using gen(4,6,7) lh rx' pend' by (simp add: um_link_ok_def um_same_cfg_def)
  moreover have "?g \<noteq> 0" using room um_header_size_pos [of tx "s\<lparr>seg_is_last := False\<rparr>"] by linarith
  ultimately show ?thesis
    using gen(1,6) tk recv rx'(1) pend pend' kn n(1) by (auto simp: um_transfer_ok_def um_same_cfg_def um_left_def)
qed

lemma um_transfer_step:
  assumes ok: "um_link_ok tx rx" and grant: "um_sn_field_length tx = 12 \<longrightarrow> length buffer \<noteq> 2"
  shows "um_transfer_ok tx rx buffer"
proof (cases "um_tx_list tx")
  case Nil
  then show ?thesis
    using ok by (simp add: um_transfer_ok_def nr_rlc_entity_um_generate_pdu_def um_generate_tx_pdu_def um_pending_def)
next
  case l: (Cons s rest)
  let ?g = "int (length buffer)" and ?H = "um_compute_pdu_header_size tx s"
  obtain S k q where hd: "um_head tx s S k q"
    using um_head_exists [OF _ l] ok by (auto simp: um_link_ok_def)
  consider (idle) "?H + 1 > ?g" | (whole) "?H + seg_size s \<le> ?g"
    | (cut) "?H + 1 \<le> ?g" "?H + seg_size s > ?g" by linarith
  then show ?thesis
  proof cases
    case idle
    moreover have "?H \<le> 4" by (simp add: um_compute_pdu_header_size_def)
    ultimately have "\<not> 5 \<le> length buffer" by linarith
    then show ?thesis
      using ok l idle by (simp add: um_transfer_ok_def nr_rlc_entity_um_generate_pdu_def um_generate_tx_pdu_def Let_def)
  next
    case whole
    then show ?thesis by (rule um_transfer_whole [OF ok hd l])
  next
    case cut
    have "seg_is_last s" using hd by (simp add: um_head_def)
    then have "um_compute_pdu_header_size tx (s\<lparr>seg_is_last := False\<rparr>) = ?H \<or> um_sn_field_length tx = 12 \<and>
        ?H = 1 \<and> um_compute_pdu_header_size tx (s\<lparr>seg_is_last := False\<rparr>) = 2"
      by (auto simp: um_compute_pdu_header_size_def)
    then have "um_compute_pdu_header_size tx (s\<lparr>seg_is_last := False\<rparr>) + 1 \<le> ?g"
      using cut(1) grant by linarith
    then show ?thesis by (rule um_transfer_split [OF ok hd l cut(2)])
  qed
qed

subsection \<open>Accepting SDUs\<close>

lemma um_recv_sdu_ok:
  assumes ok: "um_tx_ok e" and b: "b \<noteq> []" "int (length b) \<le> NR_SDU_MAX"
    and fits: "um_tx_size e + int (length b) \<le> um_tx_maxsize e"
  obtains e' where "nr_rlc_entity_um_recv_sdu e b i = Inr e'" "um_tx_ok e'"
    "um_pending e' = um_pending e @ [(b, 0)]" "um_same_cfg e' e" "um_tx_next e' = um_tx_next e"
proof -
  let ?h = "um_heap e" and ?l = "um_tx_list e"
  obtain h1 s where n: "nr_rlc_new_sdu ?h b i = (h1, s)" by fastforce
  have s: "seg_addr s = hp_next ?h + 1" "seg_sdu s = hp_next ?h" "seg_size s = int (length b)"
    "seg_is_first s" "seg_is_last s" "seg_slice h1 s" "seg_pending h1 s = (b, 0)"
    and oth: "\<And>a. a \<noteq> hp_next ?h \<Longrightarrow> sdu_view h1 a = sdu_view ?h a"
    using n by (auto simp: nr_rlc_new_sdu_def Let_def seg_slice_def seg_pending_def sdu_view_def)
  have hok: "heap_ok ?h (mset ?l)" using ok by (simp add: um_tx_ok_def)
  have fr: "seg_addr t < hp_next ?h" "seg_sdu t < hp_next ?h" if "t \<in> set ?l" for t
    using hok that by (fastforce simp: heap_ok_def)+
  have same: "sdu_view h1 (seg_sdu t) = sdu_view ?h (seg_sdu t)" if "t \<in> set ?l" for t
    using oth fr [OF that] by simp
  have app: "nr_rlc_sdu_segment_list_append ?l (um_tx_end e) s = Inr (?l @ [s], Some (seg_addr s))"
    "list_ok (?l @ [s]) (Some (seg_addr s))"
    using list_append_ok [of ?l "um_tx_end e" s] ok fr s(1) by (force simp: um_tx_ok_def)+
  define e' where "e' = um_bs_tx_add (um_compute_pdu_header_size e s + seg_size s)
      (e\<lparr>um_tx_size := um_tx_size e + int (length b), um_heap := h1, um_tx_list := ?l @ [s],
         um_tx_end := Some (seg_addr s)\<rparr>)"
  have "nr_rlc_entity_um_recv_sdu e b i = Inr e'"
    using b fits n app by (simp add: nr_rlc_entity_um_recv_sdu_def e'_def)
  moreover have "um_tx_ok e'"
  proof -
    have "heap_ok h1 (mset (?l @ [s]))" using new_sdu_heap_ok [OF hok n] by simp
    moreover have "distinct (map seg_sdu (?l @ [s]))" using ok fr s(2) by (force simp: um_tx_ok_def)
    moreover have "\<forall>t\<in>set (tl (?l @ [s])). seg_is_first t"
      using ok s(4) by (cases ?l) (auto simp: um_tx_ok_def)
    ultimately show ?thesis
      using ok app s b seg_slice_view [OF same] by (simp add: um_tx_ok_def e'_def)
  qed
  moreover have "um_pending e' = um_pending e @ [(b, 0)]"
    using s(7) seg_pending_view [OF same] by (simp add: um_pending_def e'_def)
  ultimately show ?thesis using that by (simp add: um_same_cfg_def e'_def)
qed

lemma um_tx_size_left: "um_tx_ok e \<Longrightarrow> um_tx_size e = int (um_left e)"
proof -
  assume ok: "um_tx_ok e"
  have "sum_list (map seg_size l) = int (sum_list (map (\<lambda>(s, k). length s - k) (map (seg_pending h) l)))"
    if "\<forall>s\<in>set l. seg_slice h s \<and> seg_is_last s \<and> 0 < seg_size s" for l h
    using that
    by (induction l) (auto simp: seg_slice_def seg_pending_def split: option.splits)
  then show ?thesis using ok by (simp add: um_tx_ok_def um_left_def um_pending_def)
qed

text \<open>Calls on the transmitter's side: an SDU from above, or a grant of so many bytes.\<close>

datatype um_link_op = UmSdu bytes int | UmGrant bytes

fun um_link_step :: "nr_rlc_entity_um \<times> nr_rlc_entity_um \<Rightarrow> um_link_op \<Rightarrow>
    ((nr_rlc_entity_um \<times> nr_rlc_entity_um) \<times> rlc_event list) res" where
  "um_link_step (tx, rx) (UmSdu b i) = bnd (nr_rlc_entity_um_recv_sdu tx b i) (\<lambda>tx1. Inr ((tx1, rx), []))"
| "um_link_step (tx, rx) (UmGrant buffer) = um_transfer (tx, rx) buffer"

fun um_op_ok :: "nat \<Rightarrow> um_link_op \<Rightarrow> bool" where
  "um_op_ok sn_len (UmSdu b i) \<longleftrightarrow> b \<noteq> [] \<and> int (length b) \<le> NR_SDU_MAX"
| "um_op_ok sn_len (UmGrant buffer) \<longleftrightarrow> sn_len = 12 \<longrightarrow> length buffer \<noteq> 2"

definition um_sdus :: "um_link_op list \<Rightarrow> bytes list" where
  "um_sdus ops = concat (map (\<lambda>x. case x of UmSdu b i \<Rightarrow> [b] | UmGrant _ \<Rightarrow> []) ops)"

lemma um_link_sdu:
  assumes ok: "um_link_ok tx rx" and b: "b \<noteq> []" "int (length b) \<le> NR_SDU_MAX"
    and fits: "int (um_left tx) + int (length b) \<le> um_tx_maxsize tx"
  shows "\<exists>tx'. nr_rlc_entity_um_recv_sdu tx b i = Inr tx' \<and> um_link_ok tx' rx \<and>
     um_pending tx' = um_pending tx @ [(b, 0)] \<and> um_same_cfg tx' tx"
proof -
  have txok: "um_tx_ok tx" using ok by (simp add: um_link_ok_def)
  have fit: "um_tx_size tx + int (length b) \<le> um_tx_maxsize tx"
    using fits um_tx_size_left [OF txok] by simp
  obtain tx' where tx': "nr_rlc_entity_um_recv_sdu tx b i = Inr tx'" "um_tx_ok tx'"
    "um_pending tx' = um_pending tx @ [(b, 0)]" "um_same_cfg tx' tx" "um_tx_next tx' = um_tx_next tx"
    by (rule um_recv_sdu_ok [OF txok b fit]) (rule that)
  have "um_link_ok tx' rx"
  proof (cases "um_pending tx")
    case Nil
    then show ?thesis
      using ok tx' b um_rx_at_0 [of rx "um_tx_next tx" "[]" b] by (simp add: um_link_ok_def um_same_cfg_def)
  next
    case (Cons p q)
    then show ?thesis
      using ok tx' b by (cases p) (auto simp: um_link_ok_def um_same_cfg_def)
  qed
  then show ?thesis using tx' by blast
qed

lemma um_link_run:
  assumes "um_link_ok tx rx" "\<forall>x\<in>set ops. um_op_ok (um_sn_field_length tx) x"
    and "int (um_left tx) + int (sum_list (map length (um_sdus ops))) \<le> um_tx_maxsize tx"
  shows "\<exists>tx' rx' evs. run_ops um_link_step (tx, rx) ops = Inr ((tx', rx'), evs) \<and> um_link_ok tx' rx' \<and>
     um_sn_field_length tx' = um_sn_field_length tx \<and>
     map (\<lambda>(s, k). DeliverSdu s) (um_pending tx) @ map DeliverSdu (um_sdus ops) =
       evs @ map (\<lambda>(s, k). DeliverSdu s) (um_pending tx')"
  using assms
proof (induction ops arbitrary: tx rx)
  case Nil
  then show ?case by (simp add: um_sdus_def)
next
  case (Cons x ops)
  show ?case
  proof (cases x)
    case (UmSdu b i)
    obtain tx1 where tx1: "nr_rlc_entity_um_recv_sdu tx b i = Inr tx1" "um_link_ok tx1 rx"
        "um_pending tx1 = um_pending tx @ [(b, 0)]" "um_same_cfg tx1 tx"
      using um_link_sdu [OF Cons.prems(1), of b i] Cons.prems(2,3) UmSdu by (auto simp: um_sdus_def)
    have "um_left tx1 = um_left tx + length b" by (simp add: um_left_def tx1(3))
    then obtain tx' rx' evs where "run_ops um_link_step (tx1, rx) ops = Inr ((tx', rx'), evs)" "um_link_ok tx' rx'"
        "um_sn_field_length tx' = um_sn_field_length tx"
        "map (\<lambda>(s, k). DeliverSdu s) (um_pending tx1) @ map DeliverSdu (um_sdus ops) =
           evs @ map (\<lambda>(s, k). DeliverSdu s) (um_pending tx')"
      using Cons.IH [OF tx1(2)] Cons.prems(2,3) UmSdu tx1(4) by (auto simp: um_same_cfg_def um_sdus_def)
    then show ?thesis using UmSdu tx1(1,3) by (simp add: um_sdus_def)
  next
    case (UmGrant buffer)
    obtain tx1 rx1 o1 where 1: "um_transfer (tx, rx) buffer = Inr ((tx1, rx1), o1)" "um_link_ok tx1 rx1"
        "um_sn_field_length tx1 = um_sn_field_length tx" "um_tx_maxsize tx1 = um_tx_maxsize tx"
        "um_left tx1 \<le> um_left tx"
        "map (\<lambda>(s, k). DeliverSdu s) (um_pending tx) = o1 @ map (\<lambda>(s, k). DeliverSdu s) (um_pending tx1)"
      using um_transfer_step [OF Cons.prems(1), of buffer] Cons.prems(2) UmGrant
      by (auto simp: um_transfer_ok_def)
    then obtain tx' rx' evs where "run_ops um_link_step (tx1, rx1) ops = Inr ((tx', rx'), evs)" "um_link_ok tx' rx'"
        "um_sn_field_length tx' = um_sn_field_length tx"
        "map (\<lambda>(s, k). DeliverSdu s) (um_pending tx1) @ map DeliverSdu (um_sdus ops) =
           evs @ map (\<lambda>(s, k). DeliverSdu s) (um_pending tx')"
      using Cons.IH [OF 1(2)] Cons.prems(2,3) UmGrant by (auto simp: um_sdus_def)
    then show ?thesis using UmGrant 1(1,6) by (simp add: um_sdus_def)
  qed
qed

lemma um_new_link_ok:
  assumes "new_nr_rlc_entity_um a tx_max t n = Inr tx" "new_nr_rlc_entity_um rx_max c t' n = Inr rx"
    and "NR_SDU_MAX \<le> rx_max"
  shows "um_link_ok tx rx" "um_pending tx = []" "um_tx_maxsize tx = tx_max" "um_sn_field_length tx = n"
proof -
  have n: "n = 6 \<or> n = 12" using assms(1) by (auto simp: new_nr_rlc_entity_um_def split: if_splits)
  then have "um_cfg tx" "um_cfg rx"
    using assms by (auto simp: new_nr_rlc_entity_um_def um_cfg_def split: if_splits)
  moreover from this n have "um_rx_at rx 0 [] 0"
    using assms(2) by (auto simp: um_rx_at_def um_sn_ok_def new_nr_rlc_entity_um_def um_delivered_before_def)
  ultimately show "um_link_ok tx rx" "um_pending tx = []" "um_tx_maxsize tx = tx_max" "um_sn_field_length tx = n"
    using assms n
    by (auto simp: um_link_ok_def um_tx_ok_def um_pending_def new_nr_rlc_entity_um_def empty_heap_def)
qed

lemma um_left_0: "um_tx_ok e \<Longrightarrow> um_left e = 0 \<Longrightarrow> um_pending e = []"
proof -
  assume ok: "um_tx_ok e" and z: "um_left e = 0"
  have "um_tx_list e = []"
  proof (cases "um_tx_list e")
    case (Cons s l)
    then obtain S k q where "um_head e s S k q" using um_head_exists [OF ok] by blast
    then show ?thesis using z by (simp add: um_head_def um_left_def)
  qed
  then show ?thesis by (simp add: um_pending_def)
qed

lemma um_drain:
  assumes "um_link_ok tx rx" "\<forall>b\<in>set grants. 5 \<le> length b" "um_left tx \<le> length grants"
  shows "\<exists>tx' rx'. run_ops um_link_step (tx, rx) (map UmGrant grants) =
       Inr ((tx', rx'), map (\<lambda>(s, k). DeliverSdu s) (um_pending tx)) \<and> um_pending tx' = []"
  using assms
proof (induction grants arbitrary: tx rx)
  case Nil
  then have "um_pending tx = []" using um_left_0 by (simp add: um_link_ok_def)
  then show ?case by simp
next
  case (Cons b grants)
  obtain tx1 rx1 o1 where 1: "um_transfer (tx, rx) b = Inr ((tx1, rx1), o1)" "um_link_ok tx1 rx1"
      "um_pending tx \<noteq> [] \<longrightarrow> um_left tx1 < um_left tx" "um_left tx1 \<le> um_left tx"
      "map (\<lambda>(s, k). DeliverSdu s) (um_pending tx) = o1 @ map (\<lambda>(s, k). DeliverSdu s) (um_pending tx1)"
    using um_transfer_step [OF Cons.prems(1), of b] Cons.prems(2) by (auto simp: um_transfer_ok_def)
  have "um_left tx1 \<le> length grants"
  proof (cases "um_pending tx = []")
    case True
    then have "um_left tx = 0" by (simp add: um_left_def)
    then show ?thesis using 1(4) by simp
  next
    case False
    then show ?thesis using 1(3) Cons.prems(3) by simp
  qed
  then obtain tx' rx' where "run_ops um_link_step (tx1, rx1) (map UmGrant grants) =
       Inr ((tx', rx'), map (\<lambda>(s, k). DeliverSdu s) (um_pending tx1))" "um_pending tx' = []"
    using Cons.IH [OF 1(2)] Cons.prems(2) by auto
  then show ?case using 1(1,5) by simp
qed

lemma um_queue_sdus:
  assumes "um_link_ok tx rx" "\<forall>b\<in>set sdus. b \<noteq> [] \<and> int (length b) \<le> NR_SDU_MAX"
    and "int (um_left tx) + int (sum_list (map length sdus)) \<le> um_tx_maxsize tx"
  shows "\<exists>tx1. run_ops um_link_step (tx, rx) (map (\<lambda>b. UmSdu b 0) sdus) = Inr ((tx1, rx), []) \<and>
      um_link_ok tx1 rx \<and> um_pending tx1 = um_pending tx @ map (\<lambda>b. (b, 0)) sdus"
  using assms
proof (induction sdus arbitrary: tx)
  case Nil
  then show ?case by simp
next
  case (Cons b sdus)
  then obtain tx1 where tx1: "nr_rlc_entity_um_recv_sdu tx b 0 = Inr tx1" "um_link_ok tx1 rx"
      "um_pending tx1 = um_pending tx @ [(b, 0)]" "um_same_cfg tx1 tx"
    using um_link_sdu [OF Cons.prems(1), of b 0] by auto
  have "um_left tx1 = um_left tx + length b" by (simp add: um_left_def tx1(3))
  then obtain tx2 where "run_ops um_link_step (tx1, rx) (map (\<lambda>b. UmSdu b 0) sdus) = Inr ((tx2, rx), [])"
      "um_link_ok tx2 rx" "um_pending tx2 = um_pending tx1 @ map (\<lambda>b. (b, 0)) sdus"
    using Cons.IH [OF tx1(2)] Cons.prems(2,3) tx1(4) by (auto simp: um_same_cfg_def)
  then show ?case using tx1(1,3) by simp
qed

subsection \<open>A grant of two bytes\<close>

text \<open>
  A grant of 2 bytes loses data.  With a 12-bit SN and an unsegmented SDU of two bytes or more at
  the head of the queue, the SDU is taken off the queue, nothing is sent, and its bytes stay
  counted in \<open>tx_size\<close>.
\<close>

theorem um_grant_of_two_loses_sdu:
  assumes "um_tx_ok e" "um_sn_field_length e = 12" "um_tx_list e = s # rest" "seg_is_first s"
    and "2 \<le> seg_size s"
  shows "\<exists>e'. nr_rlc_entity_um_generate_pdu e [x, y] = Inr (e', 0, [x, y]) \<and> um_tx_list e' = rest \<and>
     um_pending e' = tl (um_pending e) \<and> um_tx_size e' = um_tx_size e"
proof -
  let ?h = "um_heap e"
  have "seg_is_last s" "seg_slice ?h s" using assms(1,3) by (auto simp: um_tx_ok_def)
  then obtain u where u: "hp_sdus ?h (seg_sdu s) = Some u"
    by (auto simp: seg_slice_def split: option.splits)
  have H: "um_compute_pdu_header_size e' s = 1"
    "um_compute_pdu_header_size e' (s\<lparr>seg_is_last := False\<rparr>) = 2" if "um_sn_field_length e' = 12" for e'
    using that assms(4) \<open>seg_is_last s\<close> by (simp_all add: um_compute_pdu_header_size_def)
  define v where "v = (u\<lparr>sdu_sn := um_tx_next e\<rparr>)\<lparr>sdu_ref_count := sdu_ref_count u + 1\<rparr>"
  define e1 where "e1 = um_bs_tx_add (- (1 + seg_size s))
      (e\<lparr>um_tx_list := rest, um_tx_end := (if rest = [] then None else um_tx_end e),
         um_heap := set_sdu ?h (seg_sdu s) v\<rparr>)"
  have gen: "nr_rlc_entity_um_generate_pdu e [x, y] = Inr (e1, 0, [x, y])"
    using assms(2-5) u H
    by (simp add: nr_rlc_entity_um_generate_pdu_def um_generate_tx_pdu_def um_resegment_def get_sdu_def
        Let_def e1_def v_def set_sdu_def um_bs_tx_add_def)
  have "sdu_view (um_heap e1) a = sdu_view ?h a" for a
    using sdu_view_set_sdu [OF u, of v a] by (simp add: e1_def v_def)
  then have "um_pending e1 = tl (um_pending e)"
    using assms(3) seg_pending_view [of "um_heap e1" _ ?h] by (simp add: um_pending_def e1_def)
  then show ?thesis using gen by (simp add: e1_def)
qed

text \<open>The same, seen from the queue.\<close>

lemma um_grant_of_two:
  assumes "um_tx_ok e" "um_sn_field_length e = 12" "um_pending e = (s, 0) # q" "2 \<le> length s"
  shows "\<exists>e'. nr_rlc_entity_um_generate_pdu e [x, y] = Inr (e', 0, [x, y]) \<and> um_pending e' = q"
proof -
  obtain g rest where l: "um_tx_list e = g # rest" using assms(3) by (cases "um_tx_list e") (auto simp: um_pending_def)
  obtain S k q' where h: "um_head e g S k q'" using um_head_exists [OF assms(1) l] by blast
  then have "S = s" "k = 0" "q' = q" using assms(3) by (auto simp: um_head_def)
  then have "seg_is_first g" "2 \<le> seg_size g" using h assms(4) by (auto simp: um_head_def)
  then show ?thesis using um_grant_of_two_loses_sdu [OF assms(1,2) l, of x y] assms(3) by auto
qed

subsection \<open>Properties\<close>

text \<open>
  C5: end to end, RLC UM over a channel that neither loses nor reorders PDUs.  From fresh peers, with SDUs of 1 to NR_SDU_MAX bytes
  that fit the transmit buffer, and with any grants other than one of 2 bytes under a 12-bit SN, nothing faults, and the SDUs
  handed up by the receiver followed by those still queued at the transmitter are exactly the SDUs submitted, in order and byte
  for byte.  The exception is needed: in any state so reached, a grant of 2 bytes under a 12-bit SN takes an SDU of two bytes or more
  that has not been started off the head of the queue and sends nothing.
\<close>

theorem um_lossless_in_order:
  assumes "new_nr_rlc_entity_um a tx_max t n = Inr tx" "new_nr_rlc_entity_um rx_max c t' n = Inr rx"
    and "NR_SDU_MAX \<le> rx_max" "\<forall>x\<in>set ops. um_op_ok n x"
    and "int (sum_list (map length (um_sdus ops))) \<le> tx_max"
  shows "\<exists>tx' rx' evs. run_ops um_link_step (tx, rx) ops = Inr ((tx', rx'), evs) \<and>
     evs @ map (\<lambda>(s, k). DeliverSdu s) (um_pending tx') = map DeliverSdu (um_sdus ops) \<and>
     (\<forall>s q x y. n = 12 \<and> um_pending tx' = (s, 0) # q \<and> 2 \<le> length s \<longrightarrow>
        (\<exists>tx''. um_link_step (tx', rx') (UmGrant [x, y]) = Inr ((tx'', rx'), []) \<and> um_pending tx'' = q))"
proof -
  note new = um_new_link_ok [OF assms(1-3)]
  obtain tx' rx' evs where r: "run_ops um_link_step (tx, rx) ops = Inr ((tx', rx'), evs)"
     "map (\<lambda>(s, k). DeliverSdu s) (um_pending tx) @ map DeliverSdu (um_sdus ops) =
       evs @ map (\<lambda>(s, k). DeliverSdu s) (um_pending tx')" "um_link_ok tx' rx'" "um_sn_field_length tx' = n"
    using um_link_run [OF new(1), of ops] assms(4,5) new(2-4) by (auto simp: um_left_def)
  have "\<exists>tx''. um_link_step (tx', rx') (UmGrant [x, y]) = Inr ((tx'', rx'), []) \<and> um_pending tx'' = q"
    if "n = 12" "um_pending tx' = (s, 0) # q" "2 \<le> length s" for s q x y
    using um_grant_of_two [of tx' s q x y] that r(3,4) by (auto simp: um_link_ok_def)
  then show ?thesis using r(1,2) new(2) by auto
qed

definition um_example :: nr_rlc_entity_um where
  "um_example = projr (new_nr_rlc_entity_um 20000 20000 100 6)"

lemma um_example_new: "new_nr_rlc_entity_um 20000 20000 100 6 = Inr um_example"
  by (simp add: um_example_def new_nr_rlc_entity_um_def)

theorem um_lossless_in_order_witness:
  "(\<exists>tx' rx' evs. run_ops um_link_step (um_example, um_example)
       [UmSdu [1, 2, 3, 4] 0, UmGrant [0, 0, 0], UmGrant [0, 0, 0, 0, 0]] = Inr ((tx', rx'), evs) \<and>
     evs @ map (\<lambda>(s, k). DeliverSdu s) (um_pending tx') = [DeliverSdu [1, 2, 3, 4]])"
proof -
  have h: "\<forall>x\<in>set [UmSdu [1, 2, 3, 4] 0, UmGrant [0, 0, 0], UmGrant [0, 0, 0, 0, 0]]. um_op_ok 6 x"
    by (simp add: NR_SDU_MAX_def)
  show ?thesis
    using um_lossless_in_order [OF um_example_new um_example_new _ h] h
    by (simp add: NR_SDU_MAX_def um_sdus_def del: run_ops.simps)
qed

text \<open>
  C10: the transmission ends.  Once SDUs are queued, as many grants of at least 5 bytes as there are
  bytes left deliver all of them.
\<close>

theorem um_delivery_completes:
  assumes "new_nr_rlc_entity_um a tx_max t n = Inr tx" "new_nr_rlc_entity_um rx_max c t' n = Inr rx"
    and "NR_SDU_MAX \<le> rx_max" "\<forall>b\<in>set sdus. b \<noteq> [] \<and> int (length b) \<le> NR_SDU_MAX"
    and "int (sum_list (map length sdus)) \<le> tx_max"
    and "\<forall>g\<in>set grants. 5 \<le> length g" "sum_list (map length sdus) \<le> length grants"
  shows "\<exists>tx' rx'. run_ops um_link_step (tx, rx) (map (\<lambda>b. UmSdu b 0) sdus @ map UmGrant grants) =
     Inr ((tx', rx'), map DeliverSdu sdus) \<and> um_pending tx' = []"
proof -
  note new = um_new_link_ok [OF assms(1-3)]
  obtain tx1 where tx1: "run_ops um_link_step (tx, rx) (map (\<lambda>b. UmSdu b 0) sdus) = Inr ((tx1, rx), [])"
      "um_link_ok tx1 rx" "um_pending tx1 = map (\<lambda>b. (b, 0)) sdus"
    using um_queue_sdus [OF new(1) assms(4)] assms(5) new(2,3) by (auto simp: um_left_def)
  have left: "um_left tx1 = sum_list (map length sdus)" by (simp add: um_left_def tx1(3) comp_def)
  obtain tx' rx' where "run_ops um_link_step (tx1, rx) (map UmGrant grants) =
       Inr ((tx', rx'), map (\<lambda>(s, k). DeliverSdu s) (um_pending tx1))" "um_pending tx' = []"
    using um_drain [OF tx1(2) assms(6)] assms(7) left by auto
  then show ?thesis
    using tx1 by (simp add: run_ops_append comp_def)
qed

theorem um_delivery_completes_witness:
  "\<exists>tx' rx'. run_ops um_link_step (um_example, um_example)
     (map (\<lambda>b. UmSdu b 0) [[1, 2], [3]] @ map UmGrant [[0, 0, 0, 0, 0], [0, 0, 0, 0, 0], [0, 0, 0, 0, 0]]) =
     Inr ((tx', rx'), [DeliverSdu [1, 2], DeliverSdu [3]]) \<and> um_pending tx' = []"
  using um_delivery_completes [OF um_example_new um_example_new, of "[[1, 2], [3]]"
      "[[0, 0, 0, 0, 0], [0, 0, 0, 0, 0], [0, 0, 0, 0, 0]]"]
  by (simp add: NR_SDU_MAX_def del: run_ops.simps)

definition um_example12 :: nr_rlc_entity_um where
  "um_example12 = projr (nr_rlc_entity_um_recv_sdu (projr (new_nr_rlc_entity_um 20000 20000 100 12)) [1, 2, 3] 0)"

lemma um_example12_ok: "um_tx_ok um_example12"
  unfolding um_tx_ok_def
  by (simp add: um_example12_def new_nr_rlc_entity_um_def nr_rlc_entity_um_recv_sdu_def NR_SDU_MAX_def
      nr_rlc_new_sdu_def nr_rlc_sdu_segment_list_append_def um_bs_tx_add_def um_cfg_def heap_ok_def
      seg_slice_def list_ok_def list_end_def um_compute_pdu_header_size_def empty_heap_def Let_def)

theorem um_grant_of_two_loses_sdu_witness:
  "um_tx_ok um_example12 \<and> um_pending um_example12 = [([1, 2, 3], 0)] \<and>
   (\<exists>e'. nr_rlc_entity_um_generate_pdu um_example12 [0, 0] = Inr (e', 0, [0, 0]) \<and> um_tx_list e' = [] \<and>
     um_pending e' = [] \<and> um_tx_size e' = 3)"
proof -
  note ok = um_example12_ok
  have l: "um_tx_list um_example12 = [\<lparr>seg_addr = 1, seg_sdu = 0, seg_size = 3, seg_so = 0,
      seg_is_first = True, seg_is_last = True\<rparr>]" "um_sn_field_length um_example12 = 12"
    "um_tx_size um_example12 = 3" "um_pending um_example12 = [([1, 2, 3], 0)]"
    by code_simp+
  show ?thesis
    using um_grant_of_two_loses_sdu [OF ok l(2,1), of 0 0] ok l by simp
qed

text \<open>
  C30: reassembly from overlapping pieces.  When the received PDUs of a sequence number are pieces of
  one SDU, sorted by offset, \<open>sdu_full\<close> says exactly whether every byte has arrived; if so, the
  reassembly returns, delivers the SDU byte for byte, and gives back the buffer space of its pieces.
\<close>

theorem um_reassembly_exact:
  assumes "run_of (um_rx_list e) x \<noteq> []" "\<forall>p\<in>set (run_of (um_rx_list e) x). piece_of s p"
    and "sorted (map pdu_so (run_of (um_rx_list e) x))" "int (length s) \<le> NR_SDU_MAX"
  shows "(um_sdu_full e x \<longleftrightarrow> (\<forall>i. 0 \<le> i \<and> i < int (length s) \<longrightarrow>
        (\<exists>p\<in>set (run_of (um_rx_list e) x). pdu_so p \<le> i \<and> i < pdu_so p + pdu_size p))) \<and>
     (um_sdu_full e x \<longrightarrow> (\<exists>e'. um_reassemble_and_deliver e x = Inr (e', [DeliverSdu s]) \<and>
        um_rx_size e' = um_rx_size e - sum_list (map pdu_size (run_of (um_rx_list e) x)) \<and>
        length (um_rx_list e') = length (um_rx_list e)))"
proof (intro conjI impI)
  show "um_sdu_full e x \<longleftrightarrow> (\<forall>i. 0 \<le> i \<and> i < int (length s) \<longrightarrow>
        (\<exists>p\<in>set (run_of (um_rx_list e) x). pdu_so p \<le> i \<and> i < pdu_so p + pdu_size p))"
    unfolding um_sdu_full_def by (rule sdu_full_iff [OF assms(1-3)])
next
  assume "um_sdu_full e x"
  then have "sdu_full_list (um_rx_list e) x" by (simp add: um_sdu_full_def)
  from reassemble_exact [OF this assms(2,4), of um_clear_pdu "um_rx_size e"]
  have r: "um_reassemble_and_deliver e x = Inr (e\<lparr>um_rx_list := takeWhile (\<lambda>p. pdu_sn p \<noteq> x) (um_rx_list e) @
      map um_clear_pdu (run_of (um_rx_list e) x) @ dropWhile (\<lambda>p. pdu_sn p = x) (go_to_sn (um_rx_list e) x),
      um_rx_size := um_rx_size e - sum_list (map pdu_size (run_of (um_rx_list e) x))\<rparr>, [DeliverSdu s])"
    by (simp add: um_reassemble_and_deliver_def)
  have "length (takeWhile (\<lambda>p. pdu_sn p \<noteq> x) (um_rx_list e)) + (length (run_of (um_rx_list e) x) +
      length (dropWhile (\<lambda>p. pdu_sn p = x) (go_to_sn (um_rx_list e) x))) = length (um_rx_list e)"
    unfolding run_of_def go_to_sn_def length_append [symmetric] takeWhile_dropWhile_id by simp
  then show "\<exists>e'. um_reassemble_and_deliver e x = Inr (e', [DeliverSdu s]) \<and>
        um_rx_size e' = um_rx_size e - sum_list (map pdu_size (run_of (um_rx_list e) x)) \<and>
        length (um_rx_list e') = length (um_rx_list e)"
    using r by simp
qed

definition um_example_rx :: nr_rlc_entity_um where
  "um_example_rx = um_example\<lparr>um_rx_list :=
     [nr_rlc_new_pdu 3 0 True False [1, 2], nr_rlc_new_pdu 3 1 False True [2, 3]], um_rx_size := 4\<rparr>"

theorem um_reassembly_exact_witness:
  "um_sdu_full um_example_rx 3 \<and>
   (\<exists>e'. um_reassemble_and_deliver um_example_rx 3 = Inr (e', [DeliverSdu [1, 2, 3]]) \<and> um_rx_size e' = 0)"
proof -
  have l: "um_rx_list um_example_rx = [nr_rlc_new_pdu 3 0 True False [1, 2], nr_rlc_new_pdu 3 1 False True [2, 3]]"
    and z: "um_rx_size um_example_rx = 4"
    by (simp_all add: um_example_rx_def)
  have r: "run_of (um_rx_list um_example_rx) 3 = um_rx_list um_example_rx"
    by (simp add: l run_of_def go_to_sn_def nr_rlc_new_pdu_def)
  have h: "run_of (um_rx_list um_example_rx) 3 \<noteq> []" "\<forall>p\<in>set (run_of (um_rx_list um_example_rx) 3). piece_of [1, 2, 3] p"
    "sorted (map pdu_so (run_of (um_rx_list um_example_rx) 3))" "int (length [1, 2, 3 :: byte]) \<le> NR_SDU_MAX"
    unfolding r by (simp_all add: l nr_rlc_new_pdu_def piece_of_def NR_SDU_MAX_def)
  have f: "um_sdu_full um_example_rx 3" by code_simp
  show ?thesis using um_reassembly_exact [OF h] f unfolding r by (auto simp: l z nr_rlc_new_pdu_def)
qed

definition um_recv_step :: "nr_rlc_entity_um \<Rightarrow> bytes \<Rightarrow> (nr_rlc_entity_um \<times> rlc_event list) res" where
  "um_recv_step e pdu = nr_rlc_entity_um_recv_pdu e pdu"

text \<open>
  A PDU that lies behind the last segment of its SDU makes the reassembly read in front of
  that PDU's buffer: three PDUs of one sequence number, in this order, are enough.
\<close>

theorem um_segment_behind_last_out_of_bounds:
  "\<exists>e. new_nr_rlc_entity_um 20000 20000 100 6 = Inr e \<and>
     fault_of (run_ops um_recv_step e [[0x40, 1, 2, 3, 4, 5], [0xC0, 0, 100, 9], [0x80, 0, 5, 6]]) = Some OutOfBounds"
proof -
  have "fault_of (run_ops um_recv_step um_example [[0x40, 1, 2, 3, 4, 5], [0xC0, 0, 100, 9], [0x80, 0, 5, 6]]) =
      Some OutOfBounds"
    by code_simp
  then show ?thesis using um_example_new by blast
qed

text \<open>
  The expiry of t_reassembly.  The call returns; \<open>rx_next_reassembly\<close> moves to the first
  sequence number from \<open>rx_timer_trigger\<close> on that has not been delivered; the PDUs before it are
  dropped, but \<open>rx_size\<close> still counts them.
\<close>

theorem um_t_reassembly_expiry:
  assumes "um_cfg e" "um_t_reassembly_start e \<noteq> 0"
    and "um_t_reassembly_start e + u64_of_int (um_t_reassembly e) < now"
    and "card (pdu_sn ` set (um_rx_list e)) < nat (um_sn_modulus e)"
  shows "\<exists>e' k. nr_rlc_entity_um_set_time e now = Inr e' \<and>
     um_rx_next_reassembly e' = (um_rx_timer_trigger e + int k) mod um_sn_modulus e \<and>
     \<not> um_sdu_delivered e (um_rx_next_reassembly e') \<and>
     (\<forall>j<k. um_sdu_delivered e ((um_rx_timer_trigger e + int j) mod um_sn_modulus e)) \<and>
     um_rx_list e' = dropWhile (\<lambda>p. um_sn_compare_rx e (pdu_sn p) (um_rx_next_reassembly e') < 0) (um_rx_list e) \<and>
     um_rx_size e' = um_rx_size e"
proof -
  let ?l = "um_rx_list e" and ?m = "um_sn_modulus e" and ?t = "um_rx_timer_trigger e"
  have t: "0 < ?m" "0 \<le> ?t" "?t < ?m" using assms(1) um_cfg_modulus(1) [OF assms(1)] by (simp_all add: um_cfg_def)
  obtain u where u: "skip_delivered ?l ?m ?t = Inr u"
    using skip_delivered_short [OF t(2,3) assms(4)] by blast
  obtain k where k: "u = (?t + int k) mod ?m" "\<not> sdu_delivered_list ?l u"
      "\<forall>j<k. sdu_delivered_list ?l ((?t + int j) mod ?m)"
    by (rule skip_delivered_run [OF t u])
  define e2 where "e2 = um_drop_before_reassembly
      (e\<lparr>um_t_current := now, um_t_reassembly_start := 0, um_rx_next_reassembly := u\<rparr>)"
  have cmp: "um_sn_compare_rx (e\<lparr>um_t_current := now, um_t_reassembly_start := 0, um_rx_next_reassembly := u\<rparr>) =
      um_sn_compare_rx e"
    by (simp add: um_sn_compare_rx_def um_modulus_rx_def fun_eq_iff)
  have f: "um_rx_list e2 = dropWhile (\<lambda>p. um_sn_compare_rx e (pdu_sn p) u < 0) ?l"
    "um_rx_size e2 = um_rx_size e" "um_rx_next_reassembly e2 = u"
    using cmp by (simp_all add: e2_def um_drop_before_reassembly_def)
  have "\<exists>e'. nr_rlc_entity_um_set_time e now = Inr e' \<and> um_rx_list e' = um_rx_list e2 \<and>
      um_rx_size e' = um_rx_size e2 \<and> um_rx_next_reassembly e' = um_rx_next_reassembly e2"
    using assms(2) u assms(3) [folded not_le]
    by (simp add: nr_rlc_entity_um_set_time_def um_check_t_reassembly_def um_set_rx_next_reassembly_def
        Let_def flip: e2_def)
  then show ?thesis using f k unfolding um_sdu_delivered_def by auto
qed

definition um_example_timer :: nr_rlc_entity_um where
  "um_example_timer = um_example\<lparr>um_rx_list := [nr_rlc_new_pdu 0 0 True False [1, 2]], um_rx_size := 2,
     um_rx_next_highest := 2, um_rx_timer_trigger := 2, um_t_reassembly_start := 5\<rparr>"

theorem um_t_reassembly_expiry_witness:
  "\<exists>e'. nr_rlc_entity_um_set_time um_example_timer 200 = Inr e' \<and> um_rx_list e' = [] \<and> um_rx_size e' = 2"
proof -
  have c: "um_cfg um_example_timer" "um_t_reassembly_start um_example_timer \<noteq> 0"
    "um_t_reassembly_start um_example_timer + u64_of_int (um_t_reassembly um_example_timer) < 200"
    "card (pdu_sn ` set (um_rx_list um_example_timer)) < nat (um_sn_modulus um_example_timer)"
    by (simp_all add: um_example_timer_def um_example_def new_nr_rlc_entity_um_def um_cfg_def u64_of_int_def)
  have f: "um_rx_timer_trigger um_example_timer = 2" "um_sn_modulus um_example_timer = 64"
    "um_rx_list um_example_timer = [nr_rlc_new_pdu 0 0 True False [1, 2]]" "um_rx_size um_example_timer = 2"
    by (simp_all add: um_example_timer_def um_example_def new_nr_rlc_entity_um_def)
  have nd: "\<not> um_sdu_delivered um_example_timer a" for a
    by (simp add: um_sdu_delivered_def f sdu_delivered_list_def go_to_sn_def Let_def nr_rlc_new_pdu_def)
  have cmp: "um_sn_compare_rx um_example_timer 0 2 < 0" by code_simp
  obtain e' k where e: "nr_rlc_entity_um_set_time um_example_timer 200 = Inr e'"
    "um_rx_next_reassembly e' = (2 + int k) mod 64" "\<forall>j<k. um_sdu_delivered um_example_timer ((2 + int j) mod 64)"
    "um_rx_list e' = dropWhile (\<lambda>p. um_sn_compare_rx um_example_timer (pdu_sn p) (um_rx_next_reassembly e') < 0)
       [nr_rlc_new_pdu 0 0 True False [1, 2]]" "um_rx_size e' = 2"
    using um_t_reassembly_expiry [OF c] unfolding f by blast
  have "k = 0" using e(3) nd by (cases k) auto
  then show ?thesis using e cmp by (auto simp: nr_rlc_new_pdu_def)
qed

lemma find_sdu_id_ok:
  assumes "\<forall>s\<in>set l. hp_sdus h (seg_sdu s) \<noteq> None"
  obtains pre post where "find_sdu_id h l i = Inr (pre, post)" "l = pre @ post"
    "\<forall>s\<in>set pre. \<forall>u. hp_sdus h (seg_sdu s) = Some u \<longrightarrow> sdu_upper_layer_id u \<noteq> i"
    "\<forall>s r. post = s # r \<longrightarrow> (\<exists>u. hp_sdus h (seg_sdu s) = Some u \<and> sdu_upper_layer_id u = i)"
  using assms
proof (induction l arbitrary: thesis)
  case Nil
  then show ?case by simp
next
  case (Cons s l)
  then obtain u where u: "hp_sdus h (seg_sdu s) = Some u" by auto
  show ?case
  proof (cases "sdu_upper_layer_id u = i")
    case True
    then show ?thesis using u by (intro Cons.prems(1) [of "[]" "s # l"]) (auto simp: get_sdu_def)
  next
    case False
    obtain pre post where pp: "find_sdu_id h l i = Inr (pre, post)" "l = pre @ post"
        "\<forall>s\<in>set pre. \<forall>u. hp_sdus h (seg_sdu s) = Some u \<longrightarrow> sdu_upper_layer_id u \<noteq> i"
        "\<forall>s r. post = s # r \<longrightarrow> (\<exists>u. hp_sdus h (seg_sdu s) = Some u \<and> sdu_upper_layer_id u = i)"
      using Cons.IH Cons.prems(2) by auto
    then show ?thesis
      using u False by (intro Cons.prems(1) [of "s # pre" post]) (auto simp: get_sdu_def)
  qed
qed

text \<open>
  Discarding an SDU.  The call returns; an SDU of which no byte has been sent leaves the queue,
  the buffer status shrinks by its PDU, but \<open>tx_size\<close>, which decides whether further SDUs are
  accepted, does not.
\<close>

theorem um_discard_keeps_tx_size:
  assumes "um_tx_ok e"
  shows "\<exists>e'. nr_rlc_entity_um_discard_sdu e i = Inr e' \<and> um_tx_size e' = um_tx_size e \<and>
     (e' = e \<or> (\<exists>pre s post. um_tx_list e = pre @ s # post \<and> um_tx_list e' = pre @ post \<and>
        seg_is_first s \<and> seg_is_last s \<and>
        bs_tx_size (um_bstatus e') = bs_tx_size (um_bstatus e) - (1 + seg_size s)))"
proof -
  have live: "\<forall>s\<in>set (um_tx_list e). hp_sdus (um_heap e) (seg_sdu s) \<noteq> None"
    and hok: "heap_ok (um_heap e) (mset (um_tx_list e))"
    using assms by (auto simp: um_tx_ok_def heap_ok_def)
  obtain pre post where f: "find_sdu_id (um_heap e) (um_tx_list e) i = Inr (pre, post)"
      "um_tx_list e = pre @ post"
    by (rule find_sdu_id_ok [OF live, of i]) (rule that)
  show ?thesis
  proof (cases post)
    case Nil
    then show ?thesis using f by (simp add: nr_rlc_entity_um_discard_sdu_def)
  next
    case (Cons s rest)
    show ?thesis
    proof (cases "seg_is_first s \<and> seg_is_last s")
      case False
      then have "nr_rlc_entity_um_discard_sdu e i = Inr e"
        using f Cons by (auto simp: nr_rlc_entity_um_discard_sdu_def)
      then show ?thesis by simp
    next
      case True
      have "heap_ok (um_heap e) (add_mset s (mset (pre @ rest)))"
        using hok f(2) Cons by simp
      then obtain h1 fr where "nr_rlc_free_sdu_segment (um_heap e) s = Inr (h1, fr)"
        by (rule free_segment_ok) blast
      moreover have "um_compute_pdu_header_size e1 s = 1" for e1
        using True by (simp add: um_compute_pdu_header_size_def)
      ultimately have "\<exists>e'. nr_rlc_entity_um_discard_sdu e i = Inr e' \<and> um_tx_size e' = um_tx_size e \<and>
          um_tx_list e' = pre @ rest \<and>
          bs_tx_size (um_bstatus e') = bs_tx_size (um_bstatus e) - (1 + seg_size s)"
        using f Cons True by (simp add: nr_rlc_entity_um_discard_sdu_def Let_def um_bs_tx_add_def)
      then show ?thesis using f(2) Cons True by blast
    qed
  qed
qed

theorem um_discard_keeps_tx_size_witness:
  "\<exists>e'. nr_rlc_entity_um_discard_sdu um_example12 0 = Inr e' \<and> um_tx_size e' = 3 \<and> um_tx_list e' = []"
proof -
  note ok = um_example12_ok
  have z: "um_tx_size um_example12 = 3" by code_simp
  have "case nr_rlc_entity_um_discard_sdu um_example12 0 of Inl _ \<Rightarrow> False | Inr e' \<Rightarrow> um_tx_list e' = []"
    by code_simp
  then show ?thesis using um_discard_keeps_tx_size [OF ok, of 0] z by auto
qed

end
