(* ===== verification/Rlc_Api_Props.thy ===== *)
theory Rlc_Api_Props
  imports Rlc_Api Rlc_Um_Props
begin

text \<open>
  Properties of the RLC layer behind its interfaces: what configuration and removal do to the
  directory, the decoding tables of the polling parameters, and SDUs that cross two nodes over a UM
  bearer, from the request of PDCP on one node to the indication to PDCP on the other.
\<close>

subsection \<open>Bearers in the layer\<close>

text \<open>The UE with this RNTI is at position \<open>ui\<close>, and \<open>p\<close> points to its entity \<open>e\<close>.\<close>

definition rb_at :: "rlc_layer \<Rightarrow> int \<Rightarrow> nat \<Rightarrow> rb_ptr \<Rightarrow> nr_rlc_entity \<Rightarrow> bool" where
  "rb_at L rnti ui p e \<longleftrightarrow> mg_inv (rl_manager L) \<and> mg_get_ue (rl_manager L) rnti = (rl_manager L, ui) \<and>
     slot_valid p \<and> rb_slot (rl_ue L ui) p = Some e"

lemma get_ue_again:
  assumes "mg_inv m" "mg_get_ue m r = (m', ui)"
  shows "mg_inv m'" "mg_get_ue m' r = (m', ui)" "ui < length (mg_ue_list m')"
proof -
  show "mg_inv m'" using mg.inv_get [OF assms(1), of r] assms(2) by simp
  have "mg_find (us @ [empty_ue r]) r = length us" if "mg_find us r = length us" for us :: "'a ue list"
    using that by (induction us) (auto simp: empty_ue_def split: if_splits)
  then show "mg_get_ue m' r = (m', ui)" "ui < length (mg_ue_list m')"
    using assms(2) mg_find_le [of "mg_ue_list m" r] by (auto simp: mg_get_ue_def Let_def split: if_splits)
qed

lemma mg_find_update: "ue_rnti u = r \<Longrightarrow> mg_find (us[mg_find us r := u]) r = mg_find us r"
  by (induction us) auto

lemma update_ue:
  assumes "mg_inv m" "mg_get_ue m r = (m, ui)" "ue_ok u" "ue_rnti u = r"
  shows "mg_inv (mg_update_ue m ui u)" "mg_get_ue (mg_update_ue m ui u) r = (mg_update_ue m ui u, ui)"
    "mg_at (mg_update_ue m ui u) ui = u" "mg_enb_flag (mg_update_ue m ui u) = mg_enb_flag m"
    "mg_view (mg_update_ue m ui u) = (mg_view m)(r \<mapsto> u)"
proof -
  let ?us = "mg_ue_list m"
  have ui: "ui = mg_find ?us r" "ui < length ?us"
    using assms(2) get_ue_again(3) [OF assms(1,2)] by (auto simp: mg_get_ue_def Let_def split: if_splits)
  have at: "ue_rnti (?us ! ui) = r" using get_ue_rnti [OF assms(1,2)] by (simp add: mg_at_def)
  have mp: "map ue_rnti (?us[ui := u]) = map ue_rnti ?us"
    using at assms(4) by (metis list_update_id map_update)
  have "set (?us[ui := u]) \<subseteq> insert u (set ?us)" by (rule set_update_subset_insert)
  then show "mg_inv (mg_update_ue m ui u)" using assms(1,3) mp by (auto simp: mg_inv_def mg_update_ue_def)
  show "mg_get_ue (mg_update_ue m ui u) r = (mg_update_ue m ui u, ui)"
    using ui mg_find_update [OF assms(4), of ?us] by (simp add: mg_get_ue_def mg_update_ue_def Let_def)
  show "mg_at (mg_update_ue m ui u) ui = u" "mg_enb_flag (mg_update_ue m ui u) = mg_enb_flag m"
    using ui(2) by (simp_all add: mg_at_def mg_update_ue_def)
  show "mg_view (mg_update_ue m ui u) = (mg_view m)(r \<mapsto> u)"
  proof
    fix s
    have "List.find (\<lambda>v. ue_rnti v = s) (us[i := u]) = List.find (\<lambda>v. ue_rnti v = s) us"
      if "s \<noteq> r" "i < length us" "ue_rnti (us ! i) = r" for us i
      using that assms(4) by (induction us arbitrary: i) (auto split: nat.splits)
    then show "mg_view (mg_update_ue m ui u) s = ((mg_view m)(r \<mapsto> u)) s"
      using view_update [OF assms(1,2,4)] at ui(2) by (simp add: mg_view_def mg_update_ue_def)
  qed
qed

lemma rb_at_ue:
  assumes "rb_at L r ui p e"
  shows "ue_ok (rl_ue L ui)" "ue_rnti (rl_ue L ui) = r" "mg_view (rl_manager L) r = Some (rl_ue L ui)"
proof -
  have m: "mg_inv (rl_manager L)" "mg_get_ue (rl_manager L) r = (rl_manager L, ui)"
    using assms by (auto simp: rb_at_def)
  show "ue_ok (rl_ue L ui)" using m(1) get_ue_again(3) [OF m] by (simp add: mg_inv_def rl_ue_def mg_at_def)
  show "ue_rnti (rl_ue L ui) = r" using get_ue_rnti [OF m] by (simp add: rl_ue_def)
  show "mg_view (rl_manager L) r = Some (rl_ue L ui)" using mg.at_get [OF m(1), of r] m(2) by (simp add: rl_ue_def)
qed

text \<open>Writing the entity back changes that bearer only.\<close>

lemma rb_at_store:
  assumes "rb_at L r ui p e"
  shows "rb_at (rl_store L ui p e') r ui p e'" "rl_time (rl_store L ui p e') = rl_time L"
    "mg_enb_flag (rl_manager (rl_store L ui p e')) = mg_enb_flag (rl_manager L)"
proof -
  have m: "mg_inv (rl_manager L)" "mg_get_ue (rl_manager L) r = (rl_manager L, ui)" "slot_valid p"
    using assms by (auto simp: rb_at_def)
  note ue = rb_at_ue [OF assms]
  note up = update_ue [OF m(1,2), of "rb_store (rl_ue L ui) p e'"]
  show "rb_at (rl_store L ui p e') r ui p e'"
    using up(1-3) ue m(3) rb_slot_store [OF ue(1) m(3,3)] by (simp add: rb_at_def rl_store_def rl_ue_def)
  show "rl_time (rl_store L ui p e') = rl_time L" by (simp add: rl_store_def)
  show "mg_enb_flag (rl_manager (rl_store L ui p e')) = mg_enb_flag (rl_manager L)"
    using up(4) ue by (simp add: rl_store_def)
qed

lemma rb_operation_at:
  assumes "rb_at L r ui p e" "f e = Inr (e', evs)"
  shows "rb_operation nt ui p f L = run_ops (rlc_callback nt ui p) (rl_store L ui p e') evs"
  using assms by (simp add: rb_at_def rb_operation_def deref_def)

subsection \<open>Configuration\<close>

text \<open>The UE before a call: an unknown one starts without bearers.\<close>

definition old_ue :: "rlc_layer \<Rightarrow> int \<Rightarrow> nr_rlc_entity ue" where
  "old_ue L rnti = (case mg_view (rl_manager L) rnti of None \<Rightarrow> empty_ue rnti | Some u \<Rightarrow> u)"

lemma old_ue_ok: "mg_inv (rl_manager L) \<Longrightarrow> ue_ok (old_ue L r)" "ue_rnti (old_ue L r) = r"
  by (auto simp: old_ue_def empty_ue_def ue_ok_def mg_view_def mg_inv_def find_Some_iff split: option.splits)

text \<open>The UE that a call looks up, and the directory after writing it back.\<close>

lemma get_old_ue:
  assumes "mg_inv (rl_manager L)" "mg_get_ue (rl_manager L) r = (m, ui)"
  shows "mg_at m ui = old_ue L r" "mg_view m = (mg_view (rl_manager L))(r \<mapsto> old_ue L r)" "mg_enb_flag m = mg_enb_flag (rl_manager L)"
proof -
  show at: "mg_at m ui = old_ue L r" using view_get_ue(1) [OF assms] by (simp add: old_ue_def)
  have "mg_view m = (if mg_view (rl_manager L) r = None then (mg_view (rl_manager L))(r \<mapsto> empty_ue r)
      else mg_view (rl_manager L))"
    using mg.view_get [OF assms(1), of r] assms(2) by simp
  then show "mg_view m = (mg_view (rl_manager L))(r \<mapsto> old_ue L r)"
    by (auto simp: old_ue_def fun_eq_iff split: option.splits if_splits)
  show "mg_enb_flag m = mg_enb_flag (rl_manager L)"
    using assms(2) by (auto simp: mg_get_ue_def Let_def split: if_splits)
qed

text \<open>The end of the functions that add a data bearer.\<close>

lemma rl_add_drb:
  assumes "mg_inv (rl_manager L)" "rl_add nr_rlc_ue_add_drb_rlc_entity DrbAt L r d new_entity = Inr L'" "1 \<le> d" "d \<le> 5"
  shows "\<exists>ui e. rb_at L' r ui (DrbAt (nat (d - 1))) e \<and>
     mg_view (rl_manager L') = (mg_view (rl_manager L))(r \<mapsto> rb_store (old_ue L r) (DrbAt (nat (d - 1))) e) \<and>
     (rb_slot (old_ue L r) (DrbAt (nat (d - 1))) = None \<longrightarrow> new_entity = Inr e) \<and>
     (\<forall>e0. rb_slot (old_ue L r) (DrbAt (nat (d - 1))) = Some e0 \<longrightarrow> e = e0) \<and>
     rl_time L' = rl_time L \<and> mg_enb_flag (rl_manager L') = mg_enb_flag (rl_manager L)"
proof -
  let ?p = "DrbAt (nat (d - 1))" and ?u = "old_ue L r"
  obtain m ui where g: "mg_get_ue (rl_manager L) r = (m, ui)" by fastforce
  note m = get_ue_again [OF assms(1) g] and o = get_old_ue [OF assms(1) g]
  have u: "ue_ok ?u" "ue_rnti ?u = r" by (rule old_ue_ok(1) [OF assms(1)]) (rule old_ue_ok(2))
  have p: "slot_valid ?p" using assms(3,4) by simp
  show ?thesis
  proof (cases "rb_slot ?u ?p")
    case None
    obtain e where e: "new_entity = Inr e" "L' = L\<lparr>rl_manager := mg_update_ue m ui (rb_store ?u ?p e)\<rparr>"
      using assms(2-4) None g o(1)
      by (auto simp: rl_add_def nr_rlc_manager_get_ue_def rl_ue_def nr_rlc_ue_add_drb_rlc_entity_def ue_add_drb_def
          res_simps Let_def)
    have "ue_ok (rb_store ?u ?p e)" "ue_rnti (rb_store ?u ?p e) = r" using u by (simp_all del: rb_store.simps)
    note up = update_ue [OF m(1,2) this]
    have "rb_at L' r ui ?p e"
      using e(2) up(1-3) p rb_slot_store [OF u(1) p p, of e]
      by (simp add: rb_at_def rl_ue_def del: rb_store.simps rb_slot.simps)
    moreover have "mg_view (rl_manager L') = (mg_view (rl_manager L))(r \<mapsto> rb_store ?u ?p e)"
      using e(2) up(5) o(2) by (simp add: fun_eq_iff del: rb_store.simps)
    ultimately show ?thesis using e up(4) o(3) None by (auto simp del: rb_store.simps rb_slot.simps)
  next
    case (Some e)
    have L': "L' = L\<lparr>rl_manager := m\<rparr>"
      using assms(2) Some g o(1) by (simp add: rl_add_def nr_rlc_manager_get_ue_def rl_ue_def Let_def)
    have "rb_store ?u ?p e = ?u" using Some by simp (metis list_update_id ue.surjective ue.update_convs(3))
    then have "rb_at L' r ui ?p e \<and> mg_view (rl_manager L') = (mg_view (rl_manager L))(r \<mapsto> rb_store ?u ?p e)"
      using L' m p o Some by (simp add: rb_at_def rl_ue_def)
    then show ?thesis using L' o(3) Some by auto
  qed
qed

lemma rlc_add_drb_cases:
  assumes "rlc_add_drb r d c L = Inr L'"
  shows "1 \<le> d \<and> d \<le> 5 \<and> bc_logicalChannelIdentity c = d + 3 \<and>
     (\<exists>e. rl_add nr_rlc_ue_add_drb_rlc_entity DrbAt L r d e = Inr L' \<and>
       (\<forall>um. bc_rlc_Config c = Some (RlcConfigUmBi um) \<longrightarrow>
         (\<exists>t n. um_config c = Inr (t, n) \<and>
            e = bnd (new_nr_rlc_entity_um 100000000 100000000 t (nat n)) (\<lambda>e. Inr (UmEntity e)))))"
  using assms
  by (auto simp: rlc_add_drb_def rlc_add_drb_am_def rlc_add_drb_um_def res_simps guard_def deref_def
      split: option.splits rlc_config.splits if_splits prod.splits)

text \<open>
  C13: a successful \<open>add_drb\<close> of the RLC layer.  The logical channel of the configuration leads to the
  bearer, a bearer that existed is the one from before, and no other bearer and no other UE
  changes.
\<close>

theorem rlc_add_drb_outcome:
  assumes "mg_inv (rl_manager L)" "rlc_add_drb rnti drb_id c L = Inr L'"
  shows "\<exists>e. let u = rb_store (old_ue L rnti) (DrbAt (nat (drb_id - 1))) e in
     mg_inv (rl_manager L') \<and> mg_view (rl_manager L') = (mg_view (rl_manager L))(rnti \<mapsto> u) \<and>
     rlc_channel u (bc_logicalChannelIdentity c) = Some (DrbAt (nat (drb_id - 1))) \<and>
     (\<forall>e0. rb_slot (old_ue L rnti) (DrbAt (nat (drb_id - 1))) = Some e0 \<longrightarrow> e = e0)"
proof -
  note c = rlc_add_drb_cases [OF assms(2)]
  then obtain ne where ne: "rl_add nr_rlc_ue_add_drb_rlc_entity DrbAt L rnti drb_id ne = Inr L'"
    and d: "1 \<le> drb_id" "drb_id \<le> 5" by blast
  obtain ui e where e: "rb_at L' rnti ui (DrbAt (nat (drb_id - 1))) e"
      "mg_view (rl_manager L') = (mg_view (rl_manager L))(rnti \<mapsto> rb_store (old_ue L rnti) (DrbAt (nat (drb_id - 1))) e)"
      "\<forall>e0. rb_slot (old_ue L rnti) (DrbAt (nat (drb_id - 1))) = Some e0 \<longrightarrow> e = e0"
    using rl_add_drb [OF assms(1) ne d] by blast
  have "rb_slot (rb_store (old_ue L rnti) (DrbAt (nat (drb_id - 1))) e) (DrbAt (nat (drb_id - 1))) = Some e"
    using rb_slot_store [OF old_ue_ok(1) [OF assms(1)], of "DrbAt (nat (drb_id - 1))" "DrbAt (nat (drb_id - 1))"] d
    by (simp del: rb_store.simps rb_slot.simps)
  then have "rlc_channel (rb_store (old_ue L rnti) (DrbAt (nat (drb_id - 1))) e) (bc_logicalChannelIdentity c) =
      Some (DrbAt (nat (drb_id - 1)))"
    using c d by (simp add: rlc_channel_def Let_def del: rb_store.simps rb_slot.simps)
  then show ?thesis using e by (auto simp: Let_def rb_at_def simp del: rb_store.simps rb_slot.simps)
qed

lemma preconfigured_new:
  "rlc_add_drb 7 1 preconfigured_rlc_bearer (initial_rlc_layer 0) =
     Inr \<lparr>rl_manager = \<lparr>mg_ue_list =
             [\<lparr>ue_rnti = 7, ue_srb = replicate 3 None,
               ue_drb = Some (UmEntity (projr (new_nr_rlc_entity_um 100000000 100000000 15 12))) # replicate 4 None\<rparr>],
           mg_enb_flag = 0\<rparr>, rl_time = 0, rl_last_frame = 0, rl_last_subframe = 0\<rparr>"
  by (simp add: rlc_add_drb_def rlc_add_drb_um_def preconfigured_rlc_bearer_def nr_rlc_bearer_init_def
      nr_rlc_bearer_init_ul_spec_def bearer_lcg_def um_config_def guard_def deref_def decode_t_reassembly_def
      decode_sn_field_length_um_def decode_table_def rl_add_def nr_rlc_manager_get_ue_def mg_get_ue_def
      initial_rlc_layer_def new_nr_rlc_ue_manager_def new_ue_manager_def rl_ue_def mg_at_def empty_ue_def
      nr_rlc_ue_add_drb_rlc_entity_def ue_add_drb_def mg_update_ue_def new_nr_rlc_entity_um_def numeral_nat)

lemma module_init_inv: "mg_inv (rl_manager (initial_rlc_layer f))"
  by (simp add: initial_rlc_layer_def new_nr_rlc_ue_manager_def new_ue_manager_def mg_inv_def)

theorem rlc_add_drb_outcome_witness:
  "\<exists>L' e. rlc_add_drb 7 1 preconfigured_rlc_bearer (initial_rlc_layer 0) = Inr L' \<and>
     rlc_channel (rb_store (empty_ue 7) (DrbAt 0) e) 4 = Some (DrbAt 0) \<and>
     mg_view (rl_manager L') 7 = Some (rb_store (empty_ue 7) (DrbAt 0) e)"
proof -
  have "old_ue (initial_rlc_layer 0) 7 = empty_ue 7"
    by (simp add: old_ue_def initial_rlc_layer_def new_nr_rlc_ue_manager_def new_ue_manager_def mg_view_def)
  moreover have "bc_logicalChannelIdentity preconfigured_rlc_bearer = 4"
    by (simp add: preconfigured_rlc_bearer_def nr_rlc_bearer_init_def)
  ultimately show ?thesis
    using rlc_add_drb_outcome [OF module_init_inv preconfigured_new] preconfigured_new
    by (auto simp: Let_def simp del: rb_store.simps)
qed

subsection \<open>Removal\<close>

lemma map_filter_id_Nil: "List.map_filter id xs = [] \<longleftrightarrow> list_all (\<lambda>s. s = None) xs"
  by (induction xs) (auto simp: map_filter_simps split: option.splits)

lemma ue_entities_Nil:
  "ue_entities u = [] \<longleftrightarrow> list_all (\<lambda>s. s = None) (take 2 (ue_srb u)) \<and> list_all (\<lambda>s. s = None) (take 5 (ue_drb u))"
  by (simp add: ue_entities_def map_filter_id_Nil)

lemma rb_clear_facts [simp]: "ue_rnti (rb_clear u p) = ue_rnti u" "ue_ok (rb_clear u p) = ue_ok u"
  by (cases p; simp add: ue_ok_def)+

lemma rb_clear_none: "rb_slot u p = None \<Longrightarrow> rb_clear u p = u"
  by (cases p) (auto, (metis list_update_id ue.surjective ue.update_convs(2,3))+)

text \<open>The removal of a UE without bearers.\<close>

lemma remove_empty_ue:
  assumes "mg_inv m" "mg_get_ue m r = (m, ui)" "ue_entities (mg_at m ui) = []"
  shows "\<exists>m'. nr_rlc_manager_remove_ue m r = Inr m' \<and> mg_inv m' \<and> mg_view m' = (mg_view m)(r := None)"
proof -
  have "mg_find (mg_ue_list m) r = ui" "ui < length (mg_ue_list m)"
    using assms(2) get_ue_again(3) [OF assms(1,2)] by (auto simp: mg_get_ue_def Let_def split: if_splits)
  then have "snd (mg_remove_ue m r) = []" using assms(3) by (simp add: mg_remove_ue_def mg_at_def)
  then have "nr_rlc_manager_remove_ue m r = Inr (fst (mg_remove_ue m r))"
    by (cases "mg_remove_ue m r") (simp add: nr_rlc_manager_remove_ue_def)
  then show ?thesis using mg.view_remove [OF assms(1), of r] mg.inv_remove [OF assms(1), of r] by blast
qed

text \<open>
  C12: the removal of a bearer by RRC.  Exactly this bearer goes, every other bearer and every other UE
  stays, and the UE itself leaves the directory if and only if this was its last bearer; removing a
  bearer that does not exist from an unknown UE leaves no trace.
\<close>

theorem rlc_config_req_removes:
  assumes "mg_inv (rl_manager L)" "cx_module_id ctxt = 0" "1 \<le> rb_id" "rb_id \<le> (if srb_flag then 2 else 5)"
    and "p = (if srb_flag then SrbAt (nat (rb_id - 1)) else DrbAt (nat (rb_id - 1)))"
    and "\<forall>e. rb_slot (old_ue L (cx_rnti ctxt)) p = Some e \<longrightarrow> (\<exists>h. rlc_delete e = Inr h)"
  shows "\<exists>L'. rrc_rlc_config_req L ctxt srb_flag False ConfigActionRemove rb_id = Inr L' \<and>
     mg_inv (rl_manager L') \<and> rl_time L' = rl_time L \<and>
     mg_view (rl_manager L') =
       (let u = rb_clear (old_ue L (cx_rnti ctxt)) p
        in (mg_view (rl_manager L))(cx_rnti ctxt := (if ue_entities u = [] then None else Some u)))"
proof -
  let ?r = "cx_rnti ctxt"
  obtain m ui where g: "mg_get_ue (rl_manager L) ?r = (m, ui)" by fastforce
  note m = get_ue_again [OF assms(1) g] and o = get_old_ue [OF assms(1) g]
  let ?u = "old_ue L ?r" and ?v = "rb_clear (old_ue L ?r) p"
  have v: "ue_ok ?v" "ue_rnti ?v = ?r" using old_ue_ok [of L ?r] assms(1) by simp_all
  note up = update_ue [OF m(1,2) v]
  have clear: "(case rb_slot ?u p of None \<Rightarrow> Inr ?u | Some e \<Rightarrow> bnd (rlc_delete e) (\<lambda>_. Inr (rb_clear ?u p))) = Inr ?v"
    using assms(6) rb_clear_none [of ?u p] by (auto split: option.splits)
  obtain m2 where m2: "(if ue_entities ?v = [] then nr_rlc_manager_remove_ue (mg_update_ue m ui ?v) ?r
        else Inr (mg_update_ue m ui ?v)) = Inr m2"
      "mg_inv m2" "mg_view m2 = (mg_view (rl_manager L))(?r := (if ue_entities ?v = [] then None else Some ?v))"
    using remove_empty_ue [OF up(1,2)] up(1,3,5) o(2) by (cases "ue_entities ?v = []") auto
  have "rrc_rlc_config_req L ctxt srb_flag False ConfigActionRemove rb_id = Inr (L\<lparr>rl_manager := m2\<rparr>)"
    using assms(2-4) g m2(1) clear o(1)
    by (simp add: rrc_rlc_config_req_def guard_def nr_rlc_manager_get_ue_def flip: ue_entities_Nil assms(5))
  then show ?thesis using m2(2,3) by (simp add: Let_def)
qed

theorem rlc_config_req_removes_witness:
  "\<exists>L. rlc_add_drb 7 1 preconfigured_rlc_bearer (initial_rlc_layer 0) = Inr L \<and>
     (\<exists>L'. rrc_rlc_config_req L (rlc_ctxt 7) False False ConfigActionRemove 1 = Inr L' \<and>
       mg_view (rl_manager L') 7 = None)"
proof -
  obtain L where L: "rlc_add_drb 7 1 preconfigured_rlc_bearer (initial_rlc_layer 0) = Inr L"
    using preconfigured_new by blast
  have inv: "mg_inv (rl_manager L)" and old: "old_ue L 7 =
      \<lparr>ue_rnti = 7, ue_srb = replicate 3 None,
       ue_drb = Some (UmEntity (projr (new_nr_rlc_entity_um 100000000 100000000 15 12))) # replicate 4 None\<rparr>"
    using L preconfigured_new by (auto simp: mg_inv_def ue_ok_def old_ue_def mg_view_def)
  have "\<exists>h. rlc_delete (UmEntity (projr (new_nr_rlc_entity_um 100000000 100000000 15 12))) = Inr h"
    by (simp add: new_nr_rlc_entity_um_def nr_rlc_entity_um_delete_def um_clear_entity_def)
  moreover have "ue_entities (rb_clear (old_ue L 7) (DrbAt 0)) = []"
    by (simp add: old ue_entities_Nil numeral_nat)
  ultimately show ?thesis
    using L rlc_config_req_removes [OF inv, of "rlc_ctxt 7" 1 False "DrbAt 0"]
    by (auto simp: rlc_ctxt_def old Let_def)
qed

subsection \<open>Tables\<close>

text \<open>
  The decoding of the polling parameters.  The value for an infinite \<open>pollPDU\<close> decodes to 0, so
  an entity configured with it asks for a status report in every PDU instead of in none; 65536 decodes
  to 65535; every byte count comes out 1024 times too large, and from the 20th entry on the
  multiplication overflows.
\<close>

theorem poll_tables_wrong:
  assumes "decode_poll_pdu 23 = Inr (am_poll_pdu e)" "0 \<le> am_pdu_without_poll e"
  shows "snd (am_poll_after_tx e sdu) \<and> decode_poll_pdu 22 = Inr 65535 \<and>
     decode_poll_byte 0 = Inr (1024 * 1024) \<and> decode_poll_byte 18 = Inr (1024 * (1024 * 2000)) \<and>
     list_all (\<lambda>v. decode_poll_byte (int v) = Inl Overflow) [19..<43] \<and> decode_poll_byte 43 = Inr (- 1)"
proof -
  have "am_poll_pdu e = 0" using assms(1) by (simp add: decode_poll_pdu_def decode_table_def)
  then have "snd (am_poll_after_tx e sdu)"
    using assms(2) by (simp add: am_poll_after_tx_def am_take_force_poll_def Let_def)
  moreover have "decode_poll_pdu 22 = Inr 65535" by (simp add: decode_poll_pdu_def decode_table_def)
  moreover have "decode_poll_byte 0 = Inr (1024 * 1024)" "decode_poll_byte 18 = Inr (1024 * (1024 * 2000))"
    "decode_poll_byte 43 = Inr (- 1)"
    by (simp_all add: decode_poll_byte_def decode_table_def int_mul_def)
  moreover have "list_all (\<lambda>v. decode_poll_byte (int v) = Inl Overflow) [19..<43]"
    by (simp add: decode_poll_byte_def decode_table_def int_mul_def upt_rec)
  ultimately show ?thesis by blast
qed

theorem poll_tables_wrong_witness:
  "snd (am_poll_after_tx (projr (new_nr_rlc_entity_am 10000000 10000000 45 35 0 0 (- 1) 8 12))
     \<lparr>seg_addr = 0, seg_sdu = 0, seg_size = 4, seg_so = 0, seg_is_first = True, seg_is_last = True\<rparr>)"
proof -
  let ?e = "projr (new_nr_rlc_entity_am 10000000 10000000 45 35 0 0 (- 1) 8 12)"
  have "decode_poll_pdu 23 = Inr (am_poll_pdu ?e)" "0 \<le> am_pdu_without_poll ?e"
    by (simp_all add: new_nr_rlc_entity_am_def decode_poll_pdu_def decode_table_def)
  then show ?thesis using poll_tables_wrong by blast
qed

end
