(* ===== verification/Rlc_Transfer.thy ===== *)
theory Rlc_Transfer
  imports Rlc_Api_Props
begin

text \<open>
  Two nodes with the same UM bearer: SDUs that PDCP hands to RLC on one node, grants of MAC that
  carry the PDUs to the other, and ticks of both clocks in between.
\<close>

subsection \<open>UM entities and time\<close>

text \<open>While the reassembly timer is off, time only passes.\<close>

lemma um_set_time_idle: "um_t_reassembly_start e = 0 \<Longrightarrow> nr_rlc_entity_um_set_time e t = Inr (e\<lparr>um_t_current := t\<rparr>)"
  by (simp add: nr_rlc_entity_um_set_time_def um_check_t_reassembly_def)

definition um_start_is :: "u64 \<Rightarrow> (nr_rlc_entity_um \<times> 'r) res \<Rightarrow> bool" where
  "um_start_is t m = (case m of Inl _ \<Rightarrow> True | Inr (e, _) \<Rightarrow> um_t_reassembly_start e = t)"

lemma um_start_is_bnd: "(\<And>x. um_start_is t (f x)) \<Longrightarrow> um_start_is t (bnd m f)"
  by (cases m) (simp_all add: um_start_is_def)

lemma um_start_is_Inr: "um_t_reassembly_start e = t \<Longrightarrow> um_start_is t (Inr (e, r))"
  by (simp add: um_start_is_def)

lemma um_send_start: "um_t_reassembly_start e = t \<Longrightarrow> um_start_is t (um_send_segment e sdu b)"
  unfolding um_send_segment_def Let_def
  by (rule um_start_is_bnd, clarsimp)+ (auto intro!: um_start_is_Inr um_start_is_bnd)

lemma um_bs_start [simp]: "um_t_reassembly_start (um_bs_tx_add n e) = um_t_reassembly_start e"
  by (simp add: um_bs_tx_add_def)

lemma um_generate_timer:
  assumes "nr_rlc_entity_um_generate_pdu e b = Inr (e', r)"
  shows "um_t_reassembly_start e' = um_t_reassembly_start e"
proof -
  have "um_start_is (um_t_reassembly_start e) (nr_rlc_entity_um_generate_pdu e b)"
    unfolding nr_rlc_entity_um_generate_pdu_def um_generate_tx_pdu_def Let_def
    by (cases "um_tx_list e")
      (simp_all add: um_start_is_Inr um_start_is_bnd um_send_start split: option.split prod.split)
  then show ?thesis using assms by (simp add: um_start_is_def)
qed

lemma um_recv_sdu_timer:
  "nr_rlc_entity_um_recv_sdu e b i = Inr e' \<Longrightarrow> um_t_reassembly_start e' = um_t_reassembly_start e"
  by (auto simp: nr_rlc_entity_um_recv_sdu_def um_bs_tx_add_def Let_def res_simps split: if_splits prod.splits)

lemma um_now_tx [simp]:
  "um_tx_ok (e\<lparr>um_t_current := t\<rparr>) = um_tx_ok e" "um_pending (e\<lparr>um_t_current := t\<rparr>) = um_pending e"
  "um_left (e\<lparr>um_t_current := t\<rparr>) = um_left e"
  by (simp_all add: um_tx_ok_def um_pending_def um_left_def um_cfg_def um_compute_pdu_header_size_def)

lemma um_now_rx [simp]: "um_rx_at (e\<lparr>um_t_current := t\<rparr>) x s k = um_rx_at e x s k"
  by (simp add: um_rx_at_def um_sn_ok_def um_cfg_def)

lemma um_link_now:
  "um_link_ok tx rx \<Longrightarrow> um_link_ok (tx\<lparr>um_t_current := t\<rparr>) rx"
  "um_link_ok tx rx \<Longrightarrow> um_link_ok tx (rx\<lparr>um_t_current := t\<rparr>)"
  by (auto simp: um_link_ok_def split: list.splits)

lemma um_link_rx_timer: "um_link_ok tx rx \<Longrightarrow> um_t_reassembly_start rx = 0"
  by (auto simp: um_link_ok_def um_rx_at_def split: list.splits)

subsection \<open>The calls on a UM bearer\<close>

lemma rb_at_same [simp]: "L\<lparr>rl_manager := rl_manager L\<rparr> = L"
  by simp

lemma um_rb_time:
  assumes "rb_at L r ui p (UmEntity e)" "um_t_reassembly_start e = 0"
  shows "rb_at_current_time nt ui p L = Inr (rl_store L ui p (UmEntity (e\<lparr>um_t_current := rl_time L\<rparr>)), [])"
  using rb_operation_at [OF assms(1), of "\<lambda>e. rlc_set_time e (rl_time L)"] um_set_time_idle [OF assms(2)]
  by (simp add: rb_at_current_time_def)

lemma um_data_req:
  assumes "rb_at L r ui (DrbAt (nat (d - 1))) (UmEntity e)" "um_t_reassembly_start e = 0" "1 \<le> d" "d \<le> 5"
    and "cx_rnti ctxt = r" "nr_rlc_entity_um_recv_sdu (e\<lparr>um_t_current := rl_time L\<rparr>) b i = Inr e'"
  shows "\<exists>L'. rlc_data_req nt L ctxt False d i b = Inr (L', []) \<and> rb_at L' r ui (DrbAt (nat (d - 1))) (UmEntity e')"
proof -
  let ?p = "DrbAt (nat (d - 1))"
  define L1 where "L1 = rl_store L ui ?p (UmEntity (e\<lparr>um_t_current := rl_time L\<rparr>))"
  note at1 = rb_at_store(1) [OF assms(1), of "UmEntity (e\<lparr>um_t_current := rl_time L\<rparr>)", folded L1_def]
  have "mg_get_ue (rl_manager L) r = (rl_manager L, ui)" "rb_slot (rl_ue L ui) ?p \<noteq> None"
    using assms(1) by (auto simp: rb_at_def)
  then have "rlc_data_req nt L ctxt False d i b = Inr (rl_store L1 ui ?p (UmEntity e'), [])"
    using um_rb_time [OF assms(1,2), folded L1_def] assms(3-6)
      rb_operation_at [OF at1, of "\<lambda>e. bnd (rlc_recv_sdu e b i) (\<lambda>e'. Inr (e', []))"]
    by (simp add: rlc_data_req_def nr_rlc_manager_get_ue_def Let_def del: rb_slot.simps)
  then show ?thesis using rb_at_store(1) [OF at1] by blast
qed

lemma rlc_channel_drb:
  assumes "rb_at L r ui (DrbAt (nat (d - 1))) e" "1 \<le> d" "d \<le> 5"
  shows "rlc_channel (rl_ue L ui) (d + 3) = Some (DrbAt (nat (d - 1)))"
  using assms by (simp add: rlc_channel_def rb_at_def Let_def del: rb_slot.simps)

lemma um_mac_req:
  assumes "rb_at L r ui (DrbAt (nat (d - 1))) (UmEntity e)" "um_t_reassembly_start e = 0" "1 \<le> d" "d \<le> 5"
    and "nr_rlc_entity_um_generate_pdu (e\<lparr>um_t_current := rl_time L\<rparr>) b = Inr (e', n, b')"
  shows "\<exists>L'. mac_rlc_data_req nt L r (d + 3) b = Inr ((L', []), n, b') \<and>
     rb_at L' r ui (DrbAt (nat (d - 1))) (UmEntity e')"
proof -
  let ?p = "DrbAt (nat (d - 1))"
  define L1 where "L1 = rl_store L ui ?p (UmEntity (e\<lparr>um_t_current := rl_time L\<rparr>))"
  note at1 = rb_at_store(1) [OF assms(1), of "UmEntity (e\<lparr>um_t_current := rl_time L\<rparr>)", folded L1_def]
  have "mg_get_ue (rl_manager L) r = (rl_manager L, ui)"
    "rb_slot (rl_ue L1 ui) ?p = Some (UmEntity (e\<lparr>um_t_current := rl_time L\<rparr>))"
    using assms(1) at1 by (auto simp: rb_at_def)
  then have "mac_rlc_data_req nt L r (d + 3) b = Inr ((rl_store L1 ui ?p (UmEntity e'), []), n, b')"
    using um_rb_time [OF assms(1,2), folded L1_def] rlc_channel_drb [OF assms(1,3,4)] assms(5)
    by (simp add: mac_rlc_data_req_def nr_rlc_manager_get_ue_def Let_def deref_def del: rb_slot.simps)
  then show ?thesis using rb_at_store(1) [OF at1] by blast
qed

text \<open>The message that an SDU of a data bearer becomes: to PDCP, or to the CU if this node is a DU.\<close>

definition rlc_up :: "node_type option \<Rightarrow> bool \<Rightarrow> int \<Rightarrow> int \<Rightarrow> bytes \<Rightarrow> rlc_msg" where
  "rlc_up nt enb r d b =
     (if enb \<and> nt = Some NodeDu then GtpuToCu r d b else PdcpDataInd ((rlc_ctxt r)\<lparr>cx_enb_flag := enb\<rparr>) False d b)"

definition rlc_node_ok :: "node_type option \<Rightarrow> rlc_layer \<Rightarrow> bool" where
  "rlc_node_ok nt L \<longleftrightarrow> mg_enb_flag (rl_manager L) = 0 \<or> nt = Some NodeDu \<or> nt = Some NodeOther"

lemma rlc_callbacks:
  assumes "rb_at L r ui (DrbAt (nat (d - 1))) e" "1 \<le> d" "d \<le> 5" "rlc_node_ok nt L"
  shows "run_ops (rlc_callback nt ui (DrbAt (nat (d - 1)))) L (map DeliverSdu ss) =
     Inr (L, map (rlc_up nt (mg_enb_flag (rl_manager L) \<noteq> 0) r d) ss)"
proof -
  have "rlc_find_rb 3 (rl_ue L ui) (DrbAt (nat (d - 1))) = Inr (False, d)"
    using assms(1-3) by (auto simp: rlc_find_rb_def rb_at_def)
  then have "rlc_deliver_sdu nt L (rl_ue L ui) (DrbAt (nat (d - 1))) b =
      Inr [rlc_up nt (mg_enb_flag (rl_manager L) \<noteq> 0) r d b]" for b
    using assms(4) rb_at_ue(2) [OF assms(1)]
    by (auto simp: rlc_deliver_sdu_def rlc_up_def rlc_node_ok_def nr_rlc_manager_get_enb_flag_def
        mg_get_enb_flag_def Let_def deref_def guard_def)
  then show ?thesis by (induction ss) simp_all
qed

lemma um_mac_ind:
  assumes "rb_at L r ui (DrbAt (nat (d - 1))) (UmEntity e)" "um_t_reassembly_start e = 0" "1 \<le> d" "d \<le> 5"
    and "rlc_node_ok nt L" "nr_rlc_entity_um_recv_pdu (e\<lparr>um_t_current := rl_time L\<rparr>) b = Inr (e', map DeliverSdu ss)"
  shows "\<exists>L'. mac_rlc_data_ind nt L 0 r 0 False (d + 3) b =
       Inr (L', map (rlc_up nt (mg_enb_flag (rl_manager L) \<noteq> 0) r d) ss) \<and>
     rb_at L' r ui (DrbAt (nat (d - 1))) (UmEntity e') \<and> mg_enb_flag (rl_manager L') = mg_enb_flag (rl_manager L)"
proof -
  let ?p = "DrbAt (nat (d - 1))"
  define L1 where "L1 = rl_store L ui ?p (UmEntity (e\<lparr>um_t_current := rl_time L\<rparr>))"
  define L2 where "L2 = rl_store L1 ui ?p (UmEntity e')"
  note at1 = rb_at_store [OF assms(1), of "UmEntity (e\<lparr>um_t_current := rl_time L\<rparr>)", folded L1_def]
  note at2 = rb_at_store [OF at1(1), of "UmEntity e'", folded L2_def]
  have "rlc_node_ok nt L2" using assms(5) at1(3) at2(3) by (simp add: rlc_node_ok_def)
  from rlc_callbacks [OF at2(1) assms(3,4) this]
  have "rb_operation nt ui ?p (\<lambda>e. rlc_recv_pdu e b) L1 =
      Inr (L2, map (rlc_up nt (mg_enb_flag (rl_manager L) \<noteq> 0) r d) ss)"
    using rb_operation_at [OF at1(1), of "\<lambda>e. rlc_recv_pdu e b"] assms(6) at1(3) at2(3)
    by (simp flip: L2_def)
  moreover have "mg_get_ue (rl_manager L) r = (rl_manager L, ui)" using assms(1) by (simp add: rb_at_def)
  ultimately have "mac_rlc_data_ind nt L 0 r 0 False (d + 3) b =
      Inr (L2, map (rlc_up nt (mg_enb_flag (rl_manager L) \<noteq> 0) r d) ss)"
    using um_rb_time [OF assms(1,2), folded L1_def] rlc_channel_drb [OF assms(1,3,4)]
    by (simp add: mac_rlc_data_ind_def nr_rlc_manager_get_ue_def guard_def Let_def)
  then show ?thesis using at1(3) at2 by auto
qed

subsection \<open>The link\<close>

text \<open>An SDU from PDCP at the first node, a grant of MAC whose PDU reaches the second node, a new
  frame or subframe at the first or the second node.\<close>

datatype rlc_link_op = LinkSdu bytes int | LinkGrant bytes | LinkTickA int int | LinkTickB int int

fun rlc_link_step ::
    "node_type option \<Rightarrow> node_type option \<Rightarrow> protocol_ctxt \<Rightarrow> int \<Rightarrow> rlc_layer \<times> rlc_layer \<Rightarrow> rlc_link_op \<Rightarrow>
     ((rlc_layer \<times> rlc_layer) \<times> rlc_msg list) res" where
  "rlc_link_step ntA ntB ctxt d (A, B) (LinkSdu b mui) =
     bnd (rlc_data_req ntA A ctxt False d mui b) (\<lambda>(A', ms). Inr ((A', B), ms))"
| "rlc_link_step ntA ntB ctxt d (A, B) (LinkGrant buffer) =
     bnd (mac_rlc_data_req ntA A (cx_rnti ctxt) (d + 3) buffer) (\<lambda>((A', ms), n, out).
       if n = 0 then Inr ((A', B), ms)
       else bnd (mac_rlc_data_ind ntB B 0 (cx_rnti ctxt) 0 False (d + 3) (take (nat n) out)) (\<lambda>(B', ms').
              Inr ((A', B'), ms @ ms')))"
| "rlc_link_step ntA ntB ctxt d (A, B) (LinkTickA frame subframe) = Inr ((nr_rlc_tick A frame subframe, B), [])"
| "rlc_link_step ntA ntB ctxt d (A, B) (LinkTickB frame subframe) = Inr ((A, nr_rlc_tick B frame subframe), [])"

fun rlc_link_op_ok :: "nat \<Rightarrow> rlc_link_op \<Rightarrow> bool" where
  "rlc_link_op_ok sn_len (LinkSdu b mui) \<longleftrightarrow> b \<noteq> [] \<and> int (length b) \<le> NR_SDU_MAX"
| "rlc_link_op_ok sn_len (LinkGrant buffer) \<longleftrightarrow> (sn_len = 12 \<longrightarrow> length buffer \<noteq> 2)"
| "rlc_link_op_ok sn_len _ \<longleftrightarrow> True"

fun link_sdu :: "rlc_link_op \<Rightarrow> bytes list" where
  "link_sdu (LinkSdu b mui) = [b]"
| "link_sdu _ = []"

definition link_sdus :: "rlc_link_op list \<Rightarrow> bytes list" where
  "link_sdus ops = concat (map link_sdu ops)"

text \<open>Both nodes have the bearer, and the peers agree.\<close>

definition um_linked :: "node_type option \<Rightarrow> int \<Rightarrow> int \<Rightarrow> rlc_layer \<Rightarrow> rlc_layer \<Rightarrow> nr_rlc_entity_um \<Rightarrow> bool" where
  "um_linked ntB r d A B tx \<longleftrightarrow> rlc_node_ok ntB B \<and> um_t_reassembly_start tx = 0 \<and>
     (\<exists>ua ub rx. rb_at A r ua (DrbAt (nat (d - 1))) (UmEntity tx) \<and>
        rb_at B r ub (DrbAt (nat (d - 1))) (UmEntity rx) \<and> um_link_ok tx rx)"

lemma rb_at_tick: "rb_at (nr_rlc_tick L f sf) r ui p e = rb_at L r ui p e"
    "rl_manager (nr_rlc_tick L f sf) = rl_manager L"
  by (simp_all add: nr_rlc_tick_def rb_at_def rl_ue_def)

text \<open>What is handed up, with what is still queued.\<close>

abbreviation rlc_outs :: "node_type option \<Rightarrow> rlc_layer \<Rightarrow> int \<Rightarrow> int \<Rightarrow> bytes list \<Rightarrow> rlc_msg list" where
  "rlc_outs nt B r d \<equiv> map (rlc_up nt (mg_enb_flag (rl_manager B) \<noteq> 0) r d)"

definition um_link_step_ok ::
    "node_type option \<Rightarrow> node_type option \<Rightarrow> protocol_ctxt \<Rightarrow> int \<Rightarrow> rlc_layer \<Rightarrow> rlc_layer \<Rightarrow> nr_rlc_entity_um \<Rightarrow> rlc_link_op \<Rightarrow> bool" where
  "um_link_step_ok ntA ntB ctxt d A B tx x \<longleftrightarrow>
     (\<exists>A' B' tx' ss. rlc_link_step ntA ntB ctxt d (A, B) x = Inr ((A', B'), rlc_outs ntB B (cx_rnti ctxt) d ss) \<and>
        um_linked ntB (cx_rnti ctxt) d A' B' tx' \<and> mg_enb_flag (rl_manager B') = mg_enb_flag (rl_manager B) \<and>
        map fst (um_pending tx) @ link_sdu x = ss @ map fst (um_pending tx') \<and>
        um_left tx' \<le> um_left tx + sum_list (map length (link_sdu x)) \<and> um_tx_maxsize tx' = um_tx_maxsize tx \<and>
        um_sn_field_length tx' = um_sn_field_length tx)"

lemma link_step_sdu:
  assumes ok: "um_linked ntB (cx_rnti ctxt) d A B tx" and d: "1 \<le> d" "d \<le> 5"
    and b: "b \<noteq> []" "int (length b) \<le> NR_SDU_MAX" "int (um_left tx) + int (length b) \<le> um_tx_maxsize tx"
  shows "um_link_step_ok ntA ntB ctxt d A B tx (LinkSdu b mui)"
proof -
  let ?r = "cx_rnti ctxt" and ?p = "DrbAt (nat (d - 1))" and ?tx = "tx\<lparr>um_t_current := rl_time A\<rparr>"
  obtain ua ub rx where at: "rb_at A ?r ua ?p (UmEntity tx)" "rb_at B ?r ub ?p (UmEntity rx)" "um_link_ok tx rx"
    and t: "um_t_reassembly_start tx = 0" and nd: "rlc_node_ok ntB B"
    using ok by (auto simp: um_linked_def)
  obtain tx' where tx': "nr_rlc_entity_um_recv_sdu ?tx b mui = Inr tx'" "um_link_ok tx' rx"
      "um_pending tx' = um_pending tx @ [(b, 0)]" "um_same_cfg tx' ?tx"
    using um_link_sdu [OF um_link_now(1) [OF at(3)] b(1,2), of "rl_time A" mui] b(3) by auto
  obtain A' where A': "rlc_data_req ntA A ctxt False d mui b = Inr (A', [])" "rb_at A' ?r ua ?p (UmEntity tx')"
    using um_data_req [OF at(1) t d refl tx'(1)] by blast
  have "um_t_reassembly_start tx' = 0" using um_recv_sdu_timer [OF tx'(1)] t by simp
  then have "um_linked ntB ?r d A' B tx'" using A'(2) at(2) tx'(2) nd by (auto simp: um_linked_def)
  moreover have "um_left tx' = um_left tx + length b" by (simp add: um_left_def tx'(3))
  ultimately show ?thesis
    using A'(1) tx'(3,4) unfolding um_link_step_ok_def
    by (intro exI [of _ A'] exI [of _ B] exI [of _ tx'] exI [of _ "[]"]) (simp add: um_same_cfg_def)
qed

lemma map_split_inj: "map f xs = a @ map f ys \<Longrightarrow> inj f \<Longrightarrow> \<exists>ss. a = map f ss \<and> xs = ss @ ys"
  by (auto simp: map_eq_append_conv inj_map_eq_map)

lemma deliver_events:
  fixes p q :: "(bytes \<times> nat) list"
  assumes "map (\<lambda>(s, k). DeliverSdu s) p = evs @ map (\<lambda>(s, k). DeliverSdu s) q"
  shows "\<exists>ss. evs = map DeliverSdu ss \<and> map fst p = ss @ map fst q"
proof -
  have f: "(\<lambda>(s :: bytes, k :: nat). DeliverSdu s) = (\<lambda>x. DeliverSdu (fst x))" by auto
  have "map DeliverSdu (map fst p) = evs @ map DeliverSdu (map fst q)" using assms by (simp add: f comp_def)
  then show ?thesis using map_split_inj [of DeliverSdu "map fst p" evs "map fst q"] by (simp add: inj_def)
qed

lemma link_step_grant:
  assumes ok: "um_linked ntB (cx_rnti ctxt) d A B tx" and d: "1 \<le> d" "d \<le> 5" and b: "um_sn_field_length tx = 12 \<longrightarrow> length b \<noteq> 2"
  shows "um_link_step_ok ntA ntB ctxt d A B tx (LinkGrant b)"
proof -
  let ?r = "cx_rnti ctxt" and ?p = "DrbAt (nat (d - 1))"
  let ?tx = "tx\<lparr>um_t_current := rl_time A\<rparr>"
  obtain ua ub rx where at: "rb_at A ?r ua ?p (UmEntity tx)" "rb_at B ?r ub ?p (UmEntity rx)" "um_link_ok tx rx"
    and t: "um_t_reassembly_start tx = 0" and nd: "rlc_node_ok ntB B"
    using ok by (auto simp: um_linked_def)
  let ?rx = "rx\<lparr>um_t_current := rl_time B\<rparr>"
  have "um_link_ok ?tx ?rx" using um_link_now at(3) by blast
  from um_transfer_step [OF this, of b] b
  obtain tx' rx' evs where st: "um_transfer (?tx, ?rx) b = Inr ((tx', rx'), evs)" "um_link_ok tx' rx'"
      "map (\<lambda>(s, k). DeliverSdu s) (um_pending tx) = evs @ map (\<lambda>(s, k). DeliverSdu s) (um_pending tx')"
      "um_tx_maxsize tx' = um_tx_maxsize tx" "um_left tx' \<le> um_left tx" "um_sn_field_length tx' = um_sn_field_length tx"
    by (auto simp: um_transfer_ok_def)
  obtain ss where ss: "evs = map DeliverSdu ss" "map fst (um_pending tx) = ss @ map fst (um_pending tx')"
    using deliver_events [OF st(3)] by blast
  obtain n out where g: "nr_rlc_entity_um_generate_pdu ?tx b = Inr (tx', n, out)"
    and rcv: "if n = 0 then rx' = ?rx \<and> evs = [] else nr_rlc_entity_um_recv_pdu ?rx (take (nat n) out) = Inr (rx', evs)"
    using st(1) by (auto simp: res_simps split: if_splits)
  obtain A' where A': "mac_rlc_data_req ntA A ?r (d + 3) b = Inr ((A', []), n, out)" "rb_at A' ?r ua ?p (UmEntity tx')"
    using um_mac_req [OF at(1) t d g] by blast
  have t': "um_t_reassembly_start tx' = 0" using um_generate_timer [OF g] t by simp
  have "\<exists>B'. rlc_link_step ntA ntB ctxt d (A, B) (LinkGrant b) = Inr ((A', B'), rlc_outs ntB B ?r d ss) \<and>
      um_linked ntB ?r d A' B' tx' \<and> mg_enb_flag (rl_manager B') = mg_enb_flag (rl_manager B)"
  proof (cases "n = 0")
    case True
    then have "um_link_ok tx' rx"
      using rcv st(2) um_link_now(2) [of tx' ?rx "um_t_current rx"] by simp
    then show ?thesis
      using True rcv ss(1) A' at(2) t' nd by (auto simp: um_linked_def)
  next
    case False
    obtain B' where B': "mac_rlc_data_ind ntB B 0 ?r 0 False (d + 3) (take (nat n) out) = Inr (B', rlc_outs ntB B ?r d ss)"
        "rb_at B' ?r ub ?p (UmEntity rx')" "mg_enb_flag (rl_manager B') = mg_enb_flag (rl_manager B)"
      using um_mac_ind [OF at(2) um_link_rx_timer [OF at(3)] d nd, of "take (nat n) out" rx' ss] rcv False ss(1) by auto
    then show ?thesis
      using False A' t' st(2) nd by (auto simp: um_linked_def rlc_node_ok_def)
  qed
  then show ?thesis using st(4-6) ss(2) unfolding um_link_step_ok_def by auto
qed

lemma link_op_step:
  assumes "um_linked ntB (cx_rnti ctxt) d A B tx" "1 \<le> d" "d \<le> 5" "rlc_link_op_ok (um_sn_field_length tx) x"
    and "int (um_left tx) + int (sum_list (map length (link_sdu x))) \<le> um_tx_maxsize tx"
  shows "um_link_step_ok ntA ntB ctxt d A B tx x"
proof (cases x)
  case (LinkTickA f sf)
  have "um_linked ntB (cx_rnti ctxt) d (nr_rlc_tick A f sf) B tx" using assms(1) by (simp add: um_linked_def rb_at_tick)
  then show ?thesis using LinkTickA unfolding um_link_step_ok_def by auto
next
  case (LinkTickB f sf)
  have "um_linked ntB (cx_rnti ctxt) d A (nr_rlc_tick B f sf) tx"
    using assms(1) by (simp add: um_linked_def rb_at_tick rlc_node_ok_def)
  then show ?thesis using LinkTickB unfolding um_link_step_ok_def by (auto simp: rb_at_tick)
qed (use assms link_step_sdu link_step_grant in auto)

lemma link_run:
  assumes "um_linked ntB (cx_rnti ctxt) d A B tx" "1 \<le> d" "d \<le> 5" "\<forall>x\<in>set ops. rlc_link_op_ok (um_sn_field_length tx) x"
    and "int (um_left tx) + int (sum_list (map length (link_sdus ops))) \<le> um_tx_maxsize tx"
  shows "\<exists>A' B' tx' ss. run_ops (rlc_link_step ntA ntB ctxt d) (A, B) ops =
       Inr ((A', B'), rlc_outs ntB B (cx_rnti ctxt) d ss) \<and>
     um_linked ntB (cx_rnti ctxt) d A' B' tx' \<and> um_sn_field_length tx' = um_sn_field_length tx \<and>
     map fst (um_pending tx) @ link_sdus ops = ss @ map fst (um_pending tx')"
  using assms
proof (induction ops arbitrary: A B tx)
  case Nil
  then show ?case by (auto simp: link_sdus_def)
next
  case (Cons x ops)
  have "um_link_step_ok ntA ntB ctxt d A B tx x"
    by (rule link_op_step [OF Cons.prems(1-3)]) (use Cons.prems(4,5) in \<open>auto simp: link_sdus_def\<close>)
  then obtain A1 B1 tx1 s1 where 1: "rlc_link_step ntA ntB ctxt d (A, B) x = Inr ((A1, B1), rlc_outs ntB B (cx_rnti ctxt) d s1)"
      "um_linked ntB (cx_rnti ctxt) d A1 B1 tx1" "mg_enb_flag (rl_manager B1) = mg_enb_flag (rl_manager B)"
      "map fst (um_pending tx) @ link_sdu x = s1 @ map fst (um_pending tx1)"
      "um_left tx1 \<le> um_left tx + sum_list (map length (link_sdu x))" "um_tx_maxsize tx1 = um_tx_maxsize tx"
      "um_sn_field_length tx1 = um_sn_field_length tx"
    unfolding um_link_step_ok_def by blast
  obtain A2 B2 tx2 s2 where 2: "run_ops (rlc_link_step ntA ntB ctxt d) (A1, B1) ops =
       Inr ((A2, B2), rlc_outs ntB B1 (cx_rnti ctxt) d s2)" "um_linked ntB (cx_rnti ctxt) d A2 B2 tx2"
      "map fst (um_pending tx1) @ link_sdus ops = s2 @ map fst (um_pending tx2)" "um_sn_field_length tx2 = um_sn_field_length tx"
    using Cons.IH [OF 1(2) Cons.prems(2,3)] Cons.prems(4,5) 1(5-7) by (auto simp: link_sdus_def)
  have "map fst (um_pending tx) @ link_sdus (x # ops) = (s1 @ s2) @ map fst (um_pending tx2)"
    using 1(4) 2(3) by (simp add: link_sdus_def) (metis append.assoc)
  then show ?case using 1(1,3) 2(1,2,4) by (intro exI [of _ A2] exI [of _ B2] exI [of _ tx2] exI [of _ "s1 @ s2"]) simp
qed

text \<open>The grant that is left out.\<close>

lemma link_grant_of_two:
  assumes "um_linked ntB (cx_rnti ctxt) d A B tx" "1 \<le> d" "d \<le> 5" "um_sn_field_length tx = 12"
    and "um_pending tx = (s, 0) # q" "2 \<le> length s"
  shows "\<exists>A' ua tx'. rlc_link_step ntA ntB ctxt d (A, B) (LinkGrant [x, y]) = Inr ((A', B), []) \<and>
     rb_at A' (cx_rnti ctxt) ua (DrbAt (nat (d - 1))) (UmEntity tx') \<and> um_pending tx' = q"
proof -
  let ?tx = "tx\<lparr>um_t_current := rl_time A\<rparr>"
  obtain ua ub rx where at: "rb_at A (cx_rnti ctxt) ua (DrbAt (nat (d - 1))) (UmEntity tx)" "um_link_ok tx rx"
    and t: "um_t_reassembly_start tx = 0"
    using assms(1) by (auto simp: um_linked_def)
  have "um_tx_ok ?tx" using um_link_now(1) [OF at(2)] by (auto simp: um_link_ok_def)
  then obtain tx' where g: "nr_rlc_entity_um_generate_pdu ?tx [x, y] = Inr (tx', 0, [x, y])" "um_pending tx' = q"
    using um_grant_of_two [of ?tx s q x y] assms(4-6) by (auto simp: um_pending_def)
  obtain A' where "mac_rlc_data_req ntA A (cx_rnti ctxt) (d + 3) [x, y] = Inr ((A', []), 0, [x, y])"
      "rb_at A' (cx_rnti ctxt) ua (DrbAt (nat (d - 1))) (UmEntity tx')"
    using um_mac_req [OF at(1) t assms(2,3) g(1)] by blast
  then show ?thesis using g(2) by auto
qed

subsection \<open>From configuration to delivery\<close>

text \<open>The configuration of one UM bearer that the UE does not have yet.\<close>

lemma config_one_drb:
  assumes "nr_rrc_rlc_config_asn1_req L ctxt None (Some [d]) False (Some [c]) = Inr L'"
    and "bc_servedRadioBearer c = Some (ServedDrb d)"
  shows "rlc_add_drb (cx_rnti ctxt) d c L = Inr L'"
  using assms by (auto simp: nr_rrc_rlc_config_asn1_req_def drbs_served_def guard_def res_simps split: if_splits)

lemma config_um_bearer:
  assumes "nr_rrc_rlc_config_asn1_req L ctxt None (Some [d]) False (Some [c]) = Inr L'"
    and "bc_servedRadioBearer c = Some (ServedDrb d)" "bc_rlc_Config c = Some (RlcConfigUmBi um)"
    and "mg_inv (rl_manager L)" "rb_slot (old_ue L (cx_rnti ctxt)) (DrbAt (nat (d - 1))) = None"
  shows "\<exists>ui t n e. um_config c = Inr (t, n) \<and> new_nr_rlc_entity_um 100000000 100000000 t (nat n) = Inr e \<and>
     rb_at L' (cx_rnti ctxt) ui (DrbAt (nat (d - 1))) (UmEntity e) \<and> 1 \<le> d \<and> d \<le> 5 \<and>
     mg_enb_flag (rl_manager L') = mg_enb_flag (rl_manager L)"
proof -
  note c = rlc_add_drb_cases [OF config_one_drb [OF assms(1,2)]]
  then obtain ne t n where ne: "rl_add nr_rlc_ue_add_drb_rlc_entity DrbAt L (cx_rnti ctxt) d ne = Inr L'"
      "um_config c = Inr (t, n)" "1 \<le> d" "d \<le> 5"
      "ne = bnd (new_nr_rlc_entity_um 100000000 100000000 t (nat n)) (\<lambda>e. Inr (UmEntity e))"
    using assms(3) by blast
  obtain ui e where e: "rb_at L' (cx_rnti ctxt) ui (DrbAt (nat (d - 1))) e" "ne = Inr e"
      "mg_enb_flag (rl_manager L') = mg_enb_flag (rl_manager L)"
    using rl_add_drb [OF assms(4) ne(1,3,4)] assms(5) by blast
  then show ?thesis using ne by (auto simp: res_simps)
qed

text \<open>
  C2: the RLC layers of two nodes that got the same configuration of a UM bearer.  Whatever SDUs of 1 to NR_SDU_MAX bytes, in total
  no more than the transmit buffer of 100000000 bytes, PDCP hands over, whatever grants MAC gives, other than grants of 2 bytes if the
  SN has 12 bits, and however the clocks of the two nodes tick in between, no call faults, and the messages that leave the
  second node, followed by the SDUs still queued at the first, are the SDUs that were handed over, each once, in order and byte
  for byte.  In every state so reached, a grant of 2 bytes with an SN of 12 bits loses an SDU of two bytes or more at the head of
  the queue of which nothing has been sent.
\<close>

theorem um_bearer_end_to_end:
  assumes "nr_rrc_rlc_config_asn1_req LA ctxt None (Some [d]) False (Some [c]) = Inr A"
    and "nr_rrc_rlc_config_asn1_req LB ctxt' None (Some [d]) False (Some [c]) = Inr B" "cx_rnti ctxt' = cx_rnti ctxt"
    and "bc_servedRadioBearer c = Some (ServedDrb d)" "bc_rlc_Config c = Some (RlcConfigUmBi um)"
    and "mg_inv (rl_manager LA)" "rb_slot (old_ue LA (cx_rnti ctxt)) (DrbAt (nat (d - 1))) = None"
    and "mg_inv (rl_manager LB)" "rb_slot (old_ue LB (cx_rnti ctxt)) (DrbAt (nat (d - 1))) = None"
    and "rlc_node_ok ntB LB" "um_config c = Inr (t, n)" "\<forall>x\<in>set ops. rlc_link_op_ok (nat n) x"
    and "sum_list (map length (link_sdus ops)) \<le> 100000000"
  shows "\<exists>A' B' out ua tx. run_ops (rlc_link_step ntA ntB ctxt d) (A, B) ops = Inr ((A', B'), out) \<and>
     rb_at A' (cx_rnti ctxt) ua (DrbAt (nat (d - 1))) (UmEntity tx) \<and>
     out @ map (rlc_up ntB (mg_enb_flag (rl_manager LB) \<noteq> 0) (cx_rnti ctxt) d) (map fst (um_pending tx)) =
       map (rlc_up ntB (mg_enb_flag (rl_manager LB) \<noteq> 0) (cx_rnti ctxt) d) (link_sdus ops) \<and>
     (\<forall>s q x y. n = 12 \<and> um_pending tx = (s, 0) # q \<and> 2 \<le> length s \<longrightarrow>
        (\<exists>A'' ua' tx'. rlc_link_step ntA ntB ctxt d (A', B') (LinkGrant [x, y]) = Inr ((A'', B'), []) \<and>
           rb_at A'' (cx_rnti ctxt) ua' (DrbAt (nat (d - 1))) (UmEntity tx') \<and> um_pending tx' = q))"
proof -
  obtain ua tx where a: "new_nr_rlc_entity_um 100000000 100000000 t (nat n) = Inr tx"
      "rb_at A (cx_rnti ctxt) ua (DrbAt (nat (d - 1))) (UmEntity tx)" "1 \<le> d" "d \<le> 5"
    using config_um_bearer [OF assms(1,4-7)] assms(11) by auto
  obtain ub rx where b: "new_nr_rlc_entity_um 100000000 100000000 t (nat n) = Inr rx"
      "rb_at B (cx_rnti ctxt) ub (DrbAt (nat (d - 1))) (UmEntity rx)"
      "mg_enb_flag (rl_manager B) = mg_enb_flag (rl_manager LB)"
    using config_um_bearer [OF assms(2,4,5,8)] assms(3,9,11) by auto
  note new = um_new_link_ok [OF a(1) b(1)]
  have "um_t_reassembly_start tx = 0" using a(1) by (auto simp: new_nr_rlc_entity_um_def split: if_splits)
  then have lk: "um_linked ntB (cx_rnti ctxt) d A B tx"
    using a(2) b(2,3) new(1) assms(10) by (auto simp: um_linked_def rlc_node_ok_def NR_SDU_MAX_def)
  have p: "um_pending tx = []" "um_left tx = 0" "um_tx_maxsize tx = 100000000" "um_sn_field_length tx = nat n"
    using new(2-4) by (simp_all add: um_left_def NR_SDU_MAX_def)
  obtain A' B' tx' ss where r: "run_ops (rlc_link_step ntA ntB ctxt d) (A, B) ops =
       Inr ((A', B'), rlc_outs ntB B (cx_rnti ctxt) d ss)" "um_linked ntB (cx_rnti ctxt) d A' B' tx'"
      "link_sdus ops = ss @ map fst (um_pending tx')" "um_sn_field_length tx' = nat n"
    using link_run [OF lk a(3,4), of ops ntA] assms(12,13) p by auto
  have "\<exists>A'' ua' tx''. rlc_link_step ntA ntB ctxt d (A', B') (LinkGrant [x, y]) = Inr ((A'', B'), []) \<and>
           rb_at A'' (cx_rnti ctxt) ua' (DrbAt (nat (d - 1))) (UmEntity tx'') \<and> um_pending tx'' = q"
    if "n = 12" "um_pending tx' = (s, 0) # q" "2 \<le> length s" for s q x y
    using link_grant_of_two [OF r(2) a(3,4) _ that(2,3)] r(4) that(1) by simp
  moreover obtain ua' where "rb_at A' (cx_rnti ctxt) ua' (DrbAt (nat (d - 1))) (UmEntity tx')" using r(2) by (auto simp: um_linked_def)
  ultimately show ?thesis
    using r(1,3) b(3) by (intro exI [of _ A'] exI [of _ B'] exI [of _ "rlc_outs ntB B (cx_rnti ctxt) d ss"] exI [of _ ua'] exI [of _ tx']) simp
qed

theorem um_bearer_end_to_end_witness:
  "\<exists>L A' B' out ua tx.
     nr_rrc_rlc_config_asn1_req (initial_rlc_layer 0) (rlc_ctxt 7) None (Some [1]) False
       (Some [preconfigured_rlc_bearer]) = Inr L \<and>
     run_ops (rlc_link_step None None (rlc_ctxt 7) 1) (L, L)
       [LinkSdu [1, 2, 3, 4] 0, LinkGrant [0, 0, 0, 0], LinkTickB 1 0, LinkGrant [0, 0, 0, 0, 0]] =
       Inr ((A', B'), out) \<and>
     rb_at A' 7 ua (DrbAt 0) (UmEntity tx) \<and>
     out @ map (rlc_up None False 7 1) (map fst (um_pending tx)) = [rlc_up None False 7 1 [1, 2, 3, 4]]"
proof -
  obtain L where L: "rlc_add_drb 7 1 preconfigured_rlc_bearer (initial_rlc_layer 0) = Inr L"
    using preconfigured_new by blast
  have cf: "nr_rrc_rlc_config_asn1_req (initial_rlc_layer 0) (rlc_ctxt 7) None (Some [1]) False
      (Some [preconfigured_rlc_bearer]) = Inr L"
    using L by (simp add: nr_rrc_rlc_config_asn1_req_def drbs_served_def guard_def rlc_ctxt_def
        preconfigured_rlc_bearer_def nr_rlc_bearer_init_def)
  have old: "old_ue (initial_rlc_layer 0) 7 = empty_ue 7"
    by (simp add: old_ue_def initial_rlc_layer_def new_nr_rlc_ue_manager_def new_ue_manager_def mg_view_def)
  let ?ops = "[LinkSdu [1, 2, 3, 4] 0, LinkGrant [0, 0, 0, 0], LinkTickB 1 0, LinkGrant [0, 0, 0, 0, 0]]"
  have slot: "rb_slot (old_ue (initial_rlc_layer 0) (cx_rnti (rlc_ctxt 7))) (DrbAt (nat (1 - 1))) = None"
    by (simp add: old rlc_ctxt_def empty_ue_def)
  have node: "rlc_node_ok None (initial_rlc_layer 0)" and enb: "mg_enb_flag (rl_manager (initial_rlc_layer 0)) = 0"
    by (simp_all add: rlc_node_ok_def initial_rlc_layer_def new_nr_rlc_ue_manager_def new_ue_manager_def)
  have cfg: "um_config preconfigured_rlc_bearer = Inr (15, 12)"
    by (simp add: preconfigured_rlc_bearer_def nr_rlc_bearer_init_def um_config_def guard_def deref_def
        decode_t_reassembly_def decode_sn_field_length_um_def decode_table_def)
  obtain um where um: "bc_servedRadioBearer preconfigured_rlc_bearer = Some (ServedDrb 1)"
      "bc_rlc_Config preconfigured_rlc_bearer = Some (RlcConfigUmBi um)"
    by (simp add: preconfigured_rlc_bearer_def nr_rlc_bearer_init_def)
  have ops: "\<forall>x\<in>set ?ops. rlc_link_op_ok (nat 12) x" "sum_list (map length (link_sdus ?ops)) \<le> 100000000"
      "link_sdus ?ops = [[1, 2, 3, 4]]"
    by (simp_all add: link_sdus_def NR_SDU_MAX_def)
  have rn: "cx_rnti (rlc_ctxt 7) = 7" by (simp add: rlc_ctxt_def)
  obtain A' B' out ua tx where "run_ops (rlc_link_step None None (rlc_ctxt 7) 1) (L, L) ?ops = Inr ((A', B'), out)"
      "rb_at A' (cx_rnti (rlc_ctxt 7)) ua (DrbAt (nat (1 - 1))) (UmEntity tx)"
      "out @ map (rlc_up None (mg_enb_flag (rl_manager (initial_rlc_layer 0)) \<noteq> 0) (cx_rnti (rlc_ctxt 7)) 1) (map fst (um_pending tx)) =
        map (rlc_up None (mg_enb_flag (rl_manager (initial_rlc_layer 0)) \<noteq> 0) (cx_rnti (rlc_ctxt 7)) 1) (link_sdus ?ops)"
    using um_bearer_end_to_end [OF cf cf refl um module_init_inv slot module_init_inv slot node cfg ops(1,2), where ntA = None]
    by (elim exE conjE) (rule that)
  then show ?thesis
    using cf unfolding enb rn ops(3)
    by (intro exI [of _ L] exI [of _ A'] exI [of _ B'] exI [of _ out] exI [of _ ua] exI [of _ tx])
      (simp del: run_ops.simps)
qed

end
