(* ===== verification/Pdcp_Sdu.thy ===== *)
theory Pdcp_Sdu
  imports Prelude
begin

text \<open>
  The received-SDU list of a PDCP entity: \<open>nr_pdcp_sdu.c\<close>.  The list is ordered by the
  32-bit COUNT; the \<open>next\<close> pointers are the structure of the HOL list.  Allocation is taken to
  succeed (the code calls \<open>exit(1)\<close> when it does not).
\<close>

record nr_pdcp_sdu =
  ps_count :: u32
  ps_buffer :: bytes
  ps_size :: int

definition nr_pdcp_new_sdu :: "u32 \<Rightarrow> bytes \<Rightarrow> int \<Rightarrow> nr_pdcp_sdu res" where
  "nr_pdcp_new_sdu cnt buffer sz =
     bnd (read_at buffer 0 sz) (\<lambda>b. Inr \<lparr>ps_count = cnt, ps_buffer = b, ps_size = sz\<rparr>)"

fun nr_pdcp_sdu_list_add :: "nr_pdcp_sdu list \<Rightarrow> nr_pdcp_sdu \<Rightarrow> nr_pdcp_sdu list" where
  "nr_pdcp_sdu_list_add [] sdu = [sdu]"
| "nr_pdcp_sdu_list_add (cur # rest) sdu =
     (if ps_count sdu < ps_count cur then sdu # cur # rest
      else cur # nr_pdcp_sdu_list_add rest sdu)"

fun nr_pdcp_sdu_in_list :: "nr_pdcp_sdu list \<Rightarrow> u32 \<Rightarrow> bool" where
  "nr_pdcp_sdu_in_list [] cnt = False"
| "nr_pdcp_sdu_in_list (l # ls) cnt =
     (if ps_count l = cnt then True else nr_pdcp_sdu_in_list ls cnt)"

subsection \<open>Order and contents\<close>

interpretation pdcp_list: ordered_insertion nr_pdcp_sdu_list_add ps_count "\<lambda>_. True"
  by unfold_locales auto

lemmas pdcp_list_add_facts =
  pdcp_list.set_add [simplified] pdcp_list.mset_add [simplified] pdcp_list.length_add [simplified]

lemma nr_pdcp_sdu_in_list_iff: "nr_pdcp_sdu_in_list l c \<longleftrightarrow> c \<in> ps_count ` set l"
  by (induction l) auto

lemma nr_pdcp_new_sdu_ok:
  "0 \<le> sz \<Longrightarrow> sz \<le> int (length b) \<Longrightarrow>
   nr_pdcp_new_sdu c b sz = Inr \<lparr>ps_count = c, ps_buffer = take (nat sz) b, ps_size = sz\<rparr>"
  by (simp add: nr_pdcp_new_sdu_def read_at_def)

lemma pdcp_list_add_strict:
  "sorted_wrt (<) (map ps_count l) \<Longrightarrow> \<not> nr_pdcp_sdu_in_list l (ps_count s) \<Longrightarrow>
   sorted_wrt (<) (map ps_count (nr_pdcp_sdu_list_add l s))"
  by (rule pdcp_list.strict_sorted_add) (auto simp: nr_pdcp_sdu_in_list_iff image_iff)

text \<open>
  Looking a COUNT up after an insertion: the duplicate check of the receiver sees exactly the
  inserted COUNT in addition to the ones already stored.
\<close>

lemma nr_pdcp_sdu_in_list_add:
  "nr_pdcp_sdu_in_list (nr_pdcp_sdu_list_add l s) c \<longleftrightarrow>
   c = ps_count s \<or> nr_pdcp_sdu_in_list l c"
  by (auto simp: nr_pdcp_sdu_in_list_iff pdcp_list_add_facts)

end
