(* ===== verification/Pdcp_Security.thy ===== *)
theory Pdcp_Security
  imports Prelude
begin

text \<open>
  The two security algorithms of PDCP: \<open>nr_pdcp_security_nea2.c\<close> and
  \<open>nr_pdcp_integrity_nia2.c\<close>.  AES in counter mode comes from the nettle library and AES-CMAC
  from OpenSSL; both are parameters, the fields of the record \<open>crypto\<close>.  A security context is
  the 16-byte key it was initialised with.
\<close>

record crypto =
  nettle_ctr_crypt :: "bytes \<Rightarrow> bytes \<Rightarrow> bytes \<Rightarrow> bytes"   \<comment> \<open>key, initial counter block, data\<close>
  aes_cmac :: "bytes \<Rightarrow> bytes \<Rightarrow> bytes"                   \<comment> \<open>key, message\<close>

definition compute_t :: "u32 \<Rightarrow> int \<Rightarrow> int \<Rightarrow> bytes" where
  "compute_t cnt bearer direction =
     [ucast (drop_bit 24 cnt), ucast (drop_bit 16 cnt), ucast (drop_bit 8 cnt), ucast cnt,
      byte_of_int (push_bit 3 (bearer - 1) OR push_bit 2 direction), 0, 0, 0]"

definition nr_pdcp_integrity_nia2_init :: "bytes \<Rightarrow> bytes" where
  "nr_pdcp_integrity_nia2_init integrity_key = take 16 integrity_key"

definition nr_pdcp_integrity_nia2_integrity ::
    "crypto \<Rightarrow> bytes \<Rightarrow> bytes \<Rightarrow> int \<Rightarrow> u32 \<Rightarrow> int \<Rightarrow> bytes" where
  "nr_pdcp_integrity_nia2_integrity P ctx buffer bearer cnt direction =
     take 4 (aes_cmac P ctx (compute_t cnt bearer direction @ buffer))"

definition nr_pdcp_security_nea2_init :: "bytes \<Rightarrow> bytes" where
  "nr_pdcp_security_nea2_init ciphering_key = take 16 ciphering_key"

definition nr_pdcp_security_nea2_cipher ::
    "crypto \<Rightarrow> bytes \<Rightarrow> bytes \<Rightarrow> int \<Rightarrow> u32 \<Rightarrow> int \<Rightarrow> bytes" where
  "nr_pdcp_security_nea2_cipher P ctx buffer bearer cnt direction =
     (let t = [ucast (drop_bit 24 cnt), ucast (drop_bit 16 cnt), ucast (drop_bit 8 cnt),
               ucast cnt, byte_of_int (push_bit 3 (bearer - 1) OR push_bit 2 direction)]
              @ replicate 11 0
      in nettle_ctr_crypt P ctx t buffer)"

subsection \<open>What the cryptographic libraries promise\<close>

text \<open>
  Counter mode XORs the data with a key stream that depends on the key, the counter block and
  the length only: deciphering is ciphering again, and the length is kept.  CMAC outputs
  16 bytes.
\<close>

definition ctr_mode :: "crypto \<Rightarrow> bool" where
  "ctr_mode P \<longleftrightarrow>
     (\<forall>k t b. length (nettle_ctr_crypt P k t b) = length b) \<and>
     (\<forall>k t b. nettle_ctr_crypt P k t (nettle_ctr_crypt P k t b) = b)"

definition cmac_output :: "crypto \<Rightarrow> bool" where
  "cmac_output P \<longleftrightarrow> (\<forall>k m. length (aes_cmac P k m) = 16)"

text \<open>A concrete instance of the parameters: a one-byte key stream and a constant tag.\<close>

definition toy_crypto :: crypto where
  "toy_crypto = \<lparr>nettle_ctr_crypt = (\<lambda>k t b. map (\<lambda>x. x XOR 0x5A) b),
                 aes_cmac = (\<lambda>k m. replicate 16 7)\<rparr>"

lemma toy_crypto_ctr_mode: "ctr_mode toy_crypto"
  by (simp add: ctr_mode_def toy_crypto_def o_def xor.assoc)

lemma toy_crypto_cmac_output: "cmac_output toy_crypto"
  by (simp add: cmac_output_def toy_crypto_def)

text \<open>
  The interface PDCP uses: a cipher that is its own inverse and keeps lengths, and a MAC-I of
  four bytes.
\<close>

locale pdcp_security =
  fixes cipher :: "bytes \<Rightarrow> bytes \<Rightarrow> int \<Rightarrow> u32 \<Rightarrow> int \<Rightarrow> bytes"
    and integrity :: "bytes \<Rightarrow> bytes \<Rightarrow> int \<Rightarrow> u32 \<Rightarrow> int \<Rightarrow> bytes"
    and assumed :: bool
  assumes cipher_length: "assumed \<Longrightarrow> length (cipher k b be c d) = length b"
    and cipher_cipher: "assumed \<Longrightarrow> cipher k (cipher k b be c d) be c d = b"
    and integrity_length: "assumed \<Longrightarrow> length (integrity k m be c d) = 4"
begin

lemma protect_unprotect:
  assumes assumed
  shows "cipher k (cipher k (m @ integrity k h be c d) be c d) be c d
         = m @ integrity k h be c d"
    and "length (cipher k (m @ integrity k h be c d) be c d) = length m + 4"
  using assms by (simp_all add: cipher_cipher cipher_length integrity_length)

end

interpretation nea2_nia2: pdcp_security
  "nr_pdcp_security_nea2_cipher P" "nr_pdcp_integrity_nia2_integrity P"
  "ctr_mode P \<and> cmac_output P" for P
  by unfold_locales
    (auto simp: nr_pdcp_security_nea2_cipher_def nr_pdcp_integrity_nia2_integrity_def
      ctr_mode_def cmac_output_def Let_def)

lemma compute_t_length: "length (compute_t c be d) = 8"
  by (simp add: compute_t_def)

end
