(* ===== verification/Pdcp_Entity.thy ===== *)
theory Pdcp_Entity
  imports Pdcp_Sdu Pdcp_Security
begin

text \<open>
  The PDCP entity of a radio bearer: \<open>nr_pdcp_entity.c\<close>.  The record has the fields of
  \<open>nr_pdcp_entity_t\<close>; the callbacks \<open>deliver_sdu\<close> and \<open>deliver_pdu\<close> and the log line of a
  failed integrity check are the events an operation emits, in order.  COUNT values
  are 32-bit words, the clock is a 64-bit word, \<open>t_reordering_start\<close> is a C \<open>int\<close>, and the
  remaining integers (sizes, SN values below $2^{18}$) stay far from the bounds of \<open>int\<close>.
  The function pointers \<open>cipher\<close> and \<open>integrity\<close> only ever point to NEA2 and NIA2;
  \<open>free_security\<close> and \<open>free_integrity\<close> keep whether the pointer is set.
\<close>

datatype nr_pdcp_entity_type = NR_PDCP_DRB_AM | NR_PDCP_DRB_UM | NR_PDCP_SRB

record nr_pdcp_entity =
  pe_type :: nr_pdcp_entity_type
  pe_rb_id :: int
  pe_pdusession_id :: int
  pe_has_sdap :: bool
  pe_has_sdapULheader :: bool
  pe_has_sdapDLheader :: bool
  pe_sn_size :: nat
  pe_t_reordering :: int
  pe_discard_timer :: int
  pe_sn_max :: int
  pe_window_size :: int
  pe_tx_next :: u32
  pe_rx_next :: u32
  pe_rx_deliv :: u32
  pe_rx_reord :: u32
  pe_t_current :: u64
  pe_t_reordering_start :: int
  pe_has_ciphering :: bool
  pe_has_integrity :: bool
  pe_ciphering_algorithm :: int
  pe_integrity_algorithm :: int
  pe_ciphering_key :: bytes
  pe_integrity_key :: bytes
  pe_security_context :: bytes
  pe_free_security :: bool
  pe_integrity_context :: bytes
  pe_free_integrity :: bool
  pe_is_gnb :: bool
  pe_rx_list :: "nr_pdcp_sdu list"
  pe_rx_size :: int
  pe_rx_maxsize :: int

text \<open>The callback \<open>deliver_sdu\<close> gets the buffer and the size of the SDU; the event keeps the
  whole SDU, so that its COUNT can be named in the properties.\<close>

datatype pdcp_event =
    DeliverSdu nr_pdcp_sdu
  | DeliverPdu bytes int
  | IntegrityFailed

subsection \<open>Header and COUNT\<close>

definition pdcp_header_size :: "nr_pdcp_entity \<Rightarrow> int" where
  "pdcp_header_size e = (if pe_sn_size e = 12 then 2 else 3)"

definition pdcp_integrity_size :: "nr_pdcp_entity \<Rightarrow> int" where
  "pdcp_integrity_size e = (if pe_has_integrity e \<or> pe_type e = NR_PDCP_SRB then 4 else 0)"

definition pdcp_fix_dc_bit :: "nr_pdcp_entity \<Rightarrow> bytes \<Rightarrow> bytes" where
  "pdcp_fix_dc_bit e buffer =
     (if pe_type e \<noteq> NR_PDCP_SRB \<and> buffer ! 0 AND 0x80 = 0
      then buffer[0 := buffer ! 0 OR 128] else buffer)"

definition pdcp_rcvd_sn :: "nr_pdcp_entity \<Rightarrow> bytes \<Rightarrow> int res" where
  "pdcp_rcvd_sn e buffer =
     (if pe_sn_size e = 12
      then bnd (guard (2 \<le> length buffer) OutOfBounds) (\<lambda>_.
             Inr (push_bit 8 (uint (buffer ! 0 AND 0xf)) OR uint (buffer ! 1)))
      else bnd (guard (3 \<le> length buffer) OutOfBounds) (\<lambda>_.
             Inr (push_bit 16 (uint (buffer ! 0 AND 0x3)) OR push_bit 8 (uint (buffer ! 1))
                  OR uint (buffer ! 2))))"

definition pdcp_rcvd_count :: "nr_pdcp_entity \<Rightarrow> int \<Rightarrow> u32" where
  "pdcp_rcvd_count e rcvd_sn =
     (let rx_deliv_sn = uint (pe_rx_deliv e AND word_of_int (pe_sn_max e));
          rx_deliv_hfn = drop_bit (pe_sn_size e) (pe_rx_deliv e);
          rcvd_hfn = (if rcvd_sn < rx_deliv_sn - pe_window_size e then rx_deliv_hfn + 1
                      else if rcvd_sn \<ge> rx_deliv_sn + pe_window_size e then rx_deliv_hfn - 1
                      else rx_deliv_hfn)
      in push_bit (pe_sn_size e) rcvd_hfn OR word_of_int rcvd_sn)"

subsection \<open>Reception\<close>

definition pdcp_decipher :: "crypto \<Rightarrow> nr_pdcp_entity \<Rightarrow> u32 \<Rightarrow> bytes \<Rightarrow> bytes" where
  "pdcp_decipher P e rcvd_count buffer =
     (let hs = nat (pdcp_header_size e) in
      if pe_has_ciphering e
      then take hs buffer @
           nr_pdcp_security_nea2_cipher P (pe_security_context e) (drop hs buffer)
             (pe_rb_id e) rcvd_count (if pe_is_gnb e then 0 else 1)
      else buffer)"

definition pdcp_check_integrity :: "crypto \<Rightarrow> nr_pdcp_entity \<Rightarrow> u32 \<Rightarrow> bytes \<Rightarrow> pdcp_event list" where
  "pdcp_check_integrity P e rcvd_count buffer =
     (let n = length buffer - nat (pdcp_integrity_size e) in
      if pe_has_integrity e \<and>
         nr_pdcp_integrity_nia2_integrity P (pe_integrity_context e) (take n buffer)
           (pe_rb_id e) rcvd_count (if pe_is_gnb e then 0 else 1) \<noteq> take 4 (drop n buffer)
      then [IntegrityFailed] else [])"

text \<open>The loop \<open>while (rx_list != NULL && count == rx_list->count)\<close>: the SDUs it delivers,
  the list it leaves and the final \<open>count\<close>.\<close>

fun pdcp_deliver_seq :: "nr_pdcp_sdu list \<Rightarrow> u32 \<Rightarrow> nr_pdcp_sdu list \<times> nr_pdcp_sdu list \<times> u32" where
  "pdcp_deliver_seq [] cnt = ([], [], cnt)"
| "pdcp_deliver_seq (cur # rest) cnt =
     (if cnt = ps_count cur
      then (case pdcp_deliver_seq rest (cnt + 1) of (d, l, c) \<Rightarrow> (cur # d, l, c))
      else ([], cur # rest, cnt))"

definition pdcp_deliver_from :: "nr_pdcp_entity \<Rightarrow> u32 \<Rightarrow> nr_pdcp_entity \<times> nr_pdcp_sdu list" where
  "pdcp_deliver_from e cnt =
     (case pdcp_deliver_seq (pe_rx_list e) cnt of (d, l, c) \<Rightarrow>
        (e\<lparr>pe_rx_list := l, pe_rx_size := pe_rx_size e - sum_list (map ps_size d),
           pe_rx_deliv := c\<rparr>, d))"

definition pdcp_rx_insert :: "nr_pdcp_entity \<Rightarrow> nr_pdcp_sdu \<Rightarrow> int \<Rightarrow> nr_pdcp_entity" where
  "pdcp_rx_insert e sdu added =
     (let e1 = e\<lparr>pe_rx_list := nr_pdcp_sdu_list_add (pe_rx_list e) sdu,
                  pe_rx_size := pe_rx_size e + added\<rparr>
      in if ps_count sdu \<ge> pe_rx_next e1 then e1\<lparr>pe_rx_next := ps_count sdu + 1\<rparr> else e1)"

definition pdcp_rx_deliver :: "nr_pdcp_entity \<Rightarrow> u32 \<Rightarrow> nr_pdcp_entity \<times> nr_pdcp_sdu list" where
  "pdcp_rx_deliver e rcvd_count =
     (if rcvd_count = pe_rx_deliv e then pdcp_deliver_from e (pe_rx_deliv e) else (e, []))"

definition pdcp_reordering_start :: "nr_pdcp_entity \<Rightarrow> nr_pdcp_entity" where
  "pdcp_reordering_start e =
     (if pe_t_reordering_start e = 0 \<and> pe_rx_deliv e < pe_rx_next e
      then e\<lparr>pe_rx_reord := pe_rx_next e,
              pe_t_reordering_start := int_of_u64 (pe_t_current e)\<rparr>
      else e)"

definition pdcp_rx_timer :: "nr_pdcp_entity \<Rightarrow> nr_pdcp_entity" where
  "pdcp_rx_timer e =
     (let e1 = (if pe_t_reordering_start e \<noteq> 0 \<and> pe_rx_deliv e \<ge> pe_rx_reord e
                then e\<lparr>pe_t_reordering_start := 0\<rparr> else e)
      in pdcp_reordering_start e1)"

definition nr_pdcp_entity_recv_pdu ::
    "crypto \<Rightarrow> nr_pdcp_entity \<Rightarrow> bytes \<Rightarrow> (nr_pdcp_entity \<times> pdcp_event list) res" where
  "nr_pdcp_entity_recv_pdu P e buffer0 =
     (let sz = int (length buffer0) in
      if sz < 1 then Inr (e, [])
      else
        let buffer1 = pdcp_fix_dc_bit e buffer0 in
        bnd (pdcp_rcvd_sn e buffer1) (\<lambda>rcvd_sn.
          if sz < pdcp_header_size e + pdcp_integrity_size e + 1 then Inr (e, [])
          else
            let rcvd_count = pdcp_rcvd_count e rcvd_sn;
                buffer = pdcp_decipher P e rcvd_count buffer1;
                ev = pdcp_check_integrity P e rcvd_count buffer
            in
            if rcvd_count < pe_rx_deliv e \<or> nr_pdcp_sdu_in_list (pe_rx_list e) rcvd_count
            then Inr (e, ev)
            else
              bnd (nr_pdcp_new_sdu rcvd_count (drop (nat (pdcp_header_size e)) buffer)
                     (sz - pdcp_header_size e - pdcp_integrity_size e)) (\<lambda>sdu.
                case pdcp_rx_deliver (pdcp_rx_insert e sdu (sz - pdcp_header_size e)) rcvd_count of
                  (e2, d) \<Rightarrow> Inr (pdcp_rx_timer e2, ev @ map DeliverSdu d))))"

subsection \<open>Transmission\<close>

definition pdcp_tx_header :: "nr_pdcp_entity \<Rightarrow> int \<Rightarrow> bytes" where
  "pdcp_tx_header e sn =
     (let dc_bit = (if pe_type e = NR_PDCP_DRB_AM \<or> pe_type e = NR_PDCP_DRB_UM then 0x80 else 0)
      in if pe_sn_size e = 12
         then [byte_of_int (dc_bit OR (drop_bit 8 sn AND 0xf)), byte_of_int (sn AND 0xff)]
         else [byte_of_int (dc_bit OR (drop_bit 16 sn AND 0x3)),
               byte_of_int (drop_bit 8 sn AND 0xff), byte_of_int (sn AND 0xff)])"

definition nr_pdcp_entity_recv_sdu ::
    "crypto \<Rightarrow> nr_pdcp_entity \<Rightarrow> bytes \<Rightarrow> int \<Rightarrow> nr_pdcp_entity \<times> pdcp_event list" where
  "nr_pdcp_entity_recv_sdu P e buffer sdu_id =
     (let cnt = pe_tx_next e;
          sn = uint (pe_tx_next e AND word_of_int (pe_sn_max e));
          header = pdcp_tx_header e sn;
          direction = (if pe_is_gnb e then 1 else 0);
          maci = (if pe_has_integrity e
                  then nr_pdcp_integrity_nia2_integrity P (pe_integrity_context e)
                         (header @ buffer) (pe_rb_id e) cnt direction
                  else if pdcp_integrity_size e = 4 then replicate 4 0 else []);
          body = (if pe_has_ciphering e
                  then nr_pdcp_security_nea2_cipher P (pe_security_context e) (buffer @ maci)
                         (pe_rb_id e) cnt direction
                  else buffer @ maci)
      in (e\<lparr>pe_tx_next := pe_tx_next e + 1\<rparr>, [DeliverPdu (header @ body) sdu_id]))"

subsection \<open>Security configuration\<close>

definition pdcp_set_integrity :: "int \<Rightarrow> nr_pdcp_entity \<Rightarrow> nr_pdcp_entity res" where
  "pdcp_set_integrity integrity_algorithm e =
     (if integrity_algorithm = 0
      then Inr (e\<lparr>pe_has_integrity := False, pe_free_integrity := False\<rparr>)
      else if integrity_algorithm \<noteq> -1
      then bnd (guard (integrity_algorithm = 2) Exit) (\<lambda>_.
             Inr (e\<lparr>pe_has_integrity := True,
                     pe_integrity_context := nr_pdcp_integrity_nia2_init (pe_integrity_key e),
                     pe_free_integrity := True\<rparr>))
      else Inr e)"

definition pdcp_set_ciphering :: "int \<Rightarrow> nr_pdcp_entity \<Rightarrow> nr_pdcp_entity res" where
  "pdcp_set_ciphering ciphering_algorithm e =
     (if ciphering_algorithm = 0
      then Inr (e\<lparr>pe_has_ciphering := False, pe_free_security := False\<rparr>)
      else if ciphering_algorithm \<noteq> -1
      then bnd (guard (ciphering_algorithm = 2) Exit) (\<lambda>_.
             Inr (e\<lparr>pe_has_ciphering := True,
                     pe_security_context := nr_pdcp_security_nea2_init (pe_ciphering_key e),
                     pe_free_security := True\<rparr>))
      else Inr e)"

definition nr_pdcp_entity_set_security ::
    "nr_pdcp_entity \<Rightarrow> int \<Rightarrow> bytes option \<Rightarrow> int \<Rightarrow> bytes option \<Rightarrow> nr_pdcp_entity res" where
  "nr_pdcp_entity_set_security e integrity_algorithm integrity_key ciphering_algorithm ciphering_key =
     (let e1 = (if integrity_algorithm \<noteq> -1
                then e\<lparr>pe_integrity_algorithm := integrity_algorithm\<rparr> else e);
          e2 = (if ciphering_algorithm \<noteq> -1
                then e1\<lparr>pe_ciphering_algorithm := ciphering_algorithm\<rparr> else e1);
          e3 = (case integrity_key of None \<Rightarrow> e2
                | Some k \<Rightarrow> e2\<lparr>pe_integrity_key := take 16 k\<rparr>);
          e4 = (case ciphering_key of None \<Rightarrow> e3
                | Some k \<Rightarrow> e3\<lparr>pe_ciphering_key := take 16 k\<rparr>)
      in bnd (pdcp_set_integrity integrity_algorithm e4) (pdcp_set_ciphering ciphering_algorithm))"

subsection \<open>Reordering timer\<close>

text \<open>The loop \<open>while (rx_list != NULL && rx_list->count < rx_reord)\<close>.\<close>

fun pdcp_deliver_below :: "nr_pdcp_sdu list \<Rightarrow> u32 \<Rightarrow> nr_pdcp_sdu list \<times> nr_pdcp_sdu list" where
  "pdcp_deliver_below [] reord = ([], [])"
| "pdcp_deliver_below (cur # rest) reord =
     (if ps_count cur < reord
      then (case pdcp_deliver_below rest reord of (d, l) \<Rightarrow> (cur # d, l))
      else ([], cur # rest))"

definition check_t_reordering :: "nr_pdcp_entity \<Rightarrow> nr_pdcp_entity \<times> pdcp_event list" where
  "check_t_reordering e =
     (if pe_t_reordering e = -1 then (e, [])
      else if pe_t_reordering_start e = 0 \<or>
              pe_t_current e \<le> u64_of_int (int_add (pe_t_reordering_start e) (pe_t_reordering e))
      then (e, [])
      else
        let e1 = e\<lparr>pe_t_reordering_start := 0\<rparr> in
        case pdcp_deliver_below (pe_rx_list e1) (pe_rx_reord e1) of (d1, l1) \<Rightarrow>
          let e2 = e1\<lparr>pe_rx_list := l1, pe_rx_size := pe_rx_size e1 - sum_list (map ps_size d1)\<rparr>
          in case pdcp_deliver_from e2 (pe_rx_reord e2) of (e3, d2) \<Rightarrow>
               ((if pe_rx_deliv e3 < pe_rx_next e3
                 then e3\<lparr>pe_rx_reord := pe_rx_next e3,
                          pe_t_reordering_start := int_of_u64 (pe_t_current e3)\<rparr>
                 else e3),
                map DeliverSdu (d1 @ d2)))"

definition nr_pdcp_entity_set_time :: "nr_pdcp_entity \<Rightarrow> u64 \<Rightarrow> nr_pdcp_entity \<times> pdcp_event list" where
  "nr_pdcp_entity_set_time e now = check_t_reordering (e\<lparr>pe_t_current := now\<rparr>)"

subsection \<open>Creation and deletion\<close>

definition new_nr_pdcp_entity ::
    "nr_pdcp_entity_type \<Rightarrow> bool \<Rightarrow> int \<Rightarrow> int \<Rightarrow> bool \<Rightarrow> bool \<Rightarrow> bool \<Rightarrow> nat \<Rightarrow> int \<Rightarrow> int \<Rightarrow>
     int \<Rightarrow> int \<Rightarrow> bytes option \<Rightarrow> bytes option \<Rightarrow> nr_pdcp_entity res" where
  "new_nr_pdcp_entity type is_gnb rb_id pdusession_id has_sdap has_sdapULheader has_sdapDLheader
       sn_size t_reordering discard_timer ciphering_algorithm integrity_algorithm
       ciphering_key integrity_key =
     nr_pdcp_entity_set_security
       \<lparr>pe_type = type, pe_rb_id = rb_id, pe_pdusession_id = pdusession_id,
        pe_has_sdap = has_sdap, pe_has_sdapULheader = has_sdapULheader,
        pe_has_sdapDLheader = has_sdapDLheader, pe_sn_size = sn_size,
        pe_t_reordering = t_reordering, pe_discard_timer = discard_timer,
        pe_sn_max = 2 ^ sn_size - 1, pe_window_size = 2 ^ (sn_size - 1),
        pe_tx_next = 0, pe_rx_next = 0, pe_rx_deliv = 0, pe_rx_reord = 0,
        pe_t_current = 0, pe_t_reordering_start = 0,
        pe_has_ciphering = False, pe_has_integrity = False,
        pe_ciphering_algorithm = 0, pe_integrity_algorithm = 0,
        pe_ciphering_key = replicate 16 0, pe_integrity_key = replicate 16 0,
        pe_security_context = [], pe_free_security = False,
        pe_integrity_context = [], pe_free_integrity = False,
        pe_is_gnb = is_gnb, pe_rx_list = [], pe_rx_size = 0, pe_rx_maxsize = 0\<rparr>
       integrity_algorithm integrity_key ciphering_algorithm ciphering_key"

text \<open>What a deletion hands back to the allocator.\<close>

datatype pdcp_freed = FreedSdu nr_pdcp_sdu | FreedSecurity bytes | FreedIntegrity bytes | FreedEntity

definition nr_pdcp_entity_delete :: "nr_pdcp_entity \<Rightarrow> pdcp_freed list" where
  "nr_pdcp_entity_delete e =
     map FreedSdu (pe_rx_list e)
     @ (if pe_free_security e then [FreedSecurity (pe_security_context e)] else [])
     @ (if pe_free_integrity e then [FreedIntegrity (pe_integrity_context e)] else [])
     @ [FreedEntity]"

subsection \<open>SN and COUNT arithmetic\<close>

lemma bit_128_int: "bit (128::int) k \<longleftrightarrow> k = 7"
proof -
  have "(128::int) = 2 ^ 7" by simp
  then show ?thesis by (simp only: bit_exp_iff) auto
qed

lemma sn12_roundtrip:
  fixes sn :: int
  assumes "0 \<le> sn" "sn < 4096" "dc = 0 \<or> dc = 0x80"
  shows "push_bit 8 (uint (byte_of_int (dc OR (drop_bit 8 sn AND 0xf)) AND 0xf))
         OR uint (byte_of_int (sn AND 0xff)) = sn"
proof -
  have m: "(0xf::int) = mask 4" "(0xff::int) = mask 8" "(0xf::byte) = mask 4" by (simp_all add: mask_eq_exp_minus_1)
  have s: "take_bit 12 sn = sn" using assms by (simp add: take_bit_int_eq_self)
  have "push_bit 8 (uint (byte_of_int (dc OR (drop_bit 8 sn AND 0xf)) AND 0xf))
         OR uint (byte_of_int (sn AND 0xff)) = take_bit 12 sn"
    using assms(3) unfolding byte_of_int_def m
    by (intro bit_eqI) (auto simp: bit_simps bit_128_int)
  with s show ?thesis by simp
qed

lemma sn18_roundtrip:
  fixes sn :: int
  assumes "0 \<le> sn" "sn < 262144" "dc = 0 \<or> dc = 0x80"
  shows "push_bit 16 (uint (byte_of_int (dc OR (drop_bit 16 sn AND 0x3)) AND 0x3))
         OR push_bit 8 (uint (byte_of_int (drop_bit 8 sn AND 0xff)))
         OR uint (byte_of_int (sn AND 0xff)) = sn"
proof -
  have m: "(0x3::int) = mask 2" "(0xff::int) = mask 8" "(0x3::byte) = mask 2" by (simp_all add: mask_eq_exp_minus_1)
  have s: "take_bit 18 sn = sn" using assms by (simp add: take_bit_int_eq_self)
  have "push_bit 16 (uint (byte_of_int (dc OR (drop_bit 16 sn AND 0x3)) AND 0x3))
         OR push_bit 8 (uint (byte_of_int (drop_bit 8 sn AND 0xff)))
         OR uint (byte_of_int (sn AND 0xff)) = take_bit 18 sn"
    using assms(3) unfolding byte_of_int_def m
    by (intro bit_eqI) (auto simp: bit_simps bit_128_int)
  with s show ?thesis by simp
qed


lemma dc_bit_set:
  "byte_of_int (0x80 OR y) AND 0x80 \<noteq> 0"
proof
  assume "byte_of_int (0x80 OR y) AND 0x80 = 0"
  then have "\<not> bit (byte_of_int (0x80 OR y) AND 0x80) 7" by simp
  then show False
    unfolding byte_of_int_def by (simp add: bit_simps bit_128_int)
qed


lemma uint_and_sn_max:
  fixes c :: u32
  shows "uint (c AND word_of_int (2 ^ n - 1)) = uint c mod 2 ^ n"
proof -
  have "word_of_int (2 ^ n - 1) = (mask n :: u32)"
    by (simp add: mask_eq_exp_minus_1)
  then have "c AND word_of_int (2 ^ n - 1) = take_bit n c"
    by (simp add: take_bit_eq_mask)
  then show ?thesis
    by (simp only: unsigned_take_bit_eq) (simp add: take_bit_eq_mod)
qed

lemma count_split: "push_bit n (drop_bit n c) OR word_of_int (uint c mod 2 ^ n) = (c::u32)"
proof -
  have "uint c mod 2 ^ n = take_bit n (uint c)" by (simp add: take_bit_eq_mod)
  then show ?thesis
    by (simp only:) (rule bit_eqI, auto simp: bit_simps)
qed
lemma uint_drop: "uint (drop_bit n (c::u32)) = uint c div 2 ^ n"
 by (simp only: unsigned_drop_bit_eq bintr_uint [OF order_refl]) (simp add: drop_bit_eq_div)

definition pdcp_conf :: "nr_pdcp_entity \<Rightarrow> bool" where
  "pdcp_conf e \<longleftrightarrow> (pe_sn_size e = 12 \<or> pe_sn_size e = 18) \<and>
     pe_sn_max e = 2 ^ pe_sn_size e - 1 \<and> pe_window_size e = 2 ^ (pe_sn_size e - 1)"

lemma hfn_step:
  fixes N :: int
  assumes N: "N = 2 * W" "0 < W" and c: "d - W \<le> c" "c < d + W" and nn: "0 \<le> c" "0 \<le> d"
  shows "c div N = (if c mod N < d mod N - W then d div N + 1
                    else if c mod N \<ge> d mod N + W then d div N - 1 else d div N)"
proof -
  let ?k = "c div N - d div N"
  have e: "c = N * (c div N) + c mod N" "d = N * (d div N) + d mod N" by simp_all
  have b: "0 \<le> c mod N" "c mod N < N" "0 \<le> d mod N" "d mod N < N" using N by simp_all
  have eq: "N * ?k = (c - d) - (c mod N - d mod N)" using e by (simp add: algebra_simps)
  have "N * ?k < N * 2" "N * (- 2) < N * ?k" using eq b c N by linarith+
  then have "?k < 2" "-2 < ?k" using N by (simp_all only: mult_less_cancel_left_pos)
  then consider "?k = 0" | "?k = 1" | "?k = -1" by linarith
  then show ?thesis
  proof cases
    case 1
    then have "c mod N - d mod N = c - d" using eq by simp
    then show ?thesis using 1 c by auto
  next
    case 2
    then have "c mod N - d mod N = c - d - N" using eq by simp
    then show ?thesis using 2 c N by auto
  next
    case 3
    then have "c mod N - d mod N = c - d + N" using eq by simp
    then show ?thesis using 3 c N by auto
  qed
qed

lemma pdcp_count_recovery:
  fixes c :: u32
  assumes conf: "pdcp_conf e"
    and lo: "uint (pe_rx_deliv e) - pe_window_size e \<le> uint c"
    and hi: "uint c < uint (pe_rx_deliv e) + pe_window_size e"
  shows "pdcp_rcvd_count e (uint (c AND word_of_int (pe_sn_max e))) = c"
proof -
  let ?n = "pe_sn_size e" and ?d = "pe_rx_deliv e"
  have w: "pe_window_size e = 2 ^ (?n - 1)" "pe_sn_max e = 2 ^ ?n - 1" 
     "(2::int) ^ ?n = 2 * 2 ^ (?n - 1)" "?n < 32" "0 < ?n"
    using conf by (auto simp: pdcp_conf_def)
  let ?h = "if uint c mod 2 ^ ?n < uint ?d mod 2 ^ ?n - pe_window_size e then drop_bit ?n ?d + 1
            else if uint c mod 2 ^ ?n \<ge> uint ?d mod 2 ^ ?n + pe_window_size e then drop_bit ?n ?d - 1
            else drop_bit ?n ?d"
  have "uint c div 2 ^ ?n = (if uint c mod 2 ^ ?n < uint ?d mod 2 ^ ?n - pe_window_size e then uint ?d div 2 ^ ?n + 1
            else if uint c mod 2 ^ ?n \<ge> uint ?d mod 2 ^ ?n + pe_window_size e then uint ?d div 2 ^ ?n - 1
            else uint ?d div 2 ^ ?n)"
    using hfn_step [OF w(3) _ lo [unfolded w(1)] hi [unfolded w(1)]] w by simp
  then have "word_of_int (uint c div 2 ^ ?n) = ?h"
    by (simp add: uint_drop [symmetric] del: uint_div_distrib)
  then have "drop_bit ?n c = ?h"
    by (simp only: uint_drop [symmetric] word_of_int_uint)
  then show ?thesis
    unfolding pdcp_rcvd_count_def Let_def w(2) uint_and_sn_max
    using count_split [of ?n c] by simp
qed

subsection \<open>Invariant and progress of the receiver\<close>

lemma pdcp_deliver_seq_split:
  "pdcp_deliver_seq l c = (d, l', c') \<Longrightarrow> l = d @ l'"
  by (induction l c arbitrary: d l' c' rule: pdcp_deliver_seq.induct)
    (auto split: if_splits prod.splits)

lemma pdcp_deliver_seq_counts:
  "pdcp_deliver_seq l c = (d, l', c') \<Longrightarrow>
   map ps_count d = map (\<lambda>i. c + of_nat i) [0..<length d] \<and> c' = c + of_nat (length d)"
proof (induction l c arbitrary: d l' c' rule: pdcp_deliver_seq.induct)
  case (2 cur rest c)
  show ?case
  proof (cases "c = ps_count cur")
    case True
    then obtain d1 where d: "pdcp_deliver_seq rest (c + 1) = (d1, l', c')" "d = cur # d1"
      using 2(2) by (auto split: prod.splits)
    have "[0..<Suc (length d1)] = 0 # map Suc [0..<length d1]"
      by (simp only: upt_conv_Cons map_Suc_upt zero_less_Suc)
    then show ?thesis using 2(1) [OF True d(1)] d(2) True
      by (simp add: o_def add.assoc)
  next
    case False
    then show ?thesis using 2(2) by auto
  qed
qed auto

lemma pdcp_deliver_seq_bounds:
  assumes "pdcp_deliver_seq l c = (d, l', c')" "sorted_wrt (<) (map ps_count l)"
    and "\<forall>s\<in>set l. c \<le> ps_count s \<and> ps_count s < nx" "c \<le> nx"
  shows "c \<le> c' \<and> c' \<le> nx \<and> (\<forall>s\<in>set d. c \<le> ps_count s \<and> ps_count s < c')
         \<and> (\<forall>s\<in>set l'. c' < ps_count s)"
  using assms
proof (induction l c arbitrary: d l' c' rule: pdcp_deliver_seq.induct)
  case (2 cur rest c)
  show ?case
  proof (cases "c = ps_count cur")
    case True
    then obtain d1 where d: "pdcp_deliver_seq rest (c + 1) = (d1, l', c')" "d = cur # d1"
      using 2(2) by (auto split: prod.splits)
    have lt: "c < nx" using 2(4) True by simp
    note w = word_less_plus_one [OF lt]
    have "\<forall>s\<in>set rest. c + 1 \<le> ps_count s \<and> ps_count s < nx"
      using 2(3,4) True word_less_plus_one(2) by auto
    then have IH: "c + 1 \<le> c' \<and> c' \<le> nx \<and> (\<forall>s\<in>set d1. c + 1 \<le> ps_count s \<and> ps_count s < c')
         \<and> (\<forall>s\<in>set l'. c' < ps_count s)"
      using 2(1) [OF True d(1)] 2(3) w(2) by simp
    then have "c < c'" using w(1) by (meson less_le_trans)
    then show ?thesis using IH d(2) True w(1) by (auto intro: order.trans less_imp_le)
  next
    case False
    then have "c < ps_count cur" using 2(4) by (simp add: less_le)
    moreover have "\<forall>s\<in>set rest. ps_count cur < ps_count s" using 2(3) by simp
    ultimately have "\<forall>s\<in>set (cur # rest). c < ps_count s" by (auto dest: order.strict_trans)
    then show ?thesis using 2(2,5) False by auto
  qed
qed auto

lemma pdcp_deliver_below_split:
  "pdcp_deliver_below l r = (d, l') \<Longrightarrow> l = d @ l' \<and> (\<forall>s\<in>set d. ps_count s < r)"
  by (induction l r arbitrary: d l' rule: pdcp_deliver_below.induct)
    (auto split: if_splits prod.splits)

lemma pdcp_deliver_below_rest:
  "pdcp_deliver_below l r = (d, l') \<Longrightarrow> sorted_wrt (<) (map ps_count l) \<Longrightarrow>
   \<forall>s\<in>set l'. r \<le> ps_count s"
  by (induction l r arbitrary: d l' rule: pdcp_deliver_below.induct)
    (auto split: if_splits prod.splits simp: not_less)

definition pdcp_sdu_ok :: "nr_pdcp_sdu \<Rightarrow> bool" where
  "pdcp_sdu_ok s \<longleftrightarrow> 0 < ps_size s \<and> ps_size s = int (length (ps_buffer s))"

definition pdcp_list_inv :: "nr_pdcp_entity \<Rightarrow> bool" where
  "pdcp_list_inv e \<longleftrightarrow> pdcp_conf e \<and>
     sorted_wrt (<) (map ps_count (pe_rx_list e)) \<and>
     (\<forall>s\<in>set (pe_rx_list e). pe_rx_deliv e < ps_count s \<and> ps_count s < pe_rx_next e) \<and>
     (\<forall>s\<in>set (pe_rx_list e). pdcp_sdu_ok s) \<and>
     pe_rx_deliv e \<le> pe_rx_next e"

definition pdcp_inv :: "nr_pdcp_entity \<Rightarrow> bool" where
  "pdcp_inv e \<longleftrightarrow> pdcp_list_inv e \<and>
     (pe_t_reordering_start e \<noteq> 0 \<longrightarrow>
        pe_rx_deliv e < pe_rx_reord e \<and> pe_rx_reord e \<le> pe_rx_next e)"

text \<open>SDUs handed up between two states\<close>
definition pdcp_delivered :: "pdcp_event list \<Rightarrow> nr_pdcp_sdu list" where
  "pdcp_delivered ev = List.map_filter (\<lambda>x. case x of DeliverSdu s \<Rightarrow> Some s | _ \<Rightarrow> None) ev"

lemma pdcp_delivered_simps [simp]:
  "pdcp_delivered [] = []" "pdcp_delivered (DeliverSdu s # ev) = s # pdcp_delivered ev"
  "pdcp_delivered (DeliverPdu b i # ev) = pdcp_delivered ev" "pdcp_delivered (IntegrityFailed # ev) = pdcp_delivered ev"
  by (simp_all add: pdcp_delivered_def List.map_filter_def)

lemma pdcp_delivered_append [simp]: "pdcp_delivered (ev @ ev') = pdcp_delivered ev @ pdcp_delivered ev'"
  by (simp add: pdcp_delivered_def List.map_filter_def)

lemma pdcp_delivered_map [simp]: "pdcp_delivered (map DeliverSdu d) = d"
  by (induction d) auto

definition pdcp_progress :: "nr_pdcp_entity \<Rightarrow> nr_pdcp_sdu list \<Rightarrow> nr_pdcp_entity \<Rightarrow> bool" where
  "pdcp_progress e d e' \<longleftrightarrow> pdcp_inv e' \<and> pe_rx_deliv e \<le> pe_rx_deliv e' \<and>
     sorted_wrt (<) (map ps_count d) \<and>
     (\<forall>s\<in>set d. pe_rx_deliv e \<le> ps_count s \<and> ps_count s < pe_rx_deliv e')"

lemma pdcp_progress_refl: "pdcp_inv e \<Longrightarrow> pdcp_progress e [] e"
  by (simp add: pdcp_progress_def)

lemma pdcp_reordering_start_inv:
  "pdcp_inv e \<Longrightarrow> pdcp_inv (pdcp_reordering_start e)"
  by (auto simp: pdcp_inv_def pdcp_list_inv_def pdcp_reordering_start_def pdcp_conf_def)

lemma pdcp_deliver_from_step:
  assumes "pdcp_deliver_from e c = (e', d)" "pdcp_conf e"
    and "sorted_wrt (<) (map ps_count (pe_rx_list e))"
    and "\<forall>s\<in>set (pe_rx_list e). c \<le> ps_count s \<and> ps_count s < pe_rx_next e"
    and "\<forall>s\<in>set (pe_rx_list e). pdcp_sdu_ok s"
    and "c \<le> pe_rx_next e"
  shows "pdcp_list_inv e' \<and> c \<le> pe_rx_deliv e' \<and> sorted_wrt (<) (map ps_count d)
      \<and> (\<forall>s\<in>set d. c \<le> ps_count s \<and> ps_count s < pe_rx_deliv e')
      \<and> pe_rx_next e' = pe_rx_next e \<and> pe_t_reordering_start e' = pe_t_reordering_start e
      \<and> pe_rx_reord e' = pe_rx_reord e \<and> pe_t_current e' = pe_t_current e"
proof -
  obtain l' c' where s: "pdcp_deliver_seq (pe_rx_list e) c = (d, l', c')"
    and e': "e' = e\<lparr>pe_rx_list := l', pe_rx_size := pe_rx_size e - sum_list (map ps_size d), pe_rx_deliv := c'\<rparr>"
    using assms(1) by (auto simp: pdcp_deliver_from_def split: prod.splits)
  note b = pdcp_deliver_seq_bounds [OF s assms(3,4,6)]
  note l = pdcp_deliver_seq_split [OF s]
  show ?thesis
    using b assms(2-) l unfolding e' pdcp_list_inv_def pdcp_conf_def
    by (auto simp: sorted_wrt_append)
qed

lemma pdcp_rx_timer_inv:
  "pdcp_list_inv e \<Longrightarrow> pe_rx_reord e \<le> pe_rx_next e \<or> pe_t_reordering_start e = 0 \<Longrightarrow>
   pdcp_inv (pdcp_rx_timer e) \<and> pe_rx_deliv (pdcp_rx_timer e) = pe_rx_deliv e"
  by (auto simp: pdcp_inv_def pdcp_list_inv_def pdcp_rx_timer_def pdcp_reordering_start_def
      pdcp_conf_def Let_def not_le)

lemma pdcp_rx_insert_facts:
  fixes n :: int
  assumes "pdcp_list_inv e" "pe_rx_deliv e \<le> ps_count s" "\<not> nr_pdcp_sdu_in_list (pe_rx_list e) (ps_count s)"
    and "pdcp_sdu_ok s" "ps_count s \<noteq> - 1"
  defines "e1 \<equiv> pdcp_rx_insert e s n"
  shows "pdcp_conf e1" "sorted_wrt (<) (map ps_count (pe_rx_list e1))"
    "set (pe_rx_list e1) = insert s (set (pe_rx_list e))"
    "\<forall>x\<in>set (pe_rx_list e1). pe_rx_deliv e \<le> ps_count x \<and> ps_count x < pe_rx_next e1 \<and> pdcp_sdu_ok x"
    "pe_rx_next e \<le> pe_rx_next e1" "pe_rx_deliv e1 = pe_rx_deliv e"
    "pe_t_reordering_start e1 = pe_t_reordering_start e" "pe_rx_reord e1 = pe_rx_reord e"
proof -
  have up: "ps_count s < ps_count s + 1"
    using assms(5) by (metis word_less_plus_one(1) order.not_eq_order_implies_strict word_order.extremum)
  show "set (pe_rx_list e1) = insert s (set (pe_rx_list e))"
    by (simp add: e1_def pdcp_rx_insert_def Let_def pdcp_list_add_facts)
  show "sorted_wrt (<) (map ps_count (pe_rx_list e1))"
    using assms(1,3) by (simp add: e1_def pdcp_rx_insert_def Let_def pdcp_list_add_strict pdcp_list_inv_def)
  show le: "pe_rx_next e \<le> pe_rx_next e1"
    using up by (auto simp: e1_def pdcp_rx_insert_def Let_def)
  show "pdcp_conf e1" "pe_rx_deliv e1 = pe_rx_deliv e"
    "pe_t_reordering_start e1 = pe_t_reordering_start e" "pe_rx_reord e1 = pe_rx_reord e"
    using assms(1) by (auto simp: e1_def pdcp_rx_insert_def Let_def pdcp_list_inv_def pdcp_conf_def)
  have "ps_count s < pe_rx_next e1"
    using up by (auto simp: e1_def pdcp_rx_insert_def Let_def not_le)
  then show "\<forall>x\<in>set (pe_rx_list e1). pe_rx_deliv e \<le> ps_count x \<and> ps_count x < pe_rx_next e1 \<and> pdcp_sdu_ok x"
    using assms(1,2,4) le \<open>set (pe_rx_list e1) = _\<close> by (auto simp: pdcp_list_inv_def intro: less_imp_le less_le_trans)
qed

lemma pdcp_rx_accept:
  assumes inv: "pdcp_inv e" and new: "pe_rx_deliv e \<le> ps_count s" "\<not> nr_pdcp_sdu_in_list (pe_rx_list e) (ps_count s)"
    and ok: "pdcp_sdu_ok s" "ps_count s \<noteq> - 1"
    and st: "pdcp_rx_deliver (pdcp_rx_insert e s n) (ps_count s) = (e2, d)"
  shows "pdcp_progress e d (pdcp_rx_timer e2)"
proof -
  let ?e1 = "pdcp_rx_insert e s n"
  have li: "pdcp_list_inv e" using inv by (simp add: pdcp_inv_def)
  note f = pdcp_rx_insert_facts [OF li new ok, of n]
  have reord: "pe_rx_reord ?e1 \<le> pe_rx_next ?e1 \<or> pe_t_reordering_start ?e1 = 0"
    using inv f by (auto simp: pdcp_inv_def intro: order.trans)
  have nx: "pe_rx_deliv e \<le> pe_rx_next ?e1"
    using li f(5) by (auto simp: pdcp_list_inv_def intro: order.trans)
  show ?thesis
  proof (cases "ps_count s = pe_rx_deliv e")
    case True
    then have "pdcp_deliver_from ?e1 (pe_rx_deliv e) = (e2, d)"
      using st f by (simp add: pdcp_rx_deliver_def)
    from pdcp_deliver_from_step [OF this f(1,2) _ _ nx] f(4)
    show ?thesis using reord
      by (auto simp: pdcp_progress_def dest: pdcp_rx_timer_inv)
  next
    case False
    then have e2: "e2 = ?e1" "d = []" using st f by (simp_all add: pdcp_rx_deliver_def)
    have "pdcp_list_inv ?e1"
      using f nx False li new(1) by (auto simp: pdcp_list_inv_def less_le)
    then show ?thesis using reord f e2
      by (auto simp: pdcp_progress_def dest: pdcp_rx_timer_inv)
  qed
qed

lemma pdcp_delivered_check_integrity [simp]: "pdcp_delivered (pdcp_check_integrity P e c b) = []"
  by (simp add: pdcp_check_integrity_def Let_def)

lemma pdcp_decipher_length:
  assumes "ctr_mode P" shows "length (pdcp_decipher P e c b) = length b"
  using assms unfolding pdcp_decipher_def nr_pdcp_security_nea2_cipher_def ctr_mode_def
  by (auto simp: Let_def)

lemma pdcp_new_sdu_ok:
  "nr_pdcp_new_sdu c b sz = Inr s \<Longrightarrow> 0 < sz \<Longrightarrow> ps_count s = c \<and> ps_size s = sz \<and> pdcp_sdu_ok s"
  by (auto simp: nr_pdcp_new_sdu_def read_at_def pdcp_sdu_ok_def split: if_splits)


text \<open>The ways a call to \<open>recv_pdu\<close> can return.\<close>

lemma nr_pdcp_entity_recv_pdu_cases:
  assumes st: "nr_pdcp_entity_recv_pdu P e b = Inr (e', ev)"
  obtains (drop) "e' = e" "pdcp_delivered ev = []"
    | (accept) sn s e2 d where "pdcp_rcvd_sn e (pdcp_fix_dc_bit e b) = Inr sn"
        "ps_count s = pdcp_rcvd_count e sn" "pdcp_sdu_ok s"
        "pe_rx_deliv e \<le> ps_count s" "\<not> nr_pdcp_sdu_in_list (pe_rx_list e) (ps_count s)"
        "pdcp_rx_deliver (pdcp_rx_insert e s (int (length b) - pdcp_header_size e)) (ps_count s) = (e2, d)"
        "e' = pdcp_rx_timer e2" "pdcp_delivered ev = d"
        "ps_size s = int (length b) - pdcp_header_size e - pdcp_integrity_size e"
proof (cases "length b < 1")
  case True
  then show ?thesis using st drop by (auto simp: nr_pdcp_entity_recv_pdu_def)
next
  case False
  then obtain sn where sn: "pdcp_rcvd_sn e (pdcp_fix_dc_bit e b) = Inr sn"
    using st by (auto simp: nr_pdcp_entity_recv_pdu_def Let_def bnd_eq_Inr)
  let ?c = "pdcp_rcvd_count e sn"
  show ?thesis
  proof (cases "int (length b) < pdcp_header_size e + pdcp_integrity_size e + 1 \<or>
         ?c < pe_rx_deliv e \<or> nr_pdcp_sdu_in_list (pe_rx_list e) ?c")
    case True
    then have "e' = e \<and> pdcp_delivered ev = []"
      using st False sn by (auto simp: nr_pdcp_entity_recv_pdu_def Let_def split: if_splits)
    then show ?thesis using drop by blast
  next
    case big: False
    then obtain s where s: "nr_pdcp_new_sdu ?c (drop (nat (pdcp_header_size e))
          (pdcp_decipher P e ?c (pdcp_fix_dc_bit e b)))
          (int (length b) - pdcp_header_size e - pdcp_integrity_size e) = Inr s"
      using st False sn by (auto simp: nr_pdcp_entity_recv_pdu_def Let_def bnd_eq_Inr)
    note ok = pdcp_new_sdu_ok [OF s]
    obtain e2 d where d: "pdcp_rx_deliver (pdcp_rx_insert e s (int (length b) - pdcp_header_size e)) ?c = (e2, d)"
      by fastforce
    have "e' = pdcp_rx_timer e2 \<and> pdcp_delivered ev = d"
      using st False sn big s d by (auto simp: nr_pdcp_entity_recv_pdu_def Let_def)
    then show ?thesis using accept [OF sn, of s e2 d] ok big d by (simp add: not_less)
  qed
qed

lemma check_t_reordering_progress:
  assumes inv: "pdcp_inv e" and st: "check_t_reordering e = (e', ev)"
  shows "pdcp_progress e (pdcp_delivered ev) e'"
proof (cases "pe_t_reordering e = -1 \<or> pe_t_reordering_start e = 0 \<or>
              pe_t_current e \<le> u64_of_int (int_add (pe_t_reordering_start e) (pe_t_reordering e))")
  case True
  then have "check_t_reordering e = (e, [])" by (auto simp: check_t_reordering_def)
  then show ?thesis using st inv by (simp add: pdcp_progress_refl)
next
  case False
  then have le: "pe_rx_deliv e < pe_rx_reord e" "pe_rx_reord e \<le> pe_rx_next e"
    using inv by (auto simp: pdcp_inv_def)
  obtain d1 l1 where d1: "pdcp_deliver_below (pe_rx_list e) (pe_rx_reord e) = (d1, l1)"
    by (cases "pdcp_deliver_below (pe_rx_list e) (pe_rx_reord e)")
  define e2 where "e2 = e\<lparr>pe_t_reordering_start := 0, pe_rx_list := l1,
      pe_rx_size := pe_rx_size e - sum_list (map ps_size d1)\<rparr>"
  obtain e3 d2 where d2: "pdcp_deliver_from e2 (pe_rx_reord e) = (e3, d2)"
    by (cases "pdcp_deliver_from e2 (pe_rx_reord e)")
  have li: "pdcp_list_inv e" using inv by (simp add: pdcp_inv_def)
  have sp: "pe_rx_list e = d1 @ l1" "\<forall>s\<in>set d1. ps_count s < pe_rx_reord e"
    using pdcp_deliver_below_split [OF d1] by auto
  have ge: "\<forall>s\<in>set l1. pe_rx_reord e \<le> ps_count s"
    using pdcp_deliver_below_rest [OF d1] li by (simp add: pdcp_list_inv_def)
  have conf: "pdcp_conf e2" using li by (simp add: e2_def pdcp_list_inv_def pdcp_conf_def)
  have prem: "sorted_wrt (<) (map ps_count (pe_rx_list e2))"
    "\<forall>s\<in>set (pe_rx_list e2). pe_rx_reord e \<le> ps_count s \<and> ps_count s < pe_rx_next e2"
    "\<forall>s\<in>set (pe_rx_list e2). pdcp_sdu_ok s" "pe_rx_reord e \<le> pe_rx_next e2"
    using li sp ge le by (auto simp: e2_def pdcp_list_inv_def sorted_wrt_append)
  note step = pdcp_deliver_from_step [OF d2 conf prem]
  have st0: "pe_t_reordering_start e3 = 0" using step by (simp add: e2_def)
  have e': "e' = pdcp_reordering_start e3" "pdcp_delivered ev = d1 @ d2"
    using False st d1 d2 st0
    by (auto simp: check_t_reordering_def e2_def [symmetric] Let_def pdcp_reordering_start_def
        split: prod.splits simp flip: map_append)
  have "pdcp_inv e3" using step st0 by (simp add: pdcp_inv_def)
  then have "pdcp_inv e'" unfolding e' by (rule pdcp_reordering_start_inv)
  moreover have rd: "pe_rx_deliv e' = pe_rx_deliv e3" by (simp add: e' pdcp_reordering_start_def)
  moreover have "sorted_wrt (<) (map ps_count (d1 @ d2))"
    using step li sp by (auto simp: pdcp_list_inv_def sorted_wrt_append intro: less_le_trans)
  moreover have "\<forall>s\<in>set d1. pe_rx_deliv e \<le> ps_count s \<and> ps_count s < pe_rx_deliv e3"
    using li sp step by (auto simp: pdcp_list_inv_def intro: less_imp_le less_le_trans)
  moreover have "\<forall>s\<in>set d2. pe_rx_deliv e \<le> ps_count s \<and> ps_count s < pe_rx_deliv e3"
    using step le by (auto intro: less_imp_le less_le_trans)
  moreover have "pe_rx_deliv e \<le> pe_rx_deliv e3" using step le by (auto intro: less_imp_le less_le_trans)
  ultimately show ?thesis unfolding pdcp_progress_def e'(2) by auto
qed

lemma pdcp_set_time_progress:
  assumes "pdcp_inv e" "nr_pdcp_entity_set_time e now = (e', ev)"
  shows "pdcp_progress e (pdcp_delivered ev) e'"
proof -
  have "pdcp_inv (e\<lparr>pe_t_current := now\<rparr>)"
    using assms(1) by (auto simp: pdcp_inv_def pdcp_list_inv_def pdcp_conf_def)
  from check_t_reordering_progress [OF this] assms(2) show ?thesis
    by (auto simp: nr_pdcp_entity_set_time_def pdcp_progress_def)
qed

lemma pdcp_inv_cong:
  "pdcp_inv e \<Longrightarrow> pe_sn_size e' = pe_sn_size e \<Longrightarrow> pe_sn_max e' = pe_sn_max e \<Longrightarrow>
   pe_window_size e' = pe_window_size e \<Longrightarrow> pe_rx_list e' = pe_rx_list e \<Longrightarrow>
   pe_rx_deliv e' = pe_rx_deliv e \<Longrightarrow> pe_rx_next e' = pe_rx_next e \<Longrightarrow>
   pe_rx_reord e' = pe_rx_reord e \<Longrightarrow> pe_t_reordering_start e' = pe_t_reordering_start e \<Longrightarrow>
   pdcp_inv e'"
  by (auto simp: pdcp_inv_def pdcp_list_inv_def pdcp_conf_def)

text \<open>The fields that the security set-up leaves alone.\<close>

definition pdcp_static where
  "pdcp_static e = (pe_sn_size e, pe_sn_max e, pe_window_size e, pe_rx_list e, pe_rx_deliv e, pe_rx_next e,
     pe_rx_reord e, pe_t_reordering_start e, pe_tx_next e)"

lemma pdcp_set_integrity_static: "pdcp_set_integrity a e = Inr e' \<Longrightarrow> pdcp_static e' = pdcp_static e"
  by (auto simp: pdcp_set_integrity_def pdcp_static_def guard_def split: if_splits)

lemma pdcp_set_ciphering_static: "pdcp_set_ciphering a e = Inr e' \<Longrightarrow> pdcp_static e' = pdcp_static e"
  by (auto simp: pdcp_set_ciphering_def pdcp_static_def guard_def split: if_splits)

lemma pdcp_set_security_static:
  assumes "nr_pdcp_entity_set_security e ia ik ca ck = Inr e'"
  shows "pdcp_static e' = pdcp_static e"
proof -
  let ?e4 = "let e1 = (if ia \<noteq> -1 then e\<lparr>pe_integrity_algorithm := ia\<rparr> else e);
      e2 = (if ca \<noteq> -1 then e1\<lparr>pe_ciphering_algorithm := ca\<rparr> else e1);
      e3 = (case ik of None \<Rightarrow> e2 | Some k \<Rightarrow> e2\<lparr>pe_integrity_key := take 16 k\<rparr>)
    in (case ck of None \<Rightarrow> e3 | Some k \<Rightarrow> e3\<lparr>pe_ciphering_key := take 16 k\<rparr>)"
  have "nr_pdcp_entity_set_security e ia ik ca ck = bnd (pdcp_set_integrity ia ?e4) (pdcp_set_ciphering ca)"
    by (simp only: nr_pdcp_entity_set_security_def Let_def)
  from this [symmetric, unfolded assms bnd_eq_Inr]
  obtain e5 where e5: "pdcp_set_integrity ia ?e4 = Inr e5" "pdcp_set_ciphering ca e5 = Inr e'" by (elim exE conjE)
  have "pdcp_static e' = pdcp_static e5" by (rule pdcp_set_ciphering_static [OF e5(2)])
  also have "\<dots> = pdcp_static ?e4" by (rule pdcp_set_integrity_static [OF e5(1)])
  also have "\<dots> = pdcp_static e" by (cases ik; cases ck; simp add: pdcp_static_def Let_def)
  finally show ?thesis .
qed

lemma pdcp_set_security_frame:
  assumes "nr_pdcp_entity_set_security e ia ik ca ck = Inr e'"
  shows "pe_sn_size e' = pe_sn_size e" "pe_sn_max e' = pe_sn_max e"
   "pe_window_size e' = pe_window_size e" "pe_rx_list e' = pe_rx_list e"
   "pe_rx_deliv e' = pe_rx_deliv e" "pe_rx_next e' = pe_rx_next e"
   "pe_rx_reord e' = pe_rx_reord e" "pe_t_reordering_start e' = pe_t_reordering_start e"
   "pe_tx_next e' = pe_tx_next e"
  using pdcp_set_security_static [OF assms] by (simp_all add: pdcp_static_def)

end
