(* ===== verification/Pdcp_Delivery.thy ===== *)
theory Pdcp_Delivery
  imports Pdcp_Entity
begin

text \<open>
  What the PDCP entity guarantees over whole histories and between two peers: in-order delivery
  without duplicates, recovery of the COUNT from the sequence number, the round trip from the
  transmitter's SDU to the receiver's callback, expiry of the reordering timer, and the
  deviations of the code (integrity failures that are only logged, the HFN underflow of the first
  window, the growing \<open>rx_size\<close>).
\<close>

unbundle bit_operations_syntax

subsection \<open>Histories\<close>

text \<open>Histories of an entity: the operations in any order, with the SDUs handed up so far.\<close>

inductive pdcp_history :: "crypto \<Rightarrow> nr_pdcp_entity \<Rightarrow> nr_pdcp_sdu list \<Rightarrow> nr_pdcp_entity \<Rightarrow> bool"
  for P e0 where
  start: "pdcp_history P e0 [] e0"
| recv_pdu: "pdcp_history P e0 ds e \<Longrightarrow>
     nr_pdcp_entity_recv_pdu P e b = Inr (e', ev) \<Longrightarrow> pdcp_history P e0 (ds @ pdcp_delivered ev) e'"
| recv_sdu: "pdcp_history P e0 ds e \<Longrightarrow> nr_pdcp_entity_recv_sdu P e b sdu_id = (e', ev) \<Longrightarrow>
     pdcp_history P e0 (ds @ pdcp_delivered ev) e'"
| set_time: "pdcp_history P e0 ds e \<Longrightarrow> nr_pdcp_entity_set_time e now = (e', ev) \<Longrightarrow>
     pdcp_history P e0 (ds @ pdcp_delivered ev) e'"
| set_security: "pdcp_history P e0 ds e \<Longrightarrow>
     nr_pdcp_entity_set_security e ia ik ca ck = Inr e' \<Longrightarrow> pdcp_history P e0 ds e'"

text \<open>
  What holds up to the delivery of the last COUNT, $2^{32}-1$.  With that COUNT in the list \<open>rx_next\<close> has wrapped to 0, so the
  bounds by \<open>rx_next\<close> in \<open>pdcp_inv\<close> are lost, but not the order.
\<close>

definition pdcp_order_inv :: "nr_pdcp_entity \<Rightarrow> bool" where
  "pdcp_order_inv e \<longleftrightarrow> pdcp_conf e \<and> sorted_wrt (<) (map ps_count (pe_rx_list e)) \<and>
     (\<forall>s\<in>set (pe_rx_list e). pe_rx_deliv e < ps_count s \<and> pdcp_sdu_ok s) \<and>
     (pe_t_reordering_start e \<noteq> 0 \<longrightarrow> pe_rx_deliv e < pe_rx_reord e)"

definition pdcp_order_step :: "nr_pdcp_entity \<Rightarrow> nr_pdcp_sdu list \<Rightarrow> nr_pdcp_entity \<Rightarrow> bool" where
  "pdcp_order_step e d e' \<longleftrightarrow> sorted_wrt (<) (map ps_count d) \<and> (\<forall>s\<in>set d. pe_rx_deliv e \<le> ps_count s) \<and>
     set (pe_rx_list e) \<subseteq> set d \<union> set (pe_rx_list e') \<and>
     (- 1 \<notin> ps_count ` set d \<longrightarrow> pdcp_order_inv e' \<and> pe_rx_deliv e \<le> pe_rx_deliv e' \<and>
        (\<forall>s\<in>set d. ps_count s < pe_rx_deliv e'))"

lemma pdcp_inv_order: "pdcp_inv e \<Longrightarrow> pdcp_order_inv e"
  by (auto simp: pdcp_inv_def pdcp_list_inv_def pdcp_order_inv_def)

lemma pdcp_order_step_refl: "pdcp_order_inv e' \<Longrightarrow> pe_rx_deliv e' = pe_rx_deliv e \<Longrightarrow> pe_rx_list e' = pe_rx_list e \<Longrightarrow>
    pdcp_order_step e [] e'"
  by (simp add: pdcp_order_step_def)

lemma deliver_seq_order:
  "pdcp_deliver_seq l c = (d, l', c') \<Longrightarrow> sorted_wrt (<) (map ps_count l) \<Longrightarrow> \<forall>s\<in>set l. c \<le> ps_count s \<Longrightarrow>
   - 1 \<notin> ps_count ` set d \<Longrightarrow> c \<le> c' \<and> (\<forall>s\<in>set d. ps_count s < c') \<and> (\<forall>s\<in>set l'. c' < ps_count s)"
proof (induction l c arbitrary: d l' c' rule: pdcp_deliver_seq.induct)
  case (2 cur rest cnt)
  show ?case
  proof (cases "cnt = ps_count cur")
    case True
    obtain d2 where d: "pdcp_deliver_seq rest (cnt + 1) = (d2, l', c')" "d = cur # d2"
      using 2(2) True by (auto split: prod.splits)
    have "cnt \<noteq> - 1" using 2(5) d(2) True by auto
    then have up: "cnt < cnt + 1" by (metis word_less_plus_one(1) order.not_eq_order_implies_strict word_order.extremum)
    have "\<forall>s\<in>set rest. cnt + 1 \<le> ps_count s" using 2(3) True by (auto intro: inc_le)
    then have "cnt + 1 \<le> c' \<and> (\<forall>s\<in>set d2. ps_count s < c') \<and> (\<forall>s\<in>set l'. c' < ps_count s)"
      using 2(1) [OF True d(1)] 2(3,5) d(2) by auto
    then show ?thesis using up True d(2) by auto
  next
    case False
    then have "c' = cnt" "d = []" "l' = cur # rest" using 2(2) by auto
    moreover have "\<forall>s\<in>set (cur # rest). cnt < ps_count s"
      using 2(3,4) False by (auto simp: less_le intro: order.strict_trans1)
    ultimately show ?thesis by simp
  qed
qed simp

lemma deliver_from_order:
  assumes "pdcp_deliver_from e c = (e', d)" "pdcp_conf e" "sorted_wrt (<) (map ps_count (pe_rx_list e))"
    and "\<forall>s\<in>set (pe_rx_list e). c \<le> ps_count s \<and> pdcp_sdu_ok s"
  shows "pe_rx_list e = d @ pe_rx_list e'" "pe_t_reordering_start e' = pe_t_reordering_start e" "pe_rx_reord e' = pe_rx_reord e"
    and "- 1 \<notin> ps_count ` set d \<Longrightarrow> c \<le> pe_rx_deliv e' \<and> (\<forall>s\<in>set d. ps_count s < pe_rx_deliv e') \<and> pdcp_conf e' \<and>
      sorted_wrt (<) (map ps_count (pe_rx_list e')) \<and> (\<forall>s\<in>set (pe_rx_list e'). pe_rx_deliv e' < ps_count s \<and> pdcp_sdu_ok s)"
proof -
  obtain l' c' where s: "pdcp_deliver_seq (pe_rx_list e) c = (d, l', c')"
    and e': "e' = e\<lparr>pe_rx_list := l', pe_rx_size := pe_rx_size e - sum_list (map ps_size d), pe_rx_deliv := c'\<rparr>"
    using assms(1) by (auto simp: pdcp_deliver_from_def split: prod.splits)
  note l = pdcp_deliver_seq_split [OF s]
  show "pe_rx_list e = d @ pe_rx_list e'" "pe_t_reordering_start e' = pe_t_reordering_start e" "pe_rx_reord e' = pe_rx_reord e"
    using l by (simp_all add: e')
  show "- 1 \<notin> ps_count ` set d \<Longrightarrow> c \<le> pe_rx_deliv e' \<and> (\<forall>s\<in>set d. ps_count s < pe_rx_deliv e') \<and> pdcp_conf e' \<and>
      sorted_wrt (<) (map ps_count (pe_rx_list e')) \<and> (\<forall>s\<in>set (pe_rx_list e'). pe_rx_deliv e' < ps_count s \<and> pdcp_sdu_ok s)"
    using deliver_seq_order [OF s assms(3)] assms(2-4) l by (auto simp: e' pdcp_conf_def sorted_wrt_append)
qed

lemma rx_timer_order:
  "pdcp_conf e \<Longrightarrow> sorted_wrt (<) (map ps_count (pe_rx_list e)) \<Longrightarrow>
   \<forall>s\<in>set (pe_rx_list e). pe_rx_deliv e < ps_count s \<and> pdcp_sdu_ok s \<Longrightarrow> pdcp_order_inv (pdcp_rx_timer e)"
  by (auto simp: pdcp_order_inv_def pdcp_rx_timer_def pdcp_reordering_start_def pdcp_conf_def Let_def)

lemma rx_timer_same: "pe_rx_deliv (pdcp_rx_timer e) = pe_rx_deliv e" "pe_rx_list (pdcp_rx_timer e) = pe_rx_list e"
  by (simp_all add: pdcp_rx_timer_def pdcp_reordering_start_def Let_def)

lemma rx_accept_order:
  assumes inv: "pdcp_order_inv e" and new: "pe_rx_deliv e \<le> ps_count s" "\<not> nr_pdcp_sdu_in_list (pe_rx_list e) (ps_count s)"
    and ok: "pdcp_sdu_ok s" and st: "pdcp_rx_deliver (pdcp_rx_insert e s n) (ps_count s) = (e2, d)"
  shows "pdcp_order_step e d (pdcp_rx_timer e2)" "s \<in> set d \<union> set (pe_rx_list (pdcp_rx_timer e2))"
proof -
  let ?e1 = "pdcp_rx_insert e s n"
  have f: "pdcp_conf ?e1" "sorted_wrt (<) (map ps_count (pe_rx_list ?e1))" "set (pe_rx_list ?e1) = insert s (set (pe_rx_list e))"
    "pe_rx_deliv ?e1 = pe_rx_deliv e"
    using inv new(2) by (auto simp: pdcp_rx_insert_def Let_def pdcp_order_inv_def pdcp_conf_def pdcp_list_add_strict pdcp_list_add_facts)
  have l: "\<forall>x\<in>set (pe_rx_list ?e1). pe_rx_deliv e \<le> ps_count x \<and> pdcp_sdu_ok x"
    using inv new(1) ok by (auto simp: f(3) pdcp_order_inv_def)
  have "pdcp_order_step e d (pdcp_rx_timer e2) \<and> s \<in> set d \<union> set (pe_rx_list e2)"
  proof (cases "ps_count s = pe_rx_deliv e")
    case True
    then have "pdcp_deliver_from ?e1 (pe_rx_deliv e) = (e2, d)" using st f(4) by (simp add: pdcp_rx_deliver_def)
    note o = deliver_from_order [OF this f(1,2) l]
    have un: "set d \<union> set (pe_rx_list e2) = insert s (set (pe_rx_list e))" using f(3) by (simp add: o(1))
    have "sorted_wrt (<) (map ps_count d)" "\<forall>x\<in>set d. pe_rx_deliv e \<le> ps_count x"
      using f(2) l by (auto simp: o(1) sorted_wrt_append)
    then show ?thesis using o(4) un rx_timer_order [of e2] unfolding pdcp_order_step_def rx_timer_same by blast
  next
    case False
    then have e2: "e2 = ?e1" "d = []" using st f(4) by (simp_all add: pdcp_rx_deliver_def)
    have "\<forall>x\<in>set (pe_rx_list ?e1). pe_rx_deliv ?e1 < ps_count x \<and> pdcp_sdu_ok x"
      using False inv new(1) ok f(4) by (auto simp: f(3) pdcp_order_inv_def less_le)
    then show ?thesis using rx_timer_order [OF f(1,2)] f(3,4) e2 by (auto simp: pdcp_order_step_def rx_timer_same)
  qed
  then show "pdcp_order_step e d (pdcp_rx_timer e2)" "s \<in> set d \<union> set (pe_rx_list (pdcp_rx_timer e2))"
    by (simp_all add: rx_timer_same)
qed

lemma check_t_reordering_order:
  assumes inv: "pdcp_order_inv e" and st: "check_t_reordering e = (e', ev)"
  shows "pdcp_order_step e (pdcp_delivered ev) e'"
proof (cases "pe_t_reordering e = -1 \<or> pe_t_reordering_start e = 0 \<or>
              pe_t_current e \<le> u64_of_int (int_add (pe_t_reordering_start e) (pe_t_reordering e))")
  case True
  then have "check_t_reordering e = (e, [])" by (auto simp: check_t_reordering_def)
  then show ?thesis using st inv by (simp add: pdcp_order_step_refl)
next
  case False
  then have le: "pe_rx_deliv e < pe_rx_reord e" using inv by (auto simp: pdcp_order_inv_def)
  obtain d1 l1 where d1: "pdcp_deliver_below (pe_rx_list e) (pe_rx_reord e) = (d1, l1)"
    by (cases "pdcp_deliver_below (pe_rx_list e) (pe_rx_reord e)")
  define e2 where "e2 = e\<lparr>pe_t_reordering_start := 0, pe_rx_list := l1,
      pe_rx_size := pe_rx_size e - sum_list (map ps_size d1)\<rparr>"
  obtain e3 d2 where d2: "pdcp_deliver_from e2 (pe_rx_reord e) = (e3, d2)"
    by (cases "pdcp_deliver_from e2 (pe_rx_reord e)")
  have sp: "pe_rx_list e = d1 @ l1" "\<forall>s\<in>set d1. ps_count s < pe_rx_reord e"
    using pdcp_deliver_below_split [OF d1] by auto
  have ge: "\<forall>s\<in>set l1. pe_rx_reord e \<le> ps_count s"
    using pdcp_deliver_below_rest [OF d1] inv by (simp add: pdcp_order_inv_def)
  have pre: "pdcp_conf e2" "sorted_wrt (<) (map ps_count (pe_rx_list e2))"
    "\<forall>s\<in>set (pe_rx_list e2). pe_rx_reord e \<le> ps_count s \<and> pdcp_sdu_ok s"
    using inv sp(1) ge by (auto simp: e2_def pdcp_order_inv_def pdcp_conf_def sorted_wrt_append)
  note o = deliver_from_order [OF d2 pre]
  have st0: "pe_t_reordering_start e3 = 0" using o(2) by (simp add: e2_def)
  have e': "e' = pdcp_reordering_start e3" "pdcp_delivered ev = d1 @ d2"
    using False st d1 d2 st0
    by (auto simp: check_t_reordering_def e2_def [symmetric] Let_def pdcp_reordering_start_def
        split: prod.splits simp flip: map_append)
  have k: "pe_rx_deliv e' = pe_rx_deliv e3" "pe_rx_list e' = pe_rx_list e3" by (simp_all add: e' pdcp_reordering_start_def)
  have l1: "l1 = d2 @ pe_rx_list e3" using o(1) by (simp add: e2_def)
  have srt: "sorted_wrt (<) (map ps_count (d1 @ d2))" "\<forall>s\<in>set (d1 @ d2). pe_rx_deliv e \<le> ps_count s"
    using inv sp(1) l1 by (auto simp: pdcp_order_inv_def sorted_wrt_append intro: less_imp_le)
  have "pdcp_order_inv e' \<and> pe_rx_deliv e \<le> pe_rx_deliv e' \<and> (\<forall>s\<in>set (d1 @ d2). ps_count s < pe_rx_deliv e')"
    if "- 1 \<notin> ps_count ` set (d1 @ d2)"
  proof -
    have o4: "pe_rx_reord e \<le> pe_rx_deliv e3" "\<forall>s\<in>set d2. ps_count s < pe_rx_deliv e3" "pdcp_conf e3"
      "sorted_wrt (<) (map ps_count (pe_rx_list e3))" "\<forall>s\<in>set (pe_rx_list e3). pe_rx_deliv e3 < ps_count s \<and> pdcp_sdu_ok s"
      using o(4) that by auto
    then have "pdcp_order_inv e'" using st0 by (auto simp: e' pdcp_order_inv_def pdcp_reordering_start_def pdcp_conf_def)
    then show ?thesis using o4 le sp(2) by (auto simp: k intro: less_le_trans)
  qed
  then show ?thesis using srt sp(1) l1 by (auto simp: pdcp_order_step_def e'(2) k)
qed

text \<open>What every call does: the order, and the whole invariant as long as the last COUNT has not come.\<close>

definition pdcp_call :: "nr_pdcp_entity \<Rightarrow> nr_pdcp_sdu list \<Rightarrow> nr_pdcp_entity \<Rightarrow> bool" where
  "pdcp_call e d e' \<longleftrightarrow> (pdcp_order_inv e \<longrightarrow> pdcp_order_step e d e') \<and>
     (pdcp_inv e \<and> - 1 \<notin> ps_count ` (set d \<union> set (pe_rx_list e')) \<longrightarrow> pdcp_inv e')"

lemma pdcp_call_static: "pdcp_static e' = pdcp_static (e\<lparr>pe_tx_next := t\<rparr>) \<Longrightarrow> pdcp_call e [] e'"
  using pdcp_inv_cong [of e e'] pdcp_order_step_refl [of e' e]
  by (auto simp: pdcp_call_def pdcp_static_def pdcp_order_inv_def pdcp_conf_def)

lemma recv_pdu_call:
  assumes st: "nr_pdcp_entity_recv_pdu P e b = Inr (e', ev)"
  shows "pdcp_call e (pdcp_delivered ev) e'"
  using st
proof (cases rule: nr_pdcp_entity_recv_pdu_cases)
  case drop
  then show ?thesis by (simp add: pdcp_call_def pdcp_order_step_refl)
next
  case (accept sn s e2 d)
  have "pdcp_inv e'" if "pdcp_inv e" "- 1 \<notin> ps_count ` (set d \<union> set (pe_rx_list e'))"
  proof -
    have "s \<in> set d \<union> set (pe_rx_list e')" using rx_accept_order(2) [OF pdcp_inv_order [OF that(1)] accept(4,5,3,6)] accept(7) by simp
    then have "ps_count s \<noteq> - 1" using that(2) by (metis image_eqI)
    then show ?thesis using pdcp_rx_accept [OF that(1) accept(4,5,3) _ accept(6)] accept(7) by (simp add: pdcp_progress_def)
  qed
  then show ?thesis using rx_accept_order(1) [OF _ accept(4,5,3,6)] accept(7,8) by (simp add: pdcp_call_def)
qed

lemma set_time_call:
  assumes "nr_pdcp_entity_set_time e now = (e', ev)"
  shows "pdcp_call e (pdcp_delivered ev) e'"
proof -
  have "pdcp_order_inv (e\<lparr>pe_t_current := now\<rparr>)" if "pdcp_order_inv e" using that by (auto simp: pdcp_order_inv_def pdcp_conf_def)
  then have "pdcp_order_step e (pdcp_delivered ev) e'" if "pdcp_order_inv e"
    using check_t_reordering_order [of "e\<lparr>pe_t_current := now\<rparr>" e' ev] assms that
    by (simp add: nr_pdcp_entity_set_time_def pdcp_order_step_def)
  then show ?thesis using pdcp_set_time_progress [OF _ assms] by (simp add: pdcp_call_def pdcp_progress_def)
qed

lemma recv_sdu_call:
  assumes "nr_pdcp_entity_recv_sdu P e b i = (e', ev)"
  shows "pdcp_call e (pdcp_delivered ev) e'"
proof -
  have "e' = e\<lparr>pe_tx_next := pe_tx_next e + 1\<rparr>" "pdcp_delivered ev = []"
    using assms by (auto simp: nr_pdcp_entity_recv_sdu_def Let_def)
  then show ?thesis using pdcp_call_static [where e' = e' and e = e] by simp
qed

text \<open>The deliveries up to and including the first one with the last COUNT.\<close>

definition first_cycle :: "nr_pdcp_sdu list \<Rightarrow> nr_pdcp_sdu list" where
  "first_cycle ds = take (Suc (length (takeWhile (\<lambda>s. ps_count s \<noteq> - 1) ds))) ds"

lemma first_cycle_append:
  "first_cycle (ds @ d) = (if - 1 \<in> ps_count ` set ds then first_cycle ds else ds @ first_cycle d)"
proof (cases "- 1 \<in> ps_count ` set ds")
  case True
  then obtain x where x: "x \<in> set ds" "ps_count x = - 1" by (metis imageE)
  have "length (takeWhile (\<lambda>s. ps_count s \<noteq> - 1) ds) < length ds"
    using x length_takeWhile_le [of "\<lambda>s. ps_count s \<noteq> - 1" ds] takeWhile_eq_take [of "\<lambda>s. ps_count s \<noteq> - 1" ds]
    by (metis (mono_tags, lifting) set_takeWhileD order_le_imp_less_or_eq take_all_iff order_refl)
  then show ?thesis using True x by (simp add: first_cycle_def takeWhile_append1 [OF x(1)])
next
  case False
  then have "takeWhile (\<lambda>s. ps_count s \<noteq> - 1) (ds @ d) = ds @ takeWhile (\<lambda>s. ps_count s \<noteq> - 1) d"
    by (intro takeWhile_append2) (metis image_eqI)
  then show ?thesis using False by (simp add: first_cycle_def)
qed

definition pdcp_sound :: "nr_pdcp_sdu list \<Rightarrow> nr_pdcp_entity \<Rightarrow> bool" where
  "pdcp_sound ds e \<longleftrightarrow> sorted_wrt (<) (map ps_count (first_cycle ds)) \<and>
     (- 1 \<notin> ps_count ` set ds \<longrightarrow> pdcp_order_inv e \<and> (\<forall>s\<in>set ds. ps_count s < pe_rx_deliv e) \<and>
        (- 1 \<notin> ps_count ` set (pe_rx_list e) \<longrightarrow> pdcp_inv e))"

lemma pdcp_sound_call:
  assumes "pdcp_sound ds e" "pdcp_call e d e'"
  shows "pdcp_sound (ds @ d) e'"
proof (cases "- 1 \<in> ps_count ` set ds")
  case True
  then show ?thesis using assms(1) by (simp add: pdcp_sound_def first_cycle_append image_Un)
next
  case False
  have fc: "first_cycle ds = ds" using first_cycle_append [of ds "[]"] False by (simp add: first_cycle_def)
  have e: "pdcp_order_inv e" "\<forall>s\<in>set ds. ps_count s < pe_rx_deliv e" "sorted_wrt (<) (map ps_count ds)"
    "- 1 \<notin> ps_count ` set (pe_rx_list e) \<longrightarrow> pdcp_inv e" using assms(1) False fc by (simp_all add: pdcp_sound_def)
  have o: "pdcp_order_step e d e'" using assms(2) e(1) by (simp add: pdcp_call_def)
  have "sorted_wrt (<) (map ps_count (ds @ d))"
    using e(2,3) o by (auto simp: pdcp_order_step_def sorted_wrt_append intro: less_le_trans)
  then have srt: "sorted_wrt (<) (map ps_count (first_cycle (ds @ d)))"
    by (simp add: first_cycle_def take_map [symmetric] sorted_wrt_take del: map_append take_append)
  have full: "pdcp_inv e'" if "- 1 \<notin> ps_count ` set d" "- 1 \<notin> ps_count ` set (pe_rx_list e')"
  proof -
    have "set (pe_rx_list e) \<subseteq> set d \<union> set (pe_rx_list e')" using o by (simp add: pdcp_order_step_def)
    then have "- 1 \<notin> ps_count ` set (pe_rx_list e)" using that by blast
    then show ?thesis using e(4) that assms(2) by (simp add: pdcp_call_def image_Un)
  qed
  have "pdcp_order_inv e' \<and> (\<forall>s\<in>set (ds @ d). ps_count s < pe_rx_deliv e')" if "- 1 \<notin> ps_count ` set d"
    using o that e(2) by (auto simp: pdcp_order_step_def intro: less_le_trans)
  then show ?thesis using srt full False by (auto simp: pdcp_sound_def)
qed

lemma pdcp_history_sound: "pdcp_history P e0 ds e \<Longrightarrow> pdcp_inv e0 \<Longrightarrow> pdcp_sound ds e"
proof (induction rule: pdcp_history.induct)
  case start
  then show ?case by (simp add: pdcp_sound_def first_cycle_def pdcp_inv_order)
next
  case (set_security ds e ia ik ca ck e')
  have "pdcp_static e' = pdcp_static (e\<lparr>pe_tx_next := pe_tx_next e\<rparr>)" using pdcp_set_security_static [OF set_security(2)] by simp
  from pdcp_sound_call [OF set_security(3) pdcp_call_static [OF this]] set_security(4) show ?case by simp
qed (blast intro: pdcp_sound_call recv_pdu_call recv_sdu_call set_time_call)+

lemma new_nr_pdcp_entity_inv:
  assumes "new_nr_pdcp_entity ty g rb ps hs hu hdl sn tr dt ca ia ck ik = Inr e" "sn = 12 \<or> sn = 18"
  shows "pdcp_inv e" "pe_rx_deliv e = 0"
  using assms(2) pdcp_set_security_frame [OF assms(1) [unfolded new_nr_pdcp_entity_def]]
  by (auto simp: pdcp_inv_def pdcp_list_inv_def pdcp_conf_def)

subsection \<open>Transmitter and receiver\<close>

definition pdcp_peers :: "nr_pdcp_entity \<Rightarrow> nr_pdcp_entity \<Rightarrow> bool" where
  "pdcp_peers t r \<longleftrightarrow> pe_type r = pe_type t \<and> pe_rb_id r = pe_rb_id t \<and>
     pe_sn_size r = pe_sn_size t \<and> pe_sn_max r = pe_sn_max t \<and>
     pe_has_ciphering r = pe_has_ciphering t \<and> pe_has_integrity r = pe_has_integrity t \<and>
     pe_security_context r = pe_security_context t \<and>
     pe_integrity_context r = pe_integrity_context t \<and> pe_is_gnb r = (\<not> pe_is_gnb t)"

lemma pdcp_tx_header_decodes:
  assumes "pdcp_conf r" "pe_type r = pe_type t" "pe_sn_size r = pe_sn_size t"
    and "0 \<le> sn" "sn < 2 ^ pe_sn_size r"
  shows "pdcp_fix_dc_bit r (pdcp_tx_header t sn @ body) = pdcp_tx_header t sn @ body"
    and "pdcp_rcvd_sn r (pdcp_tx_header t sn @ body) = Inr sn"
    and "int (length (pdcp_tx_header t sn)) = pdcp_header_size r"
  subgoal
    using dc_bit_set [of "drop_bit 8 sn AND 0xf"] dc_bit_set [of "drop_bit 16 sn AND 0x3"] assms(2)
    by (cases "pe_type t") (auto simp: pdcp_fix_dc_bit_def pdcp_tx_header_def Let_def)
  subgoal
    using assms sn12_roundtrip [where sn = sn and dc = 0] sn12_roundtrip [where sn = sn and dc = 128]
      sn18_roundtrip [where sn = sn and dc = 0] sn18_roundtrip [where sn = sn and dc = 128]
    by (auto simp: pdcp_rcvd_sn_def pdcp_tx_header_def Let_def pdcp_conf_def)
  subgoal
    using assms by (auto simp: pdcp_tx_header_def pdcp_header_size_def Let_def)
  done

definition pdcp_tx_pdu :: "crypto \<Rightarrow> nr_pdcp_entity \<Rightarrow> bytes \<Rightarrow> bytes" where
  "pdcp_tx_pdu P e buffer =
     (case nr_pdcp_entity_recv_sdu P e buffer 0 of (_, [DeliverPdu pdu _]) \<Rightarrow> pdu | _ \<Rightarrow> [])"

lemma pdcp_tx_pdu_shape:
  fixes P :: crypto and t :: nr_pdcp_entity and b :: bytes
  defines "sn \<equiv> uint (pe_tx_next t AND word_of_int (pe_sn_max t))"
    and "dir \<equiv> (if pe_is_gnb t then 1 else 0)"
  defines "maci \<equiv> (if pe_has_integrity t
          then nr_pdcp_integrity_nia2_integrity P (pe_integrity_context t)
                 (pdcp_tx_header t sn @ b) (pe_rb_id t) (pe_tx_next t) dir
          else if pdcp_integrity_size t = 4 then replicate 4 0 else [])"
  shows "pdcp_tx_pdu P t b = pdcp_tx_header t sn @
      (if pe_has_ciphering t then nr_pdcp_security_nea2_cipher P (pe_security_context t) (b @ maci)
          (pe_rb_id t) (pe_tx_next t) dir else b @ maci)"
    and "nr_pdcp_entity_recv_sdu P t b i =
           (t\<lparr>pe_tx_next := pe_tx_next t + 1\<rparr>, [DeliverPdu (pdcp_tx_pdu P t b) i])"
  unfolding pdcp_tx_pdu_def nr_pdcp_entity_recv_sdu_def Let_def assms by simp_all

lemma pdcp_peers_receive:
  assumes peers: "pdcp_peers t r" and law: "ctr_mode P" "cmac_output P"
    and conf: "pdcp_conf r" and ne: "b \<noteq> []"
    and win: "uint (pe_rx_deliv r) - pe_window_size r \<le> uint (pe_tx_next t)"
             "uint (pe_tx_next t) < uint (pe_rx_deliv r) + pe_window_size r"
    and new: "pe_rx_deliv r \<le> pe_tx_next t" "\<not> nr_pdcp_sdu_in_list (pe_rx_list r) (pe_tx_next t)"
  defines "s \<equiv> \<lparr>ps_count = pe_tx_next t, ps_buffer = b, ps_size = int (length b)\<rparr>"
  shows "\<exists>n. nr_pdcp_entity_recv_pdu P r (pdcp_tx_pdu P t b) =
     (case pdcp_rx_deliver (pdcp_rx_insert r s n) (pe_tx_next t) of
        (e2, d) \<Rightarrow> Inr (pdcp_rx_timer e2, map DeliverSdu d))"
proof -
  define sn where "sn = uint (pe_tx_next t AND word_of_int (pe_sn_max t))"
  define dir :: int where "dir = (if pe_is_gnb t then 1 else 0)"
  define maci where "maci = (if pe_has_integrity t
          then nr_pdcp_integrity_nia2_integrity P (pe_integrity_context t)
                 (pdcp_tx_header t sn @ b) (pe_rb_id t) (pe_tx_next t) dir
          else if pdcp_integrity_size t = 4 then replicate 4 0 else [])"
  define body where "body = (if pe_has_ciphering t
      then nr_pdcp_security_nea2_cipher P (pe_security_context t) (b @ maci)
          (pe_rb_id t) (pe_tx_next t) dir else b @ maci)"
  let ?h = "pdcp_tx_header t sn" and ?c = "pe_tx_next t"
  note p = peers [unfolded pdcp_peers_def]
  have pdu: "pdcp_tx_pdu P t b = ?h @ body"
    unfolding body_def maci_def dir_def sn_def by (rule pdcp_tx_pdu_shape)
  have "pe_sn_max t = 2 ^ pe_sn_size r - 1" using p conf by (simp add: pdcp_conf_def)
  then have "sn = uint (pe_tx_next t) mod 2 ^ pe_sn_size r"
    unfolding sn_def by (simp only: uint_and_sn_max)
  then have sn: "0 \<le> sn" "sn < 2 ^ pe_sn_size r" by simp_all
  have hdr: "pdcp_fix_dc_bit r (?h @ body) = ?h @ body" "pdcp_rcvd_sn r (?h @ body) = Inr sn"
    "int (length ?h) = pdcp_header_size r"
    using pdcp_tx_header_decodes [OF conf _ _ sn] p by simp_all
  have hs: "nat (pdcp_header_size r) = length ?h" using hdr(3) p by simp
  have cnt: "pdcp_rcvd_count r sn = ?c"
    using pdcp_count_recovery [OF conf win] p by (simp add: sn_def)
  have isz: "pdcp_integrity_size r = pdcp_integrity_size t" using p by (simp add: pdcp_integrity_size_def)
  have ml: "int (length maci) = pdcp_integrity_size t"
    using nea2_nia2.integrity_length [of P] law by (auto simp: maci_def pdcp_integrity_size_def)
  have bl: "length body = length b + length maci"
    using nea2_nia2.cipher_length [of P] law by (simp add: body_def)
  have dec: "pdcp_decipher P r ?c (?h @ body) = ?h @ b @ maci"
    using nea2_nia2.cipher_cipher [of P] law p hs
    by (simp add: pdcp_decipher_def body_def dir_def)
  have ev: "pdcp_check_integrity P r ?c (?h @ b @ maci) = []"
    using p ml isz by (auto simp: pdcp_check_integrity_def maci_def dir_def pdcp_integrity_size_def
       nr_pdcp_integrity_nia2_integrity_def)
  have nl: "nat (pdcp_integrity_size t) = length maci" using ml by simp
  have len: "int (length (?h @ body)) = pdcp_header_size r + pdcp_integrity_size r + int (length b)"
    using hdr(3) bl ml isz by simp
  have nn: "0 \<le> pdcp_header_size r" "0 \<le> pdcp_integrity_size r" "0 < int (length b)"
    using ne by (auto simp: pdcp_header_size_def pdcp_integrity_size_def)
  have sdu: "nr_pdcp_new_sdu ?c (drop (nat (pdcp_header_size r)) (?h @ b @ maci)) (int (length b)) = Inr s"
    by (simp add: nr_pdcp_new_sdu_ok s_def hs)
  have c1: "\<not> int (length (?h @ body)) < 1"
    and c2: "\<not> int (length (?h @ body)) < pdcp_header_size r + pdcp_integrity_size r + 1"
    and c3: "int (length (?h @ body)) - pdcp_header_size r - pdcp_integrity_size r = int (length b)"
    using len nn by linarith+
  have c4: "\<not> (?c < pe_rx_deliv r \<or> nr_pdcp_sdu_in_list (pe_rx_list r) ?c)"
    using new by auto
  show ?thesis
    unfolding pdu nr_pdcp_entity_recv_pdu_def Let_def
    by (rule exI [where x = "int (length (?h @ body)) - pdcp_header_size r"])
      (simp only: c1 c2 c3 c4 hdr cnt dec ev sdu if_False bnd_Inr append_Nil)
qed

lemma pdcp_peers_roundtrip:
  assumes peers: "pdcp_peers t r" and law: "ctr_mode P" "cmac_output P"
    and inv: "pdcp_inv r" and ne: "b \<noteq> []"
    and win: "uint (pe_tx_next t) < uint (pe_rx_deliv r) + pe_window_size r"
    and new: "pe_rx_deliv r \<le> pe_tx_next t" "\<not> nr_pdcp_sdu_in_list (pe_rx_list r) (pe_tx_next t)"
  defines "s \<equiv> \<lparr>ps_count = pe_tx_next t, ps_buffer = b, ps_size = int (length b)\<rparr>"
  shows "\<exists>r' d. nr_pdcp_entity_recv_pdu P r (pdcp_tx_pdu P t b) = Inr (r', map DeliverSdu d) \<and>
     (if pe_tx_next t = pe_rx_deliv r then d \<noteq> [] \<and> hd d = s
      else d = [] \<and> s \<in> set (pe_rx_list r'))"
proof -
  have conf: "pdcp_conf r" using inv by (simp add: pdcp_inv_def pdcp_list_inv_def)
  then have lo: "uint (pe_rx_deliv r) - pe_window_size r \<le> uint (pe_tx_next t)"
    using new(1) by (auto simp: word_le_def pdcp_conf_def intro: order.trans)
  obtain n where n: "nr_pdcp_entity_recv_pdu P r (pdcp_tx_pdu P t b) =
     (case pdcp_rx_deliver (pdcp_rx_insert r s n) (pe_tx_next t) of
        (e2, d) \<Rightarrow> Inr (pdcp_rx_timer e2, map DeliverSdu d))"
    using pdcp_peers_receive [OF peers law conf ne lo win new] unfolding s_def by blast
  obtain e2 d where d: "pdcp_rx_deliver (pdcp_rx_insert r s n) (pe_tx_next t) = (e2, d)"
    by fastforce
  have li: "nr_pdcp_sdu_list_add (pe_rx_list r) s = s # pe_rx_list r" if "pe_tx_next t = pe_rx_deliv r"
    using inv that by (cases "pe_rx_list r") (auto simp: pdcp_inv_def pdcp_list_inv_def s_def)
  show ?thesis
  proof (cases "pe_tx_next t = pe_rx_deliv r")
    case True
    then have "d \<noteq> [] \<and> hd d = s"
      using d li by (auto simp: pdcp_rx_deliver_def pdcp_rx_insert_def pdcp_deliver_from_def Let_def s_def
         split: if_splits prod.splits)
    then show ?thesis using n d True by auto
  next
    case False
    have "s \<in> set (pe_rx_list (pdcp_rx_timer (pdcp_rx_insert r s n)))"
      by (simp add: pdcp_rx_timer_def pdcp_reordering_start_def pdcp_rx_insert_def Let_def pdcp_list_add_facts)
    then show ?thesis using n d False
      by (auto simp: pdcp_rx_deliver_def pdcp_rx_insert_def Let_def split: if_splits)
  qed
qed

lemma hfn_minus_one_count:
  assumes "n = 12 \<or> n = 18" "0 \<le> sn" "sn < 2 ^ n"
  shows "uint (push_bit n (- 1 :: u32) OR word_of_int sn) = 2 ^ 32 - 2 ^ n + sn"
proof -
  have t: "take_bit n sn = sn" using assms by (simp add: take_bit_int_eq_self)
  have "push_bit n (- 1 :: u32) AND word_of_int (take_bit n sn) = 0"
    by (rule bit_eqI) (auto simp: bit_simps)
  then have "push_bit n (- 1 :: u32) OR word_of_int sn = push_bit n (- 1) + word_of_int sn"
    unfolding t by (rule disjunctive_add_eq_or [symmetric])
  also have "\<dots> = word_of_int (2 ^ 32 - 2 ^ n + sn)"
    using assms(1) by (auto simp: push_bit_eq_mult)
  finally have "uint (push_bit n (- 1 :: u32) OR word_of_int sn) = (2 ^ 32 - 2 ^ n + sn) mod 2 ^ 32"
    by (simp only: uint_word_of_int) simp
  then show ?thesis using assms by auto
qed

lemma pdcp_hfn_minus_one:
  assumes conf: "pdcp_conf e" and first: "uint (pe_rx_deliv e) < 2 ^ pe_sn_size e"
    and sn: "uint (pe_rx_deliv e) + pe_window_size e \<le> sn" "sn < 2 ^ pe_sn_size e"
  shows "uint (pdcp_rcvd_count e sn) = 2 ^ 32 - 2 ^ pe_sn_size e + sn \<and>
         pe_rx_deliv e < pdcp_rcvd_count e sn"
proof -
  let ?n = "pe_sn_size e" and ?d = "pe_rx_deliv e"
  have n: "?n = 12 \<or> ?n = 18" and w: "0 < pe_window_size e" "pe_sn_max e = 2 ^ ?n - 1"
    using conf by (auto simp: pdcp_conf_def)
  have "uint (drop_bit ?n ?d) = 0" using first by (simp add: uint_drop)
  then have h: "drop_bit ?n ?d = 0" by (simp add: unsigned_eq_0_iff)
  have m: "uint ?d mod 2 ^ ?n = uint ?d" using first by simp
  have "pdcp_rcvd_count e sn = push_bit ?n (- 1) OR word_of_int sn"
    unfolding pdcp_rcvd_count_def Let_def w(2) uint_and_sn_max m h using sn w(1) by simp
  moreover have "0 \<le> sn" using sn w by (smt (verit) uint_ge_0)
  ultimately have c: "uint (pdcp_rcvd_count e sn) = 2 ^ 32 - 2 ^ ?n + sn"
    using hfn_minus_one_count [OF n _ sn(2)] by simp
  then show ?thesis using first n sn w by (auto simp: word_less_def)
qed

lemma pdcp_integrity_irrelevant:
  assumes "nr_pdcp_entity_recv_pdu P e b = Inr (e', ev)"
  shows "\<exists>ev'. nr_pdcp_entity_recv_pdu (P\<lparr>aes_cmac := m\<rparr>) e b = Inr (e', ev') \<and> pdcp_delivered ev' = pdcp_delivered ev"
proof -
  have dc: "pdcp_decipher (P\<lparr>aes_cmac := m\<rparr>) e c x = pdcp_decipher P e c x" for c x
    by (simp add: pdcp_decipher_def nr_pdcp_security_nea2_cipher_def Let_def)
  show ?thesis
  proof (cases "length b < 1")
    case True
    then show ?thesis using assms by (simp add: nr_pdcp_entity_recv_pdu_def)
  next
    case False
    then obtain sn where sn: "pdcp_rcvd_sn e (pdcp_fix_dc_bit e b) = Inr sn"
      using assms by (auto simp: nr_pdcp_entity_recv_pdu_def Let_def bnd_eq_Inr)
    show ?thesis
    proof (cases "nr_pdcp_new_sdu (pdcp_rcvd_count e sn) (drop (nat (pdcp_header_size e))
          (pdcp_decipher P e (pdcp_rcvd_count e sn) (pdcp_fix_dc_bit e b)))
          (int (length b) - pdcp_header_size e - pdcp_integrity_size e)")
      case (Inl x)
      then show ?thesis using assms False sn
        by (auto simp: nr_pdcp_entity_recv_pdu_def Let_def dc split: if_splits)
    next
      case (Inr s)
      obtain e2 d where "pdcp_rx_deliver (pdcp_rx_insert e s (int (length b) - pdcp_header_size e))
           (pdcp_rcvd_count e sn) = (e2, d)" by fastforce
      then show ?thesis using assms False sn Inr
        by (auto simp: nr_pdcp_entity_recv_pdu_def Let_def dc split: if_splits)
    qed
  qed
qed

definition pdcp_rx_drift :: "nr_pdcp_entity \<Rightarrow> int" where
  "pdcp_rx_drift e = pe_rx_size e - sum_list (map ps_size (pe_rx_list e))"

lemma pdcp_deliver_from_drift: "pdcp_deliver_from e c = (e', d) \<Longrightarrow> pdcp_rx_drift e' = pdcp_rx_drift e"
  by (auto simp: pdcp_deliver_from_def pdcp_rx_drift_def split: prod.splits dest!: pdcp_deliver_seq_split)

lemma pdcp_rx_timer_drift: "pdcp_rx_drift (pdcp_rx_timer e) = pdcp_rx_drift e"
  by (simp add: pdcp_rx_timer_def pdcp_reordering_start_def pdcp_rx_drift_def Let_def)

lemma sum_list_sizes_add:
  "sum_list (map ps_size (nr_pdcp_sdu_list_add l s)) = ps_size s + sum_list (map ps_size l)"
  by (induction l) auto

lemma pdcp_rx_insert_drift: "pdcp_rx_drift (pdcp_rx_insert e s n) = pdcp_rx_drift e + n - ps_size s"
  by (simp add: pdcp_rx_insert_def pdcp_rx_drift_def Let_def sum_list_sizes_add)

lemma check_t_reordering_drift: "check_t_reordering e = (e', ev) \<Longrightarrow> pdcp_rx_drift e' = pdcp_rx_drift e"
  by (auto simp: check_t_reordering_def Let_def pdcp_rx_drift_def split: if_splits prod.splits
      dest!: pdcp_deliver_below_split pdcp_deliver_from_drift)

lemma pdcp_recv_pdu_outcome_eq:
  assumes "ctr_mode P"
  shows "nr_pdcp_entity_recv_pdu P e b =
     (if 0 < length b \<and> int (length b) < pdcp_header_size e then Inl OutOfBounds
      else Inr (projr (nr_pdcp_entity_recv_pdu P e b)))"
proof -
  have dl: "length (pdcp_decipher P e c (pdcp_fix_dc_bit e b)) = length b" for c
    by (simp add: pdcp_decipher_length [OF assms] pdcp_fix_dc_bit_def)
  have fl: "length (pdcp_fix_dc_bit e b) = length b" by (simp add: pdcp_fix_dc_bit_def)
  have hs: "pdcp_header_size e = 2 \<or> pdcp_header_size e = 3" "0 \<le> pdcp_integrity_size e"
    by (auto simp: pdcp_header_size_def pdcp_integrity_size_def)
  show ?thesis
  proof (cases "0 < length b \<and> int (length b) < pdcp_header_size e")
    case True
    then show ?thesis
      using fl by (auto simp: nr_pdcp_entity_recv_pdu_def pdcp_rcvd_sn_def pdcp_header_size_def Let_def)
  next
    case False
    then obtain r where "nr_pdcp_entity_recv_pdu P e b = Inr r"
    proof (cases "length b = 0")
      case True
      then show ?thesis using that by (simp add: nr_pdcp_entity_recv_pdu_def)
    next
      case pos: False
      obtain sn where "pdcp_rcvd_sn e (pdcp_fix_dc_bit e b) = Inr sn"
        using False pos fl by (auto simp: pdcp_rcvd_sn_def pdcp_header_size_def split: if_splits)
      moreover have "nr_pdcp_new_sdu c (drop (nat (pdcp_header_size e))
          (pdcp_decipher P e c (pdcp_fix_dc_bit e b)))
          (int (length b) - pdcp_header_size e - pdcp_integrity_size e) \<noteq> Inl x"
        if "\<not> int (length b) < pdcp_header_size e + pdcp_integrity_size e + 1" for c x
        using that hs dl [of c] by (auto simp: nr_pdcp_new_sdu_def read_at_def)
      ultimately show ?thesis using that pos
        by (fastforce simp: nr_pdcp_entity_recv_pdu_def Let_def bnd_def split: if_splits sum.splits prod.splits)
    qed
    then show ?thesis using False by auto
  qed
qed

subsection \<open>Example entities\<close>

definition pdcp_drb :: "bool \<Rightarrow> int \<Rightarrow> nr_pdcp_entity" where
  "pdcp_drb is_gnb alg = projr (new_nr_pdcp_entity NR_PDCP_DRB_AM is_gnb 4 1 False False False
     12 100 (-1) alg alg (Some (replicate 16 1)) (Some (replicate 16 2)))"

lemma pdcp_drb_new:
  assumes "alg = 0 \<or> alg = 2"
  shows "new_nr_pdcp_entity NR_PDCP_DRB_AM is_gnb 4 1 False False False
     12 100 (-1) alg alg (Some (replicate 16 1)) (Some (replicate 16 2)) = Inr (pdcp_drb is_gnb alg)"
  using assms by (auto simp: pdcp_drb_def new_nr_pdcp_entity_def nr_pdcp_entity_set_security_def
      pdcp_set_integrity_def pdcp_set_ciphering_def)

lemma pdcp_drb_inv: "alg = 0 \<or> alg = 2 \<Longrightarrow> pdcp_inv (pdcp_drb g alg)"
  using new_nr_pdcp_entity_inv(1) [OF pdcp_drb_new] by simp

subsection \<open>Properties\<close>

text \<open>
  C3: in-order delivery without duplicates.  Whatever PDUs arrive (reordered, repeated, malformed), whenever the timer fires,
  whatever is transmitted or reconfigured in between: up to and including the first delivery with the last COUNT value, $2^{32}-1$,
  the SDUs a PDCP entity hands to the upper layer have strictly increasing COUNT; and as long as that COUNT has not been
  delivered, every SDU still stored has a larger COUNT than all of them.
\<close>

theorem pdcp_in_order_delivery:
  assumes "new_nr_pdcp_entity ty g rb ps hs hu hdl sn tr dt ca ia ck ik = Inr e0"
    and "sn = 12 \<or> sn = 18" and "pdcp_history P e0 ds e"
  shows "sorted_wrt (<) (map ps_count (first_cycle ds)) \<and>
    (- 1 \<notin> ps_count ` set ds \<longrightarrow> first_cycle ds = ds \<and> (\<forall>s\<in>set ds. \<forall>t\<in>set (pe_rx_list e). ps_count s < ps_count t))"
proof -
  have s: "pdcp_sound ds e" by (rule pdcp_history_sound [OF assms(3) new_nr_pdcp_entity_inv(1) [OF assms(1,2)]])
  have "first_cycle ds = ds" if "- 1 \<notin> ps_count ` set ds"
    using first_cycle_append [of ds "[]"] that by (simp add: first_cycle_def)
  then show ?thesis using s by (auto simp: pdcp_sound_def pdcp_order_inv_def intro: less_trans)
qed

lemma pdcp_reordered_run:
  "\<exists>e1 e2 d. nr_pdcp_entity_recv_pdu toy_crypto (pdcp_drb True 0) [0x80, 1, 0xAA] = Inr (e1, []) \<and>
     nr_pdcp_entity_recv_pdu toy_crypto e1 [0x80, 0, 0xBB] = Inr (e2, map DeliverSdu d) \<and> map ps_count d = [0, 1]"
proof -
  define r1 where "r1 = nr_pdcp_entity_recv_pdu toy_crypto (pdcp_drb True 0) [0x80, 1, 0xAA]"
  define r2 where "r2 = nr_pdcp_entity_recv_pdu toy_crypto (fst (projr r1)) [0x80, 0, 0xBB]"
  have "isl r1 = False" "snd (projr r1) = []" "isl r2 = False"
    "snd (projr r2) = map DeliverSdu (pdcp_delivered (snd (projr r2)))"
    "map ps_count (pdcp_delivered (snd (projr r2))) = [0, 1]"
    unfolding r2_def r1_def by code_simp+
  then show ?thesis
    by - (rule exI [of _ "fst (projr r1)"], rule exI [of _ "fst (projr r2)"],
        rule exI [of _ "pdcp_delivered (snd (projr r2))"],
        cases r1; cases r2; auto simp: r1_def [symmetric] r2_def)
qed

lemma pdcp_reordered_history:
  "\<exists>ds e. pdcp_history toy_crypto (pdcp_drb True 0) ds e \<and> map ps_count ds = [0, 1]"
proof -
  obtain e1 e2 d where r: "nr_pdcp_entity_recv_pdu toy_crypto (pdcp_drb True 0) [0x80, 1, 0xAA] = Inr (e1, [])"
    "nr_pdcp_entity_recv_pdu toy_crypto e1 [0x80, 0, 0xBB] = Inr (e2, map DeliverSdu d)" "map ps_count d = [0, 1]"
    using pdcp_reordered_run by (elim exE conjE) (rule that)
  have "pdcp_history toy_crypto (pdcp_drb True 0) d e2"
    using pdcp_history.recv_pdu [OF pdcp_history.recv_pdu [OF pdcp_history.start r(1)], of _ e2] r(2) by fastforce
  then show ?thesis using r(3) by (intro exI conjI)
qed

lemma pdcp_no_last_count: "map ps_count ds = [0, 1] \<Longrightarrow> - 1 \<notin> ps_count ` set ds"
  using set_map [of ps_count ds] by auto

theorem pdcp_in_order_delivery_witness:
  "\<exists>ds e. pdcp_history toy_crypto (pdcp_drb True 0) ds e \<and> map ps_count ds = [0, 1] \<and>
     sorted_wrt (<) (map ps_count ds)"
proof -
  obtain ds e where h: "pdcp_history toy_crypto (pdcp_drb True 0) ds e" "map ps_count ds = [0, 1]"
    using pdcp_reordered_history by (elim exE conjE) (rule that)
  have "sorted_wrt (<) (map ps_count ds)"
    using pdcp_in_order_delivery [OF pdcp_drb_new [of 0 True] _ h(1)] pdcp_no_last_count [OF h(2)] by fastforce
  then show ?thesis using h by (intro exI conjI)
qed

text \<open>
  C14: the receiver's invariant, over every history.  As long as the last COUNT value, $2^{32}-1$, has not been delivered, the stored
  SDUs are strictly ordered by COUNT and strictly above \<open>rx_deliv\<close>, their sizes are the lengths of their buffers, and a running
  reordering timer has \<open>rx_deliv < rx_reord\<close>.  As long as that COUNT is not stored either, the stored SDUs are also
  below \<open>rx_next\<close>, and a running timer has \<open>rx_reord \<le> rx_next\<close>.  Once it has been accepted, \<open>rx_next\<close> is no bound: storing that
  COUNT sets \<open>rx_next\<close> to 0.
\<close>

theorem pdcp_invariant:
  assumes "pdcp_inv e0" and "pdcp_history P e0 ds e"
  shows "(- 1 \<notin> ps_count ` set ds \<longrightarrow> pdcp_order_inv e) \<and>
    (- 1 \<notin> ps_count ` (set ds \<union> set (pe_rx_list e)) \<longrightarrow> pdcp_inv e) \<and>
    (\<forall>s n. ps_count s = - 1 \<longrightarrow> pe_rx_next (pdcp_rx_insert e s n) = 0)"
proof -
  have "pdcp_sound ds e" by (rule pdcp_history_sound [OF assms(2,1)])
  then show ?thesis by (auto simp: pdcp_sound_def pdcp_rx_insert_def Let_def)
qed

theorem pdcp_invariant_witness:
  "\<exists>ds e. pdcp_history toy_crypto (pdcp_drb True 0) ds e \<and> map ps_count ds = [0, 1] \<and> pdcp_order_inv e"
proof -
  obtain ds e where h: "pdcp_history toy_crypto (pdcp_drb True 0) ds e" "map ps_count ds = [0, 1]"
    using pdcp_reordered_history by (elim exE conjE) (rule that)
  have "pdcp_order_inv e" using pdcp_invariant [OF pdcp_drb_inv h(1)] pdcp_no_last_count [OF h(2)] by simp
  then show ?thesis using h by (intro exI conjI)
qed

text \<open>
  Recovery of the COUNT.  The receiver sees only the low bits of the transmitter's COUNT.
  If that COUNT lies in the half-open window of \<open>window_size\<close> around \<open>rx_deliv\<close>, the HFN
  the code infers is the right one and it computes exactly the transmitter's COUNT.
\<close>

theorem pdcp_count_recovered:
  fixes c :: u32
  assumes "pdcp_conf e"
    and "uint (pe_rx_deliv e) - pe_window_size e \<le> uint c"
    and "uint c < uint (pe_rx_deliv e) + pe_window_size e"
  shows "pdcp_rcvd_count e (uint (c AND word_of_int (pe_sn_max e))) = c"
  by (rule pdcp_count_recovery [OF assms])

theorem pdcp_count_recovered_witness:
  "pdcp_rcvd_count (pdcp_drb True 0\<lparr>pe_rx_deliv := 4000\<rparr>)
     (uint ((5000 :: u32) AND word_of_int (pe_sn_max (pdcp_drb True 0)))) = 5000"
proof -
  let ?e = "pdcp_drb True 0\<lparr>pe_rx_deliv := 4000\<rparr>"
  have c: "pdcp_conf ?e" "pe_window_size ?e = 2048" "pe_rx_deliv ?e = 4000"
    by (simp_all add: pdcp_conf_def pdcp_drb_def new_nr_pdcp_entity_def nr_pdcp_entity_set_security_def
      pdcp_set_integrity_def pdcp_set_ciphering_def)
  show ?thesis using pdcp_count_recovered [OF c(1), of 5000] c by simp
qed

text \<open>
  C7: the round trip between two peers with the same bearer, SN length and keys.  A PDU that
  the transmitter builds for a non-empty SDU is accepted by the receiver if its COUNT is new and
  inside the window; integrity verifies, and the receiver hands up exactly the bytes of the SDU at
  once when it is the next one expected, and otherwise stores them under the right COUNT.
\<close>

theorem pdcp_roundtrip:
  assumes "pdcp_peers t r" and "ctr_mode P" and "cmac_output P"
    and "pdcp_inv r" and "b \<noteq> []"
    and "uint (pe_tx_next t) < uint (pe_rx_deliv r) + pe_window_size r"
    and "pe_rx_deliv r \<le> pe_tx_next t" and "\<not> nr_pdcp_sdu_in_list (pe_rx_list r) (pe_tx_next t)"
  shows "nr_pdcp_entity_recv_sdu P t b i =
           (t\<lparr>pe_tx_next := pe_tx_next t + 1\<rparr>, [DeliverPdu (pdcp_tx_pdu P t b) i]) \<and>
    (\<exists>r' d. nr_pdcp_entity_recv_pdu P r (pdcp_tx_pdu P t b) = Inr (r', map DeliverSdu d) \<and>
     (if pe_tx_next t = pe_rx_deliv r
      then d \<noteq> [] \<and> hd d = \<lparr>ps_count = pe_tx_next t, ps_buffer = b, ps_size = int (length b)\<rparr>
      else d = [] \<and> \<lparr>ps_count = pe_tx_next t, ps_buffer = b, ps_size = int (length b)\<rparr>
                       \<in> set (pe_rx_list r')))"
  using pdcp_peers_roundtrip [OF assms] pdcp_tx_pdu_shape(2) [of P t b i] by blast

theorem pdcp_roundtrip_witness:
  "\<exists>r' d. nr_pdcp_entity_recv_pdu toy_crypto (pdcp_drb True 2)
       (pdcp_tx_pdu toy_crypto (pdcp_drb False 2) [1, 2, 3]) = Inr (r', map DeliverSdu d) \<and>
     hd d = \<lparr>ps_count = 0, ps_buffer = [1, 2, 3], ps_size = 3\<rparr>"
proof -
  let ?t = "pdcp_drb False 2" and ?r = "pdcp_drb True 2"
  have c: "pdcp_peers ?t ?r" "pe_window_size ?r = 2048" "pe_rx_deliv ?r = 0" "pe_tx_next ?t = 0"
    "pe_rx_list ?r = []"
    by (simp_all add: pdcp_peers_def pdcp_drb_def new_nr_pdcp_entity_def nr_pdcp_entity_set_security_def
      pdcp_set_integrity_def pdcp_set_ciphering_def)
  show ?thesis
    using pdcp_roundtrip [OF c(1) toy_crypto_ctr_mode toy_crypto_cmac_output, of "[1, 2, 3]" 0]
      pdcp_drb_inv [of 2 True] c
    by auto
qed


lemma deliver_below_filter:
  "pdcp_deliver_below l r = (d, l') \<Longrightarrow> sorted_wrt (<) (map ps_count l) \<Longrightarrow> d = filter (\<lambda>s. ps_count s < r) l"
proof -
  assume "pdcp_deliver_below l r = (d, l')" "sorted_wrt (<) (map ps_count l)"
  then have "l = d @ l'" "\<forall>s\<in>set d. ps_count s < r" "\<forall>s\<in>set l'. \<not> ps_count s < r"
    using pdcp_deliver_below_split pdcp_deliver_below_rest by (auto simp: not_less)
  then show ?thesis by simp
qed

lemma deliver_seq_run:
  "pdcp_deliver_seq l c = (d, l', c') \<Longrightarrow>
   map ps_count d = map (\<lambda>i. c + of_nat i) [0..<length d] \<and> c' = c + of_nat (length d)"
proof (induction l c arbitrary: d l' c' rule: pdcp_deliver_seq.induct)
  case (2 cur rest cnt)
  show ?case
  proof (cases "cnt = ps_count cur")
    case True
    obtain d2 where d: "pdcp_deliver_seq rest (cnt + 1) = (d2, l', c')" "d = cur # d2"
      using 2(2) True by (auto split: prod.splits)
    have "map ps_count d2 = map (\<lambda>i. cnt + of_nat i) (map Suc [0..<length d2])" "c' = cnt + of_nat (length d)"
      using 2(1) [OF True d(1)] d(2) by (simp_all add: add.assoc comp_def)
    moreover have "[0..<length d] = 0 # map Suc [0..<length d2]" by (simp add: d(2) upt_conv_Cons map_Suc_upt del: upt_Suc)
    ultimately show ?thesis using True d(2) by (simp only: list.map) simp
  qed (use 2(2) in auto)
qed simp

text \<open>
  C32: expiry of the reordering timer, in any state that satisfies the receiver's invariant.  When \<open>t_reordering\<close> has run out,
  the entity hands up, in order, exactly the stored SDUs
  below \<open>rx_reord\<close> followed by a run of SDUs with the consecutive COUNTs from \<open>rx_reord\<close> on; \<open>rx_deliv\<close> becomes the COUNT after
  this run, which is not stored, so the run is the longest one; what stays stored is above it; and the timer runs again (for the
  SDUs up to \<open>rx_next\<close>) exactly when a gap remains.
\<close>

theorem pdcp_t_reordering_expiry:
  assumes inv: "pdcp_inv e" and fin: "pe_t_reordering e \<noteq> -1" and run: "pe_t_reordering_start e \<noteq> 0"
    and late: "u64_of_int (int_add (pe_t_reordering_start e) (pe_t_reordering e)) < now"
    and st: "nr_pdcp_entity_set_time e now = (e', ev)"
  shows "(\<exists>d. pdcp_delivered ev = filter (\<lambda>s. ps_count s < pe_rx_reord e) (pe_rx_list e) @ d \<and>
      map ps_count d = map (\<lambda>i. pe_rx_reord e + of_nat i) [0..<length d] \<and>
      pe_rx_deliv e' = pe_rx_reord e + of_nat (length d)) \<and>
    pe_rx_list e = pdcp_delivered ev @ pe_rx_list e' \<and> pe_rx_reord e \<le> pe_rx_deliv e' \<and>
    (\<forall>s\<in>set (pdcp_delivered ev). ps_count s < pe_rx_deliv e') \<and>
    (\<forall>s\<in>set (pe_rx_list e'). pe_rx_deliv e' < ps_count s) \<and>
    (if pe_rx_deliv e' < pe_rx_next e
     then pe_rx_reord e' = pe_rx_next e \<and> pe_t_reordering_start e' = int_of_u64 now
     else pe_t_reordering_start e' = 0)"
proof -
  obtain d1 l1 where d1: "pdcp_deliver_below (pe_rx_list e) (pe_rx_reord e) = (d1, l1)"
    by fastforce
  obtain d2 l2 c where d2: "pdcp_deliver_seq l1 (pe_rx_reord e) = (d2, l2, c)"
    by (cases "pdcp_deliver_seq l1 (pe_rx_reord e)") auto
  have ev: "pdcp_delivered ev = d1 @ d2" and e': "pe_rx_list e' = l2" "pe_rx_deliv e' = c"
    and tm: "if c < pe_rx_next e
             then pe_rx_reord e' = pe_rx_next e \<and> pe_t_reordering_start e' = int_of_u64 now
             else pe_t_reordering_start e' = 0"
    using st fin run late d1 d2
    by (auto simp: nr_pdcp_entity_set_time_def check_t_reordering_def pdcp_deliver_from_def Let_def
        not_le [symmetric] simp flip: map_append)
  have "pdcp_progress e (pdcp_delivered ev) e'" by (rule pdcp_set_time_progress [OF inv st])
  then have "\<forall>s\<in>set (pdcp_delivered ev). ps_count s < pe_rx_deliv e'"
    "\<forall>s\<in>set (pe_rx_list e'). pe_rx_deliv e' < ps_count s"
    by (auto simp: pdcp_progress_def pdcp_inv_def pdcp_list_inv_def)
  moreover have "pe_rx_reord e \<le> c"
  proof -
    have li: "sorted_wrt (<) (map ps_count l1)" "\<forall>s\<in>set l1. ps_count s < pe_rx_next e"
      using inv pdcp_deliver_below_split [OF d1]
      by (auto simp: pdcp_inv_def pdcp_list_inv_def sorted_wrt_append)
    have "\<forall>s\<in>set l1. pe_rx_reord e \<le> ps_count s"
      using pdcp_deliver_below_rest [OF d1] inv by (simp add: pdcp_inv_def pdcp_list_inv_def)
    then show ?thesis
      using pdcp_deliver_seq_bounds [OF d2 li(1), of "pe_rx_next e"] li(2) inv run
      by (simp add: pdcp_inv_def)
  qed
  moreover have "d1 = filter (\<lambda>s. ps_count s < pe_rx_reord e) (pe_rx_list e)"
    using deliver_below_filter [OF d1] inv by (simp add: pdcp_inv_def pdcp_list_inv_def)
  moreover have "pe_rx_list e = pdcp_delivered ev @ pe_rx_list e'"
    using ev e' pdcp_deliver_below_split [OF d1] pdcp_deliver_seq_split [OF d2] by auto
  ultimately show ?thesis
    using tm deliver_seq_run [OF d2] unfolding ev e' by blast
qed

lemma pdcp_timer_run:
  "\<exists>e1. nr_pdcp_entity_recv_pdu toy_crypto (fst (nr_pdcp_entity_set_time (pdcp_drb True 0) 5)) [0x80, 1, 0xAA]
       = Inr (e1, []) \<and> pe_t_reordering e1 = 100 \<and> pe_t_reordering_start e1 = 5 \<and>
     pe_rx_reord e1 = 2 \<and> map ps_count (pe_rx_list e1) = [1] \<and> pe_rx_next e1 = 2 \<and> pdcp_inv e1"
proof -
  let ?e0 = "fst (nr_pdcp_entity_set_time (pdcp_drb True 0) 5)"
  define r1 where "r1 = nr_pdcp_entity_recv_pdu toy_crypto ?e0 [0x80, 1, 0xAA]"
  have c: "isl r1 = False" "snd (projr r1) = []" "pe_t_reordering (fst (projr r1)) = 100"
    "pe_t_reordering_start (fst (projr r1)) = 5" "pe_rx_reord (fst (projr r1)) = 2" "map ps_count (pe_rx_list (fst (projr r1))) = [1]"
    "pe_rx_next (fst (projr r1)) = 2"
    unfolding r1_def by code_simp+
  have r: "nr_pdcp_entity_recv_pdu toy_crypto ?e0 [0x80, 1, 0xAA] = Inr (fst (projr r1), [])"
    using c(1,2) unfolding r1_def [symmetric] by (cases r1) auto
  have e0: "pdcp_inv ?e0"
    using pdcp_set_time_progress [OF pdcp_drb_inv [of 0 True]]
    by (cases "nr_pdcp_entity_set_time (pdcp_drb True 0) 5") (auto simp: pdcp_progress_def)
  have n: "- 1 \<notin> ps_count ` (set (pdcp_delivered []) \<union> set (pe_rx_list (fst (projr r1))))"
    using c(6) by (simp flip: set_map)
  have "pdcp_inv (fst (projr r1))" using recv_pdu_call [OF r, unfolded pdcp_call_def] e0 n by blast
  then show ?thesis using r c(3-7) by (intro exI conjI)
qed

theorem pdcp_t_reordering_expiry_witness:
  "\<exists>e1 e2 ev. pe_t_reordering_start e1 = 5 \<and> nr_pdcp_entity_set_time e1 106 = (e2, ev) \<and>
     map ps_count (pdcp_delivered ev) = [1] \<and> pe_rx_deliv e2 = 2 \<and> pe_t_reordering_start e2 = 0"
proof -
  let ?e0 = "fst (nr_pdcp_entity_set_time (pdcp_drb True 0) 5)"
  obtain e1 where e1: "nr_pdcp_entity_recv_pdu toy_crypto ?e0 [0x80, 1, 0xAA] = Inr (e1, [])"
    "pe_t_reordering e1 = 100" "pe_t_reordering_start e1 = 5" "pe_rx_reord e1 = 2" "map ps_count (pe_rx_list e1) = [1]"
    "pe_rx_next e1 = 2" "pdcp_inv e1"
    using pdcp_timer_run by (elim exE conjE) (rule that)
  obtain e2 ev where e2: "nr_pdcp_entity_set_time e1 106 = (e2, ev)" by fastforce
  obtain s where s: "pe_rx_list e1 = [s]" "ps_count s = 1" using e1(5) by auto
  have late: "u64_of_int (int_add 5 100) < (106 :: u64)" by (simp add: u64_of_int_def int_add_def)
  have h: "pe_t_reordering e1 \<noteq> - 1" "pe_t_reordering_start e1 \<noteq> 0"
    "u64_of_int (int_add (pe_t_reordering_start e1) (pe_t_reordering e1)) < 106"
    using e1(2,3) late by simp_all
  from pdcp_t_reordering_expiry [OF e1(7) h e2] obtain d where d: "pdcp_delivered ev = filter (\<lambda>s. ps_count s < pe_rx_reord e1) (pe_rx_list e1) @ d"
      "pe_rx_deliv e2 = pe_rx_reord e1 + of_nat (length d)" "pe_rx_list e1 = pdcp_delivered ev @ pe_rx_list e2"
      "if pe_rx_deliv e2 < pe_rx_next e1 then pe_rx_reord e2 = pe_rx_next e1 \<and> pe_t_reordering_start e2 = int_of_u64 106
       else pe_t_reordering_start e2 = 0"
    by (elim exE conjE) (rule that)
  have ev: "pdcp_delivered ev = s # d" using d(1) s e1(4) by simp
  then have d0: "d = []" using d(3) s(1) by simp
  have "map ps_count (pdcp_delivered ev) = [1]" "pe_rx_deliv e2 = 2" "pe_t_reordering_start e2 = 0"
    using d(2,4) ev s(2) e1(4,6) by (simp_all add: d0)
  then show ?thesis using e1(3) e2 by (intro exI conjI)
qed

text \<open>
  C39: the integrity check never stops a PDU.  The code logs \<open>discard NR PDU, integrity failed\<close>
  but the \<open>return\<close> is commented out: whatever MAC function is used, the same state and the same
  deliveries follow, so a PDU with a wrong MAC-I is delivered like a correct one.
\<close>

theorem pdcp_integrity_not_enforced:
  assumes "nr_pdcp_entity_recv_pdu P e b = Inr (e', ev)"
  shows "\<exists>ev'. nr_pdcp_entity_recv_pdu (P\<lparr>aes_cmac := m\<rparr>) e b = Inr (e', ev') \<and>
    pdcp_delivered ev' = pdcp_delivered ev"
  by (rule pdcp_integrity_irrelevant [OF assms])

lemma pdcp_forged_run:
  "\<exists>e' s. nr_pdcp_entity_recv_pdu toy_crypto (pdcp_drb True 2) [0x80, 0, 1, 2, 3, 4, 5]
     = Inr (e', [IntegrityFailed, DeliverSdu s])"
proof -
  define r1 where "r1 = nr_pdcp_entity_recv_pdu toy_crypto (pdcp_drb True 2) [0x80, 0, 1, 2, 3, 4, 5]"
  have "isl r1 = False" "snd (projr r1) = [IntegrityFailed, DeliverSdu (hd (pdcp_delivered (snd (projr r1))))]"
    unfolding r1_def by code_simp+
  then show ?thesis by (cases r1) (auto simp: r1_def [symmetric])
qed

theorem pdcp_integrity_not_enforced_witness:
  "\<exists>e' s ev'. nr_pdcp_entity_recv_pdu toy_crypto (pdcp_drb True 2) [0x80, 0, 1, 2, 3, 4, 5]
     = Inr (e', [IntegrityFailed, DeliverSdu s]) \<and>
   nr_pdcp_entity_recv_pdu (toy_crypto\<lparr>aes_cmac := \<lambda>k m. replicate 16 0\<rparr>) (pdcp_drb True 2)
     [0x80, 0, 1, 2, 3, 4, 5] = Inr (e', ev') \<and> pdcp_delivered ev' = [s]"
proof -
  obtain e' s where r: "nr_pdcp_entity_recv_pdu toy_crypto (pdcp_drb True 2) [0x80, 0, 1, 2, 3, 4, 5]
     = Inr (e', [IntegrityFailed, DeliverSdu s])"
    using pdcp_forged_run by (elim exE) (rule that)
  show ?thesis using pdcp_integrity_not_enforced [OF r, of "\<lambda>k m. replicate 16 0"] r by auto
qed

text \<open>
  HFN underflow in the first window.  While \<open>rx_deliv\<close> is still in the first cycle of
  sequence numbers, a PDU whose SN is \<open>window_size\<close> or more above it gets the HFN $0 - 1$, which
  wraps: its COUNT is $2^{32} - 2^{\<open>sn_size\<close>} + SN$, above \<open>rx_deliv\<close>, so the code takes a
  PDU that is too old or bogus for a new one.
\<close>

theorem pdcp_hfn_underflow:
  assumes "pdcp_conf e" and "uint (pe_rx_deliv e) < 2 ^ pe_sn_size e"
    and "uint (pe_rx_deliv e) + pe_window_size e \<le> sn" and "sn < 2 ^ pe_sn_size e"
  shows "uint (pdcp_rcvd_count e sn) = 2 ^ 32 - 2 ^ pe_sn_size e + sn \<and>
         pe_rx_deliv e < pdcp_rcvd_count e sn"
  by (rule pdcp_hfn_minus_one [OF assms])

theorem pdcp_hfn_underflow_witness:
  "uint (pdcp_rcvd_count (pdcp_drb True 0) 4095) = 2 ^ 32 - 1"
proof -
  let ?e = "pdcp_drb True 0"
  have c: "pdcp_conf ?e" "pe_window_size ?e = 2048" "pe_rx_deliv ?e = 0" "pe_sn_size ?e = 12"
    by (simp_all add: pdcp_conf_def pdcp_drb_def new_nr_pdcp_entity_def nr_pdcp_entity_set_security_def
      pdcp_set_integrity_def pdcp_set_ciphering_def)
  show ?thesis using pdcp_hfn_underflow [OF c(1), of 4095] c by simp
qed

text \<open>
  The outcome of \<open>recv_pdu\<close> for every length of PDU.  An empty PDU is ignored; a
  non-empty PDU shorter than the header makes the code read the sequence number beyond its end,
  before the size check that would have rejected it; every other PDU is processed and the call
  returns.
\<close>

theorem pdcp_recv_pdu_outcome:
  assumes "ctr_mode P"
  shows "if 0 < length b \<and> int (length b) < pdcp_header_size e
    then nr_pdcp_entity_recv_pdu P e b = Inl OutOfBounds
    else \<exists>r. nr_pdcp_entity_recv_pdu P e b = Inr r"
proof (cases "0 < length b \<and> int (length b) < pdcp_header_size e")
  case True
  then show ?thesis using pdcp_recv_pdu_outcome_eq [OF assms, of e b] by simp
next
  case False
  then have "nr_pdcp_entity_recv_pdu P e b = Inr (projr (nr_pdcp_entity_recv_pdu P e b))"
    using pdcp_recv_pdu_outcome_eq [OF assms, of e b] by argo
  then show ?thesis using False by metis
qed

theorem pdcp_recv_pdu_outcome_witness:
  "nr_pdcp_entity_recv_pdu toy_crypto (pdcp_drb True 0) [0x80] = Inl OutOfBounds"
  using pdcp_recv_pdu_outcome [OF toy_crypto_ctr_mode, of "[0x80]" "pdcp_drb True 0"]
  by (auto simp: pdcp_header_size_def split: if_splits)

text \<open>
  The accounting of \<open>rx_size\<close>.  An accepted PDU adds its size without the header, the
  delivery subtracts the size of the SDU, without the MAC-I: with integrity or on an SRB every
  accepted PDU leaves \<open>rx_size\<close> four bytes above the bytes really stored, for ever.
\<close>

theorem pdcp_rx_size_leak:
  assumes "nr_pdcp_entity_recv_pdu P e b = Inr (e', ev)"
  shows "e' = e \<and> pdcp_delivered ev = [] \<or>
         pdcp_rx_drift e' = pdcp_rx_drift e + pdcp_integrity_size e \<and>
         length (pe_rx_list e') + length (pdcp_delivered ev) = length (pe_rx_list e) + 1"
proof -
  have tl: "pe_rx_list (pdcp_rx_timer x) = pe_rx_list x" for x
    by (simp add: pdcp_rx_timer_def pdcp_reordering_start_def Let_def)
  have dl: "pdcp_rx_deliver x c = (y, d) \<Longrightarrow>
      pdcp_rx_drift y = pdcp_rx_drift x \<and> length (pe_rx_list y) + length d = length (pe_rx_list x)" for x c y d
    by (auto simp: pdcp_rx_deliver_def pdcp_deliver_from_drift split: if_splits)
      (auto simp: pdcp_deliver_from_def dest!: pdcp_deliver_seq_split split: prod.splits)
  have il: "length (pe_rx_list (pdcp_rx_insert x s n)) = length (pe_rx_list x) + 1" for x s n
    by (simp add: pdcp_rx_insert_def Let_def pdcp_list_add_facts)
  show ?thesis using assms
  proof (cases rule: nr_pdcp_entity_recv_pdu_cases)
    case drop
    then show ?thesis by simp
  next
    case (accept sn s e2 d)
    then show ?thesis using dl [OF accept(6)] il
      by (simp add: pdcp_rx_timer_drift pdcp_rx_insert_drift tl)
  qed
qed


theorem pdcp_rx_size_leak_witness:
  "\<exists>e' ev. nr_pdcp_entity_recv_pdu toy_crypto (pdcp_drb True 2) [0x80, 0, 1, 2, 3, 4, 5] = Inr (e', ev) \<and>
     pdcp_delivered ev \<noteq> [] \<and> pdcp_rx_drift e' = pdcp_rx_drift (pdcp_drb True 2) + 4"
proof -
  obtain e' s where r: "nr_pdcp_entity_recv_pdu toy_crypto (pdcp_drb True 2) [0x80, 0, 1, 2, 3, 4, 5]
     = Inr (e', [IntegrityFailed, DeliverSdu s])"
    using pdcp_forged_run by (elim exE) (rule that)
  have "pdcp_integrity_size (pdcp_drb True 2) = 4"
    by (simp add: pdcp_integrity_size_def pdcp_drb_def new_nr_pdcp_entity_def
        nr_pdcp_entity_set_security_def pdcp_set_integrity_def pdcp_set_ciphering_def)
  then show ?thesis using pdcp_rx_size_leak [OF r] r by auto
qed

text \<open>
  Security configuration.  \<open>set_security\<close> ends the process for an algorithm other than
  0, 2 or the keep value -1; otherwise it returns, leaves the data transfer state alone, and the
  algorithm and key in use are the requested ones (or, for -1, the ones in use before).
\<close>

theorem pdcp_set_security_outcome:
  "if ia \<in> {-1, 0, 2} \<and> ca \<in> {-1, 0, 2}
   then \<exists>e'. nr_pdcp_entity_set_security e ia (Some ik) ca (Some ck) = Inr e' \<and>
     pe_has_integrity e' = (if ia = -1 then pe_has_integrity e else ia = 2) \<and>
     pe_has_ciphering e' = (if ca = -1 then pe_has_ciphering e else ca = 2) \<and>
     pe_integrity_context e' = (if ia = 2 then take 16 ik else pe_integrity_context e) \<and>
     pe_security_context e' = (if ca = 2 then take 16 ck else pe_security_context e) \<and>
     pe_rx_list e' = pe_rx_list e \<and> pe_rx_deliv e' = pe_rx_deliv e \<and>
     pe_rx_next e' = pe_rx_next e \<and> pe_tx_next e' = pe_tx_next e
   else nr_pdcp_entity_set_security e ia (Some ik) ca (Some ck) = Inl Exit"
  by (auto simp: nr_pdcp_entity_set_security_def pdcp_set_integrity_def pdcp_set_ciphering_def Let_def
      nr_pdcp_integrity_nia2_init_def nr_pdcp_security_nea2_init_def guard_def)

end
