(* ===== verification/Sdap.thy ===== *)
theory Sdap
  imports Prelude
begin

text \<open>
  SDAP (\<open>openair2/SDAP/nr_sdap\<close>): the table from QoS flows to bearers, the one-byte header, the
  two directions of data transfer with reflective mapping and end markers, and the list of the
  entities of all UEs.  Calls of other layers are events in the order the code makes them.
\<close>

subsection \<open>Headers\<close>

text \<open>The packed bit fields, least significant first.\<close>

record nr_sdap_dl_hdr =
  dl_QFI :: int
  dl_RQI :: bool
  dl_RDI :: bool

record nr_sdap_ul_hdr =
  ul_QFI :: int
  ul_R :: bool
  ul_DC :: bool

definition hdr_byte :: "int \<Rightarrow> bool \<Rightarrow> bool \<Rightarrow> byte" where
  "hdr_byte qfi b6 b7 = (word_of_int qfi AND 0x3F) OR (if b6 then 0x40 else 0) OR (if b7 then 0x80 else 0)"

definition dl_hdr_byte :: "nr_sdap_dl_hdr \<Rightarrow> byte" where
  "dl_hdr_byte h = hdr_byte (dl_QFI h) (dl_RQI h) (dl_RDI h)"

definition dl_hdr_of :: "byte \<Rightarrow> nr_sdap_dl_hdr" where
  "dl_hdr_of b = \<lparr>dl_QFI = uint (b AND 0x3F), dl_RQI = bit b 6, dl_RDI = bit b 7\<rparr>"

definition ul_hdr_byte :: "nr_sdap_ul_hdr \<Rightarrow> byte" where
  "ul_hdr_byte h = hdr_byte (ul_QFI h) (ul_R h) (ul_DC h)"


subsection \<open>The entity\<close>

record qfi2drb =
  qd_drb_id :: int
  qd_hasSdap :: bool

record nr_sdap_entity =
  se_rnti :: int
  se_default_drb :: int
  se_pdusession_id :: int
  se_qfi2drb_table :: "qfi2drb list"

datatype sdap_event =
    ToGtpu int int bytes
  | CtrlToPdcp int int byte
  | ToNas bytes

text \<open>\<open>entity->qfi2drb_table[qfi]\<close> for a \<open>uint8_t\<close> index into 64 entries.\<close>

definition qfi_entry :: "nr_sdap_entity \<Rightarrow> int \<Rightarrow> qfi2drb res" where
  "qfi_entry e qfi =
     (if 0 \<le> qfi \<and> qfi < int (length (se_qfi2drb_table e))
      then Inr (se_qfi2drb_table e ! nat qfi) else Inl OutOfBounds)"

definition set_qfi_entry :: "nr_sdap_entity \<Rightarrow> int \<Rightarrow> qfi2drb \<Rightarrow> nr_sdap_entity" where
  "set_qfi_entry e qfi x = e\<lparr>se_qfi2drb_table := (se_qfi2drb_table e)[nat qfi := x]\<rparr>"

definition nr_sdap_qfi2drb_map_update :: "nr_sdap_entity \<Rightarrow> int \<Rightarrow> int \<Rightarrow> bool \<Rightarrow> nr_sdap_entity" where
  "nr_sdap_qfi2drb_map_update e qfi drb hasSdap =
     (if qfi < 64 \<and> qfi > 0 \<and> drb > 0 \<and> drb \<le> 5
      then set_qfi_entry e qfi \<lparr>qd_drb_id = drb, qd_hasSdap = hasSdap\<rparr> else e)"

definition nr_sdap_qfi2drb_map_del :: "nr_sdap_entity \<Rightarrow> int \<Rightarrow> nr_sdap_entity res" where
  "nr_sdap_qfi2drb_map_del e qfi =
     bnd (qfi_entry e qfi) (\<lambda>x. Inr (set_qfi_entry e qfi (x\<lparr>qd_drb_id := 0\<rparr>)))"

definition nr_sdap_qfi2drb_map :: "nr_sdap_entity \<Rightarrow> int \<Rightarrow> int res" where
  "nr_sdap_qfi2drb_map e qfi =
     bnd (qfi_entry e qfi) (\<lambda>x.
       Inr (if qd_drb_id x \<noteq> 0 then qd_drb_id x
            else if se_default_drb e \<noteq> 0 then se_default_drb e else 0))"

definition nr_sdap_construct_ctrl_pdu :: "int \<Rightarrow> nr_sdap_ul_hdr" where
  "nr_sdap_construct_ctrl_pdu qfi = \<lparr>ul_QFI = qfi mod 64, ul_R = False, ul_DC = False\<rparr>"

text \<open>\<open>map_type\<close> is \<open>SDAP_CTRL_PDU_MAP_DEF_DRB\<close> or \<open>SDAP_CTRL_PDU_MAP_RULE_DRB\<close>.\<close>

datatype ctrl_map = MapDefDrb | MapRuleDrb

definition nr_sdap_map_ctrl_pdu :: "nr_sdap_entity \<Rightarrow> ctrl_map \<Rightarrow> int \<Rightarrow> int res" where
  "nr_sdap_map_ctrl_pdu e map_type dl_qfi =
     (case map_type of
        MapDefDrb \<Rightarrow> Inr (se_default_drb e)
      | MapRuleDrb \<Rightarrow> nr_sdap_qfi2drb_map e dl_qfi)"

definition nr_sdap_submit_ctrl_pdu :: "int \<Rightarrow> int \<Rightarrow> nr_sdap_ul_hdr \<Rightarrow> sdap_event list" where
  "nr_sdap_submit_ctrl_pdu rnti drb ctrl_pdu =
     (if drb \<noteq> 0 then [CtrlToPdcp rnti drb (ul_hdr_byte ctrl_pdu)] else [])"

text \<open>Construct, map and submit an end marker.\<close>

definition sdap_end_marker :: "nr_sdap_entity \<Rightarrow> int \<Rightarrow> ctrl_map \<Rightarrow> int \<Rightarrow> sdap_event list res" where
  "sdap_end_marker e rnti map_type qfi =
     bnd (nr_sdap_map_ctrl_pdu e map_type qfi) (\<lambda>drb.
       Inr (nr_sdap_submit_ctrl_pdu rnti drb (nr_sdap_construct_ctrl_pdu qfi)))"

subsection \<open>Data transfer\<close>

text \<open>
  \<open>Some (drb, pdu)\<close> is the call of \<open>pdcp_data_req\<close>, whose result is then returned; \<open>None\<close> is
  \<open>return 0\<close> without a call.
\<close>

definition nr_sdap_tx_entity ::
    "nr_sdap_entity \<Rightarrow> bool \<Rightarrow> int \<Rightarrow> bytes option \<Rightarrow> int \<Rightarrow> bool \<Rightarrow> (int \<times> bytes) option res" where
  "nr_sdap_tx_entity e enb_flag rb_id sdu_buffer qfi rqi =
     bnd (deref sdu_buffer Exit) (\<lambda>sdu.
     bnd (nr_sdap_qfi2drb_map e qfi) (\<lambda>pdcp_entity.
     bnd (if pdcp_entity \<noteq> 0 then bnd (qfi_entry e qfi) (\<lambda>x. Inr (pdcp_entity, qd_hasSdap x))
          else Inr (rb_id, False)) (\<lambda>(sdap_drb_id, pdcp_ent_has_sdap).
       if \<not> pdcp_ent_has_sdap then Inr (Some (sdap_drb_id, sdu))
       else if length sdu = 0 \<or> length sdu > 8999 then Inr None
       else if enb_flag
       then Inr (Some (sdap_drb_id, dl_hdr_byte \<lparr>dl_QFI = qfi mod 64, dl_RQI = rqi, dl_RDI = False\<rparr> # sdu))
       else Inr (Some (sdap_drb_id, ul_hdr_byte \<lparr>ul_QFI = qfi mod 64, ul_R = False, ul_DC = rqi\<rparr> # sdu)))))"

text \<open>\<open>Perform reflective QoS flow to DRB mapping\<close>\<close>

definition sdap_reflective_mapping ::
    "nr_sdap_entity \<Rightarrow> int \<Rightarrow> bool \<Rightarrow> int \<Rightarrow> int \<Rightarrow> (nr_sdap_entity \<times> sdap_event list) res" where
  "sdap_reflective_mapping e pdcp_entity has_sdapHeader rnti qfi =
     bnd (qfi_entry e qfi) (\<lambda>x.
     bnd (if qd_drb_id x = 0 \<and> se_default_drb e \<noteq> 0 then sdap_end_marker e rnti MapDefDrb qfi
          else Inr []) (\<lambda>ev1.
     bnd (if pdcp_entity \<noteq> qd_drb_id x \<and> has_sdapHeader then sdap_end_marker e rnti MapRuleDrb qfi
          else Inr []) (\<lambda>ev2.
       Inr (set_qfi_entry e qfi (x\<lparr>qd_drb_id := pdcp_entity\<rparr>), ev1 @ ev2))))"

definition nr_sdap_rx_entity ::
    "nr_sdap_entity \<Rightarrow> int \<Rightarrow> bool \<Rightarrow> bool \<Rightarrow> bool \<Rightarrow> int \<Rightarrow> int \<Rightarrow> bytes \<Rightarrow>
     (nr_sdap_entity \<times> sdap_event list) res" where
  "nr_sdap_rx_entity e pdcp_entity is_gnb has_sdap has_sdapHeader pdusession_id rnti buf =
     (let offset = (if has_sdap \<and> has_sdapHeader then 1 else 0) in
      bnd (if offset = 1 then read_at buf 0 1 else Inr [0]) (\<lambda>hdr.
      bnd (if \<not> is_gnb \<and> offset = 1 \<and> dl_RDI (dl_hdr_of (hd hdr))
           then sdap_reflective_mapping e pdcp_entity has_sdapHeader rnti (dl_QFI (dl_hdr_of (hd hdr)))
           else Inr (e, [])) (\<lambda>(e1, evs).
      bnd (read_at buf offset (int (length buf) - offset)) (\<lambda>sdu.
        Inr (e1, evs @ [if is_gnb then ToGtpu rnti pdusession_id sdu else ToNas sdu])))))"

text \<open>Configuration of further flows for an entity that exists.\<close>

fun nr_sdap_ue_qfi2drb_config :: "nr_sdap_entity \<Rightarrow> int \<Rightarrow> int list \<Rightarrow> int \<Rightarrow> sdap_event list res" where
  "nr_sdap_ue_qfi2drb_config e rnti [] drb_identity = Inr []"
| "nr_sdap_ue_qfi2drb_config e rnti (q # qs) drb_identity =
     (let qfi = q mod 256 in
      bnd (if se_default_drb e \<noteq> 0
           then bnd (qfi_entry e qfi) (\<lambda>x.
                  if qd_drb_id x = 0 then sdap_end_marker e rnti MapDefDrb qfi else Inr [])
           else Inr []) (\<lambda>ev1.
      bnd (qfi_entry e qfi) (\<lambda>x.
      bnd (if qd_drb_id x \<noteq> drb_identity \<and> qd_hasSdap x then sdap_end_marker e rnti MapRuleDrb qfi
           else Inr []) (\<lambda>ev2.
      bnd (nr_sdap_ue_qfi2drb_config e rnti qs drb_identity) (\<lambda>ev3. Inr (ev1 @ ev2 @ ev3))))))"

subsection \<open>The list of entities\<close>

text \<open>The walk \<open>while (ptr->rnti != rnti && ptr->next_entity != NULL)\<close>: the position it stops at.\<close>

fun sdap_walk :: "nr_sdap_entity list \<Rightarrow> int \<Rightarrow> nat" where
  "sdap_walk [] rnti = 0"
| "sdap_walk [e] rnti = 0"
| "sdap_walk (e # e' # es) rnti = (if se_rnti e \<noteq> rnti then Suc (sdap_walk (e' # es) rnti) else 0)"

definition nr_sdap_get_entity :: "nr_sdap_entity list \<Rightarrow> int \<Rightarrow> int \<Rightarrow> nat option" where
  "nr_sdap_get_entity l rnti pdusession_id =
     (if l = [] then None
      else
        let i = sdap_walk l rnti in
        if se_rnti (l ! i) = rnti \<and> se_pdusession_id (l ! i) = pdusession_id then Some i else None)"

definition empty_sdap_entity :: "int \<Rightarrow> int \<Rightarrow> nr_sdap_entity" where
  "empty_sdap_entity rnti pdusession_id =
     \<lparr>se_rnti = rnti, se_default_drb = 0, se_pdusession_id = pdusession_id,
      se_qfi2drb_table = replicate 64 \<lparr>qd_drb_id = 0, qd_hasSdap = False\<rparr>\<rparr>"

definition new_nr_sdap_entity ::
    "nr_sdap_entity list \<Rightarrow> bool \<Rightarrow> int \<Rightarrow> int \<Rightarrow> bool \<Rightarrow> int \<Rightarrow> int list \<Rightarrow>
     (nr_sdap_entity list \<times> sdap_event list) res" where
  "new_nr_sdap_entity l has_sdap rnti pdusession_id is_defaultDRB drb_identity mapped_qfi_2_add =
     (case nr_sdap_get_entity l rnti pdusession_id of
        Some i \<Rightarrow> bnd (nr_sdap_ue_qfi2drb_config (l ! i) rnti mapped_qfi_2_add drb_identity)
                    (\<lambda>evs. Inr (l, evs))
      | None \<Rightarrow>
          let e = empty_sdap_entity rnti pdusession_id;
              e1 = (if is_defaultDRB
                    then foldl (\<lambda>e q. nr_sdap_qfi2drb_map_update e (q mod 256) (se_default_drb e) has_sdap)
                           (e\<lparr>se_default_drb := drb_identity\<rparr>) mapped_qfi_2_add
                    else e)
          in Inr (e1 # l, []))"

definition delete_nr_sdap_entity :: "nr_sdap_entity list \<Rightarrow> int \<Rightarrow> nr_sdap_entity list res" where
  "delete_nr_sdap_entity l rnti =
     (if l = [] then Inl NullDeref
      else if se_rnti (hd l) = rnti then Inr (tl l)
      else
        let i = sdap_walk l rnti in
        if se_rnti (l ! i) \<noteq> rnti
        then (if i = 0 then Inl NullDeref else Inr (take i l @ drop (Suc i) l))
        else Inr l)"

subsection \<open>The interface of the layer\<close>

definition sdap_data_req ::
    "nr_sdap_entity list \<Rightarrow> int \<Rightarrow> bool \<Rightarrow> int \<Rightarrow> bytes option \<Rightarrow> int \<Rightarrow> bool \<Rightarrow> int \<Rightarrow> (int \<times> bytes) option res" where
  "sdap_data_req l rnti enb_flag rb_id sdu_buffer qfi rqi pdusession_id =
     (case nr_sdap_get_entity l rnti pdusession_id of
        None \<Rightarrow> Inr None
      | Some i \<Rightarrow> nr_sdap_tx_entity (l ! i) enb_flag rb_id sdu_buffer qfi rqi)"

definition sdap_data_ind ::
    "nr_sdap_entity list \<Rightarrow> int \<Rightarrow> bool \<Rightarrow> bool \<Rightarrow> bool \<Rightarrow> int \<Rightarrow> int \<Rightarrow> bytes \<Rightarrow>
     (nr_sdap_entity list \<times> sdap_event list) res" where
  "sdap_data_ind l pdcp_entity is_gnb has_sdap has_sdapULheader pdusession_id rnti buf =
     (case nr_sdap_get_entity l rnti pdusession_id of
        None \<Rightarrow> Inr (l, [])
      | Some i \<Rightarrow>
          bnd (nr_sdap_rx_entity (l ! i) pdcp_entity is_gnb has_sdap has_sdapULheader pdusession_id rnti buf)
            (\<lambda>(e, evs). Inr (l[i := e], evs)))"

subsection \<open>The flow table as a map\<close>

text \<open>What the data transfer relies on: a table of rules with a default.\<close>

locale flow_table =
  fixes rules :: "'t \<Rightarrow> int \<Rightarrow> int option"
    and default :: "'t \<Rightarrow> int"
    and update :: "'t \<Rightarrow> int \<Rightarrow> int \<Rightarrow> bool \<Rightarrow> 't"
    and delete :: "'t \<Rightarrow> int \<Rightarrow> 't res"
    and pick :: "'t \<Rightarrow> int \<Rightarrow> int res"
    and ok :: "'t \<Rightarrow> bool"
  assumes ok_update: "ok t \<Longrightarrow> ok (update t q d h)"
    and rules_update: "ok t \<Longrightarrow> rules (update t q d h) =
          (if 0 < q \<and> q < 64 \<and> 0 < d \<and> d \<le> 5 then (rules t)(q \<mapsto> d) else rules t)"
    and default_update: "default (update t q d h) = default t"
    and rules_delete: "ok t \<Longrightarrow> 0 \<le> q \<Longrightarrow> q < 64 \<Longrightarrow>
          \<exists>t'. delete t q = Inr t' \<and> ok t' \<and> rules t' = (rules t)(q := None) \<and> default t' = default t"
    and pick_rule: "ok t \<Longrightarrow> 0 \<le> q \<Longrightarrow> q < 64 \<Longrightarrow>
          pick t q = Inr (case rules t q of None \<Rightarrow> default t | Some d \<Rightarrow> d)"
begin

lemma pick_updated:
  assumes "ok t" "0 < q" "q < 64" "0 < d" "d \<le> 5"
  shows "pick (update t q d h) q = Inr d"
  using assms by (simp add: pick_rule ok_update rules_update)

lemma pick_other:
  assumes "ok t" "0 \<le> p" "p < 64" "p \<noteq> q"
  shows "pick (update t q d h) p = pick t p"
  using assms by (simp add: pick_rule ok_update rules_update default_update split: option.splits)

lemma pick_deleted:
  assumes "ok t" "0 \<le> q" "q < 64"
  shows "bnd (delete t q) (\<lambda>t'. pick t' q) = Inr (default t)"
  using rules_delete [OF assms] assms by (auto simp: pick_rule)

end

definition sdap_rules :: "nr_sdap_entity \<Rightarrow> int \<Rightarrow> int option" where
  "sdap_rules e q =
     (if 0 \<le> q \<and> q < 64 \<and> qd_drb_id (se_qfi2drb_table e ! nat q) \<noteq> 0
      then Some (qd_drb_id (se_qfi2drb_table e ! nat q)) else None)"

definition sdap_ok :: "nr_sdap_entity \<Rightarrow> bool" where
  "sdap_ok e \<longleftrightarrow> length (se_qfi2drb_table e) = 64"

lemma qfi_entry_ok: "sdap_ok e \<Longrightarrow> 0 \<le> q \<Longrightarrow> q < 64 \<Longrightarrow> qfi_entry e q = Inr (se_qfi2drb_table e ! nat q)"
  by (simp add: qfi_entry_def sdap_ok_def)

lemma qfi_entry_out: "sdap_ok e \<Longrightarrow> 64 \<le> q \<Longrightarrow> qfi_entry e q = Inl OutOfBounds"
  by (simp add: qfi_entry_def sdap_ok_def)

lemma sdap_rules_set:
  assumes "sdap_ok e" "0 \<le> q" "q < 64"
  shows "sdap_rules (set_qfi_entry e q x) = (sdap_rules e)(q := if qd_drb_id x = 0 then None else Some (qd_drb_id x))"
    "sdap_ok (set_qfi_entry e q x)" "se_default_drb (set_qfi_entry e q x) = se_default_drb e"
  using assms by (auto simp: sdap_rules_def set_qfi_entry_def sdap_ok_def fun_eq_iff nth_list_update)

interpretation sdap: flow_table sdap_rules se_default_drb nr_sdap_qfi2drb_map_update
    nr_sdap_qfi2drb_map_del nr_sdap_qfi2drb_map sdap_ok
proof
  fix t q d h
  show "se_default_drb (nr_sdap_qfi2drb_map_update t q d h) = se_default_drb t"
    by (simp add: nr_sdap_qfi2drb_map_update_def set_qfi_entry_def)
  assume ok: "sdap_ok t"
  show "sdap_ok (nr_sdap_qfi2drb_map_update t q d h)"
    using ok by (simp add: nr_sdap_qfi2drb_map_update_def sdap_rules_set)
  show "sdap_rules (nr_sdap_qfi2drb_map_update t q d h) =
      (if 0 < q \<and> q < 64 \<and> 0 < d \<and> d \<le> 5 then (sdap_rules t)(q \<mapsto> d) else sdap_rules t)"
    using ok by (auto simp: nr_sdap_qfi2drb_map_update_def sdap_rules_set)
  assume q: "0 \<le> q" "q < 64"
  show "\<exists>t'. nr_sdap_qfi2drb_map_del t q = Inr t' \<and> sdap_ok t' \<and> sdap_rules t' = (sdap_rules t)(q := None) \<and>
      se_default_drb t' = se_default_drb t"
    using ok q by (simp add: nr_sdap_qfi2drb_map_del_def qfi_entry_ok sdap_rules_set)
  show "nr_sdap_qfi2drb_map t q = Inr (case sdap_rules t q of None \<Rightarrow> se_default_drb t | Some d \<Rightarrow> d)"
    using ok q by (simp add: nr_sdap_qfi2drb_map_def qfi_entry_ok sdap_rules_def)
qed

subsection \<open>Headers\<close>




subsection \<open>Properties\<close>


definition sdap_example :: nr_sdap_entity where
  "sdap_example = nr_sdap_qfi2drb_map_update (empty_sdap_entity 7 10) 9 2 True"

lemma sdap_example_ok: "sdap_ok sdap_example" "sdap_rules sdap_example 9 = Some 2"
    "qd_hasSdap (se_qfi2drb_table sdap_example ! nat 9)"
  by (simp_all add: sdap_example_def nr_sdap_qfi2drb_map_update_def set_qfi_entry_def empty_sdap_entity_def
      sdap_ok_def sdap_rules_def)


text \<open>
  The flow table.  A rule that is stored for a valid flow and bearer is the one used for this
  flow and for no other; after its deletion the flow goes to the default bearer; invalid updates
  change nothing.
\<close>

theorem sdap_flow_table_laws:
  assumes "sdap_ok e" "0 < q" "q < 64"
  shows "(if 0 < d \<and> d \<le> 5
      then nr_sdap_qfi2drb_map (nr_sdap_qfi2drb_map_update e q d h) q = Inr d
      else nr_sdap_qfi2drb_map_update e q d h = e) \<and>
    (0 \<le> p \<and> p < 64 \<and> p \<noteq> q \<longrightarrow>
       nr_sdap_qfi2drb_map (nr_sdap_qfi2drb_map_update e q d h) p = nr_sdap_qfi2drb_map e p) \<and>
    bnd (nr_sdap_qfi2drb_map_del e q) (\<lambda>e'. nr_sdap_qfi2drb_map e' q) = Inr (se_default_drb e)"
proof (intro conjI impI)
  show "if 0 < d \<and> d \<le> 5 then nr_sdap_qfi2drb_map (nr_sdap_qfi2drb_map_update e q d h) q = Inr d
      else nr_sdap_qfi2drb_map_update e q d h = e"
    using sdap.pick_updated [OF assms] by (auto simp: nr_sdap_qfi2drb_map_update_def)
  show "nr_sdap_qfi2drb_map (nr_sdap_qfi2drb_map_update e q d h) p = nr_sdap_qfi2drb_map e p"
    if "0 \<le> p \<and> p < 64 \<and> p \<noteq> q"
    using sdap.pick_other [OF assms(1)] that by blast
  show "bnd (nr_sdap_qfi2drb_map_del e q) (\<lambda>e'. nr_sdap_qfi2drb_map e' q) = Inr (se_default_drb e)"
    by (rule sdap.pick_deleted) (use assms in auto)
qed

theorem sdap_flow_table_laws_witness:
  "nr_sdap_qfi2drb_map (nr_sdap_qfi2drb_map_update sdap_example 3 4 False) 3 = Inr 4 \<and>
   nr_sdap_qfi2drb_map_update sdap_example 3 6 False = sdap_example \<and>
   nr_sdap_qfi2drb_map (nr_sdap_qfi2drb_map_update sdap_example 3 4 False) 9 = nr_sdap_qfi2drb_map sdap_example 9 \<and>
   bnd (nr_sdap_qfi2drb_map_del sdap_example 3) (\<lambda>e'. nr_sdap_qfi2drb_map e' 3) = Inr 0"
proof -
  have d: "se_default_drb sdap_example = 0"
    by (simp add: sdap_example_def nr_sdap_qfi2drb_map_update_def set_qfi_entry_def empty_sdap_entity_def)
  show ?thesis
    using sdap_flow_table_laws [OF sdap_example_ok(1), of 3 4 False 9]
      sdap_flow_table_laws [OF sdap_example_ok(1), of 3 6 False 9] d
    by simp
qed

lemma sdap_walk_le: "l \<noteq> [] \<Longrightarrow> sdap_walk l r < length l"
  by (induction l r rule: sdap_walk.induct) auto

lemma sdap_walk_found: "r \<in> se_rnti ` set l \<Longrightarrow> se_rnti (l ! sdap_walk l r) = r"
  by (induction l r rule: sdap_walk.induct) auto

lemma sdap_walk_absent: "l \<noteq> [] \<Longrightarrow> r \<notin> se_rnti ` set l \<Longrightarrow> sdap_walk l r = length l - 1"
  by (induction l r rule: sdap_walk.induct) auto

text \<open>
  \<open>delete_nr_sdap_entity\<close> deletes the wrong entity.  Unless the UE's entity is the first of the
  list, it is kept; and for a UE without an entity the last entity of the list, which belongs to
  another UE, is removed.
\<close>

theorem sdap_delete_wrong_entity:
  assumes "se_rnti e \<noteq> rnti"
  shows "delete_nr_sdap_entity (e # e' # es) rnti =
     Inr (if rnti \<in> se_rnti ` set (e' # es) then e # e' # es else butlast (e # e' # es))"
proof -
  let ?l = "e # e' # es"
  have "delete_nr_sdap_entity ?l rnti = Inr ?l" if "rnti \<in> se_rnti ` set (e' # es)"
    using sdap_walk_found [of rnti ?l] that assms
    by (auto simp: delete_nr_sdap_entity_def Let_def simp del: sdap_walk.simps)
  moreover have "delete_nr_sdap_entity ?l rnti = Inr (butlast ?l)" if a: "rnti \<notin> se_rnti ` set (e' # es)"
  proof -
    have w: "sdap_walk ?l rnti = length ?l - 1" using sdap_walk_absent [of ?l rnti] a assms by auto
    have "se_rnti (?l ! (length ?l - 1)) \<noteq> rnti"
      using a assms nth_mem [of "length ?l - 1" ?l] by (force simp del: nth_mem)
    then show ?thesis
      using assms by (simp add: delete_nr_sdap_entity_def Let_def w butlast_conv_take del: sdap_walk.simps)
  qed
  ultimately show ?thesis by simp
qed

theorem sdap_delete_wrong_entity_witness:
  "delete_nr_sdap_entity [empty_sdap_entity 1 10, empty_sdap_entity 2 10] 2 =
     Inr [empty_sdap_entity 1 10, empty_sdap_entity 2 10] \<and>
   delete_nr_sdap_entity [empty_sdap_entity 1 10, empty_sdap_entity 2 10] 3 = Inr [empty_sdap_entity 1 10]"
  using sdap_delete_wrong_entity [of "empty_sdap_entity 1 10" 2 "empty_sdap_entity 2 10" "[]"]
    sdap_delete_wrong_entity [of "empty_sdap_entity 1 10" 3 "empty_sdap_entity 2 10" "[]"]
  by (simp add: empty_sdap_entity_def)

text \<open>
  A UE has one reachable PDU session.  Establishing an entity for a second session of a UE
  succeeds and puts it in front; from then on the entity of the first session is not found, and
  its data are dropped in both directions.
\<close>

theorem sdap_second_session_hides_first:
  assumes "nr_sdap_get_entity l rnti a = Some i" "a \<noteq> b"
  shows "\<exists>e. new_nr_sdap_entity l has_sdap rnti b dflt drb qfis = Inr (e # l, []) \<and>
     nr_sdap_get_entity (e # l) rnti b = Some 0 \<and> nr_sdap_get_entity (e # l) rnti a = None \<and>
     sdap_data_req (e # l) rnti enb rb sdu qfi rqi a = Inr None \<and>
     sdap_data_ind (e # l) drb' gnb hs hh a rnti buf = Inr (e # l, [])"
proof -
  have "nr_sdap_get_entity l rnti b = None" using assms by (auto simp: nr_sdap_get_entity_def Let_def split: if_splits)
  moreover define e where "e = (if dflt
        then foldl (\<lambda>e q. nr_sdap_qfi2drb_map_update e (q mod 256) (se_default_drb e) has_sdap)
               ((empty_sdap_entity rnti b)\<lparr>se_default_drb := drb\<rparr>) qfis else empty_sdap_entity rnti b)"
  ultimately have new: "new_nr_sdap_entity l has_sdap rnti b dflt drb qfis = Inr (e # l, [])"
    by (simp add: new_nr_sdap_entity_def Let_def)
  have upd: "se_rnti (foldl (\<lambda>e q. nr_sdap_qfi2drb_map_update e (q mod 256) (se_default_drb e) has_sdap) e0 qs) = se_rnti e0 \<and>
      se_pdusession_id (foldl (\<lambda>e q. nr_sdap_qfi2drb_map_update e (q mod 256) (se_default_drb e) has_sdap) e0 qs) =
      se_pdusession_id e0" for e0 qs
    by (induction qs arbitrary: e0) (simp_all add: nr_sdap_qfi2drb_map_update_def set_qfi_entry_def)
  have e: "se_rnti e = rnti" "se_pdusession_id e = b"
    using upd [of "(empty_sdap_entity rnti b)\<lparr>se_default_drb := drb\<rparr>" qfis]
    by (simp_all add: e_def empty_sdap_entity_def)
  have "sdap_walk (e # l) rnti = 0" using e(1) by (cases l) auto
  then have "nr_sdap_get_entity (e # l) rnti b = Some 0" "nr_sdap_get_entity (e # l) rnti a = None"
    using e assms(2) by (simp_all add: nr_sdap_get_entity_def Let_def)
  then show ?thesis using new by (auto simp: sdap_data_req_def sdap_data_ind_def)
qed

theorem sdap_second_session_hides_first_witness:
  "(\<exists>e. new_nr_sdap_entity [empty_sdap_entity 1 10] True 1 11 True 2 [9] = Inr (e # [empty_sdap_entity 1 10], []) \<and>
     nr_sdap_get_entity (e # [empty_sdap_entity 1 10]) 1 10 = None \<and>
     sdap_data_req (e # [empty_sdap_entity 1 10]) 1 True 1 (Some [5]) 9 False 10 = Inr None)"
proof -
  have "nr_sdap_get_entity [empty_sdap_entity 1 10] 1 10 = Some 0"
    by (simp add: nr_sdap_get_entity_def empty_sdap_entity_def)
  moreover have "(10 :: int) \<noteq> 11" by simp
  ultimately show ?thesis using sdap_second_session_hides_first [of "[empty_sdap_entity 1 10]" 1 10 0 11] by blast
qed

text \<open>
  Reflective mapping.  A downlink PDU that asks for it makes the receiving bearer the rule of
  its flow, keeps every other rule, sends an end marker to the default bearer if the flow had no
  rule and there is a default bearer, sends a second one to the bearer of the old rule (or the
  default bearer) if the bearer changes, and delivers the SDU.
\<close>

theorem sdap_reflective_mapping_effect:
  assumes "sdap_ok u" "dl_RDI (dl_hdr_of h)" "dl_QFI (dl_hdr_of h) = q" "drb \<noteq> 0"
    and "old = (case sdap_rules u q of None \<Rightarrow> 0 | Some d \<Rightarrow> d)"
    and "marker = (\<lambda>d. if d \<noteq> 0 then [CtrlToPdcp r d (hdr_byte q False False)] else [])"
  shows "\<exists>u'. nr_sdap_rx_entity u drb False True True s r (h # sdu) =
       Inr (u', (if old = 0 then marker (se_default_drb u) else []) @
                (if drb \<noteq> old then marker (if old \<noteq> 0 then old else se_default_drb u) else []) @ [ToNas sdu]) \<and>
     sdap_rules u' = (sdap_rules u)(q \<mapsto> drb) \<and> se_default_drb u' = se_default_drb u"
proof -
  have q: "0 \<le> q" "q < 64"
  proof -
    have "q = take_bit 6 (uint h)"
      using assms(3) by (simp add: dl_hdr_of_def unsigned_and_eq take_bit_eq_mask mask_eq_exp_minus_1)
    then show "0 \<le> q" "q < 64" using take_bit_int_less_exp [of 6 "uint h"] by simp_all
  qed
  define x where "x = se_qfi2drb_table u ! nat q"
  have x: "qfi_entry u q = Inr x" "qd_drb_id x = old"
    using assms(1,5) q by (auto simp: x_def qfi_entry_ok sdap_rules_def)
  have pick: "nr_sdap_qfi2drb_map u q = Inr (if old \<noteq> 0 then old else se_default_drb u)"
    using x by (simp add: nr_sdap_qfi2drb_map_def)
  have em: "sdap_end_marker u r MapDefDrb q = Inr (marker (se_default_drb u))"
      "sdap_end_marker u r MapRuleDrb q = Inr (marker (if old \<noteq> 0 then old else se_default_drb u))"
    using pick q
    by (simp_all add: sdap_end_marker_def nr_sdap_map_ctrl_pdu_def nr_sdap_submit_ctrl_pdu_def assms(6)
        nr_sdap_construct_ctrl_pdu_def ul_hdr_byte_def)
  have m0: "marker 0 = []" by (simp add: assms(6))
  have "sdap_reflective_mapping u drb True r q =
      Inr (set_qfi_entry u q (x\<lparr>qd_drb_id := drb\<rparr>), (if old = 0 then marker (se_default_drb u) else []) @
        (if drb \<noteq> old then marker (if old \<noteq> 0 then old else se_default_drb u) else []))"
    using x em m0 by (auto simp: sdap_reflective_mapping_def)
  then show ?thesis
    using assms(2,3,4) sdap_rules_set [OF assms(1) q, of "x\<lparr>qd_drb_id := drb\<rparr>"]
    by (simp add: nr_sdap_rx_entity_def read_at_def)
qed

theorem sdap_reflective_mapping_effect_witness:
  "(\<exists>u'. nr_sdap_rx_entity sdap_example 3 False True True 10 7 (0x89 # [1, 2]) =
       Inr (u', [CtrlToPdcp 7 2 (hdr_byte 9 False False), ToNas [1, 2]]) \<and>
     sdap_rules u' = (sdap_rules sdap_example)(9 \<mapsto> 3))"
proof -
  have h: "dl_RDI (dl_hdr_of 0x89)" "dl_QFI (dl_hdr_of 0x89) = 9" by (simp_all add: dl_hdr_of_def bit_simps)
  have o: "(case sdap_rules sdap_example 9 of None \<Rightarrow> 0 | Some d \<Rightarrow> d) = 2" using sdap_example_ok(2) by simp
  show ?thesis
    using sdap_reflective_mapping_effect [OF sdap_example_ok(1) h _ refl refl, of 3 10 7 "[1, 2]"] unfolding o by auto
qed

text \<open>
  A downlink header that is not stripped.  The receiver removes a header only if the flag for
  the \<^emph>\<open>uplink\<close> header is set; on a bearer with a downlink header alone, which the sender adds, the
  header byte is delivered as the first byte of the packet.
\<close>

theorem sdap_dl_header_not_stripped:
  assumes "sdap_ok e" "0 < q" "q < 64" "sdap_rules e q = Some drb" "qd_hasSdap (se_qfi2drb_table e ! nat q)"
    and "sdu \<noteq> []" "length sdu \<le> 8999"
  shows "\<exists>h. nr_sdap_tx_entity e True rb_id (Some sdu) q rqi = Inr (Some (drb, h # sdu)) \<and>
     nr_sdap_rx_entity u drb False True False s r (h # sdu) = Inr (u, [ToNas (h # sdu)])"
proof -
  have drb: "nr_sdap_qfi2drb_map e q = Inr drb" "drb \<noteq> 0"
    using sdap.pick_rule [of e q] assms(1-4) by (auto simp: sdap_rules_def split: if_splits)
  have entry: "qfi_entry e q = Inr (se_qfi2drb_table e ! nat q)" using qfi_entry_ok assms(1-3) by simp
  show ?thesis
    using drb entry assms(2,3,5,6,7)
    by (simp add: nr_sdap_tx_entity_def nr_sdap_rx_entity_def read_at_def)
qed

theorem sdap_dl_header_not_stripped_witness:
  "(\<exists>h. nr_sdap_tx_entity sdap_example True 1 (Some [1, 2, 3]) 9 True = Inr (Some (2, h # [1, 2, 3])) \<and>
     nr_sdap_rx_entity sdap_example 2 False True False 10 7 (h # [1, 2, 3]) = Inr (sdap_example, [ToNas (h # [1, 2, 3])]))"
  using sdap_dl_header_not_stripped [OF sdap_example_ok(1) _ _ sdap_example_ok(2,3), of "[1, 2, 3]"] by simp

end
