(* ===== verification/Pdcp_Api.thy ===== *)
theory Pdcp_Api
  imports Pdcp_Delivery Sdap Ue_Manager
begin

text \<open>
  The PDCP layer as the other layers see it: \<open>nr_pdcp_oai_api.c\<close>, \<open>nr_pdcp_timer_thread.c\<close> and
  \<open>asn1_utils.c\<close>.  The state is the directory of UEs, the list of SDAP entities and the clock; a
  call returns the new state and the messages for other layers, in the order the code sends
  them.  Calls that the code makes with the lock of the manager held are one step.

  A pointer to an entity is the slot of its UE it is stored in: entities are created by
  \<open>add_srb\<close> and \<open>add_drb_am\<close> only, which put each into one slot.  The callbacks of an entity are
  run after its operation, on the state the operation leaves; a callback may send an SDAP control
  PDU through the same entity, which uses \<open>tx_next\<close> only, while reception uses the receive
  variables only.  \<open>get_free_mem_block\<close>, \<open>itti_malloc\<close> and \<open>calloc\<close> succeed.
\<close>

subsection \<open>Environment, messages, state\<close>

text \<open>
  What the code reads from elsewhere: the crypto libraries, whether the node is a CU
  (\<open>RC.nrrrc != NULL && NODE_IS_CU\<close>), \<open>IS_SOFTMODEM_NOS1 || UE_NAS_USE_TUN\<close>, \<open>ENB_NAS_USE_TUN\<close>,
  whether \<open>LOG_D(SDAP, ...)\<close> evaluates its arguments, and \<open>NB_eNB_INST\<close>.
\<close>

record pdcp_env =
  en_crypto :: crypto
  en_is_cu :: bool
  en_use_tun :: bool
  en_enb_tun :: bool
  en_log_sdap :: bool
  en_nb_enb_inst :: int

datatype l2_msg =
    GtpuN3 int int bytes
  | GtpuF1U int int bytes
  | RlcDataReq protocol_ctxt bool int int bytes
  | F1apDlRrcMessage int int bytes
  | RrcDcchDataInd bool int int bytes
  | NasWrite bytes
  | IntegrityLog
  | RlcConfigReq protocol_ctxt int

record pdcp_layer =
  pl_manager :: "nr_pdcp_entity ue_manager"
  pl_sdap :: "nr_sdap_entity list"
  pl_time :: u64
  pl_last_frame :: int
  pl_last_subframe :: int
  pl_timer_curtime :: u64

definition pdcp_layer_init :: pdcp_layer where
  "pdcp_layer_init =
     \<lparr>pl_manager = new_ue_manager 1, pl_sdap = [], pl_time = 0, pl_last_frame = 0,
      pl_last_subframe = 0, pl_timer_curtime = 0\<rparr>"

definition pl_ue :: "pdcp_layer \<Rightarrow> nat \<Rightarrow> nr_pdcp_entity ue" where
  "pl_ue L ui = mg_at (pl_manager L) ui"

definition pl_store :: "pdcp_layer \<Rightarrow> nat \<Rightarrow> rb_ptr \<Rightarrow> nr_pdcp_entity \<Rightarrow> pdcp_layer" where
  "pl_store L ui p e = L\<lparr>pl_manager := mg_update_ue (pl_manager L) ui (rb_store (pl_ue L ui) p e)\<rparr>"

subsection \<open>Decoding of configuration values\<close>

definition decode_t_reordering :: "int \<Rightarrow> int res" where
  "decode_t_reordering v =
     (if v < 0 \<or> v > 35 then Inl Exit
      else Inr ([0, 1, 2, 4, 5, 8, 10, 15, 20, 30, 40, 50, 60, 80, 100, 120, 140, 160, 180,
                 200, 220, 240, 260, 280, 300, 500, 750, 1000, 1250, 1500, 1750, 2000,
                 2250, 2500, 2750, 3000] ! nat v))"

definition decode_sn_size_ul :: "int \<Rightarrow> int res" where
  "decode_sn_size_ul s = (if s = 0 then Inr 12 else if s = 1 then Inr 18 else Inl Exit)"

definition decode_sn_size_dl :: "int \<Rightarrow> int res" where
  "decode_sn_size_dl s = (if s = 0 then Inr 12 else if s = 1 then Inr 18 else Inl Exit)"

definition decode_discard_timer :: "int \<Rightarrow> int res" where
  "decode_discard_timer v =
     (if v < 0 \<or> v > 15 then Inl Exit
      else Inr ([10, 20, 30, 40, 50, 60, 75, 100, 150, 200, 250, 300, 500, 750, 1500, -1] ! nat v))"

subsection \<open>Callbacks of the entities\<close>

text \<open>The loops that look for the entity among the bearers of the UE: the bearer's identity.\<close>

definition find_drb :: "nr_pdcp_entity ue \<Rightarrow> rb_ptr \<Rightarrow> int res" where
  "find_drb u p =
     (case p of DrbAt i \<Rightarrow> if i < 5 \<and> ue_drb u ! i \<noteq> None then Inr (int i + 1) else Inl Exit
      | SrbAt i \<Rightarrow> Inl Exit)"

definition find_srb :: "nr_pdcp_entity ue \<Rightarrow> rb_ptr \<Rightarrow> int res" where
  "find_srb u p =
     (case p of SrbAt i \<Rightarrow> if i < 3 \<and> ue_srb u ! i \<noteq> None then Inr (int i + 1) else Inl Exit
      | DrbAt i \<Rightarrow> Inl Exit)"

definition deliver_pdu_drb ::
    "pdcp_env \<Rightarrow> nr_pdcp_entity ue \<Rightarrow> rb_ptr \<Rightarrow> bytes \<Rightarrow> int \<Rightarrow> l2_msg list res" where
  "deliver_pdu_drb E u p buf sdu_id =
     bnd (find_drb u p) (\<lambda>rb_id.
       Inr (if en_is_cu E then [GtpuF1U (ue_rnti u) rb_id buf]
            else [RlcDataReq (rlc_ctxt (ue_rnti u)) False rb_id sdu_id buf]))"

definition deliver_pdu_srb ::
    "pdcp_env \<Rightarrow> nr_pdcp_entity ue \<Rightarrow> rb_ptr \<Rightarrow> bytes \<Rightarrow> int \<Rightarrow> l2_msg list res" where
  "deliver_pdu_srb E u p buf sdu_id =
     bnd (find_srb u p) (\<lambda>srb_id.
       Inr (if \<not> en_is_cu E then [RlcDataReq (rlc_ctxt (ue_rnti u)) True srb_id sdu_id buf]
            else [F1apDlRrcMessage (ue_rnti u) srb_id buf]))"

definition deliver_sdu_srb :: "nr_pdcp_entity ue \<Rightarrow> rb_ptr \<Rightarrow> bytes \<Rightarrow> l2_msg list res" where
  "deliver_sdu_srb u p buf =
     bnd (find_srb u p) (\<lambda>srb_id.
     bnd (deref (rb_slot u p) NullDeref) (\<lambda>entity.
       Inr [RrcDcchDataInd (pe_is_gnb entity) (ue_rnti u) srb_id buf]))"

text \<open>\<open>rb->recv_sdu\<close> with its callback \<open>deliver_pdu\<close>.\<close>

definition rb_deliver_pdu :: "pdcp_env \<Rightarrow> nr_pdcp_entity ue \<Rightarrow> rb_ptr \<Rightarrow> bytes \<Rightarrow> int \<Rightarrow> l2_msg list res" where
  "rb_deliver_pdu E u p buf sdu_id =
     (case p of SrbAt _ \<Rightarrow> deliver_pdu_srb E u p buf sdu_id | DrbAt _ \<Rightarrow> deliver_pdu_drb E u p buf sdu_id)"

fun tx_event :: "pdcp_env \<Rightarrow> nat \<Rightarrow> rb_ptr \<Rightarrow> pdcp_layer \<Rightarrow> pdcp_event \<Rightarrow> (pdcp_layer \<times> l2_msg list) res" where
  "tx_event E ui p L (DeliverPdu buf sdu_id) =
     bnd (rb_deliver_pdu E (pl_ue L ui) p buf sdu_id) (\<lambda>ms. Inr (L, ms))"
| "tx_event E ui p L _ = Inr (L, [])"

definition rb_recv_sdu ::
    "pdcp_env \<Rightarrow> pdcp_layer \<Rightarrow> nat \<Rightarrow> rb_ptr \<Rightarrow> bytes \<Rightarrow> int \<Rightarrow> (pdcp_layer \<times> l2_msg list) res" where
  "rb_recv_sdu E L ui p buf mui =
     bnd (deref (rb_slot (pl_ue L ui) p) NullDeref) (\<lambda>rb.
       case nr_pdcp_entity_recv_sdu (en_crypto E) rb buf mui of (rb', evs) \<Rightarrow>
         run_ops (tx_event E ui p) (pl_store L ui p rb') evs)"

definition nr_pdcp_submit_sdap_ctrl_pdu ::
    "pdcp_env \<Rightarrow> pdcp_layer \<Rightarrow> int \<Rightarrow> int \<Rightarrow> byte \<Rightarrow> (pdcp_layer \<times> l2_msg list) res" where
  "nr_pdcp_submit_sdap_ctrl_pdu E L rnti drb ctrl_pdu =
     (case mg_get_ue (pl_manager L) rnti of (m, ui) \<Rightarrow>
        bnd (guard (1 \<le> drb \<and> drb \<le> 5) OutOfBounds) (\<lambda>_.
          rb_recv_sdu E (L\<lparr>pl_manager := m\<rparr>) ui (DrbAt (nat (drb - 1))) [ctrl_pdu] 0))"

fun sdap_effect :: "pdcp_env \<Rightarrow> pdcp_layer \<Rightarrow> sdap_event \<Rightarrow> (pdcp_layer \<times> l2_msg list) res" where
  "sdap_effect E L (ToGtpu rnti pdusession_id buf) = Inr (L, [GtpuN3 rnti pdusession_id buf])"
| "sdap_effect E L (CtrlToPdcp rnti drb ctrl_pdu) = nr_pdcp_submit_sdap_ctrl_pdu E L rnti drb ctrl_pdu"
| "sdap_effect E L (ToNas buf) = Inr (L, [NasWrite buf])"

text \<open>\<open>sdap_data_ind\<close> as PDCP calls it.\<close>

definition call_sdap_data_ind ::
    "pdcp_env \<Rightarrow> pdcp_layer \<Rightarrow> int \<Rightarrow> nr_pdcp_entity \<Rightarrow> int \<Rightarrow> bytes \<Rightarrow> (pdcp_layer \<times> l2_msg list) res" where
  "call_sdap_data_ind E L rb_id entity rnti buf =
     bnd (sdap_data_ind (pl_sdap L) rb_id (pe_is_gnb entity) (pe_has_sdap entity)
            (pe_has_sdapULheader entity) (pe_pdusession_id entity) rnti buf) (\<lambda>(l, evs).
       run_ops (sdap_effect E) (L\<lparr>pl_sdap := l\<rparr>) evs)"

definition deliver_sdu_drb ::
    "pdcp_env \<Rightarrow> pdcp_layer \<Rightarrow> nat \<Rightarrow> rb_ptr \<Rightarrow> bytes \<Rightarrow> (pdcp_layer \<times> l2_msg list) res" where
  "deliver_sdu_drb E L ui p buf =
     (let u = pl_ue L ui in
      if en_use_tun E
      then bnd (deref (rb_slot u p) NullDeref) (\<lambda>entity.
             call_sdap_data_ind E L (pe_rb_id entity) entity (ue_rnti u) buf)
      else bnd (find_drb u p) (\<lambda>rb_id.
           bnd (deref (ue_drb u ! nat (rb_id - 1)) NullDeref) (\<lambda>entity.
             call_sdap_data_ind E L rb_id entity (ue_rnti u) buf)))"

fun rb_event :: "pdcp_env \<Rightarrow> nat \<Rightarrow> rb_ptr \<Rightarrow> pdcp_layer \<Rightarrow> pdcp_event \<Rightarrow> (pdcp_layer \<times> l2_msg list) res" where
  "rb_event E ui p L (DeliverSdu sdu) =
     (case p of
        SrbAt _ \<Rightarrow> bnd (deliver_sdu_srb (pl_ue L ui) p (ps_buffer sdu)) (\<lambda>ms. Inr (L, ms))
      | DrbAt _ \<Rightarrow> deliver_sdu_drb E L ui p (ps_buffer sdu))"
| "rb_event E ui p L (DeliverPdu buf sdu_id) =
     bnd (rb_deliver_pdu E (pl_ue L ui) p buf sdu_id) (\<lambda>ms. Inr (L, ms))"
| "rb_event E ui p L IntegrityFailed = Inr (L, [IntegrityLog])"

text \<open>\<open>rb->recv_pdu\<close> and \<open>rb->set_time\<close> with the callback \<open>deliver_sdu\<close>.\<close>

definition rb_recv_pdu ::
    "pdcp_env \<Rightarrow> pdcp_layer \<Rightarrow> nat \<Rightarrow> rb_ptr \<Rightarrow> bytes \<Rightarrow> (pdcp_layer \<times> l2_msg list) res" where
  "rb_recv_pdu E L ui p buf =
     bnd (deref (rb_slot (pl_ue L ui) p) Exit) (\<lambda>rb.
     bnd (nr_pdcp_entity_recv_pdu (en_crypto E) rb buf) (\<lambda>(rb', evs).
       run_ops (rb_event E ui p) (pl_store L ui p rb') evs))"

definition rb_set_time ::
    "pdcp_env \<Rightarrow> u64 \<Rightarrow> pdcp_layer \<Rightarrow> nat \<times> rb_ptr \<Rightarrow> (pdcp_layer \<times> l2_msg list) res" where
  "rb_set_time E now L = (\<lambda>(ui, p).
     case rb_slot (pl_ue L ui) p of
       None \<Rightarrow> Inr (L, [])
     | Some rb \<Rightarrow>
         (case nr_pdcp_entity_set_time rb now of (rb', evs) \<Rightarrow>
            run_ops (rb_event E ui p) (pl_store L ui p rb') evs))"

subsection \<open>Data\<close>

text \<open>The entity of a bearer, by its identity.\<close>

definition rb_lookup :: "nr_pdcp_entity ue \<Rightarrow> bool \<Rightarrow> int \<Rightarrow> rb_ptr option" where
  "rb_lookup u srb_flag rb_id =
     (let p = (if srb_flag then (if rb_id < 1 \<or> rb_id > 2 then None else Some (SrbAt (nat (rb_id - 1))))
               else (if rb_id < 1 \<or> rb_id > 5 then None else Some (DrbAt (nat (rb_id - 1)))))
      in case p of None \<Rightarrow> None | Some p \<Rightarrow> if rb_slot u p = None then None else Some p)"

definition do_pdcp_data_ind ::
    "pdcp_env \<Rightarrow> pdcp_layer \<Rightarrow> protocol_ctxt \<Rightarrow> bool \<Rightarrow> int \<Rightarrow> bytes \<Rightarrow> (pdcp_layer \<times> l2_msg list) res" where
  "do_pdcp_data_ind E L ctxt srb_flag rb_id sdu_buffer =
     bnd (guard (cx_module_id ctxt = 0 \<and> cx_instance ctxt = 0 \<and> cx_eNB_index ctxt = 0 \<and> \<not> cx_brOption ctxt) Exit) (\<lambda>_.
       case mg_get_ue (pl_manager L) (cx_rnti ctxt) of (m, ui) \<Rightarrow>
         let L1 = L\<lparr>pl_manager := m\<rparr> in
         case rb_lookup (pl_ue L1 ui) srb_flag rb_id of
           None \<Rightarrow> Inl Exit
         | Some p \<Rightarrow> rb_recv_pdu E L1 ui p sdu_buffer)"

definition pdcp_data_req_srb ::
    "pdcp_env \<Rightarrow> pdcp_layer \<Rightarrow> protocol_ctxt \<Rightarrow> int \<Rightarrow> int \<Rightarrow> bytes \<Rightarrow> ((pdcp_layer \<times> l2_msg list) \<times> bool) res" where
  "pdcp_data_req_srb E L ctxt rb_id mui sdu_buffer =
     bnd (guard (cx_module_id ctxt = 0 \<and> cx_instance ctxt = 0 \<and> cx_eNB_index ctxt = 0) Exit) (\<lambda>_.
       case mg_get_ue (pl_manager L) (cx_rnti ctxt) of (m, ui) \<Rightarrow>
         let L1 = L\<lparr>pl_manager := m\<rparr> in
         case rb_lookup (pl_ue L1 ui) True rb_id of
           None \<Rightarrow> Inr ((L1, []), False)
         | Some p \<Rightarrow> bnd (rb_recv_sdu E L1 ui p sdu_buffer mui) (\<lambda>r. Inr (r, True)))"

definition pdcp_data_req_drb ::
    "pdcp_env \<Rightarrow> pdcp_layer \<Rightarrow> protocol_ctxt \<Rightarrow> int \<Rightarrow> int \<Rightarrow> bytes \<Rightarrow> ((pdcp_layer \<times> l2_msg list) \<times> bool) res" where
  "pdcp_data_req_drb E L ctxt rb_id mui sdu_buffer =
     bnd (guard (cx_module_id ctxt = 0 \<and> cx_instance ctxt = 0 \<and> cx_eNB_index ctxt = 0) Exit) (\<lambda>_.
       case mg_get_ue (pl_manager L) (cx_rnti ctxt) of (m, ui) \<Rightarrow>
         let L1 = L\<lparr>pl_manager := m\<rparr> in
         case rb_lookup (pl_ue L1 ui) False rb_id of
           None \<Rightarrow> Inr ((L1, []), False)
         | Some p \<Rightarrow> bnd (rb_recv_sdu E L1 ui p sdu_buffer mui) (\<lambda>r. Inr (r, True)))"

definition pdcp_data_req ::
    "pdcp_env \<Rightarrow> pdcp_layer \<Rightarrow> protocol_ctxt \<Rightarrow> bool \<Rightarrow> int \<Rightarrow> int \<Rightarrow> bytes \<Rightarrow> ((pdcp_layer \<times> l2_msg list) \<times> bool) res" where
  "pdcp_data_req E L ctxt srb_flag rb_id mui sdu_buffer =
     (if srb_flag then pdcp_data_req_srb E L ctxt rb_id mui sdu_buffer
      else pdcp_data_req_drb E L ctxt rb_id mui sdu_buffer)"

text \<open>\<open>sdap_data_req\<close> for a data bearer, with the call of \<open>pdcp_data_req\<close> it ends with.\<close>

definition call_sdap_data_req ::
    "pdcp_env \<Rightarrow> pdcp_layer \<Rightarrow> protocol_ctxt \<Rightarrow> int \<Rightarrow> bytes \<Rightarrow> int \<Rightarrow> bool \<Rightarrow> int \<Rightarrow> ((pdcp_layer \<times> l2_msg list) \<times> bool) res" where
  "call_sdap_data_req E L ctxt rb_id sdu_buffer qfi rqi pdusession_id =
     bnd (sdap_data_req (pl_sdap L) (cx_rnti ctxt) (cx_enb_flag ctxt) rb_id (Some sdu_buffer) qfi rqi pdusession_id) (\<lambda>r.
       case r of
         None \<Rightarrow> Inr ((L, []), False)
       | Some (drb, pdu) \<Rightarrow> pdcp_data_req E L ctxt False drb 0 pdu)"

text \<open>
  One round of the threads that read packets from the tunnel device; \<open>None\<close> is a read that
  failed.
\<close>

definition tun_read ::
    "bool \<Rightarrow> bool \<Rightarrow> pdcp_env \<Rightarrow> pdcp_layer \<Rightarrow> bytes option \<Rightarrow> (pdcp_layer \<times> l2_msg list) res" where
  "tun_read enb_flag rqi E L packet =
     bnd (deref packet Exit) (\<lambda>rx_buf.
       let rnti = mg_get_first_rnti (pl_manager L) in
       if rnti = -1 then Inr (L, [])
       else bnd (call_sdap_data_req E L ((rlc_ctxt rnti)\<lparr>cx_enb_flag := enb_flag\<rparr>) 1 rx_buf 7 rqi 10)
              (\<lambda>(r, ret). Inr r))"

definition enb_tun_read :: "pdcp_env \<Rightarrow> pdcp_layer \<Rightarrow> bytes option \<Rightarrow> (pdcp_layer \<times> l2_msg list) res" where
  "enb_tun_read = tun_read True False"

definition ue_tun_read :: "pdcp_env \<Rightarrow> pdcp_layer \<Rightarrow> bytes option \<Rightarrow> (pdcp_layer \<times> l2_msg list) res" where
  "ue_tun_read = tun_read False True"

text \<open>The messages of the PDCP task.\<close>

definition ctxt_set_by_module_id :: "pdcp_env \<Rightarrow> int \<Rightarrow> bool \<Rightarrow> int \<Rightarrow> int \<Rightarrow> int \<Rightarrow> int \<Rightarrow> protocol_ctxt" where
  "ctxt_set_by_module_id E module_id enb_flag rnti frame subframe eNB_index =
     \<lparr>cx_module_id = module_id, cx_enb_flag = enb_flag,
      cx_instance = (if enb_flag then module_id else module_id + en_nb_enb_inst E),
      cx_rnti = rnti, cx_frame = frame, cx_subframe = subframe, cx_eNB_index = eNB_index,
      cx_brOption = False\<rparr>"

datatype pdcp_itti =
    RrcDcchDataReq int bool int int int int int bytes
      \<comment> \<open>module, enb flag, rnti, frame, eNB index, rb, mui, SDU\<close>
  | OtherItti

fun pdcp_run_msg :: "pdcp_env \<Rightarrow> pdcp_layer \<Rightarrow> pdcp_itti \<Rightarrow> (pdcp_layer \<times> l2_msg list) res" where
  "pdcp_run_msg E L (RrcDcchDataReq module_id enb_flag rnti frame eNB_index rb_id muip sdu) =
     bnd (pdcp_data_req E L (ctxt_set_by_module_id E module_id enb_flag rnti frame 0 eNB_index) True rb_id muip sdu)
       (\<lambda>(r, ret). Inr r)"
| "pdcp_run_msg E L OtherItti = Inr (L, [])"

definition pdcp_run :: "pdcp_env \<Rightarrow> pdcp_layer \<Rightarrow> pdcp_itti list \<Rightarrow> (pdcp_layer \<times> l2_msg list) res" where
  "pdcp_run E = run_ops (pdcp_run_msg E)"

subsection \<open>Configuration\<close>

text \<open>What the code reads of the RRC structures; an absent field is a null pointer.\<close>

record pdcp_config_drb =
  pd_discardTimer :: "int option"
  pd_SN_SizeUL :: "int option"
  pd_SN_SizeDL :: "int option"
  pd_integrityProtection :: bool

record pdcp_config =
  pc_drb :: "pdcp_config_drb option"
  pc_t_Reordering :: "int option"
  pc_cipheringDisabled :: bool

record sdap_config =
  sc_pdu_Session :: int
  sc_HeaderUL :: bool
  sc_HeaderDL :: bool

datatype cn_association = CnNothing | CnEps int | CnSdap "sdap_config option"

record nr_srb_to_add_mod =
  sa_srb_Identity :: int
  sa_pdcp_Config :: "pdcp_config option"

record nr_drb_to_add_mod =
  da_cnAssociation :: "cn_association option"
  da_drb_Identity :: int
  da_pdcp_Config :: "pdcp_config option"

datatype rlc_config_present = RlcPrAm | RlcPrUmBiDirectional | RlcPrOther

definition add_srb ::
    "bool \<Rightarrow> int \<Rightarrow> int \<Rightarrow> int \<Rightarrow> bytes option \<Rightarrow> bytes option \<Rightarrow>
     pdcp_layer \<Rightarrow> nr_srb_to_add_mod \<Rightarrow> (pdcp_layer \<times> l2_msg list) res" where
  "add_srb is_gnb rnti ciphering_algorithm integrity_algorithm ciphering_key integrity_key L s =
     (let srb_id = sa_srb_Identity s in
      bnd (case sa_pdcp_Config s of
             None \<Rightarrow> Inr 3000
           | Some c \<Rightarrow> (case pc_t_Reordering c of None \<Rightarrow> Inr 3000 | Some v \<Rightarrow> decode_t_reordering v)) (\<lambda>t_Reordering.
      case mg_get_ue (pl_manager L) rnti of (m, ui) \<Rightarrow>
        let u = mg_at m ui in
        bnd (guard (1 \<le> srb_id \<and> srb_id \<le> 3) OutOfBounds) (\<lambda>_.
          if ue_srb u ! nat (srb_id - 1) \<noteq> None then Inr (L\<lparr>pl_manager := m\<rparr>, [])
          else
            bnd (new_nr_pdcp_entity NR_PDCP_SRB is_gnb srb_id 0 False False False 12 t_Reordering (-1)
                   ciphering_algorithm integrity_algorithm ciphering_key integrity_key) (\<lambda>pdcp_srb.
            bnd (ue_add_srb u srb_id pdcp_srb) (\<lambda>u'.
              Inr (L\<lparr>pl_manager := mg_update_ue m ui u'\<rparr>, []))))))"

text \<open>\<open>cnAssociation\<close>: the PDU session and the flags of the SDAP header, or the end of the process.\<close>

definition decode_cn_association :: "pdcp_env \<Rightarrow> cn_association option \<Rightarrow> (int \<times> bool \<times> bool) res" where
  "decode_cn_association E a =
     (case a of
        None \<Rightarrow> Inl Exit
      | Some CnNothing \<Rightarrow> Inl Exit
      | Some (CnEps eps_BearerIdentity) \<Rightarrow> Inr (eps_BearerIdentity, False, False)
      | Some (CnSdap None) \<Rightarrow> Inl Exit
      | Some (CnSdap (Some c)) \<Rightarrow>
          bnd (guard (\<not> en_log_sdap E) NullDeref) (\<lambda>_.
            Inr (sc_pdu_Session c, sc_HeaderUL c, sc_HeaderDL c)))"

text \<open>What \<open>add_drb_am\<close> reads from the configuration before it looks at the UE.\<close>

record drb_params =
  dp_sn_size :: int
  dp_t_reordering :: int
  dp_discard_timer :: int
  dp_integrity :: bool
  dp_ciphering :: bool
  dp_pdusession_id :: int
  dp_sdapULheader :: bool
  dp_sdapDLheader :: bool

definition drb_params_of :: "pdcp_env \<Rightarrow> nr_drb_to_add_mod \<Rightarrow> drb_params res" where
  "drb_params_of E s =
     bnd (deref (da_pdcp_Config s) NullDeref) (\<lambda>pdcp_Config.
     bnd (deref (pc_drb pdcp_Config) NullDeref) (\<lambda>drb.
     bnd (bnd (deref (pd_SN_SizeUL drb) NullDeref) decode_sn_size_ul) (\<lambda>sn_size_ul.
     bnd (bnd (deref (pd_SN_SizeDL drb) NullDeref) decode_sn_size_dl) (\<lambda>sn_size_dl.
     bnd (bnd (deref (pd_discardTimer drb) NullDeref) decode_discard_timer) (\<lambda>discard_timer.
     bnd (case pc_t_Reordering pdcp_Config of None \<Rightarrow> Inr (-1) | Some v \<Rightarrow> decode_t_reordering v) (\<lambda>t_reordering.
     bnd (decode_cn_association E (da_cnAssociation s)) (\<lambda>(pdusession_id, has_sdapULheader, has_sdapDLheader).
     bnd (guard (sn_size_ul = sn_size_dl) Exit) (\<lambda>_.
       Inr \<lparr>dp_sn_size = sn_size_dl, dp_t_reordering = t_reordering, dp_discard_timer = discard_timer,
            dp_integrity = pd_integrityProtection drb, dp_ciphering = (\<not> pc_cipheringDisabled pdcp_Config),
            dp_pdusession_id = pdusession_id, dp_sdapULheader = has_sdapULheader,
            dp_sdapDLheader = has_sdapDLheader\<rparr>))))))))"

definition drb_entity ::
    "bool \<Rightarrow> int \<Rightarrow> drb_params \<Rightarrow> int \<Rightarrow> int \<Rightarrow> bytes option \<Rightarrow> bytes option \<Rightarrow> nr_pdcp_entity res" where
  "drb_entity is_gnb drb_id q ciphering_algorithm integrity_algorithm ciphering_key integrity_key =
     new_nr_pdcp_entity NR_PDCP_DRB_AM is_gnb drb_id (dp_pdusession_id q)
       (dp_sdapULheader q \<or> dp_sdapDLheader q) (dp_sdapULheader q) (dp_sdapDLheader q)
       (nat (dp_sn_size q)) (dp_t_reordering q) (dp_discard_timer q)
       (if dp_ciphering q then ciphering_algorithm else 0)
       (if dp_integrity q then integrity_algorithm else 0)
       (if dp_ciphering q then ciphering_key else None)
       (if dp_integrity q then integrity_key else None)"

definition add_drb_am ::
    "pdcp_env \<Rightarrow> bool \<Rightarrow> int \<Rightarrow> int \<Rightarrow> int \<Rightarrow> bytes option \<Rightarrow> bytes option \<Rightarrow>
     pdcp_layer \<Rightarrow> nr_drb_to_add_mod \<Rightarrow> (pdcp_layer \<times> l2_msg list) res" where
  "add_drb_am E is_gnb rnti ciphering_algorithm integrity_algorithm ciphering_key integrity_key L s =
     (let drb_id = da_drb_Identity s in
      bnd (drb_params_of E s) (\<lambda>q.
      case mg_get_ue (pl_manager L) rnti of (m, ui) \<Rightarrow>
        let u = mg_at m ui in
        bnd (guard (1 \<le> drb_id \<and> drb_id \<le> 5) OutOfBounds) (\<lambda>_.
          if ue_drb u ! nat (drb_id - 1) \<noteq> None then Inr (L\<lparr>pl_manager := m\<rparr>, [])
          else
            bnd (drb_entity is_gnb drb_id q ciphering_algorithm integrity_algorithm ciphering_key integrity_key)
              (\<lambda>pdcp_drb.
            bnd (ue_add_drb u drb_id pdcp_drb) (\<lambda>u'.
            bnd (new_nr_sdap_entity (pl_sdap L) (dp_sdapULheader q \<or> dp_sdapDLheader q) (rnti mod 65536) (dp_pdusession_id q) False
                   (drb_id mod 256) []) (\<lambda>(l, evs).
              run_ops (sdap_effect E) (L\<lparr>pl_manager := mg_update_ue m ui u', pl_sdap := l\<rparr>) evs))))))"

definition add_drb ::
    "pdcp_env \<Rightarrow> bool \<Rightarrow> int \<Rightarrow> int \<Rightarrow> int \<Rightarrow> bytes option \<Rightarrow> bytes option \<Rightarrow> pdcp_layer \<Rightarrow>
     nr_drb_to_add_mod \<Rightarrow> rlc_config_present \<Rightarrow> (pdcp_layer \<times> l2_msg list) res" where
  "add_drb E is_gnb rnti ciphering_algorithm integrity_algorithm ciphering_key integrity_key L s rlc_Config =
     (case rlc_Config of
        RlcPrAm \<Rightarrow> add_drb_am E is_gnb rnti ciphering_algorithm integrity_algorithm ciphering_key integrity_key L s
      | RlcPrUmBiDirectional \<Rightarrow>
          add_drb_am E is_gnb rnti ciphering_algorithm integrity_algorithm ciphering_key integrity_key L s
      | RlcPrOther \<Rightarrow> Inl Exit)"

text \<open>
  The bearers of a reconfiguration.  The \<open>i\<close>-th data bearer takes the \<open>i\<close>-th entry of
  \<open>rlc_bearer2add_list\<close>.  The function returns 0 whenever it returns.
\<close>

definition nr_rrc_pdcp_config_asn1_req ::
    "pdcp_env \<Rightarrow> pdcp_layer \<Rightarrow> protocol_ctxt \<Rightarrow> nr_srb_to_add_mod list option \<Rightarrow>
     nr_drb_to_add_mod list option \<Rightarrow> int \<Rightarrow> bytes option \<Rightarrow> bytes option \<Rightarrow> bytes option \<Rightarrow>
     bytes option \<Rightarrow> bool \<Rightarrow> rlc_config_present list option \<Rightarrow> (pdcp_layer \<times> l2_msg list) res" where
  "nr_rrc_pdcp_config_asn1_req E L ctxt srb2add_list drb2add_list security_mode
       kRRCenc kRRCint kUPenc kUPint pmch_InfoList rlc_bearer2add_list =
     bnd (guard (cx_module_id ctxt = 0 \<and> cx_instance ctxt = 0 \<and> cx_eNB_index ctxt = 0 \<and> \<not> pmch_InfoList) Exit) (\<lambda>_.
     bnd (case srb2add_list of
            None \<Rightarrow> Inr (L, [])
          | Some srbs \<Rightarrow> run_ops (add_srb (cx_enb_flag ctxt) (cx_rnti ctxt) (security_mode mod 16)
                           (security_mode div 16 mod 16) kRRCenc kRRCint) L srbs) (\<lambda>(L1, ms1).
     bnd (case drb2add_list of
            None \<Rightarrow> Inr (L1, [])
          | Some drbs \<Rightarrow> run_ops (\<lambda>L (i, s).
              bnd (deref rlc_bearer2add_list NullDeref) (\<lambda>rs.
              bnd (guard (i < length rs) OutOfBounds) (\<lambda>_.
                add_drb E (cx_enb_flag ctxt) (cx_rnti ctxt) (security_mode mod 16)
                  (security_mode div 16 mod 16) kUPenc kUPint L s (rs ! i)))) L1 (enumerate 0 drbs)) (\<lambda>(L2, ms2).
       Inr (L2, ms1 @ ms2))))"

text \<open>The bearer that \<open>nr_DRB_preconfiguration\<close> sets up without RRC.\<close>

definition preconfigured_drb :: nr_drb_to_add_mod where
  "preconfigured_drb =
     \<lparr>da_cnAssociation = Some (CnEps 10), da_drb_Identity = 1,
      da_pdcp_Config = Some \<lparr>pc_drb = Some \<lparr>pd_discardTimer = Some 15, pd_SN_SizeUL = Some 1,
                                pd_SN_SizeDL = Some 1, pd_integrityProtection = False\<rparr>,
                             pc_t_Reordering = Some 0, pc_cipheringDisabled = False\<rparr>\<rparr>"

definition nr_DRB_preconfiguration :: "pdcp_env \<Rightarrow> pdcp_layer \<Rightarrow> int \<Rightarrow> (pdcp_layer \<times> l2_msg list) res" where
  "nr_DRB_preconfiguration E L crnti =
     (let ctxt = ctxt_set_by_module_id E 0 (en_enb_tun E) crnti 0 0 0 in
      bnd (nr_rrc_pdcp_config_asn1_req E L ctxt None (Some [preconfigured_drb]) 0 None None None None False
             (Some [RlcPrUmBiDirectional])) (\<lambda>(L1, ms).
        Inr (L1, ms @ [RlcConfigReq ctxt (da_drb_Identity preconfigured_drb)])))"

definition pdcp_config_set_security ::
    "pdcp_layer \<Rightarrow> protocol_ctxt \<Rightarrow> int \<Rightarrow> int \<Rightarrow> bytes option \<Rightarrow> bytes option \<Rightarrow> pdcp_layer res" where
  "pdcp_config_set_security L ctxt rb_id security_mode kRRCenc kRRCint =
     (case mg_get_ue (pl_manager L) (cx_rnti ctxt) of (m, ui) \<Rightarrow>
        let L1 = L\<lparr>pl_manager := m\<rparr> in
        if rb_id \<ge> 1 \<and> rb_id \<le> 2
        then (case rb_slot (pl_ue L1 ui) (SrbAt (nat (rb_id - 1))) of
                None \<Rightarrow> Inr L1
              | Some rb \<Rightarrow>
                  bnd (nr_pdcp_entity_set_security rb (security_mode div 16 mod 16) kRRCint
                         (security_mode mod 16) kRRCenc) (\<lambda>rb'.
                    Inr (pl_store L1 ui (SrbAt (nat (rb_id - 1))) rb')))
        else Inl Exit)"

definition pdcp_remove_UE :: "pdcp_layer \<Rightarrow> protocol_ctxt \<Rightarrow> pdcp_layer" where
  "pdcp_remove_UE L ctxt = L\<lparr>pl_manager := fst (mg_remove_ue (pl_manager L) (cx_rnti ctxt))\<rparr>"

subsection \<open>Time\<close>

definition nr_pdcp_wakeup_timer_thread :: "pdcp_layer \<Rightarrow> u64 \<Rightarrow> pdcp_layer" where
  "nr_pdcp_wakeup_timer_thread L now = L\<lparr>pl_timer_curtime := now\<rparr>"

definition nr_pdcp_tick :: "pdcp_layer \<Rightarrow> int \<Rightarrow> int \<Rightarrow> pdcp_layer" where
  "nr_pdcp_tick L frame subframe =
     (if frame \<noteq> pl_last_frame L \<or> subframe \<noteq> pl_last_subframe L
      then nr_pdcp_wakeup_timer_thread
             (L\<lparr>pl_last_frame := frame, pl_last_subframe := subframe, pl_time := pl_time L + 1\<rparr>)
             (pl_time L + 1)
      else L)"

text \<open>
  One round of the timer thread, whose own time is \<open>curtime\<close>: \<open>None\<close> while it waits, and
  otherwise its new time and the sweep over the bearers of all UEs.
\<close>

definition timer_slots :: "nat \<Rightarrow> (nat \<times> rb_ptr) list" where
  "timer_slots ue_count =
     concat (map (\<lambda>i. map (\<lambda>j. (i, SrbAt j)) [0..<2] @ map (\<lambda>j. (i, DrbAt j)) [0..<5]) [0..<ue_count])"

definition nr_pdcp_timer_thread ::
    "pdcp_env \<Rightarrow> pdcp_layer \<Rightarrow> u64 \<Rightarrow> (u64 \<times> (pdcp_layer \<times> l2_msg list) res) option" where
  "nr_pdcp_timer_thread E L curtime =
     (if curtime = pl_timer_curtime L then None
      else Some (pl_timer_curtime L,
        run_ops (rb_set_time E (pl_timer_curtime L)) L
          (timer_slots (nat (mg_get_ue_count (pl_manager L))))))"

end
