(* ===== verification/Pdcp_Api_Props.thy ===== *)
theory Pdcp_Api_Props
  imports Pdcp_Api
begin

text \<open>
  Properties of the PDCP layer as a whole: the invariant of its state over every sequence of
  calls, the outcome of an uplink PDU, transfer from the SDAP interface of one node to the upper
  layer of its peer, configuration, removal and time.
\<close>

subsection \<open>Well-formed layers\<close>

text \<open>The fields of an entity that only its creation writes.\<close>

definition pe_static ::
    "nr_pdcp_entity \<Rightarrow> nr_pdcp_entity_type \<times> int \<times> bool \<times> nat \<times> int \<times> int \<times> int \<times> bool \<times> bool" where
  "pe_static e = (pe_type e, pe_rb_id e, pe_is_gnb e, pe_sn_size e, pe_sn_max e, pe_window_size e,
     pe_pdusession_id e, pe_has_sdap e, pe_has_sdapULheader e)"

fun slot_static :: "bool \<Rightarrow> rb_ptr \<Rightarrow> nr_pdcp_entity_type \<times> int \<times> bool" where
  "slot_static g (SrbAt i) = (NR_PDCP_SRB, int i + 1, g)"
| "slot_static g (DrbAt i) = (NR_PDCP_DRB_AM, int i + 1, g)"

text \<open>A bearer is of the kind of its slot, knows its identity, and is on the side \<open>g\<close> of the layer.\<close>

definition sdus_ok :: "nr_pdcp_entity \<Rightarrow> bool" where
  "sdus_ok e \<longleftrightarrow> (\<forall>s\<in>set (pe_rx_list e). pdcp_sdu_ok s)"

definition rb_ok :: "bool \<Rightarrow> rb_ptr \<Rightarrow> nr_pdcp_entity \<Rightarrow> bool" where
  "rb_ok g p e \<longleftrightarrow> (pe_type e, pe_rb_id e, pe_is_gnb e) = slot_static g p \<and> pdcp_conf e \<and> sdus_ok e"

definition ue_wf :: "bool \<Rightarrow> nr_pdcp_entity ue \<Rightarrow> bool" where
  "ue_wf g u \<longleftrightarrow> ue_ok u \<and> (\<forall>p e. slot_valid p \<and> rb_slot u p = Some e \<longrightarrow> rb_ok g p e)"

definition layer_ok :: "bool \<Rightarrow> pdcp_layer \<Rightarrow> bool" where
  "layer_ok g L \<longleftrightarrow> mg_inv (pl_manager L) \<and> (\<forall>u\<in>set (mg_ue_list (pl_manager L)). ue_wf g u) \<and>
     (\<forall>s\<in>set (pl_sdap L). sdap_ok s)"

definition ue_at :: "pdcp_layer \<Rightarrow> nat \<Rightarrow> bool" where
  "ue_at L ui \<longleftrightarrow> ui < length (mg_ue_list (pl_manager L))"

text \<open>What an operation of an entity keeps.\<close>

definition keeps :: "nr_pdcp_entity \<Rightarrow> nr_pdcp_entity \<Rightarrow> bool" where
  "keeps e e' \<longleftrightarrow> pe_static e' = pe_static e \<and> (sdus_ok e \<longrightarrow> sdus_ok e')"

lemma rb_ok_keeps: "keeps e e' \<Longrightarrow> rb_ok g p e \<Longrightarrow> rb_ok g p e'"
  by (simp add: rb_ok_def pe_static_def pdcp_conf_def keeps_def)

subsection \<open>The operations of an entity keep its static fields\<close>

lemma deliver_from_keeps:
  assumes "pdcp_deliver_from e c = (e', d)"
  shows "keeps e e'" "sdus_ok e \<Longrightarrow> \<forall>s\<in>set d. pdcp_sdu_ok s"
  using assms pdcp_deliver_seq_split [of "pe_rx_list e" c]
  by (force simp: pdcp_deliver_from_def keeps_def sdus_ok_def pe_static_def split: prod.splits)+

lemma rx_timer_keeps: "keeps e (pdcp_rx_timer e)"
  by (simp add: keeps_def sdus_ok_def pdcp_rx_timer_def pdcp_reordering_start_def pe_static_def Let_def)

lemma rx_insert_keeps: "pdcp_sdu_ok s \<Longrightarrow> keeps e (pdcp_rx_insert e s n)"
  by (simp add: keeps_def sdus_ok_def pdcp_rx_insert_def pe_static_def Let_def pdcp_list_add_facts)

lemma keeps_trans: "keeps e e' \<Longrightarrow> keeps e' e'' \<Longrightarrow> keeps e e''"
  by (simp add: keeps_def)

lemma recv_pdu_events:
  assumes "nr_pdcp_entity_recv_pdu P e b = Inr (e', evs)" "ev \<in> set evs"
  shows "ev = IntegrityFailed \<or> (\<exists>s\<in>set (pdcp_delivered evs). ev = DeliverSdu s)"
proof -
  have "\<exists>xs d. set xs \<subseteq> {IntegrityFailed} \<and> evs = xs @ map DeliverSdu d"
  proof -
    have i: "set (pdcp_check_integrity P e c x) \<subseteq> {IntegrityFailed}" for c x
      by (auto simp: pdcp_check_integrity_def Let_def)
    have "evs = [] \<or> (\<exists>c x. evs = pdcp_check_integrity P e c x) \<or>
        (\<exists>c x d. evs = pdcp_check_integrity P e c x @ map DeliverSdu d)"
      using assms(1)
      by (fastforce simp: nr_pdcp_entity_recv_pdu_def Let_def bnd_eq_Inr case_prod_beta split: if_splits)
    then show ?thesis using i by (metis append_Nil append_Nil2 empty_subsetI list.set(1) list.simps(8))
  qed
  then obtain xs d where x: "set xs \<subseteq> {IntegrityFailed}" "evs = xs @ map DeliverSdu d" by blast
  have "pdcp_delivered xs = []" using x(1) by (induction xs) auto
  then show ?thesis using x assms(2) by auto
qed

lemma recv_pdu_keeps:
  assumes "nr_pdcp_entity_recv_pdu P e b = Inr (e', evs)"
  shows "keeps e e'" "sdus_ok e \<Longrightarrow> \<forall>s\<in>set (pdcp_delivered evs). pdcp_sdu_ok s"
proof -
  have "keeps e e' \<and> (sdus_ok e \<longrightarrow> (\<forall>s\<in>set (pdcp_delivered evs). pdcp_sdu_ok s))"
    using assms
  proof (cases rule: nr_pdcp_entity_recv_pdu_cases)
    case (accept sn s e2 d)
    let ?e1 = "pdcp_rx_insert e s (int (length b) - pdcp_header_size e)"
    have i: "keeps e ?e1" by (rule rx_insert_keeps [OF accept(3)])
    have "keeps ?e1 e2 \<and> (sdus_ok ?e1 \<longrightarrow> (\<forall>s\<in>set d. pdcp_sdu_ok s))"
      using deliver_from_keeps [of ?e1 "pe_rx_deliv ?e1" e2 d] accept(6)
      by (auto simp: pdcp_rx_deliver_def keeps_def split: if_splits)
    then show ?thesis
      using keeps_trans [OF i keeps_trans [OF _ rx_timer_keeps]] i accept(7,8) by (auto simp: keeps_def)
  qed (simp add: keeps_def)
  then show "keeps e e'" "sdus_ok e \<Longrightarrow> \<forall>s\<in>set (pdcp_delivered evs). pdcp_sdu_ok s" by blast+
qed

lemma recv_sdu_keeps: "nr_pdcp_entity_recv_sdu P e b i = (e', ev) \<Longrightarrow> keeps e e'"
  by (auto simp: nr_pdcp_entity_recv_sdu_def Let_def pe_static_def keeps_def sdus_ok_def)

lemma set_time_keeps:
  assumes "nr_pdcp_entity_set_time e now = (e', ev)"
  shows "keeps e e'"
proof -
  have "keeps x (fst (check_t_reordering x))" for x
  proof -
    obtain d1 l1 where d: "pdcp_deliver_below (pe_rx_list x) (pe_rx_reord x) = (d1, l1)" by fastforce
    let ?x = "x\<lparr>pe_t_reordering_start := 0, pe_rx_list := l1, pe_rx_size := pe_rx_size x - sum_list (map ps_size d1)\<rparr>"
    obtain e3 d2 where e3: "pdcp_deliver_from ?x (pe_rx_reord x) = (e3, d2)" by fastforce
    have "keeps x ?x" using pdcp_deliver_below_split [OF d] by (auto simp: keeps_def sdus_ok_def pe_static_def)
    then have "keeps x e3" using deliver_from_keeps(1) [OF e3] by (rule keeps_trans)
    then show ?thesis using d e3 by (auto simp: check_t_reordering_def keeps_def sdus_ok_def pe_static_def Let_def)
  qed
  from this [of "e\<lparr>pe_t_current := now\<rparr>"] show ?thesis
    using assms by (simp add: nr_pdcp_entity_set_time_def keeps_def sdus_ok_def pe_static_def)
qed

lemma set_algorithm_keeps:
  "pdcp_set_integrity ia e = Inr e' \<Longrightarrow> keeps e e'" "pdcp_set_ciphering ca e = Inr e' \<Longrightarrow> keeps e e'"
  by (auto simp: pdcp_set_integrity_def pdcp_set_ciphering_def keeps_def sdus_ok_def pe_static_def bnd_eq_Inr
     split: if_splits)

lemma set_security_keeps:
  assumes "nr_pdcp_entity_set_security e ia ik ca ck = Inr e'"
  shows "keeps e e'"
proof -
  obtain e4 e5 where e: "keeps e e4" "pdcp_set_integrity ia e4 = Inr e5" "pdcp_set_ciphering ca e5 = Inr e'"
  proof -
    define e2 where "e2 = (let e1 = (if ia \<noteq> -1 then e\<lparr>pe_integrity_algorithm := ia\<rparr> else e) in
      if ca \<noteq> -1 then e1\<lparr>pe_ciphering_algorithm := ca\<rparr> else e1)"
    define e4 where "e4 = (let e3 = (case ik of None \<Rightarrow> e2 | Some k \<Rightarrow> e2\<lparr>pe_integrity_key := take 16 k\<rparr>) in
      case ck of None \<Rightarrow> e3 | Some k \<Rightarrow> e3\<lparr>pe_ciphering_key := take 16 k\<rparr>)"
    have "keeps e e2" by (simp add: e2_def keeps_def sdus_ok_def pe_static_def)
    moreover have "keeps e2 e4" by (simp add: e4_def keeps_def sdus_ok_def pe_static_def split: option.splits)
    ultimately have "keeps e e4" by (rule keeps_trans)
    moreover have "bnd (pdcp_set_integrity ia e4) (pdcp_set_ciphering ca) = Inr e'"
      using assms unfolding nr_pdcp_entity_set_security_def e4_def e2_def Let_def .
    ultimately show ?thesis using that by (auto simp: bnd_eq_Inr)
  qed
  show ?thesis by (rule keeps_trans [OF e(1) keeps_trans [OF set_algorithm_keeps(1) [OF e(2)] set_algorithm_keeps(2) [OF e(3)]]])
qed

lemma fault_of_bnd:
  "fault_of (bnd m f) = (case m of Inl x \<Rightarrow> Some x | Inr y \<Rightarrow> fault_of (f y))"
  by (cases m) (simp_all add: fault_of_def)

lemma set_security_fault:
  "fault_of (nr_pdcp_entity_set_security e ia ik ca ck) =
     (if ia \<notin> {-1, 0, 2} \<or> ca \<notin> {-1, 0, 2} then Some Exit else None)"
proof -
  have i: "\<exists>y. pdcp_set_integrity ia x = Inr y" if "ia \<in> {-1, 0, 2}" for x
    using that by (auto simp: pdcp_set_integrity_def)
  have i': "pdcp_set_integrity ia x = Inl Exit" if "ia \<notin> {-1, 0, 2}" for x
    using that by (auto simp: pdcp_set_integrity_def)
  have c: "fault_of (pdcp_set_ciphering ca x) = (if ca \<notin> {-1, 0, 2} then Some Exit else None)" for x
    by (auto simp: pdcp_set_ciphering_def fault_of_def)
  have "fault_of (bnd (pdcp_set_integrity ia x) (pdcp_set_ciphering ca)) =
     (if ia \<notin> {-1, 0, 2} \<or> ca \<notin> {-1, 0, 2} then Some Exit else None)" for x
    using i [of x] i' [of x] c unfolding fault_of_bnd by (cases "ia \<in> {-1, 0, 2}") fastforce+
  then show ?thesis by (simp only: nr_pdcp_entity_set_security_def Let_def)
qed

lemma new_entity_static:
  assumes "new_nr_pdcp_entity ty g rb ps hs hu hdl sn tr dt ca ia ck ik = Inr e"
  shows "pe_static e = (ty, rb, g, sn, 2 ^ sn - 1, 2 ^ (sn - 1), ps, hs, hu)" "sdus_ok e"
  using set_security_keeps [OF assms [unfolded new_nr_pdcp_entity_def]]
  by (simp_all add: pe_static_def keeps_def sdus_ok_def)

subsection \<open>Steps on slots keep a layer well-formed\<close>

lemma rb_store_wf: "ue_wf g u \<Longrightarrow> slot_valid p \<Longrightarrow> rb_ok g p e \<Longrightarrow> ue_wf g (rb_store u p e)"
  by (auto simp: ue_wf_def rb_slot_store split: if_splits)

lemma update_ue_ok:
  assumes "layer_ok g L" "ue_at L ui" "ue_wf g u" "ue_rnti u = ue_rnti (pl_ue L ui)"
  shows "layer_ok g (L\<lparr>pl_manager := mg_update_ue (pl_manager L) ui u\<rparr>)"
proof -
  let ?us = "mg_ue_list (pl_manager L)"
  have "map ue_rnti (?us[ui := u]) = map ue_rnti ?us"
    using assms(4) by (simp add: pl_ue_def mg_at_def) (metis list_update_id map_update)
  moreover have "set (?us[ui := u]) \<subseteq> insert u (set ?us)" by (rule set_update_subset_insert)
  ultimately show ?thesis using assms(1,3) by (auto simp: layer_ok_def mg_inv_def mg_update_ue_def ue_wf_def)
qed

lemma pl_ue_wf: "layer_ok g L \<Longrightarrow> ue_at L ui \<Longrightarrow> ue_wf g (pl_ue L ui)"
  by (simp add: layer_ok_def ue_at_def pl_ue_def mg_at_def)

lemma pl_store_ok:
  assumes "layer_ok g L" "ue_at L ui" "slot_valid p" "rb_ok g p e"
  shows "layer_ok g (pl_store L ui p e)"
  using update_ue_ok [OF assms(1,2) rb_store_wf [OF pl_ue_wf [OF assms(1,2)] assms(3,4)]]
  by (simp add: pl_store_def)

lemma pl_store_facts [simp]:
  "ue_at (pl_store L ui p e) uj = ue_at L uj" "pl_sdap (pl_store L ui p e) = pl_sdap L"
  "ue_at L ui \<Longrightarrow> pl_ue (pl_store L ui p e) ui = rb_store (pl_ue L ui) p e"
  "length (mg_ue_list (pl_manager (pl_store L ui p e))) = length (mg_ue_list (pl_manager L))"
  by (simp_all add: pl_store_def mg_update_ue_def ue_at_def pl_ue_def mg_at_def)

lemma get_ue_ok:
  assumes "layer_ok g L" "mg_get_ue (pl_manager L) r = (m, ui)"
  shows "layer_ok g (L\<lparr>pl_manager := m\<rparr>)" "ue_at (L\<lparr>pl_manager := m\<rparr>) ui"
    "length (mg_ue_list (pl_manager L)) \<le> length (mg_ue_list m)"
proof -
  have "mg_inv m" using mg.inv_get [of "pl_manager L" r] assms by (simp add: layer_ok_def)
  moreover have "ue_wf g (empty_ue r)" by (auto simp: ue_wf_def empty_ue_slot) (simp add: empty_ue_def ue_ok_def)
  ultimately show "layer_ok g (L\<lparr>pl_manager := m\<rparr>)"
    using assms by (auto simp: layer_ok_def mg_get_ue_def Let_def split: if_splits)
  show "ue_at (L\<lparr>pl_manager := m\<rparr>) ui" "length (mg_ue_list (pl_manager L)) \<le> length (mg_ue_list m)"
    using assms(2) by (auto simp: ue_at_def mg_get_ue_def Let_def split: if_splits)
qed

text \<open>The state may gain UEs, and stays well-formed.\<close>

definition grows :: "bool \<Rightarrow> pdcp_layer \<Rightarrow> pdcp_layer \<Rightarrow> bool" where
  "grows g L L' \<longleftrightarrow> layer_ok g L' \<and> length (mg_ue_list (pl_manager L)) \<le> length (mg_ue_list (pl_manager L'))"

lemma grows_refl: "layer_ok g L \<Longrightarrow> grows g L L"
  by (simp add: grows_def)

lemma grows_trans: "grows g L L' \<Longrightarrow> grows g L' L'' \<Longrightarrow> grows g L L''"
  by (auto simp: grows_def)

lemma grows_ok: "grows g L L' \<Longrightarrow> layer_ok g L'"
  by (simp add: grows_def)

lemma grows_at: "grows g L L' \<Longrightarrow> ue_at L ui \<Longrightarrow> ue_at L' ui"
  by (auto simp: grows_def ue_at_def)

lemma run_ops_grows:
  assumes "\<And>s x s' ms. grows g L s \<Longrightarrow> x \<in> set xs \<Longrightarrow> f s x = Inr (s', ms) \<Longrightarrow> grows g s s'"
    and "layer_ok g L" "run_ops f L xs = Inr (L', ms)"
  shows "grows g L L'"
  by (rule run_ops_inv [where I = "grows g L", OF _ grows_refl [OF assms(2)] assms(3)])
    (blast intro: grows_trans assms(1))

lemma tx_event_state: "tx_event E ui p L ev = Inr (L', ms) \<Longrightarrow> L' = L"
  by (cases ev) (auto simp: bnd_eq_Inr)

lemma store_grows:
  assumes "layer_ok g L" "ue_at L ui" "slot_valid p" "rb_slot (pl_ue L ui) p = Some e" "keeps e e'"
  shows "grows g L (pl_store L ui p e')"
proof -
  have "rb_ok g p e" using pl_ue_wf [OF assms(1,2)] assms(3,4) by (auto simp: ue_wf_def)
  then show ?thesis using pl_store_ok [OF assms(1-3)] rb_ok_keeps [OF assms(5)] by (simp add: grows_def)
qed

lemma rb_recv_sdu_grows:
  assumes "layer_ok g L" "ue_at L ui" "slot_valid p" "rb_recv_sdu E L ui p b i = Inr (L', ms)"
  shows "grows g L L'"
proof -
  obtain e e' ev where e: "rb_slot (pl_ue L ui) p = Some e"
      "nr_pdcp_entity_recv_sdu (en_crypto E) e b i = (e', ev)"
      "run_ops (tx_event E ui p) (pl_store L ui p e') ev = Inr (L', ms)"
    using assms(4) prod.collapse by (cases "rb_slot (pl_ue L ui) p") (force simp: rb_recv_sdu_def case_prod_beta)+
  have "L' = pl_store L ui p e'"
    by (rule run_ops_inv [where I = "\<lambda>s. s = pl_store L ui p e'", OF _ refl e(3)]) (auto dest: tx_event_state)
  then show ?thesis using store_grows [OF assms(1-3) e(1) recv_sdu_keeps [OF e(2)]] by simp
qed

lemma sdap_effect_grows:
  assumes "layer_ok g L" "sdap_effect E L ev = Inr (L', ms)"
  shows "grows g L L'"
proof (cases ev)
  case (CtrlToPdcp r d c)
  obtain m ui where u: "mg_get_ue (pl_manager L) r = (m, ui)" by fastforce
  note k = get_ue_ok [OF assms(1) u]
  have "grows g (L\<lparr>pl_manager := m\<rparr>) L'"
    using rb_recv_sdu_grows [OF k(1,2), of "DrbAt (nat (d - 1))"] assms(2) CtrlToPdcp u
    by (auto simp: nr_pdcp_submit_sdap_ctrl_pdu_def bnd_eq_Inr)
  moreover have "grows g L (L\<lparr>pl_manager := m\<rparr>)" using k by (simp add: grows_def)
  ultimately show ?thesis by (rule grows_trans [rotated])
qed (use assms in \<open>auto simp: grows_refl\<close>)

lemma sdap_effects_grow:
  "layer_ok g L \<Longrightarrow> run_ops (sdap_effect E) L evs = Inr (L', ms) \<Longrightarrow> grows g L L'"
  by (rule run_ops_grows [where f = "sdap_effect E"]) (blast intro: sdap_effect_grows dest: grows_ok)+

lemma sdap_data_ind_ok:
  assumes "\<forall>s\<in>set l. sdap_ok s" "sdap_data_ind l drb gn hs hu ps r b = Inr (l', evs)"
  shows "\<forall>s\<in>set l'. sdap_ok s"
proof -
  have refl: "sdap_ok e'" if "sdap_reflective_mapping e d h r q = Inr (e', ev)" "sdap_ok e" for e e' d h r q ev
    using that by (auto simp: sdap_reflective_mapping_def bnd_eq_Inr sdap_ok_def set_qfi_entry_def)
  have rx: "sdap_ok e'" if "nr_sdap_rx_entity e drb gn hs hu ps r b = Inr (e', ev)" "sdap_ok e" for e e' ev
    using that refl [of e drb hu r] by (auto simp: nr_sdap_rx_entity_def bnd_eq_Inr Let_def split: if_splits)
  show ?thesis
  proof (cases "nr_sdap_get_entity l r ps")
    case (Some i)
    then have "i < length l"
      using sdap_walk_le [of l r] by (auto simp: nr_sdap_get_entity_def Let_def split: if_splits)
    moreover obtain e ev where "nr_sdap_rx_entity (l ! i) drb gn hs hu ps r b = Inr (e, ev)" "l' = l[i := e]"
      using assms(2) Some by (auto simp: sdap_data_ind_def bnd_eq_Inr)
    ultimately show ?thesis
      using rx [of "l ! i" e ev] assms(1) set_update_subset_insert [of l i e] nth_mem [of i l] by blast
  qed (use assms in \<open>auto simp: sdap_data_ind_def\<close>)
qed

lemma call_sdap_data_ind_grows:
  assumes "layer_ok g L" "call_sdap_data_ind E L rb e r b = Inr (L', ms)"
  shows "grows g L L'"
proof -
  obtain l evs where s: "sdap_data_ind (pl_sdap L) rb (pe_is_gnb e) (pe_has_sdap e) (pe_has_sdapULheader e)
      (pe_pdusession_id e) r b = Inr (l, evs)"
    and q: "run_ops (sdap_effect E) (L\<lparr>pl_sdap := l\<rparr>) evs = Inr (L', ms)"
    using assms(2) by (auto simp: call_sdap_data_ind_def bnd_eq_Inr)
  have "layer_ok g (L\<lparr>pl_sdap := l\<rparr>)"
    using sdap_data_ind_ok [OF _ s] assms(1) by (simp add: layer_ok_def)
  from sdap_effects_grow [OF this q] show ?thesis by (simp add: grows_def)
qed

lemma rb_event_grows:
  assumes "layer_ok g L" "rb_event E ui p L ev = Inr (L', ms)"
  shows "grows g L L'"
proof (cases ev)
  case (DeliverSdu s)
  then show ?thesis
    using assms call_sdap_data_ind_grows [OF assms(1)]
    by (cases p) (auto simp: bnd_eq_Inr deliver_sdu_drb_def Let_def grows_refl split: if_splits)
qed (use assms in \<open>auto simp: bnd_eq_Inr grows_refl\<close>)

lemma rb_events_grow:
  "layer_ok g L \<Longrightarrow> run_ops (rb_event E ui p) L evs = Inr (L', ms) \<Longrightarrow> grows g L L'"
  by (rule run_ops_grows [where f = "rb_event E ui p"]) (blast intro: rb_event_grows dest: grows_ok)+

lemma rb_recv_pdu_grows:
  assumes "layer_ok g L" "ue_at L ui" "slot_valid p" "rb_recv_pdu E L ui p b = Inr (L', ms)"
  shows "grows g L L'"
proof -
  obtain e e' ev where e: "rb_slot (pl_ue L ui) p = Some e"
      "nr_pdcp_entity_recv_pdu (en_crypto E) e b = Inr (e', ev)"
      "run_ops (rb_event E ui p) (pl_store L ui p e') ev = Inr (L', ms)"
    using assms(4) by (auto simp: rb_recv_pdu_def bnd_eq_Inr)
  note s = store_grows [OF assms(1-3) e(1) recv_pdu_keeps(1) [OF e(2)]]
  show ?thesis using grows_trans [OF s rb_events_grow [OF _ e(3)]] s by (simp add: grows_def)
qed

lemma rb_set_time_grows:
  assumes "layer_ok g L" "ue_at L (fst x)" "slot_valid (snd x)" "rb_set_time E now L x = Inr (L', ms)"
  shows "grows g L L'"
proof (cases "rb_slot (pl_ue L (fst x)) (snd x)")
  case None
  then show ?thesis using assms by (auto simp: rb_set_time_def grows_refl split: prod.splits)
next
  case (Some e)
  obtain e' ev where t: "nr_pdcp_entity_set_time e now = (e', ev)" by fastforce
  have q: "run_ops (rb_event E (fst x) (snd x)) (pl_store L (fst x) (snd x) e') ev = Inr (L', ms)"
    using assms(4) Some t by (auto simp: rb_set_time_def split: prod.splits)
  note s = store_grows [OF assms(1-3) Some set_time_keeps [OF t]]
  show ?thesis using grows_trans [OF s rb_events_grow [OF _ q]] s by (simp add: grows_def)
qed

subsection \<open>The calls of the layer keep it well-formed\<close>

lemma rb_lookup_Some:
  assumes "rb_lookup u f rb = Some p"
  shows "slot_valid p" "rb_slot u p \<noteq> None" "p = (if f then SrbAt (nat (rb - 1)) else DrbAt (nat (rb - 1)))"
    "1 \<le> rb" "rb \<le> (if f then 2 else 5)"
  using assms by (auto simp: rb_lookup_def Let_def split: if_splits option.splits)

lemma do_pdcp_data_ind_grows:
  assumes "layer_ok g L" "do_pdcp_data_ind E L ctxt f rb b = Inr (L', ms)"
  shows "grows g L L'"
proof -
  obtain m ui where u: "mg_get_ue (pl_manager L) (cx_rnti ctxt) = (m, ui)" by fastforce
  note k = get_ue_ok [OF assms(1) u]
  obtain p where p: "rb_lookup (pl_ue (L\<lparr>pl_manager := m\<rparr>) ui) f rb = Some p"
      "rb_recv_pdu E (L\<lparr>pl_manager := m\<rparr>) ui p b = Inr (L', ms)"
    using assms(2) u by (auto simp: do_pdcp_data_ind_def bnd_eq_Inr Let_def split: option.splits)
  show ?thesis
    using rb_recv_pdu_grows [OF k(1,2) rb_lookup_Some(1) [OF p(1)] p(2)] k by (simp add: grows_def)
qed

lemma pdcp_data_req_grows:
  assumes "layer_ok g L" "pdcp_data_req E L ctxt f rb i b = Inr ((L', ms), ret)"
  shows "grows g L L'"
proof -
  obtain m ui where u: "mg_get_ue (pl_manager L) (cx_rnti ctxt) = (m, ui)" by fastforce
  note k = get_ue_ok [OF assms(1) u]
  let ?L = "L\<lparr>pl_manager := m\<rparr>"
  have "L' = ?L \<or> (\<exists>p. rb_lookup (pl_ue ?L ui) f rb = Some p \<and> rb_recv_sdu E ?L ui p b i = Inr (L', ms))"
    using assms(2) u
    by (cases f) (auto simp: pdcp_data_req_def pdcp_data_req_srb_def pdcp_data_req_drb_def bnd_eq_Inr Let_def
        split: option.splits)
  moreover have "grows g L ?L" using k by (simp add: grows_def)
  ultimately show ?thesis
    using rb_recv_sdu_grows [OF k(1,2) rb_lookup_Some(1)] grows_trans [of g L ?L L'] by blast
qed

lemma call_sdap_data_req_grows:
  assumes "layer_ok g L" "call_sdap_data_req E L ctxt rb b q rqi ps = Inr ((L', ms), ret)"
  shows "grows g L L'"
  using assms pdcp_data_req_grows [OF assms(1)]
  by (auto simp: call_sdap_data_req_def bnd_eq_Inr grows_refl split: option.splits)

lemma pdcp_run_grows:
  assumes "layer_ok g L" "pdcp_run E L msgs = Inr (L', ms)"
  shows "grows g L L'"
proof (rule run_ops_grows [where f = "pdcp_run_msg E" and xs = msgs])
  fix s x s' ms'
  assume "grows g L s" "pdcp_run_msg E s x = Inr (s', ms')"
  then show "grows g s s'"
    by (cases x) (auto simp: bnd_eq_Inr grows_refl dest: grows_ok intro: pdcp_data_req_grows)
qed (use assms in \<open>auto simp: pdcp_run_def\<close>)

lemma new_bearer_grows:
  assumes ok: "layer_ok g L" and u: "mg_get_ue (pl_manager L) r = (m, ui)"
    and p: "slot_valid p" "rb_ok g p e" and s: "\<forall>x\<in>set l. sdap_ok x"
  shows "grows g L (L\<lparr>pl_manager := mg_update_ue m ui (rb_store (mg_at m ui) p e), pl_sdap := l\<rparr>)"
proof -
  let ?L = "L\<lparr>pl_manager := m\<rparr>"
  note k = get_ue_ok [OF ok u]
  have "layer_ok g (pl_store ?L ui p e)" by (rule pl_store_ok [OF k(1,2) p])
  then show ?thesis using s k(3) by (simp add: grows_def layer_ok_def pl_store_def pl_ue_def mg_update_ue_def)
qed

lemma add_srb_grows:
  assumes "layer_ok g L" "add_srb g r ca ia ck ik L s = Inr (L', ms)"
  shows "grows g L L'"
proof -
  obtain m ui where u: "mg_get_ue (pl_manager L) r = (m, ui)" by fastforce
  note k = get_ue_ok [OF assms(1) u]
  let ?i = "nat (sa_srb_Identity s - 1)"
  consider "L' = L\<lparr>pl_manager := m\<rparr>"
    | t e u' where "new_nr_pdcp_entity NR_PDCP_SRB g (sa_srb_Identity s) 0 False False False 12 t (-1) ca ia ck ik = Inr e"
        "ue_add_srb (mg_at m ui) (sa_srb_Identity s) e = Inr u'" "L' = L\<lparr>pl_manager := mg_update_ue m ui u'\<rparr>"
    using assms(2) u by (auto simp: add_srb_def bnd_eq_Inr Let_def split: if_splits)
  then show ?thesis
  proof cases
    case 2
    have "u' = rb_store (mg_at m ui) (SrbAt ?i) e" "1 \<le> sa_srb_Identity s" "sa_srb_Identity s \<le> 2"
      using 2(2) by (auto simp: ue_add_srb_def split: if_splits)
    then show ?thesis
      using new_bearer_grows [OF assms(1) u, of "SrbAt ?i" e "pl_sdap L"] new_entity_static [OF 2(1)] 2(3) assms(1)
      by (simp add: rb_ok_def pe_static_def pdcp_conf_def layer_ok_def)
  qed (use k in \<open>simp add: grows_def\<close>)
qed

lemma new_sdap_entity_ok:
  assumes "\<forall>x\<in>set l. sdap_ok x" "new_nr_sdap_entity l hs r ps False d [] = Inr (l', evs)"
  shows "\<forall>x\<in>set l'. sdap_ok x" "evs = []"
  using assms by (auto simp: new_nr_sdap_entity_def Let_def sdap_ok_def empty_sdap_entity_def split: option.splits)

lemma drb_params_sn: "drb_params_of E s = Inr q \<Longrightarrow> dp_sn_size q = 12 \<or> dp_sn_size q = 18"
  by (auto simp: drb_params_of_def bnd_eq_Inr decode_sn_size_dl_def split: if_splits)

lemma add_drb_am_grows:
  assumes "layer_ok g L" "add_drb_am E g r ca ia ck ik L s = Inr (L', ms)"
  shows "grows g L L'"
proof -
  obtain m ui where u: "mg_get_ue (pl_manager L) r = (m, ui)" by fastforce
  note k = get_ue_ok [OF assms(1) u]
  let ?i = "nat (da_drb_Identity s - 1)"
  consider "L' = L\<lparr>pl_manager := m\<rparr>"
    | q e u' l evs where "drb_params_of E s = Inr q" "drb_entity g (da_drb_Identity s) q ca ia ck ik = Inr e"
        "ue_add_drb (mg_at m ui) (da_drb_Identity s) e = Inr u'"
        "new_nr_sdap_entity (pl_sdap L) (dp_sdapULheader q \<or> dp_sdapDLheader q) (r mod 65536) (dp_pdusession_id q)
           False (da_drb_Identity s mod 256) [] = Inr (l, evs)"
        "run_ops (sdap_effect E) (L\<lparr>pl_manager := mg_update_ue m ui u', pl_sdap := l\<rparr>) evs = Inr (L', ms)"
    using assms(2) u by (auto simp: add_drb_am_def bnd_eq_Inr Let_def split: if_splits)
  then show ?thesis
  proof cases
    case 2
    have s: "\<forall>x\<in>set l. sdap_ok x" "evs = []"
      using new_sdap_entity_ok [OF _ 2(4)] assms(1) by (auto simp: layer_ok_def)
    have "u' = rb_store (mg_at m ui) (DrbAt ?i) e" "1 \<le> da_drb_Identity s" "da_drb_Identity s \<le> 5"
      using 2(3) by (auto simp: ue_add_drb_def split: if_splits)
    then show ?thesis
      using new_bearer_grows [OF assms(1) u _ _ s(1), of "DrbAt ?i" e] new_entity_static [OF 2(2) [unfolded drb_entity_def]]
        drb_params_sn [OF 2(1)] 2(5) s(2)
      by (auto simp: rb_ok_def pe_static_def pdcp_conf_def)
  qed (use k in \<open>simp add: grows_def\<close>)
qed

lemma add_drb_grows:
  "layer_ok g L \<Longrightarrow> add_drb E g r ca ia ck ik L s rc = Inr (L', ms) \<Longrightarrow> grows g L L'"
  by (cases rc) (auto simp: add_drb_def intro: add_drb_am_grows)

lemma config_grows:
  assumes ok: "layer_ok (cx_enb_flag ctxt) L"
    and st: "nr_rrc_pdcp_config_asn1_req E L ctxt srbs drbs sec a b c d pm rs = Inr (L', ms)"
  shows "grows (cx_enb_flag ctxt) L L'"
proof -
  let ?g = "cx_enb_flag ctxt"
  let ?srb = "add_srb ?g (cx_rnti ctxt) (sec mod 16) (sec div 16 mod 16) a b"
  let ?drb = "\<lambda>L (i, s). bnd (deref rs NullDeref) (\<lambda>rs. bnd (guard (i < length rs) OutOfBounds) (\<lambda>_.
      add_drb E ?g (cx_rnti ctxt) (sec mod 16) (sec div 16 mod 16) c d L s (rs ! i)))"
  obtain L1 ms1 ms2 where
      s1: "(case srbs of None \<Rightarrow> Inr (L, []) | Some x \<Rightarrow> run_ops ?srb L x) = Inr (L1, ms1)" and
      s2: "(case drbs of None \<Rightarrow> Inr (L1, []) | Some x \<Rightarrow> run_ops ?drb L1 (enumerate 0 x)) = Inr (L', ms2)"
    using st by (auto simp: nr_rrc_pdcp_config_asn1_req_def bnd_eq_Inr)
  have g1: "grows ?g L L1"
  proof (cases srbs)
    case (Some x)
    then show ?thesis
      using s1 by (intro run_ops_grows [where f = ?srb, OF _ ok]) (auto intro: add_srb_grows dest: grows_ok)
  qed (use s1 ok in \<open>simp add: grows_refl\<close>)
  have "grows ?g L1 L'"
  proof (cases drbs)
    case (Some x)
    then show ?thesis
      using s2 by (intro run_ops_grows [where f = ?drb, OF _ grows_ok [OF g1]])
        (auto simp: bnd_eq_Inr split: prod.splits intro: add_drb_grows dest: grows_ok)
  qed (use s2 g1 in \<open>auto simp: grows_refl dest: grows_ok\<close>)
  then show ?thesis by (rule grows_trans [OF g1])
qed

lemma set_security_grows:
  assumes "layer_ok g L" "pdcp_config_set_security L ctxt rb sec ck ik = Inr L'"
  shows "grows g L L'"
proof -
  obtain m ui where u: "mg_get_ue (pl_manager L) (cx_rnti ctxt) = (m, ui)" by fastforce
  let ?L = "L\<lparr>pl_manager := m\<rparr>" and ?p = "SrbAt (nat (rb - 1))"
  note k = get_ue_ok [OF assms(1) u]
  consider "L' = ?L" | e e' where "rb_slot (pl_ue ?L ui) ?p = Some e" "slot_valid ?p"
      "nr_pdcp_entity_set_security e (sec div 16 mod 16) ik (sec mod 16) ck = Inr e'" "L' = pl_store ?L ui ?p e'"
    using assms(2) u by (auto simp: pdcp_config_set_security_def bnd_eq_Inr Let_def split: if_splits option.splits)
  then have "grows g ?L L'"
    by cases (use k in \<open>auto simp: grows_refl intro: store_grows [OF k(1,2)] dest: set_security_keeps\<close>)
  then show ?thesis using k by (simp add: grows_def)
qed

lemma remove_UE_ok: "layer_ok g L \<Longrightarrow> layer_ok g (pdcp_remove_UE L ctxt)"
  using mg.inv_remove [of "pl_manager L" "cx_rnti ctxt"] mg_remove_filter [of "pl_manager L" "cx_rnti ctxt"]
  by (auto simp: layer_ok_def pdcp_remove_UE_def)

lemma tick_ok: "layer_ok g L \<Longrightarrow> layer_ok g (nr_pdcp_tick L f sf)"
  by (simp add: nr_pdcp_tick_def nr_pdcp_wakeup_timer_thread_def layer_ok_def)

lemma timer_slots_valid: "x \<in> set (timer_slots n) \<Longrightarrow> fst x < n \<and> slot_valid (snd x)"
  by (auto simp: timer_slots_def)

lemma timer_grows:
  assumes "layer_ok g L" "nr_pdcp_timer_thread E L t = Some (t', Inr (L', ms))"
  shows "grows g L L'"
proof -
  let ?f = "rb_set_time E (pl_timer_curtime L)" and ?n = "length (mg_ue_list (pl_manager L))"
  have "run_ops ?f L (timer_slots ?n) = Inr (L', ms)"
    using assms(2) by (auto simp: nr_pdcp_timer_thread_def mg_get_ue_count_def split: if_splits)
  then show ?thesis
  proof (rule run_ops_grows [where f = ?f, rotated 2, OF _ _ assms(1)])
    fix s x s' ms
    assume "grows g L s" "x \<in> set (timer_slots ?n)" "?f s x = Inr (s', ms)"
    then show "grows g s s'"
      using rb_set_time_grows [of g s x] timer_slots_valid [of x ?n] by (auto simp: grows_def ue_at_def)
  qed
qed

subsection \<open>Histories of calls\<close>

text \<open>Every call the layer offers, in any order; configuration is for the side the layer is on.\<close>

inductive api_history :: "pdcp_env \<Rightarrow> bool \<Rightarrow> l2_msg list \<Rightarrow> pdcp_layer \<Rightarrow> bool" for E g where
  init: "api_history E g [] pdcp_layer_init"
| data_ind: "api_history E g out L \<Longrightarrow> do_pdcp_data_ind E L ctxt f rb b = Inr (L', ms) \<Longrightarrow> api_history E g (out @ ms) L'"
| data_req: "api_history E g out L \<Longrightarrow> pdcp_data_req E L ctxt f rb i b = Inr ((L', ms), ret) \<Longrightarrow>
    api_history E g (out @ ms) L'"
| sdap_req: "api_history E g out L \<Longrightarrow> call_sdap_data_req E L ctxt rb b q rqi ps = Inr ((L', ms), ret) \<Longrightarrow>
    api_history E g (out @ ms) L'"
| run: "api_history E g out L \<Longrightarrow> pdcp_run E L msgs = Inr (L', ms) \<Longrightarrow> api_history E g (out @ ms) L'"
| config: "api_history E g out L \<Longrightarrow> cx_enb_flag ctxt = g \<Longrightarrow>
    nr_rrc_pdcp_config_asn1_req E L ctxt srbs drbs sec a b c d pm rs = Inr (L', ms) \<Longrightarrow> api_history E g (out @ ms) L'"
| security: "api_history E g out L \<Longrightarrow> pdcp_config_set_security L ctxt rb sec ck ik = Inr L' \<Longrightarrow> api_history E g out L'"
| remove: "api_history E g out L \<Longrightarrow> api_history E g out (pdcp_remove_UE L ctxt)"
| tick: "api_history E g out L \<Longrightarrow> api_history E g out (nr_pdcp_tick L frame subframe)"
| timer: "api_history E g out L \<Longrightarrow> nr_pdcp_timer_thread E L t = Some (t', Inr (L', ms)) \<Longrightarrow>
    api_history E g (out @ ms) L'"

lemma init_ok: "layer_ok g pdcp_layer_init"
  by (simp add: layer_ok_def pdcp_layer_init_def new_ue_manager_def mg_inv_def)

lemma api_history_ok: "api_history E g out L \<Longrightarrow> layer_ok g L"
proof (induction rule: api_history.induct)
  case (config out L ctxt srbs drbs sec a b c d pm rs L' ms)
  have "layer_ok (cx_enb_flag ctxt) L'"
    by (rule grows_ok [OF config_grows [OF _ config.hyps(3)]]) (use config in simp)
  then show ?case using config.hyps(2) by simp
qed (auto intro: init_ok remove_UE_ok tick_ok dest: grows_ok do_pdcp_data_ind_grows pdcp_data_req_grows
      call_sdap_data_req_grows pdcp_run_grows set_security_grows timer_grows)

subsection \<open>What a bearer delivers\<close>

definition upper_msg :: "nr_pdcp_entity \<Rightarrow> int \<Rightarrow> bytes \<Rightarrow> l2_msg" where
  "upper_msg e rnti sdu =
     (let b = (if pe_has_sdap e \<and> pe_has_sdapULheader e then tl sdu else sdu) in
      if pe_is_gnb e then GtpuN3 rnti (pe_pdusession_id e) b else NasWrite b)"

fun delivery :: "nr_sdap_entity list \<Rightarrow> int \<Rightarrow> rb_ptr \<Rightarrow> nr_pdcp_entity \<Rightarrow> pdcp_event \<Rightarrow> l2_msg list" where
  "delivery l rnti (SrbAt i) e (DeliverSdu s) = [RrcDcchDataInd (pe_is_gnb e) rnti (int i + 1) (ps_buffer s)]"
| "delivery l rnti (DrbAt i) e (DeliverSdu s) =
     (if nr_sdap_get_entity l rnti (pe_pdusession_id e) = None then [] else [upper_msg e rnti (ps_buffer s)])"
| "delivery l rnti p e IntegrityFailed = [IntegrityLog]"
| "delivery l rnti p e (DeliverPdu b i) = []"

lemma sdap_get_at: "nr_sdap_get_entity l r ps = Some i \<Longrightarrow> i < length l"
  using sdap_walk_le [of l r] by (auto simp: nr_sdap_get_entity_def Let_def split: if_splits)

lemma call_sdap_data_ind_delivers:
  assumes "pe_is_gnb e \<or> \<not> (pe_has_sdap e \<and> pe_has_sdapULheader e)" "b \<noteq> []"
  shows "call_sdap_data_ind E L rb e r b =
    Inr (L, if nr_sdap_get_entity (pl_sdap L) r (pe_pdusession_id e) = None then [] else [upper_msg e r b])"
proof (cases "nr_sdap_get_entity (pl_sdap L) r (pe_pdusession_id e)")
  case None
  then show ?thesis by (simp add: call_sdap_data_ind_def sdap_data_ind_def)
next
  case (Some i)
  have "nr_sdap_rx_entity s rb (pe_is_gnb e) (pe_has_sdap e) (pe_has_sdapULheader e) ps r b =
      Inr (s, [if pe_is_gnb e then ToGtpu r ps (if pe_has_sdap e \<and> pe_has_sdapULheader e then tl b else b)
               else ToNas b])" for s ps
    using assms by (cases b) (auto simp: nr_sdap_rx_entity_def read_at_def Let_def)
  then show ?thesis
    using Some sdap_get_at [OF Some] assms(1)
    by (auto simp: call_sdap_data_ind_def sdap_data_ind_def upper_msg_def Let_def)
qed

lemma rb_event_delivers:
  assumes slot: "slot_valid p" "rb_slot (pl_ue L ui) p = Some e" "rb_ok g p e" "ue_rnti (pl_ue L ui) = r"
    and side: "g \<or> \<not> (pe_has_sdap e \<and> pe_has_sdapULheader e)"
    and ev: "ev = IntegrityFailed \<or> (\<exists>s. ev = DeliverSdu s \<and> ps_buffer s \<noteq> [])"
  shows "rb_event E ui p L ev = Inr (L, delivery (pl_sdap L) r p e ev)"
proof -
  have gn: "pe_is_gnb e = g" using slot(3) by (cases p) (auto simp: rb_ok_def)
  show ?thesis
  proof (cases "ev = IntegrityFailed")
    case False
    then obtain s where s: "ev = DeliverSdu s" "ps_buffer s \<noteq> []" using ev by blast
    show ?thesis
    proof (cases p)
      case (SrbAt i)
      then show ?thesis using s slot by (auto simp: deliver_sdu_srb_def find_srb_def)
    next
      case (DrbAt i)
      then have "deliver_sdu_drb E L ui p (ps_buffer s) = call_sdap_data_ind E L (int i + 1) e r (ps_buffer s)"
        using slot by (auto simp: deliver_sdu_drb_def find_drb_def Let_def rb_ok_def)
      then show ?thesis using call_sdap_data_ind_delivers [of e "ps_buffer s"] side gn s DrbAt by simp
    qed
  qed simp
qed

lemma rb_events_deliver:
  assumes "slot_valid p" "rb_slot (pl_ue L ui) p = Some e" "rb_ok g p e" "ue_rnti (pl_ue L ui) = r"
    and "g \<or> \<not> (pe_has_sdap e \<and> pe_has_sdapULheader e)"
    and "\<forall>ev\<in>set evs. ev = IntegrityFailed \<or> (\<exists>s. ev = DeliverSdu s \<and> ps_buffer s \<noteq> [])"
  shows "run_ops (rb_event E ui p) L evs = Inr (L, concat (map (delivery (pl_sdap L) r p e) evs))"
  using assms(6) by (induction evs) (simp_all add: rb_event_delivers [OF assms(1-5)])

text \<open>A PDU for a bearer: the entity takes it, and what it delivers goes up.\<close>

lemma rb_recv_pdu_delivers:
  assumes ok: "layer_ok g L" "ue_at L ui" and p: "slot_valid p" "rb_slot (pl_ue L ui) p = Some e"
    and r: "ue_rnti (pl_ue L ui) = r" and side: "g \<or> \<not> (pe_has_sdap e \<and> pe_has_sdapULheader e)"
    and st: "nr_pdcp_entity_recv_pdu (en_crypto E) e b = Inr (e', evs)"
  shows "rb_recv_pdu E L ui p b = Inr (pl_store L ui p e', concat (map (delivery (pl_sdap L) r p e') evs))"
proof -
  have rb: "rb_ok g p e" using pl_ue_wf [OF ok] p by (auto simp: ue_wf_def)
  have same: "pe_has_sdap e' = pe_has_sdap e" "pe_has_sdapULheader e' = pe_has_sdapULheader e"
    using recv_pdu_keeps(1) [OF st] by (simp_all add: keeps_def pe_static_def)
  have uok: "ue_ok (pl_ue L ui)" using pl_ue_wf [OF ok] by (simp add: ue_wf_def)
  have "\<forall>ev\<in>set evs. ev = IntegrityFailed \<or> (\<exists>s. ev = DeliverSdu s \<and> ps_buffer s \<noteq> [])"
    using recv_pdu_events [OF st] recv_pdu_keeps(2) [OF st] rb by (fastforce simp: rb_ok_def pdcp_sdu_ok_def)
  then have "run_ops (rb_event E ui p) (pl_store L ui p e') evs =
      Inr (pl_store L ui p e', concat (map (delivery (pl_sdap (pl_store L ui p e')) r p e') evs))"
    using rb_slot_store [OF uok p(1,1)] ok r side same p
    by (intro rb_events_deliver [where g = g] rb_ok_keeps [OF recv_pdu_keeps(1) [OF st] rb]) simp_all
  then show ?thesis using p st by (simp add: rb_recv_pdu_def)
qed

text \<open>Without rules and default bearer SDAP passes packets through, without a header.\<close>

lemma sdap_passes_through:
  assumes "\<forall>s\<in>set l. sdap_ok s" "nr_sdap_get_entity l r ps = Some i" "se_default_drb (l ! i) = 0"
    "sdap_rules (l ! i) q = None" "0 \<le> q" "q < 64"
  shows "sdap_data_req l r enb d (Some sdu) q rqi ps = Inr (Some (d, sdu))"
proof -
  have "sdap_ok (l ! i)" using assms(1) sdap_get_at [OF assms(2)] by simp
  then have "nr_sdap_qfi2drb_map (l ! i) q = Inr 0"
    using sdap.pick_rule [of "l ! i" q] assms by simp
  then show ?thesis using assms(2) by (simp add: sdap_data_req_def nr_sdap_tx_entity_def)
qed

subsection \<open>Example\<close>

definition ex_env :: "bool \<Rightarrow> pdcp_env" where
  "ex_env g = \<lparr>en_crypto = toy_crypto, en_is_cu = g, en_use_tun = (\<not> g), en_enb_tun = False,
     en_log_sdap = False, en_nb_enb_inst = 0\<rparr>"

definition ex_drb :: "bool \<Rightarrow> nr_drb_to_add_mod" where
  "ex_drb h =
     \<lparr>da_cnAssociation = Some (CnSdap (Some \<lparr>sc_pdu_Session = 10, sc_HeaderUL = h, sc_HeaderDL = False\<rparr>)),
      da_drb_Identity = 1,
      da_pdcp_Config = Some \<lparr>pc_drb = Some \<lparr>pd_discardTimer = Some 15, pd_SN_SizeUL = Some 1,
                                pd_SN_SizeDL = Some 1, pd_integrityProtection = True\<rparr>,
                             pc_t_Reordering = Some 14, pc_cipheringDisabled = False\<rparr>\<rparr>"

definition ex_config :: "bool \<Rightarrow> bool \<Rightarrow> (pdcp_layer \<times> l2_msg list) res" where
  "ex_config g h = nr_rrc_pdcp_config_asn1_req (ex_env g) pdcp_layer_init ((rlc_ctxt 7)\<lparr>cx_enb_flag := g\<rparr>) None
     (Some [ex_drb h]) 0x22 None None (Some (replicate 16 1)) (Some (replicate 16 2)) False (Some [RlcPrAm])"

definition ex_layer :: "bool \<Rightarrow> bool \<Rightarrow> pdcp_layer" where
  "ex_layer g h = fst (projr (ex_config g h))"

lemma ex_config_ok: "ex_config g h = Inr (ex_layer g h, [])"
proof -
  have "\<not> isl (ex_config True True) \<and> snd (projr (ex_config True True)) = []"
    "\<not> isl (ex_config True False) \<and> snd (projr (ex_config True False)) = []"
    "\<not> isl (ex_config False True) \<and> snd (projr (ex_config False True)) = []"
    "\<not> isl (ex_config False False) \<and> snd (projr (ex_config False False)) = []"
    by code_simp+
  then show ?thesis
    by (cases g; cases h; cases "ex_config g h") (auto simp: ex_layer_def)
qed

lemma ex_fresh: "mg_view (pl_manager pdcp_layer_init) r = None" "r \<notin> se_rnti ` set (pl_sdap pdcp_layer_init)"
  by (simp_all add: pdcp_layer_init_def new_ue_manager_def mg_view_def)

lemma ex_params: "\<exists>q. drb_params_of (ex_env g) (ex_drb h) = Inr q \<and> dp_sdapULheader q = h \<and> dp_pdusession_id q = 10"
  by (simp add: drb_params_of_def ex_drb_def ex_env_def decode_cn_association_def decode_sn_size_ul_def
      decode_sn_size_dl_def decode_discard_timer_def decode_t_reordering_def)

lemma init_history_config:
  assumes "cx_enb_flag ctxt = g" "nr_rrc_pdcp_config_asn1_req E pdcp_layer_init ctxt srbs drbs sec a b c d pm rs = Inr (L, ms)"
  shows "api_history E g ms L"
  using api_history.config [OF api_history.init assms] by simp

lemma ex_history: "api_history (ex_env g) g [] (ex_layer g h)"
  using init_history_config [OF _ ex_config_ok [of g h, unfolded ex_config_def]] by simp

subsection \<open>Properties\<close>

text \<open>
  C9: the layer stays well-formed over every sequence of calls.  No RNTI has two UEs, every bearer
  that is stored in a slot is of the slot's kind (signalling or data), carries the slot's number as
  its bearer identity, which is what ciphering and integrity use, is on the side of this node and
  has a valid sequence-number configuration; every flow table has its 64 entries.
\<close>

theorem pdcp_layer_invariant:
  assumes "api_history E g out L"
  shows "distinct (map ue_rnti (mg_ue_list (pl_manager L))) \<and>
    (\<forall>u\<in>set (mg_ue_list (pl_manager L)). length (ue_srb u) = 3 \<and> length (ue_drb u) = 5 \<and>
       (\<forall>i<3. \<forall>e. ue_srb u ! i = Some e \<longrightarrow>
          pe_type e = NR_PDCP_SRB \<and> pe_rb_id e = int i + 1 \<and> pe_is_gnb e = g \<and> pdcp_conf e) \<and>
       (\<forall>i<5. \<forall>e. ue_drb u ! i = Some e \<longrightarrow>
          pe_type e = NR_PDCP_DRB_AM \<and> pe_rb_id e = int i + 1 \<and> pe_is_gnb e = g \<and> pdcp_conf e)) \<and>
    (\<forall>s\<in>set (pl_sdap L). length (se_qfi2drb_table s) = 64)"
proof -
  have ok: "layer_ok g L" by (rule api_history_ok [OF assms])
  have "rb_ok g p e" if "u \<in> set (mg_ue_list (pl_manager L))" "slot_valid p" "rb_slot u p = Some e" for u p e
    using ok that by (auto simp: layer_ok_def ue_wf_def)
  from this [where p = "SrbAt i" for i] this [where p = "DrbAt i" for i]
  show ?thesis using ok by (auto simp: layer_ok_def mg_inv_def ue_ok_def sdap_ok_def rb_ok_def)
qed

theorem pdcp_layer_invariant_witness:
  "distinct (map ue_rnti (mg_ue_list (pl_manager (ex_layer True False)))) \<and>
   map (\<lambda>s. length (se_qfi2drb_table s)) (pl_sdap (ex_layer True False)) = [64]"
proof -
  have "length (pl_sdap (ex_layer True False)) = 1" by code_simp
  then obtain s where s: "pl_sdap (ex_layer True False) = [s]" by (cases "pl_sdap (ex_layer True False)") auto
  show ?thesis using pdcp_layer_invariant [OF ex_history [of True False]] s by simp
qed

text \<open>
  The outcome of an uplink PDU at the gNB, for every PDU and every state the layer can be in.
  A bearer that the UE does not have ends the process; a PDU that is not empty but shorter than its
  header makes the entity read behind the buffer; every other PDU is processed: the entity is
  updated, and each SDU it delivers goes to RRC, with the number of the signalling bearer, or to
  GTP-U if there is an SDAP entity for its session.
\<close>

theorem pdcp_uplink_outcome:
  assumes "api_history E True out L" "ctr_mode (en_crypto E)"
    and ctxt: "cx_module_id ctxt = 0" "cx_instance ctxt = 0" "cx_eNB_index ctxt = 0" "\<not> cx_brOption ctxt"
    and r: "r = cx_rnti ctxt"
    and u: "u = (case mg_view (pl_manager L) r of None \<Rightarrow> empty_ue r | Some u \<Rightarrow> u)"
  shows "case rb_lookup u f rb of
      None \<Rightarrow> do_pdcp_data_ind E L ctxt f rb b = Inl Exit
    | Some p \<Rightarrow>
        \<exists>e. rb_slot u p = Some e \<and>
          (if 0 < length b \<and> int (length b) < pdcp_header_size e
           then do_pdcp_data_ind E L ctxt f rb b = Inl OutOfBounds
           else \<exists>e' evs L'. nr_pdcp_entity_recv_pdu (en_crypto E) e b = Inr (e', evs) \<and>
                  do_pdcp_data_ind E L ctxt f rb b = Inr (L', concat (map (delivery (pl_sdap L) r p e') evs)) \<and>
                  mg_view (pl_manager L') r = Some (rb_store u p e') \<and> pl_sdap L' = pl_sdap L)"
proof -
  have ok: "layer_ok True L" by (rule api_history_ok [OF assms(1)])
  then have inv: "mg_inv (pl_manager L)" by (simp add: layer_ok_def)
  obtain m ui where g: "mg_get_ue (pl_manager L) r = (m, ui)" by fastforce
  let ?L = "L\<lparr>pl_manager := m\<rparr>"
  note k = get_ue_ok [OF ok g]
  have ue: "pl_ue ?L ui = u" "ue_rnti u = r"
    using view_get_ue(1) [OF inv g] get_ue_rnti [OF inv g] by (simp_all add: pl_ue_def u)
  show ?thesis
  proof (cases "rb_lookup u f rb")
    case None
    then show ?thesis using g ctxt ue r by (simp add: do_pdcp_data_ind_def)
  next
    case (Some p)
    note l = rb_lookup_Some [OF Some]
    then obtain e where e: "rb_slot u p = Some e" by blast
    have d: "do_pdcp_data_ind E L ctxt f rb b = rb_recv_pdu E ?L ui p b"
      using g ctxt ue r Some by (simp add: do_pdcp_data_ind_def)
    note o = pdcp_recv_pdu_outcome_eq [OF assms(2), of e b]
    have "\<exists>e' evs L'. nr_pdcp_entity_recv_pdu (en_crypto E) e b = Inr (e', evs) \<and>
        do_pdcp_data_ind E L ctxt f rb b = Inr (L', concat (map (delivery (pl_sdap L) r p e') evs)) \<and>
        mg_view (pl_manager L') r = Some (rb_store u p e') \<and> pl_sdap L' = pl_sdap L"
      if long: "\<not> (0 < length b \<and> int (length b) < pdcp_header_size e)"
    proof -
      obtain e' evs where st: "nr_pdcp_entity_recv_pdu (en_crypto E) e b = Inr (e', evs)"
        using o long by (metis prod.collapse)
      have "rb_recv_pdu E ?L ui p b = Inr (pl_store ?L ui p e', concat (map (delivery (pl_sdap ?L) r p e') evs))"
        by (rule rb_recv_pdu_delivers [OF k(1,2) l(1) _ _ _ st]) (use ue e in auto)
      moreover have "mg_view (pl_manager (pl_store ?L ui p e')) r = Some (rb_store u p e')"
        using view_update [OF inv g, of "rb_store u p e'"] ue by (simp add: pl_store_def)
      ultimately show ?thesis using st d by auto
    qed
    moreover have "do_pdcp_data_ind E L ctxt f rb b = Inl OutOfBounds"
      if "0 < length b \<and> int (length b) < pdcp_header_size e"
      using o that d ue e by (simp add: rb_recv_pdu_def)
    ultimately show ?thesis using Some e by auto
  qed
qed

theorem pdcp_uplink_outcome_witness:
  "do_pdcp_data_ind (ex_env True) (ex_layer True False) (rlc_ctxt 7) False 2 [1] = Inl Exit \<and>
   do_pdcp_data_ind (ex_env True) (ex_layer True False) (rlc_ctxt 7) False 1 [0x80] = Inl OutOfBounds \<and>
   (\<exists>L'. do_pdcp_data_ind (ex_env True) (ex_layer True False) (rlc_ctxt 7) False 1 [] = Inr (L', []))"
proof -
  let ?L = "ex_layer True False" and ?E = "ex_env True" and ?c = "rlc_ctxt 7"
  define u where "u = (case mg_view (pl_manager ?L) 7 of None \<Rightarrow> empty_ue 7 | Some u \<Rightarrow> u)"
  have u: "rb_lookup u False 2 = None" "rb_lookup u False 1 = Some (DrbAt 0)"
      "map_option pe_sn_size (rb_slot u (DrbAt 0)) = Some 18"
    unfolding u_def by code_simp+
  have c: "cx_module_id ?c = 0" "cx_instance ?c = 0" "cx_eNB_index ?c = 0" "\<not> cx_brOption ?c" "7 = cx_rnti ?c"
    by (simp_all add: rlc_ctxt_def)
  have P: "ctr_mode (en_crypto ?E)" using toy_crypto_ctr_mode by (simp add: ex_env_def)
  note o = pdcp_uplink_outcome [OF ex_history [of True False] P c u_def]
  have "do_pdcp_data_ind ?E ?L ?c False 2 [1] = Inl Exit" using o [of False 2 "[1]"] u(1) by simp
  moreover have "do_pdcp_data_ind ?E ?L ?c False 1 [0x80] = Inl OutOfBounds"
    using o [of False 1 "[0x80]"] u(2,3) by (auto simp: pdcp_header_size_def)
  moreover have "\<exists>L'. do_pdcp_data_ind ?E ?L ?c False 1 [] = Inr (L', [])"
    using o [of False 1 "[]"] u(2) by (auto simp: nr_pdcp_entity_recv_pdu_def)
  ultimately show ?thesis by blast
qed

text \<open>
  The outcome of adding a data bearer, for every configuration.  The faults of reading the
  configuration come first; then a bearer identity outside 1 to 5, which RRC allows up to 32, reads
  outside the table of the UE; a bearer that exists is left alone; an algorithm that is not
  supported ends the process; everything else succeeds.
\<close>

theorem add_drb_am_outcome:
  assumes "layer_ok g L"
    and u: "u = (case mg_view (pl_manager L) r of None \<Rightarrow> empty_ue r | Some u \<Rightarrow> u)"
  shows "fault_of (add_drb_am E g r ca ia ck ik L s) =
    (case drb_params_of E s of
       Inl f \<Rightarrow> Some f
     | Inr q \<Rightarrow>
         if da_drb_Identity s < 1 \<or> da_drb_Identity s > 5 then Some OutOfBounds
         else if ue_drb u ! nat (da_drb_Identity s - 1) \<noteq> None then None
         else if (dp_integrity q \<and> ia \<notin> {-1, 0, 2}) \<or> (dp_ciphering q \<and> ca \<notin> {-1, 0, 2}) then Some Exit
         else None)"
proof -
  have inv: "mg_inv (pl_manager L)" using assms(1) by (simp add: layer_ok_def)
  obtain m ui where g: "mg_get_ue (pl_manager L) r = (m, ui)" by fastforce
  have m: "mg_at m ui = u" using view_get_ue(1) [OF inv g] u by simp
  let ?d = "da_drb_Identity s"
  show ?thesis
  proof (cases "drb_params_of E s")
    case (Inl f)
    then show ?thesis by (simp add: add_drb_am_def fault_of_def)
  next
    case (Inr q)
    have ent: "fault_of (drb_entity g ?d q ca ia ck ik) =
        (if (dp_integrity q \<and> ia \<notin> {-1, 0, 2}) \<or> (dp_ciphering q \<and> ca \<notin> {-1, 0, 2}) then Some Exit else None)"
      by (simp add: drb_entity_def new_nr_pdcp_entity_def set_security_fault)
    have sd: "\<exists>l. new_nr_sdap_entity (pl_sdap L) h r' ps False d [] = Inr (l, [])" for h r' ps d
      by (auto simp: new_nr_sdap_entity_def Let_def split: option.splits)
    consider "?d < 1 \<or> ?d > 5" | "1 \<le> ?d" "?d \<le> 5" "ue_drb u ! nat (?d - 1) \<noteq> None"
      | "1 \<le> ?d" "?d \<le> 5" "ue_drb u ! nat (?d - 1) = None" by fastforce
    then show ?thesis
    proof cases
      case 3
      then show ?thesis
        using Inr g m ent sd [of "dp_sdapULheader q \<or> dp_sdapDLheader q" "r mod 65536" "dp_pdusession_id q" "?d mod 256"]
        by (cases "drb_entity g ?d q ca ia ck ik") (auto simp: add_drb_am_def fault_of_def ue_add_drb_def split: if_splits)
    qed (use Inr g m in \<open>auto simp: add_drb_am_def fault_of_def guard_def\<close>)
  qed
qed

theorem add_drb_am_outcome_witness:
  "fault_of (add_drb_am (ex_env True) True 7 2 2 None None (ex_layer True False) (ex_drb False\<lparr>da_drb_Identity := 6\<rparr>)) =
     Some OutOfBounds \<and>
   fault_of (add_drb_am (ex_env True) True 7 1 2 None None (ex_layer True False) (ex_drb False\<lparr>da_drb_Identity := 2\<rparr>)) =
     Some Exit"
proof -
  define u where "u = (case mg_view (pl_manager (ex_layer True False)) 7 of None \<Rightarrow> empty_ue 7 | Some u \<Rightarrow> u)"
  note o = add_drb_am_outcome [OF api_history_ok [OF ex_history [of True False]] u_def]
  have u: "ue_drb u ! 1 = None" unfolding u_def by code_simp
  have p: "\<exists>q. drb_params_of (ex_env True) (ex_drb False\<lparr>da_drb_Identity := i\<rparr>) = Inr q \<and> dp_ciphering q" for i
    by (simp add: drb_params_of_def ex_drb_def ex_env_def decode_cn_association_def decode_sn_size_ul_def
        decode_sn_size_dl_def decode_discard_timer_def decode_t_reordering_def)
  obtain q6 q2 where q: "drb_params_of (ex_env True) (ex_drb False\<lparr>da_drb_Identity := 6\<rparr>) = Inr q6"
      "drb_params_of (ex_env True) (ex_drb False\<lparr>da_drb_Identity := 2\<rparr>) = Inr q2" "dp_ciphering q2"
    using p [of 6] p [of 2] by blast
  show ?thesis unfolding o using q u by simp
qed

text \<open>
  Removing a UE removes its bearers and nothing of any other UE, but leaves its SDAP entity
  behind.  A downlink packet for the UE is still accepted by SDAP; it does not reach a bearer, and
  the lookup brings the UE back as one without bearers.
\<close>

theorem remove_UE_leaves_sdap:
  assumes "layer_ok g L" "cx_rnti ctxt = r"
    and "nr_sdap_get_entity (pl_sdap L) r ps = Some i" "se_default_drb (pl_sdap L ! i) = 0"
    and "sdap_rules (pl_sdap L ! i) q = None" "0 \<le> q" "q < 64" "c = (rlc_ctxt r)\<lparr>cx_enb_flag := g\<rparr>"
  shows "mg_view (pl_manager (pdcp_remove_UE L ctxt)) = (mg_view (pl_manager L))(r := None) \<and>
    pl_sdap (pdcp_remove_UE L ctxt) = pl_sdap L \<and>
    (\<exists>L'. call_sdap_data_req E (pdcp_remove_UE L ctxt) c d sdu q rqi ps = Inr ((L', []), False) \<and>
       mg_view (pl_manager L') r = Some (empty_ue r))"
proof -
  let ?L = "pdcp_remove_UE L ctxt"
  have inv: "mg_inv (pl_manager L)" using assms(1) by (simp add: layer_ok_def)
  have v: "mg_view (pl_manager ?L) = (mg_view (pl_manager L))(r := None)" "pl_sdap ?L = pl_sdap L"
    using mg.view_remove [OF inv, of r] assms(2) by (simp_all add: pdcp_remove_UE_def)
  have inv': "mg_inv (pl_manager ?L)" using mg.inv_remove [OF inv, of r] assms(2) by (simp add: pdcp_remove_UE_def)
  obtain m ui where u: "mg_get_ue (pl_manager ?L) r = (m, ui)" by fastforce
  have m: "mg_at m ui = empty_ue r" using view_get_ue(1) [OF inv' u] v by simp
  have "mg_view m r = Some (empty_ue r)" using mg.at_get [OF inv', of r] u m by simp
  moreover have "rb_lookup (empty_ue r) False d = None"
    by (auto simp: rb_lookup_def empty_ue_def Let_def nth_replicate)
  moreover have "sdap_data_req (pl_sdap L) r g d (Some sdu) q rqi ps = Inr (Some (d, sdu))"
    using assms by (intro sdap_passes_through) (auto simp: layer_ok_def)
  ultimately have "call_sdap_data_req E ?L c d sdu q rqi ps = Inr ((?L\<lparr>pl_manager := m\<rparr>, []), False) \<and>
      mg_view (pl_manager (?L\<lparr>pl_manager := m\<rparr>)) r = Some (empty_ue r)"
    using v(2) u m assms(8)
    by (simp add: call_sdap_data_req_def pdcp_data_req_def pdcp_data_req_drb_def rlc_ctxt_def pl_ue_def)
  then show ?thesis using v by blast
qed

theorem remove_UE_leaves_sdap_witness:
  "mg_view (pl_manager (pdcp_remove_UE (ex_layer True False) (rlc_ctxt 7))) 7 = None \<and>
   (\<exists>L'. call_sdap_data_req (ex_env True) (pdcp_remove_UE (ex_layer True False) (rlc_ctxt 7)) (rlc_ctxt 7) 1 [1] 9 False 10
       = Inr ((L', []), False))"
proof -
  let ?L = "ex_layer True False"
  have s: "nr_sdap_get_entity (pl_sdap ?L) 7 10 = Some 0" "se_default_drb (pl_sdap ?L ! 0) = 0"
      "sdap_rules (pl_sdap ?L ! 0) 9 = None" by code_simp+
  have c: "rlc_ctxt 7 = (rlc_ctxt 7)\<lparr>cx_enb_flag := True\<rparr>" "cx_rnti (rlc_ctxt 7) = 7" by (simp_all add: rlc_ctxt_def)
  show ?thesis
    using remove_UE_leaves_sdap [OF api_history_ok [OF ex_history [of True False]] c(2) s _ _ c(1)] by fastforce
qed

lemma set_time_events:
  assumes "nr_pdcp_entity_set_time e now = (e', evs)" "sdus_ok e" "ev \<in> set evs"
  shows "\<exists>s. ev = DeliverSdu s \<and> ps_buffer s \<noteq> []"
proof -
  let ?x = "e\<lparr>pe_t_current := now\<rparr>"
  obtain d1 l1 where d: "pdcp_deliver_below (pe_rx_list ?x) (pe_rx_reord ?x) = (d1, l1)" by fastforce
  let ?y = "?x\<lparr>pe_t_reordering_start := 0, pe_rx_list := l1, pe_rx_size := pe_rx_size ?x - sum_list (map ps_size d1)\<rparr>"
  obtain e3 d2 where e3: "pdcp_deliver_from ?y (pe_rx_reord ?x) = (e3, d2)" by fastforce
  have l: "pe_rx_list e = d1 @ l1" using pdcp_deliver_below_split [OF d] by simp
  then have "\<forall>s\<in>set (d1 @ d2). pdcp_sdu_ok s"
    using assms(2) deliver_from_keeps(2) [OF e3] by (auto simp: sdus_ok_def)
  then have "\<forall>s\<in>set (d1 @ d2). ps_buffer s \<noteq> []" by (fastforce simp: pdcp_sdu_ok_def)
  moreover have "evs = [] \<or> evs = map DeliverSdu (d1 @ d2)"
    using assms(1) d e3 by (auto simp: nr_pdcp_entity_set_time_def check_t_reordering_def Let_def split: if_splits)
  ultimately show ?thesis using assms(3) by auto
qed

text \<open>The sweep of the timer thread at the gNB never faults and visits each bearer once.\<close>

lemma rb_set_time_gnb:
  assumes ok: "layer_ok True L" "ue_at L ui" and p: "slot_valid p"
  shows "\<exists>ms. rb_set_time E now L (ui, p) =
    Inr (case rb_slot (pl_ue L ui) p of None \<Rightarrow> L | Some e \<Rightarrow> pl_store L ui p (fst (nr_pdcp_entity_set_time e now)), ms)"
proof (cases "rb_slot (pl_ue L ui) p")
  case (Some e)
  obtain e' evs where t: "nr_pdcp_entity_set_time e now = (e', evs)" by fastforce
  have wf: "ue_wf True (pl_ue L ui)" by (rule pl_ue_wf [OF ok])
  then have rb: "rb_ok True p e" "ue_ok (pl_ue L ui)" using p Some by (auto simp: ue_wf_def)
  have "run_ops (rb_event E ui p) (pl_store L ui p e') evs =
      Inr (pl_store L ui p e', concat (map (delivery (pl_sdap (pl_store L ui p e')) (ue_rnti (pl_ue L ui)) p e') evs))"
    using set_time_events [OF t] rb ok p rb_slot_store [OF rb(2) p p]
    by (intro rb_events_deliver [where g = True] rb_ok_keeps [OF set_time_keeps [OF t] rb(1)])
      (auto simp: rb_ok_def)
  then show ?thesis using Some t by (simp add: rb_set_time_def)
qed (simp add: rb_set_time_def)

lemma pl_store_other:
  assumes "ui \<noteq> uj"
  shows "pl_ue (pl_store L ui p e) uj = pl_ue L uj"
  using assms by (simp add: pl_store_def mg_update_ue_def pl_ue_def mg_at_def)

definition same_frame :: "pdcp_layer \<Rightarrow> pdcp_layer \<Rightarrow> bool" where
  "same_frame L L' \<longleftrightarrow> length (mg_ue_list (pl_manager L')) = length (mg_ue_list (pl_manager L)) \<and>
     pl_timer_curtime L' = pl_timer_curtime L"

lemma sweep_slots:
  assumes "layer_ok True L" "\<forall>x\<in>set xs. ue_at L (fst x) \<and> slot_valid (snd x)" "distinct xs"
  shows "\<exists>L' ms. run_ops (rb_set_time E now) L xs = Inr (L', ms) \<and> same_frame L L' \<and>
    (\<forall>ui p. ue_at L ui \<longrightarrow> slot_valid p \<longrightarrow> rb_slot (pl_ue L' ui) p =
       (if (ui, p) \<in> set xs then map_option (\<lambda>e. fst (nr_pdcp_entity_set_time e now)) (rb_slot (pl_ue L ui) p)
        else rb_slot (pl_ue L ui) p))"
  using assms
proof (induction xs arbitrary: L)
  case (Cons x xs)
  obtain ui p where x: "x = (ui, p)" by fastforce
  have at: "ue_at L ui" "slot_valid p" using Cons.prems(2) x by auto
  define L1 where "L1 = (case rb_slot (pl_ue L ui) p of None \<Rightarrow> L
      | Some e \<Rightarrow> pl_store L ui p (fst (nr_pdcp_entity_set_time e now)))"
  obtain ms where s: "rb_set_time E now L x = Inr (L1, ms)"
    using rb_set_time_gnb [OF Cons.prems(1) at] x by (auto simp: L1_def)
  have g: "layer_ok True L1" using grows_ok [OF rb_set_time_grows [OF Cons.prems(1) _ _ s]] at x by simp
  have f: "same_frame L L1" by (auto simp: same_frame_def L1_def pl_store_def mg_update_ue_def split: option.splits)
  then have a: "ue_at L1 uj = ue_at L uj" for uj by (simp add: same_frame_def ue_at_def)
  have uok: "ue_ok (pl_ue L ui)" using pl_ue_wf [OF Cons.prems(1) at(1)] by (simp add: ue_wf_def)
  have sl: "rb_slot (pl_ue L1 uj) q = (if (uj, q) = x
      then map_option (\<lambda>e. fst (nr_pdcp_entity_set_time e now)) (rb_slot (pl_ue L uj) q) else rb_slot (pl_ue L uj) q)"
    if "slot_valid q" for uj q
    using that at x uok by (cases "uj = ui") (auto simp: L1_def pl_store_other rb_slot_store split: option.splits)
  obtain L' ms' where r: "run_ops (rb_set_time E now) L1 xs = Inr (L', ms')" "same_frame L1 L'"
      "\<forall>ui p. ue_at L1 ui \<longrightarrow> slot_valid p \<longrightarrow> rb_slot (pl_ue L' ui) p =
       (if (ui, p) \<in> set xs then map_option (\<lambda>e. fst (nr_pdcp_entity_set_time e now)) (rb_slot (pl_ue L1 ui) p)
        else rb_slot (pl_ue L1 ui) p)"
    using Cons.IH [OF g] Cons.prems a by auto
  have "same_frame L L'" using f r(2) by (simp add: same_frame_def)
  moreover have "x \<notin> set xs" using Cons.prems(3) by simp
  ultimately show ?case using s r sl a by auto
qed (simp add: same_frame_def)

lemma set_timer_slots: "set (timer_slots n) = {(i, p). i < n \<and> (\<exists>j<2. p = SrbAt j) \<or> i < n \<and> (\<exists>j<5. p = DrbAt j)}"
  unfolding timer_slots_def set_concat set_map set_append set_upt by auto

lemma distinct_timer_slots: "distinct (timer_slots n)"
proof (induction n)
  case (Suc n)
  have "timer_slots (Suc n) = timer_slots n @ map (\<lambda>j. (n, SrbAt j)) [0..<2] @ map (\<lambda>j. (n, DrbAt j)) [0..<5]"
    by (simp add: timer_slots_def)
  moreover have "distinct (map (\<lambda>j. (n, SrbAt j)) [0..<2] @ map (\<lambda>j. (n, DrbAt j)) [0..<5])"
    by (auto simp: distinct_map inj_on_def)
  ultimately show ?case using Suc timer_slots_valid [of _ n] by fastforce
qed (simp add: timer_slots_def)

text \<open>
  C35: time reaches every bearer.  When the frame or subframe number changes, the tick advances the
  clock by one and wakes the timer thread; its round terminates without a fault, hands the new time
  to the first two signalling bearers and the five data bearers of every UE, each exactly once, and
  then the thread waits again.  A tick that repeats the last frame and subframe does nothing.
\<close>

theorem tick_reaches_every_bearer:
  assumes "api_history E True out L"
  shows "(if frame = pl_last_frame L \<and> subframe = pl_last_subframe L then nr_pdcp_tick L frame subframe = L
     else cur \<noteq> pl_time L + 1 \<longrightarrow>
       (\<exists>L' ms. nr_pdcp_timer_thread E (nr_pdcp_tick L frame subframe) cur = Some (pl_time L + 1, Inr (L', ms)) \<and>
         nr_pdcp_timer_thread E L' (pl_time L + 1) = None \<and>
         (\<forall>ui<length (mg_ue_list (pl_manager L)). \<forall>p. slot_valid p \<and> p \<noteq> SrbAt 2 \<longrightarrow>
            rb_slot (pl_ue L' ui) p =
              map_option (\<lambda>e. fst (nr_pdcp_entity_set_time e (pl_time L + 1))) (rb_slot (pl_ue L ui) p))))"
proof (cases "frame = pl_last_frame L \<and> subframe = pl_last_subframe L")
  case True
  then show ?thesis by (simp add: nr_pdcp_tick_def)
next
  case False
  let ?L = "nr_pdcp_tick L frame subframe" and ?n = "length (mg_ue_list (pl_manager L))"
  have L: "pl_timer_curtime ?L = pl_time L + 1" "pl_manager ?L = pl_manager L"
    using False by (auto simp: nr_pdcp_tick_def nr_pdcp_wakeup_timer_thread_def)
  have ok: "layer_ok True ?L" by (rule tick_ok [OF api_history_ok [OF assms]])
  have v: "\<forall>x\<in>set (timer_slots ?n). ue_at ?L (fst x) \<and> slot_valid (snd x)"
    using timer_slots_valid [of _ ?n] L(2) by (auto simp: ue_at_def)
  obtain L' ms where s: "run_ops (rb_set_time E (pl_time L + 1)) ?L (timer_slots ?n) = Inr (L', ms)" "same_frame ?L L'"
      "\<forall>ui p. ue_at ?L ui \<longrightarrow> slot_valid p \<longrightarrow> rb_slot (pl_ue L' ui) p =
       (if (ui, p) \<in> set (timer_slots ?n)
        then map_option (\<lambda>e. fst (nr_pdcp_entity_set_time e (pl_time L + 1))) (rb_slot (pl_ue ?L ui) p)
        else rb_slot (pl_ue ?L ui) p)"
    using sweep_slots [OF ok v distinct_timer_slots, of E "pl_time L + 1"] by blast
  have "pl_timer_curtime L' = pl_time L + 1" using s(2) L(1) by (simp add: same_frame_def)
  moreover have "(ui, p) \<in> set (timer_slots ?n)" if "ui < ?n" "slot_valid p" "p \<noteq> SrbAt 2" for ui p
    using that by (cases p) (auto simp: set_timer_slots)
  moreover have "pl_ue ?L ui = pl_ue L ui" for ui using L(2) by (simp add: pl_ue_def)
  ultimately show ?thesis
    using False s L by (auto simp: nr_pdcp_timer_thread_def mg_get_ue_count_def ue_at_def)
qed

theorem tick_reaches_every_bearer_witness:
  "(\<exists>L' ms. nr_pdcp_timer_thread (ex_env True) (nr_pdcp_tick (ex_layer True False) 5 3) 0 = Some (1, Inr (L', ms)) \<and>
     map_option pe_t_current (rb_slot (pl_ue L' 0) (DrbAt 0)) = Some 1)"
proof -
  let ?L = "ex_layer True False"
  obtain e where e: "rb_slot (pl_ue ?L 0) (DrbAt 0) = Some e" "pe_t_reordering_start e = 0"
  proof -
    have "map_option pe_t_reordering_start (rb_slot (pl_ue ?L 0) (DrbAt 0)) = Some 0" by code_simp
    then show ?thesis using that by blast
  qed
  have l: "pl_last_frame ?L = 0" "pl_time ?L = 0" "length (mg_ue_list (pl_manager ?L)) = 1" by code_simp+
  have "pe_t_current (fst (nr_pdcp_entity_set_time e 1)) = 1"
    using e(2) by (simp add: nr_pdcp_entity_set_time_def check_t_reordering_def)
  moreover have "slot_valid (DrbAt 0)" "DrbAt 0 \<noteq> SrbAt 2" by simp_all
  ultimately show ?thesis
    using tick_reaches_every_bearer [OF ex_history [of True False], of 5 3 0] l e(1)
    by (auto dest!: spec [of _ "DrbAt 0"])
qed

end
