(* ===== verification/Pdcp_Transfer.thy ===== *)
theory Pdcp_Transfer
  imports Pdcp_Api_Props
begin

text \<open>
  Two nodes with the same data bearer: packets that enter SDAP on one node, cross PDCP on both and
  leave SDAP on the other.  The lower layers are a channel that hands the PDUs over in order; the
  RLC theories are about that part.
\<close>

subsection \<open>The link\<close>

text \<open>The PDU in a message to the lower layer, for data bearers.\<close>

fun msg_pdu :: "l2_msg \<Rightarrow> (int \<times> int \<times> bytes) option" where
  "msg_pdu (GtpuF1U rnti rb_id pdu) = Some (rnti, rb_id, pdu)"
| "msg_pdu (RlcDataReq ctxt srb_flag rb_id mui pdu) = (if srb_flag then None else Some (cx_rnti ctxt, rb_id, pdu))"
| "msg_pdu _ = None"

fun hand_over :: "pdcp_env \<Rightarrow> pdcp_layer \<Rightarrow> l2_msg \<Rightarrow> (pdcp_layer \<times> l2_msg list) res" where
  "hand_over E R m =
     (case msg_pdu m of
        None \<Rightarrow> Inr (R, [])
      | Some (rnti, rb_id, pdu) \<Rightarrow> do_pdcp_data_ind E R (rlc_ctxt rnti) False rb_id pdu)"

text \<open>Packets of one flow, one after the other: sent by \<open>S\<close>, received by \<open>R\<close>.\<close>

definition send_one ::
    "pdcp_env \<Rightarrow> pdcp_env \<Rightarrow> protocol_ctxt \<Rightarrow> int \<Rightarrow> int \<Rightarrow> bool \<Rightarrow> int \<Rightarrow>
     pdcp_layer \<times> pdcp_layer \<Rightarrow> bytes \<Rightarrow> ((pdcp_layer \<times> pdcp_layer) \<times> l2_msg list) res" where
  "send_one ES ER ctxt drb qfi rqi ps = (\<lambda>(S, R) sdu.
     bnd (call_sdap_data_req ES S ctxt drb sdu qfi rqi ps) (\<lambda>((S', ms), ret).
     bnd (run_ops (hand_over ER) R ms) (\<lambda>(R', out). Inr ((S', R'), out))))"

text \<open>
  The bearer exists on both nodes, SDAP has no rule for the flows of the session, and the receiver
  waits for the next COUNT of the sender.  \<open>g\<close>: the sender is the gNB; \<open>h\<close>: the bearer is configured with
  an uplink SDAP header.
\<close>

definition linked :: "bool \<Rightarrow> bool \<Rightarrow> int \<Rightarrow> int \<Rightarrow> int \<Rightarrow> nat \<Rightarrow> pdcp_layer \<times> pdcp_layer \<Rightarrow> bool" where
  "linked g h r d ps n = (\<lambda>(S, R).
     layer_ok g S \<and> layer_ok (\<not> g) R \<and> 1 \<le> d \<and> d \<le> 5 \<and>
     (\<exists>i. nr_sdap_get_entity (pl_sdap S) r ps = Some i \<and> se_default_drb (pl_sdap S ! i) = 0 \<and>
        (\<forall>q. sdap_rules (pl_sdap S ! i) q = None)) \<and>
     nr_sdap_get_entity (pl_sdap R) r ps \<noteq> None \<and>
     (\<exists>us ur t e. mg_view (pl_manager S) r = Some us \<and> rb_slot us (DrbAt (nat (d - 1))) = Some t \<and>
        mg_view (pl_manager R) r = Some ur \<and> rb_slot ur (DrbAt (nat (d - 1))) = Some e \<and>
        pdcp_peers t e \<and> pdcp_inv e \<and> pe_rx_list e = [] \<and> pe_rx_deliv e = pe_tx_next t \<and>
        uint (pe_tx_next t) + int n < 2 ^ 32 \<and>
        pe_pdusession_id e = ps \<and> (pe_has_sdap e \<and> pe_has_sdapULheader e) = h))"

subsection \<open>One packet\<close>

text \<open>The next expected PDU empties the receive list again.\<close>

lemma pdcp_peers_next:
  assumes "pdcp_peers t r" "ctr_mode P" "cmac_output P" "pdcp_inv r" "b \<noteq> []"
    and "pe_rx_list r = []" "pe_rx_deliv r = pe_tx_next t" "pe_tx_next t \<noteq> - 1"
  shows "\<exists>r'. nr_pdcp_entity_recv_pdu P r (pdcp_tx_pdu P t b) =
       Inr (r', [DeliverSdu \<lparr>ps_count = pe_tx_next t, ps_buffer = b, ps_size = int (length b)\<rparr>]) \<and>
     pe_rx_list r' = [] \<and> pe_rx_deliv r' = pe_tx_next t + 1 \<and> pdcp_inv r' \<and>
     pdcp_peers (t\<lparr>pe_tx_next := pe_tx_next t + 1\<rparr>) r'"
proof -
  let ?s = "\<lparr>ps_count = pe_tx_next t, ps_buffer = b, ps_size = int (length b)\<rparr>"
  have conf: "pdcp_conf r" using assms(4) by (simp add: pdcp_inv_def pdcp_list_inv_def)
  then have w: "0 < pe_window_size r" by (auto simp: pdcp_conf_def)
  obtain n where n: "nr_pdcp_entity_recv_pdu P r (pdcp_tx_pdu P t b) =
     (case pdcp_rx_deliver (pdcp_rx_insert r ?s n) (pe_tx_next t) of
        (e2, d) \<Rightarrow> Inr (pdcp_rx_timer e2, map DeliverSdu d))"
    using pdcp_peers_receive [OF assms(1-3) conf assms(5)] w assms(6,7)
    by (auto simp: nr_pdcp_sdu_in_list_iff)
  let ?i = "pdcp_rx_insert r ?s n"
  have i: "pe_rx_list ?i = [?s]" "pe_rx_deliv ?i = pe_tx_next t"
    using assms(6,7) by (simp_all add: pdcp_rx_insert_def Let_def)
  define e2 where "e2 = ?i\<lparr>pe_rx_list := [], pe_rx_size := pe_rx_size ?i - int (length b), pe_rx_deliv := pe_tx_next t + 1\<rparr>"
  have "pdcp_rx_deliver ?i (pe_tx_next t) = (e2, [?s])"
    using i by (simp add: pdcp_rx_deliver_def pdcp_deliver_from_def e2_def)
  then have st: "nr_pdcp_entity_recv_pdu P r (pdcp_tx_pdu P t b) = Inr (pdcp_rx_timer e2, [DeliverSdu ?s])"
    using n by simp
  have "pdcp_progress r [?s] (pdcp_rx_timer e2)"
    by (rule pdcp_rx_accept [OF assms(4), where s = ?s and n = n])
      (use assms \<open>pdcp_rx_deliver ?i (pe_tx_next t) = (e2, [?s])\<close> in \<open>auto simp: pdcp_sdu_ok_def nr_pdcp_sdu_in_list_iff\<close>)
  moreover have "pdcp_peers (t\<lparr>pe_tx_next := pe_tx_next t + 1\<rparr>) (pdcp_rx_timer e2)"
    using assms(1) by (simp add: pdcp_peers_def pdcp_rx_timer_def pdcp_reordering_start_def e2_def pdcp_rx_insert_def Let_def)
  ultimately show ?thesis
    using st by (auto simp: pdcp_progress_def pdcp_rx_timer_def pdcp_reordering_start_def e2_def Let_def)
qed

text \<open>Sending through a bearer that the UE has.\<close>

lemma pdcp_data_req_drb_sends:
  assumes ok: "layer_ok g S" and u: "mg_view (pl_manager S) r = Some u"
    and d: "1 \<le> d" "d \<le> 5" "rb_slot u (DrbAt (nat (d - 1))) = Some t"
    and c: "cx_module_id ctxt = 0" "cx_instance ctxt = 0" "cx_eNB_index ctxt = 0" "cx_rnti ctxt = r"
  defines "t' \<equiv> t\<lparr>pe_tx_next := pe_tx_next t + 1\<rparr>"
  shows "\<exists>S' m. pdcp_data_req E S ctxt False d i b = Inr ((S', [m]), True) \<and>
     msg_pdu m = Some (r, d, pdcp_tx_pdu (en_crypto E) t b) \<and>
     mg_view (pl_manager S') r = Some (rb_store u (DrbAt (nat (d - 1))) t') \<and> pl_sdap S' = pl_sdap S \<and> layer_ok g S'"
proof -
  have inv: "mg_inv (pl_manager S)" using ok by (simp add: layer_ok_def)
  obtain m ui where g: "mg_get_ue (pl_manager S) r = (m, ui)" by fastforce
  have m: "m = pl_manager S" using view_get_ue(2) [OF inv g u] .
  note k = get_ue_ok [OF ok g]
  let ?p = "DrbAt (nat (d - 1))"
  let ?S = "pl_store S ui ?p t'"
  have at: "ue_at S ui" using k(2) by (simp add: ue_at_def m)
  have ue: "pl_ue S ui = u" using view_get_ue(1) [OF inv g] u m by (simp add: pl_ue_def)
  have rnti: "ue_rnti u = r" using u by (rule mg_view_rnti)
  have uok: "ue_ok u" using pl_ue_wf [OF ok at] ue by (simp add: ue_wf_def)
  have lk: "rb_lookup u False d = Some ?p" using d by (simp add: rb_lookup_def)
  have fd: "find_drb (rb_store u ?p t') ?p = Inr d"
    using d rb_slot_store [OF uok, of ?p ?p t'] by (auto simp: find_drb_def)
  let ?m = "if en_is_cu E then GtpuF1U r d (pdcp_tx_pdu (en_crypto E) t b)
     else RlcDataReq (rlc_ctxt r) False d i (pdcp_tx_pdu (en_crypto E) t b)"
  have "rb_recv_sdu E S ui ?p b i = Inr (?S, [?m])"
    using d(3) ue at fd rnti pdcp_tx_pdu_shape(2) [of "en_crypto E" t b i]
    by (simp add: rb_recv_sdu_def rb_deliver_pdu_def deliver_pdu_drb_def t'_def)
  then have "pdcp_data_req E S ctxt False d i b = Inr ((?S, [?m]), True)"
    using c g m lk ue by (simp add: pdcp_data_req_def pdcp_data_req_drb_def)
  moreover have "mg_view (pl_manager ?S) r = Some (rb_store u ?p t')"
    using view_update [OF inv g, of "rb_store u ?p t'"] rnti m ue by (simp add: pl_store_def)
  moreover have "layer_ok g ?S"
    using store_grows [OF ok at _ _ recv_sdu_keeps [OF pdcp_tx_pdu_shape(2)], of ?p t] d ue
    by (auto simp: t'_def grows_def)
  moreover have "msg_pdu ?m = Some (r, d, pdcp_tx_pdu (en_crypto E) t b)" by (simp add: rlc_ctxt_def)
  ultimately show ?thesis by (intro exI [of _ ?S] exI [of _ ?m]) simp
qed

lemma hand_over_delivers:
  assumes ok: "layer_ok g R" and u: "mg_view (pl_manager R) r = Some u"
    and d: "1 \<le> d" "d \<le> 5" "rb_slot u (DrbAt (nat (d - 1))) = Some e"
    and side: "g \<or> \<not> (pe_has_sdap e \<and> pe_has_sdapULheader e)"
    and m: "msg_pdu m = Some (r, d, pdu)"
    and st: "nr_pdcp_entity_recv_pdu (en_crypto E) e pdu = Inr (e', [DeliverSdu s])"
  shows "\<exists>R'. hand_over E R m = Inr (R', delivery (pl_sdap R) r (DrbAt (nat (d - 1))) e' (DeliverSdu s)) \<and>
     mg_view (pl_manager R') r = Some (rb_store u (DrbAt (nat (d - 1))) e') \<and> pl_sdap R' = pl_sdap R \<and> layer_ok g R'"
proof -
  have inv: "mg_inv (pl_manager R)" using ok by (simp add: layer_ok_def)
  obtain m' ui where g: "mg_get_ue (pl_manager R) r = (m', ui)" by fastforce
  have m': "m' = pl_manager R" using view_get_ue(2) [OF inv g u] .
  let ?p = "DrbAt (nat (d - 1))"
  have at: "ue_at R ui" using get_ue_ok(2) [OF ok g] by (simp add: ue_at_def m')
  have ue: "pl_ue R ui = u" "ue_rnti u = r"
    using view_get_ue(1) [OF inv g] u m' mg_view_rnti [OF u] by (simp_all add: pl_ue_def)
  have v: "slot_valid ?p" using d by simp
  have lk: "rb_lookup u False d = Some ?p" using d by (simp add: rb_lookup_def)
  have "rb_recv_pdu E R ui ?p pdu =
      Inr (pl_store R ui ?p e', concat (map (delivery (pl_sdap R) r ?p e') [DeliverSdu s]))"
    by (rule rb_recv_pdu_delivers [OF ok at v _ _ side st]) (use ue d in auto)
  then have "hand_over E R m = Inr (pl_store R ui ?p e', delivery (pl_sdap R) r ?p e' (DeliverSdu s))"
    using m g m' ue lk by (simp add: do_pdcp_data_ind_def rlc_ctxt_def)
  moreover have "mg_view (pl_manager (pl_store R ui ?p e')) r = Some (rb_store u ?p e')"
    using view_update [OF inv g, of "rb_store u ?p e'"] ue m' by (simp add: pl_store_def)
  moreover have "layer_ok g (pl_store R ui ?p e')"
    using store_grows [OF ok at v _ recv_pdu_keeps(1) [OF st]] d ue by (simp add: grows_def)
  ultimately show ?thesis by auto
qed

definition received :: "bool \<Rightarrow> bool \<Rightarrow> int \<Rightarrow> int \<Rightarrow> bytes \<Rightarrow> l2_msg" where
  "received g h r ps sdu =
     (let b = (if h then tl sdu else sdu) in if g then NasWrite b else GtpuN3 r ps b)"

lemma link_step:
  assumes l: "linked g h r d ps (Suc n) (S, R)" and side: "\<not> g \<or> \<not> h"
    and P: "ctr_mode P" "cmac_output P" "en_crypto ES = P" "en_crypto ER = P"
    and q: "0 \<le> q" "q < 64" and b: "sdu \<noteq> []"
  shows "\<exists>W. send_one ES ER ((rlc_ctxt r)\<lparr>cx_enb_flag := g\<rparr>) d q rqi ps (S, R) sdu = Inr (W, [received g h r ps sdu]) \<and>
     linked g h r d ps n W"
proof -
  let ?p = "DrbAt (nat (d - 1))" and ?c = "(rlc_ctxt r)\<lparr>cx_enb_flag := g\<rparr>"
  obtain us ur t e i where ok: "layer_ok g S" "layer_ok (\<not> g) R" "1 \<le> d" "d \<le> 5"
      and sd: "nr_sdap_get_entity (pl_sdap S) r ps = Some i" "se_default_drb (pl_sdap S ! i) = 0"
        "\<forall>q. sdap_rules (pl_sdap S ! i) q = None" "nr_sdap_get_entity (pl_sdap R) r ps \<noteq> None"
      and us: "mg_view (pl_manager S) r = Some us" "rb_slot us ?p = Some t"
      and ur: "mg_view (pl_manager R) r = Some ur" "rb_slot ur ?p = Some e"
      and pe: "pdcp_peers t e" "pdcp_inv e" "pe_rx_list e = []" "pe_rx_deliv e = pe_tx_next t"
        "uint (pe_tx_next t) + int (Suc n) < 2 ^ 32"
        "pe_pdusession_id e = ps" "(pe_has_sdap e \<and> pe_has_sdapULheader e) = h"
    using l unfolding linked_def by blast
  have "pe_tx_next t \<noteq> - 1" using pe(5) by (auto simp: unsigned_minus_1_eq_mask mask_eq_exp_minus_1)
  from pdcp_peers_next [OF pe(1) P(1,2) pe(2) b pe(3,4) this]
  obtain e' where e': "nr_pdcp_entity_recv_pdu P e (pdcp_tx_pdu P t sdu) =
      Inr (e', [DeliverSdu \<lparr>ps_count = pe_tx_next t, ps_buffer = sdu, ps_size = int (length sdu)\<rparr>])"
      "pe_rx_list e' = []" "pe_rx_deliv e' = pe_tx_next t + 1" "pdcp_inv e'"
      "pdcp_peers (t\<lparr>pe_tx_next := pe_tx_next t + 1\<rparr>) e'" by blast
  have st: "pe_static e' = pe_static e" using recv_pdu_keeps(1) [OF e'(1)] by (simp add: keeps_def)
  obtain S' m where s: "pdcp_data_req ES S ?c False d 0 sdu = Inr ((S', [m]), True)"
      "msg_pdu m = Some (r, d, pdcp_tx_pdu (en_crypto ES) t sdu)"
      "mg_view (pl_manager S') r = Some (rb_store us ?p (t\<lparr>pe_tx_next := pe_tx_next t + 1\<rparr>))"
      "pl_sdap S' = pl_sdap S" "layer_ok g S'"
    using pdcp_data_req_drb_sends [OF ok(1) us(1) ok(3,4) us(2), of ?c ES 0 sdu] by (auto simp: rlc_ctxt_def)
  obtain R' where r: "hand_over ER R m = Inr (R', delivery (pl_sdap R) r ?p e'
        (DeliverSdu \<lparr>ps_count = pe_tx_next t, ps_buffer = sdu, ps_size = int (length sdu)\<rparr>))"
      "mg_view (pl_manager R') r = Some (rb_store ur ?p e')" "pl_sdap R' = pl_sdap R" "layer_ok (\<not> g) R'"
    using hand_over_delivers [OF ok(2) ur(1) ok(3,4) ur(2) _ s(2), of ER] e'(1) P side pe(7) by auto
  have gn: "pe_is_gnb e = (\<not> g)"
  proof -
    have "ur \<in> set (mg_ue_list (pl_manager R))" using ur(1) by (auto simp: mg_view_def find_Some_iff)
    then show ?thesis
      using ok ur(2) by (auto simp: layer_ok_def ue_wf_def rb_ok_def dest!: bspec spec [of _ ?p])
  qed
  have out: "delivery (pl_sdap R) r ?p e' (DeliverSdu \<lparr>ps_count = pe_tx_next t, ps_buffer = sdu, ps_size = int (length sdu)\<rparr>)
      = [received g h r ps sdu]"
    using st gn sd(4) pe(6,7) by (auto simp: upper_msg_def received_def pe_static_def Let_def)
  have "send_one ES ER ?c d q rqi ps (S, R) sdu = Inr ((S', R'), [received g h r ps sdu])"
    using sdap_passes_through [of "pl_sdap S" r ps i q g d sdu rqi] sd ok(1) q s(1) r(1) out
    by (simp add: send_one_def call_sdap_data_req_def layer_ok_def rlc_ctxt_def del: hand_over.simps)
  moreover have "linked g h r d ps n (S', R')"
  proof -
    have "ue_ok us" "ue_ok ur"
      using us(1) ur(1) ok(1,2) by (auto simp: layer_ok_def mg_inv_def mg_view_def find_Some_iff)
    then have "rb_slot (rb_store us ?p t0) ?p = Some t0" "rb_slot (rb_store ur ?p t0) ?p = Some t0" for t0
      using rb_slot_store [of us ?p ?p] rb_slot_store [of ur ?p ?p] ok(3,4) by simp_all
    moreover have "uint (pe_tx_next t + 1) = uint (pe_tx_next t) + 1"
      using pe(5) by (simp add: uint_word_ariths)
    ultimately show ?thesis
      using s r e' ok sd pe st unfolding linked_def pe_static_def by auto
  qed
  ultimately show ?thesis by blast
qed

lemma link_transfer:
  assumes "\<not> g \<or> \<not> h" "ctr_mode P" "cmac_output P" "en_crypto ES = P" "en_crypto ER = P"
    and "0 \<le> q" "q < 64" "\<forall>sdu\<in>set sdus. sdu \<noteq> []" "linked g h r d ps (length sdus) W"
  shows "\<exists>W'. run_ops (send_one ES ER ((rlc_ctxt r)\<lparr>cx_enb_flag := g\<rparr>) d q rqi ps) W sdus =
     Inr (W', map (received g h r ps) sdus)"
  using assms(8,9)
proof (induction sdus arbitrary: W)
  case (Cons sdu sdus)
  obtain S R where W: "W = (S, R)" by fastforce
  obtain W1 where "send_one ES ER ((rlc_ctxt r)\<lparr>cx_enb_flag := g\<rparr>) d q rqi ps W sdu = Inr (W1, [received g h r ps sdu])"
      "linked g h r d ps (length sdus) W1"
    using link_step [OF _ assms(1-7), of r d ps "length sdus" S R sdu rqi] Cons.prems W by auto
  then show ?case using Cons.IH [of W1] Cons.prems by auto
qed simp

subsection \<open>Setting the bearer up\<close>

lemma drb_params_same: "drb_params_of E s = Inr q \<Longrightarrow> drb_params_of E' s = Inr q' \<Longrightarrow> q' = q"
  by (auto simp: drb_params_of_def decode_cn_association_def bnd_eq_Inr split: option.splits cn_association.splits)

text \<open>The side of an entity has no influence on its set-up.\<close>

lemma set_integrity_side:
  "pdcp_set_integrity a (e\<lparr>pe_is_gnb := g\<rparr>) = bnd (pdcp_set_integrity a e) (\<lambda>e. Inr (e\<lparr>pe_is_gnb := g\<rparr>))"
  by (simp add: pdcp_set_integrity_def guard_def)

lemma set_ciphering_side:
  "pdcp_set_ciphering a (e\<lparr>pe_is_gnb := g\<rparr>) = bnd (pdcp_set_ciphering a e) (\<lambda>e. Inr (e\<lparr>pe_is_gnb := g\<rparr>))"
  by (simp add: pdcp_set_ciphering_def guard_def)

lemma set_security_side:
  "nr_pdcp_entity_set_security (e\<lparr>pe_is_gnb := g\<rparr>) ia ik ca ck =
     bnd (nr_pdcp_entity_set_security e ia ik ca ck) (\<lambda>e. Inr (e\<lparr>pe_is_gnb := g\<rparr>))"
proof -
  let ?e4 = "\<lambda>e. let e1 = (if ia \<noteq> -1 then e\<lparr>pe_integrity_algorithm := ia\<rparr> else e);
      e2 = (if ca \<noteq> -1 then e1\<lparr>pe_ciphering_algorithm := ca\<rparr> else e1);
      e3 = (case ik of None \<Rightarrow> e2 | Some k \<Rightarrow> e2\<lparr>pe_integrity_key := take 16 k\<rparr>)
    in (case ck of None \<Rightarrow> e3 | Some k \<Rightarrow> e3\<lparr>pe_ciphering_key := take 16 k\<rparr>)"
  have "?e4 (e\<lparr>pe_is_gnb := g\<rparr>) = (?e4 e)\<lparr>pe_is_gnb := g\<rparr>" by (simp add: Let_def split: option.split)
  moreover have "nr_pdcp_entity_set_security x ia ik ca ck = bnd (pdcp_set_integrity ia (?e4 x)) (pdcp_set_ciphering ca)" for x
    by (simp only: nr_pdcp_entity_set_security_def Let_def)
  ultimately show ?thesis by (simp add: set_integrity_side set_ciphering_side bnd_assoc)
qed

lemma new_entity_sides:
  assumes "new_nr_pdcp_entity ty g rb ps hs hu hl sn tr dt ca ia ck ik = Inr t"
    and "new_nr_pdcp_entity ty g' rb ps hs hu hl sn tr dt ca ia ck ik = Inr e"
  shows "e = t\<lparr>pe_is_gnb := g'\<rparr>" "pe_tx_next t = 0" "pe_is_gnb t = g"
proof -
  have side: "new_nr_pdcp_entity ty x rb ps hs hu hl sn tr dt ca ia ck ik =
      bnd (new_nr_pdcp_entity ty g rb ps hs hu hl sn tr dt ca ia ck ik) (\<lambda>e. Inr (e\<lparr>pe_is_gnb := x\<rparr>))" for x
    unfolding new_nr_pdcp_entity_def set_security_side [symmetric] by simp
  show "e = t\<lparr>pe_is_gnb := g'\<rparr>" using side [of g'] assms by simp
  have "t = t\<lparr>pe_is_gnb := g\<rparr>" using side [of g] assms(1) by simp
  then have "pe_is_gnb t = pe_is_gnb (t\<lparr>pe_is_gnb := g\<rparr>)" by (rule arg_cong)
  then show "pe_is_gnb t = g" by simp
  show "pe_tx_next t = 0"
    using pdcp_set_security_frame(9) [OF assms(1) [unfolded new_nr_pdcp_entity_def]] by simp
qed

lemma config_new_drb:
  assumes ok: "layer_ok g L" and none: "mg_view (pl_manager L) r = None" "r \<notin> se_rnti ` set (pl_sdap L)"
    and r: "0 \<le> r" "r < 65536" and c: "cx_rnti ctxt = r" "cx_enb_flag ctxt = g"
    and st: "nr_rrc_pdcp_config_asn1_req E L ctxt None (Some [s]) sec kre kri kue kui False (Some [rc]) = Inr (L', ms)"
  shows "\<exists>q e. drb_params_of E s = Inr q \<and>
      drb_entity g (da_drb_Identity s) q (sec mod 16) (sec div 16 mod 16) kue kui = Inr e \<and>
      1 \<le> da_drb_Identity s \<and> da_drb_Identity s \<le> 5 \<and>
      mg_view (pl_manager L') r = Some (rb_store (empty_ue r) (DrbAt (nat (da_drb_Identity s - 1))) e) \<and>
      pl_sdap L' = empty_sdap_entity r (dp_pdusession_id q) # pl_sdap L \<and> layer_ok g L'"
proof -
  have inv: "mg_inv (pl_manager L)" using ok by (simp add: layer_ok_def)
  have "layer_ok g L'" using grows_ok [OF config_grows [OF _ st]] c ok by simp
  obtain m ui where u: "mg_get_ue (pl_manager L) r = (m, ui)" by fastforce
  have m: "mg_at m ui = empty_ue r" using view_get_ue(1) [OF inv u] none by simp
  have "add_drb_am E g r (sec mod 16) (sec div 16 mod 16) kue kui L s = Inr (L', ms)"
    using st c by (cases rc) (auto simp: nr_rrc_pdcp_config_asn1_req_def bnd_eq_Inr add_drb_def)
  then obtain q e u' l evs where a: "drb_params_of E s = Inr q" "1 \<le> da_drb_Identity s" "da_drb_Identity s \<le> 5"
      "drb_entity g (da_drb_Identity s) q (sec mod 16) (sec div 16 mod 16) kue kui = Inr e"
      "ue_add_drb (empty_ue r) (da_drb_Identity s) e = Inr u'"
      "new_nr_sdap_entity (pl_sdap L) (dp_sdapULheader q \<or> dp_sdapDLheader q) r (dp_pdusession_id q)
           False (da_drb_Identity s mod 256) [] = Inr (l, evs)"
      "run_ops (sdap_effect E) (L\<lparr>pl_manager := mg_update_ue m ui u', pl_sdap := l\<rparr>) evs = Inr (L', ms)"
    using u m r by (auto simp: add_drb_am_def bnd_eq_Inr Let_def empty_ue_def split: if_splits)
  have "se_rnti (pl_sdap L ! sdap_walk (pl_sdap L) r) \<noteq> r" if "pl_sdap L \<noteq> []"
    using none(2) nth_mem [OF sdap_walk_le [OF that, of r]] by force
  then have "nr_sdap_get_entity (pl_sdap L) r x = None" for x
    by (auto simp: nr_sdap_get_entity_def Let_def)
  then have l: "l = empty_sdap_entity r (dp_pdusession_id q) # pl_sdap L" "evs = []"
    using a(6) by (auto simp: new_nr_sdap_entity_def Let_def)
  have u': "u' = rb_store (empty_ue r) (DrbAt (nat (da_drb_Identity s - 1))) e"
    using a(5) by (auto simp: ue_add_drb_def split: if_splits)
  then have "mg_view (mg_update_ue m ui u') r = Some u'"
    using view_update [OF inv u, of u'] by (simp add: empty_ue_def)
  moreover have "L' = L\<lparr>pl_manager := mg_update_ue m ui u', pl_sdap := l\<rparr>" using a(7) l(2) by simp
  ultimately show ?thesis using a l(1) u' \<open>layer_ok g L'\<close> by auto
qed

lemma sdap_head: "nr_sdap_get_entity (empty_sdap_entity r ps # l) r ps = Some 0"
  by (cases l) (simp_all add: nr_sdap_get_entity_def Let_def empty_sdap_entity_def)

lemma config_links:
  assumes S0: "layer_ok g S0" "mg_view (pl_manager S0) r = None" "r \<notin> se_rnti ` set (pl_sdap S0)"
    and R0: "layer_ok (\<not> g) R0" "mg_view (pl_manager R0) r = None" "r \<notin> se_rnti ` set (pl_sdap R0)"
    and r: "0 \<le> r" "r < 65536" and c: "cx_rnti cS = r" "cx_enb_flag cS = g" "cx_rnti cR = r" "cx_enb_flag cR = (\<not> g)"
    and S: "nr_rrc_pdcp_config_asn1_req ES S0 cS None (Some [s]) sec kre kri kue kui False (Some [rc]) = Inr (S, ms)"
    and R: "nr_rrc_pdcp_config_asn1_req ER R0 cR None (Some [s]) sec kre kri kue kui False (Some [rc]) = Inr (R, ms')"
    and q: "drb_params_of ES s = Inr q" and n: "int n < 2 ^ 32"
  shows "linked g (dp_sdapULheader q) r (da_drb_Identity s) (dp_pdusession_id q) n (S, R)"
proof -
  let ?d = "da_drb_Identity s" and ?ps = "dp_pdusession_id q"
  let ?p = "DrbAt (nat (?d - 1))"
  obtain t where t: "drb_entity g ?d q (sec mod 16) (sec div 16 mod 16) kue kui = Inr t" "1 \<le> ?d" "?d \<le> 5"
      "mg_view (pl_manager S) r = Some (rb_store (empty_ue r) ?p t)" "pl_sdap S = empty_sdap_entity r ?ps # pl_sdap S0"
      "layer_ok g S"
    using config_new_drb [OF S0 r c(1,2) S] q by auto
  obtain e q' where e: "drb_params_of ER s = Inr q'" "drb_entity (\<not> g) ?d q' (sec mod 16) (sec div 16 mod 16) kue kui = Inr e"
      "mg_view (pl_manager R) r = Some (rb_store (empty_ue r) ?p e)"
      "pl_sdap R = empty_sdap_entity r (dp_pdusession_id q') # pl_sdap R0" "layer_ok (\<not> g) R"
    using config_new_drb [OF R0 r c(3,4) R] by auto
  have q': "q' = q" using drb_params_same [OF q e(1)] .
  note n1 = new_entity_sides [OF t(1) [unfolded drb_entity_def] e(2) [unfolded q' drb_entity_def]]
  have i: "pdcp_inv e" "pe_rx_deliv e = 0"
    using new_nr_pdcp_entity_inv [OF e(2) [unfolded q' drb_entity_def]] drb_params_sn [OF q] by auto
  note st = new_entity_static [OF e(2) [unfolded q' drb_entity_def]]
  have "pe_rx_list e = []"
    using e(2) by (auto simp: drb_entity_def new_nr_pdcp_entity_def dest!: pdcp_set_security_frame(4))
  moreover have "rb_slot (rb_store (empty_ue r) ?p x) ?p = Some x" for x :: nr_pdcp_entity
    using t(2,3) by (simp add: rb_slot_store empty_ue_def ue_ok_def)
  moreover have "pdcp_peers t e" using n1 by (simp add: pdcp_peers_def)
  moreover have "pe_pdusession_id e = ?ps" "(pe_has_sdap e \<and> pe_has_sdapULheader e) = dp_sdapULheader q"
    using st(1) by (auto simp: pe_static_def)
  moreover have "se_default_drb (empty_sdap_entity r ?ps) = 0" "sdap_rules (empty_sdap_entity r ?ps) k = None" for k
    by (simp_all add: empty_sdap_entity_def sdap_rules_def)
  ultimately show ?thesis
    using t e q' i n n1(2) sdap_head [of r ?ps] by (simp add: linked_def)
qed

subsection \<open>Properties\<close>

text \<open>
  C1: a data bearer carries packets from end to end.  Two nodes, in whatever state the calls so far have left them, get the same
  configuration of a bearer for a UE they do not know yet; the configuration has no uplink SDAP header if the sender is the gNB.
  Then for every sequence of non-empty packets that enters SDAP on one of them (for any flow) nothing faults, and each packet is
  delivered once and in order, to GTP-U at the gNB and to the tunnel device at the UE.  It arrives byte for byte, except when the
  bearer is configured with an uplink SDAP header: as the configuration code never tells SDAP about flows or a default bearer, the
  UE puts no header on its packets, but the gNB strips one all the same, so each uplink packet then arrives without its first byte.
\<close>

theorem drb_transfer_exact:
  assumes "api_history ES g outS S0" "mg_view (pl_manager S0) r = None" "r \<notin> se_rnti ` set (pl_sdap S0)"
    and "api_history ER (\<not> g) outR R0" "mg_view (pl_manager R0) r = None" "r \<notin> se_rnti ` set (pl_sdap R0)"
    and "0 \<le> r" "r < 65536" and "cx_rnti cS = r" "cx_enb_flag cS = g" "cx_rnti cR = r" "cx_enb_flag cR = (\<not> g)"
    and "nr_rrc_pdcp_config_asn1_req ES S0 cS None (Some [s]) sec kre kri kue kui False (Some [rc]) = Inr (S, ms)"
    and "nr_rrc_pdcp_config_asn1_req ER R0 cR None (Some [s]) sec kre kri kue kui False (Some [rc]) = Inr (R, ms')"
    and "drb_params_of ES s = Inr q" "\<not> g \<or> \<not> dp_sdapULheader q"
    and "ctr_mode P" "cmac_output P" "en_crypto ES = P" "en_crypto ER = P"
    and "0 \<le> qfi" "qfi < 64" "[] \<notin> set sdus" "int (length sdus) < 2 ^ 32"
  shows "\<exists>W. run_ops (send_one ES ER ((rlc_ctxt r)\<lparr>cx_enb_flag := g\<rparr>) (da_drb_Identity s) qfi rqi (dp_pdusession_id q))
      (S, R) sdus =
    Inr (W, map (\<lambda>sdu. if g then NasWrite sdu
                        else GtpuN3 r (dp_pdusession_id q) (if dp_sdapULheader q then tl sdu else sdu)) sdus)"
proof -
  have l: "linked g (dp_sdapULheader q) r (da_drb_Identity s) (dp_pdusession_id q) (length sdus) (S, R)"
    using config_links [OF api_history_ok [OF assms(1)] assms(2,3) api_history_ok [OF assms(4)] assms(5-15) assms(24)] .
  have "\<forall>sdu\<in>set sdus. sdu \<noteq> []" using assms(23) by auto
  from link_transfer [OF assms(16-22) this l, of rqi] show ?thesis
    using assms(16) by (cases g) (simp_all add: received_def cong: map_cong)
qed

theorem drb_transfer_exact_witness:
  "(\<exists>W. run_ops (send_one (ex_env True) (ex_env False) ((rlc_ctxt 7)\<lparr>cx_enb_flag := True\<rparr>) 1 9 False 10)
      (ex_layer True False, ex_layer False False) [[1, 2, 3], [4], [5, 6]] =
    Inr (W, [NasWrite [1, 2, 3], NasWrite [4], NasWrite [5, 6]])) \<and>
   (\<exists>W. run_ops (send_one (ex_env False) (ex_env True) ((rlc_ctxt 7)\<lparr>cx_enb_flag := False\<rparr>) 1 9 True 10)
      (ex_layer False True, ex_layer True True) [[0x45, 2, 3]] = Inr (W, [GtpuN3 7 10 [2, 3]]))"
proof -
  obtain q where q: "drb_params_of (ex_env True) (ex_drb False) = Inr q" "\<not> dp_sdapULheader q" "dp_pdusession_id q = 10"
    using ex_params [of True False] by blast
  obtain p where p: "drb_params_of (ex_env False) (ex_drb True) = Inr p" "dp_sdapULheader p" "dp_pdusession_id p = 10"
    using ex_params [of False True] by blast
  have e: "en_crypto (ex_env g) = toy_crypto" "da_drb_Identity (ex_drb h) = 1" for g h
    by (simp_all add: ex_env_def ex_drb_def)
  note dl = drb_transfer_exact [OF api_history.init ex_fresh api_history.init ex_fresh _ _ _ _ _ _
        ex_config_ok [of True False, unfolded ex_config_def] ex_config_ok [of False False, unfolded ex_config_def] q(1) _
        toy_crypto_ctr_mode toy_crypto_cmac_output, where qfi = 9 and sdus = "[[1, 2, 3], [4], [5, 6]]" and rqi = False]
  note ul = drb_transfer_exact [OF api_history.init ex_fresh api_history.init ex_fresh _ _ _ _ _ _
        ex_config_ok [of False True, unfolded ex_config_def] ex_config_ok [of True True, unfolded ex_config_def] p(1) _
        toy_crypto_ctr_mode toy_crypto_cmac_output, where qfi = 9 and sdus = "[[0x45, 2, 3]]" and rqi = True]
  show ?thesis using dl ul e q(2,3) p(2,3) by (simp add: rlc_ctxt_def)
qed

end
