(* ===== verification/F1ap_Ids.thy ===== *)
theory F1ap_Ids
  imports Prelude
begin

text \<open>
  The identities of UEs on the F1 interface: \<open>f1ap_common.c\<close>.  Every instance of the CU and of the DU has
  a table of UEs; a slot is free when its RNTI is 0.
\<close>

subsection \<open>Data\<close>

record f1ap_cudu_ue =
  fu_rnti :: u16
  fu_f1ap_uid :: int
  fu_du_ue_f1ap_id :: int
  fu_cu_ue_f1ap_id :: int

text \<open>Of \<open>setupReq\<close> the identity of the SCTP association; \<open>num_ues\<close> has 16 bits.\<close>

record f1ap_cudu_inst =
  fi_assoc_id :: int
  fi_num_ues :: u16
  fi_ue :: "f1ap_cudu_ue list"

datatype F1_t = DUtype | CUtype

text \<open>\<open>f1_du_inst\<close>, \<open>f1_cu_inst\<close> and the static array of \<open>F1AP_get_next_transaction_identifier\<close>, each with
  \<open>NUMBER_OF_eNB_MAX\<close> entries.\<close>

record f1ap_state =
  f1_du_inst :: "f1ap_cudu_inst option list"
  f1_cu_inst :: "f1ap_cudu_inst option list"
  f1_transaction_identifier :: "byte list"

definition NUMBER_OF_eNB_MAX :: nat where
  "NUMBER_OF_eNB_MAX = 1"

definition F1AP_TRANSACTION_IDENTIFIER_NUMBER :: int where
  "F1AP_TRANSACTION_IDENTIFIER_NUMBER = 3"

definition initial_f1ap_state :: f1ap_state where
  "initial_f1ap_state =
     \<lparr>f1_du_inst = replicate NUMBER_OF_eNB_MAX None, f1_cu_inst = replicate NUMBER_OF_eNB_MAX None,
      f1_transaction_identifier = replicate NUMBER_OF_eNB_MAX 0\<rparr>"

text \<open>The conversion of a \<open>long\<close> to \<open>int\<close>.\<close>

definition int_of_long :: "int \<Rightarrow> int" where
  "int_of_long x = sint (word_of_int x :: u32)"

subsection \<open>Instances\<close>

definition F1AP_get_next_transaction_identifier :: "f1ap_state \<Rightarrow> int \<Rightarrow> int \<Rightarrow> (f1ap_state \<times> byte) res" where
  "F1AP_get_next_transaction_identifier S enb_mod_id cu_mod_id =
     (let i = enb_mod_id + cu_mod_id in
      if 0 \<le> i \<and> i < int (length (f1_transaction_identifier S))
      then let t = byte_of_int ((uint (f1_transaction_identifier S ! nat i) + 1) mod F1AP_TRANSACTION_IDENTIFIER_NUMBER)
           in Inr (S\<lparr>f1_transaction_identifier := (f1_transaction_identifier S)[nat i := t]\<rparr>, t)
      else Inl OutOfBounds)"

text \<open>The comparison with the size is one of unsigned numbers, so a negative instance fails it.\<close>

definition getCxt :: "f1ap_state \<Rightarrow> F1_t \<Rightarrow> int \<Rightarrow> f1ap_cudu_inst option res" where
  "getCxt S isCU instanceP =
     bnd (guard (0 \<le> instanceP \<and> instanceP < int (length (f1_cu_inst S))) Exit) (\<lambda>_.
       Inr ((case isCU of CUtype \<Rightarrow> f1_cu_inst S | DUtype \<Rightarrow> f1_du_inst S) ! nat instanceP))"

definition empty_f1ap_ue :: f1ap_cudu_ue where
  "empty_f1ap_ue = \<lparr>fu_rnti = 0, fu_f1ap_uid = 0, fu_du_ue_f1ap_id = 0, fu_cu_ue_f1ap_id = 0\<rparr>"

definition empty_f1ap_inst :: f1ap_cudu_inst where
  "empty_f1ap_inst = \<lparr>fi_assoc_id = 0, fi_num_ues = 0, fi_ue = replicate MAX_MOBILES_PER_ENB empty_f1ap_ue\<rparr>"

text \<open>The set-up request is only copied for a DU.\<close>

definition createF1inst :: "f1ap_state \<Rightarrow> F1_t \<Rightarrow> int \<Rightarrow> int \<Rightarrow> f1ap_state res" where
  "createF1inst S isCU instanceP assoc_id =
     (case isCU of
        CUtype \<Rightarrow>
          bnd (guard (0 \<le> instanceP \<and> instanceP < int (length (f1_cu_inst S))) OutOfBounds) (\<lambda>_.
          bnd (guard (f1_cu_inst S ! nat instanceP = None) Exit) (\<lambda>_.
            Inr (S\<lparr>f1_cu_inst := (f1_cu_inst S)[nat instanceP := Some empty_f1ap_inst]\<rparr>)))
      | DUtype \<Rightarrow>
          bnd (guard (0 \<le> instanceP \<and> instanceP < int (length (f1_du_inst S))) OutOfBounds) (\<lambda>_.
          bnd (guard (f1_du_inst S ! nat instanceP = None) Exit) (\<lambda>_.
            Inr (S\<lparr>f1_du_inst := (f1_du_inst S)[nat instanceP := Some (empty_f1ap_inst\<lparr>fi_assoc_id := assoc_id\<rparr>)]\<rparr>))))"

definition f1ap_assoc_id :: "f1ap_state \<Rightarrow> F1_t \<Rightarrow> int \<Rightarrow> int res" where
  "f1ap_assoc_id S isCu instanceP =
     bnd (getCxt S isCu instanceP) (\<lambda>p. bnd (deref p NullDeref) (\<lambda>f1_inst. Inr (fi_assoc_id f1_inst)))"

subsection \<open>The table of an instance\<close>

text \<open>The loop over the slots: the first one with a property.\<close>

fun first_slot :: "('a \<Rightarrow> bool) \<Rightarrow> 'a list \<Rightarrow> nat option" where
  "first_slot P [] = None"
| "first_slot P (x # xs) = (if P x then Some 0 else map_option Suc (first_slot P xs))"

definition inst_add_ue :: "f1ap_cudu_inst \<Rightarrow> u16 \<Rightarrow> int \<Rightarrow> f1ap_cudu_inst \<times> int" where
  "inst_add_ue I rnti du_ue_f1ap_id =
     (case first_slot (\<lambda>u. fu_rnti u = rnti) (fi_ue I) of
        Some i \<Rightarrow> (I\<lparr>fi_ue := (fi_ue I)[i := (fi_ue I ! i)\<lparr>fu_f1ap_uid := int i\<rparr>]\<rparr>, int i)
      | None \<Rightarrow>
          (case first_slot (\<lambda>u. fu_rnti u = 0) (fi_ue I) of
             Some i \<Rightarrow>
               (I\<lparr>fi_ue := (fi_ue I)[i := (fi_ue I ! i)\<lparr>fu_rnti := rnti, fu_f1ap_uid := int i,
                                        fu_du_ue_f1ap_id := du_ue_f1ap_id, fu_cu_ue_f1ap_id := uint rnti\<rparr>],
                  fi_num_ues := fi_num_ues I + 1\<rparr>, int i)
           | None \<Rightarrow> (I, - 1)))"

definition inst_remove_ue :: "f1ap_cudu_inst \<Rightarrow> u16 \<Rightarrow> f1ap_cudu_inst" where
  "inst_remove_ue I rnti =
     (let I1 = (case first_slot (\<lambda>u. fu_rnti u = rnti) (fi_ue I) of
                  Some i \<Rightarrow> I\<lparr>fi_ue := (fi_ue I)[i := (fi_ue I ! i)\<lparr>fu_rnti := 0\<rparr>]\<rparr>
                | None \<Rightarrow> I)
      in I1\<lparr>fi_num_ues := fi_num_ues I1 - 1\<rparr>)"

definition inst_lookup :: "(f1ap_cudu_ue \<Rightarrow> bool) \<Rightarrow> (f1ap_cudu_ue \<Rightarrow> int) \<Rightarrow> f1ap_cudu_inst \<Rightarrow> int" where
  "inst_lookup P f I =
     (case first_slot P (fi_ue I) of Some i \<Rightarrow> int_of_long (f (fi_ue I ! i)) | None \<Rightarrow> - 1)"

definition inst_du_id :: "f1ap_cudu_inst \<Rightarrow> u16 \<Rightarrow> int" where
  "inst_du_id I rnti = inst_lookup (\<lambda>u. fu_rnti u = rnti) fu_du_ue_f1ap_id I"

definition inst_cu_id :: "f1ap_cudu_inst \<Rightarrow> u16 \<Rightarrow> int" where
  "inst_cu_id I rnti = inst_lookup (\<lambda>u. fu_rnti u = rnti) fu_cu_ue_f1ap_id I"

definition inst_rnti_by_du_id :: "f1ap_cudu_inst \<Rightarrow> int \<Rightarrow> int" where
  "inst_rnti_by_du_id I du_id = inst_lookup (\<lambda>u. fu_du_ue_f1ap_id u = du_id) (\<lambda>u. uint (fu_rnti u)) I"

definition inst_rnti_by_cu_id :: "f1ap_cudu_inst \<Rightarrow> int \<Rightarrow> int" where
  "inst_rnti_by_cu_id I cu_id = inst_lookup (\<lambda>u. fu_cu_ue_f1ap_id u = cu_id) (\<lambda>u. uint (fu_rnti u)) I"

subsection \<open>The functions of the interface\<close>

definition f1ap_get :: "f1ap_state \<Rightarrow> F1_t \<Rightarrow> int \<Rightarrow> (f1ap_cudu_inst \<Rightarrow> 'a) \<Rightarrow> 'a res" where
  "f1ap_get S isCu instanceP f =
     bnd (getCxt S isCu instanceP) (\<lambda>p. bnd (deref p NullDeref) (\<lambda>I. Inr (f I)))"

definition f1ap_put :: "f1ap_state \<Rightarrow> F1_t \<Rightarrow> int \<Rightarrow> f1ap_cudu_inst \<Rightarrow> f1ap_state" where
  "f1ap_put S isCu instanceP I =
     (case isCu of
        CUtype \<Rightarrow> S\<lparr>f1_cu_inst := (f1_cu_inst S)[nat instanceP := Some I]\<rparr>
      | DUtype \<Rightarrow> S\<lparr>f1_du_inst := (f1_du_inst S)[nat instanceP := Some I]\<rparr>)"

definition f1ap_add_osc_ue :: "f1ap_state \<Rightarrow> F1_t \<Rightarrow> int \<Rightarrow> u16 \<Rightarrow> int \<Rightarrow> (f1ap_state \<times> int) res" where
  "f1ap_add_osc_ue S isCu instanceP rnti du_ue_f1ap_id =
     bnd (f1ap_get S isCu instanceP (\<lambda>I. inst_add_ue I rnti du_ue_f1ap_id)) (\<lambda>(I, i).
       Inr (f1ap_put S isCu instanceP I, i))"

definition f1ap_add_ue :: "f1ap_state \<Rightarrow> F1_t \<Rightarrow> int \<Rightarrow> u16 \<Rightarrow> (f1ap_state \<times> int) res" where
  "f1ap_add_ue S isCu instanceP rnti =
     bnd (f1ap_get S isCu instanceP (\<lambda>I. inst_add_ue I rnti (uint rnti))) (\<lambda>(I, i).
       Inr (f1ap_put S isCu instanceP I, i))"

definition f1ap_remove_ue :: "f1ap_state \<Rightarrow> F1_t \<Rightarrow> int \<Rightarrow> u16 \<Rightarrow> (f1ap_state \<times> int) res" where
  "f1ap_remove_ue S isCu instanceP rnti =
     bnd (f1ap_get S isCu instanceP (\<lambda>I. inst_remove_ue I rnti)) (\<lambda>I. Inr (f1ap_put S isCu instanceP I, 0))"

definition f1ap_get_du_ue_f1ap_id :: "f1ap_state \<Rightarrow> F1_t \<Rightarrow> int \<Rightarrow> u16 \<Rightarrow> int res" where
  "f1ap_get_du_ue_f1ap_id S isCu instanceP rnti = f1ap_get S isCu instanceP (\<lambda>I. inst_du_id I rnti)"

definition f1ap_get_cu_ue_f1ap_id :: "f1ap_state \<Rightarrow> F1_t \<Rightarrow> int \<Rightarrow> u16 \<Rightarrow> int res" where
  "f1ap_get_cu_ue_f1ap_id S isCu instanceP rnti = f1ap_get S isCu instanceP (\<lambda>I. inst_cu_id I rnti)"

definition f1ap_get_rnti_by_du_id :: "f1ap_state \<Rightarrow> F1_t \<Rightarrow> int \<Rightarrow> int \<Rightarrow> int res" where
  "f1ap_get_rnti_by_du_id S isCu instanceP du_id = f1ap_get S isCu instanceP (\<lambda>I. inst_rnti_by_du_id I du_id)"

definition f1ap_get_rnti_by_cu_id :: "f1ap_state \<Rightarrow> F1_t \<Rightarrow> int \<Rightarrow> int \<Rightarrow> int res" where
  "f1ap_get_rnti_by_cu_id S isCu instanceP cu_id = f1ap_get S isCu instanceP (\<lambda>I. inst_rnti_by_cu_id I cu_id)"

definition f1ap_du_add_cu_ue_id :: "f1ap_state \<Rightarrow> int \<Rightarrow> int \<Rightarrow> int \<Rightarrow> (f1ap_state \<times> int) res" where
  "f1ap_du_add_cu_ue_id S instanceP du_ue_f1ap_id cu_ue_f1ap_id =
     bnd (f1ap_get S DUtype instanceP id) (\<lambda>I.
       case first_slot (\<lambda>u. fu_du_ue_f1ap_id u = du_ue_f1ap_id) (fi_ue I) of
         None \<Rightarrow> Inr (S, - 1)
       | Some i \<Rightarrow>
           Inr (f1ap_put S DUtype instanceP
                  (I\<lparr>fi_ue := (fi_ue I)[i := (fi_ue I ! i)\<lparr>fu_cu_ue_f1ap_id := cu_ue_f1ap_id\<rparr>]\<rparr>), 0))"

subsection \<open>Slots\<close>

lemma first_slot_Some:
  "first_slot P xs = Some i \<longleftrightarrow> i < length xs \<and> P (xs ! i) \<and> (\<forall>j<i. \<not> P (xs ! j))"
proof (induction xs arbitrary: i)
  case (Cons x xs)
  show ?case by (cases i) (auto simp: Cons.IH All_less_Suc2 split: if_splits)
qed simp

lemma first_slot_None: "first_slot P xs = None \<longleftrightarrow> (\<forall>x\<in>set xs. \<not> P x)"
  by (induction xs) auto

lemma int_of_long_rnti [simp]: "int_of_long (uint (r :: u16)) = uint r"
proof -
  have "0 \<le> uint r" "uint r < 2 ^ 16" using uint_lt2p [of r] by simp_all
  then have "(uint r + 2 ^ 31) mod 2 ^ 32 = uint r + 2 ^ 31" by (intro mod_pos_pos_trivial) simp_all
  then show ?thesis
    using int_word_sint [where 'a = 32, of "uint r"] by (simp add: int_of_long_def del: of_int_uint word_of_int_uint)
qed

lemma int_of_long_0 [simp]: "int_of_long 0 = 0"
  using int_of_long_rnti [of 0] by simp

text \<open>The slots in use, the state they keep, and what a write to one slot does.\<close>

definition f1ap_live :: "f1ap_cudu_inst \<Rightarrow> nat set" where
  "f1ap_live I = {i. i < length (fi_ue I) \<and> fu_rnti (fi_ue I ! i) \<noteq> 0}"

definition f1ap_inst_inv :: "f1ap_cudu_inst \<Rightarrow> bool" where
  "f1ap_inst_inv I \<longleftrightarrow> length (fi_ue I) = MAX_MOBILES_PER_ENB \<and>
     inj_on (\<lambda>i. fu_rnti (fi_ue I ! i)) (f1ap_live I)"

text \<open>By how much \<open>num_ues\<close> falls short of the slots in use, modulo 65536.\<close>

definition f1ap_drift :: "f1ap_cudu_inst \<Rightarrow> u16" where
  "f1ap_drift I = of_nat (card (f1ap_live I)) - fi_num_ues I"

text \<open>The CU takes the RNTI as its own identity of the UE, and no slot in front has kept that identity.\<close>

definition f1ap_cu_ids :: "f1ap_cudu_inst \<Rightarrow> bool" where
  "f1ap_cu_ids I \<longleftrightarrow> (\<forall>i\<in>f1ap_live I. fu_cu_ue_f1ap_id (fi_ue I ! i) = uint (fu_rnti (fi_ue I ! i)) \<and>
     (\<forall>j<i. fu_cu_ue_f1ap_id (fi_ue I ! j) \<noteq> uint (fu_rnti (fi_ue I ! i))))"

lemma live_finite: "finite (f1ap_live I)" "card (f1ap_live I) \<le> length (fi_ue I)"
proof -
  have "f1ap_live I \<subseteq> {..<length (fi_ue I)}" by (auto simp: f1ap_live_def)
  then show "finite (f1ap_live I)" "card (f1ap_live I) \<le> length (fi_ue I)"
    using finite_subset card_mono [of "{..<length (fi_ue I)}"] by (auto simp del: lessThan_iff)
qed

lemma empty_f1ap_live: "f1ap_live empty_f1ap_inst = {}"
  by (auto simp: f1ap_live_def empty_f1ap_inst_def empty_f1ap_ue_def)

lemma empty_f1ap_inst_inv: "f1ap_inst_inv empty_f1ap_inst"
  unfolding f1ap_inst_inv_def empty_f1ap_live by (simp add: empty_f1ap_inst_def)

lemma live_first_slot:
  assumes "f1ap_inst_inv I" "i \<in> f1ap_live I" "fu_rnti (fi_ue I ! i) = r"
  shows "first_slot (\<lambda>u. fu_rnti u = r) (fi_ue I) = Some i"
proof -
  have il: "i < length (fi_ue I)" and r: "r \<noteq> 0" using assms(2,3) by (auto simp: f1ap_live_def)
  have inj: "inj_on (\<lambda>i. fu_rnti (fi_ue I ! i)) (f1ap_live I)" using assms(1) by (simp add: f1ap_inst_inv_def)
  have "fu_rnti (fi_ue I ! j) \<noteq> r" if "j < i" for j
  proof
    assume "fu_rnti (fi_ue I ! j) = r"
    then have "j \<in> f1ap_live I" using r that il by (simp add: f1ap_live_def)
    then have "j = i" using inj_onD [OF inj _ _ assms(2)] assms(3) \<open>fu_rnti (fi_ue I ! j) = r\<close> by blast
    then show False using that by simp
  qed
  then show ?thesis using il assms(3) by (simp add: first_slot_Some)
qed

text \<open>Adding a UE: the slot of a known one, else the first free slot.\<close>

lemma add_known:
  assumes "f1ap_inst_inv I" "i \<in> f1ap_live I" "fu_rnti (fi_ue I ! i) = r"
  shows "inst_add_ue I r du = (I\<lparr>fi_ue := (fi_ue I)[i := (fi_ue I ! i)\<lparr>fu_f1ap_uid := int i\<rparr>]\<rparr>, int i)"
  using live_first_slot [OF assms] by (simp add: inst_add_ue_def)

lemma add_new:
  assumes "f1ap_inst_inv I" "r \<noteq> 0" "\<forall>i\<in>f1ap_live I. fu_rnti (fi_ue I ! i) \<noteq> r" "card (f1ap_live I) < MAX_MOBILES_PER_ENB"
  shows "\<exists>i. i < MAX_MOBILES_PER_ENB \<and> i \<notin> f1ap_live I \<and> (\<forall>j<i. j \<in> f1ap_live I) \<and>
     inst_add_ue I r du = (I\<lparr>fi_ue := (fi_ue I)[i := (fi_ue I ! i)\<lparr>fu_rnti := r, fu_f1ap_uid := int i,
                                        fu_du_ue_f1ap_id := du, fu_cu_ue_f1ap_id := uint r\<rparr>],
                  fi_num_ues := fi_num_ues I + 1\<rparr>, int i)"
proof -
  have len: "length (fi_ue I) = MAX_MOBILES_PER_ENB" using assms(1) by (simp add: f1ap_inst_inv_def)
  have none: "first_slot (\<lambda>u. fu_rnti u = r) (fi_ue I) = None"
    using assms(2,3) by (auto simp: first_slot_None f1ap_live_def in_set_conv_nth)
  have "\<not> {..<MAX_MOBILES_PER_ENB} \<subseteq> f1ap_live I"
    using assms(4) card_mono [OF live_finite(1), of "{..<MAX_MOBILES_PER_ENB}" I] by auto
  then obtain k where k: "k < MAX_MOBILES_PER_ENB" "k \<notin> f1ap_live I" by auto
  then have "fu_rnti (fi_ue I ! k) = 0" "fi_ue I ! k \<in> set (fi_ue I)" using len by (simp_all add: f1ap_live_def)
  then have "first_slot (\<lambda>u. fu_rnti u = 0) (fi_ue I) \<noteq> None" unfolding first_slot_None by blast
  then obtain i where i: "first_slot (\<lambda>u. fu_rnti u = 0) (fi_ue I) = Some i" by auto
  then have "i < MAX_MOBILES_PER_ENB" "i \<notin> f1ap_live I" "\<forall>j<i. j \<in> f1ap_live I"
    using len by (simp_all add: first_slot_Some f1ap_live_def)
  then show ?thesis using none i by (simp add: inst_add_ue_def)
qed

lemma add_full:
  assumes "f1ap_inst_inv I" "r \<noteq> 0" "\<forall>i\<in>f1ap_live I. fu_rnti (fi_ue I ! i) \<noteq> r" "card (f1ap_live I) = MAX_MOBILES_PER_ENB"
  shows "inst_add_ue I r du = (I, - 1)"
proof -
  have len: "length (fi_ue I) = MAX_MOBILES_PER_ENB" using assms(1) by (simp add: f1ap_inst_inv_def)
  have "f1ap_live I \<subseteq> {..<MAX_MOBILES_PER_ENB}" using len by (auto simp: f1ap_live_def)
  then have "f1ap_live I = {..<MAX_MOBILES_PER_ENB}" using assms(4) by (intro card_subset_eq) auto
  then have "first_slot (\<lambda>u. fu_rnti u = r) (fi_ue I) = None" "first_slot (\<lambda>u. fu_rnti u = 0) (fi_ue I) = None"
    using assms(2,3) len by (auto simp: first_slot_None f1ap_live_def in_set_conv_nth set_eq_iff)
  then show ?thesis by (simp add: inst_add_ue_def)
qed

text \<open>Adding succeeds for a UE that is there or if there is a free slot.\<close>

lemma inst_add_ue_added:
  assumes "r \<noteq> 0" "r \<in> fu_rnti ` set (fi_ue I) \<or> 0 \<in> fu_rnti ` set (fi_ue I)" "inst_add_ue I r du = (J, uid)"
  shows "0 \<le> uid \<and> r \<in> fu_rnti ` set (fi_ue J)"
proof -
  have put: "r \<in> fu_rnti ` set ((fi_ue I)[i := u])" if "i < length (fi_ue I)" "fu_rnti u = r" for i u
    using that set_update_memI [of i "fi_ue I" u] by (metis image_eqI)
  show ?thesis
  proof (cases "first_slot (\<lambda>u. fu_rnti u = r) (fi_ue I)")
    case (Some i)
    then have "J = I\<lparr>fi_ue := (fi_ue I)[i := (fi_ue I ! i)\<lparr>fu_f1ap_uid := int i\<rparr>]\<rparr>" "uid = int i"
      using assms(3) by (auto simp: inst_add_ue_def)
    moreover have "i < length (fi_ue I)" "fu_rnti (fi_ue I ! i) = r" using Some by (simp_all add: first_slot_Some)
    ultimately show ?thesis using put [of i] by simp
  next
    case None
    then have "first_slot (\<lambda>u. fu_rnti u = 0) (fi_ue I) \<noteq> None" using assms(2) by (auto simp: first_slot_None)
    then obtain i where i: "first_slot (\<lambda>u. fu_rnti u = 0) (fi_ue I) = Some i" by auto
    then have "fi_ue J = (fi_ue I)[i := (fi_ue I ! i)\<lparr>fu_rnti := r, fu_f1ap_uid := int i, fu_du_ue_f1ap_id := du,
        fu_cu_ue_f1ap_id := uint r\<rparr>]" "uid = int i" using assms(3) None by (auto simp: inst_add_ue_def)
    then show ?thesis using put [of i] i by (simp add: first_slot_Some)
  qed
qed

lemma live_update:
  assumes "i < length (fi_ue I)" "fi_ue I' = (fi_ue I)[i := u]"
  shows "f1ap_live I' = (if fu_rnti u = 0 then f1ap_live I - {i} else insert i (f1ap_live I))"
  using assms by (auto simp: f1ap_live_def nth_list_update split: if_splits)

text \<open>A write to a slot that keeps its RNTI.\<close>

lemma touch_inv:
  assumes "f1ap_inst_inv I" "i < length (fi_ue I)" "fu_rnti u = fu_rnti (fi_ue I ! i)"
  defines "J \<equiv> I\<lparr>fi_ue := (fi_ue I)[i := u]\<rparr>"
  shows "f1ap_inst_inv J" "f1ap_drift J = f1ap_drift I"
    "fu_cu_ue_f1ap_id u = fu_cu_ue_f1ap_id (fi_ue I ! i) \<Longrightarrow> f1ap_cu_ids I \<Longrightarrow> f1ap_cu_ids J"
proof -
  have same: "fu_rnti (fi_ue J ! j) = fu_rnti (fi_ue I ! j)" for j using assms(2,3) unfolding J_def by (cases "j = i") simp_all
  then have lv: "f1ap_live J = f1ap_live I" by (simp add: f1ap_live_def J_def)
  show "f1ap_inst_inv J" using assms(1) lv unfolding f1ap_inst_inv_def same by (simp add: J_def)
  show "f1ap_drift J = f1ap_drift I" unfolding f1ap_drift_def lv by (simp add: J_def)
  assume cu: "fu_cu_ue_f1ap_id u = fu_cu_ue_f1ap_id (fi_ue I ! i)" "f1ap_cu_ids I"
  have "fu_cu_ue_f1ap_id (fi_ue J ! j) = fu_cu_ue_f1ap_id (fi_ue I ! j)" for j
    using assms(2) cu(1) unfolding J_def by (cases "j = i") simp_all
  then show "f1ap_cu_ids J" using cu(2) lv unfolding f1ap_cu_ids_def same by simp
qed

lemma add_inv_new:
  fixes du :: int
  assumes "f1ap_inst_inv I" "r \<noteq> 0" and new: "\<forall>i\<in>f1ap_live I. fu_rnti (fi_ue I ! i) \<noteq> r"
    and c: "card (f1ap_live I) < MAX_MOBILES_PER_ENB"
  defines "J \<equiv> fst (inst_add_ue I r du)"
  shows "f1ap_inst_inv J" "f1ap_cu_ids I \<Longrightarrow> f1ap_cu_ids J" "f1ap_drift J = f1ap_drift I"
proof -
  have len: "length (fi_ue I) = MAX_MOBILES_PER_ENB" using assms(1) by (simp add: f1ap_inst_inv_def)
  obtain i where i: "i < MAX_MOBILES_PER_ENB" "i \<notin> f1ap_live I" "\<forall>j<i. j \<in> f1ap_live I"
    and st: "inst_add_ue I r du = (I\<lparr>fi_ue := (fi_ue I)[i := (fi_ue I ! i)\<lparr>fu_rnti := r, fu_f1ap_uid := int i,
                                      fu_du_ue_f1ap_id := du, fu_cu_ue_f1ap_id := uint r\<rparr>],
                fi_num_ues := fi_num_ues I + 1\<rparr>, int i)"
    using add_new [OF assms(1,2) new c] by blast
  have fi: "fi_ue J = (fi_ue I)[i := (fi_ue I ! i)\<lparr>fu_rnti := r, fu_f1ap_uid := int i,
      fu_du_ue_f1ap_id := du, fu_cu_ue_f1ap_id := uint r\<rparr>]" and nu: "fi_num_ues J = fi_num_ues I + 1"
    using st by (simp_all add: J_def)
  have lv: "f1ap_live J = insert i (f1ap_live I)" using live_update [OF _ fi] i(1) len assms(2) by simp
  have nt: "fi_ue J ! j = fi_ue I ! j" if "j \<in> f1ap_live I" for j
  proof -
    have "i \<noteq> j" using that i(2) by blast
    then show ?thesis unfolding fi by (rule nth_list_update_neq)
  qed
  have ni: "fu_rnti (fi_ue J ! i) = r" "fu_cu_ue_f1ap_id (fi_ue J ! i) = uint r" using fi i(1) len by simp_all
  show "f1ap_drift J = f1ap_drift I" using i(2) live_finite(1) [of I] by (simp add: f1ap_drift_def lv nu)
  have "inj_on (\<lambda>j. fu_rnti (fi_ue J ! j)) (f1ap_live J)"
    using assms(1) new i(2) ni nt by (auto simp: lv f1ap_inst_inv_def inj_on_def)
  then show "f1ap_inst_inv J" using fi len by (simp add: f1ap_inst_inv_def)
  show "f1ap_cu_ids J" if cu: "f1ap_cu_ids I"
  proof -
    have o: "fi_ue J ! j = fi_ue I ! j" if "j \<noteq> i" for j using that fi by simp
    have "fu_cu_ue_f1ap_id (fi_ue J ! j) \<noteq> uint r" if "j < i" for j
      using that i(3) new cu o [of j] by (auto simp: f1ap_cu_ids_def word_uint_eq_iff)
    moreover have "fu_cu_ue_f1ap_id (fi_ue J ! j) \<noteq> uint (fu_rnti (fi_ue I ! k))" if "j < k" "k \<in> f1ap_live I" for j k
      using that new cu ni o [of j] by (cases "j = i") (auto simp: f1ap_cu_ids_def word_uint_eq_iff)
    moreover have "fu_cu_ue_f1ap_id (fi_ue I ! k) = uint (fu_rnti (fi_ue I ! k))" if "k \<in> f1ap_live I" for k
      using cu that by (simp add: f1ap_cu_ids_def)
    ultimately show ?thesis using ni nt by (simp add: f1ap_cu_ids_def lv)
  qed
qed

lemma add_inv:
  assumes "f1ap_inst_inv I"
  shows "f1ap_inst_inv (fst (inst_add_ue I r du))" "f1ap_cu_ids I \<Longrightarrow> f1ap_cu_ids (fst (inst_add_ue I r du))"
    "f1ap_drift (fst (inst_add_ue I r du)) = f1ap_drift I"
proof -
  let ?I = "fst (inst_add_ue I r du)"
  have "f1ap_inst_inv ?I \<and> (f1ap_cu_ids I \<longrightarrow> f1ap_cu_ids ?I) \<and> f1ap_drift ?I = f1ap_drift I"
  proof (cases "first_slot (\<lambda>u. fu_rnti u = r) (fi_ue I)")
    case (Some i)
    then have "i < length (fi_ue I)" "?I = I\<lparr>fi_ue := (fi_ue I)[i := (fi_ue I ! i)\<lparr>fu_f1ap_uid := int i\<rparr>]\<rparr>"
      by (simp_all add: inst_add_ue_def) (simp add: first_slot_Some)
    then show ?thesis using touch_inv [OF assms, of i "(fi_ue I ! i)\<lparr>fu_f1ap_uid := int i\<rparr>"] by simp
  next
    case None
    then have un: "r \<notin> fu_rnti ` set (fi_ue I)" by (auto simp: first_slot_None)
    then have new: "\<forall>i\<in>f1ap_live I. fu_rnti (fi_ue I ! i) \<noteq> r" by (auto simp: f1ap_live_def)
    show ?thesis
    proof (cases "first_slot (\<lambda>u. fu_rnti u = 0) (fi_ue I)")
      case None
      then have "?I = I" using \<open>first_slot (\<lambda>u. fu_rnti u = r) (fi_ue I) = None\<close> by (simp add: inst_add_ue_def)
      then show ?thesis using assms by simp
    next
      case (Some k)
      then have k: "k < length (fi_ue I)" "fu_rnti (fi_ue I ! k) = 0" by (simp_all add: first_slot_Some)
      then have r: "r \<noteq> 0" using un nth_mem [OF k(1)] by force
      have l40: "length (fi_ue I) = MAX_MOBILES_PER_ENB" using assms by (simp add: f1ap_inst_inv_def)
      have "f1ap_live I \<subset> {..<MAX_MOBILES_PER_ENB}" using k l40 by (auto simp: f1ap_live_def)
      then have "card (f1ap_live I) < MAX_MOBILES_PER_ENB" using psubset_card_mono [of "{..<MAX_MOBILES_PER_ENB}"] by simp
      then show ?thesis using add_inv_new [OF assms r new] by blast
    qed
  qed
  then show "f1ap_inst_inv ?I" "f1ap_cu_ids I \<Longrightarrow> f1ap_cu_ids ?I" "f1ap_drift ?I = f1ap_drift I" by blast+
qed

text \<open>Removing a UE that is there.\<close>

lemma remove_known:
  assumes "f1ap_inst_inv I" "i \<in> f1ap_live I" "fu_rnti (fi_ue I ! i) = r"
  shows "inst_remove_ue I r = I\<lparr>fi_ue := (fi_ue I)[i := (fi_ue I ! i)\<lparr>fu_rnti := 0\<rparr>], fi_num_ues := fi_num_ues I - 1\<rparr>"
    "f1ap_live (inst_remove_ue I r) = f1ap_live I - {i}" "f1ap_inst_inv (inst_remove_ue I r)"
    "f1ap_cu_ids I \<Longrightarrow> f1ap_cu_ids (inst_remove_ue I r)" "f1ap_drift (inst_remove_ue I r) = f1ap_drift I"
proof -
  from live_first_slot [OF assms] show st: "inst_remove_ue I r = I\<lparr>fi_ue := (fi_ue I)[i := (fi_ue I ! i)\<lparr>fu_rnti := 0\<rparr>], fi_num_ues := fi_num_ues I - 1\<rparr>"
    by (simp add: inst_remove_ue_def)
  let ?I = "inst_remove_ue I r"
  have fi: "fi_ue ?I = (fi_ue I)[i := (fi_ue I ! i)\<lparr>fu_rnti := 0\<rparr>]" using st by simp
  have il: "i < length (fi_ue I)" using assms(2) by (simp add: f1ap_live_def)
  show lv: "f1ap_live ?I = f1ap_live I - {i}" using live_update [OF il fi] by simp
  have nt: "fi_ue ?I ! j = fi_ue I ! j" if "j \<in> f1ap_live I - {i}" for j using that fi by simp
  have "card (f1ap_live I) = Suc (card (f1ap_live I - {i}))" using card.remove [OF live_finite(1) assms(2)] .
  moreover have "fi_num_ues ?I = fi_num_ues I - 1" using st by simp
  ultimately show "f1ap_drift ?I = f1ap_drift I" unfolding f1ap_drift_def lv by simp
  have "inj_on (\<lambda>j. fu_rnti (fi_ue ?I ! j)) (f1ap_live ?I)"
    using assms(1) nt unfolding lv f1ap_inst_inv_def by (simp add: inj_on_def)
  then show "f1ap_inst_inv ?I"
    using assms(1) fi unfolding f1ap_inst_inv_def by simp
  have "fu_cu_ue_f1ap_id (fi_ue ?I ! j) = fu_cu_ue_f1ap_id (fi_ue I ! j)" for j using il by (cases "j = i") (simp_all add: fi)
  then show "f1ap_cu_ids ?I" if "f1ap_cu_ids I" using that nt unfolding f1ap_cu_ids_def lv by simp
qed

text \<open>Removing one that is not: no slot is freed, but \<open>num_ues\<close> is counted down.\<close>

lemma remove_unknown:
  assumes "f1ap_inst_inv I" "r = 0 \<or> r \<notin> fu_rnti ` set (fi_ue I)"
  shows "fi_ue (inst_remove_ue I r) = fi_ue I" "f1ap_inst_inv (inst_remove_ue I r)"
    "f1ap_cu_ids I \<Longrightarrow> f1ap_cu_ids (inst_remove_ue I r)" "f1ap_drift (inst_remove_ue I r) = f1ap_drift I + 1"
proof -
  show fi: "fi_ue (inst_remove_ue I r) = fi_ue I"
  proof (cases "first_slot (\<lambda>u. fu_rnti u = r) (fi_ue I)")
    case (Some i)
    then have i: "i < length (fi_ue I)" "fu_rnti (fi_ue I ! i) = r" by (simp_all add: first_slot_Some)
    then have "r = 0" using assms(2) nth_mem [OF i(1)] by force
    then have "(fi_ue I ! i)\<lparr>fu_rnti := 0\<rparr> = fi_ue I ! i" using i(2) by simp
    then show ?thesis using Some by (simp add: inst_remove_ue_def)
  qed (simp add: inst_remove_ue_def)
  have nu: "fi_num_ues (inst_remove_ue I r) = fi_num_ues I - 1" by (simp add: inst_remove_ue_def split: option.split)
  have lv: "f1ap_live (inst_remove_ue I r) = f1ap_live I" by (simp add: f1ap_live_def fi)
  show "f1ap_inst_inv (inst_remove_ue I r)" using assms(1) by (simp add: f1ap_inst_inv_def lv fi)
  show "f1ap_cu_ids (inst_remove_ue I r)" if "f1ap_cu_ids I" using that by (simp add: f1ap_cu_ids_def lv fi)
  show "f1ap_drift (inst_remove_ue I r) = f1ap_drift I + 1" by (simp add: f1ap_drift_def lv nu)
qed

subsection \<open>Instances and their calls\<close>

lemma f1ap_get_Inr:
  "f1ap_get S t n f = Inr x \<longleftrightarrow> (\<exists>I. f1ap_get S t n id = Inr I \<and> x = f I)"
  by (auto simp: f1ap_get_def bnd_eq_Inr)

lemma f1ap_get_of: "f1ap_get S t n id = Inr I \<Longrightarrow> f1ap_get S t n f = Inr (f I)"
  by (subst f1ap_get_Inr) blast

text \<open>The state: two arrays of equal length; every instance is consistent.\<close>

definition f1ap_inv :: "f1ap_state \<Rightarrow> bool" where
  "f1ap_inv S \<longleftrightarrow> length (f1_du_inst S) = length (f1_cu_inst S) \<and>
     (\<forall>t n I. f1ap_get S t n id = Inr I \<longrightarrow> f1ap_inst_inv I \<and> (t = CUtype \<longrightarrow> f1ap_cu_ids I))"

definition f1_table :: "f1ap_state \<Rightarrow> F1_t \<Rightarrow> f1ap_cudu_inst option list" where
  "f1_table S t = (case t of CUtype \<Rightarrow> f1_cu_inst S | DUtype \<Rightarrow> f1_du_inst S)"

lemma f1ap_get_iff:
  "f1ap_get S t n id = Inr I \<longleftrightarrow> 0 \<le> n \<and> nat n < length (f1_cu_inst S) \<and> f1_table S t ! nat n = Some I"
  by (auto simp: f1ap_get_def getCxt_def f1_table_def bnd_eq_Inr)

lemma f1ap_put_table:
  "f1_table (f1ap_put S t n I) t' = (if t' = t then (f1_table S t)[nat n := Some I] else f1_table S t')"
  "length (f1_cu_inst (f1ap_put S t n I)) = length (f1_cu_inst S)"
  by (cases t; cases t'; simp add: f1_table_def f1ap_put_def)+

lemma f1ap_get_put:
  assumes "length (f1_du_inst S) = length (f1_cu_inst S)" "f1ap_get S t n id = Inr I"
  shows "f1ap_get (f1ap_put S t n I') t' n' id = Inr J \<longleftrightarrow>
    (if t' = t \<and> n' = n then J = I' else f1ap_get S t' n' id = Inr J)"
proof -
  have n: "0 \<le> n" "nat n < length (f1_cu_inst S)" using assms(2) by (simp_all add: f1ap_get_iff)
  have len: "length (f1_table S t) = length (f1_cu_inst S)" using assms(1) by (cases t) (simp_all add: f1_table_def)
  show ?thesis
  proof (cases "t' = t \<and> n' = n")
    case True
    then show ?thesis using n len by (auto simp: f1ap_get_iff f1ap_put_table)
  next
    case False
    then have "0 \<le> n' \<Longrightarrow> t' = t \<Longrightarrow> nat n \<noteq> nat n'" using n(1) by auto
    then show ?thesis using False by (auto simp: f1ap_get_iff f1ap_put_table)
  qed
qed

lemma f1ap_put_inv:
  assumes "f1ap_inv S" "f1ap_get S t n id = Inr I" "f1ap_inst_inv I'" "t = CUtype \<longrightarrow> f1ap_cu_ids I'"
  shows "f1ap_inv (f1ap_put S t n I')"
proof -
  have len: "length (f1_du_inst S) = length (f1_cu_inst S)" using assms(1) by (simp add: f1ap_inv_def)
  have "length (f1_du_inst (f1ap_put S t n I')) = length (f1_cu_inst (f1ap_put S t n I'))"
    using len by (cases t) (simp_all add: f1ap_put_def)
  then show ?thesis
    using assms f1ap_get_put [OF len assms(2)] unfolding f1ap_inv_def by (auto split: if_splits)
qed

lemma create_get:
  assumes "length (f1_du_inst S) = length (f1_cu_inst S)" "createF1inst S t n a = Inr S'"
  shows "length (f1_du_inst S') = length (f1_cu_inst S')"
    "f1ap_get S' t' n' id = Inr I \<Longrightarrow>
       f1ap_get S t' n' id = Inr I \<or> (\<forall>J. f1ap_get S t' n' id \<noteq> Inr J) \<and> (\<exists>a. I = empty_f1ap_inst\<lparr>fi_assoc_id := a\<rparr>)"
    "f1ap_get S t' n' id = Inr I \<Longrightarrow> f1ap_get S' t' n' id = Inr I"
proof -
  show "length (f1_du_inst S') = length (f1_cu_inst S')"
    using assms by (cases t) (auto simp: createF1inst_def bnd_eq_Inr)
  have e: "empty_f1ap_inst = empty_f1ap_inst\<lparr>fi_assoc_id := 0\<rparr>" by (simp add: empty_f1ap_inst_def)
  show "f1ap_get S t' n' id = Inr I \<or> (\<forall>J. f1ap_get S t' n' id \<noteq> Inr J) \<and> (\<exists>a. I = empty_f1ap_inst\<lparr>fi_assoc_id := a\<rparr>)"
    if "f1ap_get S' t' n' id = Inr I"
    using that assms e by (cases t; cases t'; cases "nat n' = nat n")
      (auto simp: createF1inst_def f1ap_get_def getCxt_def bnd_eq_Inr deref_def nth_list_update split: option.splits)
  show "f1ap_get S' t' n' id = Inr I" if "f1ap_get S t' n' id = Inr I"
    using that assms by (cases t; cases t'; cases "nat n' = nat n")
      (auto simp: createF1inst_def f1ap_get_def getCxt_def bnd_eq_Inr deref_def nth_list_update split: option.splits)
qed

lemma assoc_id_inv:
  "f1ap_inst_inv (I\<lparr>fi_assoc_id := a\<rparr>) = f1ap_inst_inv I" "f1ap_cu_ids (I\<lparr>fi_assoc_id := a\<rparr>) = f1ap_cu_ids I"
  by (simp_all add: f1ap_inst_inv_def f1ap_cu_ids_def f1ap_live_def)

text \<open>The calls on the tables of a node, with any RNTIs.  \<open>us\<close> logs the removals of RNTIs that are not in the
  table of the instance; RNTI 0, which marks the free slots, is the RNTI of no UE.\<close>

inductive f1ap_history :: "(F1_t \<times> int) list \<Rightarrow> f1ap_state \<Rightarrow> bool" where
  start: "f1ap_history [] initial_f1ap_state"
| create: "f1ap_history us S \<Longrightarrow> createF1inst S t n a = Inr S' \<Longrightarrow> f1ap_history us S'"
| add: "f1ap_history us S \<Longrightarrow> f1ap_add_ue S t n r = Inr (S', i) \<Longrightarrow> f1ap_history us S'"
| add_osc: "f1ap_history us S \<Longrightarrow> f1ap_add_osc_ue S t n r du = Inr (S', i) \<Longrightarrow> f1ap_history us S'"
| remove: "f1ap_history us S \<Longrightarrow> f1ap_get S t n id = Inr I \<Longrightarrow> f1ap_remove_ue S t n r = Inr (S', k) \<Longrightarrow>
    f1ap_history (if r \<noteq> 0 \<and> r \<in> fu_rnti ` set (fi_ue I) then us else (t, n) # us) S'"
| add_cu_id: "f1ap_history us S \<Longrightarrow> f1ap_du_add_cu_ue_id S n du cu = Inr (S', k) \<Longrightarrow> f1ap_history us S'"

lemma rnti_live:
  assumes "r \<in> fu_rnti ` set (fi_ue I)" "r \<noteq> 0"
  obtains i where "i \<in> f1ap_live I" "fu_rnti (fi_ue I ! i) = r"
  using assms by (auto simp: f1ap_live_def in_set_conv_nth)

lemma f1ap_add_osc_eq:
  "f1ap_get S t n id = Inr I \<Longrightarrow> f1ap_add_osc_ue S t n r du =
     Inr (f1ap_put S t n (fst (inst_add_ue I r du)), snd (inst_add_ue I r du))"
  by (simp add: f1ap_add_osc_ue_def f1ap_get_of split: prod.splits)

lemma f1ap_remove_eq:
  "f1ap_get S t n id = Inr I \<Longrightarrow> f1ap_remove_ue S t n r = Inr (f1ap_put S t n (inst_remove_ue I r), 0)"
  by (simp add: f1ap_remove_ue_def f1ap_get_of)

definition f1ap_counts :: "(F1_t \<times> int) list \<Rightarrow> f1ap_state \<Rightarrow> bool" where
  "f1ap_counts us S \<longleftrightarrow> (\<forall>t n I. f1ap_get S t n id = Inr I \<longrightarrow> f1ap_drift I = of_nat (count_list us (t, n))) \<and>
     (\<forall>t n. (t, n) \<in> set us \<longrightarrow> (\<exists>I. f1ap_get S t n id = Inr I))"

lemma f1ap_put_ok:
  assumes "f1ap_inv S \<and> f1ap_counts us S" "f1ap_get S t n id = Inr I" "f1ap_inst_inv I'" "t = CUtype \<Longrightarrow> f1ap_cu_ids I \<Longrightarrow> f1ap_cu_ids I'"
    and "f1ap_drift I' = f1ap_drift I + of_bool un"
  shows "f1ap_inv (f1ap_put S t n I') \<and> f1ap_counts (if un then (t, n) # us else us) (f1ap_put S t n I')"
proof
  have len: "length (f1_du_inst S) = length (f1_cu_inst S)" using assms(1) by (simp add: f1ap_inv_def)
  have "t = CUtype \<longrightarrow> f1ap_cu_ids I" using assms(1,2) by (simp add: f1ap_inv_def)
  then show "f1ap_inv (f1ap_put S t n I')" using f1ap_put_inv [OF _ assms(2,3)] assms(1,4) by blast
  have c: "f1ap_counts us S" using assms(1) by blast
  note g = f1ap_get_put [OF len assms(2), of I']
  have "f1ap_drift J = of_nat (count_list (if un then (t, n) # us else us) (t', n'))"
    if "f1ap_get (f1ap_put S t n I') t' n' id = Inr J" for t' n' J
    using that c assms(2,5) unfolding f1ap_counts_def g by (auto split: if_splits)
  moreover have "\<exists>J. f1ap_get (f1ap_put S t n I') t' n' id = Inr J" if "(t', n') \<in> set (if un then (t, n) # us else us)" for t' n'
  proof (cases "t' = t \<and> n' = n")
    case True
    then show ?thesis unfolding g by simp
  next
    case False
    then have "(t', n') \<in> set us" using that by (auto split: if_splits)
    then obtain J where "f1ap_get S t' n' id = Inr J" using c unfolding f1ap_counts_def by blast
    then show ?thesis using False unfolding g by auto
  qed
  ultimately show "f1ap_counts (if un then (t, n) # us else us) (f1ap_put S t n I')" unfolding f1ap_counts_def by blast
qed

lemma add_osc_ok:
  assumes "f1ap_inv S \<and> f1ap_counts us S" "f1ap_add_osc_ue S t n r du = Inr (S', i)"
  shows "f1ap_inv S' \<and> f1ap_counts us S'"
proof -
  obtain I where I: "f1ap_get S t n id = Inr I"
    using assms(2) by (auto simp: f1ap_add_osc_ue_def bnd_eq_Inr f1ap_get_Inr [of S t n "\<lambda>I. inst_add_ue I r du"])
  then have S': "S' = f1ap_put S t n (fst (inst_add_ue I r du))" using assms(2) f1ap_add_osc_eq by simp
  have "f1ap_inst_inv I" using assms(1) I by (simp add: f1ap_inv_def)
  then show ?thesis using f1ap_put_ok [OF assms(1) I, of _ False] add_inv unfolding S' by simp
qed

lemma f1ap_add_ue_osc: "f1ap_add_ue S t n r = f1ap_add_osc_ue S t n r (uint r)"
  by (simp add: f1ap_add_ue_def f1ap_add_osc_ue_def)

lemma f1ap_history_ok: "f1ap_history us S \<Longrightarrow> f1ap_inv S \<and> f1ap_counts us S"
proof (induction rule: f1ap_history.induct)
  case start
  show ?case
    by (auto simp: f1ap_inv_def f1ap_counts_def initial_f1ap_state_def f1ap_get_def getCxt_def bnd_eq_Inr deref_def split: F1_t.splits)
next
  case (create us S t n a S')
  have len: "length (f1_du_inst S) = length (f1_cu_inst S)" using create.IH by (simp add: f1ap_inv_def)
  have e: "f1ap_cu_ids empty_f1ap_inst" by (simp add: f1ap_cu_ids_def empty_f1ap_live)
  have "f1ap_inst_inv I \<and> (t' = CUtype \<longrightarrow> f1ap_cu_ids I)" if "f1ap_get S' t' n' id = Inr I" for t' n' I
    using create_get(2) [OF len create.hyps(2) that] create.IH e empty_f1ap_inst_inv
    by (auto simp: f1ap_inv_def assoc_id_inv)
  then have inv: "f1ap_inv S'" using create_get(1) [OF len create.hyps(2)] by (simp add: f1ap_inv_def)
  have "f1ap_drift I = of_nat (count_list us (t', n'))" if "f1ap_get S' t' n' id = Inr I" for t' n' I
    using create_get(2) [OF len create.hyps(2) that]
  proof
    assume "f1ap_get S t' n' id = Inr I"
    then show ?thesis using create.IH by (simp add: f1ap_counts_def)
  next
    assume c: "(\<forall>J. f1ap_get S t' n' id \<noteq> Inr J) \<and> (\<exists>a. I = empty_f1ap_inst\<lparr>fi_assoc_id := a\<rparr>)"
    then have "(t', n') \<notin> set us" using create.IH unfolding f1ap_counts_def by blast
    moreover have "f1ap_drift I = f1ap_drift empty_f1ap_inst" using c by (auto simp: f1ap_drift_def f1ap_live_def)
    moreover have "f1ap_drift empty_f1ap_inst = 0" by (simp add: f1ap_drift_def empty_f1ap_live) (simp add: empty_f1ap_inst_def)
    ultimately show ?thesis by (simp add: count_list_0_iff)
  qed
  moreover have "\<exists>I. f1ap_get S' t' n' id = Inr I" if "(t', n') \<in> set us" for t' n'
  proof -
    obtain I where "f1ap_get S t' n' id = Inr I" using create.IH \<open>(t', n') \<in> set us\<close> unfolding f1ap_counts_def by blast
    then show ?thesis using create_get(3) [OF len create.hyps(2)] by blast
  qed
  ultimately show ?case using inv unfolding f1ap_counts_def by blast
next
  case (add us S t n r S' i)
  then show ?case using add_osc_ok unfolding f1ap_add_ue_osc by blast
next
  case (add_osc us S t n r du S' i)
  then show ?case using add_osc_ok by blast
next
  case (remove us S t n I r S' k)
  have S': "S' = f1ap_put S t n (inst_remove_ue I r)" using remove.hyps(3) f1ap_remove_eq [OF remove.hyps(2)] by simp
  have inv: "f1ap_inst_inv I" using remove.IH remove.hyps(2) by (simp add: f1ap_inv_def)
  show ?case
  proof (cases "r \<noteq> 0 \<and> r \<in> fu_rnti ` set (fi_ue I)")
    case True
    then obtain i where i: "i \<in> f1ap_live I" "fu_rnti (fi_ue I ! i) = r" using rnti_live by blast
    show ?thesis using f1ap_put_ok [OF remove.IH remove.hyps(2), of _ False] remove_known(3-5) [OF inv i] True unfolding S' by simp
  next
    case False
    then have un: "r = 0 \<or> r \<notin> fu_rnti ` set (fi_ue I)" by blast
    have "f1ap_inv S' \<and> f1ap_counts ((t, n) # us) S'"
      using f1ap_put_ok [OF remove.IH remove.hyps(2), of _ True] remove_unknown(2-4) [OF inv un] unfolding S' by simp
    then show ?thesis unfolding if_not_P [OF False] .
  qed
next
  case (add_cu_id us S n du cu S' k)
  obtain I where I: "f1ap_get S DUtype n id = Inr I" using add_cu_id.hyps(2) by (auto simp: f1ap_du_add_cu_ue_id_def bnd_eq_Inr)
  have inv: "f1ap_inst_inv I" using add_cu_id.IH I by (simp add: f1ap_inv_def)
  show ?case
  proof (cases "first_slot (\<lambda>u. fu_du_ue_f1ap_id u = du) (fi_ue I)")
    case None
    then show ?thesis using add_cu_id I by (simp add: f1ap_du_add_cu_ue_id_def)
  next
    case (Some i)
    then have "S' = f1ap_put S DUtype n (I\<lparr>fi_ue := (fi_ue I)[i := (fi_ue I ! i)\<lparr>fu_cu_ue_f1ap_id := cu\<rparr>]\<rparr>)"
      "i < length (fi_ue I)"
      using Some add_cu_id.hyps(2) I by (simp add: f1ap_du_add_cu_ue_id_def) (use Some first_slot_Some in blast)
    then show ?thesis
      using f1ap_put_ok [OF add_cu_id.IH I, of _ False] touch_inv [OF inv, of i "(fi_ue I ! i)\<lparr>fu_cu_ue_f1ap_id := cu\<rparr>"] by simp
  qed
qed

lemma f1ap_history_inv: "f1ap_history us S \<Longrightarrow> f1ap_inv S"
  using f1ap_history_ok by blast

subsection \<open>Properties\<close>

lemmas f1ap_lookup_defs = f1ap_get_du_ue_f1ap_id_def f1ap_get_cu_ue_f1ap_id_def f1ap_get_rnti_by_du_id_def f1ap_get_rnti_by_cu_id_def

lemmas inst_lookup_defs = inst_du_id_def inst_cu_id_def inst_rnti_by_du_id_def inst_rnti_by_cu_id_def inst_lookup_def

text \<open>A lookup by RNTI goes to the slot of the UE.\<close>

lemma live_lookup:
  assumes "f1ap_inst_inv I" "i \<in> f1ap_live I"
  shows "inst_du_id I (fu_rnti (fi_ue I ! i)) = int_of_long (fu_du_ue_f1ap_id (fi_ue I ! i))"
    "inst_cu_id I (fu_rnti (fi_ue I ! i)) = int_of_long (fu_cu_ue_f1ap_id (fi_ue I ! i))"
  using live_first_slot [OF assms refl] by (simp_all add: inst_lookup_defs)

lemma unknown_lookup:
  assumes "r \<notin> fu_rnti ` set (fi_ue I)"
  shows "inst_du_id I r = - 1" "inst_cu_id I r = - 1"
proof -
  have "first_slot (\<lambda>u. fu_rnti u = r) (fi_ue I) = None" using assms by (auto simp: first_slot_None)
  then show "inst_du_id I r = - 1" "inst_cu_id I r = - 1" by (simp_all add: inst_lookup_defs)
qed

text \<open>At the CU the identity of a UE leads back to its RNTI.\<close>

lemma cu_id_resolves:
  assumes "f1ap_cu_ids I" "i \<in> f1ap_live I"
  shows "inst_rnti_by_cu_id I (uint (fu_rnti (fi_ue I ! i))) = uint (fu_rnti (fi_ue I ! i))"
proof -
  have "first_slot (\<lambda>u. fu_cu_ue_f1ap_id u = uint (fu_rnti (fi_ue I ! i))) (fi_ue I) = Some i"
    using assms by (auto simp: f1ap_cu_ids_def f1ap_live_def first_slot_Some)
  then show ?thesis by (simp add: inst_lookup_defs)
qed

text \<open>
  C26: the tables of UEs on the F1 interface.  After every sequence of calls, with any RNTIs, no two slots of an
  instance have the same RNTI, the lookups by the RNTI of a UE in the table return its identities and those for an
  unknown RNTI return -1; at the CU the RNTI is its own identity of the UE, and looking that identity up gives the
  RNTI back, also when free slots have kept old identities.  \<open>num_ues\<close>, which has 16 bits and wraps around, is the number
  of slots in use less the number of removals of RNTIs that were not in the table.
\<close>

theorem f1ap_ids_consistent:
  assumes "f1ap_history us S" "f1ap_get S t n id = Inr I"
  shows "(\<forall>i j. i < length (fi_ue I) \<and> j < length (fi_ue I) \<and> fu_rnti (fi_ue I ! i) \<noteq> 0 \<and>
        fu_rnti (fi_ue I ! i) = fu_rnti (fi_ue I ! j) \<longrightarrow> i = j) \<and>
    fi_num_ues I = of_nat (length (filter (\<lambda>u. fu_rnti u \<noteq> 0) (fi_ue I))) - of_nat (count_list us (t, n)) \<and>
    (\<forall>u\<in>set (fi_ue I). fu_rnti u \<noteq> 0 \<longrightarrow>
       f1ap_get_du_ue_f1ap_id S t n (fu_rnti u) = Inr (int_of_long (fu_du_ue_f1ap_id u)) \<and>
       f1ap_get_cu_ue_f1ap_id S t n (fu_rnti u) = Inr (int_of_long (fu_cu_ue_f1ap_id u)) \<and>
       (t = CUtype \<longrightarrow> fu_cu_ue_f1ap_id u = uint (fu_rnti u) \<and>
          f1ap_get_rnti_by_cu_id S t n (uint (fu_rnti u)) = Inr (uint (fu_rnti u)))) \<and>
    (\<forall>r. r \<notin> fu_rnti ` set (fi_ue I) \<longrightarrow>
       f1ap_get_du_ue_f1ap_id S t n r = Inr (- 1) \<and> f1ap_get_cu_ue_f1ap_id S t n r = Inr (- 1))"
proof -
  have inv: "f1ap_inst_inv I" and cu: "t = CUtype \<Longrightarrow> f1ap_cu_ids I"
    using f1ap_history_inv [OF assms(1)] assms(2) by (auto simp: f1ap_inv_def)
  have slot: "\<exists>i. i \<in> f1ap_live I \<and> u = fi_ue I ! i" if "u \<in> set (fi_ue I)" "fu_rnti u \<noteq> 0" for u
    using that by (auto simp: f1ap_live_def in_set_conv_nth)
  have resolves: "inst_rnti_by_cu_id I (uint (fu_rnti (fi_ue I ! i))) = uint (fu_rnti (fi_ue I ! i))"
    if "i \<in> f1ap_live I" "t = CUtype" for i using cu_id_resolves [OF cu] that by simp
  have live: "card (f1ap_live I) = length (filter (\<lambda>u. fu_rnti u \<noteq> 0) (fi_ue I))"
    by (simp add: f1ap_live_def length_filter_conv_card)
  have "f1ap_drift I = of_nat (count_list us (t, n))"
    using f1ap_history_ok [OF assms(1)] assms(2) by (simp add: f1ap_counts_def)
  then have "fi_num_ues I = of_nat (length (filter (\<lambda>u. fu_rnti u \<noteq> 0) (fi_ue I))) - of_nat (count_list us (t, n))"
    unfolding f1ap_drift_def live by (simp add: algebra_simps flip: \<open>_ = of_nat (count_list us (t, n))\<close>)
  moreover have "\<forall>i j. i < length (fi_ue I) \<and> j < length (fi_ue I) \<and> fu_rnti (fi_ue I ! i) \<noteq> 0 \<and>
        fu_rnti (fi_ue I ! i) = fu_rnti (fi_ue I ! j) \<longrightarrow> i = j"
  proof (intro allI impI)
    fix i j
    assume a: "i < length (fi_ue I) \<and> j < length (fi_ue I) \<and> fu_rnti (fi_ue I ! i) \<noteq> 0 \<and> fu_rnti (fi_ue I ! i) = fu_rnti (fi_ue I ! j)"
    then have "i \<in> f1ap_live I" "j \<in> f1ap_live I" by (auto simp: f1ap_live_def)
    then show "i = j" using a inv by (auto simp: f1ap_inst_inv_def dest: inj_onD)
  qed
  moreover have "f1ap_get_du_ue_f1ap_id S t n (fu_rnti u) = Inr (int_of_long (fu_du_ue_f1ap_id u)) \<and>
       f1ap_get_cu_ue_f1ap_id S t n (fu_rnti u) = Inr (int_of_long (fu_cu_ue_f1ap_id u)) \<and>
       (t = CUtype \<longrightarrow> fu_cu_ue_f1ap_id u = uint (fu_rnti u) \<and>
          f1ap_get_rnti_by_cu_id S t n (uint (fu_rnti u)) = Inr (uint (fu_rnti u)))"
    if u: "u \<in> set (fi_ue I)" "fu_rnti u \<noteq> 0" for u
  proof -
    obtain i where i: "i \<in> f1ap_live I" "u = fi_ue I ! i" using slot u by blast
    have "f1ap_get_rnti_by_cu_id S t n (uint (fu_rnti u)) = Inr (inst_rnti_by_cu_id I (uint (fu_rnti u)))"
      unfolding f1ap_get_rnti_by_cu_id_def by (rule f1ap_get_of [OF assms(2)])
    moreover have "t = CUtype \<Longrightarrow> fu_cu_ue_f1ap_id u = uint (fu_rnti u)" using cu i by (simp add: f1ap_cu_ids_def)
    ultimately show ?thesis
      using live_lookup [OF inv i(1)] resolves [OF i(1)] i(2)
      unfolding f1ap_get_du_ue_f1ap_id_def f1ap_get_cu_ue_f1ap_id_def f1ap_get_of [OF assms(2)] by auto
  qed
  ultimately show ?thesis
    using inv unknown_lookup [of _ I] by (simp add: f1ap_lookup_defs f1ap_get_of [OF assms(2)] f1ap_inst_inv_def)
qed

text \<open>A CU with one UE, whose RNTI is 7 and which the DU knows as 5.\<close>

definition f1ap_example_inst :: f1ap_cudu_inst where
  "f1ap_example_inst = \<lparr>fi_assoc_id = 0, fi_num_ues = 1,
     fi_ue = \<lparr>fu_rnti = 7, fu_f1ap_uid = 0, fu_du_ue_f1ap_id = 5, fu_cu_ue_f1ap_id = 7\<rparr> # replicate 39 empty_f1ap_ue\<rparr>"

definition f1ap_example :: f1ap_state where
  "f1ap_example = initial_f1ap_state\<lparr>f1_cu_inst := [Some f1ap_example_inst]\<rparr>"

lemma free_slots: "0 < k \<Longrightarrow> first_slot (\<lambda>u. fu_rnti u = r) (replicate k empty_f1ap_ue) = (if r = 0 then Some 0 else None)"
  by (cases k) (auto simp: first_slot_None empty_f1ap_ue_def)

lemma f1ap_example_history: "f1ap_history [] f1ap_example"
proof -
  let ?E = "initial_f1ap_state\<lparr>f1_cu_inst := [Some empty_f1ap_inst]\<rparr>"
  have "createF1inst initial_f1ap_state CUtype 0 0 = Inr ?E"
    by (simp add: createF1inst_def initial_f1ap_state_def NUMBER_OF_eNB_MAX_def numeral_eq_Suc)
  with start have E: "f1ap_history [] ?E" by (rule create)
  have g: "f1ap_get ?E CUtype 0 id = Inr empty_f1ap_inst" by (simp add: f1ap_get_iff f1_table_def)
  have "replicate 40 empty_f1ap_ue = empty_f1ap_ue # replicate 39 empty_f1ap_ue"
    using replicate_Suc [of 39 empty_f1ap_ue] by simp
  then have e: "empty_f1ap_inst = \<lparr>fi_assoc_id = 0, fi_num_ues = 0, fi_ue = empty_f1ap_ue # replicate 39 empty_f1ap_ue\<rparr>"
    by (simp only: empty_f1ap_inst_def MAX_MOBILES_PER_ENB_def)
  have u: "fu_rnti empty_f1ap_ue = 0"
    "empty_f1ap_ue\<lparr>fu_rnti := 7, fu_f1ap_uid := 0, fu_du_ue_f1ap_id := 5, fu_cu_ue_f1ap_id := 7\<rparr> =
       \<lparr>fu_rnti = 7, fu_f1ap_uid = 0, fu_du_ue_f1ap_id = 5, fu_cu_ue_f1ap_id = 7\<rparr>"
    by (simp_all add: empty_f1ap_ue_def)
  have "inst_add_ue empty_f1ap_inst 7 5 = (f1ap_example_inst, 0)"
    unfolding e by (simp add: inst_add_ue_def free_slots f1ap_example_inst_def u)
  then have "f1ap_add_osc_ue ?E CUtype 0 7 5 = Inr (f1ap_example, 0)"
    unfolding f1ap_add_osc_eq [OF g] by (simp add: f1ap_put_def f1ap_example_def)
  then show ?thesis by (rule add_osc [OF E])
qed

lemma f1ap_example_get: "f1ap_get f1ap_example CUtype 0 id = Inr f1ap_example_inst"
  by (simp add: f1ap_get_iff f1_table_def f1ap_example_def)

text \<open>The same after two removals of RNTI 9, which is not in the table.\<close>

definition f1ap_example_wrap :: f1ap_cudu_inst where
  "f1ap_example_wrap = f1ap_example_inst\<lparr>fi_num_ues := - 1\<rparr>"

lemma f1ap_example_wraps:
  "\<exists>S. f1ap_history [(CUtype, 0), (CUtype, 0)] S \<and> f1ap_get S CUtype 0 id = Inr f1ap_example_wrap"
proof -
  have un: "9 \<notin> fu_rnti ` set (fi_ue f1ap_example_inst)" by (simp add: f1ap_example_inst_def empty_f1ap_ue_def)
  then have none: "first_slot (\<lambda>u. fu_rnti u = 9) (fi_ue f1ap_example_inst) = None" by (auto simp: first_slot_None)
  let ?I = "f1ap_example_inst\<lparr>fi_num_ues := 0\<rparr>"
  define S1 where "S1 = f1ap_put f1ap_example CUtype 0 ?I"
  have len: "length (f1_du_inst f1ap_example) = length (f1_cu_inst f1ap_example)"
    using f1ap_history_inv [OF f1ap_example_history] by (simp add: f1ap_inv_def)
  have g1: "f1ap_get S1 CUtype 0 id = Inr ?I" using f1ap_get_put [OF len f1ap_example_get] by (simp add: S1_def)
  have "inst_remove_ue f1ap_example_inst 9 = ?I" using none by (simp add: inst_remove_ue_def) (simp add: f1ap_example_inst_def)
  then have "f1ap_remove_ue f1ap_example CUtype 0 9 = Inr (S1, 0)" using f1ap_remove_eq [OF f1ap_example_get] by (simp add: S1_def)
  from f1ap_history.remove [OF f1ap_example_history f1ap_example_get this]
  have h1: "f1ap_history [(CUtype, 0)] S1" using un by (simp split: if_splits)
  have len1: "length (f1_du_inst S1) = length (f1_cu_inst S1)" using f1ap_history_inv [OF h1] by (simp add: f1ap_inv_def)
  have "inst_remove_ue ?I 9 = f1ap_example_wrap" using none by (simp add: inst_remove_ue_def f1ap_example_wrap_def)
  then have "f1ap_remove_ue S1 CUtype 0 9 = Inr (f1ap_put S1 CUtype 0 f1ap_example_wrap, 0)" using f1ap_remove_eq [OF g1] by simp
  from f1ap_history.remove [OF h1 g1 this]
  have "f1ap_history [(CUtype, 0), (CUtype, 0)] (f1ap_put S1 CUtype 0 f1ap_example_wrap)" using un by (simp split: if_splits)
  moreover have "f1ap_get (f1ap_put S1 CUtype 0 f1ap_example_wrap) CUtype 0 id = Inr f1ap_example_wrap"
    using f1ap_get_put [OF len1 g1] by simp
  ultimately show ?thesis by blast
qed

theorem f1ap_ids_consistent_witness:
  "\<exists>S. f1ap_get S CUtype 0 id = Inr f1ap_example_wrap \<and> fi_num_ues f1ap_example_wrap = 1 - 2 \<and> unat (fi_num_ues f1ap_example_wrap) = 65535 \<and>
   f1ap_get_du_ue_f1ap_id S CUtype 0 7 = Inr 5 \<and> f1ap_get_cu_ue_f1ap_id S CUtype 0 9 = Inr (- 1)"
proof -
  obtain S where S: "f1ap_history [(CUtype, 0), (CUtype, 0)] S" "f1ap_get S CUtype 0 id = Inr f1ap_example_wrap"
    using f1ap_example_wraps by blast
  note o = f1ap_ids_consistent [OF S]
  have s: "fi_ue f1ap_example_wrap = \<lparr>fu_rnti = 7, fu_f1ap_uid = 0, fu_du_ue_f1ap_id = 5, fu_cu_ue_f1ap_id = 7\<rparr> # replicate 39 empty_f1ap_ue"
    by (simp add: f1ap_example_wrap_def f1ap_example_inst_def)
  have "9 \<notin> fu_rnti ` set (fi_ue f1ap_example_wrap)" by (simp add: s empty_f1ap_ue_def)
  moreover have "int_of_long 5 = 5" by (simp add: int_of_long_def)
  moreover have "filter (\<lambda>u. fu_rnti u \<noteq> 0) (replicate 39 empty_f1ap_ue) = []" by (simp add: filter_empty_conv empty_f1ap_ue_def)
  moreover have "unat (fi_num_ues f1ap_example_wrap) = 65535"
    by (simp add: f1ap_example_wrap_def unsigned_minus_1_eq_mask mask_eq_exp_minus_1)
  ultimately show ?thesis using o S(2) by (intro exI [of _ S]) (simp add: s)
qed

text \<open>A write to a slot that a lookup does not match before or after does not change the lookup.\<close>

lemma inst_lookup_update:
  assumes "i < length (fi_ue I)" "\<not> P (fi_ue I ! i)" "\<not> P u" "fi_ue I' = (fi_ue I)[i := u]"
  shows "inst_lookup P f I' = inst_lookup P f I"
proof (cases "first_slot P (fi_ue I)")
  case None
  have "set (fi_ue I') \<subseteq> insert u (set (fi_ue I))" unfolding assms(4) by (rule set_update_subset_insert)
  then have "first_slot P (fi_ue I') = None" using None assms(3) by (auto simp: first_slot_None)
  then show ?thesis using None by (simp add: inst_lookup_def)
next
  case (Some k)
  then have k: "k < length (fi_ue I)" "P (fi_ue I ! k)" "\<forall>j<k. \<not> P (fi_ue I ! j)" by (simp_all add: first_slot_Some)
  have ki: "k \<noteq> i" using k(2) assms(2) by blast
  have "\<not> P (fi_ue I' ! j)" if "j < k" for j using k(1,3) that assms(1,3,4) by (cases "j = i") simp_all
  then have "first_slot P (fi_ue I') = Some k" using k ki assms(4) by (simp add: first_slot_Some)
  then show ?thesis using Some ki assms(4) by (simp add: inst_lookup_def)
qed

text \<open>
  A UE that is added while a slot is free can be found by its identities:
  its RNTI leads to the identities of the DU and the CU, the identity of the DU leads to the RNTI if no UE has it, and at the CU
  so does the identity of the CU; what the lookups by RNTI return for all other UEs is unchanged.
\<close>

theorem f1ap_add_roundtrip:
  assumes "f1ap_history us S" "f1ap_get S t n id = Inr I" "r \<noteq> 0" "r \<notin> fu_rnti ` set (fi_ue I)"
    "0 \<in> fu_rnti ` set (fi_ue I)"
  shows "\<exists>S' i. f1ap_add_osc_ue S t n r du = Inr (S', int i) \<and> i < MAX_MOBILES_PER_ENB \<and>
     f1ap_get_du_ue_f1ap_id S' t n r = Inr (int_of_long du) \<and>
     f1ap_get_cu_ue_f1ap_id S' t n r = Inr (uint r) \<and>
     ((\<forall>u\<in>set (fi_ue I). fu_rnti u \<noteq> 0 \<longrightarrow> fu_du_ue_f1ap_id u \<noteq> du) \<longrightarrow>
        f1ap_get_rnti_by_du_id S' t n du = Inr (uint r)) \<and>
     (t = CUtype \<longrightarrow> f1ap_get_rnti_by_cu_id S' t n (uint r) = Inr (uint r)) \<and>
     (\<forall>r'. r' \<noteq> 0 \<and> r' \<noteq> r \<longrightarrow>
        f1ap_get_du_ue_f1ap_id S' t n r' = f1ap_get_du_ue_f1ap_id S t n r' \<and>
        f1ap_get_cu_ue_f1ap_id S' t n r' = f1ap_get_cu_ue_f1ap_id S t n r')"
proof -
  have fi: "f1ap_inv S" using f1ap_history_inv [OF assms(1)] .
  then have len: "length (f1_du_inst S) = length (f1_cu_inst S)" and inv: "f1ap_inst_inv I"
    and cu: "t = CUtype \<Longrightarrow> f1ap_cu_ids I" using assms(2) by (auto simp: f1ap_inv_def)
  have l40: "length (fi_ue I) = MAX_MOBILES_PER_ENB" using inv by (simp add: f1ap_inst_inv_def)
  obtain k where "k < length (fi_ue I)" "fu_rnti (fi_ue I ! k) = 0" using assms(5) by (auto simp: in_set_conv_nth)
  then have "f1ap_live I \<subset> {..<MAX_MOBILES_PER_ENB}" using l40 by (auto simp: f1ap_live_def)
  then have c: "card (f1ap_live I) < MAX_MOBILES_PER_ENB" using psubset_card_mono [of "{..<MAX_MOBILES_PER_ENB}"] by simp
  have "\<forall>i\<in>f1ap_live I. fu_rnti (fi_ue I ! i) \<noteq> r" using assms(4) by (auto simp: f1ap_live_def)
  from add_new [OF inv assms(3) this c, of du] obtain i where i: "i < MAX_MOBILES_PER_ENB" "i \<notin> f1ap_live I"
    and before: "\<And>j. j < i \<Longrightarrow> j \<in> f1ap_live I"
    and st: "inst_add_ue I r du = (I\<lparr>fi_ue := (fi_ue I)[i := (fi_ue I ! i)\<lparr>fu_rnti := r, fu_f1ap_uid := int i,
                                        fu_du_ue_f1ap_id := du, fu_cu_ue_f1ap_id := uint r\<rparr>],
                  fi_num_ues := fi_num_ues I + 1\<rparr>, int i)" by blast
  define u where "u = (fi_ue I ! i)\<lparr>fu_rnti := r, fu_f1ap_uid := int i, fu_du_ue_f1ap_id := du, fu_cu_ue_f1ap_id := uint r\<rparr>"
  define J where "J = fst (inst_add_ue I r du)"
  have fJ: "fi_ue J = (fi_ue I)[i := u]" using st by (simp add: J_def u_def)
  have il: "i < length (fi_ue I)" and i0: "fu_rnti (fi_ue I ! i) = 0" using i l40 by (simp_all add: f1ap_live_def)
  have Ji: "fi_ue J ! i = u" "i \<in> f1ap_live J" using il assms(3) by (simp_all add: fJ f1ap_live_def u_def)
  have invJ: "f1ap_inst_inv J" using add_inv(1) [OF inv] by (simp add: J_def)
  have old: "fi_ue J ! j = fi_ue I ! j" "fi_ue I ! j \<in> set (fi_ue I)" "fu_rnti (fi_ue I ! j) \<noteq> 0" if "j < i" for j
    using that before [OF that] il by (simp_all add: fJ f1ap_live_def)
  have du: "first_slot (\<lambda>u. fu_du_ue_f1ap_id u = du) (fi_ue J) = Some i"
    if free: "\<forall>u\<in>set (fi_ue I). fu_rnti u \<noteq> 0 \<longrightarrow> fu_du_ue_f1ap_id u \<noteq> du"
  proof -
    have "\<forall>j<i. fu_du_ue_f1ap_id (fi_ue J ! j) \<noteq> du" using old free by simp
    then show ?thesis using il Ji(1) by (simp add: first_slot_Some fJ u_def)
  qed
  have cid: "first_slot (\<lambda>u. fu_cu_ue_f1ap_id u = uint r) (fi_ue J) = Some i" if "t = CUtype"
  proof -
    have "fu_cu_ue_f1ap_id (fi_ue J ! j) \<noteq> uint r" if "j < i" for j
      using cu [OF \<open>t = CUtype\<close>] before [OF that] old [OF that] assms(4)
      by (auto simp: f1ap_cu_ids_def word_uint_eq_iff [symmetric])
    then show ?thesis using il Ji(1) by (simp add: first_slot_Some fJ u_def)
  qed
  have others: "inst_du_id J r' = inst_du_id I r'" "inst_cu_id J r' = inst_cu_id I r'" if "r' \<noteq> 0" "r' \<noteq> r" for r'
    unfolding inst_du_id_def inst_cu_id_def using that i0
    by (auto intro!: inst_lookup_update [OF il _ _ fJ] simp: u_def)
  have "f1ap_get (f1ap_put S t n J) t n id = Inr J" using f1ap_get_put [OF len assms(2)] by simp
  note g = f1ap_get_of [OF this] f1ap_get_of [OF assms(2)]
  have "inst_du_id J r = int_of_long du" "inst_cu_id J r = uint r"
    using live_lookup [OF invJ Ji(2)] unfolding Ji(1) by (simp_all add: u_def)
  moreover have "(\<forall>u\<in>set (fi_ue I). fu_rnti u \<noteq> 0 \<longrightarrow> fu_du_ue_f1ap_id u \<noteq> du) \<longrightarrow> inst_rnti_by_du_id J du = uint r"
    using du Ji(1) by (auto simp: inst_lookup_defs u_def)
  moreover have "t = CUtype \<longrightarrow> f1ap_get_rnti_by_cu_id (f1ap_put S t n J) t n (uint r) = Inr (uint r)"
  proof
    assume "t = CUtype"
    then have "inst_rnti_by_cu_id J (uint r) = uint r" using cid Ji(1) by (simp add: inst_lookup_defs u_def)
    then show "f1ap_get_rnti_by_cu_id (f1ap_put S t n J) t n (uint r) = Inr (uint r)" unfolding f1ap_get_rnti_by_cu_id_def g(1) by simp
  qed
  moreover have "f1ap_add_osc_ue S t n r du = Inr (f1ap_put S t n J, int i)"
    using f1ap_add_osc_eq [OF assms(2)] st by (simp add: J_def)
  ultimately show ?thesis
    using i(1) others by (intro exI [of _ "f1ap_put S t n J"] exI [of _ i]) (simp add: f1ap_get_du_ue_f1ap_id_def f1ap_get_cu_ue_f1ap_id_def f1ap_get_rnti_by_du_id_def g)
qed

theorem f1ap_add_roundtrip_witness:
  "\<exists>S'. f1ap_add_osc_ue f1ap_example CUtype 0 8 6 = Inr (S', 1) \<and> f1ap_get_rnti_by_du_id S' CUtype 0 6 = Inr 8 \<and>
     f1ap_get_du_ue_f1ap_id S' CUtype 0 7 = Inr 5"
proof -
  have s: "fi_ue f1ap_example_inst = \<lparr>fu_rnti = 7, fu_f1ap_uid = 0, fu_du_ue_f1ap_id = 5, fu_cu_ue_f1ap_id = 7\<rparr> # replicate 39 empty_f1ap_ue"
    by (simp add: f1ap_example_inst_def)
  have "8 \<notin> fu_rnti ` set (fi_ue f1ap_example_inst)" "0 \<in> fu_rnti ` set (fi_ue f1ap_example_inst)"
    and free: "\<forall>u\<in>set (fi_ue f1ap_example_inst). fu_rnti u \<noteq> 0 \<longrightarrow> fu_du_ue_f1ap_id u \<noteq> 6"
    by (simp_all add: s empty_f1ap_ue_def)
  note o = f1ap_add_roundtrip [OF f1ap_example_history f1ap_example_get _ \<open>8 \<notin> fu_rnti ` set (fi_ue f1ap_example_inst)\<close>
      \<open>0 \<in> fu_rnti ` set (fi_ue f1ap_example_inst)\<close>]
  have "snd (inst_add_ue f1ap_example_inst 8 6) = 1" by (simp add: inst_add_ue_def s free_slots)
  moreover have "inst_du_id f1ap_example_inst 7 = 5" by (simp add: inst_lookup_defs s int_of_long_def)
  ultimately show ?thesis
    using o [of 6] free f1ap_add_osc_eq [OF f1ap_example_get, of 8 6] f1ap_get_of [OF f1ap_example_get, of "\<lambda>I. inst_du_id I 7"]
    by (auto simp: f1ap_get_du_ue_f1ap_id_def)
qed

text \<open>
  Removal.  A UE that is in the table goes: its RNTI is unknown, and the lookups
  by RNTI for all other UEs are unchanged; but only the RNTI of the slot is cleared, so a DU or CU identity that
  led to the UE now leads to RNTI 0 and not to the -1 of an unknown identity.  \<open>num_ues\<close> is one less, also
  for an RNTI that is not in the table, and wraps around at 0.
\<close>

theorem f1ap_remove_outcome:
  assumes "f1ap_history us S" "f1ap_get S t n id = Inr I" "r \<noteq> 0"
  shows "\<exists>S' I'. f1ap_remove_ue S t n r = Inr (S', 0) \<and> f1ap_get S' t n id = Inr I' \<and>
     fi_num_ues I' = fi_num_ues I - 1 \<and>
     (if r \<in> fu_rnti ` set (fi_ue I)
      then f1ap_get_du_ue_f1ap_id S' t n r = Inr (- 1) \<and> f1ap_get_cu_ue_f1ap_id S' t n r = Inr (- 1) \<and>
        (\<forall>r'. r' \<noteq> 0 \<and> r' \<noteq> r \<longrightarrow>
          f1ap_get_du_ue_f1ap_id S' t n r' = f1ap_get_du_ue_f1ap_id S t n r' \<and>
          f1ap_get_cu_ue_f1ap_id S' t n r' = f1ap_get_cu_ue_f1ap_id S t n r') \<and>
        (\<forall>du. f1ap_get_rnti_by_du_id S t n du = Inr (uint r) \<longrightarrow> f1ap_get_rnti_by_du_id S' t n du = Inr 0) \<and>
        (\<forall>cu. f1ap_get_rnti_by_cu_id S t n cu = Inr (uint r) \<longrightarrow> f1ap_get_rnti_by_cu_id S' t n cu = Inr 0)
      else fi_ue I' = fi_ue I)"
proof -
  have len: "length (f1_du_inst S) = length (f1_cu_inst S)" and inv: "f1ap_inst_inv I"
    using f1ap_history_inv [OF assms(1)] assms(2) by (auto simp: f1ap_inv_def)
  define J where "J = inst_remove_ue I r"
  have gJ: "f1ap_get (f1ap_put S t n J) t n id = Inr J" using f1ap_get_put [OF len assms(2)] by simp
  note g = f1ap_get_of [OF gJ] f1ap_get_of [OF assms(2)]
  have rem: "f1ap_remove_ue S t n r = Inr (f1ap_put S t n J, 0)" using f1ap_remove_eq [OF assms(2)] by (simp add: J_def)
  have nu: "fi_num_ues J = fi_num_ues I - 1" by (simp add: J_def inst_remove_ue_def split: option.split)
  show ?thesis
  proof (cases "r \<in> fu_rnti ` set (fi_ue I)")
    case False
    then have "first_slot (\<lambda>u. fu_rnti u = r) (fi_ue I) = None" by (auto simp: first_slot_None)
    then have "fi_ue J = fi_ue I" by (simp add: J_def inst_remove_ue_def)
    then show ?thesis using rem gJ nu False by auto
  next
    case True
    obtain i where i: "i \<in> f1ap_live I" "fu_rnti (fi_ue I ! i) = r" using rnti_live [OF True assms(3)] .
    note rk = remove_known [OF inv i]
    have il: "i < length (fi_ue I)" using i(1) by (simp add: f1ap_live_def)
    have fJ: "fi_ue J = (fi_ue I)[i := (fi_ue I ! i)\<lparr>fu_rnti := 0\<rparr>]" using rk(1) by (simp add: J_def)
    have "r \<notin> fu_rnti ` set (fi_ue J)"
    proof
      assume "r \<in> fu_rnti ` set (fi_ue J)"
      then obtain j where j: "j < length (fi_ue I)" "fu_rnti (fi_ue J ! j) = r" by (auto simp: in_set_conv_nth fJ)
      then have "j \<noteq> i" using il assms(3) by (auto simp: fJ)
      then have "j \<in> f1ap_live I" "fu_rnti (fi_ue I ! j) = r" using j assms(3) by (simp_all add: fJ f1ap_live_def)
      then show False using inv i \<open>j \<noteq> i\<close> by (auto simp: f1ap_inst_inv_def dest: inj_onD)
    qed
    then have "inst_du_id J r = - 1" "inst_cu_id J r = - 1" by (rule unknown_lookup)+
    moreover have "inst_du_id J r' = inst_du_id I r'" "inst_cu_id J r' = inst_cu_id I r'" if "r' \<noteq> 0" "r' \<noteq> r" for r'
      unfolding inst_du_id_def inst_cu_id_def using that i(2)
      by (auto intro!: inst_lookup_update [OF il _ _ fJ])
    moreover have gone: "inst_lookup (\<lambda>u. f u = x) (\<lambda>u. uint (fu_rnti u)) J = 0"
      if found: "inst_lookup (\<lambda>u. f u = x) (\<lambda>u. uint (fu_rnti u)) I = uint r" and same: "f ((fi_ue I ! i)\<lparr>fu_rnti := 0\<rparr>) = f (fi_ue I ! i)"
      for f :: "f1ap_cudu_ue \<Rightarrow> int" and x
    proof -
      have "uint r \<noteq> - 1" using uint_ge_0 [of r] by linarith
      then obtain k where k: "first_slot (\<lambda>u. f u = x) (fi_ue I) = Some k" "fu_rnti (fi_ue I ! k) = r"
        using found by (auto simp: inst_lookup_def word_uint_eq_iff split: option.splits)
      then have "k \<in> f1ap_live I" using assms(3) by (simp add: first_slot_Some f1ap_live_def)
      then have ki: "k = i" using inv i k(2) by (auto simp: f1ap_inst_inv_def dest: inj_onD)
      then have "first_slot (\<lambda>u. f u = x) (fi_ue J) = Some i" using k(1) ki same il by (simp add: first_slot_Some fJ)
      then show ?thesis using il by (simp add: inst_lookup_def fJ)
    qed
    ultimately show ?thesis
      using True rem gJ nu by (intro exI [of _ "f1ap_put S t n J"] exI [of _ J])
        (simp add: f1ap_lookup_defs g inst_rnti_by_du_id_def inst_rnti_by_cu_id_def)
  qed
qed

theorem f1ap_remove_outcome_witness:
  "\<exists>S'. f1ap_remove_ue f1ap_example CUtype 0 7 = Inr (S', 0) \<and> f1ap_get_du_ue_f1ap_id S' CUtype 0 7 = Inr (- 1) \<and>
     f1ap_get_rnti_by_du_id f1ap_example CUtype 0 5 = Inr 7 \<and> f1ap_get_rnti_by_du_id S' CUtype 0 5 = Inr 0"
proof -
  have s: "fi_ue f1ap_example_inst = \<lparr>fu_rnti = 7, fu_f1ap_uid = 0, fu_du_ue_f1ap_id = 5, fu_cu_ue_f1ap_id = 7\<rparr> # replicate 39 empty_f1ap_ue"
    by (simp add: f1ap_example_inst_def)
  have "inst_rnti_by_du_id f1ap_example_inst 5 = 7" by (simp add: inst_lookup_defs s int_of_long_def)
  then have "f1ap_get_rnti_by_du_id f1ap_example CUtype 0 5 = Inr 7"
    by (simp add: f1ap_get_rnti_by_du_id_def f1ap_get_of [OF f1ap_example_get])
  moreover have "7 \<in> fu_rnti ` set (fi_ue f1ap_example_inst)" by (simp add: s)
  ultimately show ?thesis using f1ap_remove_outcome [OF f1ap_example_history f1ap_example_get, of 7] by auto
qed

end
