(* ===== verification/Hash_Table.thy ===== *)
theory Hash_Table
  imports Prelude
begin

text \<open>
  The hash table of \<open>common/utils/hashtable/hashtable.c\<close>, in which RRC keeps the identities of UEs on the NG
  interface.  A table is an array of chains; a chain is the list of its nodes, the newest first.  A datum is a
  pointer: \<open>None\<close> is \<open>NULL\<close>, else the address of an object.  Every operation returns, beside the code, the objects
  that its calls of \<open>freefunc\<close> release, in order.  Allocation succeeds.
\<close>

subsection \<open>Data\<close>

datatype hashtable_rc =
    HASH_TABLE_OK
  | HASH_TABLE_INSERT_OVERWRITTEN_DATA
  | HASH_TABLE_KEY_NOT_EXISTS
  | HASH_TABLE_KEY_ALREADY_EXISTS
  | HASH_TABLE_BAD_PARAMETER_HASHTABLE
  | HASH_TABLE_SYSTEM_ERROR

record hash_node =
  hn_key :: u64
  hn_data :: "nat option"

text \<open>\<open>ht_freefunc\<close> gives the objects that a call of the function with a pointer releases.\<close>

record hash_table =
  ht_size :: u64
  ht_nodes :: "hash_node list list"
  ht_hashfunc :: "u64 \<Rightarrow> u64"
  ht_freefunc :: "nat \<Rightarrow> nat list"

definition hashtable_rc_code2string :: "hashtable_rc \<Rightarrow> string" where
  "hashtable_rc_code2string rc =
     (case rc of
        HASH_TABLE_OK \<Rightarrow> ''HASH_TABLE_OK''
      | HASH_TABLE_INSERT_OVERWRITTEN_DATA \<Rightarrow> ''HASH_TABLE_INSERT_OVERWRITTEN_DATA''
      | HASH_TABLE_KEY_NOT_EXISTS \<Rightarrow> ''HASH_TABLE_KEY_NOT_EXISTS''
      | HASH_TABLE_KEY_ALREADY_EXISTS \<Rightarrow> ''HASH_TABLE_KEY_ALREADY_EXISTS''
      | HASH_TABLE_BAD_PARAMETER_HASHTABLE \<Rightarrow> ''HASH_TABLE_BAD_PARAMETER_HASHTABLE''
      | _ \<Rightarrow> ''UNKNOWN hashtable_rc_t'')"

definition hash_free_int_func :: "nat \<Rightarrow> nat list" where
  "hash_free_int_func memory = []"

text \<open>The \<open>free\<close> of the C library.\<close>

definition libc_free :: "nat \<Rightarrow> nat list" where
  "libc_free memory = [memory]"

definition def_hashfunc :: "u64 \<Rightarrow> u64" where
  "def_hashfunc key = key"

subsection \<open>Operations\<close>

definition hashtable_create :: "u64 \<Rightarrow> (u64 \<Rightarrow> u64) option \<Rightarrow> (nat \<Rightarrow> nat list) option \<Rightarrow> hash_table" where
  "hashtable_create n hashfunc freefunc =
     \<lparr>ht_size = n, ht_nodes = replicate (unat n) [],
      ht_hashfunc = (case hashfunc of Some h \<Rightarrow> h | None \<Rightarrow> def_hashfunc),
      ht_freefunc = (case freefunc of Some f \<Rightarrow> f | None \<Rightarrow> libc_free)\<rparr>"

text \<open>The index of the chain of a key; a table of size 0 divides by zero.\<close>

definition hash_chain :: "hash_table \<Rightarrow> u64 \<Rightarrow> nat res" where
  "hash_chain t key =
     bnd (guard (ht_size t \<noteq> 0) DivByZero) (\<lambda>_.
     let hash = unat (ht_hashfunc t key mod ht_size t)
     in bnd (guard (hash < length (ht_nodes t)) OutOfBounds) (\<lambda>_. Inr hash))"

definition free_data :: "(nat \<Rightarrow> nat list) \<Rightarrow> nat option \<Rightarrow> nat list" where
  "free_data freefunc d = (case d of Some p \<Rightarrow> freefunc p | None \<Rightarrow> [])"

text \<open>The walks along a chain: to the node of a key, to overwrite its datum, and to unlink it.\<close>

fun chain_find :: "u64 \<Rightarrow> hash_node list \<Rightarrow> hash_node option" where
  "chain_find key [] = None"
| "chain_find key (node # rest) = (if hn_key node = key then Some node else chain_find key rest)"

fun chain_overwrite :: "u64 \<Rightarrow> nat option \<Rightarrow> hash_node list \<Rightarrow> hash_node list" where
  "chain_overwrite key d [] = []"
| "chain_overwrite key d (node # rest) =
     (if hn_key node = key then node\<lparr>hn_data := d\<rparr> # rest else node # chain_overwrite key d rest)"

fun chain_unlink :: "u64 \<Rightarrow> hash_node list \<Rightarrow> hash_node list" where
  "chain_unlink key [] = []"
| "chain_unlink key (node # rest) = (if hn_key node = key then rest else node # chain_unlink key rest)"

definition hashtable_destroy :: "hash_table option \<Rightarrow> (hash_table option \<times> hashtable_rc \<times> nat list) res" where
  "hashtable_destroy tp =
     (case tp of
        None \<Rightarrow> Inr (None, HASH_TABLE_BAD_PARAMETER_HASHTABLE, [])
      | Some t \<Rightarrow>
          bnd (guard (unat (ht_size t) \<le> length (ht_nodes t)) OutOfBounds) (\<lambda>_.
            Inr (None, HASH_TABLE_OK,
                 concat (map (\<lambda>node. free_data (ht_freefunc t) (hn_data node)) (concat (take (unat (ht_size t)) (ht_nodes t)))))))"

definition hashtable_is_key_exists :: "hash_table option \<Rightarrow> u64 \<Rightarrow> hashtable_rc res" where
  "hashtable_is_key_exists tp key =
     (case tp of
        None \<Rightarrow> Inr HASH_TABLE_BAD_PARAMETER_HASHTABLE
      | Some t \<Rightarrow> bnd (hash_chain t key) (\<lambda>hash.
          Inr (if chain_find key (ht_nodes t ! hash) = None then HASH_TABLE_KEY_NOT_EXISTS else HASH_TABLE_OK)))"

definition hashtable_insert ::
    "hash_table option \<Rightarrow> u64 \<Rightarrow> nat option \<Rightarrow> (hash_table option \<times> hashtable_rc \<times> nat list) res" where
  "hashtable_insert tp key d =
     (case tp of
        None \<Rightarrow> Inr (None, HASH_TABLE_BAD_PARAMETER_HASHTABLE, [])
      | Some t \<Rightarrow> bnd (hash_chain t key) (\<lambda>hash.
          let chain = ht_nodes t ! hash in
          case chain_find key chain of
            Some node \<Rightarrow>
              Inr (Some (t\<lparr>ht_nodes := (ht_nodes t)[hash := chain_overwrite key d chain]\<rparr>),
                   HASH_TABLE_INSERT_OVERWRITTEN_DATA, free_data (ht_freefunc t) (hn_data node))
          | None \<Rightarrow>
              Inr (Some (t\<lparr>ht_nodes := (ht_nodes t)[hash := \<lparr>hn_key = key, hn_data = d\<rparr> # chain]\<rparr>), HASH_TABLE_OK, [])))"

definition hashtable_remove :: "hash_table option \<Rightarrow> u64 \<Rightarrow> (hash_table option \<times> hashtable_rc \<times> nat list) res" where
  "hashtable_remove tp key =
     (case tp of
        None \<Rightarrow> Inr (None, HASH_TABLE_BAD_PARAMETER_HASHTABLE, [])
      | Some t \<Rightarrow> bnd (hash_chain t key) (\<lambda>hash.
          let chain = ht_nodes t ! hash in
          case chain_find key chain of
            Some node \<Rightarrow>
              Inr (Some (t\<lparr>ht_nodes := (ht_nodes t)[hash := chain_unlink key chain]\<rparr>),
                   HASH_TABLE_OK, free_data (ht_freefunc t) (hn_data node))
          | None \<Rightarrow> Inr (Some t, HASH_TABLE_KEY_NOT_EXISTS, [])))"

definition hashtable_get :: "hash_table option \<Rightarrow> u64 \<Rightarrow> (nat option \<times> hashtable_rc) res" where
  "hashtable_get tp key =
     (case tp of
        None \<Rightarrow> Inr (None, HASH_TABLE_BAD_PARAMETER_HASHTABLE)
      | Some t \<Rightarrow> bnd (hash_chain t key) (\<lambda>hash.
          Inr (case chain_find key (ht_nodes t ! hash) of
                 Some node \<Rightarrow> (hn_data node, HASH_TABLE_OK)
               | None \<Rightarrow> (None, HASH_TABLE_KEY_NOT_EXISTS))))"

text \<open>
  The dump.  \<open>snprintf\<close> writes at most its size argument, the terminating zero included, and returns the length
  of the whole text; here every call writes to the start of the buffer and the length replaces the space that
  remains.  \<open>line\<close> gives the text of a node, in which \<open>%p\<close> is up to the C library.  The index of the loop has 32
  bits, which is enough for a table of less than \<open>2 ^ 32\<close> chains, as all of the program's are.
\<close>

definition snprintf :: "bytes \<Rightarrow> int \<Rightarrow> bytes \<Rightarrow> (bytes \<times> int) res" where
  "snprintf buffer n txt =
     (let k = unat (u64_of_int n) in
      if k = 0 then Inr (buffer, int (length txt))
      else bnd (memcpy_at buffer 0 (take (k - 1) txt @ [0])) (\<lambda>b. Inr (b, int (length txt))))"

fun dump_chain :: "(u64 \<Rightarrow> nat option \<Rightarrow> bytes) \<Rightarrow> hash_node list \<Rightarrow> bytes \<Rightarrow> int \<Rightarrow> (bytes \<times> int) res" where
  "dump_chain line [] buffer remaining = Inr (buffer, remaining)"
| "dump_chain line (node # rest) buffer remaining =
     bnd (snprintf buffer remaining (line (hn_key node) (hn_data node))) (\<lambda>(b, r). dump_chain line rest b r)"

fun dump_chains :: "(u64 \<Rightarrow> nat option \<Rightarrow> bytes) \<Rightarrow> hash_node list list \<Rightarrow> bytes \<Rightarrow> int \<Rightarrow> (bytes \<times> int) res" where
  "dump_chains line [] buffer remaining = Inr (buffer, remaining)"
| "dump_chains line (chain # rest) buffer remaining =
     (if remaining > 0
      then bnd (dump_chain line chain buffer remaining) (\<lambda>(b, r). dump_chains line rest b r)
      else Inr (buffer, remaining))"

definition ascii :: "string \<Rightarrow> bytes" where
  "ascii s = map (\<lambda>c. of_nat (of_char c)) s"

definition hashtable_dump_content ::
    "(u64 \<Rightarrow> nat option \<Rightarrow> bytes) \<Rightarrow> hash_table option \<Rightarrow> bytes \<Rightarrow> int \<Rightarrow> (bytes \<times> int \<times> hashtable_rc) res" where
  "hashtable_dump_content line tp buffer remaining =
     (case tp of
        None \<Rightarrow>
          bnd (snprintf buffer remaining (ascii ''HASH_TABLE_BAD_PARAMETER_HASHTABLE'')) (\<lambda>(b, r).
            Inr (b, r, HASH_TABLE_BAD_PARAMETER_HASHTABLE))
      | Some t \<Rightarrow>
          bnd (guard (unat (ht_size t) \<le> length (ht_nodes t)) OutOfBounds) (\<lambda>_.
          bnd (dump_chains line (take (unat (ht_size t)) (ht_nodes t)) buffer remaining) (\<lambda>(b, r).
            Inr (b, r, HASH_TABLE_OK))))"

subsection \<open>The contract of a dictionary\<close>

text \<open>
  What the users of a table rely on: it behaves as a partial map from keys to data, and an object it was given is
  either held or was released, never both and never twice.  \<open>cost\<close> gives the objects that the release of a datum
  releases.
\<close>

locale dictionary =
  fixes invar :: "'t \<Rightarrow> bool" and mapping_of :: "'t \<Rightarrow> 'k \<Rightarrow> 'd option" and held :: "'t \<Rightarrow> nat multiset"
    and cost :: "'d \<Rightarrow> nat multiset"
    and insert_op :: "'t \<Rightarrow> 'k \<Rightarrow> 'd \<Rightarrow> ('t \<times> hashtable_rc \<times> nat list) res"
    and remove_op :: "'t \<Rightarrow> 'k \<Rightarrow> ('t \<times> hashtable_rc \<times> nat list) res"
  assumes insert_law: "invar t \<Longrightarrow> \<exists>t' fr.
      insert_op t k d = Inr (t', if mapping_of t k = None then HASH_TABLE_OK else HASH_TABLE_INSERT_OVERWRITTEN_DATA, fr) \<and>
      invar t' \<and> mapping_of t' = (mapping_of t)(k \<mapsto> d) \<and> held t' + mset fr = held t + cost d \<and>
      mset fr = (case mapping_of t k of Some d' \<Rightarrow> cost d' | None \<Rightarrow> {#})"
    and remove_law: "invar t \<Longrightarrow> \<exists>t' fr.
      remove_op t k = Inr (t', if mapping_of t k = None then HASH_TABLE_KEY_NOT_EXISTS else HASH_TABLE_OK, fr) \<and>
      invar t' \<and> mapping_of t' = (mapping_of t)(k := None) \<and> held t' + mset fr = held t \<and>
      mset fr = (case mapping_of t k of Some d' \<Rightarrow> cost d' | None \<Rightarrow> {#})"

text \<open>A sequence of insertions and removals, on a table and on the map it stands for.\<close>

datatype ('k, 'd) dict_op = Dict_Insert 'k 'd | Dict_Remove 'k

fun dict_run :: "('t \<Rightarrow> 'k \<Rightarrow> 'd \<Rightarrow> ('t \<times> hashtable_rc \<times> nat list) res) \<Rightarrow>
    ('t \<Rightarrow> 'k \<Rightarrow> ('t \<times> hashtable_rc \<times> nat list) res) \<Rightarrow> 't \<Rightarrow> ('k, 'd) dict_op list \<Rightarrow> ('t \<times> nat list) res" where
  "dict_run ins rem t [] = Inr (t, [])"
| "dict_run ins rem t (x # xs) =
     bnd (case x of Dict_Insert k d \<Rightarrow> ins t k d | Dict_Remove k \<Rightarrow> rem t k) (\<lambda>(t1, _, fr).
     bnd (dict_run ins rem t1 xs) (\<lambda>(t2, fr2). Inr (t2, fr @ fr2)))"

fun dict_step :: "('k \<rightharpoonup> 'd) \<Rightarrow> ('k, 'd) dict_op \<Rightarrow> ('k \<rightharpoonup> 'd)" where
  "dict_step m (Dict_Insert k d) = m(k \<mapsto> d)"
| "dict_step m (Dict_Remove k) = m(k := None)"

fun dict_given :: "('d \<Rightarrow> nat multiset) \<Rightarrow> ('k, 'd) dict_op list \<Rightarrow> nat multiset" where
  "dict_given cost [] = {#}"
| "dict_given cost (Dict_Insert k d # xs) = cost d + dict_given cost xs"
| "dict_given cost (Dict_Remove k # xs) = dict_given cost xs"

context dictionary
begin

lemma run_refines:
  "invar t \<Longrightarrow> \<exists>t' fr. dict_run insert_op remove_op t xs = Inr (t', fr) \<and> invar t' \<and>
     mapping_of t' = foldl dict_step (mapping_of t) xs \<and> held t' + mset fr = held t + dict_given cost xs"
proof (induction xs arbitrary: t)
  case (Cons x xs)
  obtain t1 rc fr1 where 1: "(case x of Dict_Insert k d \<Rightarrow> insert_op t k d | Dict_Remove k \<Rightarrow> remove_op t k) = Inr (t1, rc, fr1)"
    "invar t1" "mapping_of t1 = dict_step (mapping_of t) x" "held t1 + mset fr1 = held t + dict_given cost [x]"
  proof (cases x)
    case (Dict_Insert k d)
    then show thesis using that insert_law [OF Cons.prems, of k d] by auto
  next
    case (Dict_Remove k)
    then show thesis using that remove_law [OF Cons.prems, of k] by auto
  qed
  obtain t2 fr2 where 2: "dict_run insert_op remove_op t1 xs = Inr (t2, fr2)" "invar t2"
    "mapping_of t2 = foldl dict_step (mapping_of t1) xs" "held t2 + mset fr2 = held t1 + dict_given cost xs"
    using Cons.IH [OF 1(2)] by auto
  have "dict_given cost (x # xs) = dict_given cost [x] + dict_given cost xs" by (cases x) simp_all
  moreover have "held t2 + mset (fr1 @ fr2) = (held t2 + mset fr2) + mset fr1" by (simp add: ac_simps)
  ultimately have "held t2 + mset (fr1 @ fr2) = held t + dict_given cost (x # xs)"
    unfolding 2(4) using 1(4) by (simp add: ac_simps)
  then show ?case using 1 2 by simp
qed simp

end

subsection \<open>The table is a dictionary\<close>

definition ht_index :: "hash_table \<Rightarrow> u64 \<Rightarrow> nat" where
  "ht_index t key = unat (ht_hashfunc t key mod ht_size t)"

definition ht_inv :: "hash_table \<Rightarrow> bool" where
  "ht_inv t \<longleftrightarrow> ht_size t \<noteq> 0 \<and> length (ht_nodes t) = unat (ht_size t) \<and>
     (\<forall>i<length (ht_nodes t). distinct (map hn_key (ht_nodes t ! i)) \<and> (\<forall>n\<in>set (ht_nodes t ! i). ht_index t (hn_key n) = i))"

definition ht_map :: "hash_table \<Rightarrow> u64 \<Rightarrow> nat option option" where
  "ht_map t key = map_option hn_data (chain_find key (ht_nodes t ! ht_index t key))"

definition chain_held :: "(nat \<Rightarrow> nat list) \<Rightarrow> hash_node list \<Rightarrow> nat multiset" where
  "chain_held f c = (\<Sum>n\<leftarrow>c. mset (free_data f (hn_data n)))"

definition ht_held :: "hash_table \<Rightarrow> nat multiset" where
  "ht_held t = (\<Sum>c\<leftarrow>ht_nodes t. chain_held (ht_freefunc t) c)"

lemma chain_find_None: "chain_find k c = None \<longleftrightarrow> k \<notin> hn_key ` set c"
  by (induction c) auto

lemma chain_find_Some: "chain_find k c = Some n \<Longrightarrow> n \<in> set c \<and> hn_key n = k"
  by (induction c) (auto split: if_splits)

lemma chain_find_overwrite:
  "chain_find k' (chain_overwrite k d c) =
     (if k' = k then map_option (\<lambda>n. n\<lparr>hn_data := d\<rparr>) (chain_find k c) else chain_find k' c)"
  by (induction c) auto

lemma chain_find_unlink:
  "distinct (map hn_key c) \<Longrightarrow> chain_find k' (chain_unlink k c) = (if k' = k then None else chain_find k' c)"
  by (induction c) (auto simp: chain_find_None)

lemma chain_keys_overwrite [simp]: "map hn_key (chain_overwrite k d c) = map hn_key c"
  by (induction c) auto

lemma chain_unlink_subset: "set (chain_unlink k c) \<subseteq> set c"
  by (induction c) auto

lemma chain_unlink_distinct: "distinct (map hn_key c) \<Longrightarrow> distinct (map hn_key (chain_unlink k c))"
  using chain_unlink_subset by (induction c) fastforce+

lemma chain_held_overwrite:
  "chain_find k c = Some n \<Longrightarrow>
   chain_held f (chain_overwrite k d c) + mset (free_data f (hn_data n)) = chain_held f c + mset (free_data f d)"
  by (induction c) (auto simp: chain_held_def ac_simps split: if_splits)

lemma chain_held_unlink:
  "chain_find k c = Some n \<Longrightarrow> chain_held f (chain_unlink k c) + mset (free_data f (hn_data n)) = chain_held f c"
  by (induction c) (auto simp: chain_held_def ac_simps split: if_splits)

lemma sum_list_update_mset:
  fixes f :: "'a \<Rightarrow> 'b multiset"
  shows "i < length xs \<Longrightarrow> (\<Sum>x\<leftarrow>xs[i := y]. f x) + f (xs ! i) = (\<Sum>x\<leftarrow>xs. f x) + f y"
proof (induction xs arbitrary: i)
  case (Cons x xs)
  then show ?case by (cases i) (auto simp: ac_simps)
qed simp

lemma mset_exchange:
  fixes X :: "'a multiset"
  assumes "X' + H = X + C" "C + n = H + d"
  shows "X' + n = X + d"
proof -
  have "(X' + n) + H = (X + C) + n" using assms(1) by (simp add: ac_simps)
  also have "\<dots> = (X + d) + H" using assms(2) by (simp add: ac_simps)
  finally show ?thesis by simp
qed

text \<open>What a write to the chain of a key does.\<close>

lemma hash_chain_eq: "ht_inv t \<Longrightarrow> hash_chain t k = Inr (ht_index t k) \<and> ht_index t k < length (ht_nodes t)"
proof -
  assume inv: "ht_inv t"
  then have "ht_hashfunc t k mod ht_size t < ht_size t" by (simp add: ht_inv_def word_gt_0 word_mod_less_divisor)
  then have "ht_index t k < length (ht_nodes t)" using inv by (simp add: ht_index_def ht_inv_def unat_mono)
  then show ?thesis using inv by (simp add: hash_chain_def ht_inv_def ht_index_def)
qed

lemma ht_index_write [simp]: "ht_index (t\<lparr>ht_nodes := ns\<rparr>) = ht_index t"
  by (simp add: ht_index_def fun_eq_iff)

lemma ht_write_inv:
  assumes "ht_inv t" "distinct (map hn_key c)" "\<forall>n\<in>set c. ht_index t (hn_key n) = ht_index t k"
  shows "ht_inv (t\<lparr>ht_nodes := (ht_nodes t)[ht_index t k := c]\<rparr>)"
proof -
  have "distinct (map hn_key ((ht_nodes t)[ht_index t k := c] ! i)) \<and>
      (\<forall>n\<in>set ((ht_nodes t)[ht_index t k := c] ! i). ht_index t (hn_key n) = i)" if "i < length (ht_nodes t)" for i
    using assms that by (cases "i = ht_index t k") (simp_all add: ht_inv_def)
  then show ?thesis using assms(1) by (simp add: ht_inv_def)
qed

lemma ht_write_map:
  assumes "ht_inv t" "\<forall>k'. ht_index t k' = ht_index t k \<longrightarrow>
    map_option hn_data (chain_find k' c) = (if k' = k then v else ht_map t k')"
  shows "ht_map (t\<lparr>ht_nodes := (ht_nodes t)[ht_index t k := c]\<rparr>) = (ht_map t)(k := v)"
  using assms hash_chain_eq [OF assms(1), of k] by (auto simp: ht_map_def fun_eq_iff nth_list_update)

lemma ht_write_held:
  assumes "ht_inv t"
  shows "ht_held (t\<lparr>ht_nodes := (ht_nodes t)[ht_index t k := c]\<rparr>) + chain_held (ht_freefunc t) (ht_nodes t ! ht_index t k) =
    ht_held t + chain_held (ht_freefunc t) c"
  using sum_list_update_mset [of "ht_index t k" "ht_nodes t" "chain_held (ht_freefunc t)" c] hash_chain_eq [OF assms]
  by (simp add: ht_held_def)

lemma ht_chain:
  assumes "ht_inv t"
  shows "distinct (map hn_key (ht_nodes t ! ht_index t k))"
    "\<forall>n\<in>set (ht_nodes t ! ht_index t k). ht_index t (hn_key n) = ht_index t k"
  using assms hash_chain_eq [OF assms, of k] by (auto simp: ht_inv_def)

lemma ht_insert_law:
  assumes "ht_inv t"
  shows "\<exists>t' fr. hashtable_insert (Some t) k d =
      Inr (Some t', if ht_map t k = None then HASH_TABLE_OK else HASH_TABLE_INSERT_OVERWRITTEN_DATA, fr) \<and>
    ht_inv t' \<and> ht_freefunc t' = ht_freefunc t \<and> ht_map t' = (ht_map t)(k \<mapsto> d) \<and>
    ht_held t' + mset fr = ht_held t + mset (free_data (ht_freefunc t) d) \<and>
    mset fr = (case ht_map t k of Some d' \<Rightarrow> mset (free_data (ht_freefunc t) d') | None \<Rightarrow> {#})"
proof (cases "chain_find k (ht_nodes t ! ht_index t k)")
  case None
  define c where "c = \<lparr>hn_key = k, hn_data = d\<rparr> # ht_nodes t ! ht_index t k"
  have "ht_map (t\<lparr>ht_nodes := (ht_nodes t)[ht_index t k := c]\<rparr>) = (ht_map t)(k \<mapsto> d)"
    by (rule ht_write_map [OF assms]) (auto simp: c_def ht_map_def)
  moreover have "ht_inv (t\<lparr>ht_nodes := (ht_nodes t)[ht_index t k := c]\<rparr>)"
    using ht_chain [OF assms, of k] None by (intro ht_write_inv [OF assms]) (auto simp: c_def chain_find_None)
  moreover have "ht_held (t\<lparr>ht_nodes := (ht_nodes t)[ht_index t k := c]\<rparr>) = ht_held t + mset (free_data (ht_freefunc t) d)"
    using ht_write_held [OF assms, of k c] by (simp add: c_def chain_held_def)
  ultimately show ?thesis
    using None hash_chain_eq [OF assms, of k] by (simp add: hashtable_insert_def ht_map_def c_def)
next
  case (Some n)
  define c where "c = chain_overwrite k d (ht_nodes t ! ht_index t k)"
  have "ht_map (t\<lparr>ht_nodes := (ht_nodes t)[ht_index t k := c]\<rparr>) = (ht_map t)(k \<mapsto> d)"
    using Some by (intro ht_write_map [OF assms]) (auto simp: c_def ht_map_def chain_find_overwrite)
  moreover have "hn_key ` set c = hn_key ` set (ht_nodes t ! ht_index t k)"
    using chain_keys_overwrite [of k d "ht_nodes t ! ht_index t k"] unfolding c_def list.set_map [symmetric] by simp
  then have "\<forall>n\<in>set c. ht_index t (hn_key n) = ht_index t k"
    using ht_chain(2) [OF assms, of k] by (metis (no_types, lifting) image_iff)
  then have "ht_inv (t\<lparr>ht_nodes := (ht_nodes t)[ht_index t k := c]\<rparr>)"
    using ht_chain(1) [OF assms, of k] by (intro ht_write_inv [OF assms]) (simp_all add: c_def)
  moreover have "ht_held (t\<lparr>ht_nodes := (ht_nodes t)[ht_index t k := c]\<rparr>) + mset (free_data (ht_freefunc t) (hn_data n)) =
      ht_held t + mset (free_data (ht_freefunc t) d)"
    using mset_exchange [OF ht_write_held [OF assms]] chain_held_overwrite [OF Some, of "ht_freefunc t" d] by (simp add: c_def)
  ultimately show ?thesis
    using Some hash_chain_eq [OF assms, of k] by (simp add: hashtable_insert_def ht_map_def c_def)
qed

lemma ht_remove_law:
  assumes "ht_inv t"
  shows "\<exists>t' fr. hashtable_remove (Some t) k =
      Inr (Some t', if ht_map t k = None then HASH_TABLE_KEY_NOT_EXISTS else HASH_TABLE_OK, fr) \<and>
    ht_inv t' \<and> ht_freefunc t' = ht_freefunc t \<and> ht_map t' = (ht_map t)(k := None) \<and>
    ht_held t' + mset fr = ht_held t \<and>
    mset fr = (case ht_map t k of Some d' \<Rightarrow> mset (free_data (ht_freefunc t) d') | None \<Rightarrow> {#})"
proof (cases "chain_find k (ht_nodes t ! ht_index t k)")
  case None
  then show ?thesis
    using hash_chain_eq [OF assms, of k] assms by (simp add: hashtable_remove_def ht_map_def fun_eq_iff)
next
  case (Some n)
  define c where "c = chain_unlink k (ht_nodes t ! ht_index t k)"
  have "ht_map (t\<lparr>ht_nodes := (ht_nodes t)[ht_index t k := c]\<rparr>) = (ht_map t)(k := None)"
    using chain_find_unlink [OF ht_chain(1) [OF assms, of k]]
    by (intro ht_write_map [OF assms]) (simp add: c_def ht_map_def)
  moreover have "ht_inv (t\<lparr>ht_nodes := (ht_nodes t)[ht_index t k := c]\<rparr>)"
    using ht_chain [OF assms, of k] chain_unlink_subset [of k "ht_nodes t ! ht_index t k"]
    by (intro ht_write_inv [OF assms]) (auto simp: c_def chain_unlink_distinct)
  moreover have "ht_held (t\<lparr>ht_nodes := (ht_nodes t)[ht_index t k := c]\<rparr>) + mset (free_data (ht_freefunc t) (hn_data n)) = ht_held t"
    using mset_exchange [OF ht_write_held [OF assms], where d = "{#}"] chain_held_unlink [OF Some, of "ht_freefunc t"]
    by (simp add: c_def)
  ultimately show ?thesis
    using Some hash_chain_eq [OF assms, of k] by (simp add: hashtable_remove_def ht_map_def c_def)
qed

lemma ht_get_law:
  "ht_inv t \<Longrightarrow> hashtable_get (Some t) k =
     Inr (case ht_map t k of Some d \<Rightarrow> (d, HASH_TABLE_OK) | None \<Rightarrow> (None, HASH_TABLE_KEY_NOT_EXISTS))"
  using hash_chain_eq [of t k] by (simp add: hashtable_get_def ht_map_def split: option.split)

lemma ht_exists_law:
  "ht_inv t \<Longrightarrow> hashtable_is_key_exists (Some t) k =
     Inr (if ht_map t k = None then HASH_TABLE_KEY_NOT_EXISTS else HASH_TABLE_OK)"
  using hash_chain_eq [of t k] by (simp add: hashtable_is_key_exists_def ht_map_def)

lemma ht_destroy_law:
  assumes "ht_inv t"
  shows "\<exists>fr. hashtable_destroy (Some t) = Inr (None, HASH_TABLE_OK, fr) \<and> mset fr = ht_held t"
proof -
  have "mset (concat (map (\<lambda>n. free_data f (hn_data n)) c)) = chain_held f c" for f c
    by (induction c) (simp_all add: chain_held_def)
  then have "mset (concat (map (\<lambda>n. free_data f (hn_data n)) (concat cs))) = (\<Sum>c\<leftarrow>cs. chain_held f c)" for f cs
    by (induction cs) simp_all
  then show ?thesis using assms by (simp add: hashtable_destroy_def ht_held_def ht_inv_def)
qed

lemma mset_replicate_empty: "sum_list (replicate n {#}) = {#}"
  by (induction n) simp_all

lemma ht_create_inv:
  assumes "0 < n"
  shows "ht_inv (hashtable_create n h f)" "ht_map (hashtable_create n h f) = Map.empty"
    "ht_held (hashtable_create n h f) = {#}"
proof -
  have "ht_index (hashtable_create n h f) k < unat n" for k
    using assms by (simp add: ht_index_def hashtable_create_def unat_mono word_mod_less_divisor)
  then show "ht_map (hashtable_create n h f) = Map.empty" by (simp add: fun_eq_iff ht_map_def) (simp add: hashtable_create_def)
  show "ht_inv (hashtable_create n h f)" using assms by (simp add: ht_inv_def) (simp add: hashtable_create_def)
  show "ht_held (hashtable_create n h f) = {#}" 
    using mset_replicate_empty [of "unat n"] by (simp add: ht_held_def hashtable_create_def chain_held_def)
qed

interpretation ht: dictionary
  "\<lambda>tp. \<exists>t. tp = Some t \<and> ht_inv t \<and> ht_freefunc t = f" "\<lambda>tp. ht_map (the tp)" "\<lambda>tp. ht_held (the tp)"
  "\<lambda>d. mset (free_data f d)" hashtable_insert hashtable_remove for f
proof unfold_locales
  fix tp k d
  assume "\<exists>t. tp = Some t \<and> ht_inv t \<and> ht_freefunc t = f"
  then show "\<exists>t' fr. hashtable_insert tp k d =
      Inr (t', if ht_map (the tp) k = None then HASH_TABLE_OK else HASH_TABLE_INSERT_OVERWRITTEN_DATA, fr) \<and>
      (\<exists>t. t' = Some t \<and> ht_inv t \<and> ht_freefunc t = f) \<and> ht_map (the t') = (ht_map (the tp))(k \<mapsto> d) \<and>
      ht_held (the t') + mset fr = ht_held (the tp) + mset (free_data f d) \<and>
      mset fr = (case ht_map (the tp) k of Some d' \<Rightarrow> mset (free_data f d') | None \<Rightarrow> {#})"
    using ht_insert_law [of "the tp" k d] by auto
next
  fix tp k
  assume "\<exists>t. tp = Some t \<and> ht_inv t \<and> ht_freefunc t = f"
  then show "\<exists>t' fr. hashtable_remove tp k =
      Inr (t', if ht_map (the tp) k = None then HASH_TABLE_KEY_NOT_EXISTS else HASH_TABLE_OK, fr) \<and>
      (\<exists>t. t' = Some t \<and> ht_inv t \<and> ht_freefunc t = f) \<and> ht_map (the t') = (ht_map (the tp))(k := None) \<and>
      ht_held (the t') + mset fr = ht_held (the tp) \<and>
      mset fr = (case ht_map (the tp) k of Some d' \<Rightarrow> mset (free_data f d') | None \<Rightarrow> {#})"
    using ht_remove_law [of "the tp" k] by auto
qed

subsection \<open>Properties\<close>

text \<open>
  C20: refinement.  After any sequence of insertions and removals a table of non-zero size, with any hash and
  release function, answers every lookup as the partial map does that the sequence builds; and when it is destroyed
  at the end, the objects released during the sequence and by the destruction are together exactly the objects it
  was given, each as often as it was given: no datum is lost and none is released twice.
\<close>

theorem hashtable_refines_map:
  assumes "0 < n"
  shows "\<exists>t fr fr'. dict_run hashtable_insert hashtable_remove (Some (hashtable_create n h f)) xs = Inr (Some t, fr) \<and>
     (\<forall>k. hashtable_get (Some t) k =
        Inr (case foldl dict_step Map.empty xs k of Some d \<Rightarrow> (d, HASH_TABLE_OK) | None \<Rightarrow> (None, HASH_TABLE_KEY_NOT_EXISTS)) \<and>
       hashtable_is_key_exists (Some t) k =
        Inr (if k \<in> dom (foldl dict_step Map.empty xs) then HASH_TABLE_OK else HASH_TABLE_KEY_NOT_EXISTS)) \<and>
     hashtable_destroy (Some t) = Inr (None, HASH_TABLE_OK, fr') \<and>
     mset (fr @ fr') = dict_given (\<lambda>d. mset (free_data (case f of Some g \<Rightarrow> g | None \<Rightarrow> libc_free) d)) xs"
proof -
  define t0 where "t0 = hashtable_create n h f"
  define g where "g = (case f of Some g \<Rightarrow> g | None \<Rightarrow> libc_free)"
  have 0: "ht_inv t0" "ht_freefunc t0 = g" "ht_map t0 = Map.empty" "ht_held t0 = {#}"
    using ht_create_inv [OF assms, of h f] by (simp_all add: t0_def g_def) (simp add: hashtable_create_def)
  obtain t fr where t: "dict_run hashtable_insert hashtable_remove (Some t0) xs = Inr (Some t, fr)" "ht_inv t"
    "ht_map t = foldl dict_step Map.empty xs" "ht_held t + mset fr = dict_given (\<lambda>d. mset (free_data g d)) xs"
    using ht.run_refines [of "Some t0" g xs] 0 by auto
  obtain fr' where fr': "hashtable_destroy (Some t) = Inr (None, HASH_TABLE_OK, fr')" "mset fr' = ht_held t"
    using ht_destroy_law [OF t(2)] by auto
  have "mset (fr @ fr') = dict_given (\<lambda>d. mset (free_data g d)) xs" using t(4) fr'(2) by (simp add: add.commute)
  moreover have "ht_map t k = None \<longleftrightarrow> k \<notin> dom (foldl dict_step Map.empty xs)" for k by (simp add: t(3) domIff)
  ultimately show ?thesis
    using t(1) fr'(1) ht_get_law [OF t(2)] ht_exists_law [OF t(2)] by (simp add: t(3) t0_def g_def)
qed

theorem hashtable_refines_map_witness:
  "\<exists>t fr fr'. dict_run hashtable_insert hashtable_remove (Some (hashtable_create 80 None None))
       [Dict_Insert 1 (Some 10), Dict_Insert 81 (Some 11), Dict_Insert 1 (Some 12), Dict_Remove 81] = Inr (Some t, fr) \<and>
     hashtable_get (Some t) 1 = Inr (Some 12, HASH_TABLE_OK) \<and> hashtable_get (Some t) 81 = Inr (None, HASH_TABLE_KEY_NOT_EXISTS) \<and>
     hashtable_destroy (Some t) = Inr (None, HASH_TABLE_OK, fr') \<and> mset (fr @ fr') = {#10, 11, 12#}"
proof -
  have "(0 :: u64) < 80" by simp
  from hashtable_refines_map [OF this, of None None
      "[Dict_Insert 1 (Some 10), Dict_Insert 81 (Some 11), Dict_Insert 1 (Some 12), Dict_Remove 81]"]
  obtain t fr fr' where t: "dict_run hashtable_insert hashtable_remove (Some (hashtable_create 80 None None))
       [Dict_Insert 1 (Some 10), Dict_Insert 81 (Some 11), Dict_Insert 1 (Some 12), Dict_Remove 81] = Inr (Some t, fr)"
    and get: "\<forall>k. hashtable_get (Some t) k = Inr (case foldl dict_step Map.empty
        [Dict_Insert 1 (Some 10), Dict_Insert 81 (Some 11), Dict_Insert 1 (Some 12), Dict_Remove 81] k of
          Some d \<Rightarrow> (d, HASH_TABLE_OK) | None \<Rightarrow> (None, HASH_TABLE_KEY_NOT_EXISTS))"
    and fr': "hashtable_destroy (Some t) = Inr (None, HASH_TABLE_OK, fr')"
    and m: "mset (fr @ fr') = dict_given (\<lambda>d. mset (free_data libc_free d))
        [Dict_Insert (1 :: u64) (Some 10), Dict_Insert 81 (Some 11), Dict_Insert 1 (Some 12), Dict_Remove 81]"
    by auto
  have "hashtable_get (Some t) 1 = Inr (Some 12, HASH_TABLE_OK)" "hashtable_get (Some t) 81 = Inr (None, HASH_TABLE_KEY_NOT_EXISTS)"
    by (simp_all add: get)
  moreover have "mset (fr @ fr') = {#10, 11, 12#}" unfolding m by (simp add: free_data_def libc_free_def)
  ultimately show ?thesis using t fr' by blast
qed

text \<open>
  The dump overruns its buffer: a line that does not fit leaves its own length as the remaining space, so the
  line of the next node of the chain is written beyond the end.
\<close>

lemma unat_u64_of_int: "0 \<le> n \<Longrightarrow> n < 2 ^ 64 \<Longrightarrow> unat (u64_of_int n) = nat n"
  by (simp add: u64_of_int_def unat_eq_nat_uint uint_word_of_int_eq take_bit_int_eq_self)

lemma snprintf_overflow:
  "0 < n \<Longrightarrow> n < 2 ^ 64 \<Longrightarrow> int (length buffer) < n \<Longrightarrow> length buffer \<le> length txt \<Longrightarrow> snprintf buffer n txt = Inl OutOfBounds"
  by (auto simp: snprintf_def memcpy_at_def unat_u64_of_int Let_def min_def)

theorem hashtable_dump_overflow:
  assumes "ht_inv t" "ht_nodes t ! 0 = n1 # n2 # rest" "0 < length buffer" "length (line (hn_key n1) (hn_data n1)) < 2 ^ 31"
    "length buffer < length (line (hn_key n1) (hn_data n1))" "length buffer \<le> length (line (hn_key n2) (hn_data n2))"
  shows "hashtable_dump_content line (Some t) buffer (int (length buffer)) = Inl OutOfBounds"
proof -
  let ?l1 = "line (hn_key n1) (hn_data n1)"
  obtain cs where cs: "ht_nodes t = (n1 # n2 # rest) # cs"
    using assms(1,2) by (cases "ht_nodes t") (auto simp: ht_inv_def unat_eq_0)
  have k: "unat (u64_of_int (int (length buffer))) = length buffer"
    using assms(4,5) unat_u64_of_int [of "int (length buffer)"] by simp
  obtain b where b: "snprintf buffer (int (length buffer)) ?l1 = Inr (b, int (length ?l1))" "length b = length buffer"
  proof -
    have "0 + length (take (length buffer - 1) ?l1 @ [0]) \<le> length buffer" using assms(3) by (cases buffer) auto
    from memcpy_at_fits [OF this] obtain b where "memcpy_at buffer 0 (take (length buffer - 1) ?l1 @ [0]) = Inr b" by blast
    then show thesis using assms(3) that [of b] memcpy_at_length [of buffer] by (simp add: snprintf_def k)
  qed
  have "snprintf b (int (length ?l1)) (line (hn_key n2) (hn_data n2)) = Inl OutOfBounds"
    using assms(4-6) b(2) by (intro snprintf_overflow) auto
  then show ?thesis using assms(1,3) b(1) cs by (simp add: hashtable_dump_content_def ht_inv_def)
qed

end
