(* ===== verification/Rb_Tree.thy ===== *)
theory Rb_Tree
  imports Prelude
begin

text \<open>
  The collections that RRC and NGAP keep their contexts in.  \<open>RB_GENERATE\<close> instantiates the red-black trees of
  \<open>tree.h\<close> with a comparison function; what its users see is the sequence of elements that \<open>RB_FOREACH\<close> visits,
  in increasing order, with at most one element that compares equal to any given one.  A tree is this sequence.
\<close>

subsection \<open>Operations\<close>

text \<open>\<open>RB_INSERT\<close> leaves the tree alone if an element compares equal, and returns that element.\<close>

fun rb_insert :: "('a \<Rightarrow> 'a \<Rightarrow> int) \<Rightarrow> 'a list \<Rightarrow> 'a \<Rightarrow> 'a list" where
  "rb_insert cmp [] c = [c]"
| "rb_insert cmp (x # xs) c =
     (if cmp c x < 0 then c # x # xs else if cmp c x > 0 then x # rb_insert cmp xs c else x # xs)"

definition rb_find :: "('a \<Rightarrow> 'a \<Rightarrow> int) \<Rightarrow> 'a list \<Rightarrow> 'a \<Rightarrow> 'a option" where
  "rb_find cmp t temp = List.find (\<lambda>x. cmp temp x = 0) t"

subsection \<open>Trees ordered by a key\<close>

text \<open>The contract of a comparison function: it compares a key that no operation changes.\<close>

locale rb_key =
  fixes cmp :: "'a \<Rightarrow> 'a \<Rightarrow> int" and key :: "'a \<Rightarrow> 'k::linorder"
  assumes cmp_less: "cmp a b < 0 \<longleftrightarrow> key a < key b"
    and cmp_greater: "cmp a b > 0 \<longleftrightarrow> key b < key a"
begin

lemma cmp_equal: "cmp a b = 0 \<longleftrightarrow> key a = key b"
  using cmp_less [of a b] cmp_greater [of a b] by (metis antisym_conv3 less_irrefl not_less_iff_gr_or_eq)

lemma insert_mset: "key c \<notin> key ` set t \<Longrightarrow> mset (rb_insert cmp t c) = add_mset c (mset t)"
  by (induction t) (auto simp: cmp_less cmp_greater)

lemma insert_set: "key c \<notin> key ` set t \<Longrightarrow> set (rb_insert cmp t c) = insert c (set t)"
  using insert_mset by (metis set_mset_add_mset_insert set_mset_mset)

lemma insert_length: "key c \<notin> key ` set t \<Longrightarrow> length (rb_insert cmp t c) = length t + 1"
  using insert_mset by (metis mset_eq_length length_Cons mset.simps(2) Suc_eq_plus1)

lemma insert_distinct:
  "key c \<notin> key ` set t \<Longrightarrow> distinct (map f (rb_insert cmp t c)) \<longleftrightarrow> f c \<notin> f ` set t \<and> distinct (map f t)"
proof -
  assume "key c \<notin> key ` set t"
  then have "mset (map f (rb_insert cmp t c)) = mset (map f (c # t))" using insert_mset by simp
  then show ?thesis using mset_eq_imp_distinct_iff [of "map f (rb_insert cmp t c)" "map f (c # t)"] by simp
qed

lemma insert_collision: "sorted_wrt (\<lambda>c d. key c < key d) t \<Longrightarrow> key c \<in> key ` set t \<Longrightarrow> rb_insert cmp t c = t"
  by (induction t) (auto simp: cmp_less cmp_greater)

lemma insert_sorted:
  "sorted_wrt (\<lambda>c d. key c < key d) t \<Longrightarrow> sorted_wrt (\<lambda>c d. key c < key d) (rb_insert cmp t c)"
proof (induction t)
  case (Cons x t)
  show ?case
  proof (cases "key c \<in> key ` set t")
    case True
    then show ?thesis using Cons.prems insert_collision by (fastforce simp: cmp_less cmp_greater)
  next
    case False
    then show ?thesis using Cons insert_set [OF False] by (auto simp: cmp_less cmp_greater)
  qed
qed simp

lemma keys_distinct: "sorted_wrt (\<lambda>c d. key c < key d) t \<Longrightarrow> distinct (map key t)"
  by (induction t) (auto simp: image_iff)

lemma find_iff:
  assumes "sorted_wrt (\<lambda>c d. key c < key d) t"
  shows "rb_find cmp t temp = Some c \<longleftrightarrow> c \<in> set t \<and> key c = key temp"
proof -
  have "rb_find cmp t temp = List.find (\<lambda>x. key x = key temp) t"
    unfolding rb_find_def by (rule find_cong) (auto simp: cmp_equal)
  moreover have "distinct (map key t) \<Longrightarrow> List.find (\<lambda>x. key x = k) t = Some c \<longleftrightarrow> c \<in> set t \<and> key c = k" for k
    by (induction t) (auto simp: image_iff)
  ultimately show ?thesis using keys_distinct [OF assms] by simp
qed

lemma find_None: "rb_find cmp t temp = None \<longleftrightarrow> key temp \<notin> key ` set t"
  by (auto simp: rb_find_def find_None_iff cmp_equal)

end

end
