(* ===== verification/Rrc_Ue_Context.thy ===== *)
theory Rrc_Ue_Context
  imports Rb_Tree "HOL-Library.While_Combinator"
begin

text \<open>
  The UE contexts of RRC: \<open>rrc_gNB_UE_context.c\<close>, with the bitmap allocator of local identifiers.
  The red-black tree of \<open>tree.h\<close> is the list of its nodes in the order of the tree: \<open>RB_FIND\<close> finds the
  node with the key, \<open>RB_INSERT\<close> inserts unless the key is there, \<open>RB_FOREACH\<close> goes through the list.
\<close>

subsection \<open>The allocator\<close>

definition UID_LINEAR_ALLOCATOR_BITMAP_SIZE :: nat where
  "UID_LINEAR_ALLOCATOR_BITMAP_SIZE = MAX_MOBILES_PER_ENB div 8 div 4 + 1"

definition NR_UID_LINEAR_ALLOCATOR_BITMAP_SIZE :: nat where
  "NR_UID_LINEAR_ALLOCATOR_BITMAP_SIZE = MAX_MOBILES_PER_GNB div 8 div 4 + 1"

definition UINT_MAX :: u32 where
  "UINT_MAX = - 1"

definition nr_uid_linear_allocator_init :: "u32 list" where
  "nr_uid_linear_allocator_init = replicate NR_UID_LINEAR_ALLOCATOR_BITMAP_SIZE 0"

text \<open>\<open>while ((bitmap[i] & bit_index) == bit_index)\<close>\<close>

definition uid_scan :: "u32 \<Rightarrow> (u32 \<times> u32) res" where
  "uid_scan w =
     (case while_option (\<lambda>(bit_index, uid). w AND bit_index = bit_index)
             (\<lambda>(bit_index, uid). (push_bit 1 bit_index, uid + 1)) (1, 0) of
        None \<Rightarrow> Inl Diverge
      | Some r \<Rightarrow> Inr r)"

text \<open>The loop over the words of the bitmap, with \<open>n\<close> rounds left.\<close>

fun uid_words :: "u32 list \<Rightarrow> nat \<Rightarrow> nat \<Rightarrow> (u32 list \<times> u32) res" where
  "uid_words bm i 0 = Inr (bm, UINT_MAX)"
| "uid_words bm i (Suc n) =
     (if \<not> i < length bm then Inl OutOfBounds
      else if bm ! i \<noteq> UINT_MAX
      then bnd (uid_scan (bm ! i)) (\<lambda>(bit_index, uid).
             Inr (bm[i := bm ! i OR bit_index], uid + of_nat i * 32))
      else uid_words bm (Suc i) n)"

definition nr_uid_linear_allocator_new :: "u32 list \<Rightarrow> (u32 list \<times> u32) res" where
  "nr_uid_linear_allocator_new bm = uid_words bm 0 UID_LINEAR_ALLOCATOR_BITMAP_SIZE"

definition nr_uid_linear_allocator_free :: "u32 list \<Rightarrow> u32 \<Rightarrow> u32 list res" where
  "nr_uid_linear_allocator_free bm uid =
     (let i = unat uid div 4 div 8; bit_no = unat uid mod 32; v = NOT (push_bit bit_no (1 :: u32)) in
      if i < UID_LINEAR_ALLOCATOR_BITMAP_SIZE
      then (if i < length bm then Inr (bm[i := bm ! i AND v]) else Inl OutOfBounds)
      else Inr bm)"

subsection \<open>UE contexts\<close>

text \<open>The fields of \<open>rrc_gNB_ue_context_t\<close> that this file reads or writes, and the address of the node.\<close>

record rrc_gNB_ue_context =
  uc_addr :: nat
  uc_ue_id_rnti :: u16
  uc_local_uid :: u32
  uc_rnti :: u16
  uc_random_ue_identity :: u64
  uc_ng_5G_S_TMSI_Part1 :: u64
  uc_e_rab_xid :: "int list"
  uc_pduSession_xid :: "int list"
  uc_modify_e_rab_xid :: "int list"

record gNB_RRC_INST =
  rrc_uid_allocator :: "u32 list"
  rrc_ue_head :: "rrc_gNB_ue_context list"
  rrc_Nb_ue :: int
  rrc_next_addr :: nat

definition initial_rrc_inst :: gNB_RRC_INST where
  "initial_rrc_inst =
     \<lparr>rrc_uid_allocator = nr_uid_linear_allocator_init, rrc_ue_head = [], rrc_Nb_ue = 0, rrc_next_addr = 1\<rparr>"

definition rrc_gNB_compare_ue_rnti_id :: "rrc_gNB_ue_context \<Rightarrow> rrc_gNB_ue_context \<Rightarrow> int" where
  "rrc_gNB_compare_ue_rnti_id c1 c2 =
     (if uc_ue_id_rnti c1 > uc_ue_id_rnti c2 then 1 else if uc_ue_id_rnti c1 < uc_ue_id_rnti c2 then - 1 else 0)"

text \<open>The tree, instantiated with this comparison.\<close>

definition rrc_ue_tree_insert :: "rrc_gNB_ue_context list \<Rightarrow> rrc_gNB_ue_context \<Rightarrow> rrc_gNB_ue_context list" where
  "rrc_ue_tree_insert = rb_insert rrc_gNB_compare_ue_rnti_id"

definition rrc_ue_tree_find :: "rrc_gNB_ue_context list \<Rightarrow> rrc_gNB_ue_context \<Rightarrow> rrc_gNB_ue_context option" where
  "rrc_ue_tree_find = rb_find rrc_gNB_compare_ue_rnti_id"

definition rrc_ue_tree_remove :: "rrc_gNB_ue_context list \<Rightarrow> rrc_gNB_ue_context \<Rightarrow> rrc_gNB_ue_context list res" where
  "rrc_ue_tree_remove t c =
     (if uc_addr c \<in> uc_addr ` set t then Inr (filter (\<lambda>x. uc_addr x \<noteq> uc_addr c) t) else Inl Dangling)"

text \<open>\<open>memset\<close> of a context.\<close>

definition zero_ue_context :: "nat \<Rightarrow> nat \<Rightarrow> rrc_gNB_ue_context" where
  "zero_ue_context nb_rb_max a =
     \<lparr>uc_addr = a, uc_ue_id_rnti = 0, uc_local_uid = 0, uc_rnti = 0, uc_random_ue_identity = 0,
      uc_ng_5G_S_TMSI_Part1 = 0, uc_e_rab_xid = replicate nb_rb_max 0, uc_pduSession_xid = replicate nb_rb_max 0,
      uc_modify_e_rab_xid = replicate nb_rb_max 0\<rparr>"

text \<open>\<open>nb_rb_max\<close> stands for \<open>NB_RB_MAX\<close>, which the build takes from a generated header.\<close>

definition rrc_gNB_allocate_new_UE_context ::
    "nat \<Rightarrow> gNB_RRC_INST \<Rightarrow> (gNB_RRC_INST \<times> rrc_gNB_ue_context) res" where
  "rrc_gNB_allocate_new_UE_context nb_rb_max I =
     bnd (nr_uid_linear_allocator_new (rrc_uid_allocator I)) (\<lambda>(bm, uid).
       Inr (I\<lparr>rrc_uid_allocator := bm, rrc_next_addr := rrc_next_addr I + 1\<rparr>,
            (zero_ue_context nb_rb_max (rrc_next_addr I))
              \<lparr>uc_local_uid := uid, uc_e_rab_xid := replicate nb_rb_max (- 1),
               uc_pduSession_xid := replicate nb_rb_max (- 1), uc_modify_e_rab_xid := replicate nb_rb_max (- 1)\<rparr>))"

definition rrc_gNB_get_ue_context :: "gNB_RRC_INST \<Rightarrow> u16 \<Rightarrow> rrc_gNB_ue_context option" where
  "rrc_gNB_get_ue_context I rnti =
     (case rrc_ue_tree_find (rrc_ue_head I) ((zero_ue_context 0 0)\<lparr>uc_ue_id_rnti := rnti\<rparr>) of
        Some c \<Rightarrow> Some c
      | None \<Rightarrow> List.find (\<lambda>c. uc_rnti c = rnti) (rrc_ue_head I))"

definition rrc_gNB_remove_ue_context ::
    "gNB_RRC_INST option \<Rightarrow> rrc_gNB_ue_context option \<Rightarrow> gNB_RRC_INST option res" where
  "rrc_gNB_remove_ue_context inst ctx =
     (case (inst, ctx) of
        (Some I, Some c) \<Rightarrow>
          bnd (rrc_ue_tree_remove (rrc_ue_head I) c) (\<lambda>t.
          bnd (nr_uid_linear_allocator_free (rrc_uid_allocator I) (uc_local_uid c)) (\<lambda>bm.
            Inr (Some (I\<lparr>rrc_ue_head := t, rrc_uid_allocator := bm, rrc_Nb_ue := rrc_Nb_ue I - 1\<rparr>))))
      | _ \<Rightarrow> Inr inst)"

definition rrc_gNB_ue_context_random_exist :: "gNB_RRC_INST \<Rightarrow> u64 \<Rightarrow> rrc_gNB_ue_context option" where
  "rrc_gNB_ue_context_random_exist I ue_identity = List.find (\<lambda>c. uc_random_ue_identity c = ue_identity) (rrc_ue_head I)"

definition rrc_gNB_ue_context_5g_s_tmsi_exist :: "gNB_RRC_INST \<Rightarrow> u64 \<Rightarrow> rrc_gNB_ue_context option" where
  "rrc_gNB_ue_context_5g_s_tmsi_exist I s_TMSI = List.find (\<lambda>c. uc_ng_5G_S_TMSI_Part1 c = s_TMSI) (rrc_ue_head I)"

definition rrc_gNB_get_next_free_ue_context ::
    "nat \<Rightarrow> gNB_RRC_INST \<Rightarrow> u16 \<Rightarrow> u64 \<Rightarrow> (gNB_RRC_INST \<times> rrc_gNB_ue_context option) res" where
  "rrc_gNB_get_next_free_ue_context nb_rb_max I rnti ue_identity =
     (case rrc_gNB_get_ue_context I rnti of
        None \<Rightarrow>
          bnd (rrc_gNB_allocate_new_UE_context nb_rb_max I) (\<lambda>(I1, c).
            let c1 = c\<lparr>uc_ue_id_rnti := rnti, uc_rnti := rnti, uc_random_ue_identity := ue_identity\<rparr>
            in Inr (I1\<lparr>rrc_ue_head := rrc_ue_tree_insert (rrc_ue_head I1) c1\<rparr>, Some c1))
      | Some _ \<Rightarrow> Inr (I, None))"

text \<open>
  An \<open>RRCSetupRequest\<close> with a 5G-S-TMSI from an RNTI that has no context.  If there is a context with that TMSI it is taken
  out of the tree, gets the new RNTI and is inserted again; else there is a new one, which is found by the TMSI later.
\<close>

definition rrc_replace_rnti :: "gNB_RRC_INST \<Rightarrow> rrc_gNB_ue_context \<Rightarrow> u16 \<Rightarrow> gNB_RRC_INST res" where
  "rrc_replace_rnti I c rnti =
     bnd (rrc_ue_tree_remove (rrc_ue_head I) c) (\<lambda>t.
       Inr (I\<lparr>rrc_ue_head := rrc_ue_tree_insert t (c\<lparr>uc_ue_id_rnti := rnti, uc_rnti := rnti\<rparr>)\<rparr>))"

definition rrc_setup_s_tmsi :: "nat \<Rightarrow> gNB_RRC_INST \<Rightarrow> u16 \<Rightarrow> u64 \<Rightarrow> gNB_RRC_INST res" where
  "rrc_setup_s_tmsi nb_rb_max I rnti s_tmsi_part1 =
     (case rrc_gNB_ue_context_5g_s_tmsi_exist I s_tmsi_part1 of
        Some c \<Rightarrow> rrc_replace_rnti I c rnti
      | None \<Rightarrow>
          bnd (rrc_gNB_get_next_free_ue_context nb_rb_max I rnti s_tmsi_part1) (\<lambda>(I1, ctx).
            Inr (case ctx of
                   None \<Rightarrow> I1
                 | Some c \<Rightarrow> I1\<lparr>rrc_ue_head := map (\<lambda>x. if uc_addr x = uc_addr c
                     then x\<lparr>uc_ng_5G_S_TMSI_Part1 := s_tmsi_part1\<rparr> else x) (rrc_ue_head I1)\<rparr>)))"

subsection \<open>What the allocator does\<close>

definition uids :: "u32 list \<Rightarrow> nat set" where
  "uids bm = {k. k < 32 * length bm \<and> bit (bm ! (k div 32)) (k mod 32)}"

lemma and_bit_iff: "w AND 2 ^ k = 2 ^ k \<longleftrightarrow> bit w k" if "k < 32" for w :: u32
proof
  assume "w AND 2 ^ k = 2 ^ k"
  then have "bit (w AND 2 ^ k) k = bit (2 ^ k :: u32) k" by simp
  then show "bit w k" using that by (simp add: bit_and_iff bit_exp_iff)
next
  assume "bit w k"
  then show "w AND 2 ^ k = 2 ^ k" by (intro bit_word_eqI) (auto simp: bit_and_iff bit_exp_iff)
qed

lemma scan_from:
  assumes "k \<le> K" "K < 32" "\<not> bit w K" "\<forall>j<K. bit (w :: u32) j"
  shows "while_option (\<lambda>(bit_index, uid :: u32). w AND bit_index = bit_index)
     (\<lambda>(bit_index, uid). (push_bit 1 bit_index, uid + 1)) (push_bit k 1, of_nat k) = Some (push_bit K 1, of_nat K)"
  using assms(1)
proof (induction "K - k" arbitrary: k)
  case 0
  then show ?case using and_bit_iff [of K w] assms(2,3) by (subst while_option_unfold) simp
next
  case (Suc n)
  then have "k < K" "bit w k" using assms(4) by auto
  moreover have "push_bit 1 (push_bit k 1 :: u32) = push_bit (Suc k) 1" by simp
  ultimately show ?case
    using Suc.hyps(1) [of "Suc k"] Suc.hyps(2) and_bit_iff [of k w] assms(2)
    by (subst while_option_unfold) (simp add: ac_simps)
qed

lemma uid_scan_least:
  assumes "w \<noteq> UINT_MAX"
  shows "\<exists>K<32. \<not> bit w K \<and> (\<forall>j<K. bit w j) \<and> uid_scan w = Inr (push_bit K 1, of_nat K)"
proof -
  have ex: "\<exists>K. K < 32 \<and> \<not> bit w K"
  proof (rule ccontr)
    assume "\<not> (\<exists>K. K < 32 \<and> \<not> bit w K)"
    then have "w = UINT_MAX" by (auto simp: UINT_MAX_def bit_eq_iff)
    then show False using assms by simp
  qed
  define K where "K = (LEAST K. K < 32 \<and> \<not> bit w K)"
  have K: "K < 32" "\<not> bit w K" using LeastI_ex [OF ex] by (auto simp: K_def)
  have "\<forall>j<K. bit w j" using not_less_Least K(1) unfolding K_def by (metis less_trans)
  then show ?thesis using scan_from [of 0 K w] K by (auto simp: uid_scan_def intro!: exI [of _ K])
qed

lemma uids_set:
  assumes "i < length bm" "k < 32"
  shows "uids (bm[i := bm ! i OR 2 ^ k]) = insert (32 * i + k) (uids bm)"
    "uids (bm[i := bm ! i AND NOT (2 ^ k)]) = uids bm - {32 * i + k}"
proof -
  have jk: "32 * i + k < 32 * length bm" "(32 * i + k) div 32 = i" "(32 * i + k) mod 32 = k"
    using assms by auto
  have at: "j div 32 = i \<and> j mod 32 = k \<longleftrightarrow> j = 32 * i + k" for j using assms(2) by auto
  have b: "bit (2 ^ k :: u32) (j mod 32) \<longleftrightarrow> j mod 32 = k" for j by (auto simp: bit_exp_iff)
  have "j \<in> uids (bm[i := bm ! i OR 2 ^ k]) \<longleftrightarrow> j = 32 * i + k \<or> j \<in> uids bm" for j
    using assms(1) jk at [of j] b [of j] by (auto simp: uids_def nth_list_update bit_or_iff)
  then show "uids (bm[i := bm ! i OR 2 ^ k]) = insert (32 * i + k) (uids bm)" by blast
  have "j \<in> uids (bm[i := bm ! i AND NOT (2 ^ k)]) \<longleftrightarrow> j \<noteq> 32 * i + k \<and> j \<in> uids bm" for j
    using assms(1) at [of j] b [of j] by (auto simp: uids_def nth_list_update bit_and_iff bit_not_iff)
  then show "uids (bm[i := bm ! i AND NOT (2 ^ k)]) = uids bm - {32 * i + k}" by blast
qed

text \<open>The loop takes the least identifier that is free, or runs past the end of the bitmap.\<close>

lemma uid_words_spec:
  assumes "i \<le> length bm" "{..<32 * i} \<subseteq> uids bm"
  shows "if uids bm = {..<32 * length bm} \<or> i + n \<le> length bm \<and> {..<32 * (i + n)} \<subseteq> uids bm
     then uid_words bm i n = (if i + n \<le> length bm then Inr (bm, UINT_MAX) else Inl OutOfBounds)
     else \<exists>bm' k. uid_words bm i n = Inr (bm', of_nat k) \<and> length bm' = length bm \<and> k \<notin> uids bm \<and>
       (\<forall>j<k. j \<in> uids bm) \<and> k < 32 * length bm \<and> uids bm' = insert k (uids bm)"
  using assms(1,2)
proof (induction n arbitrary: i)
  case 0
  then show ?case by auto
next
  case (Suc n)
  have sub: "uids bm \<subseteq> {..<32 * length bm}" by (auto simp: uids_def)
  show ?case
  proof (cases "i < length bm")
    case False
    then have "i = length bm" using Suc.prems(1) by simp
    then have "uids bm = {..<32 * length bm}" using Suc.prems(2) sub by auto
    then show ?thesis using False by simp
  next
    case True
    show ?thesis
    proof (cases "bm ! i = UINT_MAX")
      case full: True
      have "{..<32 * Suc i} \<subseteq> uids bm"
      proof
        fix j assume j: "j \<in> {..<32 * Suc i}"
        show "j \<in> uids bm"
        proof (cases "j < 32 * i")
          case False
          then have "j div 32 = i" using j by auto
          then show ?thesis using True full j by (auto simp: uids_def UINT_MAX_def)
        qed (use Suc.prems(2) in auto)
      qed
      from Suc.IH [OF _ this] True full show ?thesis by simp
    next
      case nf: False
      obtain K where K: "K < 32" "\<not> bit (bm ! i) K" "\<forall>j<K. bit (bm ! i) j" "uid_scan (bm ! i) = Inr (2 ^ K, of_nat K)"
        using uid_scan_least [OF nf] by auto
      have jk: "32 * i + K < 32 * length bm" "(32 * i + K) div 32 = i" "(32 * i + K) mod 32 = K" using True K(1) by auto
      have new: "32 * i + K \<notin> uids bm" using K(2) jk by (simp add: uids_def)
      have low: "\<forall>j<32 * i + K. j \<in> uids bm"
      proof (intro allI impI)
        fix j assume j: "j < 32 * i + K"
        show "j \<in> uids bm"
        proof (cases "j < 32 * i")
          case False
          then obtain r where "j = 32 * i + r" using le_Suc_ex by (metis not_le)
          then have "j div 32 = i" "j mod 32 < K" using j K(1) by simp_all
          then show ?thesis using K(3) j jk(1) by (simp add: uids_def)
        qed (use Suc.prems(2) in auto)
      qed
      have u: "uid_words bm i (Suc n) = Inr (bm[i := bm ! i OR 2 ^ K], of_nat (32 * i + K))"
        using True nf K(4) by (simp add: ac_simps)
      have "32 * i + K < 32 * (i + Suc n)" using K(1) by simp
      then have ne: "\<not> (uids bm = {..<32 * length bm} \<or> i + Suc n \<le> length bm \<and> {..<32 * (i + Suc n)} \<subseteq> uids bm)"
        using new jk(1) by blast
      have "\<exists>bm' k. uid_words bm i (Suc n) = Inr (bm', of_nat k) \<and> length bm' = length bm \<and> k \<notin> uids bm \<and>
          (\<forall>j<k. j \<in> uids bm) \<and> k < 32 * length bm \<and> uids bm' = insert k (uids bm)"
        using u new low jk(1) uids_set(1) [OF True K(1)]
        by (intro exI [of _ "bm[i := bm ! i OR 2 ^ K]"] exI [of _ "32 * i + K"]) simp
      then show ?thesis by (simp only: ne if_False)
    qed
  qed
qed

lemma uid_free_spec:
  assumes "k < 32 * length bm" "length bm \<le> UID_LINEAR_ALLOCATOR_BITMAP_SIZE"
  shows "\<exists>bm'. nr_uid_linear_allocator_free bm (of_nat k) = Inr bm' \<and> length bm' = length bm \<and> uids bm' = uids bm - {k}"
proof -
  have "unat (of_nat k :: u32) = k"
    using assms by (simp add: unat_of_nat UID_LINEAR_ALLOCATOR_BITMAP_SIZE_def MAX_MOBILES_PER_ENB_def)
  moreover have "k div 4 div 8 = k div 32" by (simp add: div_mult2_eq [symmetric])
  moreover have "k div 32 < length bm" using assms(1) by (simp add: less_mult_imp_div_less mult.commute)
  ultimately show ?thesis
    using assms uids_set(2) [of "k div 32" bm "k mod 32"] by (simp add: nr_uid_linear_allocator_free_def Let_def)
qed

subsection \<open>The invariant\<close>

text \<open>The tree is ordered by its key, the identifiers in use are those of the contexts in the tree, one each.\<close>

definition rrc_inv :: "gNB_RRC_INST \<Rightarrow> bool" where
  "rrc_inv I \<longleftrightarrow>
     sorted_wrt (\<lambda>c d. uc_ue_id_rnti c < uc_ue_id_rnti d) (rrc_ue_head I) \<and>
     (\<forall>c\<in>set (rrc_ue_head I). uc_rnti c = uc_ue_id_rnti c \<and> uc_addr c < rrc_next_addr I) \<and>
     distinct (map uc_addr (rrc_ue_head I)) \<and> distinct (map uc_local_uid (rrc_ue_head I)) \<and>
     length (rrc_uid_allocator I) = NR_UID_LINEAR_ALLOCATOR_BITMAP_SIZE \<and>
     uids (rrc_uid_allocator I) = unat ` uc_local_uid ` set (rrc_ue_head I)"

lemma bitmap_sizes: "NR_UID_LINEAR_ALLOCATOR_BITMAP_SIZE = 1" "UID_LINEAR_ALLOCATOR_BITMAP_SIZE = 2"
  by (simp_all add: NR_UID_LINEAR_ALLOCATOR_BITMAP_SIZE_def UID_LINEAR_ALLOCATOR_BITMAP_SIZE_def
      MAX_MOBILES_PER_ENB_def MAX_MOBILES_PER_GNB_def)

interpretation rrc_tree: rb_key rrc_gNB_compare_ue_rnti_id uc_ue_id_rnti
  by unfold_locales (auto simp: rrc_gNB_compare_ue_rnti_id_def)

lemma tree_insert_set:
  assumes "\<forall>x\<in>set t. uc_ue_id_rnti x \<noteq> uc_ue_id_rnti c"
  shows "set (rrc_ue_tree_insert t c) = insert c (set t)"
    "distinct (map f (rrc_ue_tree_insert t c)) \<longleftrightarrow> f c \<notin> f ` set t \<and> distinct (map f t)"
    "length (rrc_ue_tree_insert t c) = length t + 1"
proof -
  have "uc_ue_id_rnti c \<notin> uc_ue_id_rnti ` set t" using assms by auto
  then show "set (rrc_ue_tree_insert t c) = insert c (set t)"
    "distinct (map f (rrc_ue_tree_insert t c)) \<longleftrightarrow> f c \<notin> f ` set t \<and> distinct (map f t)"
    "length (rrc_ue_tree_insert t c) = length t + 1"
    unfolding rrc_ue_tree_insert_def
    by (rule rrc_tree.insert_set rrc_tree.insert_distinct rrc_tree.insert_length)+
qed

lemma tree_insert_sorted:
  "sorted_wrt (\<lambda>c d. uc_ue_id_rnti c < uc_ue_id_rnti d) t \<Longrightarrow>
   sorted_wrt (\<lambda>c d. uc_ue_id_rnti c < uc_ue_id_rnti d) (rrc_ue_tree_insert t c)"
  unfolding rrc_ue_tree_insert_def by (rule rrc_tree.insert_sorted)

lemma find_unique:
  assumes "distinct (map f t)" "c \<in> set t"
  shows "List.find (\<lambda>x. f x = f c) t = Some c"
  using assms by (induction t) (auto simp: image_iff)

text \<open>Looking a context up, by its key and, if there is none, by its RNTI.\<close>

lemma get_ue_context_iff:
  assumes "rrc_inv I"
  shows "rrc_gNB_get_ue_context I r = Some c \<longleftrightarrow> c \<in> set (rrc_ue_head I) \<and> uc_ue_id_rnti c = r"
    "rrc_gNB_get_ue_context I r = None \<longleftrightarrow> (\<forall>c\<in>set (rrc_ue_head I). uc_ue_id_rnti c \<noteq> r)"
proof -
  let ?t = "rrc_ue_head I"
  have d: "distinct (map uc_ue_id_rnti ?t)" using assms rrc_tree.keys_distinct by (auto simp: rrc_inv_def)
  have cmp: "rrc_gNB_compare_ue_rnti_id ((zero_ue_context 0 0)\<lparr>uc_ue_id_rnti := r\<rparr>) x = 0 \<longleftrightarrow> uc_ue_id_rnti x = r" for x
    by (auto simp: rrc_gNB_compare_ue_rnti_id_def)
  have rn: "\<forall>c\<in>set ?t. uc_rnti c = uc_ue_id_rnti c" using assms by (auto simp: rrc_inv_def)
  have g: "rrc_gNB_get_ue_context I r = List.find (\<lambda>x. uc_ue_id_rnti x = r) ?t"
    using find_cong [OF refl, of ?t "\<lambda>c. uc_rnti c = r" "\<lambda>c. uc_ue_id_rnti c = r"] rn
    by (simp add: rrc_gNB_get_ue_context_def rrc_ue_tree_find_def rb_find_def cmp split: option.splits)
  show "rrc_gNB_get_ue_context I r = Some c \<longleftrightarrow> c \<in> set ?t \<and> uc_ue_id_rnti c = r"
    using find_unique [OF d, of c] by (auto simp: g find_Some_iff)
  show "rrc_gNB_get_ue_context I r = None \<longleftrightarrow> (\<forall>c\<in>set ?t. uc_ue_id_rnti c \<noteq> r)"
    by (auto simp: g find_None_iff)
qed

text \<open>The allocator on the bitmap of one word that RRC has.\<close>

lemma allocator_new:
  assumes "length bm = NR_UID_LINEAR_ALLOCATOR_BITMAP_SIZE"
  shows "uids bm = {..<32} \<Longrightarrow> nr_uid_linear_allocator_new bm = Inl OutOfBounds"
    and "uids bm \<noteq> {..<32} \<Longrightarrow> \<exists>bm' k. nr_uid_linear_allocator_new bm = Inr (bm', of_nat k) \<and>
       length bm' = NR_UID_LINEAR_ALLOCATOR_BITMAP_SIZE \<and> k < 32 \<and> k \<notin> uids bm \<and> (\<forall>j<k. j \<in> uids bm) \<and>
       uids bm' = insert k (uids bm)"
  using uid_words_spec [of 0 bm 2] assms by (auto simp: nr_uid_linear_allocator_new_def bitmap_sizes split: if_splits)

lemma uid_range: "rrc_inv I \<Longrightarrow> c \<in> set (rrc_ue_head I) \<Longrightarrow> unat (uc_local_uid c) < 32"
  by (auto simp: rrc_inv_def uids_def bitmap_sizes dest: equalityD2)

lemma uids_full:
  assumes "rrc_inv I"
  shows "uids (rrc_uid_allocator I) = {..<32} \<longleftrightarrow> length (rrc_ue_head I) = 32" "length (rrc_ue_head I) \<le> 32"
proof -
  let ?u = "uids (rrc_uid_allocator I)"
  have sub: "?u \<subseteq> {..<32}" using assms by (auto simp: uids_def rrc_inv_def bitmap_sizes)
  have "inj_on unat (uc_local_uid ` set (rrc_ue_head I))" by (simp add: inj_on_def word_unat_eq_iff)
  then have "card ?u = card (uc_local_uid ` set (rrc_ue_head I))"
    using assms card_image by (fastforce simp: rrc_inv_def)
  also have "\<dots> = length (rrc_ue_head I)"
    using assms by (metis (no_types, lifting) distinct_card length_map list.set_map rrc_inv_def)
  finally have c: "card ?u = length (rrc_ue_head I)" .
  have "card ?u = card {..<32 :: nat} \<Longrightarrow> ?u = {..<32}" by (rule card_subset_eq [OF _ sub]) simp
  then show "?u = {..<32} \<longleftrightarrow> length (rrc_ue_head I) = 32" unfolding c [symmetric] by (metis card_lessThan)
  show "length (rrc_ue_head I) \<le> 32" using card_mono [OF _ sub] c by simp
qed

lemma next_free_new:
  assumes "rrc_inv I" "rrc_gNB_get_ue_context I rnti = None" "length (rrc_ue_head I) \<noteq> 32"
  shows "\<exists>I' c k. rrc_gNB_get_next_free_ue_context nb I rnti ue_identity = Inr (I', Some c) \<and> rrc_inv I' \<and>
     set (rrc_ue_head I') = insert c (set (rrc_ue_head I)) \<and> length (rrc_ue_head I') = length (rrc_ue_head I) + 1 \<and>
     uc_ue_id_rnti c = rnti \<and> uc_random_ue_identity c = ue_identity \<and> uc_local_uid c = of_nat k \<and> k < 32 \<and>
     k \<notin> uids (rrc_uid_allocator I) \<and> (\<forall>j<k. j \<in> uids (rrc_uid_allocator I)) \<and> rrc_Nb_ue I' = rrc_Nb_ue I"
proof -
  let ?t = "rrc_ue_head I"
  have len: "length (rrc_uid_allocator I) = NR_UID_LINEAR_ALLOCATOR_BITMAP_SIZE" using assms(1) by (simp add: rrc_inv_def)
  obtain bm k where k: "nr_uid_linear_allocator_new (rrc_uid_allocator I) = Inr (bm, of_nat k)"
      "length bm = NR_UID_LINEAR_ALLOCATOR_BITMAP_SIZE" "k < 32" "k \<notin> uids (rrc_uid_allocator I)"
      "\<forall>j<k. j \<in> uids (rrc_uid_allocator I)" "uids bm = insert k (uids (rrc_uid_allocator I))"
    using allocator_new(2) [OF len] uids_full(1) [OF assms(1)] assms(3) by blast
  have uk: "unat (of_nat k :: u32) = k" using k(3) by (simp add: unat_of_nat)
  define c where "c = (zero_ue_context nb (rrc_next_addr I))\<lparr>uc_local_uid := of_nat k,
      uc_e_rab_xid := replicate nb (- 1), uc_pduSession_xid := replicate nb (- 1),
      uc_modify_e_rab_xid := replicate nb (- 1), uc_ue_id_rnti := rnti, uc_rnti := rnti,
      uc_random_ue_identity := ue_identity\<rparr>"
  have c: "uc_ue_id_rnti c = rnti" "uc_rnti c = rnti" "uc_local_uid c = of_nat k" "uc_addr c = rrc_next_addr I"
    "uc_random_ue_identity c = ue_identity"
    by (simp_all add: c_def zero_ue_context_def)
  define I' where "I' = I\<lparr>rrc_uid_allocator := bm, rrc_next_addr := rrc_next_addr I + 1,
      rrc_ue_head := rrc_ue_tree_insert ?t c\<rparr>"
  have run: "rrc_gNB_get_next_free_ue_context nb I rnti ue_identity = Inr (I', Some c)"
    using assms(2) k(1)
    by (simp add: rrc_gNB_get_next_free_ue_context_def rrc_gNB_allocate_new_UE_context_def Let_def I'_def c_def)
  have fresh: "\<forall>x\<in>set ?t. uc_ue_id_rnti x \<noteq> uc_ue_id_rnti c"
    using get_ue_context_iff(2) [OF assms(1), of rnti] assms(2) c(1) by auto
  note ins = tree_insert_set [OF fresh]
  have un: "uc_local_uid c \<notin> uc_local_uid ` set ?t"
  proof
    assume "uc_local_uid c \<in> uc_local_uid ` set ?t"
    then have "k \<in> uids (rrc_uid_allocator I)" using assms(1) uk c(3) by (auto simp: rrc_inv_def)
    then show False using k(4) by simp
  qed
  have ad: "uc_addr c \<notin> uc_addr ` set ?t" using assms(1) c(4) by (auto simp: rrc_inv_def)
  have "rrc_inv I'"
    using assms(1) un ad ins(1) tree_insert_set(2) [OF fresh, of uc_addr] tree_insert_set(2) [OF fresh, of uc_local_uid]
      tree_insert_sorted [of ?t c] k(2,6) c(1-4) uk
    by (auto simp: rrc_inv_def I'_def)
  then show ?thesis using run ins(1,3) c k(3-5) by (auto simp: I'_def)
qed

text \<open>Removal takes the context out and gives its identifier back.\<close>

lemma remove_context:
  assumes "rrc_inv I" "c \<in> set (rrc_ue_head I)"
  shows "\<exists>I'. rrc_gNB_remove_ue_context (Some I) (Some c) = Inr (Some I') \<and> rrc_inv I' \<and>
     set (rrc_ue_head I') = set (rrc_ue_head I) - {c} \<and> rrc_Nb_ue I' = rrc_Nb_ue I - 1"
proof -
  let ?t = "rrc_ue_head I" and ?k = "unat (uc_local_uid c)"
  define t where "t = filter (\<lambda>x. uc_addr x \<noteq> uc_addr c) ?t"
  have inj: "inj_on uc_addr (set ?t)" "inj_on uc_local_uid (set ?t)" using assms(1) by (auto simp: rrc_inv_def distinct_map)
  have st: "set t = set ?t - {c}" using inj(1) assms(2) by (auto simp: t_def inj_on_def)
  have len: "length (rrc_uid_allocator I) = 1" using assms(1) by (simp add: rrc_inv_def bitmap_sizes)
  obtain bm where bm: "nr_uid_linear_allocator_free (rrc_uid_allocator I) (uc_local_uid c) = Inr bm"
      "length bm = 1" "uids bm = uids (rrc_uid_allocator I) - {?k}"
    using uid_free_spec [of ?k "rrc_uid_allocator I"] uid_range [OF assms] len by (auto simp: bitmap_sizes)
  have "unat ` uc_local_uid ` set t = unat ` uc_local_uid ` set ?t - {?k}"
    using st inj(2) assms(2) by (auto simp: inj_on_def simp flip: word_unat_eq_iff)
  then have "rrc_inv (I\<lparr>rrc_ue_head := t, rrc_uid_allocator := bm, rrc_Nb_ue := rrc_Nb_ue I - 1\<rparr>)"
    using assms(1) bm(2,3) st by (auto simp: rrc_inv_def t_def bitmap_sizes sorted_wrt_filter distinct_map intro: inj_on_subset)
  then show ?thesis
    using assms(2) bm(1) st by (auto simp: rrc_gNB_remove_ue_context_def rrc_ue_tree_remove_def t_def [symmetric])
qed

lemma next_free_full:
  assumes "rrc_inv I" "rrc_gNB_get_ue_context I rnti = None" "length (rrc_ue_head I) = 32"
  shows "rrc_gNB_get_next_free_ue_context nb I rnti ue_identity = Inl OutOfBounds"
  using assms allocator_new(1) [of "rrc_uid_allocator I"] uids_full(1) [OF assms(1)]
  by (simp add: rrc_gNB_get_next_free_ue_context_def rrc_gNB_allocate_new_UE_context_def rrc_inv_def)

text \<open>A new RNTI for a context: only its key changes, so the tree stays ordered.\<close>

lemma replace_rnti_inv:
  assumes "rrc_inv I" "c \<in> set (rrc_ue_head I)" "rrc_gNB_get_ue_context I rnti = None"
  shows "\<exists>I'. rrc_replace_rnti I c rnti = Inr I' \<and> rrc_inv I' \<and> rrc_Nb_ue I' = rrc_Nb_ue I \<and>
     set (rrc_ue_head I') = insert (c\<lparr>uc_ue_id_rnti := rnti, uc_rnti := rnti\<rparr>) (set (rrc_ue_head I) - {c})"
proof -
  let ?t = "rrc_ue_head I" and ?c = "c\<lparr>uc_ue_id_rnti := rnti, uc_rnti := rnti\<rparr>"
  define t where "t = filter (\<lambda>x. uc_addr x \<noteq> uc_addr c) ?t"
  have inj: "inj_on uc_addr (set ?t)" "inj_on uc_local_uid (set ?t)" using assms(1) by (auto simp: rrc_inv_def distinct_map)
  have st: "set t = set ?t - {c}" using inj(1) assms(2) by (auto simp: t_def inj_on_def)
  have fresh: "\<forall>x\<in>set t. uc_ue_id_rnti x \<noteq> uc_ue_id_rnti ?c"
    using get_ue_context_iff(2) [OF assms(1), of rnti] assms(3) st by auto
  define I' where "I' = I\<lparr>rrc_ue_head := rrc_ue_tree_insert t ?c\<rparr>"
  have run: "rrc_replace_rnti I c rnti = Inr I'"
    using assms(2) by (simp add: rrc_replace_rnti_def rrc_ue_tree_remove_def I'_def t_def)
  have h: "set (rrc_ue_head I') = insert ?c (set t)" using tree_insert_set(1) [OF fresh] by (simp add: I'_def)
  have ad: "uc_addr ?c \<notin> uc_addr ` set t" "uc_local_uid ?c \<notin> uc_local_uid ` set t"
    using inj st assms(2) by (auto simp: inj_on_def)
  have d: "distinct (map uc_addr t)" "distinct (map uc_local_uid t)"
    using assms(1) by (auto simp: rrc_inv_def t_def distinct_map intro: inj_on_subset)
  have srt: "sorted_wrt (\<lambda>c d. uc_ue_id_rnti c < uc_ue_id_rnti d) (rrc_ue_head I')"
    using assms(1) tree_insert_sorted [of t ?c] by (simp add: I'_def t_def rrc_inv_def sorted_wrt_filter)
  have "uc_local_uid ` set (rrc_ue_head I') = uc_local_uid ` set ?t"
    unfolding h st using assms(2) by (auto simp: image_iff)
  then have "rrc_inv I'"
    using assms(1,2) srt ad d h tree_insert_set(2) [OF fresh, of uc_addr] tree_insert_set(2) [OF fresh, of uc_local_uid] st
    by (auto simp: rrc_inv_def I'_def)
  then show ?thesis using run h st by (auto simp: I'_def)
qed

lemma moved_lookup:
  assumes "rrc_inv I" "rrc_gNB_ue_context_5g_s_tmsi_exist I s = Some c" "rrc_gNB_get_ue_context I r = None"
  shows "\<exists>I'. rrc_replace_rnti I c r = Inr I' \<and>
     (\<forall>q. rrc_gNB_get_ue_context I' q = (if q = r then Some (c\<lparr>uc_ue_id_rnti := r, uc_rnti := r\<rparr>)
        else if q = uc_rnti c then None else rrc_gNB_get_ue_context I q))"
proof -
  let ?c = "c\<lparr>uc_ue_id_rnti := r, uc_rnti := r\<rparr>"
  have c: "c \<in> set (rrc_ue_head I)" using assms(2) by (auto simp: rrc_gNB_ue_context_5g_s_tmsi_exist_def find_Some_iff)
  obtain I' where I': "rrc_replace_rnti I c r = Inr I'" "rrc_inv I'"
      "set (rrc_ue_head I') = insert ?c (set (rrc_ue_head I) - {c})"
    using replace_rnti_inv [OF assms(1) c assms(3)] by blast
  have rn: "uc_rnti c = uc_ue_id_rnti c" using assms(1) c by (simp add: rrc_inv_def)
  have old: "uc_ue_id_rnti x \<noteq> r" if "x \<in> set (rrc_ue_head I)" for x using get_ue_context_iff(2) [OF assms(1)] assms(3) that by blast
  have uniq: "x = c" if "x \<in> set (rrc_ue_head I)" "uc_ue_id_rnti x = uc_ue_id_rnti c" for x
    using get_ue_context_iff(1) [OF assms(1), of "uc_ue_id_rnti c"] that c by (metis option.inject)
  have "rrc_gNB_get_ue_context I' q = (if q = r then Some ?c else if q = uc_rnti c then None else rrc_gNB_get_ue_context I q)" for q
  proof (cases "q = r")
    case True
    then show ?thesis using get_ue_context_iff(1) [OF I'(2), of r ?c] I'(3) by simp
  next
    case nr: False
    show ?thesis
    proof (cases "q = uc_rnti c")
      case True
      then have "\<forall>x\<in>set (rrc_ue_head I'). uc_ue_id_rnti x \<noteq> q" using nr uniq rn I'(3) by auto
      then show ?thesis using get_ue_context_iff(2) [OF I'(2), of q] nr True by simp
    next
      case False
      show ?thesis
      proof (cases "rrc_gNB_get_ue_context I q")
        case None
        then show ?thesis using get_ue_context_iff(2) [OF I'(2), of q] get_ue_context_iff(2) [OF assms(1), of q] I'(3) nr False by simp
      next
        case (Some x)
        then have "x \<in> set (rrc_ue_head I)" "uc_ue_id_rnti x = q" using get_ue_context_iff(1) [OF assms(1)] by auto
        then show ?thesis using get_ue_context_iff(1) [OF I'(2), of q x] I'(3) nr False Some rn by auto
      qed
    qed
  qed
  then show ?thesis using I'(1) by blast
qed

lemma map_contexts_inv:
  assumes "rrc_inv I" "\<And>x. uc_ue_id_rnti (f x) = uc_ue_id_rnti x" "\<And>x. uc_rnti (f x) = uc_rnti x"
    "\<And>x. uc_addr (f x) = uc_addr x" "\<And>x. uc_local_uid (f x) = uc_local_uid x"
  shows "rrc_inv (I\<lparr>rrc_ue_head := map f (rrc_ue_head I)\<rparr>)"
  using assms(1) unfolding rrc_inv_def by (simp add: sorted_wrt_map assms(2-) comp_def image_image)

lemma set_tmsi_inv:
  "rrc_inv I \<Longrightarrow> rrc_inv (I\<lparr>rrc_ue_head := map (\<lambda>x. if uc_addr x = a then x\<lparr>uc_ng_5G_S_TMSI_Part1 := s\<rparr> else x) (rrc_ue_head I)\<rparr>)"
  by (rule map_contexts_inv) simp_all

lemma setup_s_tmsi_inv:
  assumes "rrc_inv I" "rrc_gNB_get_ue_context I rnti = None" "rrc_setup_s_tmsi nb I rnti s = Inr I'"
  shows "rrc_inv I' \<and> rrc_Nb_ue I' = rrc_Nb_ue I"
proof (cases "rrc_gNB_ue_context_5g_s_tmsi_exist I s")
  case (Some c)
  then have "c \<in> set (rrc_ue_head I)" by (auto simp: rrc_gNB_ue_context_5g_s_tmsi_exist_def find_Some_iff)
  then obtain J where "rrc_replace_rnti I c rnti = Inr J" "rrc_inv J" "rrc_Nb_ue J = rrc_Nb_ue I"
    using replace_rnti_inv [OF assms(1) _ assms(2)] by blast
  then show ?thesis using Some assms(3) by (simp add: rrc_setup_s_tmsi_def)
next
  case None
  show ?thesis
  proof (cases "length (rrc_ue_head I) = 32")
    case True
    then show ?thesis using next_free_full [OF assms(1,2), of nb s] None assms(3) by (simp add: rrc_setup_s_tmsi_def)
  next
    case False
    then show ?thesis using next_free_new [OF assms(1,2), of nb s] None assms(3) set_tmsi_inv by (auto simp: rrc_setup_s_tmsi_def)
  qed
qed

lemma initial_rrc_inv: "rrc_inv initial_rrc_inst"
  by (auto simp: rrc_inv_def initial_rrc_inst_def nr_uid_linear_allocator_init_def uids_def bitmap_sizes)

subsection \<open>Properties\<close>

text \<open>The calls on the instance of a standalone gNB, with the number of contexts removed so far: contexts are created and removed,
  and a set-up request with a 5G-S-TMSI from an RNTI without a context creates one or moves one to that RNTI.  The completion of a
  re-establishment (\<open>rrc_gNB.c:2560\<close>), which rewrites the key of a context while it is in the tree, is not among them, nor are the
  additions of a non-standalone gNB (\<open>rrc_gNB_nsa.c\<close>).\<close>

inductive rrc_history :: "nat \<Rightarrow> gNB_RRC_INST \<Rightarrow> nat \<Rightarrow> bool" for nb_rb_max where
  start: "rrc_history nb_rb_max initial_rrc_inst 0"
| create: "rrc_history nb_rb_max I n \<Longrightarrow>
     rrc_gNB_get_next_free_ue_context nb_rb_max I rnti ue_identity = Inr (I', r) \<Longrightarrow> rrc_history nb_rb_max I' n"
| remove: "rrc_history nb_rb_max I n \<Longrightarrow> c \<in> set (rrc_ue_head I) \<Longrightarrow>
     rrc_gNB_remove_ue_context (Some I) (Some c) = Inr (Some I') \<Longrightarrow> rrc_history nb_rb_max I' (Suc n)"
| s_tmsi: "rrc_history nb_rb_max I n \<Longrightarrow> rrc_gNB_get_ue_context I rnti = None \<Longrightarrow>
     rrc_setup_s_tmsi nb_rb_max I rnti s = Inr I' \<Longrightarrow> rrc_history nb_rb_max I' n"

lemma rrc_history_inv:
  assumes "rrc_history nb I n"
  shows "rrc_inv I \<and> rrc_Nb_ue I = - int n"
  using assms
proof induction
  case start
  then show ?case using initial_rrc_inv by (simp add: initial_rrc_inst_def)
next
  case (create I n rnti ue_identity I' r)
  then show ?case
    using next_free_new [of I rnti nb ue_identity] next_free_full [of I rnti nb ue_identity]
    by (cases "rrc_gNB_get_ue_context I rnti"; cases "length (rrc_ue_head I) = 32")
      (auto simp: rrc_gNB_get_next_free_ue_context_def)
next
  case (remove I n c I')
  then show ?case using remove_context [of I c] by auto
next
  case (s_tmsi I n rnti s I')
  then show ?case using setup_s_tmsi_inv [of I rnti nb s I'] by simp
qed

text \<open>
  C27: the UE contexts of RRC in a standalone gNB, after every sequence of creations, removals and moves to a new RNTI by a set-up
  request with a known 5G-S-TMSI (the operations that keep the key order of the tree; a re-establishment, which rewrites a key in
  place, does not).  RNTIs and local identifiers are unique, the bitmap holds exactly the identifiers of the contexts in the tree,
  there are at most 32 contexts, and a lookup by RNTI finds the context with that RNTI.  A move keeps the local identifier, gives the
  context the new RNTI and leaves the others alone.  None of these operations counts \<open>Nb_ue\<close> up, so it is minus the number of
  removals.
\<close>

theorem rrc_ue_contexts_invariant:
  assumes "rrc_history nb_rb_max I n"
  shows "distinct (map uc_ue_id_rnti (rrc_ue_head I)) \<and> distinct (map uc_local_uid (rrc_ue_head I)) \<and>
     uids (rrc_uid_allocator I) = unat ` uc_local_uid ` set (rrc_ue_head I) \<and> length (rrc_ue_head I) \<le> 32 \<and>
     (\<forall>c\<in>set (rrc_ue_head I). rrc_gNB_get_ue_context I (uc_rnti c) = Some c) \<and> rrc_Nb_ue I = - int n \<and>
     (\<forall>c r s. rrc_gNB_ue_context_5g_s_tmsi_exist I s = Some c \<and> rrc_gNB_get_ue_context I r = None \<longrightarrow>
       (\<exists>I'. rrc_setup_s_tmsi nb_rb_max I r s = Inr I' \<and>
          (\<forall>q. rrc_gNB_get_ue_context I' q = (if q = r then Some (c\<lparr>uc_ue_id_rnti := r, uc_rnti := r\<rparr>)
             else if q = uc_rnti c then None else rrc_gNB_get_ue_context I q))))"
proof -
  have inv: "rrc_inv I" and nb: "rrc_Nb_ue I = - int n" using rrc_history_inv [OF assms] by auto
  have get: "\<forall>c\<in>set (rrc_ue_head I). rrc_gNB_get_ue_context I (uc_rnti c) = Some c"
    using get_ue_context_iff(1) [OF inv] inv by (auto simp: rrc_inv_def)
  have "\<exists>I'. rrc_setup_s_tmsi nb_rb_max I r s = Inr I' \<and>
          (\<forall>q. rrc_gNB_get_ue_context I' q = (if q = r then Some (c\<lparr>uc_ue_id_rnti := r, uc_rnti := r\<rparr>)
             else if q = uc_rnti c then None else rrc_gNB_get_ue_context I q))"
    if "rrc_gNB_ue_context_5g_s_tmsi_exist I s = Some c" "rrc_gNB_get_ue_context I r = None" for c r s
    using moved_lookup [OF inv that] by (auto simp: rrc_setup_s_tmsi_def that(1))
  then show ?thesis
    using inv nb get uids_full(2) [OF inv] rrc_tree.keys_distinct by (auto simp: rrc_inv_def)
qed

lemma ex_rrc_created: "\<exists>I. rrc_history 14 I 0 \<and> length (rrc_ue_head I) = 1 \<and>
    rrc_gNB_get_next_free_ue_context 14 initial_rrc_inst 5 7 = Inr (I, Some (hd (rrc_ue_head I)))"
proof -
  have none: "rrc_gNB_get_ue_context initial_rrc_inst 5 = None"
    by (simp add: rrc_gNB_get_ue_context_def rrc_ue_tree_find_def rb_find_def initial_rrc_inst_def)
  obtain I c where I: "rrc_gNB_get_next_free_ue_context 14 initial_rrc_inst 5 7 = Inr (I, Some c)"
      "set (rrc_ue_head I) = {c}" "length (rrc_ue_head I) = 1"
    using next_free_new [OF initial_rrc_inv none, of 14 7] by (auto simp: initial_rrc_inst_def)
  then have "rrc_history 14 I 0" using rrc_history.create [OF rrc_history.start] by blast
  moreover have "hd (rrc_ue_head I) = c" using I(2,3) by (cases "rrc_ue_head I") auto
  ultimately show ?thesis using I by blast
qed

theorem rrc_ue_contexts_invariant_witness:
  "\<exists>I. length (rrc_ue_head I) = 1 \<and> rrc_gNB_get_ue_context I (uc_rnti (hd (rrc_ue_head I))) = Some (hd (rrc_ue_head I)) \<and>
     rrc_Nb_ue I = 0"
proof -
  obtain I where I: "rrc_history 14 I 0" "length (rrc_ue_head I) = 1" using ex_rrc_created by blast
  then have "hd (rrc_ue_head I) \<in> set (rrc_ue_head I)" by (cases "rrc_ue_head I") auto
  then show ?thesis using rrc_ue_contexts_invariant [OF I(1)] I(2) by auto
qed

text \<open>
  C28: the outcome of \<open>rrc_gNB_get_next_free_ue_context\<close>.  For a known RNTI there is no new context;
  otherwise the new context gets the smallest free local identifier and is found under its RNTI, and all
  others stay; but with 32 contexts the allocator reads a second word of a bitmap that has one word: its
  loop is bounded by the size for LTE, the array by the smaller size for NR.
\<close>

theorem rrc_next_free_ue_context_outcome:
  assumes "rrc_history nb_rb_max I n"
  shows "if rrc_gNB_get_ue_context I rnti \<noteq> None
     then rrc_gNB_get_next_free_ue_context nb_rb_max I rnti ue_identity = Inr (I, None)
     else if length (rrc_ue_head I) = 32
     then rrc_gNB_get_next_free_ue_context nb_rb_max I rnti ue_identity = Inl OutOfBounds
     else \<exists>I' c. rrc_gNB_get_next_free_ue_context nb_rb_max I rnti ue_identity = Inr (I', Some c) \<and>
       unat (uc_local_uid c) = (LEAST k. k \<notin> uids (rrc_uid_allocator I)) \<and>
       (\<forall>r. rrc_gNB_get_ue_context I' r = (if r = rnti then Some c else rrc_gNB_get_ue_context I r))"
proof -
  have inv: "rrc_inv I" using rrc_history_inv [OF assms] by simp
  show ?thesis
  proof (cases "rrc_gNB_get_ue_context I rnti")
    case (Some c)
    then show ?thesis by (simp add: rrc_gNB_get_next_free_ue_context_def)
  next
    case None
    show ?thesis
    proof (cases "length (rrc_ue_head I) = 32")
      case True
      then show ?thesis using next_free_full [OF inv None] None by simp
    next
      case False
      obtain I' c k where c: "rrc_gNB_get_next_free_ue_context nb_rb_max I rnti ue_identity = Inr (I', Some c)" "rrc_inv I'"
          "set (rrc_ue_head I') = insert c (set (rrc_ue_head I))" "uc_ue_id_rnti c = rnti" "uc_local_uid c = of_nat k"
          "k < 32" "k \<notin> uids (rrc_uid_allocator I)" "\<forall>j<k. j \<in> uids (rrc_uid_allocator I)"
        using next_free_new [OF inv None False] by blast
      have "(LEAST k. k \<notin> uids (rrc_uid_allocator I)) = k"
        by (rule Least_equality) (use c(7,8) in \<open>auto simp: not_less [symmetric]\<close>)
      moreover have "unat (uc_local_uid c) = k" using c(5,6) by (simp add: unat_of_nat)
      moreover have "rrc_gNB_get_ue_context I' r = (if r = rnti then Some c else rrc_gNB_get_ue_context I r)" for r
      proof (cases "r = rnti")
        case True
        then show ?thesis using get_ue_context_iff(1) [OF c(2), of r c] c(3,4) by simp
      next
        case other: False
        show ?thesis
        proof (cases "rrc_gNB_get_ue_context I r")
          case None
          then show ?thesis using get_ue_context_iff(2) [OF inv, of r] get_ue_context_iff(2) [OF c(2), of r] c(3,4) other by simp
        next
          case (Some x)
          then show ?thesis using get_ue_context_iff(1) [OF inv, of r x] get_ue_context_iff(1) [OF c(2), of r x] c(3) other by simp
        qed
      qed
      ultimately show ?thesis using None False c(1) by auto
    qed
  qed
qed

theorem rrc_next_free_ue_context_outcome_witness:
  "\<exists>I' c. rrc_gNB_get_next_free_ue_context 14 initial_rrc_inst 5 7 = Inr (I', Some c) \<and>
     rrc_gNB_get_ue_context I' 5 = Some c \<and> unat (uc_local_uid c) = (LEAST k. k \<notin> uids [0])"
proof -
  have "rrc_gNB_get_ue_context initial_rrc_inst 5 = None" "length (rrc_ue_head initial_rrc_inst) \<noteq> 32"
    "rrc_uid_allocator initial_rrc_inst = [0]"
    by (simp_all add: rrc_gNB_get_ue_context_def rrc_ue_tree_find_def rb_find_def initial_rrc_inst_def
        nr_uid_linear_allocator_init_def bitmap_sizes)
  then show ?thesis
    using rrc_next_free_ue_context_outcome [OF rrc_history.start [of 14], where rnti = 5 and ue_identity = 7] by auto
qed

end
