(* ===== verification/Ngap_Nnsf.thy ===== *)
theory Ngap_Nnsf
  imports Prelude
begin

text \<open>
  NGAP: the conversions of \<open>conversions.h\<close> that its messages use, the descriptors of AMFs and gNB of
  \<open>ngap_gNB_defs.h\<close>, and the selection of an AMF for a UE, \<open>ngap_gNB_nnsf.c\<close>.  The tree of AMFs is the list
  of its elements in the order of \<open>RB_FOREACH\<close>; a pointer to an AMF is its position there.
\<close>

subsection \<open>Conversions\<close>

definition MCC_HUNDREDS :: "int \<Rightarrow> int" where
  "MCC_HUNDREDS v = v div 100"

definition MNC_HUNDREDS :: "int \<Rightarrow> byte \<Rightarrow> int" where
  "MNC_HUNDREDS v mnc_digit_length = (if mnc_digit_length = 2 then 15 else v div 100)"

definition MCC_MNC_DECIMAL :: "int \<Rightarrow> int" where
  "MCC_MNC_DECIMAL v = v div 10 mod 10"

definition MCC_MNC_DIGIT :: "int \<Rightarrow> int" where
  "MCC_MNC_DIGIT v = v mod 10"

definition MCC_MNC_TO_PLMNID :: "u16 \<Rightarrow> u16 \<Rightarrow> byte \<Rightarrow> bytes" where
  "MCC_MNC_TO_PLMNID mcc mnc mnc_digit_length =
     [byte_of_int (push_bit 4 (MCC_MNC_DECIMAL (uint mcc)) OR MCC_HUNDREDS (uint mcc)),
      byte_of_int (push_bit 4 (MNC_HUNDREDS (uint mnc) mnc_digit_length) OR MCC_MNC_DIGIT (uint mcc)),
      byte_of_int (push_bit 4 (MCC_MNC_DIGIT (uint mnc)) OR MCC_MNC_DECIMAL (uint mnc))]"

definition MCC_MNC_TO_TBCD :: "u16 \<Rightarrow> u16 \<Rightarrow> byte \<Rightarrow> bytes res" where
  "MCC_MNC_TO_TBCD mcc mnc mnc_digit_length =
     bnd (guard (mnc_digit_length = 3 \<or> mnc_digit_length = 2) Exit) (\<lambda>_.
       Inr (MCC_MNC_TO_PLMNID mcc mnc mnc_digit_length))"

definition TBCD_TO_MCC_MNC :: "bytes \<Rightarrow> (u16 \<times> u16 \<times> byte) res" where
  "TBCD_TO_MCC_MNC buf =
     bnd (guard (length buf = 3) Exit) (\<lambda>_.
       let h = uint (drop_bit 4 (buf ! 1 AND 0xF0));
           hundred = (if h = 0xF then 0 else h);
           len = (if h = 0xF then 2 else 3);
           mcc = uint (drop_bit 4 (buf ! 0 AND 0xF0)) * 10 + uint (buf ! 0 AND 0x0F) * 100 + uint (buf ! 1 AND 0x0F);
           mnc = hundred * 100 + uint (drop_bit 4 (buf ! 2 AND 0xF0)) + uint (buf ! 2 AND 0x0F) * 10
       in Inr (word_of_int mcc, word_of_int mnc, len))"

text \<open>A bit string: its octets and the number of unused bits at the end.\<close>

type_synonym bit_string = "bytes \<times> nat"

definition INT16_TO_BUFFER :: "u16 \<Rightarrow> bytes" where
  "INT16_TO_BUFFER x = [ucast (drop_bit 8 x), ucast x]"

definition OCTET_STRING_TO_INT8 :: "bytes \<Rightarrow> byte res" where
  "OCTET_STRING_TO_INT8 buf = bnd (guard (length buf = 1) Exit) (\<lambda>_. Inr (buf ! 0))"

definition OCTET_STRING_TO_INT16 :: "bytes \<Rightarrow> u16 res" where
  "OCTET_STRING_TO_INT16 buf =
     bnd (guard (length buf = 2 \<or> length buf = 3) Exit) (\<lambda>_. Inr (push_bit 8 (ucast (buf ! 0)) OR ucast (buf ! 1)))"

definition AMF_SETID_TO_BIT_STRING :: "u16 \<Rightarrow> bit_string" where
  "AMF_SETID_TO_BIT_STRING x = (INT16_TO_BUFFER x, 6)"

definition INT24_TO_OCTET_STRING :: "u32 \<Rightarrow> bytes" where
  "INT24_TO_OCTET_STRING x = [ucast (drop_bit 16 x), ucast (drop_bit 8 x), ucast x]"

definition M_TMSI_TO_OCTET_STRING :: "u32 \<Rightarrow> bytes" where
  "M_TMSI_TO_OCTET_STRING x = [ucast (drop_bit 24 x), ucast (drop_bit 16 x), ucast (drop_bit 8 x), ucast x]"

definition MACRO_GNB_ID_TO_CELL_IDENTITY :: "u32 \<Rightarrow> u32 \<Rightarrow> bit_string" where
  "MACRO_GNB_ID_TO_CELL_IDENTITY macro cell_id =
     ([ucast (drop_bit 20 macro), ucast (drop_bit 12 macro), ucast (drop_bit 4 macro),
       ucast (push_bit 4 (macro AND 0x0F) OR drop_bit 4 cell_id), ucast (push_bit 4 (cell_id AND 0x0F))], 4)"

text \<open>The number that a bit string of ASN.1 denotes: its bits in order, without the unused ones.\<close>

definition bit_string_value :: "bit_string \<Rightarrow> nat" where
  "bit_string_value b = foldl (\<lambda>n x. 256 * n + unat x) 0 (fst b) div 2 ^ snd b"

subsection \<open>Descriptors\<close>

datatype ngap_gNB_state =
  NGAP_GNB_STATE_DISCONNECTED | NGAP_GNB_STATE_WAITING | NGAP_GNB_STATE_CONNECTED | NGAP_GNB_OVERLOAD

datatype ngap_overload_state =
  NGAP_OVERLOAD_REJECT_MO_DATA | NGAP_OVERLOAD_REJECT_ALL_SIGNALLING | NGAP_OVERLOAD_ONLY_EMERGENCY_AND_MT | NGAP_NO_OVERLOAD

definition NGAP_RRC_CAUSE_EMERGENCY :: nat where
  "NGAP_RRC_CAUSE_EMERGENCY = 0"

definition NGAP_RRC_CAUSE_MT_ACCESS :: nat where
  "NGAP_RRC_CAUSE_MT_ACCESS = 2"

definition NGAP_RRC_CAUSE_HIGH_PRIO_ACCESS :: nat where
  "NGAP_RRC_CAUSE_HIGH_PRIO_ACCESS = 1"

definition NGAP_RRC_CAUSE_MO_SIGNALLING :: nat where
  "NGAP_RRC_CAUSE_MO_SIGNALLING = 3"

definition NGAP_RRC_CAUSE_MO_DATA :: nat where
  "NGAP_RRC_CAUSE_MO_DATA = 4"

definition NGAP_RRC_CAUSE_LAST :: nat where
  "NGAP_RRC_CAUSE_LAST = 17"

record plmn_identity =
  pi_mcc :: u16
  pi_mnc :: u16
  pi_mnc_digit_length :: byte

record served_guami =
  sg_served_plmns :: "plmn_identity list"
  sg_served_region_ids :: "byte list"
  sg_amf_set_ids :: "u16 list"
  sg_amf_pointers :: "byte list"

record ngap_guami =
  gu_mcc :: u16
  gu_mnc :: u16
  gu_amf_region_id :: byte
  gu_amf_set_id :: u16
  gu_amf_pointer :: byte

text \<open>Of the descriptor of an AMF the fields that the modelled functions use.\<close>

record ngap_gNB_amf_data =
  ad_amf_name :: bytes
  ad_plmn_supports :: "(plmn_identity \<times> (byte \<times> bytes option) list) list"
  ad_served_guami :: "served_guami list"
  ad_relative_amf_capacity :: byte
  ad_overload_state :: ngap_overload_state
  ad_state :: ngap_gNB_state
  ad_nextstream :: int
  ad_in_streams :: u16
  ad_out_streams :: u16
  ad_assoc_id :: int

definition PLMN_LIST_MAX_SIZE :: nat where
  "PLMN_LIST_MAX_SIZE = 6"

subsection \<open>Which AMF can be used\<close>

text \<open>The condition of the \<open>continue\<close> statements on the state of an AMF.\<close>

definition amf_ready :: "nat \<Rightarrow> ngap_gNB_amf_data \<Rightarrow> bool" where
  "amf_ready cause a \<longleftrightarrow>
     (if ad_state a \<noteq> NGAP_GNB_STATE_CONNECTED
      then if ad_state a = NGAP_GNB_OVERLOAD
           then if cause = NGAP_RRC_CAUSE_MO_DATA \<and> ad_overload_state a = NGAP_OVERLOAD_REJECT_MO_DATA then False
                else if ad_overload_state a = NGAP_OVERLOAD_REJECT_ALL_SIGNALLING \<and>
                        (cause = NGAP_RRC_CAUSE_MO_SIGNALLING \<or> cause = NGAP_RRC_CAUSE_MO_DATA) then False
                else if ad_overload_state a = NGAP_OVERLOAD_ONLY_EMERGENCY_AND_MT \<and>
                        (cause = NGAP_RRC_CAUSE_MO_SIGNALLING \<or> cause = NGAP_RRC_CAUSE_MO_DATA \<or>
                         cause = NGAP_RRC_CAUSE_HIGH_PRIO_ACCESS) then False
                else True
           else False
      else True)"

definition amf_ready_no_cause :: "ngap_gNB_amf_data \<Rightarrow> bool" where
  "amf_ready_no_cause a \<longleftrightarrow>
     (if ad_state a \<noteq> NGAP_GNB_STATE_CONNECTED then ad_state a = NGAP_GNB_OVERLOAD else True)"

text \<open>\<open>mcc[selected_plmn_identity]\<close>, an array with \<open>PLMN_LIST_MAX_SIZE\<close> elements.\<close>

definition plmn_at :: "'a list \<Rightarrow> int \<Rightarrow> 'a res" where
  "plmn_at xs i = (if 0 \<le> i \<and> i < int (length xs) then Inr (xs ! nat i) else Inl OutOfBounds)"

text \<open>A search through a queue, with a test that may fault.\<close>

fun queue_search :: "('a \<Rightarrow> bool res) \<Rightarrow> 'a list \<Rightarrow> bool res" where
  "queue_search P [] = Inr False"
| "queue_search P (x # xs) = bnd (P x) (\<lambda>b. if b then Inr True else queue_search P xs)"

definition plmn_selected :: "u16 list \<Rightarrow> u16 list \<Rightarrow> int \<Rightarrow> plmn_identity \<Rightarrow> bool res" where
  "plmn_selected mcc mnc sel p =
     bnd (plmn_at mcc sel) (\<lambda>c.
       if pi_mcc p = c then bnd (plmn_at mnc sel) (\<lambda>n. Inr (pi_mnc p = n)) else Inr False)"

subsection \<open>Selection\<close>

text \<open>The loops that look for the highest capacity: \<open>i\<close> is the position of the next AMF.\<close>

fun amf_highest :: "(ngap_gNB_amf_data \<Rightarrow> bool res) \<Rightarrow> ngap_gNB_amf_data list \<Rightarrow> nat \<Rightarrow> byte \<Rightarrow> nat option \<Rightarrow> nat option res" where
  "amf_highest P [] i current_capacity best = Inr best"
| "amf_highest P (a # as) i current_capacity best =
     bnd (P a) (\<lambda>b.
       if b \<and> current_capacity < ad_relative_amf_capacity a
       then amf_highest P as (Suc i) (ad_relative_amf_capacity a) (Some i)
       else amf_highest P as (Suc i) current_capacity best)"

text \<open>The loops that return the first match.\<close>

fun amf_first :: "(ngap_gNB_amf_data \<Rightarrow> bool res) \<Rightarrow> ngap_gNB_amf_data list \<Rightarrow> nat \<Rightarrow> nat option res" where
  "amf_first P [] i = Inr None"
| "amf_first P (a # as) i = bnd (P a) (\<lambda>b. if b then Inr (Some i) else amf_first P as (Suc i))"

definition ngap_gNB_nnsf_select_amf :: "ngap_gNB_amf_data list \<Rightarrow> nat \<Rightarrow> nat option res" where
  "ngap_gNB_nnsf_select_amf amfs cause = amf_highest (\<lambda>a. Inr (amf_ready cause a)) amfs 0 0 None"

definition ngap_gNB_nnsf_select_amf_by_plmn_id ::
    "u16 list \<Rightarrow> u16 list \<Rightarrow> ngap_gNB_amf_data list \<Rightarrow> nat \<Rightarrow> int \<Rightarrow> nat option res" where
  "ngap_gNB_nnsf_select_amf_by_plmn_id mcc mnc amfs cause selected_plmn_identity =
     amf_highest (\<lambda>a. if amf_ready cause a
        then queue_search (\<lambda>g. queue_search (plmn_selected mcc mnc selected_plmn_identity) (sg_served_plmns g)) (ad_served_guami a)
        else Inr False) amfs 0 0 None"

text \<open>The parameter \<open>amf_setid\<close> has 8 bits, the identities it is compared with have 16.\<close>

definition ngap_gNB_nnsf_select_amf_by_amf_setid ::
    "u16 list \<Rightarrow> u16 list \<Rightarrow> ngap_gNB_amf_data list \<Rightarrow> nat \<Rightarrow> int \<Rightarrow> byte \<Rightarrow> nat option res" where
  "ngap_gNB_nnsf_select_amf_by_amf_setid mcc mnc amfs cause selected_plmn_identity amf_setid =
     amf_first (\<lambda>a. if amf_ready cause a
        then queue_search (\<lambda>g. bnd (queue_search (plmn_selected mcc mnc selected_plmn_identity) (sg_served_plmns g)) (\<lambda>p.
               Inr (ucast amf_setid \<in> set (sg_amf_set_ids g) \<and> p))) (ad_served_guami a)
        else Inr False) amfs 0"

definition plmn_of_guami :: "ngap_guami \<Rightarrow> plmn_identity \<Rightarrow> bool" where
  "plmn_of_guami guami p \<longleftrightarrow> pi_mcc p = gu_mcc guami \<and> pi_mnc p = gu_mnc guami"

definition serves_guami :: "ngap_guami \<Rightarrow> served_guami \<Rightarrow> bool" where
  "serves_guami guami g \<longleftrightarrow>
     list_ex (plmn_of_guami guami) (sg_served_plmns g) \<and> gu_amf_region_id guami \<in> set (sg_served_region_ids g) \<and>
     gu_amf_set_id guami \<in> set (sg_amf_set_ids g) \<and> gu_amf_pointer guami \<in> set (sg_amf_pointers g)"

definition ngap_gNB_nnsf_select_amf_by_guami :: "ngap_gNB_amf_data list \<Rightarrow> nat \<Rightarrow> ngap_guami \<Rightarrow> nat option res" where
  "ngap_gNB_nnsf_select_amf_by_guami amfs cause guami =
     amf_first (\<lambda>a. Inr (amf_ready cause a \<and> list_ex (serves_guami guami) (ad_served_guami a))) amfs 0"

text \<open>This one does not look at the pointer, and falls back to the highest capacity.\<close>

definition serves_guami_no_pointer :: "ngap_guami \<Rightarrow> served_guami \<Rightarrow> bool" where
  "serves_guami_no_pointer guami g \<longleftrightarrow>
     list_ex (plmn_of_guami guami) (sg_served_plmns g) \<and> gu_amf_region_id guami \<in> set (sg_served_region_ids g) \<and>
     gu_amf_set_id guami \<in> set (sg_amf_set_ids g)"

fun amf_by_guami_loop :: "ngap_guami \<Rightarrow> ngap_gNB_amf_data list \<Rightarrow> nat \<Rightarrow> byte \<Rightarrow> nat option \<Rightarrow> nat option" where
  "amf_by_guami_loop guami [] i current_capacity best = best"
| "amf_by_guami_loop guami (a # as) i current_capacity best =
     (if \<not> amf_ready_no_cause a then amf_by_guami_loop guami as (Suc i) current_capacity best
      else let better = current_capacity < ad_relative_amf_capacity a;
               cap = (if better then ad_relative_amf_capacity a else current_capacity);
               best' = (if better then Some i else best)
           in if list_ex (serves_guami_no_pointer guami) (ad_served_guami a) then Some i
              else amf_by_guami_loop guami as (Suc i) cap best')"

definition ngap_gNB_nnsf_select_amf_by_guami_no_cause :: "ngap_gNB_amf_data list \<Rightarrow> ngap_guami \<Rightarrow> nat option" where
  "ngap_gNB_nnsf_select_amf_by_guami_no_cause amfs guami = amf_by_guami_loop guami amfs 0 0 None"

subsection \<open>What the loops find\<close>

text \<open>The first of the AMFs of the highest capacity among those with a property; none if all of these have
  capacity 0.\<close>

definition best_amf :: "(ngap_gNB_amf_data \<Rightarrow> bool) \<Rightarrow> ngap_gNB_amf_data list \<Rightarrow> nat option \<Rightarrow> bool" where
  "best_amf Q amfs r \<longleftrightarrow>
     (case r of
        None \<Rightarrow> \<forall>a\<in>set amfs. Q a \<longrightarrow> ad_relative_amf_capacity a = 0
      | Some i \<Rightarrow> i < length amfs \<and> Q (amfs ! i) \<and> 0 < ad_relative_amf_capacity (amfs ! i) \<and>
          (\<forall>j<length amfs. Q (amfs ! j) \<longrightarrow> ad_relative_amf_capacity (amfs ! j) \<le> ad_relative_amf_capacity (amfs ! i) \<and>
             (j < i \<longrightarrow> ad_relative_amf_capacity (amfs ! j) < ad_relative_amf_capacity (amfs ! i))))"

definition first_amf :: "(ngap_gNB_amf_data \<Rightarrow> bool) \<Rightarrow> ngap_gNB_amf_data list \<Rightarrow> nat option \<Rightarrow> bool" where
  "first_amf Q amfs r \<longleftrightarrow>
     (case r of None \<Rightarrow> \<forall>a\<in>set amfs. \<not> Q a | Some i \<Rightarrow> i < length amfs \<and> Q (amfs ! i) \<and> (\<forall>j<i. \<not> Q (amfs ! j)))"

definition capacity_of :: "ngap_gNB_amf_data list \<Rightarrow> nat option \<Rightarrow> byte" where
  "capacity_of amfs r = (case r of None \<Rightarrow> 0 | Some i \<Rightarrow> ad_relative_amf_capacity (amfs ! i))"

lemma best_amf_unique:
  assumes "best_amf Q amfs r" "best_amf Q amfs r'"
  shows "r = r'"
proof (cases r; cases r')
  fix i assume "r = None" "r' = Some i"
  then show ?thesis using assms by (auto simp: best_amf_def)
next
  fix i assume "r = Some i" "r' = None"
  then show ?thesis using assms by (auto simp: best_amf_def)
next
  fix i j assume r: "r = Some i" "r' = Some j"
  have "\<not> i < j" "\<not> j < i" using assms unfolding r best_amf_def by (auto dest: leD)
  then show ?thesis using r by simp
qed simp

lemma best_amf_snoc:
  assumes "best_amf Q pre r"
  shows "best_amf Q (pre @ [a])
    (if Q a \<and> capacity_of pre r < ad_relative_amf_capacity a then Some (length pre) else r)"
proof (cases "Q a \<and> capacity_of pre r < ad_relative_amf_capacity a")
  case True
  have "ad_relative_amf_capacity (pre ! j) \<le> capacity_of pre r" if "j < length pre" "Q (pre ! j)" for j
    using assms that by (auto simp: best_amf_def capacity_of_def split: option.splits)
  then have "ad_relative_amf_capacity (pre ! j) < ad_relative_amf_capacity a" if "j < length pre" "Q (pre ! j)" for j
    using True that by (meson le_less_trans)
  moreover have "0 < ad_relative_amf_capacity a" using True by (meson le_less_trans word_zero_le)
  ultimately show ?thesis using True by (auto simp: best_amf_def nth_append less_Suc_eq intro: less_imp_le)
next
  case False
  show ?thesis
  proof (cases r)
    case None
    then show ?thesis using False assms by (auto simp: best_amf_def capacity_of_def word_gt_0)
  next
    case (Some i)
    then show ?thesis using False assms by (auto simp: best_amf_def capacity_of_def nth_append less_Suc_eq)
  qed
qed

lemma amf_highest_loop:
  assumes "\<And>a. a \<in> set as \<Longrightarrow> P a = Inr (Q a)" "best_amf Q pre r"
  shows "\<exists>r'. amf_highest P as (length pre) (capacity_of pre r) r = Inr r' \<and> best_amf Q (pre @ as) r'"
  using assms
proof (induction as arbitrary: pre r)
  case (Cons a as)
  let ?r = "if Q a \<and> capacity_of pre r < ad_relative_amf_capacity a then Some (length pre) else r"
  have P: "P a = Inr (Q a)" using Cons.prems(1) by simp
  have c: "capacity_of (pre @ [a]) ?r =
      (if Q a \<and> capacity_of pre r < ad_relative_amf_capacity a then ad_relative_amf_capacity a else capacity_of pre r)"
    using Cons.prems(2) by (auto simp: capacity_of_def best_amf_def nth_append split: option.splits)
  have "\<exists>r'. amf_highest P as (length (pre @ [a])) (capacity_of (pre @ [a]) ?r) ?r = Inr r' \<and> best_amf Q ((pre @ [a]) @ as) r'"
    by (rule Cons.IH [OF _ best_amf_snoc [OF Cons.prems(2)]]) (simp add: Cons.prems(1))
  then show ?case unfolding c by (auto simp: P)
qed simp

lemma amf_highest_iff:
  assumes "\<And>a. a \<in> set amfs \<Longrightarrow> P a = Inr (Q a)"
  shows "amf_highest P amfs 0 0 None = Inr r \<longleftrightarrow> best_amf Q amfs r"
proof -
  have "best_amf Q [] None" by (simp add: best_amf_def)
  from amf_highest_loop [OF assms this] obtain r' where
    "amf_highest P amfs 0 0 None = Inr r'" "best_amf Q amfs r'" by (auto simp: capacity_of_def)
  then show ?thesis using best_amf_unique by auto
qed

lemma amf_first_loop:
  assumes "\<And>a. a \<in> set amfs \<Longrightarrow> P a = Inr (Q a)"
  shows "\<exists>r. amf_first P amfs n = Inr (map_option ((+) n) r) \<and> first_amf Q amfs r"
  using assms
proof (induction amfs arbitrary: n)
  case (Cons a as)
  have P: "P a = Inr (Q a)" using Cons.prems by simp
  show ?case
  proof (cases "Q a")
    case True
    then show ?thesis using P by (intro exI [of _ "Some 0"]) (simp add: first_amf_def)
  next
    case False
    obtain r where r: "amf_first P as (Suc n) = Inr (map_option ((+) (Suc n)) r)" "first_amf Q as r"
      using Cons.IH [of "Suc n"] Cons.prems by (meson list.set_intros(2))
    have "first_amf Q (a # as) (map_option Suc r)"
      using r(2) False by (auto simp: first_amf_def nth_Cons split: option.splits nat.splits)
    moreover have "map_option ((+) (Suc n)) r = map_option ((+) n) (map_option Suc r)" by (cases r) simp_all
    ultimately show ?thesis using r(1) P False by (intro exI [of _ "map_option Suc r"]) simp
  qed
qed (auto simp: first_amf_def)

lemma amf_first_iff:
  assumes "\<And>a. a \<in> set amfs \<Longrightarrow> P a = Inr (Q a)"
  shows "amf_first P amfs 0 = Inr r \<longleftrightarrow> first_amf Q amfs r"
proof -
  have u: "r1 = r2" if "first_amf Q amfs r1" "first_amf Q amfs r2" for r1 r2
    using that by (auto simp: first_amf_def split: option.splits) (meson linorder_neqE_nat)
  obtain r' where "amf_first P amfs 0 = Inr r'" "first_amf Q amfs r'"
    using amf_first_loop [of amfs P Q 0] assms by (auto simp: map_option_idI)
  then show ?thesis using u by auto
qed

text \<open>A result is a position in the list.\<close>

lemma amf_highest_bound: "amf_highest P as i c best = Inr (Some j) \<Longrightarrow> best = Some j \<or> i \<le> j \<and> j < i + length as"
  by (induction as arbitrary: i c best) (fastforce simp: bnd_eq_Inr split: if_splits)+

lemma amf_first_bound: "amf_first P as i = Inr (Some j) \<Longrightarrow> i \<le> j \<and> j < i + length as"
  by (induction as arbitrary: i) (fastforce simp: bnd_eq_Inr split: if_splits)+

text \<open>A search whose test does not fault.\<close>

lemma queue_search_Inr: "(\<And>x. x \<in> set xs \<Longrightarrow> P x = Inr (Q x)) \<Longrightarrow> queue_search P xs = Inr (\<exists>x\<in>set xs. Q x)"
  by (induction xs) auto

text \<open>
  The causes that an overloaded AMF permits, as the comment on the overload states in \<open>ngap_gNB_defs.h\<close> says, and those that pass
  although they are not among them: in the state that permits only emergency and mobile terminated access the code refuses three
  causes by name, so calls, messages, the priority causes and the unknown cause pass.
\<close>

definition documented_permits :: "ngap_overload_state \<Rightarrow> nat \<Rightarrow> bool" where
  "documented_permits s cause \<longleftrightarrow>
     (case s of
        NGAP_OVERLOAD_REJECT_MO_DATA \<Rightarrow> cause \<noteq> NGAP_RRC_CAUSE_MO_DATA
      | NGAP_OVERLOAD_REJECT_ALL_SIGNALLING \<Rightarrow> cause \<noteq> NGAP_RRC_CAUSE_MO_DATA \<and> cause \<noteq> NGAP_RRC_CAUSE_MO_SIGNALLING
      | NGAP_OVERLOAD_ONLY_EMERGENCY_AND_MT \<Rightarrow> cause = NGAP_RRC_CAUSE_EMERGENCY \<or> cause = NGAP_RRC_CAUSE_MT_ACCESS
      | NGAP_NO_OVERLOAD \<Rightarrow> True)"

definition undocumented_passes :: "ngap_overload_state \<Rightarrow> nat \<Rightarrow> bool" where
  "undocumented_passes s cause \<longleftrightarrow> s = NGAP_OVERLOAD_ONLY_EMERGENCY_AND_MT \<and>
     cause \<notin> {NGAP_RRC_CAUSE_EMERGENCY, NGAP_RRC_CAUSE_MT_ACCESS, NGAP_RRC_CAUSE_MO_DATA, NGAP_RRC_CAUSE_MO_SIGNALLING,
       NGAP_RRC_CAUSE_HIGH_PRIO_ACCESS}"

definition amf_admits :: "nat \<Rightarrow> ngap_gNB_amf_data \<Rightarrow> bool" where
  "amf_admits cause a \<longleftrightarrow> ad_state a = NGAP_GNB_STATE_CONNECTED \<or>
     ad_state a = NGAP_GNB_OVERLOAD \<and>
     (documented_permits (ad_overload_state a) cause \<or> undocumented_passes (ad_overload_state a) cause)"

lemma amf_ready_admits: "amf_ready cause a \<longleftrightarrow> amf_admits cause a"
  by (cases "ad_overload_state a")
    (auto simp: amf_ready_def amf_admits_def documented_permits_def undocumented_passes_def NGAP_RRC_CAUSE_EMERGENCY_def
      NGAP_RRC_CAUSE_MT_ACCESS_def NGAP_RRC_CAUSE_HIGH_PRIO_ACCESS_def NGAP_RRC_CAUSE_MO_SIGNALLING_def NGAP_RRC_CAUSE_MO_DATA_def)

definition serves_plmn :: "u16 \<Rightarrow> u16 \<Rightarrow> served_guami \<Rightarrow> bool" where
  "serves_plmn c n g \<longleftrightarrow> (\<exists>p\<in>set (sg_served_plmns g). pi_mcc p = c \<and> pi_mnc p = n)"

lemma plmn_search:
  assumes "0 \<le> sel" "sel < int (length mcc)" "length mnc = length mcc"
  shows "queue_search (plmn_selected mcc mnc sel) (sg_served_plmns g) = Inr (serves_plmn (mcc ! nat sel) (mnc ! nat sel) g)"
  unfolding serves_plmn_def using assms by (intro queue_search_Inr) (simp add: plmn_selected_def plmn_at_def)

abbreviation "guami_match guami a \<equiv> amf_ready_no_cause a \<and> list_ex (serves_guami_no_pointer guami) (ad_served_guami a)"

lemma by_guami_loop_match:
  "first_amf (guami_match guami) as (Some k) \<Longrightarrow> amf_by_guami_loop guami as i cap best = Some (i + k)"
proof (induction as arbitrary: k i cap best)
  case (Cons a as)
  show ?case
  proof (cases k)
    case 0
    then show ?thesis using Cons.prems by (simp add: first_amf_def Let_def)
  next
    case (Suc m)
    have "\<not> guami_match guami a" "first_amf (guami_match guami) as (Some m)"
      using Cons.prems Suc by (auto simp: first_amf_def All_less_Suc2)
    then show ?thesis using Cons.IH Suc by (auto simp: Let_def)
  qed
qed (simp add: first_amf_def)

lemma by_guami_loop_fallback:
  assumes "best_amf amf_ready_no_cause pre r" "\<forall>a\<in>set as. \<not> guami_match guami a"
  shows "best_amf amf_ready_no_cause (pre @ as) (amf_by_guami_loop guami as (length pre) (capacity_of pre r) r)"
  using assms
proof (induction as arbitrary: pre r)
  case (Cons a as)
  let ?b = "amf_ready_no_cause a \<and> capacity_of pre r < ad_relative_amf_capacity a"
  let ?r = "if ?b then Some (length pre) else r"
  have c: "capacity_of (pre @ [a]) ?r = (if ?b then ad_relative_amf_capacity a else capacity_of pre r)"
    using Cons.prems(1) by (auto simp: capacity_of_def best_amf_def nth_append split: option.splits)
  have "\<not> guami_match guami a" using Cons.prems(2) by simp
  then have st: "amf_by_guami_loop guami (a # as) (length pre) (capacity_of pre r) r =
      amf_by_guami_loop guami as (length (pre @ [a])) (if ?b then ad_relative_amf_capacity a else capacity_of pre r) ?r"
    by (auto simp: Let_def)
  have "best_amf amf_ready_no_cause ((pre @ [a]) @ as)
     (amf_by_guami_loop guami as (length (pre @ [a])) (capacity_of (pre @ [a]) ?r) ?r)"
    by (rule Cons.IH [OF best_amf_snoc [OF Cons.prems(1)]]) (use Cons.prems(2) in simp)
  then show ?case unfolding st c by simp
qed simp

subsection \<open>Properties\<close>

text \<open>
  C24: the selection of an AMF.  An AMF is admitted if it is connected, or overloaded and its overload state permits the
  cause of the UE as documented, or if it is overloaded and permits only emergency and mobile terminated access and the cause is any
  other than mo-data, mo-signalling and high priority access, which the documentation excludes and the code does not refuse.  Among
  the admitted ones, the selection by capacity and the one by PLMN return the first one with the
  highest capacity, and none if and only if every one of them has capacity 0; the selection by GUAMI returns the
  first one that serves the GUAMI; without a cause, one that serves the GUAMI except for the AMF pointer and
  otherwise the highest capacity.  An index into the PLMNs of the gNB inside the array never faults.
\<close>

theorem amf_selection_spec:
  assumes "0 \<le> sel" "sel < int (length mcc)" "length mnc = length mcc"
  shows "(ngap_gNB_nnsf_select_amf amfs cause = Inr r \<longleftrightarrow> best_amf (amf_admits cause) amfs r) \<and>
    (ngap_gNB_nnsf_select_amf_by_plmn_id mcc mnc amfs cause sel = Inr r \<longleftrightarrow>
       best_amf (\<lambda>a. amf_admits cause a \<and> (\<exists>g\<in>set (ad_served_guami a). serves_plmn (mcc ! nat sel) (mnc ! nat sel) g)) amfs r) \<and>
    (ngap_gNB_nnsf_select_amf_by_amf_setid mcc mnc amfs cause sel s = Inr r \<longleftrightarrow>
       first_amf (\<lambda>a. amf_admits cause a \<and> (\<exists>g\<in>set (ad_served_guami a).
         serves_plmn (mcc ! nat sel) (mnc ! nat sel) g \<and> ucast s \<in> set (sg_amf_set_ids g))) amfs r) \<and>
    (ngap_gNB_nnsf_select_amf_by_guami amfs cause guami = Inr r \<longleftrightarrow>
       first_amf (\<lambda>a. amf_admits cause a \<and> (\<exists>g\<in>set (ad_served_guami a). serves_guami guami g)) amfs r) \<and>
    (case ngap_gNB_nnsf_select_amf_by_guami_no_cause amfs guami of
       None \<Rightarrow> best_amf amf_ready_no_cause amfs None \<and> (\<forall>a\<in>set amfs. \<not> guami_match guami a)
     | Some i \<Rightarrow> first_amf (guami_match guami) amfs (Some i) \<or>
         (\<forall>a\<in>set amfs. \<not> guami_match guami a) \<and> best_amf amf_ready_no_cause amfs (Some i))"
proof (intro conjI)
  show "ngap_gNB_nnsf_select_amf amfs cause = Inr r \<longleftrightarrow> best_amf (amf_admits cause) amfs r"
    unfolding ngap_gNB_nnsf_select_amf_def by (rule amf_highest_iff) (simp add: amf_ready_admits)
  show "ngap_gNB_nnsf_select_amf_by_plmn_id mcc mnc amfs cause sel = Inr r \<longleftrightarrow>
       best_amf (\<lambda>a. amf_admits cause a \<and> (\<exists>g\<in>set (ad_served_guami a). serves_plmn (mcc ! nat sel) (mnc ! nat sel) g)) amfs r"
    unfolding ngap_gNB_nnsf_select_amf_by_plmn_id_def
    by (rule amf_highest_iff) (simp add: amf_ready_admits plmn_search [OF assms] queue_search_Inr)
  show "ngap_gNB_nnsf_select_amf_by_amf_setid mcc mnc amfs cause sel s = Inr r \<longleftrightarrow>
       first_amf (\<lambda>a. amf_admits cause a \<and> (\<exists>g\<in>set (ad_served_guami a).
         serves_plmn (mcc ! nat sel) (mnc ! nat sel) g \<and> ucast s \<in> set (sg_amf_set_ids g))) amfs r"
    unfolding ngap_gNB_nnsf_select_amf_by_amf_setid_def
    by (rule amf_first_iff) (auto simp: amf_ready_admits plmn_search [OF assms] queue_search_Inr)
  show "ngap_gNB_nnsf_select_amf_by_guami amfs cause guami = Inr r \<longleftrightarrow>
       first_amf (\<lambda>a. amf_admits cause a \<and> (\<exists>g\<in>set (ad_served_guami a). serves_guami guami g)) amfs r"
    unfolding ngap_gNB_nnsf_select_amf_by_guami_def
    by (rule amf_first_iff) (simp add: amf_ready_admits list_ex_iff)
  let ?r = "ngap_gNB_nnsf_select_amf_by_guami_no_cause amfs guami"
  have fb: "best_amf amf_ready_no_cause amfs ?r" if "\<forall>a\<in>set amfs. \<not> guami_match guami a"
    using by_guami_loop_fallback [of "[]" None amfs guami] that
    by (simp add: best_amf_def [of _ "[]"] capacity_of_def ngap_gNB_nnsf_select_amf_by_guami_no_cause_def)
  show "case ?r of None \<Rightarrow> best_amf amf_ready_no_cause amfs None \<and> (\<forall>a\<in>set amfs. \<not> guami_match guami a)
     | Some i \<Rightarrow> first_amf (guami_match guami) amfs (Some i) \<or>
         (\<forall>a\<in>set amfs. \<not> guami_match guami a) \<and> best_amf amf_ready_no_cause amfs (Some i)"
  proof (cases "\<forall>a\<in>set amfs. \<not> guami_match guami a")
    case True
    from fb [OF True] True show ?thesis by (cases ?r) simp_all
  next
    case False
    obtain f where f: "first_amf (guami_match guami) amfs f"
      using amf_first_loop [of amfs "\<lambda>a. Inr (guami_match guami a)" "guami_match guami" 0] by blast
    with False obtain k where k: "f = Some k" by (cases f) (auto simp: first_amf_def)
    then have "?r = Some k"
      using by_guami_loop_match [of guami amfs k 0 0 None] f by (simp add: ngap_gNB_nnsf_select_amf_by_guami_no_cause_def)
    then show ?thesis using f k by simp
  qed
qed

text \<open>Three AMFs: one that only admits emergency and terminating calls, and two connected ones.\<close>

definition example_amfs :: "ngap_gNB_amf_data list" where
  "example_amfs = map (\<lambda>(st, cap). \<lparr>ad_amf_name = [], ad_plmn_supports = [], ad_served_guami = [\<lparr>sg_served_plmns = [\<lparr>pi_mcc = 208, pi_mnc = 93, pi_mnc_digit_length = 2\<rparr>],
        sg_served_region_ids = [1], sg_amf_set_ids = [64], sg_amf_pointers = [0]\<rparr>],
      ad_relative_amf_capacity = cap, ad_overload_state = NGAP_OVERLOAD_ONLY_EMERGENCY_AND_MT, ad_state = st,
      ad_nextstream = 0, ad_in_streams = 2, ad_out_streams = 2, ad_assoc_id = 1\<rparr>)
     [(NGAP_GNB_OVERLOAD, 200), (NGAP_GNB_STATE_CONNECTED, 10), (NGAP_GNB_STATE_CONNECTED, 30)]"

theorem amf_selection_spec_witness:
  "ngap_gNB_nnsf_select_amf_by_plmn_id [208, 0] [93, 0] example_amfs NGAP_RRC_CAUSE_MO_DATA 0 = Inr (Some 2) \<and>
   best_amf (amf_admits NGAP_RRC_CAUSE_MO_DATA) example_amfs (Some 2) \<and>
   best_amf (amf_admits 0) example_amfs (Some 0) \<and>
   first_amf (\<lambda>a. amf_admits NGAP_RRC_CAUSE_MO_DATA a \<and> (\<exists>g\<in>set (ad_served_guami a). serves_plmn 208 93 g \<and> ucast (64 :: byte) \<in> set (sg_amf_set_ids g)))
     example_amfs (Some 1)"
proof -
  note o = amf_selection_spec [of 0 "[208, 0]" "[93, 0]" example_amfs]
  have "ngap_gNB_nnsf_select_amf_by_plmn_id [208, 0] [93, 0] example_amfs NGAP_RRC_CAUSE_MO_DATA 0 = Inr (Some 2)"
    "ngap_gNB_nnsf_select_amf example_amfs NGAP_RRC_CAUSE_MO_DATA = Inr (Some 2)"
    "ngap_gNB_nnsf_select_amf example_amfs 0 = Inr (Some 0)"
    "ngap_gNB_nnsf_select_amf_by_amf_setid [208, 0] [93, 0] example_amfs NGAP_RRC_CAUSE_MO_DATA 0 64 = Inr (Some 1)"
    by code_simp+
  then show ?thesis
    using o [of NGAP_RRC_CAUSE_MO_DATA "Some 2"] o [of 0 "Some 0"] o [of NGAP_RRC_CAUSE_MO_DATA "Some 1" 64] by simp
qed

subsection \<open>Round trips\<close>

lemma nibbles_all:
  "list_all (\<lambda>h. list_all (\<lambda>l. uint (drop_bit 4 (byte_of_int (push_bit 4 h OR l) AND 0xF0)) = h \<and>
     uint (byte_of_int (push_bit 4 h OR l) AND 0x0F) = l) [0..15]) [0..15]"
  by code_simp

lemma nibbles:
  assumes "0 \<le> h" "h < 16" "0 \<le> l" "l < 16"
  shows "uint (drop_bit 4 (byte_of_int (push_bit 4 h OR l) AND 0xF0)) = h" "uint (byte_of_int (push_bit 4 h OR l) AND 0x0F) = l"
proof -
  have "h \<in> set [0..15]" "l \<in> set [0..15]" using assms by simp_all
  then show "uint (drop_bit 4 (byte_of_int (push_bit 4 h OR l) AND 0xF0)) = h" "uint (byte_of_int (push_bit 4 h OR l) AND 0x0F) = l"
    using nibbles_all unfolding list_all_iff by blast+
qed

lemma three_digits: "v div 10 mod 10 * 10 + v div 100 * 100 + v mod 10 = (v :: int)"
proof -
  have "v div 100 = v div 10 div 10" using zdiv_zmult2_eq [of 10 v 10] by simp
  then show ?thesis using mult_div_mod_eq [of 10 v] mult_div_mod_eq [of 10 "v div 10"] by linarith
qed

text \<open>
  The PLMN identity survives the transfer.  A country code and a network code of at most three digits
  (two, if the network code is said to have two) that are written into a message are read back unchanged, with
  the number of digits.
\<close>

theorem plmn_roundtrip:
  assumes "mcc < 1000" "mnc < (if len = 2 then 100 else 1000)" "len = 2 \<or> len = 3"
  shows "bnd (MCC_MNC_TO_TBCD mcc mnc len) TBCD_TO_MCC_MNC = Inr (mcc, mnc, len)"
proof -
  have m: "0 \<le> uint mcc" "uint mcc < 1000" using assms(1) by (simp_all add: word_less_def)
  have n: "0 \<le> uint mnc" "uint mnc < 1000" "len = 2 \<Longrightarrow> uint mnc < 100"
    using assms(2) by (auto simp: word_less_def split: if_splits)
  let ?h = "MNC_HUNDREDS (uint mnc) len"
  have "0 \<le> uint mnc div 100" "uint mnc div 100 < 10" using n by (simp_all add: div_int_pos_iff)
  then have h: "0 \<le> ?h" "?h < 16" "?h = 15 \<longleftrightarrow> len = 2" by (auto simp: MNC_HUNDREDS_def)
  have d: "0 \<le> MCC_MNC_DECIMAL v \<and> MCC_MNC_DECIMAL v < 16 \<and> 0 \<le> MCC_MNC_DIGIT v \<and> MCC_MNC_DIGIT v < 16" for v
    by (simp add: MCC_MNC_DECIMAL_def MCC_MNC_DIGIT_def pos_mod_bound [of 10, THEN less_trans])
  have c: "0 \<le> MCC_HUNDREDS (uint mcc)" "MCC_HUNDREDS (uint mcc) < 16" using m by (simp_all add: MCC_HUNDREDS_def div_int_pos_iff)
  have e: "MCC_MNC_TO_TBCD mcc mnc len = Inr (MCC_MNC_TO_PLMNID mcc mnc len)"
    using assms(3) by (auto simp: MCC_MNC_TO_TBCD_def)
  have mcc: "MCC_MNC_DECIMAL (uint mcc) * 10 + MCC_HUNDREDS (uint mcc) * 100 + MCC_MNC_DIGIT (uint mcc) = uint mcc"
    using three_digits [of "uint mcc"] by (simp add: MCC_MNC_DECIMAL_def MCC_HUNDREDS_def MCC_MNC_DIGIT_def)
  have mnc: "(if ?h = 15 then 0 else ?h) * 100 + MCC_MNC_DIGIT (uint mnc) + MCC_MNC_DECIMAL (uint mnc) * 10 = uint mnc"
    using three_digits [of "uint mnc"] n(3) h(3) by (auto simp: MCC_MNC_DECIMAL_def MNC_HUNDREDS_def MCC_MNC_DIGIT_def)
  have l: "(if ?h = 15 then 2 else 3) = len" using h(3) assms(3) by auto
  show ?thesis
    unfolding e MCC_MNC_TO_PLMNID_def bnd_Inr TBCD_TO_MCC_MNC_def Let_def
    by (simp only: list.size nth_Cons_0 nth_Cons_Suc One_nat_def numeral_2_eq_2 nibbles c d h(1,2) mcc mnc l) simp
qed

theorem plmn_roundtrip_witness:
  "bnd (MCC_MNC_TO_TBCD 208 93 2) TBCD_TO_MCC_MNC = Inr (208, 93, 2) \<and> bnd (MCC_MNC_TO_TBCD 310 410 3) TBCD_TO_MCC_MNC = Inr (310, 410, 3)"
  using plmn_roundtrip [of 208 93 2] plmn_roundtrip [of 310 410 3] by simp

end
