(* ===== verification/Ngap_Nas.thy ===== *)
theory Ngap_Nas
  imports Ngap_Nnsf Rb_Tree
begin

text \<open>
  NGAP: the contexts of UEs (\<open>ngap_gNB_ue_context.c\<close>), the NG set-up with an AMF (\<open>ngap_gNB_handlers.c\<close>), the
  transport of NAS messages (\<open>ngap_gNB_nas_procedures.c\<close>) and the release of a context
  (\<open>ngap_gNB_context_management_procedures.c\<close>), for one gNB instance.

  A message is the list of its information elements; the ASN.1 encoder is a parameter that may fail.  Incoming
  messages come with the AMF that \<open>ngap_gNB_get_AMF\<close> finds for their association, if any.  \<open>random\<close> is a
  sequence of numbers, of which the state counts how many are used up.
\<close>

subsection \<open>Data\<close>

datatype ngap_ue_state = NGAP_UE_DECONNECTED | NGAP_UE_WAITING_CSR | NGAP_UE_CONNECTED

text \<open>\<open>amf_ue_ngap_id\<close> is a field of 40 bits.\<close>

record ngap_gNB_ue_context =
  nu_gNB_ue_ngap_id :: u32
  nu_ue_initial_id :: u16
  nu_amf_ue_ngap_id :: "40 word"
  nu_tx_stream :: int
  nu_rx_stream :: u32
  nu_ue_state :: ngap_ue_state
  nu_amf_ref :: "nat option"
  nu_selected_plmn_identity :: int

record ngap_gNB_instance =
  gi_ngap_amf_pending_nb :: u32
  gi_ngap_amf_associated_nb :: u32
  gi_ngap_amf_head :: "ngap_gNB_amf_data list"
  gi_ngap_ue_head :: "ngap_gNB_ue_context list"
  gi_instance :: int
  gi_gNB_id :: u32
  gi_tac :: u32
  gi_mcc :: "u16 list"
  gi_mnc :: "u16 list"
  gi_mnc_digit_length :: "byte list"

record fiveg_s_tmsi =
  st_amf_set_id :: u16
  st_amf_pointer :: byte
  st_m_tmsi :: u32

text \<open>The identities of the UE that the presence mask announces.\<close>

record ngap_nas_first_req =
  fr_ue_initial_id :: u16
  fr_selected_plmn_identity :: int
  fr_establishment_cause :: nat
  fr_nas_pdu :: bytes
  fr_s_tmsi :: "fiveg_s_tmsi option"
  fr_guami :: "ngap_guami option"

text \<open>The information elements, as far as they are used here.  A served GUAMI is the octets of its PLMN, AMF
  region, set and pointer; a supported PLMN is its octets and the slices with optional differentiator.\<close>

datatype ngap_ie =
    RAN_UE_NGAP_ID u32
  | AMF_UE_NGAP_ID u64
  | NAS_PDU bytes
  | UserLocationInformationNR bit_string bytes bytes bytes
  | RRCEstablishmentCause nat
  | FiveG_S_TMSI bit_string bit_string bytes
  | UEContextRequest_requested
  | Cause_radio_connection_with_ue_lost
  | ServedGUAMIList "(bytes \<times> bytes \<times> bytes \<times> bytes) list"
  | RelativeAMFCapacity byte
  | AMFName bytes
  | PLMNSupportList "(bytes \<times> (bytes \<times> bytes option) list) list"
  | NGSetupFailureCause

datatype ngap_pdu =
    InitialUEMessage "ngap_ie list"
  | UplinkNASTransport "ngap_ie list"
  | NASNonDeliveryIndication "ngap_ie list"
  | UEContextReleaseComplete "ngap_ie list"

text \<open>What the layer sends to other tasks.\<close>

datatype ngap_out =
    SCTP_DATA_REQ int bytes u16
  | NGAP_DOWNLINK_NAS u16 u32 bytes
  | NGAP_REGISTER_GNB_CNF u32
  | NGAP_DEREGISTERED_GNB_IND

subsection \<open>Contexts of UEs\<close>

definition ngap_gNB_compare_gNB_ue_ngap_id :: "ngap_gNB_ue_context \<Rightarrow> ngap_gNB_ue_context \<Rightarrow> int" where
  "ngap_gNB_compare_gNB_ue_ngap_id p1 p2 =
     (if nu_gNB_ue_ngap_id p1 > nu_gNB_ue_ngap_id p2 then 1
      else if nu_gNB_ue_ngap_id p1 < nu_gNB_ue_ngap_id p2 then - 1 else 0)"

definition ngap_gNB_allocate_new_UE_context :: ngap_gNB_ue_context where
  "ngap_gNB_allocate_new_UE_context =
     \<lparr>nu_gNB_ue_ngap_id = 0, nu_ue_initial_id = 0, nu_amf_ue_ngap_id = 0, nu_tx_stream = 0, nu_rx_stream = 0,
      nu_ue_state = NGAP_UE_DECONNECTED, nu_amf_ref = None, nu_selected_plmn_identity = 0\<rparr>"

definition ngap_gNB_get_ue_context :: "ngap_gNB_instance \<Rightarrow> u32 \<Rightarrow> ngap_gNB_ue_context option" where
  "ngap_gNB_get_ue_context I gNB_ue_ngap_id =
     rb_find ngap_gNB_compare_gNB_ue_ngap_id (gi_ngap_ue_head I)
       (ngap_gNB_allocate_new_UE_context\<lparr>nu_gNB_ue_ngap_id := gNB_ue_ngap_id AND 0xFFFFFFFF\<rparr>)"

text \<open>A write through the pointer to a context.\<close>

definition put_ue :: "ngap_gNB_instance \<Rightarrow> ngap_gNB_ue_context \<Rightarrow> ngap_gNB_instance" where
  "put_ue I u = I\<lparr>gi_ngap_ue_head :=
     map (\<lambda>x. if nu_gNB_ue_ngap_id x = nu_gNB_ue_ngap_id u then u else x) (gi_ngap_ue_head I)\<rparr>"

subsection \<open>The first message of a UE\<close>

definition nas_first_amf :: "ngap_gNB_instance \<Rightarrow> ngap_nas_first_req \<Rightarrow> nat option res" where
  "nas_first_amf I req =
     (let amfs = gi_ngap_amf_head I; cause = fr_establishment_cause req; sel = fr_selected_plmn_identity req in
      bnd (case fr_guami req of
             Some guami \<Rightarrow> ngap_gNB_nnsf_select_amf_by_guami amfs cause guami
           | None \<Rightarrow> Inr None) (\<lambda>r1.
      bnd (case (r1, fr_s_tmsi req) of
             (None, Some t) \<Rightarrow>
               ngap_gNB_nnsf_select_amf_by_amf_setid (gi_mcc I) (gi_mnc I) amfs cause sel (ucast (st_amf_set_id t))
           | _ \<Rightarrow> Inr r1) (\<lambda>r2.
      bnd (if r2 = None then ngap_gNB_nnsf_select_amf_by_plmn_id (gi_mcc I) (gi_mnc I) amfs cause sel else Inr r2) (\<lambda>r3.
        if r3 = None then ngap_gNB_nnsf_select_amf amfs cause else Inr r3))))"

text \<open>The loop that draws identifiers until one is free.\<close>

partial_function (option) ngap_draw_id :: "(nat \<Rightarrow> int) \<Rightarrow> u32 set \<Rightarrow> nat \<Rightarrow> (u32 \<times> nat) option" where
  [code]: "ngap_draw_id rnd used k =
     (let i = word_of_int (rnd k + rnd (Suc k)) in
      if i \<in> used then ngap_draw_id rnd used (k + 2) else Some (i, k + 2))"

definition user_location :: "ngap_gNB_instance \<Rightarrow> int \<Rightarrow> ngap_ie res" where
  "user_location I sel =
     bnd (plmn_at (gi_mcc I) sel) (\<lambda>mcc.
     bnd (plmn_at (gi_mnc I) sel) (\<lambda>mnc.
     bnd (plmn_at (gi_mnc_digit_length I) sel) (\<lambda>len.
     bnd (MCC_MNC_TO_TBCD mcc mnc len) (\<lambda>plmn.
       Inr (UserLocationInformationNR (MACRO_GNB_ID_TO_CELL_IDENTITY (gi_gNB_id I) 0) plmn
              (INT24_TO_OCTET_STRING (gi_tac I)) (MCC_MNC_TO_PLMNID mcc mnc len))))))"

text \<open>The same macro is used for the AMF pointer as for the AMF set.\<close>

definition s_tmsi_ie :: "fiveg_s_tmsi \<Rightarrow> ngap_ie" where
  "s_tmsi_ie t = FiveG_S_TMSI (AMF_SETID_TO_BIT_STRING (st_amf_set_id t))
     (AMF_SETID_TO_BIT_STRING (ucast (st_amf_pointer t))) (M_TMSI_TO_OCTET_STRING (st_m_tmsi t))"

definition next_stream :: "int \<Rightarrow> u16 \<Rightarrow> int res" where
  "next_stream nextstream out_streams =
     bnd (guard (out_streams \<noteq> 0) DivByZero) (\<lambda>_.
       let n = c_rem (nextstream + 1) (uint out_streams)
       in Inr (if n = 0 \<and> out_streams > 1 then n + 1 else n))"

definition ngap_gNB_handle_nas_first_req ::
    "(ngap_pdu \<Rightarrow> bytes option) \<Rightarrow> (nat \<Rightarrow> int) \<Rightarrow> ngap_gNB_instance \<Rightarrow> nat \<Rightarrow> ngap_nas_first_req \<Rightarrow>
     (ngap_gNB_instance \<times> nat \<times> ngap_out list \<times> int) res" where
  "ngap_gNB_handle_nas_first_req encode rnd I k req =
     bnd (nas_first_amf I req) (\<lambda>amf_desc.
     case amf_desc of
       None \<Rightarrow> Inr (I, k, [], - 1)
     | Some a \<Rightarrow>
         bnd (deref (ngap_draw_id rnd (nu_gNB_ue_ngap_id ` set (gi_ngap_ue_head I)) k) Diverge) (\<lambda>(i, k1).
         let u = ngap_gNB_allocate_new_UE_context\<lparr>nu_amf_ref := Some a, nu_ue_initial_id := fr_ue_initial_id req,
                   nu_selected_plmn_identity := fr_selected_plmn_identity req, nu_gNB_ue_ngap_id := i\<rparr>;
             I1 = I\<lparr>gi_ngap_ue_head := rb_insert ngap_gNB_compare_gNB_ue_ngap_id (gi_ngap_ue_head I) u\<rparr>
         in bnd (user_location I (fr_selected_plmn_identity req)) (\<lambda>loc.
            bnd (guard (fr_establishment_cause req < NGAP_RRC_CAUSE_LAST) Exit) (\<lambda>_.
            bnd (deref (encode (InitialUEMessage
                   ([RAN_UE_NGAP_ID i, NAS_PDU (fr_nas_pdu req), loc, RRCEstablishmentCause (fr_establishment_cause req)] @
                    (case fr_s_tmsi req of Some t \<Rightarrow> [s_tmsi_ie t] | None \<Rightarrow> []) @ [UEContextRequest_requested]))) Exit) (\<lambda>buffer.
            let amf = gi_ngap_amf_head I1 ! a
            in bnd (next_stream (ad_nextstream amf) (ad_out_streams amf)) (\<lambda>n.
               Inr (put_ue (I1\<lparr>gi_ngap_amf_head := (gi_ngap_amf_head I1)[a := amf\<lparr>ad_nextstream := n\<rparr>]\<rparr>)
                      (u\<lparr>nu_ue_state := NGAP_UE_WAITING_CSR, nu_tx_stream := n\<rparr>),
                    k1, [SCTP_DATA_REQ (ad_assoc_id amf) buffer (word_of_int n)], 0)))))))"

subsection \<open>Later NAS messages\<close>

text \<open>\<open>NGAP_FIND_PROTOCOLIE_BY_ID\<close> for a mandatory element: \<open>abort()\<close> if there is none.\<close>

fun find_ie :: "(ngap_ie \<Rightarrow> 'a option) \<Rightarrow> ngap_ie list \<Rightarrow> 'a res" where
  "find_ie f [] = Inl Exit"
| "find_ie f (x # xs) = (case f x of Some y \<Rightarrow> Inr y | None \<Rightarrow> find_ie f xs)"

definition amf_id_ie :: "ngap_ie \<Rightarrow> u64 option" where
  "amf_id_ie x = (case x of AMF_UE_NGAP_ID i \<Rightarrow> Some i | _ \<Rightarrow> None)"

definition ran_id_ie :: "ngap_ie \<Rightarrow> u32 option" where
  "ran_id_ie x = (case x of RAN_UE_NGAP_ID i \<Rightarrow> Some i | _ \<Rightarrow> None)"

definition nas_pdu_ie :: "ngap_ie \<Rightarrow> bytes option" where
  "nas_pdu_ie x = (case x of NAS_PDU b \<Rightarrow> Some b | _ \<Rightarrow> None)"

definition ngap_gNB_handle_nas_downlink ::
    "ngap_gNB_instance \<Rightarrow> nat option \<Rightarrow> u32 \<Rightarrow> ngap_ie list \<Rightarrow> (ngap_gNB_instance \<times> ngap_out list \<times> int) res" where
  "ngap_gNB_handle_nas_downlink I amf_desc stream ies =
     (if amf_desc = None then Inr (I, [], - 1)
      else bnd (find_ie amf_id_ie ies) (\<lambda>amf_ue_ngap_id.
           bnd (find_ie ran_id_ie ies) (\<lambda>gnb_ue_ngap_id.
           case ngap_gNB_get_ue_context I gnb_ue_ngap_id of
             None \<Rightarrow> Inr (I, [], - 1)
           | Some u \<Rightarrow>
               if nu_rx_stream u \<noteq> 0 \<and> stream \<noteq> nu_rx_stream u then Inr (I, [], - 1)
               else let u1 = (if nu_rx_stream u = 0 then u\<lparr>nu_rx_stream := stream\<rparr> else u)
                    in if nu_amf_ue_ngap_id u1 \<noteq> 0 \<and> ucast (nu_amf_ue_ngap_id u1) \<noteq> amf_ue_ngap_id then Inr (put_ue I u1, [], - 1)
                       else let u2 = (if nu_amf_ue_ngap_id u1 = 0 then u1\<lparr>nu_amf_ue_ngap_id := ucast amf_ue_ngap_id\<rparr> else u1)
                            in bnd (find_ie nas_pdu_ie ies) (\<lambda>nas_pdu.
                                 Inr (put_ue I u2, [NGAP_DOWNLINK_NAS (nu_ue_initial_id u2) (nu_gNB_ue_ngap_id u2) nas_pdu], 0)))))"

text \<open>Messages of a UE go to its AMF on its stream.\<close>

definition send_to_amf :: "ngap_gNB_instance \<Rightarrow> ngap_gNB_ue_context \<Rightarrow> bytes \<Rightarrow> ngap_out res" where
  "send_to_amf I u buffer =
     bnd (deref (nu_amf_ref u) NullDeref) (\<lambda>a.
     bnd (guard (a < length (gi_ngap_amf_head I)) Dangling) (\<lambda>_.
       Inr (SCTP_DATA_REQ (ad_assoc_id (gi_ngap_amf_head I ! a)) buffer (word_of_int (nu_tx_stream u)))))"

definition ngap_gNB_nas_uplink ::
    "(ngap_pdu \<Rightarrow> bytes option) \<Rightarrow> ngap_gNB_instance \<Rightarrow> u32 \<Rightarrow> bytes \<Rightarrow> (ngap_out list \<times> int) res" where
  "ngap_gNB_nas_uplink encode I gNB_ue_ngap_id nas_pdu =
     (case ngap_gNB_get_ue_context I gNB_ue_ngap_id of
        None \<Rightarrow> Inr ([], - 1)
      | Some u \<Rightarrow>
          if \<not> (nu_ue_state u = NGAP_UE_CONNECTED \<or> nu_ue_state u = NGAP_UE_WAITING_CSR) then Inr ([], - 1)
          else bnd (user_location I (nu_selected_plmn_identity u)) (\<lambda>loc.
               case encode (UplinkNASTransport [AMF_UE_NGAP_ID (ucast (nu_amf_ue_ngap_id u)),
                              RAN_UE_NGAP_ID (nu_gNB_ue_ngap_id u), NAS_PDU nas_pdu, loc]) of
                 None \<Rightarrow> Inr ([], - 1)
               | Some buffer \<Rightarrow> bnd (send_to_amf I u buffer) (\<lambda>m. Inr ([m], 0))))"

definition ngap_gNB_nas_non_delivery_ind ::
    "(ngap_pdu \<Rightarrow> bytes option) \<Rightarrow> ngap_gNB_instance \<Rightarrow> u32 \<Rightarrow> bytes \<Rightarrow> (ngap_out list \<times> int) res" where
  "ngap_gNB_nas_non_delivery_ind encode I gNB_ue_ngap_id nas_pdu =
     (case ngap_gNB_get_ue_context I gNB_ue_ngap_id of
        None \<Rightarrow> Inr ([], - 1)
      | Some u \<Rightarrow>
          (case encode (NASNonDeliveryIndication [AMF_UE_NGAP_ID (ucast (nu_amf_ue_ngap_id u)),
                  RAN_UE_NGAP_ID (nu_gNB_ue_ngap_id u), NAS_PDU nas_pdu, Cause_radio_connection_with_ue_lost]) of
             None \<Rightarrow> Inr ([], - 1)
           | Some buffer \<Rightarrow> bnd (send_to_amf I u buffer) (\<lambda>m. Inr ([m], 0))))"

definition ngap_ue_context_release_complete ::
    "(ngap_pdu \<Rightarrow> bytes option) \<Rightarrow> ngap_gNB_instance \<Rightarrow> u32 \<Rightarrow> (ngap_gNB_instance \<times> ngap_out list \<times> int) res" where
  "ngap_ue_context_release_complete encode I gNB_ue_ngap_id =
     (case ngap_gNB_get_ue_context I gNB_ue_ngap_id of
        None \<Rightarrow> Inr (I, [], - 1)
      | Some u \<Rightarrow>
          (case encode (UEContextReleaseComplete [AMF_UE_NGAP_ID (ucast (nu_amf_ue_ngap_id u)), RAN_UE_NGAP_ID (nu_gNB_ue_ngap_id u)]) of
             None \<Rightarrow> Inr (I, [], - 1)
           | Some buffer \<Rightarrow> bnd (send_to_amf I u buffer) (\<lambda>m.
               Inr (I\<lparr>gi_ngap_ue_head := filter (\<lambda>x. nu_gNB_ue_ngap_id x \<noteq> nu_gNB_ue_ngap_id u) (gi_ngap_ue_head I)\<rparr>, [m], 0))))"

subsection \<open>NG set-up\<close>

definition put_amf :: "ngap_gNB_instance \<Rightarrow> nat \<Rightarrow> ngap_gNB_amf_data \<Rightarrow> ngap_gNB_instance" where
  "put_amf I a d = I\<lparr>gi_ngap_amf_head := (gi_ngap_amf_head I)[a := d]\<rparr>"

definition ngap_handle_ng_setup_message :: "ngap_gNB_instance \<Rightarrow> nat \<Rightarrow> bool \<Rightarrow> (ngap_gNB_instance \<times> ngap_out list) res" where
  "ngap_handle_ng_setup_message I a sctp_shutdown =
     (let d = gi_ngap_amf_head I ! a in
      if sctp_shutdown
      then if ad_state d = NGAP_GNB_STATE_CONNECTED
           then let I1 = put_amf I a (d\<lparr>ad_state := NGAP_GNB_STATE_DISCONNECTED\<rparr>);
                    I2 = (if gi_ngap_amf_associated_nb I1 > 0
                          then I1\<lparr>gi_ngap_amf_associated_nb := gi_ngap_amf_associated_nb I1 - 1\<rparr> else I1)
                in Inr (I2, if gi_ngap_amf_associated_nb I2 = 0 then [NGAP_DEREGISTERED_GNB_IND] else [])
           else Inr (I, [])
      else bnd (guard (gi_ngap_amf_pending_nb I > 0) Exit) (\<lambda>_.
             let I1 = I\<lparr>gi_ngap_amf_pending_nb := gi_ngap_amf_pending_nb I - 1\<rparr>
             in Inr (I1, if gi_ngap_amf_pending_nb I1 = 0 then [NGAP_REGISTER_GNB_CNF (gi_ngap_amf_associated_nb I1)] else [])))"

definition ngap_gNB_handle_ng_setup_failure ::
    "ngap_gNB_instance \<Rightarrow> nat option \<Rightarrow> ngap_ie list \<Rightarrow> (ngap_gNB_instance \<times> ngap_out list \<times> int) res" where
  "ngap_gNB_handle_ng_setup_failure I amf_desc ies =
     (case amf_desc of
        None \<Rightarrow> Inr (I, [], - 1)
      | Some a \<Rightarrow>
          bnd (find_ie (\<lambda>x. if x = NGSetupFailureCause then Some () else None) ies) (\<lambda>_.
          bnd (ngap_handle_ng_setup_message
                 (put_amf I a ((gi_ngap_amf_head I ! a)\<lparr>ad_state := NGAP_GNB_STATE_WAITING\<rparr>)) a False) (\<lambda>(I1, ms).
            Inr (I1, ms, 0))))"

definition served_guami_of :: "bytes \<times> bytes \<times> bytes \<times> bytes \<Rightarrow> served_guami res" where
  "served_guami_of g =
     (case g of (plmn, region, set_id, pointer) \<Rightarrow>
        bnd (TBCD_TO_MCC_MNC plmn) (\<lambda>(mcc, mnc, len).
        bnd (OCTET_STRING_TO_INT8 region) (\<lambda>r.
        bnd (OCTET_STRING_TO_INT16 set_id) (\<lambda>s.
        bnd (OCTET_STRING_TO_INT8 pointer) (\<lambda>p.
          Inr \<lparr>sg_served_plmns = [\<lparr>pi_mcc = mcc, pi_mnc = mnc, pi_mnc_digit_length = len\<rparr>],
               sg_served_region_ids = [r], sg_amf_set_ids = [s], sg_amf_pointers = [p]\<rparr>)))))"

definition slice_support_of :: "bytes \<times> bytes option \<Rightarrow> (byte \<times> bytes option) res" where
  "slice_support_of s =
     bnd (OCTET_STRING_TO_INT8 (fst s)) (\<lambda>sst.
       case snd s of None \<Rightarrow> Inr (sst, None) | Some sd \<Rightarrow> bnd (read_at sd 0 3) (\<lambda>b. Inr (sst, Some b)))"

fun map_res :: "('a \<Rightarrow> 'b res) \<Rightarrow> 'a list \<Rightarrow> 'b list res" where
  "map_res f [] = Inr []"
| "map_res f (x # xs) = bnd (f x) (\<lambda>y. bnd (map_res f xs) (\<lambda>ys. Inr (y # ys)))"

definition plmn_support_of :: "bytes \<times> (bytes \<times> bytes option) list \<Rightarrow> (plmn_identity \<times> (byte \<times> bytes option) list) res" where
  "plmn_support_of p =
     bnd (TBCD_TO_MCC_MNC (fst p)) (\<lambda>(mcc, mnc, len).
     bnd (guard (snd p \<noteq> [] \<and> length (snd p) \<le> 1024) Exit) (\<lambda>_.
     bnd (map_res slice_support_of (snd p)) (\<lambda>ss.
       Inr (\<lparr>pi_mcc = mcc, pi_mnc = mnc, pi_mnc_digit_length = len\<rparr>, ss))))"

definition served_guamis_ie :: "ngap_ie \<Rightarrow> (bytes \<times> bytes \<times> bytes \<times> bytes) list option" where
  "served_guamis_ie x = (case x of ServedGUAMIList gs \<Rightarrow> Some gs | _ \<Rightarrow> None)"

definition capacity_ie :: "ngap_ie \<Rightarrow> byte option" where
  "capacity_ie x = (case x of RelativeAMFCapacity c \<Rightarrow> Some c | _ \<Rightarrow> None)"

definition amf_name_ie :: "ngap_ie \<Rightarrow> bytes option" where
  "amf_name_ie x = (case x of AMFName b \<Rightarrow> Some b | _ \<Rightarrow> None)"

definition plmn_supports_ie :: "ngap_ie \<Rightarrow> (bytes \<times> (bytes \<times> bytes option) list) list option" where
  "plmn_supports_ie x = (case x of PLMNSupportList ps \<Rightarrow> Some ps | _ \<Rightarrow> None)"

definition ngap_gNB_handle_ng_setup_response ::
    "ngap_gNB_instance \<Rightarrow> nat option \<Rightarrow> u32 \<Rightarrow> ngap_ie list \<Rightarrow> (ngap_gNB_instance \<times> ngap_out list \<times> int) res" where
  "ngap_gNB_handle_ng_setup_response I amf_desc stream ies =
     (if stream \<noteq> 0 then Inr (I, [], - 1)
      else case amf_desc of
        None \<Rightarrow> Inr (I, [], - 1)
      | Some a \<Rightarrow>
          bnd (find_ie served_guamis_ie ies) (\<lambda>gs.
          bnd (guard (gs \<noteq> [] \<and> length gs \<le> 256) Exit) (\<lambda>_.
          bnd (map_res served_guami_of gs) (\<lambda>served.
          bnd (find_ie capacity_ie ies) (\<lambda>capacity.
          bnd (find_ie amf_name_ie ies) (\<lambda>name.
          bnd (find_ie plmn_supports_ie ies) (\<lambda>ps.
          bnd (guard (ps \<noteq> [] \<and> length ps \<le> 12) Exit) (\<lambda>_.
          bnd (map_res plmn_support_of ps) (\<lambda>supports.
          let d = gi_ngap_amf_head I ! a;
              I1 = (put_amf I a (d\<lparr>ad_served_guami := ad_served_guami d @ served, ad_relative_amf_capacity := capacity,
                                 ad_amf_name := name, ad_plmn_supports := supports,
                                 ad_state := NGAP_GNB_STATE_CONNECTED\<rparr>))
                     \<lparr>gi_ngap_amf_associated_nb := gi_ngap_amf_associated_nb I + 1\<rparr>
          in bnd (ngap_handle_ng_setup_message I1 a False) (\<lambda>(I2, ms). Inr (I2, ms, 0)))))))))))"

definition ngap_gNB_handle_overload_stop :: "ngap_gNB_instance \<Rightarrow> nat option \<Rightarrow> u32 \<Rightarrow> (ngap_gNB_instance \<times> int) res" where
  "ngap_gNB_handle_overload_stop I amf_desc stream =
     bnd (guard (stream = 0) Exit) (\<lambda>_.
       case amf_desc of
         None \<Rightarrow> Inr (I, - 1)
       | Some a \<Rightarrow> Inr (put_amf I a ((gi_ngap_amf_head I ! a)\<lparr>ad_state := NGAP_GNB_STATE_CONNECTED,
                                       ad_overload_state := NGAP_NO_OVERLOAD\<rparr>), 0))"

subsection \<open>Invariant\<close>

interpretation ue_map: rb_key ngap_gNB_compare_gNB_ue_ngap_id nu_gNB_ue_ngap_id
  by unfold_locales (auto simp: ngap_gNB_compare_gNB_ue_ngap_id_def)

text \<open>Contexts are ordered by their identifier; each has an AMF, a PLMN of the gNB and a stream of that AMF,
  which is not stream 0 if the AMF has more than one.\<close>

definition ue_ok :: "ngap_gNB_instance \<Rightarrow> ngap_gNB_ue_context \<Rightarrow> bool" where
  "ue_ok I u \<longleftrightarrow> nu_ue_state u = NGAP_UE_WAITING_CSR \<and> (\<exists>l. user_location I (nu_selected_plmn_identity u) = Inr l) \<and>
     (\<exists>a d. nu_amf_ref u = Some a \<and> a < length (gi_ngap_amf_head I) \<and> d = gi_ngap_amf_head I ! a \<and>
        0 \<le> nu_tx_stream u \<and> nu_tx_stream u < uint (ad_out_streams d) \<and> (ad_out_streams d > 1 \<longrightarrow> 0 < nu_tx_stream u))"

definition ngap_inv :: "ngap_gNB_instance \<Rightarrow> bool" where
  "ngap_inv I \<longleftrightarrow> sorted_wrt (\<lambda>u v. nu_gNB_ue_ngap_id u < nu_gNB_ue_ngap_id v) (gi_ngap_ue_head I) \<and>
     (\<forall>d\<in>set (gi_ngap_amf_head I). 0 \<le> ad_nextstream d) \<and> (\<forall>u\<in>set (gi_ngap_ue_head I). ue_ok I u)"

lemma get_ue_iff:
  assumes "ngap_inv I"
  shows "ngap_gNB_get_ue_context I i = Some u \<longleftrightarrow> u \<in> set (gi_ngap_ue_head I) \<and> nu_gNB_ue_ngap_id u = i"
proof -
  have "(0xFFFFFFFF :: u32) = - 1" by simp
  then have "i AND 0xFFFFFFFF = i" by (simp only: and.right_neutral)
  then show ?thesis using assms by (simp add: ngap_gNB_get_ue_context_def ue_map.find_iff ngap_inv_def)
qed

text \<open>Changes of an instance that keep what \<open>ue_ok\<close> looks at.\<close>

lemma user_location_cong:
  "gi_mcc I' = gi_mcc I \<Longrightarrow> gi_mnc I' = gi_mnc I \<Longrightarrow> gi_mnc_digit_length I' = gi_mnc_digit_length I \<Longrightarrow>
   gi_gNB_id I' = gi_gNB_id I \<Longrightarrow> gi_tac I' = gi_tac I \<Longrightarrow> user_location I' sel = user_location I sel"
  by (simp add: user_location_def)

definition same_gnb :: "ngap_gNB_instance \<Rightarrow> ngap_gNB_instance \<Rightarrow> bool" where
  "same_gnb I I' \<longleftrightarrow> (\<forall>sel. user_location I' sel = user_location I sel) \<and>
     map ad_out_streams (gi_ngap_amf_head I') = map ad_out_streams (gi_ngap_amf_head I)"

lemma same_gnb_ue_ok: "same_gnb I I' \<Longrightarrow> ue_ok I' u = ue_ok I u"
proof -
  assume s: "same_gnb I I'"
  then have m: "map ad_out_streams (gi_ngap_amf_head I') = map ad_out_streams (gi_ngap_amf_head I)"
    and l: "\<forall>sel. user_location I' sel = user_location I sel" by (simp_all add: same_gnb_def)
  have "length (gi_ngap_amf_head I') = length (gi_ngap_amf_head I)" using m map_eq_imp_length_eq by blast
  moreover from this have "ad_out_streams (gi_ngap_amf_head I' ! a) = ad_out_streams (gi_ngap_amf_head I ! a)"
    if "a < length (gi_ngap_amf_head I)" for a using m that by (metis nth_map)
  ultimately show ?thesis using l by (auto simp: ue_ok_def)
qed

lemma same_gnb_refl [simp]: "same_gnb I I"
  by (simp add: same_gnb_def)

lemma same_gnb_trans: "same_gnb I J \<Longrightarrow> same_gnb J K \<Longrightarrow> same_gnb I K"
  by (simp add: same_gnb_def)

lemma put_amf_same: "ad_out_streams d = ad_out_streams (gi_ngap_amf_head I ! a) \<Longrightarrow> same_gnb I (put_amf I a d)"
proof -
  assume "ad_out_streams d = ad_out_streams (gi_ngap_amf_head I ! a)"
  then have "map ad_out_streams ((gi_ngap_amf_head I)[a := d]) = map ad_out_streams (gi_ngap_amf_head I)"
    by (metis list_update_id map_update)
  then show ?thesis by (simp add: same_gnb_def put_amf_def user_location_def)
qed

lemma ues_inv:
  assumes "ngap_inv I" "same_gnb I I'" "\<forall>d\<in>set (gi_ngap_amf_head I'). 0 \<le> ad_nextstream d"
    "gi_ngap_ue_head I' = gi_ngap_ue_head I"
  shows "ngap_inv I'"
  using assms same_gnb_ue_ok by (auto simp: ngap_inv_def)

text \<open>A write to a context that keeps its identifier.\<close>

lemma put_ue_inv:
  assumes "ngap_inv I" "ue_ok I u" "nu_gNB_ue_ngap_id u \<in> nu_gNB_ue_ngap_id ` set (gi_ngap_ue_head I)"
  shows "ngap_inv (put_ue I u)" "ngap_gNB_get_ue_context (put_ue I u) j =
    (if j = nu_gNB_ue_ngap_id u then Some u else ngap_gNB_get_ue_context I j)"
proof -
  let ?f = "\<lambda>x. if nu_gNB_ue_ngap_id x = nu_gNB_ue_ngap_id u then u else x"
  have h: "gi_ngap_ue_head (put_ue I u) = map ?f (gi_ngap_ue_head I)" by (simp add: put_ue_def)
  have ids: "nu_gNB_ue_ngap_id (?f x) = nu_gNB_ue_ngap_id x" for x by simp
  have same: "same_gnb I (put_ue I u)" by (simp add: same_gnb_def put_ue_def user_location_def)
  have "sorted_wrt (\<lambda>u v. nu_gNB_ue_ngap_id u < nu_gNB_ue_ngap_id v) (map ?f (gi_ngap_ue_head I))"
    using assms(1) unfolding sorted_wrt_map ids by (simp add: ngap_inv_def)
  moreover have "ue_ok I (?f x)" if "x \<in> set (gi_ngap_ue_head I)" for x using assms(1,2) that by (simp add: ngap_inv_def)
  ultimately show inv: "ngap_inv (put_ue I u)"
    using assms(1) unfolding ngap_inv_def h same_gnb_ue_ok [OF same] set_map ball_simps by (simp add: put_ue_def)
  have "ngap_gNB_get_ue_context (put_ue I u) j = Some x \<longleftrightarrow>
      (if j = nu_gNB_ue_ngap_id u then Some u else ngap_gNB_get_ue_context I j) = Some x" for x
    unfolding get_ue_iff [OF inv] h using assms(3) get_ue_iff [OF assms(1)] by (auto simp: image_iff)
  then show "ngap_gNB_get_ue_context (put_ue I u) j = (if j = nu_gNB_ue_ngap_id u then Some u else ngap_gNB_get_ue_context I j)"
    by (metis option.exhaust)
qed

subsection \<open>The first message registers the UE\<close>

lemma nas_first_amf_bound: "nas_first_amf I req = Inr (Some a) \<Longrightarrow> a < length (gi_ngap_amf_head I)"
  by (auto simp: nas_first_amf_def Let_def bnd_eq_Inr ngap_gNB_nnsf_select_amf_by_guami_def
      ngap_gNB_nnsf_select_amf_by_amf_setid_def ngap_gNB_nnsf_select_amf_by_plmn_id_def ngap_gNB_nnsf_select_amf_def
      dest: amf_highest_bound amf_first_bound split: option.splits if_splits)

lemma draw_id_fresh:
  assumes "ngap_draw_id rnd used k = Some r"
  shows "fst r \<notin> used"
proof (rule ngap_draw_id.raw_induct [OF _ assms])
  fix f :: "(nat \<Rightarrow> int) \<Rightarrow> u32 set \<Rightarrow> nat \<Rightarrow> (u32 \<times> nat) option" and rnd used k r
  assume "\<And>rnd used k r. f rnd used k = Some r \<Longrightarrow> fst r \<notin> used"
    "(let i = word_of_int (rnd k + rnd (Suc k)) in if i \<in> used then f rnd used (k + 2) else Some (i, k + 2)) = Some r"
  then show "fst r \<notin> used" by (simp add: Let_def split: if_splits) auto
qed

lemma draw_id_returns:
  assumes "word_of_int (rnd (k + 2 * n) + rnd (Suc (k + 2 * n))) \<notin> used"
  shows "\<exists>i k1. ngap_draw_id rnd used k = Some (i, k1)"
  using assms
proof (induction n arbitrary: k)
  case 0
  then show ?case by (subst ngap_draw_id.simps) (simp add: Let_def)
next
  case (Suc n)
  have "\<exists>i k1. ngap_draw_id rnd used (k + 2) = Some (i, k1)" by (rule Suc.IH) (use Suc.prems in simp)
  then show ?case by (subst ngap_draw_id.simps) (auto simp: Let_def)
qed

lemma next_stream_range:
  assumes "next_stream m out = Inr n" "0 \<le> m"
  shows "0 \<le> n" "n < uint out" "out > 1 \<longrightarrow> 0 < n"
proof -
  have out: "0 < uint out" using assms(1) by (auto simp: next_stream_def bnd_eq_Inr word_uint_eq_iff)
       (metis linorder_not_le order_le_less uint_ge_0)
  have n: "n = (let q = (m + 1) mod uint out in if q = 0 \<and> out > 1 then q + 1 else q)"
    using assms out by (auto simp: next_stream_def bnd_eq_Inr c_rem_nonneg Let_def)
  have "0 \<le> (m + 1) mod uint out" "(m + 1) mod uint out < uint out" using out by simp_all
  then show "0 \<le> n" "n < uint out" "out > 1 \<longrightarrow> 0 < n" using n by (auto simp: Let_def word_less_def)
qed

lemma put_new_ue:
  "nu_gNB_ue_ngap_id u \<notin> nu_gNB_ue_ngap_id ` set t \<Longrightarrow> nu_gNB_ue_ngap_id v = nu_gNB_ue_ngap_id u \<Longrightarrow>
   map (\<lambda>x. if nu_gNB_ue_ngap_id x = nu_gNB_ue_ngap_id v then v else x) (rb_insert ngap_gNB_compare_gNB_ue_ngap_id t u) =
   rb_insert ngap_gNB_compare_gNB_ue_ngap_id t v"
  by (induction t) (auto simp: ngap_gNB_compare_gNB_ue_ngap_id_def image_iff intro!: map_idI)

text \<open>What the handler does when it returns.\<close>

definition registered :: "ngap_gNB_instance \<Rightarrow> ngap_nas_first_req \<Rightarrow> u32 \<Rightarrow> nat \<Rightarrow> int \<Rightarrow> ngap_gNB_instance" where
  "registered I req i a n =
     (put_amf I a ((gi_ngap_amf_head I ! a)\<lparr>ad_nextstream := n\<rparr>))
       \<lparr>gi_ngap_ue_head := rb_insert ngap_gNB_compare_gNB_ue_ngap_id (gi_ngap_ue_head I)
          \<lparr>nu_gNB_ue_ngap_id = i, nu_ue_initial_id = fr_ue_initial_id req, nu_amf_ue_ngap_id = 0, nu_tx_stream = n,
           nu_rx_stream = 0, nu_ue_state = NGAP_UE_WAITING_CSR, nu_amf_ref = Some a,
           nu_selected_plmn_identity = fr_selected_plmn_identity req\<rparr>\<rparr>"

lemma first_req_eq:
  assumes "nas_first_amf I req = Inr (Some a)" "ngap_draw_id rnd (nu_gNB_ue_ngap_id ` set (gi_ngap_ue_head I)) k = Some (i, k1)"
  shows "ngap_gNB_handle_nas_first_req encode rnd I k req =
    bnd (user_location I (fr_selected_plmn_identity req)) (\<lambda>loc.
    bnd (guard (fr_establishment_cause req < NGAP_RRC_CAUSE_LAST) Exit) (\<lambda>_.
    bnd (deref (encode (InitialUEMessage
           ([RAN_UE_NGAP_ID i, NAS_PDU (fr_nas_pdu req), loc, RRCEstablishmentCause (fr_establishment_cause req)] @
            (case fr_s_tmsi req of Some t \<Rightarrow> [s_tmsi_ie t] | None \<Rightarrow> []) @ [UEContextRequest_requested]))) Exit) (\<lambda>buffer.
    bnd (next_stream (ad_nextstream (gi_ngap_amf_head I ! a)) (ad_out_streams (gi_ngap_amf_head I ! a))) (\<lambda>n.
      Inr (registered I req i a n, k1, [SCTP_DATA_REQ (ad_assoc_id (gi_ngap_amf_head I ! a)) buffer (word_of_int n)], 0)))))"
proof -
  define u where "u = ngap_gNB_allocate_new_UE_context\<lparr>nu_amf_ref := Some a, nu_ue_initial_id := fr_ue_initial_id req,
     nu_selected_plmn_identity := fr_selected_plmn_identity req, nu_gNB_ue_ngap_id := i\<rparr>"
  have f: "nu_gNB_ue_ngap_id u \<notin> nu_gNB_ue_ngap_id ` set (gi_ngap_ue_head I)"
    using draw_id_fresh [OF assms(2)] by (simp add: u_def)
  have r: "put_ue (I\<lparr>gi_ngap_ue_head := rb_insert ngap_gNB_compare_gNB_ue_ngap_id (gi_ngap_ue_head I) u,
        gi_ngap_amf_head := (gi_ngap_amf_head I)[a := (gi_ngap_amf_head I ! a)\<lparr>ad_nextstream := n\<rparr>]\<rparr>)
      (u\<lparr>nu_ue_state := NGAP_UE_WAITING_CSR, nu_tx_stream := n\<rparr>) = registered I req i a n" for n
  proof -
    let ?v = "u\<lparr>nu_ue_state := NGAP_UE_WAITING_CSR, nu_tx_stream := n\<rparr>"
    have v: "\<lparr>nu_gNB_ue_ngap_id = i, nu_ue_initial_id = fr_ue_initial_id req, nu_amf_ue_ngap_id = 0, nu_tx_stream = n,
           nu_rx_stream = 0, nu_ue_state = NGAP_UE_WAITING_CSR, nu_amf_ref = Some a,
           nu_selected_plmn_identity = fr_selected_plmn_identity req\<rparr> = ?v"
      by (simp add: u_def ngap_gNB_allocate_new_UE_context_def)
    have "nu_gNB_ue_ngap_id ?v = nu_gNB_ue_ngap_id u" by simp
    note m = put_new_ue [OF f this]
    show ?thesis unfolding registered_def v put_ue_def put_amf_def using m by simp
  qed
  show ?thesis
    by (simp add: ngap_gNB_handle_nas_first_req_def assms Let_def u_def [symmetric] r)
qed

lemma registered_inv:
  assumes "ngap_inv I" "a < length (gi_ngap_amf_head I)" "i \<notin> nu_gNB_ue_ngap_id ` set (gi_ngap_ue_head I)"
    "user_location I (fr_selected_plmn_identity req) = Inr l"
    "next_stream (ad_nextstream (gi_ngap_amf_head I ! a)) (ad_out_streams (gi_ngap_amf_head I ! a)) = Inr n"
  shows "ngap_inv (registered I req i a n)"
    "ngap_gNB_get_ue_context (registered I req i a n) j =
       (if j = i then Some \<lparr>nu_gNB_ue_ngap_id = i, nu_ue_initial_id = fr_ue_initial_id req, nu_amf_ue_ngap_id = 0,
           nu_tx_stream = n, nu_rx_stream = 0, nu_ue_state = NGAP_UE_WAITING_CSR, nu_amf_ref = Some a,
           nu_selected_plmn_identity = fr_selected_plmn_identity req\<rparr>
        else ngap_gNB_get_ue_context I j)"
proof -
  define v where "v = \<lparr>nu_gNB_ue_ngap_id = i, nu_ue_initial_id = fr_ue_initial_id req, nu_amf_ue_ngap_id = 0,
           nu_tx_stream = n, nu_rx_stream = 0, nu_ue_state = NGAP_UE_WAITING_CSR, nu_amf_ref = Some a,
           nu_selected_plmn_identity = fr_selected_plmn_identity req\<rparr>"
  let ?J = "registered I req i a n" and ?t = "gi_ngap_ue_head I"
  have J: "gi_ngap_ue_head ?J = rb_insert ngap_gNB_compare_gNB_ue_ngap_id ?t v"
    "gi_ngap_amf_head ?J = (gi_ngap_amf_head I)[a := (gi_ngap_amf_head I ! a)\<lparr>ad_nextstream := n\<rparr>]"
    by (simp_all add: registered_def v_def put_amf_def)
  have f: "nu_gNB_ue_ngap_id v \<notin> nu_gNB_ue_ngap_id ` set ?t" using assms(3) by (simp add: v_def)
  have same: "same_gnb I ?J"
    using put_amf_same [of "(gi_ngap_amf_head I ! a)\<lparr>ad_nextstream := n\<rparr>" I a]
    by (simp add: same_gnb_def registered_def user_location_def)
  have m: "0 \<le> ad_nextstream (gi_ngap_amf_head I ! a)" using assms(1,2) by (simp add: ngap_inv_def)
  note ns = next_stream_range [OF assms(5) m]
  have "ue_ok I v" using assms(2,4) ns by (auto simp: ue_ok_def v_def)
  moreover have "\<forall>u\<in>set ?t. ue_ok I u" using assms(1) by (simp add: ngap_inv_def)
  ultimately have "\<forall>u\<in>set (gi_ngap_ue_head ?J). ue_ok ?J u"
    unfolding same_gnb_ue_ok [OF same] J(1) ue_map.insert_set [OF f] by simp
  moreover have "\<forall>d\<in>set (gi_ngap_amf_head ?J). 0 \<le> ad_nextstream d"
    using assms(1) ns(1) set_update_subset_insert [of "gi_ngap_amf_head I" a] unfolding J(2) ngap_inv_def by fastforce
  ultimately show inv: "ngap_inv ?J"
    using assms(1) ue_map.insert_sorted [of ?t v] unfolding ngap_inv_def J(1) by simp
  have "ngap_gNB_get_ue_context ?J j = Some x \<longleftrightarrow> (if j = i then Some v else ngap_gNB_get_ue_context I j) = Some x" for x
    unfolding get_ue_iff [OF inv] J(1) ue_map.insert_set [OF f] using get_ue_iff [OF assms(1)] assms(3)
    by (auto simp: v_def image_iff)
  then show "ngap_gNB_get_ue_context ?J j = (if j = i then Some v else ngap_gNB_get_ue_context I j)"
    by (metis option.exhaust)
qed

lemma first_req_inv:
  assumes "ngap_inv I" "ngap_gNB_handle_nas_first_req encode rnd I k req = Inr (I', k', ms, r)"
  shows "ngap_inv I'"
proof (cases "nas_first_amf I req")
  case (Inr p)
  show ?thesis
  proof (cases p)
    case None
    then show ?thesis using assms Inr by (simp add: ngap_gNB_handle_nas_first_req_def)
  next
    case (Some a)
    show ?thesis
    proof (cases "ngap_draw_id rnd (nu_gNB_ue_ngap_id ` set (gi_ngap_ue_head I)) k")
      case None
      then show ?thesis using assms(2) Inr Some by (simp add: ngap_gNB_handle_nas_first_req_def)
    next
      case (Some ik)
      obtain i k1 where d: "ngap_draw_id rnd (nu_gNB_ue_ngap_id ` set (gi_ngap_ue_head I)) k = Some (i, k1)"
        using Some by (cases ik) simp
      have am: "nas_first_amf I req = Inr (Some a)" using Inr \<open>p = Some a\<close> by simp
      obtain l n where "user_location I (fr_selected_plmn_identity req) = Inr l"
        "next_stream (ad_nextstream (gi_ngap_amf_head I ! a)) (ad_out_streams (gi_ngap_amf_head I ! a)) = Inr n"
        "I' = registered I req i a n"
        using assms(2) unfolding first_req_eq [OF am d] by (auto simp: bnd_eq_Inr)
      then show ?thesis
        using registered_inv(1) [OF assms(1) nas_first_amf_bound [OF am]] draw_id_fresh [OF d] by simp
    qed
  qed
next
  case (Inl e)
  then show ?thesis using assms(2) by (simp add: ngap_gNB_handle_nas_first_req_def)
qed

lemma first_req_registers:
  assumes "ngap_inv I" "ngap_gNB_handle_nas_first_req encode rnd I k req = Inr (I', k', ms, 0)"
  shows "\<exists>i v. ngap_gNB_get_ue_context I i = None \<and> ngap_gNB_get_ue_context I' i = Some v \<and>
    (\<forall>j. j \<noteq> i \<longrightarrow> ngap_gNB_get_ue_context I' j = ngap_gNB_get_ue_context I j) \<and>
    nu_rx_stream v = 0 \<and> nu_amf_ue_ngap_id v = 0 \<and> nu_ue_initial_id v = fr_ue_initial_id req \<and> nu_gNB_ue_ngap_id v = i"
proof -
  obtain p where p: "nas_first_amf I req = Inr p"
    using assms(2) by (auto simp: ngap_gNB_handle_nas_first_req_def bnd_eq_Inr)
  then obtain a where am: "nas_first_amf I req = Inr (Some a)"
    using assms(2) by (cases p) (auto simp: ngap_gNB_handle_nas_first_req_def)
  then obtain i k1 where d: "ngap_draw_id rnd (nu_gNB_ue_ngap_id ` set (gi_ngap_ue_head I)) k = Some (i, k1)"
    using assms(2) by (auto simp: ngap_gNB_handle_nas_first_req_def bnd_eq_Inr)
  have i: "i \<notin> nu_gNB_ue_ngap_id ` set (gi_ngap_ue_head I)" using draw_id_fresh [OF d] by simp
  obtain l n where ln: "user_location I (fr_selected_plmn_identity req) = Inr l"
    "next_stream (ad_nextstream (gi_ngap_amf_head I ! a)) (ad_out_streams (gi_ngap_amf_head I ! a)) = Inr n"
    "I' = registered I req i a n"
    using assms(2) unfolding first_req_eq [OF am d] by (auto simp: bnd_eq_Inr)
  note reg = registered_inv(2) [OF assms(1) nas_first_amf_bound [OF am] i ln(1,2)]
  have "ngap_gNB_get_ue_context I i = None" using i get_ue_iff [OF assms(1)] by (metis imageI option.exhaust)
  then show ?thesis unfolding ln(3) reg by (intro exI [of _ i]) simp
qed

lemma ue_ok_update:
  "ue_ok I (u\<lparr>nu_rx_stream := s\<rparr>) = ue_ok I u" "ue_ok I (u\<lparr>nu_amf_ue_ngap_id := x\<rparr>) = ue_ok I u"
  by (simp_all add: ue_ok_def)

text \<open>The context after the stream of a message is noted, and after its AMF identifier is noted.\<close>

definition note_stream :: "u32 \<Rightarrow> ngap_gNB_ue_context \<Rightarrow> ngap_gNB_ue_context" where
  "note_stream s u = (if nu_rx_stream u = 0 then u\<lparr>nu_rx_stream := s\<rparr> else u)"

definition note_amf_id :: "u64 \<Rightarrow> ngap_gNB_ue_context \<Rightarrow> ngap_gNB_ue_context" where
  "note_amf_id x u = (if nu_amf_ue_ngap_id u = 0 then u\<lparr>nu_amf_ue_ngap_id := ucast x\<rparr> else u)"

lemma note_keeps:
  "ue_ok I (note_stream s u) = ue_ok I u" "ue_ok I (note_amf_id x u) = ue_ok I u"
  "nu_gNB_ue_ngap_id (note_stream s u) = nu_gNB_ue_ngap_id u" "nu_gNB_ue_ngap_id (note_amf_id x u) = nu_gNB_ue_ngap_id u"
  "nu_amf_ue_ngap_id (note_stream s u) = nu_amf_ue_ngap_id u" "nu_ue_initial_id (note_amf_id x u) = nu_ue_initial_id u"
  "nu_ue_initial_id (note_stream s u) = nu_ue_initial_id u"
  by (simp_all add: note_stream_def note_amf_id_def ue_ok_update)

lemma downlink_known:
  assumes "find_ie amf_id_ie ies = Inr x" "find_ie ran_id_ie ies = Inr i" "ngap_gNB_get_ue_context I i = Some u"
  shows "ngap_gNB_handle_nas_downlink I (Some a) stream ies =
    (if nu_rx_stream u \<noteq> 0 \<and> stream \<noteq> nu_rx_stream u then Inr (I, [], - 1)
     else if nu_amf_ue_ngap_id u \<noteq> 0 \<and> ucast (nu_amf_ue_ngap_id u) \<noteq> x then Inr (put_ue I (note_stream stream u), [], - 1)
     else bnd (find_ie nas_pdu_ie ies) (\<lambda>nas_pdu. Inr (put_ue I (note_amf_id x (note_stream stream u)),
       [NGAP_DOWNLINK_NAS (nu_ue_initial_id u) (nu_gNB_ue_ngap_id u) nas_pdu], 0)))"
  unfolding ngap_gNB_handle_nas_downlink_def assms bnd_Inr Let_def note_stream_def [symmetric] note_amf_id_def [symmetric]
  by (simp only: note_keeps option.simps if_False)

lemma downlink_inv:
  assumes "ngap_inv I" "ngap_gNB_handle_nas_downlink I amf stream ies = Inr (I', ms, r)"
  shows "ngap_inv I'"
proof (cases amf)
  case None
  then show ?thesis using assms by (simp add: ngap_gNB_handle_nas_downlink_def)
next
  case (Some a)
  obtain x i where xi: "find_ie amf_id_ie ies = Inr x" "find_ie ran_id_ie ies = Inr i"
    using assms(2) Some by (auto simp: ngap_gNB_handle_nas_downlink_def bnd_eq_Inr)
  show ?thesis
  proof (cases "ngap_gNB_get_ue_context I i")
    case None
    then show ?thesis using assms Some xi by (simp add: ngap_gNB_handle_nas_downlink_def)
  next
    case u: (Some u)
    have ok: "ue_ok I u" "nu_gNB_ue_ngap_id u \<in> nu_gNB_ue_ngap_id ` set (gi_ngap_ue_head I)"
      using assms(1) u get_ue_iff [OF assms(1)] by (auto simp: ngap_inv_def)
    have "I' = I \<or> I' = put_ue I (note_stream stream u) \<or> I' = put_ue I (note_amf_id x (note_stream stream u))"
      using assms(2) unfolding Some downlink_known [OF xi u] by (auto simp: bnd_eq_Inr split: if_splits)
    then show ?thesis using assms(1) ok put_ue_inv(1) [OF assms(1)] by (auto simp: note_keeps)
  qed
qed

lemma release_inv:
  assumes "ngap_inv I" "ngap_ue_context_release_complete encode I i = Inr (I', ms, r)"
  shows "ngap_inv I'"
proof -
  have "I' = I \<or> (\<exists>j. I' = I\<lparr>gi_ngap_ue_head := filter (\<lambda>x. nu_gNB_ue_ngap_id x \<noteq> j) (gi_ngap_ue_head I)\<rparr>)"
    using assms(2) by (auto simp: ngap_ue_context_release_complete_def bnd_eq_Inr split: option.splits)
  moreover have "ngap_inv (I\<lparr>gi_ngap_ue_head := filter (\<lambda>x. nu_gNB_ue_ngap_id x \<noteq> j) (gi_ngap_ue_head I)\<rparr>)" (is "ngap_inv ?J") for j
  proof -
    have "same_gnb I ?J" by (simp add: same_gnb_def user_location_def)
    then show ?thesis using assms(1) same_gnb_ue_ok by (simp add: ngap_inv_def sorted_wrt_filter)
  qed
  ultimately show ?thesis using assms(1) by blast
qed

text \<open>The messages of NG set-up only touch the AMFs and the counters.\<close>

definition keeps_ues :: "ngap_gNB_instance \<Rightarrow> ngap_gNB_instance \<Rightarrow> bool" where
  "keeps_ues I I' \<longleftrightarrow> same_gnb I I' \<and> gi_ngap_ue_head I' = gi_ngap_ue_head I \<and>
     map ad_nextstream (gi_ngap_amf_head I') = map ad_nextstream (gi_ngap_amf_head I)"

lemma keeps_ues_inv: "ngap_inv I \<Longrightarrow> keeps_ues I I' \<Longrightarrow> ngap_inv I'"
proof (rule ues_inv [of I])
  assume k: "ngap_inv I" "keeps_ues I I'"
  have "ad_nextstream ` set (gi_ngap_amf_head I') = ad_nextstream ` set (gi_ngap_amf_head I)"
    using k(2) unfolding keeps_ues_def by (metis set_map)
  then have "\<forall>n\<in>ad_nextstream ` set (gi_ngap_amf_head I'). 0 \<le> n" using k(1) unfolding ngap_inv_def by simp
  then show "\<forall>d\<in>set (gi_ngap_amf_head I'). 0 \<le> ad_nextstream d" by simp
qed (simp_all add: keeps_ues_def)

lemma keeps_ues_trans: "keeps_ues I J \<Longrightarrow> keeps_ues J K \<Longrightarrow> keeps_ues I K"
  by (auto simp: keeps_ues_def intro: same_gnb_trans)

lemma keeps_ues_counters [simp]:
  "keeps_ues I (J\<lparr>gi_ngap_amf_associated_nb := x\<rparr>) = keeps_ues I J" "keeps_ues I (J\<lparr>gi_ngap_amf_pending_nb := x\<rparr>) = keeps_ues I J"
  "keeps_ues I I"
  by (simp_all add: keeps_ues_def same_gnb_def user_location_def)

lemma put_amf_keeps:
  assumes "ad_out_streams d = ad_out_streams (gi_ngap_amf_head I ! a)" "ad_nextstream d = ad_nextstream (gi_ngap_amf_head I ! a)"
  shows "keeps_ues I (put_amf I a d)"
proof -
  have "map ad_nextstream ((gi_ngap_amf_head I)[a := d]) = map ad_nextstream (gi_ngap_amf_head I)"
    using assms(2) by (metis list_update_id map_update)
  then show ?thesis using put_amf_same [OF assms(1)] by (simp add: keeps_ues_def put_amf_def)
qed

lemma setup_message_keeps: "ngap_handle_ng_setup_message I a sh = Inr (I', ms) \<Longrightarrow> keeps_ues I I'"
  using put_amf_keeps [of "(gi_ngap_amf_head I ! a)\<lparr>ad_state := NGAP_GNB_STATE_DISCONNECTED\<rparr>" I a]
  by (auto simp: ngap_handle_ng_setup_message_def Let_def bnd_eq_Inr split: if_splits)

lemma setup_failure_keeps: "ngap_gNB_handle_ng_setup_failure I amf ies = Inr (I', ms, r) \<Longrightarrow> keeps_ues I I'"
proof (cases amf)
  case (Some a)
  assume "ngap_gNB_handle_ng_setup_failure I amf ies = Inr (I', ms, r)"
  then have "ngap_handle_ng_setup_message
      (put_amf I a ((gi_ngap_amf_head I ! a)\<lparr>ad_state := NGAP_GNB_STATE_WAITING\<rparr>)) a False = Inr (I', ms)"
    using Some by (auto simp: ngap_gNB_handle_ng_setup_failure_def bnd_eq_Inr)
  then show ?thesis
    using setup_message_keeps keeps_ues_trans
      put_amf_keeps [of "(gi_ngap_amf_head I ! a)\<lparr>ad_state := NGAP_GNB_STATE_WAITING\<rparr>" I a] by fastforce
qed (simp add: ngap_gNB_handle_ng_setup_failure_def)

lemma setup_response_keeps: "ngap_gNB_handle_ng_setup_response I amf stream ies = Inr (I', ms, r) \<Longrightarrow> keeps_ues I I'"
proof (cases "stream = 0 \<and> amf \<noteq> None")
  case True
  then obtain a where a: "stream = 0" "amf = Some a" by blast
  assume "ngap_gNB_handle_ng_setup_response I amf stream ies = Inr (I', ms, r)"
  then obtain J g c nm ps where J: "J = (put_amf I a ((gi_ngap_amf_head I ! a)\<lparr>ad_served_guami := g, ad_relative_amf_capacity := c,
        ad_amf_name := nm, ad_plmn_supports := ps, ad_state := NGAP_GNB_STATE_CONNECTED\<rparr>))
          \<lparr>gi_ngap_amf_associated_nb := gi_ngap_amf_associated_nb I + 1\<rparr>"
    and st: "ngap_handle_ng_setup_message J a False = Inr (I', ms)"
    unfolding ngap_gNB_handle_ng_setup_response_def a Let_def
    by (simp only: option.simps not_True_eq_False if_False simp_thms) (fastforce simp only: bnd_eq_Inr prod.case prod.inject sum.inject split: prod.splits)
  have "keeps_ues I J" unfolding J by (simp add: put_amf_keeps)
  then show ?thesis using setup_message_keeps [OF st] by (rule keeps_ues_trans)
next
  case False
  assume "ngap_gNB_handle_ng_setup_response I amf stream ies = Inr (I', ms, r)"
  then show ?thesis using False by (auto simp: ngap_gNB_handle_ng_setup_response_def split: if_splits option.splits)
qed

lemma overload_stop_keeps: "ngap_gNB_handle_overload_stop I amf stream = Inr (I', r) \<Longrightarrow> keeps_ues I I'"
  by (auto simp: ngap_gNB_handle_overload_stop_def bnd_eq_Inr intro!: put_amf_keeps split: option.splits)

text \<open>The events of an instance.  AMFs are registered before the first UE.\<close>

inductive ngap_history :: "(ngap_pdu \<Rightarrow> bytes option) \<Rightarrow> (nat \<Rightarrow> int) \<Rightarrow> ngap_gNB_instance \<Rightarrow> nat \<Rightarrow> bool" for encode rnd where
  start: "gi_ngap_ue_head I = [] \<Longrightarrow> \<forall>d\<in>set (gi_ngap_amf_head I). ad_nextstream d = 0 \<Longrightarrow> ngap_history encode rnd I 0"
| first_req: "ngap_history encode rnd I k \<Longrightarrow> ngap_gNB_handle_nas_first_req encode rnd I k req = Inr (I', k', ms, r) \<Longrightarrow>
    ngap_history encode rnd I' k'"
| downlink: "ngap_history encode rnd I k \<Longrightarrow> ngap_gNB_handle_nas_downlink I amf stream ies = Inr (I', ms, r) \<Longrightarrow>
    ngap_history encode rnd I' k"
| release: "ngap_history encode rnd I k \<Longrightarrow> ngap_ue_context_release_complete encode I i = Inr (I', ms, r) \<Longrightarrow>
    ngap_history encode rnd I' k"
| setup_response: "ngap_history encode rnd I k \<Longrightarrow> ngap_gNB_handle_ng_setup_response I amf stream ies = Inr (I', ms, r) \<Longrightarrow>
    ngap_history encode rnd I' k"
| setup_failure: "ngap_history encode rnd I k \<Longrightarrow> ngap_gNB_handle_ng_setup_failure I amf ies = Inr (I', ms, r) \<Longrightarrow>
    ngap_history encode rnd I' k"
| shutdown: "ngap_history encode rnd I k \<Longrightarrow> ngap_handle_ng_setup_message I a True = Inr (I', ms) \<Longrightarrow>
    ngap_history encode rnd I' k"
| overload_stop: "ngap_history encode rnd I k \<Longrightarrow> ngap_gNB_handle_overload_stop I amf stream = Inr (I', r) \<Longrightarrow>
    ngap_history encode rnd I' k"

lemma ngap_history_inv: "ngap_history encode rnd I k \<Longrightarrow> ngap_inv I"
proof (induction rule: ngap_history.induct)
  case (start I)
  then show ?case by (simp add: ngap_inv_def)
next
  case first_req
  then show ?case using first_req_inv by blast
next
  case downlink
  then show ?case using downlink_inv by blast
next
  case release
  then show ?case using release_inv by blast
next
  case setup_response
  then show ?case using keeps_ues_inv setup_response_keeps by blast
next
  case setup_failure
  then show ?case using keeps_ues_inv setup_failure_keeps by blast
next
  case shutdown
  then show ?case using keeps_ues_inv setup_message_keeps by blast
next
  case overload_stop
  then show ?case using keeps_ues_inv overload_stop_keeps by blast
qed

subsection \<open>Properties\<close>

lemma uplink_known:
  assumes "ngap_inv I" "u \<in> set (gi_ngap_ue_head I)"
  shows "\<exists>a l. nu_amf_ref u = Some a \<and> a < length (gi_ngap_amf_head I) \<and>
    user_location I (nu_selected_plmn_identity u) = Inr l \<and> ngap_gNB_nas_uplink encode I (nu_gNB_ue_ngap_id u) nas =
      (case encode (UplinkNASTransport [AMF_UE_NGAP_ID (ucast (nu_amf_ue_ngap_id u)), RAN_UE_NGAP_ID (nu_gNB_ue_ngap_id u), NAS_PDU nas, l]) of
         None \<Rightarrow> Inr ([], - 1)
       | Some buffer \<Rightarrow> Inr ([SCTP_DATA_REQ (ad_assoc_id (gi_ngap_amf_head I ! a)) buffer (word_of_int (nu_tx_stream u))], 0))"
proof -
  have "ngap_gNB_get_ue_context I (nu_gNB_ue_ngap_id u) = Some u" using assms get_ue_iff by blast
  moreover obtain a l where "nu_amf_ref u = Some a" "a < length (gi_ngap_amf_head I)"
    "user_location I (nu_selected_plmn_identity u) = Inr l" "nu_ue_state u = NGAP_UE_WAITING_CSR"
    using assms by (auto simp: ngap_inv_def ue_ok_def)
  ultimately show ?thesis
    by (intro exI [of _ a] exI [of _ l]) (simp add: ngap_gNB_nas_uplink_def send_to_amf_def split: option.split)
qed

text \<open>
  C23: the contexts of UEs in NGAP.  After every sequence of events the identifiers of the contexts are unique, a
  lookup finds each of them, and the uplink of a UE never faults: an \<open>UplinkNASTransport\<close> with the identities of the UE at
  the AMF and at the gNB, the NAS message and the location of the UE goes once, to the AMF selected for
  the UE, on the stream assigned to the UE, which exists and, if the AMF has more than one, is not stream 0 (the
  one for signalling without UE).  Only if the encoder fails on that message nothing is sent and the call returns -1.
\<close>

theorem ngap_ue_contexts_invariant:
  assumes "ngap_history encode rnd I k" "u \<in> set (gi_ngap_ue_head I)"
  shows "distinct (map nu_gNB_ue_ngap_id (gi_ngap_ue_head I)) \<and> ngap_gNB_get_ue_context I (nu_gNB_ue_ngap_id u) = Some u \<and>
    (\<exists>a loc. nu_amf_ref u = Some a \<and> a < length (gi_ngap_amf_head I) \<and>
       0 \<le> nu_tx_stream u \<and> nu_tx_stream u < uint (ad_out_streams (gi_ngap_amf_head I ! a)) \<and>
       (ad_out_streams (gi_ngap_amf_head I ! a) > 1 \<longrightarrow> nu_tx_stream u \<noteq> 0) \<and>
       user_location I (nu_selected_plmn_identity u) = Inr loc \<and>
       (\<forall>nas. ngap_gNB_nas_uplink encode I (nu_gNB_ue_ngap_id u) nas =
          (case encode (UplinkNASTransport [AMF_UE_NGAP_ID (ucast (nu_amf_ue_ngap_id u)), RAN_UE_NGAP_ID (nu_gNB_ue_ngap_id u),
                  NAS_PDU nas, loc]) of
             None \<Rightarrow> Inr ([], - 1)
           | Some buffer \<Rightarrow>
               Inr ([SCTP_DATA_REQ (ad_assoc_id (gi_ngap_amf_head I ! a)) buffer (word_of_int (nu_tx_stream u))], 0))))"
proof -
  have inv: "ngap_inv I" using ngap_history_inv [OF assms(1)] .
  have ok: "ue_ok I u" using inv assms(2) by (simp add: ngap_inv_def)
  note up = uplink_known [OF inv assms(2), of encode]
  obtain a loc where a: "nu_amf_ref u = Some a" "a < length (gi_ngap_amf_head I)" "user_location I (nu_selected_plmn_identity u) = Inr loc"
    using up [of "[]"] by blast
  have "\<forall>nas. ngap_gNB_nas_uplink encode I (nu_gNB_ue_ngap_id u) nas =
          (case encode (UplinkNASTransport [AMF_UE_NGAP_ID (ucast (nu_amf_ue_ngap_id u)), RAN_UE_NGAP_ID (nu_gNB_ue_ngap_id u),
                  NAS_PDU nas, loc]) of
             None \<Rightarrow> Inr ([], - 1)
           | Some buffer \<Rightarrow>
               Inr ([SCTP_DATA_REQ (ad_assoc_id (gi_ngap_amf_head I ! a)) buffer (word_of_int (nu_tx_stream u))], 0))"
    using up a by force
  moreover have "distinct (map nu_gNB_ue_ngap_id (gi_ngap_ue_head I))" using inv ue_map.keys_distinct by (simp add: ngap_inv_def)
  moreover have "ngap_gNB_get_ue_context I (nu_gNB_ue_ngap_id u) = Some u" using assms(2) get_ue_iff [OF inv] by blast
  moreover have "0 \<le> nu_tx_stream u" "nu_tx_stream u < uint (ad_out_streams (gi_ngap_amf_head I ! a))"
    "ad_out_streams (gi_ngap_amf_head I ! a) > 1 \<longrightarrow> nu_tx_stream u \<noteq> 0" using ok a(1) by (auto simp: ue_ok_def)
  ultimately show ?thesis using a by blast
qed

text \<open>
  C22: the first message of a UE.  If an AMF is selected, the PLMN index, the cause and the number of streams are
  valid and some pair of random numbers gives an identifier that is free, then the
  UE gets such an identifier and a context with it, every other context is unchanged, and exactly one
  message is sent, to the selected AMF on the stream of the UE: an \<open>InitialUEMessage\<close> with that identifier, the NAS message, the
  location, the cause, the temporary identity if the UE gave one, and the request for a context.  If the encoder fails on this
  message the process ends.  Without an AMF the call returns -1 and changes nothing.
\<close>

theorem ngap_first_req_outcome:
  assumes "ngap_history encode rnd I k" "nas_first_amf I req = Inr sel"
    "word_of_int (rnd (k + 2 * n) + rnd (Suc (k + 2 * n))) \<notin> nu_gNB_ue_ngap_id ` set (gi_ngap_ue_head I)"
    "user_location I (fr_selected_plmn_identity req) = Inr loc" "fr_establishment_cause req < NGAP_RRC_CAUSE_LAST"
    "\<forall>d\<in>set (gi_ngap_amf_head I). ad_out_streams d \<noteq> 0"
  shows "case sel of
      None \<Rightarrow> ngap_gNB_handle_nas_first_req encode rnd I k req = Inr (I, k, [], - 1)
    | Some a \<Rightarrow> \<exists>I' k' u.
        ngap_gNB_handle_nas_first_req encode rnd I k req =
          (case encode (InitialUEMessage
             ([RAN_UE_NGAP_ID (nu_gNB_ue_ngap_id u), NAS_PDU (fr_nas_pdu req), loc, RRCEstablishmentCause (fr_establishment_cause req)] @
              (case fr_s_tmsi req of Some t \<Rightarrow> [s_tmsi_ie t] | None \<Rightarrow> []) @ [UEContextRequest_requested])) of
             None \<Rightarrow> Inl Exit
           | Some buffer \<Rightarrow>
               Inr (I', k', [SCTP_DATA_REQ (ad_assoc_id (gi_ngap_amf_head I ! a)) buffer (word_of_int (nu_tx_stream u))], 0)) \<and>
        ngap_gNB_get_ue_context I (nu_gNB_ue_ngap_id u) = None \<and>
        (\<forall>j. ngap_gNB_get_ue_context I' j = (if j = nu_gNB_ue_ngap_id u then Some u else ngap_gNB_get_ue_context I j)) \<and>
        nu_amf_ref u = Some a \<and> nu_ue_initial_id u = fr_ue_initial_id req \<and> nu_ue_state u = NGAP_UE_WAITING_CSR \<and>
        nu_selected_plmn_identity u = fr_selected_plmn_identity req \<and>
        (ad_out_streams (gi_ngap_amf_head I ! a) > 1 \<longrightarrow> nu_tx_stream u \<noteq> 0) \<and>
        nu_tx_stream u < uint (ad_out_streams (gi_ngap_amf_head I ! a))"
proof (cases sel)
  case None
  then show ?thesis using assms(2) by (simp add: ngap_gNB_handle_nas_first_req_def)
next
  case (Some a)
  have inv: "ngap_inv I" using ngap_history_inv [OF assms(1)] .
  have am: "nas_first_amf I req = Inr (Some a)" using assms(2) Some by simp
  have al: "a < length (gi_ngap_amf_head I)" using nas_first_amf_bound [OF am] .
  obtain i k1 where d: "ngap_draw_id rnd (nu_gNB_ue_ngap_id ` set (gi_ngap_ue_head I)) k = Some (i, k1)"
    using draw_id_returns [of rnd k n "nu_gNB_ue_ngap_id ` set (gi_ngap_ue_head I)"] assms(3) by blast
  have i: "i \<notin> nu_gNB_ue_ngap_id ` set (gi_ngap_ue_head I)" using draw_id_fresh [OF d] by simp
  have out: "ad_out_streams (gi_ngap_amf_head I ! a) \<noteq> 0" using assms(6) al by simp
  then obtain s where s: "next_stream (ad_nextstream (gi_ngap_amf_head I ! a)) (ad_out_streams (gi_ngap_amf_head I ! a)) = Inr s"
    by (simp add: next_stream_def Let_def)
  have m: "0 \<le> ad_nextstream (gi_ngap_amf_head I ! a)" using inv al by (simp add: ngap_inv_def)
  have run: "ngap_gNB_handle_nas_first_req encode rnd I k req =
      (case encode (InitialUEMessage
         ([RAN_UE_NGAP_ID i, NAS_PDU (fr_nas_pdu req), loc, RRCEstablishmentCause (fr_establishment_cause req)] @
          (case fr_s_tmsi req of Some t \<Rightarrow> [s_tmsi_ie t] | None \<Rightarrow> []) @ [UEContextRequest_requested])) of
         None \<Rightarrow> Inl Exit
       | Some buffer \<Rightarrow>
           Inr (registered I req i a s, k1, [SCTP_DATA_REQ (ad_assoc_id (gi_ngap_amf_head I ! a)) buffer (word_of_int s)], 0))"
    unfolding first_req_eq [OF am d] assms(4) bnd_Inr s using assms(5) by (simp add: deref_def split: option.split)
  have none: "ngap_gNB_get_ue_context I i = None" using i get_ue_iff [OF inv] by (metis imageI option.exhaust)
  note reg = registered_inv(2) [OF inv al i assms(4) s]
  define v where "v = \<lparr>nu_gNB_ue_ngap_id = i, nu_ue_initial_id = fr_ue_initial_id req, nu_amf_ue_ngap_id = 0,
           nu_tx_stream = s, nu_rx_stream = 0, nu_ue_state = NGAP_UE_WAITING_CSR, nu_amf_ref = Some a,
           nu_selected_plmn_identity = fr_selected_plmn_identity req\<rparr>"
  have v: "nu_ue_state v = NGAP_UE_WAITING_CSR" "nu_gNB_ue_ngap_id v = i" "nu_tx_stream v = s" "nu_amf_ref v = Some a" "nu_ue_initial_id v = fr_ue_initial_id req"
    "nu_selected_plmn_identity v = fr_selected_plmn_identity req" by (simp_all add: v_def)
  show ?thesis
    unfolding Some option.case
    using run none reg [folded v_def] next_stream_range [OF s m]
    by (intro exI [of _ "registered I req i a s"] exI [of _ k1] exI [of _ v]) (auto simp: v cong: option.case_cong)
qed

text \<open>A gNB that knows the AMFs of the example, and a UE that announces itself.\<close>

definition example_gnb :: ngap_gNB_instance where
  "example_gnb = \<lparr>gi_ngap_amf_pending_nb = 0, gi_ngap_amf_associated_nb = 3, gi_ngap_amf_head = example_amfs,
     gi_ngap_ue_head = [], gi_instance = 0, gi_gNB_id = 3584, gi_tac = 1, gi_mcc = [208, 0, 0, 0, 0, 0],
     gi_mnc = [93, 0, 0, 0, 0, 0], gi_mnc_digit_length = [2, 0, 0, 0, 0, 0]\<rparr>"

definition example_req :: ngap_nas_first_req where
  "example_req = \<lparr>fr_ue_initial_id = 5, fr_selected_plmn_identity = 0, fr_establishment_cause = 4, fr_nas_pdu = [0x7E],
     fr_s_tmsi = None, fr_guami = None\<rparr>"

lemma example_selected: "nas_first_amf example_gnb example_req = Inr (Some 2)"
  by code_simp

lemma example_location: "\<exists>l. user_location example_gnb 0 = Inr l"
  by (simp add: user_location_def example_gnb_def plmn_at_def MCC_MNC_TO_TBCD_def)

lemma example_start: "ngap_history encode rnd example_gnb 0"
  by (rule start) (simp_all add: example_gnb_def example_amfs_def)

theorem ngap_first_req_outcome_witness:
  "\<exists>I' k' u buffer. ngap_gNB_handle_nas_first_req (\<lambda>m. case m of InitialUEMessage (_ # NAS_PDU b # _) \<Rightarrow> Some b | _ \<Rightarrow> None)
       (\<lambda>_. 7) example_gnb 0 example_req =
     Inr (I', k', [SCTP_DATA_REQ 1 [0x7E] (word_of_int (nu_tx_stream u))], 0) \<and> nu_amf_ref u = Some 2 \<and>
     ngap_gNB_get_ue_context I' (nu_gNB_ue_ngap_id u) = Some u \<and> nu_tx_stream u \<noteq> 0 \<and> nu_tx_stream u < 2"
proof -
  let ?encode = "\<lambda>m. case m of InitialUEMessage (_ # NAS_PDU b # _) \<Rightarrow> Some b | _ \<Rightarrow> None"
  obtain l where l: "user_location example_gnb (fr_selected_plmn_identity example_req) = Inr l"
    using example_location by (auto simp: example_req_def)
  have h: "word_of_int (7 + 7) \<notin> nu_gNB_ue_ngap_id ` set (gi_ngap_ue_head example_gnb)"
    "fr_establishment_cause example_req < NGAP_RRC_CAUSE_LAST"
    "\<forall>d\<in>set (gi_ngap_amf_head example_gnb). ad_out_streams d \<noteq> 0"
    by (simp_all add: example_gnb_def example_req_def NGAP_RRC_CAUSE_LAST_def example_amfs_def)
  note o = ngap_first_req_outcome [OF example_start [of ?encode "\<lambda>_. 7"] example_selected h(1) l h(2,3), unfolded option.case]
  have e: "ad_assoc_id (gi_ngap_amf_head example_gnb ! 2) = 1" "ad_out_streams (gi_ngap_amf_head example_gnb ! 2) = 2"
    "fr_nas_pdu example_req = [0x7E]"
    by (simp_all add: example_gnb_def example_amfs_def example_req_def)
  from o show ?thesis unfolding e by (auto simp: e)
qed

lemma example_registered:
  "ngap_history (\<lambda>_. Some [1]) (\<lambda>_. 7) (registered example_gnb example_req 14 2 1) 2"
proof -
  obtain l where l: "user_location example_gnb (fr_selected_plmn_identity example_req) = Inr l"
    using example_location by (auto simp: example_req_def)
  have d: "ngap_draw_id (\<lambda>_. 7) (nu_gNB_ue_ngap_id ` set (gi_ngap_ue_head example_gnb)) 0 = Some (14, 2)"
    by (subst ngap_draw_id.simps) (simp add: example_gnb_def)
  have s: "next_stream (ad_nextstream (gi_ngap_amf_head example_gnb ! 2)) (ad_out_streams (gi_ngap_amf_head example_gnb ! 2)) = Inr 1"
    by (simp add: example_gnb_def example_amfs_def next_stream_def c_rem_def)
  have "ngap_gNB_handle_nas_first_req (\<lambda>_. Some [1]) (\<lambda>_. 7) example_gnb 0 example_req =
      Inr (registered example_gnb example_req 14 2 1, 2, [SCTP_DATA_REQ (ad_assoc_id (gi_ngap_amf_head example_gnb ! 2)) [1] 1], 0)"
    unfolding first_req_eq [OF example_selected d] l bnd_Inr s by (simp add: example_req_def NGAP_RRC_CAUSE_LAST_def)
  then show ?thesis by (rule first_req [OF example_start])
qed

lemma example_ues: "gi_ngap_ue_head (registered example_gnb example_req 14 2 1) =
    [\<lparr>nu_gNB_ue_ngap_id = 14, nu_ue_initial_id = 5, nu_amf_ue_ngap_id = 0, nu_tx_stream = 1, nu_rx_stream = 0,
      nu_ue_state = NGAP_UE_WAITING_CSR, nu_amf_ref = Some 2, nu_selected_plmn_identity = 0\<rparr>]"
  by (simp add: registered_def example_gnb_def example_req_def)

theorem ngap_ue_contexts_invariant_witness:
  "ngap_gNB_get_ue_context (registered example_gnb example_req 14 2 1) 14 \<noteq> None \<and>
   ngap_gNB_nas_uplink (\<lambda>_. Some [1]) (registered example_gnb example_req 14 2 1) 14 [0x7E] = Inr ([SCTP_DATA_REQ 1 [1] 1], 0)"
proof -
  have e: "ad_assoc_id (gi_ngap_amf_head (registered example_gnb example_req 14 2 1) ! 2) = 1"
    by (simp add: registered_def put_amf_def example_gnb_def example_amfs_def)
  show ?thesis
    using ngap_ue_contexts_invariant [OF example_registered] unfolding example_ues by (auto simp: e)
qed

text \<open>
  Downlink NAS messages.  A message without one of the mandatory elements ends the process.  Otherwise it is
  handed to RRC for exactly the UE that it names, and its stream and AMF identifier are noted if none are noted
  yet; it is refused on another stream than the one noted, without any change, and with another AMF identifier
  than the one noted, but then its stream has been noted all the same.  Other contexts never change.  An AMF
  identifier of 0, which the protocol allows, counts as none.
\<close>

theorem ngap_nas_downlink_outcome:
  assumes "ngap_history encode rnd I k"
    "find_ie amf_id_ie ies = Inr x" "find_ie ran_id_ie ies = Inr i" "ngap_gNB_get_ue_context I i = Some u"
  shows "if nu_rx_stream u \<noteq> 0 \<and> stream \<noteq> nu_rx_stream u
    then ngap_gNB_handle_nas_downlink I (Some a) stream ies = Inr (I, [], - 1)
    else (case (nu_amf_ue_ngap_id u = 0 \<or> ucast (nu_amf_ue_ngap_id u) = x, find_ie nas_pdu_ie ies) of
        (True, Inl e) \<Rightarrow> ngap_gNB_handle_nas_downlink I (Some a) stream ies = Inl Exit
      | (ok, p) \<Rightarrow> \<exists>I' v. ngap_gNB_handle_nas_downlink I (Some a) stream ies =
            Inr (I', if ok then [NGAP_DOWNLINK_NAS (nu_ue_initial_id u) i (projr p)] else [], if ok then 0 else - 1) \<and>
          (\<forall>j. ngap_gNB_get_ue_context I' j = (if j = i then Some v else ngap_gNB_get_ue_context I j)) \<and>
          nu_rx_stream v = (if nu_rx_stream u = 0 then stream else nu_rx_stream u) \<and>
          nu_amf_ue_ngap_id v = (if nu_amf_ue_ngap_id u = 0 then ucast x else nu_amf_ue_ngap_id u) \<and>
          nu_tx_stream v = nu_tx_stream u \<and> nu_amf_ref v = nu_amf_ref u)"
proof -
  have inv: "ngap_inv I" using ngap_history_inv [OF assms(1)] .
  have u: "ue_ok I u" "nu_gNB_ue_ngap_id u \<in> nu_gNB_ue_ngap_id ` set (gi_ngap_ue_head I)" "nu_gNB_ue_ngap_id u = i"
    using inv assms(4) get_ue_iff [OF inv] by (auto simp: ngap_inv_def)
  define s where "s = note_stream stream u"
  define v where "v = note_amf_id x s"
  have put: "ngap_gNB_get_ue_context (put_ue I w) j = (if j = i then Some w else ngap_gNB_get_ue_context I j)" if "w \<in> {s, v}" for w j
  proof -
    have "ue_ok I w" "nu_gNB_ue_ngap_id w = i" using that u by (auto simp: s_def v_def note_keeps)
    then show ?thesis using put_ue_inv(2) [OF inv, of w j] u(2,3) by simp
  qed
  have vs: "nu_rx_stream w = (if nu_rx_stream u = 0 then stream else nu_rx_stream u)" "nu_tx_stream w = nu_tx_stream u"
    "nu_amf_ref w = nu_amf_ref u" if "w \<in> {s, v}" for w using that by (auto simp: s_def v_def note_stream_def note_amf_id_def)
  have va: "nu_amf_ue_ngap_id v = (if nu_amf_ue_ngap_id u = 0 then ucast x else nu_amf_ue_ngap_id u)" "nu_amf_ue_ngap_id s = nu_amf_ue_ngap_id u"
    by (simp_all add: s_def v_def note_stream_def note_amf_id_def)
  note run = downlink_known [OF assms(2-4), of a stream, folded s_def, folded v_def, unfolded u(3)]
  show ?thesis
  proof (cases "nu_rx_stream u \<noteq> 0 \<and> stream \<noteq> nu_rx_stream u")
    case True
    then show ?thesis using run by simp
  next
    case False
    note run' = run [unfolded if_not_P [OF False]]
    show ?thesis
    proof (cases "nu_amf_ue_ngap_id u = 0 \<or> ucast (nu_amf_ue_ngap_id u) = x")
      case ok: True
      have e: "find_ie nas_pdu_ie ies = Inl e \<Longrightarrow> e = Exit" for e by (induction ies) (auto split: option.splits)
      show ?thesis
      proof (cases "find_ie nas_pdu_ie ies")
        case (Inl f)
        then show ?thesis using False ok run' e by auto
      next
        case (Inr p)
        have "ngap_gNB_handle_nas_downlink I (Some a) stream ies =
            Inr (put_ue I v, [NGAP_DOWNLINK_NAS (nu_ue_initial_id u) i p], 0)" using ok run' Inr by auto
        then show ?thesis unfolding if_not_P [OF False]
          using ok Inr put [of v] vs [of v] va(1) by (simp add: exI [of _ v])
      qed
    next
      case bad: False
      then have "ngap_gNB_handle_nas_downlink I (Some a) stream ies = Inr (put_ue I s, [], - 1)" using run' by simp
      then show ?thesis unfolding if_not_P [OF False]
        using bad put [of s] vs [of s] va(2) by (simp add: exI [of _ s])
    qed
  qed
qed

theorem ngap_nas_downlink_outcome_witness:
  "\<exists>I' v. ngap_gNB_handle_nas_downlink (registered example_gnb example_req 14 2 1) (Some 2) 1
       [AMF_UE_NGAP_ID 9, RAN_UE_NGAP_ID 14, NAS_PDU [0x7E]] = Inr (I', [NGAP_DOWNLINK_NAS 5 14 [0x7E]], 0) \<and>
     ngap_gNB_get_ue_context I' 14 = Some v \<and> nu_amf_ue_ngap_id v = 9 \<and> nu_rx_stream v = 1"
proof -
  have inv: "ngap_inv (registered example_gnb example_req 14 2 1)" using ngap_history_inv [OF example_registered] .
  have g: "ngap_gNB_get_ue_context (registered example_gnb example_req 14 2 1) 14 =
      Some \<lparr>nu_gNB_ue_ngap_id = 14, nu_ue_initial_id = 5, nu_amf_ue_ngap_id = 0, nu_tx_stream = 1, nu_rx_stream = 0,
      nu_ue_state = NGAP_UE_WAITING_CSR, nu_amf_ref = Some 2, nu_selected_plmn_identity = 0\<rparr>"
    unfolding get_ue_iff [OF inv] example_ues by simp
  have ie: "find_ie amf_id_ie [AMF_UE_NGAP_ID 9, RAN_UE_NGAP_ID 14, NAS_PDU [0x7E]] = Inr 9"
    "find_ie ran_id_ie [AMF_UE_NGAP_ID 9, RAN_UE_NGAP_ID 14, NAS_PDU [0x7E]] = Inr 14"
    "find_ie nas_pdu_ie [AMF_UE_NGAP_ID 9, RAN_UE_NGAP_ID 14, NAS_PDU [0x7E]] = Inr [0x7E]"
    by (simp_all add: amf_id_ie_def ran_id_ie_def nas_pdu_ie_def)
  show ?thesis using ngap_nas_downlink_outcome [OF example_registered ie(1,2) g, of 1 2] ie(3) by auto
qed

lemma two_octets:
  fixes a b :: byte
  shows "unat (push_bit 8 (ucast a) OR ucast b :: u16) = 256 * unat a + unat b"
proof -
  have "push_bit 8 (ucast a) AND (ucast b :: u16) = 0"
    by (rule bit_eqI) (auto simp: bit_simps dest: bit_imp_le_length)
  then have o: "push_bit 8 (ucast a) OR (ucast b :: u16) = push_bit 8 (ucast a) + ucast b"
    by (simp add: disjunctive_add_eq_or)
  have "unat a < 256" "unat b < 256" using unsigned_less [of a] unsigned_less [of b] by simp_all
  moreover have "(push_bit 8 (ucast a) + ucast b :: u16) = of_nat (256 * unat a + unat b)"
    by (simp add: push_bit_eq_mult)
  ultimately show ?thesis unfolding o by (simp only: unat_of_nat) simp
qed

lemma octets_of_u16: "foldl (\<lambda>n x. 256 * n + unat x) 0 (INT16_TO_BUFFER x) = unat x"
proof -
  have u: "unat x < 2 ^ 16" using unsigned_less [of x] by simp
  have "unat (ucast (drop_bit 8 x) :: byte) = unat x div 256 mod 256"
    using u unfolding unsigned_ucast_eq unsigned_drop_bit_eq by (simp add: take_bit_eq_mod drop_bit_eq_div)
  moreover have "unat (ucast x :: byte) = unat x mod 256" by (simp add: unsigned_ucast_eq take_bit_eq_mod)
  ultimately show ?thesis using u by (simp add: INT16_TO_BUFFER_def)
qed

text \<open>
  AMF set identifiers do not match.  An AMF announces its set, a number of 10 bits, in the first 10 bits of
  two octets; the code stores the 16 bits, 64 times the number.  The set that a UE names is compared with this after
  it is cut to 8 bits, so the two agree exactly if the set of the UE modulo 256 is 64 times the set of the
  AMF: a UE is never matched with an AMF of its own set, unless the set is 0.  In the message to the AMF the set of the
  UE is divided by 64.
\<close>

theorem amf_set_id_mismatch:
  assumes "s < 1024" "t < 1024"
    "served_guami_of (plmn, region, [of_nat (s div 4), of_nat (s mod 4 * 64)], pointer) = Inr g"
  shows "(ucast (ucast (of_nat t :: u16) :: byte) \<in> set (sg_amf_set_ids g) \<longleftrightarrow> t mod 256 = 64 * s) \<and>
    (ucast (ucast (of_nat s :: u16) :: byte) \<in> set (sg_amf_set_ids g) \<longleftrightarrow> s = 0) \<and>
    bit_string_value (AMF_SETID_TO_BIT_STRING (of_nat t)) = t div 64"
proof -
  have "sg_amf_set_ids g = [push_bit 8 (ucast (of_nat (s div 4) :: byte)) OR ucast (of_nat (s mod 4 * 64) :: byte)]"
    using assms(3) by (auto simp: served_guami_of_def bnd_eq_Inr OCTET_STRING_TO_INT16_def)
  moreover have "unat (push_bit 8 (ucast (of_nat (s div 4) :: byte)) OR ucast (of_nat (s mod 4 * 64) :: byte) :: u16) = 64 * s"
  proof -
    have "s div 4 < 256" "s mod 4 * 64 < 256" using assms(1) mod_less_divisor [of 4 s] by simp_all
    then have "unat (of_nat (s div 4) :: byte) = s div 4" "unat (of_nat (s mod 4 * 64) :: byte) = s mod 4 * 64"
      by (simp_all only: unat_of_nat) simp_all
    then show ?thesis unfolding two_octets using mult_div_mod_eq [of 4 s] by linarith
  qed
  moreover have "unat (ucast (ucast (of_nat t :: u16) :: byte) :: u16) = t mod 256" if "t < 1024" for t
    using that unfolding unsigned_ucast_eq unsigned_of_nat by (simp add: take_bit_eq_mod)
  ultimately have m: "ucast (ucast (of_nat t :: u16) :: byte) \<in> set (sg_amf_set_ids g) \<longleftrightarrow> t mod 256 = 64 * s" if "t < 1024" for t
    using that by (simp add: word_unat_eq_iff)
  have "s mod 256 = 64 * s \<longleftrightarrow> s = 0" using mod_less_eq_dividend [of s 256] by (cases "s = 0") auto
  moreover have "bit_string_value (AMF_SETID_TO_BIT_STRING (of_nat t)) = t div 64"
    using assms(2) by (simp add: bit_string_value_def AMF_SETID_TO_BIT_STRING_def octets_of_u16 unat_of_nat)
  ultimately show ?thesis using m assms(1,2) by simp
qed

theorem amf_set_id_mismatch_witness:
  "\<exists>g. served_guami_of ([0x02, 0xF8, 0x39], [1], [0x00, 0x40], [0]) = Inr g \<and> ucast (ucast (1 :: u16) :: byte) \<notin> set (sg_amf_set_ids g) \<and>
     ucast (ucast (64 :: u16) :: byte) \<in> set (sg_amf_set_ids g) \<and> bit_string_value (AMF_SETID_TO_BIT_STRING 64) = 1"
proof -
  obtain g where g: "served_guami_of ([0x02, 0xF8, 0x39], [1], [of_nat (1 div 4), of_nat (1 mod 4 * 64)], [0]) = Inr g"
    by (simp add: served_guami_of_def TBCD_TO_MCC_MNC_def OCTET_STRING_TO_INT8_def OCTET_STRING_TO_INT16_def Let_def)
  from amf_set_id_mismatch [OF _ _ this, of 1] amf_set_id_mismatch [OF _ _ this, of 64] g show ?thesis by simp
qed















end
