(* ===== verification/Rrc_Ngap_Ids.thy ===== *)
theory Rrc_Ngap_Ids
  imports Hash_Table Rrc_Ue_Context Ngap_Nas
begin

text \<open>
  RRC towards NGAP: the identities that relate a UE of RRC to its context in NGAP (\<open>rrc_gNB_NGAP.c\<close>), the first
  NAS message, downlink and uplink NAS transport, and the release of a UE up to the command to the DU
  (\<open>rrc_gNB_generate_RRCRelease\<close> of \<open>rrc_gNB.c\<close>), for one gNB.

  The pairs of identities are objects with an address; two hash tables point to them, one by the initial identity
  that RRC draws and one by the identity that NGAP draws.  Messages to other tasks are outputs.  The ASN.1 encoders
  of the RRC messages are parameters.
\<close>

subsection \<open>Data\<close>

record rrc_ue_ngap_ids =
  ri_ue_initial_id :: u16
  ri_gNB_ue_ngap_id :: u32
  ri_ue_rnti :: u16

text \<open>The fields of \<open>gNB_RRC_UE_t\<close> that these functions use, beside those of \<open>rrc_gNB_ue_context\<close>.\<close>

record rrc_ue_ngap =
  un_ue_initial_id :: u16
  un_gNB_ue_ngap_id :: u32
  un_establishment_cause :: nat
  un_s_tmsi :: fiveg_s_tmsi
  un_ue_guami :: ngap_guami
  un_Srb1_id :: u16
  un_Srb2_Active :: byte
  un_Srb2_id :: u16
  un_ul_failure_timer :: u32
  un_ue_release_timer :: u32
  un_ue_release_timer_ng :: u32
  un_ue_release_timer_rrc :: u32
  un_ue_release_timer_thres_rrc :: u32
  un_ue_reestablishment_timer :: u32

datatype ngran_node =
  ngran_eNB | ngran_ng_eNB | ngran_gNB | ngran_eNB_CU | ngran_ng_eNB_CU | ngran_gNB_CU | ngran_eNB_DU | ngran_gNB_DU |
  ngran_eNB_MBMS_STA

definition NODE_IS_CU :: "ngran_node \<Rightarrow> bool" where
  "NODE_IS_CU n \<longleftrightarrow> n = ngran_eNB_CU \<or> n = ngran_ng_eNB_CU \<or> n = ngran_gNB_CU"

text \<open>
  The state: the RRC instance, the NGAP part of each UE context by the address of the context, the two tables, the
  pairs of identities by address, the static counters of \<open>get_next_ue_initial_id\<close> and
  \<open>rrc_gNB_get_next_transaction_identifier\<close>, \<open>rrc_gNB_mui\<close>, the type of the node, and the NGAP instance.
\<close>

record rrc_gnb =
  rg_inst :: gNB_RRC_INST
  rg_ue :: "nat \<Rightarrow> rrc_ue_ngap"
  rg_initial_id2_ngap_ids :: "hash_table option"
  rg_ngap_id2_ngap_ids :: "hash_table option"
  rg_ids :: "nat \<Rightarrow> rrc_ue_ngap_ids option"
  rg_next_obj :: nat
  rg_ue_initial_id :: u16
  rg_xid :: byte
  rg_mui :: u32
  rg_node_type :: ngran_node
  rg_ngap :: "ngap_gNB_instance option"

datatype rrc_out =
    NGAP_NAS_FIRST_REQ ngap_nas_first_req
  | NGAP_NAS_NON_DELIVERY_IND u32 bytes
  | NGAP_UPLINK_NAS u32 bytes
  | NGAP_UE_CONTEXT_RELEASE_RESP u32
  | NGAP_UE_CONTEXT_RELEASE_COMPLETE u32
  | F1AP_UE_CONTEXT_RELEASE_CMD u16 bytes
  | RRC_DATA_REQ u16 u16 u32 bytes

definition NUMBER_OF_UE_MAX :: nat where
  "NUMBER_OF_UE_MAX = 40"

definition UE_INITIAL_ID_INVALID :: u16 where
  "UE_INITIAL_ID_INVALID = 0"

definition NR_RRC_TRANSACTION_IDENTIFIER_NUMBER :: int where
  "NR_RRC_TRANSACTION_IDENTIFIER_NUMBER = 3"

definition DCCH :: u16 where
  "DCCH = 1"

definition zero_rrc_ue_ngap :: rrc_ue_ngap where
  "zero_rrc_ue_ngap =
     \<lparr>un_ue_initial_id = 0, un_gNB_ue_ngap_id = 0, un_establishment_cause = 0,
      un_s_tmsi = \<lparr>st_amf_set_id = 0, st_amf_pointer = 0, st_m_tmsi = 0\<rparr>,
      un_ue_guami = \<lparr>gu_mcc = 0, gu_mnc = 0, gu_amf_region_id = 0, gu_amf_set_id = 0, gu_amf_pointer = 0\<rparr>,
      un_Srb1_id = 0, un_Srb2_Active = 0, un_Srb2_id = 0, un_ul_failure_timer = 0, un_ue_release_timer = 0,
      un_ue_release_timer_ng = 0, un_ue_release_timer_rrc = 0, un_ue_release_timer_thres_rrc = 0, un_ue_reestablishment_timer = 0\<rparr>"

text \<open>The part of the initialisation of the RRC instance that sets these fields.\<close>

definition init_rrc_gnb :: "ngran_node \<Rightarrow> ngap_gNB_instance option \<Rightarrow> rrc_gnb" where
  "init_rrc_gnb node_type ngap =
     \<lparr>rg_inst = initial_rrc_inst, rg_ue = (\<lambda>_. zero_rrc_ue_ngap),
      rg_initial_id2_ngap_ids = Some (hashtable_create (of_nat (NUMBER_OF_UE_MAX * 2)) None None),
      rg_ngap_id2_ngap_ids = Some (hashtable_create (of_nat (NUMBER_OF_UE_MAX * 2)) None None),
      rg_ids = Map.empty, rg_next_obj = 1, rg_ue_initial_id = 0, rg_xid = 0, rg_mui = 0,
      rg_node_type = node_type, rg_ngap = ngap\<rparr>"

subsection \<open>The pairs of identities\<close>

text \<open>Access through a pointer, and the release of objects.\<close>

definition ids_at :: "rrc_gnb \<Rightarrow> nat option \<Rightarrow> rrc_ue_ngap_ids res" where
  "ids_at S p = bnd (deref p NullDeref) (\<lambda>a. deref (rg_ids S a) Dangling)"

fun free_ids :: "rrc_gnb \<Rightarrow> nat list \<Rightarrow> rrc_gnb res" where
  "free_ids S [] = Inr S"
| "free_ids S (a # as) = (case rg_ids S a of None \<Rightarrow> Inl Dangling | Some _ \<Rightarrow> free_ids (S\<lparr>rg_ids := (rg_ids S)(a := None)\<rparr>) as)"

definition get_next_ue_initial_id :: "rrc_gnb \<Rightarrow> rrc_gnb \<times> u16" where
  "get_next_ue_initial_id S =
     (let i = rg_ue_initial_id S + 1; j = (if i = UE_INITIAL_ID_INVALID then i + 1 else i)
      in (S\<lparr>rg_ue_initial_id := j\<rparr>, j))"

definition rrc_gNB_NGAP_get_ue_ids :: "rrc_gnb \<Rightarrow> u16 \<Rightarrow> u32 \<Rightarrow> (rrc_gnb \<times> nat option) res" where
  "rrc_gNB_NGAP_get_ue_ids S ue_initial_id gNB_ue_ngap_id =
     (if ue_initial_id \<noteq> UE_INITIAL_ID_INVALID
      then bnd (hashtable_get (rg_initial_id2_ngap_ids S) (ucast ue_initial_id)) (\<lambda>(result, h_rc).
             if h_rc \<noteq> HASH_TABLE_OK then Inr (S, None)
             else if gNB_ue_ngap_id > 0
             then bnd (hashtable_get (rg_ngap_id2_ngap_ids S) (ucast gNB_ue_ngap_id)) (\<lambda>(result2, h_rc2).
                    if h_rc2 \<noteq> HASH_TABLE_OK
                    then bnd (deref result NullDeref) (\<lambda>a1.
                         bnd (ids_at S result) (\<lambda>r.
                         let a2 = rg_next_obj S; r2 = r\<lparr>ri_gNB_ue_ngap_id := gNB_ue_ngap_id\<rparr>
                         in bnd (hashtable_insert (rg_ngap_id2_ngap_ids S) (ucast gNB_ue_ngap_id) (Some a2)) (\<lambda>(t, _, fr).
                            bnd (free_ids (S\<lparr>rg_next_obj := a2 + 1, rg_ids := (rg_ids S)(a2 \<mapsto> r2, a1 \<mapsto> r2), rg_ngap_id2_ngap_ids := t\<rparr>) fr) (\<lambda>S1.
                              Inr (S1, result)))))
                    else bnd (ids_at S result) (\<lambda>_. bnd (ids_at S result2) (\<lambda>_. Inr (S, result))))
             else Inr (S, result))
      else if gNB_ue_ngap_id > 0
      then bnd (hashtable_get (rg_ngap_id2_ngap_ids S) (ucast gNB_ue_ngap_id)) (\<lambda>(result, h_rc).
             if h_rc \<noteq> HASH_TABLE_OK
             then (case rg_ngap S of
                     None \<Rightarrow> Inr (S, None)
                   | Some G \<Rightarrow>
                       (case ngap_gNB_get_ue_context G gNB_ue_ngap_id of
                          None \<Rightarrow> Inr (S, None)
                        | Some u \<Rightarrow>
                            Inr (S\<lparr>rg_ngap := Some (G\<lparr>gi_ngap_ue_head :=
                                   filter (\<lambda>x. nu_gNB_ue_ngap_id x \<noteq> nu_gNB_ue_ngap_id u) (gi_ngap_ue_head G)\<rparr>)\<rparr>, None)))
             else Inr (S, result))
      else Inr (S, None))"

definition rrc_gNB_get_ue_context_from_ngap_ids :: "rrc_gnb \<Rightarrow> u16 \<Rightarrow> u32 \<Rightarrow> (rrc_gnb \<times> rrc_gNB_ue_context option) res" where
  "rrc_gNB_get_ue_context_from_ngap_ids S ue_initial_id gNB_ue_ngap_id =
     bnd (rrc_gNB_NGAP_get_ue_ids S ue_initial_id gNB_ue_ngap_id) (\<lambda>(S1, temp).
       if temp = None then Inr (S1, None)
       else bnd (ids_at S1 temp) (\<lambda>r. Inr (S1, rrc_gNB_get_ue_context (rg_inst S1) (ri_ue_rnti r))))"

definition rrc_gNB_NGAP_remove_ue_ids :: "rrc_gnb \<Rightarrow> nat option \<Rightarrow> rrc_gnb res" where
  "rrc_gNB_NGAP_remove_ue_ids S ue_ids =
     (if ue_ids = None then Inr S
      else bnd (ids_at S ue_ids) (\<lambda>r.
           bnd (if ri_gNB_ue_ngap_id r > 0
                then bnd (hashtable_remove (rg_ngap_id2_ngap_ids S) (ucast (ri_gNB_ue_ngap_id r))) (\<lambda>(t, _, fr).
                       free_ids (S\<lparr>rg_ngap_id2_ngap_ids := t\<rparr>) fr)
                else Inr S) (\<lambda>S1.
             if ri_ue_initial_id r \<noteq> UE_INITIAL_ID_INVALID
             then bnd (hashtable_remove (rg_initial_id2_ngap_ids S1) (ucast (ri_ue_initial_id r))) (\<lambda>(t, _, fr).
                    free_ids (S1\<lparr>rg_initial_id2_ngap_ids := t\<rparr>) fr)
             else Inr S1)))"

subsection \<open>NAS transport\<close>

text \<open>What these functions read of \<open>RRCSetupComplete\<close>; a digit of a PLMN is the value of its element.\<close>

record registered_amf =
  ra_plmn_Identity :: "(u16 list option \<times> u16 list) option"
  ra_amf_Identifier :: bit_string

record rrc_setup_complete =
  sc_selectedPLMN_Identity :: int
  sc_registeredAMF :: "registered_amf option"
  sc_dedicatedNAS_Message :: bytes

text \<open>The loop over the octets but the last; a shift by 0 or more, as the size is at most 4.\<close>

fun bit_string_shifts :: "bytes \<Rightarrow> int \<Rightarrow> u32 \<Rightarrow> u32 \<times> int" where
  "bit_string_shifts [] sh acc = (acc, sh)"
| "bit_string_shifts (b # bs) sh acc = bit_string_shifts bs (sh - 8) (acc OR push_bit (nat sh) (ucast b))"

definition BIT_STRING_to_uint32 :: "bit_string \<Rightarrow> u32 res" where
  "BIT_STRING_to_uint32 asn =
     (let buf = fst asn; unused = snd asn in
      bnd (guard (0 < length buf \<and> length buf \<le> 4) Exit) (\<lambda>_.
        Inr (fst (bit_string_shifts (butlast buf) (int ((length buf - 1) * 8) - int unused) 0) OR drop_bit unused (ucast (last buf)))))"

definition digit_at :: "u16 list \<Rightarrow> int \<Rightarrow> u16 res" where
  "digit_at ds i = (if 0 \<le> i \<and> i < int (length ds) then Inr (ds ! nat i) else Inl OutOfBounds)"

definition registered_guami :: "rrc_ue_ngap \<Rightarrow> int \<Rightarrow> registered_amf \<Rightarrow> ngap_guami res" where
  "registered_guami u sel r_amf =
     bnd (case ra_plmn_Identity r_amf of
            None \<Rightarrow> Inr (0, 0)
          | Some (mcc, mnc) \<Rightarrow>
              bnd (case mcc of Some (d # ds) \<Rightarrow> digit_at (d # ds) sel | _ \<Rightarrow> Inr 0) (\<lambda>c.
              bnd (if mnc \<noteq> [] then digit_at mnc sel else Inr 0) (\<lambda>n. Inr (c, n)))) (\<lambda>(c, n).
     bnd (BIT_STRING_to_uint32 (ra_amf_Identifier r_amf)) (\<lambda>amf_Id.
       Inr \<lparr>gu_mcc = c, gu_mnc = n, gu_amf_region_id = ucast (drop_bit 16 amf_Id),
            gu_amf_set_id = st_amf_set_id (un_s_tmsi u), gu_amf_pointer = st_amf_pointer (un_s_tmsi u)\<rparr>))"

text \<open>The s-TMSI is copied into the message, but its bit of the presence mask is never set.\<close>

definition rrc_gNB_send_NGAP_NAS_FIRST_REQ ::
    "rrc_gnb \<Rightarrow> u16 \<Rightarrow> rrc_gNB_ue_context \<Rightarrow> rrc_setup_complete \<Rightarrow> (rrc_gnb \<times> rrc_out list) res" where
  "rrc_gNB_send_NGAP_NAS_FIRST_REQ S rnti c setup =
     (let (S1, i) = get_next_ue_initial_id S;
          a = rg_next_obj S1;
          u = (rg_ue S1 (uc_addr c))\<lparr>un_ue_initial_id := i\<rparr>;
          S2 = S1\<lparr>rg_ue := (rg_ue S1)(uc_addr c := u), rg_next_obj := a + 1,
                  rg_ids := (rg_ids S1)(a \<mapsto> \<lparr>ri_ue_initial_id = i, ri_gNB_ue_ngap_id = ucast UE_INITIAL_ID_INVALID, ri_ue_rnti = rnti\<rparr>)\<rparr>
      in bnd (hashtable_insert (rg_initial_id2_ngap_ids S2) (ucast i) (Some a)) (\<lambda>(t, _, fr).
         bnd (free_ids (S2\<lparr>rg_initial_id2_ngap_ids := t\<rparr>) fr) (\<lambda>S3.
         bnd (guard (un_establishment_cause u < NGAP_RRC_CAUSE_LAST) Exit) (\<lambda>_.
         let sel = sc_selectedPLMN_Identity setup - 1;
             req = \<lparr>fr_ue_initial_id = i, fr_selected_plmn_identity = sel, fr_establishment_cause = un_establishment_cause u,
                    fr_nas_pdu = sc_dedicatedNAS_Message setup, fr_s_tmsi = None, fr_guami = None\<rparr>
         in case sc_registeredAMF setup of
              None \<Rightarrow> Inr (S3, [NGAP_NAS_FIRST_REQ req])
            | Some r_amf \<Rightarrow>
                bnd (registered_guami u sel r_amf) (\<lambda>g.
                  Inr (S3\<lparr>rg_ue := (rg_ue S3)(uc_addr c := u\<lparr>un_ue_guami := g\<rparr>)\<rparr>,
                       [NGAP_NAS_FIRST_REQ (req\<lparr>fr_guami := Some g\<rparr>)]))))))"

definition rrc_gNB_get_next_transaction_identifier :: "rrc_gnb \<Rightarrow> rrc_gnb \<times> byte" where
  "rrc_gNB_get_next_transaction_identifier S =
     (let x = byte_of_int ((uint (rg_xid S) + 1) mod NR_RRC_TRANSACTION_IDENTIFIER_NUMBER)
      in (S\<lparr>rg_xid := x\<rparr>, x))"

text \<open>\<open>dlit\<close> is the encoder of \<open>DLInformationTransfer\<close>.\<close>

definition rrc_gNB_process_NGAP_DOWNLINK_NAS ::
    "(byte \<Rightarrow> bytes \<Rightarrow> bytes) \<Rightarrow> rrc_gnb \<Rightarrow> u16 \<Rightarrow> u32 \<Rightarrow> bytes \<Rightarrow> (rrc_gnb \<times> rrc_out list \<times> int) res" where
  "rrc_gNB_process_NGAP_DOWNLINK_NAS dlit S ue_initial_id gNB_ue_ngap_id nas_pdu =
     bnd (rrc_gNB_get_ue_context_from_ngap_ids S ue_initial_id gNB_ue_ngap_id) (\<lambda>(S1, ctx).
     case ctx of
       None \<Rightarrow> Inr (S1, [NGAP_NAS_NON_DELIVERY_IND gNB_ue_ngap_id nas_pdu], - 1)
     | Some c \<Rightarrow>
         let u = rg_ue S1 (uc_addr c);
             u1 = (if un_gNB_ue_ngap_id u = 0 then u\<lparr>un_gNB_ue_ngap_id := gNB_ue_ngap_id\<rparr> else u);
             (S2, xid) = rrc_gNB_get_next_transaction_identifier (S1\<lparr>rg_ue := (rg_ue S1)(uc_addr c := u1)\<rparr>);
             buffer = dlit xid nas_pdu;
             srb = (if un_Srb2_Active u1 = 1 then un_Srb2_id u1 else un_Srb1_id u1)
         in if rg_node_type S2 = ngran_gNB_CU \<or> rg_node_type S2 = ngran_gNB
            then Inr (S2\<lparr>rg_mui := rg_mui S2 + 1\<rparr>, [RRC_DATA_REQ (uc_rnti c) srb (rg_mui S2) buffer], 0)
            else if rg_node_type S2 = ngran_gNB_DU then Inl Exit
            else Inr (S2, [], 0))"

text \<open>The NAS message of a \<open>ULInformationTransfer\<close> with the expected critical extension.\<close>

definition rrc_gNB_send_NGAP_UPLINK_NAS :: "rrc_gnb \<Rightarrow> rrc_gNB_ue_context \<Rightarrow> bytes option \<Rightarrow> rrc_out list" where
  "rrc_gNB_send_NGAP_UPLINK_NAS S c dedicatedNAS_Message =
     (case dedicatedNAS_Message of
        Some pdu \<Rightarrow> [NGAP_UPLINK_NAS (un_gNB_ue_ngap_id (rg_ue S (uc_addr c))) pdu]
      | None \<Rightarrow> [])"

subsection \<open>Release\<close>

definition rrc_gNB_process_NGAP_UE_CONTEXT_RELEASE_REQ :: "rrc_gnb \<Rightarrow> u32 \<Rightarrow> (rrc_gnb \<times> rrc_out list \<times> int) res" where
  "rrc_gNB_process_NGAP_UE_CONTEXT_RELEASE_REQ S gNB_ue_ngap_id =
     bnd (rrc_gNB_get_ue_context_from_ngap_ids S UE_INITIAL_ID_INVALID gNB_ue_ngap_id) (\<lambda>(S1, ctx).
       Inr (S1, [NGAP_UE_CONTEXT_RELEASE_RESP gNB_ue_ngap_id], if ctx = None then - 1 else 0))"

text \<open>\<open>release\<close> is the encoder of \<open>RRCRelease\<close>.\<close>

definition rrc_gNB_generate_RRCRelease ::
    "(byte \<Rightarrow> bytes) \<Rightarrow> rrc_gnb \<Rightarrow> rrc_gNB_ue_context \<Rightarrow> rrc_gnb \<times> rrc_out list" where
  "rrc_gNB_generate_RRCRelease release S c =
     (let (S1, xid) = rrc_gNB_get_next_transaction_identifier S;
          buffer = release xid;
          u = (rg_ue S1 (uc_addr c))\<lparr>un_ue_reestablishment_timer := 0, un_ue_release_timer := 0, un_ul_failure_timer := 0,
                un_ue_release_timer_rrc := 0\<rparr>
      in if NODE_IS_CU (rg_node_type S1)
         then (S1\<lparr>rg_ue := (rg_ue S1)(uc_addr c := u)\<rparr>, [F1AP_UE_CONTEXT_RELEASE_CMD (uc_rnti c) buffer])
         else (S1\<lparr>rg_ue := (rg_ue S1)(uc_addr c := u\<lparr>un_ue_release_timer_rrc := 1\<rparr>), rg_mui := rg_mui S1 + 1\<rparr>,
               [RRC_DATA_REQ (uc_rnti c) DCCH (rg_mui S1) buffer, NGAP_UE_CONTEXT_RELEASE_COMPLETE (un_gNB_ue_ngap_id u)]))"

definition rrc_gNB_process_NGAP_UE_CONTEXT_RELEASE_COMMAND ::
    "(byte \<Rightarrow> bytes) \<Rightarrow> rrc_gnb \<Rightarrow> u32 \<Rightarrow> (rrc_gnb \<times> rrc_out list \<times> int) res" where
  "rrc_gNB_process_NGAP_UE_CONTEXT_RELEASE_COMMAND release S gNB_ue_ngap_id =
     bnd (rrc_gNB_get_ue_context_from_ngap_ids S UE_INITIAL_ID_INVALID gNB_ue_ngap_id) (\<lambda>(S1, ctx).
     case ctx of
       None \<Rightarrow>
         bnd (rrc_gNB_NGAP_get_ue_ids S1 UE_INITIAL_ID_INVALID gNB_ue_ngap_id) (\<lambda>(S2, ids).
         bnd (rrc_gNB_NGAP_remove_ue_ids S2 ids) (\<lambda>S3.
           Inr (S3, [NGAP_UE_CONTEXT_RELEASE_COMPLETE gNB_ue_ngap_id], - 1)))
     | Some c \<Rightarrow>
         let u = (rg_ue S1 (uc_addr c))\<lparr>un_ue_release_timer_ng := 0, un_ue_release_timer_thres_rrc := 1000\<rparr>;
             (S2, out) = rrc_gNB_generate_RRCRelease release (S1\<lparr>rg_ue := (rg_ue S1)(uc_addr c := u)\<rparr>) c
         in Inr (S2, out, 0))"

subsection \<open>Tables and objects\<close>

text \<open>
  The tables represent the state: every entry points to a live object that carries the key of the entry, and
  every live object is held by exactly one entry of one table.
\<close>

definition entries_match :: "rrc_gnb \<Rightarrow> hash_table \<Rightarrow> (rrc_ue_ngap_ids \<Rightarrow> u64) \<Rightarrow> bool" where
  "entries_match S t key \<longleftrightarrow>
     (\<forall>k d. ht_map t k = Some d \<longrightarrow> k \<noteq> 0 \<and> (\<exists>a r. d = Some a \<and> rg_ids S a = Some r \<and> key r = k))"

definition ids_rep :: "rrc_gnb \<Rightarrow> hash_table \<Rightarrow> hash_table \<Rightarrow> bool" where
  "ids_rep S T N \<longleftrightarrow>
     rg_initial_id2_ngap_ids S = Some T \<and> rg_ngap_id2_ngap_ids S = Some N \<and>
     ht_inv T \<and> ht_freefunc T = libc_free \<and> ht_inv N \<and> ht_freefunc N = libc_free \<and>
     finite (dom (rg_ids S)) \<and> (\<forall>a\<in>dom (rg_ids S). a < rg_next_obj S) \<and>
     ht_held T + ht_held N = mset_set (dom (rg_ids S)) \<and>
     entries_match S T (\<lambda>r. ucast (ri_ue_initial_id r)) \<and> entries_match S N (\<lambda>r. ucast (ri_gNB_ue_ngap_id r))"

text \<open>The pair that a table has for an identity.\<close>

definition ids_of :: "rrc_gnb \<Rightarrow> hash_table option \<Rightarrow> u64 \<Rightarrow> rrc_ue_ngap_ids option" where
  "ids_of S tp k = (case tp of Some t \<Rightarrow> (case ht_map t k of Some (Some a) \<Rightarrow> rg_ids S a | _ \<Rightarrow> None) | None \<Rightarrow> None)"

definition by_initial :: "rrc_gnb \<Rightarrow> u16 \<Rightarrow> rrc_ue_ngap_ids option" where
  "by_initial S i = ids_of S (rg_initial_id2_ngap_ids S) (ucast i)"

definition by_ngap :: "rrc_gnb \<Rightarrow> u32 \<Rightarrow> rrc_ue_ngap_ids option" where
  "by_ngap S g = ids_of S (rg_ngap_id2_ngap_ids S) (ucast g)"

lemma ids_of_cong: "rg_ids S' = rg_ids S \<Longrightarrow> ids_of S' = ids_of S"
proof -
  assume e: "rg_ids S' = rg_ids S"
  show ?thesis unfolding ids_of_def e ..
qed

lemma ids_of_tables [simp]:
  "ids_of (S\<lparr>rg_initial_id2_ngap_ids := t\<rparr>) = ids_of S" "ids_of (S\<lparr>rg_ngap_id2_ngap_ids := t\<rparr>) = ids_of S"
  "ids_of (S\<lparr>rg_inst := a\<rparr>) = ids_of S" "ids_of (S\<lparr>rg_ue := b\<rparr>) = ids_of S" "ids_of (S\<lparr>rg_ue_initial_id := c\<rparr>) = ids_of S"
  "ids_of (S\<lparr>rg_xid := d\<rparr>) = ids_of S" "ids_of (S\<lparr>rg_mui := e\<rparr>) = ids_of S" "ids_of (S\<lparr>rg_ngap := f\<rparr>) = ids_of S"
  by (rule ids_of_cong, simp)+

lemma uint_ucast_u64: "uint (ucast (i :: u16) :: u64) = uint i" "uint (ucast (g :: u32) :: u64) = uint g"
  unfolding unsigned_ucast_eq
  by (rule take_bit_int_eq_self, simp, rule less_trans [OF uint_lt2p], simp)+

lemma ucast_u64_inject [simp]:
  "(ucast (i :: u16) :: u64) = ucast i' \<longleftrightarrow> i = i'" "(ucast (g :: u32) :: u64) = ucast g' \<longleftrightarrow> g = g'"
  "(ucast (i :: u16) :: u64) = 0 \<longleftrightarrow> i = 0" "(ucast (g :: u32) :: u64) = 0 \<longleftrightarrow> g = 0"
  by (simp_all only: word_uint_eq_iff uint_ucast_u64 unsigned_0)

lemma chain_held_libc: "b \<in># chain_held libc_free c \<longleftrightarrow> (\<exists>n\<in>set c. hn_data n = Some b)"
  by (induction c) (auto simp: chain_held_def free_data_def libc_free_def split: option.split)

lemma in_mset_sum_list_iff: "b \<in># (\<Sum>c\<leftarrow>cs. f c) \<longleftrightarrow> (\<exists>c\<in>set cs. b \<in># f c)"
  by (induction cs) auto

lemma held_entry:
  assumes "ht_inv t" "ht_freefunc t = libc_free" "ht_map t k = Some (Some b)"
  shows "b \<in># ht_held t"
proof -
  obtain n where "n \<in> set (ht_nodes t ! ht_index t k)" "hn_data n = Some b"
    using assms(3) chain_find_Some [of k "ht_nodes t ! ht_index t k"] by (auto simp: ht_map_def)
  then have "b \<in># chain_held libc_free (ht_nodes t ! ht_index t k)" using chain_held_libc by blast
  moreover have "ht_nodes t ! ht_index t k \<in> set (ht_nodes t)" using hash_chain_eq [OF assms(1)] by simp
  ultimately show ?thesis unfolding ht_held_def assms(2) by (auto simp: in_mset_sum_list_iff)
qed

lemma free_ids_ok:
  assumes "finite (dom (rg_ids S))" "H + mset fr = mset_set (dom (rg_ids S))"
  shows "free_ids S fr = Inr (S\<lparr>rg_ids := rg_ids S |` (- set fr)\<rparr>) \<and> H = mset_set (dom (rg_ids S) - set fr)"
  using assms
proof (induction fr arbitrary: S)
  case Nil
  then show ?case by simp
next
  case (Cons a as)
  have a: "a \<in> dom (rg_ids S)" using Cons.prems by (metis elem_mset_set list.set_intros(1) set_mset_mset union_iff)
  define S1 where "S1 = S\<lparr>rg_ids := (rg_ids S)(a := None)\<rparr>"
  have d: "dom (rg_ids S1) = dom (rg_ids S) - {a}" by (auto simp: S1_def)
  have "H + mset as = mset_set (dom (rg_ids S)) - {#a#}" using Cons.prems(2) by (metis add_mset_add_single add_mset_remove_trivial mset.simps(2) union_mset_add_mset_right)
  then have "H + mset as = mset_set (dom (rg_ids S1))" using a Cons.prems(1) by (simp add: d mset_set_Diff)
  from Cons.IH [OF _ this] have ih: "free_ids S1 as = Inr (S1\<lparr>rg_ids := rg_ids S1 |` (- set as)\<rparr>)"
    "H = mset_set (dom (rg_ids S1) - set as)" using Cons.prems(1) d by auto
  have "rg_ids S1 |` (- set as) = rg_ids S |` (- set (a # as))" by (auto simp: S1_def restrict_map_def)
  moreover have "dom (rg_ids S1) - set as = dom (rg_ids S) - set (a # as)" using d by auto
  moreover have "free_ids S (a # as) = free_ids S1 as" using a by (auto simp: S1_def)
  ultimately show ?case using ih by (simp add: S1_def)
qed

text \<open>The state while objects wait to be released.\<close>

definition entries_weak :: "rrc_gnb \<Rightarrow> hash_table \<Rightarrow> (rrc_ue_ngap_ids \<Rightarrow> u64) \<Rightarrow> bool" where
  "entries_weak S t key \<longleftrightarrow>
     (\<forall>k d. ht_map t k = Some d \<longrightarrow> k \<noteq> 0 \<and> (\<exists>a. d = Some a \<and> (\<forall>r. rg_ids S a = Some r \<longrightarrow> key r = k)))"

definition ids_weak :: "rrc_gnb \<Rightarrow> hash_table \<Rightarrow> hash_table \<Rightarrow> nat list \<Rightarrow> bool" where
  "ids_weak S T N fr \<longleftrightarrow>
     rg_initial_id2_ngap_ids S = Some T \<and> rg_ngap_id2_ngap_ids S = Some N \<and>
     ht_inv T \<and> ht_freefunc T = libc_free \<and> ht_inv N \<and> ht_freefunc N = libc_free \<and>
     finite (dom (rg_ids S)) \<and> (\<forall>a\<in>dom (rg_ids S). a < rg_next_obj S) \<and>
     ht_held T + ht_held N + mset fr = mset_set (dom (rg_ids S)) \<and>
     entries_weak S T (\<lambda>r. ucast (ri_ue_initial_id r)) \<and> entries_weak S N (\<lambda>r. ucast (ri_gNB_ue_ngap_id r))"

lemma entries_weaken: "entries_match S t key \<Longrightarrow> entries_weak S t key"
  by (fastforce simp: entries_match_def entries_weak_def)

lemma entries_strengthen:
  assumes "ht_inv t" "ht_freefunc t = libc_free" "entries_weak S t key" "set_mset (ht_held t) \<subseteq> dom (rg_ids S)"
  shows "entries_match S t key"
  using assms(3,4) held_entry [OF assms(1,2)] unfolding entries_match_def entries_weak_def by blast

lemma entries_weak_restrict: "entries_weak S t key \<Longrightarrow> entries_weak (S\<lparr>rg_ids := rg_ids S |` X\<rparr>) t key"
  by (fastforce simp: entries_weak_def restrict_map_def split: if_splits)

lemma ids_of_restrict:
  assumes "ht_inv t" "ht_freefunc t = libc_free" "set_mset (ht_held t) \<subseteq> X"
  shows "ids_of (S\<lparr>rg_ids := rg_ids S |` X\<rparr>) (Some t) k = ids_of S (Some t) k"
  using held_entry [OF assms(1,2), of k] assms(3) by (auto simp: ids_of_def restrict_map_def split: option.split)

lemma ids_weak_free:
  assumes "ids_weak S T N fr"
  shows "\<exists>S'. free_ids S fr = Inr S' \<and> ids_rep S' T N \<and> S' = S\<lparr>rg_ids := rg_ids S |` (- set fr)\<rparr> \<and>
    ids_of S' (Some T) = ids_of S (Some T) \<and> ids_of S' (Some N) = ids_of S (Some N)"
proof -
  note w = assms [unfolded ids_weak_def]
  define S' where "S' = S\<lparr>rg_ids := rg_ids S |` (- set fr)\<rparr>"
  have f: "free_ids S fr = Inr S'" "ht_held T + ht_held N = mset_set (dom (rg_ids S'))"
    using free_ids_ok [of S "ht_held T + ht_held N" fr] w by (auto simp: S'_def Diff_eq)
  have d: "dom (rg_ids S') = dom (rg_ids S) - set fr" by (auto simp: S'_def restrict_map_def split: if_splits)
  then have fin: "finite (dom (rg_ids S'))" using w by simp
  have "set_mset (ht_held T) \<union> set_mset (ht_held N) = dom (rg_ids S')"
    unfolding set_mset_union [symmetric] f(2) using fin by simp
  then have h: "set_mset (ht_held T) \<subseteq> dom (rg_ids S')" "set_mset (ht_held N) \<subseteq> dom (rg_ids S')" by auto
  have "entries_weak S' T (\<lambda>r. ucast (ri_ue_initial_id r))" "entries_weak S' N (\<lambda>r. ucast (ri_gNB_ue_ngap_id r))"
    using w entries_weak_restrict by (auto simp: S'_def)
  then have "entries_match S' T (\<lambda>r. ucast (ri_ue_initial_id r))" "entries_match S' N (\<lambda>r. ucast (ri_gNB_ue_ngap_id r))"
    using w h entries_strengthen by blast+
  then have "ids_rep S' T N" using w f(2) fin d by (simp add: ids_rep_def S'_def)
  moreover have "ids_of S' (Some T) k = ids_of S (Some T) k" "ids_of S' (Some N) k = ids_of S (Some N) k" for k
    unfolding S'_def using w h d by (auto intro!: ids_of_restrict)
  ultimately show ?thesis using f(1) by (auto simp: S'_def fun_eq_iff)
qed

text \<open>What a representation gives.\<close>

lemma rep_get:
  assumes "ids_rep S T N"
  shows "hashtable_get (rg_initial_id2_ngap_ids S) k =
      Inr (case ht_map T k of Some d \<Rightarrow> (d, HASH_TABLE_OK) | None \<Rightarrow> (None, HASH_TABLE_KEY_NOT_EXISTS))"
    "hashtable_get (rg_ngap_id2_ngap_ids S) k =
      Inr (case ht_map N k of Some d \<Rightarrow> (d, HASH_TABLE_OK) | None \<Rightarrow> (None, HASH_TABLE_KEY_NOT_EXISTS))"
  using assms ht_get_law by (auto simp: ids_rep_def)

lemma rep_initial:
  assumes "ids_rep S T N"
  shows "by_initial S i = Some r \<longleftrightarrow> (\<exists>a. ht_map T (ucast i) = Some (Some a) \<and> rg_ids S a = Some r)"
    "by_initial S i = None \<longleftrightarrow> ht_map T (ucast i) = None" "by_initial S i = Some r \<Longrightarrow> i \<noteq> 0 \<and> ri_ue_initial_id r = i"
  using assms by (auto simp: by_initial_def ids_of_def ids_rep_def entries_match_def split: option.splits) fastforce+

lemma rep_ngap:
  assumes "ids_rep S T N"
  shows "by_ngap S g = Some r \<longleftrightarrow> (\<exists>a. ht_map N (ucast g) = Some (Some a) \<and> rg_ids S a = Some r)"
    "by_ngap S g = None \<longleftrightarrow> ht_map N (ucast g) = None" "by_ngap S g = Some r \<Longrightarrow> g \<noteq> 0 \<and> ri_gNB_ue_ngap_id r = g"
  using assms by (auto simp: by_ngap_def ids_of_def ids_rep_def entries_match_def split: option.splits) fastforce+

lemma rep_disjoint:
  assumes "ids_rep S T N" "ht_map T k = Some (Some a)" "ht_map N k' = Some (Some b)"
  shows "a \<noteq> b"
proof
  assume "a = b"
  then have "a \<in># ht_held T" "a \<in># ht_held N" using assms held_entry by (auto simp: ids_rep_def)
  then have "Suc 0 < Multiset.count (ht_held T + ht_held N) a"
    by (metis One_nat_def add_le_mono count_greater_eq_one_iff count_union less_eq_Suc_le numeral_2_eq_2 one_add_one plus_1_eq_Suc)
  moreover have "ht_held T + ht_held N = mset_set (dom (rg_ids S))" using assms(1) by (simp add: ids_rep_def)
  ultimately show False by (metis count_mset_set(1) count_mset_set(2) count_mset_set(3) One_nat_def less_irrefl not_less_zero)
qed

subsection \<open>What the operations do\<close>

text \<open>The insertion of a fresh object, first into the table of NGAP identities.\<close>

lemma fresh_obj: "ids_rep S T N \<Longrightarrow> rg_ids S (rg_next_obj S) = None"
  by (meson domIff ids_rep_def less_irrefl)

lemma dom_fresh:
  assumes "ids_rep S T N"
  shows "mset_set (insert (rg_next_obj S) (dom (rg_ids S))) = add_mset (rg_next_obj S) (mset_set (dom (rg_ids S)))"
  using assms fresh_obj [OF assms] by (simp add: ids_rep_def domIff)

lemma entry_below: "ids_rep S T N \<Longrightarrow> entries_match S t key \<Longrightarrow> ht_map t k = Some (Some a) \<Longrightarrow> a < rg_next_obj S"
  by (fastforce simp: ids_rep_def entries_match_def)

lemma entries_match_mono:
  assumes "entries_match S t key"
    "\<And>k a r. ht_map t k = Some (Some a) \<Longrightarrow> rg_ids S a = Some r \<Longrightarrow> \<exists>r'. rg_ids S' a = Some r' \<and> key r' = key r"
  shows "entries_match S' t key"
  using assms unfolding entries_match_def by metis

lemma entries_match_insert:
  assumes "entries_match S t key" "ht_map t' = (ht_map t)(k \<mapsto> Some a)" "k \<noteq> 0" "rg_ids S a = Some r" "key r = k"
  shows "entries_match S t' key"
  using assms unfolding entries_match_def by (metis fun_upd_apply option.inject)

lemma associate_ok:
  assumes rep: "ids_rep S T N" and a1: "ht_map T (ucast i) = Some (Some a1)" and r: "rg_ids S a1 = Some r"
    and N: "ht_map N (ucast g) = None" and g: "g \<noteq> 0"
  shows "\<exists>S' N'. rrc_gNB_NGAP_get_ue_ids S i g = Inr (S', Some a1) \<and> ids_rep S' T N' \<and>
     S' = S\<lparr>rg_next_obj := rg_next_obj S', rg_ids := rg_ids S', rg_ngap_id2_ngap_ids := Some N'\<rparr> \<and> rg_ids S' a1 = Some (r\<lparr>ri_gNB_ue_ngap_id := g\<rparr>) \<and>
     by_initial S' = (by_initial S)(i \<mapsto> r\<lparr>ri_gNB_ue_ngap_id := g\<rparr>) \<and> by_ngap S' = (by_ngap S)(g \<mapsto> r\<lparr>ri_gNB_ue_ngap_id := g\<rparr>)"
proof -
  note R = rep [unfolded ids_rep_def]
  let ?a2 = "rg_next_obj S" and ?r2 = "r\<lparr>ri_gNB_ue_ngap_id := g\<rparr>"
  have i: "i \<noteq> 0" "ri_ue_initial_id r = i" using rep_initial(1,3) [OF rep] a1 r by blast+
  obtain N' where N': "hashtable_insert (Some N) (ucast g) (Some ?a2) = Inr (Some N', HASH_TABLE_OK, [])" "ht_inv N'"
    "ht_freefunc N' = libc_free" "ht_map N' = (ht_map N)(ucast g \<mapsto> Some ?a2)" "ht_held N' = add_mset ?a2 (ht_held N)"
    using ht_insert_law [of N "ucast g" "Some ?a2"] R N by (auto simp: free_data_def libc_free_def)
  define S1 where "S1 = S\<lparr>rg_next_obj := ?a2 + 1, rg_ids := (rg_ids S)(?a2 \<mapsto> ?r2, a1 \<mapsto> ?r2), rg_ngap_id2_ngap_ids := Some N'\<rparr>"
  have a12: "a1 < ?a2" using r R by (auto simp: dom_def)
  have d: "dom (rg_ids S1) = insert ?a2 (dom (rg_ids S))" using r by (auto simp: S1_def)
  have Nb: "b \<noteq> a1 \<and> b \<noteq> ?a2" if "ht_map N k = Some (Some b)" for k b
    using rep_disjoint [OF rep a1 that] entry_below [OF rep _ that] R by blast
  have Tb: "b \<noteq> ?a2 \<and> (k \<noteq> ucast i \<longrightarrow> b \<noteq> a1)" if "ht_map T k = Some (Some b)" for k b
    using entry_below [OF rep _ that] R that r i(2) by (fastforce simp: entries_match_def)
  have "entries_match S1 T (\<lambda>r. ucast (ri_ue_initial_id r))"
    by (rule entries_match_mono [of S]) (use R Tb r i in \<open>auto simp: S1_def\<close>)
  moreover have "entries_match S1 N' (\<lambda>r. ucast (ri_gNB_ue_ngap_id r))"
  proof -
    have "entries_match S1 N (\<lambda>r. ucast (ri_gNB_ue_ngap_id r))"
      by (rule entries_match_mono [of S]) (use R Nb in \<open>auto simp: S1_def\<close>)
    then show ?thesis by (rule entries_match_insert [OF _ N'(4), where r = ?r2]) (use g a12 in \<open>auto simp: S1_def\<close>)
  qed
  moreover have "ht_held T + ht_held N' = mset_set (dom (rg_ids S1))"
    using R dom_fresh [OF rep] by (simp add: N'(5) d)
  moreover have "\<forall>a\<in>dom (rg_ids S1). a < rg_next_obj S1" using R unfolding d by (auto simp: S1_def less_Suc_eq)
  ultimately have rep1: "ids_rep S1 T N'" using R N'(2,3) d by (simp add: ids_rep_def) (simp add: S1_def)
  have "by_initial S1 = (by_initial S)(i \<mapsto> ?r2)" using R Tb a1
    by (fastforce simp: by_initial_def ids_of_def S1_def fun_eq_iff split: option.split)
  moreover have "by_ngap S1 = (by_ngap S)(g \<mapsto> ?r2)" using R Nb a12
    by (fastforce simp: by_ngap_def ids_of_def S1_def N'(4) fun_eq_iff split: option.split)
  moreover have "rrc_gNB_NGAP_get_ue_ids S i g = Inr (S1, Some a1)"
    using i g N'(1) R r rep_get [OF rep] a1 N
    by (simp add: rrc_gNB_NGAP_get_ue_ids_def UE_INITIAL_ID_INVALID_def word_gt_0 ids_at_def S1_def Let_def)
  ultimately show ?thesis using rep1 by (intro exI [of _ S1] exI [of _ N']) (simp add: S1_def)
qed

text \<open>A pair goes into the table of initial identities; the one it replaces is released.\<close>

lemma register_ok:
  assumes rep: "ids_rep S T N" and i: "i \<noteq> 0" "ri_ue_initial_id r = i"
  shows "\<exists>T' rc fr S'. hashtable_insert (rg_initial_id2_ngap_ids S) (ucast i) (Some (rg_next_obj S)) = Inr (Some T', rc, fr) \<and>
     free_ids (S\<lparr>rg_next_obj := rg_next_obj S + 1, rg_ids := (rg_ids S)(rg_next_obj S \<mapsto> r), rg_initial_id2_ngap_ids := Some T'\<rparr>) fr = Inr S' \<and>
     ids_rep S' T' N \<and> S' = S\<lparr>rg_next_obj := rg_next_obj S', rg_ids := rg_ids S', rg_initial_id2_ngap_ids := Some T'\<rparr> \<and>
     by_initial S' = (by_initial S)(i \<mapsto> r) \<and> by_ngap S' = by_ngap S"
proof -
  note R = rep [unfolded ids_rep_def]
  let ?a = "rg_next_obj S"
  obtain T' rc fr where T': "hashtable_insert (Some T) (ucast i) (Some ?a) = Inr (Some T', rc, fr)" "ht_inv T'"
    "ht_freefunc T' = libc_free" "ht_map T' = (ht_map T)(ucast i \<mapsto> Some ?a)" "ht_held T' + mset fr = add_mset ?a (ht_held T)"
    using ht_insert_law [of T "ucast i" "Some ?a"] R by (auto simp: free_data_def libc_free_def)
  define S1 where "S1 = S\<lparr>rg_next_obj := ?a + 1, rg_ids := (rg_ids S)(?a \<mapsto> r), rg_initial_id2_ngap_ids := Some T'\<rparr>"
  have d: "dom (rg_ids S1) = insert ?a (dom (rg_ids S))" by (auto simp: S1_def)
  have below: "b \<noteq> ?a" if "ht_map T k = Some (Some b) \<or> ht_map N k = Some (Some b)" for k b
    using that entry_below [OF rep] R by blast
  have "entries_match S1 N (\<lambda>r. ucast (ri_gNB_ue_ngap_id r))"
    by (rule entries_match_mono [of S]) (use R below in \<open>auto simp: S1_def\<close>)
  moreover have "entries_match S1 T (\<lambda>r. ucast (ri_ue_initial_id r))"
    by (rule entries_match_mono [of S]) (use R below in \<open>auto simp: S1_def\<close>)
  then have "entries_match S1 T' (\<lambda>r. ucast (ri_ue_initial_id r))"
    by (rule entries_match_insert [OF _ T'(4), where r = r]) (use i in \<open>auto simp: S1_def\<close>)
  moreover have "ht_held T' + ht_held N + mset fr = mset_set (dom (rg_ids S1))"
  proof -
    have "ht_held T' + ht_held N + mset fr = (ht_held T' + mset fr) + ht_held N" by (simp add: ac_simps)
    then show ?thesis using R dom_fresh [OF rep] by (simp add: T'(5) d)
  qed
  moreover have "\<forall>a\<in>dom (rg_ids S1). a < rg_next_obj S1" using R unfolding d by (auto simp: S1_def less_Suc_eq)
  ultimately have "ids_weak S1 T' N fr"
    using R T'(2,3) d by (simp add: ids_weak_def entries_weaken) (simp add: S1_def)
  from ids_weak_free [OF this] obtain S' where S': "free_ids S1 fr = Inr S'" "ids_rep S' T' N"
    "S' = S1\<lparr>rg_ids := rg_ids S1 |` (- set fr)\<rparr>" "ids_of S' (Some T') = ids_of S1 (Some T')" "ids_of S' (Some N) = ids_of S1 (Some N)"
    by blast
  have t: "rg_initial_id2_ngap_ids S' = Some T'" "rg_ngap_id2_ngap_ids S' = Some N" using S'(2) by (auto simp: ids_rep_def)
  have "by_initial S' = (by_initial S)(i \<mapsto> r)"
    using R below unfolding by_initial_def t S'(4) by (fastforce simp: ids_of_def S1_def T'(4) fun_eq_iff split: option.split)
  moreover have "by_ngap S' = by_ngap S"
    using R below unfolding by_ngap_def t S'(5) by (fastforce simp: ids_of_def S1_def fun_eq_iff split: option.split)
  moreover have "S' = S\<lparr>rg_next_obj := rg_next_obj S', rg_ids := rg_ids S', rg_initial_id2_ngap_ids := Some T'\<rparr>"
    unfolding S'(3) by (simp add: S1_def)
  ultimately show ?thesis using T'(1) R S'(1,2) unfolding S1_def by auto
qed

text \<open>An entry of either table goes, with its object.\<close>

lemma unregister_ngap:
  assumes rep: "ids_rep S T N"
  shows "\<exists>N' rc fr S'. hashtable_remove (rg_ngap_id2_ngap_ids S) (ucast g) = Inr (Some N', rc, fr) \<and>
     free_ids (S\<lparr>rg_ngap_id2_ngap_ids := Some N'\<rparr>) fr = Inr S' \<and> ids_rep S' T N' \<and>
     S' = S\<lparr>rg_ids := rg_ids S', rg_ngap_id2_ngap_ids := Some N'\<rparr> \<and>
     by_initial S' = by_initial S \<and> by_ngap S' = (by_ngap S)(g := None)"
proof -
  note R = rep [unfolded ids_rep_def]
  obtain N' rc fr where N': "hashtable_remove (Some N) (ucast g) = Inr (Some N', rc, fr)" "ht_inv N'"
    "ht_freefunc N' = libc_free" "ht_map N' = (ht_map N)(ucast g := None)" "ht_held N' + mset fr = ht_held N"
    using ht_remove_law [of N "ucast g"] R by auto
  define S1 where "S1 = S\<lparr>rg_ngap_id2_ngap_ids := Some N'\<rparr>"
  have "entries_match S1 T (\<lambda>r. ucast (ri_ue_initial_id r))" "entries_match S1 N' (\<lambda>r. ucast (ri_gNB_ue_ngap_id r))"
    using R unfolding entries_match_def N'(4) by (simp_all add: S1_def)
  then have "ids_weak S1 T N' fr"
    using R N'(2,3,5) by (simp add: ids_weak_def entries_weaken S1_def add.assoc)
  from ids_weak_free [OF this] obtain S' where S': "free_ids S1 fr = Inr S'" "ids_rep S' T N'"
    "S' = S1\<lparr>rg_ids := rg_ids S1 |` (- set fr)\<rparr>" "ids_of S' (Some T) = ids_of S1 (Some T)" "ids_of S' (Some N') = ids_of S1 (Some N')"
    by blast
  have t: "rg_initial_id2_ngap_ids S' = Some T" "rg_ngap_id2_ngap_ids S' = Some N'" using S'(2) by (auto simp: ids_rep_def)
  have "by_initial S' = by_initial S" using R unfolding by_initial_def t S'(4) by (simp add: S1_def)
  moreover have "by_ngap S' = (by_ngap S)(g := None)"
    using R unfolding by_ngap_def t S'(5) by (auto simp: ids_of_def S1_def N'(4))
  moreover have "S' = S\<lparr>rg_ids := rg_ids S', rg_ngap_id2_ngap_ids := Some N'\<rparr>" unfolding S'(3) by (simp add: S1_def)
  ultimately show ?thesis using N'(1) R S'(1,2) unfolding S1_def by auto
qed

lemma unregister_initial:
  assumes rep: "ids_rep S T N"
  shows "\<exists>T' rc fr S'. hashtable_remove (rg_initial_id2_ngap_ids S) (ucast i) = Inr (Some T', rc, fr) \<and>
     free_ids (S\<lparr>rg_initial_id2_ngap_ids := Some T'\<rparr>) fr = Inr S' \<and> ids_rep S' T' N \<and>
     S' = S\<lparr>rg_ids := rg_ids S', rg_initial_id2_ngap_ids := Some T'\<rparr> \<and>
     by_initial S' = (by_initial S)(i := None) \<and> by_ngap S' = by_ngap S"
proof -
  note R = rep [unfolded ids_rep_def]
  obtain T' rc fr where T': "hashtable_remove (Some T) (ucast i) = Inr (Some T', rc, fr)" "ht_inv T'"
    "ht_freefunc T' = libc_free" "ht_map T' = (ht_map T)(ucast i := None)" "ht_held T' + mset fr = ht_held T"
    using ht_remove_law [of T "ucast i"] R by auto
  define S1 where "S1 = S\<lparr>rg_initial_id2_ngap_ids := Some T'\<rparr>"
  have "entries_match S1 T' (\<lambda>r. ucast (ri_ue_initial_id r))" "entries_match S1 N (\<lambda>r. ucast (ri_gNB_ue_ngap_id r))"
    using R unfolding entries_match_def T'(4) by (simp_all add: S1_def)
  moreover have "ht_held T' + ht_held N + mset fr = ht_held T + ht_held N" unfolding T'(5) [symmetric] by (simp add: ac_simps)
  ultimately have "ids_weak S1 T' N fr"
    using R T'(2,3) by (simp add: ids_weak_def entries_weaken S1_def)
  from ids_weak_free [OF this] obtain S' where S': "free_ids S1 fr = Inr S'" "ids_rep S' T' N"
    "S' = S1\<lparr>rg_ids := rg_ids S1 |` (- set fr)\<rparr>" "ids_of S' (Some T') = ids_of S1 (Some T')" "ids_of S' (Some N) = ids_of S1 (Some N)"
    by blast
  have t: "rg_initial_id2_ngap_ids S' = Some T'" "rg_ngap_id2_ngap_ids S' = Some N" using S'(2) by (auto simp: ids_rep_def)
  have "by_ngap S' = by_ngap S" using R unfolding by_ngap_def t S'(5) by (simp add: S1_def)
  moreover have "by_initial S' = (by_initial S)(i := None)"
    using R unfolding by_initial_def t S'(4) by (auto simp: ids_of_def S1_def T'(4))
  moreover have "S' = S\<lparr>rg_ids := rg_ids S', rg_initial_id2_ngap_ids := Some T'\<rparr>" unfolding S'(3) by (simp add: S1_def)
  ultimately show ?thesis using T'(1) R S'(1,2) unfolding S1_def by auto
qed

text \<open>Fields that the representation does not look at.\<close>

lemma ids_rep_frame [simp]:
  "ids_rep (S\<lparr>rg_inst := a\<rparr>) = ids_rep S" "ids_rep (S\<lparr>rg_ue := b\<rparr>) = ids_rep S" "ids_rep (S\<lparr>rg_ue_initial_id := c\<rparr>) = ids_rep S"
  "ids_rep (S\<lparr>rg_xid := d\<rparr>) = ids_rep S" "ids_rep (S\<lparr>rg_mui := e\<rparr>) = ids_rep S" "ids_rep (S\<lparr>rg_ngap := f\<rparr>) = ids_rep S"
  by (simp_all add: ids_rep_def entries_match_def fun_eq_iff)

lemma by_initial_frame [simp]:
  "by_initial (S\<lparr>rg_inst := a\<rparr>) = by_initial S" "by_initial (S\<lparr>rg_ue := b\<rparr>) = by_initial S"
  "by_initial (S\<lparr>rg_ue_initial_id := c\<rparr>) = by_initial S" "by_initial (S\<lparr>rg_xid := d\<rparr>) = by_initial S"
  "by_initial (S\<lparr>rg_mui := e\<rparr>) = by_initial S" "by_initial (S\<lparr>rg_ngap := f\<rparr>) = by_initial S"
  by (simp_all add: by_initial_def fun_eq_iff)

lemma by_ngap_frame [simp]:
  "by_ngap (S\<lparr>rg_inst := a\<rparr>) = by_ngap S" "by_ngap (S\<lparr>rg_ue := b\<rparr>) = by_ngap S"
  "by_ngap (S\<lparr>rg_ue_initial_id := c\<rparr>) = by_ngap S" "by_ngap (S\<lparr>rg_xid := d\<rparr>) = by_ngap S"
  "by_ngap (S\<lparr>rg_mui := e\<rparr>) = by_ngap S" "by_ngap (S\<lparr>rg_ngap := f\<rparr>) = by_ngap S"
  by (simp_all add: by_ngap_def fun_eq_iff)

text \<open>The removal of a context that RRC makes behind NGAP's back.\<close>

definition drop_ngap_ue :: "u32 \<Rightarrow> ngap_gNB_instance \<Rightarrow> ngap_gNB_instance" where
  "drop_ngap_ue g G = G\<lparr>gi_ngap_ue_head := filter (\<lambda>x. nu_gNB_ue_ngap_id x \<noteq> g) (gi_ngap_ue_head G)\<rparr>"

lemma get_ue_context_key:
  "ngap_gNB_get_ue_context G g = Some u \<Longrightarrow> nu_gNB_ue_ngap_id u = g"
  "ngap_gNB_get_ue_context G g = None \<Longrightarrow> drop_ngap_ue g G = G"
  "ngap_gNB_get_ue_context (drop_ngap_ue g G) g = None"
proof -
  have "(0xFFFFFFFF :: u32) = - 1" by simp
  then have m: "g AND 0xFFFFFFFF = g" by (simp only: and.right_neutral)
  show "ngap_gNB_get_ue_context G g = Some u \<Longrightarrow> nu_gNB_ue_ngap_id u = g"
    by (auto simp: ngap_gNB_get_ue_context_def m rb_find_def find_Some_iff ue_map.cmp_equal)
  show "ngap_gNB_get_ue_context G g = None \<Longrightarrow> drop_ngap_ue g G = G"
    unfolding ngap_gNB_get_ue_context_def m ue_map.find_None drop_ngap_ue_def by (subst filter_True) auto
  show "ngap_gNB_get_ue_context (drop_ngap_ue g G) g = None"
    unfolding ngap_gNB_get_ue_context_def m ue_map.find_None drop_ngap_ue_def by auto
qed

text \<open>The lookup, on every branch.\<close>

definition known_ids :: "rrc_gnb \<Rightarrow> u16 \<Rightarrow> u32 \<Rightarrow> rrc_ue_ngap_ids option" where
  "known_ids S i g = (if i \<noteq> 0 then by_initial S i else if g \<noteq> 0 then by_ngap S g else None)"

lemma get_ids_unknown:
  assumes rep: "ids_rep S T N" and unknown: "known_ids S i g = None"
  shows "rrc_gNB_NGAP_get_ue_ids S i g =
    Inr (if i = 0 \<and> g \<noteq> 0 then S\<lparr>rg_ngap := map_option (drop_ngap_ue g) (rg_ngap S)\<rparr> else S, None)"
proof (cases "i = 0")
  case False
  then have "ht_map T (ucast i) = None" using unknown rep_initial(2) [OF rep] by (simp add: known_ids_def)
  then show ?thesis using False rep_get [OF rep] by (simp add: rrc_gNB_NGAP_get_ue_ids_def UE_INITIAL_ID_INVALID_def)
next
  case i: True
  show ?thesis
  proof (cases "g = 0")
    case False
    then have n: "ht_map N (ucast g) = None" using i unknown rep_ngap(2) [OF rep] by (simp add: known_ids_def)
    show ?thesis
      using i False n rep_get [OF rep] get_ue_context_key(1,2)
      by (auto simp: rrc_gNB_NGAP_get_ue_ids_def UE_INITIAL_ID_INVALID_def word_gt_0 drop_ngap_ue_def split: option.split)
  qed (use i in \<open>simp add: rrc_gNB_NGAP_get_ue_ids_def UE_INITIAL_ID_INVALID_def\<close>)
qed

lemma get_ids_known:
  assumes rep: "ids_rep S T N" and known: "known_ids S i g = Some r"
  shows "\<exists>S' N' a r'. rrc_gNB_NGAP_get_ue_ids S i g = Inr (S', Some a) \<and> ids_rep S' T N' \<and> rg_ids S' a = Some r' \<and>
    S' = S\<lparr>rg_next_obj := rg_next_obj S', rg_ids := rg_ids S', rg_ngap_id2_ngap_ids := Some N'\<rparr> \<and>
    (if i \<noteq> 0 \<and> g \<noteq> 0 \<and> by_ngap S g = None
     then r' = r\<lparr>ri_gNB_ue_ngap_id := g\<rparr> \<and> by_initial S' = (by_initial S)(i \<mapsto> r') \<and> by_ngap S' = (by_ngap S)(g \<mapsto> r')
     else r' = r \<and> S' = S)"
proof -
  have same: "S = S\<lparr>rg_next_obj := rg_next_obj S, rg_ids := rg_ids S, rg_ngap_id2_ngap_ids := Some N\<rparr>"
    using rep by (simp add: ids_rep_def)
  show ?thesis
  proof (cases "i = 0")
    case True
    then have g: "g \<noteq> 0" "by_ngap S g = Some r" using known by (auto simp: known_ids_def split: if_splits)
    then obtain a where a: "ht_map N (ucast g) = Some (Some a)" "rg_ids S a = Some r" using rep_ngap(1) [OF rep] by blast
    have "rrc_gNB_NGAP_get_ue_ids S i g = Inr (S, Some a)"
      using True g(1) a rep_get [OF rep] by (simp add: rrc_gNB_NGAP_get_ue_ids_def UE_INITIAL_ID_INVALID_def word_gt_0)
    then show ?thesis using True rep a(2) same by auto
  next
    case False
    then have "by_initial S i = Some r" using known by (simp add: known_ids_def)
    then obtain a where a: "ht_map T (ucast i) = Some (Some a)" "rg_ids S a = Some r" using rep_initial(1) [OF rep] by blast
    show ?thesis
    proof (cases "g \<noteq> 0 \<and> by_ngap S g = None")
      case True
      then show ?thesis using False associate_ok [OF rep a, of g] rep_ngap(2) [OF rep, of g] by auto
    next
      case old: False
      have "rrc_gNB_NGAP_get_ue_ids S i g = Inr (S, Some a)"
      proof (cases "g = 0")
        case g: False
        then obtain r2 where "by_ngap S g = Some r2" using old by auto
        then obtain b where "ht_map N (ucast g) = Some (Some b)" "rg_ids S b = Some r2" using rep_ngap(1) [OF rep] by blast
        then show ?thesis
          using False g a rep_get [OF rep]
          by (simp add: rrc_gNB_NGAP_get_ue_ids_def UE_INITIAL_ID_INVALID_def word_gt_0 ids_at_def)
      qed (use False a rep_get [OF rep] in \<open>simp add: rrc_gNB_NGAP_get_ue_ids_def UE_INITIAL_ID_INVALID_def\<close>)
      then show ?thesis using old rep a(2) same by auto
    qed
  qed
qed

lemma remove_ids_ok:
  assumes rep: "ids_rep S T N" and a: "rg_ids S a = Some r"
  shows "\<exists>S' T' N'. rrc_gNB_NGAP_remove_ue_ids S (Some a) = Inr S' \<and> ids_rep S' T' N' \<and>
    S' = S\<lparr>rg_ids := rg_ids S', rg_initial_id2_ngap_ids := Some T', rg_ngap_id2_ngap_ids := Some N'\<rparr> \<and>
    by_initial S' = (by_initial S)(ri_ue_initial_id r := None) \<and> by_ngap S' = (by_ngap S)(ri_gNB_ue_ngap_id r := None)"
proof -
  have zero: "by_initial X 0 = None" "by_ngap X 0 = None" if "ids_rep X T' N'" for X T' N'
    using rep_initial(3) [OF that, of 0] rep_ngap(3) [OF that, of 0] by fastforce+
  let ?g = "ri_gNB_ue_ngap_id r" and ?i = "ri_ue_initial_id r"
  obtain S1 N1 where 1: "(if ?g > 0 then bnd (hashtable_remove (rg_ngap_id2_ngap_ids S) (ucast ?g)) (\<lambda>(t, _, fr).
        free_ids (S\<lparr>rg_ngap_id2_ngap_ids := t\<rparr>) fr) else Inr S) = Inr S1" "ids_rep S1 T N1"
    "S1 = S\<lparr>rg_ids := rg_ids S1, rg_ngap_id2_ngap_ids := Some N1\<rparr>" "by_initial S1 = by_initial S" "by_ngap S1 = (by_ngap S)(?g := None)"
  proof (cases "?g = 0")
    case True
    have "S = S\<lparr>rg_ids := rg_ids S, rg_ngap_id2_ngap_ids := Some N\<rparr>" using rep by (simp add: ids_rep_def)
    then show thesis using True that [of S N] rep zero(2) [OF rep] by (simp add: fun_upd_idem)
  next
    case False
    then show thesis using unregister_ngap [OF rep, of ?g] that by (auto simp: word_gt_0)
  qed
  obtain S2 T2 where 2: "(if ?i \<noteq> UE_INITIAL_ID_INVALID then bnd (hashtable_remove (rg_initial_id2_ngap_ids S1) (ucast ?i)) (\<lambda>(t, _, fr).
        free_ids (S1\<lparr>rg_initial_id2_ngap_ids := t\<rparr>) fr) else Inr S1) = Inr S2" "ids_rep S2 T2 N1"
    "S2 = S1\<lparr>rg_ids := rg_ids S2, rg_initial_id2_ngap_ids := Some T2\<rparr>" "by_initial S2 = (by_initial S1)(?i := None)" "by_ngap S2 = by_ngap S1"
  proof (cases "?i = 0")
    case True
    have "S1 = S1\<lparr>rg_ids := rg_ids S1, rg_initial_id2_ngap_ids := Some T\<rparr>" using 1(2) by (simp add: ids_rep_def)
    then show thesis using True that [of S1 T] 1(2) zero(1) [OF 1(2)] by (simp add: fun_upd_idem UE_INITIAL_ID_INVALID_def)
  next
    case False
    then show thesis using unregister_initial [OF 1(2), of ?i] that by (auto simp: UE_INITIAL_ID_INVALID_def)
  qed
  have "S2 = S\<lparr>rg_ids := rg_ids S2, rg_initial_id2_ngap_ids := Some T2, rg_ngap_id2_ngap_ids := Some N1\<rparr>"
    by (subst 2(3), subst 1(3)) simp
  then show ?thesis
    using a 1 2 by (intro exI [of _ S2] exI [of _ T2] exI [of _ N1]) (simp add: rrc_gNB_NGAP_remove_ue_ids_def ids_at_def)
qed

subsection \<open>What the handlers do\<close>

lemma context_unknown:
  assumes "ids_rep S T N" "known_ids S i g = None"
  shows "rrc_gNB_get_ue_context_from_ngap_ids S i g =
    Inr (if i = 0 \<and> g \<noteq> 0 then S\<lparr>rg_ngap := map_option (drop_ngap_ue g) (rg_ngap S)\<rparr> else S, None)"
  by (simp add: rrc_gNB_get_ue_context_from_ngap_ids_def get_ids_unknown [OF assms])

lemma context_known:
  assumes "ids_rep S T N" "known_ids S i g = Some r"
  shows "\<exists>S' N'. rrc_gNB_get_ue_context_from_ngap_ids S i g = Inr (S', rrc_gNB_get_ue_context (rg_inst S) (ri_ue_rnti r)) \<and>
    ids_rep S' T N' \<and> S' = S\<lparr>rg_next_obj := rg_next_obj S', rg_ids := rg_ids S', rg_ngap_id2_ngap_ids := Some N'\<rparr> \<and>
    (if i \<noteq> 0 \<and> g \<noteq> 0 \<and> by_ngap S g = None
     then by_initial S' = (by_initial S)(i \<mapsto> r\<lparr>ri_gNB_ue_ngap_id := g\<rparr>) \<and> by_ngap S' = (by_ngap S)(g \<mapsto> r\<lparr>ri_gNB_ue_ngap_id := g\<rparr>)
     else S' = S)"
proof -
  obtain S' N' a r' where S': "rrc_gNB_NGAP_get_ue_ids S i g = Inr (S', Some a)" "ids_rep S' T N'" "rg_ids S' a = Some r'"
    "S' = S\<lparr>rg_next_obj := rg_next_obj S', rg_ids := rg_ids S', rg_ngap_id2_ngap_ids := Some N'\<rparr>"
    and c: "if i \<noteq> 0 \<and> g \<noteq> 0 \<and> by_ngap S g = None
     then r' = r\<lparr>ri_gNB_ue_ngap_id := g\<rparr> \<and> by_initial S' = (by_initial S)(i \<mapsto> r') \<and> by_ngap S' = (by_ngap S)(g \<mapsto> r')
     else r' = r \<and> S' = S"
    using get_ids_known [OF assms] by blast
  have "rg_inst S' = rg_inst S" by (subst S'(4)) simp
  moreover have "ri_ue_rnti r' = ri_ue_rnti r" using c by (auto split: if_splits)
  ultimately have "rrc_gNB_get_ue_context_from_ngap_ids S i g = Inr (S', rrc_gNB_get_ue_context (rg_inst S) (ri_ue_rnti r))"
    using S'(1,3) by (simp add: rrc_gNB_get_ue_context_from_ngap_ids_def ids_at_def)
  moreover have "if i \<noteq> 0 \<and> g \<noteq> 0 \<and> by_ngap S g = None
     then by_initial S' = (by_initial S)(i \<mapsto> r\<lparr>ri_gNB_ue_ngap_id := g\<rparr>) \<and> by_ngap S' = (by_ngap S)(g \<mapsto> r\<lparr>ri_gNB_ue_ngap_id := g\<rparr>)
     else S' = S" using c by (auto split: if_splits)
  ultimately show ?thesis using S'(2,4) by blast
qed

text \<open>Either way the lookup returns.\<close>

lemma context_total:
  assumes "ids_rep S T N"
  shows "\<exists>S' N' ctx. rrc_gNB_get_ue_context_from_ngap_ids S i g = Inr (S', ctx) \<and> ids_rep S' T N' \<and>
    rg_node_type S' = rg_node_type S"
proof (cases "known_ids S i g")
  case None
  then show ?thesis using assms by (auto simp: context_unknown [OF assms None])
next
  case (Some r)
  obtain S' N' where S': "rrc_gNB_get_ue_context_from_ngap_ids S i g = Inr (S', rrc_gNB_get_ue_context (rg_inst S) (ri_ue_rnti r))"
    "ids_rep S' T N'" "S' = S\<lparr>rg_next_obj := rg_next_obj S', rg_ids := rg_ids S', rg_ngap_id2_ngap_ids := Some N'\<rparr>"
    using context_known [OF assms Some] by blast
  have "rg_node_type S' = rg_node_type S" by (subst S'(3)) simp
  then show ?thesis using S' by blast
qed

lemma next_initial_id: "snd (get_next_ue_initial_id S) \<noteq> 0"
  "fst (get_next_ue_initial_id S) = S\<lparr>rg_ue_initial_id := snd (get_next_ue_initial_id S)\<rparr>"
  by (simp_all add: get_next_ue_initial_id_def Let_def UE_INITIAL_ID_INVALID_def)

definition first_req_of :: "u16 \<Rightarrow> nat \<Rightarrow> rrc_setup_complete \<Rightarrow> ngap_nas_first_req" where
  "first_req_of i cause setup =
     \<lparr>fr_ue_initial_id = i, fr_selected_plmn_identity = sc_selectedPLMN_Identity setup - 1, fr_establishment_cause = cause,
      fr_nas_pdu = sc_dedicatedNAS_Message setup, fr_s_tmsi = None, fr_guami = None\<rparr>"

lemma first_req_run:
  assumes rep: "ids_rep S T N" and i_def: "i = snd (get_next_ue_initial_id S)"
    and u_def: "u = (rg_ue S (uc_addr c))\<lparr>un_ue_initial_id := i\<rparr>"
  shows "\<exists>S' T'. rrc_gNB_send_NGAP_NAS_FIRST_REQ S rnti c setup =
      bnd (guard (un_establishment_cause u < NGAP_RRC_CAUSE_LAST) Exit) (\<lambda>_.
        case sc_registeredAMF setup of
          None \<Rightarrow> Inr (S', [NGAP_NAS_FIRST_REQ (first_req_of i (un_establishment_cause u) setup)])
        | Some r_amf \<Rightarrow> bnd (registered_guami u (sc_selectedPLMN_Identity setup - 1) r_amf) (\<lambda>g.
            Inr (S'\<lparr>rg_ue := (rg_ue S')(uc_addr c := u\<lparr>un_ue_guami := g\<rparr>)\<rparr>,
                 [NGAP_NAS_FIRST_REQ ((first_req_of i (un_establishment_cause u) setup)\<lparr>fr_guami := Some g\<rparr>)]))) \<and>
    ids_rep S' T' N \<and> by_ngap S' = by_ngap S \<and>
    by_initial S' = (by_initial S)(i \<mapsto> \<lparr>ri_ue_initial_id = i, ri_gNB_ue_ngap_id = 0, ri_ue_rnti = rnti\<rparr>) \<and>
    rg_inst S' = rg_inst S \<and> rg_ue S' = (rg_ue S)(uc_addr c := u) \<and> rg_ngap S' = rg_ngap S \<and> rg_node_type S' = rg_node_type S"
proof -
  define S2 where "S2 = S\<lparr>rg_ue_initial_id := i, rg_ue := (rg_ue S)(uc_addr c := u)\<rparr>"
  let ?r = "\<lparr>ri_ue_initial_id = i, ri_gNB_ue_ngap_id = 0, ri_ue_rnti = rnti\<rparr>"
  have rep2: "ids_rep S2 T N" using rep by (simp add: S2_def)
  have i0: "i \<noteq> 0" unfolding i_def by (rule next_initial_id(1))
  obtain T' rc fr S' where T': "hashtable_insert (rg_initial_id2_ngap_ids S2) (ucast i) (Some (rg_next_obj S2)) = Inr (Some T', rc, fr)"
    "free_ids (S2\<lparr>rg_next_obj := rg_next_obj S2 + 1, rg_ids := (rg_ids S2)(rg_next_obj S2 \<mapsto> ?r), rg_initial_id2_ngap_ids := Some T'\<rparr>) fr = Inr S'"
    "ids_rep S' T' N" "S' = S2\<lparr>rg_next_obj := rg_next_obj S', rg_ids := rg_ids S', rg_initial_id2_ngap_ids := Some T'\<rparr>"
    "by_initial S' = (by_initial S2)(i \<mapsto> ?r)" "by_ngap S' = by_ngap S2"
    using register_ok [OF rep2 i0, of ?r] by auto
  have frame: "rg_inst S' = rg_inst S" "rg_ue S' = (rg_ue S)(uc_addr c := u)" "rg_ngap S' = rg_ngap S" "rg_node_type S' = rg_node_type S"
    by (subst T'(4), simp add: S2_def)+
  have next_eq: "get_next_ue_initial_id S = (S\<lparr>rg_ue_initial_id := i\<rparr>, i)"
    using next_initial_id(2) [of S] unfolding i_def by (metis prod.collapse)
  have "rrc_gNB_send_NGAP_NAS_FIRST_REQ S rnti c setup =
      bnd (guard (un_establishment_cause u < NGAP_RRC_CAUSE_LAST) Exit) (\<lambda>_.
        case sc_registeredAMF setup of
          None \<Rightarrow> Inr (S', [NGAP_NAS_FIRST_REQ (first_req_of i (un_establishment_cause u) setup)])
        | Some r_amf \<Rightarrow> bnd (registered_guami u (sc_selectedPLMN_Identity setup - 1) r_amf) (\<lambda>g.
            Inr (S'\<lparr>rg_ue := (rg_ue S')(uc_addr c := u\<lparr>un_ue_guami := g\<rparr>)\<rparr>,
                 [NGAP_NAS_FIRST_REQ ((first_req_of i (un_establishment_cause u) setup)\<lparr>fr_guami := Some g\<rparr>)])))"
    using T'(1,2) unfolding rrc_gNB_send_NGAP_NAS_FIRST_REQ_def next_eq Let_def prod.case
    by (cases "sc_registeredAMF setup") (simp_all add: S2_def u_def first_req_of_def UE_INITIAL_ID_INVALID_def)
  moreover have "by_initial S2 = by_initial S" "by_ngap S2 = by_ngap S" by (simp_all add: S2_def)
  ultimately show ?thesis using T'(3,5,6) frame by (intro exI [of _ S'] exI [of _ T']) simp
qed

lemma first_req_returned:
  assumes rep: "ids_rep S T N" and ret: "rrc_gNB_send_NGAP_NAS_FIRST_REQ S rnti c sc = Inr (S1, out)"
  shows "\<exists>T' req. out = [NGAP_NAS_FIRST_REQ req] \<and> ids_rep S1 T' N \<and> fr_ue_initial_id req \<noteq> 0 \<and> fr_s_tmsi req = None \<and> by_ngap S1 = by_ngap S \<and>
    by_initial S1 (fr_ue_initial_id req) = Some \<lparr>ri_ue_initial_id = fr_ue_initial_id req, ri_gNB_ue_ngap_id = 0, ri_ue_rnti = rnti\<rparr> \<and>
    rg_inst S1 = rg_inst S \<and> rg_node_type S1 = rg_node_type S \<and>
    un_Srb2_Active (rg_ue S1 (uc_addr c)) = un_Srb2_Active (rg_ue S (uc_addr c)) \<and>
    un_Srb2_id (rg_ue S1 (uc_addr c)) = un_Srb2_id (rg_ue S (uc_addr c)) \<and>
    un_Srb1_id (rg_ue S1 (uc_addr c)) = un_Srb1_id (rg_ue S (uc_addr c)) \<and>
    (\<forall>g. fr_guami req = Some g \<longrightarrow> (\<exists>ra. sc_registeredAMF sc = Some ra \<and>
       registered_guami (rg_ue S (uc_addr c)) (sc_selectedPLMN_Identity sc - 1) ra = Inr g))"
proof -
  define i where "i = snd (get_next_ue_initial_id S)"
  define u where "u = (rg_ue S (uc_addr c))\<lparr>un_ue_initial_id := i\<rparr>"
  obtain S' T' where run: "rrc_gNB_send_NGAP_NAS_FIRST_REQ S rnti c sc =
      bnd (guard (un_establishment_cause u < NGAP_RRC_CAUSE_LAST) Exit) (\<lambda>_.
        case sc_registeredAMF sc of
          None \<Rightarrow> Inr (S', [NGAP_NAS_FIRST_REQ (first_req_of i (un_establishment_cause u) sc)])
        | Some r_amf \<Rightarrow> bnd (registered_guami u (sc_selectedPLMN_Identity sc - 1) r_amf) (\<lambda>g.
            Inr (S'\<lparr>rg_ue := (rg_ue S')(uc_addr c := u\<lparr>un_ue_guami := g\<rparr>)\<rparr>,
                 [NGAP_NAS_FIRST_REQ ((first_req_of i (un_establishment_cause u) sc)\<lparr>fr_guami := Some g\<rparr>)])))"
    and rep': "ids_rep S' T' N" and by_g: "by_ngap S' = by_ngap S"
    and by_i: "by_initial S' = (by_initial S)(i \<mapsto> \<lparr>ri_ue_initial_id = i, ri_gNB_ue_ngap_id = 0, ri_ue_rnti = rnti\<rparr>)"
    and frame: "rg_inst S' = rg_inst S" "rg_ue S' = (rg_ue S)(uc_addr c := u)" "rg_node_type S' = rg_node_type S"
    using first_req_run [OF rep i_def u_def, of rnti sc] by blast
  have S1: "S1 = S' \<or> (\<exists>g. S1 = S'\<lparr>rg_ue := (rg_ue S')(uc_addr c := u\<lparr>un_ue_guami := g\<rparr>)\<rparr>)"
    using ret unfolding run by (auto simp: bnd_eq_Inr split: option.splits)
  have gu: "registered_guami u x ra = registered_guami (rg_ue S (uc_addr c)) x ra" for x ra by (simp add: registered_guami_def u_def)
  obtain req where req: "out = [NGAP_NAS_FIRST_REQ req]" "fr_ue_initial_id req = i" "fr_s_tmsi req = None"
    "\<forall>g. fr_guami req = Some g \<longrightarrow> (\<exists>ra. sc_registeredAMF sc = Some ra \<and>
       registered_guami (rg_ue S (uc_addr c)) (sc_selectedPLMN_Identity sc - 1) ra = Inr g)"
    using ret unfolding run gu by (auto simp: bnd_eq_Inr first_req_of_def split: option.splits)
  have "i \<noteq> 0" unfolding i_def by (rule next_initial_id(1))
  then show ?thesis using S1 rep' by_g by_i frame req by (auto simp: u_def)
qed

lemma downlink_total:
  assumes "ids_rep S T N" "rg_node_type S \<noteq> ngran_gNB_DU"
  shows "\<exists>S' N' out rc. rrc_gNB_process_NGAP_DOWNLINK_NAS dlit S i g pdu = Inr (S', out, rc) \<and> ids_rep S' T N'"
proof -
  obtain S1 N1 ctx where "rrc_gNB_get_ue_context_from_ngap_ids S i g = Inr (S1, ctx)" "ids_rep S1 T N1" "rg_node_type S1 = rg_node_type S"
    using context_total [OF assms(1)] by blast
  then show ?thesis using assms(2)
    by (cases ctx) (auto simp: rrc_gNB_process_NGAP_DOWNLINK_NAS_def rrc_gNB_get_next_transaction_identifier_def Let_def)
qed

lemma generate_release_rep:
  "rrc_gNB_generate_RRCRelease release S c = (S', out) \<Longrightarrow> ids_rep S T N \<Longrightarrow> ids_rep S' T N"
  by (auto simp: rrc_gNB_generate_RRCRelease_def rrc_gNB_get_next_transaction_identifier_def Let_def split: if_splits)

lemma release_command_total:
  assumes rep: "ids_rep S T N"
  shows "\<exists>S' T' N' out rc. rrc_gNB_process_NGAP_UE_CONTEXT_RELEASE_COMMAND release S g = Inr (S', out, rc) \<and> ids_rep S' T' N'"
proof -
  obtain S1 N1 ctx where 1: "rrc_gNB_get_ue_context_from_ngap_ids S UE_INITIAL_ID_INVALID g = Inr (S1, ctx)" "ids_rep S1 T N1"
    using context_total [OF rep] by blast
  show ?thesis
  proof (cases ctx)
    case (Some c)
    let ?u = "(rg_ue S1 (uc_addr c))\<lparr>un_ue_release_timer_ng := 0, un_ue_release_timer_thres_rrc := 1000\<rparr>"
    obtain S2 out where g: "rrc_gNB_generate_RRCRelease release (S1\<lparr>rg_ue := (rg_ue S1)(uc_addr c := ?u)\<rparr>) c = (S2, out)"
      by (meson surj_pair)
    have "ids_rep S2 T N1" by (rule generate_release_rep [OF g]) (simp add: 1(2))
    then show ?thesis using 1(1) Some g by (auto simp: rrc_gNB_process_NGAP_UE_CONTEXT_RELEASE_COMMAND_def)
  next
    case None
    show ?thesis
    proof (cases "known_ids S1 0 g")
      case unknown: None
      define S2 where "S2 = (if g \<noteq> 0 then S1\<lparr>rg_ngap := map_option (drop_ngap_ue g) (rg_ngap S1)\<rparr> else S1)"
      have "rrc_gNB_NGAP_get_ue_ids S1 0 g = Inr (S2, None)" using get_ids_unknown [OF 1(2) unknown] by (simp add: S2_def)
      moreover have "ids_rep S2 T N1" using 1(2) by (simp add: S2_def)
      ultimately show ?thesis using 1(1) None
        by (auto simp: rrc_gNB_process_NGAP_UE_CONTEXT_RELEASE_COMMAND_def UE_INITIAL_ID_INVALID_def rrc_gNB_NGAP_remove_ue_ids_def)
    next
      case known: (Some r)
      obtain a where a: "rrc_gNB_NGAP_get_ue_ids S1 0 g = Inr (S1, Some a)" "rg_ids S1 a = Some r"
        using get_ids_known [OF 1(2) known] by auto
      obtain S2 T2 N2 where 2: "rrc_gNB_NGAP_remove_ue_ids S1 (Some a) = Inr S2" "ids_rep S2 T2 N2"
        using remove_ids_ok [OF 1(2) a(2)] by blast
      have "rrc_gNB_process_NGAP_UE_CONTEXT_RELEASE_COMMAND release S g = Inr (S2, [NGAP_UE_CONTEXT_RELEASE_COMPLETE g], - 1)"
        using 1(1) None a(1) 2(1) by (simp add: rrc_gNB_process_NGAP_UE_CONTEXT_RELEASE_COMMAND_def UE_INITIAL_ID_INVALID_def)
      then show ?thesis using 2(2) by blast
    qed
  qed
qed

text \<open>
  The events of a gNB.  The other handlers of NGAP messages in \<open>rrc_gNB_NGAP.c\<close> (initial context setup, line 486,
  and the setup, modification and release of PDU sessions, lines 981, 1079 and 1591) look the context up, which may
  complete a pair; what they and the rest of RRC do besides changes contexts, and NGAP changes its own state, at any
  time and without touching the pairs.
\<close>

inductive rrc_ngap_history :: "rrc_gnb \<Rightarrow> bool" where
  start: "rrc_ngap_history (init_rrc_gnb node_type ngap)"
| first_req: "rrc_ngap_history S \<Longrightarrow> rrc_gNB_send_NGAP_NAS_FIRST_REQ S rnti c setup = Inr (S', out) \<Longrightarrow> rrc_ngap_history S'"
| downlink: "rrc_ngap_history S \<Longrightarrow> rrc_gNB_process_NGAP_DOWNLINK_NAS dlit S i g pdu = Inr (S', out, rc) \<Longrightarrow> rrc_ngap_history S'"
| release_req: "rrc_ngap_history S \<Longrightarrow> rrc_gNB_process_NGAP_UE_CONTEXT_RELEASE_REQ S g = Inr (S', out, rc) \<Longrightarrow> rrc_ngap_history S'"
| release_command: "rrc_ngap_history S \<Longrightarrow>
    rrc_gNB_process_NGAP_UE_CONTEXT_RELEASE_COMMAND release S g = Inr (S', out, rc) \<Longrightarrow> rrc_ngap_history S'"
| lookup: "rrc_ngap_history S \<Longrightarrow> rrc_gNB_get_ue_context_from_ngap_ids S i g = Inr (S', ctx) \<Longrightarrow> rrc_ngap_history S'"
| other: "rrc_ngap_history S \<Longrightarrow>
    rrc_ngap_history (S\<lparr>rg_inst := inst, rg_ue := ue, rg_xid := xid, rg_mui := mui, rg_ngap := ngap\<rparr>)"

lemma init_rep: "\<exists>T N. ids_rep (init_rrc_gnb node_type ngap) T N"
proof -
  have "(0 :: u64) < of_nat (NUMBER_OF_UE_MAX * 2)" by (simp add: NUMBER_OF_UE_MAX_def)
  note c = ht_create_inv [OF this, of None None]
  show ?thesis
    unfolding ids_rep_def entries_match_def init_rrc_gnb_def rrc_gnb.simps
    using c by (intro exI conjI) (auto simp: hashtable_create_def)
qed

lemma history_rep: "rrc_ngap_history S \<Longrightarrow> \<exists>T N. ids_rep S T N"
proof (induction rule: rrc_ngap_history.induct)
  case (start node_type ngap)
  show ?case by (rule init_rep)
next
  case (first_req S rnti c sc S1 out)
  then obtain T N where rep: "ids_rep S T N" by blast
  show ?case using first_req_returned [OF rep first_req.hyps(2)] by blast
next
  case (downlink S dlit i g pdu S2 out rc)
  then obtain T N where rep: "ids_rep S T N" by blast
  show ?case
  proof (cases "rg_node_type S = ngran_gNB_DU")
    case False
    then show ?thesis using downlink_total [OF rep False, of dlit i g pdu] downlink.hyps(2) by auto
  next
    case True
    obtain S1 N1 ctx where "rrc_gNB_get_ue_context_from_ngap_ids S i g = Inr (S1, ctx)" "ids_rep S1 T N1" "rg_node_type S1 = rg_node_type S"
      using context_total [OF rep] by blast
    then show ?thesis using downlink.hyps(2) True
      by (cases ctx) (auto simp: rrc_gNB_process_NGAP_DOWNLINK_NAS_def rrc_gNB_get_next_transaction_identifier_def Let_def)
  qed
next
  case (release_req S g S2 out rc)
  then obtain T N where "ids_rep S T N" by blast
  then obtain S1 N1 ctx where 1: "rrc_gNB_get_ue_context_from_ngap_ids S 0 g = Inr (S1, ctx)" "ids_rep S1 T N1"
    using context_total by blast
  then have "S2 = S1" using release_req.hyps(2) by (simp add: rrc_gNB_process_NGAP_UE_CONTEXT_RELEASE_REQ_def UE_INITIAL_ID_INVALID_def)
  then show ?case using 1(2) by blast
next
  case (release_command S release g S2 out rc)
  then obtain T N where "ids_rep S T N" by blast
  then show ?case using release_command_total [of S T N release g] release_command.hyps(2) by auto
next
  case (lookup S i g S2 c)
  then obtain T N where "ids_rep S T N" by blast
  then obtain N1 where "ids_rep S2 T N1" using context_total [of S T N i g] lookup.hyps(2) by auto
  then show ?case by blast
next
  case (other S i0 ue xid mui ngap)
  then show ?case by simp
qed

lemma held_entry_iff:
  assumes "ht_inv t" "ht_freefunc t = libc_free" "b \<in># ht_held t"
  shows "\<exists>k. ht_map t k = Some (Some b)"
proof -
  obtain c where "c \<in> set (ht_nodes t)" "b \<in># chain_held libc_free c" using assms(2,3) by (auto simp: ht_held_def in_mset_sum_list_iff)
  then obtain i n where i: "i < length (ht_nodes t)" "n \<in> set (ht_nodes t ! i)" "hn_data n = Some b"
    by (auto simp: chain_held_libc in_set_conv_nth)
  then have "ht_index t (hn_key n) = i" "distinct (map hn_key (ht_nodes t ! i))" using assms(1) by (auto simp: ht_inv_def)
  moreover have "distinct (map hn_key c) \<Longrightarrow> n \<in> set c \<Longrightarrow> chain_find (hn_key n) c = Some n" for c
    by (induction c) auto
  ultimately show ?thesis using i by (intro exI [of _ "hn_key n"]) (simp add: ht_map_def)
qed

lemma no_leak:
  assumes rep: "ids_rep S T N" and r: "rg_ids S a = Some r"
  shows "by_initial S (ri_ue_initial_id r) = Some r \<or> by_ngap S (ri_gNB_ue_ngap_id r) = Some r"
proof -
  note R = rep [unfolded ids_rep_def]
  have "ht_held T + ht_held N = mset_set (dom (rg_ids S))" "a \<in># mset_set (dom (rg_ids S))" using R r by auto
  then have "a \<in># ht_held T \<or> a \<in># ht_held N" by (metis union_iff)
  then consider k where "ht_map T k = Some (Some a)" | k where "ht_map N k = Some (Some a)"
    using held_entry_iff [of T a] held_entry_iff [of N a] R by auto
  then show ?thesis
  proof cases
    case 1
    then have "ucast (ri_ue_initial_id r) = k" using R r by (fastforce simp: entries_match_def)
    then show ?thesis using rep_initial(1) [OF rep] 1 r by blast
  next
    case 2
    then have "ucast (ri_gNB_ue_ngap_id r) = k" using R r by (fastforce simp: entries_match_def)
    then show ?thesis using rep_ngap(1) [OF rep] 2 r by blast
  qed
qed

subsection \<open>Properties\<close>

text \<open>
  C21: safety of the pairs.  In every reachable state a pair found under an identity carries that identity, the
  identity 0 leads to none, and every pair in memory is found under one of its own identities, so none has leaked.
  No handler then uses a pair that was released or releases one twice: a lookup, a downlink NAS message
  (on a node that is not a DU), a release request and a release command return for whatever identities come in, and
  a first message fails only for an invalid cause, a PLMN index beyond the digits or an AMF identifier of no or more
  than four octets.
\<close>

theorem rrc_ngap_ids_safe:
  assumes "rrc_ngap_history S"
  shows "(\<forall>i r. by_initial S i = Some r \<longrightarrow> i \<noteq> 0 \<and> ri_ue_initial_id r = i) \<and>
    (\<forall>g r. by_ngap S g = Some r \<longrightarrow> g \<noteq> 0 \<and> ri_gNB_ue_ngap_id r = g) \<and>
    (\<forall>a r. rg_ids S a = Some r \<longrightarrow> by_initial S (ri_ue_initial_id r) = Some r \<or> by_ngap S (ri_gNB_ue_ngap_id r) = Some r) \<and>
    (\<forall>i g. \<exists>S' p. rrc_gNB_NGAP_get_ue_ids S i g = Inr (S', p)) \<and>
    (\<forall>dlit i g pdu. rg_node_type S \<noteq> ngran_gNB_DU \<longrightarrow>
       (\<exists>S' out rc. rrc_gNB_process_NGAP_DOWNLINK_NAS dlit S i g pdu = Inr (S', out, rc))) \<and>
    (\<forall>g. \<exists>S' out rc. rrc_gNB_process_NGAP_UE_CONTEXT_RELEASE_REQ S g = Inr (S', out, rc)) \<and>
    (\<forall>release g. \<exists>S' out rc. rrc_gNB_process_NGAP_UE_CONTEXT_RELEASE_COMMAND release S g = Inr (S', out, rc)) \<and>
    (\<forall>rnti c sc e. rrc_gNB_send_NGAP_NAS_FIRST_REQ S rnti c sc = Inl e \<longrightarrow>
       e = Exit \<and> \<not> un_establishment_cause (rg_ue S (uc_addr c)) < NGAP_RRC_CAUSE_LAST \<or>
       (\<exists>ra. sc_registeredAMF sc = Some ra \<and> registered_guami (rg_ue S (uc_addr c)) (sc_selectedPLMN_Identity sc - 1) ra = Inl e))"
proof (intro conjI allI)
  obtain T N where rep: "ids_rep S T N" using history_rep [OF assms] by blast
  fix i :: u16 and g :: u32 and r a dlit pdu and release :: "byte \<Rightarrow> bytes" and rnti and c :: rrc_gNB_ue_context and sc e
  show "by_initial S i = Some r \<longrightarrow> i \<noteq> 0 \<and> ri_ue_initial_id r = i" using rep_initial(3) [OF rep] by blast
  show "by_ngap S g = Some r \<longrightarrow> g \<noteq> 0 \<and> ri_gNB_ue_ngap_id r = g" using rep_ngap(3) [OF rep] by blast
  show "rg_ids S a = Some r \<longrightarrow> by_initial S (ri_ue_initial_id r) = Some r \<or> by_ngap S (ri_gNB_ue_ngap_id r) = Some r"
    using no_leak [OF rep] by blast
  show "\<exists>S' p. rrc_gNB_NGAP_get_ue_ids S i g = Inr (S', p)"
    using get_ids_unknown [OF rep] get_ids_known [OF rep] by (cases "known_ids S i g") blast+
  show "rg_node_type S \<noteq> ngran_gNB_DU \<longrightarrow> (\<exists>S' out rc. rrc_gNB_process_NGAP_DOWNLINK_NAS dlit S i g pdu = Inr (S', out, rc))"
    using downlink_total [OF rep] by blast
  show "\<exists>S' out rc. rrc_gNB_process_NGAP_UE_CONTEXT_RELEASE_REQ S g = Inr (S', out, rc)"
    using context_total [OF rep, of UE_INITIAL_ID_INVALID g] by (auto simp: rrc_gNB_process_NGAP_UE_CONTEXT_RELEASE_REQ_def)
  show "\<exists>S' out rc. rrc_gNB_process_NGAP_UE_CONTEXT_RELEASE_COMMAND release S g = Inr (S', out, rc)"
    using release_command_total [OF rep] by blast
  define u where "u = (rg_ue S (uc_addr c))\<lparr>un_ue_initial_id := snd (get_next_ue_initial_id S)\<rparr>"
  have "registered_guami u x ra = registered_guami (rg_ue S (uc_addr c)) x ra" for x ra by (simp add: registered_guami_def u_def)
  then show "rrc_gNB_send_NGAP_NAS_FIRST_REQ S rnti c sc = Inl e \<longrightarrow>
      e = Exit \<and> \<not> un_establishment_cause (rg_ue S (uc_addr c)) < NGAP_RRC_CAUSE_LAST \<or>
      (\<exists>ra. sc_registeredAMF sc = Some ra \<and> registered_guami (rg_ue S (uc_addr c)) (sc_selectedPLMN_Identity sc - 1) ra = Inl e)"
    using first_req_run [OF rep refl u_def, of rnti sc]
    by (auto simp: bnd_eq_Inl guard_def u_def split: option.splits if_splits)
qed

text \<open>A CU with one UE, which has sent its first message.\<close>

definition example_context :: rrc_gNB_ue_context where
  "example_context = (zero_ue_context 0 1)\<lparr>uc_ue_id_rnti := 0x4601, uc_rnti := 0x4601\<rparr>"

definition example_setup :: rrc_setup_complete where
  "example_setup = \<lparr>sc_selectedPLMN_Identity = 1, sc_registeredAMF = None, sc_dedicatedNAS_Message = [0x7E]\<rparr>"

definition example_cu :: rrc_gnb where
  "example_cu = (init_rrc_gnb ngran_gNB_CU (Some example_gnb))
     \<lparr>rg_inst := initial_rrc_inst\<lparr>rrc_ue_head := [example_context]\<rparr>,
      rg_ue := (\<lambda>_. zero_rrc_ue_ngap\<lparr>un_Srb1_id := 1, un_establishment_cause := 4\<rparr>), rg_xid := 0, rg_mui := 0, rg_ngap := Some example_gnb\<rparr>"

lemma example_cu_history: "rrc_ngap_history example_cu"
  unfolding example_cu_def by (rule other) (rule start)

lemma example_cu_rep: "\<exists>T N. ids_rep example_cu T N"
  using history_rep [OF example_cu_history] .

lemma example_first_req:
  "\<exists>S1. rrc_gNB_send_NGAP_NAS_FIRST_REQ example_cu 0x4601 example_context example_setup =
     Inr (S1, [NGAP_NAS_FIRST_REQ (first_req_of 1 4 example_setup)]) \<and>
   by_initial S1 1 = Some \<lparr>ri_ue_initial_id = 1, ri_gNB_ue_ngap_id = 0, ri_ue_rnti = 0x4601\<rparr>"
proof -
  obtain T N where rep: "ids_rep example_cu T N" using example_cu_rep by blast
  have i: "1 = snd (get_next_ue_initial_id example_cu)"
    by (simp add: get_next_ue_initial_id_def example_cu_def init_rrc_gnb_def UE_INITIAL_ID_INVALID_def)
  have c: "un_establishment_cause ((rg_ue example_cu (uc_addr example_context))\<lparr>un_ue_initial_id := 1\<rparr>) = 4"
    by (simp add: example_cu_def zero_rrc_ue_ngap_def)
  show ?thesis
    using first_req_run [OF rep i refl, of "0x4601" example_context example_setup] unfolding c
    by (auto simp: NGAP_RRC_CAUSE_LAST_def example_setup_def)
qed

theorem rrc_ngap_ids_safe_witness:
  "\<exists>S1. rrc_gNB_send_NGAP_NAS_FIRST_REQ example_cu 0x4601 example_context example_setup =
     Inr (S1, [NGAP_NAS_FIRST_REQ (first_req_of 1 4 example_setup)]) \<and> by_initial S1 1 \<noteq> None \<and>
   (\<exists>S2 p. rrc_gNB_NGAP_get_ue_ids S1 1 14 = Inr (S2, p))"
proof -
  obtain S1 where S1: "rrc_gNB_send_NGAP_NAS_FIRST_REQ example_cu 0x4601 example_context example_setup =
     Inr (S1, [NGAP_NAS_FIRST_REQ (first_req_of 1 4 example_setup)])" "by_initial S1 1 \<noteq> None"
    using example_first_req by auto
  have "rrc_ngap_history S1" by (rule first_req [OF example_cu_history S1(1)])
  from rrc_ngap_ids_safe [OF this] have "\<forall>i g. \<exists>S' p. rrc_gNB_NGAP_get_ue_ids S1 i g = Inr (S', p)" by (elim conjE)
  then show ?thesis using S1 by blast
qed

text \<open>The command for a UE that is known: the message to the DU, or to the UE and NGAP; nothing else changes.\<close>

lemma release_command_known:
  assumes rep: "ids_rep S T N" and "g \<noteq> 0" "by_ngap S g = Some r" "rrc_gNB_get_ue_context (rg_inst S) (ri_ue_rnti r) = Some c"
  shows "\<exists>S' xid mui g'. rrc_gNB_process_NGAP_UE_CONTEXT_RELEASE_COMMAND release S g =
       Inr (S', if NODE_IS_CU (rg_node_type S) then [F1AP_UE_CONTEXT_RELEASE_CMD (uc_rnti c) (release xid)]
                else [RRC_DATA_REQ (uc_rnti c) DCCH mui (release xid), NGAP_UE_CONTEXT_RELEASE_COMPLETE g'], 0) \<and>
     by_ngap S' = by_ngap S \<and> by_initial S' = by_initial S \<and> rg_inst S' = rg_inst S \<and> rg_ngap S' = rg_ngap S \<and>
     un_gNB_ue_ngap_id (rg_ue S' (uc_addr c)) = un_gNB_ue_ngap_id (rg_ue S (uc_addr c))"
proof -
  have z: "UE_INITIAL_ID_INVALID = 0" by (simp add: UE_INITIAL_ID_INVALID_def)
  have "known_ids S 0 g = Some r" using assms(2,3) by (simp add: known_ids_def)
  then obtain a where a: "rrc_gNB_NGAP_get_ue_ids S 0 g = Inr (S, Some a)" "rg_ids S a = Some r"
    using get_ids_known [OF rep] by fastforce
  then have "rrc_gNB_get_ue_context_from_ngap_ids S 0 g = Inr (S, Some c)"
    using assms(4) by (simp add: rrc_gNB_get_ue_context_from_ngap_ids_def ids_at_def)
  then show ?thesis
    by (auto simp: rrc_gNB_process_NGAP_UE_CONTEXT_RELEASE_COMMAND_def z rrc_gNB_generate_RRCRelease_def
        rrc_gNB_get_next_transaction_identifier_def Let_def)
qed

text \<open>
  C36: the release command.  For a UE that NGAP and RRC both know the command becomes a release of the UE at the DU
  (on a CU; elsewhere an RRC release, and the completion at once) and the pair of identities stays; for a pair whose UE is
  gone the pair is removed and the completion reported.  For an identity without a pair, as of a UE that has
  not had a downlink message yet, RRC drops the context of NGAP before it reports the completion, so
  that NGAP then knows no such UE: it returns -1 and the AMF never gets its answer.
\<close>

theorem release_command_outcome:
  assumes "rrc_ngap_history S" "g \<noteq> 0"
  shows "case by_ngap S g of
      None \<Rightarrow>
        rrc_gNB_process_NGAP_UE_CONTEXT_RELEASE_COMMAND release S g =
          Inr (S\<lparr>rg_ngap := map_option (drop_ngap_ue g) (rg_ngap S)\<rparr>, [NGAP_UE_CONTEXT_RELEASE_COMPLETE g], - 1) \<and>
        (\<forall>G. ngap_ue_context_release_complete encode (drop_ngap_ue g G) g = Inr (drop_ngap_ue g G, [], - 1))
    | Some r \<Rightarrow>
        (case rrc_gNB_get_ue_context (rg_inst S) (ri_ue_rnti r) of
           None \<Rightarrow> \<exists>S'. rrc_gNB_process_NGAP_UE_CONTEXT_RELEASE_COMMAND release S g = Inr (S', [NGAP_UE_CONTEXT_RELEASE_COMPLETE g], - 1) \<and>
             by_ngap S' = (by_ngap S)(g := None) \<and> by_initial S' = (by_initial S)(ri_ue_initial_id r := None) \<and> rg_ngap S' = rg_ngap S
         | Some c \<Rightarrow> \<exists>S' xid mui g'. rrc_gNB_process_NGAP_UE_CONTEXT_RELEASE_COMMAND release S g =
               Inr (S', if NODE_IS_CU (rg_node_type S) then [F1AP_UE_CONTEXT_RELEASE_CMD (uc_rnti c) (release xid)]
                        else [RRC_DATA_REQ (uc_rnti c) DCCH mui (release xid), NGAP_UE_CONTEXT_RELEASE_COMPLETE g'], 0) \<and>
             by_ngap S' = by_ngap S \<and> by_initial S' = by_initial S \<and> rg_inst S' = rg_inst S \<and> rg_ngap S' = rg_ngap S)"
proof -
  obtain T N where rep: "ids_rep S T N" using history_rep [OF assms(1)] by blast
  have k: "known_ids S 0 g = by_ngap S g" using assms(2) by (simp add: known_ids_def)
  have z: "UE_INITIAL_ID_INVALID = 0" by (simp add: UE_INITIAL_ID_INVALID_def)
  show ?thesis
  proof (cases "by_ngap S g")
    case None
    define S1 where "S1 = S\<lparr>rg_ngap := map_option (drop_ngap_ue g) (rg_ngap S)\<rparr>"
    have "rrc_gNB_get_ue_context_from_ngap_ids S 0 g = Inr (S1, None)"
      using context_unknown [OF rep, of 0 g] assms(2) k None by (simp add: S1_def)
    moreover have "rrc_gNB_NGAP_get_ue_ids S1 0 g = Inr (S1, None)"
    proof -
      have "ids_rep S1 T N" "known_ids S1 0 g = None" using rep None assms(2) by (simp_all add: S1_def known_ids_def)
      moreover have "drop_ngap_ue g (drop_ngap_ue g G) = drop_ngap_ue g G" for G by (simp add: drop_ngap_ue_def)
      then have "S1\<lparr>rg_ngap := map_option (drop_ngap_ue g) (rg_ngap S1)\<rparr> = S1" by (simp add: S1_def option.map_comp comp_def)
      ultimately show ?thesis using get_ids_unknown [of S1 T N 0 g] assms(2) by simp
    qed
    ultimately have "rrc_gNB_process_NGAP_UE_CONTEXT_RELEASE_COMMAND release S g = Inr (S1, [NGAP_UE_CONTEXT_RELEASE_COMPLETE g], - 1)"
      by (simp add: rrc_gNB_process_NGAP_UE_CONTEXT_RELEASE_COMMAND_def z rrc_gNB_NGAP_remove_ue_ids_def)
    then show ?thesis using None get_ue_context_key(3) [of g] by (simp add: S1_def ngap_ue_context_release_complete_def)
  next
    case (Some r)
    obtain a where a: "rrc_gNB_NGAP_get_ue_ids S 0 g = Inr (S, Some a)" "rg_ids S a = Some r"
      using get_ids_known [OF rep] k Some by fastforce
    have ctx: "rrc_gNB_get_ue_context_from_ngap_ids S 0 g = Inr (S, rrc_gNB_get_ue_context (rg_inst S) (ri_ue_rnti r))"
      using a by (simp add: rrc_gNB_get_ue_context_from_ngap_ids_def ids_at_def)
    show ?thesis
    proof (cases "rrc_gNB_get_ue_context (rg_inst S) (ri_ue_rnti r)")
      case none: None
      obtain S' T' N' where S': "rrc_gNB_NGAP_remove_ue_ids S (Some a) = Inr S'"
        "S' = S\<lparr>rg_ids := rg_ids S', rg_initial_id2_ngap_ids := Some T', rg_ngap_id2_ngap_ids := Some N'\<rparr>"
        "by_initial S' = (by_initial S)(ri_ue_initial_id r := None)" "by_ngap S' = (by_ngap S)(ri_gNB_ue_ngap_id r := None)"
        using remove_ids_ok [OF rep a(2)] by blast
      have "rg_ngap S' = rg_ngap S" by (subst S'(2)) simp
      moreover have "ri_gNB_ue_ngap_id r = g" using rep_ngap(3) [OF rep Some] by simp
      ultimately show ?thesis using Some none ctx a(1) S'(1,3,4)
        by (simp add: rrc_gNB_process_NGAP_UE_CONTEXT_RELEASE_COMMAND_def z)
    next
      case known: (Some c)
      then show ?thesis using release_command_known [OF rep assms(2) Some known, of release] Some by auto
    qed
  qed
qed

theorem release_command_outcome_witness:
  "\<exists>S'. rrc_gNB_process_NGAP_UE_CONTEXT_RELEASE_COMMAND (\<lambda>_. [1]) example_cu 14 = Inr (S', [NGAP_UE_CONTEXT_RELEASE_COMPLETE 14], - 1)"
proof -
  obtain T N where rep: "ids_rep example_cu T N" using example_cu_rep by blast
  have "by_ngap example_cu 14 = None"
    unfolding by_ngap_def ids_of_def example_cu_def init_rrc_gnb_def
    by (simp add: ht_create_inv(2) NUMBER_OF_UE_MAX_def)
  then show ?thesis using release_command_outcome [OF example_cu_history, of 14 "\<lambda>_. [1]"] by auto
qed

text \<open>The delivery of a downlink message.\<close>

lemma downlink_delivers:
  assumes rep: "ids_rep X T N" and kn: "known_ids X i g = Some r"
    and c: "rrc_gNB_get_ue_context (rg_inst X) (ri_ue_rnti r) = Some c" and cu: "rg_node_type X = ngran_gNB_CU"
  shows "\<exists>X2 xid. rrc_gNB_process_NGAP_DOWNLINK_NAS dlit X i g pdu =
      Inr (X2, [RRC_DATA_REQ (uc_rnti c) (if un_Srb2_Active (rg_ue X (uc_addr c)) = 1 then un_Srb2_id (rg_ue X (uc_addr c))
          else un_Srb1_id (rg_ue X (uc_addr c))) (rg_mui X) (dlit xid pdu)], 0) \<and>
    (i \<noteq> 0 \<and> g \<noteq> 0 \<and> by_ngap X g = None \<longrightarrow> by_ngap X2 g = Some (r\<lparr>ri_gNB_ue_ngap_id := g\<rparr>)) \<and>
    rg_inst X2 = rg_inst X \<and> rg_node_type X2 = ngran_gNB_CU"
proof -
  obtain X' N' where X': "rrc_gNB_get_ue_context_from_ngap_ids X i g = Inr (X', Some c)"
    "X' = X\<lparr>rg_next_obj := rg_next_obj X', rg_ids := rg_ids X', rg_ngap_id2_ngap_ids := Some N'\<rparr>"
    "i \<noteq> 0 \<and> g \<noteq> 0 \<and> by_ngap X g = None \<longrightarrow> by_ngap X' = (by_ngap X)(g \<mapsto> r\<lparr>ri_gNB_ue_ngap_id := g\<rparr>)"
    using context_known [OF rep kn] c by (auto split: if_splits)
  have f: "rg_ue X' = rg_ue X" "rg_node_type X' = ngran_gNB_CU" "rg_mui X' = rg_mui X" "rg_inst X' = rg_inst X"
    by (subst X'(2), simp add: cu)+
  define U where "U = (if un_gNB_ue_ngap_id (rg_ue X (uc_addr c)) = 0
      then (rg_ue X (uc_addr c))\<lparr>un_gNB_ue_ngap_id := g\<rparr> else rg_ue X (uc_addr c))"
  have U: "un_Srb2_Active U = un_Srb2_Active (rg_ue X (uc_addr c))" "un_Srb2_id U = un_Srb2_id (rg_ue X (uc_addr c))"
    "un_Srb1_id U = un_Srb1_id (rg_ue X (uc_addr c))" by (simp_all add: U_def)
  define xid where "xid = snd (rrc_gNB_get_next_transaction_identifier X')"
  have "rrc_gNB_process_NGAP_DOWNLINK_NAS dlit X i g pdu =
      Inr (X'\<lparr>rg_ue := (rg_ue X)(uc_addr c := U), rg_xid := xid, rg_mui := rg_mui X + 1\<rparr>,
        [RRC_DATA_REQ (uc_rnti c) (if un_Srb2_Active U = 1 then un_Srb2_id U else un_Srb1_id U) (rg_mui X) (dlit xid pdu)], 0)"
    using X'(1) f by (simp add: rrc_gNB_process_NGAP_DOWNLINK_NAS_def rrc_gNB_get_next_transaction_identifier_def Let_def U_def xid_def)
  then show ?thesis using X'(3) f(2,4) unfolding U by auto
qed

text \<open>
  C16: NAS messages find their UE.  When a UE of a CU has sent its first message and NGAP has registered it with an
  AMF, NGAP has a context under one new identity; and the first message that the AMF sends for that identity, on any
  stream and with any identifier of its own, comes out as a downlink message for the initial identity of the UE and
  is handed by RRC to the signalling bearer of exactly this UE, SRB2 if it is active and SRB1 otherwise.
  From then on RRC knows the UE under the identity of NGAP, if that was not in use.
\<close>

theorem nas_reaches_the_ue:
  assumes "rrc_ngap_history S" "rrc_gNB_get_ue_context (rg_inst S) rnti = Some c" "rg_node_type S = ngran_gNB_CU"
    "rrc_gNB_send_NGAP_NAS_FIRST_REQ S rnti c sc = Inr (S1, [NGAP_NAS_FIRST_REQ req])"
    "ngap_history encode rnd G k" "ngap_gNB_handle_nas_first_req encode rnd G k req = Inr (G1, k1, ms, 0)"
  shows "\<exists>g. ngap_gNB_get_ue_context G g = None \<and>
    (\<forall>j. j \<noteq> g \<longrightarrow> ngap_gNB_get_ue_context G1 j = ngap_gNB_get_ue_context G j) \<and>
    (\<forall>a stream x pdu dlit. \<exists>G2 S2 xid.
       ngap_gNB_handle_nas_downlink G1 (Some a) stream [AMF_UE_NGAP_ID x, RAN_UE_NGAP_ID g, NAS_PDU pdu] =
         Inr (G2, [NGAP_DOWNLINK_NAS (fr_ue_initial_id req) g pdu], 0) \<and>
       rrc_gNB_process_NGAP_DOWNLINK_NAS dlit (S1\<lparr>rg_ngap := Some G2\<rparr>) (fr_ue_initial_id req) g pdu =
         Inr (S2, [RRC_DATA_REQ (uc_rnti c)
                     (if un_Srb2_Active (rg_ue S (uc_addr c)) = 1 then un_Srb2_id (rg_ue S (uc_addr c)) else un_Srb1_id (rg_ue S (uc_addr c)))
                     (rg_mui S1) (dlit xid pdu)], 0) \<and>
       (g \<noteq> 0 \<and> by_ngap S g = None \<longrightarrow>
          by_ngap S2 g = Some \<lparr>ri_ue_initial_id = fr_ue_initial_id req, ri_gNB_ue_ngap_id = g, ri_ue_rnti = rnti\<rparr>))"
proof -
  obtain T N where rep: "ids_rep S T N" using history_rep [OF assms(1)] by blast
  define i where "i = fr_ue_initial_id req"
  obtain T' where rep1: "ids_rep S1 T' N" and i0: "i \<noteq> 0" and by1: "by_ngap S1 = by_ngap S"
    "by_initial S1 i = Some \<lparr>ri_ue_initial_id = i, ri_gNB_ue_ngap_id = 0, ri_ue_rnti = rnti\<rparr>"
    and f: "rg_inst S1 = rg_inst S" "rg_node_type S1 = rg_node_type S"
      "un_Srb2_Active (rg_ue S1 (uc_addr c)) = un_Srb2_Active (rg_ue S (uc_addr c))"
      "un_Srb2_id (rg_ue S1 (uc_addr c)) = un_Srb2_id (rg_ue S (uc_addr c))"
      "un_Srb1_id (rg_ue S1 (uc_addr c)) = un_Srb1_id (rg_ue S (uc_addr c))"
    using first_req_returned [OF rep assms(4)] unfolding i_def by auto
  obtain g v where g: "ngap_gNB_get_ue_context G g = None" "ngap_gNB_get_ue_context G1 g = Some v"
    "\<forall>j. j \<noteq> g \<longrightarrow> ngap_gNB_get_ue_context G1 j = ngap_gNB_get_ue_context G j"
    "nu_rx_stream v = 0" "nu_amf_ue_ngap_id v = 0" "nu_ue_initial_id v = i" "nu_gNB_ue_ngap_id v = g"
    using first_req_registers [OF ngap_history_inv [OF assms(5)] assms(6)] unfolding i_def by blast
  have "\<exists>G2 S2 xid.
       ngap_gNB_handle_nas_downlink G1 (Some a) stream [AMF_UE_NGAP_ID x, RAN_UE_NGAP_ID g, NAS_PDU pdu] =
         Inr (G2, [NGAP_DOWNLINK_NAS i g pdu], 0) \<and>
       rrc_gNB_process_NGAP_DOWNLINK_NAS dlit (S1\<lparr>rg_ngap := Some G2\<rparr>) i g pdu =
         Inr (S2, [RRC_DATA_REQ (uc_rnti c)
                     (if un_Srb2_Active (rg_ue S (uc_addr c)) = 1 then un_Srb2_id (rg_ue S (uc_addr c)) else un_Srb1_id (rg_ue S (uc_addr c)))
                     (rg_mui S1) (dlit xid pdu)], 0) \<and>
       (g \<noteq> 0 \<and> by_ngap S g = None \<longrightarrow>
          by_ngap S2 g = Some \<lparr>ri_ue_initial_id = i, ri_gNB_ue_ngap_id = g, ri_ue_rnti = rnti\<rparr>)" for a stream x pdu dlit
  proof -
    have ie: "find_ie amf_id_ie [AMF_UE_NGAP_ID x, RAN_UE_NGAP_ID g, NAS_PDU pdu] = Inr x"
      "find_ie ran_id_ie [AMF_UE_NGAP_ID x, RAN_UE_NGAP_ID g, NAS_PDU pdu] = Inr g"
      "find_ie nas_pdu_ie [AMF_UE_NGAP_ID x, RAN_UE_NGAP_ID g, NAS_PDU pdu] = Inr pdu"
      by (simp_all add: amf_id_ie_def ran_id_ie_def nas_pdu_ie_def)
    obtain G2 where G2: "ngap_gNB_handle_nas_downlink G1 (Some a) stream [AMF_UE_NGAP_ID x, RAN_UE_NGAP_ID g, NAS_PDU pdu] =
        Inr (G2, [NGAP_DOWNLINK_NAS i g pdu], 0)"
      using downlink_known [OF ie(1,2) g(2), of a stream] ie(3) g(4-7) by simp
    have "known_ids (S1\<lparr>rg_ngap := Some G2\<rparr>) i g = Some \<lparr>ri_ue_initial_id = i, ri_gNB_ue_ngap_id = 0, ri_ue_rnti = rnti\<rparr>"
      using i0 by1(2) by (simp add: known_ids_def)
    from downlink_delivers [OF _ this, of T' N c dlit pdu] show ?thesis
      using G2 rep1 f assms(2,3) i0 by1(1) by auto
  qed
  then show ?thesis unfolding i_def using g(1,3) by blast
qed

theorem nas_reaches_the_ue_witness:
  "\<exists>S1 G1 k1 ms g. rrc_gNB_send_NGAP_NAS_FIRST_REQ example_cu 0x4601 example_context example_setup =
       Inr (S1, [NGAP_NAS_FIRST_REQ (first_req_of 1 4 example_setup)]) \<and>
     ngap_gNB_handle_nas_first_req (\<lambda>_. Some [1]) (\<lambda>_. 7) example_gnb 0 (first_req_of 1 4 example_setup) = Inr (G1, k1, ms, 0) \<and>
     (\<exists>G2 S2 xid. ngap_gNB_handle_nas_downlink G1 (Some 2) 1 [AMF_UE_NGAP_ID 9, RAN_UE_NGAP_ID g, NAS_PDU [2]] =
         Inr (G2, [NGAP_DOWNLINK_NAS 1 g [2]], 0) \<and>
       rrc_gNB_process_NGAP_DOWNLINK_NAS (\<lambda>x p. x # p) (S1\<lparr>rg_ngap := Some G2\<rparr>) 1 g [2] =
         Inr (S2, [RRC_DATA_REQ 0x4601 1 (rg_mui S1) [xid, 2]], 0))"
proof -
  obtain S1 where S1: "rrc_gNB_send_NGAP_NAS_FIRST_REQ example_cu 0x4601 example_context example_setup =
      Inr (S1, [NGAP_NAS_FIRST_REQ (first_req_of 1 4 example_setup)])" using example_first_req by blast
  have c: "rrc_gNB_get_ue_context (rg_inst example_cu) 0x4601 = Some example_context"
    by (simp add: rrc_gNB_get_ue_context_def rrc_ue_tree_find_def rb_find_def example_cu_def init_rrc_gnb_def initial_rrc_inst_def
        rrc_gNB_compare_ue_rnti_id_def example_context_def)
  have n: "rg_node_type example_cu = ngran_gNB_CU" by (simp add: example_cu_def init_rrc_gnb_def)
  have u: "un_Srb2_Active (rg_ue example_cu a) = 0" "un_Srb1_id (rg_ue example_cu a) = 1" for a
    by (simp_all add: example_cu_def zero_rrc_ue_ngap_def)
  have am: "nas_first_amf example_gnb (first_req_of 1 4 example_setup) = Inr (Some 2)" by code_simp
  have d: "ngap_draw_id (\<lambda>_. 7) (nu_gNB_ue_ngap_id ` set (gi_ngap_ue_head example_gnb)) 0 = Some (14, 2)"
    by (subst ngap_draw_id.simps) (simp add: example_gnb_def)
  have s: "next_stream (ad_nextstream (gi_ngap_amf_head example_gnb ! 2)) (ad_out_streams (gi_ngap_amf_head example_gnb ! 2)) = Inr 1"
    by (simp add: example_gnb_def example_amfs_def next_stream_def c_rem_def)
  obtain l where l: "user_location example_gnb (fr_selected_plmn_identity (first_req_of 1 4 example_setup)) = Inr l"
    using example_location by (auto simp: first_req_of_def example_setup_def)
  obtain G1 k1 ms where G1: "ngap_gNB_handle_nas_first_req (\<lambda>_. Some [1]) (\<lambda>_. 7) example_gnb 0 (first_req_of 1 4 example_setup) = Inr (G1, k1, ms, 0)"
    unfolding first_req_eq [OF am d] l bnd_Inr s by (simp add: first_req_of_def NGAP_RRC_CAUSE_LAST_def)
  let ?req = "first_req_of 1 4 example_setup" and ?u = "rg_ue example_cu (uc_addr example_context)"
  from nas_reaches_the_ue [OF example_cu_history c n S1 example_start G1]
  obtain g where g: "\<forall>a stream x pdu dlit. \<exists>G2 S2 xid.
       ngap_gNB_handle_nas_downlink G1 (Some a) stream [AMF_UE_NGAP_ID x, RAN_UE_NGAP_ID g, NAS_PDU pdu] =
         Inr (G2, [NGAP_DOWNLINK_NAS (fr_ue_initial_id ?req) g pdu], 0) \<and>
       rrc_gNB_process_NGAP_DOWNLINK_NAS dlit (S1\<lparr>rg_ngap := Some G2\<rparr>) (fr_ue_initial_id ?req) g pdu =
         Inr (S2, [RRC_DATA_REQ (uc_rnti example_context) (if un_Srb2_Active ?u = 1 then un_Srb2_id ?u else un_Srb1_id ?u)
           (rg_mui S1) (dlit xid pdu)], 0) \<and>
       (g \<noteq> 0 \<and> by_ngap example_cu g = None \<longrightarrow>
          by_ngap S2 g = Some \<lparr>ri_ue_initial_id = fr_ue_initial_id ?req, ri_gNB_ue_ngap_id = g, ri_ue_rnti = 0x4601\<rparr>)"
    by (elim exE conjE)
  have e: "uc_rnti example_context = 0x4601" "fr_ue_initial_id ?req = 1" by (simp_all add: example_context_def first_req_of_def)
  from g [rule_format, of 2 1 9 "[2]" "\<lambda>x p. x # p"] show ?thesis using S1 G1 unfolding e by (auto simp: u)
qed

text \<open>
  The AMF that a UE was registered with has no say.  RRC takes a single digit of the MCC and of the MNC for the
  whole code when it fills in the GUAMI, and never announces the s-TMSI.  So, as long as the digits
  are digits and every MCC that the AMFs serve has more than one, the AMF is selected as if the UE had named none.
\<close>

theorem registered_amf_has_no_effect:
  assumes "rrc_ngap_history S" "rrc_gNB_send_NGAP_NAS_FIRST_REQ S rnti c sc = Inr (S1, [NGAP_NAS_FIRST_REQ req])"
    "\<forall>ra mcc mnc. sc_registeredAMF sc = Some ra \<and> ra_plmn_Identity ra = Some (Some mcc, mnc) \<longrightarrow> (\<forall>d\<in>set mcc. d < 10)"
    "\<forall>a\<in>set (gi_ngap_amf_head G). \<forall>sg\<in>set (ad_served_guami a). \<forall>p\<in>set (sg_served_plmns sg). 10 \<le> pi_mcc p"
  shows "fr_s_tmsi req = None \<and> nas_first_amf G req = nas_first_amf G (req\<lparr>fr_guami := None\<rparr>)"
proof -
  obtain T N where rep: "ids_rep S T N" using history_rep [OF assms(1)] by blast
  have st: "fr_s_tmsi req = None" using first_req_returned [OF rep assms(2)] by auto
  have mcc: "gu_mcc g < 10" if g: "fr_guami req = Some g" for g
  proof -
    obtain ra where ra: "sc_registeredAMF sc = Some ra"
      "registered_guami (rg_ue S (uc_addr c)) (sc_selectedPLMN_Identity sc - 1) ra = Inr g"
      using first_req_returned [OF rep assms(2)] g by auto
    have dig: "digit_at ds k = Inr d \<Longrightarrow> d \<in> set ds" for ds k d by (auto simp: digit_at_def split: if_splits)
    show ?thesis
    proof (cases "ra_plmn_Identity ra")
      case None
      then show ?thesis using ra(2) by (auto simp: registered_guami_def bnd_eq_Inr)
    next
      case (Some p)
      then obtain m n where p: "ra_plmn_Identity ra = Some (m, n)" by (cases p) auto
      have "gu_mcc g = 0 \<or> (\<exists>ds. m = Some ds \<and> gu_mcc g \<in> set ds)"
        using ra(2) p dig by (fastforce simp: registered_guami_def bnd_eq_Inr split: option.splits list.splits)
      then show ?thesis using assms(3) ra(1) p by auto
    qed
  qed
  have "ngap_gNB_nnsf_select_amf_by_guami (gi_ngap_amf_head G) cause g = Inr None" if "fr_guami req = Some g" for g cause
  proof -
    have no: "\<not> list_ex (serves_guami g) (ad_served_guami a)" if "a \<in> set (gi_ngap_amf_head G)" for a
      using assms(4) that mcc [OF \<open>fr_guami req = Some g\<close>] by (fastforce simp: serves_guami_def plmn_of_guami_def list_ex_iff)
    have "amf_first (\<lambda>a. Inr (amf_ready cause a \<and> list_ex (serves_guami g) (ad_served_guami a))) as k = Inr None"
      if "set as \<subseteq> set (gi_ngap_amf_head G)" for as k using that no by (induction as arbitrary: k) auto
    then show ?thesis by (simp add: ngap_gNB_nnsf_select_amf_by_guami_def)
  qed
  then show ?thesis using st by (cases "fr_guami req") (simp_all add: nas_first_amf_def Let_def)
qed

theorem registered_amf_has_no_effect_witness:
  "\<exists>S1 req. rrc_gNB_send_NGAP_NAS_FIRST_REQ example_cu 0x4601 example_context
       (example_setup\<lparr>sc_registeredAMF := Some \<lparr>ra_plmn_Identity = Some (Some [2, 0, 8], [9, 3]), ra_amf_Identifier = ([1, 0, 0], 0)\<rparr>\<rparr>) =
       Inr (S1, [NGAP_NAS_FIRST_REQ req]) \<and> fr_guami req \<noteq> None \<and>
     nas_first_amf example_gnb req = nas_first_amf example_gnb (req\<lparr>fr_guami := None\<rparr>)"
proof -
  define sc where "sc = example_setup\<lparr>sc_registeredAMF :=
    Some \<lparr>ra_plmn_Identity = Some (Some [2, 0, 8], [9, 3]), ra_amf_Identifier = ([1, 0, 0], 0)\<rparr>\<rparr>"
  obtain T N where rep: "ids_rep example_cu T N" using example_cu_rep by blast
  have c: "un_establishment_cause ((rg_ue example_cu (uc_addr example_context))\<lparr>un_ue_initial_id := j\<rparr>) = 4" for j
    by (simp add: example_cu_def zero_rrc_ue_ngap_def)
  obtain S1 req where S1: "rrc_gNB_send_NGAP_NAS_FIRST_REQ example_cu 0x4601 example_context sc = Inr (S1, [NGAP_NAS_FIRST_REQ req])"
    "fr_guami req \<noteq> None"
    using first_req_run [OF rep refl refl, of "0x4601" example_context sc] unfolding c
    by (auto simp: NGAP_RRC_CAUSE_LAST_def sc_def example_setup_def registered_guami_def digit_at_def BIT_STRING_to_uint32_def)
  have "\<forall>ra mcc mnc. sc_registeredAMF sc = Some ra \<and> ra_plmn_Identity ra = Some (Some mcc, mnc) \<longrightarrow> (\<forall>d\<in>set mcc. d < 10)"
    by (simp add: sc_def)
  moreover have "\<forall>a\<in>set (gi_ngap_amf_head example_gnb). \<forall>sg\<in>set (ad_served_guami a). \<forall>p\<in>set (sg_served_plmns sg). 10 \<le> pi_mcc p"
    by code_simp
  ultimately show ?thesis using registered_amf_has_no_effect [OF example_cu_history S1(1)] S1 unfolding sc_def by blast
qed

end
