(* ===== verification/Msg_Queue.thy ===== *)
theory Msg_Queue
  imports Pdcp_Api_Props
begin

text \<open>
  The two queues between threads in \<open>nr_pdcp_oai_api.c\<close>: \<open>rlc_data_req\<close> requests, which decouple
  PDCP from the lock of RLC, and \<open>pdcp_data_ind\<close> indications.  Both are rings of 10000 slots with
  any number of producers and one consumer thread.  Every critical section is one step.  The
  consumer reads the index of the first item under the lock, works on the slot without it, and only
  then takes the item out, so producers run in between.  A thread that waits for its condition takes
  no step until the condition holds.
\<close>

subsection \<open>The ring\<close>

record 'a ring =
  rq_q :: "'a list"
  rq_start :: nat
  rq_length :: nat

definition RLC_DATA_REQ_QUEUE_SIZE :: nat where "RLC_DATA_REQ_QUEUE_SIZE = 10000"

definition PDCP_DATA_IND_QUEUE_SIZE :: nat where "PDCP_DATA_IND_QUEUE_SIZE = 10000"

text \<open>The critical section of a producer; \<open>None\<close>: it waits, as the ring is full.\<close>

definition ring_enqueue :: "nat \<Rightarrow> 'a ring \<Rightarrow> 'a \<Rightarrow> 'a ring option" where
  "ring_enqueue N r x =
     (if rq_length r = N then None
      else
        let i = (rq_start r + rq_length r) mod N in
        Some (r\<lparr>rq_length := rq_length r + 1, rq_q := (rq_q r)[i := x]\<rparr>))"

text \<open>The two critical sections of the consumer; \<open>None\<close>: it waits, as the ring is empty.\<close>

definition ring_first :: "'a ring \<Rightarrow> nat option" where
  "ring_first r = (if rq_length r = 0 then None else Some (rq_start r))"

definition ring_dequeue :: "nat \<Rightarrow> 'a ring \<Rightarrow> 'a ring" where
  "ring_dequeue N r = r\<lparr>rq_length := rq_length r - 1, rq_start := (rq_start r + 1) mod N\<rparr>"

subsection \<open>Items and producers\<close>

record rlc_data_req_queue_item =
  rd_ctxt :: protocol_ctxt
  rd_srb_flag :: bool
  rd_MBMS_flag :: bool
  rd_rb_id :: int
  rd_mui :: int
  rd_confirm :: int
  rd_sdu :: bytes

record pdcp_data_ind_queue_item =
  pi_ctxt :: protocol_ctxt
  pi_srb_flag :: bool
  pi_MBMS_flag :: bool
  pi_rb_id :: int
  pi_sdu_buffer :: bytes

definition enqueue_rlc_data_req ::
    "rlc_data_req_queue_item ring \<Rightarrow> protocol_ctxt \<Rightarrow> bool \<Rightarrow> bool \<Rightarrow> int \<Rightarrow> int \<Rightarrow> int \<Rightarrow> bytes \<Rightarrow>
     rlc_data_req_queue_item ring option" where
  "enqueue_rlc_data_req q ctxt srb_flag MBMS_flag rb_id mui confirm sdu =
     ring_enqueue RLC_DATA_REQ_QUEUE_SIZE q
       \<lparr>rd_ctxt = ctxt, rd_srb_flag = srb_flag, rd_MBMS_flag = MBMS_flag, rd_rb_id = rb_id, rd_mui = mui,
        rd_confirm = confirm, rd_sdu = sdu\<rparr>"

definition du_rlc_data_req ::
    "rlc_data_req_queue_item ring \<Rightarrow> protocol_ctxt \<Rightarrow> bool \<Rightarrow> bool \<Rightarrow> int \<Rightarrow> int \<Rightarrow> int \<Rightarrow> bytes \<Rightarrow>
     rlc_data_req_queue_item ring option" where
  "du_rlc_data_req = enqueue_rlc_data_req"

definition enqueue_pdcp_data_ind ::
    "pdcp_data_ind_queue_item ring \<Rightarrow> protocol_ctxt \<Rightarrow> bool \<Rightarrow> bool \<Rightarrow> int \<Rightarrow> bytes \<Rightarrow>
     pdcp_data_ind_queue_item ring option" where
  "enqueue_pdcp_data_ind pq ctxt srb_flag MBMS_flag rb_id sdu_buffer =
     ring_enqueue PDCP_DATA_IND_QUEUE_SIZE pq
       \<lparr>pi_ctxt = ctxt, pi_srb_flag = srb_flag, pi_MBMS_flag = MBMS_flag, pi_rb_id = rb_id,
        pi_sdu_buffer = sdu_buffer\<rparr>"

text \<open>Both return true once the item is in the queue.\<close>

definition pdcp_data_ind ::
    "pdcp_data_ind_queue_item ring \<Rightarrow> protocol_ctxt \<Rightarrow> bool \<Rightarrow> bool \<Rightarrow> int \<Rightarrow> bytes \<Rightarrow>
     (pdcp_data_ind_queue_item ring \<times> bool) option" where
  "pdcp_data_ind pq ctxt srb_flag MBMS_flag rb_id sdu_buffer =
     map_option (\<lambda>q. (q, True)) (enqueue_pdcp_data_ind pq ctxt srb_flag MBMS_flag rb_id sdu_buffer)"

definition cu_f1u_data_req ::
    "pdcp_data_ind_queue_item ring \<Rightarrow> protocol_ctxt \<Rightarrow> bool \<Rightarrow> int \<Rightarrow> bytes \<Rightarrow>
     (pdcp_data_ind_queue_item ring \<times> bool) option" where
  "cu_f1u_data_req pq ctxt srb_flag rb_id sdu_buffer =
     pdcp_data_ind pq (ctxt\<lparr>cx_instance := 0\<rparr>) srb_flag False rb_id sdu_buffer"

text \<open>What the consumer threads do with an item.\<close>

definition handle_pdcp_data_ind ::
    "pdcp_env \<Rightarrow> pdcp_layer \<Rightarrow> pdcp_data_ind_queue_item \<Rightarrow> (pdcp_layer \<times> l2_msg list) res" where
  "handle_pdcp_data_ind E L x = do_pdcp_data_ind E L (pi_ctxt x) (pi_srb_flag x) (pi_rb_id x) (pi_sdu_buffer x)"

subsection \<open>The threads\<close>

datatype consumer = Waiting | Handling nat | Handled nat

text \<open>
  \<open>ts_sent\<close> and \<open>ts_done\<close> record the items that producers put in and that the consumer has
  handled.  The handler \<open>h\<close> works on a state of its own and outputs messages.
\<close>

record ('a, 's, 'o) threads =
  ts_ring :: "'a ring"
  ts_consumer :: consumer
  ts_state :: 's
  ts_out :: "'o list"
  ts_sent :: "'a list"
  ts_done :: "'a list"

text \<open>One critical section or one run of the handler by the consumer thread.\<close>

inductive consumer_step ::
    "nat \<Rightarrow> ('s \<Rightarrow> 'a \<Rightarrow> ('s \<times> 'o list) res) \<Rightarrow> ('a, 's, 'o) threads \<Rightarrow> ('a, 's, 'o) threads \<Rightarrow> bool" for N h where
  fetch: "ts_consumer t = Waiting \<Longrightarrow> ring_first (ts_ring t) = Some i \<Longrightarrow>
    consumer_step N h t (t\<lparr>ts_consumer := Handling i\<rparr>)"
| handle: "ts_consumer t = Handling i \<Longrightarrow> h (ts_state t) (rq_q (ts_ring t) ! i) = Inr (s, ms) \<Longrightarrow>
    consumer_step N h t (t\<lparr>ts_consumer := Handled i, ts_state := s, ts_out := ts_out t @ ms,
      ts_done := ts_done t @ [rq_q (ts_ring t) ! i]\<rparr>)"
| release: "ts_consumer t = Handled i \<Longrightarrow>
    consumer_step N h t (t\<lparr>ts_consumer := Waiting, ts_ring := ring_dequeue N (ts_ring t)\<rparr>)"

inductive producer_step :: "nat \<Rightarrow> ('a, 's, 'o) threads \<Rightarrow> ('a, 's, 'o) threads \<Rightarrow> bool" for N where
  put: "ring_enqueue N (ts_ring t) x = Some r \<Longrightarrow>
    producer_step N t (t\<lparr>ts_ring := r, ts_sent := ts_sent t @ [x]\<rparr>)"

definition threads_init :: "'a list \<Rightarrow> 's \<Rightarrow> ('a, 's, 'o) threads" where
  "threads_init q s = \<lparr>ts_ring = \<lparr>rq_q = q, rq_start = 0, rq_length = 0\<rparr>, ts_consumer = Waiting,
     ts_state = s, ts_out = [], ts_sent = [], ts_done = []\<rparr>"

inductive threads_run ::
    "nat \<Rightarrow> ('s \<Rightarrow> 'a \<Rightarrow> ('s \<times> 'o list) res) \<Rightarrow> ('a, 's, 'o) threads \<Rightarrow> ('a, 's, 'o) threads \<Rightarrow> bool" for N h t0 where
  start: "threads_run N h t0 t0"
| consumer: "threads_run N h t0 t \<Longrightarrow> consumer_step N h t t' \<Longrightarrow> threads_run N h t0 t'"
| producer: "threads_run N h t0 t \<Longrightarrow> producer_step N t t' \<Longrightarrow> threads_run N h t0 t'"

subsection \<open>The interface of a queue\<close>

text \<open>What the threads rely on: a bounded FIFO whose first slot producers do not touch.\<close>

locale bounded_fifo =
  fixes items :: "'r \<Rightarrow> 'a list"
    and put :: "'r \<Rightarrow> 'a \<Rightarrow> 'r option"
    and front :: "'r \<Rightarrow> nat option"
    and slot :: "'r \<Rightarrow> nat \<Rightarrow> 'a"
    and take_out :: "'r \<Rightarrow> 'r"
    and inv :: "'r \<Rightarrow> bool"
    and cap :: nat
  assumes put_items: "inv r \<Longrightarrow> put r x = Some r' \<Longrightarrow> inv r' \<and> items r' = items r @ [x]"
    and put_full: "inv r \<Longrightarrow> put r x = None \<longleftrightarrow> length (items r) = cap"
    and bounded: "inv r \<Longrightarrow> length (items r) \<le> cap"
    and front_empty: "inv r \<Longrightarrow> front r = None \<longleftrightarrow> items r = []"
    and front_slot: "inv r \<Longrightarrow> front r = Some i \<Longrightarrow> slot r i = hd (items r)"
    and put_front: "inv r \<Longrightarrow> front r = Some i \<Longrightarrow> put r x = Some r' \<Longrightarrow> front r' = Some i"
    and take_items: "inv r \<Longrightarrow> items r \<noteq> [] \<Longrightarrow> inv (take_out r) \<and> items (take_out r) = tl (items r)"
begin

lemma front_stable:
  assumes "inv r" "front r = Some i" "put r x = Some r'"
  shows "slot r' i = slot r i"
proof -
  have "inv r'" "items r' = items r @ [x]" using put_items [OF assms(1,3)] by auto
  moreover have "items r \<noteq> []" using front_empty [OF assms(1)] assms(2) by auto
  ultimately show ?thesis
    using front_slot [OF _ put_front [OF assms]] front_slot [OF assms(1,2)] by simp
qed

lemma take_bounded: "inv r \<Longrightarrow> items r \<noteq> [] \<Longrightarrow> length (items (take_out r)) < cap"
  using take_items [of r] bounded [of r] by (cases "items r") auto

lemma put_after_take: "inv r \<Longrightarrow> items r \<noteq> [] \<Longrightarrow> put (take_out r) x \<noteq> None"
  using put_full [of "take_out r" x] take_items [of r] take_bounded [of r] by auto

end

definition ring_items :: "nat \<Rightarrow> 'a ring \<Rightarrow> 'a list" where
  "ring_items N r = map (\<lambda>k. rq_q r ! ((rq_start r + k) mod N)) [0..<rq_length r]"

definition ring_inv :: "nat \<Rightarrow> 'a ring \<Rightarrow> bool" where
  "ring_inv N r \<longleftrightarrow> 0 < N \<and> length (rq_q r) = N \<and> rq_start r < N \<and> rq_length r \<le> N"

lemma ring_slots_differ:
  fixes s :: nat
  assumes "k < l" "l < N"
  shows "(s + k) mod N \<noteq> (s + l) mod N"
proof
  assume "(s + k) mod N = (s + l) mod N"
  then have "(s + l - (s + k)) mod N = 0" using assms by (intro mod_eq_dvd_iff_nat [THEN iffD1, THEN dvd_imp_mod_0]) auto
  then show False using assms by simp
qed

interpretation ring: bounded_fifo "ring_items N" "ring_enqueue N" ring_first "\<lambda>r i. rq_q r ! i" "ring_dequeue N"
    "ring_inv N" N for N
proof
  fix r r' :: "'a ring" and x i
  assume inv: "ring_inv N r"
  let ?j = "(rq_start r + rq_length r) mod N"
  show "length (ring_items N r) \<le> N" using inv by (simp add: ring_items_def ring_inv_def)
  show "ring_enqueue N r x = None \<longleftrightarrow> length (ring_items N r) = N" by (simp add: ring_enqueue_def ring_items_def Let_def)
  show "ring_first r = None \<longleftrightarrow> ring_items N r = []" by (simp add: ring_first_def ring_items_def)
  show "rq_q r ! i = hd (ring_items N r)" if "ring_first r = Some i"
    using that inv by (auto simp: ring_first_def ring_items_def ring_inv_def hd_map upt_conv_Cons split: if_splits)
  show "ring_first r' = Some i" if "ring_first r = Some i" "ring_enqueue N r x = Some r'"
    using that by (auto simp: ring_first_def ring_enqueue_def Let_def split: if_splits)
  show "ring_inv N r' \<and> ring_items N r' = ring_items N r @ [x]" if put: "ring_enqueue N r x = Some r'"
  proof -
    have r': "r' = r\<lparr>rq_length := rq_length r + 1, rq_q := (rq_q r)[?j := x]\<rparr>" and lt: "rq_length r < N"
      using put inv by (auto simp: ring_enqueue_def ring_inv_def Let_def split: if_splits)
    have "(rq_q r)[?j := x] ! ((rq_start r + k) mod N) = rq_q r ! ((rq_start r + k) mod N)" if "k < rq_length r" for k
      using ring_slots_differ [OF that lt] by (metis nth_list_update_neq)
    then show ?thesis using inv lt by (auto simp: r' ring_inv_def ring_items_def)
  qed
  show "ring_inv N (ring_dequeue N r) \<and> ring_items N (ring_dequeue N r) = tl (ring_items N r)" if ne: "ring_items N r \<noteq> []"
  proof -
    obtain l where l: "rq_length r = Suc l" using ne by (cases "rq_length r") (auto simp: ring_items_def)
    have "(Suc (rq_start r) mod N + k) mod N = (rq_start r + Suc k) mod N" for k by (simp add: mod_add_left_eq)
    then have "ring_items N (ring_dequeue N r) = map (\<lambda>k. rq_q r ! ((rq_start r + Suc k) mod N)) [0..<l]"
      by (simp add: ring_items_def ring_dequeue_def l)
    also have "\<dots> = tl (ring_items N r)"
      unfolding ring_items_def l map_tl [symmetric] tl_upt map_Suc_upt [symmetric] by simp
    finally have "ring_items N (ring_dequeue N r) = tl (ring_items N r)" .
    moreover have "ring_inv N (ring_dequeue N r)" using inv by (auto simp: ring_inv_def ring_dequeue_def)
    ultimately show ?thesis by blast
  qed
qed

subsection \<open>Invariant of the threads\<close>

text \<open>What is sent and not handled yet, in order.\<close>

definition pending :: "nat \<Rightarrow> ('a, 's, 'o) threads \<Rightarrow> 'a list" where
  "pending N t = (case ts_consumer t of Handled i \<Rightarrow> tl (ring_items N (ts_ring t)) | _ \<Rightarrow> ring_items N (ts_ring t))"

definition threads_inv ::
    "nat \<Rightarrow> ('s \<Rightarrow> 'a \<Rightarrow> ('s \<times> 'o list) res) \<Rightarrow> 's \<Rightarrow> ('a, 's, 'o) threads \<Rightarrow> bool" where
  "threads_inv N h s0 t \<longleftrightarrow> ring_inv N (ts_ring t) \<and>
     (\<forall>i. ts_consumer t = Handling i \<or> ts_consumer t = Handled i \<longrightarrow> ring_first (ts_ring t) = Some i) \<and>
     ts_sent t = ts_done t @ pending N t \<and> run_ops h s0 (ts_done t) = Inr (ts_state t, ts_out t)"

lemma consumer_step_inv:
  assumes "consumer_step N h t t'" "threads_inv N h s0 t"
  shows "threads_inv N h s0 t'"
  using assms(1)
proof cases
  case (fetch i)
  then show ?thesis using assms(2) by (auto simp: threads_inv_def pending_def)
next
  case (handle i s ms)
  have inv: "ring_inv N (ts_ring t)" "ring_first (ts_ring t) = Some i" using assms(2) handle by (auto simp: threads_inv_def)
  then have "ring_items N (ts_ring t) = rq_q (ts_ring t) ! i # tl (ring_items N (ts_ring t))"
    using ring.front_slot [OF inv] ring.front_empty [OF inv(1)] by (metis list.collapse option.distinct(1))
  then show ?thesis
    using assms(2) handle inv run_ops_snoc [of h s0 "ts_done t" "ts_state t" "ts_out t"]
    by (auto simp: threads_inv_def pending_def)
next
  case (release i)
  have inv: "ring_inv N (ts_ring t)" "ring_first (ts_ring t) = Some i" using assms(2) release by (auto simp: threads_inv_def)
  then show ?thesis
    using assms(2) release ring.take_items [OF inv(1)] ring.front_empty [OF inv(1)] by (auto simp: threads_inv_def pending_def)
qed

lemma producer_step_inv:
  assumes "producer_step N t t'" "threads_inv N h s0 t"
  shows "threads_inv N h s0 t'"
  using assms(1)
proof cases
  case (put x r)
  have inv: "ring_inv N (ts_ring t)" using assms(2) by (simp add: threads_inv_def)
  have r: "ring_inv N r" "ring_items N r = ring_items N (ts_ring t) @ [x]" using ring.put_items [OF inv put(2)] by auto
  have f: "ring_first (ts_ring t) = Some i \<Longrightarrow> ring_first r = Some i" for i by (rule ring.put_front [OF inv _ put(2)])
  have "ring_items N (ts_ring t) \<noteq> []" if "ts_consumer t = Handled i" for i
    using assms(2) that ring.front_empty [OF inv] by (auto simp: threads_inv_def)
  then have "pending N t' = pending N t @ [x]"
    using put r by (cases "ts_consumer t") (auto simp: pending_def tl_append2)
  then show ?thesis using assms(2) put r f by (auto simp: threads_inv_def)
qed

lemma threads_run_inv:
  assumes "threads_run N h (threads_init q s0) t" "0 < N" "length q = N"
  shows "threads_inv N h s0 t"
  using assms(1)
proof induction
  case start
  then show ?case
    using assms(2,3) by (simp add: threads_inv_def threads_init_def ring_inv_def pending_def ring_items_def)
qed (blast intro: consumer_step_inv producer_step_inv)+

text \<open>
  The consumer alone empties the queue, unless its handler faults on an item, on which the thread
  then stays.
\<close>

definition pending_steps :: "nat \<Rightarrow> ('a, 's, 'o) threads \<Rightarrow> nat" where
  "pending_steps N t = 3 * length (pending N t) +
     (case ts_consumer t of Waiting \<Rightarrow> 0 | Handling i \<Rightarrow> 0 | Handled i \<Rightarrow> 1) -
     (case ts_consumer t of Handling i \<Rightarrow> 1 | _ \<Rightarrow> 0)"

definition handler_faults :: "('s \<Rightarrow> 'a \<Rightarrow> ('s \<times> 'o list) res) \<Rightarrow> ('a, 's, 'o) threads \<Rightarrow> bool" where
  "handler_faults h t \<longleftrightarrow>
     (case ts_consumer t of Handling i \<Rightarrow> isl (h (ts_state t) (rq_q (ts_ring t) ! i)) | _ \<Rightarrow> False)"

lemma threads_inv_handling:
  assumes "threads_inv N h s0 t" "ts_consumer t = Handling i"
  shows "pending N t = rq_q (ts_ring t) ! i # tl (ring_items N (ts_ring t))"
proof -
  have r: "ring_inv N (ts_ring t)" "ring_first (ts_ring t) = Some i" using assms by (auto simp: threads_inv_def)
  then have "ring_items N (ts_ring t) = rq_q (ts_ring t) ! i # tl (ring_items N (ts_ring t))"
    using ring.front_slot [OF r] ring.front_empty [OF r(1)] by (metis list.collapse option.distinct(1))
  then show ?thesis using assms(2) by (simp add: pending_def)
qed

lemma consumer_progress:
  assumes inv: "threads_inv N h s0 t" and ok: "\<not> handler_faults h t"
    and more: "pending N t \<noteq> [] \<or> ts_consumer t \<noteq> Waiting"
  shows "\<exists>t'. consumer_step N h t t' \<and> ts_sent t' = ts_sent t \<and> pending_steps N t = Suc (pending_steps N t')"
proof (cases "ts_consumer t")
  case Waiting
  have r: "ring_inv N (ts_ring t)" using inv by (simp add: threads_inv_def)
  obtain i where i: "ring_first (ts_ring t) = Some i"
    using ring.front_empty [OF r] more Waiting by (auto simp: pending_def)
  have "length (pending N t) > 0" using more Waiting by auto
  then show ?thesis
    using consumer_step.fetch [OF Waiting i, of N h] Waiting
    by (intro exI [of _ "t\<lparr>ts_consumer := Handling i\<rparr>"]) (auto simp: pending_def pending_steps_def)
next
  case (Handling i)
  obtain s ms where s: "h (ts_state t) (rq_q (ts_ring t) ! i) = Inr (s, ms)"
    using ok Handling by (auto simp: handler_faults_def isl_def split: sum.splits)
      (metis old.sum.exhaust surj_pair)
  let ?t = "t\<lparr>ts_consumer := Handled i, ts_state := s, ts_out := ts_out t @ ms,
      ts_done := ts_done t @ [rq_q (ts_ring t) ! i]\<rparr>"
  have "pending N ?t = tl (ring_items N (ts_ring t))" by (simp add: pending_def)
  then show ?thesis
    using consumer_step.handle [of t i h s ms N] s Handling threads_inv_handling [OF inv Handling]
    by (intro exI [of _ ?t]) (auto simp: pending_steps_def)
next
  case (Handled i)
  have r: "ring_inv N (ts_ring t)" "ring_first (ts_ring t) = Some i" using inv Handled by (auto simp: threads_inv_def)
  then have "ring_items N (ring_dequeue N (ts_ring t)) = tl (ring_items N (ts_ring t))"
    using ring.take_items [OF r(1)] ring.front_empty [OF r(1)] by auto
  then have "pending N (t\<lparr>ts_consumer := Waiting, ts_ring := ring_dequeue N (ts_ring t)\<rparr>) = pending N t"
    using Handled by (simp add: pending_def)
  then show ?thesis
    using consumer_step.release [OF Handled, of N h] Handled
    by (intro exI [of _ "t\<lparr>ts_consumer := Waiting, ts_ring := ring_dequeue N (ts_ring t)\<rparr>"])
      (auto simp: pending_steps_def)
qed

lemma consumer_grows:
  assumes "consumer_step N h t t'"
  shows "\<exists>zs os. ts_done t' = ts_done t @ zs \<and> ts_out t' = ts_out t @ os \<and>
     run_ops h (ts_state t) zs = Inr (ts_state t', os)"
  using assms
proof cases
  case (handle i s ms)
  then show ?thesis by (intro exI [of _ "[rq_q (ts_ring t) ! i]"] exI [of _ ms]) simp
qed auto

lemma consumer_drains:
  assumes "threads_inv N h s0 t"
  shows "\<exists>n t' zs os. n \<le> pending_steps N t \<and> (consumer_step N h ^^ n) t t' \<and> ts_sent t' = ts_sent t \<and>
     threads_inv N h s0 t' \<and> ts_done t' = ts_done t @ zs \<and> ts_out t' = ts_out t @ os \<and>
     run_ops h (ts_state t) zs = Inr (ts_state t', os) \<and>
     (handler_faults h t' \<or> pending N t' = [] \<and> ts_consumer t' = Waiting)"
  using assms
proof (induction "pending_steps N t" arbitrary: t rule: less_induct)
  case less
  show ?case
  proof (cases "handler_faults h t \<or> pending N t = [] \<and> ts_consumer t = Waiting")
    case True
    then show ?thesis using less.prems by (intro exI [of _ 0] exI [of _ t] exI [of _ "[]"]) simp
  next
    case False
    then obtain t1 where t1: "consumer_step N h t t1" "ts_sent t1 = ts_sent t" "pending_steps N t = Suc (pending_steps N t1)"
      using consumer_progress [OF less.prems] by blast
    obtain zs1 os1 where g: "ts_done t1 = ts_done t @ zs1" "ts_out t1 = ts_out t @ os1"
        "run_ops h (ts_state t) zs1 = Inr (ts_state t1, os1)" using consumer_grows [OF t1(1)] by blast
    have "pending_steps N t1 < pending_steps N t" using t1(3) by simp
    from less.hyps [OF this consumer_step_inv [OF t1(1) less.prems]]
    obtain n t' zs os where d: "n \<le> pending_steps N t1" "(consumer_step N h ^^ n) t1 t'" "ts_sent t' = ts_sent t1"
        "threads_inv N h s0 t'" "ts_done t' = ts_done t1 @ zs" "ts_out t' = ts_out t1 @ os"
        "run_ops h (ts_state t1) zs = Inr (ts_state t', os)"
        "handler_faults h t' \<or> pending N t' = [] \<and> ts_consumer t' = Waiting" by blast
    have "(consumer_step N h ^^ Suc n) t t'" by (rule relpowp_Suc_I2 [OF t1(1) d(2)])
    moreover have "run_ops h (ts_state t) (zs1 @ zs) = Inr (ts_state t', os1 @ os)"
      using g(3) d(7) by (simp add: run_ops_append)
    ultimately show ?thesis
      using t1 g d by (intro exI [of _ "Suc n"] exI [of _ t'] exI [of _ "zs1 @ zs"] exI [of _ "os1 @ os"]) simp
  qed
qed

subsection \<open>Properties\<close>

definition ex_run :: "nat \<Rightarrow> (nat, nat, nat) threads" where
  "ex_run c = \<lparr>ts_ring = \<lparr>rq_q = [5, 0], rq_start = 0, rq_length = 1\<rparr>,
     ts_consumer = (if c = 0 then Waiting else Handling 0), ts_state = 3, ts_out = [], ts_sent = [5], ts_done = []\<rparr>"

definition ex_handler :: "nat \<Rightarrow> nat \<Rightarrow> (nat \<times> nat list) res" where
  "ex_handler s x = Inr (s + x, [x])"

lemma ex_run_reached: "threads_run 2 ex_handler (threads_init [0, 0] 3) (ex_run 0)"
    "threads_run 2 ex_handler (threads_init [0, 0] 3) (ex_run 1)"
proof -
  let ?t0 = "threads_init [0, 0] 3 :: (nat, nat, nat) threads"
  have "producer_step 2 ?t0 (ex_run 0)"
    using producer_step.put [of 2 ?t0 5 "\<lparr>rq_q = [5, 0], rq_start = 0, rq_length = 1\<rparr>"]
    by (simp add: ring_enqueue_def threads_init_def ex_run_def)
  then show r: "threads_run 2 ex_handler ?t0 (ex_run 0)" by (rule threads_run.producer [OF threads_run.start])
  have "consumer_step 2 ex_handler (ex_run 0) (ex_run 1)"
    using consumer_step.fetch [of "ex_run 0" 0 2 ex_handler] by (simp add: ring_first_def ex_run_def)
  then show "threads_run 2 ex_handler ?t0 (ex_run 1)" by (rule threads_run.consumer [OF r])
qed

text \<open>
  C8: a queue between threads is a bounded FIFO under every interleaving.  Whatever the producers and
  the consumer thread do, the handled items are a prefix of the items that were put in, in that
  order and each once; the rest is in the ring, which never holds more than its size; and the
  handler's state and output are those of handling that prefix one item after the other.
\<close>

theorem queue_handles_in_order:
  assumes "threads_run N h (threads_init q s0) t" "0 < N" "length q = N"
  shows "ts_sent t = ts_done t @ pending N t \<and> length (pending N t) \<le> N \<and>
    run_ops h s0 (ts_done t) = Inr (ts_state t, ts_out t)"
proof -
  have inv: "threads_inv N h s0 t" by (rule threads_run_inv [OF assms])
  then have "length (ring_items N (ts_ring t)) \<le> N" using ring.bounded by (auto simp: threads_inv_def)
  then have "length (pending N t) \<le> N" by (auto simp: pending_def split: consumer.splits)
  then show ?thesis using inv by (simp add: threads_inv_def)
qed

theorem queue_handles_in_order_witness:
  "ts_sent (ex_run 0) = ts_done (ex_run 0) @ pending 2 (ex_run 0) \<and> pending 2 (ex_run 0) = [5]"
  using queue_handles_in_order [OF ex_run_reached(1)] by (simp add: ex_run_def)

text \<open>
  C33: the consumer may work on its slot without the lock.  From the moment it has read the index until
  it takes the item out, no producer writes to that slot or moves the front of the ring, even if
  the ring fills up meanwhile.
\<close>

theorem slot_not_overwritten:
  assumes "threads_run N h (threads_init q s0) t" "0 < N" "length q = N"
    and "ts_consumer t = Handling i \<or> ts_consumer t = Handled i" "producer_step N t t'"
  shows "rq_q (ts_ring t') ! i = rq_q (ts_ring t) ! i \<and> ring_first (ts_ring t') = Some i"
proof -
  have inv: "threads_inv N h s0 t" by (rule threads_run_inv [OF assms(1-3)])
  then have r: "ring_inv N (ts_ring t)" "ring_first (ts_ring t) = Some i" using assms(4) by (auto simp: threads_inv_def)
  show ?thesis using assms(5)
  proof cases
    case (put x r')
    then show ?thesis using ring.front_stable [OF r put(2)] ring.put_front [OF r put(2)] by simp
  qed
qed

theorem slot_not_overwritten_witness:
  "producer_step 2 (ex_run 1) ((ex_run 1)\<lparr>ts_ring := \<lparr>rq_q = [5, 8], rq_start = 0, rq_length = 2\<rparr>, ts_sent := [5, 8]\<rparr>) \<and>
   rq_q (ts_ring ((ex_run 1)\<lparr>ts_ring := \<lparr>rq_q = [5, 8], rq_start = 0, rq_length = 2\<rparr>, ts_sent := [5, 8]\<rparr>)) ! 0 =
     rq_q (ts_ring (ex_run 1)) ! 0"
proof -
  let ?t = "(ex_run 1)\<lparr>ts_ring := \<lparr>rq_q = [5, 8], rq_start = 0, rq_length = 2\<rparr>, ts_sent := [5, 8]\<rparr>"
  have p: "producer_step 2 (ex_run 1) ?t"
    using producer_step.put [of 2 "ex_run 1" 8 "\<lparr>rq_q = [5, 8], rq_start = 0, rq_length = 2\<rparr>"]
    by (simp add: ring_enqueue_def ex_run_def)
  have "ts_consumer (ex_run 1) = Handling 0" by (simp add: ex_run_def)
  then show ?thesis using slot_not_overwritten [OF ex_run_reached(2) _ _ _ p] p by simp
qed

text \<open>
  C34: the queue drains or stops at the fault.  Take any reachable state and let the consumer run alone; it
  needs at most three steps per item plus one.  If handling the pending items one after the other succeeds, it
  handles all that was put in, with exactly that outcome, and then waits on a ring with room for the producers.
  If one of them faults, the items before it are handled and the thread stands at the very item on which the
  handler faults, still in the ring with all that follow it; what follows is not handled.
\<close>

theorem queue_drains:
  assumes "threads_run N h (threads_init q s0) t" "0 < N" "length q = N"
  shows "\<exists>n t'. n \<le> 3 * length (pending N t) + 1 \<and> (consumer_step N h ^^ n) t t' \<and> ts_sent t' = ts_sent t \<and>
    (case run_ops h (ts_state t) (pending N t) of
       Inr (s, out) \<Rightarrow> ts_done t' = ts_sent t \<and> ts_state t' = s \<and> ts_out t' = ts_out t @ out \<and>
         ts_consumer t' = Waiting \<and> ring_enqueue N (ts_ring t') x \<noteq> None
     | Inl f \<Rightarrow> \<exists>i xs y ys. pending N t = xs @ y # ys \<and> pending N t' = y # ys \<and>
         run_ops h (ts_state t) xs = Inr (ts_state t', drop (length (ts_out t)) (ts_out t')) \<and>
         ts_consumer t' = Handling i \<and> rq_q (ts_ring t') ! i = y \<and> h (ts_state t') y = Inl f)"
proof -
  have inv: "threads_inv N h s0 t" by (rule threads_run_inv [OF assms])
  obtain n t' zs os where d: "n \<le> pending_steps N t" "(consumer_step N h ^^ n) t t'" "ts_sent t' = ts_sent t"
     "threads_inv N h s0 t'" "ts_done t' = ts_done t @ zs" "ts_out t' = ts_out t @ os"
     "run_ops h (ts_state t) zs = Inr (ts_state t', os)" "handler_faults h t' \<or> pending N t' = [] \<and> ts_consumer t' = Waiting"
    using consumer_drains [OF inv] by blast
  have n: "n \<le> 3 * length (pending N t) + 1"
    by (rule order_trans [OF d(1)]) (auto simp: pending_steps_def split: consumer.splits)
  have p: "pending N t = zs @ pending N t'" using inv d(3-5) by (simp add: threads_inv_def)
  show ?thesis
  proof (cases "handler_faults h t'")
    case True
    then obtain i f where i: "ts_consumer t' = Handling i" "h (ts_state t') (rq_q (ts_ring t') ! i) = Inl f"
      by (auto simp: handler_faults_def isl_def split: consumer.splits)
    obtain ys where ys: "pending N t' = rq_q (ts_ring t') ! i # ys" using threads_inv_handling [OF d(4) i(1)] by blast
    have "run_ops h (ts_state t) (pending N t) = Inl f" using p d(7) ys i(2) by (simp add: run_ops_append)
    moreover have "run_ops h (ts_state t) zs = Inr (ts_state t', drop (length (ts_out t)) (ts_out t'))" using d(6,7) by simp
    ultimately show ?thesis using n d(2,3) i ys p by (intro exI [of _ n] exI [of _ t']) auto
  next
    case False
    then have e: "pending N t' = []" "ts_consumer t' = Waiting" using d(8) by auto
    have "ring_inv N (ts_ring t')" "ring_items N (ts_ring t') = []" using d(4) e by (auto simp: threads_inv_def pending_def)
    then have "ring_enqueue N (ts_ring t') x \<noteq> None" using ring.put_full [of N "ts_ring t'" x] assms(2) by simp
    moreover have "ts_done t' = ts_sent t" using d(3,4) e by (simp add: threads_inv_def)
    moreover have "run_ops h (ts_state t) (pending N t) = Inr (ts_state t', os)" using p d(7) e by simp
    ultimately show ?thesis using n d(2,3,6) e(2) by (intro exI [of _ n] exI [of _ t']) simp
  qed
qed

definition ex_item :: "int \<Rightarrow> pdcp_data_ind_queue_item" where
  "ex_item rb_id = \<lparr>pi_ctxt = rlc_ctxt 7, pi_srb_flag = False, pi_MBMS_flag = False, pi_rb_id = rb_id,
     pi_sdu_buffer = [0x80, 0, 0, 1, 2, 3, 4, 5, 6]\<rparr>"

definition one_item :: "nat \<Rightarrow> 'a \<Rightarrow> 's \<Rightarrow> ('a, 's, 'o) threads" where
  "one_item N x s0 = (threads_init (replicate N x) s0)
     \<lparr>ts_ring := \<lparr>rq_q = replicate N x, rq_start = 0, rq_length = 1\<rparr>, ts_sent := [x]\<rparr>"

lemma one_item_queued:
  fixes h :: "'s \<Rightarrow> 'a \<Rightarrow> ('s \<times> 'o list) res"
  assumes N: "0 < N"
  shows "threads_run N h (threads_init (replicate N x) s0) (one_item N x s0)"
    "pending N (one_item N x s0 :: ('a, 's, 'o) threads) = [x]"
proof -
  let ?t0 = "threads_init (replicate N x) s0 :: ('a, 's, 'o) threads"
  have "(replicate N x)[0 := x] = replicate N x" using N by (cases N) simp_all
  then have "producer_step N ?t0 (one_item N x s0)"
    using producer_step.put [of N ?t0 x "\<lparr>rq_q = replicate N x, rq_start = 0, rq_length = 1\<rparr>"] N
    by (simp add: ring_enqueue_def threads_init_def one_item_def)
  then show "threads_run N h ?t0 (one_item N x s0)" by (rule threads_run.producer [OF threads_run.start])
  show "pending N (one_item N x s0 :: ('a, 's, 'o) threads) = [x]"
    using N by (simp add: one_item_def pending_def ring_items_def threads_init_def)
qed

theorem queue_drains_witness:
  "(\<exists>n t'. n \<le> 4 \<and>
      (consumer_step PDCP_DATA_IND_QUEUE_SIZE (handle_pdcp_data_ind (ex_env True)) ^^ n)
        (one_item PDCP_DATA_IND_QUEUE_SIZE (ex_item 1) (ex_layer True False)) t' \<and>
      ts_done t' = [ex_item 1] \<and> ts_out t' \<noteq> [] \<and> ts_consumer t' = Waiting) \<and>
   (\<exists>n t' i. n \<le> 4 \<and>
      (consumer_step PDCP_DATA_IND_QUEUE_SIZE (handle_pdcp_data_ind (ex_env True)) ^^ n)
        (one_item PDCP_DATA_IND_QUEUE_SIZE (ex_item 2) (ex_layer True False)) t' \<and>
      ts_consumer t' = Handling i \<and> handle_pdcp_data_ind (ex_env True) (ts_state t') (ex_item 2) = Inl Exit)"
proof -
  let ?h = "handle_pdcp_data_ind (ex_env True)" and ?L = "ex_layer True False" and ?N = PDCP_DATA_IND_QUEUE_SIZE
  have N: "0 < ?N" by (simp add: PDCP_DATA_IND_QUEUE_SIZE_def)
  note q = one_item_queued(1) [OF N, where h = ?h and ?s0.0 = ?L] one_item_queued(2) [OF N]
  have st: "ts_state (one_item ?N x ?L) = ?L" "ts_out (one_item ?N x ?L) = []" "ts_sent (one_item ?N x ?L) = [x]" for x
    by (simp_all add: one_item_def threads_init_def)
  have "\<not> isl (?h ?L (ex_item 1)) \<and> snd (projr (?h ?L (ex_item 1))) \<noteq> []" by code_simp
  then obtain L' ms where 1: "?h ?L (ex_item 1) = Inr (L', ms)" "ms \<noteq> []"
    by (cases "?h ?L (ex_item 1)") (auto simp: isl_def)
  have "fault_of (?h ?L (ex_item 2)) = Some Exit" by code_simp
  then have 2: "?h ?L (ex_item 2) = Inl Exit" by (simp add: fault_of_def split: sum.splits)
  note d = queue_drains [OF q(1) N length_replicate, where x = "ex_item 1", unfolded q(2) st]
  have single: "[x] = xs @ y # ys \<Longrightarrow> y = x" for x y :: pdcp_data_ind_queue_item and xs ys by (cases xs) auto
  show ?thesis
  proof (rule conjI)
    obtain n t' where "n \<le> 4" "(consumer_step ?N ?h ^^ n) (one_item ?N (ex_item 1) ?L) t'" "ts_done t' = [ex_item 1]"
        "ts_out t' = ms" "ts_consumer t' = Waiting"
      using d [of "ex_item 1"] 1 by auto
    then show "\<exists>n t'. n \<le> 4 \<and> (consumer_step ?N ?h ^^ n) (one_item ?N (ex_item 1) ?L) t' \<and>
      ts_done t' = [ex_item 1] \<and> ts_out t' \<noteq> [] \<and> ts_consumer t' = Waiting" using 1(2) by blast
    obtain n t' i xs y ys where "n \<le> 4" "(consumer_step ?N ?h ^^ n) (one_item ?N (ex_item 2) ?L) t'"
        "[ex_item 2] = xs @ y # ys" "ts_consumer t' = Handling i" "?h (ts_state t') y = Inl Exit"
      using d [of "ex_item 2"] 2 by auto
    then show "\<exists>n t' i. n \<le> 4 \<and> (consumer_step ?N ?h ^^ n) (one_item ?N (ex_item 2) ?L) t' \<and>
      ts_consumer t' = Handling i \<and> ?h (ts_state t') (ex_item 2) = Inl Exit" using single by blast
  qed
qed

end
