(* ===== verification/F1ap_Cu.thy ===== *)
theory F1ap_Cu
  imports F1ap_Ids Rrc_Ngap_Ids Pdcp_Api_Props Msg_Queue
begin

text \<open>
  F1AP at the CU: the dispatch of messages from the DU (\<open>f1ap_handlers.c\<close>, \<open>f1ap_decoder.c\<close>), the transfer of RRC messages
  (\<open>f1ap_cu_rrc_message_transfer.c\<close>) and the release of a UE (\<open>f1ap_cu_ue_context_management.c\<close>), on top of the
  tables of identities, the UE contexts of RRC and the PDCP layer.

  The node is an NR CU whose F1 set-up is done, so the cell type of its set-up request is \<open>CELL_MACRO_GNB\<close>; the branches
  for an LTE CU are left out.  A message is the list of its information elements; the generated ASN.1 encoder and decoder
  are parameters.  Messages to other tasks and the call of \<open>pdcp_data_ind\<close>, which queues its arguments for the PDCP
  thread, are outputs.
\<close>

subsection \<open>Data\<close>

datatype f1ap_cause =
  F1AP_CAUSE_NOTHING | F1AP_CAUSE_RADIO_NETWORK | F1AP_CAUSE_TRANSPORT | F1AP_CAUSE_PROTOCOL | F1AP_CAUSE_MISC

datatype f1ap_ie =
    IE_GNB_CU_UE_F1AP_ID int
  | IE_GNB_DU_UE_F1AP_ID int
  | IE_NRCGI bit_string
  | IE_C_RNTI int
  | IE_RRCContainer bytes
  | IE_DUtoCURRCContainer bytes
  | IE_SRBID int
  | IE_ExecuteDuplication
  | IE_Cause f1ap_cause int
  | IE_Other nat

text \<open>\<open>PR_choice_extension\<close> is the extension alternative, which comes after the three known ones.\<close>

datatype f1ap_present =
  PR_NOTHING | PR_initiatingMessage | PR_successfulOutcome | PR_unsuccessfulOutcome | PR_choice_extension

record f1ap_pdu =
  fp_present :: f1ap_present
  fp_procedureCode :: nat
  fp_ies :: "f1ap_ie list"

record f1ap_dl_rrc_message =
  dl_rnti :: u16
  dl_srb_id :: byte
  dl_execute_duplication :: bool
  dl_rrc_container :: bytes

record f1ap_ue_context_release =
  rc_rnti :: u16
  rc_cause :: f1ap_cause
  rc_cause_value :: int
  rc_rrc_container :: bytes

record nr_rrc_mac_ccch_data_ind =
  cd_frame :: u32
  cd_sub_frame :: byte
  cd_rnti :: u16
  cd_sdu_size :: u32
  cd_sdu :: bytes
  cd_du_to_cu_rrc_container :: "bytes option"
  cd_CC_id :: int
  cd_nr_cellid :: u64

datatype cu_out =
    NR_RRC_MAC_CCCH_DATA_IND nr_rrc_mac_ccch_data_ind
  | F1_SCTP_DATA_REQ int bytes nat
  | PDCP_DATA_IND pdcp_data_ind_queue_item
  | TO_NGAP rrc_out

record cu_node =
  cu_f1 :: f1ap_state
  cu_rrc :: rrc_gnb
  cu_pdcp :: pdcp_layer

definition CCCH_SDU_SIZE :: nat where
  "CCCH_SDU_SIZE = 1024"

text \<open>The conversion of an \<open>int\<close> to \<open>rnti_t\<close>; the -1 of an unknown identity becomes 0xFFFF.\<close>

definition rnti_of_int :: "int \<Rightarrow> u16" where
  "rnti_of_int x = word_of_int x"

subsection \<open>Information elements\<close>

text \<open>\<open>F1AP_FIND_PROTOCOLIE_BY_ID\<close>: the first element with an id; a mandatory one that is missing fails an assertion.\<close>

fun find_f1_ie :: "(f1ap_ie \<Rightarrow> 'a option) \<Rightarrow> f1ap_ie list \<Rightarrow> 'a option" where
  "find_f1_ie f [] = None"
| "find_f1_ie f (x # xs) = (case f x of Some y \<Rightarrow> Some y | None \<Rightarrow> find_f1_ie f xs)"

definition mandatory :: "(f1ap_ie \<Rightarrow> 'a option) \<Rightarrow> f1ap_ie list \<Rightarrow> 'a res" where
  "mandatory f ies = deref (find_f1_ie f ies) Exit"

definition cu_id_ie :: "f1ap_ie \<Rightarrow> int option" where
  "cu_id_ie x = (case x of IE_GNB_CU_UE_F1AP_ID i \<Rightarrow> Some i | _ \<Rightarrow> None)"

definition du_id_ie :: "f1ap_ie \<Rightarrow> int option" where
  "du_id_ie x = (case x of IE_GNB_DU_UE_F1AP_ID i \<Rightarrow> Some i | _ \<Rightarrow> None)"

definition nrcgi_ie :: "f1ap_ie \<Rightarrow> bit_string option" where
  "nrcgi_ie x = (case x of IE_NRCGI b \<Rightarrow> Some b | _ \<Rightarrow> None)"

definition c_rnti_ie :: "f1ap_ie \<Rightarrow> int option" where
  "c_rnti_ie x = (case x of IE_C_RNTI i \<Rightarrow> Some i | _ \<Rightarrow> None)"

definition rrc_container_ie :: "f1ap_ie \<Rightarrow> bytes option" where
  "rrc_container_ie x = (case x of IE_RRCContainer b \<Rightarrow> Some b | _ \<Rightarrow> None)"

definition du_to_cu_ie :: "f1ap_ie \<Rightarrow> bytes option" where
  "du_to_cu_ie x = (case x of IE_DUtoCURRCContainer b \<Rightarrow> Some b | _ \<Rightarrow> None)"

definition srb_id_ie :: "f1ap_ie \<Rightarrow> int option" where
  "srb_id_ie x = (case x of IE_SRBID i \<Rightarrow> Some i | _ \<Rightarrow> None)"

lemmas f1_ie_defs = mandatory_def cu_id_ie_def du_id_ie_def nrcgi_ie_def c_rnti_ie_def rrc_container_ie_def du_to_cu_ie_def srb_id_ie_def

text \<open>
  The octets are promoted to \<open>int\<close>, so the shifts are those of 32 bits, and the result is extended by its sign to the 64 bits of
  the cell identity.
\<close>

definition BIT_STRING_TO_NR_CELL_IDENTITY :: "bit_string \<Rightarrow> u64 res" where
  "BIT_STRING_TO_NR_CELL_IDENTITY asn =
     bnd (guard (snd asn = 4) Exit) (\<lambda>_.
     bnd (guard (5 \<le> length (fst asn)) OutOfBounds) (\<lambda>_.
       let b = (\<lambda>i. ucast (fst asn ! i) :: u32)
       in Inr (scast (push_bit 28 (b 0) OR push_bit 20 (b 1) OR push_bit 12 (b 2) OR push_bit 4 (b 3) OR drop_bit 4 (b 4)))))"

text \<open>The converse, which writes the 36 bits of an identity.\<close>

definition NR_CELL_ID_TO_BIT_STRING :: "u64 \<Rightarrow> bit_string" where
  "NR_CELL_ID_TO_BIT_STRING v =
     ([ucast (drop_bit 28 v), ucast (drop_bit 20 v), ucast (drop_bit 12 v), ucast (drop_bit 4 v), ucast (push_bit 4 (v AND 0x0f))], 4)"

subsection \<open>RRC messages\<close>

definition CU_handle_INITIAL_UL_RRC_MESSAGE_TRANSFER ::
    "cu_node \<Rightarrow> int \<Rightarrow> u32 \<Rightarrow> f1ap_ie list \<Rightarrow> (cu_node \<times> cu_out list \<times> int) res" where
  "CU_handle_INITIAL_UL_RRC_MESSAGE_TRANSFER S inst stream ies =
     (if stream \<noteq> 0 then Inr (S, [], - 1)
      else bnd (mandatory du_id_ie ies) (\<lambda>du_ue_f1ap_id.
           bnd (mandatory nrcgi_ie ies) (\<lambda>nRCellIdentity.
           bnd (BIT_STRING_TO_NR_CELL_IDENTITY nRCellIdentity) (\<lambda>nr_cellid.
           bnd (mandatory c_rnti_ie ies) (\<lambda>c_rnti.
           bnd (mandatory rrc_container_ie ies) (\<lambda>container.
           bnd (f1ap_get (cu_f1 S) CUtype inst id) (\<lambda>_.
           bnd (memcpy_at (replicate CCCH_SDU_SIZE 0) 0 container) (\<lambda>sdu.
           let rnti = rnti_of_int c_rnti in
           bnd (f1ap_add_osc_ue (cu_f1 S) CUtype inst rnti (int_of_long du_ue_f1ap_id)) (\<lambda>(F, f1ap_uid).
             if f1ap_uid < 0 then Inr (S\<lparr>cu_f1 := F\<rparr>, [], - 1)
             else bnd (f1ap_get F CUtype 0 id) (\<lambda>_.
               Inr (S\<lparr>cu_f1 := F\<rparr>,
                 [NR_RRC_MAC_CCCH_DATA_IND
                    \<lparr>cd_frame = 0, cd_sub_frame = 0, cd_rnti = rnti, cd_sdu_size = of_nat (length container), cd_sdu = sdu,
                     cd_du_to_cu_rrc_container = find_f1_ie du_to_cu_ie ies, cd_CC_id = 0, cd_nr_cellid = nr_cellid\<rparr>], 0)))))))))))"

text \<open>\<open>f1ap_itti_send_sctp_data_req\<close>.\<close>

definition f1ap_itti_send_sctp_data_req :: "cu_node \<Rightarrow> int \<Rightarrow> bytes \<Rightarrow> nat \<Rightarrow> cu_out res" where
  "f1ap_itti_send_sctp_data_req S inst buffer stream =
     bnd (f1ap_assoc_id (cu_f1 S) CUtype inst) (\<lambda>assoc_id. Inr (F1_SCTP_DATA_REQ assoc_id buffer stream))"

text \<open>\<open>encode\<close> is the generated encoder, which may fail.\<close>

definition CU_send_DL_RRC_MESSAGE_TRANSFER ::
    "(f1ap_pdu \<Rightarrow> bytes option) \<Rightarrow> cu_node \<Rightarrow> int \<Rightarrow> f1ap_dl_rrc_message \<Rightarrow> (cu_out list \<times> int) res" where
  "CU_send_DL_RRC_MESSAGE_TRANSFER encode S inst dl =
     bnd (f1ap_get_cu_ue_f1ap_id (cu_f1 S) CUtype inst (dl_rnti dl)) (\<lambda>cu.
     bnd (f1ap_get_du_ue_f1ap_id (cu_f1 S) CUtype inst (dl_rnti dl)) (\<lambda>du.
       case encode \<lparr>fp_present = PR_initiatingMessage, fp_procedureCode = 12,
                    fp_ies = [IE_GNB_CU_UE_F1AP_ID cu, IE_GNB_DU_UE_F1AP_ID du, IE_SRBID (uint (dl_srb_id dl))] @
                      (if dl_execute_duplication dl then [IE_ExecuteDuplication] else []) @ [IE_RRCContainer (dl_rrc_container dl)]\<rparr> of
         None \<Rightarrow> Inr ([], - 1)
       | Some buffer \<Rightarrow> bnd (f1ap_itti_send_sctp_data_req S inst buffer 0) (\<lambda>m. Inr ([m], 0))))"

definition CU_handle_UL_RRC_MESSAGE_TRANSFER ::
    "cu_node \<Rightarrow> int \<Rightarrow> u32 \<Rightarrow> f1ap_ie list \<Rightarrow> (cu_node \<times> cu_out list \<times> int) res" where
  "CU_handle_UL_RRC_MESSAGE_TRANSFER S inst stream ies =
     (if stream \<noteq> 0 then Inr (S, [], - 1)
      else bnd (mandatory cu_id_ie ies) (\<lambda>cu_ue_f1ap_id.
           bnd (mandatory du_id_ie ies) (\<lambda>_.
           bnd (mandatory srb_id_ie ies) (\<lambda>srb_id.
           bnd (mandatory rrc_container_ie ies) (\<lambda>container.
           bnd (f1ap_get_rnti_by_cu_id (cu_f1 S) CUtype inst cu_ue_f1ap_id) (\<lambda>rnti.
             Inr (S, [PDCP_DATA_IND
                \<lparr>pi_ctxt = \<lparr>cx_module_id = inst, cx_enb_flag = True, cx_instance = inst, cx_rnti = uint (rnti_of_int rnti),
                            cx_frame = 0, cx_subframe = 0, cx_eNB_index = 0, cx_brOption = False\<rparr>,
                 pi_srb_flag = True, pi_MBMS_flag = False, pi_rb_id = srb_id, pi_sdu_buffer = container\<rparr>], 0)))))))"

subsection \<open>Release of a UE\<close>

definition CU_handle_UE_CONTEXT_RELEASE_REQUEST ::
    "cu_node \<Rightarrow> int \<Rightarrow> f1ap_ie list \<Rightarrow> (cu_node \<times> cu_out list \<times> int) res" where
  "CU_handle_UE_CONTEXT_RELEASE_REQUEST S inst ies =
     bnd (mandatory cu_id_ie ies) (\<lambda>cu.
     bnd (f1ap_get_rnti_by_cu_id (cu_f1 S) CUtype inst cu) (\<lambda>rnti.
     bnd (mandatory du_id_ie ies) (\<lambda>du.
     bnd (f1ap_get_rnti_by_du_id (cu_f1 S) CUtype inst du) (\<lambda>rnti2.
     bnd (guard (rnti_of_int rnti = rnti_of_int rnti2) Exit) (\<lambda>_. Inl Exit)))))"

definition CU_send_UE_CONTEXT_RELEASE_COMMAND ::
    "(f1ap_pdu \<Rightarrow> bytes option) \<Rightarrow> cu_node \<Rightarrow> int \<Rightarrow> f1ap_ue_context_release \<Rightarrow> (cu_out list \<times> int) res" where
  "CU_send_UE_CONTEXT_RELEASE_COMMAND encode S inst cmd =
     bnd (f1ap_get_cu_ue_f1ap_id (cu_f1 S) CUtype inst (rc_rnti cmd)) (\<lambda>cu.
     bnd (f1ap_get_du_ue_f1ap_id (cu_f1 S) CUtype inst (rc_rnti cmd)) (\<lambda>du.
       case encode \<lparr>fp_present = PR_initiatingMessage, fp_procedureCode = 6,
                    fp_ies = [IE_GNB_CU_UE_F1AP_ID cu, IE_GNB_DU_UE_F1AP_ID du,
                      IE_Cause (rc_cause cmd) (if rc_cause cmd = F1AP_CAUSE_NOTHING then 0 else rc_cause_value cmd),
                      IE_RRCContainer (rc_rrc_container cmd)]\<rparr> of
         None \<Rightarrow> Inr ([], - 1)
       | Some buffer \<Rightarrow> bnd (f1ap_itti_send_sctp_data_req S inst buffer 0) (\<lambda>m. Inr ([m], 0))))"

text \<open>The part of the completion that RRC is concerned with.\<close>

definition rrc_release_complete :: "rrc_gnb \<Rightarrow> u16 \<Rightarrow> (rrc_gnb \<times> cu_out list) res" where
  "rrc_release_complete R rnti =
     (case rrc_gNB_get_ue_context (rg_inst R) rnti of
        None \<Rightarrow> Inr (R, [])
      | Some c \<Rightarrow>
          bnd (rrc_gNB_remove_ue_context (Some (rg_inst R)) (Some c)) (\<lambda>I.
            Inr (case I of Some I' \<Rightarrow> R\<lparr>rg_inst := I'\<rparr> | None \<Rightarrow> R,
                 [TO_NGAP (NGAP_UE_CONTEXT_RELEASE_COMPLETE (un_gNB_ue_ngap_id (rg_ue R (uc_addr c))))])))"

definition CU_handle_UE_CONTEXT_RELEASE_COMPLETE ::
    "cu_node \<Rightarrow> int \<Rightarrow> f1ap_ie list \<Rightarrow> (cu_node \<times> cu_out list \<times> int) res" where
  "CU_handle_UE_CONTEXT_RELEASE_COMPLETE S inst ies =
     bnd (mandatory cu_id_ie ies) (\<lambda>cu.
     bnd (f1ap_get_rnti_by_cu_id (cu_f1 S) CUtype inst cu) (\<lambda>x.
     bnd (mandatory du_id_ie ies) (\<lambda>du.
     bnd (f1ap_get_rnti_by_du_id (cu_f1 S) CUtype inst du) (\<lambda>y.
     let rnti = rnti_of_int x; rnti2 = rnti_of_int y in
     bnd (guard (rnti = rnti2) Exit) (\<lambda>_.
     let ctxt = \<lparr>cx_module_id = inst, cx_enb_flag = True, cx_instance = inst, cx_rnti = uint rnti, cx_frame = 0,
                 cx_subframe = 0, cx_eNB_index = inst, cx_brOption = False\<rparr> in
     bnd (rrc_release_complete (cu_rrc S) rnti) (\<lambda>(R, out).
     bnd (f1ap_remove_ue (cu_f1 S) CUtype inst rnti) (\<lambda>(F, _).
       Inr (S\<lparr>cu_rrc := R, cu_pdcp := pdcp_remove_UE (cu_pdcp S) ctxt, cu_f1 := F\<rparr>, out, 0))))))))"

subsection \<open>Dispatch\<close>

datatype f1ap_handler =
    H_CU_F1_SETUP_REQUEST
  | H_DU_F1_SETUP_RESPONSE
  | H_DU_F1_SETUP_FAILURE
  | H_CU_gNB_DU_CONFIGURATION_UPDATE
  | H_DU_gNB_CU_CONFIGURATION_UPDATE
  | H_CU_gNB_CU_CONFIGURATION_UPDATE_ACKNOWLEDGE
  | H_CU_gNB_CU_CONFIGURATION_UPDATE_FAILURE
  | H_DU_UE_CONTEXT_SETUP_REQUEST
  | H_CU_UE_CONTEXT_SETUP_RESPONSE
  | H_DU_UE_CONTEXT_RELEASE_COMMAND
  | H_CU_UE_CONTEXT_RELEASE_COMPLETE
  | H_CU_UE_CONTEXT_RELEASE_REQUEST
  | H_CU_INITIAL_UL_RRC_MESSAGE_TRANSFER
  | H_DU_DL_RRC_MESSAGE_TRANSFER
  | H_CU_UL_RRC_MESSAGE_TRANSFER

definition f1ap_messages_processing :: "f1ap_handler option list list" where
  "f1ap_messages_processing =
     [[None, None, None],
      [Some H_CU_F1_SETUP_REQUEST, Some H_DU_F1_SETUP_RESPONSE, Some H_DU_F1_SETUP_FAILURE],
      [None, None, None],
      [Some H_CU_gNB_DU_CONFIGURATION_UPDATE, None, None],
      [Some H_DU_gNB_CU_CONFIGURATION_UPDATE, Some H_CU_gNB_CU_CONFIGURATION_UPDATE_ACKNOWLEDGE, Some H_CU_gNB_CU_CONFIGURATION_UPDATE_FAILURE],
      [Some H_DU_UE_CONTEXT_SETUP_REQUEST, Some H_CU_UE_CONTEXT_SETUP_RESPONSE, None],
      [Some H_DU_UE_CONTEXT_RELEASE_COMMAND, Some H_CU_UE_CONTEXT_RELEASE_COMPLETE, None],
      [None, None, None],
      [None, None, None],
      [None, None, None],
      [Some H_CU_UE_CONTEXT_RELEASE_REQUEST, None, None],
      [Some H_CU_INITIAL_UL_RRC_MESSAGE_TRANSFER, None, None],
      [Some H_DU_DL_RRC_MESSAGE_TRANSFER, None, None],
      [Some H_CU_UL_RRC_MESSAGE_TRANSFER, None, None],
      [None, None, None], [None, None, None], [None, None, None], [None, None, None], [None, None, None],
      [None, None, None], [None, None, None], [None, None, None], [None, None, None], [None, None, None]]"

text \<open>
  The checks after decoding, with the procedure codes of the F1AP constants: F1 set-up (1), configuration updates (3, 4),
  UE context set-up (5), release (6) and release request (10), initial uplink (11), downlink (12) and uplink (13) RRC
  message transfer.
\<close>

definition f1ap_decode_initiating_message :: "f1ap_pdu \<Rightarrow> int res" where
  "f1ap_decode_initiating_message pdu = (if fp_procedureCode pdu \<in> {1, 3, 4, 11, 12, 13, 6, 10, 5} then Inr 0 else Inl Exit)"

definition f1ap_decode_successful_outcome :: "f1ap_pdu \<Rightarrow> int" where
  "f1ap_decode_successful_outcome pdu = (if fp_procedureCode pdu \<in> {1, 4, 6, 5} then 0 else - 1)"

definition f1ap_decode_unsuccessful_outcome :: "f1ap_pdu \<Rightarrow> int" where
  "f1ap_decode_unsuccessful_outcome pdu = (if fp_procedureCode pdu = 1 then 0 else - 1)"

text \<open>\<open>decode\<close> is \<open>aper_decode\<close>.\<close>

definition f1ap_decode_pdu :: "(bytes \<Rightarrow> f1ap_pdu option) \<Rightarrow> bytes \<Rightarrow> (f1ap_pdu \<times> int) res" where
  "f1ap_decode_pdu decode buffer =
     (case decode buffer of
        None \<Rightarrow> Inl Exit
      | Some pdu \<Rightarrow>
          (case fp_present pdu of
             PR_initiatingMessage \<Rightarrow> bnd (f1ap_decode_initiating_message pdu) (\<lambda>r. Inr (pdu, r))
           | PR_successfulOutcome \<Rightarrow> Inr (pdu, f1ap_decode_successful_outcome pdu)
           | PR_unsuccessfulOutcome \<Rightarrow> Inr (pdu, f1ap_decode_unsuccessful_outcome pdu)
           | _ \<Rightarrow> Inr (pdu, - 1)))"

definition present_index :: "f1ap_present \<Rightarrow> nat" where
  "present_index x =
     (case x of PR_NOTHING \<Rightarrow> 0 | PR_initiatingMessage \<Rightarrow> 1 | PR_successfulOutcome \<Rightarrow> 2 | PR_unsuccessfulOutcome \<Rightarrow> 3 | PR_choice_extension \<Rightarrow> 4)"

text \<open>\<open>call\<close> gives the function that an entry of the table points to.\<close>

definition f1ap_handle_message ::
    "(bytes \<Rightarrow> f1ap_pdu option) \<Rightarrow> (f1ap_handler \<Rightarrow> 's \<Rightarrow> int \<Rightarrow> u32 \<Rightarrow> f1ap_ie list \<Rightarrow> ('s \<times> 'o list \<times> int) res) \<Rightarrow>
     's \<Rightarrow> int \<Rightarrow> u32 \<Rightarrow> bytes \<Rightarrow> ('s \<times> 'o list \<times> int) res" where
  "f1ap_handle_message decode call S inst stream data =
     bnd (f1ap_decode_pdu decode data) (\<lambda>(pdu, r).
       if r < 0 then Inr (S, [], - 1)
       else if length f1ap_messages_processing \<le> fp_procedureCode pdu \<or> 3 < present_index (fp_present pdu)
       then Inr (S, [], - 1)
       else bnd (guard (1 \<le> present_index (fp_present pdu)) OutOfBounds) (\<lambda>_.
         case f1ap_messages_processing ! fp_procedureCode pdu ! (present_index (fp_present pdu) - 1) of
           None \<Rightarrow> Inr (S, [], - 1)
         | Some h \<Rightarrow> call h S inst stream (fp_ies pdu)))"

text \<open>The handlers of this theory in the table of a CU; \<open>other\<close> stands for the rest.\<close>

definition cu_handler ::
    "(f1ap_handler \<Rightarrow> cu_node \<Rightarrow> int \<Rightarrow> u32 \<Rightarrow> f1ap_ie list \<Rightarrow> (cu_node \<times> cu_out list \<times> int) res) \<Rightarrow>
     f1ap_handler \<Rightarrow> cu_node \<Rightarrow> int \<Rightarrow> u32 \<Rightarrow> f1ap_ie list \<Rightarrow> (cu_node \<times> cu_out list \<times> int) res" where
  "cu_handler other h S inst stream ies =
     (case h of
        H_CU_INITIAL_UL_RRC_MESSAGE_TRANSFER \<Rightarrow> CU_handle_INITIAL_UL_RRC_MESSAGE_TRANSFER S inst stream ies
      | H_CU_UL_RRC_MESSAGE_TRANSFER \<Rightarrow> CU_handle_UL_RRC_MESSAGE_TRANSFER S inst stream ies
      | H_CU_UE_CONTEXT_RELEASE_REQUEST \<Rightarrow> CU_handle_UE_CONTEXT_RELEASE_REQUEST S inst ies
      | H_CU_UE_CONTEXT_RELEASE_COMPLETE \<Rightarrow> CU_handle_UE_CONTEXT_RELEASE_COMPLETE S inst ies
      | _ \<Rightarrow> other h S inst stream ies)"

text \<open>What a reader of the standard and of the table expects: the handler for a message, by direction and procedure.\<close>

fun f1ap_route :: "f1ap_present \<Rightarrow> nat \<rightharpoonup> f1ap_handler" where
  "f1ap_route PR_initiatingMessage =
     [1 \<mapsto> H_CU_F1_SETUP_REQUEST, 3 \<mapsto> H_CU_gNB_DU_CONFIGURATION_UPDATE, 4 \<mapsto> H_DU_gNB_CU_CONFIGURATION_UPDATE,
      5 \<mapsto> H_DU_UE_CONTEXT_SETUP_REQUEST, 6 \<mapsto> H_DU_UE_CONTEXT_RELEASE_COMMAND, 10 \<mapsto> H_CU_UE_CONTEXT_RELEASE_REQUEST,
      11 \<mapsto> H_CU_INITIAL_UL_RRC_MESSAGE_TRANSFER, 12 \<mapsto> H_DU_DL_RRC_MESSAGE_TRANSFER, 13 \<mapsto> H_CU_UL_RRC_MESSAGE_TRANSFER]"
| "f1ap_route PR_successfulOutcome =
     [1 \<mapsto> H_DU_F1_SETUP_RESPONSE, 4 \<mapsto> H_CU_gNB_CU_CONFIGURATION_UPDATE_ACKNOWLEDGE,
      5 \<mapsto> H_CU_UE_CONTEXT_SETUP_RESPONSE, 6 \<mapsto> H_CU_UE_CONTEXT_RELEASE_COMPLETE]"
| "f1ap_route PR_unsuccessfulOutcome = [1 \<mapsto> H_DU_F1_SETUP_FAILURE]"
| "f1ap_route _ = Map.empty"

lemma processing_row:
  "length f1ap_messages_processing = 24"
  "f1ap_messages_processing ! Suc 0 = [Some H_CU_F1_SETUP_REQUEST, Some H_DU_F1_SETUP_RESPONSE, Some H_DU_F1_SETUP_FAILURE]"
  "f1ap_messages_processing ! 3 = [Some H_CU_gNB_DU_CONFIGURATION_UPDATE, None, None]"
  "f1ap_messages_processing ! 4 = [Some H_DU_gNB_CU_CONFIGURATION_UPDATE, Some H_CU_gNB_CU_CONFIGURATION_UPDATE_ACKNOWLEDGE, Some H_CU_gNB_CU_CONFIGURATION_UPDATE_FAILURE]"
  "f1ap_messages_processing ! 5 = [Some H_DU_UE_CONTEXT_SETUP_REQUEST, Some H_CU_UE_CONTEXT_SETUP_RESPONSE, None]"
  "f1ap_messages_processing ! 6 = [Some H_DU_UE_CONTEXT_RELEASE_COMMAND, Some H_CU_UE_CONTEXT_RELEASE_COMPLETE, None]"
  "f1ap_messages_processing ! 10 = [Some H_CU_UE_CONTEXT_RELEASE_REQUEST, None, None]"
  "f1ap_messages_processing ! 11 = [Some H_CU_INITIAL_UL_RRC_MESSAGE_TRANSFER, None, None]"
  "f1ap_messages_processing ! 12 = [Some H_DU_DL_RRC_MESSAGE_TRANSFER, None, None]"
  "f1ap_messages_processing ! 13 = [Some H_CU_UL_RRC_MESSAGE_TRANSFER, None, None]"
  by (simp_all add: f1ap_messages_processing_def)

text \<open>
  C25: dispatch of a message from the peer.  Every message that decodes goes to the handler of its procedure and
  direction.  A message that does not decode, and an initiating message of any other procedure, such as Reset or
  Error Indication, ends the process; any other outcome is refused with -1 and leaves the state alone.  No
  message reaches an entry outside the table, and none the handler for a failed configuration update of the CU.
\<close>

theorem f1ap_dispatch_spec:
  "f1ap_handle_message decode call S inst stream data =
     (case decode data of
        None \<Rightarrow> Inl Exit
      | Some p \<Rightarrow>
          (case f1ap_route (fp_present p) (fp_procedureCode p) of
             Some h \<Rightarrow> call h S inst stream (fp_ies p)
           | None \<Rightarrow> if fp_present p = PR_initiatingMessage then Inl Exit else Inr (S, [], - 1))) \<and>
   (\<forall>d k. f1ap_route d k \<noteq> Some H_CU_gNB_CU_CONFIGURATION_UPDATE_FAILURE)"
proof
  show "f1ap_handle_message decode call S inst stream data =
     (case decode data of
        None \<Rightarrow> Inl Exit
      | Some p \<Rightarrow>
          (case f1ap_route (fp_present p) (fp_procedureCode p) of
             Some h \<Rightarrow> call h S inst stream (fp_ies p)
           | None \<Rightarrow> if fp_present p = PR_initiatingMessage then Inl Exit else Inr (S, [], - 1)))"
  proof (cases "decode data")
    case None
    then show ?thesis by (simp add: f1ap_handle_message_def f1ap_decode_pdu_def)
  next
    case (Some p)
    then show ?thesis
      by (cases "fp_present p")
        (auto simp: f1ap_handle_message_def f1ap_decode_pdu_def f1ap_decode_initiating_message_def f1ap_decode_successful_outcome_def
          f1ap_decode_unsuccessful_outcome_def present_index_def processing_row)
  qed
  show "\<forall>d k. f1ap_route d k \<noteq> Some H_CU_gNB_CU_CONFIGURATION_UPDATE_FAILURE"
  proof (intro allI)
    fix d k
    show "f1ap_route d k \<noteq> Some H_CU_gNB_CU_CONFIGURATION_UPDATE_FAILURE" by (cases d) auto
  qed
qed

subsection \<open>Cell identities\<close>

lemma five_octets:
  "push_bit 28 (ucast (ucast (drop_bit 28 v) :: byte)) OR push_bit 20 (ucast (ucast (drop_bit 20 v) :: byte)) OR
   push_bit 12 (ucast (ucast (drop_bit 12 v) :: byte)) OR push_bit 4 (ucast (ucast (drop_bit 4 v) :: byte)) OR
   drop_bit 4 (ucast (ucast (push_bit 4 (v AND 0x0f)) :: byte)) = (ucast (v :: u64) :: u32)"
proof (rule bit_word_eqI)
  fix n
  assume n: "n < LENGTH(32)"
  have m: "bit (0xf0 :: int) k \<longleftrightarrow> 4 \<le> k \<and> k < 8" for k
  proof -
    have "(0xf0 :: int) = push_bit 4 (mask 4)" by (simp add: mask_eq_exp_minus_1)
    then show ?thesis by (simp only: bit_push_bit_iff bit_mask_iff) auto
  qed
  show "bit (push_bit 28 (ucast (ucast (drop_bit 28 v) :: byte)) OR push_bit 20 (ucast (ucast (drop_bit 20 v) :: byte)) OR
   push_bit 12 (ucast (ucast (drop_bit 12 v) :: byte)) OR push_bit 4 (ucast (ucast (drop_bit 4 v) :: byte)) OR
   drop_bit 4 (ucast (ucast (push_bit 4 (v AND 0x0f)) :: byte)) :: u32) n = bit (ucast v :: u32) n"
  proof -
    consider "n < 4" | "4 \<le> n" "n < 12" | "12 \<le> n" "n < 20" | "20 \<le> n" "n < 28" | "28 \<le> n" by linarith
    then show ?thesis using n
      by cases (simp_all add: bit_or_iff bit_push_bit_iff bit_drop_bit_eq bit_unsigned_iff bit_and_iff m less_diff_conv2)
  qed
qed

lemma cell_identity_read: "BIT_STRING_TO_NR_CELL_IDENTITY (NR_CELL_ID_TO_BIT_STRING v) = Inr (scast (ucast v :: u32))"
  unfolding BIT_STRING_TO_NR_CELL_IDENTITY_def NR_CELL_ID_TO_BIT_STRING_def five_octets [symmetric]
  by (simp add: eval_nat_numeral)

lemma scast_ucast_iff:
  assumes "v < 2 ^ 36"
  shows "(scast (ucast (v :: u64) :: u32) :: u64) = v \<longleftrightarrow> v < 2 ^ 31"
proof
  let ?s = "sint (ucast v :: u32)"
  have b: "- (2 ^ 31) \<le> ?s" "?s < 2 ^ 31" using sint_ge [of "ucast v :: u32"] sint_lt [of "ucast v :: u32"] by simp_all
  have v: "uint v < 2 ^ 36" using assms by (simp add: word_less_def)
  assume a: "(scast (ucast v :: u32) :: u64) = v"
  have "uint v = uint (scast (ucast v :: u32) :: u64)" by (simp only: a)
  also have "\<dots> = ?s mod 2 ^ 64" unfolding scast_eq uint_word_of_int by simp
  finally have e: "uint v = ?s mod 2 ^ 64" .
  have "uint v < 2 ^ 31"
  proof (cases "0 \<le> ?s")
    case True
    then have "?s mod 2 ^ 64 = ?s" using b(2) by (intro mod_pos_pos_trivial) simp_all
    then show ?thesis using e b(2) by simp
  next
    case False
    have "(?s + 2 ^ 64) mod 2 ^ 64 = ?s + 2 ^ 64" using False b(1) by (intro mod_pos_pos_trivial) simp_all
    then show ?thesis using e v b(1) by simp
  qed
  then show "v < 2 ^ 31" by (simp add: word_less_def)
next
  assume "v < 2 ^ 31"
  then have u: "uint v < 2 ^ 31" by (simp add: word_less_def)
  have "sint (ucast v :: u32) = signed_take_bit 31 (uint v)" by (simp add: signed_ucast_eq)
  also have "\<dots> = uint v" unfolding signed_take_bit_int_eq_self_iff using u uint_ge_0 [of v] by linarith
  finally show "(scast (ucast v :: u32) :: u64) = v" by (simp add: scast_eq)
qed
text \<open>
  C40: the bounds of a cell identity.  An identity of 36 bits that one end writes is read by the other as its low 32 bits, extended by
  their sign; so it comes out right exactly if it is below 2 ^ 31.
\<close>

theorem nr_cell_identity_bound:
  assumes "v < 2 ^ 36"
  shows "BIT_STRING_TO_NR_CELL_IDENTITY (NR_CELL_ID_TO_BIT_STRING v) = Inr (scast (ucast v :: u32)) \<and>
    (BIT_STRING_TO_NR_CELL_IDENTITY (NR_CELL_ID_TO_BIT_STRING v) = Inr v \<longleftrightarrow> v < 2 ^ 31)"
  using cell_identity_read [of v] scast_ucast_iff [OF assms] by simp

theorem nr_cell_identity_bound_witness:
  "BIT_STRING_TO_NR_CELL_IDENTITY (NR_CELL_ID_TO_BIT_STRING 12345678) = Inr 12345678 \<and>
   BIT_STRING_TO_NR_CELL_IDENTITY (NR_CELL_ID_TO_BIT_STRING 0x80000000) \<noteq> Inr 0x80000000"
  using nr_cell_identity_bound [of 12345678] nr_cell_identity_bound [of "0x80000000"] by simp

subsection \<open>Release\<close>

text \<open>The lookups in the table of an instance.\<close>

lemma cu_lookups:
  assumes "f1ap_get F CUtype n id = Inr I"
  shows "f1ap_get_cu_ue_f1ap_id F CUtype n r = Inr (inst_cu_id I r)" "f1ap_get_du_ue_f1ap_id F CUtype n r = Inr (inst_du_id I r)"
    "f1ap_get_rnti_by_cu_id F CUtype n i = Inr (inst_rnti_by_cu_id I i)" "f1ap_get_rnti_by_du_id F CUtype n i = Inr (inst_rnti_by_du_id I i)"
    "f1ap_assoc_id F CUtype n = Inr (fi_assoc_id I)"
proof -
  have "f1ap_assoc_id F CUtype n = f1ap_get F CUtype n fi_assoc_id" by (simp add: f1ap_assoc_id_def f1ap_get_def)
  then show "f1ap_assoc_id F CUtype n = Inr (fi_assoc_id I)" by (simp add: f1ap_get_of [OF assms])
qed (simp_all add: f1ap_lookup_defs f1ap_get_of [OF assms])

text \<open>The answer of RRC: the context of the UE goes and its identity is reported to NGAP.\<close>

lemma rrc_release_complete_ok:
  assumes "rrc_inv (rg_inst R)"
  shows "\<exists>I. rrc_release_complete R r =
      Inr (R\<lparr>rg_inst := I\<rparr>, case rrc_gNB_get_ue_context (rg_inst R) r of
        Some c \<Rightarrow> [TO_NGAP (NGAP_UE_CONTEXT_RELEASE_COMPLETE (un_gNB_ue_ngap_id (rg_ue R (uc_addr c))))] | None \<Rightarrow> []) \<and>
    rrc_inv I \<and> (\<forall>q. rrc_gNB_get_ue_context I q = (if q = r then None else rrc_gNB_get_ue_context (rg_inst R) q))"
proof (cases "rrc_gNB_get_ue_context (rg_inst R) r")
  case None
  then show ?thesis by (intro exI [of _ "rg_inst R"]) (simp add: rrc_release_complete_def assms)
next
  case (Some c)
  then have c: "c \<in> set (rrc_ue_head (rg_inst R))" "uc_ue_id_rnti c = r" using get_ue_context_iff(1) [OF assms] by auto
  obtain I where I: "rrc_gNB_remove_ue_context (Some (rg_inst R)) (Some c) = Inr (Some I)" "rrc_inv I"
      "set (rrc_ue_head I) = set (rrc_ue_head (rg_inst R)) - {c}"
    using remove_context [OF assms c(1)] by blast
  have "rrc_gNB_get_ue_context I q = (if q = r then None else rrc_gNB_get_ue_context (rg_inst R) q)" for q
  proof (cases "rrc_gNB_get_ue_context (rg_inst R) q")
    case None
    then have "rrc_gNB_get_ue_context I q = None"
      using get_ue_context_iff(2) [OF I(2)] get_ue_context_iff(2) [OF assms] I(3) by simp
    then show ?thesis using None by simp
  next
    case q: (Some d)
    then have d: "d \<in> set (rrc_ue_head (rg_inst R))" "uc_ue_id_rnti d = q" using get_ue_context_iff(1) [OF assms] by auto
    have uniq: "e = c" if "e \<in> set (rrc_ue_head (rg_inst R))" "uc_ue_id_rnti e = r" for e
      using get_ue_context_iff(1) [OF assms, of r e] Some that by simp
    show ?thesis
    proof (cases "q = r")
      case True
      have "rrc_gNB_get_ue_context I r = None" unfolding get_ue_context_iff(2) [OF I(2)] I(3) using uniq by blast
      then show ?thesis using True by simp
    next
      case False
      have "rrc_gNB_get_ue_context I q = Some d" unfolding get_ue_context_iff(1) [OF I(2)] I(3) using d c(2) False by auto
      then show ?thesis using False q by simp
    qed
  qed
  then show ?thesis using Some I(1,2) by (intro exI [of _ I]) (simp add: rrc_release_complete_def)
qed

text \<open>The completion for identities that agree on an RNTI.\<close>

lemma release_complete_eq:
  assumes g: "f1ap_get (cu_f1 S) CUtype n id = Inr I" and "rrc_inv (rg_inst (cu_rrc S))" "mg_inv (pl_manager (cu_pdcp S))"
    and "find_f1_ie cu_id_ie ies = Some cu" "find_f1_ie du_id_ie ies = Some du"
    and "rnti_of_int (inst_rnti_by_cu_id I cu) = r" "rnti_of_int (inst_rnti_by_du_id I du) = r"
  shows "\<exists>S'. CU_handle_UE_CONTEXT_RELEASE_COMPLETE S n ies =
      Inr (S', case rrc_gNB_get_ue_context (rg_inst (cu_rrc S)) r of
        Some c \<Rightarrow> [TO_NGAP (NGAP_UE_CONTEXT_RELEASE_COMPLETE (un_gNB_ue_ngap_id (rg_ue (cu_rrc S) (uc_addr c))))] | None \<Rightarrow> [], 0) \<and>
    (\<forall>q. rrc_gNB_get_ue_context (rg_inst (cu_rrc S')) q = (if q = r then None else rrc_gNB_get_ue_context (rg_inst (cu_rrc S)) q)) \<and>
    cu_rrc S' = (cu_rrc S)\<lparr>rg_inst := rg_inst (cu_rrc S')\<rparr> \<and>
    mg_view (pl_manager (cu_pdcp S')) = (mg_view (pl_manager (cu_pdcp S)))(uint r := None) \<and>
    cu_f1 S' = f1ap_put (cu_f1 S) CUtype n (inst_remove_ue I r) \<and>
    rrc_inv (rg_inst (cu_rrc S')) \<and> mg_inv (pl_manager (cu_pdcp S'))"
proof -
  obtain J where J: "rrc_release_complete (cu_rrc S) r =
      Inr ((cu_rrc S)\<lparr>rg_inst := J\<rparr>, case rrc_gNB_get_ue_context (rg_inst (cu_rrc S)) r of
        Some c \<Rightarrow> [TO_NGAP (NGAP_UE_CONTEXT_RELEASE_COMPLETE (un_gNB_ue_ngap_id (rg_ue (cu_rrc S) (uc_addr c))))] | None \<Rightarrow> [])"
    "rrc_inv J" "\<forall>q. rrc_gNB_get_ue_context J q = (if q = r then None else rrc_gNB_get_ue_context (rg_inst (cu_rrc S)) q)"
    using rrc_release_complete_ok [OF assms(2)] by blast
  have "mg_view (pl_manager (pdcp_remove_UE (cu_pdcp S) ctxt)) = (mg_view (pl_manager (cu_pdcp S)))(cx_rnti ctxt := None)"
    "mg_inv (pl_manager (pdcp_remove_UE (cu_pdcp S) ctxt))" for ctxt
    using mg.view_remove [OF assms(3)] mg.inv_remove [OF assms(3)] by (simp_all add: pdcp_remove_UE_def)
  then show ?thesis
    using J assms(4-) f1ap_remove_eq [OF g, of r]
    by (simp add: CU_handle_UE_CONTEXT_RELEASE_COMPLETE_def mandatory_def cu_lookups [OF g] Let_def)
qed

text \<open>
  The completion of a release, in every state.  If the two identities in the message lead to different RNTIs, the
  process ends.  Otherwise the context of the UE goes from RRC, and NGAP is told the identity it had there; the
  UE goes from PDCP; all other UEs of both stay.  The tables of F1 forget the RNTI, and the pairs of
  identities towards NGAP are not touched.
\<close>

theorem release_complete_outcome:
  assumes "f1ap_get (cu_f1 S) CUtype n id = Inr I" "rrc_history nb (rg_inst (cu_rrc S)) k" "api_history E gnb ms (cu_pdcp S)"
    and "find_f1_ie cu_id_ie ies = Some cu" "find_f1_ie du_id_ie ies = Some du"
    and r: "r = rnti_of_int (inst_rnti_by_cu_id I cu)" and r2: "r2 = rnti_of_int (inst_rnti_by_du_id I du)"
  shows "if r \<noteq> r2 then CU_handle_UE_CONTEXT_RELEASE_COMPLETE S n ies = Inl Exit
    else \<exists>S'. CU_handle_UE_CONTEXT_RELEASE_COMPLETE S n ies =
        Inr (S', case rrc_gNB_get_ue_context (rg_inst (cu_rrc S)) r of
          Some c \<Rightarrow> [TO_NGAP (NGAP_UE_CONTEXT_RELEASE_COMPLETE (un_gNB_ue_ngap_id (rg_ue (cu_rrc S) (uc_addr c))))] | None \<Rightarrow> [], 0) \<and>
      (\<forall>q. rrc_gNB_get_ue_context (rg_inst (cu_rrc S')) q = (if q = r then None else rrc_gNB_get_ue_context (rg_inst (cu_rrc S)) q)) \<and>
      mg_view (pl_manager (cu_pdcp S')) = (mg_view (pl_manager (cu_pdcp S)))(uint r := None) \<and>
      cu_f1 S' = f1ap_put (cu_f1 S) CUtype n (inst_remove_ue I r) \<and>
      by_initial (cu_rrc S') = by_initial (cu_rrc S) \<and> by_ngap (cu_rrc S') = by_ngap (cu_rrc S)"
proof (cases "r = r2")
  case False
  then show ?thesis
    using assms(4,5) r r2 by (simp add: CU_handle_UE_CONTEXT_RELEASE_COMPLETE_def mandatory_def cu_lookups [OF assms(1)] Let_def)
next
  case True
  have inv: "rrc_inv (rg_inst (cu_rrc S))" using rrc_history_inv [OF assms(2)] by simp
  have mgi: "mg_inv (pl_manager (cu_pdcp S))" using api_history_ok [OF assms(3)] by (simp add: layer_ok_def)
  have du: "rnti_of_int (inst_rnti_by_du_id I du) = r" using r2 True by simp
  obtain S' where S': "CU_handle_UE_CONTEXT_RELEASE_COMPLETE S n ies =
        Inr (S', case rrc_gNB_get_ue_context (rg_inst (cu_rrc S)) r of
          Some c \<Rightarrow> [TO_NGAP (NGAP_UE_CONTEXT_RELEASE_COMPLETE (un_gNB_ue_ngap_id (rg_ue (cu_rrc S) (uc_addr c))))] | None \<Rightarrow> [], 0)"
      "\<forall>q. rrc_gNB_get_ue_context (rg_inst (cu_rrc S')) q = (if q = r then None else rrc_gNB_get_ue_context (rg_inst (cu_rrc S)) q)"
      "cu_rrc S' = (cu_rrc S)\<lparr>rg_inst := rg_inst (cu_rrc S')\<rparr>"
      "mg_view (pl_manager (cu_pdcp S')) = (mg_view (pl_manager (cu_pdcp S)))(uint r := None)"
      "cu_f1 S' = f1ap_put (cu_f1 S) CUtype n (inst_remove_ue I r)"
    using release_complete_eq [OF assms(1) inv mgi assms(4,5) r [symmetric] du] by blast
  have "by_initial (cu_rrc S') = by_initial (cu_rrc S)" "by_ngap (cu_rrc S') = by_ngap (cu_rrc S)"
    by (subst S'(3), simp add: by_initial_def [abs_def] by_ngap_def [abs_def])+
  then show ?thesis using S' True by auto
qed

text \<open>A CU with one UE, of RNTI 7, that F1 knows and RRC does not.\<close>

definition example_node :: cu_node where
  "example_node = \<lparr>cu_f1 = f1ap_example, cu_rrc = init_rrc_gnb ngran_gNB_CU None, cu_pdcp = ex_layer True False\<rparr>"

lemma example_node_simps:
  "cu_f1 example_node = f1ap_example" "rg_inst (cu_rrc example_node) = initial_rrc_inst" "cu_pdcp example_node = ex_layer True False"
  by (simp_all add: example_node_def init_rrc_gnb_def)

lemma example_ids: "inst_rnti_by_cu_id f1ap_example_inst 7 = 7" "inst_rnti_by_du_id f1ap_example_inst 5 = 7"
  "inst_rnti_by_cu_id f1ap_example_inst 99 = - 1" "inst_rnti_by_du_id f1ap_example_inst 99 = - 1"
proof -
  have n: "first_slot (\<lambda>u. fu_cu_ue_f1ap_id u = 99) (replicate 39 empty_f1ap_ue) = None"
    "first_slot (\<lambda>u. fu_du_ue_f1ap_id u = 99) (replicate 39 empty_f1ap_ue) = None"
    by (simp_all add: first_slot_None empty_f1ap_ue_def)
  show "inst_rnti_by_cu_id f1ap_example_inst 7 = 7" "inst_rnti_by_du_id f1ap_example_inst 5 = 7"
    "inst_rnti_by_cu_id f1ap_example_inst 99 = - 1" "inst_rnti_by_du_id f1ap_example_inst 99 = - 1"
    by (simp_all add: inst_lookup_defs f1ap_example_inst_def n int_of_long_def)
qed

theorem release_complete_outcome_witness:
  "CU_handle_UE_CONTEXT_RELEASE_COMPLETE example_node 0 [IE_GNB_CU_UE_F1AP_ID 7, IE_GNB_DU_UE_F1AP_ID 99] = Inl Exit \<and>
   (\<exists>S'. CU_handle_UE_CONTEXT_RELEASE_COMPLETE example_node 0 [IE_GNB_CU_UE_F1AP_ID 7, IE_GNB_DU_UE_F1AP_ID 5] = Inr (S', [], 0) \<and>
      mg_view (pl_manager (cu_pdcp S')) 7 = None)"
proof -
  have g: "f1ap_get (cu_f1 example_node) CUtype 0 id = Inr f1ap_example_inst" by (simp add: example_node_simps f1ap_example_get)
  have h: "rrc_history 14 (rg_inst (cu_rrc example_node)) 0" by (simp add: example_node_simps rrc_history.start)
  have a: "api_history (ex_env True) True [] (cu_pdcp example_node)" using ex_history by (simp add: example_node_simps)
  have n: "rrc_gNB_get_ue_context (rg_inst (cu_rrc example_node)) 7 = None"
    by (simp add: example_node_simps rrc_gNB_get_ue_context_def rrc_ue_tree_find_def rb_find_def initial_rrc_inst_def)
  have f: "find_f1_ie cu_id_ie [IE_GNB_CU_UE_F1AP_ID 7, IE_GNB_DU_UE_F1AP_ID i] = Some 7"
    "find_f1_ie du_id_ie [IE_GNB_CU_UE_F1AP_ID 7, IE_GNB_DU_UE_F1AP_ID i] = Some i" for i by (simp_all add: f1_ie_defs)
  have w: "(word_of_int 7 :: u16) \<noteq> word_of_int (- 1)" by simp
  note o = release_complete_outcome [OF g h a f refl refl]
  show ?thesis using o [of 99] o [of 5] n w by (auto simp: example_ids rnti_of_int_def)
qed

text \<open>
  C15: the release of a UE from end to end.  A release command of the AMF for a UE of the CU becomes a release command of
  F1 that carries the identities of the UE at both ends; only if it cannot be encoded nothing is sent.  When the DU answers with
  the same two identities, and its identity is an \<open>int\<close> and leads to this UE in the table of F1, the CU reports
  the completion to NGAP, and the UE is gone from RRC, PDCP and F1 while every other UE is as it was.  What stays is
  the pair of identities of the UE in the tables of RRC.
\<close>

theorem ue_release_end_to_end:
  assumes "f1ap_history us (cu_f1 S)" "f1ap_get (cu_f1 S) CUtype n id = Inr I" "u \<in> set (fi_ue I)"
    and du: "f1ap_get_rnti_by_du_id (cu_f1 S) CUtype n (fu_du_ue_f1ap_id u) = Inr (uint (fu_rnti u))"
      "int_of_long (fu_du_ue_f1ap_id u) = fu_du_ue_f1ap_id u"
    and "rrc_history nb (rg_inst (cu_rrc S)) k" "rrc_ngap_history (cu_rrc S)" "rg_node_type (cu_rrc S) = ngran_gNB_CU"
    and "api_history E gnb ms (cu_pdcp S)"
    and p: "by_ngap (cu_rrc S) g = Some p" "g \<noteq> 0" "ri_ue_rnti p = fu_rnti u" "fu_rnti u \<noteq> 0"
    and c: "rrc_gNB_get_ue_context (rg_inst (cu_rrc S)) (fu_rnti u) = Some c"
  shows "\<exists>R xid S'.
    rrc_gNB_process_NGAP_UE_CONTEXT_RELEASE_COMMAND release (cu_rrc S) g =
      Inr (R, [F1AP_UE_CONTEXT_RELEASE_CMD (fu_rnti u) (release xid)], 0) \<and>
    CU_send_UE_CONTEXT_RELEASE_COMMAND encode (S\<lparr>cu_rrc := R\<rparr>) n
      \<lparr>rc_rnti = fu_rnti u, rc_cause = F1AP_CAUSE_RADIO_NETWORK, rc_cause_value = 10, rc_rrc_container = release xid\<rparr> =
      (case encode \<lparr>fp_present = PR_initiatingMessage, fp_procedureCode = 6,
          fp_ies = [IE_GNB_CU_UE_F1AP_ID (uint (fu_rnti u)), IE_GNB_DU_UE_F1AP_ID (fu_du_ue_f1ap_id u),
                    IE_Cause F1AP_CAUSE_RADIO_NETWORK 10, IE_RRCContainer (release xid)]\<rparr> of
         None \<Rightarrow> Inr ([], - 1) | Some buffer \<Rightarrow> Inr ([F1_SCTP_DATA_REQ (fi_assoc_id I) buffer 0], 0)) \<and>
    CU_handle_UE_CONTEXT_RELEASE_COMPLETE (S\<lparr>cu_rrc := R\<rparr>) n
      [IE_GNB_CU_UE_F1AP_ID (uint (fu_rnti u)), IE_GNB_DU_UE_F1AP_ID (fu_du_ue_f1ap_id u)] =
      Inr (S', [TO_NGAP (NGAP_UE_CONTEXT_RELEASE_COMPLETE (un_gNB_ue_ngap_id (rg_ue (cu_rrc S) (uc_addr c))))], 0) \<and>
    (\<forall>q. rrc_gNB_get_ue_context (rg_inst (cu_rrc S')) q =
       (if q = fu_rnti u then None else rrc_gNB_get_ue_context (rg_inst (cu_rrc S)) q)) \<and>
    mg_view (pl_manager (cu_pdcp S')) = (mg_view (pl_manager (cu_pdcp S)))(uint (fu_rnti u) := None) \<and>
    (\<forall>q. q \<noteq> 0 \<longrightarrow> f1ap_get_cu_ue_f1ap_id (cu_f1 S') CUtype n q =
       (if q = fu_rnti u then Inr (- 1) else f1ap_get_cu_ue_f1ap_id (cu_f1 S) CUtype n q)) \<and>
    by_ngap (cu_rrc S') g = Some p"
proof -
  let ?r = "fu_rnti u"
  have F: "f1ap_inst_inv I" "f1ap_cu_ids I" using f1ap_history_inv [OF assms(1)] assms(2) by (auto simp: f1ap_inv_def)
  obtain i where i: "i \<in> f1ap_live I" "u = fi_ue I ! i" using assms(3) p(4) by (auto simp: f1ap_live_def in_set_conv_nth)
  have ids: "inst_rnti_by_cu_id I (uint ?r) = uint ?r" "inst_rnti_by_du_id I (fu_du_ue_f1ap_id u) = uint ?r"
    "inst_cu_id I ?r = uint ?r" "inst_du_id I ?r = fu_du_ue_f1ap_id u"
    using cu_id_resolves [OF F(2) i(1)] live_lookup [OF F(1) i(1)] F(2) i du
    by (simp_all add: cu_lookups [OF assms(2)] f1ap_cu_ids_def)
  obtain T N where rep: "ids_rep (cu_rrc S) T N" using history_rep [OF assms(7)] by blast
  have inv: "rrc_inv (rg_inst (cu_rrc S))" using rrc_history_inv [OF assms(6)] by simp
  then have "uc_rnti c = ?r" using get_ue_context_iff(1) [OF inv] c by (auto simp: rrc_inv_def)
  then obtain R xid where R: "rrc_gNB_process_NGAP_UE_CONTEXT_RELEASE_COMMAND release (cu_rrc S) g =
      Inr (R, [F1AP_UE_CONTEXT_RELEASE_CMD ?r (release xid)], 0)"
    "by_ngap R = by_ngap (cu_rrc S)" "rg_inst R = rg_inst (cu_rrc S)"
    "un_gNB_ue_ngap_id (rg_ue R (uc_addr c)) = un_gNB_ue_ngap_id (rg_ue (cu_rrc S) (uc_addr c))"
    using release_command_known [OF rep p(2,1), of c release] c p(3) assms(8) by (auto simp: NODE_IS_CU_def)
  let ?S = "S\<lparr>cu_rrc := R\<rparr>"
  have "CU_send_UE_CONTEXT_RELEASE_COMMAND encode ?S n
      \<lparr>rc_rnti = ?r, rc_cause = F1AP_CAUSE_RADIO_NETWORK, rc_cause_value = 10, rc_rrc_container = release xid\<rparr> =
      (case encode \<lparr>fp_present = PR_initiatingMessage, fp_procedureCode = 6,
          fp_ies = [IE_GNB_CU_UE_F1AP_ID (uint ?r), IE_GNB_DU_UE_F1AP_ID (fu_du_ue_f1ap_id u),
                    IE_Cause F1AP_CAUSE_RADIO_NETWORK 10, IE_RRCContainer (release xid)]\<rparr> of
         None \<Rightarrow> Inr ([], - 1) | Some buffer \<Rightarrow> Inr ([F1_SCTP_DATA_REQ (fi_assoc_id I) buffer 0], 0))"
    using ids
    by (simp add: CU_send_UE_CONTEXT_RELEASE_COMMAND_def f1ap_itti_send_sctp_data_req_def cu_lookups [OF assms(2)] split: option.splits)
  moreover obtain S' where S': "CU_handle_UE_CONTEXT_RELEASE_COMPLETE ?S n
      [IE_GNB_CU_UE_F1AP_ID (uint ?r), IE_GNB_DU_UE_F1AP_ID (fu_du_ue_f1ap_id u)] =
      Inr (S', [TO_NGAP (NGAP_UE_CONTEXT_RELEASE_COMPLETE (un_gNB_ue_ngap_id (rg_ue (cu_rrc S) (uc_addr c))))], 0)"
    "\<forall>q. rrc_gNB_get_ue_context (rg_inst (cu_rrc S')) q =
       (if q = ?r then None else rrc_gNB_get_ue_context (rg_inst (cu_rrc S)) q)"
    "cu_rrc S' = R\<lparr>rg_inst := rg_inst (cu_rrc S')\<rparr>"
    "mg_view (pl_manager (cu_pdcp S')) = (mg_view (pl_manager (cu_pdcp S)))(uint ?r := None)"
    "cu_f1 S' = f1ap_put (cu_f1 S) CUtype n (inst_remove_ue I ?r)"
    using release_complete_eq [of ?S n I "[IE_GNB_CU_UE_F1AP_ID (uint ?r), IE_GNB_DU_UE_F1AP_ID (fu_du_ue_f1ap_id u)]"
        "uint ?r" "fu_du_ue_f1ap_id u" ?r] assms(2) inv api_history_ok [OF assms(9)] R(3,4) c ids
    by (auto simp: layer_ok_def cu_id_ie_def du_id_ie_def rnti_of_int_def)
  moreover have "by_ngap (cu_rrc S') g = Some p"
    by (subst S'(3)) (use R(2) p(1) in \<open>simp add: by_ngap_def [abs_def]\<close>)
  moreover have "\<forall>q. q \<noteq> 0 \<longrightarrow> f1ap_get_cu_ue_f1ap_id (cu_f1 S') CUtype n q =
       (if q = ?r then Inr (- 1) else f1ap_get_cu_ue_f1ap_id (cu_f1 S) CUtype n q)"
    using f1ap_remove_outcome [OF assms(1,2) p(4)] f1ap_remove_eq [OF assms(2), of ?r] S'(5) assms(3) by auto
  ultimately show ?thesis using R(1) by blast
qed

text \<open>The RRC of a CU whose only UE, of RNTI 7, has had its first downlink NAS message.\<close>

lemma example_ue_registered:
  "\<exists>R c. rrc_ngap_history R \<and> rg_node_type R = ngran_gNB_CU \<and> rrc_history 14 (rg_inst R) 0 \<and>
     rrc_gNB_get_ue_context (rg_inst R) 7 = Some c \<and>
     by_ngap R 14 = Some \<lparr>ri_ue_initial_id = 1, ri_gNB_ue_ngap_id = 14, ri_ue_rnti = 7\<rparr>"
proof -
  have none: "rrc_gNB_get_ue_context initial_rrc_inst 7 = None"
    by (simp add: rrc_gNB_get_ue_context_def rrc_ue_tree_find_def rb_find_def initial_rrc_inst_def)
  obtain I c where I: "rrc_gNB_get_next_free_ue_context 14 initial_rrc_inst 7 9 = Inr (I, Some c)" "rrc_inv I"
      "set (rrc_ue_head I) = {c}" "uc_ue_id_rnti c = 7"
    using next_free_new [OF initial_rrc_inv none, of 14 9] by (auto simp: initial_rrc_inst_def)
  have hI: "rrc_history 14 I 0" using rrc_history.create [OF rrc_history.start I(1)] .
  have c: "rrc_gNB_get_ue_context I 7 = Some c" using get_ue_context_iff(1) [OF I(2)] I(3,4) by simp
  define R0 where "R0 = (init_rrc_gnb ngran_gNB_CU None)\<lparr>rg_inst := I, rg_ue := (\<lambda>_. zero_rrc_ue_ngap), rg_xid := 0, rg_mui := 0,
      rg_ngap := None\<rparr>"
  have h0: "rrc_ngap_history R0" unfolding R0_def by (rule rrc_ngap_history.other) (rule rrc_ngap_history.start)
  obtain T N where rep: "ids_rep R0 T N" using history_rep [OF h0] by blast
  have i: "1 = snd (get_next_ue_initial_id R0)"
    by (simp add: get_next_ue_initial_id_def R0_def init_rrc_gnb_def UE_INITIAL_ID_INVALID_def)
  have cause: "un_establishment_cause ((rg_ue R0 (uc_addr c))\<lparr>un_ue_initial_id := 1\<rparr>) = 0" by (simp add: R0_def zero_rrc_ue_ngap_def)
  have R0: "rg_inst R0 = I" "rg_node_type R0 = ngran_gNB_CU" by (simp_all add: R0_def init_rrc_gnb_def)
  obtain R1 T' where R1: "rrc_gNB_send_NGAP_NAS_FIRST_REQ R0 7 c example_setup = Inr (R1, [NGAP_NAS_FIRST_REQ (first_req_of 1 0 example_setup)])"
    "ids_rep R1 T' N" "by_ngap R1 = by_ngap R0" "rg_inst R1 = I" "rg_node_type R1 = ngran_gNB_CU"
    "by_initial R1 1 = Some \<lparr>ri_ue_initial_id = 1, ri_gNB_ue_ngap_id = 0, ri_ue_rnti = 7\<rparr>"
    using first_req_run [OF rep i refl, of 7 c example_setup] unfolding cause
    by (auto simp: NGAP_RRC_CAUSE_LAST_def example_setup_def R0)
  have no: "by_ngap R0 14 = None"
    unfolding by_ngap_def ids_of_def R0_def init_rrc_gnb_def by (simp add: ht_create_inv(2) NUMBER_OF_UE_MAX_def)
  let ?p = "\<lparr>ri_ue_initial_id = 1, ri_gNB_ue_ngap_id = 0, ri_ue_rnti = 7\<rparr>"
  have kn: "known_ids R1 1 14 = Some ?p" using R1(6) by (simp add: known_ids_def)
  have ctx: "rrc_gNB_get_ue_context (rg_inst R1) (ri_ue_rnti ?p) = Some c" using R1(4) c by simp
  obtain R2 out where "rrc_gNB_process_NGAP_DOWNLINK_NAS (\<lambda>x p. x # p) R1 1 14 [2] = Inr (R2, out, 0)"
    "by_ngap R2 14 = Some \<lparr>ri_ue_initial_id = 1, ri_gNB_ue_ngap_id = 14, ri_ue_rnti = 7\<rparr>" "rg_inst R2 = I" "rg_node_type R2 = ngran_gNB_CU"
  proof -
    have "(1 :: u16) \<noteq> 0 \<and> (14 :: u32) \<noteq> 0 \<and> by_ngap R1 14 = None" using no R1(3) by simp
    moreover from downlink_delivers [OF R1(2) kn ctx R1(5), of "\<lambda>x p. x # p" "[2]"]
    obtain X out where "rrc_gNB_process_NGAP_DOWNLINK_NAS (\<lambda>x p. x # p) R1 1 14 [2] = Inr (X, out, 0)"
      "(1 :: u16) \<noteq> 0 \<and> (14 :: u32) \<noteq> 0 \<and> by_ngap R1 14 = None \<longrightarrow> by_ngap X 14 = Some (?p\<lparr>ri_gNB_ue_ngap_id := 14\<rparr>)"
      "rg_inst X = rg_inst R1" "rg_node_type X = ngran_gNB_CU" by (elim exE conjE)
    ultimately show thesis using that R1(4) by simp
  qed
  moreover from this(1) have "rrc_ngap_history R2"
    using rrc_ngap_history.downlink [OF rrc_ngap_history.first_req [OF h0 R1(1)]] by blast
  ultimately show ?thesis using hI c by blast
qed

theorem ue_release_end_to_end_witness:
  "\<exists>S R xid S' g'. rrc_gNB_process_NGAP_UE_CONTEXT_RELEASE_COMMAND (\<lambda>x. [x]) (cu_rrc S) 14 =
       Inr (R, [F1AP_UE_CONTEXT_RELEASE_CMD 7 [xid]], 0) \<and>
     CU_handle_UE_CONTEXT_RELEASE_COMPLETE (S\<lparr>cu_rrc := R\<rparr>) 0 [IE_GNB_CU_UE_F1AP_ID 7, IE_GNB_DU_UE_F1AP_ID 5] =
       Inr (S', [TO_NGAP (NGAP_UE_CONTEXT_RELEASE_COMPLETE g')], 0) \<and>
     rrc_gNB_get_ue_context (rg_inst (cu_rrc S')) 7 = None \<and> by_ngap (cu_rrc S') 14 \<noteq> None"
proof -
  obtain R c where R: "rrc_ngap_history R" "rg_node_type R = ngran_gNB_CU" "rrc_history 14 (rg_inst R) 0"
      "rrc_gNB_get_ue_context (rg_inst R) 7 = Some c" "by_ngap R 14 = Some \<lparr>ri_ue_initial_id = 1, ri_gNB_ue_ngap_id = 14, ri_ue_rnti = 7\<rparr>"
    using example_ue_registered by blast
  define S where "S = example_node\<lparr>cu_rrc := R\<rparr>"
  have S: "cu_f1 S = f1ap_example" "cu_rrc S = R" "cu_pdcp S = ex_layer True False" by (simp_all add: S_def example_node_def)
  let ?u = "\<lparr>fu_rnti = 7, fu_f1ap_uid = 0, fu_du_ue_f1ap_id = 5, fu_cu_ue_f1ap_id = 7\<rparr>"
  have u: "?u \<in> set (fi_ue f1ap_example_inst)" by (simp add: f1ap_example_inst_def)
  have h: "f1ap_history [] (cu_f1 S)" "f1ap_get (cu_f1 S) CUtype 0 id = Inr f1ap_example_inst"
    "api_history (ex_env True) True [] (cu_pdcp S)"
    by (simp_all add: S f1ap_example_history f1ap_example_get ex_history)
  have d: "f1ap_get_rnti_by_du_id (cu_f1 S) CUtype 0 (fu_du_ue_f1ap_id ?u) = Inr (uint (fu_rnti ?u))"
    "int_of_long (fu_du_ue_f1ap_id ?u) = fu_du_ue_f1ap_id ?u"
    by (simp_all add: S cu_lookups [OF f1ap_example_get] example_ids int_of_long_def)
  have r: "ri_ue_rnti \<lparr>ri_ue_initial_id = 1, ri_gNB_ue_ngap_id = 14, ri_ue_rnti = 7\<rparr> = fu_rnti ?u" "fu_rnti ?u \<noteq> 0"
    "rrc_gNB_get_ue_context (rg_inst (cu_rrc S)) (fu_rnti ?u) = Some c" using R(4) by (simp_all add: S)
  have n: "(14 :: u32) \<noteq> 0" by simp
  note R' = R(3,1,2) [folded S(2)] and p = R(5) [folded S(2)]
  from ue_release_end_to_end [OF h(1,2) u d R' h(3) p n r, where encode = "\<lambda>_. Some [1]" and release = "\<lambda>x. [x]"]
  show ?thesis using p by (elim exE conjE, intro exI [of _ S] exI conjI) (simp, simp, simp, simp)
qed

subsection \<open>Transfer of RRC messages\<close>

lemma initial_ul_eq:
  assumes g: "f1ap_get (cu_f1 S) CUtype 0 id = Inr I" and len: "length (f1_du_inst (cu_f1 S)) = length (f1_cu_inst (cu_f1 S))"
    and ies: "find_f1_ie du_id_ie ies = Some d" "find_f1_ie nrcgi_ie ies = Some cell" "find_f1_ie c_rnti_ie ies = Some x"
      "find_f1_ie rrc_container_ie ies = Some sdu"
    and v: "BIT_STRING_TO_NR_CELL_IDENTITY cell = Inr v" and s: "length sdu \<le> CCCH_SDU_SIZE"
    and J: "inst_add_ue I (rnti_of_int x) (int_of_long d) = (J, uid)"
  shows "CU_handle_INITIAL_UL_RRC_MESSAGE_TRANSFER S 0 0 ies =
    (let S1 = S\<lparr>cu_f1 := f1ap_put (cu_f1 S) CUtype 0 J\<rparr> in
     if uid < 0 then Inr (S1, [], - 1)
     else Inr (S1, [NR_RRC_MAC_CCCH_DATA_IND
       \<lparr>cd_frame = 0, cd_sub_frame = 0, cd_rnti = rnti_of_int x, cd_sdu_size = of_nat (length sdu),
        cd_sdu = sdu @ replicate (CCCH_SDU_SIZE - length sdu) 0,
        cd_du_to_cu_rrc_container = find_f1_ie du_to_cu_ie ies, cd_CC_id = 0, cd_nr_cellid = v\<rparr>], 0))"
proof -
  have "f1ap_get (f1ap_put (cu_f1 S) CUtype 0 J) CUtype 0 id = Inr J" using f1ap_get_put [OF len g] by simp
  then show ?thesis
    using ies v s g J f1ap_add_osc_eq [OF g, of "rnti_of_int x" "int_of_long d"]
    by (simp add: CU_handle_INITIAL_UL_RRC_MESSAGE_TRANSFER_def mandatory_def memcpy_at_def Let_def)
qed

text \<open>
  C37: the first RRC message of a UE, from the DU.  A message of more than 1024 bytes is copied past the end of the
  buffer; otherwise RRC gets exactly the message, padded with zeros to the size of the buffer, with the RNTI and the cell,
  provided that the UE is known or a slot is free, and the UE is in the table from then on.  With all slots taken the
  message is dropped, with result -1, and nothing changes.
\<close>

theorem initial_ul_outcome:
  assumes h: "f1ap_history us (cu_f1 S)" and g: "f1ap_get (cu_f1 S) CUtype 0 id = Inr I"
    and ies: "find_f1_ie du_id_ie ies = Some d" "find_f1_ie nrcgi_ie ies = Some cell" "find_f1_ie c_rnti_ie ies = Some x"
      "find_f1_ie rrc_container_ie ies = Some sdu"
    and v: "BIT_STRING_TO_NR_CELL_IDENTITY cell = Inr v" and r: "r = rnti_of_int x" "r \<noteq> 0"
  shows "if 1024 < length sdu then CU_handle_INITIAL_UL_RRC_MESSAGE_TRANSFER S 0 0 ies = Inl OutOfBounds
    else if r \<in> fu_rnti ` set (fi_ue I) \<or> 0 \<in> fu_rnti ` set (fi_ue I)
    then \<exists>F J. CU_handle_INITIAL_UL_RRC_MESSAGE_TRANSFER S 0 0 ies =
        Inr (S\<lparr>cu_f1 := F\<rparr>, [NR_RRC_MAC_CCCH_DATA_IND
          \<lparr>cd_frame = 0, cd_sub_frame = 0, cd_rnti = r, cd_sdu_size = of_nat (length sdu),
           cd_sdu = sdu @ replicate (1024 - length sdu) 0,
           cd_du_to_cu_rrc_container = find_f1_ie du_to_cu_ie ies, cd_CC_id = 0, cd_nr_cellid = v\<rparr>], 0) \<and>
      f1ap_history us F \<and> f1ap_get F CUtype 0 id = Inr J \<and> r \<in> fu_rnti ` set (fi_ue J)
    else CU_handle_INITIAL_UL_RRC_MESSAGE_TRANSFER S 0 0 ies = Inr (S, [], - 1)"
proof (cases "1024 < length sdu")
  case True
  then show ?thesis
    using ies v g by (simp add: CU_handle_INITIAL_UL_RRC_MESSAGE_TRANSFER_def mandatory_def memcpy_at_def CCCH_SDU_SIZE_def)
next
  case False
  have F: "length (f1_du_inst (cu_f1 S)) = length (f1_cu_inst (cu_f1 S))" "f1ap_inst_inv I"
    using f1ap_history_inv [OF h] g by (auto simp: f1ap_inv_def)
  obtain J uid where J: "inst_add_ue I r (int_of_long d) = (J, uid)" by fastforce
  note eq = initial_ul_eq [OF g F(1) ies v, of J uid] J [unfolded r(1)] r(1) False
  let ?F = "f1ap_put (cu_f1 S) CUtype 0 J"
  have add: "f1ap_add_osc_ue (cu_f1 S) CUtype 0 r (int_of_long d) = Inr (?F, uid)" using f1ap_add_osc_eq [OF g] J by simp
  have gJ: "f1ap_get ?F CUtype 0 id = Inr J" using f1ap_get_put [OF F(1) g] by simp
  have hF: "f1ap_history us ?F" using f1ap_history.add_osc [OF h add] .
  show ?thesis
  proof (cases "r \<in> fu_rnti ` set (fi_ue I) \<or> 0 \<in> fu_rnti ` set (fi_ue I)")
    case True
    have "0 \<le> uid \<and> r \<in> fu_rnti ` set (fi_ue J)" using inst_add_ue_added [OF r(2) True J] .
    then show ?thesis using False True eq hF gJ by (auto simp: Let_def CCCH_SDU_SIZE_def)
  next
    case full: False
    then have "first_slot (\<lambda>u. fu_rnti u = r) (fi_ue I) = None" "first_slot (\<lambda>u. fu_rnti u = 0) (fi_ue I) = None"
      by (auto simp: first_slot_None)
    then have "J = I" "uid = - 1" using J by (simp_all add: inst_add_ue_def)
    moreover have "f1ap_put (cu_f1 S) CUtype 0 I = cu_f1 S" using g by (simp add: f1ap_get_iff f1_table_def f1ap_put_def list_update_same_conv)
    ultimately show ?thesis using False full eq by (simp add: Let_def CCCH_SDU_SIZE_def)
  qed
qed

text \<open>The first message of a UE of RNTI 8 that the DU knows as 6.\<close>

definition example_ccch :: "f1ap_ie list" where
  "example_ccch = [IE_GNB_DU_UE_F1AP_ID 6, IE_NRCGI (NR_CELL_ID_TO_BIT_STRING 12345678), IE_C_RNTI 8, IE_RRCContainer [1, 2]]"

lemma example_ccch_ies:
  "find_f1_ie du_id_ie example_ccch = Some 6" "find_f1_ie nrcgi_ie example_ccch = Some (NR_CELL_ID_TO_BIT_STRING 12345678)"
  "find_f1_ie c_rnti_ie example_ccch = Some 8" "find_f1_ie rrc_container_ie example_ccch = Some [1, 2]"
  "find_f1_ie du_to_cu_ie example_ccch = None"
  "BIT_STRING_TO_NR_CELL_IDENTITY (NR_CELL_ID_TO_BIT_STRING 12345678) = Inr 12345678"
  using scast_ucast_iff [of 12345678] by (simp_all add: example_ccch_def f1_ie_defs cell_identity_read)

lemma example_slots:
  "fu_rnti ` set (fi_ue f1ap_example_inst) = {7, 0}"
  "\<forall>u\<in>set (fi_ue f1ap_example_inst). fu_rnti u \<noteq> 0 \<longrightarrow> fu_du_ue_f1ap_id u \<noteq> 6"
  by (simp_all add: f1ap_example_inst_def) (auto simp: empty_f1ap_ue_def)

theorem initial_ul_outcome_witness:
  "\<exists>F. CU_handle_INITIAL_UL_RRC_MESSAGE_TRANSFER example_node 0 0 example_ccch =
     Inr (example_node\<lparr>cu_f1 := F\<rparr>, [NR_RRC_MAC_CCCH_DATA_IND
       \<lparr>cd_frame = 0, cd_sub_frame = 0, cd_rnti = 8, cd_sdu_size = 2, cd_sdu = [1, 2] @ replicate 1022 0,
        cd_du_to_cu_rrc_container = None, cd_CC_id = 0, cd_nr_cellid = 12345678\<rparr>], 0)"
proof -
  have "f1ap_history [] (cu_f1 example_node)" "f1ap_get (cu_f1 example_node) CUtype 0 id = Inr f1ap_example_inst"
    by (simp_all add: example_node_simps f1ap_example_history f1ap_example_get)
  note o = initial_ul_outcome [OF this example_ccch_ies(1-4,6) refl]
  have r: "rnti_of_int 8 = 8" by (simp add: rnti_of_int_def)
  show ?thesis using o by (auto simp: r example_slots example_ccch_ies(5))
qed

text \<open>
  C17: the RRC messages of a UE after its first one.  When the message of a new UE has been accepted, every downlink message for
  its RNTI, with or without duplication, is encoded with the identity of the CU and the one that the DU gave, taken to an \<open>int\<close>, and
  goes to the association of the instance; only if it cannot be encoded the call fails.  Every uplink message that carries the
  identity of the CU goes to the PDCP bearer of that RNTI, whatever the DU identity in it; the identities of all other UEs are as
  before.
\<close>

theorem rrc_transfer_roundtrip:
  assumes h: "f1ap_history us (cu_f1 S)" and g: "f1ap_get (cu_f1 S) CUtype 0 id = Inr I"
    and ies: "find_f1_ie du_id_ie ies = Some d" "find_f1_ie nrcgi_ie ies = Some cell" "find_f1_ie c_rnti_ie ies = Some x"
      "find_f1_ie rrc_container_ie ies = Some sdu"
    and v: "BIT_STRING_TO_NR_CELL_IDENTITY cell = Inr v" and s: "length sdu \<le> 1024"
    and r: "r = rnti_of_int x" "r \<noteq> 0" "r \<notin> fu_rnti ` set (fi_ue I)" and free: "0 \<in> fu_rnti ` set (fi_ue I)"
  shows "\<exists>S1 ind. CU_handle_INITIAL_UL_RRC_MESSAGE_TRANSFER S 0 0 ies = Inr (S1, [NR_RRC_MAC_CCCH_DATA_IND ind], 0) \<and>
    cd_rnti ind = r \<and> take (length sdu) (cd_sdu ind) = sdu \<and>
    (\<forall>encode srb dup c. CU_send_DL_RRC_MESSAGE_TRANSFER encode S1 0
        \<lparr>dl_rnti = r, dl_srb_id = srb, dl_execute_duplication = dup, dl_rrc_container = c\<rparr> =
      (case encode \<lparr>fp_present = PR_initiatingMessage, fp_procedureCode = 12,
          fp_ies = [IE_GNB_CU_UE_F1AP_ID (uint r), IE_GNB_DU_UE_F1AP_ID (int_of_long d), IE_SRBID (uint srb)] @
            (if dup then [IE_ExecuteDuplication] else []) @ [IE_RRCContainer c]\<rparr> of
         None \<Rightarrow> Inr ([], - 1)
       | Some buffer \<Rightarrow> Inr ([F1_SCTP_DATA_REQ (fi_assoc_id I) buffer 0], 0))) \<and>
    (\<forall>du srb b. CU_handle_UL_RRC_MESSAGE_TRANSFER S1 0 0
        [IE_GNB_CU_UE_F1AP_ID (uint r), IE_GNB_DU_UE_F1AP_ID du, IE_SRBID srb, IE_RRCContainer b] =
      Inr (S1, [PDCP_DATA_IND \<lparr>pi_ctxt = rlc_ctxt (uint r), pi_srb_flag = True, pi_MBMS_flag = False, pi_rb_id = srb,
        pi_sdu_buffer = b\<rparr>], 0)) \<and>
    (\<forall>q. q \<noteq> 0 \<and> q \<noteq> r \<longrightarrow>
       f1ap_get_du_ue_f1ap_id (cu_f1 S1) CUtype 0 q = f1ap_get_du_ue_f1ap_id (cu_f1 S) CUtype 0 q \<and>
       f1ap_get_cu_ue_f1ap_id (cu_f1 S1) CUtype 0 q = f1ap_get_cu_ue_f1ap_id (cu_f1 S) CUtype 0 q)"
proof -
  have len: "length (f1_du_inst (cu_f1 S)) = length (f1_cu_inst (cu_f1 S))"
    using f1ap_history_inv [OF h] by (simp add: f1ap_inv_def)
  obtain J uid where J: "inst_add_ue I r (int_of_long d) = (J, uid)" by fastforce
  define S1 where "S1 = S\<lparr>cu_f1 := f1ap_put (cu_f1 S) CUtype 0 J\<rparr>"
  have add: "f1ap_add_osc_ue (cu_f1 S) CUtype 0 r (int_of_long d) = Inr (cu_f1 S1, uid)" using f1ap_add_osc_eq [OF g] J by (simp add: S1_def)
  have gJ: "f1ap_get (cu_f1 S1) CUtype 0 id = Inr J" using f1ap_get_put [OF len g] by (simp add: S1_def)
  have "\<exists>i. uid = int i \<and> f1ap_get_du_ue_f1ap_id (cu_f1 S1) CUtype 0 r = Inr (int_of_long (int_of_long d)) \<and>
     f1ap_get_cu_ue_f1ap_id (cu_f1 S1) CUtype 0 r = Inr (uint r) \<and>
     f1ap_get_rnti_by_cu_id (cu_f1 S1) CUtype 0 (uint r) = Inr (uint r) \<and>
     (\<forall>q. q \<noteq> 0 \<and> q \<noteq> r \<longrightarrow>
       f1ap_get_du_ue_f1ap_id (cu_f1 S1) CUtype 0 q = f1ap_get_du_ue_f1ap_id (cu_f1 S) CUtype 0 q \<and>
       f1ap_get_cu_ue_f1ap_id (cu_f1 S1) CUtype 0 q = f1ap_get_cu_ue_f1ap_id (cu_f1 S) CUtype 0 q)"
    using f1ap_add_roundtrip [OF h g r(2,3) free, of "int_of_long d"] add by auto
  then have a: "0 \<le> uid" "inst_du_id J r = int_of_long d" "inst_cu_id J r = uint r" "inst_rnti_by_cu_id J (uint r) = uint r"
    "\<forall>q. q \<noteq> 0 \<and> q \<noteq> r \<longrightarrow>
       f1ap_get_du_ue_f1ap_id (cu_f1 S1) CUtype 0 q = f1ap_get_du_ue_f1ap_id (cu_f1 S) CUtype 0 q \<and>
       f1ap_get_cu_ue_f1ap_id (cu_f1 S1) CUtype 0 q = f1ap_get_cu_ue_f1ap_id (cu_f1 S) CUtype 0 q"
    by (auto simp: cu_lookups [OF gJ] int_of_long_def)
  have as: "fi_assoc_id J = fi_assoc_id I" using J by (auto simp: inst_add_ue_def split: option.splits)
  obtain ind where "CU_handle_INITIAL_UL_RRC_MESSAGE_TRANSFER S 0 0 ies = Inr (S1, [NR_RRC_MAC_CCCH_DATA_IND ind], 0)"
    "cd_rnti ind = r" "take (length sdu) (cd_sdu ind) = sdu"
    using initial_ul_eq [OF g len ies v, of J uid] s J r(1) a(1) by (auto simp: Let_def CCCH_SDU_SIZE_def S1_def)
  moreover have "CU_send_DL_RRC_MESSAGE_TRANSFER encode S1 0
        \<lparr>dl_rnti = r, dl_srb_id = srb, dl_execute_duplication = dup, dl_rrc_container = c\<rparr> =
      (case encode \<lparr>fp_present = PR_initiatingMessage, fp_procedureCode = 12,
          fp_ies = [IE_GNB_CU_UE_F1AP_ID (uint r), IE_GNB_DU_UE_F1AP_ID (int_of_long d), IE_SRBID (uint srb)] @
            (if dup then [IE_ExecuteDuplication] else []) @ [IE_RRCContainer c]\<rparr> of
         None \<Rightarrow> Inr ([], - 1)
       | Some buffer \<Rightarrow> Inr ([F1_SCTP_DATA_REQ (fi_assoc_id I) buffer 0], 0))" for encode srb dup c
    using a as by (simp add: CU_send_DL_RRC_MESSAGE_TRANSFER_def f1ap_itti_send_sctp_data_req_def cu_lookups [OF gJ] split: option.split)
  moreover have "CU_handle_UL_RRC_MESSAGE_TRANSFER S1 0 0
        [IE_GNB_CU_UE_F1AP_ID (uint r), IE_GNB_DU_UE_F1AP_ID du, IE_SRBID srb, IE_RRCContainer b] =
      Inr (S1, [PDCP_DATA_IND \<lparr>pi_ctxt = rlc_ctxt (uint r), pi_srb_flag = True, pi_MBMS_flag = False, pi_rb_id = srb,
        pi_sdu_buffer = b\<rparr>], 0)" for du srb b
    using a(4) by (simp add: CU_handle_UL_RRC_MESSAGE_TRANSFER_def f1_ie_defs cu_lookups [OF gJ] rlc_ctxt_def rnti_of_int_def)
  ultimately show ?thesis using a(5) by blast
qed

theorem rrc_transfer_roundtrip_witness:
  "\<exists>S1 ind. CU_handle_INITIAL_UL_RRC_MESSAGE_TRANSFER example_node 0 0 example_ccch = Inr (S1, [NR_RRC_MAC_CCCH_DATA_IND ind], 0) \<and>
     CU_handle_UL_RRC_MESSAGE_TRANSFER S1 0 0
       [IE_GNB_CU_UE_F1AP_ID 8, IE_GNB_DU_UE_F1AP_ID 6, IE_SRBID 1, IE_RRCContainer [3]] =
       Inr (S1, [PDCP_DATA_IND \<lparr>pi_ctxt = rlc_ctxt 8, pi_srb_flag = True, pi_MBMS_flag = False, pi_rb_id = 1,
         pi_sdu_buffer = [3]\<rparr>], 0) \<and>
     CU_send_DL_RRC_MESSAGE_TRANSFER
       (\<lambda>m. if fp_ies m = [IE_GNB_CU_UE_F1AP_ID 8, IE_GNB_DU_UE_F1AP_ID 6, IE_SRBID 1, IE_ExecuteDuplication, IE_RRCContainer [4]]
             then Some [9] else None) S1 0
       \<lparr>dl_rnti = 8, dl_srb_id = 1, dl_execute_duplication = True, dl_rrc_container = [4]\<rparr> = Inr ([F1_SCTP_DATA_REQ 0 [9] 0], 0)"
proof -
  have g: "f1ap_history [] (cu_f1 example_node)" "f1ap_get (cu_f1 example_node) CUtype 0 id = Inr f1ap_example_inst"
    by (simp_all add: example_node_simps f1ap_example_history f1ap_example_get)
  have r: "8 = rnti_of_int 8" "(8 :: u16) \<noteq> 0" "8 \<notin> fu_rnti ` set (fi_ue f1ap_example_inst)"
    by (simp_all add: rnti_of_int_def example_slots)
  have l: "length [1 :: byte, 2] \<le> 1024" "0 \<in> fu_rnti ` set (fi_ue f1ap_example_inst)" "int_of_long 6 = 6"
    by (simp_all add: example_slots int_of_long_def)
  have as: "fi_assoc_id f1ap_example_inst = 0" by (simp add: f1ap_example_inst_def)
  obtain S1 ind where S1: "CU_handle_INITIAL_UL_RRC_MESSAGE_TRANSFER example_node 0 0 example_ccch = Inr (S1, [NR_RRC_MAC_CCCH_DATA_IND ind], 0)"
    "\<forall>encode srb dup c. CU_send_DL_RRC_MESSAGE_TRANSFER encode S1 0
        \<lparr>dl_rnti = 8, dl_srb_id = srb, dl_execute_duplication = dup, dl_rrc_container = c\<rparr> =
      (case encode \<lparr>fp_present = PR_initiatingMessage, fp_procedureCode = 12,
          fp_ies = [IE_GNB_CU_UE_F1AP_ID (uint (8 :: u16)), IE_GNB_DU_UE_F1AP_ID (int_of_long 6), IE_SRBID (uint srb)] @
            (if dup then [IE_ExecuteDuplication] else []) @ [IE_RRCContainer c]\<rparr> of
         None \<Rightarrow> Inr ([], - 1)
       | Some buffer \<Rightarrow> Inr ([F1_SCTP_DATA_REQ (fi_assoc_id f1ap_example_inst) buffer 0], 0))"
    "\<forall>du srb b. CU_handle_UL_RRC_MESSAGE_TRANSFER S1 0 0
        [IE_GNB_CU_UE_F1AP_ID (uint (8 :: u16)), IE_GNB_DU_UE_F1AP_ID du, IE_SRBID srb, IE_RRCContainer b] =
      Inr (S1, [PDCP_DATA_IND \<lparr>pi_ctxt = rlc_ctxt (uint (8 :: u16)), pi_srb_flag = True, pi_MBMS_flag = False, pi_rb_id = srb,
        pi_sdu_buffer = b\<rparr>], 0)"
    using rrc_transfer_roundtrip [OF g example_ccch_ies(1-4,6) l(1) r l(2)] by (elim exE conjE) (rule that)
  have "CU_send_DL_RRC_MESSAGE_TRANSFER
       (\<lambda>m. if fp_ies m = [IE_GNB_CU_UE_F1AP_ID 8, IE_GNB_DU_UE_F1AP_ID 6, IE_SRBID 1, IE_ExecuteDuplication, IE_RRCContainer [4]]
             then Some [9] else None) S1 0
       \<lparr>dl_rnti = 8, dl_srb_id = 1, dl_execute_duplication = True, dl_rrc_container = [4]\<rparr> = Inr ([F1_SCTP_DATA_REQ 0 [9] 0], 0)"
    unfolding S1(2) [rule_format] by (simp add: l(3) as)
  then show ?thesis using S1(1) S1(3) [rule_format, of 6 1 "[3]"] by auto
qed

text \<open>
  C19: an uplink RRC message on its way through F1 and PDCP.  It is queued for the UE that the identity of the CU leads to, or for
  RNTI 0xFFFF if it leads to none.  When the PDCP thread takes it, the bearer of that UE receives the PDU, if the bearer exists and
  the PDU has at least a header; without such a bearer, as for every unknown UE, the process ends.
\<close>

theorem uplink_rrc_outcome:
  assumes g: "f1ap_get (cu_f1 S) CUtype 0 id = Inr I"
    and ies: "find_f1_ie cu_id_ie ies = Some cu" "find_f1_ie du_id_ie ies = Some d" "find_f1_ie srb_id_ie ies = Some srb"
      "find_f1_ie rrc_container_ie ies = Some b"
    and pdcp: "api_history E True ms (cu_pdcp S)" "ctr_mode (en_crypto E)"
    and r: "r = uint (rnti_of_int (inst_rnti_by_cu_id I cu))"
    and u: "u = (case mg_view (pl_manager (cu_pdcp S)) r of None \<Rightarrow> empty_ue r | Some u \<Rightarrow> u)"
  shows "(cu \<notin> fu_cu_ue_f1ap_id ` set (fi_ue I) \<longrightarrow> r = 0xFFFF) \<and>
    (\<exists>item. CU_handle_UL_RRC_MESSAGE_TRANSFER S 0 0 ies = Inr (S, [PDCP_DATA_IND item], 0) \<and>
      (case rb_lookup u True srb of
         None \<Rightarrow> handle_pdcp_data_ind E (cu_pdcp S) item = Inl Exit
       | Some p \<Rightarrow> \<exists>e. rb_slot u p = Some e \<and>
           (if 0 < length b \<and> int (length b) < pdcp_header_size e
            then handle_pdcp_data_ind E (cu_pdcp S) item = Inl OutOfBounds
            else \<exists>e' evs L'. nr_pdcp_entity_recv_pdu (en_crypto E) e b = Inr (e', evs) \<and>
              handle_pdcp_data_ind E (cu_pdcp S) item = Inr (L', concat (map (delivery (pl_sdap (cu_pdcp S)) r p e') evs)) \<and>
              mg_view (pl_manager L') r = Some (rb_store u p e') \<and> pl_sdap L' = pl_sdap (cu_pdcp S))))"
proof
  show "cu \<notin> fu_cu_ue_f1ap_id ` set (fi_ue I) \<longrightarrow> r = 0xFFFF"
  proof
    assume "cu \<notin> fu_cu_ue_f1ap_id ` set (fi_ue I)"
    then have "first_slot (\<lambda>u. fu_cu_ue_f1ap_id u = cu) (fi_ue I) = None" by (auto simp: first_slot_None)
    then show "r = 0xFFFF" by (simp add: r inst_lookup_defs rnti_of_int_def unsigned_minus_1_eq_mask mask_eq_exp_minus_1)
  qed
  define item where "item = \<lparr>pi_ctxt = rlc_ctxt r, pi_srb_flag = True, pi_MBMS_flag = False, pi_rb_id = srb, pi_sdu_buffer = b\<rparr>"
  have q: "CU_handle_UL_RRC_MESSAGE_TRANSFER S 0 0 ies = Inr (S, [PDCP_DATA_IND item], 0)"
    using ies by (simp add: CU_handle_UL_RRC_MESSAGE_TRANSFER_def mandatory_def cu_lookups [OF g] rlc_ctxt_def item_def r)
  have hd: "handle_pdcp_data_ind E (cu_pdcp S) item = do_pdcp_data_ind E (cu_pdcp S) (rlc_ctxt r) True srb b"
    by (simp add: handle_pdcp_data_ind_def item_def)
  have c: "cx_module_id (rlc_ctxt r) = 0" "cx_instance (rlc_ctxt r) = 0" "cx_eNB_index (rlc_ctxt r) = 0"
    "\<not> cx_brOption (rlc_ctxt r)" "r = cx_rnti (rlc_ctxt r)" by (simp_all add: rlc_ctxt_def)
  note o = pdcp_uplink_outcome [OF pdcp c u, of True srb b]
  show "\<exists>item. CU_handle_UL_RRC_MESSAGE_TRANSFER S 0 0 ies = Inr (S, [PDCP_DATA_IND item], 0) \<and>
      (case rb_lookup u True srb of
         None \<Rightarrow> handle_pdcp_data_ind E (cu_pdcp S) item = Inl Exit
       | Some p \<Rightarrow> \<exists>e. rb_slot u p = Some e \<and>
           (if 0 < length b \<and> int (length b) < pdcp_header_size e
            then handle_pdcp_data_ind E (cu_pdcp S) item = Inl OutOfBounds
            else \<exists>e' evs L'. nr_pdcp_entity_recv_pdu (en_crypto E) e b = Inr (e', evs) \<and>
              handle_pdcp_data_ind E (cu_pdcp S) item = Inr (L', concat (map (delivery (pl_sdap (cu_pdcp S)) r p e') evs)) \<and>
              mg_view (pl_manager L') r = Some (rb_store u p e') \<and> pl_sdap L' = pl_sdap (cu_pdcp S)))"
    by (rule exI [of _ item], rule conjI, rule q, unfold hd, rule o)
qed

theorem uplink_rrc_outcome_witness:
  "\<exists>item. CU_handle_UL_RRC_MESSAGE_TRANSFER example_node 0 0
      [IE_GNB_CU_UE_F1AP_ID 99, IE_GNB_DU_UE_F1AP_ID 5, IE_SRBID 1, IE_RRCContainer [1, 2, 3]] = Inr (example_node, [PDCP_DATA_IND item], 0) \<and>
    handle_pdcp_data_ind (ex_env True) (cu_pdcp example_node) item = Inl Exit"
proof -
  let ?ies = "[IE_GNB_CU_UE_F1AP_ID 99, IE_GNB_DU_UE_F1AP_ID 5, IE_SRBID 1, IE_RRCContainer [1, 2, 3]]"
  have g: "f1ap_get (cu_f1 example_node) CUtype 0 id = Inr f1ap_example_inst" by (simp add: example_node_simps f1ap_example_get)
  have f: "find_f1_ie cu_id_ie ?ies = Some 99" "find_f1_ie du_id_ie ?ies = Some 5" "find_f1_ie srb_id_ie ?ies = Some 1"
    "find_f1_ie rrc_container_ie ?ies = Some [1, 2, 3]" by (simp_all add: f1_ie_defs)
  have a: "api_history (ex_env True) True [] (cu_pdcp example_node)" using ex_history by (simp add: example_node_simps)
  have P: "ctr_mode (en_crypto (ex_env True))" using toy_crypto_ctr_mode by (simp add: ex_env_def)
  have r: "uint (rnti_of_int (inst_rnti_by_cu_id f1ap_example_inst 99)) = 0xFFFF"
    by (simp add: example_ids rnti_of_int_def unsigned_minus_1_eq_mask mask_eq_exp_minus_1)
  have "rb_lookup (case mg_view (pl_manager (ex_layer True False)) 0xFFFF of None \<Rightarrow> empty_ue 0xFFFF | Some u \<Rightarrow> u) True 1 = None"
    by code_simp
  then show ?thesis using uplink_rrc_outcome [OF g f a P r [symmetric] refl] by (auto simp: example_node_simps)
qed

end
