(* ===== verification/F1ap_Release.thy ===== *)
theory F1ap_Release
  imports F1ap_Cu
begin

text \<open>
  The release of many UEs.  The locale \<open>ue_removal\<close> is the contract of a place from which UEs are removed one at a time; the UE
  contexts of RRC, the bearers of PDCP, the table of F1 and the CU as a whole fulfil it.
\<close>

subsection \<open>The contract\<close>

fun remove_all :: "('s \<Rightarrow> 'k \<Rightarrow> ('s \<times> 'o list) res) \<Rightarrow> 's \<Rightarrow> 'k list \<Rightarrow> ('s \<times> 'o list) res" where
  "remove_all rm s [] = Inr (s, [])"
| "remove_all rm s (k # ks) = bnd (rm s k) (\<lambda>(s1, out). bnd (remove_all rm s1 ks) (\<lambda>(s2, out2). Inr (s2, out @ out2)))"

text \<open>
  What a place holds of a UE is a value, \<open>gone\<close> when it holds nothing.  Removing a UE that is there succeeds, reports
  what is due for it, and leaves all others as they are.
\<close>

locale ue_removal =
  fixes inv :: "'s \<Rightarrow> bool" and view :: "'s \<Rightarrow> 'k \<Rightarrow> 'v" and gone :: 'v and there :: "'v \<Rightarrow> bool" and report :: "'v \<Rightarrow> 'o list"
    and rm :: "'s \<Rightarrow> 'k \<Rightarrow> ('s \<times> 'o list) res"
  assumes removed: "inv s \<Longrightarrow> there (view s k) \<Longrightarrow>
    \<exists>s'. rm s k = Inr (s', report (view s k)) \<and> inv s' \<and> view s' = (view s)(k := gone)"
begin

lemma removes_all:
  "inv s \<Longrightarrow> distinct ks \<Longrightarrow> \<forall>k\<in>set ks. there (view s k) \<Longrightarrow>
   \<exists>s'. remove_all rm s ks = Inr (s', concat (map (\<lambda>k. report (view s k)) ks)) \<and> inv s' \<and>
     view s' = (\<lambda>k. if k \<in> set ks then gone else view s k)"
proof (induction ks arbitrary: s)
  case (Cons k ks)
  obtain s1 where s1: "rm s k = Inr (s1, report (view s k))" "inv s1" "view s1 = (view s)(k := gone)"
    using removed [OF Cons.prems(1), of k] Cons.prems(3) by auto
  have same: "view s1 j = view s j" if "j \<in> set ks" for j using that Cons.prems(2) s1(3) by auto
  have m: "map (\<lambda>k. report (view s1 k)) ks = map (\<lambda>k. report (view s k)) ks" using same by simp
  have d: "distinct ks" "\<forall>j\<in>set ks. there (view s1 j)" using Cons.prems(2,3) same by simp_all
  obtain s2 where s2: "remove_all rm s1 ks = Inr (s2, concat (map (\<lambda>k. report (view s k)) ks))" "inv s2"
    "view s2 = (\<lambda>k. if k \<in> set ks then gone else view s1 k)"
    using Cons.IH [OF s1(2) d] unfolding m by blast
  have "view s2 = (\<lambda>j. if j \<in> set (k # ks) then gone else view s j)" by (auto simp: s2(3) s1(3))
  then show ?case using s1(1) s2(1,2) by simp
qed simp

lemma order_irrelevant:
  assumes "inv s" "distinct ks" "distinct js" "set js = set ks" "\<forall>k\<in>set ks. there (view s k)"
  shows "\<exists>s1 s2 o1 o2. remove_all rm s ks = Inr (s1, o1) \<and> remove_all rm s js = Inr (s2, o2) \<and> view s1 = view s2 \<and> set o1 = set o2"
proof -
  obtain s1 where "remove_all rm s ks = Inr (s1, concat (map (\<lambda>k. report (view s k)) ks))"
    "view s1 = (\<lambda>k. if k \<in> set ks then gone else view s k)" using removes_all [OF assms(1,2,5)] by blast
  moreover obtain s2 where "remove_all rm s js = Inr (s2, concat (map (\<lambda>k. report (view s k)) js))"
    "view s2 = (\<lambda>k. if k \<in> set ks then gone else view s k)"
    using removes_all [OF assms(1,3)] assms(4,5) by auto
  ultimately show ?thesis using assms(4) by simp
qed

end

subsection \<open>Providers\<close>

text \<open>RRC: what NGAP knows of the context of a UE.\<close>

definition rrc_ue :: "rrc_gnb \<Rightarrow> u16 \<Rightarrow> u32 option" where
  "rrc_ue R r = map_option (\<lambda>c. un_gNB_ue_ngap_id (rg_ue R (uc_addr c))) (rrc_gNB_get_ue_context (rg_inst R) r)"

definition ngap_report :: "u32 option \<Rightarrow> cu_out list" where
  "ngap_report v = (case v of Some g \<Rightarrow> [TO_NGAP (NGAP_UE_CONTEXT_RELEASE_COMPLETE g)] | None \<Rightarrow> [])"

lemma ngap_report_eq:
  "(case rrc_gNB_get_ue_context (rg_inst R) r of
      Some c \<Rightarrow> [TO_NGAP (NGAP_UE_CONTEXT_RELEASE_COMPLETE (un_gNB_ue_ngap_id (rg_ue R (uc_addr c))))] | None \<Rightarrow> []) =
   ngap_report (rrc_ue R r)"
  by (simp add: ngap_report_def rrc_ue_def split: option.split)

interpretation rrc_rm: ue_removal "\<lambda>R. rrc_inv (rg_inst R)" rrc_ue None "\<lambda>_. True" ngap_report rrc_release_complete
proof
  fix R :: rrc_gnb and r
  assume inv: "rrc_inv (rg_inst R)"
  obtain I where I: "rrc_release_complete R r = Inr (R\<lparr>rg_inst := I\<rparr>, ngap_report (rrc_ue R r))"
    "rrc_inv I" "\<forall>q. rrc_gNB_get_ue_context I q = (if q = r then None else rrc_gNB_get_ue_context (rg_inst R) q)"
    using rrc_release_complete_ok [OF inv] unfolding ngap_report_eq by blast
  have "rrc_ue (R\<lparr>rg_inst := I\<rparr>) = (rrc_ue R)(r := None)" using I(3) by (auto simp: rrc_ue_def fun_eq_iff)
  then show "\<exists>R'. rrc_release_complete R r = Inr (R', ngap_report (rrc_ue R r)) \<and> rrc_inv (rg_inst R') \<and> rrc_ue R' = (rrc_ue R)(r := None)"
    using I(1,2) by (intro exI [of _ "R\<lparr>rg_inst := I\<rparr>"]) simp
qed

text \<open>PDCP: the bearers of a UE.\<close>

interpretation pdcp_rm: ue_removal "\<lambda>L. mg_inv (pl_manager L)" "\<lambda>L. mg_view (pl_manager L)" None "\<lambda>_. True"
  "\<lambda>_. [] :: cu_out list" "\<lambda>L r. Inr (pdcp_remove_UE L (rlc_ctxt r), [])"
proof
  fix L :: pdcp_layer and r
  assume inv: "mg_inv (pl_manager L)"
  show "\<exists>s'. Inr (pdcp_remove_UE L (rlc_ctxt r), []) = Inr (s', []) \<and> mg_inv (pl_manager s') \<and>
      mg_view (pl_manager s') = (mg_view (pl_manager L))(r := None)"
    using mg.view_remove [OF inv] mg.inv_remove [OF inv] by (simp add: pdcp_remove_UE_def rlc_ctxt_def)
qed

text \<open>The table of F1 at the CU: the identity of the DU for each UE.\<close>

definition f1_ue :: "f1ap_cudu_inst \<Rightarrow> u16 \<Rightarrow> int option" where
  "f1_ue I r = (if r \<noteq> 0 \<and> r \<in> fu_rnti ` set (fi_ue I) then Some (inst_du_id I r) else None)"

text \<open>
  A table in which every identity, of the CU and of the DU, leads to its UE.  Those of the CU do by construction.  Those of
  the DU are its choice: they must fit an \<open>int\<close>, and no earlier slot, even a free one, may hold the same.
\<close>

definition f1_du_ids :: "f1ap_cudu_inst \<Rightarrow> bool" where
  "f1_du_ids I \<longleftrightarrow> (\<forall>i\<in>f1ap_live I. int_of_long (fu_du_ue_f1ap_id (fi_ue I ! i)) = fu_du_ue_f1ap_id (fi_ue I ! i) \<and>
     (\<forall>j<i. fu_du_ue_f1ap_id (fi_ue I ! j) \<noteq> fu_du_ue_f1ap_id (fi_ue I ! i)))"

definition f1_unique :: "f1ap_cudu_inst \<Rightarrow> bool" where
  "f1_unique I \<longleftrightarrow> f1ap_inst_inv I \<and> f1ap_cu_ids I \<and> f1_du_ids I"

lemmas f1_unique_defs = f1_unique_def f1_du_ids_def

lemma f1_ue_live:
  assumes "f1_unique I" "f1_ue I r = Some d"
  obtains i where "i \<in> f1ap_live I" "fu_rnti (fi_ue I ! i) = r" "fu_du_ue_f1ap_id (fi_ue I ! i) = d"
proof -
  have r: "r \<in> fu_rnti ` set (fi_ue I)" "r \<noteq> 0" "d = inst_du_id I r" using assms(2) by (auto simp: f1_ue_def split: if_splits)
  obtain i where i: "i \<in> f1ap_live I" "fu_rnti (fi_ue I ! i) = r" using rnti_live [OF r(1,2)] .
  have "inst_du_id I r = int_of_long (fu_du_ue_f1ap_id (fi_ue I ! i))"
    using live_lookup(1) [of I i] i assms(1) by (simp add: f1_unique_def)
  then show thesis using that [OF i] i(1) assms(1) r(3) by (simp add: f1_unique_defs)
qed

lemma f1_ue_remove:
  assumes "f1_unique I" "f1_ue I r = Some d"
  shows "f1_unique (inst_remove_ue I r)" "f1_ue (inst_remove_ue I r) = (f1_ue I)(r := None)"
proof -
  obtain i where i: "i \<in> f1ap_live I" "fu_rnti (fi_ue I ! i) = r" using f1_ue_live [OF assms] .
  let ?J = "inst_remove_ue I r"
  have inv: "f1ap_inst_inv I" "f1ap_cu_ids I" using assms(1) by (simp_all add: f1_unique_def)
  note rk = remove_known [OF inv(1) i]
  have il: "i < length (fi_ue I)" and r0: "r \<noteq> 0" using i by (auto simp: f1ap_live_def)
  have fJ: "fi_ue ?J = (fi_ue I)[i := (fi_ue I ! i)\<lparr>fu_rnti := 0\<rparr>]" using rk(1) by simp
  have du: "fu_du_ue_f1ap_id (fi_ue ?J ! j) = fu_du_ue_f1ap_id (fi_ue I ! j)" for j using il by (cases "j = i") (simp_all add: fJ)
  show "f1_unique ?J" using assms(1) rk(2,3,4) inv unfolding f1_unique_defs du by auto
  have rntis: "fu_rnti ` set (fi_ue ?J) - {0} = fu_rnti ` set (fi_ue I) - {0, r}"
  proof -
    have img: "fu_rnti ` set (fi_ue K) - {0} = (\<lambda>j. fu_rnti (fi_ue K ! j)) ` f1ap_live K" for K
      by (auto simp: f1ap_live_def in_set_conv_nth intro!: imageI)
    have "(\<lambda>j. fu_rnti (fi_ue ?J ! j)) ` f1ap_live ?J = (\<lambda>j. fu_rnti (fi_ue I ! j)) ` (f1ap_live I - {i})"
      unfolding rk(2) by (intro image_cong) (auto simp: fJ)
    also have "\<dots> = (\<lambda>j. fu_rnti (fi_ue I ! j)) ` f1ap_live I - {r}"
      using inv(1) i by (auto simp: f1ap_inst_inv_def inj_on_def)
    finally show ?thesis using img [of ?J] img [of I] by auto
  qed
  have "inst_du_id ?J q = inst_du_id I q" if "q \<noteq> 0" "q \<noteq> r" for q
    unfolding inst_du_id_def by (rule inst_lookup_update [OF il _ _ fJ]) (use that i(2) in simp_all)
  then show "f1_ue ?J = (f1_ue I)(r := None)" using rntis r0 by (auto simp: f1_ue_def fun_eq_iff)
qed

interpretation f1_rm: ue_removal f1_unique f1_ue None "\<lambda>v. v \<noteq> None" "\<lambda>_. [] :: cu_out list" "\<lambda>I r. Inr (inst_remove_ue I r, [])"
proof
  fix I r
  assume "f1_unique I" "f1_ue I r \<noteq> None"
  then obtain d where "f1_unique I" "f1_ue I r = Some d" by blast
  from f1_ue_remove [OF this] show "\<exists>s'. Inr (inst_remove_ue I r, []) = Inr (s', []) \<and> f1_unique s' \<and> f1_ue s' = (f1_ue I)(r := None)"
    by simp
qed

subsection \<open>The whole CU\<close>

text \<open>
  The DU answers the release of a UE with the two identities of the command.  Those are the ones that the CU looks up for the RNTI,
  so the identity of the DU has already been taken to an \<open>int\<close> when the CU compares it with its table.  The CU handles the answers
  in the order in which they come.
\<close>

definition release_answer :: "cu_node \<Rightarrow> u16 \<Rightarrow> (cu_node \<times> cu_out list) res" where
  "release_answer S r =
     bnd (f1ap_get_cu_ue_f1ap_id (cu_f1 S) CUtype 0 r) (\<lambda>cu.
     bnd (f1ap_get_du_ue_f1ap_id (cu_f1 S) CUtype 0 r) (\<lambda>du.
     bnd (CU_handle_UE_CONTEXT_RELEASE_COMPLETE S 0 [IE_GNB_CU_UE_F1AP_ID cu, IE_GNB_DU_UE_F1AP_ID du]) (\<lambda>(S', out, _).
       Inr (S', out))))"

definition cu_f1_inst :: "cu_node \<Rightarrow> f1ap_cudu_inst" where
  "cu_f1_inst S = (case f1ap_get (cu_f1 S) CUtype 0 id of Inr I \<Rightarrow> I | Inl _ \<Rightarrow> empty_f1ap_inst)"

text \<open>What the CU holds of a UE: the identity of the DU in F1, that of NGAP in RRC, and the bearers in PDCP.\<close>

definition cu_ue :: "cu_node \<Rightarrow> u16 \<Rightarrow> int option \<times> u32 option \<times> nr_pdcp_entity ue option" where
  "cu_ue S r = (f1_ue (cu_f1_inst S) r, rrc_ue (cu_rrc S) r, mg_view (pl_manager (cu_pdcp S)) (uint r))"

definition cu_ready :: "cu_node \<Rightarrow> bool" where
  "cu_ready S \<longleftrightarrow> (\<exists>I. f1ap_get (cu_f1 S) CUtype 0 id = Inr I \<and> f1_unique I) \<and>
     length (f1_du_inst (cu_f1 S)) = length (f1_cu_inst (cu_f1 S)) \<and>
     rrc_inv (rg_inst (cu_rrc S)) \<and> mg_inv (pl_manager (cu_pdcp S))"

lemma unique_du_resolves:
  assumes "f1_unique I" "i \<in> f1ap_live I"
  shows "inst_rnti_by_du_id I (fu_du_ue_f1ap_id (fi_ue I ! i)) = uint (fu_rnti (fi_ue I ! i))"
proof -
  have "first_slot (\<lambda>u. fu_du_ue_f1ap_id u = fu_du_ue_f1ap_id (fi_ue I ! i)) (fi_ue I) = Some i"
    using assms by (auto simp: f1_unique_defs f1ap_live_def first_slot_Some)
  then show ?thesis by (simp add: inst_lookup_defs)
qed

lemma cu_removed:
  assumes "cu_ready S" "fst (cu_ue S r) \<noteq> None"
  shows "\<exists>S'. release_answer S r = Inr (S', ngap_report (fst (snd (cu_ue S r)))) \<and> cu_ready S' \<and>
    cu_ue S' = (cu_ue S)(r := (None, None, None))"
proof -
  obtain I where g: "f1ap_get (cu_f1 S) CUtype 0 id = Inr I" and u: "f1_unique I" using assms(1) by (auto simp: cu_ready_def)
  have inst: "cu_f1_inst S = I" by (simp add: cu_f1_inst_def g)
  obtain d where d: "f1_ue I r = Some d" using assms(2) by (auto simp: cu_ue_def inst)
  obtain i where i: "i \<in> f1ap_live I" "fu_rnti (fi_ue I ! i) = r" "fu_du_ue_f1ap_id (fi_ue I ! i) = d" using f1_ue_live [OF u d] .
  have F: "f1ap_inst_inv I" "f1ap_cu_ids I" using u by (simp_all add: f1_unique_def)
  have ids: "inst_cu_id I r = uint r" "inst_du_id I r = d" "inst_rnti_by_cu_id I (uint r) = uint r" "inst_rnti_by_du_id I d = uint r"
    using live_lookup [OF F(1) i(1)] cu_id_resolves [OF F(2) i(1)] unique_du_resolves [OF u i(1)] F(2) u i
      d [unfolded f1_ue_def]
    by (simp_all add: f1ap_cu_ids_def split: if_splits)
  have ies: "find_f1_ie cu_id_ie [IE_GNB_CU_UE_F1AP_ID (uint r), IE_GNB_DU_UE_F1AP_ID d] = Some (uint r)"
    "find_f1_ie du_id_ie [IE_GNB_CU_UE_F1AP_ID (uint r), IE_GNB_DU_UE_F1AP_ID d] = Some d" by (simp_all add: f1_ie_defs)
  have inv: "rrc_inv (rg_inst (cu_rrc S))" "mg_inv (pl_manager (cu_pdcp S))"
    and len: "length (f1_du_inst (cu_f1 S)) = length (f1_cu_inst (cu_f1 S))" using assms(1) by (simp_all add: cu_ready_def)
  have rr: "rnti_of_int (inst_rnti_by_cu_id I (uint r)) = r" "rnti_of_int (inst_rnti_by_du_id I d) = r"
    by (simp_all add: ids rnti_of_int_def)
  obtain S' where S': "CU_handle_UE_CONTEXT_RELEASE_COMPLETE S 0 [IE_GNB_CU_UE_F1AP_ID (uint r), IE_GNB_DU_UE_F1AP_ID d] =
        Inr (S', ngap_report (rrc_ue (cu_rrc S) r), 0)"
      "\<forall>q. rrc_gNB_get_ue_context (rg_inst (cu_rrc S')) q = (if q = r then None else rrc_gNB_get_ue_context (rg_inst (cu_rrc S)) q)"
      "cu_rrc S' = (cu_rrc S)\<lparr>rg_inst := rg_inst (cu_rrc S')\<rparr>"
      "mg_view (pl_manager (cu_pdcp S')) = (mg_view (pl_manager (cu_pdcp S)))(uint r := None)"
      "cu_f1 S' = f1ap_put (cu_f1 S) CUtype 0 (inst_remove_ue I r)"
      "rrc_inv (rg_inst (cu_rrc S'))" "mg_inv (pl_manager (cu_pdcp S'))"
    using release_complete_eq [OF g inv ies rr] unfolding ngap_report_eq by blast
  have ans: "release_answer S r = Inr (S', ngap_report (fst (snd (cu_ue S r))))"
    by (simp add: release_answer_def cu_lookups [OF g] ids S'(1) cu_ue_def)
  have g': "f1ap_get (cu_f1 S') CUtype 0 id = Inr (inst_remove_ue I r)" unfolding S'(5) using f1ap_get_put [OF len g] by simp
  have len': "length (f1_du_inst (cu_f1 S')) = length (f1_cu_inst (cu_f1 S'))" unfolding S'(5) using len by (simp add: f1ap_put_def)
  have ready: "cu_ready S'" unfolding cu_ready_def using g' f1_ue_remove(1) [OF u d] len' S'(6,7) by blast
  have ue: "rg_ue (cu_rrc S') = rg_ue (cu_rrc S)" by (subst S'(3)) simp
  have "rrc_ue (cu_rrc S') = (rrc_ue (cu_rrc S))(r := None)" using S'(2) ue by (auto simp: rrc_ue_def fun_eq_iff)
  moreover have "cu_f1_inst S' = inst_remove_ue I r" by (simp add: cu_f1_inst_def g')
  ultimately have "cu_ue S' = (cu_ue S)(r := (None, None, None))"
    by (auto simp: cu_ue_def fun_eq_iff f1_ue_remove(2) [OF u d] inst S'(4) word_uint_eq_iff)
  then show ?thesis using ans ready by blast
qed

interpretation cu_rm: ue_removal cu_ready cu_ue "(None, None, None)" "\<lambda>v. fst v \<noteq> None" "\<lambda>v. ngap_report (fst (snd v))" release_answer
  by unfold_locales (rule cu_removed)

lemma f1_ue_lookup: "q \<noteq> 0 \<Longrightarrow> inst_du_id I q = (case f1_ue I q of Some d \<Rightarrow> d | None \<Rightarrow> - 1)"
  using unknown_lookup(1) [of q I] by (auto simp: f1_ue_def)

lemma reachable_cu_ready:
  assumes "f1ap_history us (cu_f1 S)" "f1ap_get (cu_f1 S) CUtype 0 id = Inr I" "f1_du_ids I"
    and "rrc_history nb (rg_inst (cu_rrc S)) k" "api_history E gnb ms (cu_pdcp S)"
  shows "cu_ready S"
proof -
  have "f1ap_inv (cu_f1 S)" using f1ap_history_inv [OF assms(1)] .
  then show ?thesis
    using assms(2,3) rrc_history_inv [OF assms(4)] api_history_ok [OF assms(5)]
    by (auto simp: cu_ready_def f1_unique_def f1ap_inv_def layer_ok_def)
qed

lemma release_all_forgets:
  assumes "f1ap_history us (cu_f1 S)" "f1ap_get (cu_f1 S) CUtype 0 id = Inr I" "f1_du_ids I"
    and "rrc_history nb (rg_inst (cu_rrc S)) k" "api_history E gnb ms (cu_pdcp S)"
    and "distinct rs" "set rs \<subseteq> fu_rnti ` set (fi_ue I)" "0 \<notin> set rs"
  shows "\<exists>S'. remove_all release_answer S rs =
      Inr (S', concat (map (\<lambda>r. case rrc_gNB_get_ue_context (rg_inst (cu_rrc S)) r of
        Some c \<Rightarrow> [TO_NGAP (NGAP_UE_CONTEXT_RELEASE_COMPLETE (un_gNB_ue_ngap_id (rg_ue (cu_rrc S) (uc_addr c))))] | None \<Rightarrow> []) rs)) \<and>
    (\<forall>q. rrc_ue (cu_rrc S') q = (if q \<in> set rs then None else rrc_ue (cu_rrc S) q)) \<and>
    (\<forall>q. mg_view (pl_manager (cu_pdcp S')) (uint q) = (if q \<in> set rs then None else mg_view (pl_manager (cu_pdcp S)) (uint q))) \<and>
    (\<forall>q. q \<noteq> 0 \<longrightarrow> f1ap_get_du_ue_f1ap_id (cu_f1 S') CUtype 0 q =
       (if q \<in> set rs then Inr (- 1) else f1ap_get_du_ue_f1ap_id (cu_f1 S) CUtype 0 q))"
proof -
  have inst: "cu_f1_inst S = I" by (simp add: cu_f1_inst_def assms(2))
  have "\<forall>r\<in>set rs. fst (cu_ue S r) \<noteq> None" using assms(7,8) by (auto simp: cu_ue_def inst f1_ue_def)
  then obtain S' where S': "remove_all release_answer S rs = Inr (S', concat (map (\<lambda>r. ngap_report (fst (snd (cu_ue S r)))) rs))"
      "cu_ready S'" "cu_ue S' = (\<lambda>r. if r \<in> set rs then (None, None, None) else cu_ue S r)"
    using cu_rm.removes_all [OF reachable_cu_ready [OF assms(1-5)] assms(6)] by blast
  obtain I' where I': "f1ap_get (cu_f1 S') CUtype 0 id = Inr I'" using S'(2) by (auto simp: cu_ready_def)
  have inst': "cu_f1_inst S' = I'" by (simp add: cu_f1_inst_def I')
  have u: "cu_ue S' q = (if q \<in> set rs then (None, None, None) else cu_ue S q)" for q by (simp add: S'(3))
  have f1: "f1_ue I' q = (if q \<in> set rs then None else f1_ue I q)"
    and rrc: "rrc_ue (cu_rrc S') q = (if q \<in> set rs then None else rrc_ue (cu_rrc S) q)"
    and pdcp: "mg_view (pl_manager (cu_pdcp S')) (uint q) = (if q \<in> set rs then None else mg_view (pl_manager (cu_pdcp S)) (uint q))" for q
    using u [of q] by (simp_all add: cu_ue_def inst inst' split: if_splits)
  have "f1ap_get_du_ue_f1ap_id (cu_f1 S') CUtype 0 q =
       (if q \<in> set rs then Inr (- 1) else f1ap_get_du_ue_f1ap_id (cu_f1 S) CUtype 0 q)" if "q \<noteq> 0" for q
    unfolding cu_lookups [OF assms(2)] cu_lookups [OF I'] f1_ue_lookup [OF that] f1 by simp
  then show ?thesis using S'(1) rrc pdcp unfolding ngap_report_eq by (simp add: cu_ue_def)
qed

text \<open>An identity that an earlier slot holds as well leads to the wrong UE, or to RNTI 0.\<close>

lemma release_of_ambiguous:
  assumes h: "f1ap_history us (cu_f1 S)" "f1ap_get (cu_f1 S) CUtype 0 id = Inr I"
    and i: "i \<in> f1ap_live I" and j: "j < i" "fu_du_ue_f1ap_id (fi_ue I ! j) = int_of_long (fu_du_ue_f1ap_id (fi_ue I ! i))"
  shows "release_answer S (fu_rnti (fi_ue I ! i)) = Inl Exit"
proof -
  have F: "f1ap_inst_inv I" "f1ap_cu_ids I" using f1ap_history_inv [OF h(1)] h(2) by (auto simp: f1ap_inv_def)
  let ?r = "fu_rnti (fi_ue I ! i)" and ?d = "int_of_long (fu_du_ue_f1ap_id (fi_ue I ! i))"
  have il: "i < length (fi_ue I)" and r0: "?r \<noteq> 0" using i by (simp_all add: f1ap_live_def)
  have "fi_ue I ! j \<in> set (fi_ue I)" using j(1) il by simp
  then have "first_slot (\<lambda>u. fu_du_ue_f1ap_id u = ?d) (fi_ue I) \<noteq> None" using j(2) by (auto simp: first_slot_None)
  then obtain k where k: "first_slot (\<lambda>u. fu_du_ue_f1ap_id u = ?d) (fi_ue I) = Some k" by blast
  have "k \<le> j" using k j(2) by (auto simp: first_slot_Some not_less [symmetric])
  then have ki: "k < i" using j(1) by simp
  have ne: "fu_rnti (fi_ue I ! k) \<noteq> ?r"
  proof
    assume e: "fu_rnti (fi_ue I ! k) = ?r"
    then have "k \<in> f1ap_live I" using r0 ki il by (simp add: f1ap_live_def)
    then have "k = i" using F(1) i e by (auto simp: f1ap_inst_inv_def dest: inj_onD)
    then show False using ki by simp
  qed
  have ids: "inst_cu_id I ?r = uint ?r" "inst_du_id I ?r = ?d" "inst_rnti_by_cu_id I (uint ?r) = uint ?r"
      "inst_rnti_by_du_id I ?d = uint (fu_rnti (fi_ue I ! k))"
    using live_lookup [OF F(1) i] cu_id_resolves [OF F(2) i] F(2) i k by (simp_all add: f1ap_cu_ids_def inst_lookup_defs)
  show ?thesis
    using ne by (simp add: release_answer_def CU_handle_UE_CONTEXT_RELEASE_COMPLETE_def cu_lookups [OF h(2)] ids f1_ie_defs
        rnti_of_int_def guard_def)
qed

text \<open>
  C18: the release of any number of UEs, in any order.  If the identities that the DU has given to the UEs of the table fit an
  \<open>int\<close> and no earlier slot of the table, even a freed one, holds the same, then in every reachable state of the CU the answers of
  the DU for a list of different UEs that F1 knows are all handled without error.  NGAP gets
  one completion for each of them that has a context in RRC, in the order of the answers and with the identity NGAP has for it, and
  none for the others.  At the end RRC, PDCP and F1 have forgotten these UEs, and have of every other UE what they had.  A UE whose
  identity an earlier slot holds too, in use or freed, cannot be released: its answer ends the process.
\<close>

theorem release_of_all_ues:
  assumes "f1ap_history us (cu_f1 S)" "f1ap_get (cu_f1 S) CUtype 0 id = Inr I"
    and "rrc_history nb (rg_inst (cu_rrc S)) k" "api_history E gnb ms (cu_pdcp S)"
    and "distinct rs" "set rs \<subseteq> fu_rnti ` set (fi_ue I)" "0 \<notin> set rs"
  shows "(f1_du_ids I \<longrightarrow> (\<exists>S'. remove_all release_answer S rs =
      Inr (S', concat (map (\<lambda>r. case rrc_gNB_get_ue_context (rg_inst (cu_rrc S)) r of
        Some c \<Rightarrow> [TO_NGAP (NGAP_UE_CONTEXT_RELEASE_COMPLETE (un_gNB_ue_ngap_id (rg_ue (cu_rrc S) (uc_addr c))))] | None \<Rightarrow> []) rs)) \<and>
    (\<forall>q. rrc_ue (cu_rrc S') q = (if q \<in> set rs then None else rrc_ue (cu_rrc S) q)) \<and>
    (\<forall>q. mg_view (pl_manager (cu_pdcp S')) (uint q) = (if q \<in> set rs then None else mg_view (pl_manager (cu_pdcp S)) (uint q))) \<and>
    (\<forall>q. q \<noteq> 0 \<longrightarrow> f1ap_get_du_ue_f1ap_id (cu_f1 S') CUtype 0 q =
       (if q \<in> set rs then Inr (- 1) else f1ap_get_du_ue_f1ap_id (cu_f1 S) CUtype 0 q)))) \<and>
    (\<forall>i\<in>f1ap_live I. \<forall>j<i. fu_du_ue_f1ap_id (fi_ue I ! j) = int_of_long (fu_du_ue_f1ap_id (fi_ue I ! i)) \<longrightarrow>
       release_answer S (fu_rnti (fi_ue I ! i)) = Inl Exit)"
  using release_all_forgets [OF assms(1,2) _ assms(3-7)] release_of_ambiguous [OF assms(1,2)] by blast

text \<open>A CU with two UEs, of RNTIs 7 and 8, which the DU knows as 5 and 6.\<close>

definition f1ap_two_inst :: f1ap_cudu_inst where
  "f1ap_two_inst = \<lparr>fi_assoc_id = 0, fi_num_ues = 2,
     fi_ue = [\<lparr>fu_rnti = 7, fu_f1ap_uid = 0, fu_du_ue_f1ap_id = 5, fu_cu_ue_f1ap_id = 7\<rparr>,
              \<lparr>fu_rnti = 8, fu_f1ap_uid = 1, fu_du_ue_f1ap_id = 6, fu_cu_ue_f1ap_id = 8\<rparr>] @ replicate 38 empty_f1ap_ue\<rparr>"

lemma f1ap_two:
  "\<exists>F. f1ap_history [] F \<and> f1ap_get F CUtype 0 id = Inr f1ap_two_inst"
proof -
  have rep: "replicate 39 empty_f1ap_ue = empty_f1ap_ue # replicate 38 empty_f1ap_ue"
    using replicate_Suc [of 38 empty_f1ap_ue] by simp
  have u: "fu_rnti empty_f1ap_ue = 0"
    "empty_f1ap_ue\<lparr>fu_rnti := 8, fu_f1ap_uid := 1, fu_du_ue_f1ap_id := 6, fu_cu_ue_f1ap_id := 8\<rparr> =
       \<lparr>fu_rnti = 8, fu_f1ap_uid = 1, fu_du_ue_f1ap_id = 6, fu_cu_ue_f1ap_id = 8\<rparr>"
    by (simp_all add: empty_f1ap_ue_def)
  have s: "inst_add_ue f1ap_example_inst 8 6 = (f1ap_two_inst, 1)"
    unfolding f1ap_example_inst_def rep by (simp add: inst_add_ue_def free_slots f1ap_two_inst_def u)
  have len: "length (f1_du_inst f1ap_example) = length (f1_cu_inst f1ap_example)"
    using f1ap_history_inv [OF f1ap_example_history] by (simp add: f1ap_inv_def)
  have "f1ap_add_osc_ue f1ap_example CUtype 0 8 6 = Inr (f1ap_put f1ap_example CUtype 0 f1ap_two_inst, 1)"
    using f1ap_add_osc_eq [OF f1ap_example_get, of 8 6] s by simp
  then have "f1ap_history [] (f1ap_put f1ap_example CUtype 0 f1ap_two_inst)"
    by (rule f1ap_history.add_osc [OF f1ap_example_history])
  moreover have "f1ap_get (f1ap_put f1ap_example CUtype 0 f1ap_two_inst) CUtype 0 id = Inr f1ap_two_inst"
    using f1ap_get_put [OF len f1ap_example_get] by simp
  ultimately show ?thesis by blast
qed

lemma f1ap_two_du_ids: "f1_du_ids f1ap_two_inst"
proof -
  have "f1ap_live f1ap_two_inst \<subseteq> {0, 1}"
    by (auto simp: f1ap_live_def f1ap_two_inst_def nth_append empty_f1ap_ue_def nth_Cons' split: if_splits)
  then show ?thesis by (auto simp: f1_du_ids_def f1ap_two_inst_def int_of_long_def)
qed

theorem release_of_all_ues_witness:
  "\<exists>S S' g. f1ap_get_du_ue_f1ap_id (cu_f1 S) CUtype 0 8 = Inr 6 \<and>
     remove_all release_answer S [8, 7] = Inr (S', [TO_NGAP (NGAP_UE_CONTEXT_RELEASE_COMPLETE g)]) \<and>
     rrc_ue (cu_rrc S) 7 = Some g \<and> rrc_ue (cu_rrc S') 7 = None \<and> f1ap_get_du_ue_f1ap_id (cu_f1 S') CUtype 0 8 = Inr (- 1)"
proof -
  have none: "rrc_gNB_get_ue_context initial_rrc_inst 7 = None"
    by (simp add: rrc_gNB_get_ue_context_def rrc_ue_tree_find_def rb_find_def initial_rrc_inst_def)
  obtain J c where J: "rrc_gNB_get_next_free_ue_context 14 initial_rrc_inst 7 9 = Inr (J, Some c)" "rrc_inv J"
      "set (rrc_ue_head J) = {c}" "uc_ue_id_rnti c = 7"
    using next_free_new [OF initial_rrc_inv none, of 14 9] by (auto simp: initial_rrc_inst_def)
  have ctx: "rrc_gNB_get_ue_context J 7 = Some c" "rrc_gNB_get_ue_context J 8 = None"
    using get_ue_context_iff [OF J(2)] J(3,4) by auto
  obtain F where F: "f1ap_history [] F" "f1ap_get F CUtype 0 id = Inr f1ap_two_inst" using f1ap_two by blast
  define S where "S = \<lparr>cu_f1 = F, cu_rrc = (init_rrc_gnb ngran_gNB_CU None)\<lparr>rg_inst := J\<rparr>, cu_pdcp = ex_layer True False\<rparr>"
  have S: "cu_f1 S = F" "rg_inst (cu_rrc S) = J" "cu_pdcp S = ex_layer True False" by (simp_all add: S_def)
  have h: "f1ap_history [] (cu_f1 S)" "f1ap_get (cu_f1 S) CUtype 0 id = Inr f1ap_two_inst" "rrc_history 14 (rg_inst (cu_rrc S)) 0"
    "api_history (ex_env True) True [] (cu_pdcp S)"
    using F rrc_history.create [OF rrc_history.start J(1)] ex_history by (simp_all add: S)
  have rs: "distinct [8, 7 :: u16]" "set [8, 7] \<subseteq> fu_rnti ` set (fi_ue f1ap_two_inst)" "0 \<notin> set [8, 7 :: u16]"
    by (simp_all add: f1ap_two_inst_def)
  have e: "f1ap_get_du_ue_f1ap_id (cu_f1 S) CUtype 0 8 = Inr 6"
    unfolding cu_lookups [OF h(2)] by (simp add: inst_lookup_defs f1ap_two_inst_def int_of_long_def)
  obtain S' where S': "remove_all release_answer S [8, 7] = Inr (S', concat (map (\<lambda>r. case rrc_gNB_get_ue_context (rg_inst (cu_rrc S)) r of
        Some c \<Rightarrow> [TO_NGAP (NGAP_UE_CONTEXT_RELEASE_COMPLETE (un_gNB_ue_ngap_id (rg_ue (cu_rrc S) (uc_addr c))))] | None \<Rightarrow> []) [8, 7]))"
      "rrc_ue (cu_rrc S') 7 = None" "f1ap_get_du_ue_f1ap_id (cu_f1 S') CUtype 0 8 = Inr (- 1)"
    using release_of_all_ues [OF h(1-4) rs] f1ap_two_du_ids by (elim conjE) (elim impE exE conjE, assumption, simp)
  have "rrc_ue (cu_rrc S) 7 = Some (un_gNB_ue_ngap_id (rg_ue (cu_rrc S) (uc_addr c)))" by (simp add: rrc_ue_def S ctx)
  then show ?thesis using S' e by (intro exI [of _ S] exI [of _ S'] exI conjI) (simp_all add: S ctx)
qed

end
