(* ===== verification/Spec2Isabelle.thy ===== *)
theory Spec2Isabelle
  imports Rlc_Am_Delivery Rlc_Am_Status Rlc_Transfer Pdcp_Transfer F1ap_Release
begin

text \<open>
  A model of the user plane and of the identity management of the OpenAirInterface 5G CU
  (\<open>src/oai_cu\<close>), with the theorems that make it correct.

  \<^bold>\<open>The program.\<close>  A packet enters the CU as an SDAP SDU, gets a flow header in SDAP
  (\<open>openair2/SDAP/nr_sdap\<close>), a sequence number, a MAC and a cipher in PDCP
  (\<open>openair2/LAYER2/nr_pdcp\<close>), and is cut into PDUs, queued and retransmitted in RLC
  (\<open>openair2/LAYER2/nr_rlc\<close>), which takes its clock and its grants from MAC.  A packet from a UE takes the
  same way back.  Every layer has a directory of UEs, each with signalling and data bearers, and every bearer has an
  entity per layer with function pointers for its operations and callbacks to the layer above or below.  RRC
  configures the layers, keeps a context for each UE (\<open>openair2/RRC/NR\<close>) and talks to the DU over F1AP
  (\<open>openair2/F1AP\<close>) and to the AMF over NGAP (\<open>openair3/NGAP\<close>); each of these interfaces has its own
  identifiers for a UE.

  \<^bold>\<open>The theories\<close>, from the bottom up, and the code that they model:
  \<^item> \<open>Prelude\<close>: results of C functions that may fault, buffers, C arithmetic; the locales \<open>ordered_insertion\<close> (the
    insertion into sorted linked lists that PDCP and RLC define three times) and \<open>entity_contract\<close> (an entity that
    is driven by calls).
  \<^item> \<open>Pdcp_Sdu\<close>, \<open>Pdcp_Security\<close>, \<open>Pdcp_Entity\<close>, \<open>Pdcp_Delivery\<close>: \<open>nr_pdcp_sdu.c\<close>, \<open>nr_pdcp_security_nea2.c\<close>,
    \<open>nr_pdcp_integrity_nia2.c\<close>, \<open>nr_pdcp_entity.c\<close>.  The record \<open>nr_pdcp_entity\<close> has the fields of the C structure.
    Shown: order and uniqueness of what is delivered over every history, up to the last COUNT value, the invariant of the receive
    buffer, the round trip between two peers, exactly what the reordering timer delivers, and where the code deviates (the
    integrity check, the first window, through which the last COUNT is reached early, lengths below the header).
  \<^item> \<open>Rlc_Pdu\<close>, \<open>Rlc_Sdu\<close>, \<open>Rlc_Reassembly\<close>: \<open>nr_rlc_pdu.c\<close>, \<open>nr_rlc_sdu.c\<close> and the reassembly routines that
    the UM and AM entities share.  SDUs live in an explicit heap with their reference counts.  The locale \<open>sn_window\<close> is the
    contract of a comparison of sequence numbers relative to a window.  Shown: the bit decoder reads what the bit encoder
    wrote, and overlapping segments are put together to the SDU they were cut from.
  \<^item> \<open>Rlc_Tm\<close>; \<open>Rlc_Um\<close>, \<open>Rlc_Um_Rx\<close>, \<open>Rlc_Um_Tx\<close>, \<open>Rlc_Um_Props\<close>; \<open>Rlc_Am\<close>, \<open>Rlc_Am_Rx\<close>,
    \<open>Rlc_Am_Delivery\<close>, \<open>Rlc_Am_Status\<close>: \<open>nr_rlc_entity_tm.c\<close>, \<open>nr_rlc_entity_um.c\<close>,
    \<open>nr_rlc_entity_am.c\<close> with their constructors in \<open>nr_rlc_entity.c\<close>.  Shown: TM refines a bounded queue; UM
    delivers a prefix of what was sent over a channel that keeps order, and all of it after enough grants, except that a grant of 2
    bytes with a 12-bit SN loses an SDU; reception in
    AM refines a set of bytes and delivers exactly once each SDU whose bytes all arrived in PDUs that the buffer had room for; the
    size of a status PDU is the one announced.
  \<^item> \<open>Ue_Manager\<close>, \<open>Pdcp_Api\<close>, \<open>Pdcp_Api_Props\<close>, \<open>Rlc_Api\<close>, \<open>Rlc_Api_Props\<close>: \<open>nr_pdcp_ue_manager.c\<close>,
    \<open>nr_rlc_ue_manager.c\<close>, \<open>nr_pdcp_oai_api.c\<close>, \<open>nr_pdcp_timer_thread.c\<close>, \<open>nr_rlc_oai_api.c\<close>, \<open>asn1_utils.c\<close>
    of both layers.  The locale \<open>ue_directory\<close> is the contract of a manager.  Shown: the state of the PDCP layer
    is well-formed after every sequence of calls, the outcome of an uplink PDU and of adding and removing bearers, and that a tick
    reaches every bearer.
  \<^item> \<open>Sdap\<close>: \<open>nr_sdap.c\<close>, \<open>nr_sdap_entity.c\<close>; the locale \<open>flow_table\<close> is the contract of the map from flows to bearers.
  \<^item> \<open>Msg_Queue\<close>: the two queues between threads in \<open>nr_pdcp_oai_api.c\<close>, as a step relation over critical
    sections; the locale \<open>bounded_fifo\<close> is the contract of the ring.  Shown: under every interleaving the queue is a bounded
    FIFO, no slot is overwritten while it is in use, and the queue drains unless its handler faults on an item, at which
    the thread then stands.
  \<^item> \<open>Pdcp_Transfer\<close>, \<open>Rlc_Transfer\<close>: two nodes with the same configuration.  Shown: packets that enter SDAP on one node
    leave SDAP on the other in order and once, unchanged unless the bearer is configured with an uplink SDAP header, which costs
    every uplink packet its first byte; SDUs cross the RLC layers of two nodes in the same way, for any clock ticks and all grants but
    those of 2 bytes with a 12-bit SN.
  \<^item> \<open>Rb_Tree\<close>, \<open>Rrc_Ue_Context\<close>: \<open>rrc_gNB_UE_context.c\<close> with its allocator of local identifiers, and of \<open>rrc_gNB.c\<close> the
    move of a context to a new RNTI.  The locale \<open>rb_key\<close> is the contract of a comparison function for the trees of \<open>tree.h\<close>.
    Shown: identifiers stay unique and lookups right, in a standalone gNB and as long as no re-establishment rewrites a key in place.
  \<^item> \<open>F1ap_Ids\<close>: \<open>f1ap_common.c\<close>, the tables that map the RNTI of a UE to its identifiers at the DU and the CU.  Shown:
    lookups are right after every sequence of calls, and how far \<open>num_ues\<close> is off.
  \<^item> \<open>Ngap_Nnsf\<close>, \<open>Ngap_Nas\<close>: \<open>ngap_gNB_nnsf.c\<close>, \<open>ngap_gNB_ue_context.c\<close>, and of \<open>ngap_gNB_handlers.c\<close>,
    \<open>ngap_gNB_nas_procedures.c\<close>, \<open>ngap_gNB_context_management_procedures.c\<close> the NG set-up, the transport of
    NAS messages and the release of a context.  Shown: the selection of an AMF agrees with a reference, built from the
    documented meaning of the overload states and the causes that pass beyond it, identifiers stay
    unique, every UE keeps an AMF and a stream on which its messages go out, and what a set-up response stores.
  \<^item> \<open>Hash_Table\<close>: \<open>common/utils/hashtable/hashtable.c\<close>.  The locale \<open>dictionary\<close> is the contract of a table
    that owns its data.  Shown: a table refines a partial map, and every object it is given is released exactly once.
  \<^item> \<open>Rrc_Ngap_Ids\<close>: of \<open>rrc_gNB_NGAP.c\<close> the tables of identities that relate a UE of RRC to NGAP, the first, downlink and
    uplink NAS messages and the release of a UE, with \<open>rrc_gNB_generate_RRCRelease\<close> of \<open>rrc_gNB.c\<close>.  Shown: no pair of
    identities is used after its release or lost, the first NAS message of a UE and its answer find the
    UE through RRC and NGAP, and the outcome of a release command in every state.
  \<^item> \<open>F1ap_Cu\<close>: \<open>f1ap_handlers.c\<close>, \<open>f1ap_decoder.c\<close>, \<open>f1ap_cu_rrc_message_transfer.c\<close> and the release of a UE in
    \<open>f1ap_cu_ue_context_management.c\<close>, on the state of F1AP, RRC and PDCP together (record \<open>cu_node\<close>).  Shown: dispatch agrees
    with a reference; the RRC messages of a UE carry the right identities in both directions; a release command of the AMF goes
    through all layers and takes the UE out of each of them; and the messages from the DU that end the process.
  \<^item> \<open>F1ap_Release\<close>: the completions of many releases, one after the other.  The locale \<open>ue_removal\<close> is the contract of a
    place from which UEs are removed; RRC, PDCP, the tables of F1 and the whole CU fulfil it.  Shown: all the UEs are gone
    and no other is touched, if no slot of F1 before theirs holds the same DU identity; otherwise the process ends.

  \<^bold>\<open>State and effects.\<close>  A C structure is a record with the same fields, an enum a datatype; a function that changes a
  structure returns the new one.  Callbacks and messages to other tasks are lists of events in the order the code emits
  them.  \<open>exit\<close>, a failed assertion, a \<open>NULL\<close> dereference, a dangling pointer, an access out of bounds, an overflow, a
  division by zero and an endless loop are values of the datatype \<open>fault\<close>.  Words keep their width where the code
  relies on wrap-around.  Pointers are explicit (addresses, positions) where the code compares or keeps them.

  \<^bold>\<open>Loops.\<close>  Loops over lists are recursive functions.  Loops that might not end are \<open>while_option\<close> or
  \<open>partial_function\<close>, and that they end is proved where a property needs it.  Two functions of \<open>Rlc_Am\<close> take
  fuel: the one over the NACK blocks of a status PDU gets one unit per byte of the PDU and one more, as each block takes at least
  one byte; those that write and measure a status PDU get two units per PDU of the receive list and two more, which \<open>Rlc_Am_Status\<close>
  proves to be enough.

  \<^bold>\<open>Parameters.\<close>  AES in counter mode and CMAC (nettle, OpenSSL) are functions with their documented laws as hypotheses;
  the ASN.1 encoders and the decoder of NGAP, F1AP and RRC are functions that may fail; \<open>random\<close> is any sequence of numbers.  A decoded
  ASN.1 message is a record or a list of information elements.  Memory is always available.

  \<^bold>\<open>Not modelled.\<close>  RRC procedures and the remaining procedures of F1AP (set-up, configuration updates, UE context set-up) and NGAP
  (context set-up, PDU sessions, paging, path switch), which mostly copy fields between
  messages and generated ASN.1 structures; the GTP-U endpoint, which is C++; MAC, PHY and the fronthaul, which belong to the DU; the LTE
  stack (RLC, PDCP v10, S1AP, X2AP, M2AP, M3AP); sockets, SCTP, threads and the ITTI task framework; configuration, logging and
  tracing; simulators; the O-DU of \<open>src/osc_odu_high\<close>, a separate program most of which is generated.
  Memory ordering between threads is not modelled: a critical section is one step.

  \<^bold>\<open>Plan.\<close>  Next are the transmitting side of RLC AM over whole histories, the composition of SDAP, PDCP and RLC into one
  bearer, the F1 set-up, and PDU session procedures between NGAP and RRC.
\<close>

end
